(* ===== verification/Prelude.thy ===== *)
theory Prelude
  imports Main "HOL-Library.Word"
begin

unbundle bit_operations_syntax

text \<open>
  Shared vocabulary of the development.

  Numbers.  The modelled TypeScript uses \<open>number\<close> for line numbers, columns, offsets and
  indices.  They are mathematical integers (\<open>int\<close>) here, which is exact for the safe
  integers (absolute value at most 2^53 - 1).  Where the code narrows a number
  (\<open>x | 0\<close>, a \<open>Uint32Array\<close> cell, \<open>toUint32\<close>) the narrowing is written out, with
  \<open>js_to_int32\<close>, \<open>toUint32\<close> or \<open>32 word\<close>.

  Errors.  A \<open>throw\<close> is a value \<open>Inl e\<close> of type \<open>js_error + 'a\<close>; messages are not
  modelled, the class of the error is.

  Arrays.  \<open>js_get\<close>, \<open>js_slice\<close> and \<open>js_splice\<close> are \<open>a[i]\<close>, \<open>a.slice\<close> and
  \<open>a.splice\<close> of ECMAScript with their treatment of negative and too large indices.
\<close>

section \<open>Errors and results\<close>

datatype js_error = BugIndicatingError | RangeError | TypeError | GenericError

type_synonym 'a result = "js_error + 'a"

abbreviation Ok :: "'a \<Rightarrow> 'a result" where
  "Ok \<equiv> Inr"

abbreviation Throw :: "js_error \<Rightarrow> 'a result" where
  "Throw \<equiv> Inl"

definition is_ok :: "'a result \<Rightarrow> bool" where
  "is_ok r \<longleftrightarrow> (case r of Inl _ \<Rightarrow> False | Inr _ \<Rightarrow> True)"

fun bind_result :: "'a result \<Rightarrow> ('a \<Rightarrow> 'b result) \<Rightarrow> 'b result" where
  "bind_result (Inl e) f = Inl e"
| "bind_result (Inr x) f = f x"

lemma is_ok_simps [simp]: "is_ok (Inr x)" "\<not> is_ok (Inl e)"
  by (simp_all add: is_ok_def)

lemma bind_result_eq_Inr:
  "bind_result r f = Inr y \<longleftrightarrow> (\<exists>x. r = Inr x \<and> f x = Inr y)"
  by (cases r) auto

lemma bind_result_assoc: "bind_result (bind_result r f) g = bind_result r (\<lambda>x. bind_result (f x) g)"
  by (cases r) auto

section \<open>Number conversions of ECMAScript\<close>

text \<open>\<open>x | 0\<close> on an integer: the value reduced modulo 2^32 into the signed range.\<close>

definition js_to_int32 :: "int \<Rightarrow> int" where
  "js_to_int32 x = (x + 2147483648) mod 4294967296 - 2147483648"

definition is_int32 :: "int \<Rightarrow> bool" where
  "is_int32 x \<longleftrightarrow> -2147483648 \<le> x \<and> x < 2147483648"

lemma js_to_int32_id: "is_int32 x \<Longrightarrow> js_to_int32 x = x"
  by (simp add: js_to_int32_def is_int32_def)

lemma js_to_int32_range: "is_int32 (js_to_int32 x)"
  by (simp add: js_to_int32_def is_int32_def)

lemma js_to_int32_idem [simp]: "js_to_int32 (js_to_int32 x) = js_to_int32 x"
  by (rule js_to_int32_id [OF js_to_int32_range])

text \<open>
  \<open>toUint32\<close> of \<open>src/vs/base/common/uint.ts\<close>: clamps to the unsigned range and then applies
  \<open>| 0\<close>, which re-signs values from 2^31 on.
\<close>

definition MAX_UINT_32 :: int where
  "MAX_UINT_32 = 4294967295"

definition toUint32 :: "int \<Rightarrow> int" where
  "toUint32 v = (if v < 0 then 0 else if v > MAX_UINT_32 then MAX_UINT_32 else js_to_int32 v)"

definition MAX_UINT_8 :: int where
  "MAX_UINT_8 = 255"

definition toUint8 :: "int \<Rightarrow> int" where
  "toUint8 v = (if v < 0 then 0 else if v > MAX_UINT_8 then MAX_UINT_8 else js_to_int32 v)"

lemma toUint32_id: "0 \<le> v \<Longrightarrow> v < 2147483648 \<Longrightarrow> toUint32 v = v"
  by (simp add: toUint32_def MAX_UINT_32_def js_to_int32_def)

lemma toUint32_neg: "v < 0 \<Longrightarrow> toUint32 v = 0"
  by (simp add: toUint32_def)

lemma toUint32_resigned:
  "2147483648 \<le> v \<Longrightarrow> v \<le> MAX_UINT_32 \<Longrightarrow> toUint32 v = v - 4294967296"
proof -
  assume v: "2147483648 \<le> v" "v \<le> MAX_UINT_32"
  have "(v + 2147483648) mod 4294967296 = (v + 2147483648 - 4294967296) mod 4294967296"
    by (metis minus_mod_self2)
  also have "\<dots> = v + 2147483648 - 4294967296"
    using v by (intro mod_pos_pos_trivial) (auto simp: MAX_UINT_32_def)
  finally show ?thesis
    using v by (simp add: toUint32_def js_to_int32_def MAX_UINT_32_def)
qed

section \<open>Arrays of ECMAScript\<close>

definition js_get :: "'a list \<Rightarrow> int \<Rightarrow> 'a option" where
  "js_get xs i = (if 0 \<le> i \<and> i < int (length xs) then Some (xs ! nat i) else None)"

text \<open>The absolute index of a relative one, as \<open>slice\<close> and \<open>splice\<close> compute it.\<close>

definition js_rel_index :: "nat \<Rightarrow> int \<Rightarrow> nat" where
  "js_rel_index n i = nat (if i < 0 then max (int n + i) 0 else min i (int n))"

definition js_slice :: "'a list \<Rightarrow> int \<Rightarrow> int \<Rightarrow> 'a list" where
  "js_slice xs s e =
     (let i = js_rel_index (length xs) s; j = js_rel_index (length xs) e
      in take (j - i) (drop i xs))"

definition js_splice :: "'a list \<Rightarrow> int \<Rightarrow> int \<Rightarrow> 'a list \<Rightarrow> 'a list" where
  "js_splice xs s n ys =
     (let i = js_rel_index (length xs) s
      in take i xs @ ys @ drop (i + nat n) xs)"

lemma js_rel_index_nat: "i \<le> n \<Longrightarrow> js_rel_index n (int i) = i"
  by (simp add: js_rel_index_def)

lemma js_rel_index_le: "js_rel_index n i \<le> n"
  by (auto simp: js_rel_index_def)

lemma js_splice_nat:
  "i \<le> length xs \<Longrightarrow> js_splice xs (int i) (int n) ys = take i xs @ ys @ drop (i + n) xs"
  by (simp add: js_splice_def js_rel_index_nat)

lemma js_slice_take: "n \<le> length xs \<Longrightarrow> js_slice xs 0 (int n) = take n xs"
  using js_rel_index_nat [of 0 "length xs"] by (simp add: js_slice_def js_rel_index_nat)

lemma js_slice_drop: "n \<le> length xs \<Longrightarrow> js_slice xs (int n) (int (length xs)) = drop n xs"
  using js_rel_index_nat [of "length xs" "length xs"] by (simp add: js_slice_def js_rel_index_nat)

lemma js_get_nat: "n < length xs \<Longrightarrow> js_get xs (int n) = Some (xs ! n)"
  by (simp add: js_get_def)

lemma js_get_Some_iff: "js_get xs i = Some x \<longleftrightarrow> 0 \<le> i \<and> nat i < length xs \<and> xs ! nat i = x"
  by (auto simp: js_get_def)

lemma js_get_in_set: "js_get xs i = Some x \<Longrightarrow> x \<in> set xs"
  by (auto simp: js_get_Some_iff)

section \<open>Lists\<close>

text \<open>\<open>upto_from a n\<close> is the list \<open>a, a+1, ..., a+n-1\<close> of integers a counting loop visits.\<close>

fun upto_from :: "int \<Rightarrow> nat \<Rightarrow> int list" where
  "upto_from a 0 = []"
| "upto_from a (Suc n) = a # upto_from (a + 1) n"

lemma length_upto_from [simp]: "length (upto_from a n) = n"
  by (induction n arbitrary: a) auto

lemma set_upto_from: "set (upto_from a n) = {a..<a + int n}"
  by (induction n arbitrary: a) auto

lemma nth_upto_from: "k < n \<Longrightarrow> upto_from a n ! k = a + int k"
proof (induction n arbitrary: a k)
  case (Suc n)
  then show ?case by (cases k) auto
qed simp

lemma distinct_upto_from: "distinct (upto_from a n)"
  by (induction n arbitrary: a) (auto simp: set_upto_from)

lemma takeWhile_take: "takeWhile P (take n xs) = take n (takeWhile P xs)"
proof (induction xs arbitrary: n)
  case (Cons x xs)
  then show ?case by (cases n) auto
qed simp

lemma dropWhile_id: "takeWhile P xs = [] \<Longrightarrow> dropWhile P xs = xs"
  by (cases xs) (auto split: if_splits)

lemma rev_dropWhile_takeWhile:
  "rev (dropWhile P (rev xs)) @ rev (takeWhile P (rev xs)) = xs"
  by (metis rev_append rev_rev_ident takeWhile_dropWhile_id)

lemma take_drop_mem:
  "x \<in> set (take i xs) \<or> x \<in> set (drop i xs) \<longleftrightarrow> x \<in> set xs"
  by (metis Un_iff append_take_drop_id set_append)

end
