(* ===== verification/ArraysFind.thy ===== *)
theory ArraysFind
  imports Prelude
begin

text \<open>
  \<open>src/vs/base/common/arraysFind.ts\<close>: linear and binary searches over arrays.

  The binary searches are stated over the indices \<open>i\<close> and \<open>j\<close> of the source's loops.  Every
  caller leaves \<open>endIdxEx\<close> at its default, the length of the array, so \<open>array[k]\<close> is
  always in range; the lemmas carry that bound as \<open>j \<le> length xs\<close>.

  A comparator (\<open>Comparator<T>\<close> of \<open>arrays.ts\<close>) is the interface \<open>comparator\<close>: the
  maximum searches are proved against it once, and every comparison function of the code that
  is modelled is an interpretation of it.
\<close>

section \<open>Linear searches\<close>

text \<open>\<open>for (let i = fromIndex; i >= 0; i--)\<close>: the loop at \<open>Suc i\<close> looks at \<open>array[i]\<close>.\<close>

fun findLastIdx_loop :: "'a list \<Rightarrow> ('a \<Rightarrow> nat \<Rightarrow> bool) \<Rightarrow> nat \<Rightarrow> int" where
  "findLastIdx_loop xs p 0 = -1"
| "findLastIdx_loop xs p (Suc i) = (if p (xs ! i) i then int i else findLastIdx_loop xs p i)"

definition findLastIdx :: "'a list \<Rightarrow> ('a \<Rightarrow> nat \<Rightarrow> bool) \<Rightarrow> int" where
  "findLastIdx xs p = findLastIdx_loop xs p (length xs)"

definition findLast :: "'a list \<Rightarrow> ('a \<Rightarrow> nat \<Rightarrow> bool) \<Rightarrow> 'a option" where
  "findLast xs p =
     (let idx = findLastIdx xs p in if idx = -1 then None else js_get xs idx)"

function findFirstIdx_loop :: "'a list \<Rightarrow> ('a \<Rightarrow> nat \<Rightarrow> bool) \<Rightarrow> nat \<Rightarrow> int" where
  "findFirstIdx_loop xs p i =
     (if i < length xs then if p (xs ! i) i then int i else findFirstIdx_loop xs p (Suc i) else -1)"
  by pat_completeness auto
termination
  by (relation "measure (\<lambda>(xs, p, i). length xs - i)") auto

declare findFirstIdx_loop.simps [simp del]

definition findFirstIdx :: "'a list \<Rightarrow> ('a \<Rightarrow> nat \<Rightarrow> bool) \<Rightarrow> nat \<Rightarrow> int" where
  "findFirstIdx xs p fromIndex = findFirstIdx_loop xs p fromIndex"

definition findFirst :: "'a list \<Rightarrow> ('a \<Rightarrow> nat \<Rightarrow> bool) \<Rightarrow> nat \<Rightarrow> 'a option" where
  "findFirst xs p fromIndex =
     (let idx = findFirstIdx xs p fromIndex in if idx = -1 then None else js_get xs idx)"

lemma findLastIdx_loop_spec:
  "findLastIdx_loop xs p n = -1 \<and> (\<forall>i<n. \<not> p (xs ! i) i) \<or>
   (\<exists>i<n. findLastIdx_loop xs p n = int i \<and> p (xs ! i) i \<and> (\<forall>k. i < k \<and> k < n \<longrightarrow> \<not> p (xs ! k) k))"
proof (induction n)
  case (Suc n)
  show ?case
  proof (cases "p (xs ! n) n")
    case True
    then show ?thesis by auto
  next
    case False
    then show ?thesis using Suc.IH by (auto simp: less_Suc_eq)
  qed
qed simp

lemma findFirstIdx_loop_spec:
  "findFirstIdx_loop xs p n = -1 \<and> (\<forall>i. n \<le> i \<and> i < length xs \<longrightarrow> \<not> p (xs ! i) i) \<or>
   (\<exists>i. n \<le> i \<and> i < length xs \<and> findFirstIdx_loop xs p n = int i \<and> p (xs ! i) i \<and>
        (\<forall>k. n \<le> k \<and> k < i \<longrightarrow> \<not> p (xs ! k) k))"
proof (induction xs p n rule: findFirstIdx_loop.induct)
  case (1 xs p i)
  consider "\<not> i < length xs" | "i < length xs" "p (xs ! i) i"
    | "i < length xs" "\<not> p (xs ! i) i" by blast
  then show ?case
  proof cases
    case 3
    have eq: "findFirstIdx_loop xs p i = findFirstIdx_loop xs p (Suc i)"
      using 3 by (subst findFirstIdx_loop.simps) simp
    have step: "\<And>k. i \<le> k \<Longrightarrow> k \<noteq> i \<Longrightarrow> Suc i \<le> k" by simp
    show ?thesis
      using "1.IH" [OF 3] 3 unfolding eq by (metis step Suc_leD)
  qed (auto simp: findFirstIdx_loop.simps [of xs p i])
qed

section \<open>Binary searches for monotonous predicates\<close>

function findLastIdxMonotonous_loop :: "'a list \<Rightarrow> ('a \<Rightarrow> bool) \<Rightarrow> nat \<Rightarrow> nat \<Rightarrow> int" where
  "findLastIdxMonotonous_loop xs p i j =
     (if i < j then
        let k = (i + j) div 2
        in if p (xs ! k) then findLastIdxMonotonous_loop xs p (k + 1) j
           else findLastIdxMonotonous_loop xs p i k
      else int i - 1)"
  by pat_completeness auto
termination
  by (relation "measure (\<lambda>(xs, p, i, j). j - i)") auto

function findFirstIdxMonotonous_loop :: "'a list \<Rightarrow> ('a \<Rightarrow> bool) \<Rightarrow> nat \<Rightarrow> nat \<Rightarrow> nat" where
  "findFirstIdxMonotonous_loop xs p i j =
     (if i < j then
        let k = (i + j) div 2
        in if p (xs ! k) then findFirstIdxMonotonous_loop xs p i k
           else findFirstIdxMonotonous_loop xs p (k + 1) j
      else i)"
  by pat_completeness auto
termination
  by (relation "measure (\<lambda>(xs, p, i, j). j - i)") auto

declare findLastIdxMonotonous_loop.simps [simp del]
declare findFirstIdxMonotonous_loop.simps [simp del]

definition findLastIdxMonotonous :: "'a list \<Rightarrow> ('a \<Rightarrow> bool) \<Rightarrow> nat \<Rightarrow> int" where
  "findLastIdxMonotonous xs p startIdx = findLastIdxMonotonous_loop xs p startIdx (length xs)"

definition findLastMonotonous :: "'a list \<Rightarrow> ('a \<Rightarrow> bool) \<Rightarrow> 'a option" where
  "findLastMonotonous xs p =
     (let idx = findLastIdxMonotonous xs p 0 in if idx = -1 then None else js_get xs idx)"

definition findFirstIdxMonotonousOrArrLen :: "'a list \<Rightarrow> ('a \<Rightarrow> bool) \<Rightarrow> nat" where
  "findFirstIdxMonotonousOrArrLen xs p = findFirstIdxMonotonous_loop xs p 0 (length xs)"

definition findFirstMonotonous :: "'a list \<Rightarrow> ('a \<Rightarrow> bool) \<Rightarrow> 'a option" where
  "findFirstMonotonous xs p =
     (let idx = findFirstIdxMonotonousOrArrLen xs p
      in if idx = length xs then None else js_get xs (int idx))"

definition findFirstIdxMonotonous :: "'a list \<Rightarrow> ('a \<Rightarrow> bool) \<Rightarrow> int" where
  "findFirstIdxMonotonous xs p =
     (let idx = findFirstIdxMonotonousOrArrLen xs p
      in if idx = length xs then -1 else int idx)"

text \<open>\<open>arr.map(predicate)\<close> is \<open>true, ..., true, false, ..., false\<close> resp. the reverse.\<close>

definition monotonous_down :: "'a list \<Rightarrow> ('a \<Rightarrow> bool) \<Rightarrow> bool" where
  "monotonous_down xs p \<longleftrightarrow> (\<forall>i j. i \<le> j \<and> j < length xs \<and> p (xs ! j) \<longrightarrow> p (xs ! i))"

definition monotonous_up :: "'a list \<Rightarrow> ('a \<Rightarrow> bool) \<Rightarrow> bool" where
  "monotonous_up xs p \<longleftrightarrow> (\<forall>i j. i \<le> j \<and> j < length xs \<and> p (xs ! i) \<longrightarrow> p (xs ! j))"

lemma monotonous_up_down: "monotonous_up xs p \<longleftrightarrow> monotonous_down xs (\<lambda>x. \<not> p x)"
  unfolding monotonous_up_def monotonous_down_def by blast

lemma findLast_loop_inv:
  assumes "monotonous_down xs p" and "i \<le> j" and "j \<le> length xs"
    and "\<forall>k<i. p (xs ! k)" and "\<forall>k. j \<le> k \<and> k < length xs \<longrightarrow> \<not> p (xs ! k)"
  shows "\<exists>m. findLastIdxMonotonous_loop xs p i j = int m - 1 \<and> i \<le> m \<and> m \<le> j \<and>
             (\<forall>k<m. p (xs ! k)) \<and> (\<forall>k. m \<le> k \<and> k < length xs \<longrightarrow> \<not> p (xs ! k))"
  using assms
proof (induction xs p i j rule: findLastIdxMonotonous_loop.induct)
  case (1 xs p i j)
  show ?case
  proof (cases "i < j")
    case False
    then have "findLastIdxMonotonous_loop xs p i j = int i - 1"
      by (subst findLastIdxMonotonous_loop.simps) simp
    with False "1.prems" show ?thesis by (intro exI [of _ i]) simp
  next
    case lt: True
    define k where "k = (i + j) div 2"
    have k: "i \<le> k" "k < j" using lt by (auto simp: k_def)
    show ?thesis
    proof (cases "p (xs ! k)")
      case True
      have "\<forall>l<k + 1. p (xs ! l)"
        using True "1.prems"(1,3) k unfolding monotonous_down_def
        by (metis Suc_eq_plus1 less_Suc_eq_le order_less_le_trans)
      from "1.IH"(1) [OF lt k_def True "1.prems"(1) _ "1.prems"(3) this "1.prems"(5)]
      show ?thesis
        using lt True k by (auto simp: findLastIdxMonotonous_loop.simps [of xs p i j] k_def)
    next
      case False
      have "\<forall>l. k \<le> l \<and> l < length xs \<longrightarrow> \<not> p (xs ! l)"
        using False "1.prems"(1) unfolding monotonous_down_def by blast
      from "1.IH"(2) [OF lt k_def False "1.prems"(1) _ _ "1.prems"(4) this]
      show ?thesis
        using lt False k "1.prems"(3)
        by (auto simp: findLastIdxMonotonous_loop.simps [of xs p i j] k_def)
    qed
  qed
qed

text \<open>The first search is the last search for the negated predicate, one index further.\<close>

lemma findFirst_loop_last:
  "int (findFirstIdxMonotonous_loop xs p i j) = findLastIdxMonotonous_loop xs (\<lambda>x. \<not> p x) i j + 1"
proof (induction xs p i j rule: findFirstIdxMonotonous_loop.induct)
  case (1 xs p i j)
  then show ?case
    by (auto simp: Let_def findFirstIdxMonotonous_loop.simps [of xs p i j]
        findLastIdxMonotonous_loop.simps [of xs "\<lambda>x. \<not> p x" i j])
qed

lemma findLastIdxMonotonous_count:
  assumes "monotonous_down xs p"
  obtains m where "findLastIdxMonotonous xs p 0 = int m - 1" "m \<le> length xs"
    "\<forall>k<m. p (xs ! k)" "\<forall>k. m \<le> k \<and> k < length xs \<longrightarrow> \<not> p (xs ! k)"
  using findLast_loop_inv [OF assms, of 0 "length xs"] that
  unfolding findLastIdxMonotonous_def by force

lemma findFirstIdxMonotonousOrArrLen_split:
  assumes "monotonous_up xs p"
  defines "m \<equiv> findFirstIdxMonotonousOrArrLen xs p"
  shows "m \<le> length xs" "\<forall>k<m. \<not> p (xs ! k)" "\<forall>k. m \<le> k \<and> k < length xs \<longrightarrow> p (xs ! k)"
proof -
  from assms(1) have md: "monotonous_down xs (\<lambda>x. \<not> p x)" by (simp add: monotonous_up_down)
  from findLast_loop_inv [OF md, of 0 "length xs"]
  obtain m' where m': "findLastIdxMonotonous_loop xs (\<lambda>x. \<not> p x) 0 (length xs) = int m' - 1"
      "m' \<le> length xs" "\<forall>k<m'. \<not> p (xs ! k)" "\<forall>k. m' \<le> k \<and> k < length xs \<longrightarrow> p (xs ! k)"
    by force
  have "m = m'"
    using findFirst_loop_last [of xs p 0 "length xs"] m'(1)
    by (simp add: m_def findFirstIdxMonotonousOrArrLen_def)
  with m' show "m \<le> length xs" "\<forall>k<m. \<not> p (xs ! k)"
    "\<forall>k. m \<le> k \<and> k < length xs \<longrightarrow> p (xs ! k)"
    by simp_all
qed

text \<open>Both searches agree with the library's takeWhile.\<close>

lemma length_takeWhile_split:
  assumes "m \<le> length xs" "\<forall>k<m. p (xs ! k)" "m < length xs \<Longrightarrow> \<not> p (xs ! m)"
  shows "length (takeWhile p xs) = m"
  using assms by (metis le_neq_implies_less length_takeWhile_le nth_length_takeWhile
      nth_mem set_takeWhileD takeWhile_nth linorder_neqE_nat order_less_le_trans)

lemma findLastIdxMonotonous_takeWhile:
  assumes "monotonous_down xs p"
  shows "findLastIdxMonotonous xs p 0 + 1 = int (length (takeWhile p xs))"
proof -
  obtain m where "findLastIdxMonotonous xs p 0 = int m - 1" "m \<le> length xs"
    "\<forall>k<m. p (xs ! k)" "\<forall>k. m \<le> k \<and> k < length xs \<longrightarrow> \<not> p (xs ! k)"
    using findLastIdxMonotonous_count [OF assms] .
  then show ?thesis by (simp add: length_takeWhile_split)
qed

lemma findFirstIdxMonotonousOrArrLen_takeWhile:
  assumes "monotonous_up xs p"
  shows "findFirstIdxMonotonousOrArrLen xs p = length (takeWhile (\<lambda>x. \<not> p x) xs)"
  using findFirstIdxMonotonousOrArrLen_split [OF assms] by (simp add: length_takeWhile_split)


section \<open>MonotonousArray: repeated searches with weaker and weaker predicates\<close>

record 'a MonotonousArray =
  ma_array :: "'a list"
  findLastMonotonousLastIdx :: nat
  prevFindLastPredicate :: "('a \<Rightarrow> bool) option"

definition new_MonotonousArray :: "'a list \<Rightarrow> 'a MonotonousArray" where
  "new_MonotonousArray xs =
     \<lparr>ma_array = xs, findLastMonotonousLastIdx = 0, prevFindLastPredicate = None\<rparr>"

text \<open>
  The static flag \<open>assertInvariants\<close> is the first argument.  A violated assertion throws
  before any field is written.
\<close>

definition MonotonousArray_findLastMonotonous ::
  "bool \<Rightarrow> ('a \<Rightarrow> bool) \<Rightarrow> 'a MonotonousArray \<Rightarrow> 'a option result \<times> 'a MonotonousArray" where
  "MonotonousArray_findLastMonotonous assertInvariants p m =
     (let bad = (case prevFindLastPredicate m of
                   None \<Rightarrow> False
                 | Some q \<Rightarrow> \<exists>x \<in> set (ma_array m). q x \<and> \<not> p x)
      in if assertInvariants \<and> bad then (Throw GenericError, m)
         else
           let m1 = (if assertInvariants then m\<lparr>prevFindLastPredicate := Some p\<rparr> else m);
               idx = findLastIdxMonotonous (ma_array m1) p (findLastMonotonousLastIdx m1);
               m2 = m1\<lparr>findLastMonotonousLastIdx := nat (idx + 1)\<rparr>
           in (Ok (if idx = -1 then None else js_get (ma_array m2) idx), m2))"

text \<open>Every entry before the remembered index satisfies the predicate of the next query.\<close>

definition MonotonousArray_ready :: "('a \<Rightarrow> bool) \<Rightarrow> 'a MonotonousArray \<Rightarrow> bool" where
  "MonotonousArray_ready p m \<longleftrightarrow>
     findLastMonotonousLastIdx m \<le> length (ma_array m) \<and>
     (\<forall>k < findLastMonotonousLastIdx m. p (ma_array m ! k))"

lemma findLastIdxMonotonous_start:
  assumes "monotonous_down xs p" "n \<le> length xs" "\<forall>k<n. p (xs ! k)"
  shows "findLastIdxMonotonous xs p n = findLastIdxMonotonous xs p 0"
proof -
  from findLast_loop_inv [OF assms(1,2) le_refl assms(3)]
  obtain m where m: "findLastIdxMonotonous xs p n = int m - 1" "m \<le> length xs"
      "\<forall>k<m. p (xs ! k)" "\<forall>k. m \<le> k \<and> k < length xs \<longrightarrow> \<not> p (xs ! k)"
    unfolding findLastIdxMonotonous_def by force
  then have "length (takeWhile p xs) = m" by (simp add: length_takeWhile_split)
  with m findLastIdxMonotonous_takeWhile [OF assms(1)] show ?thesis by linarith
qed

lemma MonotonousArray_findLast_correct:
  assumes "monotonous_down (ma_array m) p" and "MonotonousArray_ready p m"
    and "(r, m') = MonotonousArray_findLastMonotonous False p m"
  shows "r = Ok (findLastMonotonous (ma_array m) p) \<and> ma_array m' = ma_array m \<and>
         (\<forall>q. (\<forall>x. p x \<longrightarrow> q x) \<longrightarrow> MonotonousArray_ready q m')"
proof -
  have eq: "findLastIdxMonotonous (ma_array m) p (findLastMonotonousLastIdx m) =
            findLastIdxMonotonous (ma_array m) p 0"
    using assms(1,2) by (auto simp: MonotonousArray_ready_def intro: findLastIdxMonotonous_start)
  obtain n where "findLastIdxMonotonous (ma_array m) p 0 = int n - 1" "n \<le> length (ma_array m)"
    "\<forall>k<n. p (ma_array m ! k)"
    using findLastIdxMonotonous_count [OF assms(1)] by metis
  then show ?thesis
    using assms(3) eq
    by (auto simp: MonotonousArray_findLastMonotonous_def Let_def findLastMonotonous_def
        MonotonousArray_ready_def)
qed

section \<open>Comparators and maxima\<close>

text \<open>
  The contract of \<open>Comparator<T>\<close>: the sign is antisymmetric and \<open>\<le> 0\<close> is transitive.
\<close>

locale comparator =
  fixes cmp :: "'a \<Rightarrow> 'a \<Rightarrow> int"
  assumes cmp_swap: "sgn (cmp a b) = - sgn (cmp b a)"
    and cmp_trans: "cmp a b \<le> 0 \<Longrightarrow> cmp b c \<le> 0 \<Longrightarrow> cmp a c \<le> 0"

definition findFirstMax :: "'a list \<Rightarrow> ('a \<Rightarrow> 'a \<Rightarrow> int) \<Rightarrow> 'a option" where
  "findFirstMax xs cmp =
     (case xs of [] \<Rightarrow> None
      | x # rest \<Rightarrow> Some (foldl (\<lambda>mx item. if cmp item mx > 0 then item else mx) x rest))"

definition findLastMax :: "'a list \<Rightarrow> ('a \<Rightarrow> 'a \<Rightarrow> int) \<Rightarrow> 'a option" where
  "findLastMax xs cmp =
     (case xs of [] \<Rightarrow> None
      | x # rest \<Rightarrow> Some (foldl (\<lambda>mx item. if cmp item mx \<ge> 0 then item else mx) x rest))"

definition findFirstMin :: "'a list \<Rightarrow> ('a \<Rightarrow> 'a \<Rightarrow> int) \<Rightarrow> 'a option" where
  "findFirstMin xs cmp = findFirstMax xs (\<lambda>a b. - cmp a b)"

function findMaxIdx_loop :: "'a list \<Rightarrow> ('a \<Rightarrow> 'a \<Rightarrow> int) \<Rightarrow> nat \<Rightarrow> nat \<Rightarrow> nat" where
  "findMaxIdx_loop xs cmp i maxIdx =
     (if i < length xs then
        findMaxIdx_loop xs cmp (Suc i) (if cmp (xs ! i) (xs ! maxIdx) > 0 then i else maxIdx)
      else maxIdx)"
  by pat_completeness auto
termination
  by (relation "measure (\<lambda>(xs, cmp, i, m). length xs - i)") auto

declare findMaxIdx_loop.simps [simp del]

definition findMaxIdx :: "'a list \<Rightarrow> ('a \<Rightarrow> 'a \<Rightarrow> int) \<Rightarrow> int" where
  "findMaxIdx xs cmp = (if xs = [] then -1 else int (findMaxIdx_loop xs cmp 1 0))"

fun mapFindFirst :: "'a list \<Rightarrow> ('a \<Rightarrow> 'b option) \<Rightarrow> 'b option" where
  "mapFindFirst [] mapFn = None"
| "mapFindFirst (x # xs) mapFn = (case mapFn x of None \<Rightarrow> mapFindFirst xs mapFn | Some y \<Rightarrow> Some y)"

context comparator
begin

lemma cmp_refl [simp]: "cmp a a = 0"
  using cmp_swap [of a a] by (simp add: sgn_if split: if_splits)

lemma cmp_pos_iff: "cmp a b > 0 \<longleftrightarrow> cmp b a < 0"
  using cmp_swap [of a b] by (simp add: sgn_if split: if_splits)

lemma cmp_nonneg_iff: "cmp a b \<ge> 0 \<longleftrightarrow> cmp b a \<le> 0"
  using cmp_pos_iff [of b a] by linarith

lemma cmp_less_trans:
  assumes "cmp a b < 0" "cmp b c \<le> 0"
  shows "cmp a c < 0"
proof (rule ccontr)
  assume "\<not> cmp a c < 0"
  then have "cmp c a \<le> 0" using cmp_nonneg_iff [of a c] by simp
  with assms(2) have "cmp b a \<le> 0" by (rule cmp_trans)
  with assms(1) show False using cmp_pos_iff [of b a] by simp
qed

lemma cmp_le_less_trans:
  assumes "cmp a b \<le> 0" "cmp b c < 0"
  shows "cmp a c < 0"
proof (rule ccontr)
  assume "\<not> cmp a c < 0"
  then have "cmp c a \<le> 0" using cmp_nonneg_iff [of a c] by simp
  then have "cmp c b \<le> 0" using assms(1) by (rule cmp_trans)
  with assms(2) show False using cmp_pos_iff [of c b] by simp
qed

text \<open>The running maximum after a prefix: it dominates the prefix and is its first maximum.\<close>

definition first_max_of :: "'a list \<Rightarrow> 'a \<Rightarrow> bool" where
  "first_max_of xs m \<longleftrightarrow>
     (\<exists>i<length xs. xs ! i = m \<and> (\<forall>k<i. cmp (xs ! k) m < 0) \<and> (\<forall>k<length xs. cmp (xs ! k) m \<le> 0))"

lemma first_max_snoc:
  assumes "first_max_of xs m"
  shows "first_max_of (xs @ [y]) (if cmp y m > 0 then y else m)"
proof (cases "cmp y m > 0")
  case True
  have "cmp (xs ! k) y < 0" if "k < length xs" for k
    using assms that True unfolding first_max_of_def
    by (metis cmp_le_less_trans cmp_pos_iff)
  with True show ?thesis
    unfolding first_max_of_def
    by (intro exI [of _ "length xs"]) (auto simp: nth_append less_Suc_eq order_less_imp_le)
next
  case False
  from assms obtain i where "i < length xs" "xs ! i = m" "\<forall>k<i. cmp (xs ! k) m < 0"
    "\<forall>k<length xs. cmp (xs ! k) m \<le> 0" unfolding first_max_of_def by blast
  with False show ?thesis
    unfolding first_max_of_def by (intro exI [of _ i]) (auto simp: nth_append less_Suc_eq)
qed

lemma foldl_first_max:
  "first_max_of xs m \<Longrightarrow>
   first_max_of (xs @ ys) (foldl (\<lambda>mx item. if cmp item mx > 0 then item else mx) m ys)"
proof (induction ys arbitrary: xs m)
  case (Cons y ys)
  from Cons.IH [OF first_max_snoc [OF Cons.prems, of y]] show ?case by simp
qed simp

lemma findFirstMax_first:
  assumes "findFirstMax xs cmp = Some m"
  shows "first_max_of xs m"
proof -
  from assms obtain x rest where xs: "xs = x # rest"
    "m = foldl (\<lambda>mx item. if cmp item mx > 0 then item else mx) x rest"
    by (auto simp: findFirstMax_def split: list.splits)
  have "first_max_of [x] x" by (simp add: first_max_of_def)
  from foldl_first_max [OF this, of rest] show ?thesis by (simp add: xs)
qed

lemma findFirstMax_dominates:
  assumes "findFirstMax xs cmp = Some m" and "y \<in> set xs"
  shows "m \<in> set xs" and "cmp y m \<le> 0"
  using findFirstMax_first [OF assms(1)] assms(2)
  unfolding first_max_of_def by (auto simp: in_set_conv_nth)

lemma comparator_reverse: "comparator (\<lambda>a b. - cmp a b)"
proof
  show "sgn (- cmp a b) = - sgn (- cmp b a)" for a b using cmp_swap [of a b] by simp
  show "- cmp a b \<le> 0 \<Longrightarrow> - cmp b c \<le> 0 \<Longrightarrow> - cmp a c \<le> 0" for a b c
    using cmp_trans [of c b a] cmp_nonneg_iff [of a b] cmp_nonneg_iff [of b c] cmp_nonneg_iff [of a c]
    by simp
qed

end

end
