(* ===== verification/Arrays.thy ===== *)
theory Arrays
  imports ArraysFind "HOL-Library.Multiset"
begin

text \<open>
  \<open>src/vs/base/common/arrays.ts\<close>: comparators and their combinators, binary search, quick
  select, the diff of two sorted arrays, the top-n selection, grouping, splicing, the array queue
  and permutations.

  \<open>Array.prototype.sort\<close> is the stable insertion sort \<open>js_sort\<close>: ECMAScript requires a
  stable sort, and for a comparator the stable sort of a list is unique.  \<open>| 0\<close> of a halved
  sum of indices is the integer division by two (arrays have fewer than 2^31 elements here).
\<close>

section \<open>Comparators\<close>

definition isLessThan :: "int \<Rightarrow> bool" where
  "isLessThan result \<longleftrightarrow> result < 0"

definition isLessThanOrEqual :: "int \<Rightarrow> bool" where
  "isLessThanOrEqual result \<longleftrightarrow> result \<le> 0"

definition isGreaterThan :: "int \<Rightarrow> bool" where
  "isGreaterThan result \<longleftrightarrow> result > 0"

definition isNeitherLessOrGreaterThan :: "int \<Rightarrow> bool" where
  "isNeitherLessOrGreaterThan result \<longleftrightarrow> result = 0"

definition compareBy :: "('b \<Rightarrow> 'a) \<Rightarrow> ('a \<Rightarrow> 'a \<Rightarrow> int) \<Rightarrow> 'b \<Rightarrow> 'b \<Rightarrow> int" where
  "compareBy selector cmp = (\<lambda>a b. cmp (selector a) (selector b))"

fun tieBreakComparators :: "('a \<Rightarrow> 'a \<Rightarrow> int) list \<Rightarrow> 'a \<Rightarrow> 'a \<Rightarrow> int" where
  "tieBreakComparators [] item1 item2 = 0"
| "tieBreakComparators (c # cs) item1 item2 =
     (let result = c item1 item2
      in if \<not> isNeitherLessOrGreaterThan result then result
         else tieBreakComparators cs item1 item2)"

definition numberComparator :: "int \<Rightarrow> int \<Rightarrow> int" where
  "numberComparator a b = a - b"

definition booleanComparator :: "bool \<Rightarrow> bool \<Rightarrow> int" where
  "booleanComparator a b = numberComparator (if a then 1 else 0) (if b then 1 else 0)"

definition reverseOrder :: "('a \<Rightarrow> 'a \<Rightarrow> int) \<Rightarrow> 'a \<Rightarrow> 'a \<Rightarrow> int" where
  "reverseOrder cmp = (\<lambda>a b. - cmp a b)"

definition compareUndefinedSmallest ::
  "('a \<Rightarrow> 'a \<Rightarrow> int) \<Rightarrow> 'a option \<Rightarrow> 'a option \<Rightarrow> int" where
  "compareUndefinedSmallest cmp a b =
     (case a of
        None \<Rightarrow> (case b of None \<Rightarrow> 0 | Some _ \<Rightarrow> -1)
      | Some x \<Rightarrow> (case b of None \<Rightarrow> 1 | Some y \<Rightarrow> cmp x y))"

interpretation numberOrder: comparator numberComparator
  by unfold_locales (auto simp: numberComparator_def sgn_if)

interpretation booleanOrder: comparator booleanComparator
  by unfold_locales (auto simp: booleanComparator_def numberComparator_def split: if_splits)

context comparator
begin

lemma comparator_compareBy: "comparator (compareBy f cmp)"
proof
  show "sgn (compareBy f cmp a b) = - sgn (compareBy f cmp b a)" for a b
    unfolding compareBy_def by (rule cmp_swap)
  show "compareBy f cmp a b \<le> 0 \<Longrightarrow> compareBy f cmp b c \<le> 0 \<Longrightarrow> compareBy f cmp a c \<le> 0"
    for a b c
    unfolding compareBy_def by (rule cmp_trans)
qed

lemma comparator_reverseOrder: "comparator (reverseOrder cmp)"
  unfolding reverseOrder_def by (rule comparator_reverse)

lemma comparator_undefinedSmallest: "comparator (compareUndefinedSmallest cmp)"
proof
  show "sgn (compareUndefinedSmallest cmp a b) = - sgn (compareUndefinedSmallest cmp b a)" for a b
    using cmp_swap [of "the a" "the b"]
    by (cases a; cases b) (simp_all add: compareUndefinedSmallest_def)
  show "compareUndefinedSmallest cmp a b \<le> 0 \<Longrightarrow> compareUndefinedSmallest cmp b c \<le> 0 \<Longrightarrow>
        compareUndefinedSmallest cmp a c \<le> 0" for a b c
    by (auto simp: compareUndefinedSmallest_def intro: cmp_trans split: option.splits)
qed

text \<open>Breaking the ties of one comparator with another gives a comparator again.\<close>

lemma tie_le_iff:
  assumes "comparator cmp2"
  shows "(if cmp a b \<noteq> 0 then cmp a b else cmp2 a b) \<le> 0 \<longleftrightarrow>
         cmp a b < 0 \<or> (cmp a b = 0 \<and> cmp2 a b \<le> 0)"
  by auto

lemma comparator_tie:
  assumes "comparator cmp2"
  shows "comparator (\<lambda>a b. if cmp a b \<noteq> 0 then cmp a b else cmp2 a b)"
proof -
  note swap2 = comparator.cmp_swap [OF assms]
  show ?thesis
  proof
    fix a b
    have "cmp a b = 0 \<longleftrightarrow> cmp b a = 0" using cmp_swap [of a b] by (auto simp: sgn_0_0)
    then show "sgn (if cmp a b \<noteq> 0 then cmp a b else cmp2 a b) =
               - sgn (if cmp b a \<noteq> 0 then cmp b a else cmp2 b a)"
      using cmp_swap [of a b] swap2 [of a b] by auto
  next
    fix a b c
    assume "(if cmp a b \<noteq> 0 then cmp a b else cmp2 a b) \<le> 0"
      and "(if cmp b c \<noteq> 0 then cmp b c else cmp2 b c) \<le> 0"
    then have ab: "cmp a b < 0 \<or> (cmp a b = 0 \<and> cmp2 a b \<le> 0)"
      and bc: "cmp b c < 0 \<or> (cmp b c = 0 \<and> cmp2 b c \<le> 0)"
      by (auto split: if_splits)
    have "cmp a c < 0 \<or> (cmp a c \<le> 0 \<and> cmp2 a c \<le> 0)"
      using ab bc cmp_less_trans [of a b c] cmp_le_less_trans [of a b c] cmp_trans [of a b c]
        comparator.cmp_trans [OF assms, of a b c] by auto
    then show "(if cmp a c \<noteq> 0 then cmp a c else cmp2 a c) \<le> 0" by auto
  qed
qed

end

lemma comparator_const0: "comparator (\<lambda>a b. 0)"
  by unfold_locales auto

lemma comparator_tieBreak:
  "\<forall>c \<in> set cs. comparator c \<Longrightarrow> comparator (tieBreakComparators cs)"
proof (induction cs)
  case Nil
  have "tieBreakComparators [] = (\<lambda>a b. 0 :: int)" by (simp add: fun_eq_iff)
  then show ?case by (simp add: comparator_const0)
next
  case (Cons c cs)
  have "tieBreakComparators (c # cs) =
        (\<lambda>a b. if c a b \<noteq> 0 then c a b else tieBreakComparators cs a b)"
    by (simp add: fun_eq_iff Let_def isNeitherLessOrGreaterThan_def)
  with Cons show ?case by (simp add: comparator.comparator_tie)
qed

section \<open>Binary search\<close>

function binarySearch2_loop :: "(int \<Rightarrow> int) \<Rightarrow> int \<Rightarrow> int \<Rightarrow> int" where
  "binarySearch2_loop compareToKey low high =
     (if low \<le> high then
        let mid = (low + high) div 2; comp = compareToKey mid
        in if comp < 0 then binarySearch2_loop compareToKey (mid + 1) high
           else if comp > 0 then binarySearch2_loop compareToKey low (mid - 1)
           else mid
      else - (low + 1))"
  by pat_completeness auto
termination
  by (relation "measure (\<lambda>(c, low, high). nat (high + 1 - low))") auto

declare binarySearch2_loop.simps [simp del]

definition binarySearch2 :: "nat \<Rightarrow> (int \<Rightarrow> int) \<Rightarrow> int" where
  "binarySearch2 len compareToKey = binarySearch2_loop compareToKey 0 (int len - 1)"

definition binarySearch :: "'a list \<Rightarrow> 'a \<Rightarrow> ('a \<Rightarrow> 'a \<Rightarrow> int) \<Rightarrow> int" where
  "binarySearch xs key cmp = binarySearch2 (length xs) (\<lambda>i. cmp (xs ! nat i) key)"

text \<open>The collection is sorted with respect to the key: below it, at it, above it.\<close>

definition sorted_to_key :: "int \<Rightarrow> (int \<Rightarrow> int) \<Rightarrow> bool" where
  "sorted_to_key n c \<longleftrightarrow>
     (\<forall>i j. 0 \<le> i \<and> i \<le> j \<and> j < n \<longrightarrow> (c j < 0 \<longrightarrow> c i < 0) \<and> (c i > 0 \<longrightarrow> c j > 0))"

lemma sorted_to_keyD:
  "sorted_to_key n c \<Longrightarrow> 0 \<le> i \<Longrightarrow> i \<le> j \<Longrightarrow> j < n \<Longrightarrow> c j < 0 \<Longrightarrow> c i < 0"
  "sorted_to_key n c \<Longrightarrow> 0 \<le> i \<Longrightarrow> i \<le> j \<Longrightarrow> j < n \<Longrightarrow> c i > 0 \<Longrightarrow> c j > 0"
  unfolding sorted_to_key_def by blast+

definition search_result :: "int \<Rightarrow> (int \<Rightarrow> int) \<Rightarrow> int \<Rightarrow> bool" where
  "search_result n c r \<longleftrightarrow>
     (if r \<ge> 0 then r < n \<and> c r = 0
      else (let p = - (r + 1) in p \<le> n \<and> (\<forall>i. 0 \<le> i \<and> i < p \<longrightarrow> c i < 0) \<and>
                                 (\<forall>i. p \<le> i \<and> i < n \<longrightarrow> c i > 0)))"

lemma binarySearch2_loop_correct:
  assumes "sorted_to_key n c" "0 \<le> low" "low \<le> high + 1" "high < n"
    and "\<forall>i. 0 \<le> i \<and> i < low \<longrightarrow> c i < 0" and "\<forall>i. high < i \<and> i < n \<longrightarrow> c i > 0"
  shows "search_result n c (binarySearch2_loop c low high)"
  using assms
proof (induction c low high rule: binarySearch2_loop.induct)
  case (1 c low high)
  note prems = "1.prems"
  show ?case
  proof (cases "low \<le> high")
    case False
    then have eq: "binarySearch2_loop c low high = - (low + 1)"
      by (subst binarySearch2_loop.simps) simp
    from False prems have "low = high + 1" by simp
    with prems show ?thesis unfolding eq search_result_def Let_def by simp
  next
    case le: True
    define mid where "mid = (low + high) div 2"
    have mid: "low \<le> mid" "mid \<le> high" using le by (auto simp: mid_def)
    consider (less) "c mid < 0" | (greater) "c mid > 0" | (hit) "c mid = 0" by linarith
    then show ?thesis
    proof cases
      case less
      have eq: "binarySearch2_loop c low high = binarySearch2_loop c (mid + 1) high"
        using le less by (subst binarySearch2_loop.simps) (simp add: mid_def)
      have "c i < 0" if "0 \<le> i \<and> i < mid + 1" for i
        using that mid prems(4) less by (intro sorted_to_keyD(1) [OF prems(1), of i mid]) simp_all
      then have "\<forall>i. 0 \<le> i \<and> i < mid + 1 \<longrightarrow> c i < 0" by blast
      then show ?thesis
        unfolding eq using "1.IH"(1) [OF le mid_def refl less prems(1) _ _ prems(4) _ prems(6)] mid prems(2)
        by simp
    next
      case greater
      have eq: "binarySearch2_loop c low high = binarySearch2_loop c low (mid - 1)"
        using le greater by (subst binarySearch2_loop.simps) (simp add: mid_def)
      have "c i > 0" if "mid - 1 < i \<and> i < n" for i
        using that mid prems(2) greater by (intro sorted_to_keyD(2) [OF prems(1), of mid i]) simp_all
      then have "\<forall>i. mid - 1 < i \<and> i < n \<longrightarrow> c i > 0" by blast
      moreover have "\<not> c mid < 0" using greater by simp
      ultimately show ?thesis
        unfolding eq using "1.IH"(2) [OF le mid_def refl _ greater prems(1,2) _ _ prems(5)] mid prems(4)
        by simp
    next
      case hit
      have eq: "binarySearch2_loop c low high = mid"
        unfolding binarySearch2_loop.simps [of c low high] Let_def mid_def [symmetric]
        using le hit by simp
      have "0 \<le> mid" "mid < n" using mid prems(2,4) by simp_all
      with hit show ?thesis unfolding eq by (simp add: search_result_def)
    qed
  qed
qed

lemma binarySearch2_correct:
  "sorted_to_key (int n) c \<Longrightarrow> search_result (int n) c (binarySearch2 n c)"
  unfolding binarySearch2_def by (rule binarySearch2_loop_correct) auto

end
