(* ===== verification/ArraySelect.thy ===== *)
theory ArraySelect
  imports Arrays
begin

text \<open>
  Selection from \<open>src/vs/base/common/arrays.ts\<close>: \<open>quickSelect\<close> and \<open>top\<close> with its
  step \<open>topStep\<close>, against the stable sort \<open>js_sort\<close>.

  \<open>Math.random()\<close> in \<open>quickSelect\<close> is an argument \<open>pick\<close>: the index it leads to for
  the array at hand, reduced into the array as \<open>Math.floor(length * random)\<close> is.  Every
  recursive call is on a strictly shorter array, so a function of the array covers every sequence
  of random numbers.  The recursion ends only for a comparison that calls the pivot equal to
  itself, so it carries fuel, and \<open>quickSelect_total\<close> says that the length of the array plus
  one is enough.
\<close>

section \<open>The stable sort of the language\<close>

fun js_insert :: "('a \<Rightarrow> 'a \<Rightarrow> int) \<Rightarrow> 'a \<Rightarrow> 'a list \<Rightarrow> 'a list" where
  "js_insert cmp x [] = [x]"
| "js_insert cmp x (y # ys) = (if cmp x y < 0 then x # y # ys else y # js_insert cmp x ys)"

definition js_sort :: "('a \<Rightarrow> 'a \<Rightarrow> int) \<Rightarrow> 'a list \<Rightarrow> 'a list" where
  "js_sort cmp xs = foldl (\<lambda>acc x. js_insert cmp x acc) [] xs"

abbreviation sorted_by :: "('a \<Rightarrow> 'a \<Rightarrow> int) \<Rightarrow> 'a list \<Rightarrow> bool" where
  "sorted_by cmp \<equiv> sorted_wrt (\<lambda>a b. cmp a b \<le> 0)"

lemma mset_js_insert [simp]: "mset (js_insert cmp x xs) = add_mset x (mset xs)"
  by (induction xs) auto

lemma set_js_insert [simp]: "set (js_insert cmp x xs) = insert x (set xs)"
  by (induction xs) auto

lemma js_sort_snoc: "js_sort cmp (xs @ [x]) = js_insert cmp x (js_sort cmp xs)"
  by (simp add: js_sort_def)

lemma mset_js_sort: "mset (js_sort cmp xs) = mset xs"
  by (induction xs rule: rev_induct) (simp_all add: js_sort_snoc, simp add: js_sort_def)

lemma length_js_sort: "length (js_sort cmp xs) = length xs"
  using mset_js_sort by (rule mset_eq_length)

lemma js_insert_split:
  "js_insert cmp x xs =
   takeWhile (\<lambda>e. \<not> cmp x e < 0) xs @ x # dropWhile (\<lambda>e. \<not> cmp x e < 0) xs"
  by (induction xs) auto

section \<open>quickSelect\<close>

definition qs_lower :: "('a \<Rightarrow> 'a \<Rightarrow> int) \<Rightarrow> 'a \<Rightarrow> 'a list \<Rightarrow> 'a list" where
  "qs_lower cmp pivotValue xs = filter (\<lambda>v. cmp v pivotValue < 0) xs"

definition qs_higher :: "('a \<Rightarrow> 'a \<Rightarrow> int) \<Rightarrow> 'a \<Rightarrow> 'a list \<Rightarrow> 'a list" where
  "qs_higher cmp pivotValue xs = filter (\<lambda>v. cmp v pivotValue > 0) xs"

definition qs_pivots :: "('a \<Rightarrow> 'a \<Rightarrow> int) \<Rightarrow> 'a \<Rightarrow> 'a list \<Rightarrow> 'a list" where
  "qs_pivots cmp pivotValue xs = filter (\<lambda>v. cmp v pivotValue = 0) xs"

fun quickSelect ::
  "nat \<Rightarrow> ('a list \<Rightarrow> nat) \<Rightarrow> nat \<Rightarrow> 'a list \<Rightarrow> ('a \<Rightarrow> 'a \<Rightarrow> int) \<Rightarrow> 'a result option" where
  "quickSelect 0 pick nthIdx data cmp = None"
| "quickSelect (Suc fuel) pick nthIdx data cmp =
     (if nthIdx \<ge> length data then Some (Throw TypeError)
      else
        let pivotValue = data ! (pick data mod length data);
            lower = qs_lower cmp pivotValue data;
            higher = qs_higher cmp pivotValue data;
            pivots = qs_pivots cmp pivotValue data
        in if nthIdx < length lower then quickSelect fuel pick nthIdx lower cmp
           else if nthIdx < length lower + length pivots then Some (Ok (hd pivots))
           else quickSelect fuel pick (nthIdx - (length lower + length pivots)) higher cmp)"

text \<open>The rank of a value: how many elements are below it, how many are not above it.\<close>

definition has_rank :: "('a \<Rightarrow> 'a \<Rightarrow> int) \<Rightarrow> 'a list \<Rightarrow> nat \<Rightarrow> 'a \<Rightarrow> bool" where
  "has_rank cmp xs n v \<longleftrightarrow>
     v \<in> set xs \<and> length (filter (\<lambda>x. cmp x v < 0) xs) \<le> n \<and>
     n < length (filter (\<lambda>x. cmp x v \<le> 0) xs)"

lemma length_three_way:
  "length (qs_lower cmp p xs) + length (qs_pivots cmp p xs) + length (qs_higher cmp p xs) = length xs"
  by (induction xs) (auto simp: qs_lower_def qs_pivots_def qs_higher_def)

lemma length_le_split:
  "length (filter (\<lambda>v. cmp v p \<le> (0::int)) xs) =
   length (qs_lower cmp p xs) + length (qs_pivots cmp p xs)"
  by (induction xs) (auto simp: qs_lower_def qs_pivots_def)

lemma length_filter_weaken:
  "(\<And>x. x \<in> set xs \<Longrightarrow> P x \<Longrightarrow> Q x) \<Longrightarrow> length (filter P xs) \<le> length (filter Q xs)"
  by (induction xs) (auto simp: le_Suc_eq)

context comparator
begin

lemma sorted_js_insert: "sorted_by cmp xs \<Longrightarrow> sorted_by cmp (js_insert cmp x xs)"
proof (induction xs)
  case (Cons y ys)
  show ?case
  proof (cases "cmp x y < 0")
    case True
    then have "cmp x z \<le> 0" if "z \<in> set ys" for z
      using Cons.prems that cmp_less_trans [of x y z] by auto
    with True Cons.prems show ?thesis by auto
  next
    case False
    then have "cmp y x \<le> 0" using cmp_nonneg_iff [of x y] by simp
    with False Cons show ?thesis by auto
  qed
qed simp

lemma sorted_js_sort: "sorted_by cmp (js_sort cmp xs)"
  by (induction xs rule: rev_induct) (simp_all add: js_sort_snoc sorted_js_insert, simp add: js_sort_def)

text \<open>Below a value that is itself below the pivot there are only elements below the pivot.\<close>

lemma filter_qs_lower:
  assumes "cmp v p < 0"
  shows "filter (\<lambda>x. cmp x v < 0) (qs_lower cmp p xs) = filter (\<lambda>x. cmp x v < 0) xs"
    and "filter (\<lambda>x. cmp x v \<le> 0) (qs_lower cmp p xs) = filter (\<lambda>x. cmp x v \<le> 0) xs"
proof -
  have "cmp x p < 0" if "cmp x v \<le> 0" for x
    using that assms by (rule cmp_le_less_trans)
  then show "filter (\<lambda>x. cmp x v < 0) (qs_lower cmp p xs) = filter (\<lambda>x. cmp x v < 0) xs"
    and "filter (\<lambda>x. cmp x v \<le> 0) (qs_lower cmp p xs) = filter (\<lambda>x. cmp x v \<le> 0) xs"
    unfolding qs_lower_def filter_filter by (auto intro!: filter_cong)
qed

lemma length_qs_higher:
  assumes "cmp v p > 0"
  shows "length (filter (\<lambda>x. cmp x v < 0) xs) =
         length (filter (\<lambda>x. cmp x p \<le> 0) xs) + length (filter (\<lambda>x. cmp x v < 0) (qs_higher cmp p xs))"
    and "length (filter (\<lambda>x. cmp x v \<le> 0) xs) =
         length (filter (\<lambda>x. cmp x p \<le> 0) xs) + length (filter (\<lambda>x. cmp x v \<le> 0) (qs_higher cmp p xs))"
proof -
  have pv: "cmp p v < 0" using assms cmp_pos_iff by blast
  have below: "cmp x v < 0" if "cmp x p \<le> 0" for x
    using that pv by (rule cmp_le_less_trans)
  show "length (filter (\<lambda>x. cmp x v < 0) xs) =
         length (filter (\<lambda>x. cmp x p \<le> 0) xs) + length (filter (\<lambda>x. cmp x v < 0) (qs_higher cmp p xs))"
    by (induction xs) (auto simp: qs_higher_def dest: below)
  show "length (filter (\<lambda>x. cmp x v \<le> 0) xs) =
         length (filter (\<lambda>x. cmp x p \<le> 0) xs) + length (filter (\<lambda>x. cmp x v \<le> 0) (qs_higher cmp p xs))"
    by (induction xs) (auto simp: qs_higher_def dest: below)
qed

lemma has_rank_lower:
  assumes "has_rank cmp (qs_lower cmp p xs) n v"
  shows "has_rank cmp xs n v"
  using assms filter_qs_lower [of v p xs] by (auto simp: has_rank_def qs_lower_def)

lemma has_rank_higher:
  assumes "has_rank cmp (qs_higher cmp p xs) n v"
  shows "has_rank cmp xs (n + (length (qs_lower cmp p xs) + length (qs_pivots cmp p xs))) v"
proof -
  from assms have "cmp v p > 0" "v \<in> set xs" by (auto simp: has_rank_def qs_higher_def)
  with assms length_qs_higher [of v p xs] show ?thesis
    by (auto simp: has_rank_def length_le_split)
qed

lemma has_rank_pivot:
  assumes "length (qs_lower cmp p xs) \<le> n"
    and "n < length (qs_lower cmp p xs) + length (qs_pivots cmp p xs)"
  shows "has_rank cmp xs n (hd (qs_pivots cmp p xs))"
proof -
  let ?v = "hd (qs_pivots cmp p xs)"
  from assms have "qs_pivots cmp p xs \<noteq> []" by auto
  then have "?v \<in> set (qs_pivots cmp p xs)" by simp
  then have v: "?v \<in> set xs" "cmp ?v p = 0" by (auto simp: qs_pivots_def)
  then have pv: "cmp p ?v = 0" using cmp_nonneg_iff [of ?v p] cmp_nonneg_iff [of p ?v] by simp
  have "length (filter (\<lambda>x. cmp x ?v < 0) xs) \<le> length (qs_lower cmp p xs)"
    unfolding qs_lower_def using v(2) by (intro length_filter_weaken) (auto intro: cmp_less_trans)
  moreover have "length (filter (\<lambda>x. cmp x p \<le> 0) xs) \<le> length (filter (\<lambda>x. cmp x ?v \<le> 0) xs)"
    using pv by (intro length_filter_weaken) (auto intro: cmp_trans)
  ultimately show ?thesis
    using assms v(1) by (simp add: has_rank_def length_le_split)
qed

lemma quickSelect_total:
  assumes "nthIdx < length data" and "length data < fuel"
  shows "\<exists>v. quickSelect fuel pick nthIdx data cmp = Some (Ok v) \<and> has_rank cmp data nthIdx v"
  using assms
proof (induction fuel arbitrary: nthIdx data)
  case (Suc fuel)
  define p where "p = data ! (pick data mod length data)"
  have p: "p \<in> set data" using Suc.prems(1) unfolding p_def by (intro nth_mem mod_less_divisor) linarith
  have "p \<in> set (qs_pivots cmp p data)" using p by (simp add: qs_pivots_def)
  then have piv: "length (qs_pivots cmp p data) > 0" by (rule length_pos_if_in_set)
  note three = length_three_way [of cmp p data]
  let ?l = "length (qs_lower cmp p data)" and ?q = "length (qs_pivots cmp p data)"
  have step: "quickSelect (Suc fuel) pick nthIdx data cmp =
      (if nthIdx < ?l then quickSelect fuel pick nthIdx (qs_lower cmp p data) cmp
       else if nthIdx < ?l + ?q then Some (Ok (hd (qs_pivots cmp p data)))
       else quickSelect fuel pick (nthIdx - (?l + ?q)) (qs_higher cmp p data) cmp)"
    using Suc.prems(1) by (simp add: Let_def p_def)
  consider "nthIdx < ?l" | "?l \<le> nthIdx" "nthIdx < ?l + ?q" | "?l + ?q \<le> nthIdx" by linarith
  then show ?case
  proof cases
    case 1
    have "length (qs_lower cmp p data) < fuel" using three piv Suc.prems(2) by linarith
    with 1 Suc.IH [of nthIdx "qs_lower cmp p data"] Suc.prems(1)
    obtain v where "quickSelect fuel pick nthIdx (qs_lower cmp p data) cmp = Some (Ok v)"
      "has_rank cmp (qs_lower cmp p data) nthIdx v"
      by force
    then show ?thesis using 1 has_rank_lower unfolding step by auto
  next
    case 2
    then show ?thesis using has_rank_pivot unfolding step by simp
  next
    case 3
    have "length (qs_higher cmp p data) < fuel" "nthIdx - (?l + ?q) < length (qs_higher cmp p data)"
      using three piv Suc.prems 3 by linarith+
    with 3 Suc.IH [of "nthIdx - (?l + ?q)" "qs_higher cmp p data"] Suc.prems(1)
    obtain v where v: "quickSelect fuel pick (nthIdx - (?l + ?q)) (qs_higher cmp p data) cmp = Some (Ok v)"
      "has_rank cmp (qs_higher cmp p data) (nthIdx - (?l + ?q)) v"
      by force
    from has_rank_higher [OF v(2)] 3 have "has_rank cmp data nthIdx v" by simp
    with v(1) 3 show ?thesis unfolding step by simp
  qed
qed simp

end


section \<open>top\<close>

text \<open>
  One iteration of \<open>topStep\<close>: an element below the last of the kept ones replaces it, at
  the place found by binary search.
\<close>

definition topStep_one :: "('a \<Rightarrow> 'a \<Rightarrow> int) \<Rightarrow> 'a list \<Rightarrow> 'a \<Rightarrow> 'a list" where
  "topStep_one cmp res element =
     (if cmp element (last res) < 0 then
        let popped = butlast res;
            j = findFirstIdxMonotonousOrArrLen popped (\<lambda>e. cmp element e < 0)
        in js_splice popped (int j) 0 [element]
      else res)"

function topStep :: "'a list \<Rightarrow> ('a \<Rightarrow> 'a \<Rightarrow> int) \<Rightarrow> 'a list \<Rightarrow> nat \<Rightarrow> nat \<Rightarrow> 'a list" where
  "topStep xs cmp res i m =
     (if i < m then topStep xs cmp (topStep_one cmp res (xs ! i)) (Suc i) m else res)"
  by pat_completeness auto
termination
  by (relation "measure (\<lambda>(xs, cmp, res, i, m). m - i)") auto

declare topStep.simps [simp del]

lemma topStep_less: "i < m \<Longrightarrow> topStep xs cmp res i m = topStep xs cmp (topStep_one cmp res (xs ! i)) (Suc i) m"
  by (subst topStep.simps) simp

lemma topStep_done [simp]: "m \<le> i \<Longrightarrow> topStep xs cmp res i m = res"
  by (subst topStep.simps) simp

definition top_n :: "'a list \<Rightarrow> ('a \<Rightarrow> 'a \<Rightarrow> int) \<Rightarrow> nat \<Rightarrow> 'a list" where
  "top_n xs cmp n =
     (if n = 0 then []
      else topStep xs cmp (js_sort cmp (take n xs)) n (length xs))"

text \<open>
  The batches of \<open>topAsync\<close> between two turns of the event loop, without the waiting and the
  cancellation: \<open>for (let i = n, m = min(n + batch, o); i < o; i = m, m = min(m + batch, o))\<close>.
  A batch of size zero makes no progress in the code; it is excluded by \<open>Suc batch\<close>.
\<close>

function topAsync_loop ::
  "'a list \<Rightarrow> ('a \<Rightarrow> 'a \<Rightarrow> int) \<Rightarrow> 'a list \<Rightarrow> nat \<Rightarrow> nat \<Rightarrow> 'a list" where
  "topAsync_loop xs cmp res i batch =
     (if i < length xs then
        let m = min (i + Suc batch) (length xs)
        in topAsync_loop xs cmp (topStep xs cmp res i m) m batch
      else res)"
  by pat_completeness auto
termination
  by (relation "measure (\<lambda>(xs, cmp, res, i, batch). length xs - i)") auto

declare topAsync_loop.simps [simp del]

definition topAsync_n :: "'a list \<Rightarrow> ('a \<Rightarrow> 'a \<Rightarrow> int) \<Rightarrow> nat \<Rightarrow> nat \<Rightarrow> 'a list" where
  "topAsync_n xs cmp n batch =
     (if n = 0 then [] else topAsync_loop xs cmp (js_sort cmp (take n xs)) n batch)"

lemma topStep_append:
  assumes "i \<le> k" "k \<le> m"
  shows "topStep xs cmp (topStep xs cmp res i k) k m = topStep xs cmp res i m"
  using assms
proof (induction xs cmp res i k rule: topStep.induct)
  case (1 xs cmp res i k)
  show ?case
  proof (cases "i < k")
    case True
    with "1.IH" [OF True] "1.prems" show ?thesis by (simp add: topStep_less)
  next
    case False
    with "1.prems" show ?thesis by simp
  qed
qed

lemma topAsync_loop_step:
  "i \<le> length xs \<Longrightarrow> topAsync_loop xs cmp res i batch = topStep xs cmp res i (length xs)"
proof (induction xs cmp res i batch rule: topAsync_loop.induct)
  case (1 xs cmp res i batch)
  show ?case
  proof (cases "i < length xs")
    case True
    define m where "m = min (i + Suc batch) (length xs)"
    have m: "i \<le> m" "m \<le> length xs" using True by (auto simp: m_def)
    have "topAsync_loop xs cmp res i batch = topAsync_loop xs cmp (topStep xs cmp res i m) m batch"
      using True by (subst topAsync_loop.simps) (simp add: m_def Let_def)
    also have "\<dots> = topStep xs cmp (topStep xs cmp res i m) m (length xs)"
      using "1.IH" [OF True m_def m(2)] .
    also have "\<dots> = topStep xs cmp res i (length xs)" by (rule topStep_append [OF m])
    finally show ?thesis .
  next
    case False
    with "1.prems" show ?thesis by (subst topAsync_loop.simps) simp
  qed
qed

lemma take_insert_short:
  assumes "j \<le> n" "n < length ss"
  shows "take (Suc n) (take j ss @ x # drop j ss) = take j ss @ x # drop j (take n ss)"
  using assms by (simp add: take_Cons' drop_take Suc_diff_le min_def)

lemma take_insert_long:
  assumes "n \<le> j" "j \<le> length ss"
  shows "take n (take j ss @ x # drop j ss) = take n ss"
  using assms by (simp add: min_def)

context comparator
begin

lemma sorted_prefix_le:
  "sorted_by cmp ss \<Longrightarrow> i \<le> j \<Longrightarrow> j < length ss \<Longrightarrow> cmp (ss ! i) (ss ! j) \<le> 0"
  by (cases "i = j") (auto simp: sorted_wrt_iff_nth_less)

lemma monotonous_above:
  "sorted_by cmp ss \<Longrightarrow> monotonous_up ss (\<lambda>e. cmp x e < 0)"
  unfolding monotonous_up_def using sorted_prefix_le cmp_less_trans by blast

text \<open>One step on the first \<open>n\<close> elements of a sorted list inserts into the sorted list.\<close>

lemma topStep_one_take:
  assumes srt: "sorted_by cmp ss" and n: "0 < n" "n \<le> length ss"
  shows "topStep_one cmp (take n ss) x = take n (js_insert cmp x ss)"
proof -
  obtain k where k: "n = Suc k" using n(1) by (cases n) auto
  have len: "k < length ss" using n k by simp
  let ?P = "\<lambda>e. \<not> cmp x e < 0"
  let ?j = "length (takeWhile ?P ss)"
  have ins: "js_insert cmp x ss = take ?j ss @ x # drop ?j ss"
    unfolding js_insert_split by (subst takeWhile_eq_take, subst dropWhile_eq_drop) (rule refl)
  have lst: "last (take n ss) = ss ! k" using len k by (simp add: take_Suc_conv_app_nth)
  have bl: "butlast (take n ss) = take k ss" using len k by (simp add: butlast_take)
  show ?thesis
  proof (cases "cmp x (ss ! k) < 0")
    case True
    have jk: "?j \<le> k"
    proof (rule ccontr)
      assume "\<not> ?j \<le> k"
      then have "k < ?j" by simp
      then have "takeWhile ?P ss ! k = ss ! k" and "takeWhile ?P ss ! k \<in> set (takeWhile ?P ss)"
        by (rule takeWhile_nth, rule nth_mem)
      then have "ss ! k \<in> set (takeWhile ?P ss)" by simp
      with True show False by (auto dest: set_takeWhileD)
    qed
    have srt': "sorted_by cmp (take k ss)" using srt by (rule sorted_wrt_take)
    have "findFirstIdxMonotonousOrArrLen (take k ss) (\<lambda>e. cmp x e < 0) =
          length (takeWhile ?P (take k ss))"
      by (rule findFirstIdxMonotonousOrArrLen_takeWhile [OF monotonous_above [OF srt']])
    also have "takeWhile ?P (take k ss) = takeWhile ?P ss"
      using jk by (simp add: takeWhile_take)
    finally have j: "findFirstIdxMonotonousOrArrLen (take k ss) (\<lambda>e. cmp x e < 0) = ?j" .
    have "topStep_one cmp (take n ss) x = js_splice (take k ss) (int ?j) 0 [x]"
      unfolding topStep_one_def lst bl Let_def j using True by simp
    also have "\<dots> = take ?j ss @ x # drop ?j (take k ss)"
      using js_splice_nat [of ?j "take k ss" 0 "[x]"] jk len by (simp add: min_def)
    also have "\<dots> = take n (take ?j ss @ x # drop ?j ss)"
      using take_insert_short [OF jk len, of x] k by simp
    finally show ?thesis unfolding ins .
  next
    case False
    have "?j \<ge> n"
    proof (rule ccontr)
      assume "\<not> ?j \<ge> n"
      then have jk: "?j \<le> k" using k by simp
      then have "\<not> ?P (ss ! ?j)" using len by (intro nth_length_takeWhile) simp
      then have "cmp x (ss ! k) < 0"
        using sorted_prefix_le [OF srt jk len] cmp_less_trans by blast
      with False show False by simp
    qed
    then show ?thesis
      using False by (simp add: topStep_one_def lst ins take_insert_long length_takeWhile_le)
  qed
qed

lemma topStep_sort:
  assumes "0 < n" "n \<le> i" "i \<le> m" "m \<le> length xs"
  shows "topStep xs cmp (take n (js_sort cmp (take i xs))) i m = take n (js_sort cmp (take m xs))"
  using assms(2,3)
proof (induction "m - i" arbitrary: i)
  case 0
  then show ?case by simp
next
  case (Suc d)
  then have im: "i < m" by simp
  have "take (Suc i) xs = take i xs @ [xs ! i]"
    using im assms(4) by (simp add: take_Suc_conv_app_nth)
  then have "js_sort cmp (take (Suc i) xs) = js_insert cmp (xs ! i) (js_sort cmp (take i xs))"
    by (simp add: js_sort_snoc)
  moreover have "n \<le> length (js_sort cmp (take i xs))"
    using Suc.prems im assms(4) by (simp add: length_js_sort)
  ultimately have "topStep_one cmp (take n (js_sort cmp (take i xs))) (xs ! i) =
      take n (js_sort cmp (take (Suc i) xs))"
    using topStep_one_take [OF sorted_js_sort assms(1)] by simp
  then show ?case
    using Suc.hyps(1) [of "Suc i"] Suc.hyps(2) Suc.prems im
    by (simp add: topStep_less)
qed

lemma top_n_sort: "top_n xs cmp n = take n (js_sort cmp xs)"
proof (cases "n = 0 \<or> length xs \<le> n")
  case True
  then show ?thesis
    by (auto simp: top_n_def length_js_sort)
next
  case False
  then have "topStep xs cmp (take n (js_sort cmp (take n xs))) n (length xs) =
      take n (js_sort cmp (take (length xs) xs))"
    by (intro topStep_sort) auto
  with False show ?thesis by (simp add: top_n_def length_js_sort)
qed

lemma topAsync_n_top_n: "topAsync_n xs cmp n batch = top_n xs cmp n"
proof (cases "n \<le> length xs")
  case True
  then show ?thesis by (simp add: topAsync_n_def top_n_def topAsync_loop_step)
next
  case False
  then show ?thesis
    by (simp add: topAsync_n_def top_n_def topAsync_loop.simps [of xs cmp _ n])
qed

end

end
