(* ===== verification/ArrayUtils.thy ===== *)
theory ArrayUtils
  imports ArraySelect
begin

text \<open>
  \<open>Permutation\<close>, \<open>CallbackIterable\<close> and the small array helpers of
  \<open>src/vs/base/common/arrays.ts\<close>.

  A \<open>CallbackIterable\<close> is modelled by the list of the items its \<open>iterate\<close> visits;
  \<open>ci_iterate\<close> runs a callback over it that updates the local variables it captures (the state
  \<open>'s\<close>) and stops when the callback returns false.
\<close>

section \<open>Permutations\<close>

text \<open>\<open>None\<close> stands for an array with an \<open>undefined\<close> entry.\<close>

definition Permutation_apply :: "nat list \<Rightarrow> 'a list \<Rightarrow> 'a list option" where
  "Permutation_apply indexMap arr =
     those (map (\<lambda>index. case js_get indexMap (int index) of
                   None \<Rightarrow> None | Some k \<Rightarrow> js_get arr (int k)) [0..<length arr])"

text \<open>The loop writes \<open>inverseIndexMap[this._indexMap[i]] = i\<close> for increasing \<open>i\<close>.\<close>

fun Permutation_inverse_loop :: "nat list \<Rightarrow> nat list \<Rightarrow> nat \<Rightarrow> nat list" where
  "Permutation_inverse_loop inverseIndexMap [] i = inverseIndexMap"
| "Permutation_inverse_loop inverseIndexMap (k # ks) i =
     Permutation_inverse_loop (inverseIndexMap[k := i]) ks (Suc i)"

definition Permutation_inverse :: "nat list \<Rightarrow> nat list" where
  "Permutation_inverse indexMap = Permutation_inverse_loop indexMap indexMap 0"

definition createSortPermutation :: "'a list \<Rightarrow> ('a \<Rightarrow> 'a \<Rightarrow> int) \<Rightarrow> nat list" where
  "createSortPermutation arr compareFn =
     js_sort (\<lambda>index1 index2. compareFn (arr ! index1) (arr ! index2)) [0..<length arr]"

definition is_permutation :: "nat \<Rightarrow> nat list \<Rightarrow> bool" where
  "is_permutation n m \<longleftrightarrow> mset m = mset [0..<n]"

lemma is_permutationD:
  assumes "is_permutation n m"
  shows "length m = n" "set m = {0..<n}" "distinct m"
proof -
  from assms have e: "mset m = mset [0..<n]" by (simp add: is_permutation_def)
  from mset_eq_length [OF e] show "length m = n" by simp
  from mset_eq_setD [OF e] show "set m = {0..<n}" by simp
  from mset_eq_imp_distinct_iff [OF e] show "distinct m" by simp
qed

lemma those_map_Some [simp]: "those (map (\<lambda>x. Some (f x)) xs) = Some (map f xs)"
  by (induction xs) auto

lemma Permutation_apply_perm:
  assumes "is_permutation (length arr) m"
  shows "Permutation_apply m arr = Some (map (\<lambda>k. arr ! k) m)"
proof -
  note m = is_permutationD [OF assms]
  have "m ! i < length arr" if "i < length arr" for i
    using that m nth_mem [of i m] by auto
  then have "map (\<lambda>index. case js_get m (int index) of None \<Rightarrow> None | Some k \<Rightarrow> js_get arr (int k))
               [0..<length arr] = map (\<lambda>i. Some (arr ! (m ! i))) [0..<length arr]"
    using m(1) by (intro map_cong) (auto simp: js_get_def)
  then have "Permutation_apply m arr = Some (map (\<lambda>i. arr ! (m ! i)) [0..<length arr])"
    unfolding Permutation_apply_def by (simp only: those_map_Some)
  also have "map (\<lambda>i. arr ! (m ! i)) [0..<length arr] = map (\<lambda>k. arr ! k) m"
    using m(1) by (intro nth_equalityI) auto
  finally show ?thesis .
qed

lemma Permutation_inverse_loop_nth:
  assumes "distinct ks" "set ks \<subseteq> {0..<length acc}"
  shows "length (Permutation_inverse_loop acc ks i) = length acc \<and>
         (\<forall>j<length ks. Permutation_inverse_loop acc ks i ! (ks ! j) = i + j) \<and>
         (\<forall>k. k \<notin> set ks \<longrightarrow> Permutation_inverse_loop acc ks i ! k = acc ! k)"
  using assms
proof (induction ks arbitrary: acc i)
  case (Cons k ks)
  have IH: "length (Permutation_inverse_loop (acc[k := i]) ks (Suc i)) = length (acc[k := i]) \<and>
      (\<forall>j<length ks. Permutation_inverse_loop (acc[k := i]) ks (Suc i) ! (ks ! j) = Suc i + j) \<and>
      (\<forall>l. l \<notin> set ks \<longrightarrow> Permutation_inverse_loop (acc[k := i]) ks (Suc i) ! l = acc[k := i] ! l)"
    using Cons.prems by (intro Cons.IH) auto
  moreover have "k < length acc" "k \<notin> set ks" using Cons.prems by auto
  ultimately show ?case by (auto simp: nth_Cons split: nat.splits)
qed simp

lemma Permutation_inverse_perm:
  assumes "is_permutation n m"
  shows "is_permutation n (Permutation_inverse m)"
    and "\<And>j. j < n \<Longrightarrow> Permutation_inverse m ! (m ! j) = j"
proof -
  note m = is_permutationD [OF assms]
  from Permutation_inverse_loop_nth [of m m 0] m
  have len: "length (Permutation_inverse m) = n"
    and inv: "\<And>j. j < n \<Longrightarrow> Permutation_inverse m ! (m ! j) = j"
    by (auto simp: Permutation_inverse_def)
  show "j < n \<Longrightarrow> Permutation_inverse m ! (m ! j) = j" for j by (rule inv)
  have sub: "{0..<n} \<subseteq> set (Permutation_inverse m)"
  proof
    fix j assume "j \<in> {0..<n}"
    then have "j < n" by simp
    moreover have "m ! j < n" using \<open>j < n\<close> m nth_mem [of j m] by auto
    ultimately show "j \<in> set (Permutation_inverse m)" using inv len by (metis nth_mem)
  qed
  have "card (set (Permutation_inverse m)) \<le> n"
    using card_length [of "Permutation_inverse m"] len by simp
  then have eq: "set (Permutation_inverse m) = {0..<n}"
    using card_seteq [OF _ sub] by simp
  then have "distinct (Permutation_inverse m)" using len by (intro card_distinct) simp
  then show "is_permutation n (Permutation_inverse m)"
    unfolding is_permutation_def using eq by (intro set_eq_iff_mset_eq_distinct [THEN iffD1]) auto
qed

lemma Permutation_inverse_undoes:
  assumes "is_permutation (length arr) m"
  shows "Option.bind (Permutation_apply m arr) (Permutation_apply (Permutation_inverse m)) = Some arr"
    and "Option.bind (Permutation_apply (Permutation_inverse m) arr) (Permutation_apply m) = Some arr"
proof -
  note m = is_permutationD [OF assms] and i = Permutation_inverse_perm [OF assms]
  note mi = is_permutationD [OF i(1)]
  have bound: "m ! j < length arr" "Permutation_inverse m ! j < length arr" if "j < length arr" for j
    using that m mi nth_mem [of j m] nth_mem [of j "Permutation_inverse m"] by auto
  have inv2: "m ! (Permutation_inverse m ! j) = j" if "j < length arr" for j
  proof -
    have "j \<in> set m" using that m(2) by simp
    then obtain k where k: "k < length arr" "m ! k = j"
      unfolding in_set_conv_nth m(1) by blast
    then show ?thesis using i(2) [OF k(1)] by simp
  qed
  have "map ((!) (map ((!) arr) m)) (Permutation_inverse m) = arr"
    using m mi inv2 bound by (intro nth_equalityI) auto
  moreover have "map ((!) (map ((!) arr) (Permutation_inverse m))) m = arr"
    using m mi i(2) bound by (intro nth_equalityI) auto
  ultimately show
    "Option.bind (Permutation_apply m arr) (Permutation_apply (Permutation_inverse m)) = Some arr"
    "Option.bind (Permutation_apply (Permutation_inverse m) arr) (Permutation_apply m) = Some arr"
    using assms i(1) m(1) mi(1) by (simp_all add: Permutation_apply_perm)
qed

context comparator
begin

lemma Permutation_sort:
  "Permutation_apply (createSortPermutation arr cmp) arr = Some (js_sort cmp arr)"
proof -
  have perm: "is_permutation (length arr) (createSortPermutation arr cmp)"
    unfolding is_permutation_def createSortPermutation_def by (rule mset_js_sort)
  have ins: "map f (js_insert (\<lambda>i j. cmp (f i) (f j)) x xs) = js_insert cmp (f x) (map f xs)"
    for f :: "nat \<Rightarrow> 'a" and x xs by (induction xs) auto
  have "map f (js_sort (\<lambda>i j. cmp (f i) (f j)) xs) = js_sort cmp (map f xs)" for f :: "nat \<Rightarrow> 'a" and xs
    by (induction xs rule: rev_induct) (simp_all add: js_sort_snoc ins, simp add: js_sort_def)
  then have "map ((!) arr) (createSortPermutation arr cmp) = js_sort cmp (map ((!) arr) [0..<length arr])"
    unfolding createSortPermutation_def .
  then show ?thesis using Permutation_apply_perm [OF perm] by (simp add: map_nth)
qed

end

section \<open>CallbackIterable\<close>

fun ci_iterate :: "'a list \<Rightarrow> ('s \<Rightarrow> 'a \<Rightarrow> 's \<times> bool) \<Rightarrow> 's \<Rightarrow> 's" where
  "ci_iterate [] cb s = s"
| "ci_iterate (x # xs) cb s = (let r = cb s x in if snd r then ci_iterate xs cb (fst r) else fst r)"

definition ci_toArray :: "'a list \<Rightarrow> 'a list" where
  "ci_toArray items = ci_iterate items (\<lambda>res item. (res @ [item], True)) []"

definition ci_filter_iterate ::
  "'a list \<Rightarrow> ('a \<Rightarrow> bool) \<Rightarrow> ('s \<Rightarrow> 'a \<Rightarrow> 's \<times> bool) \<Rightarrow> 's \<Rightarrow> 's" where
  "ci_filter_iterate items predicate cb s =
     ci_iterate items (\<lambda>s item. if predicate item then cb s item else (s, True)) s"

definition ci_map_iterate ::
  "'a list \<Rightarrow> ('a \<Rightarrow> 'b) \<Rightarrow> ('s \<Rightarrow> 'b \<Rightarrow> 's \<times> bool) \<Rightarrow> 's \<Rightarrow> 's" where
  "ci_map_iterate items mapFn cb s = ci_iterate items (\<lambda>s item. cb s (mapFn item)) s"

definition ci_some :: "'a list \<Rightarrow> ('a \<Rightarrow> bool) \<Rightarrow> bool" where
  "ci_some items predicate =
     ci_iterate items (\<lambda>_ item. let r = predicate item in (r, \<not> r)) False"

definition ci_findFirst :: "'a list \<Rightarrow> ('a \<Rightarrow> bool) \<Rightarrow> 'a option" where
  "ci_findFirst items predicate =
     ci_iterate items (\<lambda>res item. if predicate item then (Some item, False) else (res, True)) None"

definition ci_findLast :: "'a list \<Rightarrow> ('a \<Rightarrow> bool) \<Rightarrow> 'a option" where
  "ci_findLast items predicate =
     ci_iterate items (\<lambda>res item. if predicate item then (Some item, True) else (res, True)) None"

definition ci_findLastMaxBy :: "'a list \<Rightarrow> ('a \<Rightarrow> 'a \<Rightarrow> int) \<Rightarrow> 'a option" where
  "ci_findLastMaxBy items cmp =
     ci_iterate items
       (\<lambda>res item. if (case res of None \<Rightarrow> True | Some r \<Rightarrow> isGreaterThan (cmp item r))
                    then (Some item, True) else (res, True)) None"

lemma ci_iterate_total: "(\<And>s x. snd (cb s x)) \<Longrightarrow> ci_iterate xs cb s = foldl (\<lambda>s x. fst (cb s x)) s xs"
  by (induction xs arbitrary: s) (simp_all add: Let_def)

lemma ci_filter_iterate_filter: "ci_filter_iterate items p cb s = ci_iterate (filter p items) cb s"
  unfolding ci_filter_iterate_def by (induction items arbitrary: s) (simp_all add: Let_def)

lemma ci_map_iterate_map: "ci_map_iterate items f cb s = ci_iterate (map f items) cb s"
  unfolding ci_map_iterate_def by (induction items arbitrary: s) (simp_all add: Let_def)

lemma ci_toArray_id: "ci_toArray items = items"
proof -
  have "ci_iterate items (\<lambda>res item. (res @ [item], True)) acc = acc @ items" for acc
    by (induction items arbitrary: acc) auto
  then show ?thesis by (simp add: ci_toArray_def)
qed

lemma ci_findLastMaxBy_is_first: "ci_findLastMaxBy items cmp = findFirstMax items cmp"
proof (cases items)
  case (Cons x xs)
  have "ci_iterate xs (\<lambda>res item. if (case res of None \<Rightarrow> True | Some r \<Rightarrow> isGreaterThan (cmp item r))
                    then (Some item, True) else (res, True)) (Some m) =
        Some (foldl (\<lambda>mx item. if cmp item mx > 0 then item else mx) m xs)" for m
    by (induction xs arbitrary: m) (auto simp: isGreaterThan_def)
  with Cons show ?thesis by (simp add: ci_findLastMaxBy_def findFirstMax_def)
qed (simp add: ci_findLastMaxBy_def findFirstMax_def)

section \<open>Small helpers\<close>

definition tail :: "'a list \<Rightarrow> ('a list \<times> 'a) result" where
  "tail arr = (if arr = [] then Throw GenericError else Ok (butlast arr, last arr))"

fun equals_loop :: "'a list \<Rightarrow> 'a list \<Rightarrow> ('a \<Rightarrow> 'a \<Rightarrow> bool) \<Rightarrow> bool" where
  "equals_loop (x # xs) (y # ys) itemEquals = (if \<not> itemEquals x y then False else equals_loop xs ys itemEquals)"
| "equals_loop _ _ itemEquals = True"

text \<open>The identity test \<open>one === other\<close> of two array objects is the argument \<open>same\<close>.\<close>

definition array_equals :: "bool \<Rightarrow> 'a list option \<Rightarrow> 'a list option \<Rightarrow> ('a \<Rightarrow> 'a \<Rightarrow> bool) \<Rightarrow> bool" where
  "array_equals same one other itemEquals =
     (if same \<or> (one = None \<and> other = None) then True
      else (case (one, other) of
              (Some xs, Some ys) \<Rightarrow>
                if length xs \<noteq> length ys then False else equals_loop xs ys itemEquals
            | _ \<Rightarrow> False))"

definition removeFastWithoutKeepingOrder :: "'a list \<Rightarrow> nat \<Rightarrow> 'a list" where
  "removeFastWithoutKeepingOrder arr index =
     butlast (if int index < int (length arr) - 1 then arr[index := last arr] else arr)"

fun distinct_loop :: "'k list \<Rightarrow> ('a \<Rightarrow> 'k) \<Rightarrow> 'a list \<Rightarrow> 'a list" where
  "distinct_loop seen keyFn [] = []"
| "distinct_loop seen keyFn (x # xs) =
     (if keyFn x \<in> set seen then distinct_loop seen keyFn xs
      else x # distinct_loop (keyFn x # seen) keyFn xs)"

definition distinct_by :: "'a list \<Rightarrow> ('a \<Rightarrow> 'k) \<Rightarrow> 'a list" where
  "distinct_by arr keyFn = distinct_loop [] keyFn arr"

fun array_commonPrefixLength :: "'a list \<Rightarrow> 'a list \<Rightarrow> ('a \<Rightarrow> 'a \<Rightarrow> bool) \<Rightarrow> nat" where
  "array_commonPrefixLength (x # xs) (y # ys) eq = (if eq x y then Suc (array_commonPrefixLength xs ys eq) else 0)"
| "array_commonPrefixLength _ _ eq = 0"

definition array_range :: "int \<Rightarrow> int option \<Rightarrow> int list" where
  "array_range arg to =
     (let from' = (case to of Some _ \<Rightarrow> arg | None \<Rightarrow> 0);
          to' = (case to of Some t \<Rightarrow> t | None \<Rightarrow> arg)
      in if from' \<le> to' then upto_from from' (nat (to' - from'))
         else map (\<lambda>i. - i) (upto_from (- from') (nat (from' - to'))))"

definition array_remove :: "'a list \<Rightarrow> 'a \<Rightarrow> 'a list \<times> 'a option" where
  "array_remove arr element =
     (if element \<in> set arr
      then (js_splice arr (int (length (takeWhile (\<lambda>x. x \<noteq> element) arr))) 1 [], Some element)
      else (arr, None))"

definition pushToStart :: "'a list \<Rightarrow> 'a \<Rightarrow> 'a list" where
  "pushToStart arr v =
     (if v \<in> set arr then v # js_splice arr (int (length (takeWhile (\<lambda>x. x \<noteq> v) arr))) 1 [] else arr)"

definition pushToEnd :: "'a list \<Rightarrow> 'a \<Rightarrow> 'a list" where
  "pushToEnd arr v =
     (if v \<in> set arr then js_splice arr (int (length (takeWhile (\<lambda>x. x \<noteq> v) arr))) 1 [] @ [v] else arr)"

fun mapFilter :: "'a list \<Rightarrow> ('a \<Rightarrow> 'b option) \<Rightarrow> 'b list" where
  "mapFilter [] fn = []"
| "mapFilter (x # xs) fn = (case fn x of None \<Rightarrow> mapFilter xs fn | Some y \<Rightarrow> y # mapFilter xs fn)"

lemma remove1_splice:
  "v \<in> set arr \<Longrightarrow> js_splice arr (int (length (takeWhile (\<lambda>x. x \<noteq> v) arr))) 1 [] = remove1 v arr"
proof -
  assume v: "v \<in> set arr"
  let ?i = "length (takeWhile (\<lambda>x. x \<noteq> v) arr)"
  have "js_splice arr (int ?i) (int 1) [] = take ?i arr @ drop (?i + 1) arr"
    by (simp only: js_splice_nat [OF length_takeWhile_le] append_Nil)
  also have "\<dots> = remove1 v arr"
    using v by (induction arr) auto
  finally show ?thesis by simp
qed

lemma array_remove_remove1: "fst (array_remove arr v) = remove1 v arr"
  by (simp add: array_remove_def remove1_splice remove1_idem)

lemma mset_list_update_add:
  "i < length xs \<Longrightarrow> add_mset (xs ! i) (mset (xs[i := x])) = add_mset x (mset xs)"
  by (simp add: mset_update)

lemma mset_removeFast:
  assumes "i < length arr"
  shows "add_mset (arr ! i) (mset (removeFastWithoutKeepingOrder arr i)) = mset arr"
proof -
  from assms obtain xs x where arr: "arr = xs @ [x]" by (cases arr rule: rev_cases) auto
  show ?thesis
  proof (cases "i < length xs")
    case True
    then show ?thesis
      using mset_list_update_add [OF True, of x]
      by (simp add: arr removeFastWithoutKeepingOrder_def list_update_append1 nth_append)
  next
    case False
    with assms arr have "i = length xs" by simp
    then show ?thesis by (simp add: arr removeFastWithoutKeepingOrder_def)
  qed
qed

lemma distinct_loop_spec:
  "distinct (map keyFn (distinct_loop seen keyFn xs)) \<and>
   set (map keyFn (distinct_loop seen keyFn xs)) = keyFn ` set xs - set seen"
  by (induction xs arbitrary: seen) auto

end
