(* ===== verification/ArrayDiff.thy ===== *)
theory ArrayDiff
  imports Arrays
begin

text \<open>
  Edit scripts between arrays and rearrangements, from \<open>src/vs/base/common/arrays.ts\<close>:
  \<open>sortedDiff\<close>, \<open>delta\<close>, \<open>groupAdjacentBy\<close>, \<open>arrayInsert\<close>, \<open>insertInto\<close>,
  \<open>splice\<close>, \<open>Permutation\<close> and the small list helpers around them.

  The abstract meaning of a list of splices is \<open>apply_splices\<close>: every splice is relative to
  the array \<open>before\<close>, so applying them left to right copies the untouched parts.
\<close>

section \<open>Diff of two sorted arrays\<close>

record 'a ISplice =
  sp_start :: nat
  sp_deleteCount :: nat
  sp_toInsert :: "'a list"

definition pushSplice :: "'a ISplice list \<Rightarrow> nat \<Rightarrow> nat \<Rightarrow> 'a list \<Rightarrow> 'a ISplice list" where
  "pushSplice res st deleteCount toInsert =
     (if deleteCount = 0 \<and> toInsert = [] then res
      else if res \<noteq> [] \<and> sp_start (last res) + sp_deleteCount (last res) = st then
        butlast res @ [(last res)\<lparr>sp_deleteCount := sp_deleteCount (last res) + deleteCount,
                                 sp_toInsert := sp_toInsert (last res) @ toInsert\<rparr>]
      else res @ [\<lparr>sp_start = st, sp_deleteCount = deleteCount, sp_toInsert = toInsert\<rparr>])"

text \<open>The indices only ever grow by one up to the lengths, so \<open>\<ge>\<close> is the source's \<open>===\<close>.\<close>

function sortedDiff_loop ::
  "'a list \<Rightarrow> 'a list \<Rightarrow> ('a \<Rightarrow> 'a \<Rightarrow> int) \<Rightarrow> nat \<Rightarrow> nat \<Rightarrow> 'a ISplice list \<Rightarrow> 'a ISplice list" where
  "sortedDiff_loop before after cmp beforeIdx afterIdx res =
     (if beforeIdx \<ge> length before then pushSplice res beforeIdx 0 (drop afterIdx after)
      else if afterIdx \<ge> length after then
        pushSplice res beforeIdx (length before - beforeIdx) []
      else
        let beforeElement = before ! beforeIdx; afterElement = after ! afterIdx;
            n = cmp beforeElement afterElement
        in if n = 0 then sortedDiff_loop before after cmp (beforeIdx + 1) (afterIdx + 1) res
           else if n < 0 then
             sortedDiff_loop before after cmp (beforeIdx + 1) afterIdx (pushSplice res beforeIdx 1 [])
           else
             sortedDiff_loop before after cmp beforeIdx (afterIdx + 1)
               (pushSplice res beforeIdx 0 [afterElement]))"
  by pat_completeness auto
termination
  by (relation "measure (\<lambda>(b, a, c, bi, ai, r). (length b - bi) + (length a - ai))") auto

declare sortedDiff_loop.simps [simp del]

definition sortedDiff :: "'a list \<Rightarrow> 'a list \<Rightarrow> ('a \<Rightarrow> 'a \<Rightarrow> int) \<Rightarrow> 'a ISplice list" where
  "sortedDiff before after cmp = sortedDiff_loop before after cmp 0 0 []"

record 'a array_delta =
  delta_removed :: "'a list"
  delta_added :: "'a list"

definition delta :: "'a list \<Rightarrow> 'a list \<Rightarrow> ('a \<Rightarrow> 'a \<Rightarrow> int) \<Rightarrow> 'a array_delta" where
  "delta before after cmp =
     foldl (\<lambda>d sp. \<lparr>delta_removed = delta_removed d @
                       take (sp_deleteCount sp) (drop (sp_start sp) before),
                    delta_added = delta_added d @ sp_toInsert sp\<rparr>)
       \<lparr>delta_removed = [], delta_added = []\<rparr> (sortedDiff before after cmp)"

text \<open>Applying splices from the left: the position reached in \<open>before\<close> and the output so far.\<close>

definition splice_step :: "'a list \<Rightarrow> nat \<times> 'a list \<Rightarrow> 'a ISplice \<Rightarrow> nat \<times> 'a list" where
  "splice_step before st sp =
     (sp_start sp + sp_deleteCount sp,
      snd st @ take (sp_start sp - fst st) (drop (fst st) before) @ sp_toInsert sp)"

definition run_splices :: "'a list \<Rightarrow> 'a ISplice list \<Rightarrow> nat \<times> 'a list" where
  "run_splices before sps = foldl (splice_step before) (0, []) sps"

definition apply_splices :: "'a list \<Rightarrow> 'a ISplice list \<Rightarrow> 'a list" where
  "apply_splices before sps = (let r = run_splices before sps in snd r @ drop (fst r) before)"

text \<open>The output that a script has produced once the input is consumed up to \<open>b\<close>.\<close>

definition output_upto :: "'a list \<Rightarrow> 'a ISplice list \<Rightarrow> nat \<Rightarrow> 'a list" where
  "output_upto before sps b =
     (let r = run_splices before sps in snd r @ take (b - fst r) (drop (fst r) before))"

lemma run_splices_snoc: "run_splices before (sps @ [sp]) = splice_step before (run_splices before sps) sp"
  by (simp add: run_splices_def)

lemma pushSplice_run:
  assumes "fst (run_splices before sps) \<le> b"
  shows "fst (run_splices before (pushSplice sps b d ins)) \<le> b + d \<and>
         output_upto before (pushSplice sps b d ins) (b + d) = output_upto before sps b @ ins"
proof -
  consider (none) "d = 0" "ins = []"
    | (merge) "\<not> (d = 0 \<and> ins = [])" "sps \<noteq> []" "sp_start (last sps) + sp_deleteCount (last sps) = b"
    | (push) "\<not> (d = 0 \<and> ins = [])" "\<not> (sps \<noteq> [] \<and> sp_start (last sps) + sp_deleteCount (last sps) = b)"
    by blast
  then show ?thesis
  proof cases
    case none
    with assms show ?thesis by (simp add: pushSplice_def)
  next
    case merge
    define l where "l = last sps"
    have sps: "sps = butlast sps @ [l]" using merge(2) by (simp add: l_def)
    have "run_splices before sps = splice_step before (run_splices before (butlast sps)) l"
      by (subst sps) (rule run_splices_snoc)
    then show ?thesis
      using merge by (simp add: pushSplice_def run_splices_snoc splice_step_def output_upto_def
          l_def [symmetric] Let_def)
  next
    case push
    then have "pushSplice sps b d ins = sps @ [\<lparr>sp_start = b, sp_deleteCount = d, sp_toInsert = ins\<rparr>]"
      by (auto simp: pushSplice_def)
    then show ?thesis
      by (simp add: run_splices_snoc splice_step_def output_upto_def Let_def)
  qed
qed

lemma output_upto_Suc:
  assumes "fst (run_splices before sps) \<le> b" "b < length before"
  shows "output_upto before sps (Suc b) = output_upto before sps b @ [before ! b]"
  using assms by (simp add: output_upto_def Let_def Suc_diff_le take_Suc_conv_app_nth)

definition same_by :: "('a \<Rightarrow> 'a \<Rightarrow> int) \<Rightarrow> 'a \<Rightarrow> 'a \<Rightarrow> bool" where
  "same_by cmp x y \<longleftrightarrow> x = y \<or> cmp x y = 0"

lemma same_by_zero: "cmp x y = 0 \<Longrightarrow> same_by cmp x y"
  by (simp add: same_by_def)

lemma same_by_refl: "list_all2 (same_by cmp) xs xs"
  by (simp add: list_all2_refl same_by_def)

lemma apply_splices_output:
  assumes "fst (run_splices before sps) \<le> length before"
  shows "apply_splices before sps = output_upto before sps (length before)"
  using assms by (simp add: apply_splices_def output_upto_def Let_def)

lemma pushSplice_rest:
  assumes "fst (run_splices before res) \<le> b" "length before \<le> b + d" "b + d = length before"
  shows "apply_splices before (pushSplice res b d ins) = output_upto before res b @ ins"
  using pushSplice_run [OF assms(1), of d ins] apply_splices_output assms(3) by metis

lemma sortedDiff_loop_sound:
  assumes "beforeIdx \<le> length before" "afterIdx \<le> length after"
    and "fst (run_splices before res) \<le> beforeIdx"
    and "list_all2 (same_by cmp) (output_upto before res beforeIdx) (take afterIdx after)"
  shows "list_all2 (same_by cmp)
           (apply_splices before (sortedDiff_loop before after cmp beforeIdx afterIdx res)) after"
  using assms
proof (induction before after cmp beforeIdx afterIdx res rule: sortedDiff_loop.induct)
  case (1 before after cmp bi ai res)
  note prems = "1.prems"
  let ?n = "cmp (before ! bi) (after ! ai)"
  have step: "take (Suc ai) after = take ai after @ [after ! ai]" if "ai < length after"
    using that by (rule take_Suc_conv_app_nth)
  consider (b_end) "bi \<ge> length before" | (a_end) "bi < length before" "ai \<ge> length after"
    | (eq) "bi < length before" "ai < length after" "?n = 0"
    | (less) "bi < length before" "ai < length after" "?n < 0"
    | (greater) "bi < length before" "ai < length after" "?n > 0"
    by linarith
  then show ?case
  proof cases
    case b_end
    then have "apply_splices before (pushSplice res bi 0 (drop ai after)) =
        output_upto before res bi @ drop ai after"
      using prems by (intro pushSplice_rest) simp_all
    moreover have "list_all2 (same_by cmp) (output_upto before res bi @ drop ai after)
        (take ai after @ drop ai after)"
      using prems(4) same_by_refl by (rule list_all2_appendI)
    ultimately show ?thesis
      using b_end by (simp add: sortedDiff_loop.simps [of before after cmp bi ai res])
  next
    case a_end
    then have "apply_splices before (pushSplice res bi (length before - bi) []) =
        output_upto before res bi @ []"
      using prems by (intro pushSplice_rest) simp_all
    moreover have "sortedDiff_loop before after cmp bi ai res =
        pushSplice res bi (length before - bi) []"
      using a_end by (subst sortedDiff_loop.simps) simp
    ultimately show ?thesis using prems a_end by simp
  next
    case eq
    have eqn: "sortedDiff_loop before after cmp bi ai res = sortedDiff_loop before after cmp (bi + 1) (ai + 1) res"
      using eq by (subst sortedDiff_loop.simps) (simp add: Let_def)
    have "list_all2 (same_by cmp) (output_upto before res (bi + 1)) (take (ai + 1) after)"
      using prems(3,4) eq step same_by_zero [of cmp "before ! bi" "after ! ai"]
      by (simp add: output_upto_Suc list_all2_appendI)
    with "1.IH"(1) [OF _ _ refl refl refl] eq prems show ?thesis unfolding eqn by simp
  next
    case less
    have eqn: "sortedDiff_loop before after cmp bi ai res =
        sortedDiff_loop before after cmp (bi + 1) ai (pushSplice res bi 1 [])"
      using less by (subst sortedDiff_loop.simps) (simp add: Let_def)
    from pushSplice_run [OF prems(3), of 1 "[]"] prems(4)
    have "fst (run_splices before (pushSplice res bi 1 [])) \<le> bi + 1"
      "list_all2 (same_by cmp) (output_upto before (pushSplice res bi 1 []) (bi + 1)) (take ai after)"
      by simp_all
    with "1.IH"(2) [OF _ _ refl refl refl] less prems show ?thesis unfolding eqn by simp
  next
    case greater
    have eqn: "sortedDiff_loop before after cmp bi ai res =
        sortedDiff_loop before after cmp bi (ai + 1) (pushSplice res bi 0 [after ! ai])"
      using greater by (subst sortedDiff_loop.simps) (simp add: Let_def)
    from pushSplice_run [OF prems(3), of 0 "[after ! ai]"]
    have r: "fst (run_splices before (pushSplice res bi 0 [after ! ai])) \<le> bi"
      "output_upto before (pushSplice res bi 0 [after ! ai]) bi = output_upto before res bi @ [after ! ai]"
      by simp_all
    have "list_all2 (same_by cmp) (output_upto before (pushSplice res bi 0 [after ! ai]) bi)
        (take (ai + 1) after)"
      using prems(4) greater step r(2) same_by_refl [of cmp "[after ! ai]"]
      by (simp add: list_all2_appendI)
    with "1.IH"(3) [OF _ _ refl refl refl] greater prems r show ?thesis unfolding eqn by simp
  qed
qed

lemma sortedDiff_sound:
  "list_all2 (same_by cmp) (apply_splices before (sortedDiff before after cmp)) after"
  unfolding sortedDiff_def
  by (rule sortedDiff_loop_sound) (simp_all add: run_splices_def output_upto_def)

section \<open>Groups of adjacent items\<close>

text \<open>
  The generator's state is the group under construction and the last item; the two are
  \<open>undefined\<close> together at the start.  Items are never \<open>undefined\<close>.
\<close>

fun groupAdjacentBy_loop ::
  "('a \<Rightarrow> 'a \<Rightarrow> bool) \<Rightarrow> 'a list option \<Rightarrow> 'a option \<Rightarrow> 'a list \<Rightarrow> 'a list list" where
  "groupAdjacentBy_loop shouldBeGrouped currentGroup last_item [] =
     (case currentGroup of None \<Rightarrow> [] | Some g \<Rightarrow> [g])"
| "groupAdjacentBy_loop shouldBeGrouped currentGroup last_item (item # items) =
     (if (case last_item of None \<Rightarrow> False | Some l \<Rightarrow> shouldBeGrouped l item) then
        groupAdjacentBy_loop shouldBeGrouped (map_option (\<lambda>g. g @ [item]) currentGroup) (Some item) items
      else
        (case currentGroup of None \<Rightarrow> [] | Some g \<Rightarrow> [g]) @
        groupAdjacentBy_loop shouldBeGrouped (Some [item]) (Some item) items)"

definition groupAdjacentBy :: "'a list \<Rightarrow> ('a \<Rightarrow> 'a \<Rightarrow> bool) \<Rightarrow> 'a list list" where
  "groupAdjacentBy items shouldBeGrouped = groupAdjacentBy_loop shouldBeGrouped None None items"

text \<open>Neighbours inside a group belong together; the last of a group and the first of the next do not.\<close>

definition good_groups :: "('a \<Rightarrow> 'a \<Rightarrow> bool) \<Rightarrow> 'a list list \<Rightarrow> bool" where
  "good_groups R gs \<longleftrightarrow>
     [] \<notin> set gs \<and> list_all (successively R) gs \<and>
     successively (\<lambda>g h. \<not> R (last g) (hd h)) gs"

lemma groupAdjacentBy_loop_groups:
  assumes "g \<noteq> []" "successively R g"
  shows "concat (groupAdjacentBy_loop R (Some g) (Some (last g)) items) = g @ items \<and>
         good_groups R (groupAdjacentBy_loop R (Some g) (Some (last g)) items) \<and>
         groupAdjacentBy_loop R (Some g) (Some (last g)) items \<noteq> [] \<and>
         hd (hd (groupAdjacentBy_loop R (Some g) (Some (last g)) items)) = hd g"
  using assms
proof (induction items arbitrary: g)
  case Nil
  then show ?case by (simp add: good_groups_def)
next
  case (Cons x items)
  show ?case
  proof (cases "R (last g) x")
    case True
    have "successively R (g @ [x])"
      using Cons.prems True by (simp add: successively_append_iff)
    from Cons.IH [OF _ this] True Cons.prems show ?thesis by simp
  next
    case False
    let ?gs = "groupAdjacentBy_loop R (Some [x]) (Some x) items"
    from Cons.IH [of "[x]"] have IH: "concat ?gs = x # items" "good_groups R ?gs" "?gs \<noteq> []"
      "hd (hd ?gs) = x" by simp_all
    have "good_groups R (g # ?gs)"
      using IH(2-4) False Cons.prems by (cases ?gs) (auto simp: good_groups_def)
    with IH(1) False Cons.prems show ?thesis by simp
  qed
qed

lemma groupAdjacentBy_groups:
  "concat (groupAdjacentBy items R) = items \<and> good_groups R (groupAdjacentBy items R)"
proof (cases items)
  case Nil
  then show ?thesis by (simp add: groupAdjacentBy_def good_groups_def)
next
  case (Cons x xs)
  then show ?thesis
    using groupAdjacentBy_loop_groups [of "[x]" R xs] by (simp add: groupAdjacentBy_def)
qed

section \<open>Inserting into and splicing arrays\<close>

definition arrayInsert :: "'a list \<Rightarrow> int \<Rightarrow> 'a list \<Rightarrow> 'a list" where
  "arrayInsert target insertIndex insertArr =
     js_slice target 0 insertIndex @ insertArr @ js_slice target insertIndex (int (length target))"

definition getActualStartIndex :: "'a list \<Rightarrow> int \<Rightarrow> int" where
  "getActualStartIndex xs st =
     (if st < 0 then max (st + int (length xs)) 0 else min st (int (length xs)))"

text \<open>
  \<open>array.length = n\<close> extends the array; the new cells are written before they are read, their
  content before that is the argument \<open>u\<close>.  The two loops are the source's.
\<close>

function insertInto_shift :: "'a list \<Rightarrow> nat \<Rightarrow> int \<Rightarrow> int \<Rightarrow> 'a list" where
  "insertInto_shift xs newItemsLength i startIdx =
     (if i \<ge> startIdx \<and> i \<ge> 0 then
        insertInto_shift (xs[nat i + newItemsLength := xs ! nat i]) newItemsLength (i - 1) startIdx
      else xs)"
  by pat_completeness auto
termination
  by (relation "measure (\<lambda>(xs, n, i, s). nat (i + 1))") auto

declare insertInto_shift.simps [simp del]

fun insertInto_write :: "'a list \<Rightarrow> nat \<Rightarrow> 'a list \<Rightarrow> 'a list" where
  "insertInto_write xs startIdx [] = xs"
| "insertInto_write xs startIdx (y # ys) = insertInto_write (xs[startIdx := y]) (Suc startIdx) ys"

definition insertInto :: "'a \<Rightarrow> 'a list \<Rightarrow> int \<Rightarrow> 'a list \<Rightarrow> 'a list" where
  "insertInto u xs st newItems =
     (let startIdx = getActualStartIndex xs st;
          extended = xs @ replicate (length newItems) u;
          shifted = insertInto_shift extended (length newItems) (int (length xs) - 1) startIdx
      in insertInto_write shifted (nat startIdx) newItems)"

definition array_splice :: "'a \<Rightarrow> 'a list \<Rightarrow> int \<Rightarrow> int \<Rightarrow> 'a list \<Rightarrow> 'a list \<times> 'a list" where
  "array_splice u xs st deleteCount newItems =
     (let idx = getActualStartIndex xs st;
          deleted = take (nat deleteCount) (drop (nat idx) xs);
          remaining = js_splice xs idx deleteCount []
      in (deleted, insertInto u remaining idx newItems))"

lemma getActualStartIndex_rel: "getActualStartIndex xs st = int (js_rel_index (length xs) st)"
  by (auto simp: getActualStartIndex_def js_rel_index_def)

lemma arrayInsert_splice: "arrayInsert xs i ys = js_splice xs i 0 ys"
  by (simp add: arrayInsert_def js_splice_def js_slice_def Let_def js_rel_index_def)

lemma insertInto_write_app:
  "length mid = length ys \<Longrightarrow> insertInto_write (pre @ mid @ post) (length pre) ys = pre @ ys @ post"
proof (induction ys arbitrary: pre mid)
  case (Cons y ys)
  then obtain m mid' where mid: "mid = m # mid'" "length mid' = length ys" by (cases mid) auto
  have "insertInto_write ((pre @ [y]) @ mid' @ post) (length (pre @ [y])) ys = (pre @ [y]) @ ys @ post"
    by (rule Cons.IH [OF mid(2)])
  then show ?case by (simp add: mid(1))
qed simp

text \<open>Shifting from the end: the cells from the start index move up by the number of new items.\<close>

lemma insertInto_shift_nth:
  assumes "length xs = len + n" "i < int len" "0 \<le> s" "s \<le> i + 1"
  shows "length (insertInto_shift xs n i s) = length xs \<and>
         (\<forall>k < length xs. insertInto_shift xs n i s ! k =
            (if nat s + n \<le> k \<and> int k \<le> i + int n then xs ! (k - n) else xs ! k))"
  using assms
proof (induction xs n i s rule: insertInto_shift.induct)
  case (1 xs n i s)
  show ?case
  proof (cases "i \<ge> s \<and> i \<ge> 0")
    case True
    define ys where "ys = xs[nat i + n := xs ! nat i]"
    have eqn: "insertInto_shift xs n i s = insertInto_shift ys n (i - 1) s"
      using True by (subst insertInto_shift.simps) (simp add: ys_def)
    have IH: "length (insertInto_shift ys n (i - 1) s) = length ys \<and>
         (\<forall>k < length ys. insertInto_shift ys n (i - 1) s ! k =
            (if nat s + n \<le> k \<and> int k \<le> i - 1 + int n then ys ! (k - n) else ys ! k))"
      unfolding ys_def using True "1.prems" by (intro "1.IH") auto
    show ?thesis
    proof (intro conjI allI impI)
      show "length (insertInto_shift xs n i s) = length xs" unfolding eqn using IH by (simp add: ys_def)
      fix k assume k: "k < length xs"
      show "insertInto_shift xs n i s ! k =
            (if nat s + n \<le> k \<and> int k \<le> i + int n then xs ! (k - n) else xs ! k)"
      proof (cases "k = nat i + n")
        case True
        then show ?thesis
          using IH k \<open>i \<ge> s \<and> i \<ge> 0\<close> "1.prems"(3) unfolding eqn by (auto simp: ys_def)
      next
        case False
        have "ys ! (k - n) = xs ! (k - n)" if "int k \<le> i - 1 + int n" "nat s + n \<le> k"
          using that "1.prems"(3) True unfolding ys_def by (subst nth_list_update_neq) auto
        moreover have "ys ! k = xs ! k" using False by (simp add: ys_def)
        moreover have "int k \<le> i + int n \<longleftrightarrow> int k \<le> i - 1 + int n" using False True by auto
        ultimately show ?thesis using IH k unfolding eqn by (auto simp: ys_def)
      qed
    qed
  next
    case False
    with "1.prems" have "i + 1 = s" "insertInto_shift xs n i s = xs"
      by (simp_all add: insertInto_shift.simps [of xs n i s])
    then show ?thesis by auto
  qed
qed

lemma insertInto_splice: "insertInto u xs st ys = js_splice xs st 0 ys"
proof -
  define j where "j = js_rel_index (length xs) st"
  have j: "j \<le> length xs" "getActualStartIndex xs st = int j"
    by (simp_all add: j_def js_rel_index_le getActualStartIndex_rel)
  let ?e = "xs @ replicate (length ys) u"
  let ?s = "insertInto_shift ?e (length ys) (int (length xs) - 1) (int j)"
  from insertInto_shift_nth [of ?e "length xs" "length ys" "int (length xs) - 1" "int j"] j(1)
  have sh: "length ?s = length xs + length ys"
    "\<forall>k < length xs + length ys. ?s ! k = (if j + length ys \<le> k then ?e ! (k - length ys) else ?e ! k)"
    by auto
  have "take j ?s = take j xs"
    using j(1) sh by (intro nth_equalityI) (auto simp: nth_append)
  moreover have "drop (j + length ys) ?s = drop j xs"
    using j(1) sh by (intro nth_equalityI) (auto simp: nth_append)
  moreover define mid where "mid = take (length ys) (drop j ?s)"
  ultimately have "?s = take j xs @ mid @ drop j xs" "length mid = length ys"
    using j(1) sh(1) by (metis append_take_drop_id drop_drop add.commute, simp)
  then have "insertInto_write ?s j ys = take j xs @ ys @ drop j xs"
    using insertInto_write_app [of mid ys "take j xs" "drop j xs"] j(1) by simp
  then show ?thesis
    by (simp add: insertInto_def j(2) Let_def js_splice_def j_def)
qed

lemma js_splice_rel:
  "js_splice xs (int (js_rel_index (length xs) st)) n ys = js_splice xs st n ys"
  unfolding js_splice_def by (simp add: js_rel_index_nat [OF js_rel_index_le])

lemma js_splice_delete_insert:
  assumes "j \<le> length xs"
  shows "js_splice (js_splice xs (int j) n []) (int j) 0 ys = js_splice xs (int j) n ys"
proof -
  have d: "js_splice xs (int j) n [] = take j xs @ drop (j + nat n) xs"
    using assms by (simp add: js_splice_def js_rel_index_nat)
  then have "js_rel_index (length (js_splice xs (int j) n [])) (int j) = j"
    using assms by (intro js_rel_index_nat) simp
  then show ?thesis
    using assms unfolding d by (simp add: js_splice_def js_rel_index_nat Let_def)
qed

lemma array_splice_native:
  "array_splice u xs st n ys = (take (nat n) (drop (js_rel_index (length xs) st) xs), js_splice xs st n ys)"
  unfolding array_splice_def getActualStartIndex_rel Let_def insertInto_splice
  using js_splice_delete_insert [OF js_rel_index_le [of "length xs" st], of n ys]
  by (simp add: js_splice_rel)

end
