(* ===== verification/ArrayQueue.thy ===== *)
theory ArrayQueue
  imports ArraySelect
begin

text \<open>
  The container classes at the end of \<open>src/vs/base/common/arrays.ts\<close> (\<open>ArrayQueue\<close>,
  \<open>CallbackIterable\<close>, \<open>Permutation\<close>) and its small array helpers.

  A queue is a window \<open>firstIdx .. lastIdx\<close> of an array that never changes; its abstract value is
  the list \<open>aq_list\<close> of the window.  The contract \<open>window_queue\<close> says what a client may
  rely on; \<open>ArrayQueue\<close> is its interpretation.
\<close>

section \<open>Queues: the contract\<close>

locale window_queue =
  fixes items_of :: "'q \<Rightarrow> 'a list"
    and invar :: "'q \<Rightarrow> bool"
    and take_front :: "('a \<Rightarrow> bool) \<Rightarrow> 'q \<Rightarrow> 'a list option \<times> 'q"
    and take_back :: "('a \<Rightarrow> bool) \<Rightarrow> 'q \<Rightarrow> 'a list option \<times> 'q"
  assumes front_items: "invar q \<Longrightarrow> items_of (snd (take_front p q)) = dropWhile p (items_of q)"
    and front_result: "invar q \<Longrightarrow> fst (take_front p q) =
          (let t = takeWhile p (items_of q) in if t = [] then None else Some t)"
    and front_invar: "invar q \<Longrightarrow> invar (snd (take_front p q))"
    and back_items: "invar q \<Longrightarrow> items_of (snd (take_back p q)) =
          rev (dropWhile p (rev (items_of q)))"
    and back_result: "invar q \<Longrightarrow> fst (take_back p q) =
          (let t = rev (takeWhile p (rev (items_of q))) in if t = [] then None else Some t)"
    and back_invar: "invar q \<Longrightarrow> invar (snd (take_back p q))"
begin

text \<open>What is taken and what is left make up the queue, from either end.\<close>

lemma front_conserves:
  "invar q \<Longrightarrow>
   (case fst (take_front p q) of None \<Rightarrow> [] | Some t \<Rightarrow> t) @ items_of (snd (take_front p q)) = items_of q"
  by (simp add: front_items front_result Let_def dropWhile_id)

lemma back_conserves:
  "invar q \<Longrightarrow>
   items_of (snd (take_back p q)) @ (case fst (take_back p q) of None \<Rightarrow> [] | Some t \<Rightarrow> t) = items_of q"
  using rev_dropWhile_takeWhile [of p "items_of q"]
  by (simp add: back_items back_result Let_def dropWhile_id)

lemma front_maximal:
  "invar q \<Longrightarrow> items_of (snd (take_front p q)) \<noteq> [] \<Longrightarrow> \<not> p (hd (items_of (snd (take_front p q))))"
  by (simp add: front_items hd_dropWhile)

end

section \<open>ArrayQueue\<close>

record 'a ArrayQueue =
  aq_items :: "'a list"
  aq_firstIdx :: int
  aq_lastIdx :: int

definition new_ArrayQueue :: "'a list \<Rightarrow> 'a ArrayQueue" where
  "new_ArrayQueue items = \<lparr>aq_items = items, aq_firstIdx = 0, aq_lastIdx = int (length items) - 1\<rparr>"

definition ArrayQueue_length :: "'a ArrayQueue \<Rightarrow> int" where
  "ArrayQueue_length q = aq_lastIdx q - aq_firstIdx q + 1"

function takeWhile_idx :: "'a list \<Rightarrow> ('a \<Rightarrow> bool) \<Rightarrow> int \<Rightarrow> int \<Rightarrow> int" where
  "takeWhile_idx items p startIdx lastIdx =
     (if startIdx \<le> lastIdx \<and> p (items ! nat startIdx)
      then takeWhile_idx items p (startIdx + 1) lastIdx else startIdx)"
  by pat_completeness auto
termination
  by (relation "measure (\<lambda>(xs, p, s, l). nat (l + 1 - s))") auto

function takeFromEndWhile_idx :: "'a list \<Rightarrow> ('a \<Rightarrow> bool) \<Rightarrow> int \<Rightarrow> int \<Rightarrow> int" where
  "takeFromEndWhile_idx items p endIdx firstIdx =
     (if endIdx \<ge> firstIdx \<and> p (items ! nat endIdx)
      then takeFromEndWhile_idx items p (endIdx - 1) firstIdx else endIdx)"
  by pat_completeness auto
termination
  by (relation "measure (\<lambda>(xs, p, e, f). nat (e + 1 - f))") auto

declare takeWhile_idx.simps [simp del]
declare takeFromEndWhile_idx.simps [simp del]

definition ArrayQueue_takeWhile ::
  "('a \<Rightarrow> bool) \<Rightarrow> 'a ArrayQueue \<Rightarrow> 'a list option \<times> 'a ArrayQueue" where
  "ArrayQueue_takeWhile p q =
     (let startIdx = takeWhile_idx (aq_items q) p (aq_firstIdx q) (aq_lastIdx q);
          res = (if startIdx = aq_firstIdx q then None
                 else Some (js_slice (aq_items q) (aq_firstIdx q) startIdx))
      in (res, q\<lparr>aq_firstIdx := startIdx\<rparr>))"

definition ArrayQueue_takeFromEndWhile ::
  "('a \<Rightarrow> bool) \<Rightarrow> 'a ArrayQueue \<Rightarrow> 'a list option \<times> 'a ArrayQueue" where
  "ArrayQueue_takeFromEndWhile p q =
     (let endIdx = takeFromEndWhile_idx (aq_items q) p (aq_lastIdx q) (aq_firstIdx q);
          res = (if endIdx = aq_lastIdx q then None
                 else Some (js_slice (aq_items q) (endIdx + 1) (aq_lastIdx q + 1)))
      in (res, q\<lparr>aq_lastIdx := endIdx\<rparr>))"

definition ArrayQueue_peek :: "'a ArrayQueue \<Rightarrow> 'a option" where
  "ArrayQueue_peek q =
     (if ArrayQueue_length q = 0 then None else js_get (aq_items q) (aq_firstIdx q))"

definition ArrayQueue_peekLast :: "'a ArrayQueue \<Rightarrow> 'a option" where
  "ArrayQueue_peekLast q =
     (if ArrayQueue_length q = 0 then None else js_get (aq_items q) (aq_lastIdx q))"

definition ArrayQueue_dequeue :: "'a ArrayQueue \<Rightarrow> 'a option \<times> 'a ArrayQueue" where
  "ArrayQueue_dequeue q =
     (js_get (aq_items q) (aq_firstIdx q), q\<lparr>aq_firstIdx := aq_firstIdx q + 1\<rparr>)"

definition ArrayQueue_removeLast :: "'a ArrayQueue \<Rightarrow> 'a option \<times> 'a ArrayQueue" where
  "ArrayQueue_removeLast q =
     (js_get (aq_items q) (aq_lastIdx q), q\<lparr>aq_lastIdx := aq_lastIdx q - 1\<rparr>)"

definition ArrayQueue_takeCount :: "int \<Rightarrow> 'a ArrayQueue \<Rightarrow> 'a list \<times> 'a ArrayQueue" where
  "ArrayQueue_takeCount cnt q =
     (js_slice (aq_items q) (aq_firstIdx q) (aq_firstIdx q + cnt),
      q\<lparr>aq_firstIdx := aq_firstIdx q + cnt\<rparr>)"

definition aq_invar :: "'a ArrayQueue \<Rightarrow> bool" where
  "aq_invar q \<longleftrightarrow> 0 \<le> aq_firstIdx q \<and> aq_firstIdx q \<le> aq_lastIdx q + 1 \<and>
     aq_lastIdx q < int (length (aq_items q))"

definition aq_window :: "'a list \<Rightarrow> int \<Rightarrow> int \<Rightarrow> 'a list" where
  "aq_window xs i j = take (nat (j - i)) (drop (nat i) xs)"

definition aq_list :: "'a ArrayQueue \<Rightarrow> 'a list" where
  "aq_list q = aq_window (aq_items q) (aq_firstIdx q) (aq_lastIdx q + 1)"

lemma js_slice_window:
  "0 \<le> i \<Longrightarrow> i \<le> j \<Longrightarrow> j \<le> int (length xs) \<Longrightarrow> js_slice xs i j = aq_window xs i j"
  by (simp add: js_slice_def aq_window_def js_rel_index_def nat_diff_distrib Let_def)

lemma aq_window_empty [simp]: "j \<le> i \<Longrightarrow> aq_window xs i j = []"
  by (simp add: aq_window_def)

lemma aq_window_Cons:
  assumes "0 \<le> i" "i < j" "j \<le> int (length xs)"
  shows "aq_window xs i j = xs ! nat i # aq_window xs (i + 1) j"
proof -
  have "drop (nat i) xs = xs ! nat i # drop (nat (i + 1)) xs"
    using assms by (simp add: Cons_nth_drop_Suc nat_add_distrib)
  moreover have "nat (j - i) = Suc (nat (j - (i + 1)))" using assms by simp
  ultimately show ?thesis by (simp add: aq_window_def)
qed

lemma aq_window_snoc:
  assumes "0 \<le> i" "i < j" "j \<le> int (length xs)"
  shows "aq_window xs i j = aq_window xs i (j - 1) @ [xs ! nat (j - 1)]"
proof -
  have "nat (j - i) = Suc (nat (j - 1 - i))" using assms by simp
  moreover have "drop (nat i) xs ! nat (j - 1 - i) = xs ! nat (j - 1)"
    using assms by (simp add: nat_add_distrib [symmetric])
  moreover have "nat (j - 1 - i) < length (drop (nat i) xs)" using assms by simp
  ultimately show ?thesis
    unfolding aq_window_def by (simp add: take_Suc_conv_app_nth)
qed

lemma aq_window_eq_Nil: "0 \<le> i \<Longrightarrow> j \<le> int (length xs) \<Longrightarrow> aq_window xs i j = [] \<longleftrightarrow> j \<le> i"
  using aq_window_Cons [of i j xs] by (cases "i < j") auto

lemma takeWhile_idx_spec:
  assumes "0 \<le> i" "i \<le> j + 1" "j < int (length xs)"
  shows "i \<le> takeWhile_idx xs p i j \<and> takeWhile_idx xs p i j \<le> j + 1 \<and>
         aq_window xs i (takeWhile_idx xs p i j) = takeWhile p (aq_window xs i (j + 1)) \<and>
         aq_window xs (takeWhile_idx xs p i j) (j + 1) = dropWhile p (aq_window xs i (j + 1))"
  using assms
proof (induction xs p i j rule: takeWhile_idx.induct)
  case (1 xs p i j)
  consider (stop) "\<not> i \<le> j" | (no) "i \<le> j" "\<not> p (xs ! nat i)" | (yes) "i \<le> j" "p (xs ! nat i)" by blast
  then show ?case
  proof cases
    case stop
    then have "takeWhile_idx xs p i j = i" by (subst takeWhile_idx.simps) simp
    with stop "1.prems" show ?thesis by simp
  next
    case no
    then have "takeWhile_idx xs p i j = i" by (subst takeWhile_idx.simps) simp
    with no "1.prems" aq_window_Cons [of i "j + 1" xs] show ?thesis by simp
  next
    case yes
    let ?r = "takeWhile_idx xs p (i + 1) j"
    have eqn: "takeWhile_idx xs p i j = ?r" using yes by (subst takeWhile_idx.simps) simp
    have IH: "i + 1 \<le> ?r \<and> ?r \<le> j + 1 \<and>
         aq_window xs (i + 1) ?r = takeWhile p (aq_window xs (i + 1) (j + 1)) \<and>
         aq_window xs ?r (j + 1) = dropWhile p (aq_window xs (i + 1) (j + 1))"
      using yes "1.prems" by (intro "1.IH") simp_all
    with yes "1.prems" aq_window_Cons [of i "j + 1" xs] aq_window_Cons [of i ?r xs]
    show ?thesis unfolding eqn by simp
  qed
qed

lemma takeFromEndWhile_idx_spec:
  assumes "0 \<le> i" "i \<le> j + 1" "j < int (length xs)"
  shows "i \<le> takeFromEndWhile_idx xs p j i + 1 \<and> takeFromEndWhile_idx xs p j i \<le> j \<and>
         aq_window xs i (takeFromEndWhile_idx xs p j i + 1) =
           rev (dropWhile p (rev (aq_window xs i (j + 1)))) \<and>
         aq_window xs (takeFromEndWhile_idx xs p j i + 1) (j + 1) =
           rev (takeWhile p (rev (aq_window xs i (j + 1))))"
  using assms
proof (induction xs p j i rule: takeFromEndWhile_idx.induct)
  case (1 xs p j i)
  consider (stop) "\<not> j \<ge> i" | (no) "j \<ge> i" "\<not> p (xs ! nat j)" | (yes) "j \<ge> i" "p (xs ! nat j)" by blast
  then show ?case
  proof cases
    case stop
    then have "takeFromEndWhile_idx xs p j i = j" by (subst takeFromEndWhile_idx.simps) simp
    with stop "1.prems" show ?thesis by simp
  next
    case no
    then have "takeFromEndWhile_idx xs p j i = j" by (subst takeFromEndWhile_idx.simps) simp
    with no "1.prems" aq_window_snoc [of i "j + 1" xs] show ?thesis by simp
  next
    case yes
    let ?r = "takeFromEndWhile_idx xs p (j - 1) i"
    have eqn: "takeFromEndWhile_idx xs p j i = ?r"
      using yes by (subst takeFromEndWhile_idx.simps) simp
    have IH: "i \<le> ?r + 1 \<and> ?r \<le> j - 1 \<and>
         aq_window xs i (?r + 1) = rev (dropWhile p (rev (aq_window xs i (j - 1 + 1)))) \<and>
         aq_window xs (?r + 1) (j - 1 + 1) = rev (takeWhile p (rev (aq_window xs i (j - 1 + 1))))"
      using yes "1.prems" by (intro "1.IH") simp_all
    with yes "1.prems" aq_window_snoc [of i "j + 1" xs] aq_window_snoc [of "?r + 1" "j + 1" xs]
    show ?thesis unfolding eqn by simp
  qed
qed

lemma ArrayQueue_takeWhile_spec:
  assumes "aq_invar q"
  shows "aq_list (snd (ArrayQueue_takeWhile p q)) = dropWhile p (aq_list q)"
    and "fst (ArrayQueue_takeWhile p q) =
           (let t = takeWhile p (aq_list q) in if t = [] then None else Some t)"
    and "aq_invar (snd (ArrayQueue_takeWhile p q))"
  using takeWhile_idx_spec [of "aq_firstIdx q" "aq_lastIdx q" "aq_items q" p] assms
    aq_window_eq_Nil [of "aq_firstIdx q" "takeWhile_idx (aq_items q) p (aq_firstIdx q) (aq_lastIdx q)"
      "aq_items q"]
  by (auto simp: ArrayQueue_takeWhile_def aq_list_def aq_invar_def Let_def js_slice_window)

lemma ArrayQueue_takeFromEndWhile_spec:
  assumes "aq_invar q"
  shows "aq_list (snd (ArrayQueue_takeFromEndWhile p q)) = rev (dropWhile p (rev (aq_list q)))"
    and "fst (ArrayQueue_takeFromEndWhile p q) =
           (let t = rev (takeWhile p (rev (aq_list q))) in if t = [] then None else Some t)"
    and "aq_invar (snd (ArrayQueue_takeFromEndWhile p q))"
  using takeFromEndWhile_idx_spec [of "aq_firstIdx q" "aq_lastIdx q" "aq_items q" p] assms
    aq_window_eq_Nil [of "takeFromEndWhile_idx (aq_items q) p (aq_lastIdx q) (aq_firstIdx q) + 1"
      "aq_lastIdx q + 1" "aq_items q"]
  by (auto simp: ArrayQueue_takeFromEndWhile_def aq_list_def aq_invar_def Let_def js_slice_window)

interpretation aqueue: window_queue aq_list aq_invar ArrayQueue_takeWhile ArrayQueue_takeFromEndWhile
  by unfold_locales
    (simp_all add: ArrayQueue_takeWhile_spec ArrayQueue_takeFromEndWhile_spec)

lemma ArrayQueue_dequeue_spec:
  assumes "aq_invar q" "aq_list q \<noteq> []"
  shows "fst (ArrayQueue_dequeue q) = Some (hd (aq_list q))"
    and "aq_list (snd (ArrayQueue_dequeue q)) = tl (aq_list q)"
    and "aq_invar (snd (ArrayQueue_dequeue q))"
proof -
  have "aq_firstIdx q < aq_lastIdx q + 1"
    using assms aq_window_eq_Nil [of "aq_firstIdx q" "aq_lastIdx q + 1" "aq_items q"]
    by (auto simp: aq_invar_def aq_list_def)
  then show "fst (ArrayQueue_dequeue q) = Some (hd (aq_list q))"
    and "aq_list (snd (ArrayQueue_dequeue q)) = tl (aq_list q)"
    and "aq_invar (snd (ArrayQueue_dequeue q))"
    using assms(1) aq_window_Cons [of "aq_firstIdx q" "aq_lastIdx q + 1" "aq_items q"]
    by (auto simp: ArrayQueue_dequeue_def aq_invar_def aq_list_def js_get_def)
qed

lemma aq_new: "aq_invar (new_ArrayQueue xs) \<and> aq_list (new_ArrayQueue xs) = xs"
  by (simp add: new_ArrayQueue_def aq_invar_def aq_list_def aq_window_def)

lemma length_aq_list: "aq_invar q \<Longrightarrow> int (length (aq_list q)) = ArrayQueue_length q"
  by (auto simp: aq_invar_def aq_list_def aq_window_def ArrayQueue_length_def)

end
