(* ===== verification/Positions.thy ===== *)
theory Positions
  imports Arrays
begin

text \<open>
  \<open>src/vs/editor/common/core/position.ts\<close>: a position is a line number and a column, both from
  1 on in a text buffer; the class itself accepts any numbers.

  The record is made an instance of \<open>linorder\<close> by the document order (line first, then column),
  so that the library's order reasoning is available for positions; the comparison functions of
  the code are shown to be that order.
\<close>

record Position =
  lineNumber :: int
  column :: int

instantiation Position_ext :: (linorder) linorder
begin

definition less_eq_Position_ext :: "'a Position_ext \<Rightarrow> 'a Position_ext \<Rightarrow> bool" where
  "less_eq_Position_ext p q \<longleftrightarrow>
     lineNumber p < lineNumber q \<or>
     (lineNumber p = lineNumber q \<and>
      (column p < column q \<or> (column p = column q \<and> Position.more p \<le> Position.more q)))"

definition less_Position_ext :: "'a Position_ext \<Rightarrow> 'a Position_ext \<Rightarrow> bool" where
  "less_Position_ext p q \<longleftrightarrow>
     lineNumber p < lineNumber q \<or>
     (lineNumber p = lineNumber q \<and>
      (column p < column q \<or> (column p = column q \<and> Position.more p < Position.more q)))"

instance
  by intro_classes (auto simp: less_eq_Position_ext_def less_Position_ext_def)

end

abbreviation mk_pos :: "int \<Rightarrow> int \<Rightarrow> Position" where
  "mk_pos l c \<equiv> \<lparr>lineNumber = l, column = c\<rparr>"

lemma mk_pos_eta [simp]: "mk_pos (lineNumber p) (column p) = p"
  by (cases p) simp

lemma Position_le_iff:
  "(p :: Position) \<le> q \<longleftrightarrow>
   lineNumber p < lineNumber q \<or> (lineNumber p = lineNumber q \<and> column p \<le> column q)"
  by (auto simp: less_eq_Position_ext_def)

lemma Position_less_iff:
  "(p :: Position) < q \<longleftrightarrow>
   lineNumber p < lineNumber q \<or> (lineNumber p = lineNumber q \<and> column p < column q)"
  by (auto simp: less_Position_ext_def)

section \<open>Operations\<close>

definition new_Position :: "int \<Rightarrow> int \<Rightarrow> Position" where
  "new_Position l c = \<lparr>lineNumber = l, column = c\<rparr>"

text \<open>Omitted arguments are \<open>None\<close>; they default to the position's own fields.\<close>

definition Position_with :: "Position \<Rightarrow> int option \<Rightarrow> int option \<Rightarrow> Position" where
  "Position_with p newLineNumber newColumn =
     (let nl = (case newLineNumber of None \<Rightarrow> lineNumber p | Some l \<Rightarrow> l);
          nc = (case newColumn of None \<Rightarrow> column p | Some c \<Rightarrow> c)
      in if nl = lineNumber p \<and> nc = column p then p else new_Position nl nc)"

definition Position_delta :: "Position \<Rightarrow> int option \<Rightarrow> int option \<Rightarrow> Position" where
  "Position_delta p deltaLineNumber deltaColumn =
     (let dl = (case deltaLineNumber of None \<Rightarrow> 0 | Some d \<Rightarrow> d);
          dc = (case deltaColumn of None \<Rightarrow> 0 | Some d \<Rightarrow> d)
      in Position_with p (Some (max 1 (lineNumber p + dl))) (Some (max 1 (column p + dc))))"

fun Position_equals :: "Position option \<Rightarrow> Position option \<Rightarrow> bool" where
  "Position_equals None None = True"
| "Position_equals (Some a) (Some b) = (lineNumber a = lineNumber b \<and> column a = column b)"
| "Position_equals _ _ = False"

definition Position_isBefore :: "Position \<Rightarrow> Position \<Rightarrow> bool" where
  "Position_isBefore a b =
     (if lineNumber a < lineNumber b then True
      else if lineNumber b < lineNumber a then False
      else column a < column b)"

definition Position_isBeforeOrEqual :: "Position \<Rightarrow> Position \<Rightarrow> bool" where
  "Position_isBeforeOrEqual a b =
     (if lineNumber a < lineNumber b then True
      else if lineNumber b < lineNumber a then False
      else column a \<le> column b)"

definition Position_compare :: "Position \<Rightarrow> Position \<Rightarrow> int" where
  "Position_compare a b =
     (let aLineNumber = js_to_int32 (lineNumber a); bLineNumber = js_to_int32 (lineNumber b)
      in if aLineNumber = bLineNumber then
           let aColumn = js_to_int32 (column a); bColumn = js_to_int32 (column b)
           in aColumn - bColumn
         else aLineNumber - bLineNumber)"

definition Position_clone :: "Position \<Rightarrow> Position" where
  "Position_clone p = new_Position (lineNumber p) (column p)"

definition Position_lift :: "Position \<Rightarrow> Position" where
  "Position_lift p = new_Position (lineNumber p) (column p)"

section \<open>The comparisons are the document order\<close>

lemma Position_isBefore_less: "Position_isBefore a b \<longleftrightarrow> a < b"
  by (auto simp: Position_isBefore_def Position_less_iff)

lemma Position_isBeforeOrEqual_le: "Position_isBeforeOrEqual a b \<longleftrightarrow> a \<le> b"
  by (auto simp: Position_isBeforeOrEqual_def Position_le_iff)

lemma Position_eq_iff: "(p :: Position) = q \<longleftrightarrow> lineNumber p = lineNumber q \<and> column p = column q"
  by (cases p; cases q) auto

lemma Position_equals_eq: "Position_equals a b \<longleftrightarrow> a = b"
  by (cases "(a, b)" rule: Position_equals.cases) (auto simp: Position_eq_iff)

definition int32_position :: "Position \<Rightarrow> bool" where
  "int32_position p \<longleftrightarrow> is_int32 (lineNumber p) \<and> is_int32 (column p)"

lemma Position_compare_int32:
  "int32_position a \<Longrightarrow> int32_position b \<Longrightarrow>
   Position_compare a b =
     (if lineNumber a = lineNumber b then column a - column b else lineNumber a - lineNumber b)"
  by (simp add: Position_compare_def int32_position_def js_to_int32_id)

lemma Position_compare_order:
  assumes "int32_position a" "int32_position b"
  shows "Position_compare a b < 0 \<longleftrightarrow> a < b" "Position_compare a b = 0 \<longleftrightarrow> a = b"
    "Position_compare a b > 0 \<longleftrightarrow> b < a"
  using Position_compare_int32 [OF assms] by (auto simp: Position_less_iff Position_eq_iff)

text \<open>
  On all positions, int32 or not, the function is a comparator: it compares the pair of the
  narrowed line and column by tie breaking.
\<close>

lemma Position_compare_tie:
  "Position_compare =
   (\<lambda>a b. if compareBy (\<lambda>p. js_to_int32 (lineNumber p)) numberComparator a b \<noteq> 0
           then compareBy (\<lambda>p. js_to_int32 (lineNumber p)) numberComparator a b
           else compareBy (\<lambda>p. js_to_int32 (column p)) numberComparator a b)"
  by (auto simp: fun_eq_iff Position_compare_def compareBy_def numberComparator_def Let_def)

interpretation positionOrder: comparator Position_compare
  unfolding Position_compare_tie
  by (intro comparator.comparator_tie numberOrder.comparator_compareBy)

lemma Position_with_fields [simp]:
  "lineNumber (Position_with p (Some l) (Some c)) = l"
  "column (Position_with p (Some l) (Some c)) = c"
  by (auto simp: Position_with_def new_Position_def)

lemma Position_delta_at_least_one:
  "1 \<le> lineNumber (Position_delta p dl dc) \<and> 1 \<le> column (Position_delta p dl dc)"
  by (simp add: Position_delta_def Let_def)

end
