(* ===== verification/Ranges.thy ===== *)
theory Ranges
  imports Positions
begin

text \<open>
  \<open>src/vs/editor/common/core/range.ts\<close>: a range is a start and an end position.  The record
  models \<open>IRange\<close> (any four numbers); \<open>new_Range\<close> is the constructor of the class, which
  swaps the ends so that the start is not after the end (\<open>wf_range\<close>).  The static functions
  accept any \<open>IRange\<close>; an instance method forwards to the static one of the same name.

  The meaning of a range is the set of positions from its start to its end (\<open>range_points\<close>).
\<close>

record Range =
  startLineNumber :: int
  startColumn :: int
  endLineNumber :: int
  endColumn :: int

definition new_Range :: "int \<Rightarrow> int \<Rightarrow> int \<Rightarrow> int \<Rightarrow> Range" where
  "new_Range sl sc el ec =
     (if sl > el \<or> (sl = el \<and> sc > ec)
      then \<lparr>startLineNumber = el, startColumn = ec, endLineNumber = sl, endColumn = sc\<rparr>
      else \<lparr>startLineNumber = sl, startColumn = sc, endLineNumber = el, endColumn = ec\<rparr>)"

definition Range_isEmpty :: "'x Range_scheme \<Rightarrow> bool" where
  "Range_isEmpty r \<longleftrightarrow> startLineNumber r = endLineNumber r \<and> startColumn r = endColumn r"

definition Range_containsPosition :: "'x Range_scheme \<Rightarrow> Position \<Rightarrow> bool" where
  "Range_containsPosition r p =
     (if lineNumber p < startLineNumber r \<or> lineNumber p > endLineNumber r then False
      else if lineNumber p = startLineNumber r \<and> column p < startColumn r then False
      else if lineNumber p = endLineNumber r \<and> column p > endColumn r then False
      else True)"

definition Range_strictContainsPosition :: "'x Range_scheme \<Rightarrow> Position \<Rightarrow> bool" where
  "Range_strictContainsPosition r p =
     (if lineNumber p < startLineNumber r \<or> lineNumber p > endLineNumber r then False
      else if lineNumber p = startLineNumber r \<and> column p \<le> startColumn r then False
      else if lineNumber p = endLineNumber r \<and> column p \<ge> endColumn r then False
      else True)"

definition Range_containsRange :: "'x Range_scheme \<Rightarrow> 'y Range_scheme \<Rightarrow> bool" where
  "Range_containsRange r other =
     (if startLineNumber other < startLineNumber r \<or> endLineNumber other < startLineNumber r then False
      else if startLineNumber other > endLineNumber r \<or> endLineNumber other > endLineNumber r then False
      else if startLineNumber other = startLineNumber r \<and> startColumn other < startColumn r then False
      else if endLineNumber other = endLineNumber r \<and> endColumn other > endColumn r then False
      else True)"

definition Range_strictContainsRange :: "'x Range_scheme \<Rightarrow> 'y Range_scheme \<Rightarrow> bool" where
  "Range_strictContainsRange r other =
     (if startLineNumber other < startLineNumber r \<or> endLineNumber other < startLineNumber r then False
      else if startLineNumber other > endLineNumber r \<or> endLineNumber other > endLineNumber r then False
      else if startLineNumber other = startLineNumber r \<and> startColumn other \<le> startColumn r then False
      else if endLineNumber other = endLineNumber r \<and> endColumn other \<ge> endColumn r then False
      else True)"

definition Range_plusRange :: "'x Range_scheme \<Rightarrow> 'y Range_scheme \<Rightarrow> Range" where
  "Range_plusRange a b =
     (let (sl, sc) =
            (if startLineNumber b < startLineNumber a then (startLineNumber b, startColumn b)
             else if startLineNumber b = startLineNumber a
               then (startLineNumber b, min (startColumn b) (startColumn a))
             else (startLineNumber a, startColumn a));
          (el, ec) =
            (if endLineNumber b > endLineNumber a then (endLineNumber b, endColumn b)
             else if endLineNumber b = endLineNumber a
               then (endLineNumber b, max (endColumn b) (endColumn a))
             else (endLineNumber a, endColumn a))
      in new_Range sl sc el ec)"

definition Range_intersectRanges :: "'x Range_scheme \<Rightarrow> 'y Range_scheme \<Rightarrow> Range option" where
  "Range_intersectRanges a b =
     (let (sl, sc) =
            (if startLineNumber a < startLineNumber b then (startLineNumber b, startColumn b)
             else if startLineNumber a = startLineNumber b
               then (startLineNumber a, max (startColumn a) (startColumn b))
             else (startLineNumber a, startColumn a));
          (el, ec) =
            (if endLineNumber a > endLineNumber b then (endLineNumber b, endColumn b)
             else if endLineNumber a = endLineNumber b
               then (endLineNumber a, min (endColumn a) (endColumn b))
             else (endLineNumber a, endColumn a))
      in if sl > el then None
         else if sl = el \<and> sc > ec then None
         else Some (new_Range sl sc el ec))"

fun Range_equalsRange :: "Range option \<Rightarrow> Range option \<Rightarrow> bool" where
  "Range_equalsRange None None = True"
| "Range_equalsRange (Some a) (Some b) =
     (startLineNumber a = startLineNumber b \<and> startColumn a = startColumn b \<and>
      endLineNumber a = endLineNumber b \<and> endColumn a = endColumn b)"
| "Range_equalsRange _ _ = False"

definition Range_getEndPosition :: "'x Range_scheme \<Rightarrow> Position" where
  "Range_getEndPosition r = new_Position (endLineNumber r) (endColumn r)"

definition Range_getStartPosition :: "'x Range_scheme \<Rightarrow> Position" where
  "Range_getStartPosition r = new_Position (startLineNumber r) (startColumn r)"

definition Range_setEndPosition :: "Range \<Rightarrow> int \<Rightarrow> int \<Rightarrow> Range" where
  "Range_setEndPosition r el ec = new_Range (startLineNumber r) (startColumn r) el ec"

definition Range_setStartPosition :: "Range \<Rightarrow> int \<Rightarrow> int \<Rightarrow> Range" where
  "Range_setStartPosition r sl sc = new_Range sl sc (endLineNumber r) (endColumn r)"

definition Range_collapseToStart :: "'x Range_scheme \<Rightarrow> Range" where
  "Range_collapseToStart r =
     new_Range (startLineNumber r) (startColumn r) (startLineNumber r) (startColumn r)"

definition Range_collapseToEnd :: "'x Range_scheme \<Rightarrow> Range" where
  "Range_collapseToEnd r = new_Range (endLineNumber r) (endColumn r) (endLineNumber r) (endColumn r)"

definition Range_delta :: "Range \<Rightarrow> int \<Rightarrow> Range" where
  "Range_delta r lineCount =
     new_Range (startLineNumber r + lineCount) (startColumn r) (endLineNumber r + lineCount) (endColumn r)"

definition Range_isSingleLine :: "'x Range_scheme \<Rightarrow> bool" where
  "Range_isSingleLine r \<longleftrightarrow> startLineNumber r = endLineNumber r"

definition Range_fromPositions :: "Position \<Rightarrow> Position option \<Rightarrow> Range" where
  "Range_fromPositions st en =
     (let e = (case en of None \<Rightarrow> st | Some q \<Rightarrow> q)
      in new_Range (lineNumber st) (column st) (lineNumber e) (column e))"

definition Range_lift :: "'x Range_scheme option \<Rightarrow> Range option" where
  "Range_lift r = (case r of None \<Rightarrow> None
     | Some r \<Rightarrow> Some (new_Range (startLineNumber r) (startColumn r) (endLineNumber r) (endColumn r)))"

definition Range_areIntersectingOrTouching :: "'x Range_scheme \<Rightarrow> 'y Range_scheme \<Rightarrow> bool" where
  "Range_areIntersectingOrTouching a b =
     (if endLineNumber a < startLineNumber b \<or>
         (endLineNumber a = startLineNumber b \<and> endColumn a < startColumn b) then False
      else if endLineNumber b < startLineNumber a \<or>
         (endLineNumber b = startLineNumber a \<and> endColumn b < startColumn a) then False
      else True)"

definition Range_areIntersecting :: "'x Range_scheme \<Rightarrow> 'y Range_scheme \<Rightarrow> bool" where
  "Range_areIntersecting a b =
     (if endLineNumber a < startLineNumber b \<or>
         (endLineNumber a = startLineNumber b \<and> endColumn a \<le> startColumn b) then False
      else if endLineNumber b < startLineNumber a \<or>
         (endLineNumber b = startLineNumber a \<and> endColumn b \<le> startColumn a) then False
      else True)"

definition Range_areOnlyIntersecting :: "'x Range_scheme \<Rightarrow> 'y Range_scheme \<Rightarrow> bool" where
  "Range_areOnlyIntersecting a b =
     (if endLineNumber a < startLineNumber b - 1 \<or>
         (endLineNumber a = startLineNumber b \<and> endColumn a < startColumn b - 1) then False
      else if endLineNumber b < startLineNumber a - 1 \<or>
         (endLineNumber b = startLineNumber a \<and> endColumn b < startColumn a - 1) then False
      else True)"

definition Range_compareRangesUsingStarts :: "Range option \<Rightarrow> Range option \<Rightarrow> int" where
  "Range_compareRangesUsingStarts ao bo =
     (case (ao, bo) of
        (Some a, Some b) \<Rightarrow>
          (let asl = js_to_int32 (startLineNumber a); bsl = js_to_int32 (startLineNumber b)
           in if asl = bsl then
                let asc = js_to_int32 (startColumn a); bsc = js_to_int32 (startColumn b)
                in if asc = bsc then
                     let ael = js_to_int32 (endLineNumber a); bel = js_to_int32 (endLineNumber b)
                     in if ael = bel then
                          let aec = js_to_int32 (endColumn a); bec = js_to_int32 (endColumn b)
                          in aec - bec
                        else ael - bel
                   else asc - bsc
              else asl - bsl)
      | _ \<Rightarrow> (let aExists = (if ao \<noteq> None then 1 else 0); bExists = (if bo \<noteq> None then 1 else 0)
              in aExists - bExists))"

definition Range_compareRangesUsingEnds :: "Range \<Rightarrow> Range \<Rightarrow> int" where
  "Range_compareRangesUsingEnds a b =
     (if endLineNumber a = endLineNumber b then
        if endColumn a = endColumn b then
          if startLineNumber a = startLineNumber b then startColumn a - startColumn b
          else startLineNumber a - startLineNumber b
        else endColumn a - endColumn b
      else endLineNumber a - endLineNumber b)"

definition Range_spansMultipleLines :: "'x Range_scheme \<Rightarrow> bool" where
  "Range_spansMultipleLines r \<longleftrightarrow> endLineNumber r > startLineNumber r"

section \<open>Ranges as sets of positions\<close>

definition wf_range :: "'x Range_scheme \<Rightarrow> bool" where
  "wf_range r \<longleftrightarrow> Range_getStartPosition r \<le> Range_getEndPosition r"

definition range_points :: "'x Range_scheme \<Rightarrow> Position set" where
  "range_points r = {Range_getStartPosition r .. Range_getEndPosition r}"

lemmas range_pos_defs = Range_getStartPosition_def Range_getEndPosition_def new_Position_def

lemma new_Range_wf: "wf_range (new_Range sl sc el ec)"
  by (auto simp: wf_range_def new_Range_def range_pos_defs Position_le_iff)

lemma new_Range_points:
  "range_points (new_Range sl sc el ec) =
   {min (mk_pos sl sc) (mk_pos el ec) .. max (mk_pos sl sc) (mk_pos el ec)}"
  by (auto simp: range_points_def new_Range_def range_pos_defs min_def max_def Position_le_iff)

lemma new_Range_ordered:
  "mk_pos sl sc \<le> mk_pos el ec \<Longrightarrow> new_Range sl sc el ec =
   \<lparr>startLineNumber = sl, startColumn = sc, endLineNumber = el, endColumn = ec\<rparr>"
  by (auto simp: new_Range_def Position_le_iff)

lemma Range_containsPosition_points: "Range_containsPosition r p \<longleftrightarrow> p \<in> range_points r"
  by (auto simp: Range_containsPosition_def range_points_def range_pos_defs Position_le_iff)

lemma Range_strictContainsPosition_points:
  "Range_strictContainsPosition r p \<longleftrightarrow> Range_getStartPosition r < p \<and> p < Range_getEndPosition r"
  by (auto simp: Range_strictContainsPosition_def range_pos_defs Position_less_iff)

lemma Range_containsRange_points:
  "wf_range other \<Longrightarrow> Range_containsRange r other \<longleftrightarrow> range_points other \<subseteq> range_points r"
  by (auto simp: Range_containsRange_def wf_range_def range_points_def range_pos_defs Position_le_iff)

lemma Range_strictContainsRange_points:
  "wf_range other \<Longrightarrow> Range_strictContainsRange r other \<longleftrightarrow>
   Range_getStartPosition r < Range_getStartPosition other \<and>
   Range_getEndPosition other < Range_getEndPosition r"
  by (auto simp: Range_strictContainsRange_def wf_range_def range_pos_defs Position_le_iff
      Position_less_iff)

text \<open>The range between two positions, and the union and intersection in terms of it.\<close>

abbreviation range_between :: "Position \<Rightarrow> Position \<Rightarrow> Range" where
  "range_between p q \<equiv> new_Range (lineNumber p) (column p) (lineNumber q) (column q)"

lemma range_between_ends:
  assumes "p \<le> q"
  shows "Range_getStartPosition (range_between p q) = p" "Range_getEndPosition (range_between p q) = q"
    "range_points (range_between p q) = {p..q}"
  using new_Range_ordered [of "lineNumber p" "column p" "lineNumber q" "column q"] assms
  by (simp_all add: range_points_def range_pos_defs)

lemma min_start:
  "(if startLineNumber b < startLineNumber a then (startLineNumber b, startColumn b)
    else if startLineNumber b = startLineNumber a
      then (startLineNumber b, min (startColumn b) (startColumn a))
    else (startLineNumber a, startColumn a)) =
   (lineNumber (min (Range_getStartPosition a) (Range_getStartPosition b)),
    column (min (Range_getStartPosition a) (Range_getStartPosition b)))"
  by (auto simp: min_def Position_le_iff range_pos_defs)

lemma max_end:
  "(if endLineNumber b > endLineNumber a then (endLineNumber b, endColumn b)
    else if endLineNumber b = endLineNumber a
      then (endLineNumber b, max (endColumn b) (endColumn a))
    else (endLineNumber a, endColumn a)) =
   (lineNumber (max (Range_getEndPosition a) (Range_getEndPosition b)),
    column (max (Range_getEndPosition a) (Range_getEndPosition b)))"
  by (auto simp: max_def Position_le_iff range_pos_defs)

lemma max_start:
  "(if startLineNumber a < startLineNumber b then (startLineNumber b, startColumn b)
    else if startLineNumber a = startLineNumber b
      then (startLineNumber a, max (startColumn a) (startColumn b))
    else (startLineNumber a, startColumn a)) =
   (lineNumber (max (Range_getStartPosition a) (Range_getStartPosition b)),
    column (max (Range_getStartPosition a) (Range_getStartPosition b)))"
  by (auto simp: max_def Position_le_iff range_pos_defs)

lemma min_end:
  "(if endLineNumber a > endLineNumber b then (endLineNumber b, endColumn b)
    else if endLineNumber a = endLineNumber b
      then (endLineNumber a, min (endColumn a) (endColumn b))
    else (endLineNumber a, endColumn a)) =
   (lineNumber (min (Range_getEndPosition a) (Range_getEndPosition b)),
    column (min (Range_getEndPosition a) (Range_getEndPosition b)))"
  by (auto simp: min_def Position_le_iff range_pos_defs)

lemma Range_plusRange_between:
  "Range_plusRange a b =
   range_between (min (Range_getStartPosition a) (Range_getStartPosition b))
                 (max (Range_getEndPosition a) (Range_getEndPosition b))"
  unfolding Range_plusRange_def min_start max_end by simp

lemma Range_intersectRanges_between:
  "Range_intersectRanges a b =
   (let p = max (Range_getStartPosition a) (Range_getStartPosition b);
        q = min (Range_getEndPosition a) (Range_getEndPosition b)
    in if p \<le> q then Some (range_between p q) else None)"
  unfolding Range_intersectRanges_def max_start min_end Let_def
  by (simp add: Position_le_iff del: max_less_iff_conj min_less_iff_conj)

lemma Range_plusRange_ends:
  assumes "wf_range a" "wf_range b"
  shows "Range_getStartPosition (Range_plusRange a b) =
           min (Range_getStartPosition a) (Range_getStartPosition b)"
    and "Range_getEndPosition (Range_plusRange a b) =
           max (Range_getEndPosition a) (Range_getEndPosition b)"
proof -
  have "min (Range_getStartPosition a) (Range_getStartPosition b) \<le>
        max (Range_getEndPosition a) (Range_getEndPosition b)"
    using assms unfolding wf_range_def by (meson max.coboundedI1 min.coboundedI1)
  then show "Range_getStartPosition (Range_plusRange a b) =
           min (Range_getStartPosition a) (Range_getStartPosition b)"
    and "Range_getEndPosition (Range_plusRange a b) =
           max (Range_getEndPosition a) (Range_getEndPosition b)"
    unfolding Range_plusRange_between by (simp_all add: range_between_ends)
qed

lemma Range_intersectRanges_points:
  "(case Range_intersectRanges a b of None \<Rightarrow> {} | Some r \<Rightarrow> range_points r) =
   range_points a \<inter> range_points b"
proof (cases "max (Range_getStartPosition a) (Range_getStartPosition b) \<le>
              min (Range_getEndPosition a) (Range_getEndPosition b)")
  case True
  then show ?thesis
    unfolding Range_intersectRanges_between Let_def
    by (simp add: range_between_ends) (simp add: range_points_def)
next
  case False
  then have "range_points a \<inter> range_points b = {}"
    unfolding range_points_def Int_atLeastAtMost by (simp only: atLeastatMost_empty_iff simp_thms)
  with False show ?thesis
    unfolding Range_intersectRanges_between Let_def by (simp only: if_False option.case)
qed

lemma Range_intersecting_or_touching:
  assumes "wf_range a" "wf_range b"
  shows "Range_areIntersectingOrTouching a b \<longleftrightarrow> range_points a \<inter> range_points b \<noteq> {}"
proof -
  have "Range_areIntersectingOrTouching a b \<longleftrightarrow>
        Range_getStartPosition b \<le> Range_getEndPosition a \<and> Range_getStartPosition a \<le> Range_getEndPosition b"
    by (auto simp: Range_areIntersectingOrTouching_def range_pos_defs Position_le_iff)
  then show ?thesis
    using assms by (simp add: range_points_def wf_range_def) 
qed

lemma Range_intersecting_iff:
  "Range_areIntersecting a b \<longleftrightarrow>
   Range_getStartPosition b < Range_getEndPosition a \<and> Range_getStartPosition a < Range_getEndPosition b"
  by (auto simp: Range_areIntersecting_def range_pos_defs Position_less_iff)

section \<open>Orders on ranges\<close>

definition int32_range :: "'x Range_scheme \<Rightarrow> bool" where
  "int32_range r \<longleftrightarrow> is_int32 (startLineNumber r) \<and> is_int32 (startColumn r) \<and>
     is_int32 (endLineNumber r) \<and> is_int32 (endColumn r)"

text \<open>Both orders are tie breaks of the four fields, the first on the narrowed ones.\<close>

definition narrow_starts :: "Range \<Rightarrow> Range \<Rightarrow> int" where
  "narrow_starts = tieBreakComparators
     [compareBy (\<lambda>r. js_to_int32 (startLineNumber r)) numberComparator,
      compareBy (\<lambda>r. js_to_int32 (startColumn r)) numberComparator,
      compareBy (\<lambda>r. js_to_int32 (endLineNumber r)) numberComparator,
      compareBy (\<lambda>r. js_to_int32 (endColumn r)) numberComparator]"

lemma Range_compareStarts_undefinedSmallest:
  "Range_compareRangesUsingStarts = compareUndefinedSmallest narrow_starts"
  by (auto simp: fun_eq_iff Range_compareRangesUsingStarts_def compareUndefinedSmallest_def
      narrow_starts_def compareBy_def numberComparator_def isNeitherLessOrGreaterThan_def Let_def
      split: option.splits)

lemma Range_compareEnds_tie:
  "Range_compareRangesUsingEnds = tieBreakComparators
     [compareBy endLineNumber numberComparator, compareBy endColumn numberComparator,
      compareBy startLineNumber numberComparator, compareBy startColumn numberComparator]"
  by (auto simp: fun_eq_iff Range_compareRangesUsingEnds_def compareBy_def numberComparator_def
      isNeitherLessOrGreaterThan_def Let_def)

interpretation rangeStartsOrder: comparator Range_compareRangesUsingStarts
  unfolding Range_compareStarts_undefinedSmallest narrow_starts_def
  by (intro comparator.comparator_undefinedSmallest comparator_tieBreak)
    (simp add: numberOrder.comparator_compareBy)

interpretation rangeEndsOrder: comparator Range_compareRangesUsingEnds
  unfolding Range_compareEnds_tie
  by (intro comparator_tieBreak) (simp add: numberOrder.comparator_compareBy)

lemma Range_compareStarts_zero:
  assumes "int32_range a" "int32_range b"
  shows "Range_compareRangesUsingStarts (Some a) (Some b) = 0 \<longleftrightarrow> a = b"
  using assms
  by (cases a; cases b)
    (auto simp: Range_compareRangesUsingStarts_def int32_range_def js_to_int32_id Let_def)

lemma Range_compareEnds_zero: "Range_compareRangesUsingEnds a b = 0 \<longleftrightarrow> a = b"
  by (cases a; cases b) (auto simp: Range_compareRangesUsingEnds_def)

end
