(* ===== verification/Selections.thy ===== *)
theory Selections
  imports Ranges
begin

text \<open>
  \<open>src/vs/editor/common/core/selection.ts\<close>: a selection is a range with an orientation.
  \<open>Selection extends Range\<close> is record extension, so every function of \<open>Ranges\<close> applies to
  a selection.
\<close>

datatype SelectionDirection = LTR | RTL

record Selection = Range +
  selectionStartLineNumber :: int
  selectionStartColumn :: int
  positionLineNumber :: int
  positionColumn :: int

definition new_Selection :: "int \<Rightarrow> int \<Rightarrow> int \<Rightarrow> int \<Rightarrow> Selection" where
  "new_Selection ssl ssc pl pc =
     (let r = new_Range ssl ssc pl pc
      in \<lparr>startLineNumber = startLineNumber r, startColumn = startColumn r,
          endLineNumber = endLineNumber r, endColumn = endColumn r,
          selectionStartLineNumber = ssl, selectionStartColumn = ssc,
          positionLineNumber = pl, positionColumn = pc\<rparr>)"

definition Selection_selectionsEqual :: "Selection \<Rightarrow> Selection \<Rightarrow> bool" where
  "Selection_selectionsEqual a b \<longleftrightarrow>
     selectionStartLineNumber a = selectionStartLineNumber b \<and>
     selectionStartColumn a = selectionStartColumn b \<and>
     positionLineNumber a = positionLineNumber b \<and>
     positionColumn a = positionColumn b"

definition Selection_getDirection :: "Selection \<Rightarrow> SelectionDirection" where
  "Selection_getDirection s =
     (if selectionStartLineNumber s = startLineNumber s \<and> selectionStartColumn s = startColumn s
      then LTR else RTL)"

definition Selection_setEndPosition :: "Selection \<Rightarrow> int \<Rightarrow> int \<Rightarrow> Selection" where
  "Selection_setEndPosition s el ec =
     (if Selection_getDirection s = LTR
      then new_Selection (startLineNumber s) (startColumn s) el ec
      else new_Selection el ec (startLineNumber s) (startColumn s))"

definition Selection_getPosition :: "Selection \<Rightarrow> Position" where
  "Selection_getPosition s = new_Position (positionLineNumber s) (positionColumn s)"

definition Selection_getSelectionStart :: "Selection \<Rightarrow> Position" where
  "Selection_getSelectionStart s = new_Position (selectionStartLineNumber s) (selectionStartColumn s)"

definition Selection_setStartPosition :: "Selection \<Rightarrow> int \<Rightarrow> int \<Rightarrow> Selection" where
  "Selection_setStartPosition s sl sc =
     (if Selection_getDirection s = LTR
      then new_Selection sl sc (endLineNumber s) (endColumn s)
      else new_Selection (endLineNumber s) (endColumn s) sl sc)"

definition Selection_fromPositions :: "Position \<Rightarrow> Position option \<Rightarrow> Selection" where
  "Selection_fromPositions st en =
     (let e = (case en of None \<Rightarrow> st | Some q \<Rightarrow> q)
      in new_Selection (lineNumber st) (column st) (lineNumber e) (column e))"

definition Selection_fromRange :: "'x Range_scheme \<Rightarrow> SelectionDirection \<Rightarrow> Selection" where
  "Selection_fromRange r direction =
     (if direction = LTR
      then new_Selection (startLineNumber r) (startColumn r) (endLineNumber r) (endColumn r)
      else new_Selection (endLineNumber r) (endColumn r) (startLineNumber r) (startColumn r))"

definition Selection_liftSelection :: "Selection \<Rightarrow> Selection" where
  "Selection_liftSelection s =
     new_Selection (selectionStartLineNumber s) (selectionStartColumn s)
       (positionLineNumber s) (positionColumn s)"

fun selectionsArrEqual_loop :: "Selection list \<Rightarrow> Selection list \<Rightarrow> bool" where
  "selectionsArrEqual_loop (a # as) (b # bs) =
     (if \<not> Selection_selectionsEqual a b then False else selectionsArrEqual_loop as bs)"
| "selectionsArrEqual_loop _ _ = True"

definition Selection_selectionsArrEqual :: "Selection list option \<Rightarrow> Selection list option \<Rightarrow> bool" where
  "Selection_selectionsArrEqual a b =
     (case (a, b) of
        (Some as, Some bs) \<Rightarrow>
          if length as \<noteq> length bs then False else selectionsArrEqual_loop as bs
      | (None, None) \<Rightarrow> True
      | _ \<Rightarrow> False)"

definition Selection_createWithDirection ::
  "int \<Rightarrow> int \<Rightarrow> int \<Rightarrow> int \<Rightarrow> SelectionDirection \<Rightarrow> Selection" where
  "Selection_createWithDirection sl sc el ec direction =
     (if direction = LTR then new_Selection sl sc el ec else new_Selection el ec sl sc)"

section \<open>Orientation\<close>

text \<open>A selection the constructor built: its range is the one of its two ends.\<close>

definition wf_selection :: "Selection \<Rightarrow> bool" where
  "wf_selection s \<longleftrightarrow> s = Selection_liftSelection s"

lemma new_Selection_wf: "wf_selection (new_Selection a b c d)"
  by (simp add: wf_selection_def Selection_liftSelection_def new_Selection_def Let_def)

lemma new_Selection_range:
  "Range.truncate (new_Selection a b c d) = new_Range a b c d"
  by (cases "new_Range a b c d") (simp add: new_Selection_def Range.truncate_def)

lemma wf_selection_cases:
  assumes "wf_selection s"
  shows "(Selection_getDirection s = LTR \<and>
          Selection_getSelectionStart s = Range_getStartPosition s \<and>
          Selection_getPosition s = Range_getEndPosition s) \<or>
         (Selection_getDirection s = RTL \<and>
          Selection_getSelectionStart s = Range_getEndPosition s \<and>
          Selection_getPosition s = Range_getStartPosition s)"
proof -
  obtain a b c d where s: "s = new_Selection a b c d"
    using assms unfolding wf_selection_def Selection_liftSelection_def by blast
  show ?thesis
    unfolding s
    by (auto simp: new_Selection_def new_Range_def Selection_getDirection_def range_pos_defs
        Selection_getSelectionStart_def Selection_getPosition_def Let_def)
qed

lemma Selection_range_roundtrip:
  assumes "wf_selection s"
  shows "Selection_fromRange s (Selection_getDirection s) = s"
proof -
  obtain a b c d where s: "s = new_Selection a b c d"
    using assms unfolding wf_selection_def Selection_liftSelection_def by blast
  show ?thesis
    unfolding s
    by (auto simp: Selection_fromRange_def Selection_getDirection_def new_Selection_def new_Range_def
        Let_def)
qed

lemma Selection_equal_iff:
  assumes "wf_selection a" "wf_selection b"
  shows "Selection_selectionsEqual a b \<longleftrightarrow> a = b"
  using assms unfolding wf_selection_def Selection_liftSelection_def Selection_selectionsEqual_def
  by metis

lemma selectionsArrEqual_loop_iff:
  "length as = length bs \<Longrightarrow>
   selectionsArrEqual_loop as bs \<longleftrightarrow> list_all2 Selection_selectionsEqual as bs"
  by (induction as bs rule: list_induct2) auto

lemma Selection_setEnd_range:
  assumes "wf_selection s"
  shows "Range.truncate (Selection_setEndPosition s el ec) =
         new_Range (startLineNumber s) (startColumn s) el ec"
proof -
  have "new_Range el ec sl sc = new_Range sl sc el ec" for sl sc
    by (auto simp: new_Range_def)
  then show ?thesis by (simp add: Selection_setEndPosition_def new_Selection_range)
qed

end
