(* ===== verification/Intervals.thy ===== *)
theory Intervals
  imports ArraysFind
begin

text \<open>
  Sorted arrays of disjoint half-open intervals, the representation that \<open>OffsetRangeSet\<close>
  (\<open>offsetRange.ts\<close>) and \<open>LineRangeSet\<close> (\<open>lineRange.ts\<close>) share.  The two classes have
  their own element types, so everything is stated over the two projections \<open>lo\<close> and \<open>hi\<close>.

  \<open>interval_set\<close> is the contract between a set of ranges and its clients: adding a range keeps
  the representation invariant and adds exactly the range's elements.
\<close>

section \<open>Representation\<close>

definition iv_normal :: "('r \<Rightarrow> int) \<Rightarrow> ('r \<Rightarrow> int) \<Rightarrow> 'r list \<Rightarrow> bool" where
  "iv_normal lo hi rs \<longleftrightarrow> (\<forall>r \<in> set rs. lo r \<le> hi r) \<and> sorted_wrt (\<lambda>a b. hi a < lo b) rs"

definition iv_members :: "('r \<Rightarrow> int) \<Rightarrow> ('r \<Rightarrow> int) \<Rightarrow> 'r list \<Rightarrow> int set" where
  "iv_members lo hi rs = (\<Union>r \<in> set rs. {lo r ..< hi r})"

named_theorems interval_simps

lemma iv_members_append [interval_simps]:
  "iv_members lo hi (xs @ ys) = iv_members lo hi xs \<union> iv_members lo hi ys"
  by (auto simp: iv_members_def)

lemma iv_members_Nil [interval_simps]: "iv_members lo hi [] = {}"
  by (simp add: iv_members_def)

lemma iv_members_Cons [interval_simps]:
  "iv_members lo hi (x # xs) = {lo x ..< hi x} \<union> iv_members lo hi xs"
  by (simp add: iv_members_def)

lemma iv_normal_append [interval_simps]:
  "iv_normal lo hi (xs @ ys) \<longleftrightarrow>
   iv_normal lo hi xs \<and> iv_normal lo hi ys \<and> (\<forall>x \<in> set xs. \<forall>y \<in> set ys. hi x < lo y)"
  by (auto simp: iv_normal_def sorted_wrt_append)

lemma iv_normal_Nil [interval_simps]: "iv_normal lo hi []"
  by (simp add: iv_normal_def)

lemma iv_normal_Cons [interval_simps]:
  "iv_normal lo hi (x # xs) \<longleftrightarrow> lo x \<le> hi x \<and> (\<forall>y \<in> set xs. hi x < lo y) \<and> iv_normal lo hi xs"
  by (auto simp: iv_normal_def)

lemma iv_normal_le: "iv_normal lo hi rs \<Longrightarrow> r \<in> set rs \<Longrightarrow> lo r \<le> hi r"
  by (simp add: iv_normal_def)

lemma iv_normal_disjoint:
  assumes "iv_normal lo hi rs" "i < j" "j < length rs"
  shows "hi (rs ! i) < lo (rs ! j)"
  using assms by (auto simp: iv_normal_def sorted_wrt_iff_nth_less)

section \<open>Splitting an array at a range\<close>

lemma sorted_wrt_dropWhile:
  assumes "sorted_wrt R xs" "\<And>x y. R x y \<Longrightarrow> x \<in> set xs \<Longrightarrow> y \<in> set xs \<Longrightarrow> P y \<Longrightarrow> P x"
    and "y \<in> set (dropWhile P xs)"
  shows "\<not> P y"
  using assms
proof (induction xs)
  case (Cons x xs)
  show ?case
  proof (cases "P x")
    case True
    with Cons.prems(3) have "y \<in> set (dropWhile P xs)" by simp
    with Cons.prems(1,2) show ?thesis by (intro Cons.IH) auto
  next
    case False
    with Cons.prems show ?thesis by auto
  qed
qed simp

text \<open>The ranges before \<open>[l, h)\<close>, the ones that touch it, and the ones after it.\<close>

definition iv_before :: "('r \<Rightarrow> int) \<Rightarrow> int \<Rightarrow> 'r list \<Rightarrow> 'r list" where
  "iv_before hi l rs = takeWhile (\<lambda>x. hi x < l) rs"

definition iv_touch :: "('r \<Rightarrow> int) \<Rightarrow> ('r \<Rightarrow> int) \<Rightarrow> int \<Rightarrow> int \<Rightarrow> 'r list \<Rightarrow> 'r list" where
  "iv_touch lo hi l h rs = takeWhile (\<lambda>x. lo x \<le> h) (dropWhile (\<lambda>x. hi x < l) rs)"

definition iv_after :: "('r \<Rightarrow> int) \<Rightarrow> ('r \<Rightarrow> int) \<Rightarrow> int \<Rightarrow> int \<Rightarrow> 'r list \<Rightarrow> 'r list" where
  "iv_after lo hi l h rs = dropWhile (\<lambda>x. lo x \<le> h) (dropWhile (\<lambda>x. hi x < l) rs)"

lemma iv_split: "rs = iv_before hi l rs @ iv_touch lo hi l h rs @ iv_after lo hi l h rs"
  by (simp add: iv_before_def iv_touch_def iv_after_def)

lemma iv_split_bounds:
  assumes "iv_normal lo hi rs" "l \<le> h"
  shows "\<forall>a \<in> set (iv_before hi l rs). hi a < l"
    and "\<forall>m \<in> set (iv_touch lo hi l h rs). l \<le> hi m \<and> lo m \<le> h"
    and "\<forall>b \<in> set (iv_after lo hi l h rs). h < lo b"
proof -
  let ?P = "\<lambda>x. hi x < l" and ?Q = "\<lambda>x. lo x \<le> h"
  from assms(1) have srt: "sorted_wrt (\<lambda>a b. hi a < lo b) rs"
    and le: "\<And>r. r \<in> set rs \<Longrightarrow> lo r \<le> hi r" by (auto simp: iv_normal_def)
  show "\<forall>a \<in> set (iv_before hi l rs). hi a < l"
    by (auto simp: iv_before_def dest: set_takeWhileD)
  have notP: "l \<le> hi y" if "y \<in> set (dropWhile ?P rs)" for y
  proof -
    have "\<not> ?P y"
      by (rule sorted_wrt_dropWhile [OF srt _ that]) (use le in \<open>force\<close>)
    then show ?thesis by simp
  qed
  then show "\<forall>m \<in> set (iv_touch lo hi l h rs). l \<le> hi m \<and> lo m \<le> h"
    by (auto simp: iv_touch_def dest: set_takeWhileD)
  have sub: "set (dropWhile ?P rs) \<subseteq> set rs" by (meson set_dropWhileD subsetI)
  have srt': "sorted_wrt (\<lambda>a b. hi a < lo b) (dropWhile ?P rs)"
    using srt by (simp add: sorted_wrt_dropWhile dropWhile_eq_drop sorted_wrt_drop)
  show "\<forall>b \<in> set (iv_after lo hi l h rs). h < lo b"
  proof
    fix b assume "b \<in> set (iv_after lo hi l h rs)"
    then have b: "b \<in> set (dropWhile ?Q (dropWhile ?P rs))" by (simp add: iv_after_def)
    have "\<not> ?Q b"
      by (rule sorted_wrt_dropWhile [OF srt' _ b]) (use le sub in \<open>force\<close>)
    then show "h < lo b" by simp
  qed
qed

lemma iv_split_normal:
  assumes "iv_normal lo hi rs"
  shows "iv_normal lo hi (iv_before hi l rs)" "iv_normal lo hi (iv_touch lo hi l h rs)"
    "iv_normal lo hi (iv_after lo hi l h rs)"
    "\<forall>a \<in> set (iv_before hi l rs). \<forall>b \<in> set (iv_after lo hi l h rs). hi a < lo b"
  using assms by (subst (asm) iv_split [of rs hi l lo h]; auto simp: interval_simps)+

lemma iv_members_split:
  "iv_members lo hi rs = iv_members lo hi (iv_before hi l rs) \<union>
     iv_members lo hi (iv_touch lo hi l h rs) \<union> iv_members lo hi (iv_after lo hi l h rs)"
  by (subst iv_split [of rs hi l lo h]) (auto simp: interval_simps)

text \<open>The hull of the touching ranges and \<open>[l, h)\<close> contains nothing else.\<close>

lemma iv_hull:
  assumes "iv_normal lo hi M" "M \<noteq> []" "l \<le> h" "\<forall>m \<in> set M. l \<le> hi m \<and> lo m \<le> h"
  shows "{min l (lo (hd M)) ..< max h (hi (last M))} = iv_members lo hi M \<union> {l ..< h}"
proof
  have hd: "hd M \<in> set M" and last: "last M \<in> set M" using assms(2) by auto
  show "{min l (lo (hd M)) ..< max h (hi (last M))} \<subseteq> iv_members lo hi M \<union> {l ..< h}"
  proof
    fix p assume p: "p \<in> {min l (lo (hd M)) ..< max h (hi (last M))}"
    consider "p < l" | "h \<le> p" | "p \<in> {l ..< h}" by fastforce
    then show "p \<in> iv_members lo hi M \<union> {l ..< h}"
    proof cases
      case 1
      then have "p \<in> {lo (hd M) ..< hi (hd M)}" using p assms(4) hd by fastforce
      with hd show ?thesis unfolding iv_members_def by blast
    next
      case 2
      then have "p \<in> {lo (last M) ..< hi (last M)}" using p assms(4) last by fastforce
      with last show ?thesis unfolding iv_members_def by blast
    next
      case 3
      then show ?thesis by blast
    qed
  qed
  have bounds: "lo (hd M) \<le> lo m" "hi m \<le> hi (last M)" if "m \<in> set M" for m
  proof -
    from that obtain k where k: "k < length M" "M ! k = m" by (auto simp: in_set_conv_nth)
    show "lo (hd M) \<le> lo m"
      using iv_normal_disjoint [OF assms(1), of 0 k] iv_normal_le [OF assms(1) hd] k assms(2)
      by (cases "k = 0") (auto simp: hd_conv_nth)
    show "hi m \<le> hi (last M)"
    proof (cases "k < length M - 1")
      case True
      then show ?thesis
        using iv_normal_disjoint [OF assms(1) True] iv_normal_le [OF assms(1) last] k assms(2)
        by (simp add: last_conv_nth)
    next
      case False
      with k have "k = length M - 1" by simp
      with k assms(2) show ?thesis by (simp add: last_conv_nth)
    qed
  qed
  show "iv_members lo hi M \<union> {l ..< h} \<subseteq> {min l (lo (hd M)) ..< max h (hi (last M))}"
    unfolding iv_members_def using bounds by fastforce
qed

text \<open>Replacing the touching ranges by their hull with the new range.\<close>

lemma iv_add_normal:
  assumes "iv_normal lo hi rs" "l \<le> h"
    and x: "lo x = (if iv_touch lo hi l h rs = [] then l else min l (lo (hd (iv_touch lo hi l h rs))))"
      "hi x = (if iv_touch lo hi l h rs = [] then h else max h (hi (last (iv_touch lo hi l h rs))))"
  shows "iv_normal lo hi (iv_before hi l rs @ [x] @ iv_after lo hi l h rs)"
    and "iv_members lo hi (iv_before hi l rs @ [x] @ iv_after lo hi l h rs) = iv_members lo hi rs \<union> {l ..< h}"
proof -
  let ?A = "iv_before hi l rs" and ?M = "iv_touch lo hi l h rs" and ?B = "iv_after lo hi l h rs"
  note b = iv_split_bounds [OF assms(1,2)] and n = iv_split_normal [OF assms(1), where l = l]
  have xle: "lo x \<le> hi x" using x assms(2) by auto
  have ABM: "iv_normal lo hi (?A @ ?M @ ?B)" using assms(1) iv_split [of rs hi l lo h] by simp
  have left: "hi a < lo x" if "a \<in> set ?A" for a
    using that b(1) ABM x(1) by (auto simp: interval_simps)
  have right: "hi x < lo y" if "y \<in> set ?B" for y
    using that b(3) ABM x(2) by (auto simp: interval_simps)
  show "iv_normal lo hi (?A @ [x] @ ?B)"
    using n xle left right by (auto simp: interval_simps)
  have "{lo x ..< hi x} = iv_members lo hi ?M \<union> {l ..< h}"
    using iv_hull [OF n(2) [of h] _ assms(2) b(2)] x by (cases "?M = []") (simp_all add: interval_simps)
  then show "iv_members lo hi (?A @ [x] @ ?B) = iv_members lo hi rs \<union> {l ..< h}"
    by (subst iv_members_split [of lo hi rs l h]) (auto simp: interval_simps)
qed

section \<open>The contract of a set of ranges\<close>

locale interval_set =
  fixes lo hi :: "'r \<Rightarrow> int"
    and add :: "'r \<Rightarrow> 'r list \<Rightarrow> 'r list result"
    and good :: "'r list \<Rightarrow> bool"
  assumes good_normal: "good rs \<Longrightarrow> iv_normal lo hi rs"
    and good_empty: "good []"
    and add_spec: "good rs \<Longrightarrow> lo r \<le> hi r \<Longrightarrow>
      \<exists>rs'. add r rs = Ok rs' \<and> good rs' \<and>
            iv_members lo hi rs' = iv_members lo hi rs \<union> {lo r ..< hi r}"
begin

fun add_all :: "'r list \<Rightarrow> 'r list \<Rightarrow> 'r list result" where
  "add_all [] acc = Ok acc"
| "add_all (r # rs) acc = bind_result (add r acc) (add_all rs)"

text \<open>Adding ranges one by one, in any order, builds their union.\<close>

lemma add_all_spec:
  assumes "good acc" "\<forall>r \<in> set rs. lo r \<le> hi r"
  shows "\<exists>acc'. add_all rs acc = Ok acc' \<and> good acc' \<and>
                iv_members lo hi acc' = iv_members lo hi acc \<union> iv_members lo hi rs"
  using assms
proof (induction rs arbitrary: acc)
  case (Cons r rs)
  then obtain acc1 where a: "add r acc = Ok acc1" "good acc1"
    "iv_members lo hi acc1 = iv_members lo hi acc \<union> {lo r ..< hi r}"
    using add_spec [of acc r] by auto
  from Cons.IH [OF a(2)] Cons.prems(2) obtain acc2 where
    "add_all rs acc1 = Ok acc2" "good acc2"
    "iv_members lo hi acc2 = iv_members lo hi acc1 \<union> iv_members lo hi rs" by auto
  with a show ?case by (auto simp: interval_simps)
qed (simp add: interval_simps)

end

end
