(* ===== verification/OffsetRanges.thy ===== *)
theory OffsetRanges
  imports Arrays Intervals
begin

text \<open>
  \<open>src/vs/editor/common/core/ranges/offsetRange.ts\<close>: half-open ranges of offsets, and sets of
  offsets as sorted arrays of disjoint ranges.

  The constructor throws for a start after the end, so every function that builds a range has
  the type \<open>OffsetRange result\<close>.  \<open>or_set\<close> is the set of the offsets a range contains.
\<close>

record OffsetRange =
  or_start :: int
  or_endExclusive :: int

abbreviation mk_or :: "int \<Rightarrow> int \<Rightarrow> OffsetRange" where
  "mk_or s e \<equiv> \<lparr>or_start = s, or_endExclusive = e\<rparr>"

definition new_OffsetRange :: "int \<Rightarrow> int \<Rightarrow> OffsetRange result" where
  "new_OffsetRange st en = (if st > en then Throw BugIndicatingError else Ok (mk_or st en))"

definition OffsetRange_fromTo :: "int \<Rightarrow> int \<Rightarrow> OffsetRange result" where
  "OffsetRange_fromTo st en = new_OffsetRange st en"

definition OffsetRange_equals :: "OffsetRange \<Rightarrow> OffsetRange \<Rightarrow> bool" where
  "OffsetRange_equals r1 r2 \<longleftrightarrow> or_start r1 = or_start r2 \<and> or_endExclusive r1 = or_endExclusive r2"

definition OffsetRange_tryCreate :: "int \<Rightarrow> int \<Rightarrow> OffsetRange option result" where
  "OffsetRange_tryCreate st en =
     (if st > en then Ok None else bind_result (new_OffsetRange st en) (\<lambda>r. Ok (Some r)))"

definition OffsetRange_ofLength :: "int \<Rightarrow> OffsetRange result" where
  "OffsetRange_ofLength len = new_OffsetRange 0 len"

definition OffsetRange_ofStartAndLength :: "int \<Rightarrow> int \<Rightarrow> OffsetRange result" where
  "OffsetRange_ofStartAndLength st len = new_OffsetRange st (st + len)"

definition OffsetRange_emptyAt :: "int \<Rightarrow> OffsetRange result" where
  "OffsetRange_emptyAt offset = new_OffsetRange offset offset"

definition OffsetRange_isEmpty :: "OffsetRange \<Rightarrow> bool" where
  "OffsetRange_isEmpty r \<longleftrightarrow> or_start r = or_endExclusive r"

definition OffsetRange_delta :: "OffsetRange \<Rightarrow> int \<Rightarrow> OffsetRange result" where
  "OffsetRange_delta r offset = new_OffsetRange (or_start r + offset) (or_endExclusive r + offset)"

definition OffsetRange_deltaStart :: "OffsetRange \<Rightarrow> int \<Rightarrow> OffsetRange result" where
  "OffsetRange_deltaStart r offset = new_OffsetRange (or_start r + offset) (or_endExclusive r)"

definition OffsetRange_deltaEnd :: "OffsetRange \<Rightarrow> int \<Rightarrow> OffsetRange result" where
  "OffsetRange_deltaEnd r offset = new_OffsetRange (or_start r) (or_endExclusive r + offset)"

definition OffsetRange_length :: "OffsetRange \<Rightarrow> int" where
  "OffsetRange_length r = or_endExclusive r - or_start r"

definition OffsetRange_containsRange :: "OffsetRange \<Rightarrow> OffsetRange \<Rightarrow> bool" where
  "OffsetRange_containsRange r other \<longleftrightarrow>
     or_start r \<le> or_start other \<and> or_endExclusive other \<le> or_endExclusive r"

definition OffsetRange_contains :: "OffsetRange \<Rightarrow> int \<Rightarrow> bool" where
  "OffsetRange_contains r offset \<longleftrightarrow> or_start r \<le> offset \<and> offset < or_endExclusive r"

definition OffsetRange_join :: "OffsetRange \<Rightarrow> OffsetRange \<Rightarrow> OffsetRange result" where
  "OffsetRange_join r other =
     new_OffsetRange (min (or_start r) (or_start other)) (max (or_endExclusive r) (or_endExclusive other))"

definition OffsetRange_intersect :: "OffsetRange \<Rightarrow> OffsetRange \<Rightarrow> OffsetRange option result" where
  "OffsetRange_intersect r other =
     (let st = max (or_start r) (or_start other); en = min (or_endExclusive r) (or_endExclusive other)
      in if st \<le> en then bind_result (new_OffsetRange st en) (\<lambda>x. Ok (Some x)) else Ok None)"

definition OffsetRange_intersectionLength :: "OffsetRange \<Rightarrow> OffsetRange \<Rightarrow> int" where
  "OffsetRange_intersectionLength r other =
     (let st = max (or_start r) (or_start other); en = min (or_endExclusive r) (or_endExclusive other)
      in max 0 (en - st))"

definition OffsetRange_intersects :: "OffsetRange \<Rightarrow> OffsetRange \<Rightarrow> bool" where
  "OffsetRange_intersects r other =
     (let st = max (or_start r) (or_start other); en = min (or_endExclusive r) (or_endExclusive other)
      in st < en)"

definition OffsetRange_intersectsOrTouches :: "OffsetRange \<Rightarrow> OffsetRange \<Rightarrow> bool" where
  "OffsetRange_intersectsOrTouches r other =
     (let st = max (or_start r) (or_start other); en = min (or_endExclusive r) (or_endExclusive other)
      in st \<le> en)"

definition OffsetRange_isBefore :: "OffsetRange \<Rightarrow> OffsetRange \<Rightarrow> bool" where
  "OffsetRange_isBefore r other \<longleftrightarrow> or_endExclusive r \<le> or_start other"

definition OffsetRange_isAfter :: "OffsetRange \<Rightarrow> OffsetRange \<Rightarrow> bool" where
  "OffsetRange_isAfter r other \<longleftrightarrow> or_start r \<ge> or_endExclusive other"

definition OffsetRange_slice :: "OffsetRange \<Rightarrow> 'a list \<Rightarrow> 'a list" where
  "OffsetRange_slice r arr = js_slice arr (or_start r) (or_endExclusive r)"

definition OffsetRange_clip :: "OffsetRange \<Rightarrow> int \<Rightarrow> int result" where
  "OffsetRange_clip r v =
     (if OffsetRange_isEmpty r then Throw BugIndicatingError
      else Ok (max (or_start r) (min (or_endExclusive r - 1) v)))"

text \<open>Both operands of \<open>%\<close> are positive here, so the remainder is \<open>mod\<close>.\<close>

definition OffsetRange_clipCyclic :: "OffsetRange \<Rightarrow> int \<Rightarrow> int result" where
  "OffsetRange_clipCyclic r v =
     (if OffsetRange_isEmpty r then Throw BugIndicatingError
      else if v < or_start r then
        Ok (or_endExclusive r - ((or_start r - v) mod OffsetRange_length r))
      else if v \<ge> or_endExclusive r then
        Ok (or_start r + ((v - or_start r) mod OffsetRange_length r))
      else Ok v)"

definition OffsetRange_map :: "OffsetRange \<Rightarrow> (int \<Rightarrow> 'a) \<Rightarrow> 'a list" where
  "OffsetRange_map r f = map f (upto_from (or_start r) (nat (or_endExclusive r - or_start r)))"

definition OffsetRange_joinRightTouching :: "OffsetRange \<Rightarrow> OffsetRange \<Rightarrow> OffsetRange result" where
  "OffsetRange_joinRightTouching r other =
     (if or_endExclusive r \<noteq> or_start other then Throw BugIndicatingError
      else new_OffsetRange (or_start r) (or_endExclusive other))"

definition OffsetRange_withMargin :: "OffsetRange \<Rightarrow> int \<Rightarrow> int option \<Rightarrow> OffsetRange result" where
  "OffsetRange_withMargin r marginStart marginEnd =
     (let me = (case marginEnd of None \<Rightarrow> marginStart | Some m \<Rightarrow> m)
      in new_OffsetRange (or_start r - marginStart) (or_endExclusive r + me))"

section \<open>Sets of offsets\<close>

text \<open>
  \<open>addRange\<close>, which the class and the set share line by line: the first loop skips the ranges
  that end before the new one, the second the ranges that start no later than its end.
\<close>

function addRange_skip :: "(OffsetRange \<Rightarrow> bool) \<Rightarrow> OffsetRange list \<Rightarrow> nat \<Rightarrow> nat" where
  "addRange_skip p sortedRanges i =
     (if i < length sortedRanges \<and> p (sortedRanges ! i) then addRange_skip p sortedRanges (Suc i) else i)"
  by pat_completeness auto
termination
  by (relation "measure (\<lambda>(p, rs, i). length rs - i)") auto

declare addRange_skip.simps [simp del]

definition OffsetRange_addRange :: "OffsetRange \<Rightarrow> OffsetRange list \<Rightarrow> OffsetRange list result" where
  "OffsetRange_addRange r sortedRanges =
     (let i = addRange_skip (\<lambda>x. or_endExclusive x < or_start r) sortedRanges 0;
          j = addRange_skip (\<lambda>x. or_start x \<le> or_endExclusive r) sortedRanges i
      in if i = j then Ok (js_splice sortedRanges (int i) 0 [r])
         else
           let st = min (or_start r) (or_start (sortedRanges ! i));
               en = max (or_endExclusive r) (or_endExclusive (sortedRanges ! (j - 1)))
           in bind_result (new_OffsetRange st en)
                (\<lambda>x. Ok (js_splice sortedRanges (int i) (int (j - i)) [x])))"

definition OffsetRangeSet_intersectsStrict :: "OffsetRange list \<Rightarrow> OffsetRange \<Rightarrow> bool" where
  "OffsetRangeSet_intersectsStrict rs other =
     (let i = addRange_skip (\<lambda>x. or_endExclusive x \<le> or_start other) rs 0
      in i < length rs \<and> or_start (rs ! i) < or_endExclusive other)"

fun OffsetRangeSet_intersectWithRange_loop ::
  "OffsetRange \<Rightarrow> OffsetRange list \<Rightarrow> OffsetRange list \<Rightarrow> OffsetRange list result" where
  "OffsetRangeSet_intersectWithRange_loop other acc [] = Ok acc"
| "OffsetRangeSet_intersectWithRange_loop other acc (r # rs) =
     bind_result (OffsetRange_intersect r other)
       (\<lambda>intersection. case intersection of
            None \<Rightarrow> OffsetRangeSet_intersectWithRange_loop other acc rs
          | Some x \<Rightarrow> bind_result (OffsetRange_addRange x acc)
                        (\<lambda>acc'. OffsetRangeSet_intersectWithRange_loop other acc' rs))"

definition OffsetRangeSet_intersectWithRange ::
  "OffsetRange list \<Rightarrow> OffsetRange \<Rightarrow> OffsetRange list result" where
  "OffsetRangeSet_intersectWithRange rs other = OffsetRangeSet_intersectWithRange_loop other [] rs"

definition OffsetRangeSet_length :: "OffsetRange list \<Rightarrow> int" where
  "OffsetRangeSet_length rs = foldl (\<lambda>prev cur. prev + OffsetRange_length cur) 0 rs"

definition OffsetRangeSet_intersectWithRangeLength :: "OffsetRange list \<Rightarrow> OffsetRange \<Rightarrow> int result" where
  "OffsetRangeSet_intersectWithRangeLength rs other =
     bind_result (OffsetRangeSet_intersectWithRange rs other) (\<lambda>s. Ok (OffsetRangeSet_length s))"

section \<open>Ranges as sets of offsets\<close>

definition wf_or :: "OffsetRange \<Rightarrow> bool" where
  "wf_or r \<longleftrightarrow> or_start r \<le> or_endExclusive r"

definition or_set :: "OffsetRange \<Rightarrow> int set" where
  "or_set r = {n. OffsetRange_contains r n}"

lemma or_set_eq: "or_set r = {or_start r ..< or_endExclusive r}"
  by (auto simp: or_set_def OffsetRange_contains_def)

lemma new_OffsetRange_ok: "new_OffsetRange s e = Ok r \<longleftrightarrow> s \<le> e \<and> r = mk_or s e"
  by (auto simp: new_OffsetRange_def)

lemma OffsetRange_join_hull:
  assumes "wf_or a" "wf_or b"
  shows "\<exists>r. OffsetRange_join a b = Ok r \<and> wf_or r \<and> or_set a \<union> or_set b \<subseteq> or_set r \<and>
    (\<forall>c. wf_or c \<and> OffsetRange_containsRange c a \<and> OffsetRange_containsRange c b \<longrightarrow>
         OffsetRange_containsRange c r)"
  using assms
  by (auto simp: OffsetRange_join_def new_OffsetRange_def wf_or_def or_set_eq OffsetRange_containsRange_def)

lemma OffsetRange_intersect_cases:
  "OffsetRange_intersect a b =
     Ok (if max (or_start a) (or_start b) \<le> min (or_endExclusive a) (or_endExclusive b)
         then Some (mk_or (max (or_start a) (or_start b)) (min (or_endExclusive a) (or_endExclusive b)))
         else None)"
  by (simp add: OffsetRange_intersect_def new_OffsetRange_def Let_def
      del: max.bounded_iff min.bounded_iff)

lemma OffsetRange_intersect_set:
  "\<exists>o'. OffsetRange_intersect a b = Ok o' \<and>
        (case o' of None \<Rightarrow> {} | Some r \<Rightarrow> or_set r) = or_set a \<inter> or_set b"
  by (auto simp: OffsetRange_intersect_cases or_set_eq)

lemma OffsetRange_clip_spec:
  assumes "wf_or r" "\<not> OffsetRange_isEmpty r"
  shows "\<exists>x. OffsetRange_clip r v = Ok x \<and> OffsetRange_contains r x \<and>
             (\<forall>y. OffsetRange_contains r y \<longrightarrow> \<bar>v - x\<bar> \<le> \<bar>v - y\<bar>)"
  using assms
  by (auto simp: OffsetRange_clip_def OffsetRange_isEmpty_def OffsetRange_contains_def wf_or_def)

text \<open>
  \<open>clipCyclic\<close> returns the representative of its argument modulo the length, except below the
  start at a distance that is a multiple of the length: there it returns the exclusive end.
\<close>

lemma OffsetRange_clipCyclic_value:
  assumes "wf_or r" "\<not> OffsetRange_isEmpty r"
  shows "OffsetRange_clipCyclic r v =
     Ok (if v < or_start r \<and> OffsetRange_length r dvd (or_start r - v) then or_endExclusive r
         else or_start r + (v - or_start r) mod OffsetRange_length r)"
proof -
  define len where "len = OffsetRange_length r"
  have len: "len > 0" "or_endExclusive r = or_start r + len"
    using assms by (auto simp: len_def OffsetRange_length_def wf_or_def OffsetRange_isEmpty_def)
  have neg: "len - (or_start r - v) mod len = (v - or_start r) mod len"
    if "\<not> len dvd (or_start r - v)"
  proof -
    have "(v - or_start r) mod len = (- (or_start r - v)) mod len" by simp
    also have "\<dots> = len - (or_start r - v) mod len"
      using that zmod_zminus1_eq_if [of "or_start r - v" len] by (simp add: dvd_eq_mod_eq_0)
    finally show ?thesis by simp
  qed
  consider "v < or_start r" "len dvd (or_start r - v)" | "v < or_start r" "\<not> len dvd (or_start r - v)"
    | "or_start r \<le> v" "v < or_endExclusive r" | "or_endExclusive r \<le> v" by linarith
  then show ?thesis
  proof cases
    case 1
    then have "(or_start r - v) mod len = 0" by simp
    with 1 assms(2) show ?thesis by (simp add: OffsetRange_clipCyclic_def len_def)
  next
    case 2
    with neg assms(2) len show ?thesis
      by (simp add: OffsetRange_clipCyclic_def flip: len_def) 
  next
    case 3
    with len have "(v - or_start r) mod len = v - or_start r" by simp
    with 3 assms(2) show ?thesis by (simp add: OffsetRange_clipCyclic_def flip: len_def)
  next
    case 4
    with assms(2) len show ?thesis by (simp add: OffsetRange_clipCyclic_def flip: len_def)
  qed
qed

section \<open>The set of ranges\<close>

definition or_normal :: "OffsetRange list \<Rightarrow> bool" where
  "or_normal = iv_normal or_start or_endExclusive"

definition or_members :: "OffsetRange list \<Rightarrow> int set" where
  "or_members rs = (\<Union>r \<in> set rs. or_set r)"

lemma or_members_iv: "or_members rs = iv_members or_start or_endExclusive rs"
  by (simp add: or_members_def iv_members_def or_set_eq)

lemma addRange_skip_takeWhile:
  "i \<le> length rs \<Longrightarrow> addRange_skip p rs i = i + length (takeWhile p (drop i rs))"
proof (induction p rs i rule: addRange_skip.induct)
  case (1 p rs i)
  show ?case
  proof (cases "i < length rs \<and> p (rs ! i)")
    case True
    then have "drop i rs = rs ! i # drop (Suc i) rs" by (simp add: Cons_nth_drop_Suc)
    with True 1 show ?thesis by (simp add: addRange_skip.simps [of p rs i])
  next
    case False
    then have "takeWhile p (drop i rs) = []"
      by (metis hd_drop_conv_nth linorder_not_le drop_all takeWhile_eq_Nil_iff)
    with False show ?thesis by (subst addRange_skip.simps) auto
  qed
qed

lemma OffsetRange_addRange_split:
  assumes "or_normal rs" "wf_or r"
  defines "l \<equiv> or_start r" and "h \<equiv> or_endExclusive r"
  shows "\<exists>x. OffsetRange_addRange r rs =
           Ok (iv_before or_endExclusive l rs @ [x] @ iv_after or_start or_endExclusive l h rs) \<and>
         or_start x = (if iv_touch or_start or_endExclusive l h rs = [] then l
                       else min l (or_start (hd (iv_touch or_start or_endExclusive l h rs)))) \<and>
         or_endExclusive x = (if iv_touch or_start or_endExclusive l h rs = [] then h
                       else max h (or_endExclusive (last (iv_touch or_start or_endExclusive l h rs))))"
proof -
  define A where "A = iv_before or_endExclusive l rs"
  define M where "M = iv_touch or_start or_endExclusive l h rs"
  define B where "B = iv_after or_start or_endExclusive l h rs"
  have rs: "rs = A @ M @ B" unfolding A_def M_def B_def by (rule iv_split)
  have i: "addRange_skip (\<lambda>x. or_endExclusive x < or_start r) rs 0 = length A"
    by (simp add: addRange_skip_takeWhile A_def iv_before_def l_def)
  have lenA: "length A \<le> length rs" by (subst rs) simp
  have dA: "drop (length A) rs = dropWhile (\<lambda>x. or_endExclusive x < or_start r) rs"
    by (simp add: A_def iv_before_def l_def dropWhile_eq_drop)
  have j: "addRange_skip (\<lambda>x. or_start x \<le> or_endExclusive r) rs (length A) = length A + length M"
    unfolding addRange_skip_takeWhile [OF lenA] dA M_def iv_touch_def l_def h_def by (rule refl)
  have le: "l \<le> h" using assms(2) by (simp add: wf_or_def l_def h_def)
  show ?thesis
  proof (cases "M = []")
    case True
    have "OffsetRange_addRange r rs = Ok (A @ [r] @ B)"
      using js_splice_nat [of "length A" rs 0 "[r]"] True
      by (simp add: OffsetRange_addRange_def i j Let_def) (simp add: rs)
    with True show ?thesis unfolding A_def B_def M_def l_def h_def by auto
  next
    case False
    then have ne: "length M > 0" by simp
    have fst: "rs ! length A = hd M"
      using False by (subst rs) (simp add: nth_append hd_conv_nth)
    have lst: "rs ! (length A + length M - 1) = last M"
    proof -
      obtain ys y where M: "M = ys @ [y]" using False by (cases M rule: rev_cases) auto
      show ?thesis unfolding rs M by (simp add: nth_append)
    qed
    define x where "x = mk_or (min l (or_start (hd M))) (max h (or_endExclusive (last M)))"
    have "min l (or_start (hd M)) \<le> max h (or_endExclusive (last M))" using le by linarith
    then have new: "new_OffsetRange (min l (or_start (hd M))) (max h (or_endExclusive (last M))) = Ok x"
      unfolding new_OffsetRange_def x_def by (simp only: not_less [symmetric] if_False)
    have neq: "(length A = length A + length M) = False" using ne by simp
    have "OffsetRange_addRange r rs = Ok (js_splice rs (int (length A)) (int (length M)) [x])"
      unfolding OffsetRange_addRange_def i j Let_def neq if_False fst lst
      using new by (simp add: l_def h_def)
    also have "js_splice rs (int (length A)) (int (length M)) [x] = A @ [x] @ B"
      by (simp add: js_splice_nat rs)
    finally show ?thesis
      using False unfolding A_def B_def M_def x_def by auto
  qed
qed

lemma OffsetRange_addRange_spec:
  assumes "or_normal rs" "wf_or r"
  shows "\<exists>rs'. OffsetRange_addRange r rs = Ok rs' \<and> or_normal rs' \<and>
               or_members rs' = or_members rs \<union> or_set r"
proof -
  obtain x where x: "OffsetRange_addRange r rs =
      Ok (iv_before or_endExclusive (or_start r) rs @ [x] @
          iv_after or_start or_endExclusive (or_start r) (or_endExclusive r) rs)"
    and ends: "or_start x = (if iv_touch or_start or_endExclusive (or_start r) (or_endExclusive r) rs = []
        then or_start r
        else min (or_start r)
               (or_start (hd (iv_touch or_start or_endExclusive (or_start r) (or_endExclusive r) rs))))"
      "or_endExclusive x = (if iv_touch or_start or_endExclusive (or_start r) (or_endExclusive r) rs = []
        then or_endExclusive r
        else max (or_endExclusive r) (or_endExclusive
               (last (iv_touch or_start or_endExclusive (or_start r) (or_endExclusive r) rs))))"
    using OffsetRange_addRange_split [OF assms] by blast
  from iv_add_normal [OF assms(1) [unfolded or_normal_def] _ ends] assms(2) x show ?thesis
    by (auto simp: or_normal_def wf_or_def or_members_iv or_set_eq)
qed

interpretation offsetRangeSet:
  interval_set or_start or_endExclusive OffsetRange_addRange or_normal
proof
  show "or_normal rs \<Longrightarrow> iv_normal or_start or_endExclusive rs" for rs by (simp add: or_normal_def)
  show "or_normal []" by (simp add: or_normal_def interval_simps)
  show "\<exists>rs'. OffsetRange_addRange r rs = Ok rs' \<and> or_normal rs' \<and>
      iv_members or_start or_endExclusive rs' =
      iv_members or_start or_endExclusive rs \<union> {or_start r ..< or_endExclusive r}"
    if "or_normal rs" "or_start r \<le> or_endExclusive r" for rs r
    using OffsetRange_addRange_spec [of rs r] that
    by (simp add: wf_or_def or_members_iv or_set_eq)
qed

text \<open>\<open>intersectWithRange\<close> adds the intersections to an empty set, one range after the other.\<close>

lemma intersectWithRange_loop_spec:
  assumes "or_normal acc" "\<forall>r \<in> set rs. wf_or r"
  shows "\<exists>res. OffsetRangeSet_intersectWithRange_loop other acc rs = Ok res \<and> or_normal res \<and>
           or_members res = or_members acc \<union> (or_members rs \<inter> or_set other)"
  using assms
proof (induction rs arbitrary: acc)
  case (Cons r rs)
  obtain o' where o': "OffsetRange_intersect r other = Ok o'"
    "(case o' of None \<Rightarrow> {} | Some r \<Rightarrow> or_set r) = or_set r \<inter> or_set other"
    using OffsetRange_intersect_set by blast
  have mem: "or_members (r # rs) = or_set r \<union> or_members rs" by (simp add: or_members_def)
  show ?case
  proof (cases o')
    case None
    then have "or_set r \<inter> or_set other = {}" using o'(2) by simp
    with Cons.IH [OF Cons.prems(1)] Cons.prems(2) o'(1) None mem show ?thesis
      by (auto simp: Int_Un_distrib2)
  next
    case (Some x)
    then have "wf_or x" using o'(1) by (auto simp: OffsetRange_intersect_cases wf_or_def split: if_splits)
    then obtain acc1 where a: "OffsetRange_addRange x acc = Ok acc1" "or_normal acc1"
      "or_members acc1 = or_members acc \<union> or_set x"
      using OffsetRange_addRange_spec [OF Cons.prems(1)] by blast
    obtain res where "OffsetRangeSet_intersectWithRange_loop other acc1 rs = Ok res" "or_normal res"
      "or_members res = or_members acc1 \<union> (or_members rs \<inter> or_set other)"
      using Cons.IH [OF a(2)] Cons.prems(2) by auto
    with a o' Some mem show ?thesis by auto
  qed
qed (simp add: or_members_def)

lemma OffsetRangeSet_intersectWithRange_spec:
  assumes "or_normal rs"
  shows "\<exists>res. OffsetRangeSet_intersectWithRange rs other = Ok res \<and> or_normal res \<and>
           or_members res = or_members rs \<inter> or_set other"
  using intersectWithRange_loop_spec [of "[]" rs other] assms
  by (auto simp: OffsetRangeSet_intersectWithRange_def or_normal_def wf_or_def interval_simps
      or_members_def iv_normal_le)

text \<open>The length of a set is the number of its offsets.\<close>

lemma OffsetRangeSet_length_card:
  assumes "or_normal rs"
  shows "OffsetRangeSet_length rs = int (card (or_members rs))"
proof -
  have fold: "foldl (\<lambda>prev cur. prev + OffsetRange_length cur) a xs =
      a + foldl (\<lambda>prev cur. prev + OffsetRange_length cur) 0 xs" for a xs
    by (induction xs arbitrary: a) (simp, metis (no_types, lifting) add.assoc add_0 foldl_Cons)
  show ?thesis
    using assms
  proof (induction rs)
    case Nil
    then show ?case by (simp add: OffsetRangeSet_length_def or_members_def)
  next
    case (Cons r rs)
    from Cons.prems have n: "or_normal rs" "or_start r \<le> or_endExclusive r"
      "\<forall>y \<in> set rs. or_endExclusive r < or_start y"
      by (auto simp: or_normal_def interval_simps)
    have "or_set r \<inter> or_members rs = {}"
      using n(3) by (fastforce simp: or_members_def or_set_eq)
    moreover have "finite (or_members rs)" by (simp add: or_members_def or_set_eq)
    moreover have "or_members (r # rs) = or_set r \<union> or_members rs" by (simp add: or_members_def)
    ultimately have "card (or_members (r # rs)) = card (or_set r) + card (or_members rs)"
      by (simp add: card_Un_disjoint or_set_eq)
    moreover have "OffsetRangeSet_length (r # rs) = OffsetRange_length r + OffsetRangeSet_length rs"
      using fold [of "OffsetRange_length r"] by (simp add: OffsetRangeSet_length_def)
    ultimately show ?case
      using Cons.IH [OF n(1)] n(2) by (simp add: or_set_eq OffsetRange_length_def)
  qed
qed

text \<open>
  The strict intersection test agrees with the sets when neither the argument nor a stored range
  is empty; an empty argument strictly inside a stored range also gives true.
\<close>

lemma OffsetRangeSet_intersectsStrict_iff:
  assumes "or_normal rs" "\<forall>r \<in> set rs. \<not> OffsetRange_isEmpty r"
    and "wf_or other" "\<not> OffsetRange_isEmpty other"
  shows "OffsetRangeSet_intersectsStrict rs other \<longleftrightarrow> or_members rs \<inter> or_set other \<noteq> {}"
proof -
  let ?P = "\<lambda>x. or_endExclusive x \<le> or_start other"
  let ?n = "length (takeWhile ?P rs)"
  have def: "OffsetRangeSet_intersectsStrict rs other \<longleftrightarrow>
      ?n < length rs \<and> or_start (rs ! ?n) < or_endExclusive other"
    by (simp add: OffsetRangeSet_intersectsStrict_def addRange_skip_takeWhile Let_def)
  have ne: "or_start other < or_endExclusive other"
    using assms(3,4) by (auto simp: wf_or_def OffsetRange_isEmpty_def)
  show ?thesis
  proof
    assume "OffsetRangeSet_intersectsStrict rs other"
    then have n: "?n < length rs" "or_start (rs ! ?n) < or_endExclusive other" unfolding def by auto
    have "\<not> ?P (rs ! ?n)" using n(1) by (rule nth_length_takeWhile)
    moreover have r: "rs ! ?n \<in> set rs" using n(1) by simp
    moreover have "or_start (rs ! ?n) < or_endExclusive (rs ! ?n)"
      using assms(1,2) r iv_normal_le [of or_start or_endExclusive rs]
      by (force simp: or_normal_def OffsetRange_isEmpty_def)
    ultimately have "max (or_start (rs ! ?n)) (or_start other) \<in> or_set (rs ! ?n) \<inter> or_set other"
      using n(2) ne by (auto simp: or_set_eq)
    with r show "or_members rs \<inter> or_set other \<noteq> {}" by (auto simp: or_members_def)
  next
    assume "or_members rs \<inter> or_set other \<noteq> {}"
    then obtain k p where k: "k < length rs" "p \<in> or_set (rs ! k)" "p \<in> or_set other"
      by (auto simp: or_members_def in_set_conv_nth)
    then have "\<not> ?P (rs ! k)" by (auto simp: or_set_eq)
    then have nk: "?n \<le> k"
      by (metis (no_types, lifting) linorder_not_le nth_mem set_takeWhileD takeWhile_nth)
    have "or_start (rs ! ?n) \<le> or_start (rs ! k)"
    proof (cases "?n = k")
      case False
      with nk have "?n < k" by simp
      then show ?thesis
        using iv_normal_disjoint [OF assms(1) [unfolded or_normal_def] _ k(1), of ?n]
          iv_normal_le [OF assms(1) [unfolded or_normal_def], of "rs ! ?n"] k(1) nk by simp
    qed simp
    with k nk show "OffsetRangeSet_intersectsStrict rs other" unfolding def by (auto simp: or_set_eq)
  qed
qed

end
