(* ===== verification/LineRanges.thy ===== *)
theory LineRanges
  imports OffsetRanges Ranges
begin

text \<open>
  \<open>src/vs/editor/common/core/ranges/lineRange.ts\<close>: half-open ranges of line numbers and sets of
  lines.  A \<open>LineRangeSet\<close> is modelled by its array \<open>_normalizedRanges\<close>, sorted, with
  neighbours that neither touch nor intersect (\<open>lr_normal\<close>) and, as every range added to it is
  non-empty, without empty ranges (\<open>lr_good\<close>).

  \<open>getUnion\<close> returns one of its operands itself when the other is empty; the model returns the
  value, the aliasing of the returned object is not modelled.
\<close>

record LineRange =
  lr_startLineNumber :: int
  lr_endLineNumberExclusive :: int

abbreviation mk_lr :: "int \<Rightarrow> int \<Rightarrow> LineRange" where
  "mk_lr s e \<equiv> \<lparr>lr_startLineNumber = s, lr_endLineNumberExclusive = e\<rparr>"

section \<open>LineRange\<close>

definition new_LineRange :: "int \<Rightarrow> int \<Rightarrow> LineRange result" where
  "new_LineRange st en = (if st > en then Throw BugIndicatingError else Ok (mk_lr st en))"

definition LineRange_ofLength :: "int \<Rightarrow> int \<Rightarrow> LineRange result" where
  "LineRange_ofLength st len = new_LineRange st (st + len)"

definition LineRange_fromRange :: "'x Range_scheme \<Rightarrow> LineRange result" where
  "LineRange_fromRange r = new_LineRange (startLineNumber r) (endLineNumber r)"

definition LineRange_fromRangeInclusive :: "'x Range_scheme \<Rightarrow> LineRange result" where
  "LineRange_fromRangeInclusive r = new_LineRange (startLineNumber r) (endLineNumber r + 1)"

definition LineRange_compareByStart :: "LineRange \<Rightarrow> LineRange \<Rightarrow> int" where
  "LineRange_compareByStart = compareBy lr_startLineNumber numberComparator"

definition LineRange_subtract :: "LineRange \<Rightarrow> LineRange option \<Rightarrow> LineRange list result" where
  "LineRange_subtract a bo =
     (case bo of None \<Rightarrow> Ok [a]
      | Some b \<Rightarrow>
        if lr_startLineNumber a < lr_startLineNumber b \<and>
           lr_endLineNumberExclusive b < lr_endLineNumberExclusive a then
          bind_result (new_LineRange (lr_startLineNumber a) (lr_startLineNumber b)) (\<lambda>x.
          bind_result (new_LineRange (lr_endLineNumberExclusive b) (lr_endLineNumberExclusive a)) (\<lambda>y.
          Ok [x, y]))
        else if lr_startLineNumber b \<le> lr_startLineNumber a \<and>
           lr_endLineNumberExclusive a \<le> lr_endLineNumberExclusive b then Ok []
        else if lr_endLineNumberExclusive b < lr_endLineNumberExclusive a then
          bind_result (new_LineRange (max (lr_endLineNumberExclusive b) (lr_startLineNumber a))
                         (lr_endLineNumberExclusive a)) (\<lambda>x. Ok [x])
        else
          bind_result (new_LineRange (lr_startLineNumber a)
                         (min (lr_startLineNumber b) (lr_endLineNumberExclusive a))) (\<lambda>x. Ok [x]))"

definition LineRange_join_list :: "LineRange list \<Rightarrow> LineRange result" where
  "LineRange_join_list lineRanges =
     (case lineRanges of [] \<Rightarrow> Throw BugIndicatingError
      | r0 # rest \<Rightarrow>
          (let (st, en) =
             foldl (\<lambda>(st, en) r. (min st (lr_startLineNumber r), max en (lr_endLineNumberExclusive r)))
               (lr_startLineNumber r0, lr_endLineNumberExclusive r0) rest
           in new_LineRange st en))"

definition LineRange_contains :: "LineRange \<Rightarrow> int \<Rightarrow> bool" where
  "LineRange_contains r l \<longleftrightarrow> lr_startLineNumber r \<le> l \<and> l < lr_endLineNumberExclusive r"

definition LineRange_containsRange :: "LineRange \<Rightarrow> LineRange \<Rightarrow> bool" where
  "LineRange_containsRange r other \<longleftrightarrow>
     lr_startLineNumber r \<le> lr_startLineNumber other \<and>
     lr_endLineNumberExclusive other \<le> lr_endLineNumberExclusive r"

definition LineRange_isEmpty :: "LineRange \<Rightarrow> bool" where
  "LineRange_isEmpty r \<longleftrightarrow> lr_startLineNumber r = lr_endLineNumberExclusive r"

definition LineRange_delta :: "LineRange \<Rightarrow> int \<Rightarrow> LineRange result" where
  "LineRange_delta r offset =
     new_LineRange (lr_startLineNumber r + offset) (lr_endLineNumberExclusive r + offset)"

definition LineRange_deltaLength :: "LineRange \<Rightarrow> int \<Rightarrow> LineRange result" where
  "LineRange_deltaLength r offset =
     new_LineRange (lr_startLineNumber r) (lr_endLineNumberExclusive r + offset)"

definition LineRange_length :: "LineRange \<Rightarrow> int" where
  "LineRange_length r = lr_endLineNumberExclusive r - lr_startLineNumber r"

definition LineRange_join :: "LineRange \<Rightarrow> LineRange \<Rightarrow> LineRange result" where
  "LineRange_join r other =
     new_LineRange (min (lr_startLineNumber r) (lr_startLineNumber other))
       (max (lr_endLineNumberExclusive r) (lr_endLineNumberExclusive other))"

definition LineRange_intersect :: "LineRange \<Rightarrow> LineRange \<Rightarrow> LineRange option result" where
  "LineRange_intersect r other =
     (let st = max (lr_startLineNumber r) (lr_startLineNumber other);
          en = min (lr_endLineNumberExclusive r) (lr_endLineNumberExclusive other)
      in if st \<le> en then bind_result (new_LineRange st en) (\<lambda>x. Ok (Some x)) else Ok None)"

definition LineRange_intersectsStrict :: "LineRange \<Rightarrow> LineRange \<Rightarrow> bool" where
  "LineRange_intersectsStrict r other \<longleftrightarrow>
     lr_startLineNumber r < lr_endLineNumberExclusive other \<and>
     lr_startLineNumber other < lr_endLineNumberExclusive r"

definition LineRange_intersectsOrTouches :: "LineRange \<Rightarrow> LineRange \<Rightarrow> bool" where
  "LineRange_intersectsOrTouches r other \<longleftrightarrow>
     lr_startLineNumber r \<le> lr_endLineNumberExclusive other \<and>
     lr_startLineNumber other \<le> lr_endLineNumberExclusive r"

definition LineRange_equals :: "LineRange \<Rightarrow> LineRange \<Rightarrow> bool" where
  "LineRange_equals r b \<longleftrightarrow>
     lr_startLineNumber r = lr_startLineNumber b \<and>
     lr_endLineNumberExclusive r = lr_endLineNumberExclusive b"

definition MAX_SAFE_INTEGER :: int where
  "MAX_SAFE_INTEGER = 9007199254740991"

definition LineRange_toInclusiveRange :: "LineRange \<Rightarrow> Range option" where
  "LineRange_toInclusiveRange r =
     (if LineRange_isEmpty r then None
      else Some (new_Range (lr_startLineNumber r) 1 (lr_endLineNumberExclusive r - 1) MAX_SAFE_INTEGER))"

definition LineRange_toExclusiveRange :: "LineRange \<Rightarrow> Range" where
  "LineRange_toExclusiveRange r =
     new_Range (lr_startLineNumber r) 1 (lr_endLineNumberExclusive r) 1"

definition LineRange_mapToLineArray :: "LineRange \<Rightarrow> (int \<Rightarrow> 'a) \<Rightarrow> 'a list" where
  "LineRange_mapToLineArray r f =
     map f (upto_from (lr_startLineNumber r) (nat (lr_endLineNumberExclusive r - lr_startLineNumber r)))"

definition LineRange_serialize :: "LineRange \<Rightarrow> int \<times> int" where
  "LineRange_serialize r = (lr_startLineNumber r, lr_endLineNumberExclusive r)"

definition LineRange_deserialize :: "int \<times> int \<Rightarrow> LineRange result" where
  "LineRange_deserialize l = new_LineRange (fst l) (snd l)"

definition LineRange_toOffsetRange :: "LineRange \<Rightarrow> OffsetRange result" where
  "LineRange_toOffsetRange r =
     new_OffsetRange (lr_startLineNumber r - 1) (lr_endLineNumberExclusive r - 1)"

definition LineRange_distanceToRange :: "LineRange \<Rightarrow> LineRange \<Rightarrow> int" where
  "LineRange_distanceToRange r other =
     (if lr_endLineNumberExclusive r \<le> lr_startLineNumber other then
        lr_startLineNumber other - lr_endLineNumberExclusive r
      else if lr_endLineNumberExclusive other \<le> lr_startLineNumber r then
        lr_startLineNumber r - lr_endLineNumberExclusive other
      else 0)"

definition LineRange_distanceToLine :: "LineRange \<Rightarrow> int \<Rightarrow> int" where
  "LineRange_distanceToLine r l =
     (if LineRange_contains r l then 0
      else if l < lr_startLineNumber r then lr_startLineNumber r - l
      else l - lr_endLineNumberExclusive r)"

definition LineRange_addMargin :: "LineRange \<Rightarrow> int \<Rightarrow> int \<Rightarrow> LineRange result" where
  "LineRange_addMargin r marginTop marginBottom =
     new_LineRange (lr_startLineNumber r - marginTop) (lr_endLineNumberExclusive r + marginBottom)"

section \<open>LineRangeSet\<close>

text \<open>The two searches of \<open>addRange\<close> and \<open>subtractFrom\<close>.\<close>

definition joinRangeStartIdx :: "LineRange list \<Rightarrow> LineRange \<Rightarrow> nat" where
  "joinRangeStartIdx rs rng =
     findFirstIdxMonotonousOrArrLen rs (\<lambda>r. lr_endLineNumberExclusive r \<ge> lr_startLineNumber rng)"

definition joinRangeEndIdxExclusive :: "LineRange list \<Rightarrow> LineRange \<Rightarrow> int" where
  "joinRangeEndIdxExclusive rs rng =
     findLastIdxMonotonous rs (\<lambda>r. lr_startLineNumber r \<le> lr_endLineNumberExclusive rng) 0 + 1"

definition LineRangeSet_addRange :: "LineRange \<Rightarrow> LineRange list \<Rightarrow> LineRange list result" where
  "LineRangeSet_addRange rng rs =
     (if LineRange_length rng = 0 then Ok rs
      else let i = joinRangeStartIdx rs rng; j = joinRangeEndIdxExclusive rs rng
      in if int i = j then Ok (js_splice rs (int i) 0 [rng])
         else if int i = j - 1 then
           bind_result (LineRange_join (rs ! i) rng) (\<lambda>x. Ok (rs[i := x]))
         else
           bind_result (LineRange_join (rs ! i) (rs ! nat (j - 1))) (\<lambda>y.
           bind_result (LineRange_join y rng) (\<lambda>x.
           Ok (js_splice rs (int i) (j - int i) [x]))))"

definition LineRangeSet_contains :: "LineRange list \<Rightarrow> int \<Rightarrow> bool" where
  "LineRangeSet_contains rs l =
     (case findLastMonotonous rs (\<lambda>r. lr_startLineNumber r \<le> l) of
        None \<Rightarrow> False | Some r \<Rightarrow> lr_endLineNumberExclusive r > l)"

definition LineRangeSet_intersects :: "LineRange list \<Rightarrow> LineRange \<Rightarrow> bool" where
  "LineRangeSet_intersects rs rng =
     (case findLastMonotonous rs (\<lambda>r. lr_startLineNumber r < lr_endLineNumberExclusive rng) of
        None \<Rightarrow> False | Some r \<Rightarrow> lr_endLineNumberExclusive r > lr_startLineNumber rng)"

text \<open>
  The loop of \<open>getUnion\<close>: the two indices are the remaining suffixes, \<open>result\<close> is pushed to,
  \<open>current\<close> is the range being grown.
\<close>

definition getUnion_step :: "LineRange list \<Rightarrow> LineRange option \<Rightarrow> LineRange \<Rightarrow>
    (LineRange list \<times> LineRange option) result" where
  "getUnion_step res current nxt =
     (case current of None \<Rightarrow> Ok (res, Some nxt)
      | Some c \<Rightarrow>
        if lr_endLineNumberExclusive c \<ge> lr_startLineNumber nxt then
          bind_result (new_LineRange (lr_startLineNumber c)
              (max (lr_endLineNumberExclusive c) (lr_endLineNumberExclusive nxt)))
            (\<lambda>c'. Ok (res, Some c'))
        else Ok (res @ [c], Some nxt))"

function getUnion_loop :: "LineRange list \<Rightarrow> LineRange list \<Rightarrow> LineRange list \<Rightarrow> LineRange option \<Rightarrow>
    LineRange list result" where
  "getUnion_loop [] [] res current =
     Ok (case current of None \<Rightarrow> res | Some c \<Rightarrow> res @ [c])"
| "getUnion_loop (x # xs) (y # ys) res current =
     (if lr_startLineNumber x < lr_startLineNumber y then
        bind_result (getUnion_step res current x) (\<lambda>(res', c'). getUnion_loop xs (y # ys) res' c')
      else
        bind_result (getUnion_step res current y) (\<lambda>(res', c'). getUnion_loop (x # xs) ys res' c'))"
| "getUnion_loop (x # xs) [] res current =
     bind_result (getUnion_step res current x) (\<lambda>(res', c'). getUnion_loop xs [] res' c')"
| "getUnion_loop [] (y # ys) res current =
     bind_result (getUnion_step res current y) (\<lambda>(res', c'). getUnion_loop [] ys res' c')"
  by pat_completeness auto
termination by (relation "measure (\<lambda>(xs, ys, _, _). length xs + length ys)") auto

definition LineRangeSet_getUnion :: "LineRange list \<Rightarrow> LineRange list \<Rightarrow> LineRange list result" where
  "LineRangeSet_getUnion rs other =
     (if rs = [] then Ok other else if other = [] then Ok rs else getUnion_loop rs other [] None)"

fun subtractFrom_loop :: "LineRange list \<Rightarrow> int \<Rightarrow> int \<Rightarrow> LineRange list \<Rightarrow> LineRange list result" where
  "subtractFrom_loop [] st en res =
     (if st < en then bind_result (new_LineRange st en) (\<lambda>x. Ok (res @ [x])) else Ok res)"
| "subtractFrom_loop (r # rs) st en res =
     (if lr_startLineNumber r > st then
        bind_result (new_LineRange st (lr_startLineNumber r)) (\<lambda>x.
          subtractFrom_loop rs (lr_endLineNumberExclusive r) en (res @ [x]))
      else subtractFrom_loop rs (lr_endLineNumberExclusive r) en res)"

definition LineRangeSet_subtractFrom :: "LineRange list \<Rightarrow> LineRange \<Rightarrow> LineRange list result" where
  "LineRangeSet_subtractFrom rs rng =
     (let i = joinRangeStartIdx rs rng; j = joinRangeEndIdxExclusive rs rng
      in if int i = j then Ok [rng]
         else subtractFrom_loop (take (nat (j - int i)) (drop i rs)) (lr_startLineNumber rng)
                (lr_endLineNumberExclusive rng) [])"

fun getIntersection_loop :: "LineRange list \<Rightarrow> LineRange list \<Rightarrow> LineRange list \<Rightarrow>
    LineRange list result" where
  "getIntersection_loop (x # xs) (y # ys) res =
     bind_result (LineRange_intersect x y) (\<lambda>i.
       let res' = (case i of None \<Rightarrow> res | Some i \<Rightarrow> if LineRange_isEmpty i then res else res @ [i])
       in if lr_endLineNumberExclusive x < lr_endLineNumberExclusive y
          then getIntersection_loop xs (y # ys) res'
          else getIntersection_loop (x # xs) ys res')"
| "getIntersection_loop xs ys res = Ok res"

definition LineRangeSet_getIntersection :: "LineRange list \<Rightarrow> LineRange list \<Rightarrow> LineRange list result" where
  "LineRangeSet_getIntersection rs other = getIntersection_loop rs other []"

fun map_result :: "('a \<Rightarrow> 'b result) \<Rightarrow> 'a list \<Rightarrow> 'b list result" where
  "map_result f [] = Ok []"
| "map_result f (x # xs) = bind_result (f x) (\<lambda>y. bind_result (map_result f xs) (\<lambda>ys. Ok (y # ys)))"

definition LineRangeSet_getWithDelta :: "LineRange list \<Rightarrow> int \<Rightarrow> LineRange list result" where
  "LineRangeSet_getWithDelta rs value = map_result (\<lambda>r. LineRange_delta r value) rs"

fun joinMany_loop :: "LineRange list \<Rightarrow> LineRange list list \<Rightarrow> LineRange list result" where
  "joinMany_loop acc [] = Ok acc"
| "joinMany_loop acc (rs # rss) =
     bind_result (LineRangeSet_getUnion acc rs) (\<lambda>acc'. joinMany_loop acc' rss)"

definition LineRange_joinMany :: "LineRange list list \<Rightarrow> LineRange list result" where
  "LineRange_joinMany lineRanges =
     (case lineRanges of [] \<Rightarrow> Ok [] | rs # rss \<Rightarrow> joinMany_loop rs rss)"

end
