(* ===== verification/LineRangeSets.thy ===== *)
theory LineRangeSets
  imports LineRanges
begin

text \<open>
  Correctness of \<open>LineRange\<close> and \<open>LineRangeSet\<close> (\<open>lineRange.ts\<close>): the operations of the set are
  the operations on sets of line numbers, and keep the array sorted, its ranges non-empty and its
  neighbours apart.
\<close>

section \<open>Line ranges as sets of lines\<close>

definition wf_lr :: "LineRange \<Rightarrow> bool" where
  "wf_lr r \<longleftrightarrow> lr_startLineNumber r \<le> lr_endLineNumberExclusive r"

definition lr_set :: "LineRange \<Rightarrow> int set" where
  "lr_set r = {l. LineRange_contains r l}"

lemma lr_set_eq: "lr_set r = {lr_startLineNumber r ..< lr_endLineNumberExclusive r}"
  by (auto simp: lr_set_def LineRange_contains_def)

lemma new_LineRange_le [simp]: "st \<le> en \<Longrightarrow> new_LineRange st en = Ok (mk_lr st en)"
  by (simp add: new_LineRange_def)

definition lr_members :: "LineRange list \<Rightarrow> int set" where
  "lr_members rs = (\<Union>r \<in> set rs. lr_set r)"

lemma lr_members_iv: "lr_members rs = iv_members lr_startLineNumber lr_endLineNumberExclusive rs"
  by (simp add: lr_members_def iv_members_def lr_set_eq)

lemma lr_members_simps [simp]:
  "lr_members [] = {}" "lr_members (x # xs) = lr_set x \<union> lr_members xs"
  "lr_members (xs @ ys) = lr_members xs \<union> lr_members ys"
  by (auto simp: lr_members_def)

text \<open>The documented invariant of the array, and no empty range.\<close>

definition lr_good :: "LineRange list \<Rightarrow> bool" where
  "lr_good rs \<longleftrightarrow> iv_normal lr_startLineNumber lr_endLineNumberExclusive rs \<and>
     (\<forall>r \<in> set rs. \<not> LineRange_isEmpty r)"

lemma lr_good_Nil [simp]: "lr_good []"
  by (simp add: lr_good_def interval_simps)

lemma lr_good_Cons:
  "lr_good (x # xs) \<longleftrightarrow> lr_startLineNumber x < lr_endLineNumberExclusive x \<and>
     (\<forall>y \<in> set xs. lr_endLineNumberExclusive x < lr_startLineNumber y) \<and> lr_good xs"
  by (auto simp: lr_good_def interval_simps LineRange_isEmpty_def)

lemma lr_good_append:
  "lr_good (xs @ ys) \<longleftrightarrow> lr_good xs \<and> lr_good ys \<and>
     (\<forall>x \<in> set xs. \<forall>y \<in> set ys. lr_endLineNumberExclusive x < lr_startLineNumber y)"
  by (auto simp: lr_good_def interval_simps)

lemma lr_good_less: "lr_good rs \<Longrightarrow> r \<in> set rs \<Longrightarrow> lr_startLineNumber r < lr_endLineNumberExclusive r"
  by (induction rs) (auto simp: lr_good_Cons)

section \<open>subtract\<close>

lemma subtract_spec:
  assumes "wf_lr a" "\<forall>b. bo = Some b \<longrightarrow> wf_lr b \<and> \<not> LineRange_isEmpty b"
  shows "\<exists>rs. LineRange_subtract a bo = Ok rs \<and> (\<forall>r \<in> set rs. wf_lr r) \<and>
    lr_members rs = lr_set a - (case bo of None \<Rightarrow> {} | Some b \<Rightarrow> lr_set b)"
proof (cases bo)
  case None
  with assms show ?thesis by (simp add: LineRange_subtract_def)
next
  case (Some b)
  with assms have w: "lr_startLineNumber a \<le> lr_endLineNumberExclusive a"
    "lr_startLineNumber b < lr_endLineNumberExclusive b"
    by (auto simp: wf_lr_def LineRange_isEmpty_def)
  with Some show ?thesis
    by (auto simp: LineRange_subtract_def lr_set_eq wf_lr_def)
qed

section \<open>The searches\<close>

abbreviation lr_before :: "LineRange \<Rightarrow> LineRange list \<Rightarrow> LineRange list" where
  "lr_before r \<equiv> iv_before lr_endLineNumberExclusive (lr_startLineNumber r)"

abbreviation lr_touch :: "LineRange \<Rightarrow> LineRange list \<Rightarrow> LineRange list" where
  "lr_touch r \<equiv> iv_touch lr_startLineNumber lr_endLineNumberExclusive
     (lr_startLineNumber r) (lr_endLineNumberExclusive r)"

abbreviation lr_after :: "LineRange \<Rightarrow> LineRange list \<Rightarrow> LineRange list" where
  "lr_after r \<equiv> iv_after lr_startLineNumber lr_endLineNumberExclusive
     (lr_startLineNumber r) (lr_endLineNumberExclusive r)"

abbreviation lr_normal :: "LineRange list \<Rightarrow> bool" where
  "lr_normal \<equiv> iv_normal lr_startLineNumber lr_endLineNumberExclusive"

lemma lr_normal_mono:
  assumes "lr_normal rs" "i \<le> j" "j < length rs"
  shows "lr_startLineNumber (rs ! i) \<le> lr_startLineNumber (rs ! j)"
    "lr_endLineNumberExclusive (rs ! i) \<le> lr_endLineNumberExclusive (rs ! j)"
proof -
  have le: "lr_startLineNumber (rs ! k) \<le> lr_endLineNumberExclusive (rs ! k)" if "k < length rs" for k
    using iv_normal_le [OF assms(1), of "rs ! k"] that by simp
  have "i = j \<or> lr_endLineNumberExclusive (rs ! i) < lr_startLineNumber (rs ! j)"
    using iv_normal_disjoint [OF assms(1), of i j] assms(2,3) by linarith
  with le [of i] le [of j] assms(2,3)
  show "lr_startLineNumber (rs ! i) \<le> lr_startLineNumber (rs ! j)"
    "lr_endLineNumberExclusive (rs ! i) \<le> lr_endLineNumberExclusive (rs ! j)" by auto
qed

lemma joinRangeStartIdx_before:
  assumes "lr_normal rs"
  shows "joinRangeStartIdx rs r = length (lr_before r rs)"
proof -
  have "monotonous_up rs (\<lambda>x. lr_endLineNumberExclusive x \<ge> lr_startLineNumber r)"
    unfolding monotonous_up_def using lr_normal_mono(2) [OF assms] by (meson order_trans)
  from findFirstIdxMonotonousOrArrLen_takeWhile [OF this]
  show ?thesis by (simp add: joinRangeStartIdx_def iv_before_def not_le)
qed

lemma joinRangeEndIdx_touch:
  assumes "lr_normal rs" "wf_lr r"
  shows "joinRangeEndIdxExclusive rs r = int (length (lr_before r rs) + length (lr_touch r rs))"
proof -
  let ?Q = "\<lambda>x. lr_startLineNumber x \<le> lr_endLineNumberExclusive r"
  have mono: "monotonous_down rs ?Q"
    unfolding monotonous_down_def using lr_normal_mono(1) [OF assms(1)] by (meson order_trans)
  have le: "lr_startLineNumber r \<le> lr_endLineNumberExclusive r" using assms(2) by (simp add: wf_lr_def)
  note b = iv_split_bounds [OF assms(1) le]
  have before: "\<forall>a \<in> set (lr_before r rs). ?Q a"
    using b(1) le iv_normal_le [OF iv_split_normal(1) [OF assms(1)]] by (meson le_less_trans less_imp_le order_trans)
  have split: "rs = (lr_before r rs @ lr_touch r rs) @ lr_after r rs" by (simp flip: iv_split)
  have "takeWhile ?Q ((lr_before r rs @ lr_touch r rs) @ lr_after r rs) =
        (lr_before r rs @ lr_touch r rs) @ takeWhile ?Q (lr_after r rs)"
    using before b(2) by (intro takeWhile_append2) auto
  moreover have "takeWhile ?Q (lr_after r rs) = []"
    using b(3) by (cases "lr_after r rs") auto
  ultimately have "takeWhile ?Q rs = lr_before r rs @ lr_touch r rs" by (subst split) simp
  then show ?thesis
    using findLastIdxMonotonous_takeWhile [OF mono] by (simp add: joinRangeEndIdxExclusive_def)
qed

section \<open>addRange\<close>

lemma addRange_split:
  assumes "lr_normal rs" "wf_lr r" "\<not> LineRange_isEmpty r"
  shows "\<exists>x. LineRangeSet_addRange r rs = Ok (lr_before r rs @ [x] @ lr_after r rs) \<and>
    lr_startLineNumber x = (if lr_touch r rs = [] then lr_startLineNumber r
       else min (lr_startLineNumber r) (lr_startLineNumber (hd (lr_touch r rs)))) \<and>
    lr_endLineNumberExclusive x = (if lr_touch r rs = [] then lr_endLineNumberExclusive r
       else max (lr_endLineNumberExclusive r) (lr_endLineNumberExclusive (last (lr_touch r rs))))"
proof -
  define A where "A = lr_before r rs"
  define M where "M = lr_touch r rs"
  define B where "B = lr_after r rs"
  have rs: "rs = A @ M @ B" unfolding A_def M_def B_def by (rule iv_split)
  have len: "LineRange_length r \<noteq> 0" using assms(3) by (simp add: LineRange_length_def LineRange_isEmpty_def)
  have le: "lr_startLineNumber r \<le> lr_endLineNumberExclusive r" using assms(2) by (simp add: wf_lr_def)
  have i: "joinRangeStartIdx rs r = length A"
    unfolding A_def by (rule joinRangeStartIdx_before [OF assms(1)])
  have j: "joinRangeEndIdxExclusive rs r = int (length A + length M)"
    unfolding A_def M_def by (rule joinRangeEndIdx_touch [OF assms(1,2)])
  have nM: "lr_normal M" unfolding M_def by (rule iv_split_normal(2) [OF assms(1)])
  consider "M = []" | m where "M = [m]" | m ms m' where "M = m # ms @ [m']"
    by (metis append_butlast_last_id list.exhaust)
  then show ?thesis
  proof cases
    case 1
    have "LineRangeSet_addRange r rs = Ok (A @ [r] @ B)"
      using js_splice_nat [of "length A" rs 0 "[r]"] 1 len
      by (simp add: LineRangeSet_addRange_def i j) (simp add: rs)
    with 1 show ?thesis unfolding A_def B_def M_def by auto
  next
    case 2
    define x where "x = mk_lr (min (lr_startLineNumber m) (lr_startLineNumber r))
      (max (lr_endLineNumberExclusive m) (lr_endLineNumberExclusive r))"
    have "min (lr_startLineNumber m) (lr_startLineNumber r)
          \<le> max (lr_endLineNumberExclusive m) (lr_endLineNumberExclusive r)" using le by linarith
    then have "LineRange_join m r = Ok x"
      unfolding LineRange_join_def x_def by (rule new_LineRange_le)
    then have "LineRangeSet_addRange r rs = Ok (rs[length A := x])"
      using 2 len by (simp add: LineRangeSet_addRange_def i j) (simp add: rs nth_append)
    also have "rs[length A := x] = A @ [x] @ B" by (simp add: rs 2)
    finally show ?thesis
      using 2 unfolding A_def B_def M_def x_def by (auto simp: min.commute max.commute)
  next
    case 3
    define x where "x = mk_lr (min (min (lr_startLineNumber m) (lr_startLineNumber m')) (lr_startLineNumber r))
      (max (max (lr_endLineNumberExclusive m) (lr_endLineNumberExclusive m')) (lr_endLineNumberExclusive r))"
    have mm: "lr_startLineNumber m \<le> lr_startLineNumber m'"
      "lr_endLineNumberExclusive m \<le> lr_endLineNumberExclusive m'"
      using lr_normal_mono [OF nM, of 0 "length M - 1"] 3 by (simp_all add: nth_append)
    have "\<exists>y. LineRange_join m m' = Ok y \<and> LineRange_join y r = Ok x"
      using le iv_normal_le [OF nM, of m] 3
      by (auto simp: LineRange_join_def new_LineRange_def x_def)
    then obtain y where y: "LineRange_join m m' = Ok y" "LineRange_join y r = Ok x" by blast
    have fst: "rs ! length A = m" by (simp add: rs 3 nth_append)
    have lst: "rs ! (length A + length M - Suc 0) = m'" by (simp add: rs 3 nth_append)
    have n1: "int (length A + length M) - 1 = int (length A + length M - Suc 0)" using 3 by simp
    have "LineRangeSet_addRange r rs = Ok (js_splice rs (int (length A)) (int (length M)) [x])"
      unfolding LineRangeSet_addRange_def i j Let_def n1 nat_int fst lst y bind_result.simps
      using 3 len by simp
    also have "js_splice rs (int (length A)) (int (length M)) [x] = A @ [x] @ B"
      by (simp add: js_splice_nat rs)
    finally have "LineRangeSet_addRange r rs = Ok (A @ [x] @ B)" .
    moreover have "lr_startLineNumber x = min (lr_startLineNumber r) (lr_startLineNumber (hd M))"
      "lr_endLineNumberExclusive x = max (lr_endLineNumberExclusive r) (lr_endLineNumberExclusive (last M))"
      using mm 3 by (auto simp: x_def)
    ultimately show ?thesis using 3 unfolding A_def B_def M_def by auto
  qed
qed

lemma addRange_good:
  assumes "lr_good rs" "wf_lr r"
  shows "\<exists>rs'. LineRangeSet_addRange r rs = Ok rs' \<and> lr_good rs' \<and>
               lr_members rs' = lr_members rs \<union> lr_set r"
proof (cases "LineRange_isEmpty r")
  case True
  with assms show ?thesis
    by (auto simp: LineRangeSet_addRange_def LineRange_length_def LineRange_isEmpty_def lr_set_eq)
next
  case False
  from assms have n: "lr_normal rs" and le: "lr_startLineNumber r \<le> lr_endLineNumberExclusive r"
    by (auto simp: lr_good_def wf_lr_def)
  from addRange_split [OF n assms(2) False] obtain x where
    x: "LineRangeSet_addRange r rs = Ok (lr_before r rs @ [x] @ lr_after r rs)"
      "lr_startLineNumber x = (if lr_touch r rs = [] then lr_startLineNumber r
         else min (lr_startLineNumber r) (lr_startLineNumber (hd (lr_touch r rs))))"
      "lr_endLineNumberExclusive x = (if lr_touch r rs = [] then lr_endLineNumberExclusive r
         else max (lr_endLineNumberExclusive r) (lr_endLineNumberExclusive (last (lr_touch r rs))))"
    by blast
  note add = iv_add_normal [OF n le x(2,3)]
  have "\<not> LineRange_isEmpty x"
    using x(2,3) False le by (auto simp: LineRange_isEmpty_def split: if_splits)
  moreover have "set (lr_before r rs) \<subseteq> set rs" "set (lr_after r rs) \<subseteq> set rs"
    by (auto simp: iv_before_def iv_after_def dest!: set_takeWhileD set_dropWhileD)
  ultimately have "lr_good (lr_before r rs @ [x] @ lr_after r rs)"
    using add(1) assms(1) unfolding lr_good_def by auto
  with x(1) add(2) show ?thesis by (auto simp: lr_members_iv lr_set_eq)
qed

interpretation lineRangeSet:
  interval_set lr_startLineNumber lr_endLineNumberExclusive LineRangeSet_addRange lr_good
proof
  show "lr_good rs \<Longrightarrow> lr_normal rs" for rs by (simp add: lr_good_def)
  show "lr_good []" by simp
  show "\<exists>rs'. LineRangeSet_addRange r rs = Ok rs' \<and> lr_good rs' \<and>
      iv_members lr_startLineNumber lr_endLineNumberExclusive rs' =
      iv_members lr_startLineNumber lr_endLineNumberExclusive rs \<union>
      {lr_startLineNumber r ..< lr_endLineNumberExclusive r}"
    if "lr_good rs" "lr_startLineNumber r \<le> lr_endLineNumberExclusive r" for rs r
    using addRange_good [of rs r] that by (simp add: wf_lr_def lr_members_iv lr_set_eq)
qed

section \<open>Queries\<close>

lemma findLastMonotonous_takeWhile:
  assumes "monotonous_down xs p"
  shows "findLastMonotonous xs p =
    (if takeWhile p xs = [] then None else Some (last (takeWhile p xs)))"
proof -
  obtain n where n: "n = length (takeWhile p xs)" by simp
  have idx: "findLastIdxMonotonous xs p 0 = int n - 1"
    using findLastIdxMonotonous_takeWhile [OF assms] n by linarith
  have le: "n \<le> length xs" by (simp add: n length_takeWhile_le)
  show ?thesis
  proof (cases "n = 0")
    case True
    with n idx show ?thesis by (simp add: findLastMonotonous_def)
  next
    case False
    then have "last (takeWhile p xs) = xs ! (n - 1)"
      using n takeWhile_nth [of "n - 1" p xs] by (simp add: last_conv_nth)
    moreover have "js_get xs (int n - 1) = Some (xs ! (n - 1))"
      using False le by (simp add: js_get_def nat_diff_distrib)
    ultimately show ?thesis using False n idx by (auto simp: findLastMonotonous_def)
  qed
qed

text \<open>The last range that starts before \<open>h\<close> is the only candidate for lines below \<open>h\<close>.\<close>

lemma last_start_candidate:
  assumes "lr_good rs" "monotonous_down rs p"
    and "\<And>r. r \<in> set rs \<Longrightarrow> lr_startLineNumber r \<le> l \<Longrightarrow> p r"
    and "\<And>r. r \<in> set rs \<Longrightarrow> p r \<Longrightarrow> lr_startLineNumber r \<le> h"
    and "l \<le> h"
  shows "(case findLastMonotonous rs p of None \<Rightarrow> False | Some r \<Rightarrow> lr_endLineNumberExclusive r > l) \<longleftrightarrow>
     (\<exists>r \<in> set rs. p r \<and> lr_endLineNumberExclusive r > l)"
proof -
  note fl = findLastMonotonous_takeWhile [OF assms(2)]
  have n: "lr_normal rs" using assms(1) by (simp add: lr_good_def)
  show ?thesis
  proof (cases "takeWhile p rs = []")
    case True
    have "\<not> p r" if "r \<in> set rs" for r
    proof
      assume "p r"
      from that obtain k where "k < length rs" "r = rs ! k" by (auto simp: in_set_conv_nth)
      with \<open>p r\<close> assms(2) have "p (rs ! 0)" unfolding monotonous_down_def by blast
      with True that show False by (cases rs) auto
    qed
    with True show ?thesis by (auto simp: fl)
  next
    case False
    let ?m = "last (takeWhile p rs)"
    have m: "?m \<in> set rs" "p ?m" using False by (metis last_in_set set_takeWhileD)+
    have "lr_endLineNumberExclusive r \<le> lr_endLineNumberExclusive ?m" if "r \<in> set rs" "p r" for r
    proof -
      from that obtain k where k: "k < length rs" "r = rs ! k" by (auto simp: in_set_conv_nth)
      have kn: "k < length (takeWhile p rs)"
      proof (rule ccontr)
        assume nk: "\<not> k < length (takeWhile p rs)"
        let ?n = "length (takeWhile p rs)"
        have "?n < length rs" "?n \<le> k" using nk k(1) by auto
        then have "p (rs ! ?n)" using assms(2) k that(2) unfolding monotonous_down_def by blast
        with nth_length_takeWhile [OF \<open>?n < length rs\<close>] show False by simp
      qed
      have idx: "?m = rs ! (length (takeWhile p rs) - 1)"
        using False takeWhile_nth [of "length (takeWhile p rs) - 1" p rs] by (simp add: last_conv_nth)
      have "length (takeWhile p rs) \<le> length rs" by (rule length_takeWhile_le)
      then show ?thesis unfolding idx k(2) using kn by (intro lr_normal_mono(2) [OF n]) auto
    qed
    then show ?thesis using m by (auto simp: fl False intro: less_le_trans)
  qed
qed

lemma contains_iff:
  assumes "lr_good rs"
  shows "LineRangeSet_contains rs l \<longleftrightarrow> l \<in> lr_members rs"
proof -
  have n: "lr_normal rs" using assms by (simp add: lr_good_def)
  have mono: "monotonous_down rs (\<lambda>r. lr_startLineNumber r \<le> l)"
    unfolding monotonous_down_def using lr_normal_mono(1) [OF n] by (meson order_trans)
  show ?thesis
    unfolding LineRangeSet_contains_def
    by (subst last_start_candidate [OF assms mono, of l l]) (auto simp: lr_members_def lr_set_eq)
qed

lemma intersects_iff:
  assumes "lr_good rs" "wf_lr r" "\<not> LineRange_isEmpty r"
  shows "LineRangeSet_intersects rs r \<longleftrightarrow> lr_members rs \<inter> lr_set r \<noteq> {}"
proof -
  have n: "lr_normal rs" using assms by (simp add: lr_good_def)
  have ne: "lr_startLineNumber r < lr_endLineNumberExclusive r"
    using assms(2,3) by (simp add: wf_lr_def LineRange_isEmpty_def)
  have mono: "monotonous_down rs (\<lambda>x. lr_startLineNumber x < lr_endLineNumberExclusive r)"
    unfolding monotonous_down_def using lr_normal_mono(1) [OF n] by (meson le_less_trans)
  have "LineRangeSet_intersects rs r \<longleftrightarrow> (\<exists>x \<in> set rs. lr_startLineNumber x < lr_endLineNumberExclusive r \<and>
      lr_endLineNumberExclusive x > lr_startLineNumber r)"
    unfolding LineRangeSet_intersects_def
    by (rule last_start_candidate [OF assms(1) mono, where h = "lr_endLineNumberExclusive r"])
      (use ne in auto)
  moreover have "{lr_startLineNumber x ..< lr_endLineNumberExclusive x} \<inter>
      {lr_startLineNumber r ..< lr_endLineNumberExclusive r} \<noteq> {} \<longleftrightarrow>
      lr_startLineNumber x < lr_endLineNumberExclusive r \<and> lr_startLineNumber r < lr_endLineNumberExclusive x"
    if "x \<in> set rs" for x
    using lr_good_less [OF assms(1) that] ne by auto
  ultimately show ?thesis unfolding lr_members_def lr_set_eq by blast
qed

section \<open>getUnion\<close>

definition cur_list :: "LineRange option \<Rightarrow> LineRange list" where
  "cur_list c = (case c of None \<Rightarrow> [] | Some x \<Rightarrow> [x])"

lemma cur_list_simps [simp]: "cur_list None = []" "cur_list (Some x) = [x]"
  by (simp_all add: cur_list_def)

lemma getUnion_step_spec:
  assumes "lr_good (res @ cur_list current)" "current = None \<Longrightarrow> res = []"
    and "lr_startLineNumber nxt < lr_endLineNumberExclusive nxt"
    and "\<forall>c \<in> set (cur_list current). lr_startLineNumber c \<le> lr_startLineNumber nxt"
  obtains res' c' where "getUnion_step res current nxt = Ok (res', Some c')" "lr_good (res' @ [c'])"
    "lr_members (res' @ [c']) = lr_members (res @ cur_list current) \<union> lr_set nxt"
    "lr_startLineNumber c' \<le> lr_startLineNumber nxt"
proof (cases current)
  case None
  with assms show ?thesis
    by (intro that [of res nxt]) (auto simp: getUnion_step_def lr_good_Cons)
next
  case (Some c)
  note c = assms [unfolded Some, simplified]
  have cle: "lr_startLineNumber c < lr_endLineNumberExclusive c"
    using c(1) by (simp add: lr_good_append lr_good_Cons)
  show ?thesis
  proof (cases "lr_endLineNumberExclusive c \<ge> lr_startLineNumber nxt")
    case True
    define c' where "c' = mk_lr (lr_startLineNumber c)
      (max (lr_endLineNumberExclusive c) (lr_endLineNumberExclusive nxt))"
    have "getUnion_step res current nxt = Ok (res, Some c')"
      using True cle by (simp add: getUnion_step_def Some c'_def)
    moreover have "lr_good (res @ [c'])"
      using c(1) cle by (auto simp: lr_good_append lr_good_Cons c'_def)
    moreover have "lr_set c' = lr_set c \<union> lr_set nxt"
      using True c(3,4) cle by (auto simp: lr_set_eq c'_def)
    ultimately show ?thesis using c(4) Some by (intro that [of res c']) (auto simp: c'_def)
  next
    case False
    have "getUnion_step res current nxt = Ok (res @ [c], Some nxt)"
      using False by (simp add: getUnion_step_def Some)
    moreover have "lr_good ((res @ [c]) @ [nxt])"
      using c(1,3) False cle by (fastforce simp: lr_good_append lr_good_Cons)
    ultimately show ?thesis using Some by (intro that [of "res @ [c]" nxt]) auto
  qed
qed

lemma getUnion_loop_spec:
  assumes "lr_good xs" "lr_good ys" "lr_good (res @ cur_list current)" "current = None \<Longrightarrow> res = []"
    and "\<forall>c \<in> set (cur_list current). \<forall>z \<in> set xs \<union> set ys. lr_startLineNumber c \<le> lr_startLineNumber z"
  shows "\<exists>out. getUnion_loop xs ys res current = Ok out \<and> lr_good out \<and>
    lr_members out = lr_members (res @ cur_list current) \<union> lr_members xs \<union> lr_members ys"
  using assms
proof (induction xs ys res current rule: getUnion_loop.induct)
  case (1 res current)
  then show ?case by (cases current) auto
next
  case (2 x xs y ys res current)
  have x: "lr_startLineNumber x < lr_endLineNumberExclusive x" "lr_good xs"
    "\<forall>z \<in> set xs. lr_startLineNumber x \<le> lr_startLineNumber z"
    and y: "lr_startLineNumber y < lr_endLineNumberExclusive y" "lr_good ys"
    "\<forall>z \<in> set ys. lr_startLineNumber y \<le> lr_startLineNumber z"
    using "2.prems"(1,2) by (fastforce simp: lr_good_Cons)+
  show ?case
  proof (cases "lr_startLineNumber x < lr_startLineNumber y")
    case True
    obtain res' c' where s: "getUnion_step res current x = Ok (res', Some c')" "lr_good (res' @ [c'])"
      "lr_members (res' @ [c']) = lr_members (res @ cur_list current) \<union> lr_set x"
      "lr_startLineNumber c' \<le> lr_startLineNumber x"
      using getUnion_step_spec [OF "2.prems"(3,4) x(1)] "2.prems"(5) by auto
    have "\<forall>c \<in> set (cur_list (Some c')). \<forall>z \<in> set xs \<union> set (y # ys). lr_startLineNumber c \<le> lr_startLineNumber z"
      using s(4) x(3) y(3) True by fastforce
    from "2.IH"(1) [OF True x(2) "2.prems"(2) _ _ this] s(2) obtain out where out:
      "getUnion_loop xs (y # ys) res' (Some c') = Ok out" "lr_good out"
      "lr_members out = lr_members (res' @ [c']) \<union> lr_members xs \<union> lr_members (y # ys)"
      by fastforce
    show ?thesis
      by (rule exI [of _ out]) (use out s(1) True in \<open>simp add: s(3) [simplified]; blast\<close>)
  next
    case False
    obtain res' c' where s: "getUnion_step res current y = Ok (res', Some c')" "lr_good (res' @ [c'])"
      "lr_members (res' @ [c']) = lr_members (res @ cur_list current) \<union> lr_set y"
      "lr_startLineNumber c' \<le> lr_startLineNumber y"
      using getUnion_step_spec [OF "2.prems"(3,4) y(1)] "2.prems"(5) by auto
    have "\<forall>c \<in> set (cur_list (Some c')). \<forall>z \<in> set (x # xs) \<union> set ys. lr_startLineNumber c \<le> lr_startLineNumber z"
      using s(4) x(3) y(3) False by fastforce
    from "2.IH"(2) [OF False "2.prems"(1) y(2) _ _ this] s(2) obtain out where out:
      "getUnion_loop (x # xs) ys res' (Some c') = Ok out" "lr_good out"
      "lr_members out = lr_members (res' @ [c']) \<union> lr_members (x # xs) \<union> lr_members ys"
      by fastforce
    show ?thesis
      by (rule exI [of _ out]) (use out s(1) False in \<open>simp add: s(3) [simplified]; blast\<close>)
  qed
next
  case (3 x xs res current)
  have x: "lr_startLineNumber x < lr_endLineNumberExclusive x" "lr_good xs"
    "\<forall>z \<in> set xs. lr_startLineNumber x \<le> lr_startLineNumber z"
    using "3.prems"(1) by (fastforce simp: lr_good_Cons)+
  obtain res' c' where s: "getUnion_step res current x = Ok (res', Some c')" "lr_good (res' @ [c'])"
    "lr_members (res' @ [c']) = lr_members (res @ cur_list current) \<union> lr_set x"
    "lr_startLineNumber c' \<le> lr_startLineNumber x"
    using getUnion_step_spec [OF "3.prems"(3,4) x(1)] "3.prems"(5) by auto
  have "\<forall>c \<in> set (cur_list (Some c')). \<forall>z \<in> set xs \<union> set []. lr_startLineNumber c \<le> lr_startLineNumber z"
    using s(4) x(3) by fastforce
  from "3.IH" [OF x(2) "3.prems"(2) _ _ this] s(2) obtain out where out:
    "getUnion_loop xs [] res' (Some c') = Ok out" "lr_good out"
    "lr_members out = lr_members (res' @ [c']) \<union> lr_members xs \<union> lr_members []"
    by fastforce
  show ?case
    by (rule exI [of _ out]) (use out s(1) in \<open>simp add: s(3) [simplified]; blast\<close>)
next
  case (4 y ys res current)
  have y: "lr_startLineNumber y < lr_endLineNumberExclusive y" "lr_good ys"
    "\<forall>z \<in> set ys. lr_startLineNumber y \<le> lr_startLineNumber z"
    using "4.prems"(2) by (fastforce simp: lr_good_Cons)+
  obtain res' c' where s: "getUnion_step res current y = Ok (res', Some c')" "lr_good (res' @ [c'])"
    "lr_members (res' @ [c']) = lr_members (res @ cur_list current) \<union> lr_set y"
    "lr_startLineNumber c' \<le> lr_startLineNumber y"
    using getUnion_step_spec [OF "4.prems"(3,4) y(1)] "4.prems"(5) by auto
  have "\<forall>c \<in> set (cur_list (Some c')). \<forall>z \<in> set [] \<union> set ys. lr_startLineNumber c \<le> lr_startLineNumber z"
    using s(4) y(3) by fastforce
  from "4.IH" [OF "4.prems"(1) y(2) _ _ this] s(2) obtain out where out:
    "getUnion_loop [] ys res' (Some c') = Ok out" "lr_good out"
    "lr_members out = lr_members (res' @ [c']) \<union> lr_members [] \<union> lr_members ys"
    by fastforce
  show ?case
    by (rule exI [of _ out]) (use out s(1) in \<open>simp add: s(3) [simplified]; blast\<close>)
qed

lemma getUnion_good:
  assumes "lr_good rs" "lr_good other"
  shows "\<exists>out. LineRangeSet_getUnion rs other = Ok out \<and> lr_good out \<and>
               lr_members out = lr_members rs \<union> lr_members other"
  using getUnion_loop_spec [OF assms, of "[]" None] assms
  by (auto simp: LineRangeSet_getUnion_def)

lemma joinMany_good:
  assumes "\<forall>rs \<in> set rss. lr_good rs"
  shows "\<exists>out. LineRange_joinMany rss = Ok out \<and> lr_good out \<and>
               lr_members out = (\<Union>rs \<in> set rss. lr_members rs)"
proof -
  have loop: "\<exists>out. joinMany_loop acc xss = Ok out \<and> lr_good out \<and>
      lr_members out = lr_members acc \<union> (\<Union>rs \<in> set xss. lr_members rs)"
    if "lr_good acc" "\<forall>rs \<in> set xss. lr_good rs" for acc xss
    using that
  proof (induction xss arbitrary: acc)
    case (Cons rs xss)
    then obtain acc' where "LineRangeSet_getUnion acc rs = Ok acc'" "lr_good acc'"
      "lr_members acc' = lr_members acc \<union> lr_members rs"
      using getUnion_good [of acc rs] by auto
    with Cons.IH [of acc'] Cons.prems(2) show ?case by auto
  qed simp
  from assms loop show ?thesis by (cases rss) (auto simp: LineRange_joinMany_def)
qed

section \<open>subtractFrom\<close>

lemma subtractFrom_loop_spec:
  assumes "lr_good rs" "\<forall>r \<in> set rs. st \<le> lr_endLineNumberExclusive r \<and> lr_startLineNumber r \<le> en"
    and "lr_good res" "\<forall>x \<in> set res. lr_endLineNumberExclusive x < st"
  shows "\<exists>out. subtractFrom_loop rs st en res = Ok out \<and> lr_good out \<and>
    lr_members out = lr_members res \<union> ({st ..< en} - lr_members rs)"
  using assms
proof (induction rs st en res rule: subtractFrom_loop.induct)
  case (1 st en res)
  then show ?case by (auto simp: lr_good_append lr_good_Cons lr_set_eq)
next
  case (2 r rs st en res)
  have r: "lr_startLineNumber r < lr_endLineNumberExclusive r" "lr_good rs"
    "\<forall>y \<in> set rs. lr_endLineNumberExclusive r < lr_startLineNumber y"
    using "2.prems"(1) by (auto simp: lr_good_Cons)
  have rest: "\<forall>y \<in> set rs. lr_endLineNumberExclusive r \<le> lr_endLineNumberExclusive y \<and> lr_startLineNumber y \<le> en"
    using r(3) lr_good_less [OF r(2)] "2.prems"(2) by fastforce
  have after: "l \<notin> lr_members rs" if "l \<le> lr_endLineNumberExclusive r" for l
    using r(3) that by (fastforce simp: lr_members_def lr_set_eq)
  show ?case
  proof (cases "lr_startLineNumber r > st")
    case True
    let ?x = "mk_lr st (lr_startLineNumber r)"
    have "lr_good (res @ [?x])" using "2.prems"(3,4) True by (auto simp: lr_good_append lr_good_Cons)
    moreover have "\<forall>x \<in> set (res @ [?x]). lr_endLineNumberExclusive x < lr_endLineNumberExclusive r"
      using "2.prems"(4) True r(1) by fastforce
    ultimately obtain out where out:
      "subtractFrom_loop rs (lr_endLineNumberExclusive r) en (res @ [?x]) = Ok out" "lr_good out"
      "lr_members out = lr_members (res @ [?x]) \<union> ({lr_endLineNumberExclusive r ..< en} - lr_members rs)"
      using "2.IH"(1) [OF True r(2) rest] by blast
    have "lr_set ?x \<union> ({lr_endLineNumberExclusive r ..< en} - lr_members rs) =
        {st ..< en} - (lr_set r \<union> lr_members rs)"
      using True r(1) "2.prems"(2) after by (auto simp: lr_set_eq)
    with out True show ?thesis by (intro exI [of _ out]) auto
  next
    case False
    have "\<forall>x \<in> set res. lr_endLineNumberExclusive x < lr_endLineNumberExclusive r"
      using "2.prems"(2,4) by fastforce
    then obtain out where out:
      "subtractFrom_loop rs (lr_endLineNumberExclusive r) en res = Ok out" "lr_good out"
      "lr_members out = lr_members res \<union> ({lr_endLineNumberExclusive r ..< en} - lr_members rs)"
      using "2.IH"(2) [OF False r(2) rest "2.prems"(3)] by blast
    have "{lr_endLineNumberExclusive r ..< en} - lr_members rs = {st ..< en} - (lr_set r \<union> lr_members rs)"
      using False "2.prems"(2) by (auto simp: lr_set_eq)
    with out False show ?thesis by (intro exI [of _ out]) auto
  qed
qed

lemma subtractFrom_good:
  assumes "lr_good rs" "wf_lr r" "\<not> LineRange_isEmpty r"
  shows "\<exists>out. LineRangeSet_subtractFrom rs r = Ok out \<and> lr_good out \<and>
               lr_members out = lr_set r - lr_members rs"
proof -
  have n: "lr_normal rs" using assms(1) by (simp add: lr_good_def)
  have le: "lr_startLineNumber r < lr_endLineNumberExclusive r"
    using assms(2,3) by (simp add: wf_lr_def LineRange_isEmpty_def)
  define M where "M = lr_touch r rs"
  have split: "rs = lr_before r rs @ M @ lr_after r rs" unfolding M_def by (rule iv_split)
  have good: "lr_good M" using assms(1) split by (metis lr_good_append)
  note b = iv_split_bounds [OF n less_imp_le [OF le], folded M_def]
  have outside: "lr_set r \<inter> lr_members (lr_before r rs) = {}" "lr_set r \<inter> lr_members (lr_after r rs) = {}"
    using b(1,3) by (fastforce simp: lr_members_def lr_set_eq)+
  have mem: "lr_set r - lr_members rs = lr_set r - lr_members M"
    using outside by (subst split) auto
  have take: "take (length M) (drop (length (lr_before r rs)) rs) = M"
    by (subst (2) split) simp
  have def: "LineRangeSet_subtractFrom rs r = (if M = [] then Ok [r] else
      subtractFrom_loop M (lr_startLineNumber r) (lr_endLineNumberExclusive r) [])"
    using take by (simp add: LineRangeSet_subtractFrom_def joinRangeStartIdx_before [OF n]
        joinRangeEndIdx_touch [OF n assms(2)] flip: M_def)
  show ?thesis
  proof (cases "M = []")
    case True
    with le show ?thesis unfolding mem def by (simp add: lr_good_Cons)
  next
    case False
    have "\<forall>m \<in> set M. lr_startLineNumber r \<le> lr_endLineNumberExclusive m \<and>
        lr_startLineNumber m \<le> lr_endLineNumberExclusive r" using b(2) by blast
    from subtractFrom_loop_spec [OF good this, of "[]"] False show ?thesis
      unfolding mem def by (simp add: lr_set_eq)
  qed
qed

section \<open>getIntersection\<close>

lemma intersect_value:
  "LineRange_intersect a b = Ok
    (if max (lr_startLineNumber a) (lr_startLineNumber b) \<le>
        min (lr_endLineNumberExclusive a) (lr_endLineNumberExclusive b)
     then Some (mk_lr (max (lr_startLineNumber a) (lr_startLineNumber b))
        (min (lr_endLineNumberExclusive a) (lr_endLineNumberExclusive b)))
     else None)"
  by (simp add: LineRange_intersect_def Let_def del: max.bounded_iff min.bounded_iff)

lemma getIntersection_loop_spec:
  assumes "lr_good xs" "lr_good ys" "lr_good res"
    and "\<forall>e \<in> set res. \<forall>x \<in> set xs. \<forall>y \<in> set ys.
           lr_endLineNumberExclusive e < max (lr_startLineNumber x) (lr_startLineNumber y)"
  shows "\<exists>out. getIntersection_loop xs ys res = Ok out \<and> lr_good out \<and>
    lr_members out = lr_members res \<union> (lr_members xs \<inter> lr_members ys)"
  using assms
proof (induction xs ys res rule: getIntersection_loop.induct)
  case (1 x xs y ys res)
  define s where "s = max (lr_startLineNumber x) (lr_startLineNumber y)"
  define e where "e = min (lr_endLineNumberExclusive x) (lr_endLineNumberExclusive y)"
  define res' where "res' = (if s < e then res @ [mk_lr s e] else res)"
  have x: "lr_startLineNumber x < lr_endLineNumberExclusive x" "lr_good xs"
    "\<forall>z \<in> set xs. lr_endLineNumberExclusive x < lr_startLineNumber z"
    and y: "lr_startLineNumber y < lr_endLineNumberExclusive y" "lr_good ys"
    "\<forall>z \<in> set ys. lr_endLineNumberExclusive y < lr_startLineNumber z"
    using "1.prems"(1,2) by (auto simp: lr_good_Cons)
  have step: "getIntersection_loop (x # xs) (y # ys) res =
      (if lr_endLineNumberExclusive x < lr_endLineNumberExclusive y
       then getIntersection_loop xs (y # ys) res' else getIntersection_loop (x # xs) ys res')"
    by (auto simp: intersect_value LineRange_isEmpty_def res'_def s_def e_def)
  have good: "lr_good res'"
    using "1.prems"(3,4) by (auto simp: res'_def lr_good_append lr_good_Cons s_def)
  have mem: "lr_members res' = lr_members res \<union> (lr_set x \<inter> lr_set y)"
    by (auto simp: res'_def lr_set_eq s_def e_def)
  have res'eq: "res' = (case (if s \<le> e then Some (mk_lr s e) else None) of None \<Rightarrow> res
      | Some i \<Rightarrow> if LineRange_isEmpty i then res else res @ [i])"
    by (auto simp: res'_def LineRange_isEmpty_def)
  have old: "lr_endLineNumberExclusive d < max (lr_startLineNumber z) (lr_startLineNumber w)"
    if "d \<in> set res" "z \<in> set (x # xs)" "w \<in> set (y # ys)" for d z w
    using "1.prems"(4) that by blast
  have new: "d \<in> set res \<or> lr_endLineNumberExclusive d = e" if "d \<in> set res'" for d
    using that by (auto simp: res'_def split: if_splits)
  show ?case
  proof (cases "lr_endLineNumberExclusive x < lr_endLineNumberExclusive y")
    case True
    have "\<forall>d \<in> set res'. \<forall>z \<in> set xs. \<forall>w \<in> set (y # ys).
        lr_endLineNumberExclusive d < max (lr_startLineNumber z) (lr_startLineNumber w)"
    proof (intro ballI)
      fix d z w assume a: "d \<in> set res'" "z \<in> set xs" "w \<in> set (y # ys)"
      then have "e < lr_startLineNumber z" using x(3) True by (fastforce simp: e_def)
      with a new [OF a(1)] old [of d z w] show
        "lr_endLineNumberExclusive d < max (lr_startLineNumber z) (lr_startLineNumber w)"
        by (auto simp: less_max_iff_disj)
    qed
    from "1.IH"(1) [OF res'eq True x(2) "1.prems"(2) good this]
    obtain out where out: "getIntersection_loop xs (y # ys) res' = Ok out" "lr_good out"
      "lr_members out = lr_members res' \<union> (lr_members xs \<inter> lr_members (y # ys))" by blast
    have "lr_set x \<inter> lr_members ys = {}"
      using y(3) True by (fastforce simp: lr_members_def lr_set_eq)
    then have "lr_members out = lr_members res \<union> (lr_members (x # xs) \<inter> lr_members (y # ys))"
      unfolding out(3) mem lr_members_simps by blast
    with out(1,2) show ?thesis unfolding step if_P [OF True] by blast
  next
    case False
    have "\<forall>d \<in> set res'. \<forall>z \<in> set (x # xs). \<forall>w \<in> set ys.
        lr_endLineNumberExclusive d < max (lr_startLineNumber z) (lr_startLineNumber w)"
    proof (intro ballI)
      fix d z w assume a: "d \<in> set res'" "z \<in> set (x # xs)" "w \<in> set ys"
      then have "e < lr_startLineNumber w" using y(3) False by (fastforce simp: e_def)
      with a new [OF a(1)] old [of d z w] show
        "lr_endLineNumberExclusive d < max (lr_startLineNumber z) (lr_startLineNumber w)"
        by (auto simp: less_max_iff_disj)
    qed
    from "1.IH"(2) [OF res'eq False "1.prems"(1) y(2) good this]
    obtain out where out: "getIntersection_loop (x # xs) ys res' = Ok out" "lr_good out"
      "lr_members out = lr_members res' \<union> (lr_members (x # xs) \<inter> lr_members ys)" by blast
    have "lr_set y \<inter> lr_members xs = {}"
      using x(3) False by (fastforce simp: lr_members_def lr_set_eq)
    then have "lr_members out = lr_members res \<union> (lr_members (x # xs) \<inter> lr_members (y # ys))"
      unfolding out(3) mem lr_members_simps by blast
    with out(1,2) show ?thesis unfolding step if_not_P [OF False] by blast
  qed
qed auto

lemma getIntersection_good:
  assumes "lr_good rs" "lr_good other"
  shows "\<exists>out. LineRangeSet_getIntersection rs other = Ok out \<and> lr_good out \<and>
               lr_members out = lr_members rs \<inter> lr_members other"
  using getIntersection_loop_spec [OF assms, of "[]"]
  by (auto simp: LineRangeSet_getIntersection_def)

section \<open>getWithDelta\<close>

lemma getWithDelta_good:
  assumes "lr_good rs"
  shows "\<exists>out. LineRangeSet_getWithDelta rs v = Ok out \<and> lr_good out \<and>
               lr_members out = (\<lambda>l. l + v) ` lr_members rs"
proof -
  define d where "d r = mk_lr (lr_startLineNumber r + v) (lr_endLineNumberExclusive r + v)" for r :: LineRange
  have "LineRangeSet_getWithDelta rs v = Ok (map d rs)"
    using assms by (induction rs)
      (auto simp: LineRangeSet_getWithDelta_def LineRange_delta_def d_def lr_good_Cons)
  moreover have "lr_good (map d rs)"
    using assms by (induction rs) (auto simp: lr_good_Cons d_def)
  moreover have "lr_set (d r) = (\<lambda>l. l + v) ` lr_set r" for r by (simp add: lr_set_eq d_def)
  ultimately show ?thesis by (auto simp: lr_members_def)
qed

section \<open>Conversions and distances\<close>

lemma LineRange_serialize_roundtrip: "wf_lr r \<Longrightarrow> LineRange_deserialize (LineRange_serialize r) = Ok r"
  by (simp add: LineRange_deserialize_def LineRange_serialize_def wf_lr_def)

text \<open>
  The distance to a line is the distance to the nearest contained line below the range; above it,
  it is one less, so the first line after the range is at distance 0.
\<close>

lemma distanceToLine_value:
  assumes "wf_lr r"
  shows "LineRange_distanceToLine r l =
     (if l < lr_startLineNumber r then lr_startLineNumber r - l
      else max 0 (l - lr_endLineNumberExclusive r))"
  using assms by (auto simp: LineRange_distanceToLine_def LineRange_contains_def wf_lr_def)

text \<open>\<open>toInclusiveRange\<close> followed by \<open>fromRangeInclusive\<close> is the identity.\<close>

lemma toInclusiveRange_roundtrip:
  assumes "wf_lr r" "LineRange_toInclusiveRange r = Some rg"
  shows "LineRange_fromRangeInclusive rg = Ok r"
  using assms
  by (cases r) (auto simp: LineRange_toInclusiveRange_def LineRange_fromRangeInclusive_def wf_lr_def
      LineRange_isEmpty_def new_Range_def MAX_SAFE_INTEGER_def split: if_splits)

end
