(* ===== verification/PrefixSums.thy ===== *)
theory PrefixSums
  imports ArrayDiff
begin

text \<open>
  \<open>src/vs/editor/common/model/prefixSumComputer.ts\<close>: two incremental prefix-sum tables.

  \<open>PrefixSumComputer\<close> keeps its values and sums in \<open>Uint32Array\<close>s (\<open>32 word list\<close>, so sums wrap
  at 2^32) and the last trusted index in an \<open>Int32Array\<close> cell.  \<open>ConstantTimePrefixSumComputer\<close>
  keeps plain arrays; a cell that was never written reads as \<open>undefined\<close> and arithmetic with it
  gives \<open>NaN\<close>, both \<open>None\<close> here.

  Every operation returns the new state with its result, also when it throws: the arrays assigned
  before the throw stay assigned.
\<close>

section \<open>Typed arrays\<close>

text \<open>Reading outside a typed array gives \<open>undefined\<close>, writing there is ignored.\<close>

definition ta_store :: "'a list \<Rightarrow> int \<Rightarrow> 'a \<Rightarrow> 'a list" where
  "ta_store xs i v = (if 0 \<le> i \<and> i < int (length xs) then xs[nat i := v] else xs)"

text \<open>\<open>dst.set(src, off)\<close>.\<close>

definition ta_set :: "'a list \<Rightarrow> 'a list \<Rightarrow> int \<Rightarrow> 'a list result" where
  "ta_set dst src off =
     (if off < 0 \<or> off + int (length src) > int (length dst) then Throw RangeError
      else Ok (take (nat off) dst @ src @ drop (nat off + length src) dst))"

definition ta_new :: "int \<Rightarrow> 32 word list result" where
  "ta_new n = (if n < 0 then Throw RangeError else Ok (replicate (nat n) 0))"

section \<open>PrefixSumComputer\<close>

record PrefixSumComputer =
  psc_values :: "32 word list"
  psc_prefixSum :: "32 word list"
  prefixSumValidIndex :: int

definition new_PrefixSumComputer :: "32 word list \<Rightarrow> PrefixSumComputer" where
  "new_PrefixSumComputer vs =
     \<lparr>psc_values = vs, psc_prefixSum = replicate (length vs) 0, prefixSumValidIndex = -1\<rparr>"

definition psc_getCount :: "PrefixSumComputer \<Rightarrow> nat" where
  "psc_getCount s = length (psc_values s)"

text \<open>\<open>if (index - 1 < prefixSumValidIndex[0]) prefixSumValidIndex[0] = index - 1\<close>.\<close>

definition psc_lower_valid :: "int \<Rightarrow> PrefixSumComputer \<Rightarrow> PrefixSumComputer" where
  "psc_lower_valid index s =
     (if index - 1 < prefixSumValidIndex s
      then s\<lparr>prefixSumValidIndex := js_to_int32 (index - 1)\<rparr> else s)"

text \<open>The end of \<open>insertValues\<close> and \<open>removeValues\<close>: a fresh table with the trusted sums copied.\<close>

definition psc_copy_sums :: "32 word list \<Rightarrow> PrefixSumComputer \<Rightarrow> PrefixSumComputer \<times> bool result" where
  "psc_copy_sums oldPrefixSum s =
     (let fresh = replicate (length (psc_values s)) 0
      in if prefixSumValidIndex s \<ge> 0 then
           (case ta_set fresh (js_slice oldPrefixSum 0 (prefixSumValidIndex s + 1)) 0 of
              Inl e \<Rightarrow> (s\<lparr>psc_prefixSum := fresh\<rparr>, Throw e)
            | Inr p \<Rightarrow> (s\<lparr>psc_prefixSum := p\<rparr>, Ok True))
         else (s\<lparr>psc_prefixSum := fresh\<rparr>, Ok True))"

definition psc_insertValues ::
  "int \<Rightarrow> 32 word list \<Rightarrow> PrefixSumComputer \<Rightarrow> PrefixSumComputer \<times> bool result" where
  "psc_insertValues idx ins s =
     (let insertIndex = toUint32 idx;
          oldValues = psc_values s;
          oldPrefixSum = psc_prefixSum s;
          insertValuesLen = int (length ins)
      in if ins = [] then (s, Ok False)
         else
           let v0 = replicate (length oldValues + length ins) 0
           in case ta_set v0 (js_slice oldValues 0 insertIndex) 0 of
                Inl e \<Rightarrow> (s\<lparr>psc_values := v0\<rparr>, Throw e)
              | Inr v1 \<Rightarrow>
             (case ta_set v1 (js_slice oldValues insertIndex (int (length oldValues)))
                     (insertIndex + insertValuesLen) of
                Inl e \<Rightarrow> (s\<lparr>psc_values := v1\<rparr>, Throw e)
              | Inr v2 \<Rightarrow>
             (case ta_set v2 ins insertIndex of
                Inl e \<Rightarrow> (s\<lparr>psc_values := v2\<rparr>, Throw e)
              | Inr v3 \<Rightarrow> psc_copy_sums oldPrefixSum (psc_lower_valid insertIndex (s\<lparr>psc_values := v3\<rparr>)))))"

definition psc_setValue :: "int \<Rightarrow> int \<Rightarrow> PrefixSumComputer \<Rightarrow> PrefixSumComputer \<times> bool" where
  "psc_setValue idx val s =
     (let index = toUint32 idx; v = toUint32 val
      in if map_option uint (js_get (psc_values s) index) = Some v then (s, False)
         else (psc_lower_valid index (s\<lparr>psc_values := ta_store (psc_values s) index (word_of_int v)\<rparr>), True))"

definition psc_removeValues :: "int \<Rightarrow> int \<Rightarrow> PrefixSumComputer \<Rightarrow> PrefixSumComputer \<times> bool result" where
  "psc_removeValues st cnt s =
     (let startIndex = toUint32 st;
          count0 = toUint32 cnt;
          oldValues = psc_values s;
          oldPrefixSum = psc_prefixSum s
      in if startIndex \<ge> int (length oldValues) then (s, Ok False)
         else
           let maxCount = int (length oldValues) - startIndex;
               cnt' = (if count0 \<ge> maxCount then maxCount else count0)
           in if cnt' = 0 then (s, Ok False)
              else case ta_new (int (length oldValues) - cnt') of
                Inl e \<Rightarrow> (s, Throw e)
              | Inr v0 \<Rightarrow>
             (case ta_set v0 (js_slice oldValues 0 startIndex) 0 of
                Inl e \<Rightarrow> (s\<lparr>psc_values := v0\<rparr>, Throw e)
              | Inr v1 \<Rightarrow>
             (case ta_set v1 (js_slice oldValues (startIndex + cnt') (int (length oldValues))) startIndex of
                Inl e \<Rightarrow> (s\<lparr>psc_values := v1\<rparr>, Throw e)
              | Inr v2 \<Rightarrow> psc_copy_sums oldPrefixSum (psc_lower_valid startIndex (s\<lparr>psc_values := v2\<rparr>)))))"

text \<open>A sum with \<open>undefined\<close> is \<open>NaN\<close>, which a \<open>Uint32Array\<close> stores as 0.\<close>

function psc_fill :: "32 word list \<Rightarrow> 32 word list \<Rightarrow> int \<Rightarrow> int \<Rightarrow> 32 word list" where
  "psc_fill vs ps i index =
     (if i \<le> index then
        psc_fill vs
          (ta_store ps i (case (js_get ps (i - 1), js_get vs i) of (Some a, Some b) \<Rightarrow> a + b | _ \<Rightarrow> 0))
          (i + 1) index
      else ps)"
  by pat_completeness auto
termination by (relation "measure (\<lambda>(vs, ps, i, index). nat (index + 1 - i))") auto

declare psc_fill.simps [simp del]

definition psc_getPrefixSum0 :: "int \<Rightarrow> PrefixSumComputer \<Rightarrow> PrefixSumComputer \<times> int option" where
  "psc_getPrefixSum0 idx s =
     (if idx \<le> prefixSumValidIndex s then (s, map_option uint (js_get (psc_prefixSum s) idx))
      else
        let start0 = prefixSumValidIndex s + 1;
            ps0 = (if start0 = 0
                   then ta_store (psc_prefixSum s) 0 (case js_get (psc_values s) 0 of Some v \<Rightarrow> v | None \<Rightarrow> 0)
                   else psc_prefixSum s);
            startIndex = (if start0 = 0 then start0 + 1 else start0);
            index = (if idx \<ge> int (length (psc_values s)) then int (length (psc_values s)) - 1 else idx);
            ps = psc_fill (psc_values s) ps0 startIndex index
        in (s\<lparr>psc_prefixSum := ps,
              prefixSumValidIndex := js_to_int32 (max (prefixSumValidIndex s) index)\<rparr>,
            map_option uint (js_get ps index)))"

definition psc_getTotalSum :: "PrefixSumComputer \<Rightarrow> PrefixSumComputer \<times> int option" where
  "psc_getTotalSum s =
     (if length (psc_values s) = 0 then (s, Some 0)
      else psc_getPrefixSum0 (int (length (psc_values s)) - 1) s)"

definition psc_getPrefixSum :: "int \<Rightarrow> PrefixSumComputer \<Rightarrow> PrefixSumComputer \<times> int option" where
  "psc_getPrefixSum idx s = (if idx < 0 then (s, Some 0) else psc_getPrefixSum0 (toUint32 idx) s)"

record PrefixSumIndexOfResult =
  ior_index :: int
  ior_remainder :: "int option"

text \<open>
  The binary search.  \<open>low + ((high - low) / 2) | 0\<close> truncates to 32 bits, so for tables of 2^31
  entries and more the loop need not end: the model is partial.
\<close>

partial_function (option) psc_search ::
  "32 word list \<Rightarrow> 32 word list \<Rightarrow> int \<Rightarrow> int \<Rightarrow> int \<Rightarrow> int \<Rightarrow> int option \<Rightarrow> (int \<times> int option) option" where
  "psc_search vs ps target low high mid0 midStart0 =
     (if low \<le> high then
        let mid = js_to_int32 (low + (high - low) div 2)
        in case (js_get ps mid, js_get vs mid) of
             (Some midStop, Some v) \<Rightarrow>
               let midStart = uint midStop - uint v
               in if target < midStart then psc_search vs ps target low (mid - 1) mid (Some midStart)
                  else if target \<ge> uint midStop then psc_search vs ps target (mid + 1) high mid (Some midStart)
                  else Some (mid, Some midStart)
           | _ \<Rightarrow> Some (mid, None)
      else Some (mid0, midStart0))"

definition psc_getIndexOf ::
  "int \<Rightarrow> PrefixSumComputer \<Rightarrow> PrefixSumComputer \<times> PrefixSumIndexOfResult option" where
  "psc_getIndexOf target s =
     (let s' = fst (psc_getTotalSum s)
      in (s', map_option (\<lambda>(mid, midStart).
                \<lparr>ior_index = mid, ior_remainder = map_option (\<lambda>m. target - m) midStart\<rparr>)
              (psc_search (psc_values s') (psc_prefixSum s') target 0
                 (int (length (psc_values s')) - 1) 0 (Some 0))))"

section \<open>ConstantTimePrefixSumComputer\<close>

text \<open>Arrays with holes: a write past the end extends the array; \<open>length = n\<close> cuts or extends it.\<close>

definition js_put :: "'a option list \<Rightarrow> int \<Rightarrow> 'a option \<Rightarrow> 'a option list" where
  "js_put xs i v =
     (if i < 0 then xs
      else if i < int (length xs) then xs[nat i := v]
      else xs @ replicate (nat i - length xs) None @ [v])"

definition js_read :: "'a option list \<Rightarrow> int \<Rightarrow> 'a option" where
  "js_read xs i = (case js_get xs i of None \<Rightarrow> None | Some c \<Rightarrow> c)"

definition js_set_length :: "'a option list \<Rightarrow> int option \<Rightarrow> 'a option list result" where
  "js_set_length xs no =
     (case no of None \<Rightarrow> Throw RangeError
      | Some n \<Rightarrow> if n < 0 \<or> n > MAX_UINT_32 then Throw RangeError
                else Ok (take (nat n) xs @ replicate (nat n - length xs) None))"

record ConstantTimePrefixSumComputer =
  ct_values :: "int option list"
  ct_isValid :: bool
  ct_validEndIndex :: int
  ct_prefixSum :: "int option list"
  ct_indexBySum :: "int option list"

definition new_ConstantTimePrefixSumComputer :: "int list \<Rightarrow> ConstantTimePrefixSumComputer" where
  "new_ConstantTimePrefixSumComputer vs =
     \<lparr>ct_values = map Some vs, ct_isValid = False, ct_validEndIndex = -1,
      ct_prefixSum = [], ct_indexBySum = []\<rparr>"

definition ct_invalidate :: "int \<Rightarrow> ConstantTimePrefixSumComputer \<Rightarrow> ConstantTimePrefixSumComputer" where
  "ct_invalidate index s =
     s\<lparr>ct_isValid := False, ct_validEndIndex := min (ct_validEndIndex s) (index - 1)\<rparr>"

fun ct_fill_index :: "int \<Rightarrow> int \<Rightarrow> nat \<Rightarrow> int option list \<Rightarrow> int option list" where
  "ct_fill_index i at 0 ibs = ibs"
| "ct_fill_index i at (Suc n) ibs = ct_fill_index i (at + 1) n (js_put ibs at (Some i))"

text \<open>
  One iteration of the loop of \<open>_ensureValid\<close>.  A hole in \<open>_values\<close> reads as \<open>undefined\<close>: its
  sum is \<open>NaN\<close> and the inner loop does not run; if the sum above is \<open>NaN\<close>, the inner loop writes
  a property named \<open>NaN\<close>, no array cell.
\<close>

definition ct_fill_step :: "int option list \<Rightarrow> nat \<Rightarrow> int option list \<times> int option list \<Rightarrow>
    int option list \<times> int option list" where
  "ct_fill_step vs i st =
     (case st of (ps, ibs) \<Rightarrow>
        let val = vs ! i;
            sumAbove = (if i > 0 then js_read ps (int i - 1) else Some 0);
            s = (case (sumAbove, val) of (Some a, Some b) \<Rightarrow> Some (a + b) | _ \<Rightarrow> None)
        in (js_put ps (int i) s,
            (case (sumAbove, val) of
               (Some a, Some b) \<Rightarrow> ct_fill_index (int i) a (nat b) ibs
             | _ \<Rightarrow> ibs)))"

text \<open>For a start below 0 the iterations up to 0 read \<open>undefined\<close> and write no array cell.\<close>

definition ct_ensureValid :: "ConstantTimePrefixSumComputer \<Rightarrow> ConstantTimePrefixSumComputer \<times> unit result" where
  "ct_ensureValid s =
     (if ct_isValid s then (s, Ok ())
      else
        let st = nat (ct_validEndIndex s + 1);
            (ps, ibs) = fold (ct_fill_step (ct_values s)) [st ..< length (ct_values s)]
                          (ct_prefixSum s, ct_indexBySum s)
        in case js_set_length ps (Some (int (length (ct_values s)))) of
             Inl e \<Rightarrow> (s\<lparr>ct_prefixSum := ps, ct_indexBySum := ibs\<rparr>, Throw e)
           | Inr ps' \<Rightarrow>
          (case js_set_length ibs (if length (ct_values s) > 0
                                   then js_read ps' (int (length (ct_values s)) - 1) else Some 0) of
             Inl e \<Rightarrow> (s\<lparr>ct_prefixSum := ps', ct_indexBySum := ibs\<rparr>, Throw e)
           | Inr ibs' \<Rightarrow>
             (s\<lparr>ct_prefixSum := ps', ct_indexBySum := ibs', ct_isValid := True,
                ct_validEndIndex := int (length (ct_values s)) - 1\<rparr>, Ok ())))"

definition ct_getTotalSum :: "ConstantTimePrefixSumComputer \<Rightarrow> ConstantTimePrefixSumComputer \<times> int result" where
  "ct_getTotalSum s =
     (case ct_ensureValid s of
        (s', Inl e) \<Rightarrow> (s', Throw e)
      | (s', Inr _) \<Rightarrow> (s', Ok (int (length (ct_indexBySum s')))))"

definition ct_getPrefixSum :: "int \<Rightarrow> ConstantTimePrefixSumComputer \<Rightarrow>
    ConstantTimePrefixSumComputer \<times> int option result" where
  "ct_getPrefixSum cnt s =
     (case ct_ensureValid s of
        (s', Inl e) \<Rightarrow> (s', Throw e)
      | (s', Inr _) \<Rightarrow>
          (s', Ok (if cnt = 0 then Some 0 else js_read (ct_prefixSum s') (cnt - 1))))"

definition ct_getIndexOf :: "int \<Rightarrow> ConstantTimePrefixSumComputer \<Rightarrow>
    ConstantTimePrefixSumComputer \<times> PrefixSumIndexOfResult result" where
  "ct_getIndexOf target s =
     (case ct_ensureValid s of
        (s', Inl e) \<Rightarrow> (s', Throw e)
      | (s', Inr _) \<Rightarrow>
          (s', Ok (case js_read (ct_indexBySum s') target of
             None \<Rightarrow>
               let lastIdx = max 0 (int (length (ct_values s')) - 1);
                   lastPrefixSum = (if lastIdx > 0 then js_read (ct_prefixSum s') (lastIdx - 1) else Some 0)
               in \<lparr>ior_index = lastIdx, ior_remainder = map_option (\<lambda>p. target - p) lastPrefixSum\<rparr>
           | Some idx \<Rightarrow>
               let viewLinesAbove = (if idx > 0 then js_read (ct_prefixSum s') (idx - 1) else Some 0)
               in \<lparr>ior_index = idx, ior_remainder = map_option (\<lambda>p. target - p) viewLinesAbove\<rparr>)))"

definition ct_removeValues :: "int \<Rightarrow> int \<Rightarrow> ConstantTimePrefixSumComputer \<Rightarrow> ConstantTimePrefixSumComputer" where
  "ct_removeValues st deleteCount s =
     ct_invalidate st (s\<lparr>ct_values := js_splice (ct_values s) st deleteCount []\<rparr>)"

definition ct_insertValues :: "int \<Rightarrow> int list \<Rightarrow> ConstantTimePrefixSumComputer \<Rightarrow> ConstantTimePrefixSumComputer" where
  "ct_insertValues insertIndex insertArr s =
     ct_invalidate insertIndex
       (s\<lparr>ct_values := arrayInsert (ct_values s) insertIndex (map Some insertArr)\<rparr>)"

definition ct_setValue :: "int \<Rightarrow> int \<Rightarrow> ConstantTimePrefixSumComputer \<Rightarrow> ConstantTimePrefixSumComputer" where
  "ct_setValue index val s =
     (if js_read (ct_values s) index = Some val then s
      else ct_invalidate index (s\<lparr>ct_values := js_put (ct_values s) index (Some val)\<rparr>))"

end
