(* ===== verification/PrefixSumProofs.thy ===== *)
theory PrefixSumProofs
  imports PrefixSums
begin

text \<open>
  Correctness of the prefix-sum tables of \<open>PrefixSums\<close>: the trusted part of the table holds the
  sums of the values, every operation keeps that and acts on the list of values as the list
  operation it stands for, and the two searches invert the sums.
\<close>

section \<open>PrefixSumComputer: the invariant\<close>

definition psum :: "32 word list \<Rightarrow> nat \<Rightarrow> 32 word" where
  "psum vs k = sum_list (take k vs)"

lemma psum_0 [simp]: "psum vs 0 = 0"
  by (simp add: psum_def)

lemma psum_Suc: "k < length vs \<Longrightarrow> psum vs (Suc k) = psum vs k + vs ! k"
  by (simp add: psum_def take_Suc_conv_app_nth)

lemma psum_all: "length vs \<le> k \<Longrightarrow> psum vs k = sum_list vs"
  by (simp add: psum_def)

lemma psum_prefix: "k \<le> length xs \<Longrightarrow> psum (xs @ ys) k = psum xs k"
  by (simp add: psum_def)

lemma psum_cong: "take k xs = take k ys \<Longrightarrow> psum xs k = psum ys k"
  by (simp add: psum_def)

definition sums_upto :: "32 word list \<Rightarrow> 32 word list \<Rightarrow> int \<Rightarrow> bool" where
  "sums_upto vs ps n \<longleftrightarrow> (\<forall>i. int i \<le> n \<longrightarrow> ps ! i = psum vs (Suc i))"

definition psc_inv :: "PrefixSumComputer \<Rightarrow> bool" where
  "psc_inv s \<longleftrightarrow> length (psc_prefixSum s) = length (psc_values s) \<and>
     int (length (psc_values s)) < 2147483648 \<and>
     -1 \<le> prefixSumValidIndex s \<and> prefixSumValidIndex s < int (length (psc_values s)) \<and>
     sums_upto (psc_values s) (psc_prefixSum s) (prefixSumValidIndex s)"

lemma new_psc_inv: "int (length vs) < 2147483648 \<Longrightarrow> psc_inv (new_PrefixSumComputer vs)"
  by (simp add: psc_inv_def new_PrefixSumComputer_def sums_upto_def)

lemma ta_set_app:
  "length mid = length src \<Longrightarrow> ta_set (pre @ mid @ post) src (int (length pre)) = Ok (pre @ src @ post)"
  by (simp add: ta_set_def)

lemma psc_copy_sums_spec:
  assumes "-1 \<le> prefixSumValidIndex s" "prefixSumValidIndex s < int (length (psc_values s))"
    and "prefixSumValidIndex s < int (length old)" "sums_upto (psc_values s) old (prefixSumValidIndex s)"
    and "int (length (psc_values s)) < 2147483648"
  shows "\<exists>p. psc_copy_sums old s = (s\<lparr>psc_prefixSum := p\<rparr>, Ok True) \<and> psc_inv (s\<lparr>psc_prefixSum := p\<rparr>)"
proof (cases "prefixSumValidIndex s \<ge> 0")
  case False
  with assms(1) have "prefixSumValidIndex s = -1" by simp
  with assms(5) show ?thesis
    by (intro exI [of _ "replicate (length (psc_values s)) 0"])
      (simp add: psc_copy_sums_def psc_inv_def sums_upto_def)
next
  case True
  then obtain n where n: "prefixSumValidIndex s = int n" using nonneg_eq_int by blast
  have sl: "js_slice old 0 (prefixSumValidIndex s + 1) = take (Suc n) old"
    using assms(3) js_slice_take [of "Suc n" old] by (simp add: n add.commute)
  let ?p = "take (Suc n) old @ replicate (length (psc_values s) - Suc n) 0"
  have "ta_set (replicate (length (psc_values s)) 0) (take (Suc n) old) 0 = Ok ?p"
    using assms(2,3) by (simp add: ta_set_def n)
  then have "psc_copy_sums old s = (s\<lparr>psc_prefixSum := ?p\<rparr>, Ok True)"
    using True by (simp add: psc_copy_sums_def sl)
  moreover have "psc_inv (s\<lparr>psc_prefixSum := ?p\<rparr>)"
    using assms by (auto simp: psc_inv_def sums_upto_def n nth_append)
  ultimately show ?thesis by blast
qed

lemma js_to_int32_small: "-1 \<le> x \<Longrightarrow> x < 2147483648 \<Longrightarrow> js_to_int32 x = x"
  by (simp add: js_to_int32_id is_int32_def)

lemma psc_lower_valid_eq:
  assumes "-1 \<le> index - 1" "index - 1 < 2147483648"
  shows "psc_lower_valid index s = s\<lparr>prefixSumValidIndex := min (prefixSumValidIndex s) (index - 1)\<rparr>"
  using assms by (simp add: psc_lower_valid_def js_to_int32_small min_def)

section \<open>PrefixSumComputer: the edits\<close>

lemma insertValues_spec:
  assumes "psc_inv s" "k \<le> length (psc_values s)"
    and "int (length (psc_values s) + length ins) < 2147483648"
  shows "\<exists>s'. psc_insertValues (int k) ins s = (s', Ok (ins \<noteq> [])) \<and> psc_inv s' \<and>
    psc_values s' = take k (psc_values s) @ ins @ drop k (psc_values s)"
proof (cases "ins = []")
  case True
  with assms(1) show ?thesis by (simp add: psc_insertValues_def)
next
  case False
  let ?vs = "psc_values s"
  let ?new = "take k ?vs @ ins @ drop k ?vs"
  have inv: "length (psc_prefixSum s) = length ?vs" "-1 \<le> prefixSumValidIndex s"
    "prefixSumValidIndex s < int (length ?vs)" "sums_upto ?vs (psc_prefixSum s) (prefixSumValidIndex s)"
    using assms(1) by (simp_all add: psc_inv_def)
  have k: "toUint32 (int k) = int k" using assms(2,3) by (intro toUint32_id) auto
  let ?z = "\<lambda>n. replicate n (0 :: 32 word)"
  have s1: "ta_set (?z (length ?vs + length ins)) (js_slice ?vs 0 (int k)) 0 =
      Ok (take k ?vs @ ?z (length ?vs + length ins - k))"
    using assms(2) by (simp add: js_slice_take ta_set_def)
  have s2: "ta_set (take k ?vs @ ?z (length ?vs + length ins - k)) (js_slice ?vs (int k) (int (length ?vs)))
      (int k + int (length ins)) = Ok (take k ?vs @ ?z (length ins) @ drop k ?vs)"
  proof -
    have "length ?vs + length ins - k = length ins + (length ?vs - k)" using assms(2) by simp
    then have z: "?z (length ?vs + length ins - k) = ?z (length ins) @ ?z (length ?vs - k)"
      by (simp add: replicate_add)
    show ?thesis
      using ta_set_app [of "?z (length ?vs - k)" "drop k ?vs" "take k ?vs @ ?z (length ins)" "[]"] assms(2)
      by (simp add: js_slice_drop z min_absorb2)
  qed
  have s3: "ta_set (take k ?vs @ ?z (length ins) @ drop k ?vs) ins (int k) = Ok ?new"
    using ta_set_app [of "?z (length ins)" ins "take k ?vs" "drop k ?vs"] assms(2) by (simp add: min_absorb2)
  let ?v = "min (prefixSumValidIndex s) (int k - 1)"
  let ?s1 = "s\<lparr>psc_values := ?new, prefixSumValidIndex := ?v\<rparr>"
  have "psc_lower_valid (int k) (s\<lparr>psc_values := ?new\<rparr>) = ?s1"
    using psc_lower_valid_eq [of "int k" "s\<lparr>psc_values := ?new\<rparr>"] assms(2,3) by simp
  then have eq: "psc_insertValues (int k) ins s = psc_copy_sums (psc_prefixSum s) ?s1"
    using False by (simp add: psc_insertValues_def Let_def k s1 s2 s3)
  have "sums_upto ?new (psc_prefixSum s) ?v"
    unfolding sums_upto_def
  proof (intro allI impI)
    fix i assume "int i \<le> ?v"
    then have i: "Suc i \<le> k" "int i \<le> prefixSumValidIndex s" by auto
    then have "psc_prefixSum s ! i = psum ?vs (Suc i)" using inv(4) by (simp add: sums_upto_def)
    also have "\<dots> = psum ?new (Suc i)"
      using i(1) assms(2) by (intro psum_cong) (simp add: min_absorb1)
    finally show "psc_prefixSum s ! i = psum ?new (Suc i)" .
  qed
  then have "\<exists>p. psc_copy_sums (psc_prefixSum s) ?s1 = (?s1\<lparr>psc_prefixSum := p\<rparr>, Ok True) \<and>
      psc_inv (?s1\<lparr>psc_prefixSum := p\<rparr>)"
    by (intro psc_copy_sums_spec) (use inv assms(2,3) in simp_all)
  then obtain p where "psc_copy_sums (psc_prefixSum s) ?s1 = (?s1\<lparr>psc_prefixSum := p\<rparr>, Ok True)"
    "psc_inv (?s1\<lparr>psc_prefixSum := p\<rparr>)" by blast
  with eq False show ?thesis by simp
qed


lemma setValue_spec:
  assumes "psc_inv s" "k < length (psc_values s)" "0 \<le> v" "v < 2147483648"
  shows "\<exists>s'. psc_setValue (int k) v s = (s', uint (psc_values s ! k) \<noteq> v) \<and> psc_inv s' \<and>
    psc_values s' = (psc_values s)[k := word_of_int v]"
proof -
  let ?vs = "psc_values s"
  have inv: "length (psc_prefixSum s) = length ?vs" "-1 \<le> prefixSumValidIndex s"
    "int (length ?vs) < 2147483648"
    "prefixSumValidIndex s < int (length ?vs)" "sums_upto ?vs (psc_prefixSum s) (prefixSumValidIndex s)"
    using assms(1) by (simp_all add: psc_inv_def)
  have k: "toUint32 (int k) = int k" using assms(2) inv(3) by (intro toUint32_id) auto
  have v: "toUint32 v = v" using assms(3,4) by (intro toUint32_id)
  have w: "uint (?vs ! k) = v \<longleftrightarrow> ?vs ! k = word_of_int v"
  proof
    assume "?vs ! k = word_of_int v"
    then show "uint (?vs ! k) = v"
      using assms(3,4) by (simp add: uint_word_of_int take_bit_int_eq_self)
  qed (metis word_of_int_uint)
  show ?thesis
  proof (cases "uint (?vs ! k) = v")
    case True
    then have "?vs[k := word_of_int v] = ?vs" unfolding w by (metis list_update_id)
    with True assms(1,2) show ?thesis by (simp add: psc_setValue_def k v js_get_nat)
  next
    case False
    let ?new = "?vs[k := word_of_int v]"
    let ?v = "min (prefixSumValidIndex s) (int k - 1)"
    let ?s1 = "s\<lparr>psc_values := ?new, prefixSumValidIndex := ?v\<rparr>"
    have "psc_lower_valid (int k) (s\<lparr>psc_values := ?new\<rparr>) = ?s1"
      using psc_lower_valid_eq [of "int k" "s\<lparr>psc_values := ?new\<rparr>"] assms(2) inv(3) by simp
    then have "psc_setValue (int k) v s = (?s1, True)"
      using False assms(2) by (simp add: psc_setValue_def k v js_get_nat ta_store_def)
    moreover have "psc_inv ?s1"
    proof -
      have "psc_prefixSum s ! i = psum ?new (Suc i)" if "int i \<le> ?v" for i
      proof -
        from that have i: "Suc i \<le> k" "int i \<le> prefixSumValidIndex s" by auto
        then have "psc_prefixSum s ! i = psum ?vs (Suc i)" using inv(5) by (simp add: sums_upto_def)
        also have "\<dots> = psum ?new (Suc i)" using i(1) by (intro psum_cong) simp
        finally show ?thesis .
      qed
      then show ?thesis using inv by (auto simp: psc_inv_def sums_upto_def)
    qed
    ultimately show ?thesis using False by simp
  qed
qed

lemma removeValues_spec:
  assumes "psc_inv s" "k < length (psc_values s)" "int n < 2147483648"
  shows "\<exists>s'. psc_removeValues (int k) (int n) s = (s', Ok (n \<noteq> 0)) \<and> psc_inv s' \<and>
    psc_values s' = take k (psc_values s) @ drop (k + n) (psc_values s)"
proof (cases "n = 0")
  case True
  moreover have "toUint32 (int k) = int k" using assms(1,2) by (intro toUint32_id) (auto simp: psc_inv_def)
  ultimately show ?thesis using assms(1,2) by (simp add: psc_removeValues_def toUint32_id)
next
  case False
  let ?vs = "psc_values s"
  have inv: "length (psc_prefixSum s) = length ?vs" "-1 \<le> prefixSumValidIndex s"
    "int (length ?vs) < 2147483648"
    "prefixSumValidIndex s < int (length ?vs)" "sums_upto ?vs (psc_prefixSum s) (prefixSumValidIndex s)"
    using assms(1) by (simp_all add: psc_inv_def)
  have k: "toUint32 (int k) = int k" using assms(2) inv(3) by (intro toUint32_id) auto
  have n: "toUint32 (int n) = int n" using assms(3) by (intro toUint32_id) auto
  define c where "c = min n (length ?vs - k)"
  have c: "0 < c" "k + c \<le> length ?vs" "drop (k + c) ?vs = drop (k + n) ?vs"
    using False assms(2) by (auto simp: c_def min_def)
  let ?new = "take k ?vs @ drop (k + c) ?vs"
  have cnt: "(if int n \<ge> int (length ?vs) - int k then int (length ?vs) - int k else int n) = int c"
    using assms(2) by (auto simp: c_def)
  let ?z = "\<lambda>n. replicate n (0 :: 32 word)"
  have len: "nat (int (length ?vs) - int c) = length ?vs - c" using c by linarith
  have s0: "ta_new (int (length ?vs) - int c) = Ok (?z (length ?vs - c))"
    using c by (simp add: ta_new_def len)
  have s1: "ta_set (?z (length ?vs - c)) (js_slice ?vs 0 (int k)) 0 =
      Ok (take k ?vs @ ?z (length ?vs - (k + c)))"
    using c assms(2) by (simp add: js_slice_take ta_set_def add.commute)
  have s2: "ta_set (take k ?vs @ ?z (length ?vs - (k + c)))
      (js_slice ?vs (int k + int c) (int (length ?vs))) (int k) = Ok ?new"
  proof -
    have "js_slice ?vs (int k + int c) (int (length ?vs)) = drop (k + c) ?vs"
      using js_slice_drop [OF c(2)] by simp
    then show ?thesis
      using ta_set_app [of "?z (length ?vs - (k + c))" "drop (k + c) ?vs" "take k ?vs" "[]"] assms(2)
      by (simp add: min_absorb2)
  qed
  let ?v = "min (prefixSumValidIndex s) (int k - 1)"
  let ?s1 = "s\<lparr>psc_values := ?new, prefixSumValidIndex := ?v\<rparr>"
  have "psc_lower_valid (int k) (s\<lparr>psc_values := ?new\<rparr>) = ?s1"
    using psc_lower_valid_eq [of "int k" "s\<lparr>psc_values := ?new\<rparr>"] assms(2) inv(3) by simp
  then have eq: "psc_removeValues (int k) (int n) s = psc_copy_sums (psc_prefixSum s) ?s1"
    using False assms(2) c(1) unfolding psc_removeValues_def k n Let_def cnt s0
    by (simp add: s1 s2)
  have "sums_upto ?new (psc_prefixSum s) ?v"
    unfolding sums_upto_def
  proof (intro allI impI)
    fix i assume "int i \<le> ?v"
    then have i: "Suc i \<le> k" "int i \<le> prefixSumValidIndex s" by auto
    then have "psc_prefixSum s ! i = psum ?vs (Suc i)" using inv(5) by (simp add: sums_upto_def)
    also have "\<dots> = psum ?new (Suc i)"
      using i(1) assms(2) by (intro psum_cong) (simp add: min_absorb1)
    finally show "psc_prefixSum s ! i = psum ?new (Suc i)" .
  qed
  then have "\<exists>p. psc_copy_sums (psc_prefixSum s) ?s1 = (?s1\<lparr>psc_prefixSum := p\<rparr>, Ok True) \<and>
      psc_inv (?s1\<lparr>psc_prefixSum := p\<rparr>)"
    by (intro psc_copy_sums_spec) (use inv assms(2) c in simp_all)
  then obtain p where "psc_copy_sums (psc_prefixSum s) ?s1 = (?s1\<lparr>psc_prefixSum := p\<rparr>, Ok True)"
    "psc_inv (?s1\<lparr>psc_prefixSum := p\<rparr>)" by blast
  with eq False c(3) show ?thesis by simp
qed

lemma removeValues_past_end:
  assumes "psc_inv s" "length (psc_values s) \<le> k" "int k < 2147483648"
  shows "psc_removeValues (int k) n s = (s, Ok False)"
  using assms by (simp add: psc_removeValues_def toUint32_id)

section \<open>PrefixSumComputer: the sums\<close>

lemma psc_fill_spec:
  assumes "length ps = length vs" "1 \<le> i" "int n < int (length vs)" "i \<le> int n + 1"
    and "sums_upto vs ps (i - 1)"
  shows "length (psc_fill vs ps i (int n)) = length vs \<and> sums_upto vs (psc_fill vs ps i (int n)) (int n)"
  using assms
proof (induction vs ps i "int n" rule: psc_fill.induct)
  case (1 vs ps i)
  show ?case
  proof (cases "i \<le> int n")
    case False
    with "1.prems" have "i - 1 = int n" by linarith
    with False "1.prems" show ?thesis by (simp add: psc_fill.simps [of vs ps i])
  next
    case True
    obtain j where j: "i = int (Suc j)" using "1.prems"(2) by (metis nonneg_eq_int Suc_pred' less_nat_zero_code gr0I int_one_le_iff_zero_less of_nat_0_less_iff order_trans zero_le_one)
    have len: "Suc j < length vs" using True "1.prems"(3) j by linarith
    have pj: "ps ! j = psum vs (Suc j)" using "1.prems"(5) j by (simp add: sums_upto_def)
    have get: "js_get ps (i - 1) = Some (ps ! j)" "js_get vs i = Some (vs ! Suc j)"
      using len "1.prems"(1) by (simp_all add: j js_get_def nat_add_distrib)
    define ps' where "ps' = ps[Suc j := psum vs (Suc (Suc j))]"
    have store: "ta_store ps i (ps ! j + vs ! Suc j) = ps'"
      using len "1.prems"(1) psum_Suc [OF len] by (simp add: ta_store_def j pj nat_add_distrib ps'_def)
    have new: "length ps' = length vs" "sums_upto vs ps' (i + 1 - 1)"
      using "1.prems"(1,5) len by (auto simp: sums_upto_def j nth_list_update ps'_def)
    have "length (psc_fill vs ps' (i + 1) (int n)) = length vs \<and>
        sums_upto vs (psc_fill vs ps' (i + 1) (int n)) (int n)"
      using "1.hyps" [OF True] "1.prems"(2,3) True new by (simp add: get store)
    with True show ?thesis by (simp add: psc_fill.simps [of vs ps i] get store)
  qed
qed

lemma getPrefixSum0_spec:
  assumes "psc_inv s" "k < length (psc_values s)"
    and "idx = int k \<or> int k = int (length (psc_values s)) - 1 \<and> idx \<ge> int k"
  shows "\<exists>s'. psc_getPrefixSum0 idx s = (s', Some (uint (psum (psc_values s) (Suc k)))) \<and>
    psc_inv s' \<and> psc_values s' = psc_values s \<and> int k \<le> prefixSumValidIndex s'"
proof -
  let ?vs = "psc_values s" and ?ps = "psc_prefixSum s"
  have inv: "length ?ps = length ?vs" "-1 \<le> prefixSumValidIndex s" "int (length ?vs) < 2147483648"
    "prefixSumValidIndex s < int (length ?vs)" "sums_upto ?vs ?ps (prefixSumValidIndex s)"
    using assms(1) by (simp_all add: psc_inv_def)
  show ?thesis
  proof (cases "idx \<le> prefixSumValidIndex s")
    case True
    then have "idx = int k" using assms(3) inv(4) by linarith
    with True inv assms(1,2) show ?thesis
      by (simp add: psc_getPrefixSum0_def js_get_nat sums_upto_def)
  next
    case False
    define start0 where "start0 = prefixSumValidIndex s + 1"
    define ps0 where "ps0 = (if start0 = 0
        then ta_store ?ps 0 (case js_get ?vs 0 of Some v \<Rightarrow> v | None \<Rightarrow> 0) else ?ps)"
    define startIndex where "startIndex = (if start0 = 0 then start0 + 1 else start0)"
    have index: "(if idx \<ge> int (length ?vs) then int (length ?vs) - 1 else idx) = int k"
      using assms(2,3) by auto
    have v0: "?vs ! 0 = psum ?vs (Suc 0)" using assms(2) psum_Suc [of 0 ?vs] by (cases ?vs) auto
    have ps0: "length ps0 = length ?vs" "sums_upto ?vs ps0 (startIndex - 1)"
      using inv assms(2) v0 by (auto simp: ps0_def startIndex_def start0_def sums_upto_def ta_store_def js_get_def)
    have start: "1 \<le> startIndex" "startIndex \<le> int k + 1"
      using inv False assms(2,3) by (auto simp: startIndex_def start0_def)
    let ?f = "psc_fill ?vs ps0 startIndex (int k)"
    have f: "length ?f = length ?vs" "sums_upto ?vs ?f (int k)"
      using psc_fill_spec [OF ps0(1) start(1) _ start(2) ps0(2)] assms(2) by auto
    have mx: "js_to_int32 (max (prefixSumValidIndex s) (int k)) = int k"
    proof -
      have "max (prefixSumValidIndex s) (int k) = int k"
        using False inv(2) assms(2,3) inv(4) by auto
      with assms(2) inv(3) show ?thesis by (simp add: js_to_int32_small)
    qed
    have eq: "psc_getPrefixSum0 idx s =
        (s\<lparr>psc_prefixSum := ?f, prefixSumValidIndex := int k\<rparr>, map_option uint (js_get ?f (int k)))"
      unfolding psc_getPrefixSum0_def if_not_P [OF False] Let_def index start0_def [symmetric]
        ps0_def [symmetric] startIndex_def [symmetric] mx by (rule refl)
    have "js_get ?f (int k) = Some (psum ?vs (Suc k))"
      using f assms(2) by (simp add: js_get_nat sums_upto_def)
    with eq f assms(2) inv(3) show ?thesis by (simp add: psc_inv_def)
  qed
qed

lemma getPrefixSum_spec:
  assumes "psc_inv s" "psc_values s \<noteq> []" "0 \<le> idx" "idx < 2147483648"
  shows "\<exists>s'. psc_getPrefixSum idx s = (s', Some (uint (psum (psc_values s) (nat idx + 1)))) \<and>
    psc_inv s' \<and> psc_values s' = psc_values s"
proof -
  define k where "k = min (nat idx) (length (psc_values s) - 1)"
  have "psum (psc_values s) (nat idx + 1) = psum (psc_values s) (Suc k)"
    by (cases "nat idx \<le> length (psc_values s) - 1") (auto simp: k_def min_def psum_def)
  moreover have "k < length (psc_values s)" using assms(2) by (cases "psc_values s") (auto simp: k_def)
  moreover have "idx = int k \<or> int k = int (length (psc_values s)) - 1 \<and> idx \<ge> int k"
    using assms(2,3) by (cases "psc_values s") (auto simp: k_def min_def)
  ultimately show ?thesis
    using getPrefixSum0_spec [OF assms(1), of k idx] assms(3,4)
    by (auto simp: psc_getPrefixSum_def toUint32_id)
qed

lemma getTotalSum_spec:
  assumes "psc_inv s"
  shows "\<exists>s'. psc_getTotalSum s = (s', Some (uint (sum_list (psc_values s)))) \<and>
    psc_inv s' \<and> psc_values s' = psc_values s \<and>
    sums_upto (psc_values s) (psc_prefixSum s') (int (length (psc_values s)) - 1)"
proof (cases "psc_values s")
  case Nil
  with assms show ?thesis by (simp add: psc_getTotalSum_def sums_upto_def)
next
  case (Cons v vs)
  with getPrefixSum0_spec [OF assms, of "length vs" "int (length (psc_values s)) - 1"]
  obtain s' where s': "psc_getTotalSum s = (s', Some (uint (psum (psc_values s) (Suc (length vs)))))"
    "psc_inv s'" "psc_values s' = psc_values s" "int (length vs) \<le> prefixSumValidIndex s'"
    by (auto simp: psc_getTotalSum_def)
  with Cons show ?thesis by (auto simp: psum_all psc_inv_def sums_upto_def)
qed

section \<open>PrefixSumComputer: the search\<close>

definition isum :: "32 word list \<Rightarrow> nat \<Rightarrow> int" where
  "isum vs k = sum_list (map uint (take k vs))"

lemma isum_Suc: "k < length vs \<Longrightarrow> isum vs (Suc k) = isum vs k + uint (vs ! k)"
  by (simp add: isum_def take_Suc_conv_app_nth)

lemma isum_mono: "k \<le> m \<Longrightarrow> isum vs k \<le> isum vs m"
proof (induction m)
  case (Suc m)
  show ?case
  proof (cases "k = Suc m")
    case False
    have "isum vs m \<le> isum vs (Suc m)"
      by (cases "m < length vs") (simp add: isum_Suc, simp add: isum_def)
    with False Suc show ?thesis by simp
  qed simp
qed simp

lemma uint_sum_list: "uint (sum_list (ws :: 32 word list)) = sum_list (map uint ws) mod 4294967296"
  by (induction ws) (simp_all add: uint_word_ariths mod_add_right_eq)

lemma uint_psum:
  assumes "sum_list (map uint vs) < 4294967296"
  shows "uint (psum vs k) = isum vs k"
proof -
  have "0 \<le> isum vs k" by (auto simp: isum_def intro!: sum_list_nonneg)
  moreover have "isum vs k \<le> isum vs (max k (length vs))" by (rule isum_mono) simp
  moreover have "isum vs (max k (length vs)) = sum_list (map uint vs)" by (simp add: isum_def)
  ultimately show ?thesis
    using assms by (simp add: psum_def isum_def uint_sum_list)
qed

definition is_index_of :: "32 word list \<Rightarrow> int \<Rightarrow> nat \<Rightarrow> bool" where
  "is_index_of vs target k \<longleftrightarrow> k < length vs \<and> (k = 0 \<or> isum vs k \<le> target) \<and>
     (k = length vs - 1 \<or> target < isum vs (Suc k))"

lemma psc_search_spec:
  assumes "length ps = length vs" "int (length vs) < 2147483648" "vs \<noteq> []"
    and "sums_upto vs ps (int (length vs) - 1)" "sum_list (map uint vs) < 4294967296"
    and "0 \<le> low" "low \<le> high + 1" "high < int (length vs)"
    and "low = 0 \<or> isum vs (nat low) \<le> target"
    and "high = int (length vs) - 1 \<or> target < isum vs (nat (high + 1))"
    and "low \<le> high \<or> (mid0 = low - 1 \<or> mid0 = high + 1) \<and> 0 \<le> mid0 \<and> mid0 < int (length vs) \<and>
           midStart0 = Some (isum vs (nat mid0))"
  shows "\<exists>k. psc_search vs ps target low high mid0 midStart0 = Some (int k, Some (isum vs k)) \<and>
    is_index_of vs target k"
  using assms(6-)
proof (induction "nat (high + 1 - low)" arbitrary: low high mid0 midStart0 rule: less_induct)
  case less
  note p = less.prems
  show ?case
  proof (cases "low \<le> high")
    case False
    with p(2) have eq: "low = high + 1" by simp
    from False have res: "psc_search vs ps target low high mid0 midStart0 = Some (mid0, midStart0)"
      by (simp add: psc_search.simps)
    have mid: "mid0 = low - 1 \<or> mid0 = low" "0 \<le> mid0" "mid0 < int (length vs)"
      "midStart0 = Some (isum vs (nat mid0))"
      using p(6) False eq by auto
    have res': "psc_search vs ps target low high mid0 midStart0 =
        Some (int (nat mid0), Some (isum vs (nat mid0)))" using mid res by simp
    have lt: "nat mid0 < length vs" using mid(2,3) by simp
    consider "low = 0" "target < isum vs 0" | "low = int (length vs)" | "low = 0" "length vs = 0"
      using p(1,3,4,5) eq by fastforce
    then have "is_index_of vs target (nat mid0)"
    proof cases
      case 1
      then have "mid0 = 0" using mid by auto
      moreover have "target < isum vs (Suc 0)" using 1(2) isum_mono [of 0 "Suc 0" vs] by simp
      ultimately show ?thesis using lt by (simp add: is_index_of_def)
    next
      case 2
      then have m: "mid0 = int (length vs) - 1" using mid by auto
      then have n: "nat mid0 = length vs - 1" by simp
      have "isum vs (length vs) \<le> target" using p(4) 2 assms(3) by simp
      then have "isum vs (nat mid0) \<le> target"
        using isum_mono [of "length vs - 1" "length vs" vs] unfolding n by simp
      with lt n show ?thesis by (simp add: is_index_of_def)
    qed (use assms(3) in simp)
    with res' show ?thesis by blast
  next
    case True
    define mid where "mid = low + (high - low) div 2"
    have mid: "low \<le> mid" "mid \<le> high" using True by (auto simp: mid_def)
    have m32: "js_to_int32 (low + (high - low) div 2) = mid"
      using mid p(1,3) assms(2) by (simp add: js_to_int32_small flip: mid_def)
    obtain k where k: "mid = int k" "k < length vs" using mid p(1,3) by (metis nonneg_int_cases order.trans le_less_trans of_nat_less_iff)
    have get: "js_get ps mid = Some (psum vs (Suc k))" "js_get vs mid = Some (vs ! k)"
      using k assms(1,4) by (simp_all add: js_get_nat sums_upto_def)
    have stop: "uint (psum vs (Suc k)) = isum vs (Suc k)" by (rule uint_psum [OF assms(5)])
    have start: "isum vs (Suc k) - uint (vs ! k) = isum vs k" by (simp add: isum_Suc k(2))
    have step: "psc_search vs ps target low high mid0 midStart0 =
        (if target < isum vs k then psc_search vs ps target low (mid - 1) mid (Some (isum vs k))
         else if target \<ge> isum vs (Suc k) then psc_search vs ps target (mid + 1) high mid (Some (isum vs k))
         else Some (mid, Some (isum vs k)))"
      using True by (subst psc_search.simps) (simp add: m32 get stop start Let_def)
    consider "target < isum vs k" | "isum vs (Suc k) \<le> target" "\<not> target < isum vs k"
      | "isum vs k \<le> target" "target < isum vs (Suc k)" by linarith
    then show ?thesis
    proof cases
      case 1
      have "\<exists>k'. psc_search vs ps target low (mid - 1) mid (Some (isum vs k)) = Some (int k', Some (isum vs k')) \<and>
          is_index_of vs target k'"
        using 1 mid p k by (intro less.hyps) auto
      with step 1 show ?thesis by simp
    next
      case 2
      have "\<exists>k'. psc_search vs ps target (mid + 1) high mid (Some (isum vs k)) = Some (int k', Some (isum vs k')) \<and>
          is_index_of vs target k'"
        using 2 mid p k by (intro less.hyps) (auto simp: nat_add_distrib)
      with step 2 show ?thesis by simp
    next
      case 3
      with step k show ?thesis by (auto simp: is_index_of_def)
    qed
  qed
qed

lemma getIndexOf_spec:
  assumes "psc_inv s" "psc_values s \<noteq> []" "sum_list (map uint (psc_values s)) < 4294967296"
  shows "\<exists>s' k. psc_getIndexOf target s =
      (s', Some \<lparr>ior_index = int k, ior_remainder = Some (target - isum (psc_values s) k)\<rparr>) \<and>
    psc_inv s' \<and> psc_values s' = psc_values s \<and> is_index_of (psc_values s) target k"
proof -
  obtain s' where s': "fst (psc_getTotalSum s) = s'" "psc_inv s'" "psc_values s' = psc_values s"
    "sums_upto (psc_values s) (psc_prefixSum s') (int (length (psc_values s)) - 1)"
    using getTotalSum_spec [OF assms(1)] by auto
  have "\<exists>k. psc_search (psc_values s) (psc_prefixSum s') target 0 (int (length (psc_values s)) - 1) 0 (Some 0) =
      Some (int k, Some (isum (psc_values s) k)) \<and> is_index_of (psc_values s) target k"
  proof (rule psc_search_spec)
    show "0 \<le> int (length (psc_values s)) - 1 \<or> (0 = (0 :: int) - 1 \<or> 0 = int (length (psc_values s)) - 1 + 1) \<and>
        0 \<le> (0 :: int) \<and> 0 < int (length (psc_values s)) \<and> Some 0 = Some (isum (psc_values s) (nat 0))"
      using assms(2) by (cases "psc_values s") auto
  qed (use assms s' in \<open>auto simp: psc_inv_def\<close>)
  with s' show ?thesis by (auto simp: psc_getIndexOf_def)
qed

lemma getIndexOf_empty:
  assumes "psc_values s = []"
  shows "psc_getIndexOf target s = (s, Some \<lparr>ior_index = 0, ior_remainder = Some target\<rparr>)"
  using assms by (simp add: psc_getIndexOf_def psc_getTotalSum_def psc_search.simps)

end
