(* ===== verification/PrefixSumStores.thy ===== *)
theory PrefixSumStores
  imports PrefixSumProofs
begin

text \<open>
  Correctness of \<open>ConstantTimePrefixSumComputer\<close>, and the contract both prefix-sum tables of
  \<open>prefixSumComputer.ts\<close> satisfy: \<open>prefix_sum_store\<close> states it over a list of values, and its
  lemmas say what a sequence of edits followed by a query returns, whatever the table.
\<close>

section \<open>ConstantTimePrefixSumComputer: the trusted part\<close>

definition zsum :: "int list \<Rightarrow> nat \<Rightarrow> int" where
  "zsum vs k = sum_list (take k vs)"

lemma zsum_0 [simp]: "zsum vs 0 = 0"
  by (simp add: zsum_def)

lemma zsum_Suc: "k < length vs \<Longrightarrow> zsum vs (Suc k) = zsum vs k + vs ! k"
  by (simp add: zsum_def take_Suc_conv_app_nth)

lemma zsum_all: "length vs \<le> k \<Longrightarrow> zsum vs k = sum_list vs"
  by (simp add: zsum_def)

lemma zsum_cong: "take k xs = take k ys \<Longrightarrow> zsum xs k = zsum ys k"
  by (simp add: zsum_def)

lemma zsum_mono:
  assumes "\<forall>v \<in> set vs. 0 \<le> v" "k \<le> m"
  shows "zsum vs k \<le> zsum vs m"
  using assms(2)
proof (induction m)
  case (Suc m)
  show ?case
  proof (cases "k = Suc m")
    case False
    have "zsum vs m \<le> zsum vs (Suc m)"
    proof (cases "m < length vs")
      case True
      then have "0 \<le> vs ! m" using assms(1) by simp
      with True show ?thesis by (simp add: zsum_Suc)
    qed (simp add: zsum_def)
    with False Suc show ?thesis by simp
  qed simp
qed simp

lemma zsum_nonneg: "\<forall>v \<in> set vs. 0 \<le> v \<Longrightarrow> 0 \<le> zsum vs k"
  using zsum_mono [of vs 0 k] by simp

definition trusted :: "int list \<Rightarrow> int option list \<Rightarrow> int option list \<Rightarrow> nat \<Rightarrow> bool" where
  "trusted vs ps ibs m \<longleftrightarrow> m \<le> length vs \<and> m \<le> length ps \<and>
     (\<forall>i<m. ps ! i = Some (zsum vs (Suc i))) \<and> zsum vs m \<le> int (length ibs) \<and>
     (\<forall>i<m. \<forall>t. zsum vs i \<le> int t \<and> int t < zsum vs (Suc i) \<longrightarrow> ibs ! t = Some (int i))"

lemma js_put_nat: "k \<le> length xs \<Longrightarrow>
    js_put xs (int k) v = (if k < length xs then xs[k := v] else xs @ [v])"
  by (simp add: js_put_def)

lemma nth_js_put: "k \<le> length xs \<Longrightarrow> i < max (length xs) (Suc k) \<Longrightarrow>
    js_put xs (int k) v ! i = (if i = k then v else xs ! i)"
  by (auto simp: js_put_nat nth_append)

lemma length_js_put: "k \<le> length xs \<Longrightarrow> length (js_put xs (int k) v) = max (length xs) (Suc k)"
  by (auto simp: js_put_nat)

lemma ct_fill_index_spec:
  "a \<le> length ibs \<Longrightarrow>
   length (ct_fill_index i (int a) n ibs) = max (length ibs) (a + n) \<and>
   (\<forall>t < max (length ibs) (a + n). ct_fill_index i (int a) n ibs ! t =
      (if a \<le> t \<and> t < a + n then Some i else ibs ! t))"
proof (induction n arbitrary: a ibs)
  case (Suc n)
  let ?ibs = "js_put ibs (int a) (Some i)"
  have eq: "ct_fill_index i (int a) (Suc n) ibs = ct_fill_index i (int (Suc a)) n ?ibs"
    by (simp add: add.commute)
  have len: "Suc a \<le> length ?ibs" "length ?ibs = max (length ibs) (Suc a)"
    using Suc.prems by (simp_all add: length_js_put)
  show ?case
    unfolding eq using Suc.IH [OF len(1)] Suc.prems by (auto simp: len(2) nth_js_put)
qed auto

lemma ct_fill_step_trusted:
  assumes "trusted vs ps ibs m" "m < length vs" "\<forall>v \<in> set vs. 0 \<le> v"
  obtains ps' ibs' where "ct_fill_step (map Some vs) m (ps, ibs) = (ps', ibs')"
    "trusted vs ps' ibs' (Suc m)"
proof -
  note t = assms(1) [unfolded trusted_def]
  have v: "0 \<le> vs ! m" using assms(2,3) by simp
  obtain a where a: "zsum vs m = int a" using zsum_nonneg [OF assms(3)] by (metis nonneg_int_cases)
  have above: "(if m > 0 then js_read ps (int m - 1) else Some 0) = Some (int a)"
  proof (cases m)
    case (Suc k)
    then have "js_read ps (int m - 1) = ps ! k"
      using t by (simp add: js_read_def js_get_def)
    with Suc t a show ?thesis by auto
  qed (use a in simp)
  let ?ps = "js_put ps (int m) (Some (int a + vs ! m))"
  let ?ibs = "ct_fill_index (int m) (int a) (nat (vs ! m)) ibs"
  have "ct_fill_step (map Some vs) m (ps, ibs) = (?ps, ?ibs)"
    unfolding ct_fill_step_def by (simp only: prod.case Let_def above) (simp add: assms(2))
  moreover have "trusted vs ?ps ?ibs (Suc m)"
  proof -
    have al: "a \<le> length ibs" using t a by linarith
    note f = ct_fill_index_spec [OF al, of "int m" "nat (vs ! m)"]
    have z: "zsum vs (Suc m) = int (a + nat (vs ! m))" using v a assms(2) by (simp add: zsum_Suc)
    have p: "length ?ps = max (length ps) (Suc m)" "\<forall>i < Suc m. ?ps ! i = Some (zsum vs (Suc i))"
      using t a assms(2) by (auto simp: length_js_put nth_js_put less_Suc_eq zsum_Suc)
    have "?ibs ! j = Some (int i)" if "i < Suc m" "zsum vs i \<le> int j" "int j < zsum vs (Suc i)" for i j
    proof (cases "i = m")
      case True
      with that z a have "int a \<le> int j" "int j < int (a + nat (vs ! m))" by simp_all
      then have "a \<le> j" "j < a + nat (vs ! m)" by (simp only: of_nat_le_iff of_nat_less_iff)+
      with True f show ?thesis by simp
    next
      case False
      with that have i: "i < m" by simp
      have "zsum vs (Suc i) \<le> zsum vs m" by (rule zsum_mono [OF assms(3)]) (use i in simp)
      with that(3) a al have "j < a" "j < max (length ibs) (a + nat (vs ! m))" by auto
      with f have "?ibs ! j = ibs ! j" by auto
      with t i that(2,3) show ?thesis by simp
    qed
    with f z p assms(2) show ?thesis unfolding trusted_def by auto
  qed
  ultimately show ?thesis by (rule that)
qed

lemma ct_fill_trusted:
  assumes "trusted vs ps ibs m" "\<forall>v \<in> set vs. 0 \<le> v"
  shows "\<exists>ps' ibs'. fold (ct_fill_step (map Some vs)) [m ..< length vs] (ps, ibs) = (ps', ibs') \<and>
    trusted vs ps' ibs' (length vs)"
  using assms(1)
proof (induction "length vs - m" arbitrary: m ps ibs)
  case 0
  then have "m = length vs" by (simp add: trusted_def)
  with 0 show ?case by simp
next
  case (Suc d)
  then have m: "m < length vs" by simp
  obtain ps1 ibs1 where s: "ct_fill_step (map Some vs) m (ps, ibs) = (ps1, ibs1)"
    "trusted vs ps1 ibs1 (Suc m)" using ct_fill_step_trusted [OF Suc.prems m assms(2)] .
  have "d = length vs - Suc m" using Suc.hyps(2) by simp
  from Suc.hyps(1) [OF this s(2)] s(1) m show ?case by (simp add: upt_conv_Cons)
qed

definition ct_list :: "ConstantTimePrefixSumComputer \<Rightarrow> int list" where
  "ct_list s = map the (ct_values s)"

definition ct_fits :: "int list \<Rightarrow> bool" where
  "ct_fits vs \<longleftrightarrow> (\<forall>v \<in> set vs. 0 \<le> v) \<and> sum_list vs \<le> MAX_UINT_32 \<and> int (length vs) \<le> MAX_UINT_32"

definition ct_inv :: "ConstantTimePrefixSumComputer \<Rightarrow> bool" where
  "ct_inv s \<longleftrightarrow> ct_values s = map Some (ct_list s) \<and> ct_fits (ct_list s) \<and>
     -1 \<le> ct_validEndIndex s \<and> ct_validEndIndex s < int (length (ct_list s)) \<and>
     trusted (ct_list s) (ct_prefixSum s) (ct_indexBySum s) (nat (ct_validEndIndex s + 1)) \<and>
     (ct_isValid s \<longrightarrow> ct_validEndIndex s = int (length (ct_list s)) - 1 \<and>
        int (length (ct_indexBySum s)) = sum_list (ct_list s))"

lemma new_ct_inv: "ct_fits vs \<Longrightarrow> ct_inv (new_ConstantTimePrefixSumComputer vs)"
  by (simp add: ct_inv_def new_ConstantTimePrefixSumComputer_def ct_list_def trusted_def comp_def)

lemma js_set_length_take:
  "0 \<le> n \<Longrightarrow> n \<le> MAX_UINT_32 \<Longrightarrow> n \<le> int (length xs) \<Longrightarrow> js_set_length xs (Some n) = Ok (take (nat n) xs)"
  by (simp add: js_set_length_def)

lemma trusted_take:
  "trusted vs ps ibs (length vs) \<Longrightarrow> \<forall>v \<in> set vs. 0 \<le> v \<Longrightarrow>
   trusted vs (take (length vs) ps) (take (nat (sum_list vs)) ibs) (length vs)"
  unfolding trusted_def using zsum_mono [of vs _ "length vs"] zsum_nonneg [of vs "length vs"]
  by (auto simp: zsum_all) (smt (verit) Suc_leI nat_less_iff nth_take of_nat_0_le_iff zsum_all order_refl zless_nat_eq_int_zless)

lemma ct_ensureValid_spec:
  assumes "ct_inv s"
  shows "\<exists>s'. ct_ensureValid s = (s', Ok ()) \<and> ct_inv s' \<and> ct_isValid s' \<and> ct_values s' = ct_values s"
proof (cases "ct_isValid s")
  case True
  with assms show ?thesis by (simp add: ct_ensureValid_def)
next
  case False
  let ?vs = "ct_list s"
  have inv: "ct_values s = map Some ?vs" "\<forall>v \<in> set ?vs. 0 \<le> v" "sum_list ?vs \<le> MAX_UINT_32"
    "int (length ?vs) \<le> MAX_UINT_32"
    "trusted ?vs (ct_prefixSum s) (ct_indexBySum s) (nat (ct_validEndIndex s + 1))"
    using assms by (auto simp: ct_inv_def ct_fits_def)
  have len: "length (ct_values s) = length ?vs" by (simp add: ct_list_def)
  obtain ps ibs where f: "fold (ct_fill_step (ct_values s)) [nat (ct_validEndIndex s + 1) ..< length ?vs]
      (ct_prefixSum s, ct_indexBySum s) = (ps, ibs)" "trusted ?vs ps ibs (length ?vs)"
    using ct_fill_trusted [OF inv(5,2)] inv(1) by auto
  let ?ps = "take (length ?vs) ps" and ?ibs = "take (nat (sum_list ?vs)) ibs"
  have tot: "0 \<le> sum_list ?vs" "sum_list ?vs \<le> int (length ibs)"
    using zsum_nonneg [OF inv(2), of "length ?vs"] f(2) by (simp_all add: zsum_all trusted_def)
  have l1: "js_set_length ps (Some (int (length ?vs))) = Ok ?ps"
    using f(2) inv(4) js_set_length_take [of "int (length ?vs)" ps] by (simp add: trusted_def)
  have last: "(if length ?vs > 0 then js_read ?ps (int (length ?vs) - 1) else Some 0) = Some (sum_list ?vs)"
  proof (cases "?vs = []")
    case False
    then obtain k where k: "length ?vs = Suc k" by (cases ?vs) auto
    have "js_read ?ps (int (length ?vs) - 1) = ps ! k"
      using f(2) k by (simp add: js_read_def js_get_def trusted_def)
    also have "\<dots> = Some (sum_list ?vs)"
      using f(2) k zsum_all [of ?vs "Suc k"] by (simp add: trusted_def)
    finally show ?thesis using k by simp
  qed simp
  have l2: "js_set_length ibs (Some (sum_list ?vs)) = Ok ?ibs"
    using tot inv(3) by (simp add: js_set_length_take)
  let ?s = "s\<lparr>ct_prefixSum := ?ps, ct_indexBySum := ?ibs, ct_isValid := True,
     ct_validEndIndex := int (length ?vs) - 1\<rparr>"
  have "ct_ensureValid s = (?s, Ok ())"
    unfolding ct_ensureValid_def if_not_P [OF False] Let_def len f(1) prod.case l1 sum.case last l2
    by (rule refl)
  moreover have "ct_list ?s = ?vs" by (simp add: ct_list_def)
  moreover have "trusted ?vs ?ps ?ibs (length ?vs)" by (rule trusted_take [OF f(2) inv(2)])
  moreover have "int (length ?ibs) = sum_list ?vs" using tot by simp
  ultimately show ?thesis
    using assms by (intro exI [of _ ?s]) (auto simp: ct_inv_def)
qed

section \<open>ConstantTimePrefixSumComputer: queries\<close>

definition is_sum_index :: "int list \<Rightarrow> int \<Rightarrow> nat \<Rightarrow> bool" where
  "is_sum_index vs t k \<longleftrightarrow>
     (if t < sum_list vs then k < length vs \<and> zsum vs k \<le> t \<and> t < zsum vs (Suc k)
      else k = length vs - 1)"

text \<open>The item a sum falls into is unique: the sums grow.\<close>

lemma is_sum_index_unique:
  assumes "\<forall>v \<in> set vs. 0 \<le> v" "is_sum_index vs t k" "is_sum_index vs t m"
  shows "k = m"
proof (cases "t < sum_list vs")
  case True
  have "\<not> Suc i \<le> j" if "zsum vs j \<le> t" "t < zsum vs (Suc i)" for i j
    using zsum_mono [OF assms(1), of "Suc i" j] that by linarith
  with True assms(2,3) have "\<not> Suc k \<le> m" "\<not> Suc m \<le> k" by (auto simp: is_sum_index_def)
  then show ?thesis by simp
qed (use assms(2,3) in \<open>simp add: is_sum_index_def\<close>)

lemma exists_sum_index:
  assumes "0 \<le> t" "t < sum_list vs"
  shows "\<exists>k < length vs. zsum vs k \<le> t \<and> t < zsum vs (Suc k)"
proof -
  let ?P = "\<lambda>k. t < zsum vs k"
  have ex: "?P (length vs)" using assms(2) by (simp add: zsum_all)
  define k where "k = (LEAST k. ?P k)"
  have k: "?P k" "k \<le> length vs" "\<And>j. j < k \<Longrightarrow> \<not> ?P j"
    unfolding k_def using ex by (auto intro: LeastI Least_le dest: not_less_Least)
  with assms(1) obtain j where "k = Suc j" by (cases k) auto
  with k show ?thesis by (intro exI [of _ j]) (auto simp: not_less)
qed

lemma ct_getTotalSum_spec:
  assumes "ct_inv s"
  shows "\<exists>s'. ct_getTotalSum s = (s', Ok (sum_list (ct_list s))) \<and> ct_inv s' \<and> ct_list s' = ct_list s"
proof -
  obtain s' where "ct_ensureValid s = (s', Ok ())" "ct_inv s'" "ct_isValid s'" "ct_values s' = ct_values s"
    using ct_ensureValid_spec [OF assms] by blast
  then show ?thesis by (auto simp: ct_getTotalSum_def ct_inv_def ct_list_def)
qed

lemma ct_prefix_read:
  assumes "ct_inv s" "ct_isValid s" "0 < k" "k \<le> length (ct_list s)"
  shows "js_read (ct_prefixSum s) (int k - 1) = Some (zsum (ct_list s) k)"
proof -
  obtain j where j: "k = Suc j" using assms(3) by (cases k) auto
  have "nat (ct_validEndIndex s + 1) = length (ct_list s)" using assms(1,2) by (simp add: ct_inv_def)
  then have "trusted (ct_list s) (ct_prefixSum s) (ct_indexBySum s) (length (ct_list s))"
    using assms(1) by (simp add: ct_inv_def)
  with j assms(4) show ?thesis by (simp add: trusted_def js_read_def js_get_def)
qed

lemma ct_getPrefixSum_spec:
  assumes "ct_inv s" "k \<le> length (ct_list s)"
  shows "\<exists>s'. ct_getPrefixSum (int k) s = (s', Ok (Some (zsum (ct_list s) k))) \<and>
    ct_inv s' \<and> ct_list s' = ct_list s"
proof -
  obtain s' where s': "ct_ensureValid s = (s', Ok ())" "ct_inv s'" "ct_isValid s'" "ct_list s' = ct_list s"
    using ct_ensureValid_spec [OF assms(1)] by (auto simp: ct_list_def)
  then show ?thesis
    using ct_prefix_read [of s' k] assms(2) by (cases "k = 0") (auto simp: ct_getPrefixSum_def)
qed

lemma ct_getIndexOf_spec:
  assumes "ct_inv s" "0 \<le> t" "ct_list s \<noteq> []"
  shows "\<exists>s' k. ct_getIndexOf t s =
      (s', Ok \<lparr>ior_index = int k, ior_remainder = Some (t - zsum (ct_list s) k)\<rparr>) \<and>
    ct_inv s' \<and> ct_list s' = ct_list s \<and> is_sum_index (ct_list s) t k"
proof -
  let ?vs = "ct_list s"
  obtain s' where s': "ct_ensureValid s = (s', Ok ())" "ct_inv s'" "ct_isValid s'" "ct_list s' = ct_list s"
    "ct_values s' = ct_values s"
    using ct_ensureValid_spec [OF assms(1)] by (auto simp: ct_list_def)
  have above: "(if int k > 0 then js_read (ct_prefixSum s') (int k - 1) else Some 0) = Some (zsum ?vs k)"
    if "k \<le> length ?vs" for k
    using ct_prefix_read [OF s'(2,3), of k] that s'(4) by (cases "k = 0") auto
  have len: "int (length (ct_indexBySum s')) = sum_list ?vs"
    "trusted ?vs (ct_prefixSum s') (ct_indexBySum s') (length ?vs)"
    using s' by (auto simp: ct_inv_def)
  show ?thesis
  proof (cases "t < sum_list ?vs")
    case True
    obtain k where k: "k < length ?vs" "zsum ?vs k \<le> t" "t < zsum ?vs (Suc k)"
      using exists_sum_index [OF assms(2) True] by blast
    have "ct_indexBySum s' ! nat t = Some (int k)"
      using len(2) k assms(2) by (simp add: trusted_def)
    then have "js_read (ct_indexBySum s') t = Some (int k)"
      using True len(1) assms(2) by (simp add: js_read_def js_get_def)
    then have "ct_getIndexOf t s = (s', Ok \<lparr>ior_index = int k, ior_remainder = Some (t - zsum ?vs k)\<rparr>)"
      unfolding ct_getIndexOf_def s'(1) prod.case sum.case option.case Let_def
      using above [of k] k(1) by simp
    with s' k True show ?thesis by (auto simp: is_sum_index_def)
  next
    case False
    then have none: "js_read (ct_indexBySum s') t = None"
      using len(1) by (simp add: js_read_def js_get_def)
    have last: "max 0 (int (length (ct_values s')) - 1) = int (length ?vs - 1)"
      using assms(3) s'(5) by (cases ?vs) (auto simp: ct_list_def)
    have "ct_getIndexOf t s = (s', Ok \<lparr>ior_index = int (length ?vs - 1),
        ior_remainder = Some (t - zsum ?vs (length ?vs - 1))\<rparr>)"
      unfolding ct_getIndexOf_def s'(1) prod.case sum.case none option.case Let_def last
      by (subst above) auto
    with s' False show ?thesis by (auto simp: is_sum_index_def)
  qed
qed

section \<open>ConstantTimePrefixSumComputer: edits\<close>

lemma trusted_change:
  assumes "trusted vs ps ibs m" "n \<le> m" "take n vs = take n ws" "n \<le> length ws" "\<forall>v \<in> set vs. 0 \<le> v"
  shows "trusted ws ps ibs n"
proof -
  have z: "zsum ws i = zsum vs i" if "i \<le> n" for i
    using that assms(3) by (intro zsum_cong) (metis min_absorb1 take_take)
  have "zsum vs n \<le> zsum vs m" by (rule zsum_mono [OF assms(5,2)])
  with assms z show ?thesis by (auto simp: trusted_def)
qed

lemma ct_invalidate_inv:
  assumes "ct_inv s" "take k (ct_list s) = take k ws" "k \<le> length ws" "ct_fits ws"
    and "s' = ct_invalidate (int k) (s\<lparr>ct_values := map Some ws\<rparr>)"
  shows "ct_inv s' \<and> ct_list s' = ws"
proof -
  have l: "ct_list s' = ws" by (simp add: assms(5) ct_list_def ct_invalidate_def comp_def)
  let ?m = "min (ct_validEndIndex s) (int k - 1)"
  note inv = assms(1) [unfolded ct_inv_def ct_fits_def]
  have "trusted ws (ct_prefixSum s) (ct_indexBySum s) (nat (?m + 1))"
  proof (rule trusted_change)
    show "take (nat (?m + 1)) (ct_list s) = take (nat (?m + 1)) ws"
      using assms(2) by (metis (no_types, lifting) take_take min_absorb1 nat_le_iff diff_add_cancel
          add_right_mono min.cobounded2)
  qed (use inv assms(3) in auto)
  with l assms inv show ?thesis by (auto simp: ct_inv_def ct_invalidate_def)
qed

lemma ct_insertValues_spec:
  assumes "ct_inv s" "k \<le> length (ct_list s)"
    and "ct_fits (take k (ct_list s) @ ys @ drop k (ct_list s))"
  shows "ct_inv (ct_insertValues (int k) ys s) \<and>
    ct_list (ct_insertValues (int k) ys s) = take k (ct_list s) @ ys @ drop k (ct_list s)"
proof (rule ct_invalidate_inv [OF assms(1) _ _ assms(3)])
  let ?vs = "ct_list s"
  have "ct_values s = map Some ?vs" using assms(1) by (simp add: ct_inv_def)
  then show "ct_insertValues (int k) ys s =
      ct_invalidate (int k) (s\<lparr>ct_values := map Some (take k ?vs @ ys @ drop k ?vs)\<rparr>)"
    using assms(2) js_splice_nat [of k "map Some ?vs" 0 "map Some ys"]
    by (simp add: ct_insertValues_def arrayInsert_splice take_map drop_map)
qed (use assms(2) in simp_all)

lemma ct_removeValues_spec:
  assumes "ct_inv s" "k \<le> length (ct_list s)" "ct_fits (take k (ct_list s) @ drop (k + n) (ct_list s))"
  shows "ct_inv (ct_removeValues (int k) (int n) s) \<and>
    ct_list (ct_removeValues (int k) (int n) s) = take k (ct_list s) @ drop (k + n) (ct_list s)"
proof (rule ct_invalidate_inv [OF assms(1) _ _ assms(3)])
  let ?vs = "ct_list s"
  have "ct_values s = map Some ?vs" using assms(1) by (simp add: ct_inv_def)
  then show "ct_removeValues (int k) (int n) s =
      ct_invalidate (int k) (s\<lparr>ct_values := map Some (take k ?vs @ drop (k + n) ?vs)\<rparr>)"
    using assms(2) js_splice_nat [of k "map Some ?vs" n "[]"]
    by (simp add: ct_removeValues_def take_map drop_map)
qed (use assms(2) in simp_all)

lemma ct_setValue_spec:
  assumes "ct_inv s" "k < length (ct_list s)" "ct_fits ((ct_list s)[k := v])"
  shows "ct_inv (ct_setValue (int k) v s) \<and> ct_list (ct_setValue (int k) v s) = (ct_list s)[k := v]"
proof -
  let ?vs = "ct_list s"
  have vs: "ct_values s = map Some ?vs" using assms(1) by (simp add: ct_inv_def)
  have read: "js_read (ct_values s) (int k) = Some (?vs ! k)"
    using assms(2) unfolding vs by (simp add: js_read_def js_get_nat)
  show ?thesis
  proof (cases "?vs ! k = v")
    case True
    with read assms(1,2) show ?thesis by (auto simp: ct_setValue_def)
  next
    case False
    show ?thesis
    proof (rule ct_invalidate_inv [OF assms(1) _ _ assms(3)])
      have "js_put (map Some ?vs) (int k) (Some v) = map Some (?vs[k := v])"
        using assms(2) by (simp add: js_put_def map_update)
      then show "ct_setValue (int k) v s = ct_invalidate (int k) (s\<lparr>ct_values := map Some (?vs[k := v])\<rparr>)"
        using read False unfolding ct_setValue_def vs by simp
    qed (use assms(2) in simp_all)
  qed
qed

section \<open>The contract of a prefix-sum table\<close>

datatype sum_edit = InsertValues nat "int list" | RemoveValues nat nat | SetValue nat int

fun apply_edit :: "sum_edit \<Rightarrow> int list \<Rightarrow> int list" where
  "apply_edit (InsertValues k ys) vs = take k vs @ ys @ drop k vs"
| "apply_edit (RemoveValues k n) vs = take k vs @ drop (k + n) vs"
| "apply_edit (SetValue k v) vs = vs[k := v]"

fun edit_index :: "sum_edit \<Rightarrow> int list \<Rightarrow> bool" where
  "edit_index (InsertValues k ys) vs \<longleftrightarrow> k \<le> length vs"
| "edit_index (RemoveValues k n) vs \<longleftrightarrow> k < length vs \<and> int n < 2147483648"
| "edit_index (SetValue k v) vs \<longleftrightarrow> k < length vs"

text \<open>Lists both tables can hold: every value, the sum and the length are in range.\<close>

definition sums_fit :: "int list \<Rightarrow> bool" where
  "sums_fit vs \<longleftrightarrow> (\<forall>v \<in> set vs. 0 \<le> v \<and> v < 2147483648) \<and> sum_list vs < 4294967296 \<and>
     int (length vs) < 2147483648"

fun edits_fit :: "sum_edit list \<Rightarrow> int list \<Rightarrow> bool" where
  "edits_fit [] vs \<longleftrightarrow> sums_fit vs"
| "edits_fit (e # es) vs \<longleftrightarrow> sums_fit vs \<and> edit_index e vs \<and> edits_fit es (apply_edit e vs)"

lemma edits_fit_fits: "edits_fit es vs \<Longrightarrow> sums_fit vs"
  by (cases es) auto

locale prefix_sum_store =
  fixes abs_vals :: "'s \<Rightarrow> int list"
    and good :: "'s \<Rightarrow> bool"
    and edit :: "sum_edit \<Rightarrow> 's \<Rightarrow> 's"
    and totalSum :: "'s \<Rightarrow> 's \<times> int option"
    and indexOf :: "int \<Rightarrow> 's \<Rightarrow> 's \<times> (int \<times> int option) option"
  assumes edit_law: "good s \<Longrightarrow> edit_index e (abs_vals s) \<Longrightarrow> sums_fit (apply_edit e (abs_vals s)) \<Longrightarrow>
      good (edit e s) \<and> abs_vals (edit e s) = apply_edit e (abs_vals s)"
    and total_law: "good s \<Longrightarrow> \<exists>s'. totalSum s = (s', Some (sum_list (abs_vals s))) \<and>
      good s' \<and> abs_vals s' = abs_vals s"
    and index_law: "good s \<Longrightarrow> abs_vals s \<noteq> [] \<Longrightarrow> 0 \<le> t \<Longrightarrow>
      \<exists>s' k. indexOf t s = (s', Some (int k, Some (t - zsum (abs_vals s) k))) \<and>
        good s' \<and> abs_vals s' = abs_vals s \<and> is_sum_index (abs_vals s) t k"
begin

lemma run_edits:
  assumes "good s" "edits_fit es (abs_vals s)"
  shows "good (fold edit es s) \<and> abs_vals (fold edit es s) = fold apply_edit es (abs_vals s)"
  using assms
proof (induction es arbitrary: s)
  case (Cons e es)
  from Cons.prems have "good (edit e s) \<and> abs_vals (edit e s) = apply_edit e (abs_vals s)"
    by (intro edit_law) (auto dest: edits_fit_fits)
  with Cons.IH [of "edit e s"] Cons.prems(2) show ?case by simp
qed simp

lemma total_after_edits:
  assumes "good s" "edits_fit es (abs_vals s)"
  shows "snd (totalSum (fold edit es s)) = Some (sum_list (fold apply_edit es (abs_vals s)))"
  using run_edits [OF assms] total_law [of "fold edit es s"] by auto

lemma index_after_edits:
  assumes "good s" "edits_fit es (abs_vals s)" "fold apply_edit es (abs_vals s) \<noteq> []" "0 \<le> t"
  shows "\<exists>k. snd (indexOf t (fold edit es s)) =
      Some (int k, Some (t - zsum (fold apply_edit es (abs_vals s)) k)) \<and>
    is_sum_index (fold apply_edit es (abs_vals s)) t k"
  using run_edits [OF assms(1,2)] index_law [of "fold edit es s" t] assms(3,4) by auto

end

section \<open>Both tables satisfy the contract\<close>

definition psc_list :: "PrefixSumComputer \<Rightarrow> int list" where
  "psc_list s = map uint (psc_values s)"

definition psc_good :: "PrefixSumComputer \<Rightarrow> bool" where
  "psc_good s \<longleftrightarrow> psc_inv s \<and> sums_fit (psc_list s)"

fun psc_edit :: "sum_edit \<Rightarrow> PrefixSumComputer \<Rightarrow> PrefixSumComputer" where
  "psc_edit (InsertValues k ys) s = fst (psc_insertValues (int k) (map word_of_int ys) s)"
| "psc_edit (RemoveValues k n) s = fst (psc_removeValues (int k) (int n) s)"
| "psc_edit (SetValue k v) s = fst (psc_setValue (int k) v s)"

definition psc_indexOf :: "int \<Rightarrow> PrefixSumComputer \<Rightarrow>
    PrefixSumComputer \<times> (int \<times> int option) option" where
  "psc_indexOf t s = (case psc_getIndexOf t s of (s', r) \<Rightarrow>
     (s', map_option (\<lambda>r. (ior_index r, ior_remainder r)) r))"

fun ct_edit :: "sum_edit \<Rightarrow> ConstantTimePrefixSumComputer \<Rightarrow> ConstantTimePrefixSumComputer" where
  "ct_edit (InsertValues k ys) s = ct_insertValues (int k) ys s"
| "ct_edit (RemoveValues k n) s = ct_removeValues (int k) (int n) s"
| "ct_edit (SetValue k v) s = ct_setValue (int k) v s"

definition ct_totalSum :: "ConstantTimePrefixSumComputer \<Rightarrow> ConstantTimePrefixSumComputer \<times> int option" where
  "ct_totalSum s = (case ct_getTotalSum s of (s', r) \<Rightarrow> (s', case r of Inl _ \<Rightarrow> None | Inr n \<Rightarrow> Some n))"

definition ct_indexOf :: "int \<Rightarrow> ConstantTimePrefixSumComputer \<Rightarrow>
    ConstantTimePrefixSumComputer \<times> (int \<times> int option) option" where
  "ct_indexOf t s = (case ct_getIndexOf t s of (s', r) \<Rightarrow>
     (s', case r of Inl _ \<Rightarrow> None | Inr r \<Rightarrow> Some (ior_index r, ior_remainder r)))"

lemma uint_word_of_int_small:
  "0 \<le> v \<Longrightarrow> v < 2147483648 \<Longrightarrow> uint (word_of_int v :: 32 word) = v"
  by (simp add: uint_word_of_int take_bit_int_eq_self)

lemma map_uint_word_of_int:
  "\<forall>v \<in> set vs. 0 \<le> v \<and> v < 2147483648 \<Longrightarrow> map uint (map word_of_int vs :: 32 word list) = vs"
  by (induction vs) (auto simp: uint_word_of_int_small)

lemma isum_zsum: "isum vs k = zsum (map uint vs) k"
  by (simp add: isum_def zsum_def take_map)

lemma is_index_of_sum_index:
  assumes "is_index_of vs t k" "0 \<le> t"
  shows "is_sum_index (map uint vs) t k"
proof (cases "t < sum_list (map uint vs)")
  case True
  have "isum vs (Suc (length vs - 1)) = sum_list (map uint vs)" by (simp add: isum_def)
  with assms True show ?thesis by (auto simp: is_index_of_def is_sum_index_def isum_zsum)
next
  case False
  have "isum vs (Suc k) \<le> isum vs (max (Suc k) (length vs))" by (rule isum_mono) simp
  also have "\<dots> = sum_list (map uint vs)" by (simp add: isum_def)
  finally show ?thesis using assms False by (auto simp: is_index_of_def is_sum_index_def)
qed

interpretation prefixSums: prefix_sum_store psc_list psc_good psc_edit psc_getTotalSum psc_indexOf
proof
  fix s e assume s: "psc_good s" "edit_index e (psc_list s)" "sums_fit (apply_edit e (psc_list s))"
  then have inv: "psc_inv s" by (simp add: psc_good_def)
  have "psc_inv (psc_edit e s) \<and> psc_list (psc_edit e s) = apply_edit e (psc_list s)"
  proof (cases e)
    case (InsertValues k ys)
    have "\<forall>v \<in> set ys. 0 \<le> v \<and> v < 2147483648" using s(3) InsertValues by (auto simp: sums_fit_def)
    note ys = map_uint_word_of_int [OF this]
    have "int (length (psc_values s) + length (map word_of_int ys :: 32 word list)) < 2147483648"
      "k \<le> length (psc_values s)"
      using s InsertValues by (auto simp: sums_fit_def psc_list_def min_def split: if_splits)
    from insertValues_spec [OF inv this(2,1)] InsertValues ys show ?thesis
      by (auto simp: psc_list_def take_map drop_map)
  next
    case (RemoveValues k n)
    with removeValues_spec [OF inv, of k n] s(2) show ?thesis
      by (auto simp: psc_list_def take_map drop_map)
  next
    case (SetValue k v)
    then have v: "0 \<le> v" "v < 2147483648"
      using s(2,3) by (auto simp: sums_fit_def psc_list_def set_update_memI)
    with setValue_spec [OF inv, of k v] s(2) SetValue show ?thesis
      by (auto simp: psc_list_def map_update uint_word_of_int_small)
  qed
  with s(3) show "psc_good (psc_edit e s) \<and> psc_list (psc_edit e s) = apply_edit e (psc_list s)"
    by (simp add: psc_good_def)
next
  fix s assume s: "psc_good s"
  have "0 \<le> sum_list (map uint (psc_values s))" by (rule sum_list_nonneg) auto
  with s have "uint (sum_list (psc_values s)) = sum_list (psc_list s)"
    by (simp add: psc_good_def sums_fit_def uint_sum_list psc_list_def)
  with getTotalSum_spec [of s] s
  show "\<exists>s'. psc_getTotalSum s = (s', Some (sum_list (psc_list s))) \<and> psc_good s' \<and> psc_list s' = psc_list s"
    by (auto simp: psc_good_def psc_list_def)
next
  fix s t assume s: "psc_good s" "psc_list s \<noteq> []" "0 \<le> (t :: int)"
  then obtain s' k where
    "psc_getIndexOf t s = (s', Some \<lparr>ior_index = int k, ior_remainder = Some (t - isum (psc_values s) k)\<rparr>)"
    "psc_inv s'" "psc_values s' = psc_values s" "is_index_of (psc_values s) t k"
    using getIndexOf_spec [of s t] by (auto simp: psc_good_def psc_list_def sums_fit_def)
  with s show "\<exists>s' k. psc_indexOf t s = (s', Some (int k, Some (t - zsum (psc_list s) k))) \<and>
      psc_good s' \<and> psc_list s' = psc_list s \<and> is_sum_index (psc_list s) t k"
    by (auto simp: psc_indexOf_def psc_good_def psc_list_def isum_zsum intro: is_index_of_sum_index)
qed

interpretation constantTimeSums:
  prefix_sum_store ct_list "\<lambda>s. ct_inv s" ct_edit ct_totalSum ct_indexOf
proof
  fix s e assume s: "ct_inv s" "edit_index e (ct_list s)" "sums_fit (apply_edit e (ct_list s))"
  then have "ct_fits (apply_edit e (ct_list s))" by (auto simp: sums_fit_def ct_fits_def MAX_UINT_32_def)
  with s show "ct_inv (ct_edit e s) \<and> ct_list (ct_edit e s) = apply_edit e (ct_list s)"
    using ct_insertValues_spec [OF s(1)] ct_removeValues_spec [OF s(1)] ct_setValue_spec [OF s(1)]
    by (cases e) auto
next
  fix s assume "ct_inv s"
  with ct_getTotalSum_spec [of s]
  show "\<exists>s'. ct_totalSum s = (s', Some (sum_list (ct_list s))) \<and> ct_inv s' \<and> ct_list s' = ct_list s"
    by (auto simp: ct_totalSum_def)
next
  fix s t assume "ct_inv s" "ct_list s \<noteq> []" "0 \<le> (t :: int)"
  then show "\<exists>s' k. ct_indexOf t s = (s', Some (int k, Some (t - zsum (ct_list s) k))) \<and>
      ct_inv s' \<and> ct_list s' = ct_list s \<and> is_sum_index (ct_list s) t k"
    using ct_getIndexOf_spec [of s t] by (auto simp: ct_indexOf_def)
qed

text \<open>Both tables, fed the same values and edits, answer alike.\<close>

lemma new_psc_good:
  assumes "sums_fit vs"
  defines "s \<equiv> new_PrefixSumComputer (map word_of_int vs)"
  shows "psc_good s" "psc_list s = vs"
proof -
  have ws: "map uint (map word_of_int vs :: 32 word list) = vs"
    using assms(1) by (intro map_uint_word_of_int) (simp add: sums_fit_def)
  show l: "psc_list s = vs"
    using ws by (simp add: psc_list_def s_def new_PrefixSumComputer_def)
  have "psc_inv s" using assms(1) by (simp add: s_def sums_fit_def new_psc_inv)
  with l assms(1) show "psc_good s" by (simp add: psc_good_def)
qed

lemma new_ct_good:
  assumes "sums_fit vs"
  shows "ct_inv (new_ConstantTimePrefixSumComputer vs)" "ct_list (new_ConstantTimePrefixSumComputer vs) = vs"
proof -
  have "ct_fits vs" using assms by (auto simp: ct_fits_def sums_fit_def MAX_UINT_32_def)
  then show "ct_inv (new_ConstantTimePrefixSumComputer vs)" by (rule new_ct_inv)
  show "ct_list (new_ConstantTimePrefixSumComputer vs) = vs"
    by (simp add: ct_list_def new_ConstantTimePrefixSumComputer_def comp_def)
qed

lemma stores_agree_total:
  assumes "edits_fit es vs"
  shows "snd (psc_getTotalSum (fold psc_edit es (new_PrefixSumComputer (map word_of_int vs)))) =
    snd (ct_totalSum (fold ct_edit es (new_ConstantTimePrefixSumComputer vs)))"
proof -
  note p = new_psc_good [OF edits_fit_fits [OF assms]] and c = new_ct_good [OF edits_fit_fits [OF assms]]
  show ?thesis
    using prefixSums.total_after_edits [OF p(1)] constantTimeSums.total_after_edits [OF c(1)] assms
    by (simp add: p(2) c(2))
qed

lemma edits_fit_final: "edits_fit es vs \<Longrightarrow> sums_fit (fold apply_edit es vs)"
  by (induction es arbitrary: vs) auto

lemma stores_agree_index:
  assumes "edits_fit es vs" "fold apply_edit es vs \<noteq> []" "0 \<le> t"
  shows "snd (psc_indexOf t (fold psc_edit es (new_PrefixSumComputer (map word_of_int vs)))) =
    snd (ct_indexOf t (fold ct_edit es (new_ConstantTimePrefixSumComputer vs)))"
proof -
  let ?ws = "fold apply_edit es vs"
  note p = new_psc_good [OF edits_fit_fits [OF assms(1)]] and c = new_ct_good [OF edits_fit_fits [OF assms(1)]]
  obtain k where k: "snd (psc_indexOf t (fold psc_edit es (new_PrefixSumComputer (map word_of_int vs)))) =
      Some (int k, Some (t - zsum ?ws k))" "is_sum_index ?ws t k"
    using prefixSums.index_after_edits [OF p(1), of es t] assms by (auto simp: p(2))
  obtain m where m: "snd (ct_indexOf t (fold ct_edit es (new_ConstantTimePrefixSumComputer vs))) =
      Some (int m, Some (t - zsum ?ws m))" "is_sum_index ?ws t m"
    using constantTimeSums.index_after_edits [OF c(1), of es t] assms by (auto simp: c(2))
  have "k = m"
    using edits_fit_final [OF assms(1)] k(2) m(2)
    by (intro is_sum_index_unique [of ?ws t]) (auto simp: sums_fit_def)
  with k(1) m(1) show ?thesis by simp
qed

end
