(* ===== verification/EditorGroup.thy ===== *)
theory EditorGroup
  imports Prelude
begin

text \<open>
  \<open>src/vs/workbench/common/editor/editorGroupModel.ts\<close>: the model of one editor group, a state
  machine over the open editors, their most-recently-used order, the selection (its first element
  is the active editor), the preview editor, the number of sticky editors and the transient ones.

  Editors are compared by identity (\<open>===\<close>, equality here) or by \<open>matches\<close>, a method the
  subclasses of \<open>EditorInput\<close> override: it is the field \<open>inputMatches\<close> of the environment.
  Candidates that are untyped inputs are plain inputs that occur in no group.

  The events a group fires are the list \<open>ge_events\<close>, in order; listeners are not modelled (the
  re-emission of an editor's own events, \<open>registerEditorListeners\<close>, has no effect on the fields).
  Every operation takes the environment and the state and returns the new state with its result.
\<close>

section \<open>Editor inputs and options\<close>

datatype 'e EditorInput =
    PlainEditorInput 'e
  | SideBySideEditorInput 'e "'e EditorInput" "'e EditorInput"

datatype SideBySideEditor = BOTH | ANY

datatype EditorCloseContext = UNKNOWN | REPLACE | MOVE | UNPIN

datatype EditorOpenPositioning = LEFT | RIGHT | FIRST | LAST

datatype EditorsOrder = MOST_RECENTLY_ACTIVE | SEQUENTIAL

record IMatchEditorOptions =
  supportSideBySide :: "SideBySideEditor option"
  strictEquals :: bool

definition no_match_options :: IMatchEditorOptions where
  "no_match_options = \<lparr>supportSideBySide = None, strictEquals = False\<rparr>"

record 'e IEditorOpenOptions =
  op_pinned :: bool
  op_sticky :: bool
  op_transient :: bool
  op_active :: bool
  op_inactiveSelection :: "'e EditorInput list"
  op_index :: "int option"
  op_supportSideBySide :: "SideBySideEditor option"

datatype 'e GroupModelChange =
    GROUP_ACTIVE
  | GROUP_INDEX
  | GROUP_LABEL
  | GROUP_LOCKED
  | EDITORS_SELECTION
  | EDITOR_OPEN "'e EditorInput" int
  | EDITOR_CLOSE "'e EditorInput" int EditorCloseContext bool
  | EDITOR_MOVE "'e EditorInput" int int
  | EDITOR_ACTIVE "'e EditorInput" int
  | EDITOR_PIN "'e EditorInput" int
  | EDITOR_TRANSIENT "'e EditorInput" int
  | EDITOR_STICKY "'e EditorInput" int

record 'e IEditorCloseResult =
  cr_editor :: "'e EditorInput"
  cr_context :: EditorCloseContext
  cr_editorIndex :: int
  cr_sticky :: bool

text \<open>Configuration values and the overridable method.  An unset positioning acts as \<open>right\<close>.\<close>

record 'e group_env =
  inputMatches :: "'e EditorInput \<Rightarrow> 'e EditorInput \<Rightarrow> bool"
  editorOpenPositioning :: "EditorOpenPositioning option"
  focusRecentEditorAfterClose :: bool

record 'e EditorGroupModel =
  ge_id :: int
  ge_editors :: "'e EditorInput list"
  ge_mru :: "'e EditorInput list"
  ge_locked :: bool
  ge_selection :: "'e EditorInput list"
  ge_preview :: "'e EditorInput option"
  ge_sticky :: int
  ge_transient :: "'e EditorInput set"
  ge_events :: "'e GroupModelChange list"

definition new_EditorGroupModel :: "int \<Rightarrow> 'e EditorGroupModel" where
  "new_EditorGroupModel i = \<lparr>ge_id = i, ge_editors = [], ge_mru = [], ge_locked = False, ge_selection = [],
     ge_preview = None, ge_sticky = -1, ge_transient = {}, ge_events = []\<rparr>"

definition fire :: "'e GroupModelChange \<Rightarrow> 'e EditorGroupModel \<Rightarrow> 'e EditorGroupModel" where
  "fire e g = g\<lparr>ge_events := ge_events g @ [e]\<rparr>"

section \<open>Matching and searching\<close>

fun isSideBySide :: "'e EditorInput \<Rightarrow> bool" where
  "isSideBySide (PlainEditorInput _) \<longleftrightarrow> False"
| "isSideBySide (SideBySideEditorInput _ _ _) \<longleftrightarrow> True"

definition matches_self :: "'e group_env \<Rightarrow> IMatchEditorOptions \<Rightarrow> 'e EditorInput \<Rightarrow> 'e EditorInput \<Rightarrow> bool" where
  "matches_self env opts editor candidate =
     (if strictEquals opts then editor = candidate
      else editor = candidate \<or> inputMatches env editor candidate)"

fun input_matches :: "'e group_env \<Rightarrow> IMatchEditorOptions \<Rightarrow> 'e EditorInput \<Rightarrow> 'e EditorInput \<Rightarrow> bool" where
  "input_matches env opts (PlainEditorInput x) candidate =
     matches_self env opts (PlainEditorInput x) candidate"
| "input_matches env opts (SideBySideEditorInput x primary secondary) candidate =
     ((\<not> isSideBySide candidate \<and>
       (case supportSideBySide opts of
          None \<Rightarrow> False
        | Some ANY \<Rightarrow> input_matches env opts primary candidate \<or> input_matches env opts secondary candidate
        | Some BOTH \<Rightarrow> input_matches env opts primary candidate \<and> input_matches env opts secondary candidate))
      \<or> matches_self env opts (SideBySideEditorInput x primary secondary) candidate)"

definition ge_matches :: "'e group_env \<Rightarrow> IMatchEditorOptions \<Rightarrow> 'e EditorInput option \<Rightarrow>
    'e EditorInput option \<Rightarrow> bool" where
  "ge_matches env opts editor candidate =
     (case (editor, candidate) of (Some e, Some c) \<Rightarrow> input_matches env opts e c | _ \<Rightarrow> False)"

text \<open>The loop of \<open>indexOf\<close>: \<open>i\<close> counts, \<open>index\<close> is the last side-by-side match.\<close>

fun indexOf_loop :: "'e group_env \<Rightarrow> IMatchEditorOptions \<Rightarrow> 'e EditorInput \<Rightarrow> int \<Rightarrow> int \<Rightarrow>
    'e EditorInput list \<Rightarrow> int" where
  "indexOf_loop env opts candidate i index [] = index"
| "indexOf_loop env opts candidate i index (editor # es) =
     (if input_matches env opts editor candidate then
        if supportSideBySide opts \<noteq> None \<and> isSideBySide editor \<and> \<not> isSideBySide candidate
        then indexOf_loop env opts candidate (i + 1) i es
        else i
      else indexOf_loop env opts candidate (i + 1) index es)"

definition ge_indexOf :: "'e group_env \<Rightarrow> 'e EditorInput option \<Rightarrow> 'e EditorInput list \<Rightarrow>
    IMatchEditorOptions \<Rightarrow> int" where
  "ge_indexOf env candidate editors opts =
     (case candidate of None \<Rightarrow> -1 | Some c \<Rightarrow> indexOf_loop env opts c 0 (-1) editors)"

text \<open>\<open>Array.prototype.indexOf\<close> compares by identity.\<close>

fun strict_index :: "'a \<Rightarrow> int \<Rightarrow> 'a list \<Rightarrow> int" where
  "strict_index x i [] = -1"
| "strict_index x i (y # ys) = (if y = x then i else strict_index x (i + 1) ys)"

definition findEditor :: "'e group_env \<Rightarrow> 'e EditorInput option \<Rightarrow> IMatchEditorOptions \<Rightarrow>
    'e EditorGroupModel \<Rightarrow> ('e EditorInput \<times> int) option" where
  "findEditor env candidate opts g =
     (let index = ge_indexOf env candidate (ge_editors g) opts
      in if index = -1 then None else Some (ge_editors g ! nat index, index))"

section \<open>Queries\<close>

definition ge_count :: "'e EditorGroupModel \<Rightarrow> nat" where
  "ge_count g = length (ge_editors g)"

definition stickyCount :: "'e EditorGroupModel \<Rightarrow> int" where
  "stickyCount g = ge_sticky g + 1"

definition activeEditor :: "'e EditorGroupModel \<Rightarrow> 'e EditorInput option" where
  "activeEditor g = js_get (ge_selection g) 0"

definition getEditorByIndex :: "int \<Rightarrow> 'e EditorGroupModel \<Rightarrow> 'e EditorInput option" where
  "getEditorByIndex index g = js_get (ge_editors g) index"

definition isSticky_index :: "int \<Rightarrow> 'e EditorGroupModel \<Rightarrow> bool" where
  "isSticky_index index g =
     (if ge_sticky g < 0 then False else if index < 0 then False else index \<le> ge_sticky g)"

definition isSticky_editor :: "'e group_env \<Rightarrow> 'e EditorInput \<Rightarrow> 'e EditorGroupModel \<Rightarrow> bool" where
  "isSticky_editor env candidate g =
     (if ge_sticky g < 0 then False
      else let index = ge_indexOf env (Some candidate) (ge_editors g) no_match_options
           in if index < 0 then False else index \<le> ge_sticky g)"

definition getEditors :: "'e group_env \<Rightarrow> EditorsOrder \<Rightarrow> bool \<Rightarrow> 'e EditorGroupModel \<Rightarrow> 'e EditorInput list" where
  "getEditors env order excludeSticky g =
     (let editors = (if order = MOST_RECENTLY_ACTIVE then ge_mru g else ge_editors g)
      in if excludeSticky then
           if order = MOST_RECENTLY_ACTIVE then filter (\<lambda>editor. \<not> isSticky_editor env editor g) editors
           else js_slice editors (ge_sticky g + 1) (int (length editors))
         else editors)"

definition isActive :: "'e group_env \<Rightarrow> 'e EditorInput \<Rightarrow> 'e EditorGroupModel \<Rightarrow> bool" where
  "isActive env candidate g = ge_matches env no_match_options (activeEditor g) (Some candidate)"

definition isPinned_option :: "'e group_env \<Rightarrow> 'e EditorInput option \<Rightarrow> 'e EditorGroupModel \<Rightarrow> bool" where
  "isPinned_option env editor g \<longleftrightarrow> \<not> ge_matches env no_match_options (ge_preview g) editor"

definition isPinned :: "'e group_env \<Rightarrow> 'e EditorInput \<Rightarrow> 'e EditorGroupModel \<Rightarrow> bool" where
  "isPinned env editor g = isPinned_option env (Some editor) g"

definition isPinned_index :: "'e group_env \<Rightarrow> int \<Rightarrow> 'e EditorGroupModel \<Rightarrow> bool" where
  "isPinned_index env index g = isPinned_option env (js_get (ge_editors g) index) g"

definition doIsSelected :: "'e EditorInput \<Rightarrow> 'e EditorGroupModel \<Rightarrow> bool" where
  "doIsSelected editor g \<longleftrightarrow> editor \<in> set (ge_selection g)"

definition selectedEditors :: "'e EditorGroupModel \<Rightarrow> 'e EditorInput list" where
  "selectedEditors g = filter (\<lambda>editor. doIsSelected editor g) (ge_editors g)"

definition isSelected :: "'e group_env \<Rightarrow> 'e EditorInput \<Rightarrow> 'e EditorGroupModel \<Rightarrow> bool" where
  "isSelected env candidate g =
     (case findEditor env (Some candidate) no_match_options g of
        None \<Rightarrow> False | Some (editor, _) \<Rightarrow> doIsSelected editor g)"

definition isTransient :: "'e group_env \<Rightarrow> 'e EditorInput \<Rightarrow> 'e EditorGroupModel \<Rightarrow> bool" where
  "isTransient env candidate g =
     (if ge_transient g = {} then False
      else case findEditor env (Some candidate) no_match_options g of
             None \<Rightarrow> False | Some (editor, _) \<Rightarrow> editor \<in> ge_transient g)"

definition isFirst :: "'e group_env \<Rightarrow> 'e EditorInput option \<Rightarrow> 'e EditorGroupModel \<Rightarrow> bool" where
  "isFirst env candidate g = ge_matches env no_match_options (js_get (ge_editors g) 0) candidate"

definition isLast :: "'e group_env \<Rightarrow> 'e EditorInput option \<Rightarrow> 'e EditorGroupModel \<Rightarrow> bool" where
  "isLast env candidate g =
     ge_matches env no_match_options (js_get (ge_editors g) (int (length (ge_editors g)) - 1)) candidate"

definition ge_contains :: "'e group_env \<Rightarrow> 'e EditorInput \<Rightarrow> IMatchEditorOptions \<Rightarrow> 'e EditorGroupModel \<Rightarrow> bool" where
  "ge_contains env candidate opts g \<longleftrightarrow> ge_indexOf env (Some candidate) (ge_editors g) opts \<noteq> -1"

section \<open>Selection\<close>

definition doSetSelection :: "'e group_env \<Rightarrow> 'e EditorInput option \<Rightarrow> int option \<Rightarrow> 'e EditorInput list \<Rightarrow>
    'e EditorGroupModel \<Rightarrow> 'e EditorGroupModel" where
  "doSetSelection env activeSel activeIdx inactive g =
     (let previousActive = activeEditor g;
          previousSelection = ge_selection g;
          newSelection = (case activeSel of None \<Rightarrow> [] | Some a \<Rightarrow> a # inactive);
          g1 = g\<lparr>ge_selection := newSelection\<rparr>;
          changed = (activeSel \<noteq> None \<and> activeIdx \<noteq> None \<and> previousActive \<noteq> activeSel);
          g2 = (if changed then
                  let mruIndex = ge_indexOf env activeSel (ge_mru g1) no_match_options
                  in fire (EDITOR_ACTIVE (the activeSel) (the activeIdx))
                       (g1\<lparr>ge_mru := the activeSel # js_splice (ge_mru g1) mruIndex 1 []\<rparr>)
                else g1)
      in if changed \<or> length previousSelection \<noteq> length newSelection \<or>
            list_ex (\<lambda>editor. editor \<notin> set newSelection) previousSelection
         then fire EDITORS_SELECTION g2 else g2)"

text \<open>The loop over the inactive candidates: \<open>None\<close> is the early return for an unknown editor.\<close>

fun collect_inactive :: "'e group_env \<Rightarrow> 'e EditorGroupModel \<Rightarrow> 'e EditorInput \<Rightarrow> 'e EditorInput list \<Rightarrow>
    'e EditorInput list \<Rightarrow> 'e EditorInput list option" where
  "collect_inactive env g active acc [] = Some acc"
| "collect_inactive env g active acc (c # cs) =
     (case findEditor env (Some c) no_match_options g of
        None \<Rightarrow> None
      | Some (editor, _) \<Rightarrow>
          if editor = active then collect_inactive env g active acc cs
          else collect_inactive env g active (if editor \<in> set acc then acc else acc @ [editor]) cs)"

definition setSelection :: "'e group_env \<Rightarrow> 'e EditorInput option \<Rightarrow> 'e EditorInput list \<Rightarrow>
    'e EditorGroupModel \<Rightarrow> 'e EditorGroupModel" where
  "setSelection env activeCandidate inactiveCandidates g =
     (case findEditor env activeCandidate no_match_options g of
        None \<Rightarrow> g
      | Some (active, activeIdx) \<Rightarrow>
          (case collect_inactive env g active [] inactiveCandidates of
             None \<Rightarrow> g
           | Some inactive \<Rightarrow> doSetSelection env (Some active) (Some activeIdx) inactive g))"

definition setActive :: "'e group_env \<Rightarrow> 'e EditorInput option \<Rightarrow> 'e EditorGroupModel \<Rightarrow>
    'e EditorGroupModel \<times> 'e EditorInput option" where
  "setActive env candidate g =
     (case candidate of
        None \<Rightarrow> (fire GROUP_ACTIVE g, None)
      | Some c \<Rightarrow>
          (case findEditor env (Some c) no_match_options g of
             None \<Rightarrow> (g, None)
           | Some (editor, editorIndex) \<Rightarrow>
               (doSetSelection env (Some editor) (Some editorIndex) [] g, Some editor)))"

section \<open>The arrays\<close>

definition ge_splice :: "'e group_env \<Rightarrow> int \<Rightarrow> bool \<Rightarrow> 'e EditorInput option \<Rightarrow>
    'e EditorGroupModel \<Rightarrow> 'e EditorGroupModel" where
  "ge_splice env index del editor g =
     (let toDelete = js_get (ge_editors g) index;
          sticky = (if del \<and> isSticky_index index g then ge_sticky g - 1 else ge_sticky g);
          editors = js_splice (ge_editors g) index (if del then 1 else 0)
                      (case editor of None \<Rightarrow> [] | Some e \<Rightarrow> [e]);
          mru = (case editor of
                   Some e \<Rightarrow>
                     if \<not> del then
                       (if ge_mru g = [] then [e] else js_splice (ge_mru g) 1 0 [e])
                     else js_splice (ge_mru g) (ge_indexOf env toDelete (ge_mru g) no_match_options) 1 [e]
                 | None \<Rightarrow>
                     if del then js_splice (ge_mru g) (ge_indexOf env toDelete (ge_mru g) no_match_options) 1 []
                     else ge_mru g)
      in g\<lparr>ge_sticky := sticky, ge_editors := editors, ge_mru := mru\<rparr>)"

section \<open>Transient and pinned editors\<close>

definition doSetTransient :: "'e EditorInput \<Rightarrow> int \<Rightarrow> bool \<Rightarrow> 'e EditorGroupModel \<Rightarrow> 'e EditorGroupModel" where
  "doSetTransient editor editorIndex transient g =
     (if transient then
        if editor \<in> ge_transient g then g
        else fire (EDITOR_TRANSIENT editor editorIndex) (g\<lparr>ge_transient := insert editor (ge_transient g)\<rparr>)
      else
        if editor \<notin> ge_transient g then g
        else fire (EDITOR_TRANSIENT editor editorIndex) (g\<lparr>ge_transient := ge_transient g - {editor}\<rparr>))"

definition setTransient :: "'e group_env \<Rightarrow> 'e EditorInput \<Rightarrow> bool \<Rightarrow> 'e EditorGroupModel \<Rightarrow>
    'e EditorGroupModel \<times> 'e EditorInput option" where
  "setTransient env candidate transient g =
     (if \<not> transient \<and> ge_transient g = {} then (g, None)
      else case findEditor env (Some candidate) no_match_options g of
             None \<Rightarrow> (g, None)
           | Some (editor, editorIndex) \<Rightarrow> (doSetTransient editor editorIndex transient g, Some editor))"

definition doPin :: "'e group_env \<Rightarrow> 'e EditorInput \<Rightarrow> int \<Rightarrow> 'e EditorGroupModel \<Rightarrow> 'e EditorGroupModel" where
  "doPin env editor editorIndex g =
     (if isPinned env editor g then g
      else let g1 = fst (setTransient env editor False g)
           in fire (EDITOR_PIN editor editorIndex) (g1\<lparr>ge_preview := None\<rparr>))"

definition pin :: "'e group_env \<Rightarrow> 'e EditorInput \<Rightarrow> 'e EditorGroupModel \<Rightarrow>
    'e EditorGroupModel \<times> 'e EditorInput option" where
  "pin env candidate g =
     (case findEditor env (Some candidate) no_match_options g of
        None \<Rightarrow> (g, None)
      | Some (editor, editorIndex) \<Rightarrow> (doPin env editor editorIndex g, Some editor))"

section \<open>Closing\<close>

text \<open>The next active editor when the active one at \<open>index\<close> closes.\<close>

definition nextActive :: "'e group_env \<Rightarrow> int \<Rightarrow> 'e EditorGroupModel \<Rightarrow> 'e EditorInput option" where
  "nextActive env index g =
     (if focusRecentEditorAfterClose env then js_get (ge_mru g) 1
      else if index = int (length (ge_editors g)) - 1 then js_get (ge_editors g) (index - 1)
      else js_get (ge_editors g) (index + 1))"

definition closeSelection :: "'e group_env \<Rightarrow> bool \<Rightarrow> 'e EditorInput \<Rightarrow> int \<Rightarrow>
    'e EditorGroupModel \<Rightarrow> 'e EditorGroupModel" where
  "closeSelection env openNext editor index g =
     (let isActiveEditor = (activeEditor g = Some editor)
      in if openNext \<and> isActiveEditor then
           if length (ge_mru g) > 1 then
             let newActive = nextActive env index g;
                 inactive = filter (\<lambda>s. s \<noteq> editor \<and> Some s \<noteq> newActive) (ge_selection g);
                 newIndex = (case newActive of None \<Rightarrow> -1 | Some a \<Rightarrow> strict_index a 0 (ge_editors g))
             in doSetSelection env newActive (Some newIndex) inactive g
           else doSetSelection env None None [] g
         else if \<not> isActiveEditor \<and> doIsSelected editor g then
           let inactive = filter (\<lambda>s. s \<noteq> editor \<and> Some s \<noteq> activeEditor g) (ge_selection g)
           in doSetSelection env (activeEditor g)
                (Some (ge_indexOf env (activeEditor g) (ge_editors g) no_match_options)) inactive g
         else g)"

definition doCloseEditor :: "'e group_env \<Rightarrow> 'e EditorInput \<Rightarrow> EditorCloseContext \<Rightarrow> bool \<Rightarrow>
    'e EditorGroupModel \<Rightarrow> 'e EditorGroupModel \<times> 'e IEditorCloseResult option" where
  "doCloseEditor env candidate context openNext g =
     (let index = ge_indexOf env (Some candidate) (ge_editors g) no_match_options
      in if index = -1 then (g, None)
         else
           let editor = ge_editors g ! nat index;
               sticky = isSticky_index index g;
               g1 = closeSelection env openNext editor index g;
               g2 = (if ge_preview g1 = Some editor then g1\<lparr>ge_preview := None\<rparr> else g1);
               g3 = g2\<lparr>ge_transient := ge_transient g2 - {editor}\<rparr>;
               g4 = ge_splice env index True None g3
           in (g4, Some \<lparr>cr_editor = editor, cr_context = context, cr_editorIndex = index, cr_sticky = sticky\<rparr>))"

definition closeEvent :: "'e IEditorCloseResult \<Rightarrow> 'e GroupModelChange" where
  "closeEvent r = EDITOR_CLOSE (cr_editor r) (cr_editorIndex r) (cr_context r) (cr_sticky r)"

definition closeEditor :: "'e group_env \<Rightarrow> 'e EditorInput \<Rightarrow> EditorCloseContext \<Rightarrow> bool \<Rightarrow>
    'e EditorGroupModel \<Rightarrow> 'e EditorGroupModel \<times> 'e IEditorCloseResult option" where
  "closeEditor env candidate context openNext g =
     (case doCloseEditor env candidate context openNext g of
        (g', None) \<Rightarrow> (g', None)
      | (g', Some r) \<Rightarrow> (fire (closeEvent r) g', Some r))"

definition replaceEditor :: "'e group_env \<Rightarrow> 'e EditorInput \<Rightarrow> 'e EditorInput \<Rightarrow> int \<Rightarrow> bool \<Rightarrow>
    'e EditorGroupModel \<Rightarrow> 'e EditorGroupModel" where
  "replaceEditor env toReplace replaceWith replaceIndex openNext g =
     (case doCloseEditor env toReplace REPLACE openNext g of
        (g', r) \<Rightarrow>
          let g2 = ge_splice env replaceIndex False (Some replaceWith) g'
          in case r of None \<Rightarrow> g2 | Some c \<Rightarrow> fire (closeEvent c) g2)"

definition doUnpin :: "'e group_env \<Rightarrow> 'e EditorInput \<Rightarrow> int \<Rightarrow> 'e EditorGroupModel \<Rightarrow> 'e EditorGroupModel" where
  "doUnpin env editor editorIndex g =
     (if \<not> isPinned env editor g then g
      else
        let oldPreview = ge_preview g;
            g1 = fire (EDITOR_PIN editor editorIndex) (g\<lparr>ge_preview := Some editor\<rparr>)
        in case oldPreview of None \<Rightarrow> g1 | Some p \<Rightarrow> fst (closeEditor env p UNPIN True g1))"

definition unpin :: "'e group_env \<Rightarrow> 'e EditorInput \<Rightarrow> 'e EditorGroupModel \<Rightarrow>
    'e EditorGroupModel \<times> 'e EditorInput option" where
  "unpin env candidate g =
     (case findEditor env (Some candidate) no_match_options g of
        None \<Rightarrow> (g, None)
      | Some (editor, editorIndex) \<Rightarrow> (doUnpin env editor editorIndex g, Some editor))"

section \<open>Moving and sticking\<close>

definition moveEditor :: "'e group_env \<Rightarrow> 'e EditorInput \<Rightarrow> int \<Rightarrow> 'e EditorGroupModel \<Rightarrow>
    'e EditorGroupModel \<times> 'e EditorInput option" where
  "moveEditor env candidate toIndex0 g =
     (let toIndex = (if toIndex0 \<ge> int (length (ge_editors g)) then int (length (ge_editors g)) - 1
                     else if toIndex0 < 0 then 0 else toIndex0);
          index = ge_indexOf env (Some candidate) (ge_editors g) no_match_options
      in if index < 0 \<or> toIndex = index then (g, None)
         else
           let editor = ge_editors g ! nat index;
               sticky = (if isSticky_index index g \<and> toIndex > ge_sticky g then ge_sticky g - 1
                         else if \<not> isSticky_index index g \<and> toIndex \<le> ge_sticky g then ge_sticky g + 1
                         else ge_sticky g);
               editors = js_splice (js_splice (ge_editors g) index 1 []) toIndex 0 [editor];
               g1 = fire (EDITOR_MOVE editor index toIndex) (g\<lparr>ge_sticky := sticky, ge_editors := editors\<rparr>)
           in (if sticky \<noteq> ge_sticky g then fire (EDITOR_STICKY editor toIndex) g1 else g1, Some editor))"

definition doStick :: "'e group_env \<Rightarrow> 'e EditorInput \<Rightarrow> int \<Rightarrow> 'e EditorGroupModel \<Rightarrow> 'e EditorGroupModel" where
  "doStick env editor editorIndex g =
     (if isSticky_index editorIndex g then g
      else
        let g1 = fst (pin env editor g);
            newEditorIndex = ge_sticky g1 + 1;
            g2 = fst (moveEditor env editor newEditorIndex g1);
            g3 = g2\<lparr>ge_sticky := ge_sticky g2 + 1\<rparr>
        in fire (EDITOR_STICKY editor newEditorIndex) g3)"

definition stick :: "'e group_env \<Rightarrow> 'e EditorInput \<Rightarrow> 'e EditorGroupModel \<Rightarrow>
    'e EditorGroupModel \<times> 'e EditorInput option" where
  "stick env candidate g =
     (case findEditor env (Some candidate) no_match_options g of
        None \<Rightarrow> (g, None)
      | Some (editor, editorIndex) \<Rightarrow> (doStick env editor editorIndex g, Some editor))"

definition doUnstick :: "'e group_env \<Rightarrow> 'e EditorInput \<Rightarrow> int \<Rightarrow> 'e EditorGroupModel \<Rightarrow> 'e EditorGroupModel" where
  "doUnstick env editor editorIndex g =
     (if \<not> isSticky_index editorIndex g then g
      else
        let newEditorIndex = ge_sticky g;
            g1 = fst (moveEditor env editor newEditorIndex g);
            g2 = g1\<lparr>ge_sticky := ge_sticky g1 - 1\<rparr>
        in fire (EDITOR_STICKY editor newEditorIndex) g2)"

definition unstick :: "'e group_env \<Rightarrow> 'e EditorInput \<Rightarrow> 'e EditorGroupModel \<Rightarrow>
    'e EditorGroupModel \<times> 'e EditorInput option" where
  "unstick env candidate g =
     (case findEditor env (Some candidate) no_match_options g of
        None \<Rightarrow> (g, None)
      | Some (editor, editorIndex) \<Rightarrow> (doUnstick env editor editorIndex g, Some editor))"

definition ge_lock :: "bool \<Rightarrow> 'e EditorGroupModel \<Rightarrow> 'e EditorGroupModel" where
  "ge_lock locked g = (if ge_locked g \<noteq> locked then fire GROUP_LOCKED (g\<lparr>ge_locked := locked\<rparr>) else g)"

definition setIndex :: "'e EditorGroupModel \<Rightarrow> 'e EditorGroupModel" where
  "setIndex g = fire GROUP_INDEX g"

definition setLabel :: "'e EditorGroupModel \<Rightarrow> 'e EditorGroupModel" where
  "setLabel g = fire GROUP_LABEL g"

section \<open>Opening\<close>

definition open_makeSticky :: "'e IEditorOpenOptions \<Rightarrow> 'e EditorGroupModel \<Rightarrow> bool" where
  "open_makeSticky opts g \<longleftrightarrow> op_sticky opts \<or>
     (case op_index opts of None \<Rightarrow> False | Some i \<Rightarrow> isSticky_index i g)"

definition open_makePinned :: "'e IEditorOpenOptions \<Rightarrow> bool" where
  "open_makePinned opts \<longleftrightarrow> op_pinned opts \<or> op_sticky opts"

definition open_makeActive :: "'e IEditorOpenOptions \<Rightarrow> 'e EditorGroupModel \<Rightarrow> bool" where
  "open_makeActive opts g \<longleftrightarrow> op_active opts \<or> activeEditor g = None \<or>
     (\<not> open_makePinned opts \<and> ge_preview g = activeEditor g)"

text \<open>Where a new editor goes, before the sticky adjustment.\<close>

definition open_position :: "'e group_env \<Rightarrow> 'e IEditorOpenOptions \<Rightarrow> bool \<Rightarrow> 'e EditorGroupModel \<Rightarrow> int" where
  "open_position env opts makeSticky g =
     (let indexOfActive = ge_indexOf env (activeEditor g) (ge_editors g) no_match_options;
          afterSticky = (\<lambda>t. if \<not> makeSticky \<and> isSticky_index t g then ge_sticky g + 1 else t)
      in case op_index opts of
           Some i \<Rightarrow> i
         | None \<Rightarrow>
           if editorOpenPositioning env = Some FIRST then afterSticky 0
           else if editorOpenPositioning env = Some LAST then int (length (ge_editors g))
           else if editorOpenPositioning env = Some LEFT then
             afterSticky (if indexOfActive = 0 \<or> ge_editors g = [] then 0 else indexOfActive)
           else afterSticky (indexOfActive + 1))"

definition openNew :: "'e group_env \<Rightarrow> 'e EditorInput \<Rightarrow> 'e IEditorOpenOptions \<Rightarrow>
    'e EditorGroupModel \<Rightarrow> 'e EditorGroupModel" where
  "openNew env newEditor opts g =
     (let makeSticky = open_makeSticky opts g;
          makePinned = open_makePinned opts;
          makeActive = open_makeActive opts g;
          target0 = open_position env opts makeSticky g;
          g1 = (if makeSticky then g\<lparr>ge_sticky := ge_sticky g + 1\<rparr> else g);
          target1 = (if makeSticky \<and> \<not> isSticky_index target0 g1 then ge_sticky g1 else target0);
          g2 = (if makePinned \<or> ge_preview g1 = None
                then ge_splice env target1 False (Some newEditor) g1 else g1);
          g3 = (if op_transient opts then doSetTransient newEditor target1 True g2 else g2);
          (g4, target2) =
            (if \<not> makePinned then
               (case ge_preview g3 of
                  None \<Rightarrow> (g3\<lparr>ge_preview := Some newEditor\<rparr>, target1)
                | Some p \<Rightarrow>
                    let indexOfPreview = ge_indexOf env (Some p) (ge_editors g3) no_match_options;
                        t = (if target1 > indexOfPreview then target1 - 1 else target1)
                    in ((replaceEditor env p newEditor t (\<not> makeActive) g3)\<lparr>ge_preview := Some newEditor\<rparr>, t))
             else (g3, target1));
          g5 = fire (EDITOR_OPEN newEditor target2) g4
      in setSelection env (if makeActive then Some newEditor else activeEditor g5) (op_inactiveSelection opts) g5)"

definition openExisting :: "'e group_env \<Rightarrow> 'e EditorInput \<Rightarrow> int \<Rightarrow> 'e IEditorOpenOptions \<Rightarrow>
    'e EditorGroupModel \<Rightarrow> 'e EditorGroupModel" where
  "openExisting env editor editorIndex opts g =
     (let makeSticky = open_makeSticky opts g;
          makePinned = open_makePinned opts;
          makeActive = open_makeActive opts g;
          g1 = doSetTransient editor editorIndex
                 (if \<not> op_transient opts then False else isTransient env editor g) g;
          g2 = (if makePinned then doPin env editor editorIndex g1 else g1);
          g3 = setSelection env (if makeActive then Some editor else activeEditor g2)
                 (op_inactiveSelection opts) g2;
          g4 = (case op_index opts of None \<Rightarrow> g3 | Some i \<Rightarrow> fst (moveEditor env editor i g3))
      in if makeSticky
         then doStick env editor (ge_indexOf env (Some editor) (ge_editors g4) no_match_options) g4
         else g4)"

definition openEditor :: "'e group_env \<Rightarrow> 'e EditorInput \<Rightarrow> 'e IEditorOpenOptions \<Rightarrow>
    'e EditorGroupModel \<Rightarrow> 'e EditorGroupModel \<times> 'e EditorInput \<times> bool" where
  "openEditor env candidate opts g =
     (case findEditor env (Some candidate)
             \<lparr>supportSideBySide = op_supportSideBySide opts, strictEquals = False\<rparr> g of
        None \<Rightarrow> (openNew env candidate opts g, candidate, True)
      | Some (editor, editorIndex) \<Rightarrow> (openExisting env editor editorIndex opts g, editor, False))"

section \<open>Clone and serialization\<close>

definition ge_clone :: "int \<Rightarrow> 'e EditorGroupModel \<Rightarrow> 'e EditorGroupModel" where
  "ge_clone newId g = (new_EditorGroupModel newId)
     \<lparr>ge_editors := ge_editors g, ge_mru := ge_mru g, ge_preview := ge_preview g,
      ge_selection := ge_selection g, ge_sticky := ge_sticky g\<rparr>"

record ISerializedEditorGroupModel =
  ser_id :: "int option"
  ser_locked :: bool
  ser_editors :: "(string \<times> string) list"
  ser_mru :: "int list"
  ser_preview :: "int option"
  ser_sticky :: "int option"

text \<open>
  \<open>ser e\<close> is the pair of the type id and the value when \<open>e\<close> has a serializer that can serialize
  it and returns a string.  The state of the loop is the serialized editors, the serializable ones,
  the preview index and the sticky index.
\<close>

fun serialize_loop :: "('e EditorInput \<Rightarrow> (string \<times> string) option) \<Rightarrow> 'e EditorGroupModel \<Rightarrow> int \<Rightarrow>
    'e EditorInput list \<Rightarrow> (string \<times> string) list \<times> 'e EditorInput list \<times> int option \<times> int \<Rightarrow>
    (string \<times> string) list \<times> 'e EditorInput list \<times> int option \<times> int" where
  "serialize_loop ser g i [] st = st"
| "serialize_loop ser g i (editor # es) (sers, eds, pre, sticky) =
     serialize_loop ser g (i + 1) es
       (case ser editor of
          Some s \<Rightarrow> (sers @ [s], eds @ [editor],
                     (if ge_preview g = Some editor then Some (int (length eds)) else pre), sticky)
        | None \<Rightarrow> (sers, eds, pre, if isSticky_index i g then sticky - 1 else sticky))"

definition ge_serialize :: "'e group_env \<Rightarrow> ('e EditorInput \<Rightarrow> (string \<times> string) option) \<Rightarrow>
    'e EditorGroupModel \<Rightarrow> ISerializedEditorGroupModel" where
  "ge_serialize env ser g =
     (case serialize_loop ser g 0 (ge_editors g) ([], [], None, ge_sticky g) of
        (sers, eds, pre, sticky) \<Rightarrow>
          \<lparr>ser_id = Some (ge_id g), ser_locked = ge_locked g, ser_editors = sers,
           ser_mru = filter (\<lambda>i. i \<ge> 0)
             (map (\<lambda>editor. ge_indexOf env (Some editor) eds no_match_options) (ge_mru g)),
           ser_preview = pre, ser_sticky = (if sticky \<ge> 0 then Some sticky else None)\<rparr>)"

text \<open>
  The \<open>map\<close> of \<open>deserialize\<close>: it decrements \<open>data.sticky\<close> while it runs, and compares it with the
  index in the serialized array.
\<close>

fun deserialize_loop :: "(string \<times> string \<Rightarrow> 'e EditorInput option) \<Rightarrow> int \<Rightarrow> (string \<times> string) list \<Rightarrow>
    int option \<Rightarrow> 'e EditorInput option list \<times> int option" where
  "deserialize_loop des index [] sticky = ([], sticky)"
| "deserialize_loop des index (e # es) sticky =
     (let editor = des e;
          sticky' = (case sticky of
                       Some s \<Rightarrow> if editor = None \<and> index \<le> s then Some (s - 1) else Some s
                     | None \<Rightarrow> None);
          (rest, final) = deserialize_loop des (index + 1) es sticky'
      in (editor # rest, final))"

definition coalesce :: "'a option list \<Rightarrow> 'a list" where
  "coalesce xs = map the (filter (\<lambda>x. x \<noteq> None) xs)"

text \<open>The group and the new value of the static counter \<open>IDS\<close>.\<close>

definition ge_deserialize :: "(string \<times> string \<Rightarrow> 'e EditorInput option) \<Rightarrow> int \<Rightarrow>
    ISerializedEditorGroupModel \<Rightarrow> 'e EditorGroupModel \<times> int" where
  "ge_deserialize des ids data =
     (let (i, ids') = (case ser_id data of Some i \<Rightarrow> (i, max (i + 1) ids) | None \<Rightarrow> (ids, ids + 1));
          (loaded, sticky) = deserialize_loop des 0 (ser_editors data) (ser_sticky data);
          editors = coalesce loaded;
          mru = coalesce (map (\<lambda>i. js_get editors i) (ser_mru data))
      in ((new_EditorGroupModel i)
            \<lparr>ge_locked := ser_locked data, ge_editors := editors, ge_mru := mru,
             ge_selection := (if length mru > 0 then [mru ! 0] else []),
             ge_preview := (case ser_preview data of None \<Rightarrow> None | Some p \<Rightarrow> js_get editors p),
             ge_sticky := (case sticky of None \<Rightarrow> -1 | Some s \<Rightarrow> s)\<rparr>, ids'))"

end
