(* ===== verification/EditorGroupInv.thy ===== *)
theory EditorGroupInv
  imports EditorGroup "HOL-Library.Multiset"
begin

text \<open>
  The representation invariant of \<open>EditorGroupModel\<close> and its preservation: no two open editors
  match, the most-recently-used list is a permutation of the editors with the active editor first,
  the sticky index, the preview, the selection and the transient editors refer to open editors.

  \<open>arr_inv\<close> is the part about the two arrays, \<open>sel_inv\<close> the part about the selection; an
  operation may break \<open>sel_inv\<close> half-way, so the two are tracked separately.
\<close>

section \<open>Searching among editors that do not match each other\<close>

lemma input_matches_no_options:
  "input_matches env no_match_options e c \<longleftrightarrow> e = c \<or> inputMatches env e c"
  by (cases e) (auto simp: matches_self_def no_match_options_def)

lemma indexOf_loop_cases:
  "indexOf_loop env opts c i idx xs = idx \<and> (\<forall>e \<in> set xs. \<not> input_matches env opts e c) \<or>
   (\<exists>k < length xs. indexOf_loop env opts c i idx xs = i + int k \<and> input_matches env opts (xs ! k) c)"
proof (induction env opts c i idx xs rule: indexOf_loop.induct)
  case (2 env opts c i index e es)
  let ?cont = "supportSideBySide opts \<noteq> None \<and> isSideBySide e \<and> \<not> isSideBySide c"
  consider "input_matches env opts e c" "?cont" | "input_matches env opts e c" "\<not> ?cont"
    | "\<not> input_matches env opts e c" by blast
  then show ?case
  proof cases
    case 1
    from "2.IH"(1) [OF 1] show ?thesis
    proof
      assume "\<exists>k<length es. indexOf_loop env opts c (i + 1) i es = i + 1 + int k \<and>
        input_matches env opts (es ! k) c"
      then obtain k where "k < length es" "indexOf_loop env opts c (i + 1) i es = i + 1 + int k"
        "input_matches env opts (es ! k) c" by blast
      with 1 show ?thesis by (intro disjI2 exI [of _ "Suc k"]) auto
    qed (use 1 in \<open>intro disjI2 exI [of _ 0]; auto\<close>)
  next
    case 2
    then show ?thesis by (intro disjI2 exI [of _ 0]) auto
  next
    case 3
    from "2.IH"(2) [OF 3] show ?thesis
    proof
      assume "\<exists>k<length es. indexOf_loop env opts c (i + 1) index es = i + 1 + int k \<and>
        input_matches env opts (es ! k) c"
      then obtain k where "k < length es" "indexOf_loop env opts c (i + 1) index es = i + 1 + int k"
        "input_matches env opts (es ! k) c" by blast
      with 3 show ?thesis by (intro disjI2 exI [of _ "Suc k"]) auto
    qed (use 3 in auto)
  qed
qed simp

lemma indexOf_cases:
  "ge_indexOf env (Some c) xs opts = -1 \<and> (\<forall>e \<in> set xs. \<not> input_matches env opts e c) \<or>
   (\<exists>k < length xs. ge_indexOf env (Some c) xs opts = int k \<and> input_matches env opts (xs ! k) c)"
  using indexOf_loop_cases [of env opts c 0 "-1" xs] by (simp add: ge_indexOf_def)

definition nonmatch :: "'e group_env \<Rightarrow> 'e EditorInput set \<Rightarrow> bool" where
  "nonmatch env A \<longleftrightarrow> (\<forall>a \<in> A. \<forall>b \<in> A. inputMatches env a b \<longrightarrow> a = b)"

lemma nonmatch_subset: "nonmatch env A \<Longrightarrow> B \<subseteq> A \<Longrightarrow> nonmatch env B"
  by (auto simp: nonmatch_def)

lemma indexOf_member:
  assumes "nonmatch env (set xs)" "c \<in> set xs"
  shows "\<exists>k < length xs. ge_indexOf env (Some c) xs no_match_options = int k \<and> xs ! k = c"
  using indexOf_cases [of env c xs no_match_options] assms
  by (auto simp: input_matches_no_options nonmatch_def)

lemma indexOf_nth:
  assumes "nonmatch env (set xs)" "distinct xs" "k < length xs"
  shows "ge_indexOf env (Some (xs ! k)) xs no_match_options = int k"
  using indexOf_member [of env xs "xs ! k"] assms nth_eq_iff_index_eq by fastforce

lemma findEditor_cases:
  "findEditor env (Some c) opts g = None \<and> (\<forall>e \<in> set (ge_editors g). \<not> input_matches env opts e c) \<or>
   (\<exists>k < length (ge_editors g). findEditor env (Some c) opts g = Some (ge_editors g ! k, int k) \<and>
      input_matches env opts (ge_editors g ! k) c)"
  using indexOf_cases [of env c "ge_editors g" opts] by (auto simp: findEditor_def)

lemma findEditor_member:
  assumes "nonmatch env (set (ge_editors g))" "distinct (ge_editors g)" "c \<in> set (ge_editors g)"
  obtains k where "k < length (ge_editors g)" "ge_editors g ! k = c"
    "findEditor env (Some c) no_match_options g = Some (c, int k)"
proof -
  from indexOf_member [OF assms(1,3)] obtain k where "k < length (ge_editors g)"
    "ge_indexOf env (Some c) (ge_editors g) no_match_options = int k" "ge_editors g ! k = c" by blast
  then show ?thesis by (intro that [of k]) (auto simp: findEditor_def)
qed

lemma findEditor_Some:
  assumes "findEditor env (Some c) opts g = Some (e, i)"
  obtains k where "k < length (ge_editors g)" "i = int k" "e = ge_editors g ! k" "e \<in> set (ge_editors g)"
  using findEditor_cases [of env c opts g] assms that by auto

section \<open>Array edits\<close>

lemma js_splice_delete:
  assumes "distinct xs" "k < length xs"
  shows "js_splice xs (int k) 1 [] = remove1 (xs ! k) xs"
proof -
  have "xs = take k xs @ xs ! k # drop (Suc k) xs" using assms(2) by (rule id_take_nth_drop)
  moreover have "xs ! k \<notin> set (take k xs)"
    using assms by (auto simp: in_set_conv_nth nth_eq_iff_index_eq)
  ultimately have "remove1 (xs ! k) xs = take k xs @ drop (Suc k) xs"
    by (metis remove1_append remove1.simps(2))
  moreover have "js_splice xs (int k) (int 1) [] = take k xs @ drop (Suc k) xs"
    using assms(2) js_splice_nat [of k xs 1 "[]"] by simp
  ultimately show ?thesis by simp
qed

lemma js_splice_insert:
  obtains us vs where "xs = us @ vs" "js_splice xs t 0 ys = us @ ys @ vs"
proof
  show "xs = take (js_rel_index (length xs) t) xs @ drop (js_rel_index (length xs) t) xs" by simp
  show "js_splice xs t 0 ys =
      take (js_rel_index (length xs) t) xs @ ys @ drop (js_rel_index (length xs) t) xs"
    by (simp only: js_splice_def Let_def nat_zero_as_int [symmetric] nat_0 add_0_right)
qed

lemma mset_js_splice_insert: "mset (js_splice xs t 0 ys) = mset ys + mset xs"
  by (rule js_splice_insert [of xs t ys]) (simp add: union_ac)

lemma set_js_splice_insert [simp]: "set (js_splice xs t 0 ys) = set ys \<union> set xs"
  by (rule js_splice_insert [of xs t ys]) auto

lemma length_js_splice_insert [simp]: "length (js_splice xs t 0 ys) = length ys + length xs"
  by (rule js_splice_insert [of xs t ys]) auto

lemma distinct_js_splice_insert:
  "distinct (js_splice xs t 0 [y]) \<longleftrightarrow> distinct xs \<and> y \<notin> set xs"
  by (rule js_splice_insert [of xs t "[y]"]) auto

section \<open>The invariant\<close>

definition arr_inv :: "'e group_env \<Rightarrow> 'e EditorGroupModel \<Rightarrow> bool" where
  "arr_inv env g \<longleftrightarrow> distinct (ge_editors g) \<and> nonmatch env (set (ge_editors g)) \<and>
     distinct (ge_mru g) \<and> set (ge_mru g) = set (ge_editors g)"

definition sel_inv :: "'e EditorGroupModel \<Rightarrow> bool" where
  "sel_inv g \<longleftrightarrow> distinct (ge_selection g) \<and> set (ge_selection g) \<subseteq> set (ge_editors g) \<and>
     (ge_editors g \<noteq> [] \<longrightarrow> ge_selection g \<noteq> [] \<and> hd (ge_mru g) = hd (ge_selection g))"

definition group_inv :: "'e group_env \<Rightarrow> 'e EditorGroupModel \<Rightarrow> bool" where
  "group_inv env g \<longleftrightarrow> arr_inv env g \<and> sel_inv g \<and>
     -1 \<le> ge_sticky g \<and> ge_sticky g < int (length (ge_editors g)) \<and>
     set_option (ge_preview g) \<subseteq> set (ge_editors g) \<and> ge_transient g \<subseteq> set (ge_editors g)"

lemma fire_fields [simp]:
  "ge_id (fire e g) = ge_id g" "ge_editors (fire e g) = ge_editors g" "ge_mru (fire e g) = ge_mru g"
  "ge_locked (fire e g) = ge_locked g" "ge_selection (fire e g) = ge_selection g"
  "ge_preview (fire e g) = ge_preview g" "ge_sticky (fire e g) = ge_sticky g"
  "ge_transient (fire e g) = ge_transient g"
  by (simp_all add: fire_def)

lemma activeEditor_fire [simp]: "activeEditor (fire e g) = activeEditor g"
  by (simp add: activeEditor_def)

lemma arr_inv_fire [simp]: "arr_inv env (fire e g) \<longleftrightarrow> arr_inv env g"
  by (simp add: arr_inv_def)

lemma sel_inv_fire [simp]: "sel_inv (fire e g) \<longleftrightarrow> sel_inv g"
  by (simp add: sel_inv_def)

lemma group_inv_fire [simp]: "group_inv env (fire e g) \<longleftrightarrow> group_inv env g"
  by (simp add: group_inv_def)

lemma activeEditor_hd: "activeEditor g = (case ge_selection g of [] \<Rightarrow> None | x # _ \<Rightarrow> Some x)"
  by (cases "ge_selection g") (simp_all add: activeEditor_def js_get_def)

lemma active_hd_mru: "sel_inv g \<Longrightarrow> activeEditor g = Some a \<Longrightarrow> hd (ge_mru g) = a \<and> a \<in> set (ge_editors g)"
  by (cases "ge_selection g") (auto simp: sel_inv_def activeEditor_hd)

lemma new_group_inv: "group_inv env (new_EditorGroupModel i)"
  by (simp add: group_inv_def arr_inv_def sel_inv_def nonmatch_def new_EditorGroupModel_def)

section \<open>doSetSelection\<close>

text \<open>What \<open>doSetSelection\<close> leaves alone.\<close>

lemma doSetSelection_frame [simp]:
  "ge_editors (doSetSelection env a i s g) = ge_editors g"
  "ge_sticky (doSetSelection env a i s g) = ge_sticky g"
  "ge_preview (doSetSelection env a i s g) = ge_preview g"
  "ge_transient (doSetSelection env a i s g) = ge_transient g"
  "ge_locked (doSetSelection env a i s g) = ge_locked g"
  "ge_id (doSetSelection env a i s g) = ge_id g"
  by (simp_all add: doSetSelection_def Let_def)

lemma mru_to_front:
  assumes "arr_inv env g" "a \<in> set (ge_editors g)"
  shows "js_splice (ge_mru g) (ge_indexOf env (Some a) (ge_mru g) no_match_options) 1 [] =
    remove1 a (ge_mru g)"
proof -
  have "nonmatch env (set (ge_mru g))" "a \<in> set (ge_mru g)" "distinct (ge_mru g)"
    using assms by (simp_all add: arr_inv_def)
  then obtain k where "k < length (ge_mru g)" "ge_mru g ! k = a"
    "ge_indexOf env (Some a) (ge_mru g) no_match_options = int k"
    using indexOf_member by metis
  with \<open>distinct (ge_mru g)\<close> show ?thesis using js_splice_delete [of "ge_mru g" k] by simp
qed

lemma doSetSelection_Some:
  assumes "arr_inv env g" "a \<in> set (ge_editors g)" "activeEditor g = Some a \<Longrightarrow> hd (ge_mru g) = a"
  shows "ge_selection (doSetSelection env (Some a) (Some i) s g) = a # s"
    and "ge_mru (doSetSelection env (Some a) (Some i) s g) = a # remove1 a (ge_mru g)"
proof -
  show "ge_selection (doSetSelection env (Some a) (Some i) s g) = a # s"
    by (simp add: doSetSelection_def Let_def)
  have "ge_mru g \<noteq> []" using assms(1,2) by (auto simp: arr_inv_def)
  then have same: "activeEditor g = Some a \<Longrightarrow> a # remove1 a (ge_mru g) = ge_mru g"
    using assms(3) by (cases "ge_mru g") auto
  have arr: "arr_inv env (g\<lparr>ge_selection := a # s\<rparr>)" using assms(1) by (simp add: arr_inv_def)
  have move: "js_splice (ge_mru g) (ge_indexOf env (Some a) (ge_mru g) no_match_options) 1 [] =
      remove1 a (ge_mru g)"
    using mru_to_front [OF arr, of a] assms(2) by simp
  show "ge_mru (doSetSelection env (Some a) (Some i) s g) = a # remove1 a (ge_mru g)"
    using same by (simp add: doSetSelection_def Let_def move)
qed

lemma doSetSelection_None:
  "ge_selection (doSetSelection env None i s g) = []"
  "ge_mru (doSetSelection env None i s g) = ge_mru g"
  by (simp_all add: doSetSelection_def Let_def)

lemma doSetSelection_inv:
  assumes "arr_inv env g" "a \<in> set (ge_editors g)" "activeEditor g = Some a \<Longrightarrow> hd (ge_mru g) = a"
    and "distinct (a # s)" "set s \<subseteq> set (ge_editors g)"
  shows "arr_inv env (doSetSelection env (Some a) (Some i) s g)"
    and "sel_inv (doSetSelection env (Some a) (Some i) s g)"
  using assms doSetSelection_Some [OF assms(1-3), of i s]
  by (auto simp: arr_inv_def sel_inv_def)

section \<open>Selecting by candidate\<close>

lemma collect_inactive_spec:
  assumes "arr_inv env g" "set cs \<subseteq> set (ge_editors g)" "distinct acc" "active \<notin> set acc"
    "set acc \<subseteq> set (ge_editors g)"
  shows "\<exists>s. collect_inactive env g active acc cs = Some s \<and> distinct (active # s) \<and>
    set s \<subseteq> set (ge_editors g)"
  using assms(2-)
proof (induction cs arbitrary: acc)
  case (Cons c cs)
  have "c \<in> set (ge_editors g)" using Cons.prems(1) by simp
  then obtain k where "findEditor env (Some c) no_match_options g = Some (c, int k)"
    using findEditor_member assms(1) unfolding arr_inv_def by metis
  with Cons.IH [of acc] Cons.IH [of "acc @ [c]"] Cons.prems show ?case by auto
qed auto

lemma setSelection_Some:
  assumes "arr_inv env g" "a \<in> set (ge_editors g)" "set cs \<subseteq> set (ge_editors g)"
  obtains i s where "setSelection env (Some a) cs g = doSetSelection env (Some a) (Some i) s g"
    "distinct (a # s)" "set s \<subseteq> set (ge_editors g)"
proof -
  obtain k where "findEditor env (Some a) no_match_options g = Some (a, int k)"
    using findEditor_member assms(1,2) unfolding arr_inv_def by metis
  with collect_inactive_spec [OF assms(1,3), of "[]" a] that [of "int k"] show ?thesis
    by (auto simp: setSelection_def)
qed

lemma setSelection_frame [simp]:
  "ge_editors (setSelection env a cs g) = ge_editors g"
  "ge_sticky (setSelection env a cs g) = ge_sticky g"
  "ge_preview (setSelection env a cs g) = ge_preview g"
  "ge_transient (setSelection env a cs g) = ge_transient g"
  "ge_locked (setSelection env a cs g) = ge_locked g"
  "ge_id (setSelection env a cs g) = ge_id g"
  by (auto simp: setSelection_def split: option.splits)

lemma setSelection_inv:
  assumes "arr_inv env g" "a \<in> set (ge_editors g)" "activeEditor g = Some a \<Longrightarrow> hd (ge_mru g) = a"
    and "set cs \<subseteq> set (ge_editors g)"
  shows "arr_inv env (setSelection env (Some a) cs g)" "sel_inv (setSelection env (Some a) cs g)"
    "activeEditor (setSelection env (Some a) cs g) = Some a"
proof -
  obtain i s where "setSelection env (Some a) cs g = doSetSelection env (Some a) (Some i) s g"
    "distinct (a # s)" "set s \<subseteq> set (ge_editors g)"
    using setSelection_Some [OF assms(1,2,4)] .
  with doSetSelection_inv [OF assms(1-3), of s i] doSetSelection_Some [OF assms(1-3), of i s]
  show "arr_inv env (setSelection env (Some a) cs g)" "sel_inv (setSelection env (Some a) cs g)"
    "activeEditor (setSelection env (Some a) cs g) = Some a"
    by (simp_all add: activeEditor_hd)
qed

lemma collect_inactive_sound:
  assumes "collect_inactive env g active acc cs = Some s" "distinct acc" "active \<notin> set acc"
    "set acc \<subseteq> set (ge_editors g)"
  shows "distinct (active # s) \<and> set s \<subseteq> set (ge_editors g)"
  using assms
proof (induction cs arbitrary: acc)
  case (Cons c cs)
  from Cons.prems(1) obtain e i where f: "findEditor env (Some c) no_match_options g = Some (e, i)"
    by (auto split: option.splits)
  then have "e \<in> set (ge_editors g)" using findEditor_Some by metis
  with f Cons.prems Cons.IH [of acc] Cons.IH [of "acc @ [e]"] show ?case
    by (auto split: if_splits)
qed simp

text \<open>Unknown candidates are harmless here: \<open>setSelection\<close> returns early.\<close>

lemma setSelection_group_inv:
  assumes "group_inv env g"
  shows "group_inv env (setSelection env c cs g)"
proof -
  have arr: "arr_inv env g" and sel: "sel_inv g" using assms(1) by (simp_all add: group_inv_def)
  have none: "findEditor env None no_match_options g = None" by (simp add: findEditor_def ge_indexOf_def)
  show ?thesis
  proof (cases "\<exists>c' a i s. c = Some c' \<and> findEditor env (Some c') no_match_options g = Some (a, i) \<and>
      collect_inactive env g a [] cs = Some s")
    case True
    then obtain c' a i s where 2: "c = Some c'" "findEditor env (Some c') no_match_options g = Some (a, i)"
      "collect_inactive env g a [] cs = Some s" by blast
    have a: "a \<in> set (ge_editors g)" using 2(2) findEditor_Some by metis
    have s: "distinct (a # s)" "set s \<subseteq> set (ge_editors g)"
      using collect_inactive_sound [OF 2(3)] by simp_all
    have "activeEditor g = Some a \<Longrightarrow> hd (ge_mru g) = a" using active_hd_mru [OF sel] by blast
    from doSetSelection_inv [OF arr a this s, of i] assms 2 show ?thesis
      by (simp add: setSelection_def group_inv_def)
  next
    case False
    then have "setSelection env c cs g = g"
      using none by (cases c) (auto simp: setSelection_def split: option.splits)
    with assms show ?thesis by simp
  qed
qed

lemma setActive_group_inv:
  assumes "group_inv env g"
  shows "group_inv env (fst (setActive env c g))"
proof (cases "\<exists>c' e i. c = Some c' \<and> findEditor env (Some c') no_match_options g = Some (e, i)")
  case True
  then obtain c' e i where c: "c = Some c'" "findEditor env (Some c') no_match_options g = Some (e, i)" by blast
  then have e: "e \<in> set (ge_editors g)" using findEditor_Some by metis
  have "arr_inv env g" "activeEditor g = Some e \<Longrightarrow> hd (ge_mru g) = e"
    using assms active_hd_mru by (auto simp: group_inv_def)
  from doSetSelection_inv [OF this(1) e this(2), of "[]" i] c assms show ?thesis
    by (simp add: setActive_def group_inv_def)
next
  case False
  with assms show ?thesis by (auto simp: setActive_def split: option.splits)
qed

section \<open>Closing\<close>

lemma hd_remove1: "hd xs \<noteq> e \<Longrightarrow> xs \<noteq> [] \<Longrightarrow> hd (remove1 e xs) = hd xs"
  by (cases xs) auto

lemma nextActive_other:
  assumes "arr_inv env g" "sel_inv g" "k < length (ge_editors g)" "activeEditor g = Some (ge_editors g ! k)"
    and "length (ge_mru g) > 1"
  shows "\<exists>a. nextActive env (int k) g = Some a \<and> a \<in> set (ge_editors g) \<and> a \<noteq> ge_editors g ! k"
proof -
  have d: "distinct (ge_editors g)" "distinct (ge_mru g)" "set (ge_mru g) = set (ge_editors g)"
    using assms(1) by (auto simp: arr_inv_def)
  then have len: "length (ge_editors g) = length (ge_mru g)" by (metis distinct_card)
  have hd: "hd (ge_mru g) = ge_editors g ! k" using active_hd_mru assms(2,4) by blast
  show ?thesis
  proof (cases "focusRecentEditorAfterClose env")
    case True
    obtain x y zs where m: "ge_mru g = x # y # zs"
      using assms(5) by (metis One_nat_def Suc_lessD length_0_conv length_Suc_conv less_not_refl neq_Nil_conv)
    have "y \<in> set (ge_editors g)" using m d(3) by (metis list.set_intros(1,2))
    with True m d(2) hd show ?thesis by (auto simp: nextActive_def js_get_def)
  next
    case False
    show ?thesis
    proof (cases "int k = int (length (ge_editors g)) - 1")
      case True
      with len assms(5) have k: "k = Suc (k - 1)" "k - 1 < length (ge_editors g)" by auto
      then have "js_get (ge_editors g) (int k - 1) = Some (ge_editors g ! (k - 1))"
        using js_get_nat [OF k(2)] by (metis Suc_eq_plus1 add_diff_cancel_right' int_ops(4) of_nat_Suc)
      moreover have "ge_editors g ! (k - 1) \<noteq> ge_editors g ! k"
        using k d(1) assms(3) by (simp add: nth_eq_iff_index_eq)
      ultimately show ?thesis using True False k(2) by (simp add: nextActive_def)
    next
      case ne: False
      then have k: "Suc k < length (ge_editors g)" using assms(3) by linarith
      then have "js_get (ge_editors g) (int k + 1) = Some (ge_editors g ! Suc k)"
        using js_get_nat [OF k] by (simp add: add.commute)
      moreover have "ge_editors g ! Suc k \<noteq> ge_editors g ! k"
        using k d(1) by (simp add: nth_eq_iff_index_eq)
      ultimately show ?thesis using ne False k by (simp add: nextActive_def)
    qed
  qed
qed

text \<open>
  After \<open>closeSelection\<close> the closing editor is no longer selected, unless it is the active one and
  no other is to be opened; then nothing happens.
\<close>

lemma closeSelection_frame [simp]:
  "ge_editors (closeSelection env n e i g) = ge_editors g"
  "ge_sticky (closeSelection env n e i g) = ge_sticky g"
  "ge_preview (closeSelection env n e i g) = ge_preview g"
  "ge_transient (closeSelection env n e i g) = ge_transient g"
  "ge_locked (closeSelection env n e i g) = ge_locked g"
  "ge_id (closeSelection env n e i g) = ge_id g"
  by (simp_all add: closeSelection_def Let_def)

lemma closeSelection_kept:
  assumes "arr_inv env g" "sel_inv g" "activeEditor g = Some (ge_editors g ! k)"
  shows "closeSelection env False (ge_editors g ! k) (int k) g = g"
  using assms by (simp add: closeSelection_def)

lemma closeSelection_spec:
  assumes "arr_inv env g" "sel_inv g" "k < length (ge_editors g)"
    and "openNext \<or> activeEditor g \<noteq> Some (ge_editors g ! k)"
  defines "e \<equiv> ge_editors g ! k" and "g' \<equiv> closeSelection env openNext (ge_editors g ! k) (int k) g"
  shows "arr_inv env g' \<and> distinct (ge_selection g') \<and> set (ge_selection g') \<subseteq> set (ge_editors g) - {e} \<and>
    (set (ge_editors g) \<noteq> {e} \<longrightarrow> ge_selection g' \<noteq> [] \<and> hd (ge_mru g') = hd (ge_selection g')) \<and>
    (activeEditor g \<noteq> Some e \<longrightarrow> activeEditor g' = activeEditor g \<and> ge_mru g' = ge_mru g)"
proof -
  have d: "distinct (ge_editors g)" "distinct (ge_mru g)" "set (ge_mru g) = set (ge_editors g)"
    using assms(1) by (auto simp: arr_inv_def)
  have s: "distinct (ge_selection g)" "set (ge_selection g) \<subseteq> set (ge_editors g)"
    "ge_selection g \<noteq> []" "hd (ge_mru g) = hd (ge_selection g)"
    using assms(2,3) by (auto simp: sel_inv_def)
  have e: "e \<in> set (ge_editors g)" using assms(3) by (simp add: e_def)
  have len: "length (ge_editors g) = length (ge_mru g)" using d by (metis distinct_card)
  show ?thesis
  proof (cases "activeEditor g = Some e")
    case True
    with assms(4) have n: "openNext" by (simp add: e_def)
    show ?thesis
    proof (cases "length (ge_mru g) > 1")
      case True
      obtain a where a: "nextActive env (int k) g = Some a" "a \<in> set (ge_editors g)" "a \<noteq> e"
        using nextActive_other [OF assms(1-3) _ True] \<open>activeEditor g = Some e\<close> by (auto simp: e_def)
      let ?s = "filter (\<lambda>s. s \<noteq> e \<and> Some s \<noteq> Some a) (ge_selection g)"
      have g': "g' = doSetSelection env (Some a) (Some (strict_index a 0 (ge_editors g))) ?s g"
        using \<open>activeEditor g = Some e\<close> n True a(1) by (simp add: g'_def closeSelection_def e_def)
      have ne: "activeEditor g = Some a \<Longrightarrow> hd (ge_mru g) = a" using active_hd_mru [OF assms(2)] by blast
      have "distinct (a # ?s)" "set ?s \<subseteq> set (ge_editors g)" using s by auto
      with doSetSelection_inv [OF assms(1) a(2) ne this] doSetSelection_Some [OF assms(1) a(2) ne]
        a(2,3) \<open>activeEditor g = Some e\<close>
      show ?thesis unfolding g' by (auto simp: sel_inv_def)
    next
      case False
      then have "length (ge_editors g) = 1" using len assms(3) by linarith
      then have "ge_editors g = [e]" using assms(3) by (cases "ge_editors g") (auto simp: e_def)
      moreover have "g' = doSetSelection env None None [] g"
        using \<open>activeEditor g = Some e\<close> n False by (simp add: g'_def closeSelection_def e_def)
      ultimately show ?thesis
        using assms(1) \<open>activeEditor g = Some e\<close> by (simp add: arr_inv_def doSetSelection_None)
    qed
  next
    case False
    obtain a ss where sel: "ge_selection g = a # ss" using s(3) by (cases "ge_selection g") auto
    then have a: "activeEditor g = Some a" "a \<in> set (ge_editors g)" "a \<noteq> e" "hd (ge_mru g) = a"
      using s False by (auto simp: activeEditor_hd)
    show ?thesis
    proof (cases "doIsSelected e g")
      case True
      let ?s = "filter (\<lambda>s. s \<noteq> e \<and> Some s \<noteq> Some a) (ge_selection g)"
      let ?i = "ge_indexOf env (activeEditor g) (ge_editors g) no_match_options"
      have g': "g' = doSetSelection env (Some a) (Some ?i) ?s g"
        using False a True by (simp add: g'_def closeSelection_def e_def)
      have "distinct (a # ?s)" "set ?s \<subseteq> set (ge_editors g)" using s by auto
      moreover have "a # remove1 a (ge_mru g) = ge_mru g"
        using a(4) d e by (cases "ge_mru g") auto
      ultimately show ?thesis
        using doSetSelection_inv [OF assms(1) a(2), of ?s ?i] doSetSelection_Some [OF assms(1) a(2), of ?i ?s]
          a s unfolding g' by (auto simp: sel_inv_def activeEditor_hd)
    next
      case ns: False
      then have "g' = g" using False by (simp add: g'_def closeSelection_def e_def)
      with ns assms(1) s a show ?thesis by (auto simp: doIsSelected_def)
    qed
  qed
qed

lemma ge_splice_frame [simp]:
  "ge_selection (ge_splice env i d e g) = ge_selection g"
  "ge_preview (ge_splice env i d e g) = ge_preview g"
  "ge_transient (ge_splice env i d e g) = ge_transient g"
  "ge_locked (ge_splice env i d e g) = ge_locked g"
  "ge_id (ge_splice env i d e g) = ge_id g"
  by (simp_all add: ge_splice_def Let_def)

lemma ge_splice_delete:
  assumes "arr_inv env g" "k < length (ge_editors g)"
  shows "ge_editors (ge_splice env (int k) True None g) = remove1 (ge_editors g ! k) (ge_editors g)"
    and "ge_mru (ge_splice env (int k) True None g) = remove1 (ge_editors g ! k) (ge_mru g)"
    and "ge_sticky (ge_splice env (int k) True None g) =
      (if isSticky_index (int k) g then ge_sticky g - 1 else ge_sticky g)"
  using mru_to_front [OF assms(1), of "ge_editors g ! k"] assms js_splice_delete [OF _ assms(2)]
  by (simp_all add: ge_splice_def Let_def arr_inv_def js_get_nat)

text \<open>Everything \<open>doCloseEditor\<close> does to a group whose arrays and selection are in order.\<close>

lemma doCloseEditor_spec:
  assumes "arr_inv env g" "sel_inv g" "e \<in> set (ge_editors g)"
  obtains g' k where
    "doCloseEditor env e ctx openNext g =
       (g', Some \<lparr>cr_editor = e, cr_context = ctx, cr_editorIndex = int k,
                  cr_sticky = isSticky_index (int k) g\<rparr>)"
    "k < length (ge_editors g)" "ge_editors g ! k = e"
    "ge_editors g' = remove1 e (ge_editors g)" "arr_inv env g'"
    "ge_sticky g' = (if isSticky_index (int k) g then ge_sticky g - 1 else ge_sticky g)"
    "ge_preview g' = (if ge_preview g = Some e then None else ge_preview g)"
    "ge_transient g' = ge_transient g - {e}" "ge_locked g' = ge_locked g"
    "openNext \<or> activeEditor g \<noteq> Some e \<Longrightarrow> sel_inv g'"
    "activeEditor g \<noteq> Some e \<Longrightarrow> activeEditor g' = activeEditor g"
    "\<not> openNext \<Longrightarrow> activeEditor g = Some e \<Longrightarrow> activeEditor g' = Some e"
proof -
  have d: "distinct (ge_editors g)" "nonmatch env (set (ge_editors g))" using assms(1) by (auto simp: arr_inv_def)
  obtain k where k: "k < length (ge_editors g)" "ge_editors g ! k = e"
    "ge_indexOf env (Some e) (ge_editors g) no_match_options = int k"
    using indexOf_member [OF d(2) assms(3)] by metis
  define g1 where "g1 = closeSelection env openNext e (int k) g"
  define g2 where "g2 = (if ge_preview g1 = Some e then g1\<lparr>ge_preview := None\<rparr> else g1)"
  define g3 where "g3 = g2\<lparr>ge_transient := ge_transient g2 - {e}\<rparr>"
  define g' where "g' = ge_splice env (int k) True None g3"
  have eq: "doCloseEditor env e ctx openNext g =
      (g', Some \<lparr>cr_editor = e, cr_context = ctx, cr_editorIndex = int k,
                 cr_sticky = isSticky_index (int k) g\<rparr>)"
    by (simp add: doCloseEditor_def k Let_def g'_def g3_def g2_def g1_def)
  have g3: "ge_editors g3 = ge_editors g" "ge_mru g3 = ge_mru g1" "ge_selection g3 = ge_selection g1"
    "ge_sticky g3 = ge_sticky g" "ge_locked g3 = ge_locked g"
    "ge_preview g3 = (if ge_preview g = Some e then None else ge_preview g)"
    "ge_transient g3 = ge_transient g - {e}"
    by (simp_all add: g3_def g2_def g1_def)
  have arr1: "arr_inv env g1"
  proof (cases "openNext \<or> activeEditor g \<noteq> Some e")
    case True
    with closeSelection_spec [OF assms(1,2) k(1), of openNext] k(2) show ?thesis by (simp add: g1_def)
  next
    case False
    with closeSelection_kept [OF assms(1,2), of k] k(2) assms(1) show ?thesis by (simp add: g1_def)
  qed
  then have arr3: "arr_inv env g3" using g3 by (simp add: arr_inv_def g1_def)
  have st: "isSticky_index (int k) g3 = isSticky_index (int k) g" by (simp add: isSticky_index_def g3)
  note del = ge_splice_delete [OF arr3, of k, unfolded g3(1) k(2) st g3(4), OF k(1), folded g'_def]
  have arr': "arr_inv env g'"
    using arr3 del nonmatch_subset [OF d(2)] unfolding arr_inv_def g3(1,2)
    by (auto simp: set_remove1_eq distinct_remove1)
  have sel': "sel_inv g' \<and> (activeEditor g \<noteq> Some e \<longrightarrow> activeEditor g' = activeEditor g)"
    if n: "openNext \<or> activeEditor g \<noteq> Some e"
  proof -
    have c: "distinct (ge_selection g1)" "set (ge_selection g1) \<subseteq> set (ge_editors g) - {e}"
      "set (ge_editors g) \<noteq> {e} \<longrightarrow> ge_selection g1 \<noteq> [] \<and> hd (ge_mru g1) = hd (ge_selection g1)"
      "activeEditor g \<noteq> Some e \<longrightarrow> activeEditor g1 = activeEditor g"
      using closeSelection_spec [OF assms(1,2) k(1), of openNext] k(2) n by (auto simp: g1_def)
    have "hd (ge_mru g') = hd (ge_mru g1)" if ne: "ge_editors g' \<noteq> []"
    proof -
      have "set (ge_editors g) \<noteq> {e}" using ne del(1) d(1) assms(3)
        by (metis Diff_insert_absorb empty_iff insertI1 set_empty2 set_remove1_eq mk_disjoint_insert)
      with c(2,3) have "hd (ge_mru g1) \<noteq> e" by (metis DiffD2 hd_in_set insertI1 subsetD)
      moreover have "ge_mru g1 \<noteq> []" using arr1 assms(3) by (auto simp: arr_inv_def g1_def)
      ultimately show ?thesis using del(2) hd_remove1 [of "ge_mru g1" e] g3(2) by simp
    qed
    moreover have "ge_editors g' \<noteq> [] \<Longrightarrow> set (ge_editors g) \<noteq> {e}"
      using del(1) d(1) assms(3)
      by (metis Diff_insert_absorb empty_iff insertI1 set_empty2 set_remove1_eq mk_disjoint_insert)
    moreover have "ge_selection g' = ge_selection g1" by (simp add: g'_def g3)
    moreover have "set (ge_editors g') = set (ge_editors g) - {e}"
      using del(1) d(1) by (simp add: set_remove1_eq)
    ultimately show ?thesis
      using c by (auto simp: sel_inv_def activeEditor_def)
  qed
  have kept: "activeEditor g' = Some e" if "\<not> openNext" "activeEditor g = Some e"
    using that closeSelection_kept [OF assms(1,2), of k] k(2)
    by (simp add: g'_def g3 activeEditor_def g1_def)
  show ?thesis
    by (rule that [OF eq k(1,2) del(1) arr' del(3)]) (use sel' kept in \<open>auto simp: g'_def g3\<close>)
qed

lemma closeEditor_unknown:
  "\<forall>e \<in> set (ge_editors g). \<not> input_matches env no_match_options e c \<Longrightarrow>
   closeEditor env c ctx openNext g = (g, None)"
  using indexOf_cases [of env c "ge_editors g" no_match_options]
  by (auto simp: closeEditor_def doCloseEditor_def)

text \<open>A candidate is looked up by \<open>matches\<close>; closing it closes the editor it matches.\<close>

lemma doCloseEditor_candidate:
  assumes "arr_inv env g" "e \<in> set (ge_editors g)"
    and "ge_indexOf env (Some c) (ge_editors g) no_match_options = int k" "ge_editors g ! k = e"
    and "k < length (ge_editors g)"
  shows "doCloseEditor env c ctx openNext g = doCloseEditor env e ctx openNext g"
  using indexOf_nth [of env "ge_editors g" k] assms by (simp add: doCloseEditor_def arr_inv_def)

lemma closeEditor_group_inv:
  assumes "group_inv env g"
  shows "group_inv env (fst (closeEditor env c ctx True g))"
proof -
  have arr: "arr_inv env g" and sel: "sel_inv g" using assms by (simp_all add: group_inv_def)
  consider "\<forall>e \<in> set (ge_editors g). \<not> input_matches env no_match_options e c"
    | k where "k < length (ge_editors g)" "ge_indexOf env (Some c) (ge_editors g) no_match_options = int k"
    using indexOf_cases [of env c "ge_editors g" no_match_options] by blast
  then show ?thesis
  proof cases
    case 1
    with assms show ?thesis by (simp add: closeEditor_unknown)
  next
    case (2 k)
    let ?e = "ge_editors g ! k"
    have e: "?e \<in> set (ge_editors g)" using 2(1) by simp
    have cand: "doCloseEditor env c ctx True g = doCloseEditor env ?e ctx True g"
      by (rule doCloseEditor_candidate [OF arr e 2(2) refl 2(1)])
    show ?thesis
    proof (rule doCloseEditor_spec [OF arr sel e, of ctx True])
      fix g' j
      assume a: "doCloseEditor env ?e ctx True g = (g', Some \<lparr>cr_editor = ?e, cr_context = ctx,
          cr_editorIndex = int j, cr_sticky = isSticky_index (int j) g\<rparr>)"
        "j < length (ge_editors g)" "ge_editors g' = remove1 ?e (ge_editors g)" "arr_inv env g'"
        "ge_sticky g' = (if isSticky_index (int j) g then ge_sticky g - 1 else ge_sticky g)"
        "ge_preview g' = (if ge_preview g = Some ?e then None else ge_preview g)"
        "ge_transient g' = ge_transient g - {?e}" "True \<or> activeEditor g \<noteq> Some ?e \<Longrightarrow> sel_inv g'"
      have "set (ge_editors g') = set (ge_editors g) - {?e}"
        using a(3) arr by (simp add: arr_inv_def set_remove1_eq)
      moreover have "length (ge_editors g') = length (ge_editors g) - 1"
        using a(3) e by (simp add: length_remove1)
      ultimately have "group_inv env g'"
        using assms a by (auto simp: group_inv_def isSticky_index_def split: if_splits)
      then show ?thesis by (simp add: closeEditor_def cand a(1))
    qed
  qed
qed

end
