(* ===== verification/EditorGroupOps.thy ===== *)
theory EditorGroupOps
  imports EditorGroupInv
begin

text \<open>
  The remaining operations of \<open>EditorGroupModel\<close>: transient, pin, unpin, move, stick, unstick,
  open, and what they do to the sticky editors, the first \<open>sticky + 1\<close> editors of a group.
\<close>

section \<open>Transient and pinned editors\<close>

lemma doSetTransient_frame [simp]:
  "ge_editors (doSetTransient e i t g) = ge_editors g" "ge_mru (doSetTransient e i t g) = ge_mru g"
  "ge_selection (doSetTransient e i t g) = ge_selection g" "ge_sticky (doSetTransient e i t g) = ge_sticky g"
  "ge_preview (doSetTransient e i t g) = ge_preview g" "ge_locked (doSetTransient e i t g) = ge_locked g"
  by (simp_all add: doSetTransient_def)

lemma doSetTransient_transient:
  "ge_transient (doSetTransient e i t g) = (if t then insert e (ge_transient g) else ge_transient g - {e})"
  by (auto simp: doSetTransient_def)

lemma doSetTransient_group_inv:
  "group_inv env g \<Longrightarrow> e \<in> set (ge_editors g) \<Longrightarrow> group_inv env (doSetTransient e i t g)"
  by (auto simp: group_inv_def arr_inv_def sel_inv_def doSetTransient_transient)

lemma setTransient_frame [simp]:
  "ge_editors (fst (setTransient env c t g)) = ge_editors g" "ge_mru (fst (setTransient env c t g)) = ge_mru g"
  "ge_selection (fst (setTransient env c t g)) = ge_selection g"
  "ge_sticky (fst (setTransient env c t g)) = ge_sticky g"
  "ge_preview (fst (setTransient env c t g)) = ge_preview g"
  by (auto simp: setTransient_def split: option.splits)

lemma setTransient_group_inv:
  assumes "group_inv env g"
  shows "group_inv env (fst (setTransient env c t g))"
proof (cases "findEditor env (Some c) no_match_options g")
  case (Some r)
  then obtain e i where r: "r = (e, i)" "findEditor env (Some c) no_match_options g = Some (e, i)"
    by (cases r) auto
  then have "e \<in> set (ge_editors g)" using findEditor_Some by metis
  from doSetTransient_group_inv [OF assms this] assms r show ?thesis by (simp add: setTransient_def)
qed (use assms in \<open>simp add: setTransient_def\<close>)

lemma doPin_frame [simp]:
  "ge_editors (doPin env e i g) = ge_editors g" "ge_mru (doPin env e i g) = ge_mru g"
  "ge_selection (doPin env e i g) = ge_selection g" "ge_sticky (doPin env e i g) = ge_sticky g"
  by (simp_all add: doPin_def Let_def)

lemma doPin_group_inv: "group_inv env g \<Longrightarrow> group_inv env (doPin env e i g)"
  using setTransient_group_inv [of env g e False]
  by (auto simp: doPin_def Let_def group_inv_def arr_inv_def sel_inv_def)

lemma pin_frame [simp]:
  "ge_editors (fst (pin env c g)) = ge_editors g" "ge_sticky (fst (pin env c g)) = ge_sticky g"
  "ge_mru (fst (pin env c g)) = ge_mru g" "ge_selection (fst (pin env c g)) = ge_selection g"
  by (auto simp: pin_def split: option.splits)

lemma pin_group_inv: "group_inv env g \<Longrightarrow> group_inv env (fst (pin env c g))"
  by (auto simp: pin_def doPin_group_inv split: option.splits)

lemma isPinned_iff:
  "isPinned env e g \<longleftrightarrow> (\<forall>p. ge_preview g = Some p \<longrightarrow> p \<noteq> e \<and> \<not> inputMatches env p e)"
  by (auto simp: isPinned_def isPinned_option_def ge_matches_def input_matches_no_options split: option.splits)

lemma doPin_pins: "isPinned env e (doPin env e i g)"
  by (auto simp: doPin_def Let_def isPinned_iff)

lemma doUnpin_group_inv:
  assumes "group_inv env g" "e \<in> set (ge_editors g)"
  shows "group_inv env (doUnpin env e i g)"
proof -
  let ?g = "fire (EDITOR_PIN e i) (g\<lparr>ge_preview := Some e\<rparr>)"
  have "group_inv env ?g" using assms by (simp add: group_inv_def arr_inv_def sel_inv_def)
  with closeEditor_group_inv [of env ?g _ UNPIN] assms(1) show ?thesis
    by (auto simp: doUnpin_def Let_def split: option.splits)
qed

lemma unpin_group_inv:
  assumes "group_inv env g"
  shows "group_inv env (fst (unpin env c g))"
proof (cases "findEditor env (Some c) no_match_options g")
  case (Some r)
  then obtain e i where r: "r = (e, i)" "findEditor env (Some c) no_match_options g = Some (e, i)"
    by (cases r) auto
  then have "e \<in> set (ge_editors g)" using findEditor_Some by metis
  from doUnpin_group_inv [OF assms this] r show ?thesis by (simp add: unpin_def)
qed (use assms in \<open>simp add: unpin_def\<close>)

section \<open>Moving\<close>

definition move_target :: "int \<Rightarrow> 'e EditorGroupModel \<Rightarrow> int" where
  "move_target t g = (if t \<ge> int (length (ge_editors g)) then int (length (ge_editors g)) - 1
     else if t < 0 then 0 else t)"

lemma move_target_range:
  "ge_editors g \<noteq> [] \<Longrightarrow> 0 \<le> move_target t g \<and> move_target t g < int (length (ge_editors g))"
  by (cases "ge_editors g") (auto simp: move_target_def)

text \<open>Taking an editor out and putting it back at \<open>t\<close> leaves it at position \<open>t\<close>.\<close>

lemma moved_split:
  assumes "distinct xs" "k < length xs" "t < length xs"
  shows "js_splice (js_splice xs (int k) 1 []) (int t) 0 [xs ! k] =
    take t (remove1 (xs ! k) xs) @ xs ! k # drop t (remove1 (xs ! k) xs)"
  using js_splice_delete [OF assms(1,2)] js_splice_nat [of t "remove1 (xs ! k) xs" 0 "[xs ! k]"] assms(2,3)
  by (simp add: length_remove1)

lemma mset_moved: "e \<in> set xs \<Longrightarrow> mset (take n (remove1 e xs) @ e # drop n (remove1 e xs)) = mset xs"
proof -
  assume "e \<in> set xs"
  have "mset (take n (remove1 e xs)) + mset (drop n (remove1 e xs)) = mset (remove1 e xs)"
    by (metis append_take_drop_id mset_append)
  with \<open>e \<in> set xs\<close> show ?thesis by simp
qed

lemma moveEditor_spec:
  fixes t :: int
  assumes "arr_inv env g" "k < length (ge_editors g)" "ge_editors g ! k = e"
    and "ge_indexOf env (Some c) (ge_editors g) no_match_options = int k"
  defines "g' \<equiv> fst (moveEditor env c t g)" and "t' \<equiv> move_target t g"
  shows "ge_editors g' = take (nat t') (remove1 e (ge_editors g)) @ e # drop (nat t') (remove1 e (ge_editors g))"
    and "ge_mru g' = ge_mru g" "ge_selection g' = ge_selection g" "ge_preview g' = ge_preview g"
    "ge_transient g' = ge_transient g" "ge_locked g' = ge_locked g"
    and "ge_sticky g' = (if isSticky_index (int k) g \<and> t' > ge_sticky g then ge_sticky g - 1
      else if \<not> isSticky_index (int k) g \<and> t' \<le> ge_sticky g then ge_sticky g + 1 else ge_sticky g)"
proof -
  have d: "distinct (ge_editors g)" using assms(1) by (simp add: arr_inv_def)
  have "ge_editors g \<noteq> []" using assms(2) by auto
  note r = move_target_range [OF this, of t, folded t'_def]
  then obtain m where m: "t' = int m" "m < length (ge_editors g)" by (metis nonneg_int_cases of_nat_less_iff)
  have def: "moveEditor env c t g = (if t' = int k then (g, None) else
      (let sticky = (if isSticky_index (int k) g \<and> t' > ge_sticky g then ge_sticky g - 1
              else if \<not> isSticky_index (int k) g \<and> t' \<le> ge_sticky g then ge_sticky g + 1 else ge_sticky g);
           g1 = fire (EDITOR_MOVE e (int k) t') (g\<lparr>ge_sticky := sticky, ge_editors :=
              js_splice (js_splice (ge_editors g) (int k) 1 []) t' 0 [e]\<rparr>)
       in (if sticky \<noteq> ge_sticky g then fire (EDITOR_STICKY e t') g1 else g1, Some e)))"
    unfolding moveEditor_def move_target_def [symmetric] t'_def assms(4) Let_def by (simp add: assms(3))
  have stay: "take k (remove1 e (ge_editors g)) @ e # drop k (remove1 e (ge_editors g)) = ge_editors g"
  proof -
    have x: "ge_editors g = take k (ge_editors g) @ e # drop (Suc k) (ge_editors g)"
      using id_take_nth_drop [OF assms(2)] assms(3) by simp
    have "e \<notin> set (take k (ge_editors g))"
      using d assms(2,3) by (auto simp: in_set_conv_nth nth_eq_iff_index_eq)
    then have "remove1 e (ge_editors g) = take k (ge_editors g) @ drop (Suc k) (ge_editors g)"
      by (subst x) (simp add: remove1_append)
    with x assms(2) show ?thesis by (simp add: min_absorb2)
  qed
  show "ge_editors g' = take (nat t') (remove1 e (ge_editors g)) @ e # drop (nat t') (remove1 e (ge_editors g))"
    using moved_split [OF d assms(2) m(2)] stay m(1) assms(3)
    by (auto simp: g'_def def Let_def)
  show "ge_mru g' = ge_mru g" "ge_selection g' = ge_selection g" "ge_preview g' = ge_preview g"
    "ge_transient g' = ge_transient g" "ge_locked g' = ge_locked g"
    by (simp_all add: g'_def def Let_def)
  show "ge_sticky g' = (if isSticky_index (int k) g \<and> t' > ge_sticky g then ge_sticky g - 1
      else if \<not> isSticky_index (int k) g \<and> t' \<le> ge_sticky g then ge_sticky g + 1 else ge_sticky g)"
    using r by (auto simp: g'_def def Let_def isSticky_index_def)
qed

lemma moveEditor_group_inv:
  assumes "group_inv env g"
  shows "group_inv env (fst (moveEditor env c t g))"
proof -
  have arr: "arr_inv env g" using assms by (simp add: group_inv_def)
  consider "ge_indexOf env (Some c) (ge_editors g) no_match_options = -1"
    | k where "k < length (ge_editors g)" "ge_indexOf env (Some c) (ge_editors g) no_match_options = int k"
    using indexOf_cases [of env c "ge_editors g" no_match_options] by blast
  then show ?thesis
  proof cases
    case 1
    with assms show ?thesis by (simp add: moveEditor_def)
  next
    case (2 k)
    let ?e = "ge_editors g ! k" and ?g' = "fst (moveEditor env c t g)" and ?t = "move_target t g"
    note m = moveEditor_spec [OF arr 2(1) refl 2(2), of t]
    have "?e \<in> set (ge_editors g)" using 2(1) by simp
    then have perm: "mset (ge_editors ?g') = mset (ge_editors g)" unfolding m(1) by (rule mset_moved)
    then have set: "set (ge_editors ?g') = set (ge_editors g)" by (rule mset_eq_setD)
    have dist: "distinct (ge_editors ?g')" using arr mset_eq_imp_distinct_iff [OF perm] by (simp add: arr_inv_def)
    have len: "length (ge_editors ?g') = length (ge_editors g)" using mset_eq_length [OF perm] .
    have ne: "ge_editors g \<noteq> []" using 2(1) by auto
    have "arr_inv env ?g'" using arr set dist by (simp add: arr_inv_def m(2))
    moreover have "sel_inv ?g'" using assms set ne by (simp add: group_inv_def sel_inv_def m(2,3))
    moreover have "-1 \<le> ge_sticky ?g' \<and> ge_sticky ?g' < int (length (ge_editors ?g'))"
      unfolding m(7) len using assms 2(1) move_target_range [OF ne, of t]
      by (auto simp: group_inv_def isSticky_index_def)
    ultimately show ?thesis using assms set by (simp add: group_inv_def m(4,5))
  qed
qed

section \<open>Sticky editors\<close>

definition sticky_editors :: "'e EditorGroupModel \<Rightarrow> 'e EditorInput list" where
  "sticky_editors g = take (nat (ge_sticky g + 1)) (ge_editors g)"

definition other_editors :: "'e EditorGroupModel \<Rightarrow> 'e EditorInput list" where
  "other_editors g = drop (nat (ge_sticky g + 1)) (ge_editors g)"

lemma sticky_split: "ge_editors g = sticky_editors g @ other_editors g"
  by (simp add: sticky_editors_def other_editors_def)

lemma sticky_length: "group_inv env g \<Longrightarrow> int (length (sticky_editors g)) = ge_sticky g + 1"
  by (auto simp: sticky_editors_def group_inv_def)

lemma sticky_unique:
  "ge_editors g = xs @ ys \<Longrightarrow> ge_sticky g = int (length xs) - 1 \<Longrightarrow>
   sticky_editors g = xs \<and> other_editors g = ys"
  by (simp add: sticky_editors_def other_editors_def)

lemma isSticky_index_mem:
  assumes "group_inv env g" "k < length (ge_editors g)"
  shows "isSticky_index (int k) g \<longleftrightarrow> ge_editors g ! k \<in> set (sticky_editors g)"
proof -
  have d: "distinct (ge_editors g)" using assms(1) by (simp add: group_inv_def arr_inv_def)
  have "isSticky_index (int k) g \<longleftrightarrow> k < length (sticky_editors g)"
    using sticky_length [OF assms(1)] by (auto simp: isSticky_index_def)
  also have "\<dots> \<longleftrightarrow> ge_editors g ! k \<in> set (sticky_editors g)"
  proof
    assume k: "k < length (sticky_editors g)"
    then have "ge_editors g ! k = sticky_editors g ! k" by (subst sticky_split) (simp add: nth_append)
    with k show "ge_editors g ! k \<in> set (sticky_editors g)" by simp
  next
    assume "ge_editors g ! k \<in> set (sticky_editors g)"
    then obtain j where j: "j < length (sticky_editors g)" "sticky_editors g ! j = ge_editors g ! k"
      by (auto simp: in_set_conv_nth)
    then have "ge_editors g ! j = ge_editors g ! k" by (subst sticky_split) (simp add: nth_append)
    moreover have "j < length (ge_editors g)" using j(1) by (subst sticky_split) simp
    ultimately have "j = k" using d assms(2) by (simp add: nth_eq_iff_index_eq)
    with j(1) show "k < length (sticky_editors g)" by simp
  qed
  finally show ?thesis .
qed

lemma take_moved_set:
  assumes "t \<le> n" "t \<le> length R"
  shows "set (take (Suc n) (take t R @ e # drop t R)) = insert e (set (take n R))"
proof -
  have "take (Suc n) (take t R @ e # drop t R) = take t R @ e # take (n - t) (drop t R)"
    using assms by (simp add: min_absorb2 Suc_diff_le)
  moreover have "take n R = take t R @ take (n - t) (drop t R)"
    using assms(1) by (metis le_add_diff_inverse take_add)
  ultimately show ?thesis by simp
qed

lemma remove1_sticky_split:
  assumes "group_inv env g" "e \<in> set (ge_editors g)"
  shows "remove1 e (ge_editors g) =
    (if e \<in> set (sticky_editors g) then remove1 e (sticky_editors g) @ other_editors g
     else sticky_editors g @ remove1 e (other_editors g))"
  by (subst sticky_split) (simp add: remove1_append)

text \<open>
  Moving an editor keeps the others in order, and makes it sticky exactly when it lands on a
  sticky position; the sticky editors are otherwise the same ones.
\<close>

lemma moveEditor_sticky:
  fixes t :: int
  assumes "group_inv env g" "e \<in> set (ge_editors g)"
  defines "g' \<equiv> fst (moveEditor env e t g)"
  shows "remove1 e (ge_editors g') = remove1 e (ge_editors g) \<and>
    ge_editors g' ! nat (move_target t g) = e \<and>
    set (sticky_editors g') = (if move_target t g \<le> ge_sticky g then insert e (set (sticky_editors g))
       else set (sticky_editors g) - {e})"
proof -
  have arr: "arr_inv env g" using assms(1) by (simp add: group_inv_def)
  obtain k where k: "k < length (ge_editors g)" "ge_editors g ! k = e"
    "ge_indexOf env (Some e) (ge_editors g) no_match_options = int k"
    using indexOf_member [of env "ge_editors g" e] arr assms(2) by (auto simp: arr_inv_def)
  define R where "R = remove1 e (ge_editors g)"
  define S where "S = sticky_editors g"
  define n where "n = nat (move_target t g)"
  have ne: "ge_editors g \<noteq> []" using k(1) by auto
  have n: "move_target t g = int n" "n \<le> length R"
    using move_target_range [OF ne, of t] assms(2) by (auto simp: n_def R_def length_remove1)
  note m = moveEditor_spec [OF arr k, of t, folded g'_def R_def n_def]
  have eR: "e \<notin> set R" and d: "distinct (ge_editors g)" using arr by (simp_all add: R_def arr_inv_def)
  have order: "remove1 e (ge_editors g') = R"
    unfolding m(1) using eR by (simp add: remove1_append)
      (metis append_take_drop_id in_set_takeD remove1_idem)
  have at: "ge_editors g' ! n = e" unfolding m(1) using n(2) by (simp add: nth_append)
  have sl: "int (length S) = ge_sticky g + 1" using sticky_length [OF assms(1)] by (simp add: S_def)
  have mem: "isSticky_index (int k) g \<longleftrightarrow> e \<in> set S"
    using isSticky_index_mem [OF assms(1) k(1)] k(2) by (simp add: S_def)
  have R: "R = (if e \<in> set S then remove1 e S @ other_editors g else S @ remove1 e (other_editors g))"
    using remove1_sticky_split [OF assms(1,2)] by (simp add: R_def S_def)
  have dS: "distinct S" using d by (simp add: S_def sticky_editors_def)
  have sticky: "set (sticky_editors g') = (if int n \<le> ge_sticky g then insert e (set S) else set S - {e})"
  proof (cases "e \<in> set S")
    case True
    then have lenR: "length (remove1 e S) = nat (ge_sticky g)" and pos: "0 \<le> ge_sticky g"
      using sl by (auto simp: length_remove1 nat_diff_distrib) (cases S; simp)
    then have tk: "take (nat (ge_sticky g)) R = remove1 e S" using True R by simp
    show ?thesis
    proof (cases "int n \<le> ge_sticky g")
      case le: True
      then have "sticky_editors g' = take (Suc (nat (ge_sticky g))) (take n R @ e # drop n R)"
        using m(7) mem True n(1) pos by (simp add: sticky_editors_def m(1) Suc_nat_eq_nat_zadd1 add.commute)
      with take_moved_set [of n "nat (ge_sticky g)" R e] le n(2) tk True dS show ?thesis
        by (auto simp: set_remove1_eq)
    next
      case False
      then have "sticky_editors g' = take (nat (ge_sticky g)) (take n R @ e # drop n R)"
        using m(7) mem True n(1) by (simp add: sticky_editors_def m(1))
      also have "\<dots> = remove1 e S"
      proof -
        have "nat (ge_sticky g) \<le> n" using False by linarith
        with n(2) tk show ?thesis by (simp add: min_absorb1)
      qed
      finally show ?thesis using False dS by (simp add: set_remove1_eq)
    qed
  next
    case eS: False
    then have tk: "take (nat (ge_sticky g + 1)) R = S" using R sl by (simp flip: sl)
    show ?thesis
    proof (cases "int n \<le> ge_sticky g")
      case le: True
      then have "sticky_editors g' = take (Suc (nat (ge_sticky g + 1))) (take n R @ e # drop n R)"
        using m(7) mem eS n(1) by (simp add: sticky_editors_def m(1) Suc_nat_eq_nat_zadd1 add.commute)
      moreover have "n \<le> nat (ge_sticky g + 1)" using le by linarith
      ultimately show ?thesis using take_moved_set [of n "nat (ge_sticky g + 1)" R e] le n(2) tk by simp
    next
      case False
      then have "sticky_editors g' = take (nat (ge_sticky g + 1)) (take n R @ e # drop n R)"
        using m(7) mem eS n(1) by (simp add: sticky_editors_def m(1))
      also have "\<dots> = S"
      proof -
        have "nat (ge_sticky g + 1) \<le> n" using False by linarith
        with n(2) tk show ?thesis by (simp add: min_absorb1)
      qed
      finally show ?thesis using False eS by simp
    qed
  qed
  with order at show ?thesis by (simp add: n(1) R_def S_def)
qed

lemma stick_spec:
  assumes "group_inv env g" "e \<in> set (ge_editors g)" "e \<notin> set (sticky_editors g)"
  defines "g' \<equiv> fst (stick env e g)"
  shows "sticky_editors g' = sticky_editors g @ [e] \<and> other_editors g' = remove1 e (other_editors g) \<and>
    group_inv env g'"
proof -
  have arr: "arr_inv env g" using assms(1) by (simp add: group_inv_def)
  obtain k where k: "k < length (ge_editors g)" "ge_editors g ! k = e"
    "findEditor env (Some e) no_match_options g = Some (e, int k)"
    using findEditor_member [of env g e] arr assms(2) by (auto simp: arr_inv_def)
  define g1 where "g1 = fst (pin env e g)"
  define g2 where "g2 = fst (moveEditor env e (ge_sticky g1 + 1) g1)"
  have g1: "group_inv env g1" "ge_editors g1 = ge_editors g" "ge_sticky g1 = ge_sticky g"
    using pin_group_inv [OF assms(1)] by (simp_all add: g1_def)
  have ns: "\<not> isSticky_index (int k) g" using isSticky_index_mem [OF assms(1) k(1)] k(2) assms(3) by simp
  have lt: "ge_sticky g + 1 \<le> int k" "-1 \<le> ge_sticky g"
    using ns assms(1) by (auto simp: isSticky_index_def group_inv_def split: if_splits)
  have tgt: "move_target (ge_sticky g + 1) g1 = ge_sticky g + 1"
    using lt k(1) by (simp add: move_target_def g1)
  have idx: "ge_indexOf env (Some e) (ge_editors g1) no_match_options = int k"
    using indexOf_nth [of env "ge_editors g" k] arr k(1,2) by (simp add: g1 arr_inv_def)
  have arr1: "arr_inv env g1" using g1(1) by (simp add: group_inv_def)
  have g': "g' = fire (EDITOR_STICKY e (ge_sticky g1 + 1)) (g2\<lparr>ge_sticky := ge_sticky g2 + 1\<rparr>)"
    using ns by (simp add: g'_def stick_def k doStick_def Let_def flip: g1_def g2_def)
  have st2: "ge_sticky g2 = ge_sticky g"
  proof -
    have "\<not> isSticky_index (int k) g1" using ns unfolding isSticky_index_def g1(3) .
    moreover have "\<not> move_target (ge_sticky g1 + 1) g1 \<le> ge_sticky g1" by (simp add: g1(3) tgt)
    ultimately have "ge_sticky g2 = ge_sticky g1"
      using moveEditor_spec(7) [OF arr1 _ _ idx, of e "ge_sticky g1 + 1"] k(1,2)
      by (simp only: g2_def g1(2) if_False simp_thms)
    then show ?thesis by (simp add: g1(3))
  qed
  have ed2: "ge_editors g2 = (sticky_editors g @ [e]) @ remove1 e (other_editors g)"
  proof -
    have "length (sticky_editors g) = nat (ge_sticky g + 1)" using sticky_length [OF assms(1)] by linarith
    moreover have "remove1 e (ge_editors g) = sticky_editors g @ remove1 e (other_editors g)"
      using remove1_sticky_split [OF assms(1,2)] assms(3) by simp
    ultimately show ?thesis
      using moveEditor_spec(1) [OF arr1 _ _ idx, of e "ge_sticky g1 + 1"] k(1,2)
      by (simp add: g2_def g1 tgt)
  qed
  have len: "int (length (sticky_editors g @ [e])) - 1 = ge_sticky g + 1"
    using sticky_length [OF assms(1)] by simp
  have "sticky_editors g' = sticky_editors g @ [e] \<and> other_editors g' = remove1 e (other_editors g)"
    by (rule sticky_unique) (use ed2 st2 len g' in simp_all)
  moreover have "group_inv env g'"
  proof -
    have "group_inv env g2" unfolding g2_def by (rule moveEditor_group_inv [OF g1(1)])
    moreover have "length (ge_editors g2) = length (ge_editors g)"
    proof -
      have "e \<in> set (other_editors g)" using assms(2,3) sticky_split [of g] by (metis Un_iff set_append)
      then have "0 < length (other_editors g)" "length (remove1 e (other_editors g)) = length (other_editors g) - 1"
        by (auto simp: length_remove1)
      then show ?thesis by (subst (2) sticky_split) (simp add: ed2)
    qed
    ultimately show ?thesis
      using lt k(1) by (simp add: g' group_inv_def arr_inv_def sel_inv_def st2)
  qed
  ultimately show ?thesis by blast
qed


lemma unstick_spec:
  assumes "group_inv env g" "e \<in> set (sticky_editors g)"
  defines "g' \<equiv> fst (unstick env e g)"
  shows "sticky_editors g' = remove1 e (sticky_editors g) \<and> other_editors g' = e # other_editors g \<and>
    group_inv env g'"
proof -
  have arr: "arr_inv env g" using assms(1) by (simp add: group_inv_def)
  have e: "e \<in> set (ge_editors g)" using assms(2) by (subst sticky_split) simp
  obtain k where k: "k < length (ge_editors g)" "ge_editors g ! k = e"
    "findEditor env (Some e) no_match_options g = Some (e, int k)"
    using findEditor_member [of env g e] arr e by (auto simp: arr_inv_def)
  define g1 where "g1 = fst (moveEditor env e (ge_sticky g) g)"
  have st: "isSticky_index (int k) g" using isSticky_index_mem [OF assms(1) k(1)] k(2) assms(2) by simp
  then have pos: "0 \<le> ge_sticky g" "int k \<le> ge_sticky g" by (auto simp: isSticky_index_def split: if_splits)
  have tgt: "move_target (ge_sticky g) g = ge_sticky g"
    using pos assms(1) by (simp add: move_target_def group_inv_def)
  have idx: "ge_indexOf env (Some e) (ge_editors g) no_match_options = int k"
    using indexOf_nth [of env "ge_editors g" k] arr k(1,2) by (simp add: arr_inv_def)
  note m = moveEditor_spec [OF arr k(1,2) idx, of "ge_sticky g", folded g1_def, unfolded tgt]
  have g': "g' = fire (EDITOR_STICKY e (ge_sticky g)) (g1\<lparr>ge_sticky := ge_sticky g1 - 1\<rparr>)"
    using st by (simp add: g'_def unstick_def k doUnstick_def Let_def flip: g1_def)
  have st1: "ge_sticky g1 = ge_sticky g" using m(7) st by simp
  have lenS: "length (remove1 e (sticky_editors g)) = nat (ge_sticky g)"
    using sticky_length [OF assms(1)] assms(2) by (simp add: length_remove1)
  have ed1: "ge_editors g1 = remove1 e (sticky_editors g) @ (e # other_editors g)"
    using m(1) remove1_sticky_split [OF assms(1) e] assms(2) lenS by simp
  have "sticky_editors g' = remove1 e (sticky_editors g) \<and> other_editors g' = e # other_editors g"
    by (rule sticky_unique) (use ed1 st1 lenS pos g' in simp_all)
  moreover have "group_inv env g'"
  proof -
    have "group_inv env g1" unfolding g1_def by (rule moveEditor_group_inv [OF assms(1)])
    then show ?thesis using pos by (simp add: g' group_inv_def arr_inv_def sel_inv_def st1)
  qed
  ultimately show ?thesis by blast
qed

text \<open>Closing an editor removes it from the sticky or from the other editors.\<close>

lemma closeEditor_sticky:
  fixes ctx :: EditorCloseContext and openNext :: bool
  assumes "group_inv env g" "e \<in> set (ge_editors g)"
  defines "g' \<equiv> fst (closeEditor env e ctx openNext g)"
  shows "sticky_editors g' = remove1 e (sticky_editors g) \<and> other_editors g' = remove1 e (other_editors g)"
proof -
  have arr: "arr_inv env g" "sel_inv g" and d: "distinct (ge_editors g)"
    using assms(1) by (simp_all add: group_inv_def arr_inv_def)
  show ?thesis
  proof (rule doCloseEditor_spec [OF arr assms(2), of ctx openNext])
    fix h k
    assume a: "doCloseEditor env e ctx openNext g = (h, Some \<lparr>cr_editor = e, cr_context = ctx,
        cr_editorIndex = int k, cr_sticky = isSticky_index (int k) g\<rparr>)"
      "k < length (ge_editors g)" "ge_editors g ! k = e" "ge_editors h = remove1 e (ge_editors g)"
      "ge_sticky h = (if isSticky_index (int k) g then ge_sticky g - 1 else ge_sticky g)"
    have g': "ge_editors g' = remove1 e (ge_editors g)"
      "ge_sticky g' = (if isSticky_index (int k) g then ge_sticky g - 1 else ge_sticky g)"
      using a by (simp_all add: g'_def closeEditor_def)
    have mem: "isSticky_index (int k) g \<longleftrightarrow> e \<in> set (sticky_editors g)"
      using isSticky_index_mem [OF assms(1) a(2)] a(3) by simp
    have dis: "set (sticky_editors g) \<inter> set (other_editors g) = {}"
      using d by (subst (asm) sticky_split) simp
    show ?thesis
    proof (rule sticky_unique)
      show "ge_editors g' = remove1 e (sticky_editors g) @ remove1 e (other_editors g)"
      proof (cases "e \<in> set (sticky_editors g)")
        case True
        with dis have "remove1 e (other_editors g) = other_editors g" by (intro remove1_idem) blast
        with True remove1_sticky_split [OF assms(1,2)] g'(1) show ?thesis by simp
      next
        case False
        with remove1_sticky_split [OF assms(1,2)] g'(1) show ?thesis by (simp add: remove1_idem)
      qed
      show "ge_sticky g' = int (length (remove1 e (sticky_editors g))) - 1"
      proof (cases "e \<in> set (sticky_editors g)")
        case True
        have "length (remove1 e (sticky_editors g)) = length (sticky_editors g) - 1" "0 < length (sticky_editors g)"
          using True length_pos_if_in_set [OF True] by (simp_all only: length_remove1 if_True)
        then have "int (length (remove1 e (sticky_editors g))) = int (length (sticky_editors g)) - 1"
          by linarith
        with True sticky_length [OF assms(1)] g'(2) mem show ?thesis by simp
      next
        case False
        with sticky_length [OF assms(1)] g'(2) mem show ?thesis by (simp add: remove1_idem)
      qed
    qed
  qed
qed

end
