(* ===== verification/EditorGroupOpen.thy ===== *)
theory EditorGroupOpen
  imports EditorGroupOps
begin

text \<open>
  \<open>openEditor\<close> keeps the invariant, and with it every operation of the group does: \<open>group_step\<close>
  is the step relation of an editor group under its public operations, and every reachable state
  satisfies \<open>group_inv\<close>.
\<close>

section \<open>Opening an editor that is already open\<close>

lemma doStick_group_inv:
  assumes "group_inv env g" "e \<in> set (ge_editors g)"
  shows "group_inv env (doStick env e (ge_indexOf env (Some e) (ge_editors g) no_match_options) g)"
proof -
  have arr: "nonmatch env (set (ge_editors g))" "distinct (ge_editors g)"
    using assms(1) by (simp_all add: group_inv_def arr_inv_def)
  obtain k where k: "k < length (ge_editors g)" "ge_editors g ! k = e"
    "ge_indexOf env (Some e) (ge_editors g) no_match_options = int k"
    using indexOf_member [OF arr(1) assms(2)] by metis
  show ?thesis
  proof (cases "isSticky_index (int k) g")
    case True
    with assms(1) k show ?thesis by (simp add: doStick_def)
  next
    case False
    then have "e \<notin> set (sticky_editors g)" using isSticky_index_mem [OF assms(1) k(1)] k(2) by simp
    from stick_spec [OF assms(1,2) this] have "group_inv env (fst (stick env e g))" by blast
    moreover have "fst (stick env e g) = doStick env e (int k) g"
      using k by (simp add: stick_def findEditor_def)
    ultimately show ?thesis by (simp add: k(3))
  qed
qed

lemma openExisting_group_inv:
  assumes "group_inv env g" "e \<in> set (ge_editors g)"
  shows "group_inv env (openExisting env e i opts g)"
proof -
  define g1 where "g1 = doSetTransient e i (if \<not> op_transient opts then False else isTransient env e g) g"
  define g2 where "g2 = (if open_makePinned opts then doPin env e i g1 else g1)"
  define g3 where "g3 = setSelection env (if open_makeActive opts g then Some e else activeEditor g2)
    (op_inactiveSelection opts) g2"
  define g4 where "g4 = (case op_index opts of None \<Rightarrow> g3 | Some j \<Rightarrow> fst (moveEditor env e j g3))"
  have g1: "group_inv env g1" "ge_editors g1 = ge_editors g"
    using doSetTransient_group_inv [OF assms(1,2)] by (simp_all add: g1_def)
  have g2: "group_inv env g2" "ge_editors g2 = ge_editors g"
    using doPin_group_inv [OF g1(1)] g1 by (simp_all add: g2_def)
  have g3: "group_inv env g3" "ge_editors g3 = ge_editors g"
    unfolding g3_def using setSelection_group_inv [OF g2(1)] g2(2) by simp_all
  have g4: "group_inv env g4" "e \<in> set (ge_editors g4)"
  proof -
    show inv: "group_inv env g4"
      using moveEditor_group_inv [OF g3(1)] g3(1) by (simp add: g4_def split: option.splits)
    show "e \<in> set (ge_editors g4)"
    proof (cases "op_index opts")
      case None
      with g3(2) assms(2) show ?thesis by (simp add: g4_def)
    next
      case (Some j)
      have "e \<in> set (ge_editors g3)" using g3(2) assms(2) by simp
      moreover have "nonmatch env (set (ge_editors g3))" "arr_inv env g3"
        using g3(1) by (simp_all add: group_inv_def arr_inv_def)
      ultimately obtain k where "k < length (ge_editors g3)" "ge_editors g3 ! k = e"
        "ge_indexOf env (Some e) (ge_editors g3) no_match_options = int k" using indexOf_member by metis
      from moveEditor_spec(1) [OF \<open>arr_inv env g3\<close> this, of j] Some show ?thesis by (simp add: g4_def)
    qed
  qed
  have "openExisting env e i opts g = (if open_makeSticky opts g
      then doStick env e (ge_indexOf env (Some e) (ge_editors g4) no_match_options) g4 else g4)"
    unfolding openExisting_def Let_def g4_def g3_def g2_def g1_def by (rule refl)
  with doStick_group_inv [OF g4] g4(1) show ?thesis by simp
qed

section \<open>Opening a new editor\<close>

definition fresh_input :: "'e group_env \<Rightarrow> 'e EditorInput \<Rightarrow> 'e EditorGroupModel \<Rightarrow> bool" where
  "fresh_input env e g \<longleftrightarrow> e \<notin> set (ge_editors g) \<and>
     (\<forall>a \<in> set (ge_editors g). \<not> inputMatches env a e \<and> \<not> inputMatches env e a)"

lemma input_matches_side_by_side:
  "input_matches env no_match_options a c \<Longrightarrow>
   input_matches env \<lparr>supportSideBySide = s, strictEquals = False\<rparr> a c"
  by (cases a) (auto simp: matches_self_def no_match_options_def)

lemma findEditor_None_fresh:
  assumes "findEditor env (Some c) \<lparr>supportSideBySide = s, strictEquals = False\<rparr> g = None"
    and "symp (inputMatches env)"
  shows "fresh_input env c g"
proof -
  have "\<not> input_matches env no_match_options a c" if "a \<in> set (ge_editors g)" for a
    using findEditor_cases [of env c "\<lparr>supportSideBySide = s, strictEquals = False\<rparr>" g] assms(1) that
      input_matches_side_by_side [of env a c s] by auto
  then show ?thesis
    using assms(2) by (auto simp: fresh_input_def input_matches_no_options dest: sympD)
qed

text \<open>Inserting a fresh editor.\<close>

lemma ge_splice_insert:
  fixes t :: int
  assumes "arr_inv env g" "fresh_input env e g"
  defines "g' \<equiv> ge_splice env t False (Some e) g"
  shows "arr_inv env g'" "set (ge_editors g') = insert e (set (ge_editors g))"
    "length (ge_editors g') = Suc (length (ge_editors g))" "ge_sticky g' = ge_sticky g"
    "ge_editors g' = js_splice (ge_editors g) t 0 [e]"
    "ge_editors g \<noteq> [] \<Longrightarrow> hd (ge_mru g') = hd (ge_mru g)"
proof -
  have eds: "ge_editors g' = js_splice (ge_editors g) t 0 [e]" "ge_sticky g' = ge_sticky g"
    by (simp_all add: g'_def ge_splice_def Let_def)
  have mru: "ge_mru g' = (case ge_mru g of [] \<Rightarrow> [e] | x # xs \<Rightarrow> x # e # xs)"
  proof (cases "ge_mru g")
    case (Cons x xs)
    with js_splice_nat [of 1 "ge_mru g" 0 "[e]"] show ?thesis by (simp add: g'_def ge_splice_def Let_def)
  qed (simp add: g'_def ge_splice_def Let_def)
  then have mset: "set (ge_mru g') = insert e (set (ge_mru g))" "distinct (ge_mru g') \<longleftrightarrow> distinct (ge_mru g) \<and> e \<notin> set (ge_mru g)"
    by (auto split: list.splits)
  show "set (ge_editors g') = insert e (set (ge_editors g))" "length (ge_editors g') = Suc (length (ge_editors g))"
    "ge_sticky g' = ge_sticky g" "ge_editors g' = js_splice (ge_editors g) t 0 [e]"
    by (simp_all add: eds)
  show "arr_inv env g'"
    using assms(1,2) by (auto simp: arr_inv_def eds(1) mset distinct_js_splice_insert fresh_input_def nonmatch_def)
  show "hd (ge_mru g') = hd (ge_mru g)" if "ge_editors g \<noteq> []"
    using assms(1) that mru by (cases "ge_mru g") (auto simp: arr_inv_def)
qed

lemma sel_inv_insert:
  assumes "arr_inv env g" "sel_inv g" "ge_editors g \<noteq> []" "fresh_input env e g"
  shows "sel_inv (ge_splice env t False (Some e) g)"
  using ge_splice_insert [OF assms(1,4), of t] assms(2,3) by (auto simp: sel_inv_def)

text \<open>
  The last steps of \<open>openEditor\<close> for a new editor: the group \<open>h\<close> holds it already; if it does not
  become active the selection is in order, otherwise it is about to be replaced.
\<close>

lemma open_finish:
  assumes "arr_inv env h" "e \<in> set (ge_editors h)" "set cs \<subseteq> set (ge_editors h)"
    and "\<not> act \<Longrightarrow> sel_inv h" "act \<Longrightarrow> activeEditor h \<noteq> Some e"
    and "-1 \<le> ge_sticky h" "ge_sticky h < int (length (ge_editors h))"
    and "set_option (ge_preview h) \<subseteq> set (ge_editors h)" "ge_transient h \<subseteq> set (ge_editors h)"
  shows "group_inv env (setSelection env (if act then Some e else activeEditor h) cs h)"
proof (cases act)
  case True
  have "activeEditor h = Some e \<Longrightarrow> hd (ge_mru h) = e" using assms(5) True by blast
  from setSelection_inv [OF assms(1,2) this assms(3)] assms True show ?thesis by (simp add: group_inv_def)
next
  case False
  then have "group_inv env h" using assms by (simp add: group_inv_def)
  from setSelection_group_inv [OF this] False show ?thesis by simp
qed

lemma openNew_insert_inv:
  assumes "group_inv env g" "fresh_input env e g"
    and "set (op_inactiveSelection opts) \<subseteq> set (ge_editors g)"
    and "open_makePinned opts \<or> ge_preview g = None"
  shows "group_inv env (openNew env e opts g)"
proof -
  define g1 where "g1 = (if open_makeSticky opts g then g\<lparr>ge_sticky := ge_sticky g + 1\<rparr> else g)"
  define t where "t = (if open_makeSticky opts g \<and> \<not> isSticky_index (open_position env opts (open_makeSticky opts g) g) g1
    then ge_sticky g1 else open_position env opts (open_makeSticky opts g) g)"
  define g2 where "g2 = ge_splice env t False (Some e) g1"
  define g3 where "g3 = (if op_transient opts then doSetTransient e t True g2 else g2)"
  define g4 where "g4 = (if open_makePinned opts then g3 else g3\<lparr>ge_preview := Some e\<rparr>)"
  define g5 where "g5 = fire (EDITOR_OPEN e t) g4"
  have arr: "arr_inv env g" and sel: "sel_inv g" using assms(1) by (simp_all add: group_inv_def)
  have g1: "ge_editors g1 = ge_editors g" "ge_mru g1 = ge_mru g" "ge_selection g1 = ge_selection g"
    "ge_preview g1 = ge_preview g" "ge_transient g1 = ge_transient g"
    "-1 \<le> ge_sticky g1" "ge_sticky g1 \<le> int (length (ge_editors g))"
    using assms(1) by (auto simp: g1_def group_inv_def)
  then have arr1: "arr_inv env g1" and sel1: "sel_inv g1" and fr1: "fresh_input env e g1"
    using arr sel assms(2) by (simp_all add: arr_inv_def sel_inv_def fresh_input_def)
  note s = ge_splice_insert [OF arr1 fr1, of t, folded g2_def]
  have pv3: "\<not> open_makePinned opts \<Longrightarrow> ge_preview g3 = None"
    using assms(4) g1(4) by (simp add: g3_def g2_def)
  have eq: "openNew env e opts g = setSelection env
      (if open_makeActive opts g then Some e else activeEditor g5) (op_inactiveSelection opts) g5"
    using assms(4) pv3
    by (auto simp: openNew_def Let_def g5_def g4_def g3_def g2_def t_def g1_def)
  have h: "ge_editors g5 = ge_editors g2" "ge_mru g5 = ge_mru g2" "ge_selection g5 = ge_selection g"
    "ge_sticky g5 = ge_sticky g1"
    "set_option (ge_preview g5) \<subseteq> insert e (set_option (ge_preview g))"
    "ge_transient g5 \<subseteq> insert e (ge_transient g)"
    using g1 s(4) by (auto simp: g5_def g4_def g3_def g2_def doSetTransient_transient)
  show ?thesis
    unfolding eq
  proof (rule open_finish)
    show "arr_inv env g5" using s(1) by (simp add: arr_inv_def h(1,2))
    show "e \<in> set (ge_editors g5)" "set (op_inactiveSelection opts) \<subseteq> set (ge_editors g5)"
      using assms(3) s(2) g1(1) by (auto simp: h(1))
    show "sel_inv g5" if "\<not> open_makeActive opts g"
    proof -
      have "ge_editors g1 \<noteq> []"
        using that sel by (auto simp: open_makeActive_def g1(1) activeEditor_hd sel_inv_def)
      from sel_inv_insert [OF arr1 sel1 this fr1, of t] show ?thesis
        using g1(3) by (simp add: sel_inv_def h(1-3) flip: g2_def) (simp add: g2_def)
    qed
    show "activeEditor g5 \<noteq> Some e"
      using active_hd_mru [OF sel, of e] assms(2) by (auto simp: activeEditor_def h(3) fresh_input_def)
    show "-1 \<le> ge_sticky g5" "ge_sticky g5 < int (length (ge_editors g5))"
      using g1 s(3) by (simp_all add: h)
    show "set_option (ge_preview g5) \<subseteq> set (ge_editors g5)" "ge_transient g5 \<subseteq> set (ge_editors g5)"
      using h(5,6) s(2) assms(1) g1(1) by (auto simp: h(1) group_inv_def)
  qed
qed

lemma openNew_replace_inv:
  assumes "group_inv env g" "fresh_input env e g"
    and "set (op_inactiveSelection opts) \<subseteq> set (ge_editors g) - {p}"
    and "\<not> open_makePinned opts" "ge_preview g = Some p"
  shows "group_inv env (openNew env e opts g)"
proof -
  define act where "act = open_makeActive opts g"
  define g1 where "g1 = (if open_makeSticky opts g then g\<lparr>ge_sticky := ge_sticky g + 1\<rparr> else g)"
  define t where "t = (if open_makeSticky opts g \<and> \<not> isSticky_index (open_position env opts (open_makeSticky opts g) g) g1
    then ge_sticky g1 else open_position env opts (open_makeSticky opts g) g)"
  define g3 where "g3 = (if op_transient opts then doSetTransient e t True g1 else g1)"
  define t' where "t' = (if t > ge_indexOf env (Some p) (ge_editors g3) no_match_options then t - 1 else t)"
  define g4 where "g4 = (replaceEditor env p e t' (\<not> act) g3)\<lparr>ge_preview := Some e\<rparr>"
  define g5 where "g5 = fire (EDITOR_OPEN e t') g4"
  have arr: "arr_inv env g" and sel: "sel_inv g" using assms(1) by (simp_all add: group_inv_def)
  have p: "p \<in> set (ge_editors g)" using assms(1,5) by (simp add: group_inv_def)
  have g3: "ge_editors g3 = ge_editors g" "ge_mru g3 = ge_mru g" "ge_selection g3 = ge_selection g"
    "ge_preview g3 = Some p" "ge_transient g3 \<subseteq> insert e (ge_transient g)" "ge_sticky g3 = ge_sticky g1"
    using assms(5) by (auto simp: g3_def g1_def doSetTransient_transient)
  have act3: "activeEditor g3 = activeEditor g" by (simp add: activeEditor_def g3(3))
  have arr3: "arr_inv env g3" and sel3: "sel_inv g3" and p3: "p \<in> set (ge_editors g3)"
    using arr sel p by (simp_all add: arr_inv_def sel_inv_def g3)
  have eq: "openNew env e opts g = setSelection env (if act then Some e else activeEditor g5)
      (op_inactiveSelection opts) g5"
    using assms(4,5) g3(4)
    by (auto simp: openNew_def Let_def g5_def g4_def g3_def t_def t'_def g1_def act_def)
  have notp: "\<not> act \<Longrightarrow> activeEditor g \<noteq> Some p"
    using assms(4,5) by (auto simp: act_def open_makeActive_def)
  show ?thesis
  proof (rule doCloseEditor_spec [OF arr3 sel3 p3, of REPLACE "\<not> act"])
    fix h k
    assume a: "doCloseEditor env p REPLACE (\<not> act) g3 = (h, Some \<lparr>cr_editor = p, cr_context = REPLACE,
        cr_editorIndex = int k, cr_sticky = isSticky_index (int k) g3\<rparr>)"
      "k < length (ge_editors g3)" "ge_editors h = remove1 p (ge_editors g3)" "arr_inv env h"
      "ge_sticky h = (if isSticky_index (int k) g3 then ge_sticky g3 - 1 else ge_sticky g3)"
      "ge_transient h = ge_transient g3 - {p}"
      "\<not> act \<or> activeEditor g3 \<noteq> Some p \<Longrightarrow> sel_inv h"
      "activeEditor g3 \<noteq> Some p \<Longrightarrow> activeEditor h = activeEditor g3"
      "\<not> \<not> act \<Longrightarrow> activeEditor g3 = Some p \<Longrightarrow> activeEditor h = Some p"
    have edh: "set (ge_editors h) = set (ge_editors g) - {p}" "length (ge_editors g) = Suc (length (ge_editors h))"
      using a(3) arr p by (simp_all add: arr_inv_def g3(1) set_remove1_eq length_remove1)
        (metis length_pos_if_in_set Suc_pred)
    have frh: "fresh_input env e h" using assms(2) edh(1) by (auto simp: fresh_input_def)
    note s = ge_splice_insert [OF a(4) frh, of t']
    have f5: "ge_editors g5 = ge_editors (ge_splice env t' False (Some e) h)"
      "ge_mru g5 = ge_mru (ge_splice env t' False (Some e) h)" "ge_selection g5 = ge_selection h"
      "ge_sticky g5 = ge_sticky h" "ge_preview g5 = Some e" "ge_transient g5 = ge_transient h"
      using s(4) by (simp_all add: g5_def g4_def replaceEditor_def a(1) Let_def)
    have actp: "activeEditor h \<noteq> Some e"
    proof (cases "activeEditor g3 = Some p")
      case True
      then have act using notp act3 by auto
      with a(9) True assms(2) p show ?thesis by (auto simp: fresh_input_def)
    next
      case False
      with a(8) active_hd_mru [OF sel, of e] act3 assms(2) show ?thesis by (auto simp: fresh_input_def)
    qed
    have k: "isSticky_index (int k) g3 \<longleftrightarrow> 0 \<le> ge_sticky g1 \<and> int k \<le> ge_sticky g1"
      by (auto simp: isSticky_index_def g3(6))
    have st1: "-1 \<le> ge_sticky g1" "ge_sticky g1 \<le> int (length (ge_editors g))"
      using assms(1) by (auto simp: g1_def group_inv_def)
    show ?thesis
      unfolding eq
    proof (rule open_finish)
      show "arr_inv env g5" using s(1) by (simp add: arr_inv_def f5)
      show "e \<in> set (ge_editors g5)" "set (op_inactiveSelection opts) \<subseteq> set (ge_editors g5)"
        using assms(3) s(2) edh(1) by (auto simp: f5)
      show "sel_inv g5" if na: "\<not> act"
      proof -
        have "sel_inv h" using a(7) na by blast
        moreover have "ge_editors h \<noteq> []"
        proof -
          obtain x where x: "activeEditor g = Some x" using na by (auto simp: act_def open_makeActive_def)
          then have "x \<in> set (ge_editors h)" using active_hd_mru [OF sel] notp [OF na] edh(1) by auto
          then show ?thesis by auto
        qed
        ultimately show ?thesis
          using sel_inv_insert [OF a(4) _ _ frh, of t'] by (simp add: sel_inv_def f5)
      qed
      show "activeEditor g5 \<noteq> Some e" using actp by (simp add: activeEditor_def f5(3))
      show "-1 \<le> ge_sticky g5" using a(5) k st1 g3(6) by (auto simp: f5(4))
      show "ge_sticky g5 < int (length (ge_editors g5))"
        using a(2,5) k st1 g3 s(3) edh(2) by (auto simp: f5(1,4))
      show "set_option (ge_preview g5) \<subseteq> set (ge_editors g5)" using s(2) by (simp add: f5)
      show "ge_transient g5 \<subseteq> set (ge_editors g5)"
        using a(6) g3(5) s(2) edh(1) assms(1) by (auto simp: f5 group_inv_def)
    qed
  qed
qed

text \<open>
  The inactive selection must consist of editors that stay open; otherwise \<open>setSelection\<close> returns
  early and a group that had no other editor, or whose active preview was replaced, is left with a
  selection that is not among its editors.
\<close>

definition inactive_ok :: "'e IEditorOpenOptions \<Rightarrow> 'e EditorGroupModel \<Rightarrow> bool" where
  "inactive_ok opts g \<longleftrightarrow>
     (\<forall>c \<in> set (op_inactiveSelection opts). c \<in> set (ge_editors g) \<and> ge_preview g \<noteq> Some c)"

lemma openEditor_group_inv:
  assumes "group_inv env g" "symp (inputMatches env)" "inactive_ok opts g"
  shows "group_inv env (fst (openEditor env c opts g))"
proof -
  let ?o = "\<lparr>supportSideBySide = op_supportSideBySide opts, strictEquals = False\<rparr>"
  have inact: "set (op_inactiveSelection opts) \<subseteq> set (ge_editors g)"
    "\<And>p. ge_preview g = Some p \<Longrightarrow> set (op_inactiveSelection opts) \<subseteq> set (ge_editors g) - {p}"
    using assms(3) by (auto simp: inactive_ok_def)
  show ?thesis
  proof (cases "findEditor env (Some c) ?o g")
    case None
    note fr = findEditor_None_fresh [OF None assms(2)]
    show ?thesis
    proof (cases "open_makePinned opts \<or> ge_preview g = None")
      case True
      from openNew_insert_inv [OF assms(1) fr inact(1) True] None show ?thesis by (simp add: openEditor_def)
    next
      case False
      then obtain p where p: "\<not> open_makePinned opts" "ge_preview g = Some p" by auto
      from openNew_replace_inv [OF assms(1) fr inact(2) [OF p(2)] p] None show ?thesis
        by (simp add: openEditor_def)
    qed
  next
    case (Some r)
    then obtain e i where r: "findEditor env (Some c) ?o g = Some (e, i)" by (cases r) auto
    then have "e \<in> set (ge_editors g)" using findEditor_Some by metis
    from openExisting_group_inv [OF assms(1) this] r show ?thesis by (simp add: openEditor_def)
  qed
qed

end
