(* ===== verification/EditorGroupRuns.thy ===== *)
theory EditorGroupRuns
  imports EditorGroupOpen
begin

text \<open>
  An editor group as a transition system, where a new editor lands relative to the sticky ones, and
  the round trip of \<open>serialize\<close> and \<open>deserialize\<close>.
\<close>

section \<open>Reachable groups\<close>

inductive group_step :: "'e group_env \<Rightarrow> 'e EditorGroupModel \<Rightarrow> 'e EditorGroupModel \<Rightarrow> bool" for env where
  open_editor: "inactive_ok opts g \<Longrightarrow> group_step env g (fst (openEditor env c opts g))"
| close_editor: "group_step env g (fst (closeEditor env c ctx True g))"
| move_editor: "group_step env g (fst (moveEditor env c t g))"
| set_active: "group_step env g (fst (setActive env co g))"
| set_selection: "group_step env g (setSelection env (Some c) cs g)"
| pin_editor: "group_step env g (fst (pin env c g))"
| unpin_editor: "group_step env g (fst (unpin env c g))"
| stick_editor: "group_step env g (fst (stick env c g))"
| unstick_editor: "group_step env g (fst (unstick env c g))"
| set_transient: "group_step env g (fst (setTransient env c t g))"
| lock_group: "group_step env g (ge_lock l g)"
| set_index: "group_step env g (setIndex g)"
| set_label: "group_step env g (setLabel g)"

inductive group_reachable :: "'e group_env \<Rightarrow> int \<Rightarrow> 'e EditorGroupModel \<Rightarrow> bool" for env i where
  initial: "group_reachable env i (new_EditorGroupModel i)"
| step: "group_reachable env i g \<Longrightarrow> group_step env g g' \<Longrightarrow> group_reachable env i g'"

inductive_cases group_stepE: "group_step env g g'"

lemma findEditor_indexOf:
  assumes "group_inv env g" "findEditor env (Some c) opts g = Some (e, i)"
  obtains k where "k < length (ge_editors g)" "ge_editors g ! k = e" "i = int k"
    "ge_indexOf env (Some e) (ge_editors g) no_match_options = i"
    "findEditor env (Some e) no_match_options g = Some (e, i)"
proof -
  obtain k where k: "k < length (ge_editors g)" "i = int k" "e = ge_editors g ! k"
    using findEditor_Some [OF assms(2)] by metis
  have "ge_indexOf env (Some e) (ge_editors g) no_match_options = int k"
    using indexOf_nth [of env "ge_editors g" k] assms(1) k by (simp add: group_inv_def arr_inv_def)
  with k show ?thesis by (intro that [of k]) (auto simp: findEditor_def)
qed

lemma stick_group_inv:
  assumes "group_inv env g"
  shows "group_inv env (fst (stick env c g))"
proof (cases "findEditor env (Some c) no_match_options g")
  case (Some r)
  then obtain e i where f: "findEditor env (Some c) no_match_options g = Some (e, i)" by (cases r) auto
  obtain k where k: "k < length (ge_editors g)" "ge_editors g ! k = e"
    "ge_indexOf env (Some e) (ge_editors g) no_match_options = i"
    using findEditor_indexOf [OF assms f] by metis
  then have "e \<in> set (ge_editors g)" by auto
  from doStick_group_inv [OF assms this] f k(3) show ?thesis by (simp add: stick_def)
qed (use assms in \<open>simp add: stick_def\<close>)

lemma unstick_group_inv:
  assumes "group_inv env g"
  shows "group_inv env (fst (unstick env c g))"
proof (cases "findEditor env (Some c) no_match_options g")
  case (Some r)
  then obtain e i where f: "findEditor env (Some c) no_match_options g = Some (e, i)" by (cases r) auto
  obtain k where k: "k < length (ge_editors g)" "ge_editors g ! k = e" "i = int k"
    "findEditor env (Some e) no_match_options g = Some (e, i)"
    using findEditor_indexOf [OF assms f] by metis
  have same: "fst (unstick env c g) = fst (unstick env e g)" using f k(4) by (simp add: unstick_def)
  show ?thesis
  proof (cases "e \<in> set (sticky_editors g)")
    case True
    from unstick_spec [OF assms True] same show ?thesis by simp
  next
    case False
    then have "\<not> isSticky_index (int k) g" using isSticky_index_mem [OF assms k(1)] k(2) by simp
    with k(3,4) same assms show ?thesis by (simp add: unstick_def doUnstick_def)
  qed
qed (use assms in \<open>simp add: unstick_def\<close>)

lemma group_step_inv:
  assumes "group_step env g g'" "group_inv env g" "symp (inputMatches env)"
  shows "group_inv env g'"
  using assms
proof (cases rule: group_step.cases)
  case (lock_group l)
  with assms(2) show ?thesis by (simp add: ge_lock_def group_inv_def arr_inv_def sel_inv_def)
qed (use assms in \<open>simp_all add: openEditor_group_inv closeEditor_group_inv moveEditor_group_inv
  setActive_group_inv setSelection_group_inv pin_group_inv unpin_group_inv stick_group_inv
  unstick_group_inv setTransient_group_inv setIndex_def setLabel_def\<close>)

lemma group_reachable_inv:
  assumes "group_reachable env i g" "symp (inputMatches env)"
  shows "group_inv env g"
  using assms(1)
proof induction
  case initial
  show ?case by (rule new_group_inv)
next
  case (step g g')
  with group_step_inv assms(2) show ?case by blast
qed

lemma clone_group_inv:
  "group_inv env g \<Longrightarrow> group_inv env (ge_clone i g)"
  by (simp add: ge_clone_def new_EditorGroupModel_def group_inv_def arr_inv_def sel_inv_def)

section \<open>Where a new editor lands\<close>

lemma open_position_range:
  assumes "group_inv env g" "case op_index opts of None \<Rightarrow> True | Some i \<Rightarrow> 0 \<le> i"
  shows "0 \<le> open_position env opts (open_makeSticky opts g) g"
    and "\<not> open_makeSticky opts g \<Longrightarrow>
      \<not> isSticky_index (open_position env opts (open_makeSticky opts g) g) g"
proof -
  have st: "-1 \<le> ge_sticky g" "ge_sticky g < int (length (ge_editors g))"
    using assms(1) by (simp_all add: group_inv_def)
  have act: "0 \<le> ge_indexOf env (activeEditor g) (ge_editors g) no_match_options" if "ge_editors g \<noteq> []"
  proof -
    have "sel_inv g" "nonmatch env (set (ge_editors g))"
      using assms(1) by (simp_all add: group_inv_def arr_inv_def)
    moreover from this that obtain a where "activeEditor g = Some a"
      by (cases "ge_selection g") (auto simp: sel_inv_def activeEditor_hd)
    ultimately show ?thesis using active_hd_mru indexOf_member by (metis of_nat_0_le_iff)
  qed
  have neg: "-1 \<le> ge_indexOf env c xs no_match_options" for c xs
  proof (cases c)
    case (Some a)
    with indexOf_cases [of env a xs no_match_options] show ?thesis by auto
  qed (simp add: ge_indexOf_def)
  have len: "\<not> isSticky_index (int (length (ge_editors g))) g" using st by (simp add: isSticky_index_def)
  have beyond: "\<not> isSticky_index (ge_sticky g + 1) g" by (simp add: isSticky_index_def)
  show "0 \<le> open_position env opts (open_makeSticky opts g) g"
    using assms(2) act st neg [of "activeEditor g" "ge_editors g"]
    by (auto simp: open_position_def Let_def split: option.splits if_splits)
  show "\<not> isSticky_index (open_position env opts (open_makeSticky opts g) g) g"
    if "\<not> open_makeSticky opts g"
    using that len beyond by (auto simp: open_position_def Let_def open_makeSticky_def split: option.splits)
qed

text \<open>
  A new editor that replaces no preview becomes the first of the other editors or later, unless it
  is to be sticky: then it joins the sticky ones.  No other editor changes sides.
\<close>

lemma openNew_sticky:
  assumes "group_inv env g" "fresh_input env e g"
    and "case op_index opts of None \<Rightarrow> True | Some i \<Rightarrow> 0 \<le> i"
    and "open_makePinned opts \<or> ge_preview g = None"
  defines "g' \<equiv> openNew env e opts g"
  shows "remove1 e (sticky_editors g') = sticky_editors g \<and> remove1 e (other_editors g') = other_editors g \<and>
    (e \<in> set (sticky_editors g') \<longleftrightarrow> open_makeSticky opts g) \<and> e \<in> set (ge_editors g')"
proof -
  define s where "s = open_makeSticky opts g"
  define g1 where "g1 = (if s then g\<lparr>ge_sticky := ge_sticky g + 1\<rparr> else g)"
  define t0 where "t0 = open_position env opts s g"
  define t where "t = (if s \<and> \<not> isSticky_index t0 g1 then ge_sticky g1 else t0)"
  have pos: "0 \<le> t0" "\<not> s \<Longrightarrow> \<not> isSticky_index t0 g"
    using open_position_range [OF assms(1,3)] by (simp_all add: t0_def s_def)
  have st: "-1 \<le> ge_sticky g" "ge_sticky g < int (length (ge_editors g))"
    using assms(1) by (simp_all add: group_inv_def)
  have g1: "ge_editors g1 = ge_editors g" "ge_sticky g1 = (if s then ge_sticky g + 1 else ge_sticky g)"
    by (simp_all add: g1_def)
  have t: "0 \<le> t" "s \<Longrightarrow> t \<le> ge_sticky g + 1" "\<not> s \<Longrightarrow> ge_sticky g + 1 \<le> t"
    using pos st by (auto simp: t_def g1 isSticky_index_def split: if_splits)
  have fin: "ge_editors g' = js_splice (ge_editors g) t 0 [e] \<and> ge_sticky g' = ge_sticky g1"
    using assms(4)
    by (auto simp: g'_def openNew_def Let_def t_def t0_def g1_def s_def ge_splice_def)
  define n where "n = js_rel_index (length (ge_editors g)) t"
  have n: "n \<le> length (ge_editors g)" "int n = min t (int (length (ge_editors g)))"
    using t(1) by (auto simp: n_def js_rel_index_def)
  have eds: "ge_editors g' = take n (ge_editors g) @ e # drop n (ge_editors g)"
    using fin by (simp add: js_splice_def n_def Let_def)
  have eS: "e \<notin> set (sticky_editors g)" "e \<notin> set (other_editors g)"
    using assms(2) by (auto simp: fresh_input_def sticky_editors_def other_editors_def
        dest: in_set_takeD in_set_dropD)
  have lenS: "int (length (sticky_editors g)) = ge_sticky g + 1" by (rule sticky_length [OF assms(1)])
  have split: "ge_editors g = sticky_editors g @ other_editors g" by (rule sticky_split)
  have e: "e \<in> set (ge_editors g')" unfolding eds by simp
  show ?thesis
  proof (cases s)
    case True
    then have le: "n \<le> length (sticky_editors g)" using t(2) n(2) lenS by linarith
    let ?S = "take n (sticky_editors g) @ e # drop n (sticky_editors g)"
    have "ge_editors g' = ?S @ other_editors g"
      using le unfolding eds by (subst (1 2) split) simp
    moreover have "ge_sticky g' = int (length ?S) - 1" using fin g1(2) True lenS le by simp
    ultimately have "sticky_editors g' = ?S \<and> other_editors g' = other_editors g" by (rule sticky_unique)
    moreover have "e \<notin> set (take n (sticky_editors g))" using eS(1) by (auto dest: in_set_takeD)
    ultimately show ?thesis
      using eS(2) e True by (simp add: remove1_append remove1_idem s_def)
  next
    case False
    then have le: "length (sticky_editors g) \<le> n" using t(3) n lenS st by linarith
    let ?m = "n - length (sticky_editors g)"
    let ?O = "take ?m (other_editors g) @ e # drop ?m (other_editors g)"
    have "ge_editors g' = sticky_editors g @ ?O"
      using le unfolding eds by (subst (1 2) split) simp
    moreover have "ge_sticky g' = int (length (sticky_editors g)) - 1" using fin g1(2) False lenS by simp
    ultimately have "sticky_editors g' = sticky_editors g \<and> other_editors g' = ?O" by (rule sticky_unique)
    moreover have "e \<notin> set (take ?m (other_editors g))" using eS(2) by (auto dest: in_set_takeD)
    ultimately show ?thesis
      using eS e False by (simp add: remove1_append remove1_idem s_def)
  qed
qed

section \<open>Serialization\<close>

lemma serialize_loop_spec:
  "serialize_loop ser g i es (sers, eds, pre, sticky) =
     (sers @ map (\<lambda>e. the (ser e)) (filter (\<lambda>e. ser e \<noteq> None) es),
      eds @ filter (\<lambda>e. ser e \<noteq> None) es,
      snd (fold (\<lambda>e (n, p). if ser e \<noteq> None
                 then (n + 1, if ge_preview g = Some e then Some (int n) else p) else (n, p))
        es (length eds, pre)),
      sticky - int (length (filter (\<lambda>(j, e). ser e = None \<and> isSticky_index j g)
        (zip (upto_from i (length es)) es))))"
proof (induction es arbitrary: i sers eds pre sticky)
  case (Cons e es)
  show ?case by (cases "ser e") (simp_all add: Cons.IH)
qed simp

lemma preview_fold:
  "distinct es \<Longrightarrow> snd (fold (\<lambda>e (n, p). if P e then (n + 1, if pv = Some e then Some (int n) else p) else (n, p))
     es (n0, p0)) =
   (case pv of None \<Rightarrow> p0
    | Some x \<Rightarrow> if x \<in> set es \<and> P x then Some (int (n0 + length (takeWhile (\<lambda>e. e \<noteq> x) (filter P es)))) else p0)"
proof (induction es arbitrary: n0 p0)
  case (Cons e es)
  then show ?case by (auto split: option.splits)
qed (simp split: option.splits)

lemma count_sticky_unserializable:
  assumes "-1 \<le> ge_sticky g" "ge_sticky g < int (length es)"
  shows "length (filter (\<lambda>(j, e). Q e \<and> isSticky_index j g) (zip (upto_from 0 (length es)) es)) =
    length (filter Q (take (nat (ge_sticky g + 1)) es))"
proof -
  have "length (filter (\<lambda>(j, e). Q e \<and> isSticky_index j g) (zip (upto_from i (length es)) es)) =
    length (filter Q (take (nat (ge_sticky g + 1 - i)) es))" if "0 \<le> i" for i
    using that
  proof (induction es arbitrary: i)
    case (Cons e es)
    have s: "isSticky_index i g \<longleftrightarrow> i \<le> ge_sticky g" using Cons.prems assms(1) by (auto simp: isSticky_index_def)
    show ?case
    proof (cases "i \<le> ge_sticky g")
      case True
      then have "nat (ge_sticky g + 1 - i) = Suc (nat (ge_sticky g + 1 - (i + 1)))" by linarith
      with Cons.IH [of "i + 1"] Cons.prems s True show ?thesis by simp
    next
      case False
      then have "nat (ge_sticky g + 1 - i) = 0" "nat (ge_sticky g + 1 - (i + 1)) = 0" by linarith+
      with Cons.IH [of "i + 1"] Cons.prems s False show ?thesis by simp
    qed
  qed simp
  from this [of 0] show ?thesis by simp
qed

lemma deserialize_loop_all:
  "(\<And>x. x \<in> set xs \<Longrightarrow> des x = Some (f x)) \<Longrightarrow>
   deserialize_loop des i xs sticky = (map (\<lambda>x. Some (f x)) xs, sticky)"
proof (induction xs arbitrary: i)
  case (Cons x xs)
  have d: "des x = Some (f x)" and "\<And>y. y \<in> set xs \<Longrightarrow> des y = Some (f y)" using Cons.prems by auto
  note Cons.IH [OF this(2), of "i + 1"]
  with d show ?case by (cases sticky) (simp_all add: Let_def)
qed simp

lemma coalesce_map_Some [simp]: "coalesce (map (\<lambda>x. Some (f x)) xs) = map f xs"
  by (induction xs) (simp_all add: coalesce_def)

definition serializable :: "('e EditorInput \<Rightarrow> (string \<times> string) option) \<Rightarrow> 'e EditorInput list \<Rightarrow>
    'e EditorInput list" where
  "serializable ser es = filter (\<lambda>e. ser e \<noteq> None) es"

text \<open>
  A group that is serialized and read back by serializers that restore every editor they wrote
  (\<open>r\<close> maps an editor to its restored copy) holds the serializable editors in order, with their
  recency order, the preview and the number of sticky ones.
\<close>

lemma group_serialize_roundtrip:
  fixes ids :: int
  assumes "group_inv env g" "\<And>e s. e \<in> set (ge_editors g) \<Longrightarrow> ser e = Some s \<Longrightarrow> des s = Some (r e)"
  defines "g' \<equiv> fst (ge_deserialize des ids (ge_serialize env ser g))"
  shows "ge_editors g' = map r (serializable ser (ge_editors g)) \<and>
    ge_mru g' = map r (serializable ser (ge_mru g)) \<and>
    ge_preview g' = map_option r (Option.bind (ge_preview g) (\<lambda>p. if ser p = None then None else Some p)) \<and>
    sticky_editors g' = map r (serializable ser (sticky_editors g)) \<and>
    ge_locked g' = ge_locked g \<and> ge_id g' = ge_id g"
proof -
  define eds where "eds = serializable ser (ge_editors g)"
  have d: "distinct (ge_editors g)" "nonmatch env (set (ge_editors g))" "set (ge_mru g) = set (ge_editors g)"
    and st: "-1 \<le> ge_sticky g" "ge_sticky g < int (length (ge_editors g))"
    and pv: "set_option (ge_preview g) \<subseteq> set (ge_editors g)"
    using assms(1) by (simp_all add: group_inv_def arr_inv_def)
  have deds: "distinct eds" "set eds = {e \<in> set (ge_editors g). ser e \<noteq> None}"
    using d(1) by (auto simp: eds_def serializable_def)
  have neds: "nonmatch env (set eds)" using nonmatch_subset [OF d(2)] deds(2) by auto
  define unser where "unser = length (filter (\<lambda>e. ser e = None) (sticky_editors g))"
  define sticky where "sticky = ge_sticky g - int unser"
  define pre where "pre = (case ge_preview g of None \<Rightarrow> None
    | Some x \<Rightarrow> if ser x \<noteq> None then Some (int (length (takeWhile (\<lambda>e. e \<noteq> x) eds))) else None)"
  have loop: "serialize_loop ser g 0 (ge_editors g) ([], [], None, ge_sticky g) =
      (map (\<lambda>e. the (ser e)) eds, eds, pre, sticky)"
    using preview_fold [OF d(1), of "\<lambda>e. ser e \<noteq> None" "ge_preview g" 0 None]
      count_sticky_unserializable [OF st, of "\<lambda>e. ser e = None"] pv
    by (simp add: serialize_loop_spec eds_def serializable_def pre_def sticky_def unser_def
        sticky_editors_def del: fold_simps split: option.splits) auto
  have idx: "ge_indexOf env (Some e) eds no_match_options \<ge> 0 \<longleftrightarrow> ser e \<noteq> None"
    "ser e \<noteq> None \<Longrightarrow> js_get (map r eds) (ge_indexOf env (Some e) eds no_match_options) = Some (r e)"
    if e: "e \<in> set (ge_editors g)" for e
  proof -
    have "ge_indexOf env (Some e) eds no_match_options = -1" if "ser e = None"
    proof -
      have "\<not> input_matches env no_match_options a e" if "a \<in> set eds" for a
      proof -
        have a: "a \<in> set (ge_editors g)" "ser a \<noteq> None" using that deds(2) by auto
        then have "a \<noteq> e" using \<open>ser e = None\<close> by auto
        with a(1) d(2) e show ?thesis unfolding input_matches_no_options nonmatch_def by blast
      qed
      with indexOf_cases [of env e eds no_match_options] show ?thesis by auto
    qed
    moreover have "\<exists>k < length eds. ge_indexOf env (Some e) eds no_match_options = int k \<and> eds ! k = e"
      if "ser e \<noteq> None"
      using indexOf_member [OF neds] e deds(2) that by auto
    ultimately show "ge_indexOf env (Some e) eds no_match_options \<ge> 0 \<longleftrightarrow> ser e \<noteq> None"
      "ser e \<noteq> None \<Longrightarrow> js_get (map r eds) (ge_indexOf env (Some e) eds no_match_options) = Some (r e)"
      by (force simp: js_get_def)+
  qed
  have mru: "coalesce (map (js_get (map r eds)) (filter (\<lambda>i. i \<ge> 0)
      (map (\<lambda>e. ge_indexOf env (Some e) eds no_match_options) es))) = map r (serializable ser es)"
    if "set es \<subseteq> set (ge_editors g)" for es
    using that
  proof (induction es)
    case (Cons e es)
    then show ?case using idx [of e] by (auto simp: coalesce_def serializable_def)
  qed (simp add: coalesce_def serializable_def)
  have des: "deserialize_loop des 0 (map (\<lambda>e. the (ser e)) eds) st' = (map (\<lambda>e. Some (r e)) eds, st')" for st'
  proof -
    have "des (the (ser e)) = Some (r e)" if "e \<in> set eds" for e
      using that deds(2) assms(2) by auto
    then have "deserialize_loop des 0 (map (\<lambda>e. the (ser e)) eds) st' =
        (map (\<lambda>x. Some (the (des x))) (map (\<lambda>e. the (ser e)) eds), st')"
      by (intro deserialize_loop_all) auto
    with \<open>\<And>e. e \<in> set eds \<Longrightarrow> des (the (ser e)) = Some (r e)\<close> show ?thesis by (simp cong: map_cong)
  qed
  have le: "unser \<le> length (sticky_editors g)" by (simp add: unser_def)
  then have smin: "-1 \<le> sticky" using sticky_length [OF assms(1)] by (simp add: sticky_def)
  have g': "ge_editors g' = map r eds" "ge_mru g' = map r (serializable ser (ge_mru g))"
    "ge_preview g' = (case pre of None \<Rightarrow> None | Some p \<Rightarrow> js_get (map r eds) p)"
    "ge_sticky g' = sticky" "ge_locked g' = ge_locked g" "ge_id g' = ge_id g"
    using mru [of "ge_mru g"] d(3) smin
    by (simp_all add: g'_def ge_deserialize_def ge_serialize_def loop des Let_def new_EditorGroupModel_def
        cong: option.case_cong)
  have "ge_preview g' = map_option r (Option.bind (ge_preview g) (\<lambda>p. if ser p = None then None else Some p))"
  proof (cases "ge_preview g")
    case (Some x)
    show ?thesis
    proof (cases "ser x = None")
      case False
      then have x: "x \<in> set eds" using pv Some deds(2) by auto
      obtain us vs where uv: "eds = us @ x # vs" "x \<notin> set us" using split_list_first [OF x] by blast
      have "takeWhile (\<lambda>e. e \<noteq> x) (us @ x # vs) = us @ takeWhile (\<lambda>e. e \<noteq> x) (x # vs)"
        using uv(2) by (intro takeWhile_append2) auto
      then have "takeWhile (\<lambda>e. e \<noteq> x) eds = us" by (simp add: uv(1))
      then have "length (takeWhile (\<lambda>e. e \<noteq> x) eds) < length eds"
        "eds ! length (takeWhile (\<lambda>e. e \<noteq> x) eds) = x"
        using uv(1) by simp_all
      with Some False show ?thesis by (simp add: g'(3) pre_def js_get_nat)
    qed (simp add: g'(3) pre_def Some)
  qed (simp add: g'(3) pre_def)
  moreover have "sticky_editors g' = map r (serializable ser (sticky_editors g))"
  proof -
    have "ge_editors g' = map r (serializable ser (sticky_editors g)) @ map r (serializable ser (other_editors g))"
      unfolding g'(1) eds_def by (subst sticky_split) (simp add: serializable_def)
    moreover have "length (serializable ser (sticky_editors g)) + unser = length (sticky_editors g)"
      using sum_length_filter_compl [of "\<lambda>e. ser e \<noteq> None" "sticky_editors g"]
      unfolding serializable_def unser_def not_not .
    then have "ge_sticky g' = int (length (map r (serializable ser (sticky_editors g)))) - 1"
      using sticky_length [OF assms(1)] by (simp add: g'(4) sticky_def)
    ultimately show ?thesis using sticky_unique by blast
  qed
  ultimately show ?thesis using g' by (simp add: eds_def)
qed


section \<open>Two ways to lose sticky editors\<close>

text \<open>
  A new, unpinned editor opened at the index of a sticky editor replaces the preview editor.  The
  sticky index is incremented before the preview closes, so the preview right after the sticky
  editors counts as sticky, the index is decremented again, and the last sticky editor is not
  sticky any more.  (\<open>p\<close> are plain inputs that match nothing else.)
\<close>

abbreviation plain_env :: "nat group_env" where
  "plain_env \<equiv> \<lparr>inputMatches = (=), editorOpenPositioning = None, focusRecentEditorAfterClose = True\<rparr>"

abbreviation plain :: "nat \<Rightarrow> nat EditorInput" where
  "plain n \<equiv> PlainEditorInput n"

definition default_open :: "'e IEditorOpenOptions" where
  "default_open = \<lparr>op_pinned = False, op_sticky = False, op_transient = False, op_active = True,
     op_inactiveSelection = [], op_index = None, op_supportSideBySide = None\<rparr>"

definition one_sticky_group :: "nat EditorGroupModel" where
  "one_sticky_group =
     fst (openEditor plain_env (plain 2) default_open
       (fst (openEditor plain_env (plain 1) (default_open\<lparr>op_sticky := True\<rparr>) (new_EditorGroupModel 0))))"

lemmas group_eval = openEditor_def openNew_def openExisting_def open_makeSticky_def open_makePinned_def
  open_makeActive_def open_position_def Let_def findEditor_def ge_indexOf_def activeEditor_def
  isSticky_index_def ge_splice_def js_splice_def js_rel_index_def js_get_def setSelection_def
  doSetSelection_def fire_def new_EditorGroupModel_def default_open_def matches_self_def
  no_match_options_def doSetTransient_def replaceEditor_def doCloseEditor_def closeSelection_def
  nextActive_def closeEvent_def doIsSelected_def

lemma one_sticky_group_editors:
  "ge_editors one_sticky_group = [plain 1, plain 2]" "sticky_editors one_sticky_group = [plain 1]"
  "ge_preview one_sticky_group = Some (plain 2)"
  by (simp_all add: one_sticky_group_def group_eval sticky_editors_def numeral_2_eq_2)

lemma one_sticky_group_inv: "group_inv plain_env one_sticky_group"
  unfolding one_sticky_group_def
  by (intro openEditor_group_inv new_group_inv) (simp_all add: inactive_ok_def default_open_def symp_def)

lemma open_at_sticky_index_unsticks:
  "let g' = fst (openEditor plain_env (plain 3) (default_open\<lparr>op_index := Some 0\<rparr>) one_sticky_group)
   in ge_editors g' = [plain 3, plain 1] \<and> sticky_editors g' = [plain 3]"
  by (simp add: one_sticky_group_def group_eval sticky_editors_def)

text \<open>
  \<open>deserialize\<close> compares the index in the serialized array with a sticky index it has decremented
  already: when two sticky editors cannot be restored, the first editor after them becomes sticky.
\<close>

lemma deserialize_sticky_too_large:
  fixes des :: "string \<times> string \<Rightarrow> nat EditorInput option"
  assumes "des a = None" "des b = None" "des c = Some e"
  shows "sticky_editors (fst (ge_deserialize des 0
      \<lparr>ser_id = Some 0, ser_locked = False, ser_editors = [a, b, c], ser_mru = [0], ser_preview = None,
       ser_sticky = Some 1\<rparr>)) = [e]"
  using assms
  by (simp add: ge_deserialize_def Let_def coalesce_def sticky_editors_def new_EditorGroupModel_def)

end
