(* ===== verification/FoldingRegions.thy ===== *)
theory FoldingRegions
  imports ArraysFind
begin

text \<open>
  \<open>src/vs/editor/contrib/folding/browser/foldingRanges.ts\<close>: the folding regions of a text, packed
  into arrays of 32-bit words.

  A cell of \<open>_startIndexes\<close> holds the start line in its low 24 bits and the low byte of the index of
  the parent region in its high 8 bits; \<open>_endIndexes\<close> holds the end line and the high byte of the
  parent.  The parent \<open>-1\<close> is stored as \<open>0xFFFF\<close>.  The parents are computed on first use,
  by a sweep over the regions with a stack.

  A \<open>Uint32Array\<close> is a list of \<open>32 word\<close>; reading outside it gives \<open>undefined\<close>, which the bit
  operations turn into 0, and writing outside it has no effect.  The stack of the sweep is a list with
  its top at the head.  An operation that can throw returns the state beside its result, because the
  sweep throws in the middle of its writes.
\<close>

section \<open>Bit fields\<close>

definition u32_at :: "32 word list \<Rightarrow> nat \<Rightarrow> 32 word" where
  "u32_at xs i = (if i < length xs then xs ! i else 0)"

definition new_BitField :: "nat \<Rightarrow> 32 word list" where
  "new_BitField sz = replicate ((sz + 31) div 32) 0"

definition BitField_get :: "nat \<Rightarrow> 32 word list \<Rightarrow> bool" where
  "BitField_get index states \<longleftrightarrow> u32_at states (index div 32) AND push_bit (index mod 32) 1 \<noteq> 0"

definition BitField_set :: "nat \<Rightarrow> bool \<Rightarrow> 32 word list \<Rightarrow> 32 word list" where
  "BitField_set index newState states =
     (let arrayIndex = index div 32; bit = index mod 32; v = u32_at states arrayIndex
      in if newState then states[arrayIndex := v OR push_bit bit 1]
         else states[arrayIndex := v AND NOT (push_bit bit 1)])"

section \<open>Regions\<close>

datatype FoldSource = FoldSource_provider | FoldSource_userDefined | FoldSource_recovered

record FoldRange =
  fr_startLineNumber :: int
  fr_endLineNumber :: int
  fr_type :: "string option"
  fr_isCollapsed :: bool
  fr_source :: FoldSource

definition MAX_FOLDING_REGIONS :: nat where
  "MAX_FOLDING_REGIONS = 65535"

definition MAX_LINE_NUMBER :: "32 word" where
  "MAX_LINE_NUMBER = 0xFFFFFF"

definition MASK_INDENT :: "32 word" where
  "MASK_INDENT = 0xFF000000"

record FoldingRegions =
  startIndexes :: "32 word list"
  endIndexes :: "32 word list"
  collapseStates :: "32 word list"
  userDefinedStates :: "32 word list"
  recoveredStates :: "32 word list"
  parentsComputed :: bool
  fold_types :: "string option list option"

definition new_FoldingRegions :: "32 word list \<Rightarrow> 32 word list \<Rightarrow> string option list option \<Rightarrow>
    FoldingRegions result" where
  "new_FoldingRegions starts ends ts =
     (if length starts \<noteq> length ends \<or> length starts > MAX_FOLDING_REGIONS then Throw GenericError
      else Ok \<lparr>startIndexes = starts, endIndexes = ends, collapseStates = new_BitField (length starts),
               userDefinedStates = new_BitField (length starts),
               recoveredStates = new_BitField (length starts),
               parentsComputed = False, fold_types = ts\<rparr>)"

definition folding_length :: "FoldingRegions \<Rightarrow> nat" where
  "folding_length s = length (startIndexes s)"

definition getStartLineNumber :: "nat \<Rightarrow> FoldingRegions \<Rightarrow> int" where
  "getStartLineNumber index s = uint (u32_at (startIndexes s) index AND MAX_LINE_NUMBER)"

definition getEndLineNumber :: "nat \<Rightarrow> FoldingRegions \<Rightarrow> int" where
  "getEndLineNumber index s = uint (u32_at (endIndexes s) index AND MAX_LINE_NUMBER)"

definition getType :: "nat \<Rightarrow> FoldingRegions \<Rightarrow> string option" where
  "getType index s =
     (case fold_types s of None \<Rightarrow> None | Some ts \<Rightarrow> if index < length ts then ts ! index else None)"

definition hasTypes :: "FoldingRegions \<Rightarrow> bool" where
  "hasTypes s \<longleftrightarrow> fold_types s \<noteq> None"

definition isCollapsed :: "nat \<Rightarrow> FoldingRegions \<Rightarrow> bool" where
  "isCollapsed index s = BitField_get index (collapseStates s)"

definition setCollapsed :: "nat \<Rightarrow> bool \<Rightarrow> FoldingRegions \<Rightarrow> FoldingRegions" where
  "setCollapsed index newState s = s\<lparr>collapseStates := BitField_set index newState (collapseStates s)\<rparr>"

definition isUserDefined :: "nat \<Rightarrow> FoldingRegions \<Rightarrow> bool" where
  "isUserDefined index s = BitField_get index (userDefinedStates s)"

definition setUserDefined :: "nat \<Rightarrow> bool \<Rightarrow> FoldingRegions \<Rightarrow> FoldingRegions" where
  "setUserDefined index newState s =
     s\<lparr>userDefinedStates := BitField_set index newState (userDefinedStates s)\<rparr>"

definition isRecovered :: "nat \<Rightarrow> FoldingRegions \<Rightarrow> bool" where
  "isRecovered index s = BitField_get index (recoveredStates s)"

definition setRecovered :: "nat \<Rightarrow> bool \<Rightarrow> FoldingRegions \<Rightarrow> FoldingRegions" where
  "setRecovered index newState s =
     s\<lparr>recoveredStates := BitField_set index newState (recoveredStates s)\<rparr>"

definition getSource :: "nat \<Rightarrow> FoldingRegions \<Rightarrow> FoldSource" where
  "getSource index s =
     (if isUserDefined index s then FoldSource_userDefined
      else if isRecovered index s then FoldSource_recovered
      else FoldSource_provider)"

definition setSource :: "nat \<Rightarrow> FoldSource \<Rightarrow> FoldingRegions \<Rightarrow> FoldingRegions" where
  "setSource index source s =
     (case source of
        FoldSource_userDefined \<Rightarrow> setRecovered index False (setUserDefined index True s)
      | FoldSource_recovered \<Rightarrow> setRecovered index True (setUserDefined index False s)
      | FoldSource_provider \<Rightarrow> setRecovered index False (setUserDefined index False s))"

text \<open>The loop over \<open>_types\<close>, from index \<open>i\<close>; the flag is \<open>hasChanged\<close>.\<close>

fun setCollapsed_types :: "nat \<Rightarrow> string option list \<Rightarrow> string \<Rightarrow> bool \<Rightarrow> bool \<Rightarrow> FoldingRegions \<Rightarrow>
    bool \<times> FoldingRegions" where
  "setCollapsed_types i [] typ newState hasChanged s = (hasChanged, s)"
| "setCollapsed_types i (t # ts) typ newState hasChanged s =
     (if t = Some typ then setCollapsed_types (i + 1) ts typ newState True (setCollapsed i newState s)
      else setCollapsed_types (i + 1) ts typ newState hasChanged s)"

definition setCollapsedAllOfType :: "string \<Rightarrow> bool \<Rightarrow> FoldingRegions \<Rightarrow> bool \<times> FoldingRegions" where
  "setCollapsedAllOfType typ newState s =
     (case fold_types s of None \<Rightarrow> (False, s) | Some ts \<Rightarrow> setCollapsed_types 0 ts typ newState False s)"

section \<open>Parents\<close>

definition isInsideLast :: "FoldingRegions \<Rightarrow> 32 word \<Rightarrow> 32 word \<Rightarrow> nat \<Rightarrow> bool" where
  "isInsideLast s startLine endLine index \<longleftrightarrow>
     getStartLineNumber index s \<le> uint startLine \<and> getEndLineNumber index s \<ge> uint endLine"

definition parent_word :: "nat list \<Rightarrow> 32 word" where
  "parent_word stack = (case stack of [] \<Rightarrow> - 1 | p # _ \<Rightarrow> word_of_nat p)"

fun parents_loop :: "nat list \<Rightarrow> nat list \<Rightarrow> FoldingRegions \<Rightarrow> unit result \<times> FoldingRegions" where
  "parents_loop [] stack s = (Ok (), s)"
| "parents_loop (i # is) stack s =
     (let startLine = u32_at (startIndexes s) i; endLine = u32_at (endIndexes s) i
      in if startLine > MAX_LINE_NUMBER \<or> endLine > MAX_LINE_NUMBER then (Throw GenericError, s)
         else
           let stack' = dropWhile (\<lambda>p. \<not> isInsideLast s startLine endLine p) stack;
               parentIndex = parent_word stack'
           in parents_loop is (i # stack')
                (s\<lparr>startIndexes := (startIndexes s)[i := startLine + push_bit 24 (parentIndex AND 0xFF)],
                   endIndexes := (endIndexes s)[i := endLine + push_bit 16 (parentIndex AND 0xFF00)]\<rparr>))"

definition ensureParentIndices :: "FoldingRegions \<Rightarrow> unit result \<times> FoldingRegions" where
  "ensureParentIndices s =
     (if parentsComputed s then (Ok (), s)
      else parents_loop [0..<folding_length s] [] (s\<lparr>parentsComputed := True\<rparr>))"

definition stored_parent :: "nat \<Rightarrow> FoldingRegions \<Rightarrow> int" where
  "stored_parent index s =
     (let parent = uint (drop_bit 24 (u32_at (startIndexes s) index AND MASK_INDENT)) +
                   uint (drop_bit 16 (u32_at (endIndexes s) index AND MASK_INDENT))
      in if parent = int MAX_FOLDING_REGIONS then -1 else parent)"

definition getParentIndex :: "nat \<Rightarrow> FoldingRegions \<Rightarrow> int result \<times> FoldingRegions" where
  "getParentIndex index s =
     (case ensureParentIndices s of
        (Inl e, s') \<Rightarrow> (Inl e, s')
      | (Inr _, s') \<Rightarrow> (Ok (stored_parent index s'), s'))"

section \<open>Searching\<close>

definition region_contains :: "nat \<Rightarrow> int \<Rightarrow> FoldingRegions \<Rightarrow> bool" where
  "region_contains index line s \<longleftrightarrow> getStartLineNumber index s \<le> line \<and> getEndLineNumber index s \<ge> line"

function findIndex_loop :: "int \<Rightarrow> nat \<Rightarrow> nat \<Rightarrow> FoldingRegions \<Rightarrow> nat" where
  "findIndex_loop line low high s =
     (if low < high then
        let mid = (low + high) div 2
        in if line < getStartLineNumber mid s then findIndex_loop line low mid s
           else findIndex_loop line (mid + 1) high s
      else low)"
  by pat_completeness auto
termination
  by (relation "measure (\<lambda>(line, low, high, s). high - low)") auto

declare findIndex_loop.simps [simp del]

definition findIndex :: "int \<Rightarrow> FoldingRegions \<Rightarrow> int" where
  "findIndex line s =
     (if folding_length s = 0 then -1 else int (findIndex_loop line 0 (folding_length s) s) - 1)"

text \<open>
  The walk up the parents.  Nothing in the packed words excludes a cycle, so the walk is a partial
  function; that it ends for a table with computed parents is a theorem.
\<close>

partial_function (option) findRange_up ::
  "int \<Rightarrow> int \<Rightarrow> FoldingRegions \<Rightarrow> (int result \<times> FoldingRegions) option" where
  "findRange_up line index s =
     (if index = -1 then Some (Ok (-1), s)
      else if region_contains (nat index) line s then Some (Ok index, s)
      else case getParentIndex (nat index) s of
             (Inl e, s') \<Rightarrow> Some (Inl e, s')
           | (Inr p, s') \<Rightarrow> findRange_up line p s')"

definition findRange :: "int \<Rightarrow> FoldingRegions \<Rightarrow> (int result \<times> FoldingRegions) option" where
  "findRange line s =
     (let index = findIndex line s
      in if index \<ge> 0 then
           if getEndLineNumber (nat index) s \<ge> line then Some (Ok index, s)
           else case getParentIndex (nat index) s of
                  (Inl e, s') \<Rightarrow> Some (Inl e, s')
                | (Inr p, s') \<Rightarrow> findRange_up line p s'
         else Some (Ok (-1), s))"

section \<open>Conversion from and to ranges\<close>

definition toFoldRange :: "nat \<Rightarrow> FoldingRegions \<Rightarrow> FoldRange" where
  "toFoldRange index s =
     \<lparr>fr_startLineNumber = uint (u32_at (startIndexes s) index AND MAX_LINE_NUMBER),
      fr_endLineNumber = uint (u32_at (endIndexes s) index AND MAX_LINE_NUMBER),
      fr_type = getType index s,
      fr_isCollapsed = isCollapsed index s,
      fr_source = getSource index s\<rparr>"

text \<open>The second loop of \<open>fromFoldRanges\<close>, from index \<open>i\<close>.\<close>

fun fromFoldRanges_states :: "nat \<Rightarrow> FoldRange list \<Rightarrow> FoldingRegions \<Rightarrow> FoldingRegions" where
  "fromFoldRanges_states i [] s = s"
| "fromFoldRanges_states i (r # rs) s =
     fromFoldRanges_states (i + 1) rs
       (setSource i (fr_source r) (if fr_isCollapsed r then setCollapsed i True s else s))"

definition fromFoldRanges :: "FoldRange list \<Rightarrow> FoldingRegions result" where
  "fromFoldRanges ranges =
     (let starts = map (\<lambda>r. word_of_int (fr_startLineNumber r)) ranges;
          ends = map (\<lambda>r. word_of_int (fr_endLineNumber r)) ranges;
          gotTypes = list_ex (\<lambda>r. fr_type r \<noteq> None \<and> fr_type r \<noteq> Some []) ranges;
          ts = (if gotTypes then Some (map fr_type ranges) else None)
      in bind_result (new_FoldingRegions starts ends ts) (\<lambda>s. Ok (fromFoldRanges_states 0 ranges s)))"

section \<open>A region\<close>

text \<open>A \<open>FoldingRegion\<close> is an index into the regions.\<close>

definition FoldingRegion_containedBy :: "nat \<Rightarrow> int \<Rightarrow> int \<Rightarrow> FoldingRegions \<Rightarrow> bool" where
  "FoldingRegion_containedBy index startLine endLine s \<longleftrightarrow>
     startLine \<le> getStartLineNumber index s \<and> endLine \<ge> getEndLineNumber index s"

definition FoldingRegion_containsLine :: "nat \<Rightarrow> int \<Rightarrow> FoldingRegions \<Rightarrow> bool" where
  "FoldingRegion_containsLine index line s \<longleftrightarrow>
     getStartLineNumber index s \<le> line \<and> line \<le> getEndLineNumber index s"

definition FoldingRegion_hidesLine :: "nat \<Rightarrow> int \<Rightarrow> FoldingRegions \<Rightarrow> bool" where
  "FoldingRegion_hidesLine index line s \<longleftrightarrow>
     getStartLineNumber index s < line \<and> line \<le> getEndLineNumber index s"

end
