(* ===== verification/FoldingParents.thy ===== *)
theory FoldingParents
  imports FoldingRegions
begin

text \<open>
  The packed words of \<open>FoldingRegions\<close> carry what is put into them, the sweep stores for every
  region of a nested table the innermost region around it (\<open>parents_loop_spec\<close>,
  \<open>getParentIndex_spec\<close>), and \<open>findRange\<close> ends with the innermost region that covers a line
  (\<open>findRange_spec\<close>).  The abstract view of a table is the list \<open>sp\<close> of its spans.
\<close>

section \<open>Packed words\<close>


lemma word_masks:
  "(0xFF :: 32 word) = mask 8" "(0xFF00 :: 32 word) = push_bit 8 (mask 8)"
  "(0xFF000000 :: 32 word) = push_bit 24 (mask 8)" "(0xFFFFFF :: 32 word) = mask 24"
  by (simp_all add: mask_eq_exp_minus_1 push_bit_eq_mult)

lemma line_bits:
  assumes "(x :: 32 word) \<le> MAX_LINE_NUMBER" "24 \<le> n"
  shows "\<not> bit x n"
proof -
  have "x < 2 ^ 24" using assms(1) by (simp add: MAX_LINE_NUMBER_def word_le_nat_alt word_less_nat_alt)
  then have "x = take_bit 24 x" by (simp add: take_bit_eq_mod mod_word_less)
  then show ?thesis using assms(2) by (metis bit_take_bit_iff leD)
qed


lemma disjoint_word_and:
  "(x :: 32 word) AND y = 0" if "\<And>n. 24 \<le> n \<Longrightarrow> \<not> bit x n" "\<And>n. n < 24 \<Longrightarrow> \<not> bit y n"
  using that by (intro bit_eqI) (simp add: bit_and_iff; metis not_less)

lemma bits_high_start: "n < 24 \<Longrightarrow> \<not> bit (push_bit 24 q :: 32 word) n"
  by (simp add: bit_push_bit_iff)

lemma bits_high_end: "n < 24 \<Longrightarrow> \<not> bit (push_bit 16 (p AND 0xFF00) :: 32 word) n"
  unfolding word_masks by (simp only: bit_push_bit_iff bit_and_iff bit_mask_iff) linarith

lemma pack_or:
  assumes "x \<le> MAX_LINE_NUMBER" "\<And>n. n < 24 \<Longrightarrow> \<not> bit y n"
  shows "(x + y) AND MAX_LINE_NUMBER = x" "(x + y) AND MASK_INDENT = y"
proof -
  have eq: "x + y = x OR y"
    using disjoint_word_and [OF line_bits [OF assms(1)] assms(2)] by (rule disjunctive_add_eq_or)
  have low: "bit MAX_LINE_NUMBER n \<longleftrightarrow> n < 24" and high: "bit MASK_INDENT n \<longleftrightarrow> 24 \<le> n"
    if "n < 32" for n
    using that unfolding MAX_LINE_NUMBER_def MASK_INDENT_def word_masks
    by (simp_all add: bit_mask_iff bit_push_bit_iff) arith
  have bits: "(bit x n \<or> bit y n) \<and> n < 24 \<longleftrightarrow> bit x n" "(bit x n \<or> bit y n) \<and> 24 \<le> n \<longleftrightarrow> bit y n" for n
    using line_bits [OF assms(1), of n] assms(2) [of n] by (cases "n < 24"; simp)+
  show "(x + y) AND MAX_LINE_NUMBER = x"
    unfolding eq by (rule bit_eqI) (simp add: bit_and_iff bit_or_iff low bits)
  show "(x + y) AND MASK_INDENT = y"
    unfolding eq by (rule bit_eqI) (simp add: bit_and_iff bit_or_iff high bits)
qed

lemma packed_start:
  assumes "x \<le> MAX_LINE_NUMBER"
  shows "(x + push_bit 24 (p AND 0xFF)) AND MAX_LINE_NUMBER = x"
    and "drop_bit 24 ((x + push_bit 24 (p AND 0xFF)) AND MASK_INDENT) = p AND 0xFF"
proof -
  have pack: "(x + push_bit 24 (p AND 0xFF)) AND MAX_LINE_NUMBER = x"
      "(x + push_bit 24 (p AND 0xFF)) AND MASK_INDENT = push_bit 24 (p AND 0xFF)"
    by (rule pack_or [OF assms]; erule bits_high_start)+
  show "(x + push_bit 24 (p AND 0xFF)) AND MAX_LINE_NUMBER = x" by (rule pack(1))
  show "drop_bit 24 ((x + push_bit 24 (p AND 0xFF)) AND MASK_INDENT) = p AND 0xFF"
    unfolding pack(2) unfolding word_masks
    by (rule bit_eqI) (auto simp add: bit_drop_bit_eq bit_push_bit_iff bit_and_iff bit_mask_iff)
qed

lemma packed_end:
  assumes "x \<le> MAX_LINE_NUMBER"
  shows "(x + push_bit 16 (p AND 0xFF00)) AND MAX_LINE_NUMBER = x"
    and "drop_bit 16 ((x + push_bit 16 (p AND 0xFF00)) AND MASK_INDENT) = p AND 0xFF00"
proof -
  have pack: "(x + push_bit 16 (p AND 0xFF00)) AND MAX_LINE_NUMBER = x"
      "(x + push_bit 16 (p AND 0xFF00)) AND MASK_INDENT = push_bit 16 (p AND 0xFF00)"
    by (rule pack_or [OF assms]; erule bits_high_end)+
  show "(x + push_bit 16 (p AND 0xFF00)) AND MAX_LINE_NUMBER = x" by (rule pack(1))
  show "drop_bit 16 ((x + push_bit 16 (p AND 0xFF00)) AND MASK_INDENT) = p AND 0xFF00"
    unfolding pack(2) unfolding word_masks
    by (rule bit_eqI) (auto simp add: bit_drop_bit_eq bit_push_bit_iff bit_and_iff bit_mask_iff)
qed

lemma parent_bytes:
  assumes "(p :: 32 word) \<le> 0xFFFF"
  shows "uint (p AND 0xFF) + uint (p AND 0xFF00) = uint p"
proof -
  have "p = take_bit 16 p"
    using assms by (simp add: take_bit_eq_mod mod_word_less word_le_nat_alt word_less_nat_alt)
  then have high: "\<not> bit p n" if "16 \<le> n" for n using that by (metis bit_take_bit_iff leD)
  have "(p AND 0xFF) AND (p AND 0xFF00) = 0"
    unfolding word_masks by (rule bit_eqI) (simp add: bit_and_iff bit_mask_iff bit_push_bit_iff)
  then have "uint (p AND 0xFF) + uint (p AND 0xFF00) = uint ((p AND 0xFF) OR (p AND 0xFF00))"
    by (simp add: uint_or disjunctive_add_eq_or flip: uint_and)
  also have "(p AND 0xFF) OR (p AND 0xFF00) = p"
  proof (rule bit_eqI)
    fix n
    show "bit (p AND 0xFF OR p AND 0xFF00) n \<longleftrightarrow> bit p n"
      unfolding word_masks using high [of n]
      by (cases "n < 16") (auto simp: bit_and_iff bit_or_iff bit_mask_iff bit_push_bit_iff)
  qed
  finally show ?thesis .
qed


section \<open>The sweep\<close>

definition encloses :: "int \<times> int \<Rightarrow> int \<times> int \<Rightarrow> bool" where
  "encloses a b \<longleftrightarrow> fst a \<le> fst b \<and> snd b \<le> snd a"

definition nested :: "(int \<times> int) list \<Rightarrow> bool" where
  "nested sp \<longleftrightarrow> (\<forall>a \<in> set sp. fst a \<le> snd a) \<and>
     sorted_wrt (\<lambda>a b. fst a \<le> fst b \<and> (snd a < fst b \<or> snd b \<le> snd a)) sp"

definition innermost :: "(int \<times> int) list \<Rightarrow> nat \<Rightarrow> int" where
  "innermost sp i =
     (case find (\<lambda>j. encloses (sp ! j) (sp ! i)) (rev [0..<i]) of None \<Rightarrow> -1 | Some j \<Rightarrow> int j)"

definition table_ok :: "(int \<times> int) list \<Rightarrow> nat \<Rightarrow> FoldingRegions \<Rightarrow> bool" where
  "table_ok sp i s \<longleftrightarrow> length (startIndexes s) = length sp \<and> length (endIndexes s) = length sp \<and>
     (\<forall>j < length sp. getStartLineNumber j s = fst (sp ! j) \<and> getEndLineNumber j s = snd (sp ! j)) \<and>
     (\<forall>j < length sp. i \<le> j \<longrightarrow> startIndexes s ! j \<le> MAX_LINE_NUMBER \<and> endIndexes s ! j \<le> MAX_LINE_NUMBER) \<and>
     (\<forall>j < i. stored_parent j s = innermost sp j)"

lemma find_rev_upt:
  "find P (rev [0..<i]) = Some j \<longleftrightarrow> j < i \<and> P j \<and> (\<forall>k. j < k \<and> k < i \<longrightarrow> \<not> P k)"
  by (induction i) (auto simp: less_Suc_eq)

lemma find_rev_upt_None: "find P (rev [0..<i]) = None \<longleftrightarrow> (\<forall>k < i. \<not> P k)"
  by (auto simp: find_None_iff)

definition stack_ok :: "(int \<times> int) list \<Rightarrow> nat \<Rightarrow> nat list \<Rightarrow> bool" where
  "stack_ok sp i stack \<longleftrightarrow> sorted_wrt (>) stack \<and> (\<forall>p \<in> set stack. p < i) \<and>
     (\<forall>j k. j < i \<and> i \<le> k \<and> k < length sp \<and> encloses (sp ! j) (sp ! k) \<longrightarrow> j \<in> set stack)"

lemma nested_pair:
  assumes "nested sp" "j < k" "k < length sp"
  shows "fst (sp ! j) \<le> fst (sp ! k)" "snd (sp ! j) < fst (sp ! k) \<or> snd (sp ! k) \<le> snd (sp ! j)"
  using assms by (auto simp: nested_def sorted_wrt_iff_nth_less)

lemma nested_proper: "nested sp \<Longrightarrow> k < length sp \<Longrightarrow> fst (sp ! k) \<le> snd (sp ! k)"
  by (simp add: nested_def)

lemma dropWhile_sorted_gt:
  assumes "sorted_wrt (>) (xs :: nat list)" "dropWhile (\<lambda>p. \<not> P p) xs = p # ys"
  shows "P p" "p \<in> set xs" "\<forall>q \<in> set xs. p < q \<longrightarrow> \<not> P q"
proof -
  define zs where "zs = takeWhile (\<lambda>p. \<not> P p) xs"
  have xs: "xs = zs @ p # ys" unfolding zs_def assms(2) [symmetric] by simp
  have zs: "\<forall>q \<in> set zs. \<not> P q" unfolding zs_def by (auto dest: set_takeWhileD)
  show "P p" using hd_dropWhile [of "\<lambda>p. \<not> P p" xs] assms(2) by simp
  show "p \<in> set xs" using xs by simp
  show "\<forall>q \<in> set xs. p < q \<longrightarrow> \<not> P q"
    using assms(1) zs unfolding xs by (fastforce simp: sorted_wrt_append)
qed

lemma dropWhile_keeps: "x \<in> set xs \<Longrightarrow> P x \<Longrightarrow> x \<in> set (dropWhile (\<lambda>p. \<not> P p) xs)"
  by (induction xs) auto

lemma stack_step:
  assumes "nested sp" "stack_ok sp i stack" "i < length sp"
  defines "st \<equiv> dropWhile (\<lambda>p. \<not> encloses (sp ! p) (sp ! i)) stack"
  shows "stack_ok sp (i + 1) (i # st)"
    and "innermost sp i = (case st of [] \<Rightarrow> -1 | p # _ \<Rightarrow> int p)" and "\<forall>p \<in> set st. p < i"
proof -
  have sub: "set st \<subseteq> set stack" unfolding st_def by (auto dest: set_dropWhileD)
  show lt: "\<forall>p \<in> set st. p < i" using assms(2) sub by (auto simp: stack_ok_def)
  have sorted: "sorted_wrt (>) stack" using assms(2) by (simp add: stack_ok_def)
  have in_stack: "j \<in> set stack" if "j < i" "encloses (sp ! j) (sp ! k)" "i \<le> k" "k < length sp" for j k
    using assms(2) that by (auto simp: stack_ok_def)
  show "innermost sp i = (case st of [] \<Rightarrow> -1 | p # _ \<Rightarrow> int p)"
  proof (cases st)
    case Nil
    then have "\<forall>p \<in> set stack. \<not> encloses (sp ! p) (sp ! i)" by (simp add: st_def dropWhile_eq_Nil_conv)
    then have "find (\<lambda>j. encloses (sp ! j) (sp ! i)) (rev [0..<i]) = None"
      unfolding find_rev_upt_None using in_stack assms(3) by blast
    then show ?thesis using Nil by (simp add: innermost_def)
  next
    case (Cons p ys)
    note p = dropWhile_sorted_gt [OF sorted Cons [unfolded st_def]]
    have "find (\<lambda>j. encloses (sp ! j) (sp ! i)) (rev [0..<i]) = Some p"
      unfolding find_rev_upt using p lt Cons in_stack assms(3) by (metis le_refl list.set_intros(1))
    then show ?thesis using Cons by (simp add: innermost_def)
  qed
  have keep: "j \<in> set st" if "j < i" "i < k" "k < length sp" "encloses (sp ! j) (sp ! k)" for j k
  proof -
    have j: "j \<in> set stack" using in_stack [of j k] that by simp
    have "encloses (sp ! j) (sp ! i)"
      using nested_pair [OF assms(1) that(1) assms(3)] nested_pair [OF assms(1) that(2,3)]
        nested_proper [OF assms(1) that(3)] that(4) unfolding encloses_def by linarith
    then show ?thesis using j dropWhile_keeps [of j stack] by (simp add: st_def)
  qed
  have "sorted_wrt (>) st" unfolding st_def using sorted by (rule sorted_wrt_dropWhile)
  then show "stack_ok sp (i + 1) (i # st)"
    using lt by (auto simp: stack_ok_def less_Suc_eq Suc_le_eq intro: keep)
qed

lemma line_mask: "x \<le> MAX_LINE_NUMBER \<Longrightarrow> x AND MAX_LINE_NUMBER = x"
  using packed_start(1) [of x 0] by simp

lemma stored_parent_cell:
  assumes "i < length (startIndexes s)" "i < length (endIndexes s)"
    and "startIndexes s ! i = x + push_bit 24 (w AND 0xFF)" "x \<le> MAX_LINE_NUMBER"
    and "endIndexes s ! i = y + push_bit 16 (w AND 0xFF00)" "y \<le> MAX_LINE_NUMBER"
  shows "getStartLineNumber i s = uint x" "getEndLineNumber i s = uint y"
    "w \<le> 0xFFFF \<Longrightarrow> stored_parent i s = (if uint w = 65535 then -1 else uint w)"
    "w = -1 \<Longrightarrow> stored_parent i s = -1"
  using assms packed_start [OF assms(4), of w] packed_end [OF assms(6), of w] parent_bytes [of w]
  by (simp_all add: getStartLineNumber_def getEndLineNumber_def stored_parent_def u32_at_def
      MAX_FOLDING_REGIONS_def)

lemma small_word: "p < 65535 \<Longrightarrow> uint (word_of_nat p :: 32 word) = int p"
  by (simp add: unsigned_of_nat take_bit_nat_eq_self)

lemma parent_word_value:
  assumes "\<forall>p \<in> set st. p < i" "i < MAX_FOLDING_REGIONS" "q = (case st of [] \<Rightarrow> -1 | p # _ \<Rightarrow> int p)"
  shows "parent_word st = -1 \<and> q = -1 \<or> uint (parent_word st) < 65535 \<and> q = uint (parent_word st)"
  using assms small_word by (cases st) (auto simp: parent_word_def MAX_FOLDING_REGIONS_def)

lemma table_step:
  fixes w :: "32 word"
  assumes "table_ok sp i s" "i < length sp" "uint x = fst (sp ! i)" "uint y = snd (sp ! i)"
    and "x \<le> MAX_LINE_NUMBER" "y \<le> MAX_LINE_NUMBER"
    and "w = -1 \<and> innermost sp i = -1 \<or> uint w < 65535 \<and> innermost sp i = uint w"
  shows "table_ok sp (i + 1) (s\<lparr>startIndexes := (startIndexes s)[i := x + push_bit 24 (w AND 0xFF)],
           endIndexes := (endIndexes s)[i := y + push_bit 16 (w AND 0xFF00)]\<rparr>)" (is "table_ok _ _ ?s")
proof -
  have len: "i < length (startIndexes s)" "i < length (endIndexes s)"
    using assms(1,2) by (simp_all add: table_ok_def)
  have cells: "startIndexes ?s ! i = x + push_bit 24 (w AND 0xFF)" "endIndexes ?s ! i = y + push_bit 16 (w AND 0xFF00)"
    using len by simp_all
  have len': "i < length (startIndexes ?s)" "i < length (endIndexes ?s)" using len by simp_all
  note at_i = stored_parent_cell [OF len' cells(1) assms(5) cells(2) assms(6)]
  have parent: "stored_parent i ?s = innermost sp i"
    using assms(7)
  proof (elim disjE conjE)
    assume "w = -1" "innermost sp i = -1"
    then show ?thesis using at_i(4) by (simp only: simp_thms)
  next
    assume "uint w < 65535" "innermost sp i = uint w"
    moreover from this(1) have "w \<le> 0xFFFF" by (simp add: word_le_def)
    ultimately show ?thesis using at_i(3) by simp
  qed
  have other: "getStartLineNumber j ?s = getStartLineNumber j s" "getEndLineNumber j ?s = getEndLineNumber j s"
    "stored_parent j ?s = stored_parent j s" if "j \<noteq> i" for j
    using that by (simp_all add: getStartLineNumber_def getEndLineNumber_def stored_parent_def u32_at_def)
  show ?thesis
    unfolding table_ok_def
  proof (intro conjI allI impI)
    fix j assume "j < length sp"
    then show "getStartLineNumber j ?s = fst (sp ! j)" "getEndLineNumber j ?s = snd (sp ! j)"
      using assms(1,3,4) len at_i(1,2) other(1,2) [of j] by (cases "j = i"; simp add: table_ok_def)+
  next
    fix j assume "j < i + 1"
    then show "stored_parent j ?s = innermost sp j"
      using assms(1) parent other(3) [of j] by (cases "j = i") (auto simp: table_ok_def)
  qed (use assms(1) in \<open>auto simp: table_ok_def\<close>)
qed

lemma parents_loop_spec:
  assumes "nested sp" "length sp \<le> MAX_FOLDING_REGIONS"
  shows "table_ok sp i s \<Longrightarrow> stack_ok sp i stack \<Longrightarrow> i \<le> length sp \<Longrightarrow>
    \<exists>ss es. parents_loop [i..<length sp] stack s = (Ok (), s\<lparr>startIndexes := ss, endIndexes := es\<rparr>) \<and>
      table_ok sp (length sp) (s\<lparr>startIndexes := ss, endIndexes := es\<rparr>)"
proof (induction "length sp - i" arbitrary: i s stack)
  case 0
  then have "parents_loop [i..<length sp] stack s =
      (Ok (), s\<lparr>startIndexes := startIndexes s, endIndexes := endIndexes s\<rparr>)" by simp
  moreover have "table_ok sp (length sp) (s\<lparr>startIndexes := startIndexes s, endIndexes := endIndexes s\<rparr>)"
    using 0 by simp
  ultimately show ?case by blast
next
  case (Suc n)
  then have i: "i < length sp" by simp
  define x where "x = startIndexes s ! i"
  define y where "y = endIndexes s ! i"
  have cell: "u32_at (startIndexes s) i = x" "u32_at (endIndexes s) i = y"
    "x \<le> MAX_LINE_NUMBER" "y \<le> MAX_LINE_NUMBER"
    using Suc.prems(1) i by (simp_all add: table_ok_def u32_at_def x_def y_def)
  have lines: "uint x = fst (sp ! i)" "uint y = snd (sp ! i)"
    using Suc.prems(1) i cell line_mask
    by (auto simp: table_ok_def getStartLineNumber_def getEndLineNumber_def)
  have inside: "dropWhile (\<lambda>p. \<not> isInsideLast s x y p) stack =
      dropWhile (\<lambda>p. \<not> encloses (sp ! p) (sp ! i)) stack" (is "_ = ?st")
    using Suc.prems(1,2) i lines
    by (intro dropWhile_cong) (auto simp: table_ok_def stack_ok_def isInsideLast_def encloses_def)
  note step = stack_step [OF assms(1) Suc.prems(2) i]
  define w where "w = parent_word ?st"
  define s' where "s' = s\<lparr>startIndexes := (startIndexes s)[i := x + push_bit 24 (w AND 0xFF)],
                   endIndexes := (endIndexes s)[i := y + push_bit 16 (w AND 0xFF00)]\<rparr>"
  have "table_ok sp (i + 1) s'"
    unfolding s'_def w_def
    by (intro table_step [OF Suc.prems(1) i lines cell(3,4)] parent_word_value [OF step(3) _ step(2)])
      (use i assms(2) in simp)
  moreover have "parents_loop [i..<length sp] stack s = parents_loop [i + 1..<length sp] (i # ?st) s'"
    using i cell inside by (simp add: upt_rec [of i] Let_def s'_def w_def not_less)
  ultimately show ?case
    using Suc.hyps(1) [of "i + 1" s' "i # ?st"] step(1) Suc.hyps(2) i
    by (auto simp: s'_def)
qed


section \<open>Regions with known spans\<close>

text \<open>The regions \<open>s\<close> represent the spans \<open>sp\<close>, before or after their parents are computed.\<close>

definition regions_ok :: "(int \<times> int) list \<Rightarrow> FoldingRegions \<Rightarrow> bool" where
  "regions_ok sp s \<longleftrightarrow> nested sp \<and> length sp \<le> MAX_FOLDING_REGIONS \<and>
     table_ok sp (if parentsComputed s then length sp else 0) s"

definition same_states :: "FoldingRegions \<Rightarrow> FoldingRegions \<Rightarrow> bool" where
  "same_states s s' \<longleftrightarrow> collapseStates s' = collapseStates s \<and> userDefinedStates s' = userDefinedStates s \<and>
     recoveredStates s' = recoveredStates s \<and> fold_types s' = fold_types s"

lemma same_states_refl [simp]: "same_states s s"
  by (simp add: same_states_def)

lemma regions_ok_simps:
  assumes "regions_ok sp s"
  shows "folding_length s = length sp"
    and "i < length sp \<Longrightarrow> getStartLineNumber i s = fst (sp ! i)"
    and "i < length sp \<Longrightarrow> getEndLineNumber i s = snd (sp ! i)"
  using assms by (auto simp: regions_ok_def table_ok_def folding_length_def)

lemma ensureParentIndices_spec:
  assumes "regions_ok sp s"
  shows "\<exists>s'. ensureParentIndices s = (Ok (), s') \<and> regions_ok sp s' \<and> parentsComputed s' \<and> same_states s s'"
proof (cases "parentsComputed s")
  case True
  then show ?thesis using assms by (auto simp: ensureParentIndices_def)
next
  case False
  define s1 where "s1 = s\<lparr>parentsComputed := True\<rparr>"
  have sp: "nested sp" "length sp \<le> MAX_FOLDING_REGIONS" and "table_ok sp 0 s1"
    using assms False by (simp_all add: regions_ok_def table_ok_def s1_def
        getStartLineNumber_def getEndLineNumber_def stored_parent_def)
  moreover have "stack_ok sp 0 []" by (simp add: stack_ok_def)
  ultimately obtain ss es where
      "parents_loop [0..<length sp] [] s1 = (Ok (), s1\<lparr>startIndexes := ss, endIndexes := es\<rparr>)"
      "table_ok sp (length sp) (s1\<lparr>startIndexes := ss, endIndexes := es\<rparr>)"
    using parents_loop_spec [OF sp, of 0 s1 "[]"] by auto
  then show ?thesis
    using sp False regions_ok_simps(1) [OF assms]
    by (auto simp: ensureParentIndices_def regions_ok_def same_states_def s1_def)
qed

lemma ensureParentIndices_again: "parentsComputed s \<Longrightarrow> ensureParentIndices s = (Ok (), s)"
  by (simp add: ensureParentIndices_def)

lemma getParentIndex_spec:
  assumes "regions_ok sp s" "i < length sp"
  shows "\<exists>s'. getParentIndex i s = (Ok (innermost sp i), s') \<and> regions_ok sp s' \<and> same_states s s'"
proof -
  obtain s' where s': "ensureParentIndices s = (Ok (), s')" "regions_ok sp s'" "parentsComputed s'" "same_states s s'"
    using ensureParentIndices_spec [OF assms(1)] by blast
  then have "stored_parent i s' = innermost sp i"
    using assms(2) by (simp add: regions_ok_def table_ok_def)
  then show ?thesis using s' by (simp add: getParentIndex_def)
qed

lemma innermost_bounds: "innermost sp i < int i" "-1 \<le> innermost sp i"
  by (auto simp: innermost_def find_rev_upt split: option.splits) 

section \<open>Finding a region\<close>

definition covers :: "int \<times> int \<Rightarrow> int \<Rightarrow> bool" where
  "covers a line \<longleftrightarrow> fst a \<le> line \<and> line \<le> snd a"

definition innermost_at :: "(int \<times> int) list \<Rightarrow> int \<Rightarrow> int" where
  "innermost_at sp line =
     (case find (\<lambda>j. covers (sp ! j) line) (rev [0..<length sp]) of None \<Rightarrow> -1 | Some j \<Rightarrow> int j)"

lemma innermost_at_eq:
  "j < length sp \<Longrightarrow> covers (sp ! j) line \<Longrightarrow> \<forall>k. j < k \<and> k < length sp \<longrightarrow> \<not> covers (sp ! k) line \<Longrightarrow>
    innermost_at sp line = int j"
  unfolding innermost_at_def using find_rev_upt [of "\<lambda>j. covers (sp ! j) line" "length sp" j] by simp

lemma innermost_at_none:
  "\<forall>k < length sp. \<not> covers (sp ! k) line \<Longrightarrow> innermost_at sp line = -1"
  unfolding innermost_at_def using find_rev_upt_None [of "\<lambda>j. covers (sp ! j) line" "length sp"] by simp

lemma findIndex_loop_spec:
  "regions_ok sp s \<Longrightarrow> low \<le> high \<Longrightarrow> high \<le> length sp \<Longrightarrow> \<forall>j < low. fst (sp ! j) \<le> line \<Longrightarrow>
    \<forall>j < length sp. high \<le> j \<longrightarrow> line < fst (sp ! j) \<Longrightarrow>
    findIndex_loop line low high s \<le> length sp \<and> (\<forall>j < findIndex_loop line low high s. fst (sp ! j) \<le> line) \<and>
       (\<forall>j < length sp. findIndex_loop line low high s \<le> j \<longrightarrow> line < fst (sp ! j))"
proof (induction line low high s rule: findIndex_loop.induct)
  case (1 line low high s)
  show ?case
  proof (cases "low < high")
    case False
    then have "findIndex_loop line low high s = low" by (subst findIndex_loop.simps) simp
    moreover have "high = low" using False 1(4) by simp
    ultimately show ?thesis using 1(4-7) by simp
  next
    case True
    define mid where "mid = (low + high) div 2"
    have mid: "low \<le> mid" "mid < high" "mid < length sp" using True 1(5) by (auto simp: mid_def)
    have mono: "fst (sp ! j) \<le> fst (sp ! k)" if "j \<le> k" "k < length sp" for j k
      using nested_pair(1) [of sp j k] that 1(3) by (cases "j = k") (auto simp: regions_ok_def)
    have st: "getStartLineNumber mid s = fst (sp ! mid)" using regions_ok_simps(2) [OF 1(3) mid(3)] .
    show ?thesis
    proof (cases "line < fst (sp ! mid)")
      case left: True
      have "\<forall>j < length sp. mid \<le> j \<longrightarrow> line < fst (sp ! j)" using mono [of mid] left by fastforce
      moreover have "findIndex_loop line low high s = findIndex_loop line low mid s"
        using True left st by (subst findIndex_loop.simps) (simp add: mid_def)
      moreover have "line < getStartLineNumber mid s" using left st by simp
      ultimately show ?thesis using 1(1) [OF True mid_def _ 1(3) mid(1) _ 1(6)] mid(3) by simp
    next
      case False
      have "\<forall>j < mid + 1. fst (sp ! j) \<le> line"
        using mono [OF _ mid(3)] False by (force simp: less_Suc_eq_le)
      moreover have "findIndex_loop line low high s = findIndex_loop line (mid + 1) high s"
        using True False st by (subst findIndex_loop.simps) (simp add: mid_def)
      moreover have "\<not> line < getStartLineNumber mid s" using False st by simp
      ultimately show ?thesis using 1(2) [OF True mid_def _ 1(3) _ 1(5) _ 1(7)] mid(2) by simp
    qed
  qed
qed

lemma findIndex_spec:
  assumes "regions_ok sp s"
  shows "-1 \<le> findIndex line s" "findIndex line s < int (length sp)"
    "\<And>j. j < length sp \<Longrightarrow> int j \<le> findIndex line s \<longleftrightarrow> fst (sp ! j) \<le> line"
proof -
  define r where "r = findIndex_loop line 0 (length sp) s"
  have eq: "findIndex line s = int r - 1" if "length sp \<noteq> 0"
    using that regions_ok_simps(1) [OF assms] by (simp add: findIndex_def r_def)
  have empty: "findIndex line s = -1" if "length sp = 0"
    using that regions_ok_simps(1) [OF assms] by (simp add: findIndex_def)
  have r: "r \<le> length sp" "\<forall>j < r. fst (sp ! j) \<le> line" "\<forall>j < length sp. r \<le> j \<longrightarrow> line < fst (sp ! j)"
    using findIndex_loop_spec [OF assms, of 0 "length sp" line] by (simp_all add: r_def)
  show "-1 \<le> findIndex line s" "findIndex line s < int (length sp)"
    using eq empty r(1) by (cases "length sp = 0"; simp)+
  show "int j \<le> findIndex line s \<longleftrightarrow> fst (sp ! j) \<le> line" if "j < length sp" for j
  proof -
    have "int j \<le> findIndex line s \<longleftrightarrow> j < r" using eq that by force
    then show ?thesis using r(2,3) that by (meson not_less)
  qed
qed

lemma innermost_some:
  "innermost sp i = int p \<longleftrightarrow> p < i \<and> encloses (sp ! p) (sp ! i) \<and> (\<forall>k. p < k \<and> k < i \<longrightarrow> \<not> encloses (sp ! k) (sp ! i))"
proof -
  have "innermost sp i = int p \<longleftrightarrow> find (\<lambda>j. encloses (sp ! j) (sp ! i)) (rev [0..<i]) = Some p"
    by (auto simp: innermost_def split: option.splits)
  then show ?thesis by (simp add: find_rev_upt)
qed

lemma innermost_none: "innermost sp i = -1 \<longleftrightarrow> (\<forall>k < i. \<not> encloses (sp ! k) (sp ! i))"
  unfolding innermost_def by (auto split: option.splits simp: find_rev_upt find_rev_upt_None)

text \<open>When region \<open>i\<close> starts before the line and ends before it, only its ancestors can cover the line.\<close>

definition walk_ok :: "(int \<times> int) list \<Rightarrow> int \<Rightarrow> int \<Rightarrow> bool" where
  "walk_ok sp line p \<longleftrightarrow> -1 \<le> p \<and> p < int (length sp) \<and> (p \<ge> 0 \<longrightarrow> fst (sp ! nat p) \<le> line) \<and>
     (\<forall>k < length sp. p < int k \<longrightarrow> \<not> covers (sp ! k) line)"

lemma walk_parent:
  assumes "nested sp" "walk_ok sp line (int i)" "\<not> covers (sp ! i) line"
  shows "walk_ok sp line (innermost sp i)"
proof -
  have i: "i < length sp" "fst (sp ! i) \<le> line" "snd (sp ! i) < line"
    using assms(2,3) by (auto simp: walk_ok_def covers_def)
  have above: "encloses (sp ! k) (sp ! i)" if "k < i" "covers (sp ! k) line" for k
    using nested_pair [OF assms(1) that(1) i(1)] that(2) i by (auto simp: covers_def encloses_def)
  have notcov: "\<not> covers (sp ! k) line" if "k < length sp" "innermost sp i < int k" for k
  proof
    assume c: "covers (sp ! k) line"
    then have "k < i" using that(1) assms(2,3) by (metis linorder_neqE_nat of_nat_less_iff walk_ok_def)
    then have enc: "encloses (sp ! k) (sp ! i)" using above c by simp
    show False
    proof (cases "innermost sp i = -1")
      case True
      then show False using enc \<open>k < i\<close> by (simp add: innermost_none)
    next
      case False
      then obtain p where p: "innermost sp i = int p" using innermost_bounds(2) [of sp i] nonneg_int_cases
        by (metis add.inverse_inverse int_one_le_iff_zero_less linorder_not_less nle_le zle_diff1_eq diff_minus_eq_add add_0 diff_0)
      then show False using enc \<open>k < i\<close> that(2) innermost_some [of sp i p] by auto
    qed
  qed
  have "fst (sp ! nat (innermost sp i)) \<le> line" if "innermost sp i \<ge> 0"
    using that innermost_some [of sp i "nat (innermost sp i)"] i by (simp add: encloses_def)
  then show ?thesis
    using innermost_bounds [of sp i] i notcov by (auto simp: walk_ok_def)
qed

lemma walk_hit:
  assumes "walk_ok sp line p"
  shows "p = -1 \<Longrightarrow> innermost_at sp line = -1"
    and "p \<ge> 0 \<Longrightarrow> covers (sp ! nat p) line \<Longrightarrow> innermost_at sp line = p"
proof -
  show "p = -1 \<Longrightarrow> innermost_at sp line = -1"
    using assms innermost_at_none [of sp line] by (auto simp: walk_ok_def)
  assume p: "p \<ge> 0" "covers (sp ! nat p) line"
  then have "nat p < length sp" "\<forall>k. nat p < k \<and> k < length sp \<longrightarrow> \<not> covers (sp ! k) line"
    using assms by (auto simp: walk_ok_def nat_less_iff)
  then show "innermost_at sp line = p" using innermost_at_eq [of "nat p" sp line] p by simp
qed


lemma findRange_up_spec:
  "regions_ok sp s \<Longrightarrow> walk_ok sp line p \<Longrightarrow>
    \<exists>s'. findRange_up line p s = Some (Ok (innermost_at sp line), s') \<and> regions_ok sp s' \<and> same_states s s'"
proof (induction "nat (p + 1)" arbitrary: p s rule: less_induct)
  case less
  note ok = less.prems(1) and walk = less.prems(2)
  show ?case
  proof (cases "p = -1")
    case True
    then show ?thesis using ok walk_hit(1) [OF walk] by (simp add: findRange_up.simps)
  next
    case False
    then obtain i where p: "p = int i" "i < length sp"
      using walk by (metis walk_ok_def int_one_le_iff_zero_less nonneg_int_cases of_nat_less_iff
          order_le_less zle_diff1_eq add.inverse_inverse diff_0 linorder_not_less add1_zle_eq ab_left_minus)
    have cov: "region_contains i line s \<longleftrightarrow> covers (sp ! i) line"
      using regions_ok_simps(2,3) [OF ok p(2)] by (auto simp: region_contains_def covers_def)
    show ?thesis
    proof (cases "covers (sp ! i) line")
      case True
      then show ?thesis
        using ok cov walk_hit(2) [OF walk] p by (simp add: findRange_up.simps [of line "int i"])
    next
      case no: False
      obtain s' where s': "getParentIndex i s = (Ok (innermost sp i), s')" "regions_ok sp s'" "same_states s s'"
        using getParentIndex_spec [OF ok p(2)] by blast
      have "walk_ok sp line (innermost sp i)"
        using walk_parent [of sp line i] ok walk no p by (simp add: regions_ok_def)
      then obtain s'' where "findRange_up line (innermost sp i) s' = Some (Ok (innermost_at sp line), s'')"
          "regions_ok sp s''" "same_states s' s''"
        using less.hyps [of "innermost sp i" s'] innermost_bounds [of sp i] p s'(2) by auto
      then show ?thesis
        using False no cov s' p by (auto simp: findRange_up.simps [of line "int i" s] same_states_def)
    qed
  qed
qed

lemma findRange_spec:
  assumes "regions_ok sp s"
  shows "\<exists>s'. findRange line s = Some (Ok (innermost_at sp line), s') \<and> regions_ok sp s' \<and> same_states s s'"
proof -
  define p where "p = findIndex line s"
  note idx = findIndex_spec [OF assms, where line = line, folded p_def]
  have walk: "walk_ok sp line p"
    unfolding walk_ok_def covers_def
  proof (intro conjI allI impI)
    show "fst (sp ! nat p) \<le> line" if "0 \<le> p"
      using idx(3) [of "nat p"] idx(2) that by simp
    show "\<not> (fst (sp ! k) \<le> line \<and> line \<le> snd (sp ! k))" if "k < length sp" "p < int k" for k
      using idx(3) [OF that(1)] that(2) by simp
  qed (use idx(1,2) in simp_all)
  show ?thesis
  proof (cases "p \<ge> 0")
    case False
    then show ?thesis
      using assms walk_hit(1) [OF walk] idx(1) by (simp add: findRange_def flip: p_def)
  next
    case True
    then obtain i where p: "p = int i" "i < length sp" using idx(2) by (metis nonneg_int_cases of_nat_less_iff)
    have st: "fst (sp ! i) \<le> line" using idx(3) [OF p(2)] p by simp
    show ?thesis
    proof (cases "covers (sp ! i) line")
      case True
      then show ?thesis
        using assms walk_hit(2) [OF walk] p regions_ok_simps(3) [OF assms p(2)]
        by (simp add: findRange_def covers_def flip: p_def)
    next
      case no: False
      obtain s' where s': "getParentIndex i s = (Ok (innermost sp i), s')" "regions_ok sp s'" "same_states s s'"
        using getParentIndex_spec [OF assms p(2)] by blast
      have "walk_ok sp line (innermost sp i)"
        using walk_parent [of sp line i] assms walk no p by (simp add: regions_ok_def)
      from findRange_up_spec [OF s'(2) this] show ?thesis
        using no st s' p regions_ok_simps(3) [OF assms p(2)]
        by (auto simp: findRange_def covers_def same_states_def simp flip: p_def)
    qed
  qed
qed

end
