(* ===== verification/FoldingStates.thy ===== *)
theory FoldingStates
  imports FoldingParents
begin

text \<open>
  The bit fields of \<open>FoldingRegions\<close> behave as boolean arrays, and \<open>fromFoldRanges\<close> followed by
  \<open>toFoldRange\<close> gives the ranges back.
\<close>

section \<open>Bit fields\<close>

lemma BitField_get_bit: "BitField_get i bf \<longleftrightarrow> bit (u32_at bf (i div 32)) (i mod 32)"
  by (simp add: BitField_get_def bit_iff_and_push_bit_not_eq_0)

lemma length_BitField_set [simp]: "length (BitField_set i b bf) = length bf"
  by (simp add: BitField_set_def Let_def)

lemma length_new_BitField [simp]: "length (new_BitField n) = (n + 31) div 32"
  by (simp add: new_BitField_def)

lemma BitField_get_new [simp]: "\<not> BitField_get i (new_BitField n)"
  by (simp add: BitField_get_bit new_BitField_def u32_at_def)

lemma BitField_get_set:
  assumes "i div 32 < length bf"
  shows "BitField_get j (BitField_set i b bf) \<longleftrightarrow> (if j = i then b else BitField_get j bf)"
proof (cases "j div 32 = i div 32")
  case False
  then show ?thesis by (auto simp: BitField_get_bit BitField_set_def u32_at_def Let_def)
next
  case True
  have "j = i \<longleftrightarrow> j mod 32 = i mod 32" using True by (metis div_mult_mod_eq)
  then show ?thesis
    using assms True
    by (auto simp: BitField_get_bit BitField_set_def u32_at_def Let_def bit_or_iff bit_and_iff bit_not_iff
        bit_exp_iff)
qed

definition states_ok :: "FoldingRegions \<Rightarrow> bool" where
  "states_ok s \<longleftrightarrow> (\<forall>bf \<in> {collapseStates s, userDefinedStates s, recoveredStates s}.
     length bf = (folding_length s + 31) div 32)"

lemma states_ok_index: "states_ok s \<Longrightarrow> i < folding_length s \<Longrightarrow>
    i div 32 < length (collapseStates s) \<and> i div 32 < length (userDefinedStates s) \<and>
    i div 32 < length (recoveredStates s)"
  by (auto simp: states_ok_def)

lemma setCollapsed_frame [simp]:
  "startIndexes (setCollapsed i b s) = startIndexes s" "endIndexes (setCollapsed i b s) = endIndexes s"
  "fold_types (setCollapsed i b s) = fold_types s" "parentsComputed (setCollapsed i b s) = parentsComputed s"
  by (simp_all add: setCollapsed_def)

lemma setSource_frame [simp]:
  "startIndexes (setSource i f s) = startIndexes s" "endIndexes (setSource i f s) = endIndexes s"
  "fold_types (setSource i f s) = fold_types s" "parentsComputed (setSource i f s) = parentsComputed s"
  by (cases f; simp add: setSource_def setUserDefined_def setRecovered_def)+

lemma states_ok_set [simp]:
  "states_ok (setCollapsed i b s) = states_ok s" "states_ok (setSource i f s) = states_ok s"
  by (simp_all add: states_ok_def setCollapsed_def setSource_def setUserDefined_def setRecovered_def
      folding_length_def split: FoldSource.split)

lemma isCollapsed_set:
  assumes "states_ok s" "i < folding_length s"
  shows "isCollapsed j (setCollapsed i b s) \<longleftrightarrow> (if j = i then b else isCollapsed j s)"
    and "isCollapsed j (setSource i f s) \<longleftrightarrow> isCollapsed j s"
    and "getSource j (setCollapsed i b s) = getSource j s"
    and "getSource j (setSource i f s) = (if j = i then f else getSource j s)"
  using states_ok_index [OF assms]
  by (auto simp: isCollapsed_def setCollapsed_def setSource_def setUserDefined_def setRecovered_def
      getSource_def isUserDefined_def isRecovered_def BitField_get_set split: FoldSource.split)

section \<open>Conversion\<close>

lemma fromFoldRanges_states_frame [simp]:
  "startIndexes (fromFoldRanges_states i rs s) = startIndexes s"
  "endIndexes (fromFoldRanges_states i rs s) = endIndexes s"
  "fold_types (fromFoldRanges_states i rs s) = fold_types s"
  "parentsComputed (fromFoldRanges_states i rs s) = parentsComputed s"
  "states_ok (fromFoldRanges_states i rs s) = states_ok s"
  by (induction i rs s rule: fromFoldRanges_states.induct) simp_all

lemma fromFoldRanges_states_spec:
  "states_ok s \<Longrightarrow> i + length rs \<le> folding_length s \<Longrightarrow>
    (isCollapsed j (fromFoldRanges_states i rs s) \<longleftrightarrow>
       isCollapsed j s \<or> i \<le> j \<and> j < i + length rs \<and> fr_isCollapsed (rs ! (j - i))) \<and>
    getSource j (fromFoldRanges_states i rs s) =
      (if i \<le> j \<and> j < i + length rs then fr_source (rs ! (j - i)) else getSource j s)"
proof (induction i rs s rule: fromFoldRanges_states.induct)
  case (2 i r rs s)
  define s' where "s' = setSource i (fr_source r) (if fr_isCollapsed r then setCollapsed i True s else s)"
  have len: "folding_length s' = folding_length s" "states_ok s'"
    using 2(2) by (simp_all add: s'_def folding_length_def)
  have i: "i < folding_length s" using 2(3) by simp
  have s': "isCollapsed j s' \<longleftrightarrow> isCollapsed j s \<or> j = i \<and> fr_isCollapsed r"
    "getSource j s' = (if j = i then fr_source r else getSource j s)"
    using isCollapsed_set [OF 2(2) i] isCollapsed_set [of "setCollapsed i True s" i] 2(2) i
    by (auto simp: s'_def folding_length_def)
  have "(r # rs) ! (j - i) = rs ! (j - (i + 1))" if "i + 1 \<le> j" using that by (simp add: nth_Cons')
  then show ?case
    using 2(1) [folded s'_def, OF len(2)] 2(3) s' len(1)
    by (cases "j = i") (auto simp: not_le simp flip: s'_def)
qed auto


text \<open>A range that a table can hold.\<close>

definition storable :: "FoldRange \<Rightarrow> bool" where
  "storable r \<longleftrightarrow> 0 \<le> fr_startLineNumber r \<and> fr_startLineNumber r \<le> uint MAX_LINE_NUMBER \<and>
     0 \<le> fr_endLineNumber r \<and> fr_endLineNumber r \<le> uint MAX_LINE_NUMBER"

definition span :: "FoldRange \<Rightarrow> int \<times> int" where
  "span r = (fr_startLineNumber r, fr_endLineNumber r)"

definition region_list :: "FoldingRegions \<Rightarrow> FoldRange list" where
  "region_list s = map (\<lambda>i. toFoldRange i s) [0..<folding_length s]"

lemma line_word:
  assumes "0 \<le> x" "x \<le> uint MAX_LINE_NUMBER"
  shows "(word_of_int x :: 32 word) \<le> MAX_LINE_NUMBER" "uint (word_of_int x :: 32 word) = x"
proof -
  show "uint (word_of_int x :: 32 word) = x"
    using assms by (simp add: MAX_LINE_NUMBER_def unsigned_of_int take_bit_int_eq_self)
  then show "(word_of_int x :: 32 word) \<le> MAX_LINE_NUMBER" using assms by (simp add: word_le_def)
qed

lemma fromFoldRanges_spec:
  assumes "length rs \<le> MAX_FOLDING_REGIONS" "\<forall>r \<in> set rs. storable r"
  shows "\<exists>s. fromFoldRanges rs = Ok s \<and> \<not> parentsComputed s \<and> table_ok (map span rs) 0 s \<and>
    folding_length s = length rs \<and> states_ok s \<and>
    (\<forall>i < length rs. isCollapsed i s = fr_isCollapsed (rs ! i) \<and> getSource i s = fr_source (rs ! i)) \<and>
    fold_types s = (if list_ex (\<lambda>r. fr_type r \<noteq> None \<and> fr_type r \<noteq> Some []) rs
                    then Some (map fr_type rs) else None)"
proof -
  define ts where "ts = (if list_ex (\<lambda>r. fr_type r \<noteq> None \<and> fr_type r \<noteq> Some []) rs
                    then Some (map fr_type rs) else None)"
  define starts :: "32 word list" where "starts = map (\<lambda>r. word_of_int (fr_startLineNumber r)) rs"
  define ends :: "32 word list" where "ends = map (\<lambda>r. word_of_int (fr_endLineNumber r)) rs"
  obtain s0 where s0: "new_FoldingRegions starts ends ts = Ok s0" "startIndexes s0 = starts" "endIndexes s0 = ends"
      "fold_types s0 = ts" "\<not> parentsComputed s0" "states_ok s0" "\<And>i. \<not> isCollapsed i s0"
    using assms(1) by (simp add: new_FoldingRegions_def starts_def ends_def states_ok_def folding_length_def
        isCollapsed_def)
  have n: "folding_length s0 = length rs" using s0(2) by (simp add: folding_length_def starts_def)
  define s where "s = fromFoldRanges_states 0 rs s0"
  have "fromFoldRanges rs = Ok s"
    unfolding fromFoldRanges_def s_def Let_def
    using s0(1) by (simp add: ts_def starts_def ends_def)
  moreover have "folding_length s = length rs" "states_ok s" "\<not> parentsComputed s" "fold_types s = ts"
    using s0 n by (simp_all add: s_def folding_length_def)
  moreover have "\<forall>i < length rs. isCollapsed i s = fr_isCollapsed (rs ! i) \<and> getSource i s = fr_source (rs ! i)"
    using fromFoldRanges_states_spec [OF s0(6), of 0 rs] n s0(7) by (simp add: s_def)
  moreover have "table_ok (map span rs) 0 s"
    using s0(2,3) assms(2) line_word line_mask
    by (auto simp: table_ok_def s_def starts_def ends_def storable_def span_def
        getStartLineNumber_def getEndLineNumber_def u32_at_def)
  ultimately show ?thesis unfolding ts_def by blast
qed

lemma regions_of_ranges:
  assumes "length rs \<le> MAX_FOLDING_REGIONS" "\<forall>r \<in> set rs. storable r" "nested (map span rs)"
  shows "\<exists>s. fromFoldRanges rs = Ok s \<and> regions_ok (map span rs) s"
  using fromFoldRanges_spec [OF assms(1,2)] assms(1,3) by (auto simp: regions_ok_def)

lemma fold_roundtrip:
  assumes "length rs \<le> MAX_FOLDING_REGIONS" "\<forall>r \<in> set rs. storable r" "\<forall>r \<in> set rs. fr_type r \<noteq> Some []"
  shows "\<exists>s. fromFoldRanges rs = Ok s \<and> region_list s = rs"
proof -
  obtain s where s: "fromFoldRanges rs = Ok s" "table_ok (map span rs) 0 s" "folding_length s = length rs"
      "\<And>i. i < length rs \<Longrightarrow> isCollapsed i s = fr_isCollapsed (rs ! i) \<and> getSource i s = fr_source (rs ! i)"
      "fold_types s = (if list_ex (\<lambda>r. fr_type r \<noteq> None \<and> fr_type r \<noteq> Some []) rs
                       then Some (map fr_type rs) else None)"
    using fromFoldRanges_spec [OF assms(1,2)] by blast
  have "getType i s = fr_type (rs ! i)" if "i < length rs" for i
    using that s(5) assms(3) by (force simp: getType_def list_ex_iff split: if_splits)
  then have "toFoldRange i s = rs ! i" if "i < length rs" for i
    using that s(2,3) s(4) [OF that]
    by (simp add: toFoldRange_def table_ok_def span_def getStartLineNumber_def getEndLineNumber_def)
  then have "region_list s = rs" unfolding region_list_def s(3) by (intro nth_equalityI) simp_all
  then show ?thesis using s(1) by blast
qed

end
