(* ===== verification/FoldingMerge.thy ===== *)
theory FoldingMerge
  imports FoldingStates
begin

text \<open>
  \<open>FoldingRegions.sanitizeAndMerge\<close> of \<open>src/vs/editor/contrib/folding/browser/foldingRanges.ts\<close>: the
  ranges a provider computed are merged with the folded and manual ranges of the old table.

  The two inputs are read in order through an index each; the rest of an input is a list here.  The
  code updates \<open>isCollapsed\<close> and \<open>source\<close> of the range it uses in place; no range is read
  again after it was used, so the update is of the value.  The variable \<open>topStackedRange\<close> and the array
  \<open>stackedRanges\<close> (top first) are kept apart as in the code.  An absent \<open>maxLineNumber\<close> is
  \<open>None\<close>, and \<open>selection\<close> is the method \<open>startsInside\<close> of an object the caller provides.
\<close>

section \<open>Definitions\<close>

datatype FoldInput = FoldInput_regions FoldingRegions | FoldInput_ranges "FoldRange list"

definition indexed_ranges :: "FoldInput \<Rightarrow> FoldRange list" where
  "indexed_ranges r =
     (case r of
        FoldInput_ranges rs \<Rightarrow> rs
      | FoldInput_regions s \<Rightarrow> map (\<lambda>i. toFoldRange i s) [0..<folding_length s])"

definition startsInside :: "(int \<Rightarrow> int \<Rightarrow> bool) option \<Rightarrow> int \<Rightarrow> int \<Rightarrow> bool" where
  "startsInside sel a b = (case sel of None \<Rightarrow> False | Some f \<Rightarrow> f a b)"

text \<open>Both inputs have a range with the same start.\<close>

definition merge_same_start :: "(int \<Rightarrow> int \<Rightarrow> bool) option \<Rightarrow> FoldRange \<Rightarrow> FoldRange \<Rightarrow> FoldRange" where
  "merge_same_start sel a b =
     (if fr_source b = FoldSource_userDefined then b
      else a\<lparr>fr_isCollapsed := fr_isCollapsed b \<and> (fr_endLineNumber a = fr_endLineNumber b \<or>
               \<not> startsInside sel (fr_startLineNumber a + 1) (fr_endLineNumber a + 1)),
             fr_source := FoldSource_provider\<rparr>)"

definition merge_recover :: "FoldRange \<Rightarrow> FoldRange" where
  "merge_recover b =
     (if fr_isCollapsed b \<and> fr_source b = FoldSource_provider then b\<lparr>fr_source := FoldSource_recovered\<rparr> else b)"

text \<open>The look ahead: \<open>None\<close> when a range of the user wins over \<open>a\<close>.\<close>

fun prescan :: "FoldRange \<Rightarrow> FoldRange list \<Rightarrow> FoldRange option" where
  "prescan a [] = Some a"
| "prescan a (b # bs) =
     (if fr_startLineNumber b > fr_endLineNumber a then Some a
      else if fr_source b = FoldSource_userDefined \<and> fr_endLineNumber b > fr_endLineNumber a then None
      else prescan a bs)"

text \<open>The choice of \<open>useRange\<close> in one turn of the loop, and the inputs that are left.\<close>

fun merge_next :: "(int \<Rightarrow> int \<Rightarrow> bool) option \<Rightarrow> FoldRange list \<Rightarrow> FoldRange list \<Rightarrow>
    FoldRange option \<times> FoldRange list \<times> FoldRange list" where
  "merge_next sel [] [] = (None, [], [])"
| "merge_next sel [] (b # bs) = (Some (merge_recover b), [], bs)"
| "merge_next sel (a # as) [] = (prescan a [], as, [])"
| "merge_next sel (a # as) (b # bs) =
     (if fr_startLineNumber a \<ge> fr_startLineNumber b then
        if fr_startLineNumber a = fr_startLineNumber b then (Some (merge_same_start sel a b), as, bs)
        else (Some (merge_recover b), a # as, bs)
      else (prescan a (b # bs), as, b # bs))"

fun unstack :: "FoldRange option \<Rightarrow> FoldRange list \<Rightarrow> int \<Rightarrow> FoldRange option \<times> FoldRange list" where
  "unstack None stack startLine = (None, stack)"
| "unstack (Some t) [] startLine = (if fr_endLineNumber t < startLine then (None, []) else (Some t, []))"
| "unstack (Some t) (u # us) startLine =
     (if fr_endLineNumber t < startLine then unstack (Some u) us startLine else (Some t, u # us))"

record MergeState =
  topStackedRange :: "FoldRange option"
  stackedRanges :: "FoldRange list"
  prevLineNumber :: int
  resultRanges :: "FoldRange list"

definition merge_accept :: "int option \<Rightarrow> FoldRange \<Rightarrow> MergeState \<Rightarrow> MergeState" where
  "merge_accept maxLine use st =
     (let (top, stack) = unstack (topStackedRange st) (stackedRanges st) (fr_startLineNumber use)
      in if fr_endLineNumber use > fr_startLineNumber use \<and> fr_startLineNumber use > prevLineNumber st \<and>
            (case maxLine of None \<Rightarrow> True | Some m \<Rightarrow> fr_endLineNumber use \<le> m) \<and>
            (case top of None \<Rightarrow> True | Some t \<Rightarrow> fr_endLineNumber t \<ge> fr_endLineNumber use)
         then \<lparr>topStackedRange = Some use,
               stackedRanges = (case top of None \<Rightarrow> stack | Some t \<Rightarrow> t # stack),
               prevLineNumber = fr_startLineNumber use,
               resultRanges = resultRanges st @ [use]\<rparr>
         else st\<lparr>topStackedRange := top, stackedRanges := stack\<rparr>)"

lemma merge_next_smaller:
  assumes "merge_next sel as bs = (u, as', bs')" "as \<noteq> [] \<or> bs \<noteq> []"
  shows "length as' + length bs' < length as + length bs"
  using assms by (cases "(sel, as, bs)" rule: merge_next.cases) (auto split: if_splits)

function merge_loop :: "(int \<Rightarrow> int \<Rightarrow> bool) option \<Rightarrow> int option \<Rightarrow> FoldRange list \<Rightarrow> FoldRange list \<Rightarrow>
    MergeState \<Rightarrow> MergeState" where
  "merge_loop sel maxLine as bs st =
     (if as = [] \<and> bs = [] then st
      else case merge_next sel as bs of (u, as', bs') \<Rightarrow>
        merge_loop sel maxLine as' bs' (case u of None \<Rightarrow> st | Some r \<Rightarrow> merge_accept maxLine r st))"
  by pat_completeness auto
termination
  by (relation "measure (\<lambda>(sel, m, as, bs, st). length as + length bs)") (auto dest: merge_next_smaller [OF sym])

declare merge_loop.simps [simp del]

definition sanitizeAndMerge :: "FoldInput \<Rightarrow> FoldInput \<Rightarrow> int option \<Rightarrow> (int \<Rightarrow> int \<Rightarrow> bool) option \<Rightarrow>
    FoldRange list" where
  "sanitizeAndMerge rangesA rangesB maxLine sel =
     resultRanges (merge_loop sel maxLine (indexed_ranges rangesA) (indexed_ranges rangesB)
       \<lparr>topStackedRange = None, stackedRanges = [], prevLineNumber = 0, resultRanges = []\<rparr>)"

end
