(* ===== verification/FoldingMergeProofs.thy ===== *)
theory FoldingMergeProofs
  imports FoldingMerge
begin

text \<open>
  What \<open>sanitizeAndMerge\<close> promises.  For inputs sorted by start line its result is \<open>good_ranges\<close>:
  strictly sorted, properly nested, inside the text (\<open>merge_good\<close>).  A good list merged with nothing
  is itself (\<open>merge_identity\<close>), and the ranges of the user survive (\<open>merge_keeps_user_ranges\<close>) as long
  as no other old range has the start line of a new one; \<open>merge_drops_user_range\<close> is a run in which that
  condition fails and the range of the user is lost.
\<close>

section \<open>Good lists of ranges\<close>

definition fits :: "int option \<Rightarrow> FoldRange \<Rightarrow> bool" where
  "fits maxLine r \<longleftrightarrow> 0 < fr_startLineNumber r \<and> fr_startLineNumber r < fr_endLineNumber r \<and>
     (case maxLine of None \<Rightarrow> True | Some m \<Rightarrow> fr_endLineNumber r \<le> m)"

definition compat :: "FoldRange \<Rightarrow> FoldRange \<Rightarrow> bool" where
  "compat r b \<longleftrightarrow> fr_startLineNumber r < fr_startLineNumber b \<and>
     (fr_endLineNumber r < fr_startLineNumber b \<or> fr_endLineNumber b \<le> fr_endLineNumber r)"

definition good_ranges :: "int option \<Rightarrow> FoldRange list \<Rightarrow> bool" where
  "good_ranges maxLine rs \<longleftrightarrow> (\<forall>r \<in> set rs. fits maxLine r) \<and> sorted_wrt compat rs"

definition starts_sorted :: "FoldRange list \<Rightarrow> bool" where
  "starts_sorted rs \<longleftrightarrow> sorted_wrt (\<lambda>a b. fr_startLineNumber a \<le> fr_startLineNumber b) rs"

lemma good_nested: "good_ranges maxLine rs \<Longrightarrow> nested (map span rs)"
  by (auto simp: good_ranges_def nested_def span_def fits_def compat_def sorted_wrt_map elim!: sorted_wrt_mono_rel [rotated])

lemma good_starts_sorted: "good_ranges maxLine rs \<Longrightarrow> starts_sorted rs"
  by (auto simp: good_ranges_def starts_sorted_def compat_def elim!: sorted_wrt_mono_rel [rotated])

section \<open>The stack\<close>

definition chain :: "FoldRange option \<Rightarrow> FoldRange list \<Rightarrow> FoldRange list" where
  "chain tp stack = (case tp of None \<Rightarrow> [] | Some t \<Rightarrow> t # stack)"

lemma chain_simps [simp]: "chain None stack = []" "chain (Some t) stack = t # stack"
  by (simp_all add: chain_def)

lemma unstack_chain:
  "tp = None \<longrightarrow> stack = [] \<Longrightarrow> unstack tp stack l = (tp', stack') \<Longrightarrow>
    chain tp' stack' = dropWhile (\<lambda>r. fr_endLineNumber r < l) (chain tp stack) \<and> (tp' = None \<longrightarrow> stack' = [])"
  by (induction tp stack l rule: unstack.induct) (auto split: if_splits)

definition merge_inv :: "int option \<Rightarrow> int \<Rightarrow> MergeState \<Rightarrow> bool" where
  "merge_inv maxLine l st \<longleftrightarrow> good_ranges maxLine (resultRanges st) \<and>
     prevLineNumber st = (if resultRanges st = [] then 0 else fr_startLineNumber (last (resultRanges st))) \<and>
     (topStackedRange st = None \<longrightarrow> stackedRanges st = []) \<and>
     set (chain (topStackedRange st) (stackedRanges st)) \<subseteq> set (resultRanges st) \<and>
     sorted_wrt (\<lambda>x y. fr_endLineNumber x \<le> fr_endLineNumber y) (chain (topStackedRange st) (stackedRanges st)) \<and>
     (\<forall>r \<in> set (resultRanges st). l \<le> fr_endLineNumber r \<longrightarrow>
        r \<in> set (chain (topStackedRange st) (stackedRanges st)))"

lemma merge_inv_init:
  "merge_inv maxLine l \<lparr>topStackedRange = None, stackedRanges = [], prevLineNumber = 0, resultRanges = []\<rparr>"
  by (simp add: merge_inv_def good_ranges_def)

lemma good_ranges_snoc:
  "good_ranges maxLine (rs @ [u]) \<longleftrightarrow> good_ranges maxLine rs \<and> fits maxLine u \<and> (\<forall>r \<in> set rs. compat r u)"
  by (auto simp: good_ranges_def sorted_wrt_append)

lemma good_last: "good_ranges maxLine rs \<Longrightarrow> r \<in> set rs \<Longrightarrow> fr_startLineNumber r \<le> fr_startLineNumber (last rs)"
  by (cases rs rule: rev_cases) (auto simp: good_ranges_def sorted_wrt_append compat_def)

lemma dropWhile_ends_mem:
  "sorted_wrt (\<lambda>x y. fr_endLineNumber x \<le> fr_endLineNumber y) xs \<Longrightarrow>
    r \<in> set (dropWhile (\<lambda>r. fr_endLineNumber r < l) xs) \<longleftrightarrow> r \<in> set xs \<and> l \<le> fr_endLineNumber r"
  by (induction xs) auto

lemma accept_cases:
  assumes inv: "merge_inv maxLine l st" and "l \<le> fr_startLineNumber u"
  obtains tp stack where
    "unstack (topStackedRange st) (stackedRanges st) (fr_startLineNumber u) = (tp, stack)"
    "tp = None \<longrightarrow> stack = []"
    "sorted_wrt (\<lambda>x y. fr_endLineNumber x \<le> fr_endLineNumber y) (chain tp stack)"
    "\<And>r. r \<in> set (chain tp stack) \<longleftrightarrow> r \<in> set (resultRanges st) \<and> fr_startLineNumber u \<le> fr_endLineNumber r"
proof -
  obtain tp stack where un: "unstack (topStackedRange st) (stackedRanges st) (fr_startLineNumber u) = (tp, stack)"
    by fastforce
  have st: "topStackedRange st = None \<longrightarrow> stackedRanges st = []"
    "sorted_wrt (\<lambda>x y. fr_endLineNumber x \<le> fr_endLineNumber y) (chain (topStackedRange st) (stackedRanges st))"
    "set (chain (topStackedRange st) (stackedRanges st)) \<subseteq> set (resultRanges st)"
    "\<forall>r \<in> set (resultRanges st). l \<le> fr_endLineNumber r \<longrightarrow> r \<in> set (chain (topStackedRange st) (stackedRanges st))"
    using inv by (auto simp: merge_inv_def)
  note ch = unstack_chain [OF st(1) un]
  have "sorted_wrt (\<lambda>x y. fr_endLineNumber x \<le> fr_endLineNumber y) (chain tp stack)"
    using ch st(2) by (simp add: sorted_wrt_dropWhile)
  moreover have "r \<in> set (chain tp stack) \<longleftrightarrow> r \<in> set (resultRanges st) \<and> fr_startLineNumber u \<le> fr_endLineNumber r" for r
    using ch st(3,4) assms(2) dropWhile_ends_mem [OF st(2), of r "fr_startLineNumber u"] by force
  ultimately show thesis using that un ch by blast
qed

lemma accept_inv:
  assumes inv: "merge_inv maxLine l st" and l: "l \<le> fr_startLineNumber u"
  shows "merge_inv maxLine (fr_startLineNumber u) (merge_accept maxLine u st)"
proof -
  obtain tp stack where
    un: "unstack (topStackedRange st) (stackedRanges st) (fr_startLineNumber u) = (tp, stack)" and
    none: "tp = None \<longrightarrow> stack = []" and
    sorted: "sorted_wrt (\<lambda>x y. fr_endLineNumber x \<le> fr_endLineNumber y) (chain tp stack)" and
    mem: "\<And>r. r \<in> set (chain tp stack) \<longleftrightarrow> r \<in> set (resultRanges st) \<and> fr_startLineNumber u \<le> fr_endLineNumber r"
    using accept_cases [OF assms] by blast
  define ok where "ok \<longleftrightarrow> fr_endLineNumber u > fr_startLineNumber u \<and> fr_startLineNumber u > prevLineNumber st \<and>
            (case maxLine of None \<Rightarrow> True | Some m \<Rightarrow> fr_endLineNumber u \<le> m) \<and>
            (case tp of None \<Rightarrow> True | Some t \<Rightarrow> fr_endLineNumber t \<ge> fr_endLineNumber u)"
  have good: "good_ranges maxLine (resultRanges st)" using inv by (simp add: merge_inv_def)
  show ?thesis
  proof (cases ok)
    case False
    then have "merge_accept maxLine u st = st\<lparr>topStackedRange := tp, stackedRanges := stack\<rparr>"
      using un by (auto simp: merge_accept_def ok_def)
    moreover have "set (chain tp stack) \<subseteq> set (resultRanges st)" using mem by blast
    moreover have "\<forall>r \<in> set (resultRanges st). fr_startLineNumber u \<le> fr_endLineNumber r \<longrightarrow> r \<in> set (chain tp stack)"
      using mem by blast
    ultimately show ?thesis using inv none sorted by (simp add: merge_inv_def)
  next
    case True
    have acc: "merge_accept maxLine u st = \<lparr>topStackedRange = Some u,
        stackedRanges = chain tp stack, prevLineNumber = fr_startLineNumber u, resultRanges = resultRanges st @ [u]\<rparr>"
      using True un none by (auto simp: merge_accept_def ok_def chain_def split: option.splits)
    have ends: "fr_endLineNumber u \<le> fr_endLineNumber r" if "r \<in> set (chain tp stack)" for r
      using True sorted that by (cases tp) (auto simp: ok_def)
    have prev: "fr_startLineNumber r < fr_startLineNumber u" if "r \<in> set (resultRanges st)" for r
      using True inv good_last [OF good that] that by (auto simp: merge_inv_def ok_def split: if_splits)
    have "prevLineNumber st \<ge> 0"
      using inv good by (cases "resultRanges st" rule: rev_cases) (auto simp: merge_inv_def good_ranges_snoc fits_def)
    then have "fits maxLine u" using True by (auto simp: ok_def fits_def)
    moreover have "\<forall>r \<in> set (resultRanges st). compat r u"
      using prev ends mem unfolding compat_def by (meson not_less)
    ultimately show ?thesis
      using acc good sorted mem ends by (auto simp: merge_inv_def good_ranges_snoc)
  qed
qed

lemma accept_result:
  assumes inv: "merge_inv maxLine l st" and l: "l \<le> fr_startLineNumber u"
    and u: "fits maxLine u" "\<forall>r \<in> set (resultRanges st). compat r u"
  shows "resultRanges (merge_accept maxLine u st) = resultRanges st @ [u]"
proof -
  obtain tp stack where
    un: "unstack (topStackedRange st) (stackedRanges st) (fr_startLineNumber u) = (tp, stack)" and
    mem: "\<And>r. r \<in> set (chain tp stack) \<longleftrightarrow> r \<in> set (resultRanges st) \<and> fr_startLineNumber u \<le> fr_endLineNumber r"
    using accept_cases [OF assms(1,2)] by blast
  have "fr_endLineNumber u \<le> fr_endLineNumber t" if "tp = Some t" for t
    using mem [of t] that u(2) by (force simp: compat_def)
  moreover have "prevLineNumber st < fr_startLineNumber u"
    using inv u by (auto simp: merge_inv_def fits_def compat_def)
  ultimately show ?thesis
    using un u(1) by (auto simp: merge_accept_def fits_def split: option.splits)
qed

lemma accept_only:
  "set (resultRanges (merge_accept maxLine u st)) \<subseteq> insert u (set (resultRanges st))"
  "set (resultRanges st) \<subseteq> set (resultRanges (merge_accept maxLine u st))"
  by (auto simp: merge_accept_def split: prod.splits)


section \<open>The order of the inputs\<close>

definition all_from :: "int \<Rightarrow> FoldRange list \<Rightarrow> bool" where
  "all_from l rs \<longleftrightarrow> (\<forall>r \<in> set rs. l \<le> fr_startLineNumber r)"

lemma starts_sorted_simps [simp]:
  "starts_sorted []" "starts_sorted (a # rs) \<longleftrightarrow> all_from (fr_startLineNumber a) rs \<and> starts_sorted rs"
  "all_from l []" "all_from l (a # rs) \<longleftrightarrow> l \<le> fr_startLineNumber a \<and> all_from l rs"
  by (simp_all add: starts_sorted_def all_from_def)

lemma all_from_mono: "all_from l rs \<Longrightarrow> k \<le> l \<Longrightarrow> all_from k rs"
  by (auto simp: all_from_def)

lemma prescan_Some: "prescan a bs = Some r \<Longrightarrow> r = a"
  by (induction a bs rule: prescan.induct) (auto split: if_splits)

lemma merge_start [simp]:
  "fr_startLineNumber (merge_recover b) = fr_startLineNumber b"
  "fr_endLineNumber (merge_recover b) = fr_endLineNumber b"
  "fr_startLineNumber a = fr_startLineNumber b \<Longrightarrow> fr_startLineNumber (merge_same_start sel a b) = fr_startLineNumber b"
  by (simp_all add: merge_recover_def merge_same_start_def)

lemma merge_next_order:
  assumes "merge_next sel as bs = (u, as', bs')" "starts_sorted as" "starts_sorted bs" "all_from l as" "all_from l bs"
  shows "starts_sorted as' \<and> starts_sorted bs' \<and> (\<exists>k \<ge> l. all_from k as' \<and> all_from k bs' \<and>
    (\<forall>r. u = Some r \<longrightarrow> k = fr_startLineNumber r))"
proof (cases "(sel, as, bs)" rule: merge_next.cases)
  case (4 sel' a as'' b bs'')
  show ?thesis
  proof (cases "fr_startLineNumber a \<ge> fr_startLineNumber b")
    case True
    then show ?thesis
      using assms 4 by (intro conjI exI [of _ "fr_startLineNumber b"])
        (auto split: if_splits intro: all_from_mono)
  next
    case False
    then have "u = prescan a (b # bs'')" "as' = as''" "bs' = b # bs''" using assms(1) 4 by auto
    then show ?thesis
      using assms(2-5) 4 False by (intro conjI exI [of _ "fr_startLineNumber a"])
        (auto simp del: prescan.simps dest!: prescan_Some [OF sym] prescan_Some intro: all_from_mono)
  qed
qed (use assms in \<open>auto dest!: prescan_Some\<close>)

lemma merge_loop_inv:
  "starts_sorted as \<Longrightarrow> starts_sorted bs \<Longrightarrow> all_from l as \<Longrightarrow> all_from l bs \<Longrightarrow> merge_inv maxLine l st \<Longrightarrow>
    \<exists>k. merge_inv maxLine k (merge_loop sel maxLine as bs st)"
proof (induction sel maxLine as bs st arbitrary: l rule: merge_loop.induct)
  case (1 sel maxLine as bs st)
  show ?case
  proof (cases "as = [] \<and> bs = []")
    case True
    then show ?thesis using 1(6) by (subst merge_loop.simps) auto
  next
    case False
    obtain u as' bs' where nxt: "merge_next sel as bs = (u, as', bs')" by (metis prod_cases3)
    define st' where "st' = (case u of None \<Rightarrow> st | Some r \<Rightarrow> merge_accept maxLine r st)"
    obtain k where k: "l \<le> k" "starts_sorted as'" "starts_sorted bs'" "all_from k as'" "all_from k bs'"
        "\<And>r. u = Some r \<Longrightarrow> k = fr_startLineNumber r"
      using merge_next_order [OF nxt 1(2-5)] by blast
    have "merge_inv maxLine k st'"
      using accept_inv [OF 1(6)] k(1,6) 1(6) by (cases u) (auto simp: st'_def merge_inv_def)
    then have "\<exists>k. merge_inv maxLine k (merge_loop sel maxLine as' bs' st')"
      using 1(1) [OF False nxt [symmetric] refl] k(2-5) by (simp add: st'_def)
    moreover have "merge_loop sel maxLine as bs st = merge_loop sel maxLine as' bs' st'"
      using False nxt by (subst merge_loop.simps) (auto simp: st'_def)
    ultimately show ?thesis by simp
  qed
qed

lemma merge_good:
  assumes "starts_sorted (indexed_ranges rangesA)" "starts_sorted (indexed_ranges rangesB)"
  shows "good_ranges maxLine (sanitizeAndMerge rangesA rangesB maxLine sel)"
proof -
  define l where "l = Min (insert 0 (fr_startLineNumber ` (set (indexed_ranges rangesA) \<union> set (indexed_ranges rangesB))))"
  have "all_from l (indexed_ranges rangesA)" "all_from l (indexed_ranges rangesB)"
    by (auto simp: all_from_def l_def)
  from merge_loop_inv [OF assms this merge_inv_init]
  show ?thesis by (auto simp: sanitizeAndMerge_def merge_inv_def)
qed

lemma merge_loop_identity:
  "good_ranges maxLine (resultRanges st @ as) \<Longrightarrow> all_from l as \<Longrightarrow> merge_inv maxLine l st \<Longrightarrow>
    resultRanges (merge_loop sel maxLine as [] st) = resultRanges st @ as"
proof (induction as arbitrary: st l)
  case Nil
  then show ?case by (simp add: merge_loop.simps)
next
  case (Cons a as)
  define st' where "st' = merge_accept maxLine a st"
  have "fits maxLine a" "\<forall>r \<in> set (resultRanges st). compat r a"
    using Cons.prems(1) by (auto simp: good_ranges_def sorted_wrt_append)
  then have res: "resultRanges st' = resultRanges st @ [a]"
    unfolding st'_def using Cons.prems(2,3) by (intro accept_result) auto
  have "all_from (fr_startLineNumber a) as"
    using good_starts_sorted [OF Cons.prems(1)] by (simp add: starts_sorted_def all_from_def sorted_wrt_append)
  then have "resultRanges (merge_loop sel maxLine as [] st') = resultRanges st' @ as"
    using Cons.prems accept_inv [OF Cons.prems(3), of a]
    by (intro Cons.IH [of _ "fr_startLineNumber a"]) (auto simp: res [unfolded st'_def] st'_def)
  then show ?case using res by (simp add: merge_loop.simps [of sel maxLine "a # as"] flip: st'_def)
qed

lemma merge_identity:
  assumes "good_ranges maxLine (indexed_ranges rangesA)"
  shows "sanitizeAndMerge rangesA (FoldInput_ranges []) maxLine sel = indexed_ranges rangesA"
proof -
  have "all_from 0 (indexed_ranges rangesA)"
    using assms by (auto simp: good_ranges_def fits_def all_from_def)
  then show ?thesis
    using merge_loop_identity [OF _ _ merge_inv_init, of maxLine "indexed_ranges rangesA" 0] assms
    by (simp add: sanitizeAndMerge_def indexed_ranges_def)
qed


section \<open>Ranges of the user\<close>

definition user_range :: "FoldRange \<Rightarrow> bool" where
  "user_range b \<longleftrightarrow> fr_source b = FoldSource_userDefined"

text \<open>Every old range that starts where a new one does is one of the user.\<close>

definition starts_differ :: "FoldRange list \<Rightarrow> FoldRange list \<Rightarrow> bool" where
  "starts_differ as bs \<longleftrightarrow>
     (\<forall>a \<in> set as. \<forall>b \<in> set bs. fr_startLineNumber a = fr_startLineNumber b \<longrightarrow> user_range b)"

lemma compat_recover [simp]: "compat (merge_recover b) x = compat b x"
  by (simp add: compat_def)

lemma recover_user: "user_range b \<Longrightarrow> merge_recover b = b"
  by (simp add: merge_recover_def user_range_def)

lemma prescan_compat:
  "prescan a bs = Some r \<Longrightarrow> starts_sorted bs \<Longrightarrow> \<forall>b \<in> set bs. fr_startLineNumber a < fr_startLineNumber b \<Longrightarrow>
    b \<in> set bs \<Longrightarrow> user_range b \<Longrightarrow> compat r b"
proof (induction a bs rule: prescan.induct)
  case (2 a c bs)
  have r: "r = a" using prescan_Some [OF 2(2)] .
  show ?case
  proof (cases "fr_startLineNumber c > fr_endLineNumber a")
    case True
    then have "fr_endLineNumber a < fr_startLineNumber b"
      using 2(3,5) by (auto simp: all_from_def)
    then show ?thesis using 2(4,5) r by (auto simp: compat_def)
  next
    case False
    then show ?thesis using 2 r by (auto simp: compat_def user_range_def split: if_splits)
  qed
qed simp

lemma merge_next_users:
  assumes "merge_next sel as bs = (u, as', bs')" "good_ranges m bs" "starts_differ as bs"
  shows "good_ranges m bs' \<and> starts_differ as' bs' \<and>
    (\<forall>r b. u = Some r \<and> b \<in> set bs' \<and> user_range b \<longrightarrow> compat r b) \<and>
    (\<forall>b \<in> set bs. user_range b \<longrightarrow> b \<in> set bs' \<or> u = Some b)"
proof (cases "(sel, as, bs)" rule: merge_next.cases)
  case (4 sel' a as'' b bs'')
  have bs: "good_ranges m bs''" "\<forall>x \<in> set bs''. compat b x" using assms(2) 4 by (auto simp: good_ranges_def)
  show ?thesis
  proof (cases "fr_startLineNumber a \<ge> fr_startLineNumber b")
    case True
    have "merge_same_start sel a b = b" if "fr_startLineNumber a = fr_startLineNumber b"
      using that assms(3) 4 by (simp add: starts_differ_def merge_same_start_def user_range_def)
    then show ?thesis
      using True assms(1,3) 4 bs recover_user by (auto simp: starts_differ_def split: if_splits)
  next
    case False
    then have nxt: "u = prescan a (b # bs'')" "as' = as''" "bs' = b # bs''" using assms(1) 4 by auto
    have "\<forall>x \<in> set (b # bs''). fr_startLineNumber a < fr_startLineNumber x"
      using False bs(2) by (auto simp: compat_def)
    then have "compat r x" if "prescan a (b # bs'') = Some r" "x \<in> set (b # bs'')" "user_range x" for r x
      using prescan_compat [OF that(1) _ _ that(2,3)] good_starts_sorted [OF assms(2)] 4 by blast
    then show ?thesis using nxt assms(2,3) 4 by (auto simp: starts_differ_def simp del: prescan.simps)
  qed
next
  case (2 sel' b bs'')
  then show ?thesis
    using assms by (auto simp: good_ranges_def starts_differ_def recover_user)
qed (use assms in \<open>auto simp: starts_differ_def\<close>)

lemma merge_loop_mono: "set (resultRanges st) \<subseteq> set (resultRanges (merge_loop sel maxLine as bs st))"
proof (induction sel maxLine as bs st rule: merge_loop.induct)
  case (1 sel maxLine as bs st)
  show ?case
  proof (cases "as = [] \<and> bs = []")
    case True
    then show ?thesis by (subst merge_loop.simps) auto
  next
    case False
    obtain u as' bs' where nxt: "merge_next sel as bs = (u, as', bs')" by (metis prod_cases3)
    show ?thesis
      using 1 [OF False nxt [symmetric] refl] accept_only(2) [of st maxLine] False nxt
      by (subst merge_loop.simps) (auto split: option.splits)
  qed
qed

lemma merge_loop_users:
  "starts_sorted as \<Longrightarrow> good_ranges maxLine bs \<Longrightarrow> starts_differ as bs \<Longrightarrow> all_from l as \<Longrightarrow> all_from l bs \<Longrightarrow>
    merge_inv maxLine l st \<Longrightarrow>
    \<forall>r \<in> set (resultRanges st). \<forall>b \<in> set bs. user_range b \<longrightarrow> compat r b \<Longrightarrow> b \<in> set bs \<Longrightarrow> user_range b \<Longrightarrow>
    b \<in> set (resultRanges (merge_loop sel maxLine as bs st))"
proof (induction sel maxLine as bs st arbitrary: l rule: merge_loop.induct)
  case (1 sel maxLine as bs st)
  have ne: "\<not> (as = [] \<and> bs = [])" using 1(9) by auto
  obtain u as' bs' where nxt: "merge_next sel as bs = (u, as', bs')" by (metis prod_cases3)
  define st' where "st' = (case u of None \<Rightarrow> st | Some r \<Rightarrow> merge_accept maxLine r st)"
  have loop: "merge_loop sel maxLine as bs st = merge_loop sel maxLine as' bs' st'"
    using ne nxt by (subst merge_loop.simps) (auto simp: st'_def)
  obtain k where k: "l \<le> k" "starts_sorted as'" "all_from k as'" "all_from k bs'"
      "\<And>r. u = Some r \<Longrightarrow> k = fr_startLineNumber r"
    using merge_next_order [OF nxt 1(2) good_starts_sorted [OF 1(3)] 1(5,6)] by blast
  have inv: "merge_inv maxLine k st'"
    using accept_inv [OF 1(7)] k(1,5) 1(7) by (cases u) (auto simp: st'_def merge_inv_def)
  note users = merge_next_users [OF nxt 1(3,4)]
  have sub: "set bs' \<subseteq> set bs"
    using nxt by (cases "(sel, as, bs)" rule: merge_next.cases) (auto split: if_splits)
  have cmp: "\<forall>r \<in> set (resultRanges st'). \<forall>b \<in> set bs'. user_range b \<longrightarrow> compat r b"
    using 1(8) users sub accept_only(1) [of maxLine _ st] by (cases u) (fastforce simp: st'_def)+
  show ?case
  proof (cases "b \<in> set bs'")
    case True
    then show ?thesis
      using 1(1) [OF ne nxt [symmetric] refl] k users cmp inv 1(10) by (simp add: loop flip: st'_def)
  next
    case False
    then have u: "u = Some b" using users 1(9,10) by blast
    then have "resultRanges st' = resultRanges st @ [b]"
      unfolding st'_def using 1(3,8,9,10) k(1,5)
      by (auto simp: good_ranges_def intro!: accept_result [OF 1(7)])
    then show ?thesis using loop merge_loop_mono [of st'] by auto
  qed
qed

lemma merge_keeps_user_ranges:
  assumes "starts_sorted (indexed_ranges rangesA)" "good_ranges maxLine (indexed_ranges rangesB)"
    and "starts_differ (indexed_ranges rangesA) (indexed_ranges rangesB)"
    and "b \<in> set (indexed_ranges rangesB)" "user_range b"
  shows "b \<in> set (sanitizeAndMerge rangesA rangesB maxLine sel)"
proof -
  define l where "l = Min (insert 0 (fr_startLineNumber ` (set (indexed_ranges rangesA) \<union> set (indexed_ranges rangesB))))"
  have "all_from l (indexed_ranges rangesA)" "all_from l (indexed_ranges rangesB)"
    by (auto simp: all_from_def l_def)
  from merge_loop_users [OF assms(1-3) this merge_inv_init _ assms(4,5)]
  show ?thesis by (simp add: sanitizeAndMerge_def)
qed

definition fold_range :: "int \<Rightarrow> int \<Rightarrow> bool \<Rightarrow> FoldSource \<Rightarrow> FoldRange" where
  "fold_range a b collapsed source =
     \<lparr>fr_startLineNumber = a, fr_endLineNumber = b, fr_type = None, fr_isCollapsed = collapsed, fr_source = source\<rparr>"

text \<open>
  Without that condition: the new range 5-10 takes the place of the old range 5-7, there is no look
  ahead in that branch, and the range 8-20 of the user is discarded.
\<close>

lemma merge_drops_user_range:
  "sanitizeAndMerge (FoldInput_ranges [fold_range 5 10 False FoldSource_provider])
     (FoldInput_ranges [fold_range 5 7 True FoldSource_recovered, fold_range 8 20 True FoldSource_userDefined])
     None None =
   [fold_range 5 10 True FoldSource_provider]"
  by (simp add: sanitizeAndMerge_def indexed_ranges_def merge_loop.simps merge_accept_def fold_range_def
      merge_same_start_def startsInside_def merge_recover_def)

end
