(* ===== verification/HiddenRanges.thy ===== *)
theory HiddenRanges
  imports FoldingMergeProofs Selections
begin

text \<open>
  \<open>src/vs/editor/contrib/folding/browser/hiddenRangeModel.ts\<close>: the ranges of lines that collapsed
  regions hide.  The regions of the folding model are an argument of the operations, the widths of
  the lines (\<open>getLineMaxColumn\<close>) a parameter, the fired events a list.  The start value
  \<open>Number.MAX_VALUE\<close> of \<open>lastCollapsedStart\<close> is \<open>None\<close>.
\<close>

section \<open>Definitions\<close>

record HiddenRangeModel =
  hiddenRanges :: "Range list"
  hasLineChanges :: bool
  hidden_events :: "Range list list"

definition new_HiddenRangeModel :: HiddenRangeModel where
  "new_HiddenRangeModel = \<lparr>hiddenRanges = [], hasLineChanges = False, hidden_events = []\<rparr>"

text \<open>The loop over the regions; \<open>old\<close> are the current hidden ranges, \<open>k\<close> the index into them.\<close>

fun hidden_loop :: "nat list \<Rightarrow> FoldingRegions \<Rightarrow> Range list \<Rightarrow> bool \<Rightarrow> Range list \<Rightarrow> nat \<Rightarrow>
    int option \<Rightarrow> int \<Rightarrow> bool \<times> Range list \<times> nat" where
  "hidden_loop [] ranges old updateHiddenAreas newHiddenAreas k lastStart lastEnd =
     (updateHiddenAreas, newHiddenAreas, k)"
| "hidden_loop (i # is) ranges old updateHiddenAreas newHiddenAreas k lastStart lastEnd =
     (if \<not> isCollapsed i ranges then
        hidden_loop is ranges old updateHiddenAreas newHiddenAreas k lastStart lastEnd
      else
        let startLine = getStartLineNumber i ranges + 1; endLine = getEndLineNumber i ranges
        in if (case lastStart of None \<Rightarrow> False | Some l \<Rightarrow> l \<le> startLine) \<and> endLine \<le> lastEnd then
             hidden_loop is ranges old updateHiddenAreas newHiddenAreas k lastStart lastEnd
           else if \<not> updateHiddenAreas \<and> k < length old \<and>
               startLineNumber (old ! k) = startLine \<and> endLineNumber (old ! k) = endLine then
             hidden_loop is ranges old False (newHiddenAreas @ [old ! k]) (k + 1) (Some startLine) endLine
           else
             hidden_loop is ranges old True (newHiddenAreas @ [new_Range startLine 1 endLine 1]) k
               (Some startLine) endLine)"

definition applyHiddenRanges :: "Range list \<Rightarrow> HiddenRangeModel \<Rightarrow> HiddenRangeModel" where
  "applyHiddenRanges newHiddenAreas h =
     h\<lparr>hiddenRanges := newHiddenAreas, hasLineChanges := False,
       hidden_events := hidden_events h @ [newHiddenAreas]\<rparr>"

definition updateHiddenRanges :: "FoldingRegions \<Rightarrow> HiddenRangeModel \<Rightarrow> HiddenRangeModel" where
  "updateHiddenRanges ranges h =
     (case hidden_loop [0..<folding_length ranges] ranges (hiddenRanges h) False [] 0 None (-1) of
        (updateHiddenAreas, newHiddenAreas, k) \<Rightarrow>
          if hasLineChanges h \<or> updateHiddenAreas \<or> k < length (hiddenRanges h)
          then applyHiddenRanges newHiddenAreas h else h)"

definition hasRanges :: "HiddenRangeModel \<Rightarrow> bool" where
  "hasRanges h \<longleftrightarrow> length (hiddenRanges h) > 0"

definition line_isInside :: "int \<Rightarrow> Range \<Rightarrow> bool" where
  "line_isInside line r \<longleftrightarrow> line \<ge> startLineNumber r \<and> line \<le> endLineNumber r"

definition findHiddenRange :: "Range list \<Rightarrow> int \<Rightarrow> Range option" where
  "findHiddenRange ranges line =
     (let i = int (findFirstIdxMonotonousOrArrLen ranges (\<lambda>r. line < startLineNumber r)) - 1
      in if i \<ge> 0 \<and> endLineNumber (ranges ! nat i) \<ge> line then Some (ranges ! nat i) else None)"

definition isHidden :: "int \<Rightarrow> HiddenRangeModel \<Rightarrow> bool" where
  "isHidden line h \<longleftrightarrow> findHiddenRange (hiddenRanges h) line \<noteq> None"

definition adjustLine :: "HiddenRangeModel \<Rightarrow> int \<Rightarrow> Range option \<Rightarrow> int option \<times> Range option" where
  "adjustLine h line lastRange =
     (let lastRange' = (case lastRange of
                          Some r \<Rightarrow> if line_isInside line r then Some r else findHiddenRange (hiddenRanges h) line
                        | None \<Rightarrow> findHiddenRange (hiddenRanges h) line)
      in (case lastRange' of Some r \<Rightarrow> (Some (startLineNumber r - 1), lastRange') | None \<Rightarrow> (None, None)))"

text \<open>The loop over the selections: a line \<open>0\<close> is false for the code's \<open>if\<close>.\<close>

fun adjust_loop :: "HiddenRangeModel \<Rightarrow> (int \<Rightarrow> int) \<Rightarrow> Selection list \<Rightarrow> Range option \<Rightarrow> bool \<Rightarrow>
    bool \<times> Selection list" where
  "adjust_loop h maxColumn [] lastRange hasChanges = (hasChanges, [])"
| "adjust_loop h maxColumn (sel # sels) lastRange hasChanges =
     (let (l1, last1) = adjustLine h (startLineNumber sel) lastRange;
          (sel1, c1) = (case l1 of
             Some l \<Rightarrow> if l \<noteq> 0 then (Selection_setStartPosition sel l (maxColumn l), True) else (sel, hasChanges)
           | None \<Rightarrow> (sel, hasChanges));
          (l2, last2) = adjustLine h (endLineNumber sel1) last1;
          (sel2, c2) = (case l2 of
             Some l \<Rightarrow> if l \<noteq> 0 then (Selection_setEndPosition sel1 l (maxColumn l), True) else (sel1, c1)
           | None \<Rightarrow> (sel1, c1));
          (c, rest) = adjust_loop h maxColumn sels last2 c2
      in (c, sel2 # rest))"

definition adjustSelections :: "(int \<Rightarrow> int) \<Rightarrow> Selection list \<Rightarrow> HiddenRangeModel \<Rightarrow> bool \<times> Selection list" where
  "adjustSelections maxColumn sels h = adjust_loop h maxColumn sels None False"

section \<open>Hidden lines\<close>

definition lines_of :: "Range \<Rightarrow> int \<times> int" where
  "lines_of r = (startLineNumber r, endLineNumber r)"

definition separated :: "(int \<times> int) list \<Rightarrow> bool" where
  "separated ls \<longleftrightarrow> (\<forall>l \<in> set ls. fst l \<le> snd l) \<and> sorted_wrt (\<lambda>a b. snd a < fst b) ls"

lemma findHiddenRange_covers:
  assumes "separated (map lines_of rs)"
  shows "findHiddenRange rs line \<noteq> None \<longleftrightarrow> (\<exists>r \<in> set rs. line_isInside line r)"
    and "findHiddenRange rs line = Some r \<Longrightarrow> r \<in> set rs \<and> line_isInside line r"
proof -
  have len: "fst (lines_of (rs ! i)) \<le> snd (lines_of (rs ! i))" if "i < length rs" for i
    using assms that by (simp add: separated_def)
  have ord: "snd (lines_of (rs ! i)) < fst (lines_of (rs ! j))" if "i < j" "j < length rs" for i j
    using assms that by (simp add: separated_def sorted_wrt_iff_nth_less)
  have up: "monotonous_up rs (\<lambda>r. line < startLineNumber r)"
    unfolding monotonous_up_def
  proof (intro allI impI)
    fix i j assume ij: "i \<le> j \<and> j < length rs \<and> line < startLineNumber (rs ! i)"
    show "line < startLineNumber (rs ! j)"
      using ij ord [of i j] len [of i] by (cases "i = j") (auto simp: lines_of_def)
  qed
  define m where "m = findFirstIdxMonotonousOrArrLen rs (\<lambda>r. line < startLineNumber r)"
  note m = findFirstIdxMonotonousOrArrLen_split [OF up, folded m_def]
  have find: "findHiddenRange rs line = (if m > 0 \<and> endLineNumber (rs ! (m - 1)) \<ge> line then Some (rs ! (m - 1)) else None)"
    by (cases m) (auto simp: findHiddenRange_def simp flip: m_def)
  have inside: "i = m - 1 \<and> m > 0" if "i < length rs" "line_isInside line (rs ! i)" for i
  proof -
    have "i < m" using m(3) that unfolding line_isInside_def by (meson not_less)
    moreover have "\<not> i < m - 1"
    proof
      assume "i < m - 1"
      moreover from this have "startLineNumber (rs ! (m - 1)) \<le> line" using m(2) by (simp add: not_less)
      ultimately show False
        using ord [of i "m - 1"] m(1) that(2) by (cases m) (auto simp: line_isInside_def lines_of_def)
    qed
    ultimately show ?thesis by simp
  qed
  show hit: "r \<in> set rs \<and> line_isInside line r" if "findHiddenRange rs line = Some r"
    using that m(1,2) by (auto simp: find line_isInside_def not_less split: if_splits)
  show "findHiddenRange rs line \<noteq> None \<longleftrightarrow> (\<exists>r \<in> set rs. line_isInside line r)"
  proof
    assume "findHiddenRange rs line \<noteq> None"
    then show "\<exists>r \<in> set rs. line_isInside line r"
      using m(1,2) by (auto simp: find line_isInside_def not_less split: if_splits intro!: bexI [of _ "rs ! (m - 1)"])
  next
    assume "\<exists>r \<in> set rs. line_isInside line r"
    then obtain i where "i < length rs" "line_isInside line (rs ! i)" by (auto simp: in_set_conv_nth)
    then show "findHiddenRange rs line \<noteq> None" using inside [of i] by (auto simp: find line_isInside_def)
  qed
qed


text \<open>The lines that the collapsed ones of the first \<open>i\<close> regions hide.\<close>

definition collapsed_hides :: "(int \<times> int) list \<Rightarrow> FoldingRegions \<Rightarrow> nat \<Rightarrow> int \<Rightarrow> bool" where
  "collapsed_hides sp s i line \<longleftrightarrow> (\<exists>j < i. isCollapsed j s \<and> fst (sp ! j) < line \<and> line \<le> snd (sp ! j))"

lemma collapsed_hides_Suc:
  "collapsed_hides sp s (Suc i) line \<longleftrightarrow>
    collapsed_hides sp s i line \<or> isCollapsed i s \<and> fst (sp ! i) < line \<and> line \<le> snd (sp ! i)"
  by (auto simp: collapsed_hides_def less_Suc_eq)

definition hidden_inv :: "(int \<times> int) list \<Rightarrow> FoldingRegions \<Rightarrow> Range list \<Rightarrow> nat \<Rightarrow> bool \<Rightarrow> Range list \<Rightarrow>
    nat \<Rightarrow> int option \<Rightarrow> int \<Rightarrow> bool" where
  "hidden_inv sp s old i upd areas k lastStart lastEnd \<longleftrightarrow>
     separated (map lines_of areas) \<and>
     (\<forall>line. (\<exists>r \<in> set areas. line_isInside line r) \<longleftrightarrow> collapsed_hides sp s i line) \<and>
     (if areas = [] then lastStart = None
      else (\<exists>j < i. lines_of (last areas) = (fst (sp ! j) + 1, snd (sp ! j)) \<and>
              lastStart = Some (fst (sp ! j) + 1) \<and> lastEnd = snd (sp ! j))) \<and>
     (\<not> upd \<longrightarrow> k = length areas \<and> k \<le> length old \<and> map lines_of areas = take k (map lines_of old))"

lemma separated_snoc:
  "separated (ls @ [l]) \<longleftrightarrow> separated ls \<and> fst l \<le> snd l \<and> (\<forall>a \<in> set ls. snd a < fst l)"
  by (auto simp: separated_def sorted_wrt_append)

lemma separated_last: "separated ls \<Longrightarrow> a \<in> set ls \<Longrightarrow> snd a \<le> snd (last ls)"
  by (cases ls rule: rev_cases) (fastforce simp: separated_snoc)+

lemma hidden_inv_skip:
  assumes "hidden_inv sp s old i upd areas k lastStart lastEnd"
    and "isCollapsed i s \<Longrightarrow> lastStart = Some l \<and> l \<le> fst (sp ! i) + 1 \<and> snd (sp ! i) \<le> lastEnd"
  shows "hidden_inv sp s old (Suc i) upd areas k lastStart lastEnd"
proof -
  have "\<exists>r \<in> set areas. line_isInside line r" if "isCollapsed i s" "fst (sp ! i) < line" "line \<le> snd (sp ! i)" for line
    using assms that
    by (intro bexI [of _ "last areas"]) (auto simp: hidden_inv_def line_isInside_def lines_of_def split: if_splits)
  then show ?thesis
    using assms(1) by (auto simp: hidden_inv_def collapsed_hides_Suc less_Suc_eq split: if_splits)
qed

lemma hidden_inv_add:
  assumes inv: "hidden_inv sp s old i upd areas k lastStart lastEnd" and sp: "nested sp" "i < length sp"
    and proper: "fst (sp ! i) < snd (sp ! i)" and col: "isCollapsed i s"
    and out: "\<not> ((case lastStart of None \<Rightarrow> False | Some l \<Rightarrow> l \<le> fst (sp ! i) + 1) \<and> snd (sp ! i) \<le> lastEnd)"
    and r: "lines_of r = (fst (sp ! i) + 1, snd (sp ! i))"
    and upd: "\<not> upd' \<Longrightarrow> \<not> upd \<and> k' = Suc k \<and> k < length old \<and> lines_of (old ! k) = lines_of r"
  shows "hidden_inv sp s old (Suc i) upd' (areas @ [r]) k' (Some (fst (sp ! i) + 1)) (snd (sp ! i))"
proof -
  have "snd a < fst (sp ! i) + 1" if "a \<in> set (map lines_of areas)" for a
  proof -
    have "areas \<noteq> []" using that by auto
    then obtain j where j: "j < i" "lines_of (last areas) = (fst (sp ! j) + 1, snd (sp ! j))"
        "lastStart = Some (fst (sp ! j) + 1)" "lastEnd = snd (sp ! j)"
      using inv by (auto simp: hidden_inv_def)
    have "snd a \<le> snd (sp ! j)"
      using separated_last [of "map lines_of areas" a] inv that j(2) \<open>areas \<noteq> []\<close>
      unfolding hidden_inv_def by (simp add: last_map)
    moreover have "snd (sp ! j) < fst (sp ! i)"
      using nested_pair [OF sp(1) j(1) sp(2)] out j(3,4) by auto
    ultimately show ?thesis by simp
  qed
  then have "separated (map lines_of (areas @ [r]))"
    using inv proper r by (auto simp: hidden_inv_def separated_snoc)
  moreover have "line_isInside line r \<longleftrightarrow> fst (sp ! i) < line \<and> line \<le> snd (sp ! i)" for line
    using r by (auto simp: line_isInside_def lines_of_def)
  ultimately show ?thesis
    using inv col r upd by (auto simp: hidden_inv_def collapsed_hides_Suc take_Suc_conv_app_nth)
qed

lemma hidden_loop_spec:
  assumes ok: "regions_ok sp s" and proper: "\<forall>a \<in> set sp. fst a < snd a"
  shows "hidden_inv sp s old i upd areas k lastStart lastEnd \<Longrightarrow> i \<le> length sp \<Longrightarrow>
    hidden_loop [i..<length sp] s old upd areas k lastStart lastEnd = (upd', areas', k') \<Longrightarrow>
    \<exists>l e. hidden_inv sp s old (length sp) upd' areas' k' l e"
proof (induction "length sp - i" arbitrary: i upd areas k lastStart lastEnd)
  case 0
  then show ?case by auto
next
  case (Suc n)
  then have i: "i < length sp" by simp
  have upt: "[i..<length sp] = i # [Suc i..<length sp]" using i by (simp add: upt_rec)
  note lines = regions_ok_simps(2,3) [OF ok i]
  have spi: "nested sp" "fst (sp ! i) < snd (sp ! i)" using ok proper i by (auto simp: regions_ok_def)
  have IH: "\<exists>l e. hidden_inv sp s old (length sp) upd' areas' k' l e"
    if "hidden_inv sp s old (Suc i) u a c l e" "hidden_loop [Suc i..<length sp] s old u a c l e = (upd', areas', k')" for u a c l e
    using Suc.hyps(1) [OF _ that(1) _ that(2)] Suc.hyps(2) i by simp
  show ?case
  proof (cases "isCollapsed i s")
    case False
    then show ?thesis
      using IH [OF hidden_inv_skip [OF Suc.prems(1)]] Suc.prems(3) upt by simp
  next
    case True
    show ?thesis
    proof (cases "(case lastStart of None \<Rightarrow> False | Some l \<Rightarrow> l \<le> fst (sp ! i) + 1) \<and> snd (sp ! i) \<le> lastEnd")
      case inside: True
      then obtain l where "lastStart = Some l" "l \<le> fst (sp ! i) + 1" "snd (sp ! i) \<le> lastEnd"
        by (auto split: option.splits)
      then show ?thesis
        using IH [OF hidden_inv_skip [OF Suc.prems(1), of l]] Suc.prems(3) upt True lines by simp
    next
      case out: False
      note add = hidden_inv_add [OF Suc.prems(1) spi(1) i spi(2) True out]
      show ?thesis
      proof (cases "\<not> upd \<and> k < length old \<and> startLineNumber (old ! k) = fst (sp ! i) + 1 \<and>
          endLineNumber (old ! k) = snd (sp ! i)")
        case reuse: True
        then have "hidden_inv sp s old (Suc i) False (areas @ [old ! k]) (k + 1) (Some (fst (sp ! i) + 1)) (snd (sp ! i))"
          by (intro add) (auto simp: lines_of_def)
        then show ?thesis using IH Suc.prems(3) upt True out lines reuse by (simp add: Let_def)
      next
        case False
        have "hidden_inv sp s old (Suc i) True (areas @ [new_Range (fst (sp ! i) + 1) 1 (snd (sp ! i)) 1]) k
            (Some (fst (sp ! i) + 1)) (snd (sp ! i))"
          using spi(2) by (intro add) (auto simp: lines_of_def new_Range_def)
        then show ?thesis using IH Suc.prems(3) upt True out lines False by (simp add: Let_def)
      qed
    qed
  qed
qed

lemma updateHiddenRanges_spec:
  assumes ok: "regions_ok sp s" and proper: "\<forall>a \<in> set sp. fst a < snd a"
  shows "separated (map lines_of (hiddenRanges (updateHiddenRanges s h)))"
    and "isHidden line (updateHiddenRanges s h) \<longleftrightarrow> collapsed_hides sp s (length sp) line"
proof -
  obtain upd areas k where loop:
      "hidden_loop [0..<length sp] s (hiddenRanges h) False [] 0 None (-1) = (upd, areas, k)"
    by (metis prod_cases3)
  have "hidden_inv sp s (hiddenRanges h) 0 False [] 0 None (-1)"
    by (simp add: hidden_inv_def separated_def collapsed_hides_def)
  then obtain l e where inv: "hidden_inv sp s (hiddenRanges h) (length sp) upd areas k l e"
    using hidden_loop_spec [OF ok proper _ _ loop] by auto
  have lines: "map lines_of (hiddenRanges (updateHiddenRanges s h)) = map lines_of areas"
    using loop inv regions_ok_simps(1) [OF ok]
    by (auto simp: updateHiddenRanges_def applyHiddenRanges_def hidden_inv_def)
  then show sep: "separated (map lines_of (hiddenRanges (updateHiddenRanges s h)))"
    using inv by (simp add: hidden_inv_def)
  have inside: "(\<exists>r \<in> set rs. line_isInside line r) \<longleftrightarrow> (\<exists>p \<in> set (map lines_of rs). fst p \<le> line \<and> line \<le> snd p)" for rs
    by (auto simp: line_isInside_def lines_of_def)
  have "isHidden line (updateHiddenRanges s h) \<longleftrightarrow> (\<exists>r \<in> set areas. line_isInside line r)"
    unfolding isHidden_def findHiddenRange_covers(1) [OF sep] inside lines ..
  then show "isHidden line (updateHiddenRanges s h) \<longleftrightarrow> collapsed_hides sp s (length sp) line"
    using inv by (simp add: hidden_inv_def)
qed

end
