(* ===== verification/Hashes.thy ===== *)
theory Hashes
  imports Prelude "HOL-Library.List_Lexorder" "HOL-Library.Multiset"
begin

text \<open>
  The synchronous hash of \<open>src/vs/base/common/hash.ts\<close>.  A string is the list of its UTF-16 code
  units, a number an integer, an object the list of its own properties in insertion order.
  The 32-bit arithmetic (\<open>|| 0\<close> with one bar, \<open>Math.imul\<close>, the left shift) is written out with
  \<open>js_to_int32\<close>.  SHA-1 and the asynchronous hash are not modelled.
\<close>

section \<open>Definitions\<close>

datatype js_value =
    JNull | JUndefined | JOther
  | JBool bool
  | JNumber int
  | JString "int list"
  | JArray "js_value list"
  | JObject "(int list \<times> js_value) list"

definition numberHash :: "int \<Rightarrow> int \<Rightarrow> int" where
  "numberHash v initialHashVal = js_to_int32 (js_to_int32 (js_to_int32 initialHashVal * 32) - initialHashVal + v)"

definition booleanHash :: "bool \<Rightarrow> int \<Rightarrow> int" where
  "booleanHash b initialHashVal = numberHash (if b then 433 else 863) initialHashVal"

definition stringHash :: "int list \<Rightarrow> int \<Rightarrow> int" where
  "stringHash s hashVal = foldl (\<lambda>h c. numberHash c h) (numberHash 149417 hashVal) s"

definition ARRAY_HASH_SEED :: int where "ARRAY_HASH_SEED = 104579"

definition OBJECT_HASH_SEED :: int where "OBJECT_HASH_SEED = 181387"

text \<open>The properties in the order of \<open>Object.keys(obj).sort()\<close>, each key with its value.\<close>

definition sorted_entries :: "(int list \<times> 'v) list \<Rightarrow> (int list \<times> 'v) list" where
  "sorted_entries obj = map (\<lambda>key. (key, the (map_of obj key))) (sort (map fst obj))"

lemma sorted_entries_mem: "(k, v) \<in> set (sorted_entries obj) \<Longrightarrow> (k, v) \<in> set obj"
  by (auto simp: sorted_entries_def) (metis map_of_SomeD option.sel weak_map_of_SomeI)

lemma size_entry: "(k, v) \<in> set obj \<Longrightarrow> size v < Suc (size_list (size_prod (\<lambda>_. 0) size) obj)"
  by (induction obj) auto

function doHash :: "js_value \<Rightarrow> int \<Rightarrow> int" where
  "doHash JNull hashVal = numberHash 349 hashVal"
| "doHash JUndefined hashVal = numberHash 937 hashVal"
| "doHash JOther hashVal = numberHash 617 hashVal"
| "doHash (JBool b) hashVal = booleanHash b hashVal"
| "doHash (JNumber n) hashVal = numberHash n hashVal"
| "doHash (JString s) hashVal = stringHash s hashVal"
| "doHash (JArray arr) hashVal =
     foldl (\<lambda>h item. doHash item h) (numberHash ARRAY_HASH_SEED hashVal) arr"
| "doHash (JObject obj) hashVal =
     foldl (\<lambda>h (key, v). doHash v (stringHash key h)) (numberHash OBJECT_HASH_SEED hashVal) (sorted_entries obj)"
  by pat_completeness auto
termination
  by (relation "measure (\<lambda>(v, h). size v)") (auto dest!: sorted_entries_mem dest: size_entry simp: less_Suc_eq_le size_list_estimation')

definition hash_value :: "js_value \<Rightarrow> int" where
  "hash_value obj = doHash obj 0"

definition imul :: "int \<Rightarrow> int \<Rightarrow> int" where
  "imul a b = js_to_int32 (a * b)"

record ConstantStringHash =
  csh_multiplier :: int
  csh_addend :: int

definition new_ConstantStringHash :: "int list \<Rightarrow> ConstantStringHash" where
  "new_ConstantStringHash s =
     \<lparr>csh_multiplier = foldl (\<lambda>m _. imul m 31) 31 s, csh_addend = stringHash s 0\<rparr>"

definition ConstantStringHash_apply :: "ConstantStringHash \<Rightarrow> int \<Rightarrow> int" where
  "ConstantStringHash_apply c hashVal = js_to_int32 (imul hashVal (csh_multiplier c) + csh_addend c)"

definition isStringInSample :: "int list \<Rightarrow> int \<Rightarrow> bool result" where
  "isStringInSample s samplePercentage =
     (if \<not> (samplePercentage \<ge> 0 \<and> samplePercentage \<le> 100) then Throw GenericError
      else Ok (stringHash s 0 mod 4294967296 mod 100 < samplePercentage))"

section \<open>Congruence modulo \<open>2 ^ 32\<close>\<close>

lemma js_to_int32_eq_iff: "js_to_int32 x = js_to_int32 y \<longleftrightarrow> x mod 4294967296 = y mod 4294967296"
proof -
  have "js_to_int32 x = js_to_int32 y \<longleftrightarrow> (x + 2147483648) mod 4294967296 = (y + 2147483648) mod 4294967296"
    by (simp add: js_to_int32_def)
  also have "\<dots> \<longleftrightarrow> x mod 4294967296 = y mod 4294967296"
    by (simp add: mod_eq_dvd_iff)
  finally show ?thesis .
qed

lemma js_to_int32_mod [simp]: "js_to_int32 x mod 4294967296 = x mod 4294967296"
  by (metis js_to_int32_eq_iff js_to_int32_idem)

lemma numberHash_affine: "numberHash v h = js_to_int32 (31 * h + v)"
proof -
  have "(js_to_int32 (js_to_int32 h * 32) - h + v) mod 4294967296 = (js_to_int32 h * 32 - h + v) mod 4294967296"
    by (intro mod_add_cong mod_diff_cong) simp_all
  also have "\<dots> = (h * 32 - h + v) mod 4294967296"
    by (intro mod_add_cong mod_diff_cong mod_mult_cong) simp_all
  finally show ?thesis
    unfolding numberHash_def js_to_int32_eq_iff by (simp add: algebra_simps)
qed

lemma affine_step: "numberHash c (js_to_int32 (a * h + b)) = js_to_int32 (imul a 31 * h + numberHash c b)"
proof -
  have "(31 * js_to_int32 (a * h + b) + c) mod 4294967296 = (31 * (a * h + b) + c) mod 4294967296"
    by (intro mod_add_cong mod_mult_cong) simp_all
  also have "\<dots> = (a * 31 * h + (31 * b + c)) mod 4294967296" by (simp add: algebra_simps)
  also have "\<dots> = (imul a 31 * h + numberHash c b) mod 4294967296"
    unfolding imul_def numberHash_affine by (intro mod_add_cong mod_mult_cong) simp_all
  finally show ?thesis unfolding numberHash_affine [of c "js_to_int32 _"] js_to_int32_eq_iff .
qed

lemma foldl_hash_affine:
  "foldl (\<lambda>h c. numberHash c h) (js_to_int32 (a * h + b)) s =
    js_to_int32 (foldl (\<lambda>m _. imul m 31) a s * h + foldl (\<lambda>h c. numberHash c h) b s)"
  by (induction s arbitrary: a b) (simp_all add: affine_step)

lemma ConstantStringHash_correct:
  "ConstantStringHash_apply (new_ConstantStringHash s) h = stringHash s h"
proof -
  have seed: "numberHash 149417 0 = 149417" by (simp add: numberHash_def js_to_int32_def)
  have "stringHash s h = js_to_int32 (foldl (\<lambda>m _. imul m 31) 31 s * h + stringHash s 0)"
    unfolding stringHash_def numberHash_affine [of 149417 h] seed by (rule foldl_hash_affine)
  moreover have "(imul h m + a) mod 4294967296 = (m * h + a) mod 4294967296" for m a
    unfolding imul_def by (intro mod_add_cong) (simp_all add: mult.commute)
  ultimately show ?thesis
    by (simp add: ConstantStringHash_apply_def new_ConstantStringHash_def js_to_int32_eq_iff)
qed

lemma stringHash_int32: "is_int32 (stringHash s h)"
  by (induction s rule: rev_induct) (simp_all add: stringHash_def numberHash_def js_to_int32_range)

lemma sorted_entries_perm:
  assumes "distinct (map fst obj)" "mset obj' = mset obj"
  shows "sorted_entries obj' = sorted_entries obj"
proof -
  have keys: "mset (map fst obj') = mset (map fst obj)" using assms(2) by (metis mset_map)
  then have "distinct (map fst obj')" using assms(1) mset_eq_imp_distinct_iff by blast
  then have "map_of obj' = map_of obj"
    using assms by (metis map_of_inject_set mset_eq_setD)
  moreover have "sort (map fst obj') = sort (map fst obj)"
    using keys by (metis properties_for_sort sorted_sort mset_sort)
  ultimately show ?thesis by (simp add: sorted_entries_def)
qed

lemma hash_key_order:
  "distinct (map fst obj) \<Longrightarrow> mset obj' = mset obj \<Longrightarrow> doHash (JObject obj') h = doHash (JObject obj) h"
  using sorted_entries_perm [of obj obj'] by simp

end
