(* ===== verification/FoldingModel.thy ===== *)
theory FoldingModel
  imports HiddenRanges Hashes
begin

text \<open>
  \<open>src/vs/editor/contrib/folding/browser/foldingModel.ts\<close>: the folding model of a text and the
  functions that fold, unfold and navigate.

  A \<open>FoldingRegion\<close> is its index in the regions.  The text model and the decoration provider are the
  parameters \<open>fold_env\<close>: the number of lines, the content of a line (UTF-16 code units), the current
  range of a decoration, and the ids \<open>deltaDecorations\<close> answers; the provider is assumed to run the
  callback it is given.  The calls of \<open>changeDecorationOptions\<close> and the fired events are lists.
  \<open>Number.MAX_VALUE\<close> as a line or a number of levels is \<open>None\<close>.  The regions are threaded, because
  reading a parent computes the parents.
\<close>

section \<open>The model\<close>

record fold_env =
  textLineCount :: int
  textLineContent :: "int \<Rightarrow> int list"
  decorationRange :: "string \<Rightarrow> (int \<times> int) option"
  deltaDecorations :: "string list \<Rightarrow> (int \<times> int \<times> bool \<times> bool \<times> bool) list \<Rightarrow> string list"

record FoldingModel =
  fm_regions :: FoldingRegions
  fm_decorationIds :: "string list"
  fm_changes :: "(string \<times> bool \<times> bool \<times> bool) list"
  fm_events :: "nat list option list"

section \<open>Toggling\<close>

record toggle_state =
  tg_k :: nat
  tg_dirtyRegionEndLine :: int
  tg_lastHiddenLine :: int
  tg_regions :: FoldingRegions
  tg_changes :: "(string \<times> bool \<times> bool \<times> bool) list"
  tg_processed :: "string set"

definition is_manual :: "nat \<Rightarrow> FoldingRegions \<Rightarrow> bool" where
  "is_manual k s \<longleftrightarrow> getSource k s \<noteq> FoldSource_provider"

text \<open>An absent id is \<open>undefined\<close>, false like the empty string.\<close>

definition decoration_at :: "string list \<Rightarrow> nat \<Rightarrow> string" where
  "decoration_at ids k = (if k < length ids then ids ! k else [])"

definition updateDecorations_one :: "string list \<Rightarrow> toggle_state \<Rightarrow> toggle_state" where
  "updateDecorations_one ids t =
     (let k = tg_k t; endLine = getEndLineNumber k (tg_regions t); collapsed = isCollapsed k (tg_regions t)
      in t\<lparr>tg_changes := (if endLine \<le> tg_dirtyRegionEndLine t
             then tg_changes t @ [(decoration_at ids k, collapsed, endLine \<le> tg_lastHiddenLine t,
                                   is_manual k (tg_regions t))]
             else tg_changes t),
           tg_lastHiddenLine := (if collapsed \<and> endLine > tg_lastHiddenLine t then endLine
                                 else tg_lastHiddenLine t),
           tg_k := k + 1\<rparr>)"

fun updateDecorations_times :: "nat \<Rightarrow> string list \<Rightarrow> toggle_state \<Rightarrow> toggle_state" where
  "updateDecorations_times 0 ids t = t"
| "updateDecorations_times (Suc n) ids t = updateDecorations_times n ids (updateDecorations_one ids t)"

definition updateDecorationsUntil :: "nat \<Rightarrow> string list \<Rightarrow> toggle_state \<Rightarrow> toggle_state" where
  "updateDecorationsUntil index ids t = updateDecorations_times (index - tg_k t) ids t"

definition toggle_one :: "string list \<Rightarrow> toggle_state \<Rightarrow> nat \<Rightarrow> toggle_state" where
  "toggle_one ids t index =
     (let decorationId = decoration_at ids index
      in if decorationId \<noteq> [] \<and> decorationId \<notin> tg_processed t then
           let t1 = updateDecorationsUntil index ids (t\<lparr>tg_processed := insert decorationId (tg_processed t)\<rparr>);
               newCollapseState = \<not> isCollapsed index (tg_regions t1);
               t2 = t1\<lparr>tg_regions := setCollapsed index newCollapseState (tg_regions t1)\<rparr>
           in t2\<lparr>tg_dirtyRegionEndLine := max (tg_dirtyRegionEndLine t2) (getEndLineNumber index (tg_regions t2))\<rparr>
         else t)"

definition toggleCollapseState_regions :: "nat list \<Rightarrow> FoldingModel \<Rightarrow> FoldingModel" where
  "toggleCollapseState_regions toggledRegions m =
     (if toggledRegions = [] then m
      else
        let sorted_regions = sort toggledRegions;
            t0 = \<lparr>tg_k = 0, tg_dirtyRegionEndLine = -1, tg_lastHiddenLine = -1, tg_regions = fm_regions m,
                  tg_changes = fm_changes m, tg_processed = {}\<rparr>;
            t1 = foldl (toggle_one (fm_decorationIds m)) t0 sorted_regions;
            t2 = updateDecorationsUntil (folding_length (tg_regions t1)) (fm_decorationIds m) t1
        in m\<lparr>fm_regions := tg_regions t2, fm_changes := tg_changes t2,
             fm_events := fm_events m @ [Some sorted_regions]\<rparr>)"

section \<open>Updating\<close>

text \<open>The decorations of the new regions; \<open>lastHidden\<close> is \<open>lastHiddenLine\<close>.\<close>

fun new_decorations :: "nat list \<Rightarrow> FoldingRegions \<Rightarrow> int \<Rightarrow> (int \<times> int \<times> bool \<times> bool \<times> bool) list" where
  "new_decorations [] s lastHidden = []"
| "new_decorations (i # is) s lastHidden =
     (let startLine = getStartLineNumber i s; endLine = getEndLineNumber i s; collapsed = isCollapsed i s
      in (startLine, endLine, collapsed, endLine \<le> lastHidden, is_manual i s) #
         new_decorations is s (if collapsed \<and> endLine > lastHidden then endLine else lastHidden))"

definition updatePost :: "fold_env \<Rightarrow> FoldingRegions \<Rightarrow> FoldingModel \<Rightarrow> FoldingModel" where
  "updatePost env newRegions m =
     m\<lparr>fm_decorationIds := deltaDecorations env (fm_decorationIds m)
         (new_decorations [0..<folding_length newRegions] newRegions (-1)),
       fm_regions := newRegions, fm_events := fm_events m @ [None]\<rparr>"

definition current_range :: "fold_env \<Rightarrow> (int \<Rightarrow> int \<Rightarrow> bool) option \<Rightarrow> FoldingModel \<Rightarrow> nat \<Rightarrow> FoldRange list" where
  "current_range env sel m i =
     (let collapsed = isCollapsed i (fm_regions m); source = getSource i (fm_regions m)
      in if collapsed \<or> source \<noteq> FoldSource_provider then
           let foldRange = toFoldRange i (fm_regions m)
           in (case decorationRange env (decoration_at (fm_decorationIds m) i) of
                 None \<Rightarrow> []
               | Some (startLine, endLine) \<Rightarrow>
                   [\<lparr>fr_startLineNumber = startLine, fr_endLineNumber = endLine, fr_type = fr_type foldRange,
                     fr_isCollapsed = (if collapsed \<and> startsInside sel (startLine + 1) endLine then False
                                       else collapsed),
                     fr_source = source\<rparr>])
         else [])"

definition currentFoldedOrManualRanges :: "fold_env \<Rightarrow> (int \<Rightarrow> int \<Rightarrow> bool) option \<Rightarrow> FoldingModel \<Rightarrow> FoldRange list" where
  "currentFoldedOrManualRanges env sel m =
     concat (map (current_range env sel m) [0..<folding_length (fm_regions m)])"

definition update_model :: "fold_env \<Rightarrow> FoldingRegions \<Rightarrow> (int \<Rightarrow> int \<Rightarrow> bool) option \<Rightarrow> FoldingModel \<Rightarrow>
    FoldingModel result" where
  "update_model env newRegions sel m =
     (let newRanges = sanitizeAndMerge (FoldInput_regions newRegions)
            (FoldInput_ranges (currentFoldedOrManualRanges env sel m)) (Some (textLineCount env)) sel
      in bind_result (fromFoldRanges newRanges) (\<lambda>s. Ok (updatePost env s m)))"

section \<open>Persistence\<close>

record ILineMemento =
  lm_startLineNumber :: int
  lm_endLineNumber :: int
  lm_checksum :: "int option"
  lm_isCollapsed :: "bool option"
  lm_source :: "FoldSource option"

text \<open>\<open>h % 1000000\<close> keeps the sign of \<open>h\<close>.\<close>

definition getLinesChecksum :: "fold_env \<Rightarrow> int \<Rightarrow> int \<Rightarrow> int" where
  "getLinesChecksum env line1 line2 =
     (let h = hash_value (JString (textLineContent env line1 @ textLineContent env line2))
      in if h \<ge> 0 then h mod 1000000 else - ((- h) mod 1000000))"

definition memento_skips :: "fold_env \<Rightarrow> int \<Rightarrow> int \<Rightarrow> bool" where
  "memento_skips env startLine endLine \<longleftrightarrow> startLine \<ge> endLine \<or> startLine < 1 \<or> endLine > textLineCount env"

definition getMemento :: "fold_env \<Rightarrow> FoldingModel \<Rightarrow> ILineMemento list option" where
  "getMemento env m =
     (let result = map (\<lambda>r. \<lparr>lm_startLineNumber = fr_startLineNumber r, lm_endLineNumber = fr_endLineNumber r,
                             lm_checksum = Some (getLinesChecksum env (fr_startLineNumber r + 1) (fr_endLineNumber r)),
                             lm_isCollapsed = Some (fr_isCollapsed r), lm_source = Some (fr_source r)\<rparr>)
            (filter (\<lambda>r. \<not> memento_skips env (fr_startLineNumber r) (fr_endLineNumber r))
               (currentFoldedOrManualRanges env None m))
      in if length result > 0 then Some result else None)"

text \<open>A checksum 0 is false, like an absent one.\<close>

definition memento_restores :: "fold_env \<Rightarrow> ILineMemento \<Rightarrow> bool" where
  "memento_restores env r \<longleftrightarrow>
     \<not> memento_skips env (lm_startLineNumber r) (lm_endLineNumber r) \<and>
     (lm_checksum r = None \<or> lm_checksum r = Some 0 \<or>
      lm_checksum r = Some (getLinesChecksum env (lm_startLineNumber r + 1) (lm_endLineNumber r)))"

definition memento_range :: "ILineMemento \<Rightarrow> FoldRange" where
  "memento_range r =
     \<lparr>fr_startLineNumber = lm_startLineNumber r, fr_endLineNumber = lm_endLineNumber r, fr_type = None,
      fr_isCollapsed = (case lm_isCollapsed r of None \<Rightarrow> True | Some b \<Rightarrow> b),
      fr_source = (case lm_source r of None \<Rightarrow> FoldSource_provider | Some f \<Rightarrow> f)\<rparr>"

definition applyMemento :: "fold_env \<Rightarrow> ILineMemento list \<Rightarrow> FoldingModel \<Rightarrow> FoldingModel result" where
  "applyMemento env memento m =
     (let rangesToRestore = map memento_range (filter (memento_restores env) memento);
          newRanges = sanitizeAndMerge (FoldInput_regions (fm_regions m)) (FoldInput_ranges rangesToRestore)
            (Some (textLineCount env)) None
      in bind_result (fromFoldRanges newRanges) (\<lambda>s. Ok (updatePost env s m)))"

end
