(* ===== verification/FoldingCommands.thy ===== *)
theory FoldingCommands
  imports FoldingModel
begin

text \<open>
  \<open>src/vs/editor/contrib/folding/browser/foldingModel.ts\<close>, the queries of the folding model and the
  commands built on them.

  Reading a parent computes the parents of all regions on first use, can throw, and the walks up the
  parents are partial functions.  The queries are therefore computations \<open>fold_op\<close> over the
  regions: \<open>None\<close> is not returning, \<open>Inl\<close> is a throw.  Regions are their indices.
\<close>

section \<open>Computations over the regions\<close>

type_synonym 'a fold_op = "FoldingRegions \<Rightarrow> ('a result \<times> FoldingRegions) option"

definition fret :: "'a \<Rightarrow> 'a fold_op" where
  "fret x s = Some (Ok x, s)"

definition fread :: "(FoldingRegions \<Rightarrow> 'a) \<Rightarrow> 'a fold_op" where
  "fread f s = Some (Ok (f s), s)"

definition fbind :: "'a fold_op \<Rightarrow> ('a \<Rightarrow> 'b fold_op) \<Rightarrow> 'b fold_op" where
  "fbind m f s =
     (case m s of
        None \<Rightarrow> None
      | Some (Inl e, s') \<Rightarrow> Some (Inl e, s')
      | Some (Inr x, s') \<Rightarrow> f x s')"

definition fparent :: "nat \<Rightarrow> int fold_op" where
  "fparent index s = Some (getParentIndex index s)"

text \<open>\<open>for (x of xs) { ...; result.push(...ys) }\<close>\<close>

fun fcollect :: "('x \<Rightarrow> 'a list fold_op) \<Rightarrow> 'x list \<Rightarrow> 'a list fold_op" where
  "fcollect f [] = fret []"
| "fcollect f (x # xs) = fbind (f x) (\<lambda>ys. fbind (fcollect f xs) (\<lambda>zs. fret (ys @ zs)))"

section \<open>Queries\<close>

text \<open>The filters are predicates of the regions, the index and the level.\<close>

type_synonym region_filter = "FoldingRegions \<Rightarrow> nat \<Rightarrow> int \<Rightarrow> bool"

partial_function (option) allRegions_loop ::
  "region_filter \<Rightarrow> int \<Rightarrow> int \<Rightarrow> nat list \<Rightarrow> FoldingRegions \<Rightarrow> (nat list result \<times> FoldingRegions) option" where
  "allRegions_loop flt index level acc s =
     (if index \<ge> 0 then
        let acc' = (if flt s (nat index) level then acc @ [nat index] else acc)
        in case getParentIndex (nat index) s of
             (Inl e, s') \<Rightarrow> Some (Inl e, s')
           | (Inr p, s') \<Rightarrow> allRegions_loop flt p (level + 1) acc' s'
      else Some (Ok acc, s))"

definition getAllRegionsAtLine :: "int \<Rightarrow> region_filter \<Rightarrow> nat list fold_op" where
  "getAllRegionsAtLine line flt = fbind (findRange line) (\<lambda>index. allRegions_loop flt index 1 [])"

definition getRegionAtLine :: "int \<Rightarrow> nat option fold_op" where
  "getRegionAtLine line =
     fbind (findRange line) (\<lambda>index. fret (if index \<ge> 0 then Some (nat index) else None))"

text \<open>The line \<open>Number.MAX_VALUE\<close> is \<open>None\<close>.\<close>

definition starts_before :: "nat \<Rightarrow> int option \<Rightarrow> FoldingRegions \<Rightarrow> bool" where
  "starts_before i endLine s \<longleftrightarrow> (case endLine of None \<Rightarrow> True | Some l \<Rightarrow> getStartLineNumber i s < l)"

fun inside_levels :: "nat list \<Rightarrow> int option \<Rightarrow> region_filter \<Rightarrow> nat list \<Rightarrow> FoldingRegions \<Rightarrow> nat list" where
  "inside_levels [] endLine flt levelStack s = []"
| "inside_levels (i # is) endLine flt levelStack s =
     (if starts_before i endLine s then
        let levelStack' = i # dropWhile (\<lambda>p. \<not> FoldingRegion_containedBy i (getStartLineNumber p s)
                                              (getEndLineNumber p s) s) levelStack
        in if flt s i (int (length levelStack')) then i # inside_levels is endLine flt levelStack' s
           else inside_levels is endLine flt levelStack' s
      else [])"

fun inside_plain :: "nat list \<Rightarrow> int option \<Rightarrow> (FoldingRegions \<Rightarrow> nat \<Rightarrow> bool) \<Rightarrow> FoldingRegions \<Rightarrow> nat list" where
  "inside_plain [] endLine flt s = []"
| "inside_plain (i # is) endLine flt s =
     (if starts_before i endLine s then
        if flt s i then i # inside_plain is endLine flt s else inside_plain is endLine flt s
      else [])"

definition inside_from :: "nat option \<Rightarrow> nat" where
  "inside_from region = (case region of None \<Rightarrow> 0 | Some r \<Rightarrow> r + 1)"

definition inside_end :: "nat option \<Rightarrow> FoldingRegions \<Rightarrow> int option" where
  "inside_end region s = (case region of None \<Rightarrow> None | Some r \<Rightarrow> Some (getEndLineNumber r s))"

definition getRegionsInside_levels :: "nat option \<Rightarrow> region_filter \<Rightarrow> FoldingRegions \<Rightarrow> nat list" where
  "getRegionsInside_levels region flt s =
     inside_levels [inside_from region..<folding_length s] (inside_end region s) flt [] s"

definition getRegionsInside :: "nat option \<Rightarrow> (FoldingRegions \<Rightarrow> nat \<Rightarrow> bool) \<Rightarrow> FoldingRegions \<Rightarrow> nat list" where
  "getRegionsInside region flt s =
     inside_plain [inside_from region..<folding_length s] (inside_end region s) flt s"

section \<open>Commands\<close>

text \<open>A command computes the regions to toggle and toggles them; on a throw nothing is toggled.\<close>

definition toggle_computed :: "nat list fold_op \<Rightarrow> FoldingModel \<Rightarrow> (unit result \<times> FoldingModel) option" where
  "toggle_computed op m =
     (case op (fm_regions m) of
        None \<Rightarrow> None
      | Some (Inl e, s) \<Rightarrow> Some (Inl e, m\<lparr>fm_regions := s\<rparr>)
      | Some (Inr toToggle, s) \<Rightarrow> Some (Ok (), toggleCollapseState_regions toToggle (m\<lparr>fm_regions := s\<rparr>)))"

text \<open>\<open>Number.MAX_VALUE\<close> levels are \<open>None\<close>.\<close>

definition level_below :: "int \<Rightarrow> int option \<Rightarrow> bool" where
  "level_below level levels \<longleftrightarrow> (case levels of None \<Rightarrow> True | Some l \<Rightarrow> level < l)"

definition several_levels :: "int option \<Rightarrow> bool" where
  "several_levels levels \<longleftrightarrow> (case levels of None \<Rightarrow> True | Some l \<Rightarrow> l > 1)"

definition levels_filter :: "bool \<Rightarrow> int option \<Rightarrow> region_filter" where
  "levels_filter doCollapse levels s r level \<longleftrightarrow> isCollapsed r s \<noteq> doCollapse \<and> level_below level levels"

definition toggle_at_line :: "int option \<Rightarrow> int \<Rightarrow> nat list fold_op" where
  "toggle_at_line levels line =
     fbind (getRegionAtLine line) (\<lambda>region.
       case region of
         None \<Rightarrow> fret []
       | Some r \<Rightarrow> fread (\<lambda>s. r # (if several_levels levels
             then getRegionsInside_levels (Some r) (levels_filter (\<not> isCollapsed r s) levels) s else [])))"

definition toggleCollapseState :: "int option \<Rightarrow> int list \<Rightarrow> FoldingModel \<Rightarrow> (unit result \<times> FoldingModel) option" where
  "toggleCollapseState levels lineNumbers = toggle_computed (fcollect (toggle_at_line levels) lineNumbers)"

definition levels_down_at_line :: "bool \<Rightarrow> int option \<Rightarrow> int \<Rightarrow> nat list fold_op" where
  "levels_down_at_line doCollapse levels line =
     fbind (getRegionAtLine line) (\<lambda>region.
       case region of
         None \<Rightarrow> fret []
       | Some r \<Rightarrow> fread (\<lambda>s. (if isCollapsed r s \<noteq> doCollapse then [r] else []) @
             (if several_levels levels
              then getRegionsInside_levels (Some r) (levels_filter doCollapse levels) s else [])))"

definition setCollapseStateLevelsDown :: "bool \<Rightarrow> int option \<Rightarrow> int list option \<Rightarrow> FoldingModel \<Rightarrow>
    (unit result \<times> FoldingModel) option" where
  "setCollapseStateLevelsDown doCollapse levels lineNumbers =
     toggle_computed
       (case lineNumbers of
          Some (l # ls) \<Rightarrow> fcollect (levels_down_at_line doCollapse levels) (l # ls)
        | _ \<Rightarrow> fread (getRegionsInside_levels None (levels_filter doCollapse levels)))"

definition setCollapseStateLevelsUp :: "bool \<Rightarrow> int \<Rightarrow> int list \<Rightarrow> FoldingModel \<Rightarrow>
    (unit result \<times> FoldingModel) option" where
  "setCollapseStateLevelsUp doCollapse levels lineNumbers =
     toggle_computed (fcollect (\<lambda>line.
       getAllRegionsAtLine line (\<lambda>s r level. isCollapsed r s \<noteq> doCollapse \<and> level \<le> levels)) lineNumbers)"

definition setCollapseStateUp :: "bool \<Rightarrow> int list \<Rightarrow> FoldingModel \<Rightarrow> (unit result \<times> FoldingModel) option" where
  "setCollapseStateUp doCollapse lineNumbers =
     toggle_computed (fcollect (\<lambda>line.
       fbind (getAllRegionsAtLine line (\<lambda>s r level. isCollapsed r s \<noteq> doCollapse))
         (\<lambda>regions. fret (take 1 regions))) lineNumbers)"

definition at_level_filter :: "int \<Rightarrow> bool \<Rightarrow> int list \<Rightarrow> region_filter" where
  "at_level_filter foldLevel doCollapse blocked s r level \<longleftrightarrow>
     level = foldLevel \<and> isCollapsed r s \<noteq> doCollapse \<and>
     \<not> list_ex (\<lambda>line. FoldingRegion_containsLine r line s) blocked"

definition setCollapseStateAtLevel :: "int \<Rightarrow> bool \<Rightarrow> int list \<Rightarrow> FoldingModel \<Rightarrow>
    (unit result \<times> FoldingModel) option" where
  "setCollapseStateAtLevel foldLevel doCollapse blockedLineNumbers =
     toggle_computed (fread (getRegionsInside_levels None (at_level_filter foldLevel doCollapse blockedLineNumbers)))"

definition rest_filter :: "bool \<Rightarrow> nat list \<Rightarrow> FoldingRegions \<Rightarrow> nat \<Rightarrow> bool" where
  "rest_filter doCollapse filteredRegions s r \<longleftrightarrow>
     list_all (\<lambda>f. \<not> FoldingRegion_containedBy f (getStartLineNumber r s) (getEndLineNumber r s) s \<and>
                   \<not> FoldingRegion_containedBy r (getStartLineNumber f s) (getEndLineNumber f s) s)
       filteredRegions \<and> isCollapsed r s \<noteq> doCollapse"

definition setCollapseStateForRest :: "bool \<Rightarrow> int list \<Rightarrow> FoldingModel \<Rightarrow> (unit result \<times> FoldingModel) option" where
  "setCollapseStateForRest doCollapse blockedLineNumbers =
     toggle_computed
       (fbind (fcollect (\<lambda>line. fbind (getAllRegionsAtLine line (\<lambda>s r level. True))
                 (\<lambda>regions. fret (take 1 regions))) blockedLineNumbers)
         (\<lambda>filteredRegions. fread (getRegionsInside None (rest_filter doCollapse filteredRegions))))"

text \<open>The regular expression is a predicate of the line; it has no \<open>g\<close> or \<open>y\<close> flag, so it keeps no state.\<close>

definition setCollapseStateForMatchingLines :: "fold_env \<Rightarrow> (int list \<Rightarrow> bool) \<Rightarrow> bool \<Rightarrow> FoldingModel \<Rightarrow>
    FoldingModel" where
  "setCollapseStateForMatchingLines env matches doCollapse m =
     toggleCollapseState_regions
       (filter (\<lambda>i. doCollapse \<noteq> isCollapsed i (fm_regions m) \<and>
                    matches (textLineContent env (getStartLineNumber i (fm_regions m))))
         (rev [0..<folding_length (fm_regions m)])) m"

definition setCollapseStateForType :: "string \<Rightarrow> bool \<Rightarrow> FoldingModel \<Rightarrow> FoldingModel" where
  "setCollapseStateForType typ doCollapse m =
     toggleCollapseState_regions
       (filter (\<lambda>i. doCollapse \<noteq> isCollapsed i (fm_regions m) \<and> Some typ = getType i (fm_regions m))
         (rev [0..<folding_length (fm_regions m)])) m"

section \<open>Removing the ranges of the user\<close>

text \<open>The walk up to the first region that is not the provider's.\<close>

partial_function (option) manual_up :: "int \<Rightarrow> FoldingRegions \<Rightarrow> (int result \<times> FoldingRegions) option" where
  "manual_up index s =
     (if index \<noteq> -1 \<and> getSource (nat index) s = FoldSource_provider then
        case getParentIndex (nat index) s of
          (Inl e, s') \<Rightarrow> Some (Inl e, s')
        | (Inr p, s') \<Rightarrow> manual_up p s'
      else Some (Ok index, s))"

text \<open>The indices to remove, \<open>-1\<close> standing for \<open>removeAll\<close>.\<close>

definition manual_at :: "Range \<Rightarrow> int list fold_op" where
  "manual_at r =
     (if Range_isEmpty r then
        fbind (findRange (startLineNumber r)) (\<lambda>index. fbind (manual_up index) (\<lambda>i. fret [i]))
      else fret [])"

definition intersectsSelection :: "Range list \<Rightarrow> FoldRange \<Rightarrow> bool" where
  "intersectsSelection ranges f \<longleftrightarrow>
     list_ex (\<lambda>r. \<not> Range_isEmpty r \<and>
        \<not> (startLineNumber r > fr_endLineNumber f \<or> fr_startLineNumber f > endLineNumber r)) ranges"

definition remaining_ranges :: "Range list \<Rightarrow> int list \<Rightarrow> FoldingRegions \<Rightarrow> FoldRange list" where
  "remaining_ranges ranges indexes s =
     concat (map (\<lambda>i. let foldRange = toFoldRange i s
                      in if fr_source foldRange = FoldSource_provider \<or>
                            -1 \<notin> set indexes \<and> int i \<notin> set indexes \<and> \<not> intersectsSelection ranges foldRange
                         then [foldRange] else [])
       [0..<folding_length s])"

definition removeManualRanges :: "fold_env \<Rightarrow> Range list \<Rightarrow> FoldingModel \<Rightarrow> (unit result \<times> FoldingModel) option" where
  "removeManualRanges env ranges m =
     (case fcollect manual_at ranges (fm_regions m) of
        None \<Rightarrow> None
      | Some (Inl e, s) \<Rightarrow> Some (Inl e, m\<lparr>fm_regions := s\<rparr>)
      | Some (Inr indexes, s) \<Rightarrow>
          (case fromFoldRanges (remaining_ranges ranges indexes s) of
             Inl e \<Rightarrow> Some (Inl e, m\<lparr>fm_regions := s\<rparr>)
           | Inr newRegions \<Rightarrow> Some (Ok (), updatePost env newRegions (m\<lparr>fm_regions := s\<rparr>))))"

section \<open>Navigation\<close>

definition getParentFoldLine :: "int \<Rightarrow> int option fold_op" where
  "getParentFoldLine line =
     fbind (getRegionAtLine line) (\<lambda>region.
       case region of
         None \<Rightarrow> fret None
       | Some r \<Rightarrow>
           fbind (fread (getStartLineNumber r)) (\<lambda>startLine.
             if line = startLine then
               fbind (fparent r) (\<lambda>p. fread (\<lambda>s. if p \<noteq> -1 then Some (getStartLineNumber (nat p) s) else None))
             else fret (Some startLine)))"

text \<open>The search backwards from the region before index \<open>k\<close>.\<close>

fun previous_sibling :: "nat \<Rightarrow> int \<Rightarrow> int \<Rightarrow> int option fold_op" where
  "previous_sibling 0 minLine expected = fret None"
| "previous_sibling (Suc k) minLine expected =
     fbind (fread (getStartLineNumber k)) (\<lambda>startLine.
       if startLine \<le> minLine then fret None
       else fbind (fparent k) (\<lambda>p. if p = expected then fret (Some startLine)
                                   else previous_sibling k minLine expected))"

fun last_before :: "nat \<Rightarrow> int \<Rightarrow> FoldingRegions \<Rightarrow> int option" where
  "last_before 0 line s = None"
| "last_before (Suc k) line s =
     (if getStartLineNumber k s < line then Some (getStartLineNumber k s) else last_before k line s)"

definition at_start :: "int \<Rightarrow> nat option \<Rightarrow> FoldingRegions \<Rightarrow> nat option" where
  "at_start line region s =
     (case region of Some r \<Rightarrow> if getStartLineNumber r s = line then Some r else None | None \<Rightarrow> None)"

definition getPreviousFoldLine :: "int \<Rightarrow> int option fold_op" where
  "getPreviousFoldLine line =
     fbind (getRegionAtLine line) (\<lambda>region. fbind (fread (at_start line region)) (\<lambda>here.
       case here of
         Some r \<Rightarrow>
           fbind (fparent r) (\<lambda>expected.
             fbind (fread (\<lambda>s. if expected \<noteq> -1 then getStartLineNumber (nat expected) s else 0)) (\<lambda>minLine.
               previous_sibling r minLine expected))
       | None \<Rightarrow> fread (\<lambda>s. last_before (folding_length s) line s)))"

text \<open>
  The searches forwards over a list of indices.  The code looks at the region after the current one
  while the current index is below the length, so the last index looked at is the length itself.
\<close>

fun next_sibling :: "nat list \<Rightarrow> int \<Rightarrow> int \<Rightarrow> int option fold_op" where
  "next_sibling [] maxLine expected = fret None"
| "next_sibling (k # ks) maxLine expected =
     fbind (fread (getStartLineNumber k)) (\<lambda>startLine.
       if startLine \<ge> maxLine then fret None
       else fbind (fparent k) (\<lambda>p. if p = expected then fret (Some startLine)
                                   else next_sibling ks maxLine expected))"

fun first_after :: "nat list \<Rightarrow> int \<Rightarrow> FoldingRegions \<Rightarrow> int option" where
  "first_after [] line s = None"
| "first_after (k # ks) line s =
     (if getStartLineNumber k s > line then Some (getStartLineNumber k s) else first_after ks line s)"

definition next_max :: "int \<Rightarrow> FoldingRegions \<Rightarrow> int option" where
  "next_max expected s =
     (if expected \<noteq> -1 then Some (getEndLineNumber (nat expected) s)
      else if folding_length s = 0 then None
      else Some (getEndLineNumber (folding_length s - 1) s))"

definition getNextFoldLine :: "int \<Rightarrow> int option fold_op" where
  "getNextFoldLine line =
     fbind (getRegionAtLine line) (\<lambda>region. fbind (fread (at_start line region)) (\<lambda>here.
       case here of
         Some r \<Rightarrow>
           fbind (fparent r) (\<lambda>expected.
             fbind (fread (next_max expected)) (\<lambda>maxLine.
               case maxLine of
                 None \<Rightarrow> fret None
               | Some l \<Rightarrow> fbind (fread folding_length) (\<lambda>n. next_sibling [r + 1..<n + 1] l expected)))
       | None \<Rightarrow> fread (\<lambda>s. if folding_length s > 0 then first_after [0..<folding_length s + 1] line s else None)))"

end
