(* ===== verification/FoldingQueries.thy ===== *)
theory FoldingQueries
  imports FoldingCommands
begin

text \<open>
  What toggling regions does: it inverts the collapsed flag of the listed regions once each, however
  often they are listed, and changes nothing else of the regions.
\<close>

section \<open>Regions that differ in their collapsed flags only\<close>

definition recollapsed :: "FoldingRegions \<Rightarrow> FoldingRegions \<Rightarrow> bool" where
  "recollapsed s s' \<longleftrightarrow> (\<exists>cs. s' = s\<lparr>collapseStates := cs\<rparr> \<and> length cs = length (collapseStates s))"

lemma recollapsed_refl [simp]: "recollapsed s s"
  by (auto simp: recollapsed_def intro: exI [of _ "collapseStates s"])

lemma recollapsed_trans: "recollapsed s s' \<Longrightarrow> recollapsed s' s'' \<Longrightarrow> recollapsed s s''"
  by (auto simp: recollapsed_def)

lemma recollapsed_setCollapsed [simp]: "recollapsed s (setCollapsed i b s)"
  by (auto simp: recollapsed_def setCollapsed_def)

lemma recollapsed_frame:
  assumes "recollapsed s s'"
  shows "folding_length s' = folding_length s" "getStartLineNumber i s' = getStartLineNumber i s"
    "getEndLineNumber i s' = getEndLineNumber i s" "getSource i s' = getSource i s" "getType i s' = getType i s"
    "states_ok s' = states_ok s" "regions_ok sp s' = regions_ok sp s"
  using assms
  by (auto simp: recollapsed_def folding_length_def getStartLineNumber_def getEndLineNumber_def getSource_def
      getType_def isUserDefined_def isRecovered_def states_ok_def regions_ok_def table_ok_def stored_parent_def)

section \<open>The toggle loop\<close>

lemma updateDecorations_frame [simp]:
  "tg_regions (updateDecorations_times n ids t) = tg_regions t"
  "tg_processed (updateDecorations_times n ids t) = tg_processed t"
  by (induction n ids t rule: updateDecorations_times.induct) (simp_all add: updateDecorations_one_def Let_def)

lemma updateDecorationsUntil_frame [simp]:
  "tg_regions (updateDecorationsUntil i ids t) = tg_regions t"
  "tg_processed (updateDecorationsUntil i ids t) = tg_processed t"
  by (simp_all add: updateDecorationsUntil_def)

definition decorated :: "string list \<Rightarrow> FoldingRegions \<Rightarrow> bool" where
  "decorated ids s \<longleftrightarrow> length ids = folding_length s \<and> distinct ids \<and> [] \<notin> set ids \<and> states_ok s"

lemma toggle_one_spec:
  assumes "decorated ids (tg_regions t)" "i < folding_length (tg_regions t)"
  shows "recollapsed (tg_regions t) (tg_regions (toggle_one ids t i))"
    and "tg_processed (toggle_one ids t i) = insert (ids ! i) (tg_processed t)"
    and "isCollapsed j (tg_regions (toggle_one ids t i)) \<longleftrightarrow>
           isCollapsed j (tg_regions t) \<noteq> (j = i \<and> ids ! i \<notin> tg_processed t)"
proof -
  have "ids ! i \<noteq> []" using assms by (metis decorated_def nth_mem)
  then show "recollapsed (tg_regions t) (tg_regions (toggle_one ids t i))"
    and "tg_processed (toggle_one ids t i) = insert (ids ! i) (tg_processed t)"
    and "isCollapsed j (tg_regions (toggle_one ids t i)) \<longleftrightarrow>
           isCollapsed j (tg_regions t) \<noteq> (j = i \<and> ids ! i \<notin> tg_processed t)"
    using assms isCollapsed_set(1) [of "tg_regions t" i]
    by (auto simp: toggle_one_def Let_def decoration_at_def decorated_def)
qed

lemma toggle_fold:
  assumes "decorated ids (tg_regions t)" "\<forall>i \<in> set xs. i < folding_length (tg_regions t)"
  shows "recollapsed (tg_regions t) (tg_regions (foldl (toggle_one ids) t xs)) \<and>
    (\<forall>j < folding_length (tg_regions t). isCollapsed j (tg_regions (foldl (toggle_one ids) t xs)) \<longleftrightarrow>
       isCollapsed j (tg_regions t) \<noteq> (j \<in> set xs \<and> ids ! j \<notin> tg_processed t))"
  using assms
proof (induction xs arbitrary: t)
  case (Cons i xs)
  define t' where "t' = toggle_one ids t i"
  have i: "i < folding_length (tg_regions t)" using Cons.prems by simp
  note one = toggle_one_spec [OF Cons.prems(1) i, folded t'_def]
  note frame = recollapsed_frame [OF one(1)]
  have dec: "decorated ids (tg_regions t')" using Cons.prems(1) by (simp add: decorated_def frame)
  have IH: "recollapsed (tg_regions t') (tg_regions (foldl (toggle_one ids) t' xs))"
    "\<forall>j < folding_length (tg_regions t). isCollapsed j (tg_regions (foldl (toggle_one ids) t' xs)) \<longleftrightarrow>
       isCollapsed j (tg_regions t') \<noteq> (j \<in> set xs \<and> ids ! j \<notin> tg_processed t')"
    using Cons.IH [OF dec] Cons.prems(2) by (simp_all add: frame)
  have eq: "ids ! j = ids ! i \<longleftrightarrow> j = i" if "j < folding_length (tg_regions t)" for j
    using Cons.prems(1) i that by (simp add: decorated_def nth_eq_iff_index_eq)
  have "isCollapsed j (tg_regions (foldl (toggle_one ids) t' xs)) \<longleftrightarrow>
      isCollapsed j (tg_regions t) \<noteq> (j \<in> set (i # xs) \<and> ids ! j \<notin> tg_processed t)"
    if "j < folding_length (tg_regions t)" for j
    using IH(2) that eq [OF that] one(2) one(3) [of j] by auto
  then show ?case using IH(1) recollapsed_trans [OF one(1)] by (simp flip: t'_def)
qed simp

lemma toggle_regions_spec:
  assumes "decorated (fm_decorationIds m) (fm_regions m)" "\<forall>i \<in> set xs. i < folding_length (fm_regions m)"
  shows "recollapsed (fm_regions m) (fm_regions (toggleCollapseState_regions xs m))"
    and "j < folding_length (fm_regions m) \<Longrightarrow>
      isCollapsed j (fm_regions (toggleCollapseState_regions xs m)) \<longleftrightarrow> isCollapsed j (fm_regions m) \<noteq> (j \<in> set xs)"
    and "fm_decorationIds (toggleCollapseState_regions xs m) = fm_decorationIds m"
proof -
  define t0 where "t0 = \<lparr>tg_k = 0, tg_dirtyRegionEndLine = -1, tg_lastHiddenLine = -1, tg_regions = fm_regions m,
                  tg_changes = fm_changes m, tg_processed = {}\<rparr>"
  have t0: "tg_regions t0 = fm_regions m" "tg_processed t0 = {}" by (simp_all add: t0_def)
  have res: "fm_regions (toggleCollapseState_regions xs m) =
      (if xs = [] then fm_regions m else tg_regions (foldl (toggle_one (fm_decorationIds m)) t0 (sort xs)))"
    unfolding toggleCollapseState_regions_def t0_def Let_def by simp
  note fold = toggle_fold [of "fm_decorationIds m" t0 "sort xs", unfolded t0 set_sort, OF assms]
  show "recollapsed (fm_regions m) (fm_regions (toggleCollapseState_regions xs m))"
    using fold res by simp
  show "isCollapsed j (fm_regions (toggleCollapseState_regions xs m)) \<longleftrightarrow> isCollapsed j (fm_regions m) \<noteq> (j \<in> set xs)"
    if "j < folding_length (fm_regions m)"
    using fold res that by auto
  show "fm_decorationIds (toggleCollapseState_regions xs m) = fm_decorationIds m"
    by (simp add: toggleCollapseState_regions_def Let_def)
qed

text \<open>
  What the queries of the folding model compute.  For a nested table the regions that cover a line
  are an ancestor chain: the innermost one, its parent, and so on.  The queries are computed in any
  regions that stand for the table \<open>sp\<close> and carry the states of \<open>st\<close> (\<open>view\<close>): whether the parents
  are computed yet is not observable.
\<close>

section \<open>Total correctness of the computations\<close>

definition view :: "(int \<times> int) list \<Rightarrow> FoldingRegions \<Rightarrow> FoldingRegions \<Rightarrow> bool" where
  "view sp st s \<longleftrightarrow> regions_ok sp s \<and> same_states st s"

definition computes :: "(int \<times> int) list \<Rightarrow> FoldingRegions \<Rightarrow> 'a fold_op \<Rightarrow> 'a \<Rightarrow> bool" where
  "computes sp st op x \<longleftrightarrow> (\<forall>s. view sp st s \<longrightarrow> (\<exists>s'. op s = Some (Ok x, s') \<and> view sp st s'))"

lemma view_simps:
  assumes "view sp st s"
  shows "folding_length s = length sp" "i < length sp \<Longrightarrow> getStartLineNumber i s = fst (sp ! i)"
    "i < length sp \<Longrightarrow> getEndLineNumber i s = snd (sp ! i)"
    "isCollapsed i s = isCollapsed i st" "getSource i s = getSource i st" "getType i s = getType i st"
  using assms regions_ok_simps
  by (auto simp: view_def same_states_def isCollapsed_def getSource_def isUserDefined_def isRecovered_def getType_def)

lemma view_nested: "view sp st s \<Longrightarrow> nested sp"
  by (simp add: view_def regions_ok_def)

lemma view_same: "view sp st s \<Longrightarrow> regions_ok sp s' \<Longrightarrow> same_states s s' \<Longrightarrow> view sp st s'"
  by (auto simp: view_def same_states_def)

lemma computes_fret: "computes sp st (fret x) x"
  by (simp add: computes_def fret_def)

lemma computes_fread: "(\<And>s. view sp st s \<Longrightarrow> f s = x) \<Longrightarrow> computes sp st (fread f) x"
  by (simp add: computes_def fread_def)

lemma computes_fbind: "computes sp st m x \<Longrightarrow> computes sp st (f x) y \<Longrightarrow> computes sp st (fbind m f) y"
  unfolding computes_def fbind_def by fastforce

lemma computes_fparent: "i < length sp \<Longrightarrow> computes sp st (fparent i) (innermost sp i)"
  unfolding computes_def fparent_def using getParentIndex_spec view_same by (fastforce simp: view_def)

lemma computes_findRange: "computes sp st (findRange line) (innermost_at sp line)"
  unfolding computes_def using findRange_spec view_same by (fastforce simp: view_def)

lemma computes_fcollect:
  "(\<And>x. x \<in> set xs \<Longrightarrow> computes sp st (f x) (g x)) \<Longrightarrow> computes sp st (fcollect f xs) (concat (map g xs))"
  by (induction xs) (auto intro!: computes_fret computes_fbind)

section \<open>Chains of ancestors\<close>

definition enclosing :: "(int \<times> int) list \<Rightarrow> nat \<Rightarrow> nat list" where
  "enclosing sp i = filter (\<lambda>j. encloses (sp ! j) (sp ! i)) (rev [0..<i])"

definition covering :: "(int \<times> int) list \<Rightarrow> int \<Rightarrow> nat list" where
  "covering sp line = filter (\<lambda>j. covers (sp ! j) line) (rev [0..<length sp])"

definition chain_of :: "(int \<times> int) list \<Rightarrow> int \<Rightarrow> nat list" where
  "chain_of sp p = (if p \<ge> 0 then nat p # enclosing sp (nat p) else [])"

lemma filter_rev_upt_Some:
  assumes "find P (rev [0..<n]) = Some p"
  shows "filter P (rev [0..<n]) = p # filter P (rev [0..<p])"
proof -
  have p: "p < n" "P p" "\<forall>k. p < k \<and> k < n \<longrightarrow> \<not> P k" using assms by (simp_all add: find_rev_upt)
  have "[0..<n] = [0..<p] @ p # [Suc p..<n]" using p(1) by (metis less_imp_le_nat upt_add_eq_append
      le_add_diff_inverse upt_conv_Cons zero_le add_0)
  moreover have "filter P [Suc p..<n] = []" using p(3) by (auto simp: filter_empty_conv)
  ultimately show ?thesis using p(2) by (simp add: rev_filter [symmetric])
qed

lemma filter_rev_upt_None: "find P (rev [0..<n]) = None \<Longrightarrow> filter P (rev [0..<n]) = []"
  by (auto simp: find_None_iff filter_empty_conv)

lemma encloses_trans: "encloses a b \<Longrightarrow> encloses b c \<Longrightarrow> encloses a c"
  by (simp add: encloses_def)

lemma encloses_before:
  assumes "nested sp" "j < p" "p < length sp" "encloses (sp ! p) x" "fst x \<le> snd x"
  shows "encloses (sp ! j) x \<longleftrightarrow> encloses (sp ! j) (sp ! p)"
  using nested_pair [OF assms(1-3)] nested_proper [OF assms(1,3)] assms(4,5) unfolding encloses_def by linarith

lemma covers_encloses:
  assumes "nested sp" "k < i" "i < length sp" "covers (sp ! k) line" "covers (sp ! i) line"
  shows "encloses (sp ! k) (sp ! i)"
  using nested_pair [OF assms(1-3)] assms(4,5) unfolding covers_def encloses_def by linarith

lemma encloses_refl [simp]: "encloses a a"
  by (simp add: encloses_def)

lemma enclosing_chain:
  assumes "nested sp" "i < length sp"
  shows "enclosing sp i = chain_of sp (innermost sp i)"
proof (cases "find (\<lambda>j. encloses (sp ! j) (sp ! i)) (rev [0..<i])")
  case None
  then show ?thesis using filter_rev_upt_None by (simp add: enclosing_def chain_of_def innermost_def)
next
  case (Some p)
  then have p: "p < i" "encloses (sp ! p) (sp ! i)" by (simp_all add: find_rev_upt)
  have "filter (\<lambda>j. encloses (sp ! j) (sp ! i)) (rev [0..<p]) = filter (\<lambda>j. encloses (sp ! j) (sp ! p)) (rev [0..<p])"
    using encloses_before [OF assms(1), of _ p "sp ! i"] p assms(2) nested_proper [OF assms]
    by (intro filter_cong) auto
  then show ?thesis using filter_rev_upt_Some [OF Some] Some by (simp add: enclosing_def chain_of_def innermost_def)
qed

lemma covering_chain:
  assumes "nested sp"
  shows "covering sp line = chain_of sp (innermost_at sp line)"
proof (cases "find (\<lambda>j. covers (sp ! j) line) (rev [0..<length sp])")
  case None
  then show ?thesis using filter_rev_upt_None by (simp add: covering_def chain_of_def innermost_at_def)
next
  case (Some p)
  then have p: "p < length sp" "covers (sp ! p) line" by (simp_all add: find_rev_upt)
  have "covers (sp ! j) line \<longleftrightarrow> encloses (sp ! j) (sp ! p)" if "j < p" for j
    using encloses_before [OF assms that p(1), of "(line, line)"] p(2) by (simp add: covers_def encloses_def)
  then have "filter (\<lambda>j. covers (sp ! j) line) (rev [0..<p]) = filter (\<lambda>j. encloses (sp ! j) (sp ! p)) (rev [0..<p])"
    by (intro filter_cong) auto
  then show ?thesis using filter_rev_upt_Some [OF Some] Some
    by (simp add: covering_def enclosing_def chain_of_def innermost_at_def)
qed

text \<open>The regions of a list that pass a filter, at increasing levels.\<close>

fun at_levels :: "(nat \<Rightarrow> int \<Rightarrow> bool) \<Rightarrow> int \<Rightarrow> nat list \<Rightarrow> nat list" where
  "at_levels f level [] = []"
| "at_levels f level (r # rs) = (if f r level then [r] else []) @ at_levels f (level + 1) rs"

lemma allRegions_loop_spec:
  "nested sp \<Longrightarrow> (\<And>s r level. view sp st s \<Longrightarrow> r < length sp \<Longrightarrow> flt s r level = f r level) \<Longrightarrow>
    -1 \<le> p \<Longrightarrow> p < int (length sp) \<Longrightarrow>
    computes sp st (allRegions_loop flt p level acc) (acc @ at_levels f level (chain_of sp p))"
proof (induction "nat (p + 1)" arbitrary: p level acc rule: less_induct)
  case less
  show ?case
    unfolding computes_def
  proof (intro allI impI)
    fix s assume s: "view sp st s"
    show "\<exists>s'. allRegions_loop flt p level acc s = Some (Ok (acc @ at_levels f level (chain_of sp p)), s') \<and> view sp st s'"
    proof (cases "p \<ge> 0")
      case False
      then show ?thesis using s by (simp add: allRegions_loop.simps chain_of_def)
    next
      case True
      then obtain i where p: "p = int i" "i < length sp" using less.prems(4) by (metis nonneg_int_cases of_nat_less_iff)
      obtain s' where s': "getParentIndex i s = (Ok (innermost sp i), s')" "view sp st s'"
        using computes_fparent [OF p(2)] s by (auto simp: computes_def fparent_def)
      define acc' where "acc' = (if f i level then acc @ [i] else acc)"
      have "computes sp st (allRegions_loop flt (innermost sp i) (level + 1) acc')
          (acc' @ at_levels f (level + 1) (chain_of sp (innermost sp i)))"
        using less.prems(1,2) innermost_bounds [of sp i] p by (intro less.hyps) auto
      then obtain s'' where "allRegions_loop flt (innermost sp i) (level + 1) acc' s' =
          Some (Ok (acc' @ at_levels f (level + 1) (chain_of sp (innermost sp i))), s'')" "view sp st s''"
        using s'(2) by (auto simp: computes_def)
      moreover have "chain_of sp p = i # chain_of sp (innermost sp i)"
        using enclosing_chain [OF less.prems(1) p(2)] p(1) by (simp add: chain_of_def)
      ultimately show ?thesis
        using s' less.prems(2) [OF s p(2)] p(1)
        by (cases "f i level") (simp_all add: allRegions_loop.simps [of flt "int i"] acc'_def)
    qed
  qed
qed

lemma innermost_at_range: "-1 \<le> innermost_at sp line" "innermost_at sp line < int (length sp)"
  by (auto simp: innermost_at_def find_rev_upt split: option.splits)

lemma getAllRegionsAtLine_spec:
  assumes "nested sp" "\<And>s r level. view sp st s \<Longrightarrow> r < length sp \<Longrightarrow> flt s r level = f r level"
  shows "computes sp st (getAllRegionsAtLine line flt) (at_levels f 1 (covering sp line))"
proof -
  have "computes sp st (allRegions_loop flt (innermost_at sp line) 1 []) ([] @ at_levels f 1 (covering sp line))"
    unfolding covering_chain [OF assms(1)]
    by (rule allRegions_loop_spec [OF assms innermost_at_range])
  then show ?thesis unfolding getAllRegionsAtLine_def by (intro computes_fbind [OF computes_findRange]) simp
qed

definition region_at :: "(int \<times> int) list \<Rightarrow> int \<Rightarrow> nat option" where
  "region_at sp line = (case covering sp line of [] \<Rightarrow> None | r # _ \<Rightarrow> Some r)"

lemma getRegionAtLine_spec: "nested sp \<Longrightarrow> computes sp st (getRegionAtLine line) (region_at sp line)"
proof -
  assume "nested sp"
  then have "region_at sp line = (if innermost_at sp line \<ge> 0 then Some (nat (innermost_at sp line)) else None)"
    by (simp add: region_at_def covering_chain chain_of_def)
  then show ?thesis
    unfolding getRegionAtLine_def by (simp add: computes_fbind [OF computes_findRange] computes_fret)
qed

lemma region_at_Some:
  "region_at sp line = Some r \<Longrightarrow> r < length sp \<and> covers (sp ! r) line \<and>
    (\<forall>k. r < k \<and> k < length sp \<longrightarrow> \<not> covers (sp ! k) line)"
proof (cases "find (\<lambda>j. covers (sp ! j) line) (rev [0..<length sp])")
  case None
  then show "region_at sp line = Some r \<Longrightarrow> ?thesis"
    using filter_rev_upt_None [OF None] by (simp add: region_at_def covering_def)
next
  case (Some p)
  then show "region_at sp line = Some r \<Longrightarrow> ?thesis"
    using filter_rev_upt_Some [OF Some] by (simp add: region_at_def covering_def find_rev_upt)
qed

end
