(* ===== verification/FoldingInside.thy ===== *)
theory FoldingInside
  imports FoldingQueries
begin

text \<open>
  The regions inside a region, with their levels, and the targets of the navigation commands.
\<close>

section \<open>Tables of proper regions\<close>

text \<open>What the merge of ranges produces: nested, at most one region per start line, from line 1, two lines or more.\<close>

definition proper :: "(int \<times> int) list \<Rightarrow> bool" where
  "proper sp \<longleftrightarrow> nested sp \<and> sorted_wrt (\<lambda>a b. fst a < fst b) sp \<and> (\<forall>a \<in> set sp. 0 < fst a \<and> fst a < snd a)"

lemma good_proper: "good_ranges maxLine rs \<Longrightarrow> proper (map span rs)"
  using good_nested
  by (auto simp: proper_def good_ranges_def fits_def compat_def span_def sorted_wrt_map elim!: sorted_wrt_mono_rel [rotated])

lemma proper_nth:
  assumes "proper sp"
  shows "i < length sp \<Longrightarrow> 0 < fst (sp ! i) \<and> fst (sp ! i) < snd (sp ! i)"
    and "i < j \<Longrightarrow> j < length sp \<Longrightarrow> fst (sp ! i) < fst (sp ! j)"
  using assms by (auto simp: proper_def sorted_wrt_iff_nth_less)

lemma proper_nested: "proper sp \<Longrightarrow> nested sp"
  by (simp add: proper_def)

section \<open>Levels\<close>

text \<open>The level of region \<open>i\<close> among the regions from index \<open>a\<close> on.\<close>

definition level_from :: "(int \<times> int) list \<Rightarrow> nat \<Rightarrow> nat \<Rightarrow> int" where
  "level_from sp a i = int (length (filter ((\<le>) a) (enclosing sp i))) + 1"

lemma dropWhile_filter: "sorted_wrt (\<lambda>x y. P x \<longrightarrow> P y) xs \<Longrightarrow> dropWhile (\<lambda>x. \<not> P x) xs = filter P xs"
  by (induction xs) (auto simp: filter_id_conv)

lemma enclosing_step:
  assumes "nested sp" "a \<le> k" "Suc k < length sp"
  shows "dropWhile (\<lambda>p. \<not> encloses (sp ! p) (sp ! Suc k)) (k # filter ((\<le>) a) (enclosing sp k)) =
    filter ((\<le>) a) (enclosing sp (Suc k))"
proof -
  define L where "L = k # filter ((\<le>) a) (enclosing sp k)"
  have L: "L = filter (\<lambda>j. a \<le> j \<and> (j = k \<or> encloses (sp ! j) (sp ! k))) (rev [0..<Suc k])"
    using assms(2) by (auto simp: L_def enclosing_def intro!: filter_cong)
  have upward: "encloses (sp ! y) (sp ! Suc k)"
    if "x \<in> set L" "y \<in> set L" "y < x" "encloses (sp ! x) (sp ! Suc k)" for x y
  proof -
    have x: "x \<le> k" "y < k" "encloses (sp ! y) (sp ! k)" "x = k \<or> encloses (sp ! x) (sp ! k)"
      using that(1-3) by (auto simp: L_def enclosing_def)
    have "snd (sp ! x) \<le> snd (sp ! y)"
      using nested_pair [OF assms(1) that(3)] nested_proper [OF assms(1), of k] x assms(3)
      unfolding encloses_def by (auto; linarith)
    then show ?thesis
      using that(3,4) nested_pair(1) [OF assms(1) that(3)] x(1) assms(3) by (simp add: encloses_def)
  qed
  have "sorted_wrt (\<lambda>x y. encloses (sp ! x) (sp ! Suc k) \<longrightarrow> encloses (sp ! y) (sp ! Suc k)) L"
    by (rule sorted_wrt_mono_rel [where P = "(>)"])
      (use upward in \<open>auto simp: L sorted_wrt_rev intro!: sorted_wrt_filter sorted_wrt_upt\<close>)
  then have "dropWhile (\<lambda>p. \<not> encloses (sp ! p) (sp ! Suc k)) L = filter (\<lambda>p. encloses (sp ! p) (sp ! Suc k)) L"
    by (rule dropWhile_filter)
  also have "\<dots> = filter ((\<le>) a) (enclosing sp (Suc k))"
    unfolding L enclosing_def filter_filter
  proof (intro filter_cong refl, goal_cases)
    case (1 j)
    have "encloses (sp ! j) (sp ! k)" if "encloses (sp ! j) (sp ! Suc k)" "j < k"
      using nested_pair [OF assms(1) that(2)] nested_pair(1) [OF assms(1), of k "Suc k"]
        nested_proper [OF assms(1,3)] that(1) assms(3) unfolding encloses_def by fastforce
    then show ?case using 1 by (auto simp: less_Suc_eq)
  qed
  finally show ?thesis by (simp only: L_def)
qed

lemma containedBy_encloses:
  assumes "view sp st s" "i < length sp" "p < length sp"
  shows "FoldingRegion_containedBy i (getStartLineNumber p s) (getEndLineNumber p s) s \<longleftrightarrow> encloses (sp ! p) (sp ! i)"
  using view_simps [OF assms(1)] assms(2,3) by (auto simp: FoldingRegion_containedBy_def encloses_def)

lemma starts_before_iff: "view sp st s \<Longrightarrow> i < length sp \<Longrightarrow>
    starts_before i endLine s \<longleftrightarrow> (case endLine of None \<Rightarrow> True | Some l \<Rightarrow> fst (sp ! i) < l)"
  using view_simps(2) by (simp add: starts_before_def split: option.split)

lemma inside_levels_spec:
  assumes "nested sp" "view sp st s"
    and flt: "\<And>r level. r < length sp \<Longrightarrow> flt s r level = f r level"
    and "a \<le> i" "\<forall>p \<in> set stack. p < length sp"
    and "i < length sp \<Longrightarrow> dropWhile (\<lambda>p. \<not> encloses (sp ! p) (sp ! i)) stack = filter ((\<le>) a) (enclosing sp i)"
  shows "inside_levels [i..<length sp] endLine flt stack s =
    filter (\<lambda>j. starts_before j endLine s \<and> f j (level_from sp a j)) [i..<length sp]"
  using assms(4-)
proof (induction "length sp - i" arbitrary: i stack)
  case (Suc n)
  then have i: "i < length sp" by simp
  have upt: "[i..<length sp] = i # [Suc i..<length sp]" using i by (rule upt_conv_Cons)
  show ?case
  proof (cases "starts_before i endLine s")
    case False
    have "\<not> starts_before j endLine s" if "j \<in> set [i..<length sp]" for j
    proof (cases "j = i")
      case False
      then show ?thesis
        using that nested_pair(1) [OF assms(1), of i j] \<open>\<not> starts_before i endLine s\<close>
        by (auto simp: starts_before_iff [OF assms(2)] split: option.splits)
    qed (use False in simp)
    then have "filter (\<lambda>j. starts_before j endLine s \<and> f j (level_from sp a j)) [i..<length sp] = []"
      by (auto simp: filter_empty_conv)
    then show ?thesis using False by (subst upt) simp
  next
    case True
    define st' where "st' = i # filter ((\<le>) a) (enclosing sp i)"
    have drop: "i # dropWhile (\<lambda>p. \<not> FoldingRegion_containedBy i (getStartLineNumber p s) (getEndLineNumber p s) s) stack = st'"
      using Suc.prems(2,3) i containedBy_encloses [OF assms(2) i]
      by (simp add: st'_def cong: dropWhile_cong)
    have "inside_levels [Suc i..<length sp] endLine flt st' s =
        filter (\<lambda>j. starts_before j endLine s \<and> f j (level_from sp a j)) [Suc i..<length sp]"
      using Suc.hyps(2) Suc.prems(1) i enclosing_step [OF assms(1) Suc.prems(1)]
      by (intro Suc.hyps(1)) (auto simp: st'_def enclosing_def)
    moreover have "int (length st') = level_from sp a i" by (simp add: st'_def level_from_def)
    ultimately show ?thesis
      using True flt [OF i] by (simp add: upt drop Let_def)
  qed
qed simp

lemma inside_plain_spec:
  assumes "nested sp" "view sp st s" and flt: "\<And>r. r < length sp \<Longrightarrow> flt s r = f r"
  shows "inside_plain [i..<length sp] endLine flt s = filter (\<lambda>j. starts_before j endLine s \<and> f j) [i..<length sp]"
proof -
  have "inside_plain is endLine flt s = filter (\<lambda>j. starts_before j endLine s \<and> f j) is"
    if "sorted_wrt (<) is" "\<forall>i \<in> set is. i < length sp" for "is"
    using that
  proof (induction "is")
    case (Cons i "is")
    have "\<not> starts_before j endLine s" if "j \<in> set is" "\<not> starts_before i endLine s" for j
      using that nested_pair(1) [OF assms(1), of i j] Cons.prems
      by (auto simp: starts_before_iff [OF assms(2)] split: option.splits)
    then show ?case using Cons flt by (auto simp: filter_empty_conv)
  qed simp
  then show ?thesis by simp
qed

section \<open>Regions inside a region\<close>

text \<open>All regions, or those that region \<open>r\<close> encloses, with their level relative to it.\<close>

lemma getRegionsInside_levels_all:
  assumes "nested sp" "view sp st s" "\<And>r level. r < length sp \<Longrightarrow> flt s r level = f r level"
  shows "getRegionsInside_levels None flt s = filter (\<lambda>j. f j (level_from sp 0 j)) [0..<length sp]"
proof -
  have "inside_levels [0..<length sp] None flt [] s =
      filter (\<lambda>j. starts_before j None s \<and> f j (level_from sp 0 j)) [0..<length sp]"
    by (rule inside_levels_spec [where f = f and flt = flt, OF assms(1,2)]) (simp_all add: enclosing_def assms(3))
  then show ?thesis
    using view_simps(1) [OF assms(2)]
    by (simp add: getRegionsInside_levels_def inside_from_def inside_end_def starts_before_def)
qed

lemma inside_encloses:
  assumes "proper sp" "view sp st s" "r < j" "j < length sp"
  shows "starts_before j (Some (snd (sp ! r))) s \<longleftrightarrow> encloses (sp ! r) (sp ! j)"
  using nested_pair [OF proper_nested [OF assms(1)] assms(3,4)] proper_nth(1) [OF assms(1,4)]
  unfolding starts_before_iff [OF assms(2,4)] encloses_def by auto

lemma getRegionsInside_levels_region:
  assumes "proper sp" "view sp st s" "\<And>r level. r < length sp \<Longrightarrow> flt s r level = f r level" "r < length sp"
  shows "getRegionsInside_levels (Some r) flt s =
    filter (\<lambda>j. encloses (sp ! r) (sp ! j) \<and> f j (level_from sp (r + 1) j)) [r + 1..<length sp]"
proof -
  have "filter ((\<le>) (r + 1)) (enclosing sp (r + 1)) = []" by (auto simp: enclosing_def filter_empty_conv)
  then have "inside_levels [r + 1..<length sp] (Some (snd (sp ! r))) flt [] s =
      filter (\<lambda>j. starts_before j (Some (snd (sp ! r))) s \<and> f j (level_from sp (r + 1) j)) [r + 1..<length sp]"
    by (intro inside_levels_spec [where f = f and flt = flt, OF proper_nested [OF assms(1)] assms(2)])
      (simp_all add: assms(3))
  also have "\<dots> = filter (\<lambda>j. encloses (sp ! r) (sp ! j) \<and> f j (level_from sp (r + 1) j)) [r + 1..<length sp]"
    using inside_encloses [OF assms(1,2)] by (intro filter_cong) auto
  finally show ?thesis
    using view_simps(1,3) [OF assms(2)] assms(4)
    by (simp add: getRegionsInside_levels_def inside_from_def inside_end_def)
qed

lemma getRegionsInside_all:
  assumes "nested sp" "view sp st s" "\<And>r. r < length sp \<Longrightarrow> flt s r = f r"
  shows "getRegionsInside None flt s = filter f [0..<length sp]"
  using inside_plain_spec [where f = f and flt = flt, OF assms(1,2)] assms(3) view_simps(1) [OF assms(2)]
  by (simp add: getRegionsInside_def inside_from_def inside_end_def starts_before_def)

end
