(* ===== verification/FoldingNavigation.thy ===== *)
theory FoldingNavigation
  imports FoldingInside
begin

text \<open>
  The lines that the navigation commands go to: the parent fold, the previous and the next fold.
\<close>

section \<open>The region that starts at a line\<close>

lemma region_at_start:
  assumes "proper sp" "r < length sp"
  shows "region_at sp (fst (sp ! r)) = Some r"
proof -
  have "covers (sp ! r) (fst (sp ! r))" using proper_nth(1) [OF assms] by (simp add: covers_def)
  moreover have "\<not> covers (sp ! k) (fst (sp ! r))" if "r < k" "k < length sp" for k
    using proper_nth(2) [OF assms(1) that] by (simp add: covers_def)
  ultimately have "innermost_at sp (fst (sp ! r)) = int r" using assms(2) by (intro innermost_at_eq) auto
  then show ?thesis by (simp add: region_at_def covering_chain [OF proper_nested [OF assms(1)]] chain_of_def)
qed

lemma at_start_spec:
  assumes "view sp st s"
  shows "at_start line (region_at sp line) s =
    (case region_at sp line of None \<Rightarrow> None | Some r \<Rightarrow> if fst (sp ! r) = line then Some r else None)"
  using region_at_Some [of sp line] view_simps(2) [OF assms] by (auto simp: at_start_def split: option.split)

lemma here_spec:
  "proper sp \<Longrightarrow> r < length sp \<Longrightarrow> view sp st s \<Longrightarrow> at_start (fst (sp ! r)) (region_at sp (fst (sp ! r))) s = Some r"
  by (simp only: at_start_spec) (simp add: region_at_start)

lemma not_here_spec:
  "\<forall>r < length sp. fst (sp ! r) \<noteq> line \<Longrightarrow> view sp st s \<Longrightarrow> at_start line (region_at sp line) s = None"
  using region_at_Some [of sp line] by (auto simp: at_start_spec split: option.split)

lemma innermost_nat: "innermost sp i \<noteq> -1 \<Longrightarrow> nat (innermost sp i) < i \<and> int (nat (innermost sp i)) = innermost sp i"
  using innermost_bounds [of sp i] by linarith

lemma innermost_encloses:
  "innermost sp i \<noteq> -1 \<Longrightarrow> encloses (sp ! nat (innermost sp i)) (sp ! i)"
  using innermost_nat [of sp i] innermost_some [of sp i "nat (innermost sp i)"] by auto

section \<open>The innermost region\<close>

lemma findRange_innermost:
  assumes "regions_ok sp s" and nest: "nested sp"
  shows "\<exists>r s'. findRange line s = Some (Ok r, s') \<and> regions_ok sp s' \<and>
      (if \<forall>k < length sp. \<not> covers (sp ! k) line then r = -1
       else \<exists>i < length sp. r = int i \<and> covers (sp ! i) line \<and>
         (\<forall>k < length sp. covers (sp ! k) line \<longrightarrow> encloses (sp ! k) (sp ! i)))"
proof (cases "region_at sp line")
  case None
  then have "covering sp line = []" by (simp add: region_at_def split: list.splits)
  then have "\<forall>k < length sp. \<not> covers (sp ! k) line" by (auto simp: covering_def filter_empty_conv)
  then show ?thesis using findRange_spec [OF assms(1), of line] innermost_at_none by fastforce
next
  case (Some r)
  note r = region_at_Some [OF Some]
  have "encloses (sp ! k) (sp ! r)" if "k < length sp" "covers (sp ! k) line" for k
    using covers_encloses [OF nest] r that by (metis linorder_neqE_nat encloses_refl)
  then show ?thesis
    using findRange_spec [OF assms(1), of line] innermost_at_eq [of r sp line] r by fastforce
qed

lemma getParentIndex_innermost:
  assumes "regions_ok sp s" and nest: "nested sp" and i: "i < length sp"
  shows "\<exists>p s'. getParentIndex i s = (Ok p, s') \<and> regions_ok sp s' \<and>
      (if \<forall>k < i. \<not> encloses (sp ! k) (sp ! i) then p = -1
       else \<exists>j < i. p = int j \<and> encloses (sp ! j) (sp ! i) \<and>
         (\<forall>k < i. encloses (sp ! k) (sp ! i) \<longrightarrow> encloses (sp ! k) (sp ! j)))"
proof (cases "innermost sp i = -1")
  case True
  then show ?thesis using getParentIndex_spec [OF assms(1) i] innermost_none [of sp i] by auto
next
  case False
  then obtain j where j: "innermost sp i = int j" using innermost_nat by metis
  have enc: "encloses (sp ! k) (sp ! j)" if "k < i" "encloses (sp ! k) (sp ! i)" for k
  proof (cases "k < j")
    case True
    then show ?thesis
      using encloses_before [OF nest True, of "sp ! i"] j i that innermost_some [of sp i j] nested_proper [OF nest i] by simp
  next
    case False
    then have "k = j" using that j innermost_some [of sp i j] by (metis linorder_neqE_nat)
    then show ?thesis by (simp add: encloses_def)
  qed
  obtain s' where "getParentIndex i s = (Ok (int j), s')" "regions_ok sp s'"
    using getParentIndex_spec [OF assms(1) i] j by auto
  then show ?thesis using enc j innermost_some [of sp i j] by auto
qed

section \<open>The parent fold\<close>

definition start_of_first :: "(int \<times> int) list \<Rightarrow> nat list \<Rightarrow> int option" where
  "start_of_first sp rs = (case rs of [] \<Rightarrow> None | r # _ \<Rightarrow> Some (fst (sp ! r)))"

lemma getParentFoldLine_spec:
  assumes "proper sp"
  shows "computes sp st (getParentFoldLine line)
    (start_of_first sp (filter (\<lambda>r. fst (sp ! r) < line) (covering sp line)))"
proof (cases "region_at sp line")
  case None
  then have "covering sp line = []" by (simp add: region_at_def split: list.splits)
  then show ?thesis
    unfolding getParentFoldLine_def
    by (intro computes_fbind [OF getRegionAtLine_spec [OF proper_nested [OF assms]]])
      (simp add: None start_of_first_def computes_fret)
next
  case (Some r)
  note r = region_at_Some [OF Some]
  have cov: "covering sp line = r # chain_of sp (innermost sp r)"
    using Some covering_chain [OF proper_nested [OF assms], of line] enclosing_chain [OF proper_nested [OF assms], of r] r
    by (auto simp: region_at_def chain_of_def split: if_splits)
  have st: "computes sp st (fread (getStartLineNumber r)) (fst (sp ! r))"
    using r view_simps(2) by (intro computes_fread) blast
  define res where "res = start_of_first sp (filter (\<lambda>r. fst (sp ! r) < line) (covering sp line))"
  have "computes sp st (if line = fst (sp ! r)
      then fbind (fparent r) (\<lambda>p. fread (\<lambda>s. if p \<noteq> -1 then Some (getStartLineNumber (nat p) s) else None))
      else fret (Some (fst (sp ! r)))) res"
  proof (cases "line = fst (sp ! r)")
    case False
    then have "res = Some (fst (sp ! r))" using r by (simp add: res_def start_of_first_def cov covers_def)
    then show ?thesis using False by (simp add: computes_fret)
  next
    case True
    define p where "p = innermost sp r"
    have res: "res = (if p \<noteq> -1 then Some (fst (sp ! nat p)) else None)"
      unfolding res_def cov
      using True innermost_nat [of sp r] proper_nth(2) [OF assms, of "nat p" r] r innermost_bounds(2) [of sp r]
      by (auto simp: start_of_first_def chain_of_def simp flip: p_def)
    have "computes sp st (fread (\<lambda>s. if p \<noteq> -1 then Some (getStartLineNumber (nat p) s) else None)) res"
      using innermost_nat [of sp r] r view_simps(2) by (intro computes_fread) (auto simp: res simp flip: p_def)
    then show ?thesis
      using True computes_fbind [OF computes_fparent [of r sp st]] r by (simp flip: p_def)
  qed
  then show ?thesis
    unfolding getParentFoldLine_def res_def
    by (intro computes_fbind [OF getRegionAtLine_spec [OF proper_nested [OF assms]]])
      (simp add: Some computes_fbind [OF st])
qed

section \<open>The previous fold\<close>

definition start_found :: "(int \<times> int) list \<Rightarrow> nat option \<Rightarrow> int option" where
  "start_found sp r = map_option (\<lambda>r. fst (sp ! r)) r"

lemma previous_sibling_spec:
  assumes "proper sp" "k \<le> r" "r < length sp"
    and minLine: "minLine = (if innermost sp r = -1 then 0 else fst (sp ! nat (innermost sp r)))"
  shows "computes sp st (previous_sibling k minLine (innermost sp r))
    (start_found sp (find (\<lambda>j. innermost sp j = innermost sp r) (rev [0..<k])))"
  using assms(2)
proof (induction k)
  case 0
  then show ?case by (simp add: start_found_def computes_fret)
next
  case (Suc k)
  have k: "k < length sp" using Suc.prems assms(3) by simp
  have st: "computes sp st (fread (getStartLineNumber k)) (fst (sp ! k))"
    using k view_simps(2) by (intro computes_fread) blast
  show ?case
  proof (cases "fst (sp ! k) \<le> minLine")
    case False
    then show ?thesis
      using Suc k by (auto simp: start_found_def intro!: computes_fbind [OF st] computes_fbind [OF computes_fparent] computes_fret)
  next
    case True
    then obtain p where p: "innermost sp r = int p" "p < r" "k \<le> p"
      using minLine proper_nth(1) [OF assms(1) k] proper_nth(2) [OF assms(1), of p k] innermost_nat [of sp r]
        proper_nth(2) [OF assms(1), of "nat (innermost sp r)" k] k
      by (metis linorder_not_less)
    have "innermost sp j \<noteq> innermost sp r" if "j < Suc k" for j
      using innermost_bounds(1) [of sp j] p that by simp
    then have "find (\<lambda>j. innermost sp j = innermost sp r) (rev [0..<Suc k]) = None"
      by (simp only: find_rev_upt_None) simp
    then show ?thesis using True by (auto simp: start_found_def simp del: upt_Suc intro!: computes_fbind [OF st] computes_fret)
  qed
qed

lemma last_before_spec:
  "view sp st s \<Longrightarrow> n \<le> length sp \<Longrightarrow>
    last_before n line s = start_found sp (find (\<lambda>j. fst (sp ! j) < line) (rev [0..<n]))"
  using view_simps(2) by (induction n) (auto simp: start_found_def)

lemma getPreviousFoldLine_spec:
  assumes "proper sp"
  shows "r < length sp \<Longrightarrow> computes sp st (getPreviousFoldLine (fst (sp ! r)))
      (start_found sp (find (\<lambda>j. innermost sp j = innermost sp r) (rev [0..<r])))"
    and "\<forall>r < length sp. fst (sp ! r) \<noteq> line \<Longrightarrow> computes sp st (getPreviousFoldLine line)
      (start_found sp (find (\<lambda>j. fst (sp ! j) < line) (rev [0..<length sp])))"
proof -
  note at = getRegionAtLine_spec [OF proper_nested [OF assms]]
  show "computes sp st (getPreviousFoldLine (fst (sp ! r)))
      (start_found sp (find (\<lambda>j. innermost sp j = innermost sp r) (rev [0..<r])))" if r: "r < length sp"
  proof -
    define minLine where "minLine = (if innermost sp r = -1 then 0 else fst (sp ! nat (innermost sp r)))"
    have "computes sp st (fread (at_start (fst (sp ! r)) (region_at sp (fst (sp ! r))))) (Some r)"
      using here_spec [OF assms r] by (intro computes_fread)
    moreover have "computes sp st (fread (\<lambda>s. if innermost sp r \<noteq> -1 then getStartLineNumber (nat (innermost sp r)) s else 0)) minLine"
      using innermost_nat [of sp r] r view_simps(2) by (intro computes_fread) (auto simp: minLine_def)
    ultimately show ?thesis
      unfolding getPreviousFoldLine_def
      using previous_sibling_spec [OF assms order_refl r minLine_def]
      by (intro computes_fbind [OF at]) (auto intro!: computes_fbind [OF computes_fparent [OF r]] elim!: computes_fbind)
  qed
  show "computes sp st (getPreviousFoldLine line)
      (start_found sp (find (\<lambda>j. fst (sp ! j) < line) (rev [0..<length sp])))"
    if no: "\<forall>r < length sp. fst (sp ! r) \<noteq> line"
  proof -
    have "computes sp st (fread (at_start line (region_at sp line))) None"
      using not_here_spec [OF no] by (intro computes_fread)
    moreover have "computes sp st (fread (\<lambda>s. last_before (folding_length s) line s))
        (start_found sp (find (\<lambda>j. fst (sp ! j) < line) (rev [0..<length sp])))"
      using last_before_spec view_simps(1) by (intro computes_fread) fastforce
    ultimately show ?thesis
      unfolding getPreviousFoldLine_def by (intro computes_fbind [OF at]) (auto elim!: computes_fbind)
  qed
qed

section \<open>The next fold\<close>

text \<open>Behind the last region the typed arrays answer \<open>undefined\<close>: start line 0 and parent 0.\<close>

lemma beyond_spec:
  "computes sp st (fread (getStartLineNumber (length sp))) 0" "computes sp st (fparent (length sp)) 0"
proof -
  have out: "u32_at (startIndexes s) (length sp) = 0" "u32_at (endIndexes s) (length sp) = 0" if "regions_ok sp s" for s
    using that by (simp_all add: u32_at_def regions_ok_def table_ok_def)
  show "computes sp st (fread (getStartLineNumber (length sp))) 0"
    by (intro computes_fread) (simp add: getStartLineNumber_def out view_def)
  show "computes sp st (fparent (length sp)) 0"
    unfolding computes_def
  proof (intro allI impI)
    fix s assume s: "view sp st s"
    then obtain s' where s': "ensureParentIndices s = (Ok (), s')" "regions_ok sp s'" "same_states s s'"
      using ensureParentIndices_spec by (fastforce simp: view_def)
    then show "\<exists>s'. fparent (length sp) s = Some (Ok 0, s') \<and> view sp st s'"
      using out [OF s'(2)] view_same [OF s s'(2,3)]
      by (simp add: fparent_def getParentIndex_def stored_parent_def MAX_FOLDING_REGIONS_def)
  qed
qed

definition sibling_max :: "(int \<times> int) list \<Rightarrow> nat \<Rightarrow> int" where
  "sibling_max sp r =
     (if innermost sp r = -1 then snd (sp ! (length sp - 1)) else snd (sp ! nat (innermost sp r)))"

text \<open>
  The next sibling, or, when there is none: the line 0 that is read behind the last region, if the
  region is a child of region 0 and no region starts behind region 0.
\<close>

definition next_fold :: "(int \<times> int) list \<Rightarrow> nat \<Rightarrow> nat \<Rightarrow> int option" where
  "next_fold sp r a =
     (case find (\<lambda>j. innermost sp j = innermost sp r) [a..<length sp] of
        Some j \<Rightarrow> Some (fst (sp ! j))
      | None \<Rightarrow> if innermost sp r = 0 \<and> (\<forall>k < length sp. a \<le> k \<longrightarrow> fst (sp ! k) < snd (sp ! 0))
                then Some 0 else None)"

lemma sibling_before_max:
  assumes "proper sp" "r < j" "j < length sp" "innermost sp j = innermost sp r"
  shows "fst (sp ! j) < sibling_max sp r"
proof (cases "innermost sp r = -1")
  case True
  define n where "n = length sp - 1"
  have n: "n < length sp" "j < n \<or> j = n" using assms(3) by (auto simp: n_def)
  then show ?thesis
    using True proper_nth(1) [OF assms(1) n(1)] proper_nth(2) [OF assms(1) _ n(1), of j]
    unfolding sibling_max_def n_def [symmetric] by auto
next
  case False
  then have "encloses (sp ! nat (innermost sp r)) (sp ! j)" using innermost_encloses [of sp j] assms(4) by simp
  then show ?thesis using False proper_nth(1) [OF assms(1,3)] by (simp add: sibling_max_def encloses_def)
qed

lemma next_sibling_spec:
  assumes "proper sp" "r < a" "a \<le> length sp"
  shows "computes sp st (next_sibling [a..<length sp + 1] (sibling_max sp r) (innermost sp r)) (next_fold sp r a)"
  using assms(2-)
proof (induction "length sp - a" arbitrary: a)
  case 0
  then have a: "a = length sp" by simp
  have "0 < sibling_max sp r"
    using proper_nth(1) [OF assms(1), of "length sp - 1"] proper_nth(1) [OF assms(1), of "nat (innermost sp r)"]
      innermost_nat [of sp r] 0 by (cases "innermost sp r = -1") (auto simp: sibling_max_def)
  then show ?case
    using a by (auto simp: next_fold_def intro!: computes_fbind [OF beyond_spec(1)] computes_fbind [OF beyond_spec(2)] computes_fret)
next
  case (Suc n)
  then have a: "a < length sp" by simp
  have upt: "[a..<length sp + 1] = a # [a + 1..<length sp + 1]" "[a..<length sp] = a # [a + 1..<length sp]"
    using a by (simp_all add: upt_conv_Cons del: upt_Suc)
  have st: "computes sp st (fread (getStartLineNumber a)) (fst (sp ! a))"
    using a view_simps(2) by (intro computes_fread) blast
  note IH = Suc.hyps(1) [of "a + 1"]
  show ?case
  proof (cases "sibling_max sp r \<le> fst (sp ! a)")
    case True
    have "innermost sp j \<noteq> innermost sp r" if "a \<le> j" "j < length sp" for j
      using sibling_before_max [OF assms(1), of r j] proper_nth(2) [OF assms(1), of a j] True that Suc.prems(1)
      by (cases "j = a") auto
    then have "find (\<lambda>j. innermost sp j = innermost sp r) [a..<length sp] = None" by (auto simp: find_None_iff)
    moreover have "innermost sp r = 0 \<Longrightarrow> \<not> fst (sp ! a) < snd (sp ! 0)" using True by (simp add: sibling_max_def)
    ultimately have "next_fold sp r a = None" using a by (auto simp: next_fold_def)
    then show ?thesis unfolding upt(1) using True by (auto intro!: computes_fbind [OF st] computes_fret)
  next
    case False
    have "innermost sp r = 0 \<Longrightarrow> fst (sp ! a) < snd (sp ! 0)" using False by (simp add: sibling_max_def)
    then have res: "next_fold sp r a =
        (if innermost sp a = innermost sp r then Some (fst (sp ! a)) else next_fold sp r (a + 1))"
      unfolding next_fold_def upt(2) using a by (auto split: option.split simp: Suc_le_eq le_eq_less_or_eq)
    have "computes sp st (if innermost sp a = innermost sp r then fret (Some (fst (sp ! a)))
        else next_sibling [a + 1..<length sp + 1] (sibling_max sp r) (innermost sp r)) (next_fold sp r a)"
      using res IH Suc.hyps(2) Suc.prems a by (simp add: computes_fret)
    then show ?thesis
      unfolding upt(1) using False by (auto intro!: computes_fbind [OF st] computes_fbind [OF computes_fparent [OF a]])
  qed
qed

lemma first_after_spec:
  assumes "view sp st s" "0 \<le> line"
  shows "a \<le> length sp \<Longrightarrow> first_after [a..<length sp + 1] line s = start_found sp (find (\<lambda>j. line < fst (sp ! j)) [a..<length sp])"
proof (induction "length sp - a" arbitrary: a)
  case 0
  have "getStartLineNumber (length sp) s = 0"
    using beyond_spec(1) [of sp st] assms(1) by (simp add: computes_def fread_def)
  then show ?case using 0 assms(2) by (simp add: start_found_def)
next
  case (Suc n)
  then have a: "a < length sp" by simp
  then have "[a..<length sp + 1] = a # [a + 1..<length sp + 1]" "[a..<length sp] = a # [a + 1..<length sp]"
    by (simp_all add: upt_conv_Cons del: upt_Suc)
  moreover have "first_after [a + 1..<length sp + 1] line s = start_found sp (find (\<lambda>j. line < fst (sp ! j)) [a + 1..<length sp])"
    using Suc by (intro Suc.hyps(1)) auto
  ultimately show ?case using view_simps(2) [OF assms(1) a] by (simp add: start_found_def)
qed

lemma getNextFoldLine_spec:
  assumes "proper sp"
  shows "r < length sp \<Longrightarrow> computes sp st (getNextFoldLine (fst (sp ! r))) (next_fold sp r (r + 1))"
    and "0 \<le> line \<Longrightarrow> \<forall>r < length sp. fst (sp ! r) \<noteq> line \<Longrightarrow> computes sp st (getNextFoldLine line)
      (start_found sp (find (\<lambda>j. line < fst (sp ! j)) [0..<length sp]))"
proof -
  note at = getRegionAtLine_spec [OF proper_nested [OF assms]]
  show "computes sp st (getNextFoldLine (fst (sp ! r))) (next_fold sp r (r + 1))" if r: "r < length sp"
  proof -
    have "computes sp st (fread (at_start (fst (sp ! r)) (region_at sp (fst (sp ! r))))) (Some r)"
      using here_spec [OF assms r] by (intro computes_fread)
    moreover have "computes sp st (fread (next_max (innermost sp r))) (Some (sibling_max sp r))"
    proof (intro computes_fread)
      fix s assume s: "view sp st s"
      show "next_max (innermost sp r) s = Some (sibling_max sp r)"
        using r innermost_nat [of sp r] view_simps(1,3) [OF s] by (auto simp: next_max_def sibling_max_def)
    qed
    moreover have "computes sp st (fread folding_length) (length sp)"
      using view_simps(1) by (intro computes_fread)
    ultimately show ?thesis
      unfolding getNextFoldLine_def
      using next_sibling_spec [OF assms, of r "r + 1"] r
      by (intro computes_fbind [OF at]) (auto intro!: computes_fbind [OF computes_fparent [OF r]] simp del: upt_Suc elim!: computes_fbind)
  qed
  show "computes sp st (getNextFoldLine line) (start_found sp (find (\<lambda>j. line < fst (sp ! j)) [0..<length sp]))"
    if no: "0 \<le> line" "\<forall>r < length sp. fst (sp ! r) \<noteq> line"
  proof -
    have "computes sp st (fread (at_start line (region_at sp line))) None"
      using not_here_spec [OF no(2)] by (intro computes_fread)
    moreover have "computes sp st
        (fread (\<lambda>s. if folding_length s > 0 then first_after [0..<folding_length s + 1] line s else None))
        (start_found sp (find (\<lambda>j. line < fst (sp ! j)) [0..<length sp]))"
      using first_after_spec [OF _ no(1), where a = 0] view_simps(1)
      by (intro computes_fread) (fastforce simp: start_found_def simp del: upt_Suc)
    ultimately show ?thesis
      unfolding getNextFoldLine_def by (intro computes_fbind [OF at]) (auto elim!: computes_fbind)
  qed
qed

end
