(* ===== verification/FoldingCommandProofs.thy ===== *)
theory FoldingCommandProofs
  imports FoldingNavigation
begin

text \<open>
  What the fold and unfold commands do to the collapsed flags of the regions, and what the update of
  the model keeps.
\<close>

section \<open>The folding model of a table\<close>

definition model_ok :: "(int \<times> int) list \<Rightarrow> FoldingModel \<Rightarrow> bool" where
  "model_ok sp m \<longleftrightarrow> regions_ok sp (fm_regions m) \<and> decorated (fm_decorationIds m) (fm_regions m)"

lemma model_ok_length: "model_ok sp m \<Longrightarrow> folding_length (fm_regions m) = length sp"
  by (auto simp: model_ok_def dest: regions_ok_simps(1))

lemma model_ok_view: "model_ok sp m \<Longrightarrow> view sp (fm_regions m) (fm_regions m)"
  by (simp add: model_ok_def view_def)

lemma decorated_same:
  "decorated ids st \<Longrightarrow> view sp st s \<Longrightarrow> folding_length st = length sp \<Longrightarrow> decorated ids s"
  using view_simps(1) [of sp st s] by (auto simp: decorated_def states_ok_def view_def same_states_def)

text \<open>The model after a command that toggles the regions of a list.\<close>

definition toggled :: "(int \<times> int) list \<Rightarrow> nat list \<Rightarrow> FoldingModel \<Rightarrow> FoldingModel \<Rightarrow> bool" where
  "toggled sp xs m m' \<longleftrightarrow> model_ok sp m' \<and> fm_decorationIds m' = fm_decorationIds m \<and>
     (\<forall>j < length sp. (isCollapsed j (fm_regions m') \<longleftrightarrow> isCollapsed j (fm_regions m) \<noteq> (j \<in> set xs)) \<and>
        getSource j (fm_regions m') = getSource j (fm_regions m))"

lemma toggled_regions:
  assumes "model_ok sp m" "view sp (fm_regions m) s" "\<forall>i \<in> set xs. i < length sp"
  shows "toggled sp xs m (toggleCollapseState_regions xs (m\<lparr>fm_regions := s\<rparr>))"
proof -
  have dec: "decorated (fm_decorationIds m) s"
    using assms(1,2) decorated_same model_ok_length by (auto simp: model_ok_def)
  note spec = toggle_regions_spec [of "m\<lparr>fm_regions := s\<rparr>" xs, simplified, OF dec]
  have n: "folding_length s = length sp" using view_simps(1) [OF assms(2)] .
  note frame = recollapsed_frame [OF spec(1)]
  show ?thesis
    using spec assms dec n frame view_simps(4,5) [OF assms(2)]
    by (simp add: toggled_def model_ok_def decorated_def view_def)
qed

lemma toggle_computed_spec:
  assumes "model_ok sp m" "computes sp (fm_regions m) op xs" "\<forall>i \<in> set xs. i < length sp"
  shows "\<exists>m'. toggle_computed op m = Some (Ok (), m') \<and> toggled sp xs m m'"
proof -
  obtain s where s: "op (fm_regions m) = Some (Ok xs, s)" "view sp (fm_regions m) s"
    using assms(2) model_ok_view [OF assms(1)] unfolding computes_def by blast
  then show ?thesis using toggled_regions [OF assms(1) s(2) assms(3)] by (simp add: toggle_computed_def)
qed

text \<open>A command that brings the regions of a set to a state.\<close>

definition collapsed_to :: "(int \<times> int) list \<Rightarrow> (nat \<Rightarrow> bool) \<Rightarrow> bool \<Rightarrow> FoldingModel \<Rightarrow> FoldingModel \<Rightarrow> bool" where
  "collapsed_to sp P doCollapse m m' \<longleftrightarrow> model_ok sp m' \<and>
     (\<forall>j < length sp. isCollapsed j (fm_regions m') = (if P j then doCollapse else isCollapsed j (fm_regions m)) \<and>
        getSource j (fm_regions m') = getSource j (fm_regions m))"

lemma toggled_collapsed_to:
  assumes "toggled sp xs m m'"
    and "\<And>j. j < length sp \<Longrightarrow> j \<in> set xs \<longleftrightarrow> P j \<and> isCollapsed j (fm_regions m) \<noteq> doCollapse"
  shows "collapsed_to sp P doCollapse m m'"
  using assms by (auto simp: toggled_def collapsed_to_def)

lemma command_spec:
  assumes "model_ok sp m" "computes sp (fm_regions m) op xs"
    and "\<And>j. j \<in> set xs \<longleftrightarrow> j < length sp \<and> P j \<and> isCollapsed j (fm_regions m) \<noteq> doCollapse"
  shows "\<exists>m'. toggle_computed op m = Some (Ok (), m') \<and> collapsed_to sp P doCollapse m m'"
  using toggle_computed_spec [OF assms(1,2)] toggled_collapsed_to [where P = P and doCollapse = doCollapse] assms(3)
  by blast

section \<open>Commands on levels\<close>

definition level_of :: "(int \<times> int) list \<Rightarrow> nat \<Rightarrow> int" where
  "level_of sp i = int (card {j. j < i \<and> encloses (sp ! j) (sp ! i)}) + 1"

lemma level_from_0: "level_from sp 0 i = level_of sp i"
proof -
  have "length (enclosing sp i) = card (set (enclosing sp i))"
    by (rule distinct_card [symmetric]) (simp add: enclosing_def)
  also have "set (enclosing sp i) = {j. j < i \<and> encloses (sp ! j) (sp ! i)}" by (auto simp: enclosing_def)
  finally show ?thesis by (simp add: level_from_def level_of_def filter_True)
qed

lemma containsLine_covers: "view sp st s \<Longrightarrow> i < length sp \<Longrightarrow> FoldingRegion_containsLine i line s \<longleftrightarrow> covers (sp ! i) line"
  using view_simps(2,3) by (simp add: FoldingRegion_containsLine_def covers_def)

lemma setCollapseStateAtLevel_spec:
  assumes "model_ok sp m"
  shows "\<exists>m'. setCollapseStateAtLevel foldLevel doCollapse blocked m = Some (Ok (), m') \<and>
    collapsed_to sp (\<lambda>i. level_of sp i = foldLevel \<and> \<not> (\<exists>l \<in> set blocked. covers (sp ! i) l)) doCollapse m m'"
proof -
  have nest: "nested sp" using view_nested model_ok_view [OF assms] .
  define f where "f = (\<lambda>i level. level = foldLevel \<and> isCollapsed i (fm_regions m) \<noteq> doCollapse \<and>
    \<not> (\<exists>l \<in> set blocked. covers (sp ! i) l))"
  have "computes sp (fm_regions m) (fread (getRegionsInside_levels None (at_level_filter foldLevel doCollapse blocked)))
      (filter (\<lambda>j. f j (level_from sp 0 j)) [0..<length sp])"
  proof (intro computes_fread getRegionsInside_levels_all [OF nest], assumption)
    show "at_level_filter foldLevel doCollapse blocked s r level = f r level"
      if "view sp (fm_regions m) s" "r < length sp" for s r level
      using that containsLine_covers view_simps(4) by (fastforce simp: at_level_filter_def f_def list_ex_iff)
  qed
  then show ?thesis
    unfolding setCollapseStateAtLevel_def by (rule command_spec [OF assms]) (auto simp: f_def level_from_0)
qed

text \<open>Folding or unfolding everything.\<close>

lemma levels_filter_all: "view sp st s \<Longrightarrow> levels_filter doCollapse None s r level = (isCollapsed r st \<noteq> doCollapse)"
  using view_simps(4) by (simp add: levels_filter_def level_below_def)

lemma setCollapse_all_spec:
  assumes "model_ok sp m"
  shows "\<exists>m'. setCollapseStateLevelsDown doCollapse None None m = Some (Ok (), m') \<and>
    collapsed_to sp (\<lambda>i. True) doCollapse m m'"
proof -
  have nest: "nested sp" using view_nested model_ok_view [OF assms] .
  have "computes sp (fm_regions m) (fread (getRegionsInside_levels None (levels_filter doCollapse None)))
      (filter (\<lambda>j. isCollapsed j (fm_regions m) \<noteq> doCollapse) [0..<length sp])"
    by (intro computes_fread getRegionsInside_levels_all
          [where f = "\<lambda>j level. isCollapsed j (fm_regions m) \<noteq> doCollapse", OF nest])
      (simp_all add: levels_filter_all)
  then show ?thesis unfolding setCollapseStateLevelsDown_def option.case by (rule command_spec [OF assms]) auto
qed

text \<open>Folding or unfolding the regions at some lines with all regions inside them.\<close>

definition inside_at :: "(int \<times> int) list \<Rightarrow> int list \<Rightarrow> nat \<Rightarrow> bool" where
  "inside_at sp lines i \<longleftrightarrow> (\<exists>line \<in> set lines. \<exists>r. region_at sp line = Some r \<and> r \<le> i \<and> encloses (sp ! r) (sp ! i))"

definition down_list :: "(int \<times> int) list \<Rightarrow> FoldingRegions \<Rightarrow> bool \<Rightarrow> int \<Rightarrow> nat list" where
  "down_list sp st doCollapse line =
     (case region_at sp line of
        None \<Rightarrow> []
      | Some r \<Rightarrow> filter (\<lambda>j. encloses (sp ! r) (sp ! j) \<and> isCollapsed j st \<noteq> doCollapse) [r..<length sp])"

lemma set_down_list:
  "j \<in> set (down_list sp st doCollapse line) \<longleftrightarrow> j < length sp \<and> isCollapsed j st \<noteq> doCollapse \<and>
     (\<exists>r. region_at sp line = Some r \<and> r \<le> j \<and> encloses (sp ! r) (sp ! j))"
  by (cases "region_at sp line") (auto simp: down_list_def)

lemma levels_down_at_line_spec:
  assumes "proper sp"
  shows "computes sp st (levels_down_at_line doCollapse None line) (down_list sp st doCollapse line)"
proof (cases "region_at sp line")
  case None
  then show ?thesis
    unfolding levels_down_at_line_def
    by (intro computes_fbind [OF getRegionAtLine_spec [OF proper_nested [OF assms]]]) (simp add: down_list_def computes_fret)
next
  case (Some r)
  then have r: "r < length sp" using region_at_Some by blast
  have "(if isCollapsed r s \<noteq> doCollapse then [r] else []) @ getRegionsInside_levels (Some r) (levels_filter doCollapse None) s =
      down_list sp st doCollapse line" if s: "view sp st s" for s
  proof -
    have "getRegionsInside_levels (Some r) (levels_filter doCollapse None) s =
        filter (\<lambda>j. encloses (sp ! r) (sp ! j) \<and> isCollapsed j st \<noteq> doCollapse) [r + 1..<length sp]"
      by (rule getRegionsInside_levels_region
          [where f = "\<lambda>j level. isCollapsed j st \<noteq> doCollapse", OF assms s _ r]) (rule levels_filter_all [OF s])
    then show ?thesis
      using r Some view_simps(4) [OF s] by (simp add: down_list_def upt_conv_Cons encloses_def)
  qed
  then show ?thesis
    unfolding levels_down_at_line_def
    by (intro computes_fbind [OF getRegionAtLine_spec [OF proper_nested [OF assms]]])
      (simp add: Some several_levels_def computes_fread)
qed

lemma setCollapse_lines_spec:
  assumes "model_ok sp m" "proper sp" "lines \<noteq> []"
  shows "\<exists>m'. setCollapseStateLevelsDown doCollapse None (Some lines) m = Some (Ok (), m') \<and>
    collapsed_to sp (inside_at sp lines) doCollapse m m'"
proof -
  have "computes sp (fm_regions m) (fcollect (levels_down_at_line doCollapse None) lines)
      (concat (map (down_list sp (fm_regions m) doCollapse) lines))"
    by (intro computes_fcollect levels_down_at_line_spec [OF assms(2)])
  then have "\<exists>m'. toggle_computed (fcollect (levels_down_at_line doCollapse None) lines) m = Some (Ok (), m') \<and>
      collapsed_to sp (inside_at sp lines) doCollapse m m'"
    by (rule command_spec [OF assms(1)]) (simp add: set_down_list inside_at_def; blast)
  then show ?thesis using assms(3) by (cases lines) (simp_all add: setCollapseStateLevelsDown_def)
qed

text \<open>Folding or unfolding the regions around some lines, up to a number of levels.\<close>

lemma set_at_levels: "r \<in> set (at_levels f l rs) \<longleftrightarrow> (\<exists>i < length rs. rs ! i = r \<and> f r (l + int i))"
proof (induction rs arbitrary: l)
  case (Cons a rs)
  have "(\<exists>i < length (a # rs). (a # rs) ! i = r \<and> f r (l + int i)) \<longleftrightarrow>
      a = r \<and> f r l \<or> (\<exists>i < length rs. rs ! i = r \<and> f r (l + 1 + int i))"
    unfolding Ex_less_Suc2 list.size by (simp add: ac_simps Ex_less_Suc2)
  then show ?case using Cons.IH [of "l + 1"] by auto
qed simp

lemma setCollapseStateLevelsUp_spec:
  assumes "model_ok sp m"
  shows "\<exists>m'. setCollapseStateLevelsUp doCollapse levels lines m = Some (Ok (), m') \<and>
    collapsed_to sp (\<lambda>r. \<exists>line \<in> set lines. \<exists>i < length (covering sp line). covering sp line ! i = r \<and> int i < levels)
      doCollapse m m'"
proof -
  have nest: "nested sp" using view_nested model_ok_view [OF assms] .
  define f where "f = (\<lambda>r level. isCollapsed r (fm_regions m) \<noteq> doCollapse \<and> level \<le> levels)"
  have "computes sp (fm_regions m)
      (fcollect (\<lambda>line. getAllRegionsAtLine line (\<lambda>s r level. isCollapsed r s \<noteq> doCollapse \<and> level \<le> levels)) lines)
      (concat (map (\<lambda>line. at_levels f 1 (covering sp line)) lines))"
    using view_simps(4) by (intro computes_fcollect getAllRegionsAtLine_spec [OF nest]) (auto simp: f_def)
  then show ?thesis
    unfolding setCollapseStateLevelsUp_def
  proof (rule command_spec [OF assms], goal_cases)
    case (1 j)
    have "i < length (covering sp line) \<Longrightarrow> covering sp line ! i < length sp" for i line
      using nth_mem [of i "covering sp line"] by (auto simp: covering_def)
    then show ?case by (simp add: set_at_levels f_def zle_add1_eq_le [symmetric] add.commute; blast)
  qed
qed

section \<open>Commands on kinds of regions\<close>

lemma setCollapseStateForType_spec:
  assumes "model_ok sp m"
  shows "collapsed_to sp (\<lambda>i. getType i (fm_regions m) = Some typ) doCollapse m (setCollapseStateForType typ doCollapse m)"
proof -
  define xs where "xs = filter (\<lambda>i. doCollapse \<noteq> isCollapsed i (fm_regions m) \<and> Some typ = getType i (fm_regions m))
      (rev [0..<length sp])"
  have "toggled sp xs m (toggleCollapseState_regions xs (m\<lparr>fm_regions := fm_regions m\<rparr>))"
    by (rule toggled_regions [OF assms model_ok_view [OF assms]]) (auto simp: xs_def)
  then have "toggled sp xs m (setCollapseStateForType typ doCollapse m)"
    using model_ok_length [OF assms] by (simp add: setCollapseStateForType_def xs_def)
  then show ?thesis by (rule toggled_collapsed_to) (auto simp: xs_def)
qed

text \<open>Everything but the regions that contain, or are inside, the innermost region of a blocked line.\<close>

definition related :: "(int \<times> int) list \<Rightarrow> nat \<Rightarrow> nat \<Rightarrow> bool" where
  "related sp i j \<longleftrightarrow> encloses (sp ! i) (sp ! j) \<or> encloses (sp ! j) (sp ! i)"

lemma take_at_levels: "take 1 (at_levels (\<lambda>r level. True) 1 (covering sp line)) = (case region_at sp line of None \<Rightarrow> [] | Some r \<Rightarrow> [r])"
  by (cases "covering sp line") (simp_all add: region_at_def)

lemma setCollapseStateForRest_spec:
  assumes "model_ok sp m"
  shows "\<exists>m'. setCollapseStateForRest doCollapse blocked m = Some (Ok (), m') \<and>
    collapsed_to sp (\<lambda>i. \<not> (\<exists>line \<in> set blocked. \<exists>r. region_at sp line = Some r \<and> related sp i r)) doCollapse m m'"
proof -
  have nest: "nested sp" using view_nested model_ok_view [OF assms] .
  define st where "st = fm_regions m"
  define fs where "fs = concat (map (\<lambda>line. case region_at sp line of None \<Rightarrow> [] | Some r \<Rightarrow> [r]) blocked)"
  have fs: "f \<in> set fs \<longleftrightarrow> (\<exists>line \<in> set blocked. region_at sp line = Some f)" for f
    by (simp add: fs_def) (metis (no_types, lifting) empty_iff list.set option.exhaust option.simps(4,5) singletonD singletonI option.inject insertCI)
  have lines: "computes sp st (fcollect (\<lambda>line. fbind (getAllRegionsAtLine line (\<lambda>s r level. True))
      (\<lambda>regions. fret (take 1 regions))) blocked) fs"
    unfolding fs_def take_at_levels [symmetric]
    by (intro computes_fcollect computes_fbind [OF getAllRegionsAtLine_spec [where f = "\<lambda>r level. True", OF nest]])
      (simp_all add: computes_fret)
  define f where "f = (\<lambda>r. (\<forall>x \<in> set fs. \<not> related sp r x) \<and> isCollapsed r st \<noteq> doCollapse)"
  have "rest_filter doCollapse fs s r = f r" if "view sp st s" "r < length sp" for s r
  proof -
    have "x < length sp" if "x \<in> set fs" for x using that region_at_Some by (auto simp: fs)
    then show ?thesis
      using containedBy_encloses [OF that(1)] view_simps(4) [OF that(1)] that(2)
      by (auto simp: rest_filter_def f_def list_all_iff related_def)
  qed
  then have "computes sp st (fread (getRegionsInside None (rest_filter doCollapse fs))) (filter f [0..<length sp])"
    using getRegionsInside_all [OF nest] by (intro computes_fread) blast
  then have "computes sp st (fbind (fcollect (\<lambda>line. fbind (getAllRegionsAtLine line (\<lambda>s r level. True))
      (\<lambda>regions. fret (take 1 regions))) blocked)
      (\<lambda>filteredRegions. fread (getRegionsInside None (rest_filter doCollapse filteredRegions)))) (filter f [0..<length sp])"
    by (rule computes_fbind [OF lines])
  then show ?thesis
    unfolding setCollapseStateForRest_def st_def by (rule command_spec [OF assms]) (auto simp: f_def fs st_def)
qed

section \<open>Updates\<close>

text \<open>The decorations of the editor: one fresh, non-empty id for each decoration.\<close>

definition provider_ok :: "fold_env \<Rightarrow> bool" where
  "provider_ok env \<longleftrightarrow> (\<forall>old ds. length (deltaDecorations env old ds) = length ds \<and>
     distinct (deltaDecorations env old ds) \<and> [] \<notin> set (deltaDecorations env old ds))"

lemma length_new_decorations [simp]: "length (new_decorations is s l) = length is"
  by (induction "is" s l rule: new_decorations.induct) (simp_all add: Let_def)

lemma updatePost_ok:
  assumes "provider_ok env" "regions_ok sp s" "states_ok s"
  shows "model_ok sp (updatePost env s m)"
  using assms by (simp add: model_ok_def updatePost_def decorated_def provider_ok_def)

lemma good_storable:
  "good_ranges (Some n) rs \<Longrightarrow> n \<le> uint MAX_LINE_NUMBER \<Longrightarrow> r \<in> set rs \<Longrightarrow> storable r"
  by (auto simp: good_ranges_def fits_def storable_def)

lemma good_regions:
  assumes "good_ranges (Some n) rs" "n \<le> uint MAX_LINE_NUMBER" "length rs \<le> MAX_FOLDING_REGIONS"
  shows "\<exists>s. fromFoldRanges rs = Ok s \<and> regions_ok (map span rs) s \<and> states_ok s \<and>
    (\<forall>i < length rs. isCollapsed i s = fr_isCollapsed (rs ! i) \<and> getSource i s = fr_source (rs ! i))"
  using fromFoldRanges_spec [OF assms(3)] good_storable [OF assms(1,2)] good_nested [OF assms(1)] assms(3)
  by (fastforce simp: regions_ok_def)

text \<open>
  An update with the ranges of a provider gives a model of proper regions that holds the merged
  ranges with their states.
\<close>

lemma update_model_spec:
  assumes "provider_ok env" "textLineCount env \<le> uint MAX_LINE_NUMBER"
    and "starts_sorted (indexed_ranges (FoldInput_regions newRegions))"
    and "starts_sorted (currentFoldedOrManualRanges env sel m)"
    and rs: "rs = sanitizeAndMerge (FoldInput_regions newRegions)
      (FoldInput_ranges (currentFoldedOrManualRanges env sel m)) (Some (textLineCount env)) sel"
    and "length rs \<le> MAX_FOLDING_REGIONS"
  shows "\<exists>m'. update_model env newRegions sel m = Ok m' \<and> model_ok (map span rs) m' \<and> proper (map span rs) \<and>
    (\<forall>i < length rs. isCollapsed i (fm_regions m') = fr_isCollapsed (rs ! i) \<and>
       getSource i (fm_regions m') = fr_source (rs ! i))"
proof -
  have good: "good_ranges (Some (textLineCount env)) rs"
    unfolding rs using assms(3,4) by (intro merge_good) (simp_all add: indexed_ranges_def)
  obtain s where s: "fromFoldRanges rs = Ok s" "regions_ok (map span rs) s" "states_ok s"
      "\<forall>i < length rs. isCollapsed i s = fr_isCollapsed (rs ! i) \<and> getSource i s = fr_source (rs ! i)"
    using good_regions [OF good assms(2,6)] by blast
  have "update_model env newRegions sel m = Ok (updatePost env s m)"
    using s(1) by (simp add: update_model_def flip: rs)
  then show ?thesis
    using updatePost_ok [OF assms(1) s(2,3)] good_proper [OF good] s(4) by (auto simp: updatePost_def)
qed

text \<open>After folding everything, the lines below the start of a region are hidden, after unfolding none.\<close>

lemma hidden_after_all:
  assumes "model_ok sp m" "proper sp" "setCollapseStateLevelsDown doCollapse None None m = Some (r, m')"
  shows "isHidden line (updateHiddenRanges (fm_regions m') h) \<longleftrightarrow>
    doCollapse \<and> (\<exists>a \<in> set sp. fst a < line \<and> line \<le> snd a)"
proof -
  have m': "collapsed_to sp (\<lambda>i. True) doCollapse m m'"
    using setCollapse_all_spec [OF assms(1), of doCollapse] assms(3) by auto
  then have ok: "regions_ok sp (fm_regions m')" by (simp add: collapsed_to_def model_ok_def)
  have "\<forall>a \<in> set sp. fst a < snd a" using assms(2) by (simp add: proper_def)
  from updateHiddenRanges_spec(2) [OF ok this, of line h]
  also have "collapsed_hides sp (fm_regions m') (length sp) line \<longleftrightarrow>
      doCollapse \<and> (\<exists>j < length sp. fst (sp ! j) < line \<and> line \<le> snd (sp ! j))"
    using m' by (auto simp: collapsed_to_def collapsed_hides_def)
  also have "(\<exists>j < length sp. fst (sp ! j) < line \<and> line \<le> snd (sp ! j)) \<longleftrightarrow>
      (\<exists>a \<in> set sp. fst a < line \<and> line \<le> snd a)"
    unfolding Bex_def set_conv_nth by blast
  finally show ?thesis .
qed

end
