(* ===== verification/FoldingProperties.thy ===== *)
theory FoldingProperties
  imports FoldingCommandProofs
begin

text \<open>
  The properties of the folding component: the packed regions, the merge of ranges, the commands, the
  hidden lines and the navigation, and of the hashes its memento uses.
\<close>

section \<open>An example\<close>

definition example_ranges :: "FoldRange list" where
  "example_ranges = [fold_range 1 10 False FoldSource_provider, fold_range 3 5 True FoldSource_userDefined]"

definition example_regions :: FoldingRegions where
  "example_regions = (case fromFoldRanges example_ranges of Inr s \<Rightarrow> s
     | Inl e \<Rightarrow> \<lparr>startIndexes = [], endIndexes = [], collapseStates = [], userDefinedStates = [],
                  recoveredStates = [], parentsComputed = False, fold_types = None\<rparr>)"

definition example_model :: FoldingModel where
  "example_model = \<lparr>fm_regions = example_regions, fm_decorationIds = [''a'', ''b''], fm_changes = [], fm_events = []\<rparr>"

definition example_table :: "(int \<times> int) list" where
  "example_table = [(1, 10), (3, 5)]"

lemma example_span: "map span example_ranges = example_table"
  by (simp add: example_ranges_def example_table_def span_def fold_range_def)

lemma example_good: "good_ranges (Some 12) example_ranges"
  by (simp add: good_ranges_def example_ranges_def fits_def compat_def fold_range_def)

lemma example_regions_ok:
  "regions_ok example_table example_regions" "states_ok example_regions"
  "isCollapsed 0 example_regions = False" "isCollapsed 1 example_regions = True"
proof -
  have "length example_ranges \<le> MAX_FOLDING_REGIONS" "(12 :: int) \<le> uint MAX_LINE_NUMBER"
    by (simp_all add: example_ranges_def MAX_FOLDING_REGIONS_def MAX_LINE_NUMBER_def)
  from good_regions [OF example_good this(2,1)]
  show "regions_ok example_table example_regions" "states_ok example_regions"
    "isCollapsed 0 example_regions = False" "isCollapsed 1 example_regions = True"
    by (auto simp: example_regions_def example_span, auto simp: example_ranges_def fold_range_def)
qed

lemma example_model_ok: "model_ok example_table example_model" "proper example_table"
proof -
  have "folding_length example_regions = 2"
    using regions_ok_simps(1) [OF example_regions_ok(1)] by (simp add: example_table_def)
  then show "model_ok example_table example_model"
    using example_regions_ok by (simp add: model_ok_def example_model_def decorated_def)
  show "proper example_table" using good_proper [OF example_good] by (simp add: example_span)
qed

section \<open>Regions and ranges\<close>

text \<open>C15: In the packed table of nested regions, whether its parents are computed yet or not, the
  walk of \<open>findRange\<close> ends and gives the innermost region that covers the line (\<open>-1\<close> when none does), and
  \<open>getParentIndex\<close> gives the innermost earlier region that encloses the region.\<close>

theorem find_range_innermost:
  assumes "regions_ok sp s"
  shows "(\<exists>r s'. findRange line s = Some (Ok r, s') \<and> regions_ok sp s' \<and>
      (if \<forall>k < length sp. \<not> covers (sp ! k) line then r = -1
       else \<exists>i < length sp. r = int i \<and> covers (sp ! i) line \<and>
         (\<forall>k < length sp. covers (sp ! k) line \<longrightarrow> encloses (sp ! k) (sp ! i)))) \<and>
    (\<forall>i < length sp. \<exists>p s'. getParentIndex i s = (Ok p, s') \<and> regions_ok sp s' \<and>
      (if \<forall>k < i. \<not> encloses (sp ! k) (sp ! i) then p = -1
       else \<exists>j < i. p = int j \<and> encloses (sp ! j) (sp ! i) \<and>
         (\<forall>k < i. encloses (sp ! k) (sp ! i) \<longrightarrow> encloses (sp ! k) (sp ! j))))"
proof -
  have "nested sp" using assms by (simp add: regions_ok_def)
  then show ?thesis using findRange_innermost [OF assms] getParentIndex_innermost [OF assms] by blast
qed

theorem find_range_innermost_witness:
  "\<exists>r s'. findRange 4 example_regions = Some (Ok r, s') \<and> (\<exists>i < 2. r = int i \<and> covers (example_table ! i) 4)"
proof -
  have "covers (example_table ! 0) 4" by (simp add: example_table_def covers_def)
  then have some: "\<not> (\<forall>k < length example_table. \<not> covers (example_table ! k) 4)"
    by (auto simp: example_table_def)
  have "length example_table = 2" by (simp add: example_table_def)
  then show ?thesis
    using conjunct1 [OF find_range_innermost [OF example_regions_ok(1), of 4]] unfolding if_not_P [OF some] by auto
qed

text \<open>C16: Ranges written into packed regions are read back unchanged: lines up to \<open>MAX_LINE_NUMBER\<close>,
  type, collapsed flag and source of each of up to \<open>MAX_FOLDING_REGIONS\<close> ranges, in order; a longer list
  is an error.  (An empty type would be read back as a missing one.)\<close>

theorem fold_ranges_roundtrip:
  assumes "\<forall>r \<in> set rs. storable r" "\<forall>r \<in> set rs. fr_type r \<noteq> Some []"
  shows "if length rs \<le> MAX_FOLDING_REGIONS
    then \<exists>s. fromFoldRanges rs = Ok s \<and> map (\<lambda>i. toFoldRange i s) [0..<folding_length s] = rs
    else fromFoldRanges rs = Throw GenericError"
  using fold_roundtrip [OF _ assms]
  by (auto simp: region_list_def fromFoldRanges_def new_FoldingRegions_def Let_def)

theorem fold_ranges_roundtrip_witness:
  "\<exists>s. fromFoldRanges example_ranges = Ok s \<and> map (\<lambda>i. toFoldRange i s) [0..<folding_length s] = example_ranges"
proof -
  have "length example_ranges \<le> MAX_FOLDING_REGIONS" by (simp add: example_ranges_def MAX_FOLDING_REGIONS_def)
  moreover have "\<forall>r \<in> set example_ranges. storable r" "\<forall>r \<in> set example_ranges. fr_type r \<noteq> Some []"
    by (simp_all add: example_ranges_def fold_range_def storable_def MAX_LINE_NUMBER_def)
  ultimately show ?thesis using fold_ranges_roundtrip [of example_ranges] by simp
qed



section \<open>Commands\<close>

text \<open>C18: The fold and unfold commands set the collapsed flag of exactly the regions they are meant
  for and change nothing else: the regions at a level that contain no blocked line; all regions; the
  innermost regions at some lines with everything inside; the innermost regions around some lines up
  to a number of levels; the regions of a type; and everything but the regions that contain or are
  inside the regions of the blocked lines.\<close>

theorem fold_commands_effect:
  assumes "model_ok sp m" "proper sp" "lines \<noteq> []"
  shows "(\<exists>m'. setCollapseStateAtLevel foldLevel b blocked m = Some (Ok (), m') \<and>
      collapsed_to sp (\<lambda>i. level_of sp i = foldLevel \<and> \<not> (\<exists>l \<in> set blocked. covers (sp ! i) l)) b m m') \<and>
    (\<exists>m'. setCollapseStateLevelsDown b None None m = Some (Ok (), m') \<and> collapsed_to sp (\<lambda>i. True) b m m') \<and>
    (\<exists>m'. setCollapseStateLevelsDown b None (Some lines) m = Some (Ok (), m') \<and>
      collapsed_to sp (inside_at sp lines) b m m') \<and>
    (\<exists>m'. setCollapseStateLevelsUp b levels lines m = Some (Ok (), m') \<and>
      collapsed_to sp (\<lambda>r. \<exists>line \<in> set lines. \<exists>i < length (covering sp line).
        covering sp line ! i = r \<and> int i < levels) b m m') \<and>
    collapsed_to sp (\<lambda>i. getType i (fm_regions m) = Some typ) b m (setCollapseStateForType typ b m) \<and>
    (\<exists>m'. setCollapseStateForRest b blocked m = Some (Ok (), m') \<and>
      collapsed_to sp (\<lambda>i. \<not> (\<exists>line \<in> set blocked. \<exists>r. region_at sp line = Some r \<and> related sp i r)) b m m')"
  using setCollapseStateAtLevel_spec [OF assms(1)] setCollapse_all_spec [OF assms(1)]
    setCollapse_lines_spec [OF assms] setCollapseStateLevelsUp_spec [OF assms(1)]
    setCollapseStateForType_spec [OF assms(1)] setCollapseStateForRest_spec [OF assms(1)] by blast

theorem fold_commands_effect_witness:
  "\<exists>m'. setCollapseStateLevelsDown True None (Some [4]) example_model = Some (Ok (), m') \<and>
     collapsed_to example_table (inside_at example_table [4]) True example_model m'"
  using fold_commands_effect [OF example_model_ok, of "[4]" 1 True "[]"] by blast

text \<open>C19: An update of the folding model with the regions of a provider succeeds and gives a model
  whose regions are nested, start on different lines from 1 on and span at least two lines, with the
  collapsed flags and sources of the merged ranges, and one decoration per region.\<close>

theorem fold_update_valid:
  assumes "provider_ok env" "textLineCount env \<le> uint MAX_LINE_NUMBER"
    and "starts_sorted (map (\<lambda>i. toFoldRange i newRegions) [0..<folding_length newRegions])"
    and "starts_sorted (currentFoldedOrManualRanges env sel m)"
    and "rs = sanitizeAndMerge (FoldInput_regions newRegions)
      (FoldInput_ranges (currentFoldedOrManualRanges env sel m)) (Some (textLineCount env)) sel"
    and "length rs \<le> MAX_FOLDING_REGIONS"
  shows "\<exists>m'. update_model env newRegions sel m = Ok m' \<and> model_ok (map span rs) m' \<and> proper (map span rs) \<and>
    (\<forall>i < length rs. isCollapsed i (fm_regions m') = fr_isCollapsed (rs ! i) \<and>
       getSource i (fm_regions m') = fr_source (rs ! i))"
  by (rule update_model_spec [OF assms(1,2) _ assms(4-6)]) (use assms(3) in \<open>simp add: indexed_ranges_def\<close>)

definition example_env :: fold_env where
  "example_env = \<lparr>textLineCount = 12, textLineContent = (\<lambda>line. []), decorationRange = (\<lambda>d. None),
     deltaDecorations = (\<lambda>old ds. map (\<lambda>i. replicate (Suc i) CHR ''x'') [0..<length ds])\<rparr>"

theorem fold_update_valid_witness:
  "\<exists>m'. update_model example_env example_regions None example_model = Ok m'"
proof -
  have env: "provider_ok example_env" "textLineCount example_env \<le> uint MAX_LINE_NUMBER"
    by (auto simp: provider_ok_def example_env_def distinct_map inj_on_def MAX_LINE_NUMBER_def)
  have old: "currentFoldedOrManualRanges example_env None example_model = []"
    by (auto simp: currentFoldedOrManualRanges_def current_range_def example_env_def Let_def)
  have "\<exists>s. fromFoldRanges example_ranges = Ok s \<and> region_list s = example_ranges"
    by (rule fold_roundtrip)
      (simp_all add: example_ranges_def fold_range_def storable_def MAX_LINE_NUMBER_def MAX_FOLDING_REGIONS_def)
  then have regs: "map (\<lambda>i. toFoldRange i example_regions) [0..<folding_length example_regions] = example_ranges"
    by (auto simp: example_regions_def region_list_def)
  have "sanitizeAndMerge (FoldInput_regions example_regions) (FoldInput_ranges []) (Some 12) None = example_ranges"
    using merge_identity [of "Some 12" "FoldInput_regions example_regions"] example_good
    by (simp add: indexed_ranges_def regs)
  then show ?thesis
    using fold_update_valid [OF env, of example_regions None example_model example_ranges] good_starts_sorted [OF example_good]
    by (simp add: regs old) (simp add: example_env_def example_ranges_def MAX_FOLDING_REGIONS_def, blast)
qed

section \<open>Hidden lines and navigation\<close>

text \<open>C20: The hidden ranges of a model are disjoint and in order, and a line is hidden exactly when some
  collapsed region starts before it and ends at or after it; so after folding everything exactly the
  lines below the start of a region are hidden, and after unfolding everything none is.\<close>

theorem hidden_lines_of_collapsed:
  assumes "model_ok sp m" "proper sp"
  shows "separated (map lines_of (hiddenRanges (updateHiddenRanges (fm_regions m) h))) \<and>
    (isHidden line (updateHiddenRanges (fm_regions m) h) \<longleftrightarrow>
      (\<exists>i < length sp. isCollapsed i (fm_regions m) \<and> fst (sp ! i) < line \<and> line \<le> snd (sp ! i))) \<and>
    (\<forall>b r m'. setCollapseStateLevelsDown b None None m = Some (r, m') \<longrightarrow>
      (isHidden line (updateHiddenRanges (fm_regions m') h) \<longleftrightarrow>
        b \<and> (\<exists>a \<in> set sp. fst a < line \<and> line \<le> snd a)))"
proof -
  have "regions_ok sp (fm_regions m)" "\<forall>a \<in> set sp. fst a < snd a"
    using assms by (simp_all add: model_ok_def proper_def)
  note hidden = updateHiddenRanges_spec [OF this]
  show ?thesis using hidden hidden_after_all [OF assms] unfolding collapsed_hides_def by blast
qed

theorem hidden_lines_of_collapsed_witness:
  "isHidden 5 (updateHiddenRanges (fm_regions example_model) new_HiddenRangeModel) \<and>
   \<not> isHidden 3 (updateHiddenRanges (fm_regions example_model) new_HiddenRangeModel)"
  using hidden_lines_of_collapsed [OF example_model_ok, where h = new_HiddenRangeModel and line = 5]
    hidden_lines_of_collapsed [OF example_model_ok, where h = new_HiddenRangeModel and line = 3] example_regions_ok(3,4)
  by (auto simp: example_model_def example_table_def less_Suc_eq nth_Cons')

text \<open>C21: The navigation targets.  The parent fold of a line is the start of the innermost region that
  covers the line and starts before it.  From the start of a region the previous fold is its previous
  sibling, from any other line the last region that starts before it.  The next fold is the next
  sibling or the first region that starts after the line, with one exception that \<open>next_fold\<close> states:
  without a next sibling, in a child of the first region, the search can read behind the last region
  and answer line 0.\<close>

theorem fold_navigation_targets:
  assumes "proper sp"
  shows "computes sp st (getParentFoldLine line)
      (start_of_first sp (filter (\<lambda>r. fst (sp ! r) < line) (covering sp line))) \<and>
    (\<forall>r < length sp. computes sp st (getPreviousFoldLine (fst (sp ! r)))
      (start_found sp (find (\<lambda>j. innermost sp j = innermost sp r) (rev [0..<r])))) \<and>
    (\<forall>r < length sp. computes sp st (getNextFoldLine (fst (sp ! r))) (next_fold sp r (r + 1))) \<and>
    (0 \<le> line \<and> (\<forall>r < length sp. fst (sp ! r) \<noteq> line) \<longrightarrow>
      computes sp st (getPreviousFoldLine line) (start_found sp (find (\<lambda>j. fst (sp ! j) < line) (rev [0..<length sp]))) \<and>
      computes sp st (getNextFoldLine line) (start_found sp (find (\<lambda>j. line < fst (sp ! j)) [0..<length sp])))"
  using getParentFoldLine_spec [OF assms] getPreviousFoldLine_spec [OF assms] getNextFoldLine_spec [OF assms] by blast

theorem fold_navigation_targets_witness:
  "\<exists>s'. getNextFoldLine 3 (fm_regions example_model) = Some (Ok (Some 0), s')"
proof -
  have "computes example_table (fm_regions example_model) (getNextFoldLine (fst (example_table ! 1)))
      (next_fold example_table 1 2)"
  proof -
    have "1 < length example_table" by (simp add: example_table_def)
    then have "computes example_table (fm_regions example_model) (getNextFoldLine (fst (example_table ! 1)))
        (next_fold example_table 1 (1 + 1))"
      using fold_navigation_targets [OF example_model_ok(2), of "fm_regions example_model"] by blast
    then show ?thesis by (simp only: one_add_one)
  qed
  moreover have "next_fold example_table 1 2 = Some 0"
    by (simp add: next_fold_def example_table_def innermost_def encloses_def)
  moreover have "fst (example_table ! 1) = 3" by (simp add: example_table_def)
  ultimately show ?thesis using model_ok_view [OF example_model_ok(1)] by (auto simp: computes_def)
qed

section \<open>Hashes\<close>

text \<open>The hash of a constant string with any start value, precomputed as a power of 31 and a
  difference, is the hash computed over the string, which is a 32-bit integer; and the hash of an
  object does not depend on the order of its (distinct) keys.\<close>

theorem string_hash_precomputed:
  assumes "distinct (map fst obj)" "mset obj' = mset obj"
  shows "ConstantStringHash_apply (new_ConstantStringHash s) h = stringHash s h \<and> is_int32 (stringHash s h) \<and>
    doHash (JObject obj') h = doHash (JObject obj) h"
  using ConstantStringHash_correct hash_key_order [OF assms] stringHash_int32 by blast

theorem string_hash_precomputed_witness:
  "doHash (JObject [([98], JNumber 2), ([97], JNumber 1)]) 0 = doHash (JObject [([97], JNumber 1), ([98], JNumber 2)]) 0"
  using string_hash_precomputed [of "[([97], JNumber 1), ([98], JNumber 2)]" "[([98], JNumber 2), ([97], JNumber 1)]" "[]" 0]
  by simp

end
