(* ===== verification/Edits.thy ===== *)
theory Edits
  imports OffsetRanges
begin

text \<open>
  \<open>src/vs/editor/common/core/edits/edit.ts\<close>: edits of a sequence, as sorted disjoint replacements.

  The abstract class \<open>BaseReplacement\<close> is a record \<open>repl_class\<close> of the methods a subclass provides; the
  operations of \<open>BaseEdit\<close> take it as their first argument.  An edit is the list of its replacements.
  The constructors of ranges and edits can throw, so the operations that build some have a result type.
\<close>

section \<open>Replacements\<close>

record 'r repl_class =
  rc_range :: "'r \<Rightarrow> OffsetRange"
  rc_newLength :: "'r \<Rightarrow> int"
  rc_join :: "'r \<Rightarrow> 'r \<Rightarrow> 'r option result"
  rc_slice :: "'r \<Rightarrow> OffsetRange \<Rightarrow> OffsetRange \<Rightarrow> 'r"
  rc_equals :: "'r \<Rightarrow> 'r \<Rightarrow> bool"

abbreviation r_start :: "'r repl_class \<Rightarrow> 'r \<Rightarrow> int" where
  "r_start C r \<equiv> or_start (rc_range C r)"

abbreviation r_end :: "'r repl_class \<Rightarrow> 'r \<Rightarrow> int" where
  "r_end C r \<equiv> or_endExclusive (rc_range C r)"

definition BaseReplacement_delta :: "'r repl_class \<Rightarrow> 'r \<Rightarrow> int \<Rightarrow> 'r result" where
  "BaseReplacement_delta C r offset =
     bind_result (OffsetRange_delta (rc_range C r) offset) (\<lambda>rg.
     bind_result (new_OffsetRange 0 (rc_newLength C r)) (\<lambda>sub. Ok (rc_slice C r rg sub)))"

definition BaseReplacement_getLengthDelta :: "'r repl_class \<Rightarrow> 'r \<Rightarrow> int" where
  "BaseReplacement_getLengthDelta C r = rc_newLength C r - OffsetRange_length (rc_range C r)"

definition BaseReplacement_isEmpty :: "'r repl_class \<Rightarrow> 'r \<Rightarrow> bool" where
  "BaseReplacement_isEmpty C r \<longleftrightarrow> rc_newLength C r = 0 \<and> OffsetRange_length (rc_range C r) = 0"

definition getRangeAfterReplace :: "'r repl_class \<Rightarrow> 'r \<Rightarrow> OffsetRange result" where
  "getRangeAfterReplace C r = new_OffsetRange (r_start C r) (r_start C r + rc_newLength C r)"

section \<open>Construction\<close>

fun sorted_disjoint :: "'r repl_class \<Rightarrow> int \<Rightarrow> 'r list \<Rightarrow> bool" where
  "sorted_disjoint C lastEndEx [] \<longleftrightarrow> True"
| "sorted_disjoint C lastEndEx (r # rs) \<longleftrightarrow> r_start C r \<ge> lastEndEx \<and> sorted_disjoint C (r_end C r) rs"

definition new_Edit :: "'r repl_class \<Rightarrow> 'r list \<Rightarrow> 'r list result" where
  "new_Edit C rs = (if sorted_disjoint C (-1) rs then Ok rs else Throw BugIndicatingError)"

fun Edit_equals_loop :: "'r repl_class \<Rightarrow> 'r list \<Rightarrow> 'r list \<Rightarrow> bool" where
  "Edit_equals_loop C (a # as) (b # bs) \<longleftrightarrow> rc_equals C a b \<and> Edit_equals_loop C as bs"
| "Edit_equals_loop C _ _ \<longleftrightarrow> True"

definition Edit_equals :: "'r repl_class \<Rightarrow> 'r list \<Rightarrow> 'r list \<Rightarrow> bool" where
  "Edit_equals C e other \<longleftrightarrow> length e = length other \<and> Edit_equals_loop C e other"

section \<open>Normalisation\<close>

text \<open>The loop, with \<open>lastReplacement\<close>; the pushed replacements are returned in front.\<close>

fun normalize_loop :: "'r repl_class \<Rightarrow> 'r list \<Rightarrow> 'r option \<Rightarrow> 'r list result" where
  "normalize_loop C [] lastR = Ok (case lastR of None \<Rightarrow> [] | Some l \<Rightarrow> [l])"
| "normalize_loop C (r # rs) lastR =
     (if rc_newLength C r = 0 \<and> OffsetRange_length (rc_range C r) = 0 then normalize_loop C rs lastR
      else case lastR of
        None \<Rightarrow> normalize_loop C rs (Some r)
      | Some l \<Rightarrow>
          bind_result (if r_end C l = r_start C r then rc_join C l r else Ok None) (\<lambda>joined.
            case joined of
              Some j \<Rightarrow> normalize_loop C rs (Some j)
            | None \<Rightarrow> bind_result (normalize_loop C rs (Some r)) (\<lambda>out. Ok (l # out))))"

definition Edit_normalize :: "'r repl_class \<Rightarrow> 'r list \<Rightarrow> 'r list result" where
  "Edit_normalize C rs = bind_result (normalize_loop C rs None) (new_Edit C)"

section \<open>Composition\<close>

text \<open>
  The queue of replacements of the first edit, the offset \<open>edit1ToEdit2\<close> and the result so far.
  The first inner loop copies replacements that end before the next one of the second edit.
\<close>

fun compose_copy :: "'r repl_class \<Rightarrow> 'r \<Rightarrow> 'r list \<Rightarrow> int \<Rightarrow> 'r list \<Rightarrow> 'r list \<times> int \<times> 'r list" where
  "compose_copy C r2 [] d res = ([], d, res)"
| "compose_copy C r2 (r1 # q) d res =
     (if r_start C r1 + d + rc_newLength C r1 \<ge> r_start C r2 then (r1 # q, d, res)
      else compose_copy C r2 q (d + (rc_newLength C r1 - OffsetRange_length (rc_range C r1))) (res @ [r1]))"

text \<open>The second one collects those that intersect or touch it: the rest, the offset, first and last.\<close>

fun compose_gather :: "'r repl_class \<Rightarrow> 'r \<Rightarrow> 'r list \<Rightarrow> int \<Rightarrow> 'r option \<Rightarrow> 'r option \<Rightarrow>
    'r list \<times> int \<times> 'r option \<times> 'r option" where
  "compose_gather C r2 [] d firstI lastI = ([], d, firstI, lastI)"
| "compose_gather C r2 (r1 # q) d firstI lastI =
     (if r_start C r1 + d > r_end C r2 then (r1 # q, d, firstI, lastI)
      else compose_gather C r2 q (d + (rc_newLength C r1 - OffsetRange_length (rc_range C r1)))
             (case firstI of None \<Rightarrow> Some r1 | Some f \<Rightarrow> Some f) (Some r1))"

definition compose_prefix :: "'r repl_class \<Rightarrow> 'r \<Rightarrow> int \<Rightarrow> int \<Rightarrow> 'r list result" where
  "compose_prefix C firstI newStart prefixLength =
     (if prefixLength > 0 then
        bind_result (OffsetRange_emptyAt newStart) (\<lambda>rg.
        bind_result (new_OffsetRange 0 prefixLength) (\<lambda>sub. Ok [rc_slice C firstI rg sub]))
      else Ok [])"

definition compose_suffix :: "'r repl_class \<Rightarrow> 'r \<Rightarrow> int \<Rightarrow> 'r list \<Rightarrow> int \<Rightarrow> ('r list \<times> int) result" where
  "compose_suffix C lastI suffixLength q d =
     (if suffixLength > 0 then
        bind_result (OffsetRange_ofStartAndLength (r_end C lastI) 0) (\<lambda>rg.
        bind_result (new_OffsetRange (rc_newLength C lastI - suffixLength) (rc_newLength C lastI)) (\<lambda>sub.
          let e = rc_slice C lastI rg sub
          in Ok (e # q, d - (rc_newLength C e - OffsetRange_length (rc_range C e)))))
      else Ok (q, d))"

definition compose_step :: "'r repl_class \<Rightarrow> 'r \<Rightarrow> 'r list \<Rightarrow> int \<Rightarrow> 'r list \<Rightarrow> ('r list \<times> int \<times> 'r list) result" where
  "compose_step C r2 q0 d0 res0 =
     (let (q1, d1, res1) = compose_copy C r2 q0 d0 res0;
          (q2, d2, firstI, lastI) = compose_gather C r2 q1 d1 None None
      in case firstI of
           None \<Rightarrow> bind_result (BaseReplacement_delta C r2 (- d2)) (\<lambda>r. Ok (q2, d2, res1 @ [r]))
         | Some f \<Rightarrow>
             let newStart = min (r_start C f) (r_start C r2 - d1);
                 prefixLength = r_start C r2 - (r_start C f + d1)
             in bind_result (compose_prefix C f newStart prefixLength) (\<lambda>prefix.
                case lastI of
                  None \<Rightarrow> Throw BugIndicatingError
                | Some l \<Rightarrow>
                    bind_result (compose_suffix C l (r_end C l + d2 - r_end C r2) q2 d2) (\<lambda>(q3, d3).
                    bind_result (new_OffsetRange newStart (r_end C r2 - d3)) (\<lambda>rg.
                    bind_result (new_OffsetRange 0 (rc_newLength C r2)) (\<lambda>sub.
                      Ok (q3, d3, res1 @ prefix @ [rc_slice C r2 rg sub]))))))"

fun compose_loop :: "'r repl_class \<Rightarrow> 'r list \<Rightarrow> 'r list \<Rightarrow> int \<Rightarrow> 'r list \<Rightarrow> 'r list result" where
  "compose_loop C [] q d res = Ok (res @ q)"
| "compose_loop C (r2 # rs) q d res =
     bind_result (compose_step C r2 q d res) (\<lambda>(q', d', res'). compose_loop C rs q' d' res')"

definition Edit_isEmpty :: "'r list \<Rightarrow> bool" where
  "Edit_isEmpty e \<longleftrightarrow> length e = 0"

definition Edit_compose :: "'r repl_class \<Rightarrow> 'r list \<Rightarrow> 'r list \<Rightarrow> 'r list result" where
  "Edit_compose C e other =
     bind_result (Edit_normalize C e) (\<lambda>edits1.
     bind_result (Edit_normalize C other) (\<lambda>edits2.
       if Edit_isEmpty edits1 then Ok edits2
       else if Edit_isEmpty edits2 then Ok edits1
       else bind_result (compose_loop C edits2 edits1 0 []) (\<lambda>out.
            bind_result (new_Edit C out) (Edit_normalize C))))"

section \<open>Splitting and lengths\<close>

fun decomposeSplit_loop :: "'r repl_class \<Rightarrow> ('r \<Rightarrow> bool) \<Rightarrow> 'r list \<Rightarrow> int \<Rightarrow> ('r list \<times> 'r list) result" where
  "decomposeSplit_loop C shouldBeInE1 [] e2delta = Ok ([], [])"
| "decomposeSplit_loop C shouldBeInE1 (r # rs) e2delta =
     (if shouldBeInE1 r then
        bind_result (decomposeSplit_loop C shouldBeInE1 rs
            (e2delta + (rc_newLength C r - OffsetRange_length (rc_range C r))))
          (\<lambda>(e1, e2). Ok (r # e1, e2))
      else
        bind_result (OffsetRange_delta (rc_range C r) e2delta) (\<lambda>rg.
        bind_result (new_OffsetRange 0 (rc_newLength C r)) (\<lambda>sub.
        bind_result (decomposeSplit_loop C shouldBeInE1 rs e2delta) (\<lambda>(e1, e2).
          Ok (e1, rc_slice C r rg sub # e2)))))"

definition decomposeSplit :: "'r repl_class \<Rightarrow> ('r \<Rightarrow> bool) \<Rightarrow> 'r list \<Rightarrow> ('r list \<times> 'r list) result" where
  "decomposeSplit C shouldBeInE1 e =
     bind_result (decomposeSplit_loop C shouldBeInE1 e 0) (\<lambda>(e1, e2).
     bind_result (new_Edit C e1) (\<lambda>e1'. bind_result (new_Edit C e2) (\<lambda>e2'. Ok (e1', e2'))))"

fun getNewRanges_loop :: "'r repl_class \<Rightarrow> 'r list \<Rightarrow> int \<Rightarrow> OffsetRange list result" where
  "getNewRanges_loop C [] offset = Ok []"
| "getNewRanges_loop C (r # rs) offset =
     bind_result (OffsetRange_ofStartAndLength (r_start C r + offset) (rc_newLength C r)) (\<lambda>rg.
     bind_result (getNewRanges_loop C rs (offset + BaseReplacement_getLengthDelta C r)) (\<lambda>out. Ok (rg # out)))"

definition getNewRanges :: "'r repl_class \<Rightarrow> 'r list \<Rightarrow> OffsetRange list result" where
  "getNewRanges C e = getNewRanges_loop C e 0"

definition getJoinedReplaceRange :: "'r repl_class \<Rightarrow> 'r list \<Rightarrow> OffsetRange option result" where
  "getJoinedReplaceRange C e =
     (if e = [] then Ok None
      else bind_result (OffsetRange_join (rc_range C (hd e)) (rc_range C (last e))) (\<lambda>r. Ok (Some r)))"

definition Edit_getLengthDelta :: "'r repl_class \<Rightarrow> 'r list \<Rightarrow> int" where
  "Edit_getLengthDelta C e = foldl (\<lambda>acc r. acc + BaseReplacement_getLengthDelta C r) 0 e"

definition getNewDataLength :: "'r repl_class \<Rightarrow> 'r list \<Rightarrow> int \<Rightarrow> int" where
  "getNewDataLength C e dataLength = dataLength + Edit_getLengthDelta C e"

section \<open>Offsets\<close>

fun applyToOffset_loop :: "'r repl_class \<Rightarrow> 'r list \<Rightarrow> int \<Rightarrow> int \<Rightarrow> int" where
  "applyToOffset_loop C [] originalOffset delta = originalOffset + delta"
| "applyToOffset_loop C (r # rs) originalOffset delta =
     (if r_start C r \<le> originalOffset then
        if originalOffset < r_end C r then r_start C r + delta
        else applyToOffset_loop C rs originalOffset (delta + (rc_newLength C r - OffsetRange_length (rc_range C r)))
      else originalOffset + delta)"

definition applyToOffset :: "'r repl_class \<Rightarrow> 'r list \<Rightarrow> int \<Rightarrow> int" where
  "applyToOffset C e originalOffset = applyToOffset_loop C e originalOffset 0"

definition applyToOffsetRange :: "'r repl_class \<Rightarrow> 'r list \<Rightarrow> OffsetRange \<Rightarrow> OffsetRange result" where
  "applyToOffsetRange C e r = new_OffsetRange (applyToOffset C e (or_start r)) (applyToOffset C e (or_endExclusive r))"

fun applyInverseToOffset_loop :: "'r repl_class \<Rightarrow> 'r list \<Rightarrow> int \<Rightarrow> int \<Rightarrow> int" where
  "applyInverseToOffset_loop C [] postEditsOffset delta = postEditsOffset - delta"
| "applyInverseToOffset_loop C (r # rs) postEditsOffset delta =
     (if r_start C r \<le> postEditsOffset - delta then
        if postEditsOffset - delta < r_start C r + rc_newLength C r then r_start C r
        else applyInverseToOffset_loop C rs postEditsOffset
               (delta + (rc_newLength C r - OffsetRange_length (rc_range C r)))
      else postEditsOffset - delta)"

definition applyInverseToOffset :: "'r repl_class \<Rightarrow> 'r list \<Rightarrow> int \<Rightarrow> int" where
  "applyInverseToOffset C e postEditsOffset = applyInverseToOffset_loop C e postEditsOffset 0"

fun applyToOffsetOrUndefined_loop :: "'r repl_class \<Rightarrow> 'r list \<Rightarrow> int \<Rightarrow> int \<Rightarrow> int option" where
  "applyToOffsetOrUndefined_loop C [] originalOffset delta = Some (originalOffset + delta)"
| "applyToOffsetOrUndefined_loop C (r # rs) originalOffset delta =
     (if r_start C r \<le> originalOffset then
        if originalOffset < r_end C r then None
        else applyToOffsetOrUndefined_loop C rs originalOffset
               (delta + (rc_newLength C r - OffsetRange_length (rc_range C r)))
      else Some (originalOffset + delta))"

definition applyToOffsetOrUndefined :: "'r repl_class \<Rightarrow> 'r list \<Rightarrow> int \<Rightarrow> int option" where
  "applyToOffsetOrUndefined C e originalOffset = applyToOffsetOrUndefined_loop C e originalOffset 0"

definition applyToOffsetRangeOrUndefined :: "'r repl_class \<Rightarrow> 'r list \<Rightarrow> OffsetRange \<Rightarrow> OffsetRange option result" where
  "applyToOffsetRangeOrUndefined C e r =
     (case applyToOffsetOrUndefined C e (or_start r) of
        None \<Rightarrow> Ok None
      | Some st \<Rightarrow>
          (case applyToOffsetOrUndefined C e (or_endExclusive r) of
             None \<Rightarrow> Ok None
           | Some en \<Rightarrow> bind_result (new_OffsetRange st en) (\<lambda>x. Ok (Some x))))"

section \<open>Annotated lengths\<close>

record 'd AnnotationReplacement =
  an_replaceRange :: OffsetRange
  an_newLength :: int
  an_annotation :: 'd

definition AnnotationReplacement_tryJoinTouching ::
  "'d AnnotationReplacement \<Rightarrow> 'd AnnotationReplacement \<Rightarrow> 'd AnnotationReplacement option result" where
  "AnnotationReplacement_tryJoinTouching r other =
     (if an_annotation r \<noteq> an_annotation other then Ok None
      else bind_result (OffsetRange_joinRightTouching (an_replaceRange r) (an_replaceRange other)) (\<lambda>rg.
        Ok (Some \<lparr>an_replaceRange = rg, an_newLength = an_newLength r + an_newLength other,
                 an_annotation = an_annotation r\<rparr>)))"

definition AnnotationReplacement_slice ::
  "'d AnnotationReplacement \<Rightarrow> OffsetRange \<Rightarrow> OffsetRange \<Rightarrow> 'd AnnotationReplacement" where
  "AnnotationReplacement_slice r rg sub =
     \<lparr>an_replaceRange = rg, an_newLength = OffsetRange_length sub, an_annotation = an_annotation r\<rparr>"

definition AnnotationReplacement_equals :: "'d AnnotationReplacement \<Rightarrow> 'd AnnotationReplacement \<Rightarrow> bool" where
  "AnnotationReplacement_equals r other \<longleftrightarrow> OffsetRange_equals (an_replaceRange r) (an_replaceRange other) \<and>
     an_newLength r = an_newLength other \<and> an_annotation r = an_annotation other"

definition annotation_class :: "'d AnnotationReplacement repl_class" where
  "annotation_class = \<lparr>rc_range = an_replaceRange, rc_newLength = an_newLength,
     rc_join = AnnotationReplacement_tryJoinTouching, rc_slice = AnnotationReplacement_slice,
     rc_equals = AnnotationReplacement_equals\<rparr>"

end
