(* ===== verification/EditProofs.thy ===== *)
theory EditProofs
  imports Edits
begin

text \<open>
  The contract of a replacement class and what \<open>BaseEdit\<close> guarantees for every class that keeps it.

  \<open>cont\<close> is the content a replacement inserts.  \<open>edit_out C cont b rs xs\<close> is the result of an edit on the
  sequence \<open>xs\<close> whose first element has offset \<open>b\<close>.
\<close>

section \<open>The meaning of an edit\<close>

fun edit_out :: "'r repl_class \<Rightarrow> ('r \<Rightarrow> 'c list) \<Rightarrow> int \<Rightarrow> 'r list \<Rightarrow> 'c list \<Rightarrow> 'c list" where
  "edit_out C cont b [] xs = xs"
| "edit_out C cont b (r # rs) xs =
     take (nat (r_start C r - b)) xs @ cont r @ edit_out C cont (r_end C r) rs (drop (nat (r_end C r - b)) xs)"

text \<open>The part up to the end of the last replacement, and that end.\<close>

fun edit_front :: "'r repl_class \<Rightarrow> ('r \<Rightarrow> 'c list) \<Rightarrow> int \<Rightarrow> 'r list \<Rightarrow> 'c list \<Rightarrow> 'c list" where
  "edit_front C cont b [] xs = []"
| "edit_front C cont b (r # rs) xs =
     take (nat (r_start C r - b)) xs @ cont r @ edit_front C cont (r_end C r) rs (drop (nat (r_end C r - b)) xs)"

fun edit_end :: "'r repl_class \<Rightarrow> int \<Rightarrow> 'r list \<Rightarrow> int" where
  "edit_end C b [] = b"
| "edit_end C b (r # rs) = edit_end C (r_end C r) rs"

text \<open>Sorted disjoint replacements between two offsets.\<close>

fun within :: "'r repl_class \<Rightarrow> int \<Rightarrow> 'r list \<Rightarrow> int \<Rightarrow> bool" where
  "within C b [] n \<longleftrightarrow> b \<le> n"
| "within C b (r # rs) n \<longleftrightarrow> b \<le> r_start C r \<and> r_start C r \<le> r_end C r \<and> within C (r_end C r) rs n"

definition starts_from :: "'r repl_class \<Rightarrow> int \<Rightarrow> 'r list \<Rightarrow> bool" where
  "starts_from C k rs \<longleftrightarrow> (case rs of [] \<Rightarrow> True | r # _ \<Rightarrow> k \<le> r_start C r)"

lemma within_le: "within C b rs n \<Longrightarrow> b \<le> n"
  by (induction rs arbitrary: b) force+

lemma within_append: "within C b (xs @ ys) n \<longleftrightarrow> within C b xs (edit_end C b xs) \<and> within C (edit_end C b xs) ys n"
  by (induction xs arbitrary: b) auto

lemma edit_end_append [simp]: "edit_end C b (xs @ ys) = edit_end C (edit_end C b xs) ys"
  by (induction xs arbitrary: b) auto

lemma edit_end_le: "within C b rs n \<Longrightarrow> b \<le> edit_end C b rs \<and> edit_end C b rs \<le> n"
  by (induction rs arbitrary: b) fastforce+

lemma within_end: "within C b rs n \<Longrightarrow> within C b rs (edit_end C b rs)"
  by (induction rs arbitrary: b) auto

lemma within_sorted: "within C b rs n \<Longrightarrow> a \<le> b \<Longrightarrow> sorted_disjoint C a rs"
  by (induction rs arbitrary: a b) auto

lemma within_weaken: "within C b rs n \<Longrightarrow> starts_from C a rs \<Longrightarrow> a \<le> n \<Longrightarrow> within C a rs n"
  by (cases rs) (auto simp: starts_from_def)

lemma edit_out_front:
  "within C b (xs @ ys) n \<Longrightarrow>
    edit_out C cont b (xs @ ys) zs =
      edit_front C cont b xs zs @ edit_out C cont (edit_end C b xs) ys (drop (nat (edit_end C b xs - b)) zs)"
proof (induction xs arbitrary: b zs)
  case (Cons r xs)
  have "nat (r_end C r - b) + nat (edit_end C (r_end C r) xs - r_end C r) = nat (edit_end C (r_end C r) xs - b)"
    using Cons.prems edit_end_le [of C "r_end C r" xs "edit_end C (r_end C r) xs"]
    by (auto simp: within_append simp flip: nat_add_distrib)
  then show ?case using Cons by (simp add: add.commute)
qed simp

lemma edit_front_append:
  "within C b xs n \<Longrightarrow>
    edit_front C cont b (xs @ ys) zs =
      edit_front C cont b xs zs @ edit_front C cont (edit_end C b xs) ys (drop (nat (edit_end C b xs - b)) zs)"
proof (induction xs arbitrary: b zs)
  case (Cons r xs)
  have "nat (r_end C r - b) + nat (edit_end C (r_end C r) xs - r_end C r) = nat (edit_end C (r_end C r) xs - b)"
    using Cons.prems edit_end_le [of C "r_end C r" xs n] by (auto simp flip: nat_add_distrib)
  then show ?case using Cons by (simp add: add.commute)
qed simp

lemma edit_out_skip:
  assumes "starts_from C (b + int (length ys)) rs"
    and "case rs of [] \<Rightarrow> True | r # _ \<Rightarrow> r_start C r \<le> r_end C r"
  shows "edit_out C cont b rs (ys @ xs) = ys @ edit_out C cont (b + int (length ys)) rs xs"
proof (cases rs)
  case (Cons r rs')
  then have le: "b + int (length ys) \<le> r_start C r" "r_start C r \<le> r_end C r"
    using assms by (simp_all add: starts_from_def)
  have "nat (r_start C r - b) = length ys + nat (r_start C r - (b + int (length ys)))"
    "nat (r_end C r - b) = length ys + nat (r_end C r - (b + int (length ys)))"
    using le by simp_all
  then show ?thesis using Cons by simp
qed simp

lemma within_first: "within C b rs n \<Longrightarrow> case rs of [] \<Rightarrow> True | r # _ \<Rightarrow> r_start C r \<le> r_end C r"
  by (cases rs) auto

lemma edit_out_take:
  assumes "within C b rs n" "starts_from C (b + int k) rs" "k \<le> length xs"
  shows "take k (edit_out C cont b rs xs) = take k xs"
    and "drop k (edit_out C cont b rs xs) = edit_out C cont (b + int k) rs (drop k xs)"
proof -
  have "edit_out C cont b rs (take k xs @ drop k xs) = take k xs @ edit_out C cont (b + int k) rs (drop k xs)"
    using edit_out_skip [of C b "take k xs" rs cont "drop k xs"] assms within_first [OF assms(1)] by simp
  then show "take k (edit_out C cont b rs xs) = take k xs"
    and "drop k (edit_out C cont b rs xs) = edit_out C cont (b + int k) rs (drop k xs)"
    using assms(3) by simp_all
qed

section \<open>The contract\<close>

locale replacement =
  fixes C :: "'r repl_class" and cont :: "'r \<Rightarrow> 'c list" and ok :: "'r \<Rightarrow> bool"
  assumes newLength: "ok r \<Longrightarrow> rc_newLength C r = int (length (cont r))"
    and range_ok: "ok r \<Longrightarrow> r_start C r \<le> r_end C r"
    and slice_ok: "ok r \<Longrightarrow> or_start rg \<le> or_endExclusive rg \<Longrightarrow> a \<le> b \<Longrightarrow> b \<le> length (cont r) \<Longrightarrow>
      ok (rc_slice C r rg (mk_or (int a) (int b))) \<and> rc_range C (rc_slice C r rg (mk_or (int a) (int b))) = rg \<and>
      cont (rc_slice C r rg (mk_or (int a) (int b))) = take (b - a) (drop a (cont r))"
    and join_ok: "ok r \<Longrightarrow> ok r' \<Longrightarrow> r_end C r = r_start C r' \<Longrightarrow>
      \<exists>j. rc_join C r r' = Ok j \<and> (\<forall>x. j = Some x \<longrightarrow>
        ok x \<and> rc_range C x = mk_or (r_start C r) (r_end C r') \<and> cont x = cont r @ cont r')"
begin

abbreviation out :: "int \<Rightarrow> 'r list \<Rightarrow> 'c list \<Rightarrow> 'c list" where
  "out \<equiv> edit_out C cont"

abbreviation front :: "int \<Rightarrow> 'r list \<Rightarrow> 'c list \<Rightarrow> 'c list" where
  "front \<equiv> edit_front C cont"

abbreviation oks :: "'r list \<Rightarrow> bool" where
  "oks rs \<equiv> \<forall>r \<in> set rs. ok r"

lemma whole_slice:
  "ok r \<Longrightarrow> or_start rg \<le> or_endExclusive rg \<Longrightarrow>
    ok (rc_slice C r rg (mk_or 0 (rc_newLength C r))) \<and> rc_range C (rc_slice C r rg (mk_or 0 (rc_newLength C r))) = rg \<and>
    cont (rc_slice C r rg (mk_or 0 (rc_newLength C r))) = cont r"
  using slice_ok [of r rg 0 "length (cont r)"] newLength [of r] by simp

section \<open>Normalisation\<close>

definition front_of :: "'r option \<Rightarrow> 'r list" where
  "front_of l = (case l of None \<Rightarrow> [] | Some r \<Rightarrow> [r])"

lemma out_empty:
  assumes "cont r = []" "r_end C r = r_start C r" "within C b (r # rs) n" "n \<le> b + int (length xs)"
  shows "out b (r # rs) xs = out b rs xs"
proof -
  define k where "k = nat (r_start C r - b)"
  have w: "within C (r_start C r) rs n" "b \<le> r_start C r" using assms(2,3) by simp_all
  then have k: "k \<le> length xs" "b + int k = r_start C r" using assms(4) within_le [OF w(1)] by (simp_all add: k_def)
  have "starts_from C (b + int k) rs" using w(1) k(2) by (cases rs) (simp_all add: starts_from_def)
  then have "out b rs (take k xs @ drop k xs) = take k xs @ out (b + int k) rs (drop k xs)"
    using edit_out_skip [of C b "take k xs" rs cont "drop k xs"] k(1) within_first [OF w(1)] by simp
  then show ?thesis using assms(1,2) k(2) by (simp flip: k_def)
qed

lemma normalize_loop_spec:
  "oks (front_of l @ rs) \<Longrightarrow> within C b (front_of l @ rs) n \<Longrightarrow> n \<le> b + int (length xs) \<Longrightarrow>
    \<exists>rs'. normalize_loop C rs l = Ok rs' \<and> oks rs' \<and> within C b rs' n \<and> out b rs' xs = out b (front_of l @ rs) xs"
proof (induction rs arbitrary: l b xs)
  case Nil
  then show ?case by (auto simp: front_of_def split: option.splits)
next
  case (Cons r rs)
  have r: "ok r" using Cons.prems(1) by simp
  show ?case
  proof (cases "rc_newLength C r = 0 \<and> OffsetRange_length (rc_range C r) = 0")
    case True
    then have r0: "cont r = []" "r_end C r = r_start C r"
      using newLength [OF r] by (simp_all add: OffsetRange_length_def)
    have w: "within C b (front_of l @ rs) n"
      using Cons.prems(2) r0 by (cases rs; cases l) (auto simp: front_of_def dest: within_le)
    have "out b (front_of l @ r # rs) xs = out b (front_of l @ rs) xs"
    proof -
      show ?thesis
      proof (cases l)
        case None
        then show ?thesis using out_empty [OF r0, of b rs n xs] Cons.prems by (simp add: front_of_def)
      next
        case (Some a)
        then have a: "within C (r_end C a) (r # rs) n" "b \<le> r_start C a" "r_start C a \<le> r_end C a"
          using Cons.prems(2) by (simp_all add: front_of_def)
        have "r_end C a \<le> n" using within_le [OF a(1)] .
        then show ?thesis using out_empty [OF r0 a(1), of "drop (nat (r_end C a - b)) xs"] a(2,3) Some Cons.prems(3)
          by (simp add: front_of_def)
      qed
    qed
    then show ?thesis using Cons.IH [OF _ w Cons.prems(3)] Cons.prems(1) True by simp
  next
    case nonempty: False
    show ?thesis
    proof (cases l)
      case None
      then show ?thesis using Cons.IH [of "Some r" b xs] Cons.prems nonempty by (auto simp: front_of_def)
    next
      case (Some a)
      have a: "ok a" "b \<le> r_start C a" "r_start C a \<le> r_end C a" "r_end C a \<le> r_start C r"
          "within C (r_end C a) (r # rs) n"
        using Cons.prems Some by (simp_all add: front_of_def)
      obtain j where j: "(if r_end C a = r_start C r then rc_join C a r else Ok None) = Ok j"
          "\<And>x. j = Some x \<Longrightarrow> r_end C a = r_start C r \<and> ok x \<and>
             rc_range C x = mk_or (r_start C a) (r_end C r) \<and> cont x = cont a @ cont r"
        using join_ok [OF a(1) r] by (cases "r_end C a = r_start C r") auto
      show ?thesis
      proof (cases j)
        case (Some x)
        note x = j(2) [OF Some]
        have "out b (a # r # rs) xs = out b (x # rs) xs"
          using x a(2,3) range_ok [OF r] by (simp add: nat_diff_distrib' flip: nat_add_distrib)
        moreover have "within C b (x # rs) n" using x a by simp
        ultimately show ?thesis
          using Cons.IH [of "Some x" b xs] Cons.prems x \<open>l = Some a\<close> j(1) Some
          unfolding normalize_loop.simps if_not_P [OF nonempty] by (simp add: front_of_def)
      next
        case None
        have "n \<le> r_end C a + int (length (drop (nat (r_end C a - b)) xs))"
          using Cons.prems(3) a within_le [OF a(5)] by simp
        then obtain rs' where "normalize_loop C rs (Some r) = Ok rs'" "oks rs'" "within C (r_end C a) rs' n"
            "out (r_end C a) rs' (drop (nat (r_end C a - b)) xs) = out (r_end C a) (r # rs) (drop (nat (r_end C a - b)) xs)"
          using Cons.IH [of "Some r" "r_end C a" "drop (nat (r_end C a - b)) xs"] Cons.prems(1) a(5)
          by (auto simp: front_of_def)
        then show ?thesis
          using None j(1) \<open>l = Some a\<close> a(1-3)
          unfolding normalize_loop.simps if_not_P [OF nonempty] by (simp add: front_of_def)
      qed
    qed
  qed
qed

lemma normalize_spec:
  assumes "oks rs" "within C 0 rs n" "n \<le> int (length xs)"
  shows "\<exists>rs'. Edit_normalize C rs = Ok rs' \<and> oks rs' \<and> within C 0 rs' n \<and> out 0 rs' xs = out 0 rs xs"
proof -
  obtain rs' where "normalize_loop C rs None = Ok rs'" "oks rs'" "within C 0 rs' n" "out 0 rs' xs = out 0 rs xs"
    using normalize_loop_spec [of None rs 0 n xs] assms by (auto simp: front_of_def)
  then show ?thesis
    using within_sorted [of C 0 rs' n "-1"] by (auto simp: Edit_normalize_def new_Edit_def)
qed

end

end
