(* ===== verification/EditCompose.thy ===== *)
theory EditCompose
  imports EditProofs
begin

text \<open>
  The composition of two edits has the effect of the first followed by the second, for every class of
  replacements that keeps the contract.
\<close>

context replacement
begin

lemma len_delta: "ok r \<Longrightarrow> rc_newLength C r - OffsetRange_length (rc_range C r) = int (length (cont r)) - (r_end C r - r_start C r)"
  by (simp add: newLength OffsetRange_length_def)

lemma front_length:
  assumes "within C p (r # q) n" "n = p + int (length xs)"
  shows "int (length (take (nat (r_start C r - p)) xs)) = r_start C r - p"
    and "n = r_end C r + int (length (drop (nat (r_end C r - p)) xs))"
proof -
  have le: "r_end C r \<le> n" "p \<le> r_start C r" "r_start C r \<le> r_end C r" using assms(1) within_le by fastforce+
  show "int (length (take (nat (r_start C r - p)) xs)) = r_start C r - p"
    using le assms(2) by simp
  show "n = r_end C r + int (length (drop (nat (r_end C r - p)) xs))"
    using le assms(2) by simp
qed

section \<open>The inner loops\<close>

lemma compose_copy_spec:
  "compose_copy C r2 q d res = (q', d', res') \<Longrightarrow> oks q \<Longrightarrow> within C p q n \<Longrightarrow> n = p + int (length xs) \<Longrightarrow>
    p + d \<le> r_start C r2 \<Longrightarrow>
    \<exists>ys. res' = res @ ys \<and> q = ys @ q' \<and> edit_end C p ys + d' \<le> r_start C r2 \<and>
      int (length (front p ys xs)) = edit_end C p ys + d' - (p + d) \<and>
      (case q' of [] \<Rightarrow> True | r # _ \<Rightarrow> r_start C r2 \<le> r_start C r + d' + int (length (cont r)))"
proof (induction q arbitrary: d res p xs)
  case (Cons r q)
  have r: "ok r" using Cons.prems(2) by simp
  note len = front_length [OF Cons.prems(3,4)]
  show ?case
  proof (cases "r_start C r + d + rc_newLength C r \<ge> r_start C r2")
    case True
    then show ?thesis using Cons.prems newLength [OF r] by (intro exI [of _ "[]"]) auto
  next
    case False
    define d1 where "d1 = d + (rc_newLength C r - OffsetRange_length (rc_range C r))"
    have d1: "r_end C r + d1 = r_start C r + d + int (length (cont r))"
      by (simp add: d1_def len_delta [OF r])
    have "compose_copy C r2 q d1 (res @ [r]) = (q', d', res')" using Cons.prems(1) False by (simp add: d1_def)
    moreover have "within C (r_end C r) q n" "r_end C r + d1 \<le> r_start C r2"
      using Cons.prems(3) False d1 newLength [OF r] by simp_all
    ultimately obtain ys where "res' = (res @ [r]) @ ys" "q = ys @ q'" "edit_end C (r_end C r) ys + d' \<le> r_start C r2"
        "int (length (front (r_end C r) ys (drop (nat (r_end C r - p)) xs))) = edit_end C (r_end C r) ys + d' - (r_end C r + d1)"
        "case q' of [] \<Rightarrow> True | r # _ \<Rightarrow> r_start C r2 \<le> r_start C r + d' + int (length (cont r))"
      using Cons.IH [of d1 "res @ [r]" "r_end C r" "drop (nat (r_end C r - p)) xs"] Cons.prems(2) len(2) by auto
    then show ?thesis using len(1) d1 by (intro exI [of _ "r # ys"]) auto
  qed
qed auto

lemma compose_gather_spec:
  "compose_gather C r2 q d f l = (q', d', f', l') \<Longrightarrow> oks q \<Longrightarrow> within C p q n \<Longrightarrow> n = p + int (length xs) \<Longrightarrow>
    \<exists>ys. q = ys @ q' \<and> int (length (front p ys xs)) = edit_end C p ys + d' - (p + d) \<and>
      starts_from C (r_end C r2 - d' + 1) q' \<and>
      f' = (case f of None \<Rightarrow> (case ys of [] \<Rightarrow> None | y # _ \<Rightarrow> Some y) | Some x \<Rightarrow> Some x) \<and>
      l' = (if ys = [] then l else Some (last ys)) \<and>
      (ys \<noteq> [] \<longrightarrow> edit_end C p ys + d' \<le> r_end C r2 + int (length (cont (last ys))))"
proof (induction q arbitrary: d f l p xs)
  case (Cons r q)
  have r: "ok r" using Cons.prems(2) by simp
  note len = front_length [OF Cons.prems(3,4)]
  show ?case
  proof (cases "r_start C r + d > r_end C r2")
    case True
    then show ?thesis
      using Cons.prems by (intro exI [of _ "[]"]) (auto simp: starts_from_def split: option.split)
  next
    case False
    define d1 where "d1 = d + (rc_newLength C r - OffsetRange_length (rc_range C r))"
    define f1 where "f1 = (case f of None \<Rightarrow> Some r | Some x \<Rightarrow> Some x)"
    have d1: "r_end C r + d1 = r_start C r + d + int (length (cont r))"
      by (simp add: d1_def len_delta [OF r])
    have "within C (r_end C r) q n" using Cons.prems(3) by simp
    moreover have "compose_gather C r2 q d1 f1 (Some r) = (q', d', f', l')"
      using Cons.prems(1) False by (simp add: d1_def f1_def)
    ultimately obtain ys where ys: "q = ys @ q'"
        "int (length (front (r_end C r) ys (drop (nat (r_end C r - p)) xs))) = edit_end C (r_end C r) ys + d' - (r_end C r + d1)"
        "starts_from C (r_end C r2 - d' + 1) q'"
        "f' = (case f1 of None \<Rightarrow> (case ys of [] \<Rightarrow> None | y # _ \<Rightarrow> Some y) | Some x \<Rightarrow> Some x)"
        "l' = (if ys = [] then Some r else Some (last ys))"
        "ys \<noteq> [] \<longrightarrow> edit_end C (r_end C r) ys + d' \<le> r_end C r2 + int (length (cont (last ys)))"
      using Cons.IH [of d1 f1 "Some r" "r_end C r" "drop (nat (r_end C r - p)) xs"] Cons.prems(2) len(2) by auto
    have "f' = (case f of None \<Rightarrow> Some r | Some x \<Rightarrow> Some x)" using ys(4) by (auto simp: f1_def split: option.splits)
    moreover have "int (length (front p (r # ys) xs)) = edit_end C p (r # ys) + d' - (p + d)"
      using len(1) ys(2) d1 by simp
    moreover have "edit_end C p (r # ys) + d' \<le> r_end C r2 + int (length (cont (last (r # ys))))"
    proof (cases "ys = []")
      case True
      then have "d' = d1" using ys(2) by simp
      then show ?thesis using True d1 False by simp
    qed (use ys(6) in simp)
    ultimately show ?thesis using ys(1,3,5) by (intro exI [of _ "r # ys"]) (auto split: option.split)
  qed
qed (auto split: option.splits simp: starts_from_def)

section \<open>One replacement of the second edit\<close>

lemma front_last:
  "ys \<noteq> [] \<Longrightarrow> \<exists>zs. front p ys xs = zs @ cont (last ys)"
proof (induction ys arbitrary: p xs)
  case (Cons y ys)
  show ?case
  proof (cases "ys = []")
    case False
    then obtain zs where "front (r_end C y) ys (drop (nat (r_end C y - p)) xs) = zs @ cont (last ys)"
      using Cons.IH by blast
    then show ?thesis using False by simp
  qed simp
qed simp

lemma skip_bound:
  assumes "within C b q (b + int (length xs))" "starts_from C (b + int j) q" "j \<le> length (out b q xs)"
  shows "j \<le> length xs"
proof (cases q)
  case (Cons r q')
  then have "b + int j \<le> b + int (length xs)"
    using assms(1,2) within_le [of C "r_end C r" q' "b + int (length xs)"] by (simp add: starts_from_def)
  then show ?thesis by simp
qed (use assms(3) in simp)

text \<open>Dropping into the last of the collected replacements, or behind it.\<close>

lemma compose_rest:
  assumes "ys \<noteq> []" "oks (ys @ q)" "within C p (ys @ q) n" "n = p + int (length xs)"
    and front: "int (length (front p ys xs)) = edit_end C p ys + d' - (p + d)"
    and "starts_from C (e - d' + 1) q" "p + d \<le> e" "edit_end C p ys + d' \<le> e + int (length (cont (last ys)))"
    and "e \<le> p + d + int (length (out p (ys @ q) xs))"
  shows "\<exists>q3 d3. compose_suffix C (last ys) (r_end C (last ys) + d' - e) q d' = Ok (q3, d3) \<and> oks q3 \<and>
    within C (e - d3) q3 n \<and> edit_end C p ys \<le> e - d3 \<and>
    out (e - d3) q3 (drop (nat (e - d3 - p)) xs) = drop (nat (e - p - d)) (out p (ys @ q) xs)"
proof -
  define l where "l = last ys"
  have okl: "ok l" using assms(1,2) by (simp add: l_def)
  have endl: "edit_end C p ys = r_end C l"
    unfolding l_def using assms(1) by (induction ys arbitrary: p rule: list_nonempty_induct) auto
  have w: "within C p ys (r_end C l)" "within C (r_end C l) q n" using assms(3) by (simp_all add: within_append endl)
  have pl: "p \<le> r_end C l" "r_end C l \<le> n" using edit_end_le [OF w(1)] within_le [OF w(2)] endl by simp_all
  define tl where "tl = drop (nat (r_end C l - p)) xs"
  have whole: "out p (ys @ q) xs = front p ys xs @ out (r_end C l) q tl"
    using edit_out_front [OF assms(3)] endl by (simp add: tl_def)
  have tl: "n = r_end C l + int (length tl)" using assms(4) pl by (simp add: tl_def)
  obtain zs where zs: "front p ys xs = zs @ cont l" using front_last [OF assms(1)] by (auto simp: l_def)
  define k where "k = r_end C l + d' - e"
  have flen: "int (length (front p ys xs)) = r_end C l + d' - (p + d)" using front endl by simp
  show ?thesis
  proof (cases "k > 0")
    case True
    have k: "k \<le> int (length (cont l))" using assms(8) endl by (simp add: k_def l_def)
    define rg where "rg = mk_or (r_end C l) (r_end C l)"
    define m where "m = length (cont l) - nat k"
    define s where "s = rc_slice C l rg (mk_or (int m) (int (length (cont l))))"
    have s: "ok s" "rc_range C s = rg" "cont s = drop m (cont l)"
      using slice_ok [OF okl, of rg m "length (cont l)"] by (simp_all add: s_def rg_def m_def)
    have m: "int m = int (length (cont l)) - k" using k True by (simp add: m_def)
    have slen: "rc_newLength C s - OffsetRange_length (rc_range C s) = k"
      using newLength [OF s(1)] s m k True by (simp add: rg_def OffsetRange_length_def)
    have suf: "compose_suffix C l k q d' = Ok (s # q, d' - k)"
      using True k newLength [OF okl] slen m
      by (simp add: compose_suffix_def OffsetRange_ofStartAndLength_def new_OffsetRange_def s_def rg_def Let_def)
    have e: "e - (d' - k) = r_end C l" by (simp add: k_def)
    have "drop (nat (e - p - d)) (out p (ys @ q) xs) = drop m (cont l) @ out (r_end C l) q tl"
    proof -
      have "int (length zs) + int m = e - p - d" using flen m by (simp add: zs k_def)
      then have "nat (e - p - d) = length zs + m" by linarith
      then show ?thesis using m k True by (simp add: whole zs)
    qed
    moreover have "out (r_end C l) (s # q) tl = drop m (cont l) @ out (r_end C l) q tl"
      using s by (simp add: rg_def)
    ultimately show ?thesis
      using suf e s assms(2) w(2) pl by (simp add: tl_def rg_def endl flip: k_def l_def)
  next
    case False
    then have suf: "compose_suffix C l k q d' = Ok (q, d')" by (simp add: compose_suffix_def)
    define j where "j = nat (e - d' - r_end C l)"
    have j: "int j = e - d' - r_end C l" using False by (simp add: j_def k_def)
    have sf: "starts_from C (r_end C l + int j) q" using assms(6) j by (cases q) (auto simp: starts_from_def)
    have "j \<le> length (out (r_end C l) q tl)" using assms(9) flen j by (simp add: whole)
    then have jlen: "j \<le> length tl" "r_end C l + int j \<le> n" using skip_bound [OF _ sf] w(2) tl by auto
    have "drop (nat (e - p - d)) (out p (ys @ q) xs) = drop j (out (r_end C l) q tl)"
    proof -
      have "int (length (front p ys xs)) + int j = e - p - d" using flen j by simp
      then have "nat (e - p - d) = length (front p ys xs) + j" by linarith
      then show ?thesis by (simp add: whole)
    qed
    also have "\<dots> = out (r_end C l + int j) q (drop j tl)"
      by (rule edit_out_take(2) [OF w(2) sf]) (use jlen in simp)
    finally have drop: "drop (nat (e - p - d)) (out p (ys @ q) xs) = out (r_end C l + int j) q (drop j tl)" .
    have le: "r_end C l \<le> e - d'" "r_end C l + int j = e - d'" using False j by (simp_all add: k_def)
    have "nat (e - d' - p) = j + nat (r_end C l - p)" using le pl by linarith
    then have "drop j tl = drop (nat (e - d' - p)) xs" by (simp add: tl_def)
    moreover have "within C (e - d') q n" using within_weaken [OF w(2) sf jlen(2)] le(2) by simp
    ultimately show ?thesis
      using suf assms(2) drop le by (intro exI [of _ q] exI [of _ d']) (simp add: endl flip: k_def l_def)
  qed
qed

lemma delta_ok:
  assumes "ok r"
  shows "\<exists>x. BaseReplacement_delta C r k = Ok x \<and> ok x \<and> rc_range C x = mk_or (r_start C r + k) (r_end C r + k) \<and> cont x = cont r"
  using whole_slice [OF assms, of "mk_or (r_start C r + k) (r_end C r + k)"] range_ok [OF assms] newLength [OF assms]
  by (simp add: BaseReplacement_delta_def OffsetRange_delta_def new_OffsetRange_def)

lemma prefix_ok:
  assumes "ok f" "k \<le> int (length (cont f))"
  shows "\<exists>pre. compose_prefix C f b k = Ok pre \<and> oks pre \<and>
    (if k > 0 then \<exists>x. pre = [x] \<and> rc_range C x = mk_or b b \<and> cont x = take (nat k) (cont f) else pre = [])"
proof (cases "k > 0")
  case True
  then show ?thesis
    using slice_ok [OF assms(1), of "mk_or b b" 0 "nat k"] assms(2)
    by (simp add: compose_prefix_def OffsetRange_emptyAt_def new_OffsetRange_def)
qed (simp add: compose_prefix_def)

lemma compose_step_spec:
  assumes "oks q" "ok r2" "within C p q n" "n = p + int (length xs)"
    and s: "p + d \<le> r_start C r2" and e: "r_end C r2 \<le> p + d + int (length (out p q xs))"
  shows "\<exists>q' d' new. compose_step C r2 q d res = Ok (q', d', res @ new) \<and> oks q' \<and> oks new \<and>
    within C p new (r_end C r2 - d') \<and> edit_end C p new = r_end C r2 - d' \<and> within C (r_end C r2 - d') q' n \<and>
    front p new xs = take (nat (r_start C r2 - p - d)) (out p q xs) @ cont r2 \<and>
    out (r_end C r2 - d') q' (drop (nat (r_end C r2 - d' - p)) xs) = drop (nat (r_end C r2 - p - d)) (out p q xs)"
proof -
  obtain q1 d1 res1 where copy: "compose_copy C r2 q d res = (q1, d1, res1)" by (metis prod_cases3)
  obtain ys where ys: "res1 = res @ ys" "q = ys @ q1" "edit_end C p ys + d1 \<le> r_start C r2"
      "int (length (front p ys xs)) = edit_end C p ys + d1 - (p + d)"
      "case q1 of [] \<Rightarrow> True | r # _ \<Rightarrow> r_start C r2 \<le> r_start C r + d1 + int (length (cont r))"
    using compose_copy_spec [OF copy assms(1,3,4) s] by blast
  define p1 where "p1 = edit_end C p ys"
  define xs1 where "xs1 = drop (nat (p1 - p)) xs"
  have w: "within C p ys p1" "within C p1 q1 n"
    using assms(3) ys(2) within_append unfolding p1_def by fastforce+
  have p1: "p \<le> p1" "p1 \<le> n" using edit_end_le [OF w(1)] within_le [OF w(2)] by (simp_all add: p1_def)
  have n1: "n = p1 + int (length xs1)" using assms(4) p1 by (simp add: xs1_def)
  have whole: "out p q xs = front p ys xs @ out p1 q1 xs1"
    using edit_out_front [of C p ys q1 n cont xs] assms(3) ys(2) by (simp add: p1_def xs1_def)
  have flen: "int (length (front p ys xs)) = p1 + d1 - p - d" using ys(4) by (simp add: p1_def)
  have e1: "r_end C r2 \<le> p1 + d1 + int (length (out p1 q1 xs1))" using e flen by (simp add: whole)
  have se: "r_start C r2 \<le> r_end C r2" by (rule range_ok [OF assms(2)])
  have s1: "p1 + d1 \<le> r_start C r2" using ys(3) by (simp add: p1_def)
  have split: "take (nat (x - p - d)) (out p q xs) = front p ys xs @ take (nat (x - p1 - d1)) (out p1 q1 xs1)"
      "drop (nat (x - p - d)) (out p q xs) = drop (nat (x - p1 - d1)) (out p1 q1 xs1)" if "p1 + d1 \<le> x" for x
  proof -
    have "int (nat (x - p - d)) = int (length (front p ys xs) + nat (x - p1 - d1))" using flen that by simp
    then have "nat (x - p - d) = length (front p ys xs) + nat (x - p1 - d1)" by linarith
    then show "take (nat (x - p - d)) (out p q xs) = front p ys xs @ take (nat (x - p1 - d1)) (out p1 q1 xs1)"
      "drop (nat (x - p - d)) (out p q xs) = drop (nat (x - p1 - d1)) (out p1 q1 xs1)"
      by (simp_all add: whole)
  qed
  have front: "front p (ys @ zs) xs = front p ys xs @ front p1 zs xs1" for zs
    using edit_front_append [OF w(1)] by (simp add: p1_def xs1_def)
  have within_new: "within C p (ys @ zs) m \<longleftrightarrow> within C p1 zs m" "edit_end C p (ys @ zs) = edit_end C p1 zs" for zs m
    using w(1) by (simp_all add: within_append p1_def)
  have drop1: "drop (nat (x - p)) xs = drop (nat (x - p1)) xs1" if "p1 \<le> x" for x
  proof -
    have "nat (x - p) = nat (x - p1) + nat (p1 - p)" using that p1 by linarith
    then show ?thesis by (simp add: xs1_def)
  qed
  obtain q2 d2 f l where gather: "compose_gather C r2 q1 d1 None None = (q2, d2, f, l)" by (metis prod_cases4)
  obtain zs where zs: "q1 = zs @ q2" "int (length (edit_front C cont p1 zs xs1)) = edit_end C p1 zs + d2 - (p1 + d1)"
      "starts_from C (r_end C r2 - d2 + 1) q2" "f = (case zs of [] \<Rightarrow> None | y # _ \<Rightarrow> Some y)"
      "l = (if zs = [] then None else Some (last zs))"
      "zs \<noteq> [] \<longrightarrow> edit_end C p1 zs + d2 \<le> r_end C r2 + int (length (cont (last zs)))"
    using compose_gather_spec [OF gather _ w(2) n1] assms(1) ys(2) by auto
  show ?thesis
  proof (cases zs)
    case Nil
    then have d2: "d2 = d1" "q2 = q1" "f = None" using zs by simp_all
    obtain r where r: "BaseReplacement_delta C r2 (- d1) = Ok r" "ok r"
        "rc_range C r = mk_or (r_start C r2 - d1) (r_end C r2 - d1)" "cont r = cont r2"
      using delta_ok [OF assms(2), of "- d1"] by auto
    define k where "k = nat (r_start C r2 - d1 - p1)"
    define j where "j = nat (r_end C r2 - d1 - p1)"
    have kj: "p1 + int k = r_start C r2 - d1" "p1 + int j = r_end C r2 - d1" using s1 se by (simp_all add: k_def j_def)
    have sf: "starts_from C (p1 + int j) q1" "starts_from C (p1 + int k) q1"
      using zs(3) d2 kj se by (auto simp: starts_from_def split: list.splits)
    have "j \<le> length (out p1 q1 xs1)" using e1 kj by linarith
    then have j: "j \<le> length xs1" using skip_bound [of p1 q1 xs1 j] w(2) n1 sf(1) by simp
    have k: "k \<le> length xs1" using j kj se by linarith
    have step: "compose_step C r2 q d res = Ok (q1, d1, res @ ys @ [r])"
      using copy gather d2 r(1) ys(1) by (simp add: compose_step_def)
    have wq: "within C (r_end C r2 - d1) q1 n"
      using within_weaken [OF w(2), of "r_end C r2 - d1"] sf(1) kj j n1 by simp
    have tk: "take k (out p1 q1 xs1) = take k xs1" "drop j (out p1 q1 xs1) = out (p1 + int j) q1 (drop j xs1)"
      using edit_out_take(1) [OF w(2) sf(2) k] edit_out_take(2) [OF w(2) sf(1) j] by simp_all
    show ?thesis
      by (rule exI [of _ q1], rule exI [of _ d1], rule exI [of _ "ys @ [r]"])
        (use step wq tk r s1 se split [OF s1] split [of "r_end C r2"] front [of "[r]"] within_new [of "[r]"]
           drop1 [of "r_end C r2 - d1"] assms(1) ys(2) kj in \<open>simp add: k_def j_def diff_diff_eq add.commute\<close>)
  next
    case (Cons y zs')
    then have zne: "zs \<noteq> []" and f: "f = Some y" "l = Some (last zs)" using zs(4,5) by simp_all
    have y: "ok y" "p1 \<le> r_start C y" "r_start C y \<le> r_end C y"
      using assms(1) ys(2) zs(1) Cons w(2) by auto
    obtain q3 d3 where rest: "compose_suffix C (last zs) (r_end C (last zs) + d2 - r_end C r2) q2 d2 = Ok (q3, d3)"
        "oks q3" "within C (r_end C r2 - d3) q3 n" "edit_end C p1 zs \<le> r_end C r2 - d3"
        "out (r_end C r2 - d3) q3 (drop (nat (r_end C r2 - d3 - p1)) xs1) =
           drop (nat (r_end C r2 - p1 - d1)) (out p1 q1 xs1)"
      using compose_rest [OF zne, of q2 p1 n xs1 d2 d1 "r_end C r2"] zs(1,2,3,6) zne w(2) n1 assms(1) ys(2) s1 se e1
      by auto
    define newStart where "newStart = min (r_start C y) (r_start C r2 - d1)"
    define k where "k = r_start C r2 - (r_start C y + d1)"
    have kle: "k \<le> int (length (cont y))" using ys(5) zs(1) Cons by (simp add: k_def)
    from prefix_ok [OF y(1) this, of newStart]
    obtain pre where pre: "compose_prefix C y newStart k = Ok pre" "oks pre"
        "if k > 0 then \<exists>x. pre = [x] \<and> rc_range C x = mk_or newStart newStart \<and> cont x = take (nat k) (cont y) else pre = []"
      by blast
    have "edit_end C (r_end C y) zs' \<ge> r_end C y"
      using edit_end_le [of C "r_end C y" zs'] w(2) zs(1) Cons within_end by (fastforce simp: within_append)
    then have ne: "newStart \<le> r_end C r2 - d3" "p1 \<le> newStart"
      using rest(4) y s1 Cons by (simp_all add: newStart_def)
    define mid where "mid = rc_slice C r2 (mk_or newStart (r_end C r2 - d3)) (mk_or 0 (rc_newLength C r2))"
    have mid: "ok mid" "rc_range C mid = mk_or newStart (r_end C r2 - d3)" "cont mid = cont r2"
      using whole_slice [OF assms(2), of "mk_or newStart (r_end C r2 - d3)"] ne by (simp_all add: mid_def)
    have step: "compose_step C r2 q d res = Ok (q3, d3, res @ ys @ pre @ [mid])"
      using copy gather f pre(1) rest(1) ys(1) ne(1) newLength [OF assms(2)]
      by (simp add: compose_step_def new_OffsetRange_def mid_def Let_def flip: newStart_def k_def)
    have new: "within C p1 (pre @ [mid]) (r_end C r2 - d3)" "edit_end C p1 (pre @ [mid]) = r_end C r2 - d3"
      "front p1 (pre @ [mid]) xs1 = take (nat (r_start C r2 - p1 - d1)) (out p1 q1 xs1) @ cont r2"
    proof -
      show "within C p1 (pre @ [mid]) (r_end C r2 - d3)" "edit_end C p1 (pre @ [mid]) = r_end C r2 - d3"
        using pre(3) mid ne by (auto split: if_splits)
      have yn: "r_end C y \<le> n" using w(2) zs(1) Cons within_le [of C "r_end C y"] by auto
      show "front p1 (pre @ [mid]) xs1 = take (nat (r_start C r2 - p1 - d1)) (out p1 q1 xs1) @ cont r2"
      proof (cases "k > 0")
        case True
        then have ns: "newStart = r_start C y" "nat (r_start C r2 - p1 - d1) = nat (newStart - p1) + nat k"
          using y(2) by (simp_all add: newStart_def k_def)
        have "length (take (nat (newStart - p1)) xs1) = nat (newStart - p1)" using ns y n1 yn by simp
        then show ?thesis
          using True pre(3) mid zs(1) Cons ns kle by (auto simp: k_def)
      next
        case False
        define i where "i = nat (r_start C r2 - p1 - d1)"
        have ns: "newStart = r_start C r2 - d1" "int i = newStart - p1" using False s1 by (simp_all add: newStart_def k_def i_def)
        have "starts_from C (p1 + int i) q1" "i \<le> length xs1"
          using ns False zs(1) Cons y n1 yn by (simp_all add: starts_from_def k_def)
        then have "take i (out p1 q1 xs1) = take i xs1" by (rule edit_out_take(1) [OF w(2)])
        moreover have "nat (newStart - p1) = i" using ns(2) by simp
        ultimately show ?thesis using False pre(3) mid by (simp flip: i_def)
      qed
    qed
    have oks_new: "\<forall>x \<in> set ys \<union> set pre. ok x" using assms(1) ys(2) pre(2) by auto
    show ?thesis
      by (rule exI [of _ q3], rule exI [of _ d3], rule exI [of _ "ys @ pre @ [mid]"])
        (use step new rest mid oks_new split [OF s1] split(2) [of "r_end C r2"] s1 se front [of "pre @ [mid]"]
           within_new [of "pre @ [mid]"] drop1 [of "r_end C r2 - d3"] assms(1) ys(2) ne in simp)
  qed
qed

section \<open>The composition\<close>

lemma compose_loop_spec:
  "oks rs \<Longrightarrow> oks q \<Longrightarrow> within C p q n \<Longrightarrow> n = p + int (length xs) \<Longrightarrow>
    within C (p + d) rs (p + d + int (length (out p q xs))) \<Longrightarrow>
    \<exists>new. compose_loop C rs q d res = Ok (res @ new) \<and> oks new \<and> within C p new n \<and>
      out p new xs = out (p + d) rs (out p q xs)"
proof (induction rs arbitrary: q p xs d res)
  case (Cons r2 rs)
  define e where "e = r_end C r2"
  have r2: "ok r2" "p + d \<le> r_start C r2" "r_start C r2 \<le> e" "within C e rs (p + d + int (length (out p q xs)))"
    using Cons.prems by (simp_all add: e_def)
  then have e: "e \<le> p + d + int (length (out p q xs))" using within_le by blast
  obtain q' d' new where step: "compose_step C r2 q d res = Ok (q', d', res @ new)" "oks q'" "oks new"
      "within C p new (e - d')" "edit_end C p new = e - d'" "within C (e - d') q' n"
      "front p new xs = take (nat (r_start C r2 - p - d)) (out p q xs) @ cont r2"
      "out (e - d') q' (drop (nat (e - d' - p)) xs) = drop (nat (e - p - d)) (out p q xs)"
    using compose_step_spec [of q r2 p n xs d res] Cons.prems r2 e unfolding e_def by blast
  have p': "p \<le> e - d'" "e - d' \<le> n" using edit_end_le [OF step(4)] step(5) within_le [OF step(6)] by simp_all
  define xs' where "xs' = drop (nat (e - d' - p)) xs"
  have "within C (e - d' + d') rs (e - d' + d' + int (length (out (e - d') q' xs')))"
    using r2 e step(8) by (simp add: xs'_def) (simp add: add.commute)
  then obtain new' where rest: "compose_loop C rs q' d' (res @ new) = Ok ((res @ new) @ new')" "oks new'"
      "within C (e - d') new' n" "out (e - d') new' xs' = out e rs (out (e - d') q' xs')"
    using Cons.IH [of q' "e - d'" xs' d' "res @ new"] Cons.prems(1) step(2,6) Cons.prems(4) p' by (auto simp: xs'_def)
  have w: "within C p (new @ new') n" using step(4,5) rest(3) by (simp add: within_append)
  have "out p (new @ new') xs = front p new xs @ out (e - d') new' xs'"
    using edit_out_front [OF w] step(5) by (simp add: xs'_def)
  also have "\<dots> = out (p + d) (r2 # rs) (out p q xs)"
    using step(7,8) rest(4) by (simp add: xs'_def e_def diff_diff_eq)
  finally show ?case using step(1,3) rest(1,2) w by (intro exI [of _ "new @ new'"]) auto
qed auto

lemma compose_spec:
  assumes "oks e1" "oks e2" "within C 0 e1 (int (length xs))" "within C 0 e2 (int (length (out 0 e1 xs)))"
  shows "\<exists>e. Edit_compose C e1 e2 = Ok e \<and> oks e \<and> within C 0 e (int (length xs)) \<and> out 0 e xs = out 0 e2 (out 0 e1 xs)"
proof -
  obtain n1 where n1: "Edit_normalize C e1 = Ok n1" "oks n1" "within C 0 n1 (int (length xs))" "out 0 n1 xs = out 0 e1 xs"
    using normalize_spec [OF assms(1,3)] by auto
  obtain n2 where n2: "Edit_normalize C e2 = Ok n2" "oks n2" "within C 0 n2 (int (length (out 0 e1 xs)))"
      "out 0 n2 (out 0 e1 xs) = out 0 e2 (out 0 e1 xs)"
    using normalize_spec [OF assms(2,4)] by auto
  obtain new where new: "compose_loop C n2 n1 0 [] = Ok new" "oks new" "within C 0 new (int (length xs))"
      "out 0 new xs = out 0 n2 (out 0 n1 xs)"
    using compose_loop_spec [OF n2(2) n1(2,3), of xs 0 "[]"] n1(4) n2(3) by auto
  have "new_Edit C new = Ok new" using within_sorted [OF new(3), of "-1"] by (simp add: new_Edit_def)
  moreover obtain e where "Edit_normalize C new = Ok e" "oks e" "within C 0 e (int (length xs))" "out 0 e xs = out 0 new xs"
    using normalize_spec [OF new(2,3)] by auto
  ultimately have long: "\<exists>e. bind_result (compose_loop C n2 n1 0 []) (\<lambda>out. bind_result (new_Edit C out) (Edit_normalize C)) = Ok e \<and>
      oks e \<and> within C 0 e (int (length xs)) \<and> out 0 e xs = out 0 n2 (out 0 n1 xs)"
    using new by auto
  have "out 0 n2 (out 0 n1 xs) = out 0 e2 (out 0 e1 xs)" using n1(4) n2(4) by simp
  moreover have "n1 = [] \<Longrightarrow> out 0 n1 xs = xs" by simp
  moreover have "n2 = [] \<Longrightarrow> out 0 n2 ys = ys" for ys by simp
  ultimately show ?thesis
    unfolding Edit_compose_def Edit_isEmpty_def n1(1) n2(1) bind_result.simps length_0_conv
    using long n1(2-4) n2(2,3) by metis
qed

end

end
