(* ===== verification/EditOffsets.thy ===== *)
theory EditOffsets
  imports EditProofs
begin

text \<open>
  How offsets move through an edit, for every class of replacements that keeps the contract: forward,
  backward, and the ranges of the new text; and one step of an edit on the result of another edit.
\<close>

section \<open>Offsets\<close>

context replacement
begin

lemma delta_of:
  "ok r \<Longrightarrow> rc_newLength C r - OffsetRange_length (rc_range C r) = int (length (cont r)) - (r_end C r - r_start C r)"
  by (simp add: newLength OffsetRange_length_def)

lemma offset_lower:
  "oks e \<Longrightarrow> within C p e n \<Longrightarrow> p \<le> off \<Longrightarrow> p + d \<le> applyToOffset_loop C e off d"
proof (induction e arbitrary: p d)
  case (Cons r e)
  define d' where "d' = d + (int (length (cont r)) - (r_end C r - r_start C r))"
  have "applyToOffset_loop C e off d' \<ge> r_end C r + d'" if "r_end C r \<le> off"
    using Cons.IH [of "r_end C r" d'] Cons.prems that by simp
  then show ?case using Cons.prems by (auto simp: delta_of d'_def)
qed simp

lemma offset_mono:
  "oks e \<Longrightarrow> within C p e n \<Longrightarrow> a \<le> b \<Longrightarrow> applyToOffset_loop C e a d \<le> applyToOffset_loop C e b d"
proof (induction e arbitrary: p d)
  case (Cons r e)
  define d' where "d' = d + (int (length (cont r)) - (r_end C r - r_start C r))"
  have "r_end C r + d' \<le> applyToOffset_loop C e b d'" if "r_end C r \<le> b"
    using offset_lower [of e "r_end C r" n b d'] Cons.prems that by simp
  then show ?case using Cons.IH [of "r_end C r" d'] Cons.prems by (auto simp: delta_of d'_def)
qed simp

lemma within_mem_start: "within C q rs n \<Longrightarrow> r \<in> set rs \<Longrightarrow> q \<le> r_start C r"
  by (induction rs arbitrary: q) fastforce+

lemma offset_None:
  "within C p e n \<Longrightarrow>
    applyToOffsetOrUndefined_loop C e off d = None \<longleftrightarrow> (\<exists>r \<in> set e. r_start C r \<le> off \<and> off < r_end C r)"
proof (induction e arbitrary: p d)
  case (Cons r e)
  then have w: "within C (r_end C r) e n" "r_start C r \<le> r_end C r" by simp_all
  consider "off < r_start C r" | "r_start C r \<le> off" "off < r_end C r" | "r_start C r \<le> off" "r_end C r \<le> off"
    by linarith
  then show ?case
  proof cases
    case 1
    then have "\<not> r_start C r' \<le> off" if "r' \<in> set e" for r' using within_mem_start [OF w(1) that] w(2) by simp
    then show ?thesis using 1 by auto
  next
    case 3
    then show ?thesis using Cons.IH [OF w(1)] by simp
  qed simp
qed simp

lemma offset_Some:
  "oks e \<Longrightarrow> within C p e n \<Longrightarrow> n = p + int (length xs) \<Longrightarrow> p \<le> off \<Longrightarrow>
    applyToOffsetOrUndefined_loop C e off d = Some off' \<Longrightarrow>
    p + d \<le> off' \<and> applyToOffset_loop C e off d = off' \<and> applyInverseToOffset_loop C e off' d = off \<and>
    (off < n \<longrightarrow> out p e xs ! nat (off' - d - p) = xs ! nat (off - p))"
proof (induction e arbitrary: p d xs)
  case (Cons r e)
  define d' where "d' = d + (int (length (cont r)) - (r_end C r - r_start C r))"
  have r: "ok r" and le: "p \<le> r_start C r" "r_start C r \<le> r_end C r" "within C (r_end C r) e n"
    using Cons.prems by simp_all
  define ys where "ys = drop (nat (r_end C r - p)) xs"
  define A where "A = take (nat (r_start C r - p)) xs @ cont r"
  have "r_end C r \<le> n" using within_le [OF le(3)] .
  then have n: "n = r_end C r + int (length ys)" and lA: "int (length A) = r_end C r + d' - (p + d)"
    using le Cons.prems(3) by (simp_all add: ys_def A_def d'_def)
  have out: "out p (r # e) xs = A @ out (r_end C r) e ys" by (simp add: A_def ys_def)
  show ?case
  proof (cases "r_start C r \<le> off")
    case True
    then have rec: "r_end C r \<le> off" "applyToOffsetOrUndefined_loop C e off d' = Some off'"
      using Cons.prems(5) by (auto simp: delta_of [OF r] d'_def split: if_splits)
    note IH = Cons.IH [OF _ le(3) n rec]
    then have lower: "r_end C r + d' \<le> off'" using Cons.prems(1) by simp
    have "nat (off' - d - p) = length A + nat (off' - d' - r_end C r)" using lA lower by linarith
    moreover have "ys ! nat (off - r_end C r) = xs ! nat (off - p)" if "off < n"
    proof -
      have "nat (off - p) = nat (r_end C r - p) + nat (off - r_end C r)" using rec(1) le by linarith
      then show ?thesis using that n Cons.prems(3) rec(1) le by (simp add: ys_def)
    qed
    ultimately show ?thesis
      using IH Cons.prems(1) True rec(1) lower le lA newLength [OF r] unfolding out
      by (auto simp: OffsetRange_length_def nth_append d'_def)
  next
    case False
    then show ?thesis using Cons.prems le by (auto simp: nth_append)
  qed
qed auto

section \<open>The ranges of the new text\<close>

lemma new_ranges_spec:
  "oks e \<Longrightarrow> within C p e n \<Longrightarrow> n = p + int (length xs) \<Longrightarrow>
    \<exists>rgs. getNewRanges_loop C e d = Ok rgs \<and> length rgs = length e \<and>
      (\<forall>i < length e. p + d \<le> or_start (rgs ! i) \<and> or_endExclusive (rgs ! i) = or_start (rgs ! i) + int (length (cont (e ! i))) \<and>
        take (length (cont (e ! i))) (drop (nat (or_start (rgs ! i) - d - p)) (out p e xs)) = cont (e ! i))"
proof (induction e arbitrary: p d xs)
  case (Cons r e)
  define d' where "d' = d + (int (length (cont r)) - (r_end C r - r_start C r))"
  have r: "ok r" and le: "p \<le> r_start C r" "r_start C r \<le> r_end C r" "within C (r_end C r) e n"
    using Cons.prems by simp_all
  define ys where "ys = drop (nat (r_end C r - p)) xs"
  define A where "A = take (nat (r_start C r - p)) xs @ cont r"
  have "r_end C r \<le> n" using within_le [OF le(3)] .
  then have n: "n = r_end C r + int (length ys)" and lA: "int (length A) = r_end C r + d' - (p + d)"
    and ltake: "length (take (nat (r_start C r - p)) xs) = nat (r_start C r - p)"
    using le Cons.prems(3) by (simp_all add: ys_def A_def d'_def)
  have out: "out p (r # e) xs = A @ out (r_end C r) e ys" by (simp add: A_def ys_def)
  obtain rgs where IH: "getNewRanges_loop C e d' = Ok rgs" "length rgs = length e"
      "\<And>i. i < length e \<Longrightarrow> r_end C r + d' \<le> or_start (rgs ! i) \<and>
        or_endExclusive (rgs ! i) = or_start (rgs ! i) + int (length (cont (e ! i))) \<and>
        take (length (cont (e ! i))) (drop (nat (or_start (rgs ! i) - d' - r_end C r)) (out (r_end C r) e ys)) = cont (e ! i)"
    using Cons.IH [OF _ le(3) n, of d'] Cons.prems(1) by auto
  define rg where "rg = mk_or (r_start C r + d) (r_start C r + d + int (length (cont r)))"
  have "getNewRanges_loop C (r # e) d = Ok (rg # rgs)"
    using IH(1)
    by (simp add: OffsetRange_length_def OffsetRange_ofStartAndLength_def new_OffsetRange_def BaseReplacement_getLengthDelta_def d'_def
        newLength [OF r] rg_def)
  moreover have "p + d \<le> or_start ((rg # rgs) ! i) \<and>
      or_endExclusive ((rg # rgs) ! i) = or_start ((rg # rgs) ! i) + int (length (cont ((r # e) ! i))) \<and>
      take (length (cont ((r # e) ! i))) (drop (nat (or_start ((rg # rgs) ! i) - d - p)) (out p (r # e) xs)) = cont ((r # e) ! i)"
    if "i < length (r # e)" for i
  proof (cases i)
    case 0
    then show ?thesis using le ltake unfolding out by (simp add: rg_def A_def)
  next
    case (Suc j)
    note j = IH(3) [of j]
    have "nat (or_start (rgs ! j) - d - p) = length A + nat (or_start (rgs ! j) - d' - r_end C r)"
      using lA conjunct1 [OF j] that Suc by simp
    then show ?thesis using j that Suc lA unfolding out by simp
  qed
  ultimately show ?case using IH(2) by (metis length_Cons)
qed simp

end

section \<open>One edit on the result of another\<close>

text \<open>
  One step of an edit on the result of another edit: the replacement at the head comes before every
  replacement of the other edit, or the other edit's head comes first.  Splitting an edit in two.
\<close>

lemma within_lower: "within C b rs n \<Longrightarrow> a \<le> b \<Longrightarrow> within C a rs n"
  by (cases rs) auto

lemma within_starts: "within C b rs n \<Longrightarrow> starts_from C b rs"
  by (cases rs) (auto simp: starts_from_def)

lemma within_filter: "within C b rs n \<Longrightarrow> within C b (filter P rs) n"
proof (induction rs arbitrary: b)
  case (Cons r rs)
  then show ?case using within_lower [of C "r_end C r" "filter P rs" n b] by fastforce
qed simp

context replacement
begin

lemma out_take:
  assumes "within C b rs n" "starts_from C k rs" "b \<le> k" "k \<le> b + int (length xs)"
  shows "take (nat (k - b)) (out b rs xs) = take (nat (k - b)) xs"
    and "drop (nat (k - b)) (out b rs xs) = out k rs (drop (nat (k - b)) xs)"
    and "b + int (length (out b rs xs)) = k + int (length (out k rs (drop (nat (k - b)) xs)))"
proof -
  show t: "take (nat (k - b)) (out b rs xs) = take (nat (k - b)) xs"
    and d: "drop (nat (k - b)) (out b rs xs) = out k rs (drop (nat (k - b)) xs)"
    using edit_out_take [OF assms(1), of "nat (k - b)" xs cont] assms by simp_all
  have "nat (k - b) \<le> length (out b rs xs)"
    using arg_cong [OF t, of length] assms(3,4) by simp
  then show "b + int (length (out b rs xs)) = k + int (length (out k rs (drop (nat (k - b)) xs)))"
    using assms(3) by (simp flip: d)
qed

lemma step_before:
  assumes "within C p bs n" "n = p + int (length xs)" "p \<le> st" "st \<le> en" "en \<le> n" "starts_from C en bs"
    and r': "r_start C r' = st + off" "r_end C r' = en + off"
    and rest: "within C (en + off) rs' (en + off + int (length (out en bs (drop (nat (en - p)) xs))))"
  shows "within C (p + off) (r' # rs') (p + off + int (length (out p bs xs)))"
    and "out (p + off) (r' # rs') (out p bs xs) =
      take (nat (st - p)) xs @ cont r' @ out (en + off) rs' (out en bs (drop (nat (en - p)) xs))"
proof -
  have "starts_from C st bs" using assms(4,6) by (cases bs) (simp_all add: starts_from_def)
  note t = out_take(1) [OF assms(1) this assms(3), of xs]
  note d = out_take(2,3) [OF assms(1,6), of xs]
  have bounds: "p \<le> en" "st \<le> p + int (length xs)" "en \<le> p + int (length xs)" using assms(2-5) by simp_all
  have len: "p + off + int (length (out p bs xs)) = en + off + int (length (out en bs (drop (nat (en - p)) xs)))"
    using d(2) [OF bounds(1,3)] by simp
  show "within C (p + off) (r' # rs') (p + off + int (length (out p bs xs)))"
    unfolding len using rest r' assms(3,4) by simp
  show "out (p + off) (r' # rs') (out p bs xs) =
      take (nat (st - p)) xs @ cont r' @ out (en + off) rs' (out en bs (drop (nat (en - p)) xs))"
    using t [OF bounds(2)] d(1) [OF bounds(1,3)] r' by simp
qed

lemma step_after:
  assumes "n = p + int (length xs)" "p \<le> r_start C b" "r_start C b \<le> r_end C b" "r_end C b \<le> n"
    and off': "off' = off + (int (length (cont b)) - (r_end C b - r_start C b))"
    and rest: "within C (r_end C b + off') rs'
      (r_end C b + off' + int (length (out (r_end C b) bs (drop (nat (r_end C b - p)) xs))))"
  shows "within C (p + off) rs' (p + off + int (length (out p (b # bs) xs)))"
    and "out (p + off) rs' (out p (b # bs) xs) =
      take (nat (r_start C b - p)) xs @ cont b @
      out (r_end C b + off') rs' (out (r_end C b) bs (drop (nat (r_end C b - p)) xs))"
proof -
  define A where "A = take (nat (r_start C b - p)) xs @ cont b"
  define B where "B = out (r_end C b) bs (drop (nat (r_end C b - p)) xs)"
  have base: "out p (b # bs) xs = A @ B" by (simp add: A_def B_def)
  have A: "p + off + int (length A) = r_end C b + off'"
    using assms(1-4) by (simp add: A_def off')
  have len: "p + off + int (length (A @ B)) = r_end C b + off' + int (length B)" using A by simp
  have skip: "out (p + off) rs' (A @ B) = A @ out (r_end C b + off') rs' B"
    using edit_out_skip [of C "p + off" A rs' cont B] unfolding A
    using within_starts [OF rest] within_first [OF rest] by blast
  have "p + off \<le> r_end C b + off'" using A by linarith
  then show "within C (p + off) rs' (p + off + int (length (out p (b # bs) xs)))"
    unfolding base len using within_lower [OF rest] by (simp add: B_def)
  show "out (p + off) rs' (out p (b # bs) xs) =
      take (nat (r_start C b - p)) xs @ cont b @ out (r_end C b + off') rs' (out (r_end C b) bs (drop (nat (r_end C b - p)) xs))"
    using skip unfolding base by (simp only: A_def B_def append.assoc)
qed

section \<open>Splitting an edit\<close>

lemma decompose_loop_spec:
  "oks e \<Longrightarrow> within C p e n \<Longrightarrow> n = p + int (length xs) \<Longrightarrow>
    \<exists>e1 e2. decomposeSplit_loop C f e d = Ok (e1, e2) \<and> e1 = filter f e \<and> within C p e1 n \<and>
      within C (p + d) e2 (p + d + int (length (out p e1 xs))) \<and> out (p + d) e2 (out p e1 xs) = out p e xs"
proof (induction e arbitrary: p d xs)
  case (Cons r e)
  define st where "st = r_start C r"
  define en where "en = r_end C r"
  define ys where "ys = drop (nat (en - p)) xs"
  have r: "ok r" and le: "p \<le> st" "st \<le> en" "within C en e n" using Cons.prems by (simp_all add: st_def en_def)
  have "en \<le> n" using within_le [OF le(3)] .
  then have n: "n = en + int (length ys)" "en \<le> n" using le Cons.prems(3) by (simp_all add: ys_def)
  show ?case
  proof (cases "f r")
    case True
    define d' where "d' = d + (int (length (cont r)) - (en - st))"
    obtain e1 e2 where IH: "decomposeSplit_loop C f e d' = Ok (e1, e2)" "e1 = filter f e" "within C en e1 n"
        "within C (en + d') e2 (en + d' + int (length (out en e1 ys)))" "out (en + d') e2 (out en e1 ys) = out en e ys"
      using Cons.IH [OF _ le(3) n(1), of d'] Cons.prems(1) by auto
    have "within C (p + d) e2 (p + d + int (length (out p (r # e1) xs)))"
        "out (p + d) e2 (out p (r # e1) xs) = out p (r # e) xs"
      using step_after [of n p xs r d' d e2 e1] Cons.prems(3) le n(2) IH(4,5)
      by (simp_all add: d'_def st_def en_def ys_def)
    then show ?thesis
      using True IH(1-3) le newLength [OF r]
      by (simp add: d'_def OffsetRange_length_def st_def en_def del: edit_out.simps(2))
  next
    case False
    obtain e1 e2 where IH: "decomposeSplit_loop C f e d = Ok (e1, e2)" "e1 = filter f e" "within C en e1 n"
        "within C (en + d) e2 (en + d + int (length (out en e1 ys)))" "out (en + d) e2 (out en e1 ys) = out en e ys"
      using Cons.IH [OF _ le(3) n(1), of d] Cons.prems(1) by auto
    define r' where "r' = rc_slice C r (mk_or (st + d) (en + d)) (mk_or 0 (rc_newLength C r))"
    have r': "r_start C r' = st + d" "r_end C r' = en + d" "cont r' = cont r"
      using whole_slice [OF r, of "mk_or (st + d) (en + d)"] le(2) by (simp_all add: r'_def)
    have w1: "within C p e1 n" using within_lower [OF IH(3)] le by simp
    have "within C (p + d) (r' # e2) (p + d + int (length (out p e1 xs)))"
        "out (p + d) (r' # e2) (out p e1 xs) = out p (r # e) xs"
      using step_before [OF w1 Cons.prems(3) le(1,2) n(2) within_starts [OF IH(3)] r'(1,2), of e2] IH(4,5) r'(3)
      by (simp_all add: ys_def st_def en_def del: within.simps)
    moreover have "decomposeSplit_loop C f (r # e) d = Ok (e1, r' # e2)"
      using False IH(1) le(2) newLength [OF r]
      by (simp add: OffsetRange_delta_def new_OffsetRange_def r'_def st_def en_def)
    ultimately show ?thesis using False IH(2) w1 by auto
  qed
qed simp

lemma decompose_spec:
  assumes "oks e" "within C 0 e n" "n = int (length xs)"
  shows "\<exists>e1 e2. decomposeSplit C f e = Ok (e1, e2) \<and> e1 = filter f e \<and> within C 0 e1 n \<and>
    within C 0 e2 (int (length (out 0 e1 xs))) \<and> out 0 e2 (out 0 e1 xs) = out 0 e xs"
proof -
  obtain e1 e2 where "decomposeSplit_loop C f e 0 = Ok (e1, e2)" "e1 = filter f e" "within C 0 e1 n"
      "within C 0 e2 (int (length (out 0 e1 xs)))" "out 0 e2 (out 0 e1 xs) = out 0 e xs"
    using decompose_loop_spec [OF assms(1,2), of xs f 0] assms(3) by auto
  then show ?thesis
    using within_sorted [of C 0 e1 n "-1"] within_sorted [of C 0 e2 "int (length (out 0 e1 xs))" "-1"]
    by (simp add: decomposeSplit_def new_Edit_def)
qed

end

end
