(* ===== verification/JsStrings.thy ===== *)
theory JsStrings
  imports ArraysFind
begin

text \<open>
  Strings, and the functions of \<open>src/vs/base/common/strings.ts\<close> on prefixes, suffixes, comparison,
  blanks and code points.

  A string is the list of its UTF-16 code units.  \<open>charCodeAt\<close> outside the string is \<open>NaN\<close>, which
  is unequal to and not comparable with every number; it is \<open>None\<close> of \<open>js_get\<close> here.
\<close>

type_synonym js_string = "int list"

section \<open>String methods of the language\<close>

definition js_clamp :: "'a list \<Rightarrow> int \<Rightarrow> nat" where
  "js_clamp s i = nat (min (max i 0) (int (length s)))"

definition js_substring :: "'a list \<Rightarrow> int \<Rightarrow> int \<Rightarrow> 'a list" where
  "js_substring s a b =
     (let i = js_clamp s a; j = js_clamp s b in take (max i j - min i j) (drop (min i j) s))"

definition js_substring_from :: "'a list \<Rightarrow> int \<Rightarrow> 'a list" where
  "js_substring_from s a = drop (js_clamp s a) s"

definition js_startsWith :: "'a list \<Rightarrow> 'a list \<Rightarrow> nat \<Rightarrow> bool" where
  "js_startsWith s p i \<longleftrightarrow> i + length p \<le> length s \<and> take (length p) (drop i s) = p"

definition js_endsWith :: "'a list \<Rightarrow> 'a list \<Rightarrow> nat \<Rightarrow> bool" where
  "js_endsWith s p e \<longleftrightarrow> length p \<le> e \<and> e \<le> length s \<and> take (length p) (drop (e - length p) s) = p"

lemma js_clamp_nat [simp]: "i \<le> length s \<Longrightarrow> js_clamp s (int i) = i"
  by (simp add: js_clamp_def)

lemma js_substring_nat:
  "i \<le> j \<Longrightarrow> j \<le> length s \<Longrightarrow> js_substring s (int i) (int j) = take (j - i) (drop i s)"
  by (simp add: js_substring_def Let_def)

lemma js_substring_int:
  "0 \<le> i \<Longrightarrow> i \<le> j \<Longrightarrow> j \<le> int (length s) \<Longrightarrow> js_substring s i j = take (nat (j - i)) (drop (nat i) s)"
  using js_substring_nat [of "nat i" "nat j" s] by (simp add: nat_diff_distrib)

lemma js_substring_from_int: "0 \<le> i \<Longrightarrow> i \<le> int (length s) \<Longrightarrow> js_substring_from s i = drop (nat i) s"
  by (simp add: js_substring_from_def js_clamp_def)

section \<open>White space of the language, joining\<close>

definition is_js_space :: "int \<Rightarrow> bool" where
  "is_js_space c \<longleftrightarrow>
     c \<in> {9, 10, 11, 12, 13, 32, 160, 0x1680, 0x2028, 0x2029, 0x202F, 0x205F, 0x3000, 0xFEFF} \<or>
     0x2000 \<le> c \<and> c \<le> 0x200A"

definition js_trimStart :: "js_string \<Rightarrow> js_string" where
  "js_trimStart s = dropWhile is_js_space s"

definition js_trim :: "js_string \<Rightarrow> js_string" where
  "js_trim s = rev (dropWhile is_js_space (rev (dropWhile is_js_space s)))"

fun js_join :: "js_string \<Rightarrow> js_string list \<Rightarrow> js_string" where
  "js_join sep [] = []"
| "js_join sep [x] = x"
| "js_join sep (x # y # ys) = x @ sep @ js_join sep (y # ys)"

section \<open>Trimming\<close>

function ltrim_char :: "js_string \<Rightarrow> int \<Rightarrow> nat \<Rightarrow> nat" where
  "ltrim_char haystack ch offset =
     (if offset < length haystack \<and> haystack ! offset = ch then ltrim_char haystack ch (offset + 1) else offset)"
  by pat_completeness auto
termination by (relation "measure (\<lambda>(h, c, i). length h - i)") auto

declare ltrim_char.simps [simp del]

text \<open>The needle is not empty here.\<close>

function ltrim_needle :: "js_string \<Rightarrow> js_string \<Rightarrow> nat \<Rightarrow> nat" where
  "ltrim_needle haystack needle offset =
     (if needle \<noteq> [] \<and> js_startsWith haystack needle offset
      then ltrim_needle haystack needle (offset + length needle) else offset)"
  by pat_completeness auto
termination
proof (relation "measure (\<lambda>(h, n, i). Suc (length h) - i)", goal_cases)
  case (2 haystack needle offset)
  then have "length needle > 0" "offset + length needle \<le> length haystack" by (auto simp: js_startsWith_def)
  then have "Suc (length haystack) - (offset + length needle) < Suc (length haystack) - offset" by linarith
  then show ?case by simp
qed simp

declare ltrim_needle.simps [simp del]

definition ltrim :: "js_string \<Rightarrow> js_string \<Rightarrow> js_string" where
  "ltrim haystack needle =
     (if haystack = [] \<or> needle = [] then haystack
      else js_substring_from haystack
             (int (if length needle = 1 then ltrim_char haystack (needle ! 0) 0 else ltrim_needle haystack needle 0)))"

fun rtrim_char :: "js_string \<Rightarrow> int \<Rightarrow> nat \<Rightarrow> nat" where
  "rtrim_char haystack ch 0 = 0"
| "rtrim_char haystack ch (Suc e) = (if haystack ! e = ch then rtrim_char haystack ch e else Suc e)"

function rtrim_needle :: "js_string \<Rightarrow> js_string \<Rightarrow> nat \<Rightarrow> nat" where
  "rtrim_needle haystack needle offset =
     (if needle \<noteq> [] \<and> offset > 0 \<and> js_endsWith haystack needle offset
      then rtrim_needle haystack needle (offset - length needle) else offset)"
  by pat_completeness auto
termination
  by (relation "measure (\<lambda>(h, n, i). i)") (auto simp: js_endsWith_def)

declare rtrim_needle.simps [simp del]

definition rtrim :: "js_string \<Rightarrow> js_string \<Rightarrow> js_string" where
  "rtrim haystack needle =
     (if haystack = [] \<or> needle = [] then haystack
      else js_substring haystack 0
             (int (if length needle = 1 then rtrim_char haystack (needle ! 0) (length haystack)
                   else rtrim_needle haystack needle (length haystack))))"

definition trim :: "js_string \<Rightarrow> js_string \<Rightarrow> js_string" where
  "trim haystack needle = rtrim (ltrim haystack needle) needle"

section \<open>Blanks\<close>

definition is_blank :: "int \<Rightarrow> bool" where
  "is_blank c \<longleftrightarrow> c = 32 \<or> c = 9"

fun firstNonWhitespace_loop :: "js_string \<Rightarrow> nat \<Rightarrow> int" where
  "firstNonWhitespace_loop [] i = -1"
| "firstNonWhitespace_loop (c # cs) i = (if \<not> is_blank c then int i else firstNonWhitespace_loop cs (i + 1))"

definition firstNonWhitespaceIndex :: "js_string \<Rightarrow> int" where
  "firstNonWhitespaceIndex str = firstNonWhitespace_loop str 0"

text \<open>A position outside the string is no blank, because \<open>NaN\<close> is unequal to both.\<close>

definition blank_at :: "js_string \<Rightarrow> int \<Rightarrow> bool" where
  "blank_at str i = (case js_get str i of None \<Rightarrow> False | Some c \<Rightarrow> is_blank c)"

function leadingWhitespace_loop :: "js_string \<Rightarrow> int \<Rightarrow> int \<Rightarrow> int \<Rightarrow> js_string" where
  "leadingWhitespace_loop str st en i =
     (if i < en then
        if \<not> blank_at str i then js_substring str st i else leadingWhitespace_loop str st en (i + 1)
      else js_substring str st en)"
  by pat_completeness auto
termination by (relation "measure (\<lambda>(s, a, b, i). nat (b - i))") auto

declare leadingWhitespace_loop.simps [simp del]

definition getLeadingWhitespace :: "js_string \<Rightarrow> int \<Rightarrow> int \<Rightarrow> js_string" where
  "getLeadingWhitespace str st en = leadingWhitespace_loop str st en st"

fun lastNonWhitespace_loop :: "js_string \<Rightarrow> nat \<Rightarrow> int" where
  "lastNonWhitespace_loop str 0 = -1"
| "lastNonWhitespace_loop str (Suc i) =
     (if \<not> blank_at str (int i) then int i else lastNonWhitespace_loop str i)"

definition lastNonWhitespaceIndex :: "js_string \<Rightarrow> int \<Rightarrow> int" where
  "lastNonWhitespaceIndex str startIndex = lastNonWhitespace_loop str (nat (startIndex + 1))"

definition getIndentationLength :: "js_string \<Rightarrow> int" where
  "getIndentationLength str =
     (let idx = firstNonWhitespaceIndex str in if idx = -1 then int (length str) else idx)"

section \<open>Comparison\<close>

fun js_less :: "js_string \<Rightarrow> js_string \<Rightarrow> bool" where
  "js_less [] [] \<longleftrightarrow> False"
| "js_less [] (b # bs) \<longleftrightarrow> True"
| "js_less (a # as) [] \<longleftrightarrow> False"
| "js_less (a # as) (b # bs) \<longleftrightarrow> a < b \<or> a = b \<and> js_less as bs"

definition js_compare :: "js_string \<Rightarrow> js_string \<Rightarrow> int" where
  "js_compare a b = (if js_less a b then -1 else if js_less b a then 1 else 0)"

text \<open>The comparison of two code units that may be missing: \<open>NaN\<close> is neither less nor greater.\<close>

definition code_compare :: "int option \<Rightarrow> int option \<Rightarrow> int" where
  "code_compare x y =
     (case (x, y) of (Some a, Some b) \<Rightarrow> if a < b then -1 else if a > b then 1 else 0 | _ \<Rightarrow> 0)"

function compareSubstring :: "js_string \<Rightarrow> js_string \<Rightarrow> int \<Rightarrow> int \<Rightarrow> int \<Rightarrow> int \<Rightarrow> int" where
  "compareSubstring a b aStart aEnd bStart bEnd =
     (if aStart < aEnd \<and> bStart < bEnd then
        let c = code_compare (js_get a aStart) (js_get b bStart)
        in if c \<noteq> 0 then c else compareSubstring a b (aStart + 1) aEnd (bStart + 1) bEnd
      else let aLen = aEnd - aStart; bLen = bEnd - bStart
           in if aLen < bLen then -1 else if aLen > bLen then 1 else 0)"
  by pat_completeness auto
termination by (relation "measure (\<lambda>(a, b, i, m, j, n). nat (m - i))") auto

declare compareSubstring.simps [simp del]

definition isAsciiDigit :: "int \<Rightarrow> bool" where
  "isAsciiDigit code \<longleftrightarrow> code \<ge> 48 \<and> code \<le> 57"

definition isLowerAsciiLetter :: "int \<Rightarrow> bool" where
  "isLowerAsciiLetter code \<longleftrightarrow> code \<ge> 97 \<and> code \<le> 122"

definition isUpperAsciiLetter :: "int \<Rightarrow> bool" where
  "isUpperAsciiLetter code \<longleftrightarrow> code \<ge> 65 \<and> code \<le> 90"

section \<open>Common prefix and suffix\<close>

fun commonPrefix_loop :: "'a list \<Rightarrow> 'a list \<Rightarrow> nat \<Rightarrow> nat" where
  "commonPrefix_loop (a # as) (b # bs) i = (if a \<noteq> b then i else commonPrefix_loop as bs (i + 1))"
| "commonPrefix_loop _ _ i = i"

definition commonPrefixLength :: "'a list \<Rightarrow> 'a list \<Rightarrow> nat" where
  "commonPrefixLength a b = commonPrefix_loop a b 0"

text \<open>The indices run from the last one down.\<close>

definition commonSuffixLength :: "'a list \<Rightarrow> 'a list \<Rightarrow> nat" where
  "commonSuffixLength a b = commonPrefix_loop (rev a) (rev b) 0"

section \<open>Code points\<close>

definition isHighSurrogate :: "int \<Rightarrow> bool" where
  "isHighSurrogate c \<longleftrightarrow> 0xD800 \<le> c \<and> c \<le> 0xDBFF"

definition isLowSurrogate :: "int \<Rightarrow> bool" where
  "isLowSurrogate c \<longleftrightarrow> 0xDC00 \<le> c \<and> c \<le> 0xDFFF"

text \<open>\<open>x << 10\<close> of a difference below 1024 stays in 32 bits.\<close>

definition computeCodePoint :: "int \<Rightarrow> int \<Rightarrow> int" where
  "computeCodePoint highSurrogate lowSurrogate =
     js_to_int32 ((highSurrogate - 0xD800) * 1024) + (lowSurrogate - 0xDC00) + 0x10000"

definition getNextCodePoint :: "js_string \<Rightarrow> int \<Rightarrow> int \<Rightarrow> int option" where
  "getNextCodePoint str len offset =
     (case js_get str offset of
        None \<Rightarrow> None
      | Some charCode \<Rightarrow>
          if isHighSurrogate charCode \<and> offset + 1 < len then
            (case js_get str (offset + 1) of
               Some nextCharCode \<Rightarrow>
                 if isLowSurrogate nextCharCode then Some (computeCodePoint charCode nextCharCode) else Some charCode
             | None \<Rightarrow> Some charCode)
          else Some charCode)"

definition getPrevCodePoint :: "js_string \<Rightarrow> int \<Rightarrow> int option" where
  "getPrevCodePoint str offset =
     (case js_get str (offset - 1) of
        None \<Rightarrow> None
      | Some charCode \<Rightarrow>
          if isLowSurrogate charCode \<and> offset > 1 then
            (case js_get str (offset - 2) of
               Some prevCharCode \<Rightarrow>
                 if isHighSurrogate prevCharCode then Some (computeCodePoint prevCharCode charCode) else Some charCode
             | None \<Rightarrow> Some charCode)
          else Some charCode)"

section \<open>Facts\<close>

lemma commonPrefix_loop_spec:
  "\<exists>k. commonPrefix_loop a b i = i + k \<and> k \<le> length a \<and> k \<le> length b \<and> take k a = take k b \<and>
    (k < length a \<and> k < length b \<longrightarrow> a ! k \<noteq> b ! k)"
proof (induction a b i rule: commonPrefix_loop.induct)
  case (1 a as b bs i)
  show ?case
  proof (cases "a = b")
    case True
    then obtain k where "commonPrefix_loop as bs (i + 1) = i + 1 + k" "k \<le> length as" "k \<le> length bs"
        "take k as = take k bs" "k < length as \<and> k < length bs \<longrightarrow> as ! k \<noteq> bs ! k"
      using 1 by blast
    then show ?thesis using True by (intro exI [of _ "Suc k"]) auto
  qed (auto intro!: exI [of _ 0])
qed auto

lemma commonPrefixLength_spec:
  "commonPrefixLength a b \<le> length a" "commonPrefixLength a b \<le> length b"
  "take (commonPrefixLength a b) a = take (commonPrefixLength a b) b"
  using commonPrefix_loop_spec [of a b 0] by (auto simp: commonPrefixLength_def)

lemma commonSuffixLength_spec:
  "commonSuffixLength a b \<le> length a" "commonSuffixLength a b \<le> length b"
  "drop (length a - commonSuffixLength a b) a = drop (length b - commonSuffixLength a b) b"
proof -
  define k where "k = commonSuffixLength a b"
  have "k \<le> length (rev a)" "k \<le> length (rev b)" "take k (rev a) = take k (rev b)"
    using commonPrefixLength_spec [of "rev a" "rev b"] by (simp_all add: k_def commonSuffixLength_def commonPrefixLength_def)
  then show "commonSuffixLength a b \<le> length a" "commonSuffixLength a b \<le> length b"
    "drop (length a - commonSuffixLength a b) a = drop (length b - commonSuffixLength a b) b"
    by (simp_all add: take_rev flip: k_def)
qed

text \<open>Trimming at the start removes the needle as often as it occurs there.\<close>

lemma ltrim_char_spec:
  "i \<le> length h \<Longrightarrow> i \<le> ltrim_char h c i \<and> ltrim_char h c i \<le> length h \<and>
    (\<forall>j. i \<le> j \<and> j < ltrim_char h c i \<longrightarrow> h ! j = c) \<and>
    (ltrim_char h c i < length h \<longrightarrow> h ! ltrim_char h c i \<noteq> c)"
proof (induction h c i rule: ltrim_char.induct)
  case (1 h c i)
  show ?case
  proof (cases "i < length h \<and> h ! i = c")
    case True
    then have "ltrim_char h c i = ltrim_char h c (i + 1)" by (simp add: ltrim_char.simps)
    moreover have "h ! j = c" if "i \<le> j" "j < ltrim_char h c (i + 1)" for j
      using 1 True that by (cases "j = i") auto
    ultimately show ?thesis using 1 True by auto
  qed (use 1 in \<open>auto simp: ltrim_char.simps [of h c i]\<close>)
qed

text \<open>The comparison of substrings is the order of the language on them.\<close>

lemma js_less_irrefl: "\<not> js_less a a"
  by (induction a) auto

lemma js_less_cases: "js_less a b \<or> a = b \<or> js_less b a"
  by (induction a b rule: js_less.induct) auto

lemma js_less_asym: "js_less a b \<Longrightarrow> \<not> js_less b a"
  by (induction a b rule: js_less.induct) auto

lemma js_compare_zero: "js_compare a b = 0 \<longleftrightarrow> a = b"
  using js_less_cases [of a b] js_less_irrefl by (auto simp: js_compare_def)

lemma compareSubstring_drop:
  "i \<le> length a \<Longrightarrow> j \<le> length b \<Longrightarrow>
    compareSubstring a b (int i) (int (length a)) (int j) (int (length b)) = js_compare (drop i a) (drop j b)"
proof (induction "length a - i" arbitrary: i j)
  case 0
  then show ?case
    by (cases "drop j b") (auto simp: compareSubstring.simps js_compare_def)
next
  case (Suc n)
  then have a: "drop i a = a ! i # drop (Suc i) a" "i < length a" by (simp_all add: Cons_nth_drop_Suc)
  show ?case
  proof (cases "j < length b")
    case False
    then show ?thesis using a Suc.prems by (simp add: compareSubstring.simps js_compare_def)
  next
    case True
    then have b: "drop j b = b ! j # drop (Suc j) b" by (simp add: Cons_nth_drop_Suc)
    have "compareSubstring a b (int i + 1) (int (length a)) (int j + 1) (int (length b)) =
        js_compare (drop (Suc i) a) (drop (Suc j) b)"
      using Suc.hyps(1) [of "Suc i" "Suc j"] Suc.hyps(2) a(2) True by (simp add: add.commute)
    then show ?thesis
      using a b True
      by (subst compareSubstring.simps) (auto simp: js_get_nat code_compare_def js_compare_def Let_def)
  qed
qed

lemma compareSubstring_compare: "compareSubstring a b 0 (int (length a)) 0 (int (length b)) = js_compare a b"
  using compareSubstring_drop [of 0 a 0 b] by simp

end
