(* ===== verification/StringEdits.thy ===== *)
theory StringEdits
  imports Edits JsStrings
begin

text \<open>
  \<open>src/vs/editor/common/core/edits/stringEdit.ts\<close>, \<open>arrayEdit.ts\<close> and \<open>lengthEdit.ts\<close>: the subclasses of
  \<open>BaseEdit\<close> for strings, arrays and lengths, each with its record \<open>repl_class\<close> of methods.

  The regular expression of \<open>normalizeEOL\<close> is written out.  Not modelled: the parser of the debugging
  notation (a regular expression) and the rendering.
\<close>

section \<open>String replacements\<close>

record StringReplacement =
  sr_replaceRange :: OffsetRange
  sr_newText :: js_string

abbreviation mk_sr :: "OffsetRange \<Rightarrow> js_string \<Rightarrow> StringReplacement" where
  "mk_sr r t \<equiv> \<lparr>sr_replaceRange = r, sr_newText = t\<rparr>"

definition StringReplacement_insert :: "int \<Rightarrow> js_string \<Rightarrow> StringReplacement result" where
  "StringReplacement_insert offset text = bind_result (OffsetRange_emptyAt offset) (\<lambda>r. Ok (mk_sr r text))"

definition StringReplacement_replace :: "OffsetRange \<Rightarrow> js_string \<Rightarrow> StringReplacement" where
  "StringReplacement_replace r text = mk_sr r text"

definition StringReplacement_delete :: "OffsetRange \<Rightarrow> StringReplacement" where
  "StringReplacement_delete r = mk_sr r []"

definition StringReplacement_equals :: "StringReplacement \<Rightarrow> StringReplacement \<Rightarrow> bool" where
  "StringReplacement_equals r other \<longleftrightarrow>
     OffsetRange_equals (sr_replaceRange r) (sr_replaceRange other) \<and> sr_newText r = sr_newText other"

definition StringReplacement_tryJoinTouching ::
  "StringReplacement \<Rightarrow> StringReplacement \<Rightarrow> StringReplacement option result" where
  "StringReplacement_tryJoinTouching r other =
     bind_result (OffsetRange_joinRightTouching (sr_replaceRange r) (sr_replaceRange other))
       (\<lambda>rg. Ok (Some (mk_sr rg (sr_newText r @ sr_newText other))))"

definition OffsetRange_substring :: "OffsetRange \<Rightarrow> js_string \<Rightarrow> js_string" where
  "OffsetRange_substring r str = js_substring str (or_start r) (or_endExclusive r)"

definition StringReplacement_slice :: "StringReplacement \<Rightarrow> OffsetRange \<Rightarrow> OffsetRange \<Rightarrow> StringReplacement" where
  "StringReplacement_slice r rg rangeInReplacement = mk_sr rg (OffsetRange_substring rangeInReplacement (sr_newText r))"

definition string_class :: "StringReplacement repl_class" where
  "string_class = \<lparr>rc_range = sr_replaceRange, rc_newLength = (\<lambda>r. int (length (sr_newText r))),
     rc_join = StringReplacement_tryJoinTouching, rc_slice = StringReplacement_slice,
     rc_equals = StringReplacement_equals\<rparr>"

definition replace_one :: "StringReplacement \<Rightarrow> js_string \<Rightarrow> js_string" where
  "replace_one r str =
     js_substring str 0 (or_start (sr_replaceRange r)) @ sr_newText r @
     js_substring_from str (or_endExclusive (sr_replaceRange r))"

definition isNeutralOn :: "StringReplacement \<Rightarrow> js_string \<Rightarrow> bool" where
  "isNeutralOn r text \<longleftrightarrow>
     sr_newText r = js_substring text (or_start (sr_replaceRange r)) (or_endExclusive (sr_replaceRange r))"

definition removeCommonSuffixPrefix :: "StringReplacement \<Rightarrow> js_string \<Rightarrow> StringReplacement result" where
  "removeCommonSuffixPrefix r originalText =
     (let oldText = js_substring originalText (or_start (sr_replaceRange r)) (or_endExclusive (sr_replaceRange r));
          newText = sr_newText r;
          prefixLen = int (commonPrefixLength oldText newText);
          suffixLen = min (min (int (length oldText) - prefixLen) (int (length newText) - prefixLen))
                          (int (commonSuffixLength oldText newText))
      in bind_result (new_OffsetRange (or_start (sr_replaceRange r) + prefixLen)
                        (or_endExclusive (sr_replaceRange r) - suffixLen)) (\<lambda>rg.
           Ok (mk_sr rg (js_substring newText prefixLen (int (length newText) - suffixLen)))))"

text \<open>\<open>newText.replace(/\r\n|\n/g, eol)\<close>\<close>

fun replace_eol :: "js_string \<Rightarrow> js_string \<Rightarrow> js_string" where
  "replace_eol eol [] = []"
| "replace_eol eol (c # cs) =
     (if c = 10 then eol @ replace_eol eol cs
      else case cs of
        d # ds \<Rightarrow> if c = 13 \<and> d = 10 then eol @ replace_eol eol ds else c # replace_eol eol cs
      | [] \<Rightarrow> [c])"

definition StringReplacement_normalizeEOL :: "js_string \<Rightarrow> StringReplacement \<Rightarrow> StringReplacement" where
  "StringReplacement_normalizeEOL eol r = mk_sr (sr_replaceRange r) (replace_eol eol (sr_newText r))"

definition removeCommonPrefix :: "StringReplacement \<Rightarrow> js_string \<Rightarrow> StringReplacement result" where
  "removeCommonPrefix r source =
     (let oldText = OffsetRange_substring (sr_replaceRange r) source;
          prefixLen = int (commonPrefixLength oldText (sr_newText r))
      in if prefixLen = 0 then Ok r
         else bind_result (OffsetRange_deltaStart (sr_replaceRange r) prefixLen) (\<lambda>rg.
              bind_result (new_OffsetRange prefixLen (int (length (sr_newText r)))) (\<lambda>sub.
                Ok (StringReplacement_slice r rg sub))))"

definition removeCommonSuffix :: "StringReplacement \<Rightarrow> js_string \<Rightarrow> StringReplacement result" where
  "removeCommonSuffix r source =
     (let oldText = OffsetRange_substring (sr_replaceRange r) source;
          suffixLen = int (commonSuffixLength oldText (sr_newText r))
      in if suffixLen = 0 then Ok r
         else bind_result (OffsetRange_deltaEnd (sr_replaceRange r) (- suffixLen)) (\<lambda>rg.
              bind_result (new_OffsetRange 0 (int (length (sr_newText r)) - suffixLen)) (\<lambda>sub.
                Ok (StringReplacement_slice r rg sub))))"

definition removeCommonSuffixAndPrefix :: "StringReplacement \<Rightarrow> js_string \<Rightarrow> StringReplacement result" where
  "removeCommonSuffixAndPrefix r source =
     bind_result (removeCommonSuffix r source) (\<lambda>x. removeCommonPrefix x source)"

section \<open>String edits\<close>

type_synonym StringEdit = "StringReplacement list"

definition new_StringEdit :: "StringReplacement list \<Rightarrow> StringEdit result" where
  "new_StringEdit = new_Edit string_class"

definition StringEdit_single :: "StringReplacement \<Rightarrow> StringEdit result" where
  "StringEdit_single r = new_StringEdit [r]"

definition StringEdit_replace :: "OffsetRange \<Rightarrow> js_string \<Rightarrow> StringEdit result" where
  "StringEdit_replace r text = new_StringEdit [mk_sr r text]"

definition StringEdit_insert :: "int \<Rightarrow> js_string \<Rightarrow> StringEdit result" where
  "StringEdit_insert offset text =
     bind_result (OffsetRange_emptyAt offset) (\<lambda>r. new_StringEdit [mk_sr r text])"

definition StringEdit_delete :: "OffsetRange \<Rightarrow> StringEdit result" where
  "StringEdit_delete r = new_StringEdit [mk_sr r []]"

fun StringEdit_apply_loop :: "js_string \<Rightarrow> StringEdit \<Rightarrow> int \<Rightarrow> js_string" where
  "StringEdit_apply_loop base [] pos = js_substring_from base pos"
| "StringEdit_apply_loop base (r # rs) pos =
     js_substring base pos (or_start (sr_replaceRange r)) @ sr_newText r @
     StringEdit_apply_loop base rs (or_endExclusive (sr_replaceRange r))"

definition StringEdit_apply :: "StringEdit \<Rightarrow> js_string \<Rightarrow> js_string" where
  "StringEdit_apply e base = StringEdit_apply_loop base e 0"

definition StringEdit_compose :: "StringEdit \<Rightarrow> StringEdit \<Rightarrow> StringEdit result" where
  "StringEdit_compose = Edit_compose string_class"

fun composeOrUndefined_loop :: "StringEdit \<Rightarrow> StringEdit list \<Rightarrow> StringEdit result" where
  "composeOrUndefined_loop e [] = Ok e"
| "composeOrUndefined_loop e (x # xs) = bind_result (StringEdit_compose e x) (\<lambda>y. composeOrUndefined_loop y xs)"

definition composeOrUndefined :: "StringEdit list \<Rightarrow> StringEdit option result" where
  "composeOrUndefined edits =
     (case edits of [] \<Rightarrow> Ok None | e # es \<Rightarrow> bind_result (composeOrUndefined_loop e es) (\<lambda>x. Ok (Some x)))"

definition StringEdit_compose_list :: "StringEdit list \<Rightarrow> StringEdit result" where
  "StringEdit_compose_list edits = (case edits of [] \<Rightarrow> Ok [] | e # es \<Rightarrow> composeOrUndefined_loop e es)"

text \<open>\<open>cur\<close> is \<open>curEditReplacements\<close> with its last element at the head, so it is the reversed array.\<close>

fun composeSequential_loop :: "StringReplacement list \<Rightarrow> StringEdit \<Rightarrow> StringReplacement list \<Rightarrow> StringEdit result" where
  "composeSequential_loop [] edit cur =
     bind_result (new_StringEdit cur) (StringEdit_compose edit)"
| "composeSequential_loop (r # rs) edit cur =
     (if (case cur of [] \<Rightarrow> True | l # _ \<Rightarrow> OffsetRange_isBefore (sr_replaceRange r) (sr_replaceRange l))
      then composeSequential_loop rs edit (r # cur)
      else bind_result (new_StringEdit cur) (\<lambda>c.
           bind_result (StringEdit_compose edit c) (\<lambda>e. composeSequential_loop rs e [r])))"

definition composeSequentialReplacements :: "StringReplacement list \<Rightarrow> StringEdit result" where
  "composeSequentialReplacements replacements = composeSequential_loop replacements [] []"

fun inverseOnSlice_loop :: "(int \<Rightarrow> int \<Rightarrow> js_string) \<Rightarrow> StringEdit \<Rightarrow> int \<Rightarrow> StringReplacement list result" where
  "inverseOnSlice_loop getOriginalSlice [] offset = Ok []"
| "inverseOnSlice_loop getOriginalSlice (r # rs) offset =
     (let rg = sr_replaceRange r
      in bind_result (OffsetRange_ofStartAndLength (or_start rg + offset) (int (length (sr_newText r)))) (\<lambda>x.
         bind_result (inverseOnSlice_loop getOriginalSlice rs
             (offset + (int (length (sr_newText r)) - OffsetRange_length rg))) (\<lambda>xs.
           Ok (mk_sr x (getOriginalSlice (or_start rg) (or_endExclusive rg)) # xs))))"

definition inverseOnSlice :: "(int \<Rightarrow> int \<Rightarrow> js_string) \<Rightarrow> StringEdit \<Rightarrow> StringEdit result" where
  "inverseOnSlice getOriginalSlice e = bind_result (inverseOnSlice_loop getOriginalSlice e 0) new_StringEdit"

definition StringEdit_inverse :: "StringEdit \<Rightarrow> js_string \<Rightarrow> StringEdit result" where
  "StringEdit_inverse e original = inverseOnSlice (js_substring original) e"

section \<open>Rebasing\<close>

definition areConcurrentInserts :: "OffsetRange \<Rightarrow> OffsetRange \<Rightarrow> bool" where
  "areConcurrentInserts r1 r2 \<longleftrightarrow> OffsetRange_isEmpty r1 \<and> OffsetRange_isEmpty r2 \<and> or_start r1 = or_start r2"

definition isInsertStrictlyInsideRange :: "OffsetRange \<Rightarrow> OffsetRange \<Rightarrow> bool" where
  "isInsertStrictlyInsideRange insrt r \<longleftrightarrow>
     OffsetRange_isEmpty insrt \<and> or_start r < or_start insrt \<and> or_start insrt < or_endExclusive r"

definition rebase_conflict :: "OffsetRange \<Rightarrow> OffsetRange \<Rightarrow> bool" where
  "rebase_conflict our base \<longleftrightarrow> OffsetRange_intersects our base \<or> areConcurrentInserts our base \<or>
     isInsertStrictlyInsideRange our base \<or> isInsertStrictlyInsideRange base our"

definition our_first :: "OffsetRange \<Rightarrow> OffsetRange \<Rightarrow> bool" where
  "our_first our base \<longleftrightarrow> or_start our < or_start base \<or> OffsetRange_isEmpty our \<and> or_start our = or_start base"

fun rebase_loop :: "bool \<Rightarrow> StringEdit \<Rightarrow> StringEdit \<Rightarrow> int \<Rightarrow> StringReplacement list option result" where
  "rebase_loop noOverlap [] base offset = Ok (Some [])"
| "rebase_loop noOverlap (r # rs) [] offset =
     bind_result (OffsetRange_delta (sr_replaceRange r) offset) (\<lambda>rg.
     bind_result (rebase_loop noOverlap rs [] offset) (\<lambda>out.
       Ok (map_option ((#) (mk_sr rg (sr_newText r))) out)))"
| "rebase_loop noOverlap (r # rs) (b # bs) offset =
     (if rebase_conflict (sr_replaceRange r) (sr_replaceRange b) then
        if noOverlap then Ok None else rebase_loop noOverlap rs (b # bs) offset
      else if our_first (sr_replaceRange r) (sr_replaceRange b) then
        bind_result (OffsetRange_delta (sr_replaceRange r) offset) (\<lambda>rg.
        bind_result (rebase_loop noOverlap rs (b # bs) offset) (\<lambda>out.
          Ok (map_option ((#) (mk_sr rg (sr_newText r))) out)))
      else rebase_loop noOverlap (r # rs) bs
             (offset + (int (length (sr_newText b)) - OffsetRange_length (sr_replaceRange b))))"

definition tryRebase_overlap :: "StringEdit \<Rightarrow> StringEdit \<Rightarrow> bool \<Rightarrow> StringEdit option result" where
  "tryRebase_overlap e base noOverlap =
     bind_result (rebase_loop noOverlap e base 0) (\<lambda>out.
       case out of None \<Rightarrow> Ok None | Some rs \<Rightarrow> bind_result (new_StringEdit rs) (\<lambda>x. Ok (Some x)))"

definition tryRebase :: "StringEdit \<Rightarrow> StringEdit \<Rightarrow> StringEdit option result" where
  "tryRebase e base = tryRebase_overlap e base True"

definition rebaseSkipConflicting :: "StringEdit \<Rightarrow> StringEdit \<Rightarrow> StringEdit option result" where
  "rebaseSkipConflicting e base = tryRebase_overlap e base False"

definition trySwap :: "StringEdit \<Rightarrow> StringEdit \<Rightarrow> (StringEdit \<times> StringEdit) option result" where
  "trySwap e1 e2 =
     bind_result (inverseOnSlice (\<lambda>st en. replicate (nat (en - st)) 32) e1) (\<lambda>e1Inv.
     bind_result (tryRebase e2 e1Inv) (\<lambda>x.
       case x of
         None \<Rightarrow> Ok None
       | Some e1' \<Rightarrow>
           bind_result (tryRebase e1 e1') (\<lambda>y.
             case y of None \<Rightarrow> Ok None | Some e2' \<Rightarrow> Ok (Some (e1', e2')))))"

section \<open>Further operations\<close>

record ISerializedStringReplacement =
  ser_txt :: js_string
  ser_pos :: int
  ser_len :: int

definition StringReplacement_toJson :: "StringReplacement \<Rightarrow> ISerializedStringReplacement" where
  "StringReplacement_toJson r =
     \<lparr>ser_txt = sr_newText r, ser_pos = or_start (sr_replaceRange r), ser_len = OffsetRange_length (sr_replaceRange r)\<rparr>"

definition StringReplacement_fromJson :: "ISerializedStringReplacement \<Rightarrow> StringReplacement result" where
  "StringReplacement_fromJson data =
     bind_result (OffsetRange_ofStartAndLength (ser_pos data) (ser_len data)) (\<lambda>rg. Ok (mk_sr rg (ser_txt data)))"

fun map_result_list :: "('a \<Rightarrow> 'b result) \<Rightarrow> 'a list \<Rightarrow> 'b list result" where
  "map_result_list f [] = Ok []"
| "map_result_list f (x # xs) = bind_result (f x) (\<lambda>y. bind_result (map_result_list f xs) (\<lambda>ys. Ok (y # ys)))"

definition StringEdit_toJson :: "StringEdit \<Rightarrow> ISerializedStringReplacement list" where
  "StringEdit_toJson e = map StringReplacement_toJson e"

definition StringEdit_fromJson :: "ISerializedStringReplacement list \<Rightarrow> StringEdit result" where
  "StringEdit_fromJson data = bind_result (map_result_list StringReplacement_fromJson data) new_StringEdit"

definition StringEdit_isNeutralOn :: "StringEdit \<Rightarrow> js_string \<Rightarrow> bool" where
  "StringEdit_isNeutralOn e text \<longleftrightarrow> list_all (\<lambda>r. isNeutralOn r text) e"

definition StringEdit_removeCommonSuffixPrefix :: "StringEdit \<Rightarrow> js_string \<Rightarrow> StringEdit result" where
  "StringEdit_removeCommonSuffixPrefix e originalText =
     bind_result (map_result_list (\<lambda>r. removeCommonSuffixPrefix r originalText) e) (\<lambda>rs.
       new_StringEdit (filter (\<lambda>r. \<not> BaseReplacement_isEmpty string_class r) rs))"

definition StringEdit_normalizeEOL :: "js_string \<Rightarrow> StringEdit \<Rightarrow> StringEdit result" where
  "StringEdit_normalizeEOL eol e = new_StringEdit (map (StringReplacement_normalizeEOL eol) e)"

definition normalizeOnSource :: "StringEdit \<Rightarrow> js_string \<Rightarrow> StringEdit result" where
  "normalizeOnSource e source =
     (let out = StringEdit_apply e source
      in bind_result (OffsetRange_ofLength (int (length source))) (\<lambda>rg.
         bind_result (removeCommonSuffixAndPrefix (mk_sr rg out) source) (\<lambda>x.
           if BaseReplacement_isEmpty string_class x then Ok [] else new_StringEdit [x])))"

definition StringEdit_removeCommonSuffixAndPrefix :: "StringEdit \<Rightarrow> js_string \<Rightarrow> StringEdit result" where
  "StringEdit_removeCommonSuffixAndPrefix e source =
     bind_result (map_result_list (\<lambda>r. removeCommonSuffixAndPrefix r source) e) (\<lambda>rs.
     bind_result (new_StringEdit rs) (Edit_normalize string_class))"

section \<open>Edits of arrays and of lengths\<close>

record 'a ArrayReplacement =
  ar_replaceRange :: OffsetRange
  ar_newValue :: "'a list"

definition ArrayReplacement_tryJoinTouching ::
  "'a ArrayReplacement \<Rightarrow> 'a ArrayReplacement \<Rightarrow> 'a ArrayReplacement option result" where
  "ArrayReplacement_tryJoinTouching r other =
     bind_result (OffsetRange_joinRightTouching (ar_replaceRange r) (ar_replaceRange other))
       (\<lambda>rg. Ok (Some \<lparr>ar_replaceRange = rg, ar_newValue = ar_newValue r @ ar_newValue other\<rparr>))"

definition ArrayReplacement_slice :: "'a ArrayReplacement \<Rightarrow> OffsetRange \<Rightarrow> OffsetRange \<Rightarrow> 'a ArrayReplacement" where
  "ArrayReplacement_slice r rg sub = \<lparr>ar_replaceRange = rg, ar_newValue = OffsetRange_slice sub (ar_newValue r)\<rparr>"

definition ArrayReplacement_equals :: "'a ArrayReplacement \<Rightarrow> 'a ArrayReplacement \<Rightarrow> bool" where
  "ArrayReplacement_equals r other \<longleftrightarrow> OffsetRange_equals (ar_replaceRange r) (ar_replaceRange other) \<and>
     ar_newValue r = ar_newValue other"

definition array_class :: "'a ArrayReplacement repl_class" where
  "array_class = \<lparr>rc_range = ar_replaceRange, rc_newLength = (\<lambda>r. int (length (ar_newValue r))),
     rc_join = ArrayReplacement_tryJoinTouching, rc_slice = ArrayReplacement_slice, rc_equals = ArrayReplacement_equals\<rparr>"

fun ArrayEdit_apply_loop :: "'a list \<Rightarrow> 'a ArrayReplacement list \<Rightarrow> int \<Rightarrow> 'a list" where
  "ArrayEdit_apply_loop data [] pos = js_slice data pos (int (length data))"
| "ArrayEdit_apply_loop data (r # rs) pos =
     js_slice data pos (or_start (ar_replaceRange r)) @ ar_newValue r @
     ArrayEdit_apply_loop data rs (or_endExclusive (ar_replaceRange r))"

definition ArrayEdit_apply :: "'a ArrayReplacement list \<Rightarrow> 'a list \<Rightarrow> 'a list" where
  "ArrayEdit_apply e data = ArrayEdit_apply_loop data e 0"

fun ArrayEdit_inverse_loop :: "'a list \<Rightarrow> 'a ArrayReplacement list \<Rightarrow> int \<Rightarrow> 'a ArrayReplacement list result" where
  "ArrayEdit_inverse_loop baseVal [] offset = Ok []"
| "ArrayEdit_inverse_loop baseVal (r # rs) offset =
     (let rg = ar_replaceRange r
      in bind_result (OffsetRange_ofStartAndLength (or_start rg + offset) (int (length (ar_newValue r)))) (\<lambda>x.
         bind_result (ArrayEdit_inverse_loop baseVal rs
             (offset + (int (length (ar_newValue r)) - OffsetRange_length rg))) (\<lambda>xs.
           Ok (\<lparr>ar_replaceRange = x, ar_newValue = js_slice baseVal (or_start rg) (or_endExclusive rg)\<rparr> # xs))))"

definition ArrayEdit_inverse :: "'a ArrayReplacement list \<Rightarrow> 'a list \<Rightarrow> 'a ArrayReplacement list result" where
  "ArrayEdit_inverse e baseVal = bind_result (ArrayEdit_inverse_loop baseVal e 0) (new_Edit array_class)"

record LengthReplacement =
  le_replaceRange :: OffsetRange
  le_newLength :: int

definition LengthReplacement_create :: "int \<Rightarrow> int \<Rightarrow> int \<Rightarrow> LengthReplacement result" where
  "LengthReplacement_create startOffset endOffsetExclusive newLength =
     bind_result (new_OffsetRange startOffset endOffsetExclusive)
       (\<lambda>rg. Ok \<lparr>le_replaceRange = rg, le_newLength = newLength\<rparr>)"

definition LengthReplacement_tryJoinTouching ::
  "LengthReplacement \<Rightarrow> LengthReplacement \<Rightarrow> LengthReplacement option result" where
  "LengthReplacement_tryJoinTouching r other =
     bind_result (OffsetRange_joinRightTouching (le_replaceRange r) (le_replaceRange other))
       (\<lambda>rg. Ok (Some \<lparr>le_replaceRange = rg, le_newLength = le_newLength r + le_newLength other\<rparr>))"

definition LengthReplacement_slice :: "LengthReplacement \<Rightarrow> OffsetRange \<Rightarrow> OffsetRange \<Rightarrow> LengthReplacement" where
  "LengthReplacement_slice r rg sub = \<lparr>le_replaceRange = rg, le_newLength = OffsetRange_length sub\<rparr>"

definition LengthReplacement_equals :: "LengthReplacement \<Rightarrow> LengthReplacement \<Rightarrow> bool" where
  "LengthReplacement_equals r other \<longleftrightarrow> OffsetRange_equals (le_replaceRange r) (le_replaceRange other) \<and>
     le_newLength r = le_newLength other"

definition length_class :: "LengthReplacement repl_class" where
  "length_class = \<lparr>rc_range = le_replaceRange, rc_newLength = le_newLength,
     rc_join = LengthReplacement_tryJoinTouching, rc_slice = LengthReplacement_slice, rc_equals = LengthReplacement_equals\<rparr>"

definition LengthEdit_fromEdit :: "'r repl_class \<Rightarrow> 'r list \<Rightarrow> LengthReplacement list result" where
  "LengthEdit_fromEdit C e =
     new_Edit length_class (map (\<lambda>r. \<lparr>le_replaceRange = rc_range C r, le_newLength = rc_newLength C r\<rparr>) e)"

fun LengthEdit_compose_loop :: "LengthReplacement list \<Rightarrow> LengthReplacement list list \<Rightarrow> LengthReplacement list result" where
  "LengthEdit_compose_loop e [] = Ok e"
| "LengthEdit_compose_loop e (x # xs) =
     bind_result (Edit_compose length_class e x) (\<lambda>y. LengthEdit_compose_loop y xs)"

definition LengthEdit_compose :: "LengthReplacement list list \<Rightarrow> LengthReplacement list result" where
  "LengthEdit_compose edits = LengthEdit_compose_loop [] edits"

fun LengthEdit_inverse_loop :: "LengthReplacement list \<Rightarrow> int \<Rightarrow> LengthReplacement list result" where
  "LengthEdit_inverse_loop [] offset = Ok []"
| "LengthEdit_inverse_loop (r # rs) offset =
     (let rg = le_replaceRange r
      in bind_result (OffsetRange_ofStartAndLength (or_start rg + offset) (le_newLength r)) (\<lambda>x.
         bind_result (LengthEdit_inverse_loop rs (offset + (le_newLength r - OffsetRange_length rg))) (\<lambda>xs.
           Ok (\<lparr>le_replaceRange = x, le_newLength = OffsetRange_length rg\<rparr> # xs))))"

definition LengthEdit_inverse :: "LengthReplacement list \<Rightarrow> LengthReplacement list result" where
  "LengthEdit_inverse e = bind_result (LengthEdit_inverse_loop e 0) (new_Edit length_class)"

end
