(* ===== verification/StringEditProofs.thy ===== *)
theory StringEditProofs
  imports EditCompose EditOffsets StringEdits
begin

text \<open>
  The string, array, length and annotation classes keep the contract of \<open>BaseReplacement\<close>; applying,
  inverting and rebasing edits of strings.
\<close>

section \<open>The classes keep the contract\<close>

definition wf_or_range :: "OffsetRange \<Rightarrow> bool" where
  "wf_or_range r \<longleftrightarrow> or_start r \<le> or_endExclusive r"

lemma joinRightTouching_ok:
  "or_start r \<le> or_endExclusive r \<Longrightarrow> or_start r' \<le> or_endExclusive r' \<Longrightarrow> or_endExclusive r = or_start r' \<Longrightarrow>
    OffsetRange_joinRightTouching r r' = Ok (mk_or (or_start r) (or_endExclusive r'))"
  by (simp add: OffsetRange_joinRightTouching_def new_OffsetRange_def)

definition string_ok :: "StringReplacement \<Rightarrow> bool" where
  "string_ok r \<longleftrightarrow> wf_or_range (sr_replaceRange r)"

interpretation str: replacement string_class sr_newText string_ok
proof (unfold_locales, goal_cases)
  case (3 r rg a b)
  then show ?case
    by (simp add: string_class_def StringReplacement_slice_def OffsetRange_substring_def js_substring_nat
        string_ok_def wf_or_range_def)
qed (auto simp: string_class_def string_ok_def wf_or_range_def StringReplacement_tryJoinTouching_def joinRightTouching_ok)

definition array_ok :: "'a ArrayReplacement \<Rightarrow> bool" where
  "array_ok r \<longleftrightarrow> wf_or_range (ar_replaceRange r)"

interpretation arr: replacement array_class ar_newValue array_ok
proof (unfold_locales, goal_cases)
  case (3 r rg a b)
  then show ?case
    by (simp add: array_class_def ArrayReplacement_slice_def OffsetRange_slice_def js_slice_def js_rel_index_nat
        array_ok_def wf_or_range_def)
qed (auto simp: array_class_def array_ok_def wf_or_range_def ArrayReplacement_tryJoinTouching_def joinRightTouching_ok)

definition length_ok :: "LengthReplacement \<Rightarrow> bool" where
  "length_ok r \<longleftrightarrow> wf_or_range (le_replaceRange r) \<and> 0 \<le> le_newLength r"

definition length_cont :: "'a \<Rightarrow> LengthReplacement \<Rightarrow> 'a list" where
  "length_cont fillItem r = replicate (nat (le_newLength r)) fillItem"

interpretation len: replacement length_class "length_cont fillItem" length_ok for fillItem
proof (unfold_locales, goal_cases)
  case (3 r rg a b)
  then show ?case
    by (auto simp: length_class_def LengthReplacement_slice_def OffsetRange_length_def length_cont_def
        length_ok_def wf_or_range_def min_def)
qed (auto simp: length_class_def length_ok_def wf_or_range_def length_cont_def LengthReplacement_tryJoinTouching_def
    joinRightTouching_ok nat_add_distrib replicate_add)

definition annotation_ok :: "'d AnnotationReplacement \<Rightarrow> bool" where
  "annotation_ok r \<longleftrightarrow> wf_or_range (an_replaceRange r) \<and> 0 \<le> an_newLength r"

definition annotation_cont :: "'d AnnotationReplacement \<Rightarrow> 'd list" where
  "annotation_cont r = replicate (nat (an_newLength r)) (an_annotation r)"

interpretation ann: replacement annotation_class annotation_cont annotation_ok
proof (unfold_locales, goal_cases)
  case (3 r rg a b)
  then show ?case
    by (auto simp: annotation_class_def AnnotationReplacement_slice_def OffsetRange_length_def annotation_cont_def
        annotation_ok_def wf_or_range_def min_def)
qed (auto simp: annotation_class_def annotation_ok_def wf_or_range_def annotation_cont_def
    AnnotationReplacement_tryJoinTouching_def joinRightTouching_ok nat_add_distrib replicate_add)

section \<open>Applying\<close>

lemma string_class_simps [simp]:
  "rc_range string_class = sr_replaceRange" "rc_newLength string_class = (\<lambda>r. int (length (sr_newText r)))"
  by (simp_all add: string_class_def)

text \<open>A valid edit of a text: sorted disjoint ranges inside it.\<close>

definition edit_of :: "StringEdit \<Rightarrow> js_string \<Rightarrow> bool" where
  "edit_of e s \<longleftrightarrow> within string_class 0 e (int (length s))"

lemma within_ok: "within string_class b e n \<Longrightarrow> \<forall>r \<in> set e. string_ok r"
  by (induction e arbitrary: b) (auto simp: string_ok_def wf_or_range_def)

lemma apply_loop_out:
  "0 \<le> pos \<Longrightarrow> within string_class pos e (int (length s)) \<Longrightarrow>
    StringEdit_apply_loop s e pos = str.out pos e (drop (nat pos) s)"
proof (induction e arbitrary: pos)
  case Nil
  then show ?case by (simp add: js_substring_from_int)
next
  case (Cons r e)
  have le: "or_endExclusive (sr_replaceRange r) \<le> int (length s)" "pos \<le> or_start (sr_replaceRange r)"
      "or_start (sr_replaceRange r) \<le> or_endExclusive (sr_replaceRange r)"
    using Cons.prems within_le [of string_class "or_endExclusive (sr_replaceRange r)" e] by simp_all
  have nats: "nat (or_endExclusive (sr_replaceRange r) - pos) + nat pos = nat (or_endExclusive (sr_replaceRange r))"
    using le Cons.prems(1) by (simp flip: nat_add_distrib)
  show ?case
    using Cons.IH [of "or_endExclusive (sr_replaceRange r)"] Cons.prems le nats
    by (simp add: js_substring_int)
qed

lemma apply_out: "edit_of e s \<Longrightarrow> StringEdit_apply e s = str.out 0 e s"
  using apply_loop_out [of 0 e s] by (simp add: edit_of_def StringEdit_apply_def)

lemma array_apply_loop_out:
  "0 \<le> pos \<Longrightarrow> within array_class pos e (int (length s)) \<Longrightarrow>
    ArrayEdit_apply_loop s e pos = arr.out pos e (drop (nat pos) s)"
proof (induction e arbitrary: pos)
  case Nil
  then show ?case using js_slice_drop [of "nat pos" s] by simp
next
  case (Cons r e)
  have le: "r_end array_class r \<le> int (length s)" "pos \<le> r_start array_class r" "r_start array_class r \<le> r_end array_class r"
    using Cons.prems within_le [of array_class "r_end array_class r" e] by simp_all
  have nats: "nat (r_end array_class r - pos) + nat pos = nat (r_end array_class r)"
    using le Cons.prems(1) by (simp flip: nat_add_distrib)
  have "js_slice s pos (r_start array_class r) = take (nat (r_start array_class r - pos)) (drop (nat pos) s)"
    using le Cons.prems(1) js_rel_index_nat [of "nat pos" "length s"] js_rel_index_nat [of "nat (r_start array_class r)" "length s"]
    by (simp add: js_slice_def nat_diff_distrib Let_def)
  then show ?case
    using Cons.IH [of "r_end array_class r"] Cons.prems le nats by (simp add: array_class_def)
qed

lemma array_apply_out: "within array_class 0 e (int (length s)) \<Longrightarrow> ArrayEdit_apply e s = arr.out 0 e s"
  using array_apply_loop_out [of 0 e s] by (simp add: ArrayEdit_apply_def)

section \<open>Composition and normalisation of string edits\<close>

lemma string_compose:
  assumes "edit_of e1 s" "edit_of e2 (StringEdit_apply e1 s)"
  shows "\<exists>e. StringEdit_compose e1 e2 = Ok e \<and> edit_of e s \<and>
    StringEdit_apply e s = StringEdit_apply e2 (StringEdit_apply e1 s)"
proof -
  obtain e where "Edit_compose string_class e1 e2 = Ok e" "within string_class 0 e (int (length s))"
      "str.out 0 e s = str.out 0 e2 (str.out 0 e1 s)"
    using str.compose_spec [of e1 e2 s] assms within_ok apply_out [OF assms(1)] unfolding edit_of_def by metis
  then show ?thesis
    using apply_out [OF assms(1)] apply_out [OF assms(2)] apply_out [of e s] by (simp add: StringEdit_compose_def edit_of_def)
qed

lemma string_decompose:
  assumes "edit_of e s"
  shows "\<exists>e1 e2. decomposeSplit string_class f e = Ok (e1, e2) \<and> e1 = filter f e \<and> edit_of e1 s \<and>
    edit_of e2 (StringEdit_apply e1 s) \<and> StringEdit_apply e2 (StringEdit_apply e1 s) = StringEdit_apply e s"
proof -
  obtain e1 e2 where d: "decomposeSplit string_class f e = Ok (e1, e2)" "e1 = filter f e"
      "within string_class 0 e1 (int (length s))" "within string_class 0 e2 (int (length (str.out 0 e1 s)))"
      "str.out 0 e2 (str.out 0 e1 s) = str.out 0 e s"
    using str.decompose_spec [of e "int (length s)" s f] assms within_ok unfolding edit_of_def by blast
  have e1: "edit_of e1 s" using d(3) by (simp add: edit_of_def)
  then have "edit_of e2 (StringEdit_apply e1 s)" using d(4) apply_out [OF e1] by (simp add: edit_of_def)
  then show ?thesis using d e1 apply_out [OF e1] apply_out [OF assms] apply_out [of e2 "str.out 0 e1 s"] by simp
qed

lemma array_compose:
  assumes "within array_class 0 e1 (int (length s))" "within array_class 0 e2 (int (length (ArrayEdit_apply e1 s)))"
  shows "\<exists>e. Edit_compose array_class e1 e2 = Ok e \<and> within array_class 0 e (int (length s)) \<and>
    ArrayEdit_apply e s = ArrayEdit_apply e2 (ArrayEdit_apply e1 s)"
proof -
  have ok: "within array_class b e n \<Longrightarrow> \<forall>r \<in> set e. array_ok r" for b n and e :: "'a ArrayReplacement list"
    by (induction e arbitrary: b) (auto simp: array_ok_def wf_or_range_def array_class_def)
  have "within array_class 0 e2 (int (length (arr.out 0 e1 s)))"
    using assms(2) array_apply_out [OF assms(1)] by simp
  with arr.compose_spec [of e1 e2 s] assms(1) ok
  obtain e where "Edit_compose array_class e1 e2 = Ok e" "within array_class 0 e (int (length s))"
      "arr.out 0 e s = arr.out 0 e2 (arr.out 0 e1 s)" by metis
  then show ?thesis
    using array_apply_out [OF assms(1)] array_apply_out [OF assms(2)] array_apply_out [of e s] by simp
qed

lemma string_normalize:
  assumes "edit_of e s"
  shows "\<exists>e'. Edit_normalize string_class e = Ok e' \<and> edit_of e' s \<and> StringEdit_apply e' s = StringEdit_apply e s"
  using str.normalize_spec [of e "int (length s)" s] assms within_ok apply_out unfolding edit_of_def by fastforce

section \<open>Inverse\<close>

lemma inverse_loop_spec:
  "0 \<le> pos \<Longrightarrow> within string_class pos e (int (length s)) \<Longrightarrow>
    \<exists>inv. inverseOnSlice_loop (js_substring s) e off = Ok inv \<and>
      within string_class (pos + off) inv (pos + off + int (length (str.out pos e (drop (nat pos) s)))) \<and>
      str.out (pos + off) inv (str.out pos e (drop (nat pos) s)) = drop (nat pos) s"
proof (induction e arbitrary: pos off)
  case (Cons r e)
  define st where "st = or_start (sr_replaceRange r)"
  define en where "en = or_endExclusive (sr_replaceRange r)"
  define n where "n = int (length (sr_newText r))"
  define B where "B = str.out en e (drop (nat en) s)"
  have le: "en \<le> int (length s)" "pos \<le> st" "st \<le> en"
    using Cons.prems within_le [of string_class en e] by (simp_all add: st_def en_def)
  have nats: "nat (en - pos) + nat pos = nat en" using le Cons.prems(1) by (simp flip: nat_add_distrib)
  define off' where "off' = off + (n - (en - st))"
  obtain inv' where inv': "inverseOnSlice_loop (js_substring s) e off' = Ok inv'"
      "within string_class (en + off') inv' (en + off' + int (length B))" "str.out (en + off') inv' B = drop (nat en) s"
    using Cons.IH [of en off'] Cons.prems le by (auto simp: B_def en_def)
  define i where "i = mk_sr (mk_or (st + off) (st + off + n)) (js_substring s st en)"
  have M: "str.out pos (r # e) (drop (nat pos) s) = take (nat (st - pos)) (drop (nat pos) s) @ sr_newText r @ B"
    using nats by (simp add: B_def st_def en_def)
  have ends: "en + off' = st + off + n" by (simp add: off'_def)
  have tlen: "int (length (take (nat (st - pos)) (drop (nat pos) s))) = st - pos" using le Cons.prems(1) by simp
  have len: "pos + off + int (length (str.out pos (r # e) (drop (nat pos) s))) = en + off' + int (length B)"
    unfolding M using tlen ends by (simp add: n_def del: length_take length_drop)
  from tlen have tn: "length (take (nat (st - pos)) (drop (nat pos) s)) = nat (st - pos)" by linarith
  have "inverseOnSlice_loop (js_substring s) (r # e) off = Ok (i # inv')"
    using inv'(1) by (simp add: i_def off'_def n_def st_def en_def OffsetRange_ofStartAndLength_def new_OffsetRange_def
        OffsetRange_length_def Let_def)
  moreover have "within string_class (pos + off) (i # inv') (pos + off + int (length (str.out pos (r # e) (drop (nat pos) s))))"
    unfolding len using inv'(2) ends le by (simp add: i_def n_def)
  moreover have "str.out (pos + off) (i # inv') (str.out pos (r # e) (drop (nat pos) s)) = drop (nat pos) s"
  proof -
    have "nat (st + off + n - (pos + off)) = nat (st - pos) + length (sr_newText r)" using le by (simp add: n_def)
    moreover have "js_substring s st en @ drop (nat en) s = drop (nat st) s"
    proof -
      have "nat en = nat (en - st) + nat st" using le Cons.prems(1) by simp
      then have "take (nat (en - st)) (drop (nat st) s) @ drop (nat en) s = drop (nat st) s"
        by (metis append_take_drop_id drop_drop)
      then show ?thesis using le Cons.prems(1) by (simp add: js_substring_int)
    qed
    moreover have "take (nat (st - pos)) (drop (nat pos) s) @ drop (nat st) s = drop (nat pos) s"
    proof -
      have "nat st = nat (st - pos) + nat pos" using le Cons.prems(1) by simp
      then show ?thesis by (metis append_take_drop_id drop_drop)
    qed
    ultimately show ?thesis using inv'(3) ends tn unfolding M by (simp add: i_def)
  qed
  ultimately show ?case by blast
qed (auto simp: within_le)

lemma string_inverse:
  assumes "edit_of e s"
  shows "\<exists>inv. StringEdit_inverse e s = Ok inv \<and> edit_of inv (StringEdit_apply e s) \<and>
    StringEdit_apply inv (StringEdit_apply e s) = s"
proof -
  obtain inv where inv: "inverseOnSlice_loop (js_substring s) e 0 = Ok inv"
      "within string_class 0 inv (int (length (str.out 0 e s)))" "str.out 0 inv (str.out 0 e s) = s"
    using inverse_loop_spec [of 0 e s 0] assms by (auto simp: edit_of_def)
  have "new_StringEdit inv = Ok inv"
    using within_sorted [OF inv(2), of "-1"] by (simp add: new_StringEdit_def new_Edit_def)
  then show ?thesis
    using inv apply_out [OF assms] apply_out [of inv "str.out 0 e s"]
    by (simp add: StringEdit_inverse_def inverseOnSlice_def edit_of_def)
qed

end
