(* ===== verification/StringRebase.thy ===== *)
theory StringRebase
  imports StringEditProofs
begin

text \<open>
  Rebasing a string edit over a concurrent one: \<open>merge_edits\<close> is the edit that makes the changes of both,
  and either edit followed by the other one rebased has its effect.
\<close>

section \<open>Conflicts\<close>

abbreviation sr_conflict :: "StringReplacement \<Rightarrow> StringReplacement \<Rightarrow> bool" where
  "sr_conflict r b \<equiv> rebase_conflict (sr_replaceRange r) (sr_replaceRange b)"

abbreviation sr_first :: "StringReplacement \<Rightarrow> StringReplacement \<Rightarrow> bool" where
  "sr_first r b \<equiv> our_first (sr_replaceRange r) (sr_replaceRange b)"

lemmas rebase_simps = rebase_conflict_def our_first_def OffsetRange_intersects_def areConcurrentInserts_def
  isInsertStrictlyInsideRange_def OffsetRange_isEmpty_def Let_def

lemma rebase_conflict_iff:
  assumes "or_start r \<le> or_endExclusive r" "or_start b \<le> or_endExclusive b"
  shows "rebase_conflict r b \<longleftrightarrow> or_start r < or_endExclusive b \<and> or_start b < or_endExclusive r \<or>
    or_start r = or_endExclusive r \<and> or_start b = or_endExclusive b \<and> or_start r = or_start b"
  using assms unfolding rebase_simps max_less_iff_conj min_less_iff_conj by linarith

lemma rebase_conflict_sym: "rebase_conflict r b \<longleftrightarrow> rebase_conflict b r"
  unfolding rebase_simps max_less_iff_conj min_less_iff_conj by linarith

lemma our_first_total:
  "or_start r \<le> or_endExclusive r \<Longrightarrow> or_start b \<le> or_endExclusive b \<Longrightarrow> \<not> rebase_conflict r b \<Longrightarrow>
    our_first b r \<longleftrightarrow> \<not> our_first r b"
  unfolding rebase_conflict_iff our_first_def OffsetRange_isEmpty_def by linarith

lemma our_first_before:
  "or_start r \<le> or_endExclusive r \<Longrightarrow> or_start b \<le> or_endExclusive b \<Longrightarrow> \<not> rebase_conflict r b \<Longrightarrow>
    our_first r b \<Longrightarrow> or_endExclusive r \<le> or_start b"
  unfolding rebase_conflict_iff our_first_def OffsetRange_isEmpty_def by linarith

lemma before_no_conflict:
  "or_start r \<le> or_endExclusive r \<Longrightarrow> or_start b \<le> or_endExclusive b \<Longrightarrow> or_start b' \<le> or_endExclusive b' \<Longrightarrow>
    \<not> rebase_conflict r b \<Longrightarrow> our_first r b \<Longrightarrow> or_endExclusive b \<le> or_start b' \<Longrightarrow> \<not> rebase_conflict r b'"
  unfolding rebase_conflict_iff our_first_def OffsetRange_isEmpty_def by linarith

section \<open>The changes of both\<close>

fun merge_edits :: "StringEdit \<Rightarrow> StringEdit \<Rightarrow> StringEdit option" where
  "merge_edits [] bs = Some bs"
| "merge_edits (r # rs) [] = Some (r # rs)"
| "merge_edits (r # rs) (b # bs) =
     (if sr_conflict r b then None
      else if sr_first r b then map_option ((#) r) (merge_edits rs (b # bs))
      else map_option ((#) b) (merge_edits (r # rs) bs))"

lemma merge_Nil [simp]: "merge_edits rs [] = Some rs"
  by (cases rs) auto

lemma merge_sym:
  "within string_class p rs n \<Longrightarrow> within string_class p' bs n \<Longrightarrow> merge_edits rs bs = merge_edits bs rs"
proof (induction rs bs arbitrary: p p' rule: merge_edits.induct)
  case (3 r rs b bs)
  then show ?case
    using rebase_conflict_sym [of "sr_replaceRange r" "sr_replaceRange b"]
      our_first_total [of "sr_replaceRange r" "sr_replaceRange b"]
    by auto
qed auto

lemma within_mem:
  "within string_class q xs n \<Longrightarrow> a \<in> set xs \<Longrightarrow>
    q \<le> or_start (sr_replaceRange a) \<and> or_start (sr_replaceRange a) \<le> or_endExclusive (sr_replaceRange a)"
  by (induction xs arbitrary: q) fastforce+

lemma merge_conflicts:
  "within string_class p rs n \<Longrightarrow> within string_class p' bs n \<Longrightarrow>
    merge_edits rs bs = None \<longleftrightarrow> (\<exists>r \<in> set rs. \<exists>b \<in> set bs. sr_conflict r b)"
proof (induction rs bs arbitrary: p p' rule: merge_edits.induct)
  case (3 r rs b bs)
  show ?case
  proof (cases "sr_conflict r b")
    case nc: False
    show ?thesis
    proof (cases "sr_first r b")
      case True
      have "\<not> sr_conflict r b'" if "b' \<in> set bs" for b'
        using before_no_conflict [OF _ _ _ nc True, of "sr_replaceRange b'"] within_mem [of "or_endExclusive (sr_replaceRange b)" bs n, OF _ that] 3(3,4) by simp
      then show ?thesis using 3(1) [OF nc True, of "or_endExclusive (sr_replaceRange r)" p'] 3(3,4) nc True by simp
    next
      case False
      have "sr_first b r" "\<not> sr_conflict b r"
        using our_first_total [of "sr_replaceRange r" "sr_replaceRange b"] nc False 3(3,4)
        by (auto simp: rebase_conflict_sym)
      then have "\<not> sr_conflict r' b" if "r' \<in> set rs" for r'
        using before_no_conflict [of "sr_replaceRange b" "sr_replaceRange r" "sr_replaceRange r'"] within_mem [of "or_endExclusive (sr_replaceRange r)" rs n, OF _ that] 3(3,4)
        by (simp add: rebase_conflict_sym [of "sr_replaceRange r'"])
      then show ?thesis using 3(2) [OF nc False, of p "or_endExclusive (sr_replaceRange b)"] 3(3,4) nc False by simp
    qed
  qed auto
qed auto

lemma merge_within:
  "within string_class p rs n \<Longrightarrow> within string_class p bs n \<Longrightarrow> merge_edits rs bs = Some m \<Longrightarrow> within string_class p m n"
proof (induction rs bs arbitrary: p m rule: merge_edits.induct)
  case (3 r rs b bs)
  then have nc: "\<not> sr_conflict r b" by (auto split: if_splits)
  show ?case
  proof (cases "sr_first r b")
    case True
    have "or_endExclusive (sr_replaceRange r) \<le> or_start (sr_replaceRange b)"
      using our_first_before [OF _ _ nc True] 3(3,4) by simp
    then show ?thesis using 3(1) [OF nc True, of "or_endExclusive (sr_replaceRange r)"] 3(3-5) nc True by auto
  next
    case False
    have "or_endExclusive (sr_replaceRange b) \<le> or_start (sr_replaceRange r)"
      using our_first_before [of "sr_replaceRange b" "sr_replaceRange r"]
        our_first_total [of "sr_replaceRange r" "sr_replaceRange b"] nc False 3(3,4)
      by (auto simp: rebase_conflict_sym)
    then show ?thesis using 3(2) [OF nc False, of "or_endExclusive (sr_replaceRange b)"] 3(3-5) nc False by auto
  qed
qed auto

section \<open>Rebasing\<close>

definition shifted :: "StringReplacement \<Rightarrow> int \<Rightarrow> StringReplacement" where
  "shifted r off = mk_sr (mk_or (or_start (sr_replaceRange r) + off) (or_endExclusive (sr_replaceRange r) + off)) (sr_newText r)"

lemma shifted_simps [simp]:
  "or_start (sr_replaceRange (shifted r off)) = or_start (sr_replaceRange r) + off"
  "or_endExclusive (sr_replaceRange (shifted r off)) = or_endExclusive (sr_replaceRange r) + off"
  "sr_newText (shifted r off) = sr_newText r"
  by (simp_all add: shifted_def)

lemma mk_sr_shifted [simp]: "mk_sr (sr_replaceRange (shifted r off)) (sr_newText r) = shifted r off"
  by (simp add: shifted_def)

lemma delta_shifted:
  "or_start (sr_replaceRange r) \<le> or_endExclusive (sr_replaceRange r) \<Longrightarrow>
    OffsetRange_delta (sr_replaceRange r) off = Ok (sr_replaceRange (shifted r off))"
  by (simp add: OffsetRange_delta_def new_OffsetRange_def shifted_def)

lemma rebase_over_Nil:
  "within string_class p rs n \<Longrightarrow> rebase_loop noOverlap rs [] off = Ok (Some (map (\<lambda>r. shifted r off) rs))"
  by (induction rs arbitrary: p) (auto simp: delta_shifted)

lemma within_shifted:
  "within string_class p rs n \<Longrightarrow> within string_class (p + off) (map (\<lambda>r. shifted r off) rs) (n + off)"
  by (induction rs arbitrary: p) auto

lemma out_shifted: "str.out (p + off) (map (\<lambda>r. shifted r off) rs) xs = str.out p rs xs"
  by (induction rs arbitrary: p xs) auto

lemma rebase_loop_merge:
  "within string_class p rs n \<Longrightarrow> within string_class p bs n \<Longrightarrow> n = p + int (length xs) \<Longrightarrow>
    (case merge_edits rs bs of
       None \<Rightarrow> rebase_loop True rs bs off = Ok None
     | Some m \<Rightarrow> \<exists>rs'. rebase_loop True rs bs off = Ok (Some rs') \<and>
         within string_class (p + off) rs' (p + off + int (length (str.out p bs xs))) \<and>
         str.out (p + off) rs' (str.out p bs xs) = str.out p m xs)"
proof (induction rs bs arbitrary: p off xs rule: merge_edits.induct)
  case (2 r rs)
  then show ?case
    using rebase_over_Nil [of p "r # rs" n True off] within_shifted [OF 2(1), of off] out_shifted [of p off "r # rs" xs]
    by (simp add: ac_simps del: rebase_loop.simps edit_out.simps(2))
next
  case (3 r rs b bs)
  show ?case
  proof (cases "sr_conflict r b")
    case nc: False
    show ?thesis
    proof (cases "sr_first r b")
      case True
      define en where "en = or_endExclusive (sr_replaceRange r)"
      define st where "st = or_start (sr_replaceRange r)"
      define ys where "ys = drop (nat (en - p)) xs"
      have le: "p \<le> st" "st \<le> en" "within string_class en rs n" using 3(3) by (simp_all add: en_def st_def)
      have before: "en \<le> or_start (sr_replaceRange b)"
        using our_first_before [OF _ _ nc True] 3(3,4) by (simp add: en_def)
      then have wb: "within string_class en (b # bs) n" using 3(4) by simp
      have "en \<le> n" using within_le [OF le(3)] .
      then have n: "n = en + int (length ys)" "en \<le> n" using le 3(5) by (simp_all add: ys_def)
      note step = str.step_before [OF 3(4,5) le(1,2) n(2) within_starts [OF wb], of "shifted r off" off]
      have loop: "rebase_loop True (r # rs) (b # bs) off =
          bind_result (rebase_loop True rs (b # bs) off) (\<lambda>out. Ok (map_option ((#) (shifted r off)) out))"
        "merge_edits (r # rs) (b # bs) = map_option ((#) r) (merge_edits rs (b # bs))"
        using nc True delta_shifted [of r off] le by (simp_all add: st_def en_def)
      have out_r: "str.out p (r # m) xs = take (nat (st - p)) xs @ sr_newText r @ str.out en m ys" for m
        by (simp add: ys_def st_def en_def)
      show ?thesis
        using 3(1) [OF nc True le(3) wb n(1), of off] step
        unfolding loop
        by (auto simp: out_r st_def en_def ys_def simp del: edit_out.simps(2) within.simps(2) split: option.splits)
    next
      case False
      define en where "en = or_endExclusive (sr_replaceRange b)"
      define st where "st = or_start (sr_replaceRange b)"
      define ys where "ys = drop (nat (en - p)) xs"
      define off' where "off' = off + (int (length (sr_newText b)) - OffsetRange_length (sr_replaceRange b))"
      have le: "p \<le> st" "st \<le> en" "within string_class en bs n" using 3(4) by (simp_all add: en_def st_def)
      have before: "en \<le> or_start (sr_replaceRange r)"
        using our_first_before [of "sr_replaceRange b" "sr_replaceRange r"]
          our_first_total [of "sr_replaceRange r" "sr_replaceRange b"] nc False 3(3,4)
        by (simp add: en_def rebase_conflict_sym [of "sr_replaceRange b"])
      then have wr: "within string_class en (r # rs) n" using 3(3) by simp
      have "en \<le> n" using within_le [OF le(3)] .
      then have n: "n = en + int (length ys)" "en \<le> n" using le 3(5) by (simp_all add: ys_def)
      note step = str.step_after [OF 3(5), of b off' off _ bs]
      have loop: "rebase_loop True (r # rs) (b # bs) off = rebase_loop True (r # rs) bs off'"
        "merge_edits (r # rs) (b # bs) = map_option ((#) b) (merge_edits (r # rs) bs)"
        using nc False by (simp_all add: off'_def)
      have out_b: "str.out p (b # m) xs = take (nat (st - p)) xs @ sr_newText b @ str.out en m ys" for m
        by (simp add: ys_def st_def en_def)
      show ?thesis
        using 3(2) [OF nc False wr le(3) n(1), of off'] step le n(2)
        unfolding loop
        by (auto simp: out_b off'_def OffsetRange_length_def st_def en_def ys_def simp del: edit_out.simps(2) split: option.splits)
    qed
  qed simp
qed simp

section \<open>Both orders have the same effect\<close>

definition edits_conflict :: "StringEdit \<Rightarrow> StringEdit \<Rightarrow> bool" where
  "edits_conflict e1 e2 \<longleftrightarrow> (\<exists>r \<in> set e1. \<exists>b \<in> set e2. sr_conflict r b)"

lemma edits_conflict_sym: "edits_conflict e1 e2 \<longleftrightarrow> edits_conflict e2 e1"
  using rebase_conflict_sym by (auto simp: edits_conflict_def)

lemma new_StringEdit_within: "within string_class 0 e n \<Longrightarrow> new_StringEdit e = Ok e"
  using within_sorted [of string_class 0 e n "-1"] by (simp add: new_StringEdit_def new_Edit_def)

lemma tryRebase_conflict:
  assumes "edit_of e s" "edit_of base s" "edits_conflict e base"
  shows "tryRebase e base = Ok None"
  using rebase_loop_merge [of 0 e "int (length s)" base s 0] merge_conflicts [of 0 e "int (length s)" 0 base] assms
  by (simp add: edit_of_def edits_conflict_def tryRebase_def tryRebase_overlap_def)

lemma tryRebase_merge:
  assumes "edit_of e s" "edit_of base s" "\<not> edits_conflict e base"
  shows "\<exists>e' m. tryRebase e base = Ok (Some e') \<and> merge_edits e base = Some m \<and> edit_of m s \<and>
    edit_of e' (StringEdit_apply base s) \<and> StringEdit_apply e' (StringEdit_apply base s) = StringEdit_apply m s"
proof -
  obtain m where m: "merge_edits e base = Some m"
    using merge_conflicts [of 0 e "int (length s)" 0 base] assms by (auto simp: edit_of_def edits_conflict_def)
  obtain e' where e': "rebase_loop True e base 0 = Ok (Some e')"
      "within string_class 0 e' (int (length (str.out 0 base s)))" "str.out 0 e' (str.out 0 base s) = str.out 0 m s"
    using rebase_loop_merge [of 0 e "int (length s)" base s 0] assms m by (auto simp: edit_of_def)
  have "edit_of m s" using merge_within [OF _ _ m] assms by (simp add: edit_of_def)
  moreover have "edit_of e' (StringEdit_apply base s)" using e'(2) apply_out [OF assms(2)] by (simp add: edit_of_def)
  ultimately show ?thesis
    using m e' apply_out [of m s] apply_out [of e' "str.out 0 base s"] apply_out [OF assms(2)] new_StringEdit_within [OF e'(2)]
    by (simp add: tryRebase_def tryRebase_overlap_def)
qed

lemma rebase_converges:
  assumes "edit_of e1 s" "edit_of e2 s" "\<not> edits_conflict e1 e2"
  shows "\<exists>e1' e2'. tryRebase e1 e2 = Ok (Some e1') \<and> tryRebase e2 e1 = Ok (Some e2') \<and>
    edit_of e1' (StringEdit_apply e2 s) \<and> edit_of e2' (StringEdit_apply e1 s) \<and>
    StringEdit_apply e1' (StringEdit_apply e2 s) = StringEdit_apply e2' (StringEdit_apply e1 s)"
  using tryRebase_merge [OF assms] tryRebase_merge [OF assms(2,1)] assms(3)
    merge_sym [of 0 e1 "int (length s)" 0 e2] assms(1,2)
  by (auto simp: edit_of_def edits_conflict_sym [of e2])

section \<open>Skipping conflicting replacements\<close>

lemma passed_by:
  assumes "or_start b \<le> or_endExclusive b" "or_start r \<le> or_endExclusive r" "or_start r' \<le> or_endExclusive r'"
    and "\<not> rebase_conflict r b" "\<not> our_first r b" "or_endExclusive r \<le> or_start r'"
  shows "\<not> rebase_conflict r' b \<and> \<not> our_first r' b"
  using assms unfolding rebase_conflict_iff [OF assms(2,1)] rebase_conflict_iff [OF assms(3,1)]
    our_first_def OffsetRange_isEmpty_def by linarith

lemma rebase_pass_base:
  "\<forall>r \<in> set rs. \<not> sr_conflict r b \<and> \<not> sr_first r b \<Longrightarrow>
    rebase_loop noOverlap rs (b # bs) off =
      rebase_loop noOverlap rs bs (off + (int (length (sr_newText b)) - OffsetRange_length (sr_replaceRange b)))"
  by (cases rs) auto

definition keep_over :: "StringEdit \<Rightarrow> StringEdit \<Rightarrow> StringEdit" where
  "keep_over rs bs = filter (\<lambda>r. \<forall>b \<in> set bs. \<not> sr_conflict r b) rs"

lemma rebase_skip_loop:
  "within string_class p rs n \<Longrightarrow> within string_class p' bs n' \<Longrightarrow>
    rebase_loop False rs bs off = rebase_loop True (keep_over rs bs) bs off"
proof (induction "length rs + length bs" arbitrary: rs bs p p' off rule: less_induct)
  case less
  consider "rs = []" | "bs = []" | r rs' b bs' where "rs = r # rs'" "bs = b # bs'"
    by (cases rs; cases bs) auto
  then show ?case
  proof cases
    case 1
    then show ?thesis by (simp add: keep_over_def)
  next
    case 2
    then show ?thesis using rebase_over_Nil [OF less.prems(1)] by (simp add: keep_over_def)
  next
    case 3
    have w: "within string_class (or_endExclusive (sr_replaceRange r)) rs' n"
        "within string_class (or_endExclusive (sr_replaceRange b)) bs' n'"
        "or_start (sr_replaceRange r) \<le> or_endExclusive (sr_replaceRange r)"
        "or_start (sr_replaceRange b) \<le> or_endExclusive (sr_replaceRange b)"
      using less.prems 3 by simp_all
    have IH1: "rebase_loop False rs' bs off = rebase_loop True (keep_over rs' bs) bs off"
      using less.hyps [of rs' bs] less.prems w 3 by simp
    show ?thesis
    proof (cases "sr_conflict r b")
      case True
      then show ?thesis using IH1 3 by (simp add: keep_over_def)
    next
      case nc: False
      show ?thesis
      proof (cases "sr_first r b")
        case True
        have "\<not> sr_conflict r b'" if "b' \<in> set bs'" for b'
          using before_no_conflict [OF w(3,4) _ nc True, of "sr_replaceRange b'"] within_mem [OF w(2) that] by simp
        then show ?thesis using IH1 3 nc True by (simp add: keep_over_def)
      next
        case False
        have passed: "\<not> sr_conflict r' b \<and> \<not> sr_first r' b" if "r' \<in> set rs" for r'
          using passed_by [OF w(4,3) _ nc False, of "sr_replaceRange r'"] within_mem [OF w(1), of r'] that nc False 3 by auto
        then have keep: "keep_over rs bs = keep_over rs bs'"
          using 3 by (auto simp: keep_over_def intro!: filter_cong)
        have "\<forall>r' \<in> set (keep_over rs bs'). \<not> sr_conflict r' b \<and> \<not> sr_first r' b"
          using passed by (simp add: keep_over_def)
        note step = rebase_pass_base [OF this]
        have "rebase_loop False rs (b # bs') off = rebase_loop False rs bs'
            (off + (int (length (sr_newText b)) - OffsetRange_length (sr_replaceRange b)))"
          using rebase_pass_base [of rs b] passed by blast
        moreover have "rebase_loop False rs bs' o' = rebase_loop True (keep_over rs bs') bs' o'" for o'
          using less.hyps [of rs bs' p "or_endExclusive (sr_replaceRange b)" o'] less.prems(1) w(2) 3 by simp
        ultimately show ?thesis using step 3(2) keep by simp
      qed
    qed
  qed
qed

lemma rebaseSkipConflicting_spec:
  assumes "edit_of e s" "edit_of base s"
  shows "rebaseSkipConflicting e base = tryRebase (keep_over e base) base"
    and "edit_of (keep_over e base) s" and "\<not> edits_conflict (keep_over e base) base"
  using rebase_skip_loop [of 0 e "int (length s)" 0 base "int (length s)" 0] assms
    within_filter [of string_class 0 e "int (length s)"]
  by (simp_all add: edit_of_def rebaseSkipConflicting_def tryRebase_def tryRebase_overlap_def keep_over_def edits_conflict_def)

end
