(* ===== verification/StringNarrow.thy ===== *)
theory StringNarrow
  imports StringRebase
begin

text \<open>
  Removing what a replacement has in common with the text it replaces, and normalising an edit on its
  source: the smaller edit has the same effect.
\<close>

section \<open>Segments of the source\<close>

definition seg :: "js_string \<Rightarrow> int \<Rightarrow> int \<Rightarrow> js_string" where
  "seg s a b = take (nat (b - a)) (drop (nat a) s)"

lemma js_substring_seg: "0 \<le> a \<Longrightarrow> a \<le> b \<Longrightarrow> b \<le> int (length s) \<Longrightarrow> js_substring s a b = seg s a b"
  by (simp add: seg_def js_substring_int)

lemma seg_same [simp]: "seg s a a = []"
  by (simp add: seg_def)

lemma seg_append: "0 \<le> a \<Longrightarrow> a \<le> b \<Longrightarrow> b \<le> c \<Longrightarrow> seg s a b @ seg s b c = seg s a c"
proof -
  assume le: "0 \<le> a" "a \<le> b" "b \<le> c"
  then have "nat (c - a) = nat (b - a) + nat (c - b)" "nat b = nat (b - a) + nat a" by simp_all
  then show ?thesis by (simp only: seg_def take_add drop_drop)
qed

lemma seg_length: "0 \<le> a \<Longrightarrow> a \<le> b \<Longrightarrow> b \<le> int (length s) \<Longrightarrow> int (length (seg s a b)) = b - a"
  by (simp add: seg_def)

lemma seg_take: "0 \<le> a \<Longrightarrow> a + int k \<le> b \<Longrightarrow> take k (seg s a b) = seg s a (a + int k)"
  by (simp add: seg_def min_def) linarith

lemma seg_drop: "0 \<le> a \<Longrightarrow> a + int k \<le> b \<Longrightarrow> drop k (seg s a b) = seg s (a + int k) b"
  by (simp add: seg_def drop_take nat_diff_distrib nat_add_distrib add.commute)

definition effect :: "js_string \<Rightarrow> int \<Rightarrow> StringEdit \<Rightarrow> js_string" where
  "effect s p e = str.out p e (drop (nat p) s)"

lemma effect_apply: "edit_of e s \<Longrightarrow> StringEdit_apply e s = effect s 0 e"
  by (simp add: apply_out effect_def)

lemma effect_Cons:
  assumes "0 \<le> p" "within string_class p (r # e) n"
  shows "effect s p (r # e) =
    seg s p (or_start (sr_replaceRange r)) @ sr_newText r @ effect s (or_endExclusive (sr_replaceRange r)) e"
proof -
  have "nat (or_endExclusive (sr_replaceRange r) - p) + nat p = nat (or_endExclusive (sr_replaceRange r))"
    using assms by simp linarith
  then show ?thesis by (simp add: effect_def seg_def)
qed

lemma effect_skip:
  assumes "0 \<le> a" "a \<le> b" "b \<le> int (length s)" "within string_class b e n"
  shows "effect s a e = seg s a b @ effect s b e"
proof -
  have "drop (nat a) s = seg s a b @ drop (nat b) s"
  proof -
    have "nat b = nat (b - a) + nat a" using assms(1,2) by simp
    then show ?thesis by (metis append_take_drop_id drop_drop seg_def)
  qed
  moreover have "starts_from string_class b e" using assms(4) by (cases e) (simp_all add: starts_from_def)
  ultimately show ?thesis
    using edit_out_skip [of string_class a "seg s a b" e sr_newText "drop (nat b) s"] within_first [OF assms(4)]
      seg_length [OF assms(1-3)]
    by (simp add: effect_def)
qed

section \<open>Narrowing\<close>

definition narrows :: "js_string \<Rightarrow> StringReplacement \<Rightarrow> StringReplacement \<Rightarrow> bool" where
  "narrows s r r' \<longleftrightarrow>
     or_start (sr_replaceRange r) \<le> or_start (sr_replaceRange r') \<and>
     or_start (sr_replaceRange r') \<le> or_endExclusive (sr_replaceRange r') \<and>
     or_endExclusive (sr_replaceRange r') \<le> or_endExclusive (sr_replaceRange r) \<and>
     sr_newText r = seg s (or_start (sr_replaceRange r)) (or_start (sr_replaceRange r')) @ sr_newText r' @
       seg s (or_endExclusive (sr_replaceRange r')) (or_endExclusive (sr_replaceRange r))"

definition in_text :: "js_string \<Rightarrow> StringReplacement \<Rightarrow> bool" where
  "in_text s r \<longleftrightarrow> 0 \<le> or_start (sr_replaceRange r) \<and> or_start (sr_replaceRange r) \<le> or_endExclusive (sr_replaceRange r) \<and>
     or_endExclusive (sr_replaceRange r) \<le> int (length s)"

lemma narrows_in_text: "in_text s r \<Longrightarrow> narrows s r r' \<Longrightarrow> in_text s r'"
  by (simp add: in_text_def narrows_def)

lemma narrows_refl: "in_text s r \<Longrightarrow> narrows s r r"
  by (simp add: in_text_def narrows_def)

lemma narrows_trans:
  assumes "in_text s a" "narrows s a b" "narrows s b c"
  shows "narrows s a c"
proof -
  have "seg s (or_start (sr_replaceRange a)) (or_start (sr_replaceRange b)) @
      seg s (or_start (sr_replaceRange b)) (or_start (sr_replaceRange c)) = seg s (or_start (sr_replaceRange a)) (or_start (sr_replaceRange c))"
    using assms by (intro seg_append) (simp_all add: in_text_def narrows_def)
  moreover have "seg s (or_endExclusive (sr_replaceRange c)) (or_endExclusive (sr_replaceRange b)) @
      seg s (or_endExclusive (sr_replaceRange b)) (or_endExclusive (sr_replaceRange a)) =
      seg s (or_endExclusive (sr_replaceRange c)) (or_endExclusive (sr_replaceRange a))"
    using assms by (intro seg_append) (simp_all add: in_text_def narrows_def)
  ultimately show ?thesis
    using assms(2,3) unfolding narrows_def by (metis append.assoc order.trans)
qed

lemma narrow_effect:
  "list_all2 (narrows s) e e' \<Longrightarrow> 0 \<le> p \<Longrightarrow> within string_class p e (int (length s)) \<Longrightarrow>
    within string_class p e' (int (length s)) \<and> effect s p e' = effect s p e"
proof (induction e e' arbitrary: p rule: list_all2_induct)
  case (Cons r e r' e')
  define st where "st = or_start (sr_replaceRange r)"
  define en where "en = or_endExclusive (sr_replaceRange r)"
  define st' where "st' = or_start (sr_replaceRange r')"
  define en' where "en' = or_endExclusive (sr_replaceRange r')"
  have r: "st \<le> st'" "st' \<le> en'" "en' \<le> en" "sr_newText r = seg s st st' @ sr_newText r' @ seg s en' en"
    using Cons.hyps(1) by (simp_all add: narrows_def st_def st'_def en_def en'_def)
  have p: "p \<le> st" "within string_class en e (int (length s))" "en \<le> int (length s)"
    using Cons.prems(2) within_le [of string_class en e] by (simp_all add: st_def en_def)
  have IH: "within string_class en e' (int (length s))" "effect s en e' = effect s en e"
    using Cons.IH [OF _ p(2)] p(1) r Cons.prems(1) by simp_all
  have w: "within string_class p (r' # e') (int (length s))"
    using IH(1) r p(1) within_lower [OF IH(1) r(3)] by (simp add: st'_def en'_def)
  have "effect s p (r' # e') = seg s p st' @ sr_newText r' @ seg s en' en @ effect s en e'"
    using effect_Cons [OF Cons.prems(1) w, of s] effect_skip [of en' en s e'] IH(1) r p Cons.prems(1)
    by (simp add: st'_def en'_def)
  also have "\<dots> = seg s p st @ sr_newText r @ effect s en e"
    using seg_append [of p st st' s] p(1) r Cons.prems(1) IH(2) by simp
  also have "\<dots> = effect s p (r # e)"
    using effect_Cons [OF Cons.prems, of s] by (simp add: st_def en_def)
  finally show ?case using w by simp
qed simp

section \<open>Common prefixes and suffixes\<close>

lemma narrows_prefix_suffix:
  assumes r: "in_text s r" and pl: "int k + int l \<le> or_endExclusive (sr_replaceRange r) - or_start (sr_replaceRange r)"
    and n: "k + l \<le> length (sr_newText r)"
    and pre: "take k (sr_newText r) = take k (seg s (or_start (sr_replaceRange r)) (or_endExclusive (sr_replaceRange r)))"
    and suf: "drop (length (sr_newText r) - l) (sr_newText r) =
      drop (length (seg s (or_start (sr_replaceRange r)) (or_endExclusive (sr_replaceRange r))) - l)
        (seg s (or_start (sr_replaceRange r)) (or_endExclusive (sr_replaceRange r)))"
  shows "narrows s r (mk_sr (mk_or (or_start (sr_replaceRange r) + int k) (or_endExclusive (sr_replaceRange r) - int l))
           (take (length (sr_newText r) - l - k) (drop k (sr_newText r))))"
proof -
  define st where "st = or_start (sr_replaceRange r)"
  define en where "en = or_endExclusive (sr_replaceRange r)"
  define t where "t = sr_newText r"
  have le: "0 \<le> st" "st \<le> en" "en \<le> int (length s)" using r by (simp_all add: in_text_def st_def en_def)
  have "t = take k t @ drop k t" by simp
  also have "drop k t = take (length t - l - k) (drop k t) @ drop (length t - l) t"
    using append_take_drop_id [of "length t - l - k" "drop k t"] n by (simp add: t_def)
  finally have t: "t = take k t @ take (length t - l - k) (drop k t) @ drop (length t - l) t" .
  have "take k t = seg s st (st + int k)"
    using pre seg_take [of st k en s] le pl by (simp add: t_def st_def en_def)
  moreover have "drop (length t - l) t = seg s (en - int l) en"
  proof -
    have "st + int (length (seg s st en) - l) = en - int l"
      using seg_length [OF le] pl by (simp add: st_def en_def of_nat_diff)
    then show ?thesis
      using suf seg_drop [of st "length (seg s st en) - l" en s] le by (simp add: t_def st_def en_def)
  qed
  ultimately show ?thesis
    using t pl unfolding narrows_def by (simp add: t_def st_def en_def)
qed

lemma removeCommonPrefix_narrows:
  assumes "in_text s r"
  shows "\<exists>r'. removeCommonPrefix r s = Ok r' \<and> narrows s r r'"
proof -
  define rg where "rg = sr_replaceRange r"
  define old where "old = seg s (or_start rg) (or_endExclusive rg)"
  define k where "k = commonPrefixLength old (sr_newText r)"
  have le: "0 \<le> or_start rg" "or_start rg \<le> or_endExclusive rg" "or_endExclusive rg \<le> int (length s)"
    using assms by (simp_all add: in_text_def rg_def)
  have old: "OffsetRange_substring rg s = old" using le by (simp add: OffsetRange_substring_def js_substring_seg old_def)
  have k: "k \<le> length old" "k \<le> length (sr_newText r)" "take k old = take k (sr_newText r)"
    using commonPrefixLength_spec [of old "sr_newText r"] by (simp_all add: k_def)
  have ll: "int (length old) = or_endExclusive rg - or_start rg" using seg_length [OF le] by (simp add: old_def)
  show ?thesis
  proof (cases "k = 0")
    case True
    then show ?thesis using narrows_refl [OF assms] old by (auto simp: removeCommonPrefix_def k_def rg_def)
  next
    case False
    have "narrows s r (mk_sr (mk_or (or_start rg + int k) (or_endExclusive rg)) (drop k (sr_newText r)))"
      using narrows_prefix_suffix [OF assms, of k 0] k ll by (simp add: rg_def old_def)
    moreover have "removeCommonPrefix r s = Ok (mk_sr (mk_or (or_start rg + int k) (or_endExclusive rg)) (drop k (sr_newText r)))"
      using False old k ll js_substring_nat [of k "length (sr_newText r)" "sr_newText r"]
      by (simp add: removeCommonPrefix_def OffsetRange_deltaStart_def new_OffsetRange_def StringReplacement_slice_def
          OffsetRange_substring_def Let_def flip: k_def rg_def)
    ultimately show ?thesis by blast
  qed
qed

lemma removeCommonSuffix_narrows:
  assumes "in_text s r"
  shows "\<exists>r'. removeCommonSuffix r s = Ok r' \<and> narrows s r r'"
proof -
  define rg where "rg = sr_replaceRange r"
  define old where "old = seg s (or_start rg) (or_endExclusive rg)"
  define k where "k = commonSuffixLength old (sr_newText r)"
  have le: "0 \<le> or_start rg" "or_start rg \<le> or_endExclusive rg" "or_endExclusive rg \<le> int (length s)"
    using assms by (simp_all add: in_text_def rg_def)
  have old: "OffsetRange_substring rg s = old" using le by (simp add: OffsetRange_substring_def js_substring_seg old_def)
  have k: "k \<le> length old" "k \<le> length (sr_newText r)"
      "drop (length old - k) old = drop (length (sr_newText r) - k) (sr_newText r)"
    using commonSuffixLength_spec [of old "sr_newText r"] by (simp_all add: k_def)
  have ll: "int (length old) = or_endExclusive rg - or_start rg" using seg_length [OF le] by (simp add: old_def)
  show ?thesis
  proof (cases "k = 0")
    case True
    then show ?thesis using narrows_refl [OF assms] old by (auto simp: removeCommonSuffix_def k_def rg_def)
  next
    case False
    define r' where "r' = mk_sr (mk_or (or_start rg) (or_endExclusive rg - int k)) (take (length (sr_newText r) - k) (sr_newText r))"
    have "narrows s r r'"
      using narrows_prefix_suffix [OF assms, of 0 k] k ll by (simp add: rg_def old_def r'_def)
    moreover have "removeCommonSuffix r s = Ok r'"
      using False old k ll js_substring_nat [of 0 "length (sr_newText r) - k" "sr_newText r"]
      by (simp add: removeCommonSuffix_def OffsetRange_deltaEnd_def new_OffsetRange_def StringReplacement_slice_def
          OffsetRange_substring_def Let_def r'_def of_nat_diff flip: k_def rg_def)
    ultimately show ?thesis by blast
  qed
qed

lemma removeCommonSuffixAndPrefix_narrows:
  assumes "in_text s r"
  shows "\<exists>r'. removeCommonSuffixAndPrefix r s = Ok r' \<and> narrows s r r'"
proof -
  obtain a where a: "removeCommonSuffix r s = Ok a" "narrows s r a"
    using removeCommonSuffix_narrows [OF assms] by blast
  obtain b where b: "removeCommonPrefix a s = Ok b" "narrows s a b"
    using removeCommonPrefix_narrows [OF narrows_in_text [OF assms a(2)]] by blast
  show ?thesis
    using a(1) b(1) narrows_trans [OF assms a(2) b(2)] by (simp add: removeCommonSuffixAndPrefix_def)
qed

lemma removeCommonSuffixPrefix_narrows:
  assumes "in_text s r"
  shows "\<exists>r'. removeCommonSuffixPrefix r s = Ok r' \<and> narrows s r r'"
proof -
  define rg where "rg = sr_replaceRange r"
  define t where "t = sr_newText r"
  define old where "old = seg s (or_start rg) (or_endExclusive rg)"
  define k where "k = commonPrefixLength old t"
  define c where "c = commonSuffixLength old t"
  define l where "l = min (min (length old - k) (length t - k)) c"
  have le: "0 \<le> or_start rg" "or_start rg \<le> or_endExclusive rg" "or_endExclusive rg \<le> int (length s)"
    using assms by (simp_all add: in_text_def rg_def)
  have old: "js_substring s (or_start rg) (or_endExclusive rg) = old" using le by (simp add: js_substring_seg old_def)
  have k: "k \<le> length old" "k \<le> length t" "take k old = take k t"
    using commonPrefixLength_spec [of old t] by (simp_all add: k_def)
  have c: "c \<le> length old" "c \<le> length t" "drop (length old - c) old = drop (length t - c) t"
    using commonSuffixLength_spec [of old t] by (simp_all add: c_def)
  have l: "k + l \<le> length old" "k + l \<le> length t" "l \<le> c" using k by (auto simp: l_def)
  have "drop (length old - l) old = drop (length t - l) t"
    using arg_cong [OF c(3), of "drop (c - l)"] c(1,2) l(3) by simp
  moreover have ll: "int (length old) = or_endExclusive rg - or_start rg" using seg_length [OF le] by (simp add: old_def)
  ultimately have "narrows s r (mk_sr (mk_or (or_start rg + int k) (or_endExclusive rg - int l)) (take (length t - l - k) (drop k t)))"
    using narrows_prefix_suffix [OF assms, of k l] k(3) l by (simp add: rg_def old_def t_def)
  moreover have "min (min (int (length old) - int k) (int (length t) - int k)) (int c) = int l"
    using k by (simp add: l_def of_nat_diff)
  then have "removeCommonSuffixPrefix r s =
      Ok (mk_sr (mk_or (or_start rg + int k) (or_endExclusive rg - int l)) (take (length t - l - k) (drop k t)))"
    using old l ll js_substring_nat [of k "length t - l" t]
    by (simp add: removeCommonSuffixPrefix_def new_OffsetRange_def Let_def of_nat_diff flip: k_def rg_def t_def c_def)
  ultimately show ?thesis by blast
qed

section \<open>Edits\<close>

lemma map_result_narrows:
  assumes "\<And>r. in_text s r \<Longrightarrow> \<exists>r'. f r = Ok r' \<and> narrows s r r'"
  shows "\<forall>r \<in> set e. in_text s r \<Longrightarrow> \<exists>e'. map_result_list f e = Ok e' \<and> list_all2 (narrows s) e e'"
proof (induction e)
  case (Cons r e)
  obtain r' e' where "f r = Ok r'" "narrows s r r'" "map_result_list f e = Ok e'" "list_all2 (narrows s) e e'"
    using assms [of r] Cons by auto
  then show ?case by auto
qed simp

lemma edit_in_text: "edit_of e s \<Longrightarrow> \<forall>r \<in> set e. in_text s r"
proof -
  have "\<forall>r \<in> set e. in_text s r" if "within string_class p e (int (length s))" "0 \<le> p" for p
    using that by (induction e arbitrary: p) (auto simp: in_text_def dest: within_le)
  then show "edit_of e s \<Longrightarrow> \<forall>r \<in> set e. in_text s r" by (simp add: edit_of_def)
qed

lemma narrow_edit:
  assumes "edit_of e s" "list_all2 (narrows s) e e'"
  shows "edit_of e' s \<and> StringEdit_apply e' s = StringEdit_apply e s"
  using narrow_effect [OF assms(2), of 0] assms(1) effect_apply [of e s] effect_apply [of e' s] by (simp add: edit_of_def)

lemma effect_filter_empty:
  "0 \<le> p \<Longrightarrow> within string_class p e (int (length s)) \<Longrightarrow>
    effect s p (filter (\<lambda>r. \<not> BaseReplacement_isEmpty string_class r) e) = effect s p e"
proof (induction e arbitrary: p)
  case (Cons r e)
  define st where "st = or_start (sr_replaceRange r)"
  define en where "en = or_endExclusive (sr_replaceRange r)"
  have p: "p \<le> st" "st \<le> en" "within string_class en e (int (length s))" "en \<le> int (length s)"
    using Cons.prems(2) within_le [of string_class en e] by (simp_all add: st_def en_def)
  have IH: "effect s en (filter (\<lambda>r. \<not> BaseReplacement_isEmpty string_class r) e) = effect s en e"
    using Cons.IH p Cons.prems(1) by simp
  note e = effect_Cons [OF Cons.prems, of s]
  show ?case
  proof (cases "BaseReplacement_isEmpty string_class r")
    case True
    then have "sr_newText r = []" "st = en"
      by (simp_all add: BaseReplacement_isEmpty_def OffsetRange_length_def st_def en_def)
    then show ?thesis
      using True e IH effect_skip [OF Cons.prems(1) _ p(4) within_filter [OF p(3)], of "\<lambda>r. \<not> BaseReplacement_isEmpty string_class r"]
        p
      by (simp add: st_def en_def)
  next
    case False
    then have "within string_class p (r # filter (\<lambda>r. \<not> BaseReplacement_isEmpty string_class r) e) (int (length s))"
      using within_filter [OF p(3)] p by (simp add: st_def en_def)
    from effect_Cons [OF Cons.prems(1) this, of s] show ?thesis using False e IH by (simp add: en_def)
  qed
qed simp

lemma edit_of_ok: "edit_of e s \<Longrightarrow> new_StringEdit e = Ok e"
  by (simp add: edit_of_def new_StringEdit_within)

lemma removeCommonSuffixPrefix_spec:
  assumes "edit_of e s"
  shows "\<exists>e'. StringEdit_removeCommonSuffixPrefix e s = Ok e' \<and> edit_of e' s \<and>
    StringEdit_apply e' s = StringEdit_apply e s \<and> (\<forall>r \<in> set e'. \<not> BaseReplacement_isEmpty string_class r)"
proof -
  obtain e1 where e1: "map_result_list (\<lambda>r. removeCommonSuffixPrefix r s) e = Ok e1" "list_all2 (narrows s) e e1"
    using map_result_narrows [of s "\<lambda>r. removeCommonSuffixPrefix r s"] removeCommonSuffixPrefix_narrows edit_in_text [OF assms]
    by blast
  define e2 where "e2 = filter (\<lambda>r. \<not> BaseReplacement_isEmpty string_class r) e1"
  have n: "edit_of e1 s" "StringEdit_apply e1 s = StringEdit_apply e s" using narrow_edit [OF assms e1(2)] by simp_all
  then have "edit_of e2 s" using within_filter by (simp add: edit_of_def e2_def)
  moreover have "StringEdit_apply e2 s = StringEdit_apply e1 s"
    using effect_filter_empty [of 0 e1 s] n(1) \<open>edit_of e2 s\<close> by (simp add: effect_apply e2_def edit_of_def)
  ultimately show ?thesis
    using e1(1) n edit_of_ok [of e2 s] by (auto simp: StringEdit_removeCommonSuffixPrefix_def e2_def)
qed

lemma removeCommonSuffixAndPrefix_spec:
  assumes "edit_of e s"
  shows "\<exists>e'. StringEdit_removeCommonSuffixAndPrefix e s = Ok e' \<and> edit_of e' s \<and>
    StringEdit_apply e' s = StringEdit_apply e s"
proof -
  obtain e1 where e1: "map_result_list (\<lambda>r. removeCommonSuffixAndPrefix r s) e = Ok e1" "list_all2 (narrows s) e e1"
    using map_result_narrows [of s "\<lambda>r. removeCommonSuffixAndPrefix r s"] removeCommonSuffixAndPrefix_narrows
      edit_in_text [OF assms] by blast
  have n: "edit_of e1 s" "StringEdit_apply e1 s = StringEdit_apply e s" using narrow_edit [OF assms e1(2)] by simp_all
  then show ?thesis
    using e1(1) edit_of_ok [OF n(1)] string_normalize [OF n(1)] by (auto simp: StringEdit_removeCommonSuffixAndPrefix_def)
qed

lemma normalizeOnSource_spec:
  assumes "edit_of e s"
  shows "\<exists>e'. normalizeOnSource e s = Ok e' \<and> length e' \<le> 1 \<and> edit_of e' s \<and>
    StringEdit_apply e' s = StringEdit_apply e s"
proof -
  define w where "w = mk_sr (mk_or 0 (int (length s))) (StringEdit_apply e s)"
  have w: "in_text s w" "edit_of [w] s" "StringEdit_apply [w] s = StringEdit_apply e s"
    by (simp_all add: in_text_def edit_of_def w_def StringEdit_apply_def js_substring_from_int js_substring_seg)
  obtain x where x: "removeCommonSuffixAndPrefix w s = Ok x" "narrows s w x"
    using removeCommonSuffixAndPrefix_narrows [OF w(1)] by blast
  have n: "edit_of [x] s" "StringEdit_apply [x] s = StringEdit_apply e s"
    using narrow_edit [OF w(2), of "[x]"] x(2) w(3) by simp_all
  have empty: "StringEdit_apply [] s = StringEdit_apply e s" if "BaseReplacement_isEmpty string_class x"
    using effect_filter_empty [of 0 "[x]" s] n that effect_apply [of "[]" s] effect_apply [OF n(1)]
    by (simp add: edit_of_def)
  have "normalizeOnSource e s = (if BaseReplacement_isEmpty string_class x then Ok [] else Ok [x])"
    using x(1) edit_of_ok [OF n(1)]
    by (simp add: normalizeOnSource_def OffsetRange_ofLength_def new_OffsetRange_def Let_def w_def)
  then show ?thesis using n empty by (auto simp: edit_of_def)
qed

section \<open>JSON\<close>

lemma json_list:
  "\<forall>r \<in> set e. or_start (sr_replaceRange r) \<le> or_endExclusive (sr_replaceRange r) \<Longrightarrow>
    map_result_list StringReplacement_fromJson (map StringReplacement_toJson e) = Ok e"
  by (induction e)
    (simp_all add: StringReplacement_fromJson_def StringReplacement_toJson_def OffsetRange_ofStartAndLength_def
      new_OffsetRange_def OffsetRange_length_def)

lemma json_roundtrip: "edit_of e s \<Longrightarrow> StringEdit_fromJson (StringEdit_toJson e) = Ok e"
  using json_list [of e] edit_in_text [of e s] edit_of_ok [of e s]
  by (auto simp: StringEdit_fromJson_def StringEdit_toJson_def in_text_def)

end
