(* ===== verification/StringSequential.thy ===== *)
theory StringSequential
  imports StringNarrow
begin

text \<open>
  Composing many edits and composing replacements that were made one after the other.
\<close>

section \<open>Lists of edits\<close>

text \<open>Each edit of the list is one of the text its predecessors produce.\<close>

fun edits_of :: "StringEdit list \<Rightarrow> js_string \<Rightarrow> bool" where
  "edits_of [] s \<longleftrightarrow> True"
| "edits_of (e # es) s \<longleftrightarrow> edit_of e s \<and> edits_of es (StringEdit_apply e s)"

fun apply_edits :: "StringEdit list \<Rightarrow> js_string \<Rightarrow> js_string" where
  "apply_edits [] s = s"
| "apply_edits (e # es) s = apply_edits es (StringEdit_apply e s)"

lemma composeOrUndefined_loop_spec:
  "edit_of e s \<Longrightarrow> edits_of es (StringEdit_apply e s) \<Longrightarrow>
    \<exists>c. composeOrUndefined_loop e es = Ok c \<and> edit_of c s \<and>
      StringEdit_apply c s = apply_edits es (StringEdit_apply e s)"
proof (induction es arbitrary: e)
  case (Cons x es)
  obtain y where "StringEdit_compose e x = Ok y" "edit_of y s" "StringEdit_apply y s = StringEdit_apply x (StringEdit_apply e s)"
    using string_compose [OF Cons.prems(1), of x] Cons.prems(2) by auto
  then show ?case using Cons.IH [of y] Cons.prems(2) by simp
qed simp

section \<open>Sequential replacements\<close>

fun replaces_of :: "StringReplacement list \<Rightarrow> js_string \<Rightarrow> bool" where
  "replaces_of [] s \<longleftrightarrow> True"
| "replaces_of (r # rs) s \<longleftrightarrow> in_text s r \<and> replaces_of rs (replace_one r s)"

fun replace_all :: "StringReplacement list \<Rightarrow> js_string \<Rightarrow> js_string" where
  "replace_all [] s = s"
| "replace_all (r # rs) s = replace_all rs (replace_one r s)"

lemma apply_Nil [simp]: "StringEdit_apply [] s = s"
  by (simp add: StringEdit_apply_def js_substring_from_int)

lemma single_edit: "in_text s r \<Longrightarrow> edit_of [r] s \<and> StringEdit_apply [r] s = replace_one r s"
  by (simp add: in_text_def edit_of_def StringEdit_apply_def replace_one_def)

lemma replace_before:
  assumes "edit_of cur s" "in_text (StringEdit_apply cur s) r"
    "case cur of [] \<Rightarrow> True | l # _ \<Rightarrow> or_endExclusive (sr_replaceRange r) \<le> or_start (sr_replaceRange l)"
  shows "edit_of (r # cur) s \<and> StringEdit_apply (r # cur) s = replace_one r (StringEdit_apply cur s)"
proof -
  define st where "st = or_start (sr_replaceRange r)"
  define en where "en = or_endExclusive (sr_replaceRange r)"
  have w0: "within string_class 0 cur (int (length s))" using assms(1) by (simp add: edit_of_def)
  have nonneg: "0 \<le> st" "st \<le> en" "en \<le> int (length (StringEdit_apply cur s))"
    using assms(2) by (simp_all add: in_text_def st_def en_def)
  have len: "en \<le> int (length s)"
  proof (cases cur)
    case Nil
    then show ?thesis using nonneg(3) by simp
  next
    case (Cons l ls)
    then show ?thesis using assms(3) w0 within_le [of string_class "or_endExclusive (sr_replaceRange l)" ls "int (length s)"]
      by (simp add: en_def)
  qed
  have w: "within string_class en cur (int (length s))"
    using w0 assms(3) len by (cases cur) (simp_all add: en_def)
  then have e: "edit_of (r # cur) s" using nonneg by (simp add: edit_of_def st_def en_def)
  have t: "StringEdit_apply cur s = seg s 0 en @ effect s en cur"
    using effect_apply [OF assms(1)] effect_skip [OF _ _ len w, of 0] nonneg by simp
  have "replace_one r (StringEdit_apply cur s) = seg s 0 st @ sr_newText r @ effect s en cur"
  proof -
    have l: "length (seg s 0 en) = nat en" using seg_length [of 0 en s] nonneg len by simp
    have "take (nat st) (seg s 0 en) = seg s 0 st" using seg_take [of 0 "nat st" en s] nonneg by simp
    then show ?thesis
      using nonneg l t
      by (simp add: replace_one_def js_substring_int js_substring_from_int flip: st_def en_def)
  qed
  then show ?thesis
    using e effect_apply [OF e] effect_Cons [of 0 r cur "int (length s)" s] e by (simp add: edit_of_def st_def en_def)
qed

lemma composeSequential_loop_spec:
  "edit_of edit s \<Longrightarrow> edit_of cur (StringEdit_apply edit s) \<Longrightarrow>
    replaces_of rs (StringEdit_apply cur (StringEdit_apply edit s)) \<Longrightarrow>
    \<exists>c. composeSequential_loop rs edit cur = Ok c \<and> edit_of c s \<and>
      StringEdit_apply c s = replace_all rs (StringEdit_apply cur (StringEdit_apply edit s))"
proof (induction rs arbitrary: edit cur)
  case Nil
  then show ?case using string_compose [of edit s cur] edit_of_ok by fastforce
next
  case (Cons r rs)
  define t where "t = StringEdit_apply edit s"
  have r: "in_text (StringEdit_apply cur t) r" "replaces_of rs (replace_one r (StringEdit_apply cur t))"
    using Cons.prems(3) by (simp_all add: t_def)
  show ?case
  proof (cases "case cur of [] \<Rightarrow> True | l # _ \<Rightarrow> OffsetRange_isBefore (sr_replaceRange r) (sr_replaceRange l)")
    case True
    then have "edit_of (r # cur) t \<and> StringEdit_apply (r # cur) t = replace_one r (StringEdit_apply cur t)"
      using replace_before [of cur t r] Cons.prems(2) r(1)
      by (auto simp: OffsetRange_isBefore_def t_def split: list.splits)
    then show ?thesis using Cons.IH [OF Cons.prems(1), of "r # cur"] r(2) True by (simp add: t_def)
  next
    case False
    obtain c where c: "StringEdit_compose edit cur = Ok c" "edit_of c s" "StringEdit_apply c s = StringEdit_apply cur t"
      using string_compose [OF Cons.prems(1,2)] by (auto simp: t_def)
    then show ?thesis
      using Cons.IH [OF c(2), of "[r]"] single_edit [OF r(1)] r(2) False edit_of_ok [OF Cons.prems(2)]
      by (simp add: t_def)
  qed
qed

lemma composeSequential_spec:
  "replaces_of rs s \<Longrightarrow> \<exists>c. composeSequentialReplacements rs = Ok c \<and> edit_of c s \<and> StringEdit_apply c s = replace_all rs s"
  using composeSequential_loop_spec [of "[]" s "[]" rs]
  by (simp add: composeSequentialReplacements_def edit_of_def StringEdit_apply_def js_substring_from_int)

end
