(* ===== verification/StringSwap.thy ===== *)
theory StringSwap
  imports StringRebase
begin

text \<open>
  Swapping two consecutive edits: the pair \<open>trySwap\<close> returns has the effect of the original pair.
\<close>

section \<open>Rebasing sees only the lengths of the base\<close>

definition similar :: "StringReplacement \<Rightarrow> StringReplacement \<Rightarrow> bool" where
  "similar a b \<longleftrightarrow> sr_replaceRange a = sr_replaceRange b \<and> length (sr_newText a) = length (sr_newText b)"

lemma rebase_loop_similar:
  "list_all2 similar bs bs' \<Longrightarrow> rebase_loop noOverlap rs bs off = rebase_loop noOverlap rs bs' off"
proof (induction noOverlap rs bs off arbitrary: bs' rule: rebase_loop.induct)
  case (3 noOverlap r rs b bs offset)
  obtain b' cs where bs': "bs' = b' # cs" "similar b b'" "list_all2 similar bs cs"
    using 3(4) by (auto simp: list_all2_Cons1)
  have "sr_replaceRange b = sr_replaceRange b'" "length (sr_newText b) = length (sr_newText b')"
    using bs'(2) by (simp_all add: similar_def)
  then show ?case
    using 3(1) [of bs'] 3(2) [of bs'] 3(3) [of cs] 3(4) bs' by simp
qed auto

fun inverse_list :: "(int \<Rightarrow> int \<Rightarrow> js_string) \<Rightarrow> StringEdit \<Rightarrow> int \<Rightarrow> StringEdit" where
  "inverse_list f [] off = []"
| "inverse_list f (r # rs) off =
     mk_sr (mk_or (or_start (sr_replaceRange r) + off) (or_start (sr_replaceRange r) + off + int (length (sr_newText r))))
       (f (or_start (sr_replaceRange r)) (or_endExclusive (sr_replaceRange r))) #
     inverse_list f rs (off + (int (length (sr_newText r)) - OffsetRange_length (sr_replaceRange r)))"

lemma inverse_loop_list: "inverseOnSlice_loop f e off = Ok (inverse_list f e off)"
  by (induction e arbitrary: off) (simp_all add: OffsetRange_ofStartAndLength_def new_OffsetRange_def Let_def)

definition slice_length :: "(int \<Rightarrow> int \<Rightarrow> js_string) \<Rightarrow> StringEdit \<Rightarrow> bool" where
  "slice_length f e \<longleftrightarrow> (\<forall>r \<in> set e. int (length (f (or_start (sr_replaceRange r)) (or_endExclusive (sr_replaceRange r)))) =
     OffsetRange_length (sr_replaceRange r))"

lemma inverse_similar:
  "slice_length f e \<Longrightarrow> slice_length g e \<Longrightarrow> list_all2 similar (inverse_list f e off) (inverse_list g e off)"
  by (induction e arbitrary: off) (auto simp: slice_length_def similar_def)

lemma slice_length_original:
  assumes "edit_of e s"
  shows "slice_length (js_substring s) e"
proof -
  have le: "or_endExclusive (sr_replaceRange r) \<le> int (length s)"
    if "within string_class p e (int (length s))" "r \<in> set e" for p r
    using that by (induction e arbitrary: p) (auto dest: within_le)
  have "int (length (js_substring s (or_start (sr_replaceRange r)) (or_endExclusive (sr_replaceRange r)))) =
      or_endExclusive (sr_replaceRange r) - or_start (sr_replaceRange r)" if "r \<in> set e" for r
    using assms that within_mem [of 0 e "int (length s)", OF _ that] le [of 0 r]
    by (simp add: edit_of_def js_substring_int) linarith
  then show ?thesis by (simp add: slice_length_def OffsetRange_length_def)
qed

lemma slice_length_spaces:
  assumes "edit_of e s"
  shows "slice_length (\<lambda>st en. replicate (nat (en - st)) 32) e"
  using assms within_mem [of 0 e "int (length s)"]
  by (auto simp: slice_length_def edit_of_def OffsetRange_length_def)

lemma within_similar: "list_all2 similar a b \<Longrightarrow> within string_class p a n \<longleftrightarrow> within string_class p b n"
  by (induction a b arbitrary: p rule: list_all2_induct) (auto simp: similar_def)

section \<open>Rebasing over the inverse and back\<close>

lemma rebase_starts:
  assumes "within string_class p rs n" "within string_class p bs n" "rebase_loop True rs bs off = Ok (Some rs')"
  shows "\<exists>n'. within string_class (p + off) rs' n'"
proof -
  have "n = p + int (length (replicate (nat (n - p)) (0 :: nat)))" using within_le [OF assms(1)] by simp
  from rebase_loop_merge [OF assms(1,2), of "replicate (nat (n - p)) 0" off] this assms(3) show ?thesis
    by (auto split: option.splits)
qed

lemma shifted_back [simp]: "shifted (shifted r (- off)) off = r"
  by (simp add: shifted_def)

lemma rebase_back:
  "within string_class p rs n \<Longrightarrow> within string_class p (inverse_list f e off) n \<Longrightarrow> within string_class p' e n' \<Longrightarrow>
    slice_length f e \<Longrightarrow> rebase_loop True rs (inverse_list f e off) (- off) = Ok (Some rs') \<Longrightarrow>
    rebase_loop True rs' e off = Ok (Some rs'') \<Longrightarrow> rs'' = rs"
proof (induction "length rs + length e" arbitrary: rs e p p' off rs' rs'' rule: less_induct)
  case less
  consider "rs = []" | "e = []" | r rs1 b bs where "rs = r # rs1" "e = b # bs"
    by (cases rs; cases e) auto
  then show ?case
  proof cases
    case 1
    then show ?thesis using less.prems by auto
  next
    case 2
    have "rs' = map (\<lambda>r. shifted r (- off)) rs"
      using less.prems(5) rebase_over_Nil [OF less.prems(1)] 2 by simp
    moreover have "within string_class (p + (- off)) (map (\<lambda>r. shifted r (- off)) rs) (n + (- off))"
      using within_shifted [OF less.prems(1)] .
    ultimately show ?thesis
      using less.prems(6) rebase_over_Nil [of "p + (- off)" rs' "n + (- off)" True off] 2 by (simp add: comp_def)
  next
    case 3
    define st where "st = or_start (sr_replaceRange b)"
    define en where "en = or_endExclusive (sr_replaceRange b)"
    define l where "l = int (length (sr_newText b))"
    define i where "i = mk_sr (mk_or (st + off) (st + off + l)) (f st en)"
    define off' where "off' = off + (l - (en - st))"
    define ivs where "ivs = inverse_list f bs off'"
    have inverse: "inverse_list f e off = i # ivs"
      using 3 by (simp add: i_def ivs_def off'_def st_def en_def l_def OffsetRange_length_def)
    have step: "- off + (int (length (sr_newText i)) - OffsetRange_length (sr_replaceRange i)) = - off'"
        "off + (int (length (sr_newText b)) - OffsetRange_length (sr_replaceRange b)) = off'"
      using less.prems(4) 3 by (simp_all add: slice_length_def i_def st_def en_def off'_def l_def OffsetRange_length_def)
    have wr: "p \<le> or_start (sr_replaceRange r)" "or_start (sr_replaceRange r) \<le> or_endExclusive (sr_replaceRange r)"
        "within string_class (or_endExclusive (sr_replaceRange r)) rs1 n"
      using less.prems(1) 3 by simp_all
    have wi: "p \<le> st + off" "0 \<le> l" "within string_class (st + off + l) ivs n" "st \<le> en" "within string_class en bs n'"
      using less.prems(2,3) 3 unfolding inverse by (simp_all add: i_def l_def st_def en_def)
    have nc: "\<not> sr_conflict r i" using less.prems(5) 3 unfolding inverse by auto
    have slice: "slice_length f bs" using less.prems(4) 3 by (simp add: slice_length_def)
    show ?thesis
    proof (cases "sr_first r i")
      case True
      have before: "or_endExclusive (sr_replaceRange r) \<le> st + off"
        using our_first_before [OF wr(2) _ nc True] wi(2) by (simp add: i_def)
      obtain rs1' where rs1': "rs' = shifted r (- off) # rs1'" "rebase_loop True rs1 (i # ivs) (- off) = Ok (Some rs1')"
        using less.prems(5) 3 nc True delta_shifted [OF wr(2), of "- off"] unfolding inverse
        by (auto simp: bind_result_eq_Inr)
      have "\<not> sr_conflict (shifted r (- off)) b" using less.prems(6) rs1'(1) 3 by auto
      moreover have "sr_first (shifted r (- off)) b"
        using before wr(2) unfolding our_first_def OffsetRange_isEmpty_def by (simp add: st_def) linarith
      ultimately obtain rs1'' where rs1'': "rs'' = r # rs1''" "rebase_loop True rs1' e off = Ok (Some rs1'')"
        using less.prems(6) rs1'(1) 3 delta_shifted [of "shifted r (- off)" off] wr(2)
        by (auto simp: bind_result_eq_Inr)
      have "within string_class (or_endExclusive (sr_replaceRange r)) (i # ivs) n"
        using wi before by (simp add: i_def)
      then show ?thesis
        using less.hyps [of rs1 e "or_endExclusive (sr_replaceRange r)" off p' rs1' rs1''] rs1' rs1'' wr(3) less.prems(3,4) 3
        unfolding inverse by simp
    next
      case False
      have after: "st + off + l \<le> or_start (sr_replaceRange r)"
        using our_first_before [of "sr_replaceRange i" "sr_replaceRange r"]
          our_first_total [of "sr_replaceRange r" "sr_replaceRange i"] nc False wr(2) wi(2)
        by (simp add: i_def rebase_conflict_sym [of "mk_or (st + off) (st + off + l)"])
      then have wrs: "within string_class (st + off + l) rs n" using wr 3 by simp
      have rs': "rebase_loop True rs ivs (- off') = Ok (Some rs')"
        using less.prems(5) nc False 3 step(1) unfolding inverse by simp
      obtain m where starts: "within string_class en rs' m"
        using rebase_starts [OF wrs wi(3) rs'] by (auto simp: off'_def)
      have "rebase_loop True rs' (b # bs) off = rebase_loop True rs' bs off'"
      proof (cases rs')
        case (Cons r' rs1')
        have nc': "\<not> sr_conflict r' b" using less.prems(6) Cons 3 by auto
        have "\<not> sr_first r' b"
          using nc' starts Cons wi(4) rebase_conflict_iff [of "sr_replaceRange r'" "sr_replaceRange b"]
          unfolding our_first_def OffsetRange_isEmpty_def by (auto simp: st_def en_def)
        then show ?thesis using nc' Cons step(2) by simp
      qed simp
      then have "rebase_loop True rs' bs off' = Ok (Some rs'')" using less.prems(6) 3 by simp
      then show ?thesis
        using less.hyps [of rs bs "st + off + l" off' en rs' rs''] wrs wi slice rs' 3 by (simp add: ivs_def)
    qed
  qed
qed

section \<open>Swapping\<close>

lemma trySwap_spec:
  assumes "edit_of e1 s" "edit_of e2 (StringEdit_apply e1 s)"
  shows "trySwap e1 e2 = Ok None \<or>
    (\<exists>f1 f2. trySwap e1 e2 = Ok (Some (f1, f2)) \<and> edit_of f1 s \<and> edit_of f2 (StringEdit_apply f1 s) \<and>
      StringEdit_apply f2 (StringEdit_apply f1 s) = StringEdit_apply e2 (StringEdit_apply e1 s))"
proof -
  define s1 where "s1 = StringEdit_apply e1 s"
  define iv where "iv = inverse_list (js_substring s) e1 0"
  define sp where "sp = inverse_list (\<lambda>st en. replicate (nat (en - st)) 32) e1 0"
  have iv: "edit_of iv s1" "StringEdit_apply iv s1 = s"
    using string_inverse [OF assms(1)]
    by (auto simp: StringEdit_inverse_def inverseOnSlice_def inverse_loop_list iv_def s1_def new_StringEdit_def
        new_Edit_def split: if_splits)
  have sim: "list_all2 similar sp iv"
    unfolding sp_def iv_def
    using inverse_similar [OF slice_length_spaces [OF assms(1)] slice_length_original [OF assms(1)]] .
  have "within string_class 0 sp (int (length s1))" using iv(1) within_similar [OF sim] by (simp add: edit_of_def)
  then have spaces: "inverseOnSlice (\<lambda>st en. replicate (nat (en - st)) 32) e1 = Ok sp"
    using new_StringEdit_within by (simp add: inverseOnSlice_def inverse_loop_list sp_def)
  have same: "tryRebase e2 sp = tryRebase e2 iv"
    using rebase_loop_similar [OF sim] by (simp add: tryRebase_def tryRebase_overlap_def)
  show ?thesis
  proof (cases "edits_conflict e2 iv")
    case True
    then show ?thesis
      using tryRebase_conflict [OF assms(2) _ True] iv(1) same spaces by (simp add: trySwap_def s1_def)
  next
    case False
    obtain f1 where f1: "tryRebase e2 iv = Ok (Some f1)" "edit_of f1 s"
      using tryRebase_merge [OF assms(2) _ False] iv by (auto simp: s1_def)
    show ?thesis
    proof (cases "edits_conflict e1 f1")
      case True
      then show ?thesis using tryRebase_conflict [OF assms(1) f1(2) True] f1(1) same spaces by (simp add: trySwap_def)
    next
      case False
      obtain f2 g where f2: "tryRebase e1 f1 = Ok (Some f2)" "tryRebase f1 e1 = Ok (Some g)"
          "edit_of f2 (StringEdit_apply f1 s)" "StringEdit_apply f2 (StringEdit_apply f1 s) = StringEdit_apply g s1"
        using rebase_converges [OF assms(1) f1(2) False] by (auto simp: s1_def)
      have "g = e2"
        using rebase_back [of 0 e2 "int (length s1)" "js_substring s" e1 0 0 "int (length s)" f1 g] assms iv(1) f1(1) f2(2)
          slice_length_original [OF assms(1)]
        by (auto simp: edit_of_def s1_def iv_def tryRebase_def tryRebase_overlap_def new_StringEdit_def new_Edit_def
            bind_result_eq_Inr split: option.splits if_splits)
      then show ?thesis using f1 f2 same spaces by (simp add: trySwap_def s1_def)
    qed
  qed
qed

end
