(* ===== verification/AnnotatedEdits.thy ===== *)
theory AnnotatedEdits
  imports StringEditProofs PrefixSums
begin

text \<open>
  The rest of \<open>stringEdit.ts\<close>, \<open>arrayEdit.ts\<close> and \<open>lengthEdit.ts\<close>: string edits whose replacements
  carry data (\<open>AnnotatedStringEdit\<close>), ranges moved through an edit (\<open>applyEditsToRanges\<close>), the factory
  functions, and a length edit applied to an array.

  The interface \<open>IEditData\<close> has the method \<open>join\<close> only; it is an argument of the class.
\<close>

section \<open>Annotated string edits\<close>

record 'd AnnotatedStringReplacement =
  as_replaceRange :: OffsetRange
  as_newText :: js_string
  as_data :: 'd

abbreviation mk_as :: "OffsetRange \<Rightarrow> js_string \<Rightarrow> 'd \<Rightarrow> 'd AnnotatedStringReplacement" where
  "mk_as r t d \<equiv> \<lparr>as_replaceRange = r, as_newText = t, as_data = d\<rparr>"

definition VoidEditData_join :: "unit \<Rightarrow> unit \<Rightarrow> unit option" where
  "VoidEditData_join d other = Some d"

definition AnnotatedStringReplacement_insert :: "int \<Rightarrow> js_string \<Rightarrow> 'd \<Rightarrow> 'd AnnotatedStringReplacement result" where
  "AnnotatedStringReplacement_insert offset text data = bind_result (OffsetRange_emptyAt offset) (\<lambda>r. Ok (mk_as r text data))"

definition AnnotatedStringReplacement_replace :: "OffsetRange \<Rightarrow> js_string \<Rightarrow> 'd \<Rightarrow> 'd AnnotatedStringReplacement" where
  "AnnotatedStringReplacement_replace rg text data = mk_as rg text data"

definition AnnotatedStringReplacement_delete :: "OffsetRange \<Rightarrow> 'd \<Rightarrow> 'd AnnotatedStringReplacement" where
  "AnnotatedStringReplacement_delete rg data = mk_as rg [] data"

definition AnnotatedStringReplacement_equals :: "'d AnnotatedStringReplacement \<Rightarrow> 'd AnnotatedStringReplacement \<Rightarrow> bool" where
  "AnnotatedStringReplacement_equals r other \<longleftrightarrow> OffsetRange_equals (as_replaceRange r) (as_replaceRange other) \<and>
     as_newText r = as_newText other \<and> as_data r = as_data other"

definition AnnotatedStringReplacement_tryJoinTouching ::
  "('d \<Rightarrow> 'd \<Rightarrow> 'd option) \<Rightarrow> 'd AnnotatedStringReplacement \<Rightarrow> 'd AnnotatedStringReplacement \<Rightarrow>
    'd AnnotatedStringReplacement option result" where
  "AnnotatedStringReplacement_tryJoinTouching join r other =
     (case join (as_data r) (as_data other) of
        None \<Rightarrow> Ok None
      | Some joined \<Rightarrow>
          bind_result (OffsetRange_joinRightTouching (as_replaceRange r) (as_replaceRange other))
            (\<lambda>rg. Ok (Some (mk_as rg (as_newText r @ as_newText other) joined))))"

definition AnnotatedStringReplacement_slice ::
  "'d AnnotatedStringReplacement \<Rightarrow> OffsetRange \<Rightarrow> OffsetRange \<Rightarrow> 'd AnnotatedStringReplacement" where
  "AnnotatedStringReplacement_slice r rg sub = mk_as rg (OffsetRange_substring sub (as_newText r)) (as_data r)"

definition annotated_string_class :: "('d \<Rightarrow> 'd \<Rightarrow> 'd option) \<Rightarrow> 'd AnnotatedStringReplacement repl_class" where
  "annotated_string_class join = \<lparr>rc_range = as_replaceRange, rc_newLength = (\<lambda>r. int (length (as_newText r))),
     rc_join = AnnotatedStringReplacement_tryJoinTouching join, rc_slice = AnnotatedStringReplacement_slice,
     rc_equals = AnnotatedStringReplacement_equals\<rparr>"

definition new_AnnotatedStringEdit ::
  "('d \<Rightarrow> 'd \<Rightarrow> 'd option) \<Rightarrow> 'd AnnotatedStringReplacement list \<Rightarrow> 'd AnnotatedStringReplacement list result" where
  "new_AnnotatedStringEdit join = new_Edit (annotated_string_class join)"

definition AnnotatedStringEdit_replace ::
  "('d \<Rightarrow> 'd \<Rightarrow> 'd option) \<Rightarrow> OffsetRange \<Rightarrow> js_string \<Rightarrow> 'd \<Rightarrow> 'd AnnotatedStringReplacement list result" where
  "AnnotatedStringEdit_replace join rg text data = new_AnnotatedStringEdit join [mk_as rg text data]"

definition AnnotatedStringEdit_insert ::
  "('d \<Rightarrow> 'd \<Rightarrow> 'd option) \<Rightarrow> int \<Rightarrow> js_string \<Rightarrow> 'd \<Rightarrow> 'd AnnotatedStringReplacement list result" where
  "AnnotatedStringEdit_insert join offset text data =
     bind_result (OffsetRange_emptyAt offset) (\<lambda>rg. new_AnnotatedStringEdit join [mk_as rg text data])"

definition AnnotatedStringEdit_delete ::
  "('d \<Rightarrow> 'd \<Rightarrow> 'd option) \<Rightarrow> OffsetRange \<Rightarrow> 'd \<Rightarrow> 'd AnnotatedStringReplacement list result" where
  "AnnotatedStringEdit_delete join rg data = new_AnnotatedStringEdit join [mk_as rg [] data]"

fun annotated_compose_loop ::
  "('d \<Rightarrow> 'd \<Rightarrow> 'd option) \<Rightarrow> 'd AnnotatedStringReplacement list \<Rightarrow> 'd AnnotatedStringReplacement list list \<Rightarrow>
    'd AnnotatedStringReplacement list result" where
  "annotated_compose_loop join e [] = Ok e"
| "annotated_compose_loop join e (x # xs) =
     bind_result (Edit_compose (annotated_string_class join) e x) (\<lambda>y. annotated_compose_loop join y xs)"

definition AnnotatedStringEdit_compose ::
  "('d \<Rightarrow> 'd \<Rightarrow> 'd option) \<Rightarrow> 'd AnnotatedStringReplacement list list \<Rightarrow> 'd AnnotatedStringReplacement list result" where
  "AnnotatedStringEdit_compose join edits = (case edits of [] \<Rightarrow> Ok [] | e # es \<Rightarrow> annotated_compose_loop join e es)"

definition toStringEdit ::
  "('d AnnotatedStringReplacement \<Rightarrow> bool) option \<Rightarrow> 'd AnnotatedStringReplacement list \<Rightarrow> StringEdit result" where
  "toStringEdit p e =
     new_StringEdit (map (\<lambda>r. mk_sr (as_replaceRange r) (as_newText r))
       (filter (\<lambda>r. case p of None \<Rightarrow> True | Some f \<Rightarrow> f r) e))"

section \<open>Factories of array and length edits\<close>

definition ArrayEdit_replace :: "OffsetRange \<Rightarrow> 'a list \<Rightarrow> 'a ArrayReplacement list result" where
  "ArrayEdit_replace rg items = new_Edit array_class [\<lparr>ar_replaceRange = rg, ar_newValue = items\<rparr>]"

definition ArrayEdit_insert :: "int \<Rightarrow> 'a list \<Rightarrow> 'a ArrayReplacement list result" where
  "ArrayEdit_insert offset items =
     bind_result (OffsetRange_emptyAt offset) (\<lambda>rg. new_Edit array_class [\<lparr>ar_replaceRange = rg, ar_newValue = items\<rparr>])"

definition ArrayEdit_delete :: "OffsetRange \<Rightarrow> 'a ArrayReplacement list result" where
  "ArrayEdit_delete rg = new_Edit array_class [\<lparr>ar_replaceRange = rg, ar_newValue = []\<rparr>]"

definition LengthEdit_replace :: "OffsetRange \<Rightarrow> int \<Rightarrow> LengthReplacement list result" where
  "LengthEdit_replace rg newLength = new_Edit length_class [\<lparr>le_replaceRange = rg, le_newLength = newLength\<rparr>]"

definition LengthEdit_insert :: "int \<Rightarrow> int \<Rightarrow> LengthReplacement list result" where
  "LengthEdit_insert offset newLength =
     bind_result (OffsetRange_emptyAt offset) (\<lambda>rg. new_Edit length_class [\<lparr>le_replaceRange = rg, le_newLength = newLength\<rparr>])"

definition LengthEdit_delete :: "OffsetRange \<Rightarrow> LengthReplacement list result" where
  "LengthEdit_delete rg = new_Edit length_class [\<lparr>le_replaceRange = rg, le_newLength = 0\<rparr>]"

section \<open>A length edit on an array\<close>

text \<open>\<open>new Array(n)\<close> has \<open>n\<close> holes.  \<open>copy_items\<close> is both copying loops: \<open>arr[i]\<close> for \<open>i\<close> below a bound.\<close>

definition new_Array :: "int \<Rightarrow> 'a option list result" where
  "new_Array n = (if n < 0 \<or> MAX_UINT_32 < n then Throw RangeError else Ok (replicate (nat n) None))"

function copy_items :: "'a list \<Rightarrow> int \<Rightarrow> int \<Rightarrow> int \<Rightarrow> 'a option list \<Rightarrow> int \<times> 'a option list" where
  "copy_items arr i stop dstPos newArr =
     (if i < stop then copy_items arr (i + 1) stop (dstPos + 1) (js_put newArr dstPos (js_get arr i))
      else (dstPos, newArr))"
  by pat_completeness auto
termination by (relation "measure (\<lambda>(arr, i, stop, d, n). nat (stop - i))") auto

declare copy_items.simps [simp del]

function fill_items :: "'a \<Rightarrow> int \<Rightarrow> int \<Rightarrow> int \<Rightarrow> 'a option list \<Rightarrow> int \<times> 'a option list" where
  "fill_items fillItem i n dstPos newArr =
     (if i < n then fill_items fillItem (i + 1) n (dstPos + 1) (js_put newArr dstPos (Some fillItem))
      else (dstPos, newArr))"
  by pat_completeness auto
termination by (relation "measure (\<lambda>(f, i, n, d, a). nat (n - i))") auto

declare fill_items.simps [simp del]

fun applyArray_loop :: "'a list \<Rightarrow> 'a \<Rightarrow> LengthReplacement list \<Rightarrow> int \<Rightarrow> int \<times> 'a option list \<Rightarrow> int \<times> int \<times> 'a option list" where
  "applyArray_loop arr fillItem [] srcPos (dstPos, newArr) = (srcPos, dstPos, newArr)"
| "applyArray_loop arr fillItem (r # rs) srcPos (dstPos, newArr) =
     (let (d1, a1) = copy_items arr srcPos (or_start (le_replaceRange r)) dstPos newArr
      in applyArray_loop arr fillItem rs (or_endExclusive (le_replaceRange r)) (fill_items fillItem 0 (le_newLength r) d1 a1))"

definition LengthEdit_applyArray :: "LengthReplacement list \<Rightarrow> 'a list \<Rightarrow> 'a \<Rightarrow> 'a option list result" where
  "LengthEdit_applyArray e arr fillItem =
     bind_result (new_Array (getNewDataLength length_class e (int (length arr)))) (\<lambda>newArr.
       let (srcPos, dstPos, a) = applyArray_loop arr fillItem e 0 (0, newArr)
       in Ok (snd (copy_items arr srcPos (int (length arr)) dstPos a)))"

section \<open>Ranges moved through an edit\<close>

fun ranges_before :: "OffsetRange list \<Rightarrow> int \<Rightarrow> int \<Rightarrow> (OffsetRange list \<times> OffsetRange list) result" where
  "ranges_before [] editStart offset = Ok ([], [])"
| "ranges_before (r # rs) editStart offset =
     (if or_endExclusive r \<ge> editStart then Ok ([], r # rs)
      else bind_result (OffsetRange_delta r offset) (\<lambda>r'.
           bind_result (ranges_before rs editStart offset) (\<lambda>(out, rest). Ok (r' # out, rest))))"

fun ranges_touching :: "OffsetRange list \<Rightarrow> OffsetRange \<Rightarrow> OffsetRange list \<times> OffsetRange list" where
  "ranges_touching [] rg = ([], [])"
| "ranges_touching (r # rs) rg =
     (if \<not> OffsetRange_intersectsOrTouches r rg then ([], r # rs)
      else (let (touching, rest) = ranges_touching rs rg in (r # touching, rest)))"

definition adjust_range :: "StringReplacement \<Rightarrow> bool \<Rightarrow> OffsetRange \<Rightarrow> OffsetRange result" where
  "adjust_range e isFirst r =
     (let n = int (length (sr_newText e)); rg = sr_replaceRange e
      in bind_result (OffsetRange_intersect r rg) (\<lambda>o'.
         case o' of
           None \<Rightarrow> Throw TypeError
         | Some common \<Rightarrow>
             bind_result (OffsetRange_deltaEnd r (- OffsetRange_length common + (if isFirst then n else 0))) (\<lambda>r1.
             let ahead = or_start r1 - or_start rg
             in bind_result (if ahead > 0 then OffsetRange_delta r1 (- ahead) else Ok r1) (\<lambda>r2.
                bind_result (if \<not> isFirst then OffsetRange_delta r2 n else Ok r2) (\<lambda>r3.
                  OffsetRange_delta r3 (- (n - OffsetRange_length rg)))))))"

text \<open>The loop runs from the last range to the first and puts each back at the front of the queue.\<close>

fun adjust_ranges :: "StringReplacement \<Rightarrow> bool \<Rightarrow> OffsetRange list \<Rightarrow> OffsetRange list \<Rightarrow> OffsetRange list result" where
  "adjust_ranges e isFirst [] queue = Ok queue"
| "adjust_ranges e isFirst (r # rs) queue =
     bind_result (adjust_ranges e False rs queue) (\<lambda>q.
     bind_result (adjust_range e isFirst r) (\<lambda>r'. Ok (r' # q)))"

fun deltas :: "OffsetRange list \<Rightarrow> int \<Rightarrow> OffsetRange list result" where
  "deltas [] offset = Ok []"
| "deltas (r # rs) offset =
     bind_result (OffsetRange_delta r offset) (\<lambda>r'. bind_result (deltas rs offset) (\<lambda>out. Ok (r' # out)))"

fun applyEdits_loop :: "StringEdit \<Rightarrow> OffsetRange list \<Rightarrow> int \<Rightarrow> OffsetRange list result" where
  "applyEdits_loop [] queue offset = deltas queue offset"
| "applyEdits_loop (e # es) queue offset =
     bind_result (ranges_before queue (or_start (sr_replaceRange e)) offset) (\<lambda>(out, rest).
     bind_result (case ranges_touching rest (sr_replaceRange e) of
         (intersecting, rest') \<Rightarrow> adjust_ranges e True intersecting rest') (\<lambda>queue'.
     bind_result (applyEdits_loop es queue'
         (offset + (int (length (sr_newText e)) - OffsetRange_length (sr_replaceRange e)))) (\<lambda>out'.
       Ok (out @ out'))))"

definition applyEditsToRanges :: "OffsetRange list \<Rightarrow> StringEdit \<Rightarrow> OffsetRange list result" where
  "applyEditsToRanges sortedRanges edit = applyEdits_loop edit sortedRanges 0"

end
