(* ===== verification/AnnotatedEditProofs.thy ===== *)
theory AnnotatedEditProofs
  imports AnnotatedEdits
begin

text \<open>
  Annotated string edits keep the contract of a replacement class for any \<open>join\<close> of their data, and a
  length edit applied to an array copies what it keeps and fills what it inserts.
\<close>

definition annotated_string_ok :: "'d AnnotatedStringReplacement \<Rightarrow> bool" where
  "annotated_string_ok r \<longleftrightarrow> wf_or_range (as_replaceRange r)"

interpretation ast: replacement "annotated_string_class join" as_newText annotated_string_ok for join
proof (unfold_locales, goal_cases)
  case (3 r rg a b)
  then show ?case
    by (simp add: annotated_string_class_def AnnotatedStringReplacement_slice_def OffsetRange_substring_def js_substring_nat
        annotated_string_ok_def wf_or_range_def)
next
  case (4 r r')
  then show ?case
    by (cases "join (as_data r) (as_data r')")
      (auto simp: annotated_string_class_def annotated_string_ok_def wf_or_range_def
        AnnotatedStringReplacement_tryJoinTouching_def joinRightTouching_ok)
qed (auto simp: annotated_string_class_def annotated_string_ok_def wf_or_range_def)

section \<open>Forgetting the data\<close>

abbreviation plain_edit :: "'d AnnotatedStringReplacement list \<Rightarrow> StringEdit" where
  "plain_edit e \<equiv> map (\<lambda>r. mk_sr (as_replaceRange r) (as_newText r)) e"

lemma plain_within: "within string_class b (plain_edit e) n \<longleftrightarrow> within (annotated_string_class join) b e n"
  by (induction e arbitrary: b) (simp_all add: annotated_string_class_def)

lemma plain_out: "str.out b (plain_edit e) xs = ast.out join b e xs"
  by (induction e arbitrary: b xs) (simp_all add: annotated_string_class_def)

lemma toStringEdit_plain: "edit_of (plain_edit e) s \<Longrightarrow> toStringEdit None e = Ok (plain_edit e)"
  using within_sorted [of string_class 0 "plain_edit e" "int (length s)" "-1"]
  by (simp add: toStringEdit_def new_StringEdit_def new_Edit_def edit_of_def)

lemma annotated_compose:
  assumes "edit_of (plain_edit e1) s" "edit_of (plain_edit e2) (StringEdit_apply (plain_edit e1) s)"
  shows "\<exists>e. Edit_compose (annotated_string_class join) e1 e2 = Ok e \<and> toStringEdit None e = Ok (plain_edit e) \<and>
    edit_of (plain_edit e) s \<and> StringEdit_apply (plain_edit e) s = StringEdit_apply (plain_edit e2) (StringEdit_apply (plain_edit e1) s)"
proof -
  have ok: "within (annotated_string_class join) b e n \<Longrightarrow> \<forall>r \<in> set e. annotated_string_ok r" for b e n
    by (induction e arbitrary: b) (auto simp: annotated_string_class_def annotated_string_ok_def wf_or_range_def)
  have w1: "within (annotated_string_class join) 0 e1 (int (length s))"
    and w2: "within (annotated_string_class join) 0 e2 (int (length (ast.out join 0 e1 s)))"
    using assms by (simp_all add: edit_of_def plain_within [of _ _ _ join] apply_out [OF assms(1)] plain_out [of _ _ _ join])
  obtain e where e: "Edit_compose (annotated_string_class join) e1 e2 = Ok e"
      "within (annotated_string_class join) 0 e (int (length s))"
      "ast.out join 0 e s = ast.out join 0 e2 (ast.out join 0 e1 s)"
    using ast.compose_spec [of e1 e2 join s] ok [OF w1] ok [OF w2] w1 w2 by metis
  have pe: "edit_of (plain_edit e) s" using e(2) by (simp add: edit_of_def plain_within [of _ _ _ join])
  have "StringEdit_apply (plain_edit e) s = StringEdit_apply (plain_edit e2) (StringEdit_apply (plain_edit e1) s)"
    using e(3) apply_out [OF pe] apply_out [OF assms(1)] apply_out [OF assms(2)] by (simp add: plain_out [of _ _ _ join])
  then show ?thesis using e(1) pe toStringEdit_plain [OF pe] by auto
qed

section \<open>Length edits on arrays\<close>

lemma js_put_hole:
  "js_put (map Some w @ replicate (Suc k) None) (int (length w)) (Some x) = map Some (w @ [x]) @ replicate k None"
  by (simp add: js_put_def list_update_append)

lemma copy_items_spec:
  "0 \<le> i \<Longrightarrow> i \<le> stop \<Longrightarrow> stop \<le> int (length arr) \<Longrightarrow> nat (stop - i) \<le> k \<Longrightarrow>
    copy_items arr i stop (int (length w)) (map Some w @ replicate k None) =
      (int (length w) + (stop - i), map Some (w @ take (nat (stop - i)) (drop (nat i) arr)) @ replicate (k - nat (stop - i)) None)"
proof (induction "nat (stop - i)" arbitrary: i w k)
  case 0
  then show ?case by (simp add: copy_items.simps)
next
  case (Suc m)
  then obtain k' where k: "k = Suc k'" "i < stop" by (cases k) auto
  have lt: "nat i < length arr" using k Suc.prems by linarith
  have "m = nat (stop - (i + 1))" using Suc.hyps(2) by linarith
  note IH = Suc.hyps(1) [OF this, of k' "w @ [arr ! nat i]"]
  have "nat (stop - i) = Suc (nat (stop - (i + 1)))" "nat (i + 1) = Suc (nat i)" using k Suc.prems(1) by linarith+
  then have "take (nat (stop - i)) (drop (nat i) arr) = arr ! nat i # take (nat (stop - (i + 1))) (drop (nat (i + 1)) arr)"
    by (simp flip: Cons_nth_drop_Suc [OF lt])
  moreover have "js_get arr i = Some (arr ! nat i)" using lt Suc.prems(1) by (simp add: js_get_def)
  ultimately show ?case
    using IH Suc.prems k js_put_hole [of w k' "arr ! nat i"]
    by (subst copy_items.simps) (simp add: add.commute)
qed

lemma fill_items_spec:
  "0 \<le> i \<Longrightarrow> i \<le> n \<Longrightarrow> nat (n - i) \<le> k \<Longrightarrow>
    fill_items x i n (int (length w)) (map Some w @ replicate k None) =
      (int (length w) + (n - i), map Some (w @ replicate (nat (n - i)) x) @ replicate (k - nat (n - i)) None)"
proof (induction "nat (n - i)" arbitrary: i w k)
  case 0
  then show ?case by (simp add: fill_items.simps)
next
  case (Suc m)
  then obtain k' where k: "k = Suc k'" "i < n" by (cases k) auto
  have "m = nat (n - (i + 1))" using Suc.hyps(2) by linarith
  note IH = Suc.hyps(1) [OF this, of k' "w @ [x]"]
  have "nat (n - i) = Suc (nat (n - (i + 1)))" using k by linarith
  then show ?case
    using IH Suc.prems k js_put_hole [of w k' x]
    by (subst fill_items.simps) (simp add: add.commute)
qed

lemma delta_sum: "Edit_getLengthDelta C e = (\<Sum>r \<leftarrow> e. BaseReplacement_getLengthDelta C r)"
proof -
  have "foldl (\<lambda>acc r. acc + BaseReplacement_getLengthDelta C r) a e = a + (\<Sum>r \<leftarrow> e. BaseReplacement_getLengthDelta C r)" for a
    by (induction e arbitrary: a) simp_all
  then show ?thesis by (simp add: Edit_getLengthDelta_def)
qed

lemma length_class_simps [simp]: "rc_range length_class = le_replaceRange" "rc_newLength length_class = le_newLength"
  by (simp_all add: length_class_def)

lemma out_length:
  "\<forall>r \<in> set e. 0 \<le> le_newLength r \<Longrightarrow> within length_class p e n \<Longrightarrow> n = p + int (length xs) \<Longrightarrow>
    int (length (len.out x p e xs)) = int (length xs) + Edit_getLengthDelta length_class e"
proof (induction e arbitrary: p xs)
  case (Cons r e)
  define en where "en = or_endExclusive (le_replaceRange r)"
  have w: "within length_class en e n" "p \<le> or_start (le_replaceRange r)" "or_start (le_replaceRange r) \<le> en"
    using Cons.prems(2) by (simp_all add: en_def)
  have "en \<le> n" using within_le [OF w(1)] .
  then have n: "n = en + int (length (drop (nat (en - p)) xs))" using Cons.prems(3) w(2,3) by simp
  show ?case
    using Cons.IH [OF _ w(1) n] Cons.prems(1,3) w(2,3) \<open>en \<le> n\<close>
    by (simp add: delta_sum BaseReplacement_getLengthDelta_def OffsetRange_length_def length_cont_def en_def)
qed (simp add: delta_sum)

lemma applyArray_loop_spec:
  "\<forall>r \<in> set e. 0 \<le> le_newLength r \<Longrightarrow> 0 \<le> p \<Longrightarrow> within length_class p e (int (length arr)) \<Longrightarrow>
    k = length (len.out x p e (drop (nat p) arr)) \<Longrightarrow>
    (let (srcPos, dstPos, a) = applyArray_loop arr x e p (int (length w), map Some w @ replicate k None)
     in snd (copy_items arr srcPos (int (length arr)) dstPos a)) =
      map Some (w @ len.out x p e (drop (nat p) arr))"
proof (induction e arbitrary: p w k)
  case Nil
  then show ?case using copy_items_spec [of p "int (length arr)" arr k w] by (simp add: nat_diff_distrib)
next
  case (Cons r e)
  define st where "st = or_start (le_replaceRange r)"
  define en where "en = or_endExclusive (le_replaceRange r)"
  define A where "A = take (nat (st - p)) (drop (nat p) arr)"
  define F where "F = replicate (nat (le_newLength r)) x"
  define B where "B = len.out x en e (drop (nat en) arr)"
  have le: "p \<le> st" "st \<le> en" "within length_class en e (int (length arr))"
    using Cons.prems(3) by (simp_all add: st_def en_def)
  have "en \<le> int (length arr)" using within_le [OF le(3)] .
  have nats: "nat (en - p) + nat p = nat en" using le Cons.prems(2) by linarith
  have out: "len.out x p (r # e) (drop (nat p) arr) = A @ F @ B"
    using nats by (simp add: A_def F_def B_def length_cont_def st_def en_def)
  have lA: "int (length A) = st - p" using le Cons.prems(2) \<open>en \<le> int (length arr)\<close> by (simp add: A_def)
  have lF: "0 \<le> le_newLength r" "length F = nat (le_newLength r)" using Cons.prems(1) by (simp_all add: F_def)
  have k: "k = length A + length F + length B" using Cons.prems(4) unfolding out by simp
  have c: "copy_items arr p st (int (length w)) (map Some w @ replicate k None) =
      (int (length (w @ A)), map Some (w @ A) @ replicate (length F + length B) None)"
    using copy_items_spec [of p st arr k w] Cons.prems(2) le \<open>en \<le> int (length arr)\<close> lA k
    by (simp add: A_def [symmetric])
  have f: "fill_items x 0 (le_newLength r) (int (length (w @ A))) (map Some (w @ A) @ replicate (length F + length B) None) =
      (int (length ((w @ A) @ F)), map Some ((w @ A) @ F) @ replicate (length B) None)"
    using fill_items_spec [of 0 "le_newLength r" "length F + length B" x "w @ A"] lF by (simp add: F_def)
  have "0 \<le> en" using Cons.prems(2) le by simp
  have step: "applyArray_loop arr x (r # e) p (int (length w), map Some w @ replicate k None) =
      applyArray_loop arr x e en (int (length ((w @ A) @ F)), map Some ((w @ A) @ F) @ replicate (length B) None)"
    by (simp only: applyArray_loop.simps Let_def prod.case c f flip: st_def en_def)
  show ?case
    using Cons.IH [OF _ \<open>0 \<le> en\<close> le(3), of "length B" "(w @ A) @ F"] Cons.prems(1)
    unfolding step out by (simp add: B_def)
qed

lemma applyArray_spec:
  assumes "\<forall>r \<in> set e. 0 \<le> le_newLength r" "within length_class 0 e (int (length arr))"
    and "int (length (len.out x 0 e arr)) \<le> MAX_UINT_32"
  shows "LengthEdit_applyArray e arr x = Ok (map Some (len.out x 0 e arr))"
proof -
  have n: "getNewDataLength length_class e (int (length arr)) = int (length (len.out x 0 e arr))"
    using out_length [OF assms(1,2), of arr x] by (simp add: getNewDataLength_def)
  show ?thesis
    using applyArray_loop_spec [OF assms(1) _ assms(2), of "length (len.out x 0 e arr)" x "[]"] assms(3)
    by (simp add: LengthEdit_applyArray_def new_Array_def n split: prod.splits)
qed

lemma applyArray_Ok:
  assumes "\<forall>r \<in> set e. 0 \<le> le_newLength r" "within length_class 0 e (int (length arr))"
    "LengthEdit_applyArray e arr x = Ok a"
  shows "a = map Some (len.out x 0 e arr)" "int (length (len.out x 0 e arr)) \<le> MAX_UINT_32"
proof -
  show m: "int (length (len.out x 0 e arr)) \<le> MAX_UINT_32"
    using assms(3) out_length [OF assms(1,2), of arr x]
    by (auto simp: LengthEdit_applyArray_def new_Array_def getNewDataLength_def split: if_splits)
  show "a = map Some (len.out x 0 e arr)" using applyArray_spec [OF assms(1,2) m] assms(3) by simp
qed

lemma length_compose:
  assumes ok: "\<forall>r \<in> set (e1 @ e2). 0 \<le> le_newLength r"
    and w1: "within length_class 0 e1 (int (length arr))" and a1: "LengthEdit_applyArray e1 arr x = Ok (map Some mid)"
    and w2: "within length_class 0 e2 (int (length mid))" and a2: "LengthEdit_applyArray e2 mid x = Ok (map Some res)"
  shows "\<exists>e. Edit_compose length_class e1 e2 = Ok e \<and> LengthEdit_applyArray e arr x = Ok (map Some res)"
proof -
  have oks: "within length_class b e n \<Longrightarrow> \<forall>r \<in> set e. 0 \<le> le_newLength r \<Longrightarrow> \<forall>r \<in> set e. length_ok r" for b e n
    by (induction e arbitrary: b) (auto simp: length_ok_def wf_or_range_def)
  have some: "map Some (xs :: 'a list) = map Some ys \<longleftrightarrow> xs = ys" for xs ys by (simp add: inj_map_eq_map)
  have ok1: "\<forall>r \<in> set e1. 0 \<le> le_newLength r" and ok2: "\<forall>r \<in> set e2. 0 \<le> le_newLength r" using ok by auto
  have mid: "mid = len.out x 0 e1 arr" using applyArray_Ok(1) [OF ok1 w1 a1] by (simp only: some)
  have res: "res = len.out x 0 e2 mid" "int (length res) \<le> MAX_UINT_32"
    using applyArray_Ok [OF ok2 w2 a2] by (simp_all only: some)
  obtain e where e: "Edit_compose length_class e1 e2 = Ok e" "\<forall>r \<in> set e. length_ok r"
      "within length_class 0 e (int (length arr))" "len.out x 0 e arr = len.out x 0 e2 (len.out x 0 e1 arr)"
    using len.compose_spec [OF oks [OF w1 ok1] oks [OF w2 ok2] w1 w2 [unfolded mid]] by blast
  have "\<forall>r \<in> set e. 0 \<le> le_newLength r" using e(2) by (simp add: length_ok_def)
  then show ?thesis using e(1) applyArray_spec [OF _ e(3), of x] e(4) res mid by auto
qed

end
