(* ===== verification/EditProperties.thy ===== *)
theory EditProperties
  imports StringSequential StringSwap AnnotatedEditProofs
begin

text \<open>
  The properties of the text edits, each with its witness.
\<close>

section \<open>Two concrete edits\<close>

definition example_text :: js_string where
  "example_text = [97, 98, 99, 100, 101]"

definition example_edit1 :: StringEdit where
  "example_edit1 = [mk_sr (mk_or 1 2) [120, 121]]"

definition example_edit2 :: StringEdit where
  "example_edit2 = [mk_sr (mk_or 0 0) [122], mk_sr (mk_or 3 5) []]"

lemma example_edits:
  "edit_of example_edit1 example_text" "edit_of example_edit2 example_text"
  "StringEdit_apply example_edit1 example_text = [97, 120, 121, 99, 100, 101]"
  "edit_of example_edit2 (StringEdit_apply example_edit1 example_text)"
  "edit_of [] example_text"
  by (simp_all add: edit_of_def example_edit1_def example_edit2_def example_text_def StringEdit_apply_def
      js_substring_from_int js_substring_int)

section \<open>Composition\<close>

text \<open>C22: Composing edits never throws and gives one edit of the original with the effect of making
  the edits one after the other: for two string edits, a list of string edits, single replacements made
  in sequence, two annotated string edits with any join of their data, two array edits, and two length
  edits applied to an array.  In the other direction, splitting a string edit gives two edits that have
  its effect one after the other.\<close>

theorem edit_composition:
  assumes "edit_of e1 s" "edit_of e2 (StringEdit_apply e1 s)" "edits_of (x # xs) s" "replaces_of rs s"
    and "edit_of (plain_edit n1) s" "edit_of (plain_edit n2) (StringEdit_apply (plain_edit n1) s)"
    and "within array_class 0 a1 (int (length d))" "within array_class 0 a2 (int (length (ArrayEdit_apply a1 d)))"
    and "\<forall>r \<in> set (l1 @ l2). 0 \<le> le_newLength r"
    and "within length_class 0 l1 (int (length d))" "LengthEdit_applyArray l1 d fill = Ok (map Some d1)"
    and "within length_class 0 l2 (int (length d1))" "LengthEdit_applyArray l2 d1 fill = Ok (map Some d2)"
  shows "(\<exists>e. StringEdit_compose e1 e2 = Ok e \<and> edit_of e s \<and>
      StringEdit_apply e s = StringEdit_apply e2 (StringEdit_apply e1 s)) \<and>
    (\<exists>c. StringEdit_compose_list (x # xs) = Ok c \<and> edit_of c s \<and> StringEdit_apply c s = apply_edits (x # xs) s) \<and>
    (\<exists>c. composeSequentialReplacements rs = Ok c \<and> edit_of c s \<and> StringEdit_apply c s = replace_all rs s) \<and>
    (\<exists>n. Edit_compose (annotated_string_class join) n1 n2 = Ok n \<and> toStringEdit None n = Ok (plain_edit n) \<and>
      edit_of (plain_edit n) s \<and> StringEdit_apply (plain_edit n) s = StringEdit_apply (plain_edit n2) (StringEdit_apply (plain_edit n1) s)) \<and>
    (\<exists>a. Edit_compose array_class a1 a2 = Ok a \<and> within array_class 0 a (int (length d)) \<and>
      ArrayEdit_apply a d = ArrayEdit_apply a2 (ArrayEdit_apply a1 d)) \<and>
    (\<exists>l. Edit_compose length_class l1 l2 = Ok l \<and> LengthEdit_applyArray l d fill = Ok (map Some d2)) \<and>
    (\<exists>b1 b2. decomposeSplit string_class p e1 = Ok (b1, b2) \<and> b1 = filter p e1 \<and> edit_of b1 s \<and>
      edit_of b2 (StringEdit_apply b1 s) \<and> StringEdit_apply b2 (StringEdit_apply b1 s) = StringEdit_apply e1 s)"
  using string_compose [OF assms(1,2)] composeOrUndefined_loop_spec [of x s xs] assms(3) composeSequential_spec [OF assms(4)]
    annotated_compose [OF assms(5,6), of join] array_compose [OF assms(7,8)] length_compose [OF assms(9-13)]
    string_decompose [OF assms(1), of p]
  by (simp add: StringEdit_compose_list_def)

theorem edit_composition_witness:
  "\<exists>e. StringEdit_compose example_edit1 example_edit2 = Ok e \<and> StringEdit_apply e example_text = [122, 97, 120, 121, 101]"
proof -
  have none: "edits_of [[]] example_text" "replaces_of [] example_text"
      "edit_of (plain_edit ([] :: unit AnnotatedStringReplacement list)) example_text"
      "edit_of (plain_edit ([] :: unit AnnotatedStringReplacement list))
        (StringEdit_apply (plain_edit ([] :: unit AnnotatedStringReplacement list)) example_text)"
      "within array_class 0 [] (int (length ([] :: nat list)))"
      "within array_class 0 [] (int (length (ArrayEdit_apply [] ([] :: nat list))))"
      "\<forall>r \<in> set ([] @ []). 0 \<le> le_newLength r" "within length_class 0 [] (int (length ([] :: nat list)))"
    using example_edits by (simp_all add: ArrayEdit_apply_def)
  have same: "LengthEdit_applyArray [] [] (0 :: nat) = Ok (map Some [])"
    by (simp add: LengthEdit_applyArray_def new_Array_def getNewDataLength_def Edit_getLengthDelta_def MAX_UINT_32_def
        copy_items.simps)
  have "StringEdit_apply example_edit2 [97, 120, 121, 99, 100, 101] = [122, 97, 120, 121, 101]"
    by (simp add: example_edit2_def StringEdit_apply_def js_substring_from_int js_substring_int)
  then show ?thesis
    using edit_composition [OF example_edits(1,4) none same none(8) same] unfolding example_edits(3) by metis
qed

section \<open>Inverse and normal forms\<close>

text \<open>C23: The inverse of a string edit undoes it; normalising an edit, removing what it has in common
  with the source and normalising it on the source keep its effect, the last with at most one
  replacement; and an edit is read back from its serialised form.\<close>

theorem edit_inverse_normalize:
  assumes "edit_of e s"
  shows "(\<exists>i. StringEdit_inverse e s = Ok i \<and> edit_of i (StringEdit_apply e s) \<and>
      StringEdit_apply i (StringEdit_apply e s) = s) \<and>
    (\<exists>e'. Edit_normalize string_class e = Ok e' \<and> edit_of e' s \<and> StringEdit_apply e' s = StringEdit_apply e s) \<and>
    (\<exists>e'. StringEdit_removeCommonSuffixPrefix e s = Ok e' \<and> edit_of e' s \<and> StringEdit_apply e' s = StringEdit_apply e s \<and>
      (\<forall>r \<in> set e'. \<not> BaseReplacement_isEmpty string_class r)) \<and>
    (\<exists>e'. StringEdit_removeCommonSuffixAndPrefix e s = Ok e' \<and> edit_of e' s \<and>
      StringEdit_apply e' s = StringEdit_apply e s) \<and>
    (\<exists>e'. normalizeOnSource e s = Ok e' \<and> length e' \<le> 1 \<and> edit_of e' s \<and> StringEdit_apply e' s = StringEdit_apply e s) \<and>
    StringEdit_fromJson (StringEdit_toJson e) = Ok e"
  using string_inverse [OF assms] string_normalize [OF assms] removeCommonSuffixPrefix_spec [OF assms]
    removeCommonSuffixAndPrefix_spec [OF assms] normalizeOnSource_spec [OF assms] json_roundtrip [OF assms] by blast

theorem edit_inverse_normalize_witness:
  "\<exists>i. StringEdit_inverse example_edit1 example_text = Ok i \<and> StringEdit_apply i [97, 120, 121, 99, 100, 101] = example_text"
  using edit_inverse_normalize [OF example_edits(1)] unfolding example_edits(3) by blast

section \<open>Rebasing\<close>

text \<open>C24: Two edits of the same text can be rebased over each other exactly when no replacement of one
  conflicts with one of the other; then making the first and the rebased second, or the second and the
  rebased first, gives the same text.  Rebasing with skipping rebases the replacements without a
  conflict.  Swapping two consecutive edits is refused or gives two edits that make, in the other order,
  the same change.\<close>

theorem edit_rebase_converges:
  assumes "edit_of e1 s" "edit_of e2 s" "edit_of e3 (StringEdit_apply e1 s)"
  shows "(if edits_conflict e1 e2 then tryRebase e1 e2 = Ok None \<and> tryRebase e2 e1 = Ok None
      else \<exists>e1' e2'. tryRebase e1 e2 = Ok (Some e1') \<and> tryRebase e2 e1 = Ok (Some e2') \<and>
        edit_of e1' (StringEdit_apply e2 s) \<and> edit_of e2' (StringEdit_apply e1 s) \<and>
        StringEdit_apply e1' (StringEdit_apply e2 s) = StringEdit_apply e2' (StringEdit_apply e1 s)) \<and>
    rebaseSkipConflicting e1 e2 = tryRebase (keep_over e1 e2) e2 \<and> \<not> edits_conflict (keep_over e1 e2) e2 \<and>
    (trySwap e1 e3 = Ok None \<or>
      (\<exists>f1 f2. trySwap e1 e3 = Ok (Some (f1, f2)) \<and> edit_of f1 s \<and> edit_of f2 (StringEdit_apply f1 s) \<and>
        StringEdit_apply f2 (StringEdit_apply f1 s) = StringEdit_apply e3 (StringEdit_apply e1 s)))"
  using tryRebase_conflict [OF assms(1,2)] tryRebase_conflict [OF assms(2,1)] edits_conflict_sym [of e1 e2]
    rebase_converges [OF assms(1,2)] rebaseSkipConflicting_spec [OF assms(1,2)] trySwap_spec [OF assms(1,3)] by auto

theorem edit_rebase_converges_witness:
  "\<exists>e1' e2'. tryRebase example_edit1 example_edit2 = Ok (Some e1') \<and> tryRebase example_edit2 example_edit1 = Ok (Some e2') \<and>
     StringEdit_apply e1' (StringEdit_apply example_edit2 example_text) =
     StringEdit_apply e2' (StringEdit_apply example_edit1 example_text)"
proof -
  have "\<not> edits_conflict example_edit1 example_edit2"
    by (simp add: edits_conflict_def example_edit1_def example_edit2_def rebase_conflict_iff)
  then show ?thesis using edit_rebase_converges [OF example_edits(1,2,4)] by auto
qed

section \<open>Offsets\<close>

text \<open>C25: Mapping offsets through a string edit: an offset has an image exactly when no replaced range
  holds it; the image holds the character of the offset, both directions of the mapping agree on it,
  mapping keeps the order, so that a range has an image; and the new ranges hold the inserted texts.\<close>

theorem edit_offsets:
  assumes "edit_of e s" "0 \<le> off" "off \<le> off'"
  shows "(applyToOffsetOrUndefined string_class e off = None \<longleftrightarrow>
      (\<exists>r \<in> set e. OffsetRange_contains (sr_replaceRange r) off)) \<and>
    (\<forall>q. applyToOffsetOrUndefined string_class e off = Some q \<longrightarrow>
      applyToOffset string_class e off = q \<and> applyInverseToOffset string_class e q = off \<and>
      (off < int (length s) \<longrightarrow> StringEdit_apply e s ! nat q = s ! nat off)) \<and>
    applyToOffsetRange string_class e (mk_or off off') =
      Ok (mk_or (applyToOffset string_class e off) (applyToOffset string_class e off')) \<and>
    (\<exists>rgs. getNewRanges string_class e = Ok rgs \<and> length rgs = length e \<and>
      (\<forall>i < length e. take (length (sr_newText (e ! i))) (drop (nat (or_start (rgs ! i))) (StringEdit_apply e s)) = sr_newText (e ! i) \<and>
        OffsetRange_length (rgs ! i) = int (length (sr_newText (e ! i)))))"
proof -
  have w: "within string_class 0 e (int (length s))" "\<forall>r \<in> set e. string_ok r"
    using assms(1) within_ok unfolding edit_of_def by blast+
  have "applyToOffset string_class e off \<le> applyToOffset string_class e off'"
    using str.offset_mono [OF w(2,1) assms(3)] by (simp add: applyToOffset_def)
  moreover have "applyToOffsetOrUndefined string_class e off = Some q \<Longrightarrow>
      applyToOffset string_class e off = q \<and> applyInverseToOffset string_class e q = off \<and>
      (off < int (length s) \<longrightarrow> StringEdit_apply e s ! nat q = s ! nat off)" for q
    using str.offset_Some [OF w(2,1) _ assms(2), of s 0 q] apply_out [OF assms(1)]
    by (simp add: applyToOffsetOrUndefined_def applyToOffset_def applyInverseToOffset_def)
  ultimately show ?thesis
    using str.offset_None [OF w(1), of off 0] str.new_ranges_spec [OF w(2,1), of s 0] apply_out [OF assms(1)]
    by (auto simp: applyToOffsetOrUndefined_def OffsetRange_contains_def applyToOffsetRange_def new_OffsetRange_def
        getNewRanges_def OffsetRange_length_def)
qed

theorem edit_offsets_witness:
  "applyToOffsetOrUndefined string_class example_edit1 1 = None \<and>
   applyToOffset string_class example_edit1 3 = 4 \<and> applyInverseToOffset string_class example_edit1 4 = 3"
proof -
  have "applyToOffsetOrUndefined string_class example_edit1 3 = Some 4"
    by (simp add: applyToOffsetOrUndefined_def example_edit1_def OffsetRange_length_def)
  then show ?thesis
    using edit_offsets [OF example_edits(1), of 1 3] edit_offsets [OF example_edits(1), of 3 3]
    by (simp add: example_edit1_def OffsetRange_contains_def)
qed

end
