(* ===== verification/ContextKeyValues.thy ===== *)
theory ContextKeyValues
  imports Complex_Main JsStrings
begin

text \<open>
  The values a context key can have, and the operators of the language that
  \<open>src/vs/platform/contextkey/common/contextkey.ts\<close> applies to them: truthiness, \<open>==\<close>, \<open>===\<close>,
  \<open><\<close>, \<open>Array.prototype.includes\<close> and \<open>parseFloat\<close>.

  A number is NaN, an infinity, or the rational number a double stands for (the two zeros are not
  told apart, as none of these operators does).  \<open>round_double\<close> is the rounding of the language to the
  nearest double, ties to even, so that the number a string is read as is the double of the engine.

  What the language leaves to tables and engines that are not under \<open>src/\<close> is a field of the
  environment \<open>ck_env\<close>: \<open>String(number)\<close>, \<open>toLowerCase\<close>, the letters of \<open>\p{L}\<close>, and the construction
  and the test of a regular expression.  So are the platform flag and the table of constants, which
  the start-up code fills.  Regular expressions are taken without the flags \<open>g\<close> and \<open>y\<close>, which would
  make \<open>test\<close> depend on earlier calls.
\<close>

section \<open>Literals\<close>

definition js_lit :: "string \<Rightarrow> js_string" where
  "js_lit s = map of_char s"

lemma js_lit_simps [simp]: "js_lit [] = []" "js_lit (c # cs) = of_char c # js_lit cs"
  by (simp_all add: js_lit_def)

section \<open>Numbers\<close>

datatype js_num = NaN | NegInf | Fin rat | PosInf

fun num_less :: "js_num \<Rightarrow> js_num \<Rightarrow> bool" where
  "num_less NaN y = False"
| "num_less x NaN = False"
| "num_less (Fin a) (Fin b) = (a < b)"
| "num_less NegInf y = (y \<noteq> NegInf)"
| "num_less x PosInf = (x \<noteq> PosInf)"
| "num_less x y = False"

definition num_eq :: "js_num \<Rightarrow> js_num \<Rightarrow> bool" where
  "num_eq x y \<longleftrightarrow> x = y \<and> x \<noteq> NaN"

definition num_le :: "js_num \<Rightarrow> js_num \<Rightarrow> bool" where
  "num_le x y \<longleftrightarrow> num_less x y \<or> num_eq x y"

definition pow2 :: "int \<Rightarrow> rat" where
  "pow2 e = (if e \<ge> 0 then 2 ^ nat e else 1 / 2 ^ nat (- e))"

function int_bits :: "int \<Rightarrow> int" where
  "int_bits n = (if n \<le> 0 then 0 else int_bits (n div 2) + 1)"
  by pat_completeness auto
termination by (relation "measure nat") auto

declare int_bits.simps [simp del]

definition round_half_even :: "rat \<Rightarrow> int" where
  "round_half_even q =
     (let f = \<lfloor>q\<rfloor>; d = q - of_int f
      in if d < 1 / 2 then f else if d > 1 / 2 then f + 1 else if even f then f else f + 1)"

text \<open>The exponent of the last of the 53 significant bits of a double.\<close>

definition double_exponent :: "rat \<Rightarrow> int" where
  "double_exponent q =
     (let (n, d) = quotient_of q;
          e = int_bits \<bar>n\<bar> - int_bits d - 53
      in max (-1074) (if \<bar>q\<bar> / pow2 e < 2 ^ 53 then e else e + 1))"

definition round_double :: "rat \<Rightarrow> js_num" where
  "round_double q =
     (let e = double_exponent q; r = of_int (round_half_even (q / pow2 e)) * pow2 e
      in if r \<ge> 2 ^ 1024 then PosInf else if r \<le> - (2 ^ 1024) then NegInf else Fin r)"

section \<open>Numbers in strings\<close>


definition digits_value :: "int \<Rightarrow> int list \<Rightarrow> int" where
  "digits_value base ds = foldl (\<lambda>acc d. acc * base + d) 0 ds"

definition decimal_value :: "js_string \<Rightarrow> int" where
  "decimal_value ds = digits_value 10 (map (\<lambda>c. c - 48) ds)"

definition pow10 :: "int \<Rightarrow> rat" where
  "pow10 e = (if e \<ge> 0 then 10 ^ nat e else 1 / 10 ^ nat (- e))"

text \<open>The optional exponent: with no digits after it the \<open>e\<close> is not part of the number.\<close>

definition scan_exponent :: "js_string \<Rightarrow> int \<times> js_string" where
  "scan_exponent s =
     (case s of
        c # t \<Rightarrow>
          if c = 101 \<or> c = 69 then
            (let (sg, u) = (case t of x # xs \<Rightarrow> if x = 43 then (1, xs) else if x = 45 then (-1, xs) else (1, t)
                                    | [] \<Rightarrow> (1, t));
                 ds = takeWhile isAsciiDigit u
             in if ds = [] then (0, s) else (sg * decimal_value ds, dropWhile isAsciiDigit u))
          else (0, s)
      | [] \<Rightarrow> (0, s))"

definition scan_unsigned :: "js_string \<Rightarrow> (js_num \<times> js_string) option" where
  "scan_unsigned s =
     (if take 8 s = js_lit ''Infinity'' then Some (PosInf, drop 8 s)
      else let ip = takeWhile isAsciiDigit s;
               r1 = dropWhile isAsciiDigit s;
               (fp, r2) = (case r1 of
                             c # t \<Rightarrow> if c = 46 then (takeWhile isAsciiDigit t, dropWhile isAsciiDigit t) else ([], r1)
                           | [] \<Rightarrow> ([], r1));
               (ex, r3) = scan_exponent r2
           in if ip = [] \<and> fp = [] then None
              else Some (round_double (of_int (decimal_value (ip @ fp)) * pow10 (ex - int (length fp))), r3))"

fun num_minus :: "js_num \<Rightarrow> js_num" where
  "num_minus NaN = NaN"
| "num_minus NegInf = PosInf"
| "num_minus PosInf = NegInf"
| "num_minus (Fin q) = Fin (- q)"

definition scan_decimal :: "js_string \<Rightarrow> (js_num \<times> js_string) option" where
  "scan_decimal s =
     (case s of
        c # t \<Rightarrow>
          if c = 43 then scan_unsigned t
          else if c = 45 then map_option (\<lambda>(n, r). (num_minus n, r)) (scan_unsigned t)
          else scan_unsigned s
      | [] \<Rightarrow> None)"

definition parseFloat :: "js_string \<Rightarrow> js_num" where
  "parseFloat s = (case scan_decimal (js_trimStart s) of None \<Rightarrow> NaN | Some (n, r) \<Rightarrow> n)"

definition digit_of :: "int \<Rightarrow> int option" where
  "digit_of c =
     (if isAsciiDigit c then Some (c - 48)
      else if isLowerAsciiLetter c then Some (c - 87)
      else if isUpperAsciiLetter c then Some (c - 55) else None)"

text \<open>The digits of a literal with a radix prefix.\<close>

definition radix_number :: "int \<Rightarrow> js_string \<Rightarrow> js_num" where
  "radix_number base s =
     (let ds = map digit_of s
      in if ds \<noteq> [] \<and> list_all (\<lambda>d. case d of None \<Rightarrow> False | Some v \<Rightarrow> v < base) ds
         then round_double (of_int (digits_value base (map the ds))) else NaN)"

definition string_toNumber :: "js_string \<Rightarrow> js_num" where
  "string_toNumber str =
     (let s = js_trim str in
      if s = [] then Fin 0
      else if take 2 s = js_lit ''0x'' \<or> take 2 s = js_lit ''0X'' then radix_number 16 (drop 2 s)
      else if take 2 s = js_lit ''0o'' \<or> take 2 s = js_lit ''0O'' then radix_number 8 (drop 2 s)
      else if take 2 s = js_lit ''0b'' \<or> take 2 s = js_lit ''0B'' then radix_number 2 (drop 2 s)
      else case scan_decimal s of Some (n, []) \<Rightarrow> n | _ \<Rightarrow> NaN)"

section \<open>Values and the environment\<close>

datatype js_prim = PUndefined | PNull | PBool bool | PNum js_num | PStr js_string

text \<open>A record keeps its own keys in order.\<close>

datatype ck_value = VPrim js_prim | VArray "js_prim list" | VRecord "(js_string \<times> js_prim) list"

type_synonym ck_context = "js_string \<Rightarrow> ck_value"

record js_regexp =
  re_source :: js_string
  re_flags :: js_string

record ck_env =
  CONSTANT_VALUES :: "js_string \<Rightarrow> bool option"
  isWindows :: bool
  numberToString :: "js_num \<Rightarrow> js_string"
  toLowerCase :: "js_string \<Rightarrow> js_string"
  regexTest :: "js_regexp \<Rightarrow> js_string \<Rightarrow> bool"
  newRegExp :: "js_string \<Rightarrow> js_string \<Rightarrow> js_regexp option"
  unicodeLetter :: "int \<Rightarrow> bool"

section \<open>Conversions and operators\<close>

fun prim_truthy :: "js_prim \<Rightarrow> bool" where
  "prim_truthy PUndefined = False"
| "prim_truthy PNull = False"
| "prim_truthy (PBool b) = b"
| "prim_truthy (PNum n) = (n \<noteq> NaN \<and> n \<noteq> Fin 0)"
| "prim_truthy (PStr s) = (s \<noteq> [])"

fun truthy :: "ck_value \<Rightarrow> bool" where
  "truthy (VPrim p) = prim_truthy p"
| "truthy v = True"

definition bool_string :: "bool \<Rightarrow> js_string" where
  "bool_string b = (if b then js_lit ''true'' else js_lit ''false'')"

fun prim_toString :: "ck_env \<Rightarrow> js_prim \<Rightarrow> js_string" where
  "prim_toString env PUndefined = js_lit ''undefined''"
| "prim_toString env PNull = js_lit ''null''"
| "prim_toString env (PBool b) = bool_string b"
| "prim_toString env (PNum n) = numberToString env n"
| "prim_toString env (PStr s) = s"

text \<open>\<open>Array.prototype.join\<close> prints \<open>null\<close> and \<open>undefined\<close> as nothing.\<close>

fun join_item :: "ck_env \<Rightarrow> js_prim \<Rightarrow> js_string" where
  "join_item env PUndefined = []"
| "join_item env PNull = []"
| "join_item env p = prim_toString env p"


fun value_toString :: "ck_env \<Rightarrow> ck_value \<Rightarrow> js_string" where
  "value_toString env (VPrim p) = prim_toString env p"
| "value_toString env (VArray ps) = js_join (js_lit '','') (map (join_item env) ps)"
| "value_toString env (VRecord kvs) = js_lit ''[object Object]''"

fun prim_toNumber :: "js_prim \<Rightarrow> js_num" where
  "prim_toNumber PUndefined = NaN"
| "prim_toNumber PNull = Fin 0"
| "prim_toNumber (PBool b) = Fin (if b then 1 else 0)"
| "prim_toNumber (PNum n) = n"
| "prim_toNumber (PStr s) = string_toNumber s"

text \<open>\<open>===\<close> and the comparison of \<open>includes\<close>, which differ on NaN.\<close>

fun prim_strict_eq :: "js_prim \<Rightarrow> js_prim \<Rightarrow> bool" where
  "prim_strict_eq (PNum a) (PNum b) = num_eq a b"
| "prim_strict_eq a b = (a = b)"

definition prim_same :: "js_prim \<Rightarrow> js_prim \<Rightarrow> bool" where
  "prim_same a b \<longleftrightarrow> a = b"

definition nullish :: "js_prim \<Rightarrow> bool" where
  "nullish p \<longleftrightarrow> p = PUndefined \<or> p = PNull"

text \<open>\<open>==\<close> of two primitive values: what is not of one type is compared as numbers.\<close>

fun prim_loose_eq :: "js_prim \<Rightarrow> js_prim \<Rightarrow> bool" where
  "prim_loose_eq (PStr a) (PStr b) = (a = b)"
| "prim_loose_eq a b =
     (if nullish a \<or> nullish b then nullish a \<and> nullish b
      else num_eq (prim_toNumber a) (prim_toNumber b))"

text \<open>An array or a record is converted to a string first, except against \<open>null\<close> and \<open>undefined\<close>.\<close>

definition loose_eq :: "ck_env \<Rightarrow> ck_value \<Rightarrow> js_prim \<Rightarrow> bool" where
  "loose_eq env v p =
     (case v of
        VPrim a \<Rightarrow> prim_loose_eq a p
      | _ \<Rightarrow> \<not> nullish p \<and> prim_loose_eq (PStr (value_toString env v)) p)"

text \<open>\<open><\<close>: two strings by code units, everything else as numbers.\<close>

fun prim_less :: "js_prim \<Rightarrow> js_prim \<Rightarrow> bool" where
  "prim_less (PStr a) (PStr b) = js_less a b"
| "prim_less a b = num_less (prim_toNumber a) (prim_toNumber b)"

text \<open>
  \<open>parseFloat\<close> of a value reads its string; for a number that is the number itself, since the string
  of a number reads back as that number.
\<close>

fun value_parseFloat :: "ck_env \<Rightarrow> ck_value \<Rightarrow> js_num" where
  "value_parseFloat env (VPrim (PNum n)) = n"
| "value_parseFloat env v = parseFloat (value_toString env v)"

end
