(* ===== verification/ContextKeys.thy ===== *)
theory ContextKeys
  imports ContextKeyValues ArraySelect
begin

text \<open>
  The expressions over context keys of \<open>src/vs/platform/contextkey/common/contextkey.ts\<close>: one
  constructor for each class, and the methods \<open>create\<close>, \<open>cmp\<close>, \<open>equals\<close>, \<open>evaluate\<close>, \<open>serialize\<close>,
  \<open>keys\<close>, \<open>map\<close> and \<open>negate\<close> of the classes without operands.

  A class without operands keeps its negation in a field \<open>negated\<close>; the field only saves the
  computation \<open>leaf_negate\<close> from being repeated, so it is not part of the value.  The classes
  \<open>ContextKeyAndExpr\<close> and \<open>ContextKeyOrExpr\<close> are given their negation by the caller in some
  places, so there it is a component.
\<close>

datatype ck_expr =
    CFalse
  | CTrue
  | CDefined js_string
  | CNot js_string
  | CEquals js_string js_prim
  | CNotEquals js_string js_prim
  | CAnd "ck_expr list" "ck_expr option"
  | CRegex js_string "js_regexp option"
  | CNotRegex js_string "js_regexp option"
  | COr "ck_expr list" "ck_expr option"
  | CIn js_string js_string
  | CNotIn js_string js_string
  | CGreater js_string js_prim
  | CGreaterEquals js_string js_prim
  | CSmaller js_string js_prim
  | CSmallerEquals js_string js_prim

fun ck_type :: "ck_expr \<Rightarrow> int" where
  "ck_type CFalse = 0"
| "ck_type CTrue = 1"
| "ck_type (CDefined k) = 2"
| "ck_type (CNot k) = 3"
| "ck_type (CEquals k v) = 4"
| "ck_type (CNotEquals k v) = 5"
| "ck_type (CAnd xs n) = 6"
| "ck_type (CRegex k r) = 7"
| "ck_type (CNotRegex k r) = 8"
| "ck_type (COr xs n) = 9"
| "ck_type (CIn k w) = 10"
| "ck_type (CNotIn k w) = 11"
| "ck_type (CGreater k v) = 12"
| "ck_type (CGreaterEquals k v) = 13"
| "ck_type (CSmaller k v) = 14"
| "ck_type (CSmallerEquals k v) = 15"

section \<open>Fields\<close>

fun ck_key :: "ck_expr \<Rightarrow> js_string" where
  "ck_key CFalse = []"
| "ck_key CTrue = []"
| "ck_key (CDefined k) = k"
| "ck_key (CNot k) = k"
| "ck_key (CEquals k v) = k"
| "ck_key (CNotEquals k v) = k"
| "ck_key (CAnd xs n) = []"
| "ck_key (CRegex k r) = k"
| "ck_key (CNotRegex k r) = k"
| "ck_key (COr xs n) = []"
| "ck_key (CIn k w) = k"
| "ck_key (CNotIn k w) = k"
| "ck_key (CGreater k v) = k"
| "ck_key (CGreaterEquals k v) = k"
| "ck_key (CSmaller k v) = k"
| "ck_key (CSmallerEquals k v) = k"

text \<open>The field \<open>value\<close> or \<open>valueKey\<close>.\<close>

fun ck_val :: "ck_expr \<Rightarrow> js_prim" where
  "ck_val (CEquals k v) = v"
| "ck_val (CNotEquals k v) = v"
| "ck_val (CIn k w) = PStr w"
| "ck_val (CNotIn k w) = PStr w"
| "ck_val (CGreater k v) = v"
| "ck_val (CGreaterEquals k v) = v"
| "ck_val (CSmaller k v) = v"
| "ck_val (CSmallerEquals k v) = v"
| "ck_val e = PUndefined"

fun ck_regexp :: "ck_expr \<Rightarrow> js_regexp option" where
  "ck_regexp (CRegex k r) = r"
| "ck_regexp (CNotRegex k r) = r"
| "ck_regexp e = None"

fun ck_args :: "ck_expr \<Rightarrow> ck_expr list" where
  "ck_args (CAnd xs n) = xs"
| "ck_args (COr xs n) = xs"
| "ck_args e = []"

definition regexp_source :: "js_regexp option \<Rightarrow> js_string" where
  "regexp_source r = (case r of None \<Rightarrow> [] | Some x \<Rightarrow> re_source x)"

section \<open>Construction\<close>

definition bool_expr :: "bool \<Rightarrow> ck_expr" where
  "bool_expr b = (if b then CTrue else CFalse)"

definition ContextKeyDefinedExpr_create :: "ck_env \<Rightarrow> js_string \<Rightarrow> ck_expr" where
  "ContextKeyDefinedExpr_create env key =
     (case CONSTANT_VALUES env key of Some constantValue \<Rightarrow> bool_expr constantValue | None \<Rightarrow> CDefined key)"

definition ContextKeyNotExpr_create :: "ck_env \<Rightarrow> js_string \<Rightarrow> ck_expr" where
  "ContextKeyNotExpr_create env key =
     (case CONSTANT_VALUES env key of Some constantValue \<Rightarrow> bool_expr (\<not> constantValue) | None \<Rightarrow> CNot key)"

definition constant_equals :: "bool \<Rightarrow> js_prim \<Rightarrow> bool" where
  "constant_equals constantValue value \<longleftrightarrow> prim_strict_eq value (PStr (bool_string constantValue))"

definition ContextKeyEqualsExpr_create :: "ck_env \<Rightarrow> js_string \<Rightarrow> js_prim \<Rightarrow> ck_expr" where
  "ContextKeyEqualsExpr_create env key value =
     (case value of
        PBool b \<Rightarrow> if b then ContextKeyDefinedExpr_create env key else ContextKeyNotExpr_create env key
      | _ \<Rightarrow>
          (case CONSTANT_VALUES env key of
             Some constantValue \<Rightarrow> bool_expr (constant_equals constantValue value)
           | None \<Rightarrow> CEquals key value))"

definition ContextKeyNotEqualsExpr_create :: "ck_env \<Rightarrow> js_string \<Rightarrow> js_prim \<Rightarrow> ck_expr" where
  "ContextKeyNotEqualsExpr_create env key value =
     (case value of
        PBool b \<Rightarrow> if b then ContextKeyNotExpr_create env key else ContextKeyDefinedExpr_create env key
      | _ \<Rightarrow>
          (case CONSTANT_VALUES env key of
             Some constantValue \<Rightarrow> bool_expr (\<not> constant_equals constantValue value)
           | None \<Rightarrow> CNotEquals key value))"

definition withFloatOrStr :: "js_prim \<Rightarrow> (js_prim \<Rightarrow> ck_expr) \<Rightarrow> ck_expr" where
  "withFloatOrStr value callback =
     (case value of
        PStr s \<Rightarrow> if parseFloat s \<noteq> NaN then callback (PNum (parseFloat s)) else callback value
      | PNum n \<Rightarrow> callback value
      | _ \<Rightarrow> CFalse)"

definition ContextKeyGreaterExpr_create :: "js_string \<Rightarrow> js_prim \<Rightarrow> ck_expr" where
  "ContextKeyGreaterExpr_create key value = withFloatOrStr value (\<lambda>v. CGreater key v)"

definition ContextKeyGreaterEqualsExpr_create :: "js_string \<Rightarrow> js_prim \<Rightarrow> ck_expr" where
  "ContextKeyGreaterEqualsExpr_create key value = withFloatOrStr value (\<lambda>v. CGreaterEquals key v)"

definition ContextKeySmallerExpr_create :: "js_string \<Rightarrow> js_prim \<Rightarrow> ck_expr" where
  "ContextKeySmallerExpr_create key value = withFloatOrStr value (\<lambda>v. CSmaller key v)"

definition ContextKeySmallerEqualsExpr_create :: "js_string \<Rightarrow> js_prim \<Rightarrow> ck_expr" where
  "ContextKeySmallerEqualsExpr_create key value = withFloatOrStr value (\<lambda>v. CSmallerEquals key v)"

section \<open>Comparison\<close>

definition cmp1 :: "js_string \<Rightarrow> js_string \<Rightarrow> int" where
  "cmp1 key1 key2 = (if js_less key1 key2 then -1 else if js_less key2 key1 then 1 else 0)"

definition cmp2 :: "js_string \<Rightarrow> js_prim \<Rightarrow> js_string \<Rightarrow> js_prim \<Rightarrow> int" where
  "cmp2 key1 value1 key2 value2 =
     (if js_less key1 key2 then -1
      else if js_less key2 key1 then 1
      else if prim_less value1 value2 then -1
      else if prim_less value2 value1 then 1
      else 0)"

definition ContextKeyRegexExpr_cmp :: "js_string \<Rightarrow> js_regexp option \<Rightarrow> js_string \<Rightarrow> js_regexp option \<Rightarrow> int" where
  "ContextKeyRegexExpr_cmp key regexp otherKey otherRegexp =
     (if js_less key otherKey then -1
      else if js_less otherKey key then 1
      else let thisSource = regexp_source regexp; otherSource = regexp_source otherRegexp
           in if js_less thisSource otherSource then -1
              else if js_less otherSource thisSource then 1
              else 0)"

text \<open>Every \<open>cmp\<close> compares the types first; the rest is that of two expressions of one class.\<close>

fun ck_cmp :: "ck_expr \<Rightarrow> ck_expr \<Rightarrow> int"
  and ck_cmp_operands :: "ck_expr list \<Rightarrow> ck_expr list \<Rightarrow> int"
  and ck_cmp_loop :: "ck_expr list \<Rightarrow> ck_expr list \<Rightarrow> int"
where
  "ck_cmp CFalse other = 0 - ck_type other"
| "ck_cmp CTrue other = 1 - ck_type other"
| "ck_cmp (CDefined k) other = (if ck_type other \<noteq> 2 then 2 - ck_type other else cmp1 k (ck_key other))"
| "ck_cmp (CNot k) other = (if ck_type other \<noteq> 3 then 3 - ck_type other else cmp1 k (ck_key other))"
| "ck_cmp (CEquals k v) other =
     (if ck_type other \<noteq> 4 then 4 - ck_type other else cmp2 k v (ck_key other) (ck_val other))"
| "ck_cmp (CNotEquals k v) other =
     (if ck_type other \<noteq> 5 then 5 - ck_type other else cmp2 k v (ck_key other) (ck_val other))"
| "ck_cmp (CAnd xs n) other =
     (if ck_type other \<noteq> 6 then 6 - ck_type other else ck_cmp_operands xs (ck_args other))"
| "ck_cmp (CRegex k r) other =
     (if ck_type other \<noteq> 7 then 7 - ck_type other
      else ContextKeyRegexExpr_cmp k r (ck_key other) (ck_regexp other))"
| "ck_cmp (CNotRegex k r) other =
     (if ck_type other \<noteq> 8 then 8 - ck_type other
      else ContextKeyRegexExpr_cmp k r (ck_key other) (ck_regexp other))"
| "ck_cmp (COr xs n) other =
     (if ck_type other \<noteq> 9 then 9 - ck_type other else ck_cmp_operands xs (ck_args other))"
| "ck_cmp (CIn k w) other =
     (if ck_type other \<noteq> 10 then 10 - ck_type other else cmp2 k (PStr w) (ck_key other) (ck_val other))"
| "ck_cmp (CNotIn k w) other =
     (if ck_type other \<noteq> 11 then 11 - ck_type other else cmp2 k (PStr w) (ck_key other) (ck_val other))"
| "ck_cmp (CGreater k v) other =
     (if ck_type other \<noteq> 12 then 12 - ck_type other else cmp2 k v (ck_key other) (ck_val other))"
| "ck_cmp (CGreaterEquals k v) other =
     (if ck_type other \<noteq> 13 then 13 - ck_type other else cmp2 k v (ck_key other) (ck_val other))"
| "ck_cmp (CSmaller k v) other =
     (if ck_type other \<noteq> 14 then 14 - ck_type other else cmp2 k v (ck_key other) (ck_val other))"
| "ck_cmp (CSmallerEquals k v) other =
     (if ck_type other \<noteq> 15 then 15 - ck_type other else cmp2 k v (ck_key other) (ck_val other))"
| "ck_cmp_operands xs ys =
     (if length xs < length ys then -1 else if length xs > length ys then 1 else ck_cmp_loop xs ys)"
| "ck_cmp_loop (x # xs) (y # ys) = (let r = ck_cmp x y in if r \<noteq> 0 then r else ck_cmp_loop xs ys)"
| "ck_cmp_loop _ _ = 0"

text \<open>\<open>equals\<close> never looks at the cached negations, nor at the flags of a regular expression.\<close>

definition ContextKeyRegexExpr_equals :: "js_string \<Rightarrow> js_regexp option \<Rightarrow> js_string \<Rightarrow> js_regexp option \<Rightarrow> bool" where
  "ContextKeyRegexExpr_equals key regexp otherKey otherRegexp \<longleftrightarrow>
     key = otherKey \<and> regexp_source regexp = regexp_source otherRegexp"

definition key_value_equals :: "js_string \<Rightarrow> js_prim \<Rightarrow> ck_expr \<Rightarrow> bool" where
  "key_value_equals key value other \<longleftrightarrow> key = ck_key other \<and> prim_strict_eq value (ck_val other)"

fun ck_equals :: "ck_expr \<Rightarrow> ck_expr \<Rightarrow> bool"
  and ck_equals_operands :: "ck_expr list \<Rightarrow> ck_expr list \<Rightarrow> bool"
where
  "ck_equals CFalse other \<longleftrightarrow> ck_type other = 0"
| "ck_equals CTrue other \<longleftrightarrow> ck_type other = 1"
| "ck_equals (CDefined k) other \<longleftrightarrow> ck_type other = 2 \<and> k = ck_key other"
| "ck_equals (CNot k) other \<longleftrightarrow> ck_type other = 3 \<and> k = ck_key other"
| "ck_equals (CEquals k v) other \<longleftrightarrow> ck_type other = 4 \<and> key_value_equals k v other"
| "ck_equals (CNotEquals k v) other \<longleftrightarrow> ck_type other = 5 \<and> key_value_equals k v other"
| "ck_equals (CAnd xs n) other \<longleftrightarrow> ck_type other = 6 \<and> ck_equals_operands xs (ck_args other)"
| "ck_equals (CRegex k r) other \<longleftrightarrow>
     ck_type other = 7 \<and> ContextKeyRegexExpr_equals k r (ck_key other) (ck_regexp other)"
| "ck_equals (CNotRegex k r) other \<longleftrightarrow>
     ck_type other = 8 \<and> ContextKeyRegexExpr_equals k r (ck_key other) (ck_regexp other)"
| "ck_equals (COr xs n) other \<longleftrightarrow> ck_type other = 9 \<and> ck_equals_operands xs (ck_args other)"
| "ck_equals (CIn k w) other \<longleftrightarrow> ck_type other = 10 \<and> key_value_equals k (PStr w) other"
| "ck_equals (CNotIn k w) other \<longleftrightarrow> ck_type other = 11 \<and> key_value_equals k (PStr w) other"
| "ck_equals (CGreater k v) other \<longleftrightarrow> ck_type other = 12 \<and> key_value_equals k v other"
| "ck_equals (CGreaterEquals k v) other \<longleftrightarrow> ck_type other = 13 \<and> key_value_equals k v other"
| "ck_equals (CSmaller k v) other \<longleftrightarrow> ck_type other = 14 \<and> key_value_equals k v other"
| "ck_equals (CSmallerEquals k v) other \<longleftrightarrow> ck_type other = 15 \<and> key_value_equals k v other"
| "ck_equals_operands [] [] \<longleftrightarrow> True"
| "ck_equals_operands (x # xs) (y # ys) \<longleftrightarrow> ck_equals x y \<and> ck_equals_operands xs ys"
| "ck_equals_operands _ _ \<longleftrightarrow> False"

section \<open>Evaluation\<close>

definition ContextKeyDefinedExpr_evaluate :: "js_string \<Rightarrow> ck_context \<Rightarrow> bool" where
  "ContextKeyDefinedExpr_evaluate key ctx \<longleftrightarrow> truthy (ctx key)"

definition ContextKeyNotExpr_evaluate :: "js_string \<Rightarrow> ck_context \<Rightarrow> bool" where
  "ContextKeyNotExpr_evaluate key ctx \<longleftrightarrow> \<not> truthy (ctx key)"

definition ContextKeyEqualsExpr_evaluate :: "ck_env \<Rightarrow> js_string \<Rightarrow> js_prim \<Rightarrow> ck_context \<Rightarrow> bool" where
  "ContextKeyEqualsExpr_evaluate env key value ctx \<longleftrightarrow> loose_eq env (ctx key) value"

definition ContextKeyNotEqualsExpr_evaluate :: "ck_env \<Rightarrow> js_string \<Rightarrow> js_prim \<Rightarrow> ck_context \<Rightarrow> bool" where
  "ContextKeyNotEqualsExpr_evaluate env key value ctx \<longleftrightarrow> \<not> loose_eq env (ctx key) value"

definition same_file :: "ck_env \<Rightarrow> js_string \<Rightarrow> js_string list \<Rightarrow> bool" where
  "same_file env item names \<longleftrightarrow>
     isWindows env \<and> js_startsWith item (js_lit ''file:///'') 0 \<and>
     list_ex (\<lambda>s. toLowerCase env s = toLowerCase env item) names"

definition strings_of :: "js_prim list \<Rightarrow> js_string list" where
  "strings_of ps = List.map_filter (\<lambda>p. case p of PStr s \<Rightarrow> Some s | _ \<Rightarrow> None) ps"

text \<open>An array or a record as the item is no element of a list of primitive values.\<close>

definition ContextKeyInExpr_evaluate :: "ck_env \<Rightarrow> js_string \<Rightarrow> js_string \<Rightarrow> ck_context \<Rightarrow> bool" where
  "ContextKeyInExpr_evaluate env key valueKey ctx \<longleftrightarrow>
     (case ctx valueKey of
        VArray source \<Rightarrow>
          (case ctx key of
             VPrim item \<Rightarrow>
               list_ex (prim_same item) source \<or>
               (case item of PStr s \<Rightarrow> same_file env s (strings_of source) | _ \<Rightarrow> False)
           | _ \<Rightarrow> False)
      | VRecord source \<Rightarrow>
          (case ctx key of
             VPrim (PStr item) \<Rightarrow>
               list_ex (\<lambda>k. k = item) (map fst source) \<or> same_file env item (map fst source)
           | _ \<Rightarrow> False)
      | VPrim _ \<Rightarrow> False)"

definition ContextKeyNotInExpr_evaluate :: "ck_env \<Rightarrow> js_string \<Rightarrow> js_string \<Rightarrow> ck_context \<Rightarrow> bool" where
  "ContextKeyNotInExpr_evaluate env key valueKey ctx \<longleftrightarrow> \<not> ContextKeyInExpr_evaluate env key valueKey ctx"

definition ContextKeyGreaterExpr_evaluate :: "ck_env \<Rightarrow> js_string \<Rightarrow> js_prim \<Rightarrow> ck_context \<Rightarrow> bool" where
  "ContextKeyGreaterExpr_evaluate env key value ctx \<longleftrightarrow>
     (case value of PNum n \<Rightarrow> num_less n (value_parseFloat env (ctx key)) | _ \<Rightarrow> False)"

definition ContextKeyGreaterEqualsExpr_evaluate :: "ck_env \<Rightarrow> js_string \<Rightarrow> js_prim \<Rightarrow> ck_context \<Rightarrow> bool" where
  "ContextKeyGreaterEqualsExpr_evaluate env key value ctx \<longleftrightarrow>
     (case value of PNum n \<Rightarrow> num_le n (value_parseFloat env (ctx key)) | _ \<Rightarrow> False)"

definition ContextKeySmallerExpr_evaluate :: "ck_env \<Rightarrow> js_string \<Rightarrow> js_prim \<Rightarrow> ck_context \<Rightarrow> bool" where
  "ContextKeySmallerExpr_evaluate env key value ctx \<longleftrightarrow>
     (case value of PNum n \<Rightarrow> num_less (value_parseFloat env (ctx key)) n | _ \<Rightarrow> False)"

definition ContextKeySmallerEqualsExpr_evaluate :: "ck_env \<Rightarrow> js_string \<Rightarrow> js_prim \<Rightarrow> ck_context \<Rightarrow> bool" where
  "ContextKeySmallerEqualsExpr_evaluate env key value ctx \<longleftrightarrow>
     (case value of PNum n \<Rightarrow> num_le (value_parseFloat env (ctx key)) n | _ \<Rightarrow> False)"

definition ContextKeyRegexExpr_evaluate :: "ck_env \<Rightarrow> js_string \<Rightarrow> js_regexp option \<Rightarrow> ck_context \<Rightarrow> bool" where
  "ContextKeyRegexExpr_evaluate env key regexp ctx \<longleftrightarrow>
     (case regexp of None \<Rightarrow> False | Some r \<Rightarrow> regexTest env r (value_toString env (ctx key)))"

definition ContextKeyNotRegexExpr_evaluate :: "ck_env \<Rightarrow> js_string \<Rightarrow> js_regexp option \<Rightarrow> ck_context \<Rightarrow> bool" where
  "ContextKeyNotRegexExpr_evaluate env key regexp ctx \<longleftrightarrow> \<not> ContextKeyRegexExpr_evaluate env key regexp ctx"

fun ck_evaluate :: "ck_env \<Rightarrow> ck_context \<Rightarrow> ck_expr \<Rightarrow> bool"
  and ContextKeyAndExpr_evaluate :: "ck_env \<Rightarrow> ck_context \<Rightarrow> ck_expr list \<Rightarrow> bool"
  and ContextKeyOrExpr_evaluate :: "ck_env \<Rightarrow> ck_context \<Rightarrow> ck_expr list \<Rightarrow> bool"
where
  "ck_evaluate env ctx CFalse = False"
| "ck_evaluate env ctx CTrue = True"
| "ck_evaluate env ctx (CDefined k) = ContextKeyDefinedExpr_evaluate k ctx"
| "ck_evaluate env ctx (CNot k) = ContextKeyNotExpr_evaluate k ctx"
| "ck_evaluate env ctx (CEquals k v) = ContextKeyEqualsExpr_evaluate env k v ctx"
| "ck_evaluate env ctx (CNotEquals k v) = ContextKeyNotEqualsExpr_evaluate env k v ctx"
| "ck_evaluate env ctx (CAnd xs n) = ContextKeyAndExpr_evaluate env ctx xs"
| "ck_evaluate env ctx (CRegex k r) = ContextKeyRegexExpr_evaluate env k r ctx"
| "ck_evaluate env ctx (CNotRegex k r) = ContextKeyNotRegexExpr_evaluate env k r ctx"
| "ck_evaluate env ctx (COr xs n) = ContextKeyOrExpr_evaluate env ctx xs"
| "ck_evaluate env ctx (CIn k w) = ContextKeyInExpr_evaluate env k w ctx"
| "ck_evaluate env ctx (CNotIn k w) = ContextKeyNotInExpr_evaluate env k w ctx"
| "ck_evaluate env ctx (CGreater k v) = ContextKeyGreaterExpr_evaluate env k v ctx"
| "ck_evaluate env ctx (CGreaterEquals k v) = ContextKeyGreaterEqualsExpr_evaluate env k v ctx"
| "ck_evaluate env ctx (CSmaller k v) = ContextKeySmallerExpr_evaluate env k v ctx"
| "ck_evaluate env ctx (CSmallerEquals k v) = ContextKeySmallerEqualsExpr_evaluate env k v ctx"
| "ContextKeyAndExpr_evaluate env ctx [] = True"
| "ContextKeyAndExpr_evaluate env ctx (x # xs) =
     (if \<not> ck_evaluate env ctx x then False else ContextKeyAndExpr_evaluate env ctx xs)"
| "ContextKeyOrExpr_evaluate env ctx [] = False"
| "ContextKeyOrExpr_evaluate env ctx (x # xs) =
     (if ck_evaluate env ctx x then True else ContextKeyOrExpr_evaluate env ctx xs)"

section \<open>Negation of the classes without operands\<close>

text \<open>
  \<open>None\<close> for the two classes with operands, whose \<open>negate\<close> is in the theory of the normal form.
\<close>

fun leaf_negate :: "ck_env \<Rightarrow> ck_expr \<Rightarrow> ck_expr option" where
  "leaf_negate env CFalse = Some CTrue"
| "leaf_negate env CTrue = Some CFalse"
| "leaf_negate env (CDefined k) = Some (ContextKeyNotExpr_create env k)"
| "leaf_negate env (CNot k) = Some (ContextKeyDefinedExpr_create env k)"
| "leaf_negate env (CEquals k v) = Some (ContextKeyNotEqualsExpr_create env k v)"
| "leaf_negate env (CNotEquals k v) = Some (ContextKeyEqualsExpr_create env k v)"
| "leaf_negate env (CRegex k r) = Some (CNotRegex k r)"
| "leaf_negate env (CNotRegex k r) = Some (CRegex k r)"
| "leaf_negate env (CIn k w) = Some (CNotIn k w)"
| "leaf_negate env (CNotIn k w) = Some (CIn k w)"
| "leaf_negate env (CGreater k v) = Some (ContextKeySmallerEqualsExpr_create k v)"
| "leaf_negate env (CGreaterEquals k v) = Some (ContextKeySmallerExpr_create k v)"
| "leaf_negate env (CSmaller k v) = Some (ContextKeyGreaterEqualsExpr_create k v)"
| "leaf_negate env (CSmallerEquals k v) = Some (ContextKeyGreaterExpr_create k v)"
| "leaf_negate env (CAnd xs n) = None"
| "leaf_negate env (COr xs n) = None"

section \<open>Printing, keys and mapping\<close>

definition ContextKeyRegexExpr_serialize :: "js_string \<Rightarrow> js_regexp option \<Rightarrow> js_string" where
  "ContextKeyRegexExpr_serialize key regexp =
     key @ js_lit '' =~ '' @
     (case regexp of
        Some r \<Rightarrow> js_lit ''/'' @ re_source r @ js_lit ''/'' @ re_flags r
      | None \<Rightarrow> js_lit ''/invalid/'')"

definition quoted_operand :: "js_string \<Rightarrow> js_string" where
  "quoted_operand s = [39] @ s @ [39]"

fun ck_serialize :: "ck_env \<Rightarrow> ck_expr \<Rightarrow> js_string" where
  "ck_serialize env CFalse = js_lit ''false''"
| "ck_serialize env CTrue = js_lit ''true''"
| "ck_serialize env (CDefined k) = k"
| "ck_serialize env (CNot k) = js_lit ''!'' @ k"
| "ck_serialize env (CEquals k v) = k @ js_lit '' == '' @ quoted_operand (prim_toString env v)"
| "ck_serialize env (CNotEquals k v) = k @ js_lit '' != '' @ quoted_operand (prim_toString env v)"
| "ck_serialize env (CAnd xs n) = js_join (js_lit '' && '') (map (ck_serialize env) xs)"
| "ck_serialize env (CRegex k r) = ContextKeyRegexExpr_serialize k r"
| "ck_serialize env (CNotRegex k r) = js_lit ''!('' @ ContextKeyRegexExpr_serialize k r @ js_lit '')''"
| "ck_serialize env (COr xs n) = js_join (js_lit '' || '') (map (ck_serialize env) xs)"
| "ck_serialize env (CIn k w) = k @ js_lit '' in '' @ quoted_operand w"
| "ck_serialize env (CNotIn k w) = k @ js_lit '' not in '' @ quoted_operand w"
| "ck_serialize env (CGreater k v) = k @ js_lit '' > '' @ prim_toString env v"
| "ck_serialize env (CGreaterEquals k v) = k @ js_lit '' >= '' @ prim_toString env v"
| "ck_serialize env (CSmaller k v) = k @ js_lit '' < '' @ prim_toString env v"
| "ck_serialize env (CSmallerEquals k v) = k @ js_lit '' <= '' @ prim_toString env v"

fun ck_keys :: "ck_expr \<Rightarrow> js_string list" where
  "ck_keys CFalse = []"
| "ck_keys CTrue = []"
| "ck_keys (CAnd xs n) = concat (map ck_keys xs)"
| "ck_keys (COr xs n) = concat (map ck_keys xs)"
| "ck_keys (CIn k w) = [k, w]"
| "ck_keys (CNotIn k w) = [k, w]"
| "ck_keys e = [ck_key e]"

text \<open>
  A mapper; the results that have to be of one class are the fields of that class.
\<close>

record ck_mapper =
  mapDefined :: "js_string \<Rightarrow> ck_expr"
  mapNot :: "js_string \<Rightarrow> ck_expr"
  mapEquals :: "js_string \<Rightarrow> js_prim \<Rightarrow> ck_expr"
  mapNotEquals :: "js_string \<Rightarrow> js_prim \<Rightarrow> ck_expr"
  mapGreater :: "js_string \<Rightarrow> js_prim \<Rightarrow> ck_expr"
  mapGreaterEquals :: "js_string \<Rightarrow> js_prim \<Rightarrow> ck_expr"
  mapSmaller :: "js_string \<Rightarrow> js_prim \<Rightarrow> ck_expr"
  mapSmallerEquals :: "js_string \<Rightarrow> js_prim \<Rightarrow> ck_expr"
  mapRegex :: "js_string \<Rightarrow> js_regexp option \<Rightarrow> js_string \<times> js_regexp option"
  mapIn :: "js_string \<Rightarrow> js_string \<Rightarrow> js_string \<times> js_string"
  mapNotIn :: "js_string \<Rightarrow> js_string \<Rightarrow> js_string \<times> js_string"

fun ck_map :: "ck_mapper \<Rightarrow> ck_expr \<Rightarrow> ck_expr" where
  "ck_map m CFalse = CFalse"
| "ck_map m CTrue = CTrue"
| "ck_map m (CDefined k) = mapDefined m k"
| "ck_map m (CNot k) = mapNot m k"
| "ck_map m (CEquals k v) = mapEquals m k v"
| "ck_map m (CNotEquals k v) = mapNotEquals m k v"
| "ck_map m (CAnd xs n) = CAnd (map (ck_map m) xs) None"
| "ck_map m (CRegex k r) = (let (k', r') = mapRegex m k r in CRegex k' r')"
| "ck_map m (CNotRegex k r) = (let (k', r') = mapRegex m k r in CNotRegex k' r')"
| "ck_map m (COr xs n) = COr (map (ck_map m) xs) None"
| "ck_map m (CIn k w) = (let (k', w') = mapIn m k w in CIn k' w')"
| "ck_map m (CNotIn k w) = (let (k', w') = mapNotIn m k w in CNotIn k' w')"
| "ck_map m (CGreater k v) = mapGreater m k v"
| "ck_map m (CGreaterEquals k v) = mapGreaterEquals m k v"
| "ck_map m (CSmaller k v) = mapSmaller m k v"
| "ck_map m (CSmallerEquals k v) = mapSmallerEquals m k v"

section \<open>Facts\<close>

lemma And_evaluate_all: "ContextKeyAndExpr_evaluate env ctx xs \<longleftrightarrow> (\<forall>x \<in> set xs. ck_evaluate env ctx x)"
  by (induction xs) auto

lemma Or_evaluate_ex: "ContextKeyOrExpr_evaluate env ctx xs \<longleftrightarrow> (\<exists>x \<in> set xs. ck_evaluate env ctx x)"
  by (induction xs) auto

lemmas leaf_evaluate_defs =
  ContextKeyDefinedExpr_evaluate_def ContextKeyNotExpr_evaluate_def ContextKeyEqualsExpr_evaluate_def
  ContextKeyNotEqualsExpr_evaluate_def ContextKeyNotInExpr_evaluate_def ContextKeyGreaterExpr_evaluate_def
  ContextKeyGreaterEqualsExpr_evaluate_def ContextKeySmallerExpr_evaluate_def
  ContextKeySmallerEqualsExpr_evaluate_def ContextKeyNotRegexExpr_evaluate_def

lemmas create_defs =
  ContextKeyDefinedExpr_create_def ContextKeyNotExpr_create_def ContextKeyEqualsExpr_create_def
  ContextKeyNotEqualsExpr_create_def ContextKeyGreaterExpr_create_def ContextKeyGreaterEqualsExpr_create_def
  ContextKeySmallerExpr_create_def ContextKeySmallerEqualsExpr_create_def

lemma bool_expr_simps [simp]:
  "bool_expr True = CTrue" "bool_expr False = CFalse" "ck_evaluate env ctx (bool_expr b) = b"
  by (simp_all add: bool_expr_def)

lemma prim_strict_eq_imp_eq: "prim_strict_eq a b \<Longrightarrow> a = b"
  by (cases "(a, b)" rule: prim_strict_eq.cases) (simp_all add: num_eq_def)

lemma ck_equals_type: "ck_equals a b \<Longrightarrow> ck_type a = ck_type b"
  by (cases a) auto

lemma cmp1_zero [simp]: "cmp1 a b = 0 \<longleftrightarrow> a = b"
  using js_less_cases [of a b] js_less_irrefl by (auto simp: cmp1_def)

end
