(* ===== verification/ContextKeyNormal.thy ===== *)
theory ContextKeyNormal
  imports ContextKeys "HOL-Library.Monad_Syntax"
begin

text \<open>
  The normal form of \<open>src/vs/platform/contextkey/common/contextkey.ts\<close>:
  \<open>ContextKeyAndExpr._normalizeArr\<close>, \<open>ContextKeyOrExpr._normalizeArr\<close> and \<open>negate\<close>, which call
  each other, and \<open>substituteConstants\<close> and \<open>implies\<close> on top of them.

  Each of the three is first a definition that takes the other two as arguments, in the shape the
  code has them; then they are tied together over fuel.  A result is \<open>None\<close> when the fuel is used up,
  or when the code calls a method of \<open>undefined\<close>, which throws; \<open>Some None\<close> is the value
  \<open>undefined\<close> and \<open>Some (Some e)\<close> an expression.  The conjunctions and disjunctions have operands
  in every expression the constructors build, so that no call throws.
\<close>

type_synonym ck_creator = "ck_expr option list \<Rightarrow> ck_expr option \<Rightarrow> bool \<Rightarrow> ck_expr option option"
type_synonym ck_negator = "ck_expr \<Rightarrow> ck_expr option"

fun map_steps :: "('a \<Rightarrow> 'b option) \<Rightarrow> 'a list \<Rightarrow> 'b list option" where
  "map_steps f [] = Some []"
| "map_steps f (x # xs) = do { y \<leftarrow> f x; ys \<leftarrow> map_steps f xs; Some (y # ys) }"

section \<open>Collecting the operands\<close>

text \<open>\<open>None\<close>: an operand decides the result.  The second component: an operand was dropped.\<close>

fun and_collect :: "ck_expr option list \<Rightarrow> ck_expr list \<Rightarrow> bool \<Rightarrow> (ck_expr list \<times> bool) option" where
  "and_collect [] expr hasTrue = Some (expr, hasTrue)"
| "and_collect (None # arr) expr hasTrue = and_collect arr expr hasTrue"
| "and_collect (Some e # arr) expr hasTrue =
     (case e of
        CTrue \<Rightarrow> and_collect arr expr True
      | CFalse \<Rightarrow> None
      | CAnd xs n \<Rightarrow> and_collect arr (expr @ xs) hasTrue
      | _ \<Rightarrow> and_collect arr (expr @ [e]) hasTrue)"

fun or_collect :: "ck_expr option list \<Rightarrow> ck_expr list \<Rightarrow> bool \<Rightarrow> (ck_expr list \<times> bool) option" where
  "or_collect [] expr hasFalse = Some (expr, hasFalse)"
| "or_collect (None # arr) expr hasFalse = or_collect arr expr hasFalse"
| "or_collect (Some e # arr) expr hasFalse =
     (case e of
        CFalse \<Rightarrow> or_collect arr expr True
      | CTrue \<Rightarrow> None
      | COr xs n \<Rightarrow> or_collect arr (expr @ xs) hasFalse
      | _ \<Rightarrow> or_collect arr (expr @ [e]) hasFalse)"

section \<open>Duplicates and complements\<close>

fun drop_duplicates :: "ck_expr list \<Rightarrow> ck_expr list" where
  "drop_duplicates (a # b # r) = (if ck_equals a b then drop_duplicates (a # r) else a # drop_duplicates (b # r))"
| "drop_duplicates r = r"

fun has_complement :: "ck_negator \<Rightarrow> ck_expr list \<Rightarrow> bool option" where
  "has_complement ngt (x # y # r) =
     do { nx \<leftarrow> ngt x; if list_ex (ck_equals nx) (y # r) then Some True else has_complement ngt (y # r) }"
| "has_complement ngt r = Some False"

section \<open>Disjunctions\<close>

definition ContextKeyOrExpr_normalizeArr :: "ck_negator \<Rightarrow> ck_creator" where
  "ContextKeyOrExpr_normalizeArr ngt arr negated extraRedundantCheck =
     (case or_collect arr [] False of
        None \<Rightarrow> Some (Some CTrue)
      | Some (collected, hasFalse) \<Rightarrow>
          if collected = [] then Some (if hasFalse then Some CFalse else None)
          else if length collected = 1 then Some (Some (hd collected))
          else let expr = drop_duplicates (js_sort ck_cmp collected) in
            if length expr = 1 then Some (Some (hd expr))
            else if extraRedundantCheck then
              (case has_complement ngt expr of
                 None \<Rightarrow> None
               | Some c \<Rightarrow> Some (Some (if c then CTrue else COr expr negated)))
            else Some (Some (COr expr negated)))"

section \<open>Conjunctions\<close>

text \<open>The loop that distributes a disjunction at the end of the operands over the operand before it.\<close>

definition distribute_last :: "ck_creator \<Rightarrow> ck_creator \<Rightarrow> bool \<Rightarrow> ck_expr list \<Rightarrow> ck_expr \<Rightarrow> bool \<Rightarrow> ck_expr option option" where
  "distribute_last andc orc extraRedundantCheck els secondToLastElement isFinished =
     (case map_steps (\<lambda>el. andc [Some el, Some secondToLastElement] None extraRedundantCheck) els of
        None \<Rightarrow> None
      | Some products \<Rightarrow> orc products None isFinished)"

function distribute_loop :: "ck_creator \<Rightarrow> ck_creator \<Rightarrow> bool \<Rightarrow> ck_expr list \<Rightarrow> ck_expr list option" where
  "distribute_loop andc orc extraRedundantCheck expr =
     (if length expr > 1 then
        (case last expr of
           COr els n \<Rightarrow>
             (let secondToLastElement = last (butlast expr); popped = butlast (butlast expr) in
              case distribute_last andc orc extraRedundantCheck els secondToLastElement (popped = []) of
                None \<Rightarrow> None
              | Some None \<Rightarrow> distribute_loop andc orc extraRedundantCheck popped
              | Some (Some resultElement) \<Rightarrow>
                  distribute_loop andc orc extraRedundantCheck (js_sort ck_cmp (popped @ [resultElement])))
         | _ \<Rightarrow> Some expr)
      else Some expr)"
  by pat_completeness auto
termination
  by (relation "measure (\<lambda>(a, b, c, expr). length expr)") (auto simp: length_js_sort)

declare distribute_loop.simps [simp del]

definition ContextKeyAndExpr_normalizeArr :: "ck_creator \<Rightarrow> ck_creator \<Rightarrow> ck_negator \<Rightarrow> ck_creator" where
  "ContextKeyAndExpr_normalizeArr andc orc ngt arr negated extraRedundantCheck =
     (case and_collect arr [] False of
        None \<Rightarrow> Some (Some CFalse)
      | Some (collected, hasTrue) \<Rightarrow>
          if collected = [] then Some (if hasTrue then Some CTrue else None)
          else if length collected = 1 then Some (Some (hd collected))
          else let terms = drop_duplicates (js_sort ck_cmp collected) in
            if length terms = 1 then Some (Some (hd terms))
            else
              (case distribute_loop andc orc extraRedundantCheck terms of
                 None \<Rightarrow> None
               | Some expr \<Rightarrow>
                   if length expr = 1 then Some (Some (hd expr))
                   else if extraRedundantCheck then
                     (case has_complement ngt expr of
                        None \<Rightarrow> None
                      | Some c \<Rightarrow> Some (Some (if c then CFalse else CAnd expr negated)))
                   else Some (Some (CAnd expr negated))))"

section \<open>Negation\<close>

fun getTerminals :: "ck_expr \<Rightarrow> ck_expr list" where
  "getTerminals (COr xs n) = xs"
| "getTerminals node = [node]"

text \<open>\<open>undefined\<close> is not an expression: what is done with it next throws.\<close>

definition defined_result :: "ck_expr option option \<Rightarrow> ck_expr option" where
  "defined_result r = (case r of Some (Some e) \<Rightarrow> Some e | _ \<Rightarrow> None)"

fun distribute_negated :: "ck_creator \<Rightarrow> ck_creator \<Rightarrow> ck_expr list \<Rightarrow> ck_expr list option" where
  "distribute_negated andc orc (LEFT # RIGHT # rest) =
     (case map_steps (\<lambda>(left, right). andc [Some left, Some right] None False)
             (List.product (getTerminals LEFT) (getTerminals RIGHT)) of
        None \<Rightarrow> None
      | Some all \<Rightarrow>
          (case defined_result (orc all None False) of
             None \<Rightarrow> None
           | Some product \<Rightarrow> distribute_negated andc orc (product # rest)))"
| "distribute_negated andc orc result = Some result"

definition ContextKeyAndExpr_negate :: "ck_creator \<Rightarrow> ck_negator \<Rightarrow> ck_expr list \<Rightarrow> ck_expr option \<Rightarrow> ck_expr option" where
  "ContextKeyAndExpr_negate orc ngt expr negated =
     (case negated of
        Some n \<Rightarrow> Some n
      | None \<Rightarrow>
          (case map_steps ngt expr of
             None \<Rightarrow> None
           | Some result \<Rightarrow> defined_result (orc (map Some result) (Some (CAnd expr negated)) True)))"

definition ContextKeyOrExpr_negate ::
  "ck_creator \<Rightarrow> ck_creator \<Rightarrow> ck_negator \<Rightarrow> ck_expr list \<Rightarrow> ck_expr option \<Rightarrow> ck_expr option" where
  "ContextKeyOrExpr_negate andc orc ngt expr negated =
     (case negated of
        Some n \<Rightarrow> Some n
      | None \<Rightarrow>
          (case map_steps ngt expr of
             None \<Rightarrow> None
           | Some negations \<Rightarrow>
               (case distribute_negated andc orc negations of
                  None \<Rightarrow> None
                | Some result \<Rightarrow> defined_result (orc (map Some result) (Some (COr expr negated)) True))))"

definition negate_expr :: "ck_env \<Rightarrow> ck_creator \<Rightarrow> ck_creator \<Rightarrow> ck_negator \<Rightarrow> ck_negator" where
  "negate_expr env andc orc ngt e =
     (case e of
        CAnd xs n \<Rightarrow> ContextKeyAndExpr_negate orc ngt xs n
      | COr xs n \<Rightarrow> ContextKeyOrExpr_negate andc orc ngt xs n
      | _ \<Rightarrow> leaf_negate env e)"

section \<open>The operations\<close>

fun and_create :: "ck_env \<Rightarrow> nat \<Rightarrow> ck_creator"
  and or_create :: "ck_env \<Rightarrow> nat \<Rightarrow> ck_creator"
  and ck_negate :: "ck_env \<Rightarrow> nat \<Rightarrow> ck_negator"
where
  "and_create env 0 arr negated extra = None"
| "and_create env (Suc n) arr negated extra =
     ContextKeyAndExpr_normalizeArr (\<lambda>a m x. and_create env n a m x) (\<lambda>a m x. or_create env n a m x)
       (\<lambda>e. ck_negate env n e) arr negated extra"
| "or_create env 0 arr negated extra = None"
| "or_create env (Suc n) arr negated extra =
     ContextKeyOrExpr_normalizeArr (\<lambda>e. ck_negate env n e) arr negated extra"
| "ck_negate env 0 e = None"
| "ck_negate env (Suc n) e =
     negate_expr env (\<lambda>a m x. and_create env n a m x) (\<lambda>a m x. or_create env n a m x) (\<lambda>e. ck_negate env n e) e"

definition ContextKeyExpr_and :: "ck_env \<Rightarrow> nat \<Rightarrow> ck_expr option list \<Rightarrow> ck_expr option option" where
  "ContextKeyExpr_and env fuel expr = and_create env fuel expr None True"

definition ContextKeyExpr_or :: "ck_env \<Rightarrow> nat \<Rightarrow> ck_expr option list \<Rightarrow> ck_expr option option" where
  "ContextKeyExpr_or env fuel expr = or_create env fuel expr None True"

section \<open>Constants\<close>

text \<open>The first component: the result is not the same object, it has to be put in place of the operand.\<close>

definition substitute_leaf :: "bool option \<Rightarrow> (bool \<Rightarrow> ck_expr) \<Rightarrow> ck_expr \<Rightarrow> bool \<times> ck_expr option" where
  "substitute_leaf constantValue f e =
     (case constantValue of Some b \<Rightarrow> (True, Some (f b)) | None \<Rightarrow> (False, Some e))"

definition eliminateConstantsInArray :: "(bool \<times> ck_expr option) list \<Rightarrow> ck_expr option list option" where
  "eliminateConstantsInArray newExprs = (if list_ex fst newExprs then Some (map snd newExprs) else None)"

fun ck_substituteConstants :: "ck_env \<Rightarrow> nat \<Rightarrow> ck_expr \<Rightarrow> (bool \<times> ck_expr option) option"
  and substitute_operands :: "ck_env \<Rightarrow> nat \<Rightarrow> ck_expr list \<Rightarrow> (bool \<times> ck_expr option) list option"
where
  "ck_substituteConstants env fuel (CDefined k) =
     Some (substitute_leaf (CONSTANT_VALUES env k) bool_expr (CDefined k))"
| "ck_substituteConstants env fuel (CNot k) =
     Some (substitute_leaf (CONSTANT_VALUES env k) (\<lambda>b. bool_expr (\<not> b)) (CNot k))"
| "ck_substituteConstants env fuel (CEquals k v) =
     Some (substitute_leaf (CONSTANT_VALUES env k) (\<lambda>b. bool_expr (constant_equals b v)) (CEquals k v))"
| "ck_substituteConstants env fuel (CNotEquals k v) =
     Some (substitute_leaf (CONSTANT_VALUES env k) (\<lambda>b. bool_expr (\<not> constant_equals b v)) (CNotEquals k v))"
| "ck_substituteConstants env fuel (CAnd xs n) =
     (case substitute_operands env fuel xs of
        None \<Rightarrow> None
      | Some news \<Rightarrow>
          (case eliminateConstantsInArray news of
             None \<Rightarrow> Some (False, Some (CAnd xs n))
           | Some exprArr \<Rightarrow> map_option (Pair True) (and_create env fuel exprArr n False)))"
| "ck_substituteConstants env fuel (COr xs n) =
     (case substitute_operands env fuel xs of
        None \<Rightarrow> None
      | Some news \<Rightarrow>
          (case eliminateConstantsInArray news of
             None \<Rightarrow> Some (False, Some (COr xs n))
           | Some exprArr \<Rightarrow> map_option (Pair True) (or_create env fuel exprArr n False)))"
| "ck_substituteConstants env fuel e = Some (False, Some e)"
| "substitute_operands env fuel [] = Some []"
| "substitute_operands env fuel (x # xs) =
     (case ck_substituteConstants env fuel x of
        None \<Rightarrow> None
      | Some y \<Rightarrow> map_option ((#) y) (substitute_operands env fuel xs))"

definition substitute_optional :: "ck_env \<Rightarrow> nat \<Rightarrow> ck_expr option \<Rightarrow> ck_expr option option" where
  "substitute_optional env fuel a =
     (case a of None \<Rightarrow> Some None | Some e \<Rightarrow> map_option snd (ck_substituteConstants env fuel e))"

definition expressionsAreEqualWithConstantSubstitution ::
  "ck_env \<Rightarrow> nat \<Rightarrow> ck_expr option \<Rightarrow> ck_expr option \<Rightarrow> bool option" where
  "expressionsAreEqualWithConstantSubstitution env fuel a b =
     do {
       aExpr \<leftarrow> substitute_optional env fuel a;
       bExpr \<leftarrow> substitute_optional env fuel b;
       Some (case (aExpr, bExpr) of
               (None, None) \<Rightarrow> True
             | (Some x, Some y) \<Rightarrow> ck_equals x y
             | _ \<Rightarrow> False)
     }"

section \<open>Implication\<close>

text \<open>Two sorted arrays are run through side by side.\<close>

fun allElementsIncluded :: "ck_expr list \<Rightarrow> ck_expr list \<Rightarrow> bool" where
  "allElementsIncluded (p # ps) (q # qs) =
     (let cmp = ck_cmp p q in
      if cmp < 0 then False
      else if cmp = 0 then allElementsIncluded ps qs
      else allElementsIncluded (p # ps) qs)"
| "allElementsIncluded ps qs = (ps = [])"

lemma size_ck_args: "x \<in> set (ck_args e) \<Longrightarrow> size x < size e"
  by (cases e) (auto simp: less_Suc_eq_le intro!: trans_le_add1 size_list_estimation')

function ck_implies :: "ck_expr \<Rightarrow> ck_expr \<Rightarrow> bool" where
  "ck_implies p q =
     (if ck_type p = 0 \<or> ck_type q = 1 then True
      else if ck_type p = 9 then (if ck_type q = 9 then allElementsIncluded (ck_args p) (ck_args q) else False)
      else if ck_type q = 9 then list_ex (\<lambda>element. ck_implies p element) (ck_args q)
      else if ck_type p = 6 then
        (if ck_type q = 6 then allElementsIncluded (ck_args q) (ck_args p)
         else list_ex (\<lambda>element. ck_implies element q) (ck_args p))
      else ck_equals p q)"
  by pat_completeness auto
termination
  by (relation "measure (\<lambda>(p, q). size p + size q)") (auto dest: size_ck_args)

declare ck_implies.simps [simp del]

end
