(* ===== verification/KeybindingResolver.thy ===== *)
theory KeybindingResolver
  imports ContextKeyNormal "HOL-Library.AList"
begin

text \<open>
  \<open>src/vs/platform/keybinding/common/keybindingResolver.ts\<close> and \<open>resolvedKeybindingItem.ts\<close>: which
  keybinding a sequence of chords runs under the when-clauses, and which keybindings a command has.

  A \<open>Map\<close> is an association list.  Items are compared by identity in the code; \<open>kb_id\<close> is the identity
  of the object.  The array of a first chord is changed in place and only reached through the map.
  What substitutes constants has the fuel of \<open>ck_substituteConstants\<close>; \<open>None\<close> is too little of it.
  The log is left out.
\<close>

section \<open>Items\<close>

record 'a ResolvedKeybindingItem =
  kb_id :: nat
  kb_chords :: "js_string list"
  kb_bubble :: bool
  kb_command :: "js_string option"
  kb_commandArgs :: 'a
  kb_when :: "ck_expr option"
  kb_isDefault :: bool
  kb_extensionId :: "js_string option"
  kb_isBuiltinExtension :: bool
  kb_systemWide :: bool

text \<open>An element that is \<open>null\<close> or the empty string empties the array.\<close>

fun toEmptyArrayIfContainsNull_loop :: "js_string option list \<Rightarrow> js_string list \<Rightarrow> js_string list" where
  "toEmptyArrayIfContainsNull_loop [] result = result"
| "toEmptyArrayIfContainsNull_loop (e # arr) result =
     (case e of None \<Rightarrow> []
      | Some s \<Rightarrow> if s = [] then [] else toEmptyArrayIfContainsNull_loop arr (result @ [s]))"

definition toEmptyArrayIfContainsNull :: "js_string option list \<Rightarrow> js_string list" where
  "toEmptyArrayIfContainsNull arr = toEmptyArrayIfContainsNull_loop arr []"

text \<open>\<open>null\<close> and the empty string are no command.\<close>

definition has_command :: "js_string option \<Rightarrow> bool" where
  "has_command command \<longleftrightarrow> (case command of None \<Rightarrow> False | Some c \<Rightarrow> c \<noteq> [])"

text \<open>
  The resolved keybinding is given by its dispatch chords and its single modifier dispatch chords.
\<close>

definition new_ResolvedKeybindingItem ::
  "nat \<Rightarrow> (js_string option list \<times> js_string option list) option \<Rightarrow> js_string option \<Rightarrow> 'a \<Rightarrow> ck_expr option \<Rightarrow>
   bool \<Rightarrow> js_string option \<Rightarrow> bool \<Rightarrow> bool \<Rightarrow> 'a ResolvedKeybindingItem" where
  "new_ResolvedKeybindingItem i resolvedKeybinding command commandArgs when isDefault extensionId isBuiltinExtension systemWide =
     (let chords = (case resolvedKeybinding of None \<Rightarrow> []
            | Some (dispatch, single) \<Rightarrow>
                if toEmptyArrayIfContainsNull dispatch = [] then toEmptyArrayIfContainsNull single
                else toEmptyArrayIfContainsNull dispatch);
          bubble = (has_command command \<and> js_get (the command) 0 = Some 94)
      in \<lparr>kb_id = i, kb_chords = chords, kb_bubble = bubble,
          kb_command = (if bubble then Some (tl (the command)) else command),
          kb_commandArgs = commandArgs, kb_when = when, kb_isDefault = isDefault, kb_extensionId = extensionId,
          kb_isBuiltinExtension = isBuiltinExtension, kb_systemWide = systemWide\<rparr>)"

text \<open>\<open>-command\<close> removes the keybindings of a command.\<close>

definition is_removal :: "js_string option \<Rightarrow> bool" where
  "is_removal command \<longleftrightarrow> has_command command \<and> js_get (the command) 0 = Some 45"

section \<open>When-clauses\<close>

definition whenIsEntirelyIncluded :: "ck_expr option \<Rightarrow> ck_expr option \<Rightarrow> bool" where
  "whenIsEntirelyIncluded a b \<longleftrightarrow>
     (case b of None \<Rightarrow> True
      | Some q \<Rightarrow> if ck_type q = 1 then True
          else (case a of None \<Rightarrow> False
                | Some p \<Rightarrow> if ck_type p = 1 then False else ck_implies p q))"

definition kb_contextMatchesRules :: "ck_env \<Rightarrow> ck_context \<Rightarrow> ck_expr option \<Rightarrow> bool" where
  "kb_contextMatchesRules env ctx rules =
     (case rules of None \<Rightarrow> True | Some e \<Rightarrow> ck_evaluate env ctx e)"

section \<open>Removals\<close>

fun chords_match :: "js_string list \<Rightarrow> js_string list \<Rightarrow> bool" where
  "chords_match [] chords = True"
| "chords_match (k # keypress) [] = False"
| "chords_match (k # keypress) (c # chords) = (k = c \<and> chords_match keypress chords)"

definition isTargetedForRemoval ::
  "ck_env \<Rightarrow> nat \<Rightarrow> 'a ResolvedKeybindingItem \<Rightarrow> js_string list \<Rightarrow> ck_expr option \<Rightarrow> bool option" where
  "isTargetedForRemoval env fuel defaultKb keypress when =
     (if \<not> chords_match keypress (kb_chords defaultKb) then Some False
      else if (case when of None \<Rightarrow> False | Some w \<Rightarrow> ck_type w \<noteq> 1) then
        (if kb_when defaultKb = None then Some False
         else do {
           defaultWhen \<leftarrow> substitute_optional env fuel (kb_when defaultKb);
           removalWhen \<leftarrow> substitute_optional env fuel when;
           Some (whenIsEntirelyIncluded defaultWhen removalWhen)
         })
      else Some True)"

fun collect_removals ::
  "'a ResolvedKeybindingItem list \<Rightarrow> (js_string \<times> 'a ResolvedKeybindingItem list) list \<Rightarrow>
   (js_string \<times> 'a ResolvedKeybindingItem list) list" where
  "collect_removals [] removals = removals"
| "collect_removals (rule # rules) removals =
     (if is_removal (kb_command rule) then
        (let command = tl (the (kb_command rule)) in
         case map_of removals command of
           None \<Rightarrow> collect_removals rules (AList.update command [rule] removals)
         | Some rs \<Rightarrow> collect_removals rules (AList.update command (rs @ [rule]) removals))
      else collect_removals rules removals)"

fun some_targeted ::
  "ck_env \<Rightarrow> nat \<Rightarrow> 'a ResolvedKeybindingItem \<Rightarrow> 'a ResolvedKeybindingItem list \<Rightarrow> bool option" where
  "some_targeted env fuel rule [] = Some False"
| "some_targeted env fuel rule (r # rs) =
     (case isTargetedForRemoval env fuel rule (kb_chords r) (kb_when r) of
        None \<Rightarrow> None
      | Some b \<Rightarrow> if b then Some True else some_targeted env fuel rule rs)"

text \<open>Whether the second pass keeps a rule.\<close>

definition keeps_rule ::
  "ck_env \<Rightarrow> nat \<Rightarrow> (js_string \<times> 'a ResolvedKeybindingItem list) list \<Rightarrow> 'a ResolvedKeybindingItem \<Rightarrow> bool option" where
  "keeps_rule env fuel removals rule =
     (if \<not> has_command (kb_command rule) then Some True
      else if is_removal (kb_command rule) then Some False
      else case map_of removals (the (kb_command rule)) of
             None \<Rightarrow> Some True
           | Some commandRemovals \<Rightarrow>
               if \<not> kb_isDefault rule then Some True
               else map_option Not (some_targeted env fuel rule commandRemovals))"

fun keep_rules ::
  "ck_env \<Rightarrow> nat \<Rightarrow> (js_string \<times> 'a ResolvedKeybindingItem list) list \<Rightarrow> 'a ResolvedKeybindingItem list \<Rightarrow>
   'a ResolvedKeybindingItem list \<Rightarrow> 'a ResolvedKeybindingItem list option" where
  "keep_rules env fuel removals [] result = Some result"
| "keep_rules env fuel removals (rule # rules) result =
     (case keeps_rule env fuel removals rule of
        None \<Rightarrow> None
      | Some b \<Rightarrow> keep_rules env fuel removals rules (if b then result @ [rule] else result))"

definition handleRemovals ::
  "ck_env \<Rightarrow> nat \<Rightarrow> 'a ResolvedKeybindingItem list \<Rightarrow> 'a ResolvedKeybindingItem list option" where
  "handleRemovals env fuel rules =
     (let removals = collect_removals rules [] in
      if removals = [] then Some rules else keep_rules env fuel removals rules [])"

section \<open>The resolver\<close>

record 'a KeybindingResolver =
  kr_defaultKeybindings :: "'a ResolvedKeybindingItem list"
  kr_keybindings :: "'a ResolvedKeybindingItem list"
  kr_defaultBoundCommands :: "(js_string \<times> bool) list"
  kr_map :: "(js_string \<times> 'a ResolvedKeybindingItem list) list"
  kr_lookupMap :: "(js_string \<times> 'a ResolvedKeybindingItem list) list"

definition addToLookupMap ::
  "'a ResolvedKeybindingItem \<Rightarrow> (js_string \<times> 'a ResolvedKeybindingItem list) list \<Rightarrow>
   (js_string \<times> 'a ResolvedKeybindingItem list) list" where
  "addToLookupMap item lookupMap =
     (if \<not> has_command (kb_command item) then lookupMap
      else let command = the (kb_command item) in
        case map_of lookupMap command of
          None \<Rightarrow> AList.update command [item] lookupMap
        | Some arr \<Rightarrow> AList.update command (arr @ [item]) lookupMap)"

fun remove_item :: "nat \<Rightarrow> 'a ResolvedKeybindingItem list \<Rightarrow> 'a ResolvedKeybindingItem list" where
  "remove_item i [] = []"
| "remove_item i (x # arr) = (if kb_id x = i then arr else x # remove_item i arr)"

definition removeFromLookupMap ::
  "'a ResolvedKeybindingItem \<Rightarrow> (js_string \<times> 'a ResolvedKeybindingItem list) list \<Rightarrow>
   (js_string \<times> 'a ResolvedKeybindingItem list) list" where
  "removeFromLookupMap item lookupMap =
     (if \<not> has_command (kb_command item) then lookupMap
      else let command = the (kb_command item) in
        case map_of lookupMap command of
          None \<Rightarrow> lookupMap
        | Some arr \<Rightarrow> AList.update command (remove_item (kb_id item) arr) lookupMap)"

text \<open>From the second chord on, as far as both go.\<close>

fun same_chords :: "js_string list \<Rightarrow> js_string list \<Rightarrow> bool" where
  "same_chords (a # as) (b # bs) = (a = b \<and> same_chords as bs)"
| "same_chords as bs = True"

definition overwrites :: "'a ResolvedKeybindingItem \<Rightarrow> 'a ResolvedKeybindingItem \<Rightarrow> bool" where
  "overwrites item conflict \<longleftrightarrow>
     kb_command conflict \<noteq> kb_command item \<and>
     same_chords (tl (kb_chords conflict)) (tl (kb_chords item)) \<and>
     whenIsEntirelyIncluded (kb_when conflict) (kb_when item)"

text \<open>The loop runs from the last conflict to the first.\<close>

fun remove_conflicts ::
  "'a ResolvedKeybindingItem \<Rightarrow> 'a ResolvedKeybindingItem list \<Rightarrow>
   (js_string \<times> 'a ResolvedKeybindingItem list) list \<Rightarrow> (js_string \<times> 'a ResolvedKeybindingItem list) list" where
  "remove_conflicts item [] lookupMap = lookupMap"
| "remove_conflicts item (conflict # conflicts) lookupMap =
     remove_conflicts item conflicts
       (if overwrites item conflict then removeFromLookupMap conflict lookupMap else lookupMap)"

definition addKeyPress ::
  "js_string \<Rightarrow> 'a ResolvedKeybindingItem \<Rightarrow> 'a KeybindingResolver \<Rightarrow> 'a KeybindingResolver" where
  "addKeyPress keypress item r =
     (case map_of (kr_map r) keypress of
        None \<Rightarrow>
          r\<lparr>kr_map := AList.update keypress [item] (kr_map r), kr_lookupMap := addToLookupMap item (kr_lookupMap r)\<rparr>
      | Some conflicts \<Rightarrow>
          r\<lparr>kr_map := AList.update keypress (conflicts @ [item]) (kr_map r),
            kr_lookupMap := addToLookupMap item (remove_conflicts item (rev conflicts) (kr_lookupMap r))\<rparr>)"

definition when_is_false :: "ck_expr option \<Rightarrow> bool" where
  "when_is_false when \<longleftrightarrow> (case when of None \<Rightarrow> False | Some e \<Rightarrow> ck_type e = 0)"

fun add_keybindings ::
  "ck_env \<Rightarrow> nat \<Rightarrow> 'a ResolvedKeybindingItem list \<Rightarrow> 'a KeybindingResolver \<Rightarrow> 'a KeybindingResolver option" where
  "add_keybindings env fuel [] r = Some r"
| "add_keybindings env fuel (k # ks) r =
     (if kb_chords k = [] then add_keybindings env fuel ks r
      else case substitute_optional env fuel (kb_when k) of
             None \<Rightarrow> None
           | Some when \<Rightarrow>
               if when_is_false when then add_keybindings env fuel ks r
               else add_keybindings env fuel ks (addKeyPress (hd (kb_chords k)) k r))"

fun bound_commands :: "'a ResolvedKeybindingItem list \<Rightarrow> (js_string \<times> bool) list \<Rightarrow> (js_string \<times> bool) list" where
  "bound_commands [] m = m"
| "bound_commands (k # ks) m =
     bound_commands ks
       (if has_command (kb_command k) \<and> \<not> is_removal (kb_command k) then AList.update (the (kb_command k)) True m else m)"

definition new_KeybindingResolver ::
  "ck_env \<Rightarrow> nat \<Rightarrow> 'a ResolvedKeybindingItem list \<Rightarrow> 'a ResolvedKeybindingItem list \<Rightarrow> 'a KeybindingResolver option" where
  "new_KeybindingResolver env fuel defaultKeybindings overrides =
     (case handleRemovals env fuel (defaultKeybindings @ overrides) of
        None \<Rightarrow> None
      | Some keybindings \<Rightarrow>
          add_keybindings env fuel keybindings
            \<lparr>kr_defaultKeybindings = defaultKeybindings, kr_keybindings = keybindings,
             kr_defaultBoundCommands = bound_commands defaultKeybindings [], kr_map = [], kr_lookupMap = []\<rparr>)"

section \<open>Looking up\<close>

definition lookupKeybindings :: "js_string \<Rightarrow> 'a KeybindingResolver \<Rightarrow> 'a ResolvedKeybindingItem list" where
  "lookupKeybindings commandId r =
     (case map_of (kr_lookupMap r) commandId of None \<Rightarrow> [] | Some items \<Rightarrow> rev items)"

fun find_command :: "ck_env \<Rightarrow> ck_context \<Rightarrow> 'a ResolvedKeybindingItem list \<Rightarrow> 'a ResolvedKeybindingItem option" where
  "find_command env ctx [] = None"
| "find_command env ctx (k # matches) =
     (if kb_contextMatchesRules env ctx (kb_when k) then Some k else find_command env ctx matches)"

text \<open>The matches are run through from the last to the first.\<close>

definition findCommand :: "ck_env \<Rightarrow> ck_context \<Rightarrow> 'a ResolvedKeybindingItem list \<Rightarrow> 'a ResolvedKeybindingItem option" where
  "findCommand env ctx matches = find_command env ctx (rev matches)"

definition lookupPrimaryKeybinding ::
  "ck_env \<Rightarrow> ck_context \<Rightarrow> js_string \<Rightarrow> bool \<Rightarrow> 'a KeybindingResolver \<Rightarrow> 'a ResolvedKeybindingItem option" where
  "lookupPrimaryKeybinding env ctx commandId enforceContextCheck r =
     (case map_of (kr_lookupMap r) commandId of
        None \<Rightarrow> None
      | Some items \<Rightarrow>
          if items = [] then None
          else if length items = 1 \<and> \<not> enforceContextCheck then Some (hd items)
          else case findCommand env ctx items of
                 Some item \<Rightarrow> Some item
               | None \<Rightarrow> if enforceContextCheck then None else Some (last items))"

datatype 'a ResolutionResult =
    NoMatchingKb
  | MoreChordsNeeded
  | KbFound "js_string option" 'a bool

text \<open>The chords from the second one on.\<close>

definition continues_pressed :: "js_string list \<Rightarrow> 'a ResolvedKeybindingItem \<Rightarrow> bool" where
  "continues_pressed pressedChords candidate \<longleftrightarrow>
     \<not> length pressedChords > length (kb_chords candidate) \<and>
     chords_match (tl pressedChords) (tl (kb_chords candidate))"

definition kb_resolve ::
  "ck_env \<Rightarrow> ck_context \<Rightarrow> js_string list \<Rightarrow> js_string \<Rightarrow> 'a KeybindingResolver \<Rightarrow> 'a ResolutionResult" where
  "kb_resolve env ctx currentChords keypress r =
     (let pressedChords = currentChords @ [keypress] in
      case map_of (kr_map r) (hd pressedChords) of
        None \<Rightarrow> NoMatchingKb
      | Some kbCandidates \<Rightarrow>
          let lookupMap = (if length pressedChords < 2 then kbCandidates
                           else filter (continues_pressed pressedChords) kbCandidates)
          in case findCommand env ctx lookupMap of
               None \<Rightarrow> NoMatchingKb
             | Some result \<Rightarrow>
                 if length pressedChords < length (kb_chords result) then MoreChordsNeeded
                 else KbFound (kb_command result) (kb_commandArgs result) (kb_bubble result))"

end
