(* ===== verification/ContextKeyProofs.thy ===== *)
theory ContextKeyProofs
  imports ContextKeyNormal
begin

text \<open>
  The normal form means what the operands mean.

  An expression is \<open>ck_ok\<close> in a context when no case of the classes is hit in which \<open>negate\<close> is no
  complement or \<open>equals\<close> is no equality: comparison operators are applied to numbers, regular expressions
  with one source have one set of flags, constants agree with the context.  The locale
  \<open>ck_normalizer\<close> states what the two \<open>create\<close> methods and \<open>negate\<close> promise each other; the lemmas
  about one level of the recursion are proved in it, and the operations over fuel are shown to be
  instances by induction on the fuel.
\<close>

section \<open>Good expressions\<close>

fun numeric_comparison :: "ck_env \<Rightarrow> ck_value \<Rightarrow> js_prim \<Rightarrow> bool" where
  "numeric_comparison env v (PNum n) \<longleftrightarrow> n \<noteq> NaN \<and> value_parseFloat env v \<noteq> NaN"
| "numeric_comparison env v p \<longleftrightarrow> False"

fun flags_of_source :: "(js_string \<Rightarrow> js_string) \<Rightarrow> js_regexp option \<Rightarrow> bool" where
  "flags_of_source F None \<longleftrightarrow> False"
| "flags_of_source F (Some r) \<longleftrightarrow> re_flags r = F (re_source r)"

definition truth_agrees :: "ck_env \<Rightarrow> ck_context \<Rightarrow> js_string \<Rightarrow> bool" where
  "truth_agrees env ctx k \<longleftrightarrow>
     (case CONSTANT_VALUES env k of None \<Rightarrow> True | Some b \<Rightarrow> truthy (ctx k) = b)"

definition value_agrees :: "ck_env \<Rightarrow> ck_context \<Rightarrow> js_string \<Rightarrow> js_prim \<Rightarrow> bool" where
  "value_agrees env ctx k v \<longleftrightarrow>
     (\<forall>b. v \<noteq> PBool b) \<and>
     (case CONSTANT_VALUES env k of None \<Rightarrow> True | Some b \<Rightarrow> loose_eq env (ctx k) v = constant_equals b v)"

fun leaf_ok :: "ck_env \<Rightarrow> (js_string \<Rightarrow> js_string) \<Rightarrow> ck_context \<Rightarrow> ck_expr \<Rightarrow> bool" where
  "leaf_ok env F ctx (CDefined k) \<longleftrightarrow> truth_agrees env ctx k"
| "leaf_ok env F ctx (CNot k) \<longleftrightarrow> truth_agrees env ctx k"
| "leaf_ok env F ctx (CEquals k v) \<longleftrightarrow> value_agrees env ctx k v"
| "leaf_ok env F ctx (CNotEquals k v) \<longleftrightarrow> value_agrees env ctx k v"
| "leaf_ok env F ctx (CRegex k r) \<longleftrightarrow> flags_of_source F r"
| "leaf_ok env F ctx (CNotRegex k r) \<longleftrightarrow> flags_of_source F r"
| "leaf_ok env F ctx (CGreater k v) \<longleftrightarrow> numeric_comparison env (ctx k) v"
| "leaf_ok env F ctx (CGreaterEquals k v) \<longleftrightarrow> numeric_comparison env (ctx k) v"
| "leaf_ok env F ctx (CSmaller k v) \<longleftrightarrow> numeric_comparison env (ctx k) v"
| "leaf_ok env F ctx (CSmallerEquals k v) \<longleftrightarrow> numeric_comparison env (ctx k) v"
| "leaf_ok env F ctx e \<longleftrightarrow> True"

text \<open>A cached negation is itself good, and is the complement.\<close>

fun ck_ok :: "ck_env \<Rightarrow> (js_string \<Rightarrow> js_string) \<Rightarrow> ck_context \<Rightarrow> ck_expr \<Rightarrow> bool" where
  "ck_ok env F ctx (CAnd xs n) \<longleftrightarrow>
     xs \<noteq> [] \<and> list_all (ck_ok env F ctx) xs \<and>
     (case n of None \<Rightarrow> True
      | Some m \<Rightarrow> ck_ok env F ctx m \<and> ck_evaluate env ctx m = (\<not> ck_evaluate env ctx (CAnd xs n)))"
| "ck_ok env F ctx (COr xs n) \<longleftrightarrow>
     xs \<noteq> [] \<and> list_all (ck_ok env F ctx) xs \<and>
     (case n of None \<Rightarrow> True
      | Some m \<Rightarrow> ck_ok env F ctx m \<and> ck_evaluate env ctx m = (\<not> ck_evaluate env ctx (COr xs n)))"
| "ck_ok env F ctx e \<longleftrightarrow> leaf_ok env F ctx e"

definition operands_ok :: "ck_env \<Rightarrow> (js_string \<Rightarrow> js_string) \<Rightarrow> ck_context \<Rightarrow> ck_expr option list \<Rightarrow> bool" where
  "operands_ok env F ctx es \<longleftrightarrow> (\<forall>e. Some e \<in> set es \<longrightarrow> ck_ok env F ctx e)"

definition all_true :: "ck_env \<Rightarrow> ck_context \<Rightarrow> ck_expr option list \<Rightarrow> bool" where
  "all_true env ctx es \<longleftrightarrow> (\<forall>e. Some e \<in> set es \<longrightarrow> ck_evaluate env ctx e)"

definition some_true :: "ck_env \<Rightarrow> ck_context \<Rightarrow> ck_expr option list \<Rightarrow> bool" where
  "some_true env ctx es \<longleftrightarrow> (\<exists>e. Some e \<in> set es \<and> ck_evaluate env ctx e)"

definition negation_ok :: "ck_env \<Rightarrow> (js_string \<Rightarrow> js_string) \<Rightarrow> ck_context \<Rightarrow> ck_expr option \<Rightarrow> bool \<Rightarrow> bool" where
  "negation_ok env F ctx neg b \<longleftrightarrow>
     (case neg of None \<Rightarrow> True | Some m \<Rightarrow> ck_ok env F ctx m \<and> ck_evaluate env ctx m = (\<not> b))"

text \<open>What a \<open>create\<close> method may return for these operands.\<close>

definition result_ok ::
  "ck_env \<Rightarrow> (js_string \<Rightarrow> js_string) \<Rightarrow> ck_context \<Rightarrow> ck_expr option list \<Rightarrow> ck_expr option \<Rightarrow> bool \<Rightarrow> bool" where
  "result_ok env F ctx es r b \<longleftrightarrow>
     (case r of None \<Rightarrow> (\<forall>e \<in> set es. e = None) | Some e \<Rightarrow> ck_ok env F ctx e \<and> ck_evaluate env ctx e = b)"

lemma result_ok_Some [simp]: "result_ok env F ctx es (Some e) b \<longleftrightarrow> ck_ok env F ctx e \<and> ck_evaluate env ctx e = b"
  by (simp add: result_ok_def)

lemma negation_ok_None [simp]: "negation_ok env F ctx None b"
  by (simp add: negation_ok_def)

lemma ck_ok_bool [simp]: "ck_ok env F ctx CTrue" "ck_ok env F ctx CFalse" "ck_ok env F ctx (bool_expr b)"
  by (simp_all add: bool_expr_def)

lemma ck_ok_And:
  "ck_ok env F ctx (CAnd xs n) \<longleftrightarrow>
   xs \<noteq> [] \<and> (\<forall>x \<in> set xs. ck_ok env F ctx x) \<and>
   negation_ok env F ctx n (\<forall>x \<in> set xs. ck_evaluate env ctx x)"
  by (auto simp: list_all_iff negation_ok_def And_evaluate_all split: option.splits)

lemma ck_ok_Or:
  "ck_ok env F ctx (COr xs n) \<longleftrightarrow>
   xs \<noteq> [] \<and> (\<forall>x \<in> set xs. ck_ok env F ctx x) \<and>
   negation_ok env F ctx n (\<exists>x \<in> set xs. ck_evaluate env ctx x)"
  by (auto simp: list_all_iff negation_ok_def Or_evaluate_ex split: option.splits)

lemma evaluate_And: "ck_evaluate env ctx (CAnd xs n) \<longleftrightarrow> (\<forall>x \<in> set xs. ck_evaluate env ctx x)"
  by (simp add: And_evaluate_all)

lemma evaluate_Or: "ck_evaluate env ctx (COr xs n) \<longleftrightarrow> (\<exists>x \<in> set xs. ck_evaluate env ctx x)"
  by (simp add: Or_evaluate_ex)

declare ck_ok.simps(1,2) [simp del] ck_evaluate.simps(7,10) [simp del]

section \<open>Leaves\<close>

lemma num_le_not_less: "m \<noteq> NaN \<Longrightarrow> n \<noteq> NaN \<Longrightarrow> num_le m n \<longleftrightarrow> \<not> num_less n m"
  by (cases m; cases n) (auto simp: num_le_def num_eq_def)

lemma leaf_negate_complement:
  assumes "leaf_negate env e = Some n" "ck_ok env F ctx e"
  shows "ck_ok env F ctx n" "ck_evaluate env ctx n = (\<not> ck_evaluate env ctx e)"
proof -
  have "ck_ok env F ctx n \<and> ck_evaluate env ctx n = (\<not> ck_evaluate env ctx e)"
  proof (cases e)
    case (CEquals k v)
    then show ?thesis using assms
      by (cases v) (auto simp: create_defs value_agrees_def leaf_evaluate_defs split: option.splits)
  next
    case (CNotEquals k v)
    then show ?thesis using assms
      by (cases v) (auto simp: create_defs value_agrees_def leaf_evaluate_defs split: option.splits)
  next
    case (CGreater k v)
    then show ?thesis using assms
      by (cases v) (auto simp: create_defs withFloatOrStr_def leaf_evaluate_defs num_le_not_less)
  next
    case (CGreaterEquals k v)
    then show ?thesis using assms
      by (cases v) (auto simp: create_defs withFloatOrStr_def leaf_evaluate_defs num_le_not_less)
  next
    case (CSmaller k v)
    then show ?thesis using assms
      by (cases v) (auto simp: create_defs withFloatOrStr_def leaf_evaluate_defs num_le_not_less)
  next
    case (CSmallerEquals k v)
    then show ?thesis using assms
      by (cases v) (auto simp: create_defs withFloatOrStr_def leaf_evaluate_defs num_le_not_less)
  qed (use assms in \<open>auto simp: create_defs truth_agrees_def leaf_evaluate_defs split: option.splits\<close>)
  then show "ck_ok env F ctx n" "ck_evaluate env ctx n = (\<not> ck_evaluate env ctx e)" by auto
qed

lemma same_source:
  "flags_of_source F r \<Longrightarrow> flags_of_source F s \<Longrightarrow> regexp_source r = regexp_source s \<Longrightarrow> r = s"
  by (cases r; cases s) (auto simp: regexp_source_def intro: js_regexp.equality)

lemma key_value_equalsD: "key_value_equals k v e \<Longrightarrow> k = ck_key e \<and> v = ck_val e"
  by (auto simp: key_value_equals_def dest: prim_strict_eq_imp_eq)

lemma list_all2_same:
  assumes "list_all2 (\<lambda>x y. P x = P y) xs ys"
  shows "(\<forall>x \<in> set xs. P x) = (\<forall>y \<in> set ys. P y)" "(\<exists>x \<in> set xs. P x) = (\<exists>y \<in> set ys. P y)"
  using assms by (induction xs ys rule: list_all2_induct) auto

lemma type_And: "ck_type e = 6 \<Longrightarrow> \<exists>ys m. e = CAnd ys m"
  by (cases e) auto

lemma type_Or: "ck_type e = 9 \<Longrightarrow> \<exists>ys m. e = COr ys m"
  by (cases e) auto

text \<open>\<open>equals\<close> is sound: it forgets nothing but the cached negations and the flags.\<close>

lemma ck_equals_evaluate:
  "ck_ok env F ctx a \<Longrightarrow> ck_ok env F ctx b \<Longrightarrow> ck_equals a b \<Longrightarrow> ck_evaluate env ctx a = ck_evaluate env ctx b"
  "\<forall>x \<in> set xs. ck_ok env F ctx x \<Longrightarrow> \<forall>y \<in> set ys. ck_ok env F ctx y \<Longrightarrow> ck_equals_operands xs ys \<Longrightarrow>
     list_all2 (\<lambda>x y. ck_evaluate env ctx x = ck_evaluate env ctx y) xs ys"
proof (induction a b and xs ys rule: ck_equals_ck_equals_operands.induct)
  case (7 xs n other)
  then obtain ys m where o: "other = CAnd ys m" using type_And by fastforce
  have "list_all2 (\<lambda>x y. ck_evaluate env ctx x = ck_evaluate env ctx y) xs ys"
    using 7 by (simp add: o ck_ok_And)
  then show ?case unfolding o evaluate_And by (rule list_all2_same)
next
  case (10 xs n other)
  then obtain ys m where o: "other = COr ys m" using type_Or by fastforce
  have "list_all2 (\<lambda>x y. ck_evaluate env ctx x = ck_evaluate env ctx y) xs ys"
    using 10 by (simp add: o ck_ok_Or)
  then show ?case unfolding o evaluate_Or by (rule list_all2_same)
next
  case (8 k r other)
  then show ?case
    by (cases other) (auto simp: ContextKeyRegexExpr_equals_def dest: same_source)
next
  case (9 k r other)
  then show ?case
    by (cases other) (auto simp: ContextKeyRegexExpr_equals_def dest: same_source)
next
  case (1 other) then show ?case by (cases other) auto
next
  case (2 other) then show ?case by (cases other) auto
next
  case (3 k other) then show ?case by (cases other) auto
next
  case (4 k other) then show ?case by (cases other) auto
next
  case (5 k v other) then show ?case by (cases other) (auto dest: key_value_equalsD)
next
  case (6 k v other) then show ?case by (cases other) (auto dest: key_value_equalsD)
next
  case (11 k w other) then show ?case by (cases other) (auto dest: key_value_equalsD)
next
  case (12 k w other) then show ?case by (cases other) (auto dest: key_value_equalsD)
next
  case (13 k v other) then show ?case by (cases other) (auto dest: key_value_equalsD)
next
  case (14 k v other) then show ?case by (cases other) (auto dest: key_value_equalsD)
next
  case (15 k v other) then show ?case by (cases other) (auto dest: key_value_equalsD)
next
  case (16 k v other) then show ?case by (cases other) (auto dest: key_value_equalsD)
qed auto

section \<open>Collecting, duplicates, complements\<close>

lemma operands_ok_simps [simp]:
  "operands_ok env F ctx []"
  "operands_ok env F ctx (None # es) \<longleftrightarrow> operands_ok env F ctx es"
  "operands_ok env F ctx (Some e # es) \<longleftrightarrow> ck_ok env F ctx e \<and> operands_ok env F ctx es"
  by (auto simp: operands_ok_def)

lemma operands_ok_map [simp]: "operands_ok env F ctx (map Some xs) \<longleftrightarrow> (\<forall>x \<in> set xs. ck_ok env F ctx x)"
  by (auto simp: operands_ok_def)

lemma all_true_simps [simp]:
  "all_true env ctx []"
  "all_true env ctx (None # es) \<longleftrightarrow> all_true env ctx es"
  "all_true env ctx (Some e # es) \<longleftrightarrow> ck_evaluate env ctx e \<and> all_true env ctx es"
  by (auto simp: all_true_def)

lemma some_true_simps [simp]:
  "\<not> some_true env ctx []"
  "some_true env ctx (None # es) \<longleftrightarrow> some_true env ctx es"
  "some_true env ctx (Some e # es) \<longleftrightarrow> ck_evaluate env ctx e \<or> some_true env ctx es"
  by (auto simp: some_true_def)

lemma some_true_map [simp]: "some_true env ctx (map Some xs) \<longleftrightarrow> (\<exists>x \<in> set xs. ck_evaluate env ctx x)"
  by (auto simp: some_true_def)

text \<open>What one operand adds.\<close>

definition and_operands :: "ck_expr \<Rightarrow> ck_expr list" where
  "and_operands e = (case e of CAnd xs n \<Rightarrow> xs | _ \<Rightarrow> [e])"

definition or_operands :: "ck_expr \<Rightarrow> ck_expr list" where
  "or_operands e = (case e of COr xs n \<Rightarrow> xs | _ \<Rightarrow> [e])"

lemma and_collect_step:
  "and_collect (Some e # arr) acc h =
   (if e = CTrue then and_collect arr acc True else if e = CFalse then None
    else and_collect arr (acc @ and_operands e) h)"
  by (cases e) (simp_all add: and_operands_def)

lemma or_collect_step:
  "or_collect (Some e # arr) acc h =
   (if e = CFalse then or_collect arr acc True else if e = CTrue then None
    else or_collect arr (acc @ or_operands e) h)"
  by (cases e) (simp_all add: or_operands_def)

lemma and_operands_ok:
  assumes "ck_ok env F ctx e"
  shows "and_operands e \<noteq> []" "\<forall>x \<in> set (and_operands e). ck_ok env F ctx x"
    "(\<forall>x \<in> set (and_operands e). ck_evaluate env ctx x) = ck_evaluate env ctx e"
  using assms by (cases e; simp add: and_operands_def ck_ok_And evaluate_And)+

lemma or_operands_ok:
  assumes "ck_ok env F ctx e"
  shows "or_operands e \<noteq> []" "\<forall>x \<in> set (or_operands e). ck_ok env F ctx x"
    "(\<exists>x \<in> set (or_operands e). ck_evaluate env ctx x) = ck_evaluate env ctx e"
  using assms by (cases e; simp add: or_operands_def ck_ok_Or evaluate_Or)+

lemma and_collect_None: "and_collect es acc h = None \<Longrightarrow> \<not> all_true env ctx es"
proof (induction es arbitrary: acc h)
  case (Cons a es)
  then show ?case
    by (cases a) (auto simp: and_collect_step simp del: and_collect.simps(3) split: if_splits)
qed simp

lemma or_collect_None: "or_collect es acc h = None \<Longrightarrow> some_true env ctx es"
proof (induction es arbitrary: acc h)
  case (Cons a es)
  then show ?case
    by (cases a) (auto simp: or_collect_step simp del: or_collect.simps(3) split: if_splits)
qed simp

text \<open>All the operands.\<close>

fun and_terms :: "ck_expr option list \<Rightarrow> ck_expr list" where
  "and_terms [] = []"
| "and_terms (None # es) = and_terms es"
| "and_terms (Some e # es) = (if e = CTrue then and_terms es else and_operands e @ and_terms es)"

lemma and_collect_Some: "and_collect es acc h = Some (xs, t) \<Longrightarrow> xs = acc @ and_terms es \<and> t = (h \<or> Some CTrue \<in> set es)"
proof (induction es arbitrary: acc h)
  case (Cons a es)
  show ?case
  proof (cases a)
    case None
    then show ?thesis using Cons by simp
  next
    case (Some e)
    note st = Cons.prems [unfolded Some and_collect_step]
    show ?thesis
    proof (cases "e = CTrue")
      case True
      then show ?thesis using Cons.IH [of acc True] st by (simp add: Some)
    next
      case False
      then have "and_collect es (acc @ and_operands e) h = Some (xs, t)" using st by (simp split: if_splits)
      from Cons.IH [OF this] show ?thesis using False by (auto simp: Some)
    qed
  qed
qed simp

lemma and_terms_ok:
  assumes "operands_ok env F ctx es"
  shows "\<forall>x \<in> set (and_terms es). ck_ok env F ctx x"
    "(\<forall>x \<in> set (and_terms es). ck_evaluate env ctx x) = all_true env ctx es"
    "and_terms es = [] \<and> Some CTrue \<notin> set es \<longrightarrow> (\<forall>e \<in> set es. e = None)"
  using assms
proof (induction es rule: and_terms.induct)
  case (3 e es)
  {
    case 1
    then show ?case using "3"(1,4) and_operands_ok(2) [of env F ctx e] by (cases "e = CTrue") auto
  next
    case 2
    then show ?case using "3"(2,5) and_operands_ok(3) [of env F ctx e]
      by (cases "e = CTrue") (simp_all add: ball_Un)
  next
    case 3
    then show ?case using and_operands_ok(1) [of env F ctx e] by auto
  }
qed auto

text \<open>All the operands.\<close>

fun or_terms :: "ck_expr option list \<Rightarrow> ck_expr list" where
  "or_terms [] = []"
| "or_terms (None # es) = or_terms es"
| "or_terms (Some e # es) = (if e = CFalse then or_terms es else or_operands e @ or_terms es)"

lemma or_collect_Some: "or_collect es acc h = Some (xs, t) \<Longrightarrow> xs = acc @ or_terms es \<and> t = (h \<or> Some CFalse \<in> set es)"
proof (induction es arbitrary: acc h)
  case (Cons a es)
  show ?case
  proof (cases a)
    case None
    then show ?thesis using Cons by simp
  next
    case (Some e)
    note st = Cons.prems [unfolded Some or_collect_step]
    show ?thesis
    proof (cases "e = CFalse")
      case True
      then show ?thesis using Cons.IH [of acc True] st by (simp add: Some)
    next
      case False
      then have "or_collect es (acc @ or_operands e) h = Some (xs, t)" using st by (simp split: if_splits)
      from Cons.IH [OF this] show ?thesis using False by (auto simp: Some)
    qed
  qed
qed simp

lemma or_terms_ok:
  assumes "operands_ok env F ctx es"
  shows "\<forall>x \<in> set (or_terms es). ck_ok env F ctx x"
    "(\<exists>x \<in> set (or_terms es). ck_evaluate env ctx x) = some_true env ctx es"
    "or_terms es = [] \<and> Some CFalse \<notin> set es \<longrightarrow> (\<forall>e \<in> set es. e = None)"
  using assms
proof (induction es rule: or_terms.induct)
  case (3 e es)
  {
    case 1
    then show ?case using "3"(1,4) or_operands_ok(2) [of env F ctx e] by (cases "e = CFalse") auto
  next
    case 2
    then show ?case using "3"(2,5) or_operands_ok(3) [of env F ctx e]
      by (cases "e = CFalse") (simp_all add: bex_Un)
  next
    case 3
    then show ?case using or_operands_ok(1) [of env F ctx e] by auto
  }
qed auto

lemma set_drop_duplicates: "set (drop_duplicates xs) \<subseteq> set xs"
  by (induction xs rule: drop_duplicates.induct) auto

lemma drop_duplicates_nonempty: "drop_duplicates xs = [] \<longleftrightarrow> xs = []"
  by (induction xs rule: drop_duplicates.induct) auto

lemma drop_duplicates_evaluate:
  "\<forall>x \<in> set xs. ck_ok env F ctx x \<Longrightarrow>
   (\<forall>x \<in> set (drop_duplicates xs). ck_evaluate env ctx x) = (\<forall>x \<in> set xs. ck_evaluate env ctx x) \<and>
   (\<exists>x \<in> set (drop_duplicates xs). ck_evaluate env ctx x) = (\<exists>x \<in> set xs. ck_evaluate env ctx x)"
proof (induction xs rule: drop_duplicates.induct)
  case (1 a b r)
  then show ?case using ck_equals_evaluate(1) [of env F ctx a b] by auto
qed auto

lemma js_sort_evaluate:
  "(\<forall>x \<in> set (js_sort ck_cmp xs). P x) = (\<forall>x \<in> set xs. P x)"
  "(\<exists>x \<in> set (js_sort ck_cmp xs). P x) = (\<exists>x \<in> set xs. P x)"
  using mset_eq_setD [OF mset_js_sort [of ck_cmp xs]] by auto

lemma js_sort_Nil [simp]: "js_sort cmp xs = [] \<longleftrightarrow> xs = []"
  by (metis length_0_conv length_js_sort)

text \<open>Sorting and dropping duplicates keeps the meaning of the operands.\<close>

lemma sorted_operands:
  assumes "\<forall>x \<in> set xs. ck_ok env F ctx x" "ys = drop_duplicates (js_sort ck_cmp xs)"
  shows "\<forall>y \<in> set ys. ck_ok env F ctx y"
    "(\<forall>y \<in> set ys. ck_evaluate env ctx y) = (\<forall>x \<in> set xs. ck_evaluate env ctx x)"
    "(\<exists>y \<in> set ys. ck_evaluate env ctx y) = (\<exists>x \<in> set xs. ck_evaluate env ctx x)"
    "ys = [] \<longleftrightarrow> xs = []"
proof -
  have ok: "\<forall>x \<in> set (js_sort ck_cmp xs). ck_ok env F ctx x" using assms(1) by (simp add: js_sort_evaluate)
  then show "\<forall>y \<in> set ys. ck_ok env F ctx y" using set_drop_duplicates assms(2) by blast
  show "(\<forall>y \<in> set ys. ck_evaluate env ctx y) = (\<forall>x \<in> set xs. ck_evaluate env ctx x)"
    "(\<exists>y \<in> set ys. ck_evaluate env ctx y) = (\<exists>x \<in> set xs. ck_evaluate env ctx x)"
    using drop_duplicates_evaluate [OF ok] by (simp_all only: assms(2) js_sort_evaluate)
  show "ys = [] \<longleftrightarrow> xs = []" by (simp add: assms(2) drop_duplicates_nonempty)
qed

lemma map_steps_Some: "map_steps f xs = Some ys \<longleftrightarrow> list_all2 (\<lambda>x y. f x = Some y) xs ys"
proof (induction xs arbitrary: ys)
  case (Cons x xs)
  then show ?case by (cases ys; cases "f x"; cases "map_steps f xs") auto
qed auto

lemma map_steps_members:
  assumes "map_steps f xs = Some ys"
  shows "y \<in> set ys \<Longrightarrow> \<exists>x \<in> set xs. f x = Some y" "x \<in> set xs \<Longrightarrow> \<exists>y \<in> set ys. f x = Some y"
proof -
  have "list_all2 (\<lambda>x y. f x = Some y) xs ys" using assms by (simp add: map_steps_Some)
  then show "y \<in> set ys \<Longrightarrow> \<exists>x \<in> set xs. f x = Some y" "x \<in> set xs \<Longrightarrow> \<exists>y \<in> set ys. f x = Some y"
    by (induction rule: list_all2_induct) auto
qed

lemma defined_result_Some: "defined_result r = Some e \<longleftrightarrow> r = Some (Some e)"
  by (auto simp: defined_result_def split: option.splits)

text \<open>One round of the distribution loop.\<close>

lemma distribute_loop_stop:
  "\<not> (length expr > 1 \<and> ck_type (last expr) = 9) \<Longrightarrow> distribute_loop andc orc x expr = Some expr"
  by (subst distribute_loop.simps) (cases "last expr"; simp)

lemma distribute_loop_split:
  assumes "length expr > 1" "ck_type (last expr) = 9"
  obtains popped second els n where "expr = popped @ [second, COr els n]"
proof -
  obtain els n where els: "last expr = COr els n" using type_Or assms(2) by blast
  have ne: "expr \<noteq> []" "butlast expr \<noteq> []" using assms(1) by (auto simp: length_0_conv [symmetric] simp del: length_0_conv)
  have "expr = butlast (butlast expr) @ [last (butlast expr), COr els n]"
    using append_butlast_last_id [OF ne(1)] append_butlast_last_id [OF ne(2)] els
    by (metis append.assoc append_Cons append_Nil)
  then show thesis by (rule that)
qed

lemma distribute_loop_step:
  "distribute_loop andc orc x (popped @ [second, COr els n]) =
   (case distribute_last andc orc x els second (popped = []) of
      None \<Rightarrow> None
    | Some None \<Rightarrow> distribute_loop andc orc x popped
    | Some (Some r) \<Rightarrow> distribute_loop andc orc x (js_sort ck_cmp (popped @ [r])))"
  by (subst distribute_loop.simps) (simp add: butlast_append)

lemma hd_of_one: "length xs = 1 \<Longrightarrow> xs = [hd xs]"
  by (cases xs) auto

section \<open>One level of the recursion\<close>

locale ck_normalizer =
  fixes env :: ck_env and F :: "js_string \<Rightarrow> js_string" and ctx :: ck_context
    and andc orc :: ck_creator and ngt :: ck_negator
  assumes andc_ok: "\<And>es neg x r. andc es neg x = Some r \<Longrightarrow> operands_ok env F ctx es \<Longrightarrow>
      negation_ok env F ctx neg (all_true env ctx es) \<Longrightarrow> result_ok env F ctx es r (all_true env ctx es)"
    and orc_ok: "\<And>es neg x r. orc es neg x = Some r \<Longrightarrow> operands_ok env F ctx es \<Longrightarrow>
      negation_ok env F ctx neg (some_true env ctx es) \<Longrightarrow> result_ok env F ctx es r (some_true env ctx es)"
    and ngt_ok: "\<And>e n. ngt e = Some n \<Longrightarrow> ck_ok env F ctx e \<Longrightarrow>
      ck_ok env F ctx n \<and> ck_evaluate env ctx n = (\<not> ck_evaluate env ctx e)"
begin

abbreviation ok :: "ck_expr \<Rightarrow> bool" where "ok \<equiv> ck_ok env F ctx"
abbreviation ev :: "ck_expr \<Rightarrow> bool" where "ev \<equiv> ck_evaluate env ctx"

lemma has_complement_True:
  "has_complement ngt xs = Some True \<Longrightarrow> \<forall>x \<in> set xs. ok x \<Longrightarrow> (\<exists>x \<in> set xs. ev x) \<and> \<not> (\<forall>x \<in> set xs. ev x)"
proof (induction xs rule: induct_list012)
  case (3 x y r)
  from "3.prems"(1) obtain nx where nx: "ngt x = Some nx"
    by (cases "ngt x") simp_all
  show ?case
  proof (cases "list_ex (ck_equals nx) (y # r)")
    case True
    then obtain z where z: "z \<in> set (y # r)" "ck_equals nx z" by (auto simp: list_ex_iff)
    then have "ev z = (\<not> ev x)"
      using ngt_ok [OF nx] "3.prems"(2) ck_equals_evaluate(1) [of env F ctx nx z] by auto
    then show ?thesis using z(1) by auto
  next
    case False
    then have "has_complement ngt (y # r) = Some True" using "3.prems"(1) nx by simp
    then show ?thesis using "3.IH"(2) "3.prems"(2) by auto
  qed
qed auto

lemma or_normalize_ok:
  assumes "ContextKeyOrExpr_normalizeArr ngt es neg x = Some r" "operands_ok env F ctx es"
    "negation_ok env F ctx neg (some_true env ctx es)"
  shows "result_ok env F ctx es r (some_true env ctx es)"
proof (cases "or_collect es [] False")
  case None
  then show ?thesis using assms(1) or_collect_None [OF None, of env ctx]
    by (auto simp: ContextKeyOrExpr_normalizeArr_def)
next
  case (Some p)
  obtain xs t where p: "or_collect es [] False = Some (xs, t)" using Some by (cases p) auto
  have xs: "xs = or_terms es" "t \<longleftrightarrow> Some CFalse \<in> set es" using or_collect_Some [OF p] by simp_all
  note c = or_terms_ok [OF assms(2), folded xs]
  define ys where "ys = drop_duplicates (js_sort ck_cmp xs)"
  note s = sorted_operands [OF c(1) ys_def]
  show ?thesis
  proof (cases "length xs \<le> 1")
    case True
    then show ?thesis using assms(1) c hd_of_one [of xs]
      by (cases xs) (auto simp: ContextKeyOrExpr_normalizeArr_def p result_ok_def split: if_splits)
  next
    case False
    then have ne: "xs \<noteq> []" "length xs \<noteq> 1" by auto
    have r: "r = Some (hd ys) \<and> ys = [hd ys] \<or> r = Some (COr ys neg) \<or>
        r = Some CTrue \<and> has_complement ngt ys = Some True"
      using assms(1) ne hd_of_one [of ys]
      by (auto simp: ContextKeyOrExpr_normalizeArr_def p Let_def simp flip: ys_def split: if_splits option.splits)
    have v: "(\<exists>y \<in> set ys. ev y) = some_true env ctx es" using c(2) s(3) by simp
    from r show ?thesis
    proof (elim disjE conjE)
      assume h: "r = Some (hd ys)" "ys = [hd ys]"
      then have "set ys = {hd ys}" by (metis list.set(1) list.simps(15))
      then show ?thesis using h(1) s(1) v by simp
    next
      assume "r = Some (COr ys neg)"
      then show ?thesis using s ne assms(3) v by (simp add: ck_ok_Or evaluate_Or)
    next
      assume "r = Some CTrue" "has_complement ngt ys = Some True"
      then show ?thesis using has_complement_True s(1) v by simp
    qed
  qed
qed

lemma distribute_last_ok:
  assumes "distribute_last andc orc x els second fin = Some r" "els \<noteq> []"
    "\<forall>e \<in> set els. ok e" "ok second"
  shows "\<exists>e. r = Some e \<and> ok e \<and> ev e = ((\<exists>e \<in> set els. ev e) \<and> ev second)"
proof -
  let ?mk = "\<lambda>el. andc [Some el, Some second] None x"
  obtain ps where ps: "map_steps ?mk els = Some ps" "orc ps None fin = Some r"
    using assms(1) by (auto simp: distribute_last_def split: option.splits)
  have prod: "\<exists>e. p = Some e \<and> ok e \<and> ev e = (ev el \<and> ev second)" if "el \<in> set els" "?mk el = Some p" for el p
  proof -
    have "result_ok env F ctx [Some el, Some second] p (ev el \<and> ev second)"
      using andc_ok [OF that(2)] assms(3,4) that(1) by simp
    then show ?thesis by (cases p) (auto simp: result_ok_def)
  qed
  have bwd: "\<exists>el \<in> set els. ?mk el = Some p" if "p \<in> set ps" for p
    by (rule map_steps_members(1) [OF ps(1) that])
  have fwd: "\<exists>p \<in> set ps. ?mk el = Some p" if "el \<in> set els" for el
    by (rule map_steps_members(2) [OF ps(1) that])
  have "operands_ok env F ctx ps" unfolding operands_ok_def using prod bwd by blast
  moreover have v: "some_true env ctx ps = ((\<exists>e \<in> set els. ev e) \<and> ev second)"
    unfolding some_true_def using prod bwd fwd by blast
  ultimately have "result_ok env F ctx ps r ((\<exists>e \<in> set els. ev e) \<and> ev second)" using orc_ok [OF ps(2)] by simp
  moreover have "\<exists>p \<in> set ps. p \<noteq> None" using assms(2) prod fwd by (metis last_in_set option.distinct(1))
  ultimately show ?thesis by (cases r) (auto simp: result_ok_def)
qed

lemma distribute_loop_ok:
  assumes "distribute_loop andc orc x expr = Some ys" "expr \<noteq> []" "\<forall>e \<in> set expr. ok e"
  shows "ys \<noteq> [] \<and> (\<forall>y \<in> set ys. ok y) \<and> (\<forall>y \<in> set ys. ev y) = (\<forall>e \<in> set expr. ev e)"
  using assms
proof (induction "length expr" arbitrary: expr rule: less_induct)
  case less
  show ?case
  proof (cases "length expr > 1 \<and> ck_type (last expr) = 9")
    case False
    then show ?thesis using less.prems distribute_loop_stop by simp
  next
    case True
    then obtain popped sec els n where e: "expr = popped @ [sec, COr els n]" using distribute_loop_split by blast
    have ok: "els \<noteq> []" "\<forall>e \<in> set els. ok e" "ok sec" "\<forall>e \<in> set popped. ok e"
      using less.prems(3) by (auto simp: e ck_ok_Or)
    note st = less.prems(1) [unfolded e distribute_loop_step]
    then obtain r where r: "distribute_last andc orc x els sec (popped = []) = Some r"
      by (auto split: option.splits)
    then obtain c where c: "r = Some c" "ok c" "ev c = ((\<exists>e \<in> set els. ev e) \<and> ev sec)"
      using distribute_last_ok [OF r ok(1-3)] by blast
    have next_step: "distribute_loop andc orc x (js_sort ck_cmp (popped @ [c])) = Some ys"
      using st r c(1) by simp
    have "ys \<noteq> [] \<and> (\<forall>y \<in> set ys. ok y) \<and>
        (\<forall>y \<in> set ys. ev y) = (\<forall>e \<in> set (js_sort ck_cmp (popped @ [c])). ev e)"
    proof (rule less.hyps [OF _ next_step])
      show "length (js_sort ck_cmp (popped @ [c])) < length expr" by (simp add: length_js_sort e)
      show "\<forall>e \<in> set (js_sort ck_cmp (popped @ [c])). ok e" using ok(4) c(2) by (auto simp: js_sort_evaluate)
    qed simp
    then show ?thesis using c(3) by (auto simp: js_sort_evaluate e evaluate_Or)
  qed
qed

lemma and_normalize_ok:
  assumes "ContextKeyAndExpr_normalizeArr andc orc ngt es neg x = Some r" "operands_ok env F ctx es"
    "negation_ok env F ctx neg (all_true env ctx es)"
  shows "result_ok env F ctx es r (all_true env ctx es)"
proof (cases "and_collect es [] False")
  case None
  then show ?thesis using assms(1) and_collect_None [OF None, of env ctx]
    by (auto simp: ContextKeyAndExpr_normalizeArr_def)
next
  case (Some p)
  obtain xs t where p: "and_collect es [] False = Some (xs, t)" using Some by (cases p) auto
  have xs: "xs = and_terms es" "t \<longleftrightarrow> Some CTrue \<in> set es" using and_collect_Some [OF p] by simp_all
  note c = and_terms_ok [OF assms(2), folded xs]
  define ys where "ys = drop_duplicates (js_sort ck_cmp xs)"
  note s = sorted_operands [OF c(1) ys_def]
  show ?thesis
  proof (cases "length xs \<le> 1")
    case True
    then show ?thesis using assms(1) c hd_of_one [of xs]
      by (cases xs) (auto simp: ContextKeyAndExpr_normalizeArr_def p result_ok_def split: if_splits)
  next
    case False
    then have ne: "xs \<noteq> []" "length xs \<noteq> 1" by auto
    have v: "(\<forall>y \<in> set ys. ev y) = all_true env ctx es" using c(2) s(2) by simp
    show ?thesis
    proof (cases "length ys = 1")
      case True
      then have "r = Some (hd ys)" "ys = [hd ys]"
        using assms(1) ne hd_of_one by (simp_all add: ContextKeyAndExpr_normalizeArr_def p Let_def flip: ys_def)
      moreover from this have "set ys = {hd ys}" by (metis list.set(1) list.simps(15))
      ultimately show ?thesis using s(1) v by simp
    next
      case False
      then obtain zs where zs: "distribute_loop andc orc x ys = Some zs"
        using assms(1) ne by (auto simp: ContextKeyAndExpr_normalizeArr_def p Let_def simp flip: ys_def split: option.splits)
      note d = distribute_loop_ok [OF zs _ s(1)]
      have dz: "zs \<noteq> []" "\<forall>y \<in> set zs. ok y" "(\<forall>y \<in> set zs. ev y) = all_true env ctx es"
        using d s(4) ne(1) v by simp_all
      have "r = Some (hd zs) \<and> zs = [hd zs] \<or> r = Some (CAnd zs neg) \<or>
          r = Some CFalse \<and> has_complement ngt zs = Some True"
        using assms(1) ne False zs hd_of_one [of zs]
        by (auto simp: ContextKeyAndExpr_normalizeArr_def p Let_def simp flip: ys_def split: if_splits option.splits)
      then show ?thesis
      proof (elim disjE conjE)
        assume h: "r = Some (hd zs)" "zs = [hd zs]"
        then have "set zs = {hd zs}" by (metis list.set(1) list.simps(15))
        then show ?thesis using h(1) dz by simp
      next
        assume "r = Some (CAnd zs neg)"
        then show ?thesis using dz assms(3) by (simp add: ck_ok_And evaluate_And)
      next
        assume h: "r = Some CFalse" "has_complement ngt zs = Some True"
        then have "\<not> (\<forall>z \<in> set zs. ev z)" using has_complement_True [OF h(2) dz(2)] by blast
        then show ?thesis using h(1) dz(3) by simp
      qed
    qed
  qed
qed

lemma map_negations:
  assumes "map_steps ngt xs = Some ns" "\<forall>x \<in> set xs. ok x"
  shows "\<forall>n \<in> set ns. ok n" "(\<forall>n \<in> set ns. ev n) = (\<forall>x \<in> set xs. \<not> ev x)"
    "(\<exists>n \<in> set ns. ev n) = (\<exists>x \<in> set xs. \<not> ev x)" "ns = [] \<longleftrightarrow> xs = []"
proof -
  have "list_all2 (\<lambda>x n. ok n \<and> ev n = (\<not> ev x)) xs ns"
    using assms ngt_ok by (auto simp: map_steps_Some list_all2_conv_all_nth)
  then show "\<forall>n \<in> set ns. ok n" "(\<forall>n \<in> set ns. ev n) = (\<forall>x \<in> set xs. \<not> ev x)"
    "(\<exists>n \<in> set ns. ev n) = (\<exists>x \<in> set xs. \<not> ev x)" "ns = [] \<longleftrightarrow> xs = []"
    by (induction rule: list_all2_induct) auto
qed

lemma terminals_ok:
  assumes "ok e"
  shows "getTerminals e \<noteq> []" "\<forall>x \<in> set (getTerminals e). ok x" "(\<exists>x \<in> set (getTerminals e). ev x) = ev e"
  using assms by (cases e; simp add: ck_ok_Or evaluate_Or)+

lemma distribute_negated_ok:
  assumes "distribute_negated andc orc ns = Some rs" "\<forall>n \<in> set ns. ok n" "ns \<noteq> []"
  shows "\<exists>e. rs = [e] \<and> ok e \<and> ev e = (\<forall>n \<in> set ns. ev n)"
  using assms
proof (induction "length ns" arbitrary: ns rule: less_induct)
  case less
  show ?case
  proof (cases ns)
    case Nil
    then show ?thesis using less.prems by simp
  next
    case (Cons l ms)
    note c1 = this
    show ?thesis
    proof (cases ms)
      case Nil
      then have "rs = [l]" using less.prems(1) by (simp add: c1)
      then show ?thesis using less.prems(2) by (simp add: c1 Nil)
    next
      case (Cons m rest)
      let ?ps = "List.product (getTerminals l) (getTerminals m)"
      let ?mk = "\<lambda>(left, right). andc [Some left, Some right] None False"
      obtain all e where all: "map_steps ?mk ?ps = Some all" "orc all None False = Some (Some e)"
          "distribute_negated andc orc (e # rest) = Some rs"
        using less.prems(1) by (auto simp: c1 Cons defined_result_Some split: option.splits)
      have lm: "ok l" "ok m" "\<forall>n \<in> set rest. ok n" using less.prems(2) by (auto simp: c1 Cons)
      note tl = terminals_ok [OF lm(1)]
      note tm = terminals_ok [OF lm(2)]
      have prod: "\<exists>c. p = Some c \<and> ok c \<and> ev c = (ev a \<and> ev b)"
        if "a \<in> set (getTerminals l)" "b \<in> set (getTerminals m)" "?mk (a, b) = Some p" for a b p
      proof -
        have "result_ok env F ctx [Some a, Some b] p (ev a \<and> ev b)"
          using andc_ok [of "[Some a, Some b]" None False p] that tl(2) tm(2) by simp
        then show ?thesis by (cases p) (auto simp: result_ok_def)
      qed
      have bwd: "\<exists>a \<in> set (getTerminals l). \<exists>b \<in> set (getTerminals m). ?mk (a, b) = Some p" if p: "p \<in> set all" for p
      proof -
        obtain q where "q \<in> set ?ps" "?mk q = Some p" using map_steps_members(1) [OF all(1) p] by blast
        then have "fst q \<in> set (getTerminals l)" "snd q \<in> set (getTerminals m)" "?mk (fst q, snd q) = Some p"
          by auto
        then show ?thesis by blast
      qed
      have fwd: "\<exists>p \<in> set all. ?mk (a, b) = Some p"
        if "a \<in> set (getTerminals l)" "b \<in> set (getTerminals m)" for a b
      proof -
        have "(a, b) \<in> set ?ps" using that by simp
        then show ?thesis by (rule map_steps_members(2) [OF all(1)])
      qed
      have oks: "operands_ok env F ctx all" unfolding operands_ok_def using prod bwd by blast
      have v: "some_true env ctx all = (ev l \<and> ev m)"
        unfolding some_true_def tl(3) [symmetric] tm(3) [symmetric] using prod bwd fwd by blast
      have e: "ok e" "ev e = (ev l \<and> ev m)" using orc_ok [OF all(2) oks] v by simp_all
      have "\<exists>r. rs = [r] \<and> ok r \<and> ev r = (\<forall>n \<in> set (e # rest). ev n)"
        using less.hyps [of "e # rest"] all(3) e(1) lm(3) by (simp add: c1 Cons)
      then show ?thesis using e(2) by (auto simp: c1 Cons)
    qed
  qed
qed

lemma negate_ok:
  assumes "negate_expr env andc orc ngt e = Some n" "ok e"
  shows "ok n \<and> ev n = (\<not> ev e)"
proof -
  have leaf: ?thesis if "leaf_negate env e = Some n"
    using leaf_negate_complement [OF that assms(2)] by blast
  have cached: "neg = Some m \<Longrightarrow> negation_ok env F ctx neg b \<Longrightarrow> ok m \<and> ev m = (\<not> b)" for neg m b
    by (simp add: negation_ok_def)
  show ?thesis
  proof (cases e)
    case (CAnd xs neg)
    show ?thesis
    proof (cases neg)
      case (Some m)
      then show ?thesis using assms cached
        by (auto simp: CAnd negate_expr_def ContextKeyAndExpr_negate_def ck_ok_And evaluate_And)
    next
      case None
      obtain ns where ns: "map_steps ngt xs = Some ns" "orc (map Some ns) (Some e) True = Some (Some n)"
        using assms(1) None
        by (auto simp: CAnd negate_expr_def ContextKeyAndExpr_negate_def defined_result_Some split: option.splits)
      note m = map_negations [OF ns(1)]
      have oks: "\<forall>x \<in> set xs. ok x" using assms(2) by (simp add: CAnd ck_ok_And)
      have "negation_ok env F ctx (Some e) (some_true env ctx (map Some ns))"
        using assms(2) m(3) oks by (simp add: negation_ok_def CAnd evaluate_And)
      then show ?thesis using orc_ok [OF ns(2)] m oks by (simp add: CAnd evaluate_And)
    qed
  next
    case (COr xs neg)
    show ?thesis
    proof (cases neg)
      case (Some m)
      then show ?thesis using assms cached
        by (auto simp: COr negate_expr_def ContextKeyOrExpr_negate_def ck_ok_Or evaluate_Or)
    next
      case None
      obtain ns rs where ns: "map_steps ngt xs = Some ns" "distribute_negated andc orc ns = Some rs"
          "orc (map Some rs) (Some e) True = Some (Some n)"
        using assms(1) None
        by (auto simp: COr negate_expr_def ContextKeyOrExpr_negate_def defined_result_Some split: option.splits)
      have oks: "\<forall>x \<in> set xs. ok x" "xs \<noteq> []" using assms(2) by (simp_all add: COr ck_ok_Or)
      note m = map_negations [OF ns(1) oks(1)]
      obtain r where r: "rs = [r]" "ok r" "ev r = (\<forall>n \<in> set ns. ev n)"
        using distribute_negated_ok [OF ns(2) m(1)] m(4) oks(2) by blast
      have "negation_ok env F ctx (Some e) (some_true env ctx (map Some rs))"
        using assms(2) m(2) r by (simp add: negation_ok_def COr evaluate_Or)
      then show ?thesis using orc_ok [OF ns(3)] r m(2) by (simp add: COr evaluate_Or)
    qed
  qed (use assms leaf in \<open>simp_all add: negate_expr_def\<close>)
qed

end

section \<open>The operations are instances\<close>

lemma normalizer_fuel: "ck_normalizer env F ctx (and_create env n) (or_create env n) (ck_negate env n)"
proof (induction n)
  case 0
  show ?case by unfold_locales simp_all
next
  case (Suc n)
  show ?case
  proof (unfold_locales, goal_cases)
    case (1 es neg x r)
    then show ?case using ck_normalizer.and_normalize_ok [OF Suc] by (simp only: and_create.simps(2))
  next
    case (2 es neg x r)
    then show ?case using ck_normalizer.or_normalize_ok [OF Suc] by (simp only: or_create.simps(2))
  next
    case (3 e m)
    then show ?case using ck_normalizer.negate_ok [OF Suc] by (simp only: ck_negate.simps(2))
  qed
qed

interpretation nf: ck_normalizer env F ctx "and_create env n" "or_create env n" "ck_negate env n" for env F ctx n
  by (rule normalizer_fuel)

end
