(* ===== verification/ContextKeyImplies.thy ===== *)
theory ContextKeyImplies
  imports ContextKeyProofs
begin

text \<open>
  What is built on the normal form: \<open>substituteConstants\<close> keeps the value in every context that agrees
  with the constants, and \<open>implies\<close> holds only where the implication does.

  The comparison \<open>cmp\<close> that \<open>implies\<close> goes by calls two operands equal when neither is smaller.  For
  two strings or two numbers that is equality; \<open>exact_values\<close> says that the operators
  \<open>==\<close> and \<open>!=\<close> compare with strings.
\<close>

section \<open>Constants\<close>

lemma substitute_leaf_ok:
  assumes "r = substitute_leaf c f e" "ck_ok env F ctx e"
    "\<And>b. c = Some b \<Longrightarrow> ck_ok env F ctx (f b) \<and> ck_evaluate env ctx (f b) = ck_evaluate env ctx e"
  shows "\<exists>x. snd r = Some x \<and> ck_ok env F ctx x \<and> ck_evaluate env ctx x = ck_evaluate env ctx e"
  using assms by (cases c) (auto simp: substitute_leaf_def)

lemma operands_of_substitution:
  assumes "list_all2 (\<lambda>x y. \<exists>z. snd y = Some z \<and> ck_ok env F ctx z \<and> ck_evaluate env ctx z = ck_evaluate env ctx x) xs ys"
  shows "operands_ok env F ctx (map snd ys)"
    "all_true env ctx (map snd ys) = (\<forall>x \<in> set xs. ck_evaluate env ctx x)"
    "some_true env ctx (map snd ys) = (\<exists>x \<in> set xs. ck_evaluate env ctx x)"
    "xs \<noteq> [] \<Longrightarrow> \<not> (\<forall>e \<in> set (map snd ys). e = None)"
  using assms by (induction rule: list_all2_induct) auto

lemma substitute_ok:
  "ck_substituteConstants env fuel e = Some r \<Longrightarrow> ck_ok env F ctx e \<Longrightarrow>
     \<exists>x. snd r = Some x \<and> ck_ok env F ctx x \<and> ck_evaluate env ctx x = ck_evaluate env ctx e"
  "substitute_operands env fuel xs = Some ys \<Longrightarrow> \<forall>x \<in> set xs. ck_ok env F ctx x \<Longrightarrow>
     list_all2 (\<lambda>x y. \<exists>z. snd y = Some z \<and> ck_ok env F ctx z \<and> ck_evaluate env ctx z = ck_evaluate env ctx x) xs ys"
proof (induction env fuel e and env fuel xs arbitrary: r and ys rule: ck_substituteConstants_substitute_operands.induct)
  case (1 env fuel k)
  then show ?case
    by (intro substitute_leaf_ok [of r "CONSTANT_VALUES env k" bool_expr])
      (auto simp: truth_agrees_def leaf_evaluate_defs)
next
  case (2 env fuel k)
  then show ?case
    by (intro substitute_leaf_ok [of r "CONSTANT_VALUES env k" "\<lambda>b. bool_expr (\<not> b)"])
      (auto simp: truth_agrees_def leaf_evaluate_defs)
next
  case (3 env fuel k v)
  then show ?case
    by (intro substitute_leaf_ok [of r "CONSTANT_VALUES env k" "\<lambda>b. bool_expr (constant_equals b v)"])
      (auto simp: value_agrees_def leaf_evaluate_defs)
next
  case (4 env fuel k v)
  then show ?case
    by (intro substitute_leaf_ok [of r "CONSTANT_VALUES env k" "\<lambda>b. bool_expr (\<not> constant_equals b v)"])
      (auto simp: value_agrees_def leaf_evaluate_defs)
next
  case (5 env fuel xs n)
  have xs: "\<forall>x \<in> set xs. ck_ok env F ctx x" "xs \<noteq> []"
      "negation_ok env F ctx n (\<forall>x \<in> set xs. ck_evaluate env ctx x)"
    using "5.prems"(2) by (simp_all add: ck_ok_And)
  obtain news where news: "substitute_operands env fuel xs = Some news"
    using "5.prems"(1) by (auto split: option.splits)
  note o = operands_of_substitution [OF "5.IH" [OF news xs(1)]]
  show ?case
  proof (cases "list_ex fst news")
    case False
    then have "r = (False, Some (CAnd xs n))" using "5.prems"(1) news by (simp add: eliminateConstantsInArray_def)
    then show ?thesis using "5.prems"(2) by simp
  next
    case True
    then obtain e where e: "and_create env fuel (map snd news) n False = Some e" "snd r = e"
      using "5.prems"(1) news by (auto simp: eliminateConstantsInArray_def)
    have "result_ok env F ctx (map snd news) e (all_true env ctx (map snd news))"
      using nf.andc_ok [OF e(1) o(1)] xs(3) o(2) by simp
    then show ?thesis using o(2,4) xs(2) e(2) by (cases e) (auto simp: result_ok_def evaluate_And)
  qed
next
  case (6 env fuel xs n)
  have xs: "\<forall>x \<in> set xs. ck_ok env F ctx x" "xs \<noteq> []"
      "negation_ok env F ctx n (\<exists>x \<in> set xs. ck_evaluate env ctx x)"
    using "6.prems"(2) by (simp_all add: ck_ok_Or)
  obtain news where news: "substitute_operands env fuel xs = Some news"
    using "6.prems"(1) by (auto split: option.splits)
  note o = operands_of_substitution [OF "6.IH" [OF news xs(1)]]
  show ?case
  proof (cases "list_ex fst news")
    case False
    then have "r = (False, Some (COr xs n))" using "6.prems"(1) news by (simp add: eliminateConstantsInArray_def)
    then show ?thesis using "6.prems"(2) by simp
  next
    case True
    then obtain e where e: "or_create env fuel (map snd news) n False = Some e" "snd r = e"
      using "6.prems"(1) news by (auto simp: eliminateConstantsInArray_def)
    have "result_ok env F ctx (map snd news) e (some_true env ctx (map snd news))"
      using nf.orc_ok [OF e(1) o(1)] xs(3) o(3) by simp
    then show ?thesis using o(3,4) xs(2) e(2) by (cases e) (auto simp: result_ok_def evaluate_Or)
  qed
next
  case (9 env fuel x xs)
  then show ?case by (auto split: option.splits)
qed (auto)

section \<open>Comparison\<close>

definition is_string :: "js_prim \<Rightarrow> bool" where
  "is_string v \<longleftrightarrow> (case v of PStr s \<Rightarrow> True | _ \<Rightarrow> False)"

fun exact_values :: "ck_expr \<Rightarrow> bool" where
  "exact_values (CEquals k v) \<longleftrightarrow> is_string v"
| "exact_values (CNotEquals k v) \<longleftrightarrow> is_string v"
| "exact_values (CAnd xs n) \<longleftrightarrow> list_all exact_values xs"
| "exact_values (COr xs n) \<longleftrightarrow> list_all exact_values xs"
| "exact_values e \<longleftrightarrow> True"

lemma num_less_total: "a \<noteq> NaN \<Longrightarrow> b \<noteq> NaN \<Longrightarrow> \<not> num_less a b \<Longrightarrow> \<not> num_less b a \<Longrightarrow> a = b"
  by (cases a; cases b) auto

lemma cmp2_zero:
  assumes "cmp2 k v k' v' = 0"
  shows "k = k'" "is_string v \<Longrightarrow> is_string v' \<Longrightarrow> v = v'"
    "numeric_comparison env c v \<Longrightarrow> numeric_comparison env c v' \<Longrightarrow> v = v'"
proof -
  have z: "\<not> js_less k k'" "\<not> js_less k' k" "\<not> prim_less v v'" "\<not> prim_less v' v"
    using assms by (auto simp: cmp2_def split: if_splits)
  then show "k = k'" using js_less_cases by blast
  show "v = v'" if "is_string v" "is_string v'"
    using that z(3,4) js_less_cases by (auto simp: is_string_def split: js_prim.splits)
  show "v = v'" if "numeric_comparison env c v" "numeric_comparison env c v'"
    using that z(3,4) num_less_total by (cases v; cases v') auto
qed

lemma cmp2_zero_strings: "cmp2 k (PStr a) k' (PStr b) = 0 \<Longrightarrow> k = k' \<and> a = b"
  using cmp2_zero(1,2) [of k "PStr a" k' "PStr b"] by (simp add: is_string_def)

lemma regex_cmp_zero:
  "ContextKeyRegexExpr_cmp k r k' r' = 0 \<Longrightarrow> k = k' \<and> regexp_source r = regexp_source r'"
  using js_less_cases by (auto simp: ContextKeyRegexExpr_cmp_def Let_def split: if_splits)

lemma ck_cmp_type: "ck_cmp a b = 0 \<Longrightarrow> ck_type a = ck_type b"
  by (cases a) (auto split: if_splits)

lemma ck_cmp_evaluate:
  "ck_cmp a b = 0 \<Longrightarrow> ck_ok env F ctx a \<Longrightarrow> ck_ok env F ctx b \<Longrightarrow> exact_values a \<Longrightarrow> exact_values b \<Longrightarrow>
     ck_evaluate env ctx a = ck_evaluate env ctx b"
  "ck_cmp_operands xs ys = 0 \<Longrightarrow> \<forall>x \<in> set xs. ck_ok env F ctx x \<and> exact_values x \<Longrightarrow>
     \<forall>y \<in> set ys. ck_ok env F ctx y \<and> exact_values y \<Longrightarrow>
     list_all2 (\<lambda>x y. ck_evaluate env ctx x = ck_evaluate env ctx y) xs ys"
  "ck_cmp_loop xs ys = 0 \<Longrightarrow> \<forall>x \<in> set xs. ck_ok env F ctx x \<and> exact_values x \<Longrightarrow>
     \<forall>y \<in> set ys. ck_ok env F ctx y \<and> exact_values y \<Longrightarrow> length xs = length ys \<Longrightarrow>
     list_all2 (\<lambda>x y. ck_evaluate env ctx x = ck_evaluate env ctx y) xs ys"
proof (induction a b and xs ys and xs ys rule: ck_cmp_ck_cmp_operands_ck_cmp_loop.induct)
  case (7 xs n other)
  then obtain ys m where o: "other = CAnd ys m" using ck_cmp_type [OF "7.prems"(1)] type_And by fastforce
  have "list_all2 (\<lambda>x y. ck_evaluate env ctx x = ck_evaluate env ctx y) xs ys"
    using 7 by (simp add: o ck_ok_And list_all_iff)
  then show ?case unfolding o evaluate_And by (rule list_all2_same)
next
  case (10 xs n other)
  then obtain ys m where o: "other = COr ys m" using ck_cmp_type [OF "10.prems"(1)] type_Or by fastforce
  have "list_all2 (\<lambda>x y. ck_evaluate env ctx x = ck_evaluate env ctx y) xs ys"
    using 10 by (simp add: o ck_ok_Or list_all_iff)
  then show ?case unfolding o evaluate_Or by (rule list_all2_same)
next
  case (1 other) then show ?case by (cases other) auto
next
  case (2 other) then show ?case by (cases other) auto
next
  case (3 k other) then show ?case by (cases other) auto
next
  case (4 k other) then show ?case by (cases other) auto
next
  case (5 k v other) then show ?case by (cases other) (auto dest: cmp2_zero)
next
  case (6 k v other) then show ?case by (cases other) (auto dest: cmp2_zero)
next
  case (8 k r other) then show ?case by (cases other) (auto dest!: regex_cmp_zero dest: same_source)
next
  case (9 k r other) then show ?case by (cases other) (auto dest!: regex_cmp_zero dest: same_source)
next
  case (11 k w other)
  then show ?case by (cases other) (auto dest!: cmp2_zero_strings)
next
  case (12 k w other)
  then show ?case by (cases other) (auto dest!: cmp2_zero_strings)
next
  case (13 k v other) then show ?case by (cases other) (auto dest: cmp2_zero(1) cmp2_zero(3))
next
  case (14 k v other) then show ?case by (cases other) (auto dest: cmp2_zero(1) cmp2_zero(3))
next
  case (15 k v other) then show ?case by (cases other) (auto dest: cmp2_zero(1) cmp2_zero(3))
next
  case (16 k v other) then show ?case by (cases other) (auto dest: cmp2_zero(1) cmp2_zero(3))
next
  case (17 xs ys) then show ?case by (auto split: if_splits)
next
  case (18 x xs y ys) then show ?case by (auto simp: Let_def split: if_splits)
qed auto

section \<open>Implication\<close>

lemma allElementsIncluded_members:
  "allElementsIncluded ps qs \<Longrightarrow> p \<in> set ps \<Longrightarrow> \<exists>q \<in> set qs. ck_cmp p q = 0"
  by (induction ps qs rule: allElementsIncluded.induct) (auto simp: Let_def split: if_splits)

lemma included_evaluate:
  assumes "allElementsIncluded ps qs" "p \<in> set ps"
    "\<forall>x \<in> set ps \<union> set qs. ck_ok env F ctx x \<and> exact_values x"
  shows "\<exists>q \<in> set qs. ck_evaluate env ctx p = ck_evaluate env ctx q"
proof -
  obtain q where q: "q \<in> set qs" "ck_cmp p q = 0" using allElementsIncluded_members [OF assms(1,2)] by blast
  then show ?thesis using ck_cmp_evaluate(1) [OF q(2), of env F ctx] assms(2,3) by blast
qed

lemma args_ok:
  assumes "ck_ok env F ctx e" "exact_values e" "x \<in> set (ck_args e)"
  shows "ck_ok env F ctx x" "exact_values x"
  using assms by (cases e; auto simp: ck_ok_And ck_ok_Or list_all_iff)+

lemma evaluate_args:
  "ck_type e = 6 \<Longrightarrow> ck_evaluate env ctx e \<longleftrightarrow> (\<forall>x \<in> set (ck_args e). ck_evaluate env ctx x)"
  "ck_type e = 9 \<Longrightarrow> ck_evaluate env ctx e \<longleftrightarrow> (\<exists>x \<in> set (ck_args e). ck_evaluate env ctx x)"
  by (cases e; simp add: evaluate_And evaluate_Or)+

lemma evaluate_constant_type:
  "ck_type e = 0 \<Longrightarrow> \<not> ck_evaluate env ctx e" "ck_type e = 1 \<Longrightarrow> ck_evaluate env ctx e"
  by (cases e; simp)+

lemma implies_sound:
  "ck_implies p q \<Longrightarrow> ck_ok env F ctx p \<Longrightarrow> ck_ok env F ctx q \<Longrightarrow> exact_values p \<Longrightarrow> exact_values q \<Longrightarrow>
   ck_evaluate env ctx p \<Longrightarrow> ck_evaluate env ctx q"
proof (induction p q rule: ck_implies.induct)
  case (1 p q)
  note ok = "1.prems"(2-5)
  have members: "\<forall>x \<in> set (ck_args p) \<union> set (ck_args q). ck_ok env F ctx x \<and> exact_values x"
    using args_ok ok by blast
  consider "ck_type p = 0 \<or> ck_type q = 1" | "ck_type p = 9" "ck_type q = 9" "allElementsIncluded (ck_args p) (ck_args q)"
    | x where "ck_type q = 9" "x \<in> set (ck_args q)" "ck_implies p x" "\<not> (ck_type p = 0 \<or> ck_type q = 1)" "ck_type p \<noteq> 9"
    | "ck_type p = 6" "ck_type q = 6" "allElementsIncluded (ck_args q) (ck_args p)"
    | x where "ck_type p = 6" "x \<in> set (ck_args p)" "ck_implies x q" "\<not> (ck_type p = 0 \<or> ck_type q = 1)"
        "ck_type p \<noteq> 9" "ck_type q \<noteq> 9" "ck_type q \<noteq> 6"
    | "ck_equals p q"
    using "1.prems"(1) by (auto simp: ck_implies.simps [of p q] list_ex_iff split: if_splits)
  then show ?case
  proof cases
    case 1
    then show ?thesis using "1.prems"(6) evaluate_constant_type by blast
  next
    case 2
    then obtain x where "x \<in> set (ck_args p)" "ck_evaluate env ctx x" using "1.prems"(6) evaluate_args(2) by blast
    then show ?thesis using included_evaluate [OF 2(3)] members 2(2) evaluate_args(2) by blast
  next
    case (3 x)
    then have "ck_evaluate env ctx x" using "1.IH"(1) [OF 3(4,5,1,2,3)] "1.prems"(6) ok members by blast
    then show ?thesis using 3(1,2) evaluate_args(2) by blast
  next
    case 4
    have "ck_evaluate env ctx x" if "x \<in> set (ck_args q)" for x
      using included_evaluate [OF 4(3) that] members "1.prems"(6) 4(1) evaluate_args(1) by blast
    then show ?thesis using 4(2) evaluate_args(1) by blast
  next
    case (5 x)
    have "ck_evaluate env ctx x" using "1.prems"(6) 5(1,2) evaluate_args(1) by blast
    then show ?thesis using "1.IH"(2) [OF 5(4,5,6,1,7,2,3)] ok members 5(2) by blast
  next
    case 6
    then show ?thesis using ck_equals_evaluate(1) ok(1,2) "1.prems"(6) by blast
  qed
qed

end
