(* ===== verification/KeybindingProofs.thy ===== *)
theory KeybindingProofs
  imports KeybindingResolver ContextKeyImplies "HOL-Library.Sublist"
begin

text \<open>
  What the resolver computes.  The association lists hold, for a first chord, the keybindings with it in
  order; the removals of a command are the rules that remove it in order.  A keybinding that is not
  found from its command was overwritten by a later one.
\<close>

definition items_at :: "(js_string \<times> 'a list) list \<Rightarrow> js_string \<Rightarrow> 'a list" where
  "items_at m c = (case map_of m c of None \<Rightarrow> [] | Some xs \<Rightarrow> xs)"

lemma items_at_update [simp]: "items_at (AList.update k xs m) c = (if c = k then xs else items_at m c)"
  by (simp add: items_at_def update_conv')

lemma items_at_Nil [simp]: "items_at [] c = []"
  by (simp add: items_at_def)

section \<open>The last match\<close>

definition last_match :: "('a \<Rightarrow> bool) \<Rightarrow> 'a list \<Rightarrow> 'a option" where
  "last_match P xs = (if filter P xs = [] then None else Some (last (filter P xs)))"

lemma findCommand_last_match:
  "findCommand env ctx ks = last_match (\<lambda>k. kb_contextMatchesRules env ctx (kb_when k)) ks"
proof (induction ks rule: rev_induct)
  case (snoc k ks)
  then show ?case by (simp add: findCommand_def last_match_def)
qed (simp add: findCommand_def last_match_def)

lemma last_match_filter: "last_match P (filter Q xs) = last_match (\<lambda>x. Q x \<and> P x) xs"
  by (simp add: last_match_def conj_commute)

lemma chords_match_prefix: "chords_match ks cs \<longleftrightarrow> prefix ks cs"
  by (induction ks cs rule: chords_match.induct) auto

section \<open>Implication between when-clauses\<close>

definition when_ok :: "ck_env \<Rightarrow> (js_string \<Rightarrow> js_string) \<Rightarrow> ck_context \<Rightarrow> ck_expr option \<Rightarrow> bool" where
  "when_ok env F ctx w \<longleftrightarrow> (case w of None \<Rightarrow> True | Some e \<Rightarrow> ck_ok env F ctx e \<and> exact_values e)"

lemma type_True: "ck_type e = 1 \<longleftrightarrow> e = CTrue"
  by (cases e) simp_all

lemma included_sound:
  assumes "whenIsEntirelyIncluded a b" "when_ok env F ctx a" "when_ok env F ctx b"
    "kb_contextMatchesRules env ctx a"
  shows "kb_contextMatchesRules env ctx b"
proof (cases b)
  case (Some q)
  show ?thesis
  proof (cases "q = CTrue")
    case False
    then obtain p where p: "a = Some p" "ck_implies p q"
      using assms(1) Some by (auto simp: whenIsEntirelyIncluded_def type_True split: option.splits if_splits)
    then show ?thesis
      using implies_sound [of p q env F ctx] assms(2-4) Some
      by (simp add: when_ok_def kb_contextMatchesRules_def)
  qed (simp add: Some kb_contextMatchesRules_def)
qed (simp add: kb_contextMatchesRules_def)

lemma substitute_optional_ok:
  assumes "substitute_optional env fuel w = Some w'" "\<forall>e. w = Some e \<longrightarrow> ck_ok env F ctx e"
  shows "\<forall>e. w' = Some e \<longrightarrow> ck_ok env F ctx e" "kb_contextMatchesRules env ctx w' = kb_contextMatchesRules env ctx w"
    "w' = None \<longleftrightarrow> w = None"
proof -
  have "(\<forall>e. w' = Some e \<longrightarrow> ck_ok env F ctx e) \<and> kb_contextMatchesRules env ctx w' = kb_contextMatchesRules env ctx w \<and>
    (w' = None \<longleftrightarrow> w = None)"
  proof (cases w)
    case (Some e)
    then obtain r where r: "ck_substituteConstants env fuel e = Some r" "w' = snd r"
      using assms(1) by (auto simp: substitute_optional_def)
    then obtain x where "w' = Some x" "ck_ok env F ctx x" "ck_evaluate env ctx x = ck_evaluate env ctx e"
      using substitute_ok(1) [OF r(1), of F ctx] assms(2) Some by auto
    then show ?thesis using Some by (simp add: kb_contextMatchesRules_def)
  qed (use assms in \<open>simp add: substitute_optional_def\<close>)
  then show "\<forall>e. w' = Some e \<longrightarrow> ck_ok env F ctx e" "kb_contextMatchesRules env ctx w' = kb_contextMatchesRules env ctx w"
    "w' = None \<longleftrightarrow> w = None" by simp_all
qed

section \<open>Removals\<close>

definition removes :: "js_string \<Rightarrow> 'a ResolvedKeybindingItem \<Rightarrow> bool" where
  "removes command d \<longleftrightarrow> is_removal (kb_command d) \<and> tl (the (kb_command d)) = command"

lemma collect_removals_items:
  "items_at (collect_removals rules m) c = items_at m c @ filter (removes c) rules"
proof (induction rules m rule: collect_removals.induct)
  case (2 rule rules removals)
  show ?case
  proof (cases "is_removal (kb_command rule)")
    case False
    then show ?thesis using "2.IH" by (simp add: removes_def)
  next
    case True
    let ?c = "tl (the (kb_command rule))"
    have "collect_removals (rule # rules) removals =
        collect_removals rules (AList.update ?c (items_at removals ?c @ [rule]) removals)"
      using True by (simp add: items_at_def Let_def split: option.split)
    moreover have "items_at (collect_removals rules (AList.update ?c (items_at removals ?c @ [rule]) removals)) c =
        items_at (AList.update ?c (items_at removals ?c @ [rule]) removals) c @ filter (removes c) rules"
      using "2.IH" True by (cases "map_of removals ?c") (simp_all add: items_at_def)
    ultimately show ?thesis using True by (auto simp: removes_def [abs_def])
  qed
qed simp

lemma collect_removals_found:
  "map_of (collect_removals rules []) c = (if filter (removes c) rules = [] then None else Some (filter (removes c) rules))"
proof -
  have "map_of (collect_removals rules m) c \<noteq> Some []" if "map_of m c \<noteq> Some []" for m
    using that
  proof (induction rules m rule: collect_removals.induct)
    case (2 rule rules removals)
    then show ?case by (auto simp: Let_def update_conv' split: option.splits)
  qed simp
  then have "map_of (collect_removals rules []) c \<noteq> Some []" by simp
  then show ?thesis
    using collect_removals_items [of rules "[]" c] by (auto simp: items_at_def split: option.splits)
qed

lemma collect_removals_empty: "collect_removals rules [] = [] \<Longrightarrow> r \<in> set rules \<Longrightarrow> \<not> is_removal (kb_command r)"
  using collect_removals_found [of rules "tl (the (kb_command r))"]
  by (auto simp: removes_def filter_empty_conv split: if_splits)

lemma keep_rules_result:
  "keep_rules env fuel rm rules acc = Some res \<Longrightarrow>
   res = acc @ filter (\<lambda>r. keeps_rule env fuel rm r = Some True) rules \<and> (\<forall>r \<in> set rules. keeps_rule env fuel rm r \<noteq> None)"
proof (induction rules arbitrary: acc)
  case (Cons rule rules)
  then obtain b where b: "keeps_rule env fuel rm rule = Some b" by (auto split: option.splits)
  then show ?case using Cons.prems Cons.IH [of "if b then acc @ [rule] else acc"] by (cases b) auto
qed simp

lemma handleRemovals_keeps:
  assumes "handleRemovals env fuel rules = Some kept"
  shows "kept = filter (\<lambda>r. keeps_rule env fuel (collect_removals rules []) r = Some True) rules"
    "\<forall>r \<in> set rules. keeps_rule env fuel (collect_removals rules []) r \<noteq> None"
proof -
  let ?rm = "collect_removals rules []"
  have "kept = filter (\<lambda>r. keeps_rule env fuel ?rm r = Some True) rules \<and>
      (\<forall>r \<in> set rules. keeps_rule env fuel ?rm r \<noteq> None)"
  proof (cases "?rm = []")
    case True
    then have "\<forall>r \<in> set rules. keeps_rule env fuel ?rm r = Some True"
      using collect_removals_empty [OF True] by (simp add: keeps_rule_def)
    then show ?thesis using assms True by (simp add: handleRemovals_def)
  next
    case False
    then show ?thesis using assms keep_rules_result [of env fuel ?rm rules "[]" kept] by (simp add: handleRemovals_def)
  qed
  then show "kept = filter (\<lambda>r. keeps_rule env fuel ?rm r = Some True) rules"
    "\<forall>r \<in> set rules. keeps_rule env fuel ?rm r \<noteq> None" by simp_all
qed

lemma some_targeted_True:
  "some_targeted env fuel rule rs = Some True \<Longrightarrow>
   \<exists>d \<in> set rs. isTargetedForRemoval env fuel rule (kb_chords d) (kb_when d) = Some True"
  by (induction rs) (auto split: option.splits if_splits)

lemma targeted_included:
  assumes "isTargetedForRemoval env fuel rule chords when = Some True"
  shows "prefix chords (kb_chords rule)"
    "when \<noteq> None \<Longrightarrow> the when \<noteq> CTrue \<Longrightarrow> \<exists>a b. substitute_optional env fuel (kb_when rule) = Some a \<and>
       substitute_optional env fuel when = Some b \<and> whenIsEntirelyIncluded a b"
  using assms by (auto simp: isTargetedForRemoval_def chords_match_prefix type_True bind_eq_Some_conv
      split: if_splits option.splits)

lemma removed_rule:
  assumes "handleRemovals env fuel rules = Some kept" "r \<in> set rules" "r \<notin> set kept" "\<not> is_removal (kb_command r)"
  obtains d where "d \<in> set rules" "removes (the (kb_command r)) d" "kb_isDefault r" "has_command (kb_command r)"
    "isTargetedForRemoval env fuel r (kb_chords d) (kb_when d) = Some True"
proof -
  let ?ds = "filter (removes (the (kb_command r))) rules"
  have "keeps_rule env fuel (collect_removals rules []) r = Some False"
    using handleRemovals_keeps [OF assms(1)] assms(2,3) by auto
  then have k: "has_command (kb_command r)" "kb_isDefault r" "some_targeted env fuel r ?ds = Some True"
    using assms(4) by (auto simp: keeps_rule_def collect_removals_found split: if_splits)
  then show thesis using some_targeted_True [OF k(3)] that by auto
qed

section \<open>The map of first chords\<close>

definition kb_active :: "ck_env \<Rightarrow> nat \<Rightarrow> 'a ResolvedKeybindingItem \<Rightarrow> bool" where
  "kb_active env fuel k \<longleftrightarrow> kb_chords k \<noteq> [] \<and>
     (case substitute_optional env fuel (kb_when k) of None \<Rightarrow> False | Some w \<Rightarrow> \<not> when_is_false w)"

fun add_keys :: "'a ResolvedKeybindingItem list \<Rightarrow> 'a KeybindingResolver \<Rightarrow> 'a KeybindingResolver" where
  "add_keys [] r = r"
| "add_keys (k # ks) r = add_keys ks (addKeyPress (hd (kb_chords k)) k r)"

lemma add_keybindings_active:
  "add_keybindings env fuel ks r = Some r' \<Longrightarrow> r' = add_keys (filter (kb_active env fuel) ks) r"
  by (induction ks arbitrary: r) (auto simp: kb_active_def split: if_splits option.splits)

lemma addKeyPress_map:
  "items_at (kr_map (addKeyPress c k r)) d = items_at (kr_map r) d @ (if d = c then [k] else [])"
  by (auto simp: addKeyPress_def items_at_def update_conv' split: option.splits)

lemma addKeyPress_keybindings [simp]: "kr_keybindings (addKeyPress c k r) = kr_keybindings r"
  by (simp add: addKeyPress_def split: option.split)

lemma add_keys_map: "items_at (kr_map (add_keys ks r)) c = items_at (kr_map r) c @ filter (\<lambda>k. hd (kb_chords k) = c) ks"
  by (induction ks arbitrary: r) (simp_all add: addKeyPress_map)

lemma add_keys_keybindings [simp]: "kr_keybindings (add_keys ks r) = kr_keybindings r"
  by (induction ks arbitrary: r) simp_all

abbreviation empty_resolver ::
  "'a ResolvedKeybindingItem list \<Rightarrow> 'a ResolvedKeybindingItem list \<Rightarrow> 'a KeybindingResolver" where
  "empty_resolver defaults keybindings \<equiv>
     \<lparr>kr_defaultKeybindings = defaults, kr_keybindings = keybindings,
      kr_defaultBoundCommands = bound_commands defaults [], kr_map = [], kr_lookupMap = []\<rparr>"

lemma new_resolver:
  assumes "new_KeybindingResolver env fuel defaults overrides = Some r"
  shows "handleRemovals env fuel (defaults @ overrides) = Some (kr_keybindings r)"
    "r = add_keys (filter (kb_active env fuel) (kr_keybindings r)) (empty_resolver defaults (kr_keybindings r))"
proof -
  obtain ks where ks: "handleRemovals env fuel (defaults @ overrides) = Some ks"
      "add_keybindings env fuel ks (empty_resolver defaults ks) = Some r"
    using assms by (auto simp: new_KeybindingResolver_def split: option.splits)
  have r: "r = add_keys (filter (kb_active env fuel) ks) (empty_resolver defaults ks)"
    by (rule add_keybindings_active [OF ks(2)])
  then have "kr_keybindings r = ks" by simp
  then show "handleRemovals env fuel (defaults @ overrides) = Some (kr_keybindings r)"
    "r = add_keys (filter (kb_active env fuel) (kr_keybindings r)) (empty_resolver defaults (kr_keybindings r))"
    using ks(1) r by simp_all
qed

lemma resolver_map:
  assumes "new_KeybindingResolver env fuel defaults overrides = Some r"
  shows "items_at (kr_map r) c = filter (\<lambda>k. kb_active env fuel k \<and> hd (kb_chords k) = c) (kr_keybindings r)"
  by (subst new_resolver(2) [OF assms]) (simp add: add_keys_map conj_commute)

section \<open>Resolving\<close>

definition kb_candidate :: "ck_env \<Rightarrow> nat \<Rightarrow> ck_context \<Rightarrow> js_string list \<Rightarrow> 'a ResolvedKeybindingItem \<Rightarrow> bool" where
  "kb_candidate env fuel ctx pressed k \<longleftrightarrow>
     kb_active env fuel k \<and> prefix pressed (kb_chords k) \<and> kb_contextMatchesRules env ctx (kb_when k)"

lemma pressed_prefix:
  assumes "kb_chords k \<noteq> []" "pressed \<noteq> []"
  shows "(hd (kb_chords k) = hd pressed \<and> (length pressed < 2 \<or> continues_pressed pressed k)) \<longleftrightarrow> prefix pressed (kb_chords k)"
proof -
  obtain c cs p ps where c: "kb_chords k = c # cs" "pressed = p # ps" using assms by (cases "kb_chords k"; cases pressed) auto
  have "prefix ps cs \<Longrightarrow> length ps \<le> length cs" by (rule prefix_length_le)
  then show ?thesis using c by (cases ps) (auto simp: continues_pressed_def chords_match_prefix)
qed

lemma kb_resolve_last_match:
  assumes "new_KeybindingResolver env fuel defaults overrides = Some r"
  shows "kb_resolve env ctx currentChords keypress r =
     (let pressed = currentChords @ [keypress] in
      case last_match (kb_candidate env fuel ctx pressed) (kr_keybindings r) of
        None \<Rightarrow> NoMatchingKb
      | Some k \<Rightarrow> if length pressed < length (kb_chords k) then MoreChordsNeeded
                  else KbFound (kb_command k) (kb_commandArgs k) (kb_bubble k))"
proof -
  define pressed where "pressed = currentChords @ [keypress]"
  define ks where "ks = items_at (kr_map r) (hd pressed)"
  have ne: "pressed \<noteq> []" by (simp add: pressed_def)
  let ?matches = "if length pressed < 2 then ks else filter (continues_pressed pressed) ks"
  have m: "?matches = filter (\<lambda>k. length pressed < 2 \<or> continues_pressed pressed k) ks" by simp
  have "(\<lambda>k. (kb_active env fuel k \<and> hd (kb_chords k) = hd pressed) \<and>
      (length pressed < 2 \<or> continues_pressed pressed k) \<and> kb_contextMatchesRules env ctx (kb_when k)) =
      kb_candidate env fuel ctx pressed"
    using pressed_prefix [OF _ ne] by (intro ext) (auto simp: kb_candidate_def kb_active_def)
  from arg_cong [OF this, of "\<lambda>P. last_match P (kr_keybindings r)"]
  have "findCommand env ctx ?matches = last_match (kb_candidate env fuel ctx pressed) (kr_keybindings r)"
    unfolding m unfolding findCommand_last_match last_match_filter ks_def resolver_map [OF assms] .
  moreover have "kb_resolve env ctx currentChords keypress r =
      (case findCommand env ctx ?matches of
         None \<Rightarrow> NoMatchingKb
       | Some k \<Rightarrow> if length pressed < length (kb_chords k) then MoreChordsNeeded
                   else KbFound (kb_command k) (kb_commandArgs k) (kb_bubble k))"
    unfolding kb_resolve_def Let_def pressed_def [symmetric] ks_def items_at_def
    by (cases "map_of (kr_map r) (hd pressed)") (simp_all add: findCommand_def)
  ultimately show ?thesis unfolding Let_def pressed_def [symmetric] by (simp only:)
qed

section \<open>Overwritten keybindings\<close>

text \<open>The lookup of a command: what is in it, and what is not.\<close>

lemma remove_item_members:
  "k \<in> set (remove_item i xs) \<Longrightarrow> k \<in> set xs" "k \<in> set xs \<Longrightarrow> kb_id k \<noteq> i \<Longrightarrow> k \<in> set (remove_item i xs)"
  by (induction xs) (auto split: if_splits)

lemma removeFromLookupMap_items:
  "items_at (removeFromLookupMap x m) c =
   (if kb_command x = Some c \<and> c \<noteq> [] then remove_item (kb_id x) (items_at m c) else items_at m c)"
  by (auto simp: removeFromLookupMap_def has_command_def Let_def items_at_def update_conv' split: option.splits)

lemma removeFromLookupMap_members:
  "k \<in> set (items_at (removeFromLookupMap x m) c) \<Longrightarrow> k \<in> set (items_at m c)"
  "k \<in> set (items_at m c) \<Longrightarrow> kb_id k \<noteq> kb_id x \<Longrightarrow> k \<in> set (items_at (removeFromLookupMap x m) c)"
  using remove_item_members(1) [of k "kb_id x" "items_at m c"] remove_item_members(2) [of k "items_at m c" "kb_id x"]
  by (auto simp: removeFromLookupMap_items split: if_splits)

lemma remove_conflicts_members:
  "k \<in> set (items_at (remove_conflicts item cs m) c) \<Longrightarrow> k \<in> set (items_at m c)"
  "k \<in> set (items_at m c) \<Longrightarrow> \<forall>x \<in> set cs. overwrites item x \<longrightarrow> kb_id x \<noteq> kb_id k \<Longrightarrow>
   k \<in> set (items_at (remove_conflicts item cs m) c)"
proof (induction cs arbitrary: m)
  case (Cons x cs)
  {
    case 1
    then show ?case using Cons.IH(1) removeFromLookupMap_members(1) [of k x m c] by (auto split: if_splits)
  next
    case 2
    have "k \<in> set (items_at (if overwrites item x then removeFromLookupMap x m else m) c)"
      using removeFromLookupMap_members(2) [OF 2(1), of x] 2 by auto
    then show ?case using Cons.IH(2) 2(2) by simp
  }
qed simp_all

lemma addToLookupMap_items:
  "items_at (addToLookupMap item m) c = items_at m c @ (if kb_command item = Some c \<and> c \<noteq> [] then [item] else [])"
  by (auto simp: addToLookupMap_def has_command_def Let_def items_at_def update_conv' split: option.splits)

lemma addKeyPress_lookup:
  "kr_lookupMap (addKeyPress c item r) =
   addToLookupMap item (remove_conflicts item (rev (items_at (kr_map r) c)) (kr_lookupMap r))"
  by (simp add: addKeyPress_def items_at_def split: option.split)

definition overwritten_in ::
  "'a ResolvedKeybindingItem list \<Rightarrow> 'a ResolvedKeybindingItem \<Rightarrow> bool" where
  "overwritten_in ks k \<longleftrightarrow>
     (\<exists>pre post item. ks = pre @ k # post \<and> item \<in> set post \<and> hd (kb_chords item) = hd (kb_chords k) \<and> overwrites item k)"

definition lookup_inv :: "'a ResolvedKeybindingItem list \<Rightarrow> 'a KeybindingResolver \<Rightarrow> bool" where
  "lookup_inv ks r \<longleftrightarrow>
     (\<forall>c. items_at (kr_map r) c = filter (\<lambda>k. hd (kb_chords k) = c) ks) \<and>
     (\<forall>c. \<forall>k \<in> set (items_at (kr_lookupMap r) c). k \<in> set ks \<and> kb_command k = Some c) \<and>
     (\<forall>k \<in> set ks. \<forall>c. kb_command k = Some c \<and> c \<noteq> [] \<longrightarrow>
        k \<in> set (items_at (kr_lookupMap r) c) \<or> overwritten_in ks k)"

lemma overwritten_in_append: "overwritten_in ks k \<Longrightarrow> overwritten_in (ks @ us) k"
  unfolding overwritten_in_def by fastforce

lemma lookup_inv_step:
  assumes "lookup_inv ks r" "distinct (map kb_id (ks @ [item]))"
  shows "lookup_inv (ks @ [item]) (addKeyPress (hd (kb_chords item)) item r)"
proof -
  let ?c0 = "hd (kb_chords item)"
  let ?r = "addKeyPress ?c0 item r"
  let ?cs = "items_at (kr_map r) ?c0"
  have cs: "set ?cs = {k \<in> set ks. hd (kb_chords k) = ?c0}" using assms(1) by (auto simp: lookup_inv_def)
  have kept: "k \<in> set (items_at (kr_lookupMap ?r) c) \<or> overwritten_in (ks @ [item]) k"
    if k: "k \<in> set ks" "kb_command k = Some c" "c \<noteq> []" for k c
  proof (cases "k \<in> set (items_at (kr_lookupMap r) c) \<and> \<not> (\<exists>x \<in> set ?cs. overwrites item x \<and> kb_id x = kb_id k)")
    case True
    then show ?thesis
      using remove_conflicts_members(2) [of k "kr_lookupMap r" c "rev ?cs" item]
      by (auto simp: addKeyPress_lookup addToLookupMap_items)
  next
    case False
    then consider "overwritten_in ks k" | x where "x \<in> set ?cs" "overwrites item x" "kb_id x = kb_id k"
      using assms(1) k by (auto simp: lookup_inv_def)
    then show ?thesis
    proof cases
      case 1
      then show ?thesis using overwritten_in_append by blast
    next
      case (2 x)
      then have "x = k" using assms(2) k(1) cs by (auto simp: distinct_map dest: inj_onD)
      moreover obtain pre post where "ks = pre @ k # post" using k(1) by (auto simp: in_set_conv_decomp)
      ultimately show ?thesis using 2 cs unfolding overwritten_in_def by fastforce
    qed
  qed
  have new: "item \<in> set (items_at (kr_lookupMap ?r) c)" if "kb_command item = Some c" "c \<noteq> []" for c
    using that by (simp add: addKeyPress_lookup addToLookupMap_items)
  have only: "k \<in> set (ks @ [item]) \<and> kb_command k = Some c" if "k \<in> set (items_at (kr_lookupMap ?r) c)" for k c
    using that assms(1) remove_conflicts_members(1) [of k item "rev ?cs" "kr_lookupMap r" c]
    by (auto simp: addKeyPress_lookup addToLookupMap_items lookup_inv_def split: if_splits)
  show ?thesis unfolding lookup_inv_def
  proof (intro conjI allI ballI impI)
    show "items_at (kr_map ?r) c = filter (\<lambda>k. hd (kb_chords k) = c) (ks @ [item])" for c
      using assms(1) by (simp add: addKeyPress_map lookup_inv_def)
    fix k c
    assume "k \<in> set (ks @ [item])" "kb_command k = Some c \<and> c \<noteq> []"
    then show "k \<in> set (items_at (kr_lookupMap ?r) c) \<or> overwritten_in (ks @ [item]) k"
      using kept [of k c] new [of c] by (cases "k = item") simp_all
  qed (use only in blast)+
qed

lemma lookup_inv_keys:
  "lookup_inv ks r \<Longrightarrow> distinct (map kb_id (ks @ us)) \<Longrightarrow> lookup_inv (ks @ us) (add_keys us r)"
proof (induction us arbitrary: ks r)
  case (Cons u us)
  have "lookup_inv (ks @ [u]) (addKeyPress (hd (kb_chords u)) u r)"
    using lookup_inv_step [OF Cons.prems(1), of u] Cons.prems(2) by simp
  then show ?case using Cons.IH [of "ks @ [u]"] Cons.prems(2) by simp
qed simp

lemma resolver_lookup:
  assumes "new_KeybindingResolver env fuel defaults overrides = Some r" "distinct (map kb_id (kr_keybindings r))"
  shows "lookup_inv (filter (kb_active env fuel) (kr_keybindings r)) r"
proof -
  let ?ks = "filter (kb_active env fuel) (kr_keybindings r)"
  have "lookup_inv [] (empty_resolver defaults (kr_keybindings r))" by (simp add: lookup_inv_def)
  then have "lookup_inv ([] @ ?ks) (add_keys ?ks (empty_resolver defaults (kr_keybindings r)))"
    using assms(2) by (intro lookup_inv_keys) (simp_all add: distinct_map_filter)
  then show ?thesis using new_resolver(2) [OF assms(1)] by simp
qed

text \<open>An overwritten keybinding is not the last match for the chords it shares with the later one.\<close>

lemma same_chords_prefix:
  "same_chords as bs \<Longrightarrow> prefix (take (length bs) as) bs"
  by (induction as bs rule: same_chords.induct) auto

lemma shared_chords:
  assumes "hd (kb_chords item) = hd (kb_chords k)" "same_chords (tl (kb_chords k)) (tl (kb_chords item))"
    "kb_chords item \<noteq> []" "kb_chords k \<noteq> []"
  shows "prefix (take (length (kb_chords item)) (kb_chords k)) (kb_chords item)"
  using assms same_chords_prefix [OF assms(2)] by (cases "kb_chords item"; cases "kb_chords k") auto

lemma last_match_later:
  assumes "xs = pre @ k # post" "item \<in> set post" "P item" "distinct xs"
  shows "last_match P xs \<noteq> Some k"
proof -
  have ne: "filter P post \<noteq> []" using assms(2,3) by (auto simp: filter_empty_conv)
  then have "last (filter P xs) = last (filter P post)" using assms(1) by simp
  moreover have "last (filter P post) \<in> set post" using last_in_set [OF ne] by simp
  ultimately show ?thesis using assms(1,4) by (auto simp: last_match_def)
qed

lemma overwritten_not_found:
  assumes "overwritten_in ks k" "distinct ks" "\<forall>x \<in> set ks. kb_active env fuel x"
  obtains item pressed where "item \<in> set ks" "pressed \<noteq> []" "prefix pressed (kb_chords k)"
    "\<And>F ctx. when_ok env F ctx (kb_when k) \<Longrightarrow> when_ok env F ctx (kb_when item) \<Longrightarrow>
       last_match (kb_candidate env fuel ctx pressed) ks \<noteq> Some k"
proof -
  obtain pre post item where i: "ks = pre @ k # post" "item \<in> set post"
      "hd (kb_chords item) = hd (kb_chords k)" "overwrites item k"
    using assms(1) unfolding overwritten_in_def by blast
  define pressed where "pressed = take (length (kb_chords item)) (kb_chords k)"
  have act: "kb_active env fuel item" "kb_active env fuel k" using assms(3) i(1,2) by auto
  then have c: "kb_chords item \<noteq> []" "kb_chords k \<noteq> []" by (simp_all add: kb_active_def)
  have p: "prefix pressed (kb_chords item)"
    unfolding pressed_def using i(3,4) c by (intro shared_chords) (auto simp: overwrites_def)
  show thesis
  proof (rule that [of item pressed])
    show "item \<in> set ks" using i(1,2) by simp
    show "pressed \<noteq> []" using c by (simp add: pressed_def)
    show "prefix pressed (kb_chords k)" by (simp add: pressed_def take_is_prefix)
    fix F ctx
    assume ok: "when_ok env F ctx (kb_when k)" "when_ok env F ctx (kb_when item)"
    show "last_match (kb_candidate env fuel ctx pressed) ks \<noteq> Some k"
    proof
      assume found: "last_match (kb_candidate env fuel ctx pressed) ks = Some k"
      then have "filter (kb_candidate env fuel ctx pressed) ks \<noteq> []" "k = last (filter (kb_candidate env fuel ctx pressed) ks)"
        by (auto simp: last_match_def split: if_splits)
      then have "k \<in> set (filter (kb_candidate env fuel ctx pressed) ks)" using last_in_set by metis
      then have "kb_contextMatchesRules env ctx (kb_when k)" by (simp add: kb_candidate_def)
      then have "kb_contextMatchesRules env ctx (kb_when item)"
        using included_sound [of "kb_when k" "kb_when item" env F ctx] ok i(4) by (simp add: overwrites_def)
      then have "kb_candidate env fuel ctx pressed item" using act p by (simp add: kb_candidate_def)
      then show False using last_match_later [OF i(1,2)] assms(2) found by blast
    qed
  qed
qed

end
