(* ===== verification/ContextKeyScanner.thy ===== *)
theory ContextKeyScanner
  imports ContextKeyValues
begin

text \<open>
  The scanner of when-clauses, \<open>src/vs/platform/contextkey/common/scanner.ts\<close>.

  The state is the object with its five fields; each private method is a function from a state to a
  state.  A position is a natural number, as \<open>_start\<close> and \<open>_current\<close> only grow.  The regular
  expression \<open>stringRe\<close> is sticky and has the flag \<open>u\<close>, so it is run by code points; the class
  \<open>\p{L}\<close> is the field \<open>unicodeLetter\<close> of the environment.
\<close>

section \<open>Tokens\<close>

datatype ck_token_type =
    TLParen | TRParen | TNeg
  | TEq bool | TNotEq bool
  | TLt | TLtEq | TGt | TGtEq
  | TRegexOp | TRegexStr js_string
  | TTrue | TFalse | TIn | TNot | TAnd | TOr
  | TStr js_string | TQuotedStr js_string | TError js_string
  | TEOF

record ck_token =
  tok_type :: ck_token_type
  tok_offset :: nat

datatype ck_hint =
    DidYouMean "js_string list"
  | DidYouForgetToOpenOrCloseQuote
  | DidYouForgetToEscapeSlash

record lexing_error =
  le_offset :: nat
  le_lexeme :: js_string
  le_additionalInfo :: "ck_hint option"

text \<open>More than three suggestions give no hint, and neither do none.\<close>

definition hintDidYouMean :: "js_string list \<Rightarrow> ck_hint option" where
  "hintDidYouMean meant = (if length meant \<in> {1, 2, 3} then Some (DidYouMean meant) else None)"

definition getLexeme :: "ck_token \<Rightarrow> js_string" where
  "getLexeme token =
     (case tok_type token of
        TLParen \<Rightarrow> js_lit ''(''
      | TRParen \<Rightarrow> js_lit '')''
      | TNeg \<Rightarrow> js_lit ''!''
      | TEq isTripleEq \<Rightarrow> if isTripleEq then js_lit ''==='' else js_lit ''==''
      | TNotEq isTripleEq \<Rightarrow> if isTripleEq then js_lit ''!=='' else js_lit ''!=''
      | TLt \<Rightarrow> js_lit ''<''
      | TLtEq \<Rightarrow> js_lit ''<=''
      | TGt \<Rightarrow> js_lit ''>''
      | TGtEq \<Rightarrow> js_lit ''>=''
      | TRegexOp \<Rightarrow> js_lit ''=~''
      | TRegexStr lexeme \<Rightarrow> lexeme
      | TTrue \<Rightarrow> js_lit ''true''
      | TFalse \<Rightarrow> js_lit ''false''
      | TIn \<Rightarrow> js_lit ''in''
      | TNot \<Rightarrow> js_lit ''not''
      | TAnd \<Rightarrow> js_lit ''&&''
      | TOr \<Rightarrow> js_lit ''||''
      | TStr lexeme \<Rightarrow> lexeme
      | TQuotedStr lexeme \<Rightarrow> lexeme
      | TError lexeme \<Rightarrow> lexeme
      | TEOF \<Rightarrow> js_lit ''EOF'')"

section \<open>The state\<close>

record ck_scanner =
  sc_input :: js_string
  sc_start :: nat
  sc_current :: nat
  sc_tokens :: "ck_token list"
  sc_errors :: "lexing_error list"

definition scanner_reset :: "js_string \<Rightarrow> ck_scanner" where
  "scanner_reset value = \<lparr>sc_input = value, sc_start = 0, sc_current = 0, sc_tokens = [], sc_errors = []\<rparr>"

definition isAtEnd :: "ck_scanner \<Rightarrow> bool" where
  "isAtEnd s \<longleftrightarrow> length (sc_input s) \<le> sc_current s"

definition match_char :: "int \<Rightarrow> ck_scanner \<Rightarrow> bool \<times> ck_scanner" where
  "match_char expected s =
     (if isAtEnd s then (False, s)
      else if sc_input s ! sc_current s \<noteq> expected then (False, s)
      else (True, s\<lparr>sc_current := sc_current s + 1\<rparr>))"

definition scanner_lexeme :: "ck_scanner \<Rightarrow> js_string" where
  "scanner_lexeme s = take (sc_current s - sc_start s) (drop (sc_start s) (sc_input s))"

definition push_token :: "ck_token_type \<Rightarrow> nat \<Rightarrow> ck_scanner \<Rightarrow> ck_scanner" where
  "push_token t offset s = s\<lparr>sc_tokens := sc_tokens s @ [\<lparr>tok_type = t, tok_offset = offset\<rparr>]\<rparr>"

definition addToken :: "ck_token_type \<Rightarrow> ck_scanner \<Rightarrow> ck_scanner" where
  "addToken t s = push_token t (sc_start s) s"

definition scanner_error :: "ck_hint option \<Rightarrow> ck_scanner \<Rightarrow> ck_scanner" where
  "scanner_error additional s =
     (let lexeme = scanner_lexeme s;
          s1 = s\<lparr>sc_errors := sc_errors s @
                 [\<lparr>le_offset = sc_start s, le_lexeme = lexeme, le_additionalInfo = additional\<rparr>]\<rparr>
      in push_token (TError lexeme) (sc_start s) s1)"

section \<open>Strings and keywords\<close>

definition string_punctuation :: "js_string" where
  "string_punctuation = js_lit ''_<>-./:*?+[]^,#@;%$'' @ [92, 34]"

definition is_string_char :: "ck_env \<Rightarrow> int \<Rightarrow> bool" where
  "is_string_char env c \<longleftrightarrow>
     isLowerAsciiLetter c \<or> isUpperAsciiLetter c \<or> isAsciiDigit c \<or> c \<in> set string_punctuation \<or> unicodeLetter env c"

text \<open>The end of the longest match of \<open>stringRe\<close> at a position; a pair of surrogates takes two units.\<close>

function string_end :: "ck_env \<Rightarrow> js_string \<Rightarrow> nat \<Rightarrow> nat" where
  "string_end env input i =
     (case getNextCodePoint input (int (length input)) (int i) of
        None \<Rightarrow> i
      | Some c \<Rightarrow>
          if i < length input \<and> is_string_char env c
          then string_end env input (if c = input ! i then i + 1 else i + 2) else i)"
  by pat_completeness auto
termination by (relation "measure (\<lambda>(env, s, i). length s - i)") auto

declare string_end.simps [simp del]

definition keyword :: "js_string \<Rightarrow> ck_token_type option" where
  "keyword lexeme =
     (if lexeme = js_lit ''not'' then Some TNot
      else if lexeme = js_lit ''in'' then Some TIn
      else if lexeme = js_lit ''false'' then Some TFalse
      else if lexeme = js_lit ''true'' then Some TTrue
      else None)"

definition scan_string :: "ck_env \<Rightarrow> ck_scanner \<Rightarrow> ck_scanner" where
  "scan_string env s =
     (let e = string_end env (sc_input s) (sc_start s) in
      if e = sc_start s then s
      else let s1 = s\<lparr>sc_current := e\<rparr>; lexeme = scanner_lexeme s1 in
        case keyword lexeme of
          Some k \<Rightarrow> addToken k s1
        | None \<Rightarrow> addToken (TStr lexeme) s1)"

section \<open>Quoted strings\<close>

text \<open>The position of the closing quote, or the end of the input.\<close>

function quote_end :: "js_string \<Rightarrow> nat \<Rightarrow> nat" where
  "quote_end input i = (if i < length input \<and> input ! i \<noteq> 39 then quote_end input (i + 1) else i)"
  by pat_completeness auto
termination by (relation "measure (\<lambda>(s, i). length s - i)") auto

declare quote_end.simps [simp del]

definition quotedString :: "ck_scanner \<Rightarrow> ck_scanner" where
  "quotedString s =
     (let s1 = s\<lparr>sc_current := quote_end (sc_input s) (sc_current s)\<rparr> in
      if isAtEnd s1 then scanner_error (Some DidYouForgetToOpenOrCloseQuote) s1
      else let s2 = s1\<lparr>sc_current := sc_current s1 + 1\<rparr>;
               lexeme = take (sc_current s2 - 1 - (sc_start s2 + 1)) (drop (sc_start s2 + 1) (sc_input s2))
           in push_token (TQuotedStr lexeme) (sc_start s2 + 1) s2)"

section \<open>Regular expressions\<close>

text \<open>\<open>None\<close>: the input ends before the closing slash.\<close>

function regex_end :: "js_string \<Rightarrow> nat \<Rightarrow> bool \<Rightarrow> bool \<Rightarrow> nat option" where
  "regex_end input p inEscape inCharacterClass =
     (if p \<ge> length input then None
      else let ch = input ! p in
        if inEscape then regex_end input (p + 1) False inCharacterClass
        else if ch = 47 \<and> \<not> inCharacterClass then Some (p + 1)
        else if ch = 91 then regex_end input (p + 1) False True
        else if ch = 92 then regex_end input (p + 1) True inCharacterClass
        else if ch = 93 then regex_end input (p + 1) False False
        else regex_end input (p + 1) False inCharacterClass)"
  by pat_completeness auto
termination by (relation "measure (\<lambda>(s, i, a, b). length s - i)") auto

declare regex_end.simps [simp del]

definition regexFlags :: "js_string" where
  "regexFlags = js_lit ''igsmyu''"

function flags_end :: "js_string \<Rightarrow> nat \<Rightarrow> nat" where
  "flags_end input p = (if p < length input \<and> input ! p \<in> set regexFlags then flags_end input (p + 1) else p)"
  by pat_completeness auto
termination by (relation "measure (\<lambda>(s, i). length s - i)") auto

declare flags_end.simps [simp del]

definition scan_regex :: "ck_scanner \<Rightarrow> ck_scanner" where
  "scan_regex s =
     (case regex_end (sc_input s) (sc_current s) False False of
        None \<Rightarrow> scanner_error (Some DidYouForgetToEscapeSlash) (s\<lparr>sc_current := length (sc_input s)\<rparr>)
      | Some p \<Rightarrow>
          let s1 = s\<lparr>sc_current := flags_end (sc_input s) p\<rparr>
          in addToken (TRegexStr (scanner_lexeme s1)) s1)"

section \<open>Scanning\<close>

definition is_blank_char :: "int \<Rightarrow> bool" where
  "is_blank_char ch \<longleftrightarrow> ch \<in> {32, 13, 9, 10, 160}"

definition scan_char :: "ck_env \<Rightarrow> int \<Rightarrow> ck_scanner \<Rightarrow> ck_scanner" where
  "scan_char env ch s =
     (if ch = 40 then addToken TLParen s
      else if ch = 41 then addToken TRParen s
      else if ch = 33 then
        (let (eq, s1) = match_char 61 s in
         if eq then let (triple, s2) = match_char 61 s1 in addToken (TNotEq triple) s2
         else addToken TNeg s1)
      else if ch = 39 then quotedString s
      else if ch = 47 then scan_regex s
      else if ch = 61 then
        (let (eq, s1) = match_char 61 s in
         if eq then let (triple, s2) = match_char 61 s1 in addToken (TEq triple) s2
         else let (tilde, s2) = match_char 126 s1 in
           if tilde then addToken TRegexOp s2
           else scanner_error (hintDidYouMean [js_lit ''=='', js_lit ''=~'']) s2)
      else if ch = 60 then (let (eq, s1) = match_char 61 s in addToken (if eq then TLtEq else TLt) s1)
      else if ch = 62 then (let (eq, s1) = match_char 61 s in addToken (if eq then TGtEq else TGt) s1)
      else if ch = 38 then
        (let (amp, s1) = match_char 38 s in
         if amp then addToken TAnd s1 else scanner_error (hintDidYouMean [js_lit ''&&'']) s1)
      else if ch = 124 then
        (let (pipe, s1) = match_char 124 s in
         if pipe then addToken TOr s1 else scanner_error (hintDidYouMean [js_lit ''||'']) s1)
      else if is_blank_char ch then s
      else scan_string env s)"

definition scan_one :: "ck_env \<Rightarrow> ck_scanner \<Rightarrow> ck_scanner" where
  "scan_one env s =
     scan_char env (sc_input s ! sc_current s) (s\<lparr>sc_start := sc_current s, sc_current := sc_current s + 1\<rparr>)"

lemma scanner_update_simps [simp]:
  "sc_input (push_token t n s) = sc_input s" "sc_current (push_token t n s) = sc_current s"
  "sc_input (addToken t s) = sc_input s" "sc_current (addToken t s) = sc_current s"
  "sc_input (scanner_error h s) = sc_input s" "sc_current (scanner_error h s) = sc_current s"
  "sc_start (push_token t n s) = sc_start s" "sc_start (addToken t s) = sc_start s"
  "sc_start (scanner_error h s) = sc_start s"
  by (simp_all add: push_token_def addToken_def scanner_error_def Let_def)

lemma match_char_cases:
  obtains "match_char c s = (False, s)" "isAtEnd s \<or> sc_input s ! sc_current s \<noteq> c"
  | "match_char c s = (True, s\<lparr>sc_current := sc_current s + 1\<rparr>)" "\<not> isAtEnd s" "sc_input s ! sc_current s = c"
  by (cases "isAtEnd s \<or> sc_input s ! sc_current s \<noteq> c") (auto simp: match_char_def)

lemma match_char_simps [simp]:
  "sc_input (snd (match_char c s)) = sc_input s" "sc_current s \<le> sc_current (snd (match_char c s))"
  "sc_start (snd (match_char c s)) = sc_start s"
  by (cases rule: match_char_cases [of c s]; simp)+

lemma string_end_ge: "i \<le> string_end env input i"
proof (induction env input i rule: string_end.induct)
  case (1 env input i)
  show ?case
    by (subst string_end.simps) (use 1 in \<open>auto split: option.split if_splits intro: order_trans [rotated]\<close>)
qed

lemma quote_end_ge: "i \<le> quote_end input i"
proof (induction input i rule: quote_end.induct)
  case (1 input i)
  then show ?case by (subst quote_end.simps) auto
qed

lemma flags_end_ge: "i \<le> flags_end input i"
proof (induction input i rule: flags_end.induct)
  case (1 input i)
  then show ?case by (subst flags_end.simps) auto
qed

lemma regex_end_gt: "regex_end input p e c = Some q \<Longrightarrow> p < q \<and> q \<le> length input"
proof (induction input p e c rule: regex_end.induct)
  case (1 input p e c)
  then show ?case
    by (subst (asm) (2) regex_end.simps) (auto simp: Let_def split: if_splits)
qed

lemma next_code_point_pair:
  assumes "getNextCodePoint input (int (length input)) (int i) = Some c" "c \<noteq> input ! i"
  shows "i + 1 < length input"
proof -
  obtain u where "js_get input (int i) = Some u" using assms(1) by (auto simp: getNextCodePoint_def split: option.splits)
  moreover from this have "u = input ! i" by (auto simp: js_get_def split: if_splits)
  ultimately show ?thesis using assms by (auto simp: getNextCodePoint_def split: if_splits option.splits)
qed

lemma string_end_le: "i \<le> length input \<Longrightarrow> string_end env input i \<le> length input"
proof (induction env input i rule: string_end.induct)
  case (1 env input i)
  show ?case
    by (subst string_end.simps) (use 1 next_code_point_pair [of input i] in \<open>auto split: option.split if_splits\<close>)
qed

text \<open>Every round takes at least one character.\<close>

lemma scan_char_progress:
  assumes "sc_current s \<le> length (sc_input s)" "sc_current s = sc_start s + 1"
  shows "sc_input (scan_char env ch s) = sc_input s" "sc_start s < sc_current (scan_char env ch s)"
proof -
  have str: "sc_input (scan_string env s) = sc_input s \<and> sc_start s < sc_current (scan_string env s)"
    using string_end_ge [of "sc_start s" env "sc_input s"] assms(2)
    by (auto simp: scan_string_def Let_def split: option.split)
  have quo: "sc_input (quotedString s) = sc_input s \<and> sc_start s < sc_current (quotedString s)"
    using quote_end_ge [of "sc_current s" "sc_input s"] assms(2) by (auto simp: quotedString_def Let_def)
  have reg: "sc_input (scan_regex s) = sc_input s \<and> sc_start s < sc_current (scan_regex s)"
  proof (cases "regex_end (sc_input s) (sc_current s) False False")
    case None
    then show ?thesis using assms by (simp add: scan_regex_def)
  next
    case (Some p)
    then show ?thesis using regex_end_gt [OF Some] flags_end_ge [of p "sc_input s"] assms(2)
      by (simp add: scan_regex_def Let_def)
  qed
  have m: "sc_start s < sc_current (snd (match_char c t))" if "sc_start s < sc_current t" for c t
    using less_le_trans [OF that match_char_simps(2)] .
  have "sc_start s < sc_current s" using assms(2) by simp
  then have "sc_input (scan_char env ch s) = sc_input s \<and> sc_start s < sc_current (scan_char env ch s)"
    using str quo reg by (simp add: scan_char_def Let_def case_prod_beta m)
  then show "sc_input (scan_char env ch s) = sc_input s" "sc_start s < sc_current (scan_char env ch s)" by auto
qed

lemma scan_one_progress:
  assumes "sc_current s < length (sc_input s)"
  shows "sc_input (scan_one env s) = sc_input s" "sc_current s < sc_current (scan_one env s)"
  using scan_char_progress [of "s\<lparr>sc_start := sc_current s, sc_current := sc_current s + 1\<rparr>" env] assms
  by (simp_all add: scan_one_def)

function scan_loop :: "ck_env \<Rightarrow> ck_scanner \<Rightarrow> ck_scanner" where
  "scan_loop env s = (if isAtEnd s then s else scan_loop env (scan_one env s))"
  by pat_completeness auto
termination
proof (relation "measure (\<lambda>(env, s). length (sc_input s) - sc_current s)", goal_cases)
  case (2 env s)
  then have "sc_current s < length (sc_input s)" by (simp add: isAtEnd_def)
  from scan_one_progress [OF this, of env] this show ?case by simp
qed simp

declare scan_loop.simps [simp del]

definition scan_state :: "ck_env \<Rightarrow> js_string \<Rightarrow> ck_scanner" where
  "scan_state env value =
     (let s = scan_loop env (scanner_reset value); s1 = s\<lparr>sc_start := sc_current s\<rparr> in addToken TEOF s1)"

definition scan_tokens :: "ck_env \<Rightarrow> js_string \<Rightarrow> ck_token list" where
  "scan_tokens env value = sc_tokens (scan_state env value)"

definition scan_errors :: "ck_env \<Rightarrow> js_string \<Rightarrow> lexing_error list" where
  "scan_errors env value = sc_errors (scan_state env value)"

end
