(* ===== verification/ContextKeyParser.thy ===== *)
theory ContextKeyParser
  imports ContextKeyNormal ContextKeyScanner
begin

text \<open>
  The parser of when-clauses in \<open>src/vs/platform/contextkey/common/contextkey.ts\<close>, and the functions
  that call it.

  The state \<open>_tokens\<close>, \<open>_current\<close> is the list of the tokens from the current one on; its last one is
  the end of the input and is never passed.  The parser builds normalised expressions as it goes.
  The operations it builds with are a record \<open>ck_builder\<close>: \<open>expr_builder\<close> holds the ones of the code,
  and a syntax tree can be built in the same way.  A \<open>throw\<close> of \<open>_parseError\<close> comes with the
  one error pushed before it, so the error is the value.  The recursion carries fuel; how much is
  enough for a list of tokens is proved with the properties of the parser.
\<close>

section \<open>Errors\<close>

datatype ck_expected =
    ExpectedTerm
  | ExpectedRegex
  | ExpectedPrimary
  | ExpectedInAfterNot
  | ExpectedClosingParenthesis

datatype ck_message =
    ErrorEmptyString
  | ErrorUnexpectedToken
  | ErrorUnexpectedEOF
  | ErrorExpectedButGot ck_expected js_string

datatype ck_parse_hint = HintEmptyString | HintUnexpectedToken | HintUnexpectedEOF

record parsing_error =
  pe_message :: ck_message
  pe_offset :: nat
  pe_lexeme :: js_string
  pe_additionalInfo :: "ck_parse_hint option"

type_synonym 'a parse_result = "(parsing_error + 'a) option"

definition p_bind :: "'a parse_result \<Rightarrow> ('a \<Rightarrow> 'b parse_result) \<Rightarrow> 'b parse_result" where
  "p_bind r f = (case r of None \<Rightarrow> None | Some (Inl e) \<Rightarrow> Some (Inl e) | Some (Inr x) \<Rightarrow> f x)"

definition errExpectedButGot :: "ck_expected \<Rightarrow> ck_token \<Rightarrow> parsing_error" where
  "errExpectedButGot expected got =
     \<lparr>pe_message = ErrorExpectedButGot expected (getLexeme got), pe_offset = tok_offset got,
      pe_lexeme = getLexeme got, pe_additionalInfo = None\<rparr>"

section \<open>What the parser builds\<close>

record 'e ck_builder =
  b_true :: 'e
  b_false :: 'e
  b_has :: "js_string \<Rightarrow> 'e"
  b_not :: "js_string \<Rightarrow> 'e"
  b_equals :: "js_string \<Rightarrow> js_string \<Rightarrow> 'e"
  b_notEquals :: "js_string \<Rightarrow> js_string \<Rightarrow> 'e"
  b_regex :: "js_string \<Rightarrow> js_regexp \<Rightarrow> 'e"
  b_in :: "js_string \<Rightarrow> js_string \<Rightarrow> 'e"
  b_notIn :: "js_string \<Rightarrow> js_string \<Rightarrow> 'e"
  b_smaller :: "js_string \<Rightarrow> js_string \<Rightarrow> 'e"
  b_smallerEquals :: "js_string \<Rightarrow> js_string \<Rightarrow> 'e"
  b_greater :: "js_string \<Rightarrow> js_string \<Rightarrow> 'e"
  b_greaterEquals :: "js_string \<Rightarrow> js_string \<Rightarrow> 'e"
  b_and :: "'e list \<Rightarrow> 'e"
  b_or :: "'e list \<Rightarrow> 'e"
  b_negate :: "'e \<Rightarrow> 'e"

text \<open>A result of the operations: no fuel, \<open>undefined\<close>, or an expression.\<close>

type_synonym ck_outcome = "ck_expr option option"

definition negate_outcome :: "ck_env \<Rightarrow> nat \<Rightarrow> ck_outcome \<Rightarrow> ck_outcome" where
  "negate_outcome env fuel r =
     (case r of None \<Rightarrow> None | Some None \<Rightarrow> Some None | Some (Some e) \<Rightarrow> map_option Some (ck_negate env fuel e))"

definition combine_outcomes :: "(ck_expr option list \<Rightarrow> ck_outcome) \<Rightarrow> ck_outcome list \<Rightarrow> ck_outcome" where
  "combine_outcomes f rs = (case map_steps (\<lambda>r. r) rs of None \<Rightarrow> None | Some es \<Rightarrow> f es)"

definition expr_builder :: "ck_env \<Rightarrow> nat \<Rightarrow> ck_outcome ck_builder" where
  "expr_builder env fuel =
     \<lparr>b_true = Some (Some CTrue),
      b_false = Some (Some CFalse),
      b_has = (\<lambda>k. Some (Some (ContextKeyDefinedExpr_create env k))),
      b_not = (\<lambda>k. Some (Some (ContextKeyNotExpr_create env k))),
      b_equals = (\<lambda>k v. Some (Some (ContextKeyEqualsExpr_create env k (PStr v)))),
      b_notEquals = (\<lambda>k v. Some (Some (ContextKeyNotEqualsExpr_create env k (PStr v)))),
      b_regex = (\<lambda>k r. Some (Some (CRegex k (Some r)))),
      b_in = (\<lambda>k w. Some (Some (CIn k w))),
      b_notIn = (\<lambda>k w. Some (Some (CNotIn k w))),
      b_smaller = (\<lambda>k v. Some (Some (ContextKeySmallerExpr_create k (PStr v)))),
      b_smallerEquals = (\<lambda>k v. Some (Some (ContextKeySmallerEqualsExpr_create k (PStr v)))),
      b_greater = (\<lambda>k v. Some (Some (ContextKeyGreaterExpr_create k (PStr v)))),
      b_greaterEquals = (\<lambda>k v. Some (Some (ContextKeyGreaterEqualsExpr_create k (PStr v)))),
      b_and = combine_outcomes (ContextKeyExpr_and env fuel),
      b_or = combine_outcomes (ContextKeyExpr_or env fuel),
      b_negate = negate_outcome env fuel\<rparr>"

section \<open>Moving over the tokens\<close>

abbreviation p_peek :: "ck_token list \<Rightarrow> ck_token_type" where
  "p_peek ts \<equiv> tok_type (hd ts)"

definition p_isAtEnd :: "ck_token list \<Rightarrow> bool" where
  "p_isAtEnd ts \<longleftrightarrow> p_peek ts = TEOF"

definition p_advance :: "ck_token list \<Rightarrow> ck_token list" where
  "p_advance ts = (if \<not> p_isAtEnd ts then tl ts else ts)"

definition p_consume :: "ck_token_type \<Rightarrow> ck_expected \<Rightarrow> ck_token list \<Rightarrow> ck_token list parse_result" where
  "p_consume t message ts =
     (if p_peek ts = t then Some (Inr (p_advance ts)) else Some (Inl (errExpectedButGot message (hd ts))))"

text \<open>The second component: the value was in quotes, as \<open>_previous()\<close> tells.\<close>

definition p_value :: "ck_token list \<Rightarrow> js_string \<times> bool \<times> ck_token list" where
  "p_value ts =
     (case p_peek ts of
        TStr lexeme \<Rightarrow> (lexeme, False, p_advance ts)
      | TQuotedStr lexeme \<Rightarrow> (lexeme, True, p_advance ts)
      | TTrue \<Rightarrow> (js_lit ''true'', False, p_advance ts)
      | TFalse \<Rightarrow> (js_lit ''false'', False, p_advance ts)
      | TIn \<Rightarrow> (js_lit ''in'', False, p_advance ts)
      | _ \<Rightarrow> ([], False, ts))"

section \<open>Regular expressions\<close>

fun js_indexOf :: "int \<Rightarrow> js_string \<Rightarrow> int" where
  "js_indexOf c [] = -1"
| "js_indexOf c (x # xs) = (if x = c then 0 else let i = js_indexOf c xs in if i = -1 then -1 else i + 1)"

definition js_lastIndexOf :: "int \<Rightarrow> js_string \<Rightarrow> int" where
  "js_lastIndexOf c s = (let i = js_indexOf c (rev s) in if i = -1 then -1 else int (length s) - 1 - i)"

definition removeFlagsGY :: "js_string \<Rightarrow> js_string" where
  "removeFlagsGY flags = filter (\<lambda>c. c \<notin> {103, 121}) flags"

text \<open>\<open>/source/flags\<close>, where the last slash ends the source.\<close>

definition regexp_of_lexeme :: "ck_env \<Rightarrow> js_string \<Rightarrow> js_regexp option" where
  "regexp_of_lexeme env regexLexeme =
     (let closingSlashIndex = js_lastIndexOf 47 regexLexeme;
          flags = (if closingSlashIndex = int (length regexLexeme) - 1 then []
                   else removeFlagsGY (js_substring_from regexLexeme (closingSlashIndex + 1)))
      in newRegExp env (js_substring regexLexeme 1 closingSlashIndex) flags)"

fun paren_count :: "js_string \<Rightarrow> int \<Rightarrow> int" where
  "paren_count [] parenBalance = parenBalance"
| "paren_count (c # cs) parenBalance =
     paren_count cs (if c = 40 then parenBalance + 1 else if c = 41 then parenBalance - 1 else parenBalance)"

text \<open>
  For a following token the closing parentheses are looked up in the first token (\<open>expr\<close>), at the
  same index; outside of it there is no character.
\<close>

fun following_parens :: "js_string \<Rightarrow> js_string \<Rightarrow> nat \<Rightarrow> int \<Rightarrow> int" where
  "following_parens first [] i parenBalance = parenBalance"
| "following_parens first (c # cs) i parenBalance =
     following_parens first cs (i + 1)
       (if c = 40 then parenBalance + 1
        else if js_get first (int i) = Some 41 then parenBalance - 1 else parenBalance)"

definition balance_after :: "js_string \<Rightarrow> ck_token_type \<Rightarrow> int \<Rightarrow> int" where
  "balance_after first t parenBalance =
     (case t of
        TLParen \<Rightarrow> parenBalance + 1
      | TRParen \<Rightarrow> parenBalance - 1
      | TRegexStr lexeme \<Rightarrow> following_parens first lexeme 0 parenBalance
      | TQuotedStr lexeme \<Rightarrow> following_parens first lexeme 0 parenBalance
      | _ \<Rightarrow> parenBalance)"

fun reconstruct_regex :: "js_string \<Rightarrow> int \<Rightarrow> js_string \<Rightarrow> ck_token list \<Rightarrow> js_string \<times> ck_token list" where
  "reconstruct_regex first parenBalance acc [] = (acc, [])"
| "reconstruct_regex first parenBalance acc (t # ts) =
     (if tok_type t \<in> {TEOF, TAnd, TOr} then (acc, t # ts)
      else let parenBalance = balance_after first (tok_type t) parenBalance in
        if parenBalance < 0 then (acc, t # ts)
        else reconstruct_regex first parenBalance (acc @ getLexeme t) ts)"

text \<open>A quoted regular expression: between the first and the last slash, \<open>i\<close> may follow.\<close>

definition quoted_regex :: "ck_env \<Rightarrow> js_string \<Rightarrow> js_regexp option" where
  "quoted_regex env serializedValue =
     (if js_trim serializedValue = [] then None
      else let st = js_indexOf 47 serializedValue; en = js_lastIndexOf 47 serializedValue in
        if st \<noteq> en \<and> st \<ge> 0 then
          newRegExp env (js_substring serializedValue (st + 1) en)
            (if js_get serializedValue (en + 1) = Some 105 then js_lit ''i'' else [])
        else None)"

definition p_regex :: "'e ck_builder \<Rightarrow> ck_env \<Rightarrow> bool \<Rightarrow> js_string \<Rightarrow> ck_token list \<Rightarrow> ('e \<times> ck_token list) parse_result" where
  "p_regex B env regexParsingWithErrorRecovery key ts =
     (let expr = hd ts; unexpected = Some (Inl (errExpectedButGot ExpectedRegex expr)) in
      if \<not> regexParsingWithErrorRecovery then
        (case tok_type expr of
           TRegexStr regexLexeme \<Rightarrow>
             (case regexp_of_lexeme env regexLexeme of
                None \<Rightarrow> unexpected
              | Some regexp \<Rightarrow> Some (Inr (b_regex B key regexp, p_advance ts)))
         | _ \<Rightarrow> unexpected)
      else if (case tok_type expr of TRegexStr l \<Rightarrow> True | TError l \<Rightarrow> True | _ \<Rightarrow> False) then
        (let first = getLexeme expr;
             (regexLexeme, rest) = reconstruct_regex first (paren_count first 0) first (p_advance ts)
         in case regexp_of_lexeme env regexLexeme of
              None \<Rightarrow> unexpected
            | Some regexp \<Rightarrow> Some (Inr (b_regex B key regexp, rest)))
      else
        (case tok_type expr of
           TQuotedStr serializedValue \<Rightarrow>
             (case quoted_regex env serializedValue of
                None \<Rightarrow> unexpected
              | Some regexp \<Rightarrow> Some (Inr (b_regex B key regexp, p_advance ts)))
         | _ \<Rightarrow> unexpected))"

section \<open>Operators after a key\<close>

definition p_equality ::
  "(js_string \<Rightarrow> 'e) \<Rightarrow> (js_string \<Rightarrow> 'e) \<Rightarrow> (js_string \<Rightarrow> js_string \<Rightarrow> 'e) \<Rightarrow> js_string \<Rightarrow> ck_token list \<Rightarrow>
   ('e \<times> ck_token list) parse_result" where
  "p_equality when_true when_false otherwise key ts =
     (let (right, quoted, ts1) = p_value ts in
      if quoted then Some (Inr (otherwise key right, ts1))
      else if right = js_lit ''true'' then Some (Inr (when_true key, ts1))
      else if right = js_lit ''false'' then Some (Inr (when_false key, ts1))
      else Some (Inr (otherwise key right, ts1)))"

definition p_comparison :: "(js_string \<Rightarrow> js_string \<Rightarrow> 'e) \<Rightarrow> js_string \<Rightarrow> ck_token list \<Rightarrow> ('e \<times> ck_token list) parse_result" where
  "p_comparison create key ts = (let (right, quoted, ts1) = p_value ts in Some (Inr (create key right, ts1)))"

definition p_key :: "'e ck_builder \<Rightarrow> ck_env \<Rightarrow> bool \<Rightarrow> js_string \<Rightarrow> ck_token list \<Rightarrow> ('e \<times> ck_token list) parse_result" where
  "p_key B env recovery key ts =
     (case p_peek ts of
        TRegexOp \<Rightarrow> p_regex B env recovery key (p_advance ts)
      | TNot \<Rightarrow> p_bind (p_consume TIn ExpectedInAfterNot (p_advance ts)) (p_comparison (b_notIn B) key)
      | TEq triple \<Rightarrow> p_equality (b_has B) (b_not B) (b_equals B) key (p_advance ts)
      | TNotEq triple \<Rightarrow> p_equality (b_not B) (b_has B) (b_notEquals B) key (p_advance ts)
      | TLt \<Rightarrow> p_comparison (b_smaller B) key (p_advance ts)
      | TLtEq \<Rightarrow> p_comparison (b_smallerEquals B) key (p_advance ts)
      | TGt \<Rightarrow> p_comparison (b_greater B) key (p_advance ts)
      | TGtEq \<Rightarrow> p_comparison (b_greaterEquals B) key (p_advance ts)
      | TIn \<Rightarrow> p_comparison (b_in B) key (p_advance ts)
      | _ \<Rightarrow> Some (Inr (b_has B key, ts)))"

section \<open>Expressions\<close>

text \<open>One level: the calls of the other functions are arguments.\<close>

type_synonym 'e parse_step = "ck_token list \<Rightarrow> ('e \<times> ck_token list) parse_result"

definition parse_operands ::
  "('e list \<Rightarrow> 'e) \<Rightarrow> 'e parse_step \<Rightarrow> ('e list \<Rightarrow> 'e list parse_step) \<Rightarrow> 'e parse_step" where
  "parse_operands build operand loop ts =
     p_bind (operand ts) (\<lambda>(e, ts1).
       p_bind (loop [e] ts1) (\<lambda>(expr, ts2).
         Some (Inr (if length expr = 1 then hd expr else build expr, ts2))))"

definition parse_more ::
  "ck_token_type \<Rightarrow> 'e parse_step \<Rightarrow> ('e list \<Rightarrow> 'e list parse_step) \<Rightarrow> 'e list \<Rightarrow> 'e list parse_step" where
  "parse_more operator operand loop expr ts =
     (if p_peek ts = operator then
        p_bind (operand (p_advance ts)) (\<lambda>(right, ts1). loop (expr @ [right]) ts1)
      else Some (Inr (expr, ts)))"

definition parse_parenthesized :: "('e \<Rightarrow> 'e) \<Rightarrow> 'e parse_step \<Rightarrow> 'e parse_step" where
  "parse_parenthesized f expression ts =
     p_bind (expression (p_advance ts)) (\<lambda>(expr, ts1).
       p_bind (p_consume TRParen ExpectedClosingParenthesis ts1) (\<lambda>ts2. Some (Inr (f expr, ts2))))"

definition parse_term :: "'e ck_builder \<Rightarrow> 'e parse_step \<Rightarrow> 'e parse_step \<Rightarrow> 'e parse_step" where
  "parse_term B expression primary ts =
     (if p_peek ts = TNeg then
        (let ts1 = p_advance ts in
         case p_peek ts1 of
           TTrue \<Rightarrow> Some (Inr (b_false B, p_advance ts1))
         | TFalse \<Rightarrow> Some (Inr (b_true B, p_advance ts1))
         | TLParen \<Rightarrow> parse_parenthesized (b_negate B) expression ts1
         | TStr lexeme \<Rightarrow> Some (Inr (b_not B lexeme, p_advance ts1))
         | _ \<Rightarrow> Some (Inl (errExpectedButGot ExpectedTerm (hd ts1))))
      else primary ts)"

definition parse_primary :: "'e ck_builder \<Rightarrow> ck_env \<Rightarrow> bool \<Rightarrow> 'e parse_step \<Rightarrow> 'e parse_step" where
  "parse_primary B env recovery expression ts =
     (case p_peek ts of
        TTrue \<Rightarrow> Some (Inr (b_true B, p_advance ts))
      | TFalse \<Rightarrow> Some (Inr (b_false B, p_advance ts))
      | TLParen \<Rightarrow> parse_parenthesized (\<lambda>expr. expr) expression ts
      | TStr key \<Rightarrow> p_key B env recovery key (p_advance ts)
      | TEOF \<Rightarrow>
          Some (Inl \<lparr>pe_message = ErrorUnexpectedEOF, pe_offset = tok_offset (hd ts), pe_lexeme = [],
                     pe_additionalInfo = Some HintUnexpectedEOF\<rparr>)
      | _ \<Rightarrow> Some (Inl (errExpectedButGot ExpectedPrimary (hd ts))))"

text \<open>The recursion.\<close>

function (sequential) p_or :: "'e ck_builder \<Rightarrow> ck_env \<Rightarrow> bool \<Rightarrow> nat \<Rightarrow> 'e parse_step"
  and p_or_loop :: "'e ck_builder \<Rightarrow> ck_env \<Rightarrow> bool \<Rightarrow> nat \<Rightarrow> 'e list \<Rightarrow> 'e list parse_step"
  and p_and :: "'e ck_builder \<Rightarrow> ck_env \<Rightarrow> bool \<Rightarrow> nat \<Rightarrow> 'e parse_step"
  and p_and_loop :: "'e ck_builder \<Rightarrow> ck_env \<Rightarrow> bool \<Rightarrow> nat \<Rightarrow> 'e list \<Rightarrow> 'e list parse_step"
  and p_term :: "'e ck_builder \<Rightarrow> ck_env \<Rightarrow> bool \<Rightarrow> nat \<Rightarrow> 'e parse_step"
  and p_primary :: "'e ck_builder \<Rightarrow> ck_env \<Rightarrow> bool \<Rightarrow> nat \<Rightarrow> 'e parse_step"
where
  "p_or B env c 0 ts = None"
| "p_or B env c (Suc n) ts = parse_operands (b_or B) (\<lambda>u. p_and B env c n u) (\<lambda>e u. p_or_loop B env c n e u) ts"
| "p_or_loop B env c 0 expr ts = None"
| "p_or_loop B env c (Suc n) expr ts =
     parse_more TOr (\<lambda>u. p_and B env c n u) (\<lambda>e u. p_or_loop B env c n e u) expr ts"
| "p_and B env c 0 ts = None"
| "p_and B env c (Suc n) ts = parse_operands (b_and B) (\<lambda>u. p_term B env c n u) (\<lambda>e u. p_and_loop B env c n e u) ts"
| "p_and_loop B env c 0 expr ts = None"
| "p_and_loop B env c (Suc n) expr ts =
     parse_more TAnd (\<lambda>u. p_term B env c n u) (\<lambda>e u. p_and_loop B env c n e u) expr ts"
| "p_term B env c 0 ts = None"
| "p_term B env c (Suc n) ts = parse_term B (\<lambda>u. p_or B env c n u) (\<lambda>u. p_primary B env c n u) ts"
| "p_primary B env c 0 ts = None"
| "p_primary B env c (Suc n) ts = parse_primary B env c (\<lambda>u. p_or B env c n u) ts"
  by pat_completeness auto
termination
  by (relation "measure (case_sum (case_sum (\<lambda>(B, env, c, n, ts). n) (case_sum (\<lambda>(B, env, c, n, e, ts). n) (\<lambda>(B, env, c, n, ts). n)))
        (case_sum (\<lambda>(B, env, c, n, e, ts). n) (case_sum (\<lambda>(B, env, c, n, ts). n) (\<lambda>(B, env, c, n, ts). n))))")
    auto

text \<open>The whole input: nothing may be left.\<close>

definition parse_tokens :: "'e ck_builder \<Rightarrow> ck_env \<Rightarrow> bool \<Rightarrow> nat \<Rightarrow> ck_token list \<Rightarrow> 'e parse_result" where
  "parse_tokens B env recovery n ts =
     p_bind (p_or B env recovery n ts) (\<lambda>(expr, rest).
       if \<not> p_isAtEnd rest then
         Some (Inl \<lparr>pe_message = ErrorUnexpectedToken, pe_offset = tok_offset (hd rest), pe_lexeme = getLexeme (hd rest),
                    pe_additionalInfo = (case p_peek rest of TStr l \<Rightarrow> Some HintUnexpectedToken | _ \<Rightarrow> None)\<rparr>)
       else Some (Inr expr))"

section \<open>The parser object\<close>

record ck_parser =
  regexParsingWithErrorRecovery :: bool
  lexingErrors :: "lexing_error list"
  parsingErrors :: "parsing_error list"

definition new_parser :: "bool \<Rightarrow> ck_parser" where
  "new_parser recovery = \<lparr>regexParsingWithErrorRecovery = recovery, lexingErrors = [], parsingErrors = []\<rparr>"

text \<open>Fuel for the calls: six for every token, and for the way down to the first one.\<close>

definition parse_fuel :: "ck_token list \<Rightarrow> nat" where
  "parse_fuel ts = 6 * length ts + 6"

text \<open>
  The result is an expression, \<open>undefined\<close> after an error, or \<open>None\<close> when the builder ran out of
  fuel (its fuel is \<open>fuel\<close>).
\<close>

definition Parser_parse :: "ck_env \<Rightarrow> nat \<Rightarrow> ck_parser \<Rightarrow> js_string \<Rightarrow> ck_parser \<times> ck_outcome" where
  "Parser_parse env fuel p input =
     (if input = [] then
        (p\<lparr>parsingErrors := parsingErrors p @
            [\<lparr>pe_message = ErrorEmptyString, pe_offset = 0, pe_lexeme = [], pe_additionalInfo = Some HintEmptyString\<rparr>]\<rparr>,
         Some None)
      else
        let ts = scan_tokens env input;
            p1 = p\<lparr>lexingErrors := scan_errors env input, parsingErrors := []\<rparr>
        in case parse_tokens (expr_builder env fuel) env (regexParsingWithErrorRecovery p) (parse_fuel ts) ts of
             None \<Rightarrow> (p1, None)
           | Some (Inl e) \<Rightarrow> (p1\<lparr>parsingErrors := [e]\<rparr>, Some None)
           | Some (Inr expr) \<Rightarrow> (p1, expr))"

text \<open>\<open>null\<close> and \<open>undefined\<close> are not parsed.\<close>

definition ContextKeyExpr_deserialize :: "ck_env \<Rightarrow> nat \<Rightarrow> ck_parser \<Rightarrow> js_string option \<Rightarrow> ck_parser \<times> ck_outcome" where
  "ContextKeyExpr_deserialize env fuel p serialized =
     (case serialized of None \<Rightarrow> (p, Some None) | Some s \<Rightarrow> Parser_parse env fuel p s)"

text \<open>A report: the message, as a hint of the scanner or an error of the parser, with offset and length.\<close>

record clause_report =
  cr_errorMessage :: "ck_hint option + (ck_message \<times> ck_parse_hint option)"
  cr_offset :: nat
  cr_length :: nat

definition parser_reports :: "ck_parser \<Rightarrow> clause_report list" where
  "parser_reports p =
     (if lexingErrors p \<noteq> [] then
        map (\<lambda>se. \<lparr>cr_errorMessage = Inl (le_additionalInfo se), cr_offset = le_offset se,
                   cr_length = length (le_lexeme se)\<rparr>) (lexingErrors p)
      else if parsingErrors p \<noteq> [] then
        map (\<lambda>pe. \<lparr>cr_errorMessage = Inr (pe_message pe, pe_additionalInfo pe), cr_offset = pe_offset pe,
                   cr_length = length (pe_lexeme pe)\<rparr>) (parsingErrors p)
      else [])"

fun validate_loop :: "ck_env \<Rightarrow> nat \<Rightarrow> ck_parser \<Rightarrow> js_string list \<Rightarrow> clause_report list list" where
  "validate_loop env fuel p [] = []"
| "validate_loop env fuel p (whenClause # rest) =
     (let p1 = fst (Parser_parse env fuel p whenClause) in parser_reports p1 # validate_loop env fuel p1 rest)"

definition validateWhenClauses :: "ck_env \<Rightarrow> nat \<Rightarrow> js_string list \<Rightarrow> clause_report list list" where
  "validateWhenClauses env fuel whenClauses = validate_loop env fuel (new_parser False) whenClauses"

end
