(* ===== verification/ContextKeyScanProofs.thy ===== *)
theory ContextKeyScanProofs
  imports ContextKeyScanner
begin

text \<open>
  Every token is a piece of the input: its lexeme stands in the input at its offset.  The list of the
  tokens ends with the one token for the end of the input, and every lexing error has its token.
\<close>

definition token_at :: "js_string \<Rightarrow> ck_token \<Rightarrow> bool" where
  "token_at input t \<longleftrightarrow> tok_offset t + length (getLexeme t) \<le> length input \<and>
     take (length (getLexeme t)) (drop (tok_offset t) input) = getLexeme t"

definition error_token :: "lexing_error \<Rightarrow> ck_token" where
  "error_token e = \<lparr>tok_type = TError (le_lexeme e), tok_offset = le_offset e\<rparr>"

text \<open>What holds between two rounds of the loop.\<close>

definition scan_inv :: "ck_scanner \<Rightarrow> bool" where
  "scan_inv s \<longleftrightarrow> sc_current s \<le> length (sc_input s) \<and>
     (\<forall>t \<in> set (sc_tokens s). tok_type t \<noteq> TEOF \<and> token_at (sc_input s) t) \<and>
     (\<forall>e \<in> set (sc_errors s). error_token e \<in> set (sc_tokens s))"

lemma token_at_slice:
  assumes "getLexeme \<lparr>tok_type = k, tok_offset = i\<rparr> = take n (drop i input)" "i + n \<le> length input"
  shows "token_at input \<lparr>tok_type = k, tok_offset = i\<rparr>"
proof -
  have "length (take n (drop i input)) = n" using assms(2) by simp
  then show ?thesis using assms by (simp add: token_at_def)
qed

lemma scan_inv_push:
  assumes "scan_inv s" "k \<noteq> TEOF" "token_at (sc_input s) \<lparr>tok_type = k, tok_offset = i\<rparr>" "n \<le> length (sc_input s)"
  shows "scan_inv (push_token k i (s\<lparr>sc_current := n\<rparr>))"
  using assms by (auto simp: scan_inv_def push_token_def)

lemma scan_inv_error:
  assumes "scan_inv s" "sc_start s \<le> n" "n \<le> length (sc_input s)"
  shows "scan_inv (scanner_error h (s\<lparr>sc_current := n\<rparr>))"
proof -
  have "token_at (sc_input s) \<lparr>tok_type = TError (take (n - sc_start s) (drop (sc_start s) (sc_input s))), tok_offset = sc_start s\<rparr>"
    by (rule token_at_slice [of _ _ "n - sc_start s"]) (use assms in \<open>simp_all add: getLexeme_def\<close>)
  then show ?thesis using assms
    by (auto simp: scan_inv_def scanner_error_def push_token_def scanner_lexeme_def error_token_def Let_def)
qed

lemma quote_end_le: "i \<le> length input \<Longrightarrow> quote_end input i \<le> length input"
proof (induction input i rule: quote_end.induct)
  case (1 input i)
  then show ?case by (subst quote_end.simps) auto
qed

lemma flags_end_le: "i \<le> length input \<Longrightarrow> flags_end input i \<le> length input"
proof (induction input i rule: flags_end.induct)
  case (1 input i)
  then show ?case by (subst flags_end.simps) auto
qed

text \<open>The state after the first character of a round has been taken.\<close>

definition in_round :: "int \<Rightarrow> ck_scanner \<Rightarrow> bool" where
  "in_round ch s \<longleftrightarrow> scan_inv s \<and> sc_current s = sc_start s + 1 \<and> sc_input s ! sc_start s = ch"

lemma in_roundD:
  assumes "in_round ch s"
  shows "scan_inv s" "sc_current s = sc_start s + 1" "sc_start s < length (sc_input s)" "sc_input s ! sc_start s = ch"
  using assms by (auto simp: in_round_def scan_inv_def)

lemma take_one: "i < length xs \<Longrightarrow> take 1 (drop i xs) = [xs ! i]"
  by (simp add: take_Suc_conv_app_nth)

lemma take_Suc_drop: "i + n < length xs \<Longrightarrow> take (n + 1) (drop i xs) = take n (drop i xs) @ [xs ! (i + n)]"
  by (simp add: take_Suc_conv_app_nth)

lemma update_current_id [simp]: "s\<lparr>sc_current := sc_current s\<rparr> = s"
  by simp

lemma addToken_at:
  assumes "scan_inv s" "sc_start s + n \<le> length (sc_input s)" "k \<noteq> TEOF"
    "getLexeme \<lparr>tok_type = k, tok_offset = sc_start s\<rparr> = take n (drop (sc_start s) (sc_input s))"
  shows "scan_inv (addToken k s)"
proof -
  have "token_at (sc_input s) \<lparr>tok_type = k, tok_offset = sc_start s\<rparr>" by (rule token_at_slice [OF assms(4,2)])
  moreover have "sc_current s \<le> length (sc_input s)" using assms(1) by (simp add: scan_inv_def)
  ultimately show ?thesis
    using scan_inv_push [OF assms(1,3), of "sc_start s" "sc_current s"] by (simp add: addToken_def)
qed

lemma scan_string_inv:
  assumes "in_round ch s"
  shows "scan_inv (scan_string env s)"
proof -
  note r = in_roundD [OF assms]
  let ?e = "string_end env (sc_input s) (sc_start s)"
  let ?s = "s\<lparr>sc_current := ?e\<rparr>"
  have e: "sc_start s \<le> ?e" "?e \<le> length (sc_input s)" using string_end_ge string_end_le r(3) by simp_all
  have inv: "scan_inv ?s" using r(1) e(2) by (simp add: scan_inv_def)
  have lexeme: "scanner_lexeme ?s = take (?e - sc_start s) (drop (sc_start s) (sc_input s))" by (simp add: scanner_lexeme_def)
  have "scan_inv (addToken k ?s)" if "k \<noteq> TEOF" "getLexeme \<lparr>tok_type = k, tok_offset = sc_start s\<rparr> = scanner_lexeme ?s" for k
    by (rule addToken_at [OF inv, of "?e - sc_start s"]) (use that e in \<open>simp_all add: lexeme\<close>)
  moreover have "keyword (scanner_lexeme ?s) = Some k \<Longrightarrow>
      k \<noteq> TEOF \<and> getLexeme \<lparr>tok_type = k, tok_offset = sc_start s\<rparr> = scanner_lexeme ?s" for k
    by (auto simp: keyword_def getLexeme_def split: if_splits)
  ultimately show ?thesis using r(1)
    by (auto simp: scan_string_def Let_def getLexeme_def split: option.split)
qed

lemma quotedString_inv:
  assumes "in_round ch s"
  shows "scan_inv (quotedString s)"
proof -
  note r = in_roundD [OF assms]
  let ?e = "quote_end (sc_input s) (sc_current s)"
  have e: "sc_current s \<le> ?e" "?e \<le> length (sc_input s)" using quote_end_ge quote_end_le r(2,3) by simp_all
  show ?thesis
  proof (cases "?e < length (sc_input s)")
    case False
    then show ?thesis using scan_inv_error [OF r(1), of ?e] e r(2) by (simp add: quotedString_def Let_def isAtEnd_def)
  next
    case True
    let ?k = "TQuotedStr (take (?e - (sc_start s + 1)) (drop (sc_start s + 1) (sc_input s)))"
    have "token_at (sc_input s) \<lparr>tok_type = ?k, tok_offset = sc_start s + 1\<rparr>"
      by (rule token_at_slice [of _ _ "?e - (sc_start s + 1)"]) (use e r(2) in \<open>simp_all add: getLexeme_def\<close>)
    then have "scan_inv (push_token ?k (sc_start s + 1) (s\<lparr>sc_current := ?e + 1\<rparr>))"
      by (intro scan_inv_push [OF r(1)]) (use True in simp_all)
    then show ?thesis using True by (simp add: quotedString_def Let_def isAtEnd_def)
  qed
qed

lemma scan_regex_inv:
  assumes "in_round ch s"
  shows "scan_inv (scan_regex s)"
proof (cases "regex_end (sc_input s) (sc_current s) False False")
  case None
  then show ?thesis using scan_inv_error [OF in_roundD(1) [OF assms], of "length (sc_input s)"] in_roundD(3) [OF assms]
    by (simp add: scan_regex_def)
next
  case (Some p)
  note r = in_roundD [OF assms]
  let ?e = "flags_end (sc_input s) p"
  let ?s = "s\<lparr>sc_current := ?e\<rparr>"
  have e: "sc_start s \<le> ?e" "?e \<le> length (sc_input s)"
    using regex_end_gt [OF Some] flags_end_ge [of p "sc_input s"] flags_end_le [of p "sc_input s"] r(2) by simp_all
  have inv: "scan_inv ?s" using r(1) e(2) by (simp add: scan_inv_def)
  have "scan_inv (addToken (TRegexStr (scanner_lexeme ?s)) ?s)"
    by (rule addToken_at [OF inv, of "?e - sc_start s"]) (use e in \<open>simp_all add: getLexeme_def scanner_lexeme_def\<close>)
  then show ?thesis using Some by (simp add: scan_regex_def Let_def)
qed

text \<open>The operators of one, two and three characters.\<close>

lemma operator_token:
  assumes "scan_inv s" "sc_start s < sc_current s" "sc_current s \<le> length (sc_input s)"
    "take (sc_current s - sc_start s) (drop (sc_start s) (sc_input s)) = w" "k \<noteq> TEOF"
    "getLexeme \<lparr>tok_type = k, tok_offset = sc_start s\<rparr> = w"
  shows "scan_inv (addToken k s)"
  by (rule addToken_at [OF assms(1), of "sc_current s - sc_start s"]) (use assms in simp_all)

definition taken :: "js_string \<Rightarrow> ck_scanner \<Rightarrow> bool" where
  "taken w s \<longleftrightarrow> scan_inv s \<and> w \<noteq> [] \<and> sc_current s = sc_start s + length w \<and>
     take (length w) (drop (sc_start s) (sc_input s)) = w"

lemma taken_round: "in_round ch s \<Longrightarrow> taken [ch] s"
  using in_roundD [of ch s] take_one [of "sc_start s" "sc_input s"] by (simp add: taken_def)

lemma taken_match:
  assumes "taken w s"
  shows "fst (match_char c s) \<Longrightarrow> taken (w @ [c]) (snd (match_char c s))"
    "\<not> fst (match_char c s) \<Longrightarrow> snd (match_char c s) = s"
proof -
  show "\<not> fst (match_char c s) \<Longrightarrow> snd (match_char c s) = s"
    by (cases rule: match_char_cases [of c s]) simp_all
  assume m: "fst (match_char c s)"
  then have s: "match_char c s = (True, s\<lparr>sc_current := sc_current s + 1\<rparr>)" "\<not> isAtEnd s" "sc_input s ! sc_current s = c"
    by (cases rule: match_char_cases [of c s]; simp)+
  have "take (length w + 1) (drop (sc_start s) (sc_input s)) = w @ [c]"
    using take_Suc_drop [of "sc_start s" "length w" "sc_input s"] assms s(2,3) by (simp add: taken_def isAtEnd_def)
  then show "taken (w @ [c]) (snd (match_char c s))"
    using assms s by (simp add: taken_def scan_inv_def isAtEnd_def)
qed

lemma taken_token:
  assumes "taken w s" "k \<noteq> TEOF" "getLexeme \<lparr>tok_type = k, tok_offset = sc_start s\<rparr> = w"
  shows "scan_inv (addToken k s)"
  by (rule operator_token [of s w]) (use assms in \<open>auto simp: taken_def scan_inv_def\<close>)

lemma taken_error:
  assumes "taken w s"
  shows "scan_inv (scanner_error h s)"
proof -
  have "scan_inv s" "sc_start s \<le> sc_current s" using assms by (simp_all add: taken_def)
  moreover from this have "sc_current s \<le> length (sc_input s)" by (simp add: scan_inv_def)
  ultimately have "scan_inv (scanner_error h (s\<lparr>sc_current := sc_current s\<rparr>))" by (rule scan_inv_error)
  then show ?thesis by (simp only: update_current_id)
qed

text \<open>A character, or it and the character \<open>c\<close> after it.\<close>

lemma match_token:
  assumes "in_round ch s" "k \<noteq> TEOF" "k' \<noteq> TEOF"
    "\<And>i. getLexeme \<lparr>tok_type = k, tok_offset = i\<rparr> = [ch, c]" "\<And>i. getLexeme \<lparr>tok_type = k', tok_offset = i\<rparr> = [ch]"
  shows "scan_inv (addToken (if fst (match_char c s) then k else k') (snd (match_char c s)))"
  using taken_match [OF taken_round [OF assms(1)], of c] taken_token [of "[ch, c]" _ k] taken_token [of "[ch]" s k']
    taken_round [OF assms(1)] assms(2-5) by (cases "fst (match_char c s)") simp_all

lemma match_token_or_error:
  assumes "in_round ch s" "k \<noteq> TEOF" "\<And>i. getLexeme \<lparr>tok_type = k, tok_offset = i\<rparr> = [ch, c]"
  shows "scan_inv (if fst (match_char c s) then addToken k (snd (match_char c s)) else scanner_error h (snd (match_char c s)))"
  using taken_match [OF taken_round [OF assms(1)], of c] taken_token [of "[ch, c]" _ k] taken_error [of "[ch]" s]
    taken_round [OF assms(1)] assms(2,3) by (cases "fst (match_char c s)") simp_all

text \<open>\<open>==\<close> and \<open>!=\<close> may be followed by one more \<open>=\<close>.\<close>

lemma triple_token:
  assumes "taken w s" "\<And>b. k b \<noteq> TEOF"
    "\<And>i b. getLexeme \<lparr>tok_type = k b, tok_offset = i\<rparr> = (if b then w @ [61] else w)"
  shows "scan_inv (addToken (k (fst (match_char 61 s))) (snd (match_char 61 s)))"
  using taken_match [OF assms(1), of 61] taken_token [of "w @ [61]" _ "k True"] taken_token [of w s "k False"]
    assms by (cases "fst (match_char 61 s)") simp_all

lemmas lexeme_simps = getLexeme_def

lemma scan_char_inv:
  assumes "in_round ch s"
  shows "scan_inv (scan_char env ch s)"
proof -
  note t = taken_round [OF assms]
  note m = taken_match [OF t]
  have inv: "scan_inv s" by (rule in_roundD [OF assms])
  have one: "scan_inv (addToken k s)" if "k \<noteq> TEOF" "\<And>i. getLexeme \<lparr>tok_type = k, tok_offset = i\<rparr> = [ch]" for k
    using taken_token [OF t that(1)] that(2) by blast
  consider "ch = 40" | "ch = 41" | "ch = 33" | "ch = 39" | "ch = 47" | "ch = 61" | "ch = 60" | "ch = 62" | "ch = 38"
    | "ch = 124" | "is_blank_char ch \<and> ch \<notin> {40, 41, 33, 39, 47, 61, 60, 62, 38, 124}"
    | "\<not> is_blank_char ch \<and> ch \<notin> {40, 41, 33, 39, 47, 61, 60, 62, 38, 124}" by blast
  then show ?thesis
  proof cases
    case 1
    then show ?thesis using one [of TLParen] by (simp add: scan_char_def lexeme_simps)
  next
    case 2
    then show ?thesis using one [of TRParen] by (simp add: scan_char_def lexeme_simps)
  next
    case 3
    show ?thesis
    proof (cases "fst (match_char 61 s)")
      case True
      have "scan_inv (addToken (TNotEq (fst (match_char 61 (snd (match_char 61 s))))) (snd (match_char 61 (snd (match_char 61 s)))))"
        by (rule triple_token [OF m(1) [OF True]]) (simp_all add: 3 lexeme_simps)
      then show ?thesis using True 3 by (simp add: scan_char_def case_prod_beta Let_def)
    next
      case False
      then show ?thesis using one [of TNeg] m(2) [OF False] 3 by (simp add: scan_char_def case_prod_beta Let_def lexeme_simps)
    qed
  next
    case 6
    show ?thesis
    proof (cases "fst (match_char 61 s)")
      case True
      have "scan_inv (addToken (TEq (fst (match_char 61 (snd (match_char 61 s))))) (snd (match_char 61 (snd (match_char 61 s)))))"
        by (rule triple_token [OF m(1) [OF True]]) (simp_all add: 6 lexeme_simps)
      then show ?thesis using True 6 by (simp add: scan_char_def case_prod_beta Let_def)
    next
      case False
      have "scan_inv (if fst (match_char 126 s) then addToken TRegexOp (snd (match_char 126 s))
          else scanner_error h (snd (match_char 126 s)))" for h
        by (rule match_token_or_error [OF assms]) (simp_all add: 6 lexeme_simps)
      then show ?thesis using False m(2) [OF False] 6
        by (simp add: scan_char_def case_prod_beta Let_def)
    qed
  next
    case 7
    have "scan_inv (addToken (if fst (match_char 61 s) then TLtEq else TLt) (snd (match_char 61 s)))"
      by (rule match_token [OF assms]) (simp_all add: 7 lexeme_simps)
    then show ?thesis using 7 by (simp add: scan_char_def case_prod_beta)
  next
    case 8
    have "scan_inv (addToken (if fst (match_char 61 s) then TGtEq else TGt) (snd (match_char 61 s)))"
      by (rule match_token [OF assms]) (simp_all add: 8 lexeme_simps)
    then show ?thesis using 8 by (simp add: scan_char_def case_prod_beta)
  next
    case 9
    have "scan_inv (if fst (match_char 38 s) then addToken TAnd (snd (match_char 38 s))
        else scanner_error h (snd (match_char 38 s)))" for h
      by (rule match_token_or_error [OF assms]) (simp_all add: 9 lexeme_simps)
    then show ?thesis using 9 by (simp add: scan_char_def case_prod_beta)
  next
    case 10
    have "scan_inv (if fst (match_char 124 s) then addToken TOr (snd (match_char 124 s))
        else scanner_error h (snd (match_char 124 s)))" for h
      by (rule match_token_or_error [OF assms]) (simp_all add: 10 lexeme_simps)
    then show ?thesis using 10 by (simp add: scan_char_def case_prod_beta)
  qed (use inv scan_string_inv [OF assms] quotedString_inv [OF assms] scan_regex_inv [OF assms] in
      \<open>simp_all add: scan_char_def\<close>)
qed

lemma scan_one_inv:
  assumes "scan_inv s" "sc_current s < length (sc_input s)"
  shows "scan_inv (scan_one env s)"
  unfolding scan_one_def
  by (rule scan_char_inv) (use assms in \<open>simp add: in_round_def scan_inv_def\<close>)

lemma scan_loop_inv: "scan_inv s \<Longrightarrow> scan_inv (scan_loop env s)"
proof (induction env s rule: scan_loop.induct)
  case (1 env s)
  show ?case
  proof (cases "isAtEnd s")
    case True
    then show ?thesis using 1 by (simp add: scan_loop.simps [of env s])
  next
    case False
    then have "scan_inv (scan_one env s)" using scan_one_inv 1(2) by (simp add: isAtEnd_def)
    then show ?thesis using 1(1) [OF False] False by (simp add: scan_loop.simps [of env s])
  qed
qed

lemma scan_loop_input: "scan_inv s \<Longrightarrow> sc_input (scan_loop env s) = sc_input s"
proof (induction env s rule: scan_loop.induct)
  case (1 env s)
  show ?case
  proof (cases "isAtEnd s")
    case False
    then have l: "sc_current s < length (sc_input s)" by (simp add: isAtEnd_def)
    then show ?thesis using 1(1) [OF False scan_one_inv [OF 1(2) l]] False scan_one_progress(1) [OF l]
      by (simp add: scan_loop.simps [of env s])
  qed (simp add: scan_loop.simps [of env s])
qed

lemma scan_loop_end: "isAtEnd (scan_loop env s)"
proof (induction env s rule: scan_loop.induct)
  case (1 env s)
  then show ?case by (cases "isAtEnd s") (simp_all add: scan_loop.simps [of env s])
qed

section \<open>The tokens of an input\<close>

lemma scan_tokens_shape:
  obtains ts where "scan_tokens env input = ts @ [\<lparr>tok_type = TEOF, tok_offset = length input\<rparr>]"
    "\<forall>t \<in> set ts. tok_type t \<noteq> TEOF \<and> token_at input t" "\<forall>e \<in> set (scan_errors env input). error_token e \<in> set ts"
proof -
  define s where "s = scan_loop env (scanner_reset input)"
  have i0: "scan_inv (scanner_reset input)" by (simp add: scanner_reset_def scan_inv_def)
  have inv: "scan_inv s" unfolding s_def by (rule scan_loop_inv [OF i0])
  have inp: "sc_input s = input" unfolding s_def scan_loop_input [OF i0] by (simp add: scanner_reset_def)
  have cur: "sc_current s = length input"
    using scan_loop_end [of env "scanner_reset input"] inv inp unfolding s_def [symmetric]
    by (simp add: isAtEnd_def scan_inv_def)
  have "scan_tokens env input = sc_tokens s @ [\<lparr>tok_type = TEOF, tok_offset = length input\<rparr>]"
    "scan_errors env input = sc_errors s"
    by (simp_all add: scan_tokens_def scan_errors_def scan_state_def Let_def addToken_def push_token_def cur flip: s_def)
  then show thesis using that [of "sc_tokens s"] inv inp by (simp add: scan_inv_def)
qed

end
