(* ===== verification/ContextKeyParseProofs.thy ===== *)
theory ContextKeyParseProofs
  imports ContextKeyParser ContextKeyScanProofs
begin

text \<open>
  The parser returns on every list of tokens that ends with the end of the input, with the fuel
  \<open>parse_fuel\<close>: it consumes tokens, and an error is reported at one of them.  What it builds depends on
  the builder only through the operations of the builder: with the tree builder it returns a syntax
  tree, and the expression is the one built from that tree.
\<close>

section \<open>Lists of tokens\<close>

definition eof_ended :: "ck_token list \<Rightarrow> bool" where
  "eof_ended ts \<longleftrightarrow> (\<exists>us e. ts = us @ [e] \<and> tok_type e = TEOF \<and> (\<forall>u \<in> set us. tok_type u \<noteq> TEOF))"

lemma eof_ended_Cons: "eof_ended (t # ts) \<longleftrightarrow> (if tok_type t = TEOF then ts = [] else eof_ended ts)"
proof
  assume "eof_ended (t # ts)"
  then obtain us e where "t # ts = us @ [e]" "tok_type e = TEOF" "\<forall>u \<in> set us. tok_type u \<noteq> TEOF"
    by (auto simp: eof_ended_def)
  then show "if tok_type t = TEOF then ts = [] else eof_ended ts"
    by (cases us) (auto simp: eof_ended_def)
next
  assume h: "if tok_type t = TEOF then ts = [] else eof_ended ts"
  show "eof_ended (t # ts)"
  proof (cases "tok_type t = TEOF")
    case True
    then show ?thesis using h by (auto simp: eof_ended_def)
  next
    case False
    then obtain us e where "ts = us @ [e]" "tok_type e = TEOF" "\<forall>u \<in> set us. tok_type u \<noteq> TEOF"
      using h by (auto simp: eof_ended_def)
    then show ?thesis using False unfolding eof_ended_def by (intro exI [of _ "t # us"] exI [of _ e]) auto
  qed
qed

lemma eof_ended_Nil [simp]: "\<not> eof_ended []"
  by (simp add: eof_ended_def)

lemma eof_ended_hd: "eof_ended ts \<Longrightarrow> ts = hd ts # tl ts"
  by (cases ts) auto

lemma eof_advance:
  assumes "eof_ended ts"
  shows "eof_ended (p_advance ts)" "p_peek ts \<noteq> TEOF \<Longrightarrow> p_advance ts = tl ts \<and> ts = hd ts # p_advance ts"
  using assms eof_ended_hd [OF assms] eof_ended_Cons [of "hd ts" "tl ts"]
  by (auto simp: p_advance_def p_isAtEnd_def)

text \<open>What a step of the parser may return; \<open>strict\<close>: it has taken a token.\<close>

definition rest_of :: "bool \<Rightarrow> ck_token list \<Rightarrow> ck_token list \<Rightarrow> bool" where
  "rest_of strict ts ts' \<longleftrightarrow> eof_ended ts' \<and> (\<exists>us. ts = us @ ts' \<and> (strict \<longrightarrow> us \<noteq> []))"

definition step_ok :: "bool \<Rightarrow> ck_token list \<Rightarrow> ('a \<times> ck_token list) parse_result \<Rightarrow> bool" where
  "step_ok strict ts r \<longleftrightarrow>
     (case r of None \<Rightarrow> False
      | Some (Inl e) \<Rightarrow> pe_offset e \<in> tok_offset ` set ts
      | Some (Inr x) \<Rightarrow> rest_of strict ts (snd x))"

lemma step_ok_simps [simp]:
  "\<not> step_ok b ts None"
  "step_ok b ts (Some (Inl e)) \<longleftrightarrow> pe_offset e \<in> tok_offset ` set ts"
  "step_ok b ts (Some (Inr (x, ts'))) \<longleftrightarrow> rest_of b ts ts'"
  by (simp_all add: step_ok_def)

lemma rest_of_refl: "eof_ended ts \<Longrightarrow> rest_of False ts ts"
  by (auto simp: rest_of_def)

lemma rest_of_trans: "rest_of b ts us \<Longrightarrow> rest_of c us vs \<Longrightarrow> rest_of (b \<or> c) ts vs"
  by (auto simp: rest_of_def)

lemma rest_of_weaken: "rest_of b ts us \<Longrightarrow> rest_of False ts us"
  by (auto simp: rest_of_def)

lemma rest_of_advance: "eof_ended ts \<Longrightarrow> p_peek ts \<noteq> TEOF \<Longrightarrow> rest_of True ts (p_advance ts)"
  using eof_advance [of ts] unfolding rest_of_def
  by (metis append_Cons append_Nil list.distinct(1))

lemma rest_of_length:
  "rest_of b ts us \<Longrightarrow> length us \<le> length ts" "rest_of True ts us \<Longrightarrow> length us < length ts"
  by (auto simp: rest_of_def)

lemma rest_of_set: "rest_of b ts us \<Longrightarrow> set us \<subseteq> set ts"
  by (auto simp: rest_of_def)

lemma rest_of_eof: "rest_of b ts us \<Longrightarrow> eof_ended us"
  by (simp add: rest_of_def)

lemma step_ok_after:
  assumes "rest_of b ts us" "step_ok c us r"
  shows "step_ok (b \<or> c) ts r"
proof (cases r)
  case (Some q)
  show ?thesis
  proof (cases q)
    case (Inl e)
    then show ?thesis using assms Some rest_of_set [OF assms(1)] by auto
  next
    case (Inr x)
    then show ?thesis using assms Some rest_of_trans [OF assms(1)] by (simp add: step_ok_def)
  qed
qed (use assms in simp)

lemma step_ok_weaken: "step_ok b ts r \<Longrightarrow> step_ok False ts r"
  by (auto simp: step_ok_def dest: rest_of_weaken split: option.splits sum.splits)

lemma step_ok_bind:
  assumes "step_ok b ts r" "\<And>x us. rest_of b ts us \<Longrightarrow> r = Some (Inr (x, us)) \<Longrightarrow> step_ok c us (f (x, us))"
  shows "step_ok (b \<or> c) ts (p_bind r f)"
proof (cases r)
  case (Some q)
  show ?thesis
  proof (cases q)
    case (Inl e)
    then show ?thesis using assms(1) Some by (simp add: p_bind_def)
  next
    case (Inr x)
    then show ?thesis using assms Some step_ok_after [of b ts "snd x" c]
      by (cases x) (auto simp: p_bind_def)
  qed
qed (use assms in simp)

lemma error_at_head: "eof_ended ts \<Longrightarrow> tok_offset (hd ts) \<in> tok_offset ` set ts"
  by (metis eof_ended_hd image_eqI list.set_intros(1))

lemma expected_at_head: "eof_ended ts \<Longrightarrow> step_ok b ts (Some (Inl (errExpectedButGot m (hd ts))))"
  by (simp add: errExpectedButGot_def error_at_head)

section \<open>One level\<close>

lemma p_value_rest: "eof_ended ts \<Longrightarrow> rest_of False ts (snd (snd (p_value ts)))"
  using rest_of_advance [of ts] rest_of_refl [of ts]
  by (auto simp: p_value_def split: ck_token_type.split intro: rest_of_weaken)

lemma p_comparison_ok: "eof_ended ts \<Longrightarrow> step_ok False ts (p_comparison f k ts)"
  using p_value_rest [of ts] by (simp add: p_comparison_def case_prod_beta)

lemma p_equality_ok: "eof_ended ts \<Longrightarrow> step_ok False ts (p_equality f g h k ts)"
  using p_value_rest [of ts] by (simp add: p_equality_def case_prod_beta)

lemma reconstruct_regex_rest: "eof_ended ts \<Longrightarrow> rest_of False ts (snd (reconstruct_regex first b acc ts))"
proof (induction first b acc ts rule: reconstruct_regex.induct)
  case (2 first b acc t ts)
  show ?case
  proof (cases "tok_type t \<in> {TEOF, TAnd, TOr} \<or> balance_after first (tok_type t) b < 0")
    case True
    then show ?thesis using rest_of_refl [OF 2(2)] by (auto simp: Let_def)
  next
    case False
    then have "eof_ended ts" using 2(2) by (simp add: eof_ended_Cons)
    then have "rest_of False ts (snd (reconstruct_regex first (balance_after first (tok_type t) b) (acc @ getLexeme t) ts))"
      using 2(1) False by (simp add: Let_def)
    moreover have "rest_of True (t # ts) ts" using \<open>eof_ended ts\<close> by (auto simp: rest_of_def)
    ultimately have "rest_of False (t # ts) (snd (reconstruct_regex first (balance_after first (tok_type t) b) (acc @ getLexeme t) ts))"
      using rest_of_trans rest_of_weaken by blast
    then show ?thesis using False by (simp add: Let_def)
  qed
qed simp

lemma p_regex_ok:
  assumes "eof_ended ts"
  shows "step_ok False ts (p_regex B env recovery k ts)"
proof -
  note err = expected_at_head [OF assms, of False ExpectedRegex]
  have adv: "p_peek ts \<noteq> TEOF \<Longrightarrow> rest_of False ts (p_advance ts)"
    using rest_of_weaken [OF rest_of_advance [OF assms]] .
  have rec: "p_peek ts \<noteq> TEOF \<Longrightarrow> rest_of False ts (snd (reconstruct_regex first b acc (p_advance ts)))" for first b acc
    using rest_of_trans [OF adv reconstruct_regex_rest [OF eof_advance(1) [OF assms]]] by simp
  show ?thesis
    using err adv rec by (auto simp: p_regex_def Let_def case_prod_beta split: ck_token_type.split option.split)
qed

lemma p_key_ok:
  assumes "eof_ended ts"
  shows "step_ok False ts (p_key B env recovery k ts)"
proof -
  have adv: "step_ok False ts r" if "p_peek ts \<noteq> TEOF" "step_ok False (p_advance ts) r" for r :: "('a \<times> ck_token list) parse_result"
    using step_ok_weaken [OF step_ok_after [OF rest_of_advance [OF assms that(1)] that(2)]] .
  note a = eof_advance(1) [OF assms]
  have notin: "step_ok False (p_advance ts) (p_bind (p_consume TIn ExpectedInAfterNot (p_advance ts)) (p_comparison (b_notIn B) k))"
  proof (cases "p_peek (p_advance ts) = TIn")
    case True
    then have "rest_of True (p_advance ts) (p_advance (p_advance ts))" using rest_of_advance [OF a] by simp
    then show ?thesis using True step_ok_weaken [OF step_ok_after [OF _ p_comparison_ok [OF eof_advance(1) [OF a]]]]
      by (simp add: p_consume_def p_bind_def)
  next
    case False
    then show ?thesis using expected_at_head [OF a] by (simp add: p_consume_def p_bind_def)
  qed
  show ?thesis
    using rest_of_refl [OF assms]
    by (auto simp: p_key_def split: ck_token_type.split
        intro!: adv p_regex_ok [OF a] p_comparison_ok [OF a] p_equality_ok [OF a] notin)
qed

lemma consume_ok:
  assumes "eof_ended ts" "t \<noteq> TEOF"
  shows "step_ok True ts (p_bind (p_consume t m ts) (\<lambda>ts1. Some (Inr (x, ts1))))"
  using assms rest_of_advance [of ts] expected_at_head [of ts True m] by (auto simp: p_consume_def p_bind_def)

lemma parse_parenthesized_ok:
  assumes "eof_ended ts" "p_peek ts \<noteq> TEOF" "step_ok b (p_advance ts) (expression (p_advance ts))"
  shows "step_ok True ts (parse_parenthesized f expression ts)"
proof -
  have "step_ok (b \<or> True) (p_advance ts) (p_bind (expression (p_advance ts)) (\<lambda>(expr, ts1).
       p_bind (p_consume TRParen ExpectedClosingParenthesis ts1) (\<lambda>ts2. Some (Inr (f expr, ts2)))))"
    by (rule step_ok_bind [OF assms(3)]) (simp add: consume_ok rest_of_eof)
  then show ?thesis
    using step_ok_after [OF rest_of_advance [OF assms(1,2)]] by (fastforce simp: parse_parenthesized_def)
qed

lemma parse_primary_ok:
  assumes "eof_ended ts" "p_peek ts = TLParen \<Longrightarrow> step_ok b (p_advance ts) (expression (p_advance ts))"
  shows "step_ok True ts (parse_primary B env recovery expression ts)"
proof -
  have key: "p_peek ts = TStr k \<Longrightarrow> step_ok True ts (p_key B env recovery k (p_advance ts))" for k
    using step_ok_after [OF rest_of_advance [OF assms(1)] p_key_ok [OF eof_advance(1) [OF assms(1)]]] by simp
  have paren: "step_ok True ts (parse_parenthesized f expression ts)" if "p_peek ts = TLParen" for f
    by (rule parse_parenthesized_ok [where b = b]) (use assms that in simp_all)
  show ?thesis
    using rest_of_advance [OF assms(1)] expected_at_head [OF assms(1), of True] error_at_head [OF assms(1)] key paren
    by (auto simp: parse_primary_def split: ck_token_type.split)
qed

lemma parse_term_ok:
  assumes "eof_ended ts" "p_peek ts = TNeg \<Longrightarrow> p_peek (p_advance ts) = TLParen \<Longrightarrow>
      step_ok b (p_advance (p_advance ts)) (expression (p_advance (p_advance ts)))"
    "step_ok True ts (primary ts)"
  shows "step_ok True ts (parse_term B expression primary ts)"
proof (cases "p_peek ts = TNeg")
  case True
  note a = eof_advance(1) [OF assms(1)]
  have "step_ok True (p_advance ts) (parse_parenthesized (b_negate B) expression (p_advance ts))"
    if "p_peek (p_advance ts) = TLParen"
    by (rule parse_parenthesized_ok [where b = b]) (use a assms(2) True that in simp_all)
  then have "step_ok False (p_advance ts) (parse_term B expression primary ts)"
    using True rest_of_weaken [OF rest_of_advance [OF a]] expected_at_head [OF a, of False]
    by (auto simp: parse_term_def Let_def split: ck_token_type.split intro: step_ok_weaken)
  then show ?thesis using step_ok_after [OF rest_of_advance [OF assms(1)]] True by fastforce
qed (use assms in \<open>simp add: parse_term_def\<close>)

lemma parse_operands_ok:
  assumes "step_ok True ts (operand ts)" "\<And>e us. rest_of True ts us \<Longrightarrow> step_ok False us (loop [e] us)"
  shows "step_ok True ts (parse_operands build operand loop ts)"
proof -
  have "step_ok (True \<or> False) ts (parse_operands build operand loop ts)" unfolding parse_operands_def
  proof (rule step_ok_bind [OF assms(1)], clarify)
    fix e us assume us: "rest_of True ts us"
    have "step_ok (False \<or> False) us (p_bind (loop [e] us) (\<lambda>(expr, ts2).
         Some (Inr (if length expr = 1 then hd expr else build expr, ts2))))"
      by (rule step_ok_bind [OF assms(2) [OF us]]) (simp add: rest_of_refl rest_of_eof)
    then show "step_ok False us (p_bind (loop [e] us) (\<lambda>(expr, ts2).
         Some (Inr (if length expr = 1 then hd expr else build expr, ts2))))" by simp
  qed
  then show ?thesis by simp
qed

lemma parse_more_ok:
  assumes "eof_ended ts" "operator \<noteq> TEOF" "p_peek ts = operator \<Longrightarrow> step_ok True (p_advance ts) (operand (p_advance ts))"
    "\<And>e us. rest_of True (p_advance ts) us \<Longrightarrow> p_peek ts = operator \<Longrightarrow> step_ok False us (loop e us)"
  shows "step_ok False ts (parse_more operator operand loop expr ts)"
proof (cases "p_peek ts = operator")
  case True
  have "step_ok (True \<or> False) (p_advance ts) (p_bind (operand (p_advance ts)) (\<lambda>(right, ts1). loop (expr @ [right]) ts1))"
    by (rule step_ok_bind [OF assms(3) [OF True]]) (simp add: assms(4) True)
  then show ?thesis
    using True step_ok_weaken [OF step_ok_after [OF rest_of_advance [OF assms(1)]]] assms(2)
    by (auto simp: parse_more_def)
qed (use rest_of_refl [OF assms(1)] in \<open>simp add: parse_more_def\<close>)

section \<open>Enough fuel\<close>

lemma parse_steps_ok:
  "eof_ended ts \<Longrightarrow> 6 * length ts + 4 \<le> n \<Longrightarrow> step_ok True ts (p_or B env c n ts)"
  "eof_ended ts \<Longrightarrow> 6 * length ts + 1 \<le> n \<Longrightarrow> step_ok False ts (p_or_loop B env c n es ts)"
  "eof_ended ts \<Longrightarrow> 6 * length ts + 3 \<le> n \<Longrightarrow> step_ok True ts (p_and B env c n ts)"
  "eof_ended ts \<Longrightarrow> 6 * length ts + 1 \<le> n \<Longrightarrow> step_ok False ts (p_and_loop B env c n es ts)"
  "eof_ended ts \<Longrightarrow> 6 * length ts + 2 \<le> n \<Longrightarrow> step_ok True ts (p_term B env c n ts)"
  "eof_ended ts \<Longrightarrow> 6 * length ts + 1 \<le> n \<Longrightarrow> step_ok True ts (p_primary B env c n ts)"
proof (induction n arbitrary: ts es)
  case (Suc n)
  have adv: "6 * length (p_advance ts) + 6 \<le> 6 * length ts" "eof_ended (p_advance ts)"
    if "eof_ended ts" "p_peek ts \<noteq> TEOF" for ts
    using rest_of_length(2) [OF rest_of_advance [OF that]] eof_advance(1) [OF that(1)] by simp_all
  have rest: "6 * length us + 6 \<le> 6 * length ts" "eof_ended us" if "rest_of True ts us" for ts us
    using rest_of_length(2) [OF that] rest_of_eof [OF that] by simp_all
  {
    case 1
    show ?case unfolding p_or.simps
    proof (rule parse_operands_ok)
      show "step_ok True ts (p_and B env c n ts)" using Suc(3) 1 by simp
      show "step_ok False us (p_or_loop B env c n [e] us)" if "rest_of True ts us" for e us
        using Suc(2) rest [OF that] 1 by simp
    qed
  next
    case 2
    show ?case unfolding p_or_loop.simps
    proof (rule parse_more_ok [OF 2(1)])
      show "step_ok True (p_advance ts) (p_and B env c n (p_advance ts))" if "p_peek ts = TOr"
        using Suc(3) adv [OF 2(1)] 2 that by simp
      show "step_ok False us (p_or_loop B env c n e us)" if "rest_of True (p_advance ts) us" "p_peek ts = TOr" for e us
        using Suc(2) rest [OF that(1)] adv [OF 2(1)] 2 that by simp
    qed simp
  next
    case 3
    show ?case unfolding p_and.simps
    proof (rule parse_operands_ok)
      show "step_ok True ts (p_term B env c n ts)" using Suc(5) 3 by simp
      show "step_ok False us (p_and_loop B env c n [e] us)" if "rest_of True ts us" for e us
        using Suc(4) rest [OF that] 3 by simp
    qed
  next
    case 4
    show ?case unfolding p_and_loop.simps
    proof (rule parse_more_ok [OF 4(1)])
      show "step_ok True (p_advance ts) (p_term B env c n (p_advance ts))" if "p_peek ts = TAnd"
        using Suc(5) adv [OF 4(1)] 4 that by simp
      show "step_ok False us (p_and_loop B env c n e us)" if "rest_of True (p_advance ts) us" "p_peek ts = TAnd" for e us
        using Suc(4) rest [OF that(1)] adv [OF 4(1)] 4 that by simp
    qed simp
  next
    case 5
    show ?case unfolding p_term.simps
    proof (rule parse_term_ok [OF 5(1)])
      show "step_ok True (p_advance (p_advance ts)) (p_or B env c n (p_advance (p_advance ts)))"
        if "p_peek ts = TNeg" "p_peek (p_advance ts) = TLParen"
        using Suc(1) adv [OF 5(1)] adv [of "p_advance ts"] 5 that by simp
      show "step_ok True ts (p_primary B env c n ts)" using Suc(6) 5 by simp
    qed
  next
    case 6
    show ?case unfolding p_primary.simps
      by (rule parse_primary_ok [OF 6(1), of True]) (use Suc(1) adv [OF 6(1)] 6 in simp)
  }
qed simp_all

text \<open>An error, or a result; an error is at a token.\<close>

lemma parse_tokens_returns:
  assumes "eof_ended ts"
  shows "(\<exists>e. parse_tokens B env c (parse_fuel ts) ts = Some (Inl e) \<and> pe_offset e \<in> tok_offset ` set ts) \<or>
    (\<exists>r. parse_tokens B env c (parse_fuel ts) ts = Some (Inr r))"
proof -
  have "step_ok True ts (p_or B env c (parse_fuel ts) ts)"
    by (rule parse_steps_ok(1) [OF assms]) (simp add: parse_fuel_def)
  then consider e where "p_or B env c (parse_fuel ts) ts = Some (Inl e)" "pe_offset e \<in> tok_offset ` set ts"
    | r us where "p_or B env c (parse_fuel ts) ts = Some (Inr (r, us))" "rest_of True ts us"
    by (auto simp: step_ok_def split: option.splits sum.splits)
  then show ?thesis
  proof cases
    case (2 r us)
    then show ?thesis using rest_of_set [OF 2(2)] error_at_head [OF rest_of_eof [OF 2(2)]]
      by (auto simp: parse_tokens_def p_bind_def)
  qed (simp add: parse_tokens_def p_bind_def)
qed

lemma scan_tokens_eof: "eof_ended (scan_tokens env input)"
proof -
  obtain ts where "scan_tokens env input = ts @ [\<lparr>tok_type = TEOF, tok_offset = length input\<rparr>]"
    "\<forall>t \<in> set ts. tok_type t \<noteq> TEOF \<and> token_at input t"
    by (rule scan_tokens_shape)
  then show ?thesis unfolding eof_ended_def
    by (intro exI [of _ ts] exI [of _ "\<lparr>tok_type = TEOF, tok_offset = length input\<rparr>"]) simp
qed

lemma scan_tokens_offsets: "t \<in> set (scan_tokens env input) \<Longrightarrow> tok_offset t \<le> length input"
proof -
  obtain ts where ts: "scan_tokens env input = ts @ [\<lparr>tok_type = TEOF, tok_offset = length input\<rparr>]"
    "\<forall>t \<in> set ts. tok_type t \<noteq> TEOF \<and> token_at input t"
    by (rule scan_tokens_shape)
  assume "t \<in> set (scan_tokens env input)"
  then show "tok_offset t \<le> length input" using ts by (auto simp: token_at_def)
qed

end
