(* ===== verification/ContextKeyDnf.thy ===== *)
theory ContextKeyDnf
  imports ContextKeyProofs
begin

text \<open>
  More fuel does not change a result, and for the expressions without \<open>in\<close>, \<open>not in\<close> and the
  comparison operators there is always enough of it: \<open>create\<close> and \<open>negate\<close> return, and what they
  return is a disjunction of conjunctions again, so that it can be printed without parentheses.

  The other operators have types above the one of a disjunction, are sorted behind it, and keep the
  disjunction from being distributed.
\<close>

section \<open>More fuel\<close>

lemma map_steps_mono:
  assumes "map_steps f xs = Some ys" "\<And>x y. f x = Some y \<Longrightarrow> g x = Some y"
  shows "map_steps g xs = Some ys"
  using assms by (auto simp: map_steps_Some elim: list_all2_mono)

locale ck_more =
  fixes andc orc andc' orc' :: ck_creator and ngt ngt' :: ck_negator
  assumes more_and: "\<And>es neg x r. andc es neg x = Some r \<Longrightarrow> andc' es neg x = Some r"
    and more_or: "\<And>es neg x r. orc es neg x = Some r \<Longrightarrow> orc' es neg x = Some r"
    and more_negate: "\<And>e n. ngt e = Some n \<Longrightarrow> ngt' e = Some n"
begin

lemma more_complement: "has_complement ngt xs = Some b \<Longrightarrow> has_complement ngt' xs = Some b"
proof (induction xs rule: induct_list012)
  case (3 x y r)
  then obtain n where n: "ngt x = Some n" by (cases "ngt x") auto
  then show ?case using 3 more_negate [OF n] by (auto split: if_splits)
qed auto

lemma more_or_normalize:
  "ContextKeyOrExpr_normalizeArr ngt es neg x = Some r \<Longrightarrow> ContextKeyOrExpr_normalizeArr ngt' es neg x = Some r"
  by (auto simp: ContextKeyOrExpr_normalizeArr_def Let_def dest: more_complement split: option.splits prod.splits if_splits)

lemma more_last:
  assumes "distribute_last andc orc x els s fin = Some r"
  shows "distribute_last andc' orc' x els s fin = Some r"
proof -
  obtain ps where ps: "map_steps (\<lambda>el. andc [Some el, Some s] None x) els = Some ps" "orc ps None fin = Some r"
    using assms by (auto simp: distribute_last_def split: option.splits)
  have "map_steps (\<lambda>el. andc' [Some el, Some s] None x) els = Some ps"
    by (rule map_steps_mono [OF ps(1)]) (rule more_and)
  then show ?thesis using more_or [OF ps(2)] by (simp add: distribute_last_def)
qed

lemma more_loop: "distribute_loop andc orc x expr = Some ys \<Longrightarrow> distribute_loop andc' orc' x expr = Some ys"
proof (induction "length expr" arbitrary: expr rule: less_induct)
  case less
  show ?case
  proof (cases "length expr > 1 \<and> ck_type (last expr) = 9")
    case False
    then show ?thesis using less.prems distribute_loop_stop by simp
  next
    case True
    then obtain popped sec els n where e: "expr = popped @ [sec, COr els n]" using distribute_loop_split by blast
    note st = less.prems [unfolded e distribute_loop_step]
    then obtain r where r: "distribute_last andc orc x els sec (popped = []) = Some r"
      by (auto split: option.splits)
    have len: "length popped < length expr" "length (js_sort ck_cmp (popped @ [c])) < length expr" for c
      by (simp_all add: e length_js_sort)
    show ?thesis
      unfolding e distribute_loop_step more_last [OF r]
      using st r less.hyps [OF len(1)] less.hyps [OF len(2)] by (cases r) simp_all
  qed
qed

lemma more_and_normalize:
  assumes "ContextKeyAndExpr_normalizeArr andc orc ngt es neg x = Some r"
  shows "ContextKeyAndExpr_normalizeArr andc' orc' ngt' es neg x = Some r"
proof (cases "and_collect es [] False")
  case None
  then show ?thesis using assms by (simp add: ContextKeyAndExpr_normalizeArr_def)
next
  case (Some p)
  obtain xs t where p: "and_collect es [] False = Some (xs, t)" using Some by (cases p) auto
  define ys where "ys = drop_duplicates (js_sort ck_cmp xs)"
  show ?thesis
  proof (cases "xs = [] \<or> length xs = 1 \<or> length ys = 1")
    case True
    then show ?thesis using assms by (auto simp: ContextKeyAndExpr_normalizeArr_def p Let_def simp flip: ys_def)
  next
    case False
    then obtain zs where zs: "distribute_loop andc orc x ys = Some zs"
      using assms by (auto simp: ContextKeyAndExpr_normalizeArr_def p Let_def simp flip: ys_def split: option.splits)
    note d = more_loop [OF zs]
    show ?thesis
    proof (cases "length zs = 1 \<or> \<not> x")
      case True
      then show ?thesis using assms False zs d
        by (auto simp: ContextKeyAndExpr_normalizeArr_def p Let_def simp flip: ys_def)
    next
      case f: False
      then obtain b where b: "has_complement ngt zs = Some b"
        using assms False zs by (auto simp: ContextKeyAndExpr_normalizeArr_def p Let_def simp flip: ys_def split: option.splits)
      from more_complement [OF b] show ?thesis using assms False zs d f b
        by (auto simp: ContextKeyAndExpr_normalizeArr_def p Let_def simp flip: ys_def)
    qed
  qed
qed

lemma more_negated: "distribute_negated andc orc ns = Some rs \<Longrightarrow> distribute_negated andc' orc' ns = Some rs"
proof (induction "length ns" arbitrary: ns rule: less_induct)
  case less
  show ?case
  proof (cases "\<exists>l m rest. ns = l # m # rest")
    case False
    then have "distribute_negated a b ns = Some ns" for a b by (cases "(a, b, ns)" rule: distribute_negated.cases) auto
    then show ?thesis using less.prems by simp
  next
    case True
    then obtain l m rest where ns: "ns = l # m # rest" by blast
    let ?mk = "\<lambda>(left, right). andc [Some left, Some right] None False"
    let ?mk' = "\<lambda>(left, right). andc' [Some left, Some right] None False"
    let ?ps = "List.product (getTerminals l) (getTerminals m)"
    obtain all e where all: "map_steps ?mk ?ps = Some all" "orc all None False = Some (Some e)"
        "distribute_negated andc orc (e # rest) = Some rs"
      using less.prems by (auto simp: ns defined_result_Some split: option.splits)
    have "map_steps ?mk' ?ps = Some all" by (rule map_steps_mono [OF all(1)]) (auto dest: more_and)
    moreover have "distribute_negated andc' orc' (e # rest) = Some rs" using less.hyps [OF _ all(3)] by (simp add: ns)
    ultimately show ?thesis using more_or [OF all(2)] by (simp add: ns defined_result_def)
  qed
qed

lemma more_negate_expr:
  assumes "negate_expr env andc orc ngt e = Some n"
  shows "negate_expr env andc' orc' ngt' e = Some n"
proof (cases e)
  case (CAnd xs neg)
  show ?thesis
  proof (cases neg)
    case (Some m)
    then show ?thesis using assms by (simp add: CAnd negate_expr_def ContextKeyAndExpr_negate_def)
  next
    case None
    obtain ns where ns: "map_steps ngt xs = Some ns" "orc (map Some ns) (Some e) True = Some (Some n)"
      using assms None
      by (auto simp: CAnd negate_expr_def ContextKeyAndExpr_negate_def defined_result_Some split: option.splits)
    have "map_steps ngt' xs = Some ns" by (rule map_steps_mono [OF ns(1)]) (rule more_negate)
    then show ?thesis using more_or [OF ns(2)] None
      by (simp add: CAnd negate_expr_def ContextKeyAndExpr_negate_def defined_result_def)
  qed
next
  case (COr xs neg)
  show ?thesis
  proof (cases neg)
    case (Some m)
    then show ?thesis using assms by (simp add: COr negate_expr_def ContextKeyOrExpr_negate_def)
  next
    case None
    obtain ns rs where ns: "map_steps ngt xs = Some ns" "distribute_negated andc orc ns = Some rs"
        "orc (map Some rs) (Some e) True = Some (Some n)"
      using assms None
      by (auto simp: COr negate_expr_def ContextKeyOrExpr_negate_def defined_result_Some split: option.splits)
    have "map_steps ngt' xs = Some ns" by (rule map_steps_mono [OF ns(1)]) (rule more_negate)
    then show ?thesis using more_negated [OF ns(2)] more_or [OF ns(3)] None
      by (simp add: COr negate_expr_def ContextKeyOrExpr_negate_def defined_result_def)
  qed
qed (use assms in \<open>simp_all add: negate_expr_def\<close>)

end

lemma more_fuel_step:
  "ck_more (and_create env n) (or_create env n) (and_create env (Suc n)) (or_create env (Suc n))
     (ck_negate env n) (ck_negate env (Suc n))"
proof (induction n)
  case 0
  show ?case by unfold_locales simp_all
next
  case (Suc n)
  show ?case
  proof (unfold_locales, goal_cases)
    case (1 es neg x r)
    show ?case unfolding and_create.simps(2) [of env "Suc n" es neg x]
      by (rule ck_more.more_and_normalize [OF Suc]) (use 1 in simp)
  next
    case (2 es neg x r)
    show ?case unfolding or_create.simps(2) [of env "Suc n" es neg x]
      by (rule ck_more.more_or_normalize [OF Suc]) (use 2 in simp)
  next
    case (3 e m)
    show ?case unfolding ck_negate.simps(2) [of env "Suc n" e]
      by (rule ck_more.more_negate_expr [OF Suc]) (use 3 in simp)
  qed
qed

interpretation fuel: ck_more "and_create env n" "or_create env n" "and_create env (Suc n)" "or_create env (Suc n)"
  "ck_negate env n" "ck_negate env (Suc n)" for env n
  by (rule more_fuel_step)

lemma more_fuel:
  assumes "n \<le> m"
  shows "and_create env n es neg x = Some r \<Longrightarrow> and_create env m es neg x = Some r"
    "or_create env n es neg x = Some r \<Longrightarrow> or_create env m es neg x = Some r"
    "ck_negate env n e = Some c \<Longrightarrow> ck_negate env m e = Some c"
  using assms by (induction m rule: dec_induct) (auto dest: fuel.more_and fuel.more_or fuel.more_negate)

lemma more_fuel_locale:
  assumes "n \<le> m"
  shows "ck_more (and_create env n) (or_create env n) (and_create env m) (or_create env m)
     (ck_negate env n) (ck_negate env m)"
  by unfold_locales (erule more_fuel [OF assms])+

section \<open>Sorting by type\<close>

abbreviation sorted_types :: "ck_expr list \<Rightarrow> bool" where
  "sorted_types xs \<equiv> sorted_wrt (\<lambda>a b. ck_type a \<le> ck_type b) xs"

lemma ck_cmp_types: "ck_type a \<noteq> ck_type b \<Longrightarrow> ck_cmp a b = ck_type a - ck_type b"
  by (cases a) auto

lemma sorted_types_insert: "sorted_types xs \<Longrightarrow> sorted_types (js_insert ck_cmp x xs)"
proof (induction xs)
  case (Cons y ys)
  have less: "ck_cmp x y < 0 \<Longrightarrow> ck_type x \<le> ck_type y" "\<not> ck_cmp x y < 0 \<Longrightarrow> ck_type y \<le> ck_type x"
    using ck_cmp_types [of x y] by (cases "ck_type x = ck_type y"; simp)+
  then show ?case using Cons by (auto intro: order_trans)
qed simp

lemma sorted_types_sort: "sorted_types (js_sort ck_cmp xs)"
  by (induction xs rule: rev_induct) (simp_all add: js_sort_snoc sorted_types_insert, simp add: js_sort_def)

lemma sorted_types_duplicates: "sorted_types xs \<Longrightarrow> sorted_types (drop_duplicates xs)"
proof (induction xs rule: drop_duplicates.induct)
  case (1 a b r)
  then show ?case using set_drop_duplicates [of "b # r"] by auto
qed simp_all

lemma set_js_sort: "set (js_sort cmp xs) = set xs"
  using mset_eq_setD [OF mset_js_sort [of cmp xs]] .

section \<open>Disjunctions of conjunctions\<close>

text \<open>A conjunction has no disjunction below it; a disjunction has none directly below it.\<close>

fun ck_dnf :: "ck_expr \<Rightarrow> bool" where
  "ck_dnf (CAnd xs n) \<longleftrightarrow>
     xs \<noteq> [] \<and> list_all (\<lambda>x. ck_dnf x \<and> ck_type x \<noteq> 9) xs \<and> (case n of None \<Rightarrow> True | Some m \<Rightarrow> ck_dnf m)"
| "ck_dnf (COr xs n) \<longleftrightarrow>
     xs \<noteq> [] \<and> list_all (\<lambda>x. ck_dnf x \<and> ck_type x \<noteq> 9) xs \<and> (case n of None \<Rightarrow> True | Some m \<Rightarrow> ck_dnf m)"
| "ck_dnf e \<longleftrightarrow> ck_type e < 9"

abbreviation dnf_term :: "ck_expr \<Rightarrow> bool" where
  "dnf_term x \<equiv> ck_dnf x \<and> ck_type x \<noteq> 9"

definition dnf_operands :: "ck_expr option list \<Rightarrow> bool" where
  "dnf_operands es \<longleftrightarrow> (\<forall>e. Some e \<in> set es \<longrightarrow> ck_dnf e)"

definition dnf_optional :: "ck_expr option \<Rightarrow> bool" where
  "dnf_optional r \<longleftrightarrow> (case r of None \<Rightarrow> True | Some e \<Rightarrow> ck_dnf e)"

lemma dnf_optional_simps [simp]: "dnf_optional None" "dnf_optional (Some e) = ck_dnf e"
  by (simp_all add: dnf_optional_def)

lemma ck_dnf_nary:
  "ck_dnf (CAnd xs n) \<longleftrightarrow> xs \<noteq> [] \<and> (\<forall>x \<in> set xs. dnf_term x) \<and> dnf_optional n"
  "ck_dnf (COr xs n) \<longleftrightarrow> xs \<noteq> [] \<and> (\<forall>x \<in> set xs. dnf_term x) \<and> dnf_optional n"
  by (auto simp: list_all_iff dnf_optional_def)

declare ck_dnf.simps(1,2) [simp del]

lemma dnf_operands_simps [simp]:
  "dnf_operands []" "dnf_operands (None # es) = dnf_operands es"
  "dnf_operands (Some e # es) \<longleftrightarrow> ck_dnf e \<and> dnf_operands es"
  "dnf_operands (map Some xs) \<longleftrightarrow> (\<forall>x \<in> set xs. ck_dnf x)"
  by (auto simp: dnf_operands_def)

lemma ck_type_bound: "ck_dnf e \<Longrightarrow> ck_type e \<le> 9"
  by (cases e) auto

lemma or_operands_dnf: "ck_dnf e \<Longrightarrow> \<forall>x \<in> set (or_operands e). dnf_term x"
  by (cases e) (auto simp: or_operands_def ck_dnf_nary)

lemma and_operands_dnf:
  "ck_dnf e \<Longrightarrow> \<forall>x \<in> set (and_operands e). ck_dnf x"
  "dnf_term e \<Longrightarrow> \<forall>x \<in> set (and_operands e). dnf_term x"
  by (cases e; auto simp: and_operands_def ck_dnf_nary)+

lemma operands_nonempty: "ck_dnf e \<Longrightarrow> or_operands e \<noteq> []" "ck_dnf e \<Longrightarrow> and_operands e \<noteq> []"
  by (cases e; simp add: or_operands_def and_operands_def ck_dnf_nary)+

lemma or_terms_empty: "dnf_operands es \<Longrightarrow> or_terms es = [] \<Longrightarrow> Some CFalse \<notin> set es \<Longrightarrow> \<forall>e \<in> set es. e = None"
  by (induction es rule: or_terms.induct) (auto simp: operands_nonempty split: if_splits)

lemma and_terms_empty: "dnf_operands es \<Longrightarrow> and_terms es = [] \<Longrightarrow> Some CTrue \<notin> set es \<Longrightarrow> \<forall>e \<in> set es. e = None"
  by (induction es rule: and_terms.induct) (auto simp: operands_nonempty split: if_splits)

lemma or_terms_dnf: "dnf_operands es \<Longrightarrow> \<forall>x \<in> set (or_terms es). dnf_term x"
  by (induction es rule: or_terms.induct) (use or_operands_dnf in \<open>auto split: if_splits\<close>)

lemma and_terms_dnf: "dnf_operands es \<Longrightarrow> \<forall>x \<in> set (and_terms es). ck_dnf x"
  by (induction es rule: and_terms.induct) (use and_operands_dnf(1) in \<open>auto split: if_splits\<close>)

lemma and_terms_term: "\<forall>e. Some e \<in> set es \<longrightarrow> dnf_term e \<Longrightarrow> \<forall>x \<in> set (and_terms es). dnf_term x"
proof (induction es rule: and_terms.induct)
  case (3 e es)
  have e: "dnf_term e" and es: "\<forall>x. Some x \<in> set es \<longrightarrow> dnf_term x" using "3.prems" by auto
  have "\<forall>x \<in> set (and_terms es). dnf_term x" by (cases "e = CTrue") (use "3.IH" es in fast)+
  then show ?case using and_operands_dnf(2) [OF e] by (simp add: ball_Un)
qed simp_all

lemma bool_expr_type: "ck_dnf (bool_expr b)" "ck_type (bool_expr b) < 6"
  by (simp_all add: bool_expr_def)

lemma create_leaf:
  "ck_type (ContextKeyDefinedExpr_create env k) < 6" "ck_type (ContextKeyNotExpr_create env k) < 6"
  "ck_type (ContextKeyEqualsExpr_create env k v) < 6" "ck_type (ContextKeyNotEqualsExpr_create env k v) < 6"
proof -
  note b = bool_expr_type(2)
  show d: "ck_type (ContextKeyDefinedExpr_create env k) < 6" and n: "ck_type (ContextKeyNotExpr_create env k) < 6"
    by (simp_all add: create_defs b split: option.split)
  show "ck_type (ContextKeyEqualsExpr_create env k v) < 6" "ck_type (ContextKeyNotEqualsExpr_create env k v) < 6"
    using d n by (simp_all add: ContextKeyEqualsExpr_create_def ContextKeyNotEqualsExpr_create_def b
        split: option.split js_prim.split)
qed

lemma leaf_dnf: "ck_type e < 6 \<Longrightarrow> ck_dnf e"
  by (cases e) auto

lemma leaf_negate_dnf:
  assumes "leaf_negate env e = Some n" "ck_dnf e"
  shows "ck_dnf n" "ck_type n \<noteq> 9" "ck_type n \<noteq> 6"
proof -
  have "ck_type n < 6 \<or> (\<exists>k r. n = CRegex k r \<or> n = CNotRegex k r)"
    using assms by (cases e) (auto simp: create_leaf)
  then show "ck_dnf n" "ck_type n \<noteq> 9" "ck_type n \<noteq> 6" using leaf_dnf by auto
qed

lemma getTerminals_dnf: "ck_dnf e \<Longrightarrow> \<forall>x \<in> set (getTerminals e). dnf_term x"
  by (cases e) (auto simp: ck_dnf_nary)

section \<open>The normal form is kept\<close>

definition dnf_result :: "ck_expr option list \<Rightarrow> ck_expr option \<Rightarrow> bool" where
  "dnf_result es r \<longleftrightarrow> (case r of None \<Rightarrow> (\<forall>e \<in> set es. e = None) | Some e \<Rightarrow> ck_dnf e)"

lemma dnf_result_Some [simp]: "dnf_result es (Some e) = ck_dnf e"
  by (simp add: dnf_result_def)

lemma sorted_types_last:
  assumes "sorted_types expr" "y \<in> set expr"
  shows "ck_type y \<le> ck_type (last expr)"
  using assms by (induction expr) (auto split: if_splits)

locale ck_dnf_normalizer =
  fixes andc orc :: ck_creator and ngt :: ck_negator
  assumes andc_dnf: "\<And>es neg x r. andc es neg x = Some r \<Longrightarrow> dnf_operands es \<Longrightarrow> dnf_optional neg \<Longrightarrow> dnf_result es r"
    and orc_dnf: "\<And>es neg x r. orc es neg x = Some r \<Longrightarrow> dnf_operands es \<Longrightarrow> dnf_optional neg \<Longrightarrow> dnf_result es r"
    and ngt_dnf: "\<And>e n. ngt e = Some n \<Longrightarrow> ck_dnf e \<Longrightarrow> ck_dnf n"
begin

lemma distribute_last_dnf:
  assumes "distribute_last andc orc x els second fin = Some r" "\<forall>e \<in> set els. ck_dnf e" "ck_dnf second" "els \<noteq> []"
  obtains c where "r = Some c" "ck_dnf c"
proof -
  obtain ps where ps: "map_steps (\<lambda>el. andc [Some el, Some second] None x) els = Some ps" "orc ps None fin = Some r"
    using assms(1) by (auto simp: distribute_last_def split: option.splits)
  have m: "\<exists>e. p = Some e \<and> ck_dnf e" if p: "p \<in> set ps" for p
  proof -
    obtain el where "el \<in> set els" "andc [Some el, Some second] None x = Some p"
      using map_steps_members(1) [OF ps(1) p] by blast
    then have "dnf_result [Some el, Some second] p"
      using andc_dnf [of "[Some el, Some second]" None x p] assms(2,3) by simp
    then show ?thesis by (cases p) (simp_all add: dnf_result_def)
  qed
  then have "dnf_operands ps" by (auto simp: dnf_operands_def)
  then have r: "dnf_result ps r" using orc_dnf [OF ps(2)] by simp
  have "ps \<noteq> []" using ps(1) assms(4) by (auto simp: map_steps_Some)
  then have "\<exists>p \<in> set ps. p \<noteq> None" using m by (metis last_in_set option.distinct(1))
  then show thesis using r that by (cases r) (auto simp: dnf_result_def)
qed

lemma distribute_loop_dnf:
  assumes "distribute_loop andc orc x expr = Some ys" "\<forall>e \<in> set expr. ck_dnf e" "sorted_types expr" "expr \<noteq> []"
  shows "ys \<noteq> [] \<and> (\<forall>y \<in> set ys. ck_dnf y) \<and> (length ys \<noteq> 1 \<longrightarrow> (\<forall>y \<in> set ys. ck_type y \<noteq> 9))"
  using assms
proof (induction "length expr" arbitrary: expr rule: less_induct)
  case less
  show ?case
  proof (cases "length expr > 1 \<and> ck_type (last expr) = 9")
    case False
    then have ys: "ys = expr" using less.prems(1) distribute_loop_stop by simp
    have "length expr \<noteq> 1 \<Longrightarrow> ck_type (last expr) \<noteq> 9"
      using False less.prems(4) by (metis One_nat_def Suc_lessI length_greater_0_conv)
    then have "length expr \<noteq> 1 \<Longrightarrow> ck_type (last expr) < 9"
      using ck_type_bound [of "last expr"] less.prems(2,4) by fastforce
    then show ?thesis using less.prems(2,4) ys sorted_types_last [OF less.prems(3)] by fastforce
  next
    case True
    then obtain popped sec els n where e: "expr = popped @ [sec, COr els n]" using distribute_loop_split by blast
    have d: "\<forall>e \<in> set els. ck_dnf e" "ck_dnf sec" "els \<noteq> []" "\<forall>e \<in> set popped. ck_dnf e"
      using less.prems(2) by (auto simp: e ck_dnf_nary)
    note st = less.prems(1) [unfolded e distribute_loop_step]
    then obtain r where r: "distribute_last andc orc x els sec (popped = []) = Some r"
      by (auto split: option.splits)
    obtain c where c: "r = Some c" "ck_dnf c" using distribute_last_dnf [OF r d(1-3)] .
    have st': "distribute_loop andc orc x (js_sort ck_cmp (popped @ [c])) = Some ys" using st r c(1) by simp
    show ?thesis
      using less.hyps [OF _ st'] d(4) c(2) sorted_types_sort by (simp add: e length_js_sort set_js_sort)
  qed
qed

lemma or_normalize_dnf:
  assumes "ContextKeyOrExpr_normalizeArr ngt es neg x = Some r" "dnf_operands es" "dnf_optional neg"
  shows "dnf_result es r"
proof (cases "or_collect es [] False")
  case None
  then show ?thesis using assms(1) by (auto simp: ContextKeyOrExpr_normalizeArr_def)
next
  case (Some p)
  obtain xs t where p: "or_collect es [] False = Some (xs, t)" using Some by (cases p) auto
  have xs: "xs = or_terms es" "t \<longleftrightarrow> Some CFalse \<in> set es" "\<forall>x \<in> set xs. dnf_term x"
    using or_collect_Some [OF p] or_terms_dnf [OF assms(2)] by simp_all
  have empty: "xs = [] \<Longrightarrow> \<not> t \<Longrightarrow> \<forall>e \<in> set es. e = None" using or_terms_empty [OF assms(2)] xs by simp
  define ys where "ys = drop_duplicates (js_sort ck_cmp xs)"
  have ys: "\<forall>y \<in> set ys. dnf_term y" "xs \<noteq> [] \<Longrightarrow> ys \<noteq> []"
    using xs(3) set_drop_duplicates [of "js_sort ck_cmp xs"] by (auto simp: ys_def set_js_sort drop_duplicates_nonempty)
  have "xs \<noteq> [] \<and> r = Some (hd xs) \<or> ys \<noteq> [] \<and> r = Some (hd ys) \<or> ys \<noteq> [] \<and> r = Some (COr ys neg) \<or>
      r = None \<and> xs = [] \<and> \<not> t \<or> r = Some CTrue \<or> r = Some CFalse"
    using assms(1) ys(2)
    by (auto simp: ContextKeyOrExpr_normalizeArr_def p Let_def simp flip: ys_def split: if_splits option.splits)
  then show ?thesis using xs(3) ys(1) assms(3) empty by (auto simp: ck_dnf_nary dnf_result_def)
qed

lemma and_normalize_dnf:
  assumes "ContextKeyAndExpr_normalizeArr andc orc ngt es neg x = Some r" "dnf_operands es" "dnf_optional neg"
  shows "dnf_result es r"
proof (cases "and_collect es [] False")
  case None
  then show ?thesis using assms(1) by (auto simp: ContextKeyAndExpr_normalizeArr_def)
next
  case (Some p)
  obtain xs t where p: "and_collect es [] False = Some (xs, t)" using Some by (cases p) auto
  have xs: "xs = and_terms es" "t \<longleftrightarrow> Some CTrue \<in> set es" "\<forall>x \<in> set xs. ck_dnf x"
    using and_collect_Some [OF p] and_terms_dnf [OF assms(2)] by simp_all
  have empty: "xs = [] \<Longrightarrow> \<not> t \<Longrightarrow> \<forall>e \<in> set es. e = None" using and_terms_empty [OF assms(2)] xs by simp
  define ys where "ys = drop_duplicates (js_sort ck_cmp xs)"
  have ys: "\<forall>y \<in> set ys. ck_dnf y" "xs \<noteq> [] \<Longrightarrow> ys \<noteq> []" "sorted_types ys"
    using xs(3) set_drop_duplicates [of "js_sort ck_cmp xs"]
    by (auto simp: ys_def set_js_sort drop_duplicates_nonempty intro: sorted_types_duplicates sorted_types_sort)
  show ?thesis
  proof (cases "length xs \<le> 1 \<or> length ys = 1")
    case True
    then have "xs \<noteq> [] \<and> r = Some (hd xs) \<or> xs \<noteq> [] \<and> r = Some (hd ys) \<or> r = None \<and> xs = [] \<and> \<not> t \<or> r = Some CTrue"
      using assms(1) le_Suc_eq [of "length xs" 0]
      by (auto simp: ContextKeyAndExpr_normalizeArr_def p Let_def simp flip: ys_def split: if_splits)
    then show ?thesis using xs(3) ys(1,2) empty by (auto simp: dnf_result_def)
  next
    case False
    then have ne: "xs \<noteq> []" "length xs \<noteq> 1" "length ys \<noteq> 1" by auto
    obtain zs where zs: "distribute_loop andc orc x ys = Some zs"
      using assms(1) ne by (auto simp: ContextKeyAndExpr_normalizeArr_def p Let_def simp flip: ys_def split: option.splits)
    note d = distribute_loop_dnf [OF zs ys(1,3) ys(2) [OF ne(1)]]
    have "r = Some (hd zs) \<or> length zs \<noteq> 1 \<and> r = Some (CAnd zs neg) \<or> r = Some CFalse"
      using assms(1) ne zs
      by (auto simp: ContextKeyAndExpr_normalizeArr_def p Let_def simp flip: ys_def split: if_splits option.splits)
    then show ?thesis using d assms(3) by (auto simp: ck_dnf_nary)
  qed
qed

lemma distribute_negated_dnf:
  assumes "distribute_negated andc orc ns = Some rs" "\<forall>n \<in> set ns. ck_dnf n"
  shows "\<forall>r \<in> set rs. ck_dnf r"
  using assms
proof (induction "length ns" arbitrary: ns rule: less_induct)
  case less
  show ?case
  proof (cases "\<exists>l m rest. ns = l # m # rest")
    case False
    then have "distribute_negated andc orc ns = Some ns"
      by (cases "(andc, orc, ns)" rule: distribute_negated.cases) auto
    then show ?thesis using less.prems by simp
  next
    case True
    then obtain l m rest where ns: "ns = l # m # rest" by blast
    let ?mk = "\<lambda>(left, right). andc [Some left, Some right] None False"
    let ?ps = "List.product (getTerminals l) (getTerminals m)"
    obtain all e where all: "map_steps ?mk ?ps = Some all" "orc all None False = Some (Some e)"
        "distribute_negated andc orc (e # rest) = Some rs"
      using less.prems(1) by (auto simp: ns defined_result_Some split: option.splits)
    have "dnf_operands all" unfolding dnf_operands_def
    proof (intro allI impI)
      fix c assume "Some c \<in> set all"
      then obtain q where "q \<in> set ?ps" "?mk q = Some (Some c)" using map_steps_members(1) [OF all(1)] by blast
      then have q: "fst q \<in> set (getTerminals l)" "snd q \<in> set (getTerminals m)"
          "andc [Some (fst q), Some (snd q)] None False = Some (Some c)"
        by auto
      have "ck_dnf l" "ck_dnf m" using less.prems(2) by (simp_all add: ns)
      then have "ck_dnf (fst q)" "ck_dnf (snd q)" using q(1,2) getTerminals_dnf by blast+
      then have "dnf_result [Some (fst q), Some (snd q)] (Some c)" using andc_dnf [OF q(3)] by simp
      then show "ck_dnf c" by simp
    qed
    then have "ck_dnf e" using orc_dnf [OF all(2)] by simp
    then have "\<forall>n \<in> set (e # rest). ck_dnf n" using less.prems(2) by (simp add: ns)
    moreover have "length (e # rest) < length ns" by (simp add: ns)
    ultimately show ?thesis using less.hyps all(3) by blast
  qed
qed

lemma negate_dnf:
  assumes "negate_expr env andc orc ngt e = Some n" "ck_dnf e"
  shows "ck_dnf n"
proof (cases "leaf_negate env e")
  case (Some m)
  then have "n = m" using assms(1) by (cases e) (simp_all add: negate_expr_def)
  then show ?thesis using leaf_negate_dnf(1) [OF Some assms(2)] by simp
next
  case leaf: None
  show ?thesis
  proof (cases e)
    case (CAnd xs neg)
    show ?thesis
    proof (cases neg)
      case (Some m)
      then show ?thesis using assms by (simp add: CAnd negate_expr_def ContextKeyAndExpr_negate_def ck_dnf_nary)
    next
      case None
      obtain ns where ns: "map_steps ngt xs = Some ns" "orc (map Some ns) (Some e) True = Some (Some n)"
        using assms None
        by (auto simp: CAnd negate_expr_def ContextKeyAndExpr_negate_def defined_result_Some split: option.splits)
      have "\<forall>n \<in> set ns. ck_dnf n" using map_steps_members(1) [OF ns(1)] ngt_dnf assms(2)
        by (metis CAnd ck_dnf_nary(1))
      then show ?thesis using orc_dnf [OF ns(2)] assms(2) by simp
    qed
  next
    case (COr xs neg)
    show ?thesis
    proof (cases neg)
      case (Some m)
      then show ?thesis using assms by (simp add: COr negate_expr_def ContextKeyOrExpr_negate_def ck_dnf_nary)
    next
      case None
      obtain ns rs where ns: "map_steps ngt xs = Some ns" "distribute_negated andc orc ns = Some rs"
          "orc (map Some rs) (Some e) True = Some (Some n)"
        using assms None
        by (auto simp: COr negate_expr_def ContextKeyOrExpr_negate_def defined_result_Some split: option.splits)
      have "\<forall>n \<in> set ns. ck_dnf n" using map_steps_members(1) [OF ns(1)] ngt_dnf assms(2)
        by (metis COr ck_dnf_nary(2))
      then show ?thesis using orc_dnf [OF ns(3)] distribute_negated_dnf [OF ns(2)] assms(2) by simp
    qed
  qed (use leaf in simp_all)
qed

end

lemma dnf_fuel: "ck_dnf_normalizer (and_create env n) (or_create env n) (ck_negate env n)"
proof (induction n)
  case 0
  show ?case by unfold_locales simp_all
next
  case (Suc n)
  show ?case
  proof (unfold_locales, goal_cases)
    case (1 es neg x r)
    then show ?case using ck_dnf_normalizer.and_normalize_dnf [OF Suc] by (simp only: and_create.simps(2))
  next
    case (2 es neg x r)
    then show ?case using ck_dnf_normalizer.or_normalize_dnf [OF Suc] by (simp only: or_create.simps(2))
  next
    case (3 e m)
    then show ?case using ck_dnf_normalizer.negate_dnf [OF Suc] by (simp only: ck_negate.simps(2))
  qed
qed

interpretation dnf: ck_dnf_normalizer "and_create env n" "or_create env n" "ck_negate env n" for env n
  by (rule dnf_fuel)

end
