(* ===== verification/ContextKeyTotal.thy ===== *)
theory ContextKeyTotal
  imports ContextKeyDnf
begin

text \<open>
  The operations return on disjunctions of conjunctions, for enough fuel.

  The negation of a conjunction is a disjunction whose operands are operators without operands, or
  were parts of the conjunction; so negating the operands of a negation goes down.  The distribution
  loop of a conjunction works on a list that gets shorter; the products it builds hold one
  disjunction less.
\<close>

definition negate_returns :: "ck_env \<Rightarrow> ck_expr \<Rightarrow> bool" where
  "negate_returns env e \<longleftrightarrow> (\<exists>n c. ck_negate env n e = Some c)"

definition and_returns :: "ck_env \<Rightarrow> ck_expr option list \<Rightarrow> ck_expr option \<Rightarrow> bool \<Rightarrow> bool" where
  "and_returns env es neg x \<longleftrightarrow> (\<exists>n r. and_create env n es neg x = Some r)"

definition or_returns :: "ck_env \<Rightarrow> ck_expr option list \<Rightarrow> ck_expr option \<Rightarrow> bool \<Rightarrow> bool" where
  "or_returns env es neg x \<longleftrightarrow> (\<exists>n r. or_create env n es neg x = Some r)"

section \<open>Lists of calls\<close>

lemma map_steps_returns:
  assumes "\<forall>x \<in> set xs. \<exists>n y. f n x = Some y" "\<And>n m x y. (n :: nat) \<le> m \<Longrightarrow> f n x = Some y \<Longrightarrow> f m x = Some y"
  shows "\<exists>n ys. map_steps (f n) xs = Some ys"
  using assms(1)
proof (induction xs)
  case (Cons x xs)
  then obtain n ys m y where h: "map_steps (f n) xs = Some ys" "f m x = Some y" by auto
  have "map_steps (f (max n m)) xs = Some ys"
    by (rule map_steps_mono [OF h(1)], erule assms(2) [rotated]) simp
  moreover have "f (max n m) x = Some y" using assms(2) [OF _ h(2)] by simp
  ultimately have "map_steps (f (max n m)) (x # xs) = Some (y # ys)" by simp
  then show ?case by blast
qed auto

lemma complement_returns:
  assumes "\<forall>x \<in> set xs. negate_returns env x"
  shows "\<exists>n b. has_complement (ck_negate env n) xs = Some b"
  using assms
proof (induction xs rule: induct_list012)
  case (3 x y r)
  then obtain n b where b: "has_complement (ck_negate env n) (y # r) = Some b" by auto
  obtain m c where c: "ck_negate env m x = Some c" using "3.prems" by (auto simp: negate_returns_def)
  have "has_complement (ck_negate env (max n m)) (y # r) = Some b"
    by (rule ck_more.more_complement [OF more_fuel_locale b]) simp
  moreover have "ck_negate env (max n m) x = Some c" using more_fuel(3) [OF _ c] by simp
  ultimately have "has_complement (ck_negate env (max n m)) (x # y # r) =
      Some (if list_ex (ck_equals c) (y # r) then True else b)"
    by simp
  then show ?case by blast
qed auto

section \<open>Disjunctions\<close>

lemma or_create_returns:
  assumes "\<forall>t \<in> set (or_terms es). negate_returns env t"
  shows "or_returns env es neg x"
proof -
  define ys where "ys = drop_duplicates (js_sort ck_cmp (or_terms es))"
  have "\<forall>y \<in> set ys. negate_returns env y"
    using assms set_drop_duplicates [of "js_sort ck_cmp (or_terms es)"] by (auto simp: ys_def set_js_sort)
  then obtain n b where b: "has_complement (ck_negate env n) ys = Some b" using complement_returns by blast
  have "\<exists>r. or_create env (Suc n) es neg x = Some r"
  proof (cases "or_collect es [] False")
    case None
    then show ?thesis by (simp add: ContextKeyOrExpr_normalizeArr_def)
  next
    case (Some p)
    then obtain t where "or_collect es [] False = Some (or_terms es, t)"
      using or_collect_Some by (cases p) fastforce
    then show ?thesis by (simp add: ContextKeyOrExpr_normalizeArr_def Let_def b flip: ys_def)
  qed
  then show ?thesis unfolding or_returns_def by blast
qed

text \<open>The operands of what \<open>create\<close> returns are among the operands it was given.\<close>

lemma or_create_operands:
  assumes "or_create env n es neg x = Some (Some c)" "dnf_operands es"
  shows "\<forall>t \<in> set (or_operands c). t \<in> set (or_terms es) \<or> ck_type t < 2"
proof (cases n)
  case (Suc m)
  have h: "ContextKeyOrExpr_normalizeArr (ck_negate env m) es neg x = Some (Some c)" using assms(1) Suc by simp
  show ?thesis
  proof (cases "or_collect es [] False")
    case None
    then show ?thesis using h by (auto simp: ContextKeyOrExpr_normalizeArr_def or_operands_def)
  next
    case (Some p)
    then obtain t where p: "or_collect es [] False = Some (or_terms es, t)"
      using or_collect_Some by (cases p) fastforce
    define ys where "ys = drop_duplicates (js_sort ck_cmp (or_terms es))"
    have ys: "set ys \<subseteq> set (or_terms es)" "or_terms es \<noteq> [] \<Longrightarrow> ys \<noteq> []"
      using set_drop_duplicates [of "js_sort ck_cmp (or_terms es)"]
      by (auto simp: ys_def set_js_sort drop_duplicates_nonempty)
    have "or_terms es \<noteq> [] \<and> c \<in> set (or_terms es) \<or> c = COr ys neg \<or> c = CTrue \<or> c = CFalse"
      using h ys subsetD [OF ys(1), of "hd ys"]
      by (auto simp: ContextKeyOrExpr_normalizeArr_def p Let_def simp flip: ys_def split: if_splits option.splits)
    moreover have "or_operands c = [c]" if "c \<in> set (or_terms es)"
      using or_terms_dnf [OF assms(2)] that by (cases c) (auto simp: or_operands_def)
    ultimately show ?thesis using ys(1) by (auto simp: or_operands_def)
  qed
qed (use assms in simp)

section \<open>Negation of a conjunction\<close>

lemma negate_cases:
  assumes "dnf_term e"
  obtains (leaf) n where "leaf_negate env e = Some n"
  | (cached) xs m where "e = CAnd xs (Some m)"
  | (operands) xs where "e = CAnd xs None"
proof (cases "leaf_negate env e")
  case None
  then obtain xs n where "e = CAnd xs n" using assms by (cases e) auto
  then show thesis using that(2,3) by (cases n) auto
qed (rule that(1))

lemma negate_And_None:
  "ck_negate env (Suc k) (CAnd xs None) = Some c \<longleftrightarrow>
   (\<exists>ns. map_steps (ck_negate env k) xs = Some ns \<and> or_create env k (map Some ns) (Some (CAnd xs None)) True = Some (Some c))"
  by (auto simp: negate_expr_def ContextKeyAndExpr_negate_def defined_result_Some split: option.splits)

lemma size_operand: "x \<in> set xs \<Longrightarrow> size x < size (CAnd xs n)"
  by (rule size_ck_args) simp

lemma size_or_operands: "x \<in> set (or_operands m) \<Longrightarrow> size x \<le> size m"
  using size_ck_args [of x m] by (cases m) (auto simp: or_operands_def)

text \<open>What the operands of a negation can be.\<close>

lemma negate_operands:
  "ck_negate env n e = Some c \<Longrightarrow> dnf_term e \<Longrightarrow>
   \<forall>t \<in> set (or_operands c). ck_type t \<noteq> 6 \<or> size t < size e"
proof (induction n arbitrary: e c)
  case (Suc k)
  from Suc.prems(2) show ?case
  proof (cases rule: negate_cases [of e env])
    case (leaf m)
    then have "c = m" using Suc.prems(1) by (cases e) (simp_all add: negate_expr_def)
    then show ?thesis using leaf_negate_dnf [OF leaf] Suc.prems(2) by (cases c) (auto simp: or_operands_def)
  next
    case (cached xs m)
    then have "c = m" using Suc.prems(1) by (simp add: negate_expr_def ContextKeyAndExpr_negate_def)
    then show ?thesis using size_or_operands [of _ m] by (fastforce simp: cached)
  next
    case (operands xs)
    obtain ns where ns: "map_steps (ck_negate env k) xs = Some ns"
        "or_create env k (map Some ns) (Some e) True = Some (Some c)"
      using Suc.prems(1) negate_And_None [of env k xs c] by (auto simp: operands)
    have xs: "\<forall>x \<in> set xs. dnf_term x" using Suc.prems(2) by (simp add: operands ck_dnf_nary)
    have m: "\<exists>x \<in> set xs. ck_negate env k x = Some m" if "m \<in> set ns" for m
      by (rule map_steps_members(1) [OF ns(1) that])
    have dn: "\<forall>m \<in> set ns. ck_dnf m" using m dnf.ngt_dnf xs by blast
    show ?thesis
    proof
      fix t assume "t \<in> set (or_operands c)"
      then consider "t \<in> set (or_terms (map Some ns))" | "ck_type t < 2"
        using or_create_operands [OF ns(2)] dn by auto
      then show "ck_type t \<noteq> 6 \<or> size t < size e"
      proof cases
        case 1
        then obtain m where mt: "m \<in> set ns" "t \<in> set (or_operands m)"
          by (induction ns) (auto split: if_splits)
        then obtain x where x: "x \<in> set xs" "ck_negate env k x = Some m" using m by blast
        then have "ck_type t \<noteq> 6 \<or> size t < size x" using Suc.IH [OF x(2)] xs mt(2) by blast
        then show ?thesis using size_operand [OF x(1), of None] by (auto simp: operands)
      qed simp
    qed
  qed
qed simp

lemma negate_term_returns: "dnf_term e \<Longrightarrow> negate_returns env e"
proof (induction "size e" arbitrary: e rule: less_induct)
  case less
  from less.prems show ?case
  proof (cases rule: negate_cases [of e env])
    case (leaf m)
    then have "ck_negate env 1 e = Some m" by (cases e) (simp_all add: negate_expr_def)
    then show ?thesis unfolding negate_returns_def by blast
  next
    case (cached xs m)
    then have "ck_negate env 1 e = Some m" by (simp add: negate_expr_def ContextKeyAndExpr_negate_def)
    then show ?thesis unfolding negate_returns_def by blast
  next
    case (operands xs)
    have xs: "\<forall>x \<in> set xs. dnf_term x" "xs \<noteq> []" using less.prems by (simp_all add: operands ck_dnf_nary)
    have "\<forall>x \<in> set xs. \<exists>n c. ck_negate env n x = Some c"
      using less.hyps xs(1) size_operand [of _ xs None] unfolding negate_returns_def operands by blast
    then obtain k ns where ns: "map_steps (ck_negate env k) xs = Some ns"
      using map_steps_returns [of xs "ck_negate env"] more_fuel(3) by blast
    have m: "\<exists>x \<in> set xs. ck_negate env k x = Some m" if "m \<in> set ns" for m
      by (rule map_steps_members(1) [OF ns that])
    have dn: "\<forall>m \<in> set ns. ck_dnf m" using m dnf.ngt_dnf xs by blast
    have "\<forall>t \<in> set (or_terms (map Some ns)). negate_returns env t"
    proof
      fix t assume t: "t \<in> set (or_terms (map Some ns))"
      have dt: "dnf_term t" using or_terms_dnf [of "map Some ns"] dn t by simp
      obtain m where mt: "m \<in> set ns" "t \<in> set (or_operands m)"
        using t by (induction ns) (auto split: if_splits)
      then obtain x where x: "x \<in> set xs" "ck_negate env k x = Some m" using m by blast
      then have "ck_type t \<noteq> 6 \<or> size t < size x" using negate_operands [OF x(2)] xs(1) mt(2) by blast
      then show "negate_returns env t"
      proof
        assume "ck_type t \<noteq> 6"
        then obtain c where "leaf_negate env t = Some c" using dt by (cases t) auto
        then have "ck_negate env 1 t = Some c" by (cases t) (simp_all add: negate_expr_def)
        then show ?thesis unfolding negate_returns_def by blast
      next
        assume "size t < size x"
        then show ?thesis using less.hyps dt size_operand [OF x(1), of None] by (auto simp: operands)
      qed
    qed
    then obtain j r where r: "or_create env j (map Some ns) (Some e) True = Some r"
      using or_create_returns unfolding or_returns_def by blast
    have "ns \<noteq> []" using ns xs(2) by (auto simp: map_steps_Some)
    then obtain c where c: "r = Some c"
      using dnf.orc_dnf [OF r] dn less.prems by (cases r) (auto simp: dnf_result_def)
    have "map_steps (ck_negate env (max j k)) xs = Some ns"
      by (rule map_steps_mono [OF ns], erule more_fuel(3) [rotated]) simp
    moreover have "or_create env (max j k) (map Some ns) (Some e) True = Some (Some c)"
      using more_fuel(2) [OF _ r] c by simp
    ultimately have "ck_negate env (Suc (max j k)) e = Some c"
      unfolding operands negate_And_None by blast
    then show ?thesis unfolding negate_returns_def by blast
  qed
qed

lemma or_dnf_returns: "dnf_operands es \<Longrightarrow> or_returns env es neg x"
  by (rule or_create_returns) (use or_terms_dnf negate_term_returns in blast)

section \<open>Conjunctions\<close>

lemma sorted_terms:
  assumes "dnf_operands es"
  defines "ys \<equiv> drop_duplicates (js_sort ck_cmp (and_terms es))"
  shows "\<forall>y \<in> set ys. ck_dnf y" "sorted_types ys" "and_terms es \<noteq> [] \<Longrightarrow> ys \<noteq> []" "set ys \<subseteq> set (and_terms es)"
  using and_terms_dnf [OF assms(1)] set_drop_duplicates [of "js_sort ck_cmp (and_terms es)"]
  by (auto simp: ys_def set_js_sort drop_duplicates_nonempty intro: sorted_types_duplicates sorted_types_sort)

lemma and_create_returns:
  assumes "dnf_operands es"
    and "distribute_loop (and_create env n) (or_create env n) x (drop_duplicates (js_sort ck_cmp (and_terms es))) = Some zs"
  shows "and_returns env es neg x"
proof (cases "and_collect es [] False")
  case None
  then have "and_create env (Suc 0) es neg x = Some (Some CFalse)" by (simp add: ContextKeyAndExpr_normalizeArr_def)
  then show ?thesis unfolding and_returns_def by blast
next
  case (Some p)
  then obtain t where p: "and_collect es [] False = Some (and_terms es, t)"
    using and_collect_Some by (cases p) fastforce
  define ys where "ys = drop_duplicates (js_sort ck_cmp (and_terms es))"
  note ys = sorted_terms [OF assms(1), folded ys_def]
  show ?thesis
  proof (cases "length (and_terms es) \<le> 1 \<or> length ys = 1")
    case True
    then have "\<exists>r. and_create env (Suc 0) es neg x = Some r"
      using le_Suc_eq [of "length (and_terms es)" 0]
      by (auto simp: ContextKeyAndExpr_normalizeArr_def p Let_def simp flip: ys_def)
    then show ?thesis unfolding and_returns_def by blast
  next
    case False
    then have ne: "and_terms es \<noteq> []" by auto
    have d: "length zs \<noteq> 1 \<longrightarrow> (\<forall>z \<in> set zs. dnf_term z)"
      using dnf.distribute_loop_dnf [OF assms(2) [folded ys_def] ys(1,2) ys(3) [OF ne]] by blast
    obtain m b where b: "length zs \<noteq> 1 \<Longrightarrow> has_complement (ck_negate env m) zs = Some b"
      using complement_returns [of zs env] d negate_term_returns by (cases "length zs = 1") blast+
    have "length zs \<noteq> 1 \<Longrightarrow> has_complement (ck_negate env (max n m)) zs = Some b"
      using ck_more.more_complement [OF more_fuel_locale b, of "max n m"] by simp
    moreover have "distribute_loop (and_create env (max n m)) (or_create env (max n m)) x ys = Some zs"
      by (rule ck_more.more_loop [OF more_fuel_locale assms(2) [folded ys_def]]) simp
    ultimately have "\<exists>r. and_create env (Suc (max n m)) es neg x = Some r"
      using False ne by (auto simp: ContextKeyAndExpr_normalizeArr_def p Let_def simp flip: ys_def)
    then show ?thesis unfolding and_returns_def by blast
  qed
qed

text \<open>Without a disjunction among the operands there is nothing to distribute.\<close>

lemma and_terms_return:
  assumes "dnf_operands es" "\<forall>t \<in> set (and_terms es). ck_type t \<noteq> 9"
  shows "and_returns env es neg x"
proof (rule and_create_returns [OF assms(1)])
  let ?ys = "drop_duplicates (js_sort ck_cmp (and_terms es))"
  have "?ys \<noteq> [] \<Longrightarrow> ck_type (last ?ys) \<noteq> 9"
    using assms(2) sorted_terms(4) [OF assms(1)] last_in_set by blast
  then show "distribute_loop (and_create env 0) (or_create env 0) x ?ys = Some ?ys"
    using distribute_loop_stop [of ?ys] by fastforce
qed

lemma distribute_last_returns:
  assumes "\<forall>el \<in> set els. ck_dnf el \<and> and_returns env [Some el, Some second] None x" "ck_dnf second"
  shows "\<exists>n r. distribute_last (and_create env n) (or_create env n) x els second fin = Some r"
proof -
  let ?mk = "\<lambda>n el. and_create env n [Some el, Some second] None x"
  obtain n ps where ps: "map_steps (?mk n) els = Some ps"
    using map_steps_returns [of els ?mk] assms(1) more_fuel(1) unfolding and_returns_def by blast
  have "ck_dnf c" if c: "Some c \<in> set ps" for c
  proof -
    obtain el where el: "el \<in> set els" "?mk n el = Some (Some c)" using map_steps_members(1) [OF ps c] by blast
    then show ?thesis using dnf.andc_dnf [OF el(2)] assms by simp
  qed
  then obtain m r where r: "or_create env m ps None fin = Some r"
    using or_dnf_returns [of ps] unfolding dnf_operands_def or_returns_def by blast
  have "map_steps (?mk (max n m)) els = Some ps"
    by (rule map_steps_mono [OF ps], erule more_fuel(1) [rotated]) simp
  moreover have "or_create env (max n m) ps None fin = Some r" using more_fuel(2) [OF _ r] by simp
  ultimately show ?thesis unfolding distribute_last_def by (metis option.case(2))
qed

text \<open>The loop returns if the products it needs do; \<open>Q\<close> holds for what can be popped second.\<close>

lemma distribute_loop_returns:
  assumes Q: "\<And>s el. Q s \<Longrightarrow> dnf_term el \<Longrightarrow> and_returns env [Some el, Some s] None x"
    and Q_sort: "\<And>p c. \<forall>e \<in> set p. Q e \<and> ck_dnf e \<Longrightarrow> ck_dnf c \<Longrightarrow> \<forall>e \<in> set (butlast (js_sort ck_cmp (p @ [c]))). Q e"
    and "\<forall>e \<in> set expr. ck_dnf e" "\<forall>e \<in> set (butlast expr). Q e"
  shows "\<exists>n ys. distribute_loop (and_create env n) (or_create env n) x expr = Some ys"
  using assms(3,4)
proof (induction "length expr" arbitrary: expr rule: less_induct)
  case less
  show ?case
  proof (cases "length expr > 1 \<and> ck_type (last expr) = 9")
    case False
    then show ?thesis using distribute_loop_stop by blast
  next
    case True
    then obtain popped sec els k where e: "expr = popped @ [sec, COr els k]" using distribute_loop_split by blast
    have d: "\<forall>e \<in> set els. dnf_term e" "ck_dnf sec" "els \<noteq> []" "\<forall>e \<in> set popped. ck_dnf e"
      using less.prems(1) by (auto simp: e ck_dnf_nary)
    have q: "Q sec" "\<forall>e \<in> set popped. Q e" using less.prems(2) by (auto simp: e butlast_append)
    have "\<forall>el \<in> set els. ck_dnf el \<and> and_returns env [Some el, Some sec] None x" using d(1) Q [OF q(1)] by blast
    then obtain n r where r: "distribute_last (and_create env n) (or_create env n) x els sec (popped = []) = Some r"
      using distribute_last_returns d(2) by blast
    obtain c where c: "r = Some c" "ck_dnf c" using dnf.distribute_last_dnf [OF r _ d(2,3)] d(1) by blast
    let ?next = "js_sort ck_cmp (popped @ [c])"
    have "\<exists>m ys. distribute_loop (and_create env m) (or_create env m) x ?next = Some ys"
    proof (rule less.hyps)
      show "length ?next < length expr" by (simp add: e length_js_sort)
      show "\<forall>e \<in> set ?next. ck_dnf e" using d(4) c(2) by (simp add: set_js_sort)
      show "\<forall>e \<in> set (butlast ?next). Q e" using Q_sort q(2) d(4) c(2) by blast
    qed
    then obtain m ys where ys: "distribute_loop (and_create env m) (or_create env m) x ?next = Some ys" by blast
    have "distribute_loop (and_create env (max n m)) (or_create env (max n m)) x ?next = Some ys"
      by (rule ck_more.more_loop [OF more_fuel_locale ys]) simp
    moreover have "distribute_last (and_create env (max n m)) (or_create env (max n m)) x els sec (popped = []) = Some r"
      by (rule ck_more.more_last [OF more_fuel_locale r]) simp
    ultimately have "distribute_loop (and_create env (max n m)) (or_create env (max n m)) x expr = Some ys"
      by (simp add: e distribute_loop_step c(1))
    then show ?thesis by blast
  qed
qed

lemma and_pair_terms: "dnf_term a \<Longrightarrow> dnf_term b \<Longrightarrow> and_returns env [Some a, Some b] neg x"
proof (rule and_terms_return)
  assume "dnf_term a" "dnf_term b"
  then have "\<forall>t \<in> set (and_terms [Some a, Some b]). dnf_term t" by (intro and_terms_term) auto
  then show "\<forall>t \<in> set (and_terms [Some a, Some b]). ck_type t \<noteq> 9" by blast
qed simp

lemma js_insert_last: "\<forall>e \<in> set xs. \<not> ck_cmp x e < 0 \<Longrightarrow> js_insert ck_cmp x xs = xs @ [x]"
  by (induction xs) auto

lemma butlast_drop_duplicates: "set (butlast (drop_duplicates (xs @ [b]))) \<subseteq> set xs"
proof (induction "xs @ [b]" arbitrary: xs rule: drop_duplicates.induct)
  case (1 a c r)
  then show ?case
  proof (cases xs)
    case Nil
    then show ?thesis using 1 by simp
  next
    case (Cons a' ys)
    then have cr: "c # r = ys @ [b]" "a' = a" using "1.hyps"(3) by auto
    show ?thesis
    proof (cases "ck_equals a c")
      case True
      show ?thesis
      proof (cases ys)
        case Nil
        then show ?thesis using cr True Cons by simp
      next
        case (Cons c' zs)
        then have "a # r = (a # zs) @ [b]" using cr by simp
        from "1.hyps"(1) [OF True this] show ?thesis
          using True cr Cons \<open>xs = a' # ys\<close> by auto
      qed
    next
      case False
      have "drop_duplicates (xs @ [b]) = a # drop_duplicates (ys @ [b])"
        using drop_duplicates.simps(1) [of a c r] False unfolding "1.hyps"(3) cr(1) by (simp add: Cons cr(2))
      then show ?thesis using "1.hyps"(2) [OF False cr(1)] Cons cr(2) by (auto split: if_splits)
    qed
  qed
qed auto

text \<open>A term and a disjunction.\<close>

lemma and_pair_returns:
  assumes "dnf_term a" "ck_dnf b"
  shows "and_returns env [Some a, Some b] neg x"
proof (cases "ck_type b = 9")
  case False
  then show ?thesis using and_pair_terms assms by blast
next
  case True
  have ok: "dnf_operands [Some a, Some b]" using assms by simp
  let ?ts = "and_terms [Some a, Some b]"
  let ?ys = "drop_duplicates (js_sort ck_cmp ?ts)"
  have b: "and_operands b = [b]" "b \<noteq> CTrue" using True by (cases b; simp add: and_operands_def)+
  then have ts: "?ts = (if a = CTrue then [] else and_operands a) @ [b]" by simp
  have terms: "\<forall>t \<in> set (if a = CTrue then [] else and_operands a). dnf_term t"
    using and_operands_dnf(2) [OF assms(1)] by simp
  let ?p = "if a = CTrue then [] else and_operands a"
  have last: "js_sort ck_cmp (p @ [c]) = js_sort ck_cmp p @ [c]"
    if "\<forall>e \<in> set p. dnf_term e" "ck_type c = 9" for p c
  proof -
    have "\<not> ck_cmp c e < 0" if "e \<in> set (js_sort ck_cmp p)" for e
    proof -
      have "ck_dnf e" "ck_type e \<noteq> 9" using that \<open>\<forall>e \<in> set p. dnf_term e\<close> by (auto simp: set_js_sort)
      then show ?thesis using ck_type_bound [of e] ck_cmp_types [of c e] \<open>ck_type c = 9\<close> by simp
    qed
    then show ?thesis by (simp add: js_sort_snoc js_insert_last)
  qed
  have "\<exists>n zs. distribute_loop (and_create env n) (or_create env n) x ?ys = Some zs"
  proof (rule distribute_loop_returns [where Q = dnf_term])
    show "and_returns env [Some el, Some s] None x" if "dnf_term s" "dnf_term el" for s el
      using and_pair_terms that by blast
    show "\<forall>e \<in> set (butlast (js_sort ck_cmp (p @ [c]))). dnf_term e"
      if "\<forall>e \<in> set p. dnf_term e \<and> ck_dnf e" "ck_dnf c" for p c
    proof (cases "ck_type c = 9")
      case True
      then have "butlast (js_sort ck_cmp (p @ [c])) = js_sort ck_cmp p" using last [of p c] that(1) by simp
      then show ?thesis using that(1) by (simp add: set_js_sort)
    next
      case False
      then show ?thesis using that in_set_butlastD [of _ "js_sort ck_cmp (p @ [c])"] by (auto simp: set_js_sort)
    qed
    show "\<forall>e \<in> set ?ys. ck_dnf e" by (rule sorted_terms(1) [OF ok])
    show "\<forall>e \<in> set (butlast ?ys). dnf_term e"
    proof
      fix e assume e: "e \<in> set (butlast ?ys)"
      show "dnf_term e"
      proof (rule ccontr)
        assume "\<not> dnf_term e"
        then have "e = b" using e in_set_butlastD [OF e] sorted_terms(4) [OF ok] terms unfolding ts by auto
        have split: "js_sort ck_cmp ?ts = js_sort ck_cmp ?p @ [b]" unfolding ts by (rule last [OF terms True])
        have "e \<in> set (butlast (drop_duplicates (js_sort ck_cmp ?p @ [b])))" using e split by simp
        then have "e \<in> set (js_sort ck_cmp ?p)" using butlast_drop_duplicates by blast
        then show False using terms \<open>\<not> dnf_term e\<close> by (simp add: set_js_sort)
      qed
    qed
  qed
  then show ?thesis using and_create_returns [OF ok] by blast
qed

lemma and_dnf_returns:
  assumes "dnf_operands es"
  shows "and_returns env es neg x"
proof -
  have "\<exists>n zs. distribute_loop (and_create env n) (or_create env n) x
      (drop_duplicates (js_sort ck_cmp (and_terms es))) = Some zs"
  proof (rule distribute_loop_returns [where Q = ck_dnf])
    show "and_returns env [Some el, Some s] None x" if "ck_dnf s" "dnf_term el" for s el
      using and_pair_returns that by blast
    show "\<forall>e \<in> set (butlast (js_sort ck_cmp (p @ [c]))). ck_dnf e"
      if "\<forall>e \<in> set p. ck_dnf e \<and> ck_dnf e" "ck_dnf c" for p c
      using that in_set_butlastD [of _ "js_sort ck_cmp (p @ [c])"] by (auto simp: set_js_sort)
    show "\<forall>e \<in> set (drop_duplicates (js_sort ck_cmp (and_terms es))). ck_dnf e"
      "\<forall>e \<in> set (butlast (drop_duplicates (js_sort ck_cmp (and_terms es)))). ck_dnf e"
      using sorted_terms(1) [OF assms] in_set_butlastD by fast+
  qed
  then show ?thesis using and_create_returns [OF assms] by blast
qed

section \<open>Negation of a disjunction\<close>

lemma getTerminals_nonempty: "ck_dnf e \<Longrightarrow> getTerminals e \<noteq> []"
  by (cases e) (auto simp: ck_dnf_nary)

lemma distribute_negated_returns:
  assumes "\<forall>m \<in> set ns. ck_dnf m"
  shows "\<exists>n rs. distribute_negated (and_create env n) (or_create env n) ns = Some rs"
  using assms
proof (induction "length ns" arbitrary: ns rule: less_induct)
  case less
  show ?case
  proof (cases "\<exists>l m rest. ns = l # m # rest")
    case False
    then have "distribute_negated (and_create env 0) (or_create env 0) ns = Some ns"
      by (cases "(and_create env 0, or_create env 0, ns)" rule: distribute_negated.cases) auto
    then show ?thesis by blast
  next
    case True
    then obtain l m rest where ns: "ns = l # m # rest" by blast
    let ?mk = "\<lambda>n (left, right). and_create env n [Some left, Some right] None False"
    let ?ps = "List.product (getTerminals l) (getTerminals m)"
    have lm: "ck_dnf l" "ck_dnf m" using less.prems by (simp_all add: ns)
    note t = getTerminals_dnf [OF lm(1)] getTerminals_dnf [OF lm(2)]
    have "\<forall>q \<in> set ?ps. \<exists>n r. ?mk n q = Some r"
      using and_pair_terms t unfolding and_returns_def by auto
    moreover have mono: "?mk j q = Some y \<Longrightarrow> ?mk k q = Some y" if "j \<le> k" for j k q y
      using more_fuel(1) [OF that] by (simp add: case_prod_beta)
    ultimately obtain n all where all: "map_steps (?mk n) ?ps = Some all"
      using map_steps_returns [of ?ps ?mk] by blast
    have ok: "\<exists>c. p = Some c \<and> ck_dnf c" if p: "p \<in> set all" for p
    proof -
      obtain q where q: "q \<in> set ?ps" "?mk n q = Some p" using map_steps_members(1) [OF all p] by blast
      then have f: "fst q \<in> set (getTerminals l)" "snd q \<in> set (getTerminals m)"
          "and_create env n [Some (fst q), Some (snd q)] None False = Some p"
        by auto
      then have "dnf_result [Some (fst q), Some (snd q)] p" using dnf.andc_dnf [OF f(3)] t by simp
      then show ?thesis by (cases p) (simp_all add: dnf_result_def)
    qed
    then have oks: "dnf_operands all" by (auto simp: dnf_operands_def)
    then obtain k r where r: "or_create env k all None False = Some r"
      using or_dnf_returns [OF oks] unfolding or_returns_def by blast
    have "getTerminals l \<noteq> []" "getTerminals m \<noteq> []"
      using lm by (simp_all add: getTerminals_nonempty)
    then have "?ps \<noteq> []" by (metis length_0_conv length_product mult_is_0)
    moreover have "length all = length ?ps" using all by (simp only: map_steps_Some list_all2_lengthD)
    ultimately have "all \<noteq> []" by (metis length_0_conv)
    then have "\<exists>p \<in> set all. p \<noteq> None" using ok by (metis last_in_set option.distinct(1))
    then obtain c where c: "r = Some c" "ck_dnf c"
      using dnf.orc_dnf [OF r oks] by (cases r) (auto simp: dnf_result_def)
    have "\<exists>n rs. distribute_negated (and_create env n) (or_create env n) (c # rest) = Some rs"
      by (rule less.hyps) (use less.prems c in \<open>simp_all add: ns\<close>)
    then obtain j rs where rs: "distribute_negated (and_create env j) (or_create env j) (c # rest) = Some rs" by blast
    let ?n = "max n (max k j)"
    have "map_steps (?mk ?n) ?ps = Some all"
      by (rule map_steps_mono [OF all], erule mono [rotated]) simp
    moreover have "or_create env ?n all None False = Some (Some c)" using more_fuel(2) [OF _ r] c by simp
    moreover have "distribute_negated (and_create env ?n) (or_create env ?n) (c # rest) = Some rs"
      by (rule ck_more.more_negated [OF more_fuel_locale rs]) simp
    ultimately have "distribute_negated (and_create env ?n) (or_create env ?n) ns = Some rs"
      by (simp add: ns defined_result_def)
    then show ?thesis by blast
  qed
qed

lemma distribute_negated_nonempty: "distribute_negated andc orc ns = Some rs \<Longrightarrow> ns \<noteq> [] \<Longrightarrow> rs \<noteq> []"
proof (induction "length ns" arbitrary: ns rule: less_induct)
  case less
  show ?case
  proof (cases "\<exists>l m rest. ns = l # m # rest")
    case False
    then have "distribute_negated andc orc ns = Some ns"
      by (cases "(andc, orc, ns)" rule: distribute_negated.cases) auto
    then show ?thesis using less.prems by simp
  next
    case True
    then obtain l m rest where ns: "ns = l # m # rest" by blast
    then obtain c where "distribute_negated andc orc (c # rest) = Some rs"
      using less.prems(1) by (auto split: option.splits)
    then show ?thesis using less.hyps [of "c # rest"] by (simp add: ns)
  qed
qed

lemma negate_dnf_returns:
  assumes "ck_dnf e"
  shows "negate_returns env e"
proof (cases "ck_type e = 9")
  case False
  then show ?thesis using negate_term_returns assms by blast
next
  case True
  then obtain xs neg where e: "e = COr xs neg" using type_Or by blast
  show ?thesis
  proof (cases neg)
    case (Some m)
    then have "ck_negate env 1 e = Some m" by (simp add: e negate_expr_def ContextKeyOrExpr_negate_def)
    then show ?thesis unfolding negate_returns_def by blast
  next
    case None
    have xs: "\<forall>x \<in> set xs. dnf_term x" "xs \<noteq> []" using assms by (simp_all add: e ck_dnf_nary)
    have "\<forall>x \<in> set xs. \<exists>n c. ck_negate env n x = Some c"
      using negate_term_returns xs(1) unfolding negate_returns_def by blast
    then obtain k ns where ns: "map_steps (ck_negate env k) xs = Some ns"
      using map_steps_returns [of xs "ck_negate env"] more_fuel(3) by blast
    have dn: "\<forall>m \<in> set ns. ck_dnf m"
      using map_steps_members(1) [OF ns] dnf.ngt_dnf xs(1) by metis
    then obtain n rs where rs: "distribute_negated (and_create env n) (or_create env n) ns = Some rs"
      using distribute_negated_returns by blast
    have drs: "\<forall>m \<in> set rs. ck_dnf m" by (rule dnf.distribute_negated_dnf [OF rs dn])
    then have ok: "dnf_operands (map Some rs)" by simp
    then obtain j r where r: "or_create env j (map Some rs) (Some e) True = Some r"
      using or_dnf_returns unfolding or_returns_def by blast
    have "ns \<noteq> []" using ns xs(2) by (auto simp: map_steps_Some)
    then have "rs \<noteq> []" by (rule distribute_negated_nonempty [OF rs])
    then obtain c where c: "r = Some c"
      using dnf.orc_dnf [OF r ok] assms by (cases r) (auto simp: dnf_result_def)
    let ?n = "max k (max n j)"
    have "map_steps (ck_negate env ?n) xs = Some ns"
      by (rule map_steps_mono [OF ns], erule more_fuel(3) [rotated]) simp
    moreover have "distribute_negated (and_create env ?n) (or_create env ?n) ns = Some rs"
      by (rule ck_more.more_negated [OF more_fuel_locale rs]) simp
    moreover have "or_create env ?n (map Some rs) (Some e) True = Some (Some c)"
      using more_fuel(2) [OF _ r] c by simp
    ultimately have "ck_negate env (Suc ?n) e = Some c"
      by (simp add: e None negate_expr_def ContextKeyOrExpr_negate_def defined_result_def)
    then show ?thesis unfolding negate_returns_def by blast
  qed
qed

end
