(* ===== verification/ContextKeyTrees.thy ===== *)
theory ContextKeyTrees
  imports ContextKeyParseProofs ContextKeyTotal ContextKeyImplies
begin

text \<open>
  Syntax trees of when-clauses and their meaning, as the reference the parser is compared with.

  The parser with the tree builder returns the tree of the grammar, with no normal form; \<open>ast_eval\<close> is the
  meaning of the operators.  A homomorphism of builders carries over to the parser, so the expression
  the code returns is \<open>build_ast\<close> of the tree.
\<close>

section \<open>Homomorphisms of builders\<close>

definition builder_hom :: "('a \<Rightarrow> 'b) \<Rightarrow> 'a ck_builder \<Rightarrow> 'b ck_builder \<Rightarrow> bool" where
  "builder_hom h A B \<longleftrightarrow>
     h (b_true A) = b_true B \<and> h (b_false A) = b_false B \<and>
     (\<forall>k. h (b_has A k) = b_has B k) \<and> (\<forall>k. h (b_not A k) = b_not B k) \<and>
     (\<forall>k v. h (b_equals A k v) = b_equals B k v) \<and> (\<forall>k v. h (b_notEquals A k v) = b_notEquals B k v) \<and>
     (\<forall>k r. h (b_regex A k r) = b_regex B k r) \<and>
     (\<forall>k v. h (b_in A k v) = b_in B k v) \<and> (\<forall>k v. h (b_notIn A k v) = b_notIn B k v) \<and>
     (\<forall>k v. h (b_smaller A k v) = b_smaller B k v) \<and> (\<forall>k v. h (b_smallerEquals A k v) = b_smallerEquals B k v) \<and>
     (\<forall>k v. h (b_greater A k v) = b_greater B k v) \<and> (\<forall>k v. h (b_greaterEquals A k v) = b_greaterEquals B k v) \<and>
     (\<forall>es. h (b_and A es) = b_and B (map h es)) \<and> (\<forall>es. h (b_or A es) = b_or B (map h es)) \<and>
     (\<forall>e. h (b_negate A e) = b_negate B (h e))"

definition p_map :: "('a \<Rightarrow> 'b) \<Rightarrow> ('a \<times> ck_token list) parse_result \<Rightarrow> ('b \<times> ck_token list) parse_result" where
  "p_map h = map_option (map_sum (\<lambda>e. e) (\<lambda>(x, ts). (h x, ts)))"

lemma p_map_simps [simp]:
  "p_map h None = None" "p_map h (Some (Inl e)) = Some (Inl e)" "p_map h (Some (Inr (x, ts))) = Some (Inr (h x, ts))"
  by (simp_all add: p_map_def)

lemma p_map_bind:
  assumes "\<And>x ts. p_map g (f (x, ts)) = f' (h x, ts)"
  shows "p_map g (p_bind r f) = p_bind (p_map h r) f'"
proof (cases r)
  case (Some q)
  then show ?thesis using assms by (cases q) (auto simp: p_bind_def)
qed (simp add: p_bind_def)

lemma p_map_bind_same:
  assumes "\<And>x. p_map g (f x) = f' x"
  shows "p_map g (p_bind r f) = p_bind r f'"
proof (cases r)
  case (Some q)
  then show ?thesis using assms by (cases q) (auto simp: p_bind_def)
qed (simp add: p_bind_def)

locale builder_homomorphism =
  fixes h :: "'a \<Rightarrow> 'b" and A :: "'a ck_builder" and B :: "'b ck_builder"
  assumes hom: "builder_hom h A B"
begin

lemma hom_simps [simp]:
  "h (b_true A) = b_true B" "h (b_false A) = b_false B" "h (b_has A k) = b_has B k" "h (b_not A k) = b_not B k"
  "h (b_equals A k v) = b_equals B k v" "h (b_notEquals A k v) = b_notEquals B k v" "h (b_regex A k r) = b_regex B k r"
  "h (b_in A k v) = b_in B k v" "h (b_notIn A k v) = b_notIn B k v"
  "h (b_smaller A k v) = b_smaller B k v" "h (b_smallerEquals A k v) = b_smallerEquals B k v"
  "h (b_greater A k v) = b_greater B k v" "h (b_greaterEquals A k v) = b_greaterEquals B k v"
  "h (b_and A es) = b_and B (map h es)" "h (b_or A es) = b_or B (map h es)" "h (b_negate A e) = b_negate B (h e)"
  using hom by (simp_all add: builder_hom_def)

lemma hom_regex: "p_map h (p_regex A env c k ts) = p_regex B env c k ts"
  by (simp add: p_regex_def Let_def case_prod_beta split: ck_token_type.split option.split)

lemma hom_comparison: "(\<And>k v. h (f k v) = g k v) \<Longrightarrow> p_map h (p_comparison f k ts) = p_comparison g k ts"
  by (simp add: p_comparison_def case_prod_beta)

lemma hom_equality:
  "(\<And>k. h (f k) = f' k) \<Longrightarrow> (\<And>k. h (g k) = g' k) \<Longrightarrow> (\<And>k v. h (e k v) = e' k v) \<Longrightarrow>
   p_map h (p_equality f g e k ts) = p_equality f' g' e' k ts"
  by (simp add: p_equality_def case_prod_beta)

lemma hom_key: "p_map h (p_key A env c k ts) = p_key B env c k ts"
proof -
  have "p_map h (p_bind (p_consume TIn ExpectedInAfterNot us) (p_comparison (b_notIn A) k)) =
      p_bind (p_consume TIn ExpectedInAfterNot us) (p_comparison (b_notIn B) k)" for us
    by (rule p_map_bind_same) (rule hom_comparison, simp)
  then show ?thesis
    by (simp add: p_key_def hom_regex hom_comparison hom_equality split: ck_token_type.split)
qed

lemma hom_one: "(if length (map h es) = 1 then hd (map h es) else g (map h es)) = h (if length es = 1 then hd es else f es)"
  if "\<And>es. h (f es) = g (map h es)"
  using that by (cases es) auto

lemma hom_operands:
  assumes "p_map h (operand ts) = operand' ts" "\<And>es ts. p_map (map h) (loop es ts) = loop' (map h es) ts"
    "\<And>es. h (f es) = f' (map h es)"
  shows "p_map h (parse_operands f operand loop ts) = parse_operands f' operand' loop' ts"
  unfolding parse_operands_def assms(1) [symmetric]
proof (rule p_map_bind, simp only: prod.case)
  fix x us
  have "p_map h (p_bind (loop [x] us) (\<lambda>(expr, ts2). Some (Inr (if length expr = 1 then hd expr else f expr, ts2)))) =
      p_bind (p_map (map h) (loop [x] us)) (\<lambda>(expr, ts2). Some (Inr (if length expr = 1 then hd expr else f' expr, ts2)))"
  proof (rule p_map_bind [where h = "map h" and g = h], simp only: prod.case p_map_simps)
    fix es :: "'a list" and vs
    show "Some (Inr (h (if length es = 1 then hd es else f es), vs)) =
        Some (Inr (if length (map h es) = 1 then hd (map h es) else f' (map h es), vs))"
      using hom_one [of f f' es] assms(3) by simp
  qed
  then show "p_map h (p_bind (loop [x] us) (\<lambda>(expr, ts2). Some (Inr (if length expr = 1 then hd expr else f expr, ts2)))) =
      p_bind (loop' [h x] us) (\<lambda>(expr, ts2). Some (Inr (if length expr = 1 then hd expr else f' expr, ts2)))"
    by (simp add: assms(2))
qed

lemma hom_more:
  assumes "\<And>ts. p_map h (operand ts) = operand' ts" "\<And>es ts. p_map (map h) (loop es ts) = loop' (map h es) ts"
  shows "p_map (map h) (parse_more operator operand loop es ts) = parse_more operator operand' loop' (map h es) ts"
proof -
  have "p_map (map h) (p_bind (operand us) (\<lambda>(right, ts1). loop (es @ [right]) ts1)) =
      p_bind (operand' us) (\<lambda>(right, ts1). loop' (map h es @ [right]) ts1)" for us
    unfolding assms(1) [symmetric] by (rule p_map_bind) (simp add: assms(2))
  then show ?thesis by (simp add: parse_more_def)
qed

lemma hom_parenthesized:
  assumes "\<And>ts. p_map h (expression ts) = expression' ts" "\<And>e. h (f e) = f' (h e)"
  shows "p_map h (parse_parenthesized f expression ts) = parse_parenthesized f' expression' ts"
  unfolding parse_parenthesized_def assms(1) [symmetric]
  by (rule p_map_bind, simp, rule p_map_bind_same) (simp add: assms(2))

lemma hom_steps:
  "p_map h (p_or A env c n ts) = p_or B env c n ts"
  "p_map (map h) (p_or_loop A env c n es ts) = p_or_loop B env c n (map h es) ts"
  "p_map h (p_and A env c n ts) = p_and B env c n ts"
  "p_map (map h) (p_and_loop A env c n es ts) = p_and_loop B env c n (map h es) ts"
  "p_map h (p_term A env c n ts) = p_term B env c n ts"
  "p_map h (p_primary A env c n ts) = p_primary B env c n ts"
proof (induction n arbitrary: ts es)
  case (Suc n)
  {
    case 1
    show ?case unfolding p_or.simps by (rule hom_operands) (simp_all add: Suc)
  next
    case 2
    show ?case unfolding p_or_loop.simps by (rule hom_more) (simp_all add: Suc)
  next
    case 3
    show ?case unfolding p_and.simps by (rule hom_operands) (simp_all add: Suc)
  next
    case 4
    show ?case unfolding p_and_loop.simps by (rule hom_more) (simp_all add: Suc)
  next
    case 5
    have "p_map h (parse_parenthesized (b_negate A) (p_or A env c n) us) = parse_parenthesized (b_negate B) (p_or B env c n) us" for us
      by (rule hom_parenthesized) (simp_all add: Suc)
    then show ?case unfolding p_term.simps
      by (simp add: parse_term_def Let_def Suc split: ck_token_type.split)
  next
    case 6
    have "p_map h (parse_parenthesized (\<lambda>e. e) (p_or A env c n) us) = parse_parenthesized (\<lambda>e. e) (p_or B env c n) us" for us
      by (rule hom_parenthesized) (simp_all add: Suc)
    then show ?case unfolding p_primary.simps
      by (simp add: parse_primary_def hom_key split: ck_token_type.split)
  }
qed simp_all

lemma hom_parse:
  "map_option (map_sum (\<lambda>e. e) h) (parse_tokens A env c n ts) = parse_tokens B env c n ts"
proof -
  have "parse_tokens B env c n ts = p_bind (p_map h (p_or A env c n ts)) (\<lambda>(expr, rest).
       if \<not> p_isAtEnd rest then
         Some (Inl \<lparr>pe_message = ErrorUnexpectedToken, pe_offset = tok_offset (hd rest), pe_lexeme = getLexeme (hd rest),
                    pe_additionalInfo = (case p_peek rest of TStr l \<Rightarrow> Some HintUnexpectedToken | _ \<Rightarrow> None)\<rparr>)
       else Some (Inr expr))"
    by (simp add: parse_tokens_def hom_steps)
  then show ?thesis
    by (cases "p_or A env c n ts") (auto simp: parse_tokens_def p_bind_def p_map_def map_sum_def split: sum.splits)
qed

end

section \<open>Trees\<close>

datatype ck_ast =
    AConst bool
  | AHas js_string
  | AHasNot js_string
  | AEquals js_string js_string
  | ANotEquals js_string js_string
  | ARegex js_string js_regexp
  | AIn js_string js_string
  | ANotIn js_string js_string
  | ASmaller js_string js_string
  | ASmallerEquals js_string js_string
  | AGreater js_string js_string
  | AGreaterEquals js_string js_string
  | AAnd "ck_ast list"
  | AOr "ck_ast list"
  | ANegate ck_ast

definition ast_builder :: "ck_ast ck_builder" where
  "ast_builder =
     \<lparr>b_true = AConst True, b_false = AConst False, b_has = AHas, b_not = AHasNot, b_equals = AEquals,
      b_notEquals = ANotEquals, b_regex = ARegex, b_in = AIn, b_notIn = ANotIn, b_smaller = ASmaller,
      b_smallerEquals = ASmallerEquals, b_greater = AGreater, b_greaterEquals = AGreaterEquals,
      b_and = AAnd, b_or = AOr, b_negate = ANegate\<rparr>"

fun build_ast :: "'e ck_builder \<Rightarrow> ck_ast \<Rightarrow> 'e" where
  "build_ast B (AConst b) = (if b then b_true B else b_false B)"
| "build_ast B (AHas k) = b_has B k"
| "build_ast B (AHasNot k) = b_not B k"
| "build_ast B (AEquals k v) = b_equals B k v"
| "build_ast B (ANotEquals k v) = b_notEquals B k v"
| "build_ast B (ARegex k r) = b_regex B k r"
| "build_ast B (AIn k w) = b_in B k w"
| "build_ast B (ANotIn k w) = b_notIn B k w"
| "build_ast B (ASmaller k v) = b_smaller B k v"
| "build_ast B (ASmallerEquals k v) = b_smallerEquals B k v"
| "build_ast B (AGreater k v) = b_greater B k v"
| "build_ast B (AGreaterEquals k v) = b_greaterEquals B k v"
| "build_ast B (AAnd es) = b_and B (map (build_ast B) es)"
| "build_ast B (AOr es) = b_or B (map (build_ast B) es)"
| "build_ast B (ANegate e) = b_negate B (build_ast B e)"

interpretation tree: builder_homomorphism "build_ast B" ast_builder B for B
  by unfold_locales (simp add: builder_hom_def ast_builder_def)

text \<open>The meaning of a tree; a comparison with what is no number is false.\<close>

definition compare_number :: "(js_num \<Rightarrow> js_num \<Rightarrow> bool) \<Rightarrow> ck_env \<Rightarrow> ck_value \<Rightarrow> js_string \<Rightarrow> bool" where
  "compare_number f env x v \<longleftrightarrow> parseFloat v \<noteq> NaN \<and> f (value_parseFloat env x) (parseFloat v)"

fun ast_eval :: "ck_env \<Rightarrow> ck_context \<Rightarrow> ck_ast \<Rightarrow> bool" where
  "ast_eval env ctx (AConst b) = b"
| "ast_eval env ctx (AHas k) = truthy (ctx k)"
| "ast_eval env ctx (AHasNot k) = (\<not> truthy (ctx k))"
| "ast_eval env ctx (AEquals k v) = loose_eq env (ctx k) (PStr v)"
| "ast_eval env ctx (ANotEquals k v) = (\<not> loose_eq env (ctx k) (PStr v))"
| "ast_eval env ctx (ARegex k r) = regexTest env r (value_toString env (ctx k))"
| "ast_eval env ctx (AIn k w) = ContextKeyInExpr_evaluate env k w ctx"
| "ast_eval env ctx (ANotIn k w) = (\<not> ContextKeyInExpr_evaluate env k w ctx)"
| "ast_eval env ctx (ASmaller k v) = compare_number num_less env (ctx k) v"
| "ast_eval env ctx (ASmallerEquals k v) = compare_number num_le env (ctx k) v"
| "ast_eval env ctx (AGreater k v) = compare_number (\<lambda>a b. num_less b a) env (ctx k) v"
| "ast_eval env ctx (AGreaterEquals k v) = compare_number (\<lambda>a b. num_le b a) env (ctx k) v"
| "ast_eval env ctx (AAnd es) = list_all (ast_eval env ctx) es"
| "ast_eval env ctx (AOr es) = list_ex (ast_eval env ctx) es"
| "ast_eval env ctx (ANegate e) = (\<not> ast_eval env ctx e)"

text \<open>The conditions under which normalisation is exact.\<close>

definition numeric_operand :: "ck_env \<Rightarrow> ck_value \<Rightarrow> js_string \<Rightarrow> bool" where
  "numeric_operand env x v \<longleftrightarrow> parseFloat v \<noteq> NaN \<and> value_parseFloat env x \<noteq> NaN"

fun ast_ok :: "ck_env \<Rightarrow> (js_string \<Rightarrow> js_string) \<Rightarrow> ck_context \<Rightarrow> ck_ast \<Rightarrow> bool" where
  "ast_ok env F ctx (AHas k) \<longleftrightarrow> truth_agrees env ctx k"
| "ast_ok env F ctx (AHasNot k) \<longleftrightarrow> truth_agrees env ctx k"
| "ast_ok env F ctx (AEquals k v) \<longleftrightarrow> value_agrees env ctx k (PStr v)"
| "ast_ok env F ctx (ANotEquals k v) \<longleftrightarrow> value_agrees env ctx k (PStr v)"
| "ast_ok env F ctx (ARegex k r) \<longleftrightarrow> re_flags r = F (re_source r)"
| "ast_ok env F ctx (ASmaller k v) \<longleftrightarrow> numeric_operand env (ctx k) v"
| "ast_ok env F ctx (ASmallerEquals k v) \<longleftrightarrow> numeric_operand env (ctx k) v"
| "ast_ok env F ctx (AGreater k v) \<longleftrightarrow> numeric_operand env (ctx k) v"
| "ast_ok env F ctx (AGreaterEquals k v) \<longleftrightarrow> numeric_operand env (ctx k) v"
| "ast_ok env F ctx (AAnd es) \<longleftrightarrow> es \<noteq> [] \<and> list_all (ast_ok env F ctx) es"
| "ast_ok env F ctx (AOr es) \<longleftrightarrow> es \<noteq> [] \<and> list_all (ast_ok env F ctx) es"
| "ast_ok env F ctx (ANegate e) \<longleftrightarrow> ast_ok env F ctx e"
| "ast_ok env F ctx e \<longleftrightarrow> True"

lemma all_outcomes: "map_steps (\<lambda>r. r) rs = Some es \<longleftrightarrow> rs = map Some es"
proof (induction rs arbitrary: es)
  case (Cons r rs)
  show ?case by (cases r; cases es; cases "map_steps (\<lambda>r. r) rs") (auto simp: Cons.IH simp flip: Cons.IH)
qed auto

lemma combine_outcomes_Some:
  "combine_outcomes f rs = Some r \<longleftrightarrow> (\<exists>es. rs = map Some es \<and> f es = Some r)"
proof (cases "map_steps (\<lambda>r. r) rs")
  case None
  then have "rs \<noteq> map Some es" for es using all_outcomes [of rs es] by simp
  then show ?thesis using None by (simp add: combine_outcomes_def)
next
  case (Some es)
  then have "rs = map Some es" by (simp add: all_outcomes)
  then show ?thesis using Some by (auto simp: combine_outcomes_def)
qed

text \<open>A list of trees, each built to an expression with its meaning.\<close>

lemma built_operands:
  assumes "map (build_ast B) es = map Some rs" "\<forall>a \<in> set es. \<forall>r. build_ast B a = Some r \<longrightarrow>
      (\<exists>e. r = Some e \<and> ck_ok env F ctx e \<and> ck_evaluate env ctx e = ast_eval env ctx a)"
  shows "operands_ok env F ctx rs" "all_true env ctx rs = list_all (ast_eval env ctx) es"
    "some_true env ctx rs = list_ex (ast_eval env ctx) es" "es \<noteq> [] \<Longrightarrow> \<not> (\<forall>r \<in> set rs. r = None)"
  using assms
proof (induction es arbitrary: rs)
  case (Cons a es)
  {
    case 1
    then show ?case using Cons.IH(1) by (cases rs) auto
  next
    case 2
    then show ?case using Cons.IH(2) by (cases rs) auto
  next
    case 3
    then show ?case using Cons.IH(3) by (cases rs) auto
  next
    case 4
    then show ?case by (cases rs) auto
  }
qed auto

lemma build_ast_ok:
  "build_ast (expr_builder env fuel) a = Some r \<Longrightarrow> ast_ok env F ctx a \<Longrightarrow>
   \<exists>e. r = Some e \<and> ck_ok env F ctx e \<and> ck_evaluate env ctx e = ast_eval env ctx a"
proof (induction a arbitrary: r)
  case (AAnd es)
  obtain rs where rs: "map (build_ast (expr_builder env fuel)) es = map Some rs" "and_create env fuel rs None True = Some r"
    using AAnd.prems(1) by (auto simp: expr_builder_def combine_outcomes_Some ContextKeyExpr_and_def)
  note b = built_operands [OF rs(1), of env F ctx]
  have ok: "\<forall>a \<in> set es. \<forall>r. build_ast (expr_builder env fuel) a = Some r \<longrightarrow>
      (\<exists>e. r = Some e \<and> ck_ok env F ctx e \<and> ck_evaluate env ctx e = ast_eval env ctx a)"
    using AAnd.IH AAnd.prems(2) by (auto simp: list_all_iff)
  have "result_ok env F ctx rs r (all_true env ctx rs)" using nf.andc_ok [OF rs(2) b(1) [OF ok]] by simp
  then show ?case using b(2,4) [OF ok] AAnd.prems(2) by (cases r) (auto simp: result_ok_def)
next
  case (AOr es)
  obtain rs where rs: "map (build_ast (expr_builder env fuel)) es = map Some rs" "or_create env fuel rs None True = Some r"
    using AOr.prems(1) by (auto simp: expr_builder_def combine_outcomes_Some ContextKeyExpr_or_def)
  note b = built_operands [OF rs(1), of env F ctx]
  have ok: "\<forall>a \<in> set es. \<forall>r. build_ast (expr_builder env fuel) a = Some r \<longrightarrow>
      (\<exists>e. r = Some e \<and> ck_ok env F ctx e \<and> ck_evaluate env ctx e = ast_eval env ctx a)"
    using AOr.IH AOr.prems(2) by (auto simp: list_all_iff)
  have "result_ok env F ctx rs r (some_true env ctx rs)" using nf.orc_ok [OF rs(2) b(1) [OF ok]] by simp
  then show ?case using b(3,4) [OF ok] AOr.prems(2) by (cases r) (auto simp: result_ok_def)
next
  case (ANegate a)
  obtain q where q: "build_ast (expr_builder env fuel) a = Some q" "negate_outcome env fuel (Some q) = Some r"
    using ANegate.prems(1) by (auto simp: expr_builder_def negate_outcome_def split: option.splits)
  obtain e where e: "q = Some e" "ck_ok env F ctx e" "ck_evaluate env ctx e = ast_eval env ctx a"
    using ANegate.IH [OF q(1)] ANegate.prems(2) by auto
  then obtain n where n: "ck_negate env fuel e = Some n" "r = Some n" using q(2) by (auto simp: negate_outcome_def)
  then show ?case using nf.ngt_ok [OF n(1) e(2)] e(3) by simp
qed (auto simp: expr_builder_def create_defs withFloatOrStr_def truth_agrees_def value_agrees_def numeric_operand_def
    compare_number_def leaf_evaluate_defs ContextKeyRegexExpr_evaluate_def split: option.splits if_splits)

end
