(* ===== verification/ContextKeyBuild.thy ===== *)
theory ContextKeyBuild
  imports ContextKeyTrees
begin

text \<open>
  The expression of a syntax tree is built with enough fuel, and more fuel gives the same one: for
  trees without \<open>in\<close>, \<open>not in\<close> and comparisons, whose expressions are disjunctions of
  conjunctions.
\<close>

text \<open>Trees whose expressions sort before a disjunction.\<close>

fun ast_simple :: "ck_ast \<Rightarrow> bool" where
  "ast_simple (AIn k w) \<longleftrightarrow> False"
| "ast_simple (ANotIn k w) \<longleftrightarrow> False"
| "ast_simple (ASmaller k v) \<longleftrightarrow> False"
| "ast_simple (ASmallerEquals k v) \<longleftrightarrow> False"
| "ast_simple (AGreater k v) \<longleftrightarrow> False"
| "ast_simple (AGreaterEquals k v) \<longleftrightarrow> False"
| "ast_simple (AAnd es) \<longleftrightarrow> es \<noteq> [] \<and> list_all ast_simple es"
| "ast_simple (AOr es) \<longleftrightarrow> es \<noteq> [] \<and> list_all ast_simple es"
| "ast_simple (ANegate e) \<longleftrightarrow> ast_simple e"
| "ast_simple e \<longleftrightarrow> True"

definition built :: "ck_env \<Rightarrow> nat \<Rightarrow> ck_ast \<Rightarrow> ck_expr \<Rightarrow> bool" where
  "built env N a e \<longleftrightarrow> (\<forall>n \<ge> N. build_ast (expr_builder env n) a = Some (Some e)) \<and> ck_dnf e"

lemma builtI: "(\<And>n. n \<ge> N \<Longrightarrow> build_ast (expr_builder env n) a = Some (Some e)) \<Longrightarrow> ck_dnf e \<Longrightarrow> built env N a e"
  by (simp add: built_def)

lemma built_leaf: "(\<And>n. build_ast (expr_builder env n) a = Some (Some e)) \<Longrightarrow> ck_dnf e \<Longrightarrow> \<exists>N e. built env N a e"
  using builtI [of 0 env a e] by blast

lemma create_dnf:
  "ck_dnf (ContextKeyDefinedExpr_create env k)" "ck_dnf (ContextKeyNotExpr_create env k)"
  "ck_dnf (ContextKeyEqualsExpr_create env k (PStr v))" "ck_dnf (ContextKeyNotEqualsExpr_create env k (PStr v))"
  "ck_dnf (CRegex k r)" "ck_dnf CTrue" "ck_dnf CFalse"
  by (auto simp: create_defs bool_expr_def split: option.splits)

lemma built_list:
  assumes "\<forall>a \<in> set es. \<exists>N e. built env N a e"
  shows "\<exists>N rs. (\<forall>n \<ge> N. map (build_ast (expr_builder env n)) es = map Some (map Some rs)) \<and> (\<forall>e \<in> set rs. ck_dnf e) \<and>
    length rs = length es"
  using assms
proof (induction es)
  case (Cons a es)
  then obtain N rs where rs: "\<forall>n \<ge> N. map (build_ast (expr_builder env n)) es = map Some (map Some rs)"
      "\<forall>e \<in> set rs. ck_dnf e" "length rs = length es"
    by auto
  obtain M e where "built env M a e" using Cons.prems by auto
  then have e: "\<forall>n \<ge> M. build_ast (expr_builder env n) a = Some (Some e)" "ck_dnf e" by (simp_all add: built_def)
  show ?case using rs e by (intro exI [of _ "max N M"] exI [of _ "e # rs"]) simp
qed auto

text \<open>A conjunction or a disjunction of built operands.\<close>

lemma built_create:
  assumes "\<And>n rs. map (build_ast (expr_builder env n)) es = map Some rs \<Longrightarrow> build_ast (expr_builder env n) a = create n rs"
    and returns: "\<And>rs. dnf_operands rs \<Longrightarrow> \<exists>n r. create n rs = Some r"
    and more: "\<And>n m rs r. n \<le> m \<Longrightarrow> create n rs = Some r \<Longrightarrow> create m rs = Some r"
    and dnf: "\<And>n rs r. create n rs = Some r \<Longrightarrow> dnf_operands rs \<Longrightarrow> dnf_result rs r"
    and es: "es \<noteq> []" "\<forall>a \<in> set es. \<exists>N e. built env N a e"
  shows "\<exists>N e. built env N a e"
proof -
  obtain N rs where rs: "\<forall>n \<ge> N. map (build_ast (expr_builder env n)) es = map Some (map Some rs)"
      "\<forall>e \<in> set rs. ck_dnf e" "length rs = length es"
    using built_list [OF es(2)] by auto
  have ok: "dnf_operands (map Some rs)" using rs(2) by (auto simp: dnf_operands_def)
  obtain M r where r: "create M (map Some rs) = Some r" using returns [OF ok] by auto
  have "rs \<noteq> []" using rs(3) es(1) by auto
  then obtain e where e: "r = Some e" "ck_dnf e"
    using dnf [OF r ok] by (cases r; cases rs) (auto simp: dnf_result_def)
  have "built env (max N M) a e"
  proof (rule builtI)
    fix n assume n: "n \<ge> max N M"
    then have "build_ast (expr_builder env n) a = create n (map Some rs)" using assms(1) rs(1) by simp
    then show "build_ast (expr_builder env n) a = Some (Some e)" using more [OF _ r, of n] n e(1) by simp
  qed (rule e(2))
  then show ?thesis by blast
qed

lemma all_steps [simp]: "map_steps (\<lambda>r. r) (map Some rs) = Some rs"
  by (simp add: all_outcomes)

lemma build_ast_returns: "ast_simple a \<Longrightarrow> \<exists>N e. built env N a e"
proof (induction a)
  case (AAnd es)
  show ?case
  proof (rule built_create [where create = "\<lambda>n rs. and_create env n rs None True" and es = es])
    show "build_ast (expr_builder env n) (AAnd es) = and_create env n rs None True"
      if "map (build_ast (expr_builder env n)) es = map Some rs" for n rs
      using that by (simp add: expr_builder_def combine_outcomes_def ContextKeyExpr_and_def)
    show "\<exists>n r. and_create env n rs None True = Some r" if "dnf_operands rs" for rs
      using and_dnf_returns [OF that] by (simp add: and_returns_def)
  qed (use AAnd dnf.andc_dnf more_fuel(1) in \<open>auto simp: list_all_iff\<close>)
next
  case (AOr es)
  show ?case
  proof (rule built_create [where create = "\<lambda>n rs. or_create env n rs None True" and es = es])
    show "build_ast (expr_builder env n) (AOr es) = or_create env n rs None True"
      if "map (build_ast (expr_builder env n)) es = map Some rs" for n rs
      using that by (simp add: expr_builder_def combine_outcomes_def ContextKeyExpr_or_def)
    show "\<exists>n r. or_create env n rs None True = Some r" if "dnf_operands rs" for rs
      using or_dnf_returns [OF that] by (simp add: or_returns_def)
  qed (use AOr dnf.orc_dnf more_fuel(2) in \<open>auto simp: list_all_iff\<close>)
next
  case (ANegate a)
  then obtain N e where "built env N a e" by auto
  then have e: "\<forall>n \<ge> N. build_ast (expr_builder env n) a = Some (Some e)" "ck_dnf e" by (simp_all add: built_def)
  obtain M m where m: "ck_negate env M e = Some m" using negate_dnf_returns [OF e(2), of env] by (auto simp: negate_returns_def)
  have "built env (max N M) (ANegate a) m"
  proof (rule builtI)
    fix n assume n: "n \<ge> max N M"
    then have "ck_negate env n e = Some m" using more_fuel(3) [OF _ m] by simp
    moreover have "build_ast (expr_builder env n) a = Some (Some e)" using e(1) n by simp
    ultimately show "build_ast (expr_builder env n) (ANegate a) = Some (Some m)"
      by (simp add: expr_builder_def negate_outcome_def)
  qed (rule dnf.ngt_dnf [OF m e(2)])
  then show ?case by blast
next
  case (AConst b)
  show ?case by (cases b) (rule built_leaf, simp add: expr_builder_def, rule create_dnf)+
qed (simp_all, (rule built_leaf, simp add: expr_builder_def, rule create_dnf)+)

end
