(* ===== verification/ContextKeyPrint.thy ===== *)
theory ContextKeyPrint
  imports ContextKeyTrees
begin

text \<open>
  Syntax trees written as tokens, and read back by the parser.

  \<open>ast_tokens\<close> writes a tree with the parentheses its level needs: \<open>||\<close> binds weakest, then \<open>&&\<close>, then
  the operators on keys and \<open>!\<close>.  Values are written in quotes.  More fuel does not change what the
  parser returns, so it is enough to show what it returns with much fuel.
\<close>

section \<open>More fuel\<close>

lemma p_bind_mono:
  assumes "p_bind r f = Some x" "\<And>y. r = Some y \<Longrightarrow> r' = Some y" "\<And>y z. f y = Some z \<Longrightarrow> f' y = Some z"
  shows "p_bind r' f' = Some x"
  using assms by (auto simp: p_bind_def split: option.splits sum.splits)

lemma parse_operands_mono:
  assumes "parse_operands f operand loop ts = Some x" "\<And>ts y. operand ts = Some y \<Longrightarrow> operand' ts = Some y"
    "\<And>es ts y. loop es ts = Some y \<Longrightarrow> loop' es ts = Some y"
  shows "parse_operands f operand' loop' ts = Some x"
  using assms(1) unfolding parse_operands_def
proof (rule p_bind_mono)
  fix y z
  assume "(case y of (e, ts1) \<Rightarrow> p_bind (loop [e] ts1) (\<lambda>(expr, ts2). Some (Inr (if length expr = 1 then hd expr else f expr, ts2)))) = Some z"
  then show "(case y of (e, ts1) \<Rightarrow> p_bind (loop' [e] ts1) (\<lambda>(expr, ts2). Some (Inr (if length expr = 1 then hd expr else f expr, ts2)))) = Some z"
    using assms(3) by (cases y) (auto elim!: p_bind_mono)
qed (rule assms(2))

lemma parse_more_mono:
  assumes "parse_more operator operand loop es ts = Some x" "\<And>ts y. operand ts = Some y \<Longrightarrow> operand' ts = Some y"
    "\<And>es ts y. loop es ts = Some y \<Longrightarrow> loop' es ts = Some y"
  shows "parse_more operator operand' loop' es ts = Some x"
proof (cases "p_peek ts = operator")
  case True
  then have "p_bind (operand (p_advance ts)) (\<lambda>(right, ts1). loop (es @ [right]) ts1) = Some x"
    using assms(1) by (simp add: parse_more_def)
  then have "p_bind (operand' (p_advance ts)) (\<lambda>(right, ts1). loop' (es @ [right]) ts1) = Some x"
    by (rule p_bind_mono) (use assms(2,3) in \<open>auto split: prod.splits\<close>)
  then show ?thesis using True by (simp add: parse_more_def)
qed (use assms(1) in \<open>simp add: parse_more_def\<close>)

lemma parse_parenthesized_mono:
  assumes "parse_parenthesized f expression ts = Some x" "\<And>ts y. expression ts = Some y \<Longrightarrow> expression' ts = Some y"
  shows "parse_parenthesized f expression' ts = Some x"
  using assms(1) unfolding parse_parenthesized_def by (rule p_bind_mono) (rule assms(2))

lemma parse_term_mono:
  assumes "parse_term B expression primary ts = Some x" "\<And>ts y. expression ts = Some y \<Longrightarrow> expression' ts = Some y"
    "\<And>ts y. primary ts = Some y \<Longrightarrow> primary' ts = Some y"
  shows "parse_term B expression' primary' ts = Some x"
  using assms parse_parenthesized_mono [of "b_negate B" expression _ _ expression']
  by (auto simp: parse_term_def Let_def split: if_splits ck_token_type.splits)

lemma parse_primary_mono:
  assumes "parse_primary B env c expression ts = Some x" "\<And>ts y. expression ts = Some y \<Longrightarrow> expression' ts = Some y"
  shows "parse_primary B env c expression' ts = Some x"
  using assms parse_parenthesized_mono [of "\<lambda>e. e" expression _ _ expression']
  by (auto simp: parse_primary_def split: ck_token_type.splits)

lemma parse_steps_mono:
  "p_or B env c n ts = Some x \<Longrightarrow> p_or B env c (Suc n) ts = Some x"
  "p_or_loop B env c n es ts = Some y \<Longrightarrow> p_or_loop B env c (Suc n) es ts = Some y"
  "p_and B env c n ts = Some x \<Longrightarrow> p_and B env c (Suc n) ts = Some x"
  "p_and_loop B env c n es ts = Some y \<Longrightarrow> p_and_loop B env c (Suc n) es ts = Some y"
  "p_term B env c n ts = Some x \<Longrightarrow> p_term B env c (Suc n) ts = Some x"
  "p_primary B env c n ts = Some x \<Longrightarrow> p_primary B env c (Suc n) ts = Some x"
proof (induction n arbitrary: ts es x y)
  case (Suc n)
  {
    case 1
    then show ?case unfolding p_or.simps(2) by (rule parse_operands_mono) (rule Suc.IH, assumption)+
  next
    case 2
    then have "parse_more TOr (\<lambda>u. p_and B env c n u) (\<lambda>e u. p_or_loop B env c n e u) es ts = Some y" by simp
    then have "parse_more TOr (\<lambda>u. p_and B env c (Suc n) u) (\<lambda>e u. p_or_loop B env c (Suc n) e u) es ts = Some y"
      by (rule parse_more_mono) (rule Suc.IH, assumption)+
    then show ?case by (subst p_or_loop.simps(2))
  next
    case 3
    then show ?case unfolding p_and.simps(2) by (rule parse_operands_mono) (rule Suc.IH, assumption)+
  next
    case 4
    then have "parse_more TAnd (\<lambda>u. p_term B env c n u) (\<lambda>e u. p_and_loop B env c n e u) es ts = Some y" by simp
    then have "parse_more TAnd (\<lambda>u. p_term B env c (Suc n) u) (\<lambda>e u. p_and_loop B env c (Suc n) e u) es ts = Some y"
      by (rule parse_more_mono) (rule Suc.IH, assumption)+
    then show ?case by (subst p_and_loop.simps(2))
  next
    case 5
    then show ?case unfolding p_term.simps(2) by (rule parse_term_mono) (rule Suc.IH, assumption)+
  next
    case 6
    then show ?case unfolding p_primary.simps(2) by (rule parse_primary_mono) (rule Suc.IH, assumption)+
  }
qed simp_all

lemma parse_tokens_mono:
  assumes "parse_tokens B env c n ts = Some x" "n \<le> m"
  shows "parse_tokens B env c m ts = Some x"
  using assms(2)
proof (induction m rule: dec_induct)
  case (step m)
  from step.IH show ?case unfolding parse_tokens_def by (rule p_bind_mono) (rule parse_steps_mono)
qed (rule assms(1))

section \<open>Much fuel\<close>

definition much :: "(nat \<Rightarrow> 'a) \<Rightarrow> 'a \<Rightarrow> bool" where
  "much f x \<longleftrightarrow> (\<exists>N. \<forall>n \<ge> N. f n = x)"

lemma muchI: "(\<And>n. f n = x) \<Longrightarrow> much f x"
  by (simp add: much_def)

lemma much_Suc: "much (\<lambda>n. f (Suc n)) x \<Longrightarrow> much f x"
  unfolding much_def by (metis Suc_le_D Suc_le_mono)

lemma much_shift: "much f x \<Longrightarrow> much (\<lambda>n. f (Suc n)) x"
  unfolding much_def by (meson le_SucI)

lemma much_both:
  assumes "much f x" "much g y" "\<And>n. f n = x \<Longrightarrow> g n = y \<Longrightarrow> h n = z"
  shows "much h z"
proof -
  obtain N M where "\<forall>n \<ge> N. f n = x" "\<forall>n \<ge> M. g n = y" using assms(1,2) by (auto simp: much_def)
  then have "\<forall>n \<ge> max N M. h n = z" using assms(3) by simp
  then show ?thesis unfolding much_def by blast
qed

lemma much_one: "much f x \<Longrightarrow> (\<And>n. f n = x \<Longrightarrow> h n = z) \<Longrightarrow> much h z"
  using much_both [of f x f x h z] by blast

section \<open>Writing trees\<close>

definition tok :: "ck_token_type \<Rightarrow> ck_token" where
  "tok t = \<lparr>tok_type = t, tok_offset = 0\<rparr>"

lemma tok_simps [simp]: "tok_type (tok t) = t" "t \<noteq> TEOF \<Longrightarrow> p_advance (tok t # ts) = ts"
  by (simp_all add: tok_def p_advance_def p_isAtEnd_def)

definition parenthesized :: "bool \<Rightarrow> ck_token list \<Rightarrow> ck_token list" where
  "parenthesized b ts = (if b then [tok TLParen] @ ts @ [tok TRParen] else ts)"

fun is_or :: "ck_ast \<Rightarrow> bool" where
  "is_or (AOr es) = True"
| "is_or a = False"

fun is_and :: "ck_ast \<Rightarrow> bool" where
  "is_and (AAnd es) = True"
| "is_and a = False"

definition regexp_lexeme :: "js_regexp \<Rightarrow> js_string" where
  "regexp_lexeme r = 47 # re_source r @ 47 # re_flags r"

fun ast_tokens :: "ck_ast \<Rightarrow> ck_token list" where
  "ast_tokens (AConst b) = [tok (if b then TTrue else TFalse)]"
| "ast_tokens (AHas k) = [tok (TStr k)]"
| "ast_tokens (AHasNot k) = [tok TNeg, tok (TStr k)]"
| "ast_tokens (AEquals k v) = [tok (TStr k), tok (TEq False), tok (TQuotedStr v)]"
| "ast_tokens (ANotEquals k v) = [tok (TStr k), tok (TNotEq False), tok (TQuotedStr v)]"
| "ast_tokens (ARegex k r) = [tok (TStr k), tok TRegexOp, tok (TRegexStr (regexp_lexeme r))]"
| "ast_tokens (AIn k w) = [tok (TStr k), tok TIn, tok (TQuotedStr w)]"
| "ast_tokens (ANotIn k w) = [tok (TStr k), tok TNot, tok TIn, tok (TQuotedStr w)]"
| "ast_tokens (ASmaller k v) = [tok (TStr k), tok TLt, tok (TQuotedStr v)]"
| "ast_tokens (ASmallerEquals k v) = [tok (TStr k), tok TLtEq, tok (TQuotedStr v)]"
| "ast_tokens (AGreater k v) = [tok (TStr k), tok TGt, tok (TQuotedStr v)]"
| "ast_tokens (AGreaterEquals k v) = [tok (TStr k), tok TGtEq, tok (TQuotedStr v)]"
| "ast_tokens (AAnd es) = tl (concat (map (\<lambda>e. tok TAnd # parenthesized (is_or e \<or> is_and e) (ast_tokens e)) es))"
| "ast_tokens (AOr es) = tl (concat (map (\<lambda>e. tok TOr # parenthesized (is_or e) (ast_tokens e)) es))"
| "ast_tokens (ANegate e) = tok TNeg # parenthesized True (ast_tokens e)"

abbreviation and_operand :: "ck_ast \<Rightarrow> ck_token list" where
  "and_operand e \<equiv> parenthesized (is_or e \<or> is_and e) (ast_tokens e)"

abbreviation or_operand :: "ck_ast \<Rightarrow> ck_token list" where
  "or_operand e \<equiv> parenthesized (is_or e) (ast_tokens e)"

text \<open>Trees the grammar has: two operands at least, and expressions that are read back from their lexeme.\<close>

fun ast_grammar :: "ck_env \<Rightarrow> ck_ast \<Rightarrow> bool" where
  "ast_grammar env (ARegex k r) \<longleftrightarrow> regexp_of_lexeme env (regexp_lexeme r) = Some r"
| "ast_grammar env (AAnd es) \<longleftrightarrow> length es \<ge> 2 \<and> list_all (ast_grammar env) es"
| "ast_grammar env (AOr es) \<longleftrightarrow> length es \<ge> 2 \<and> list_all (ast_grammar env) es"
| "ast_grammar env (ANegate e) \<longleftrightarrow> ast_grammar env e"
| "ast_grammar env e \<longleftrightarrow> True"

section \<open>Reading them back\<close>

lemma ast_builder_ops [simp]:
  "b_true ast_builder = AConst True" "b_false ast_builder = AConst False" "b_has ast_builder = AHas"
  "b_not ast_builder = AHasNot" "b_equals ast_builder = AEquals" "b_notEquals ast_builder = ANotEquals"
  "b_regex ast_builder = ARegex" "b_in ast_builder = AIn" "b_notIn ast_builder = ANotIn"
  "b_smaller ast_builder = ASmaller" "b_smallerEquals ast_builder = ASmallerEquals"
  "b_greater ast_builder = AGreater" "b_greaterEquals ast_builder = AGreaterEquals"
  "b_and ast_builder = AAnd" "b_or ast_builder = AOr" "b_negate ast_builder = ANegate"
  by (simp_all add: ast_builder_def)

definition stops :: "ck_token_type set \<Rightarrow> ck_token list \<Rightarrow> bool" where
  "stops S rest \<longleftrightarrow> rest \<noteq> [] \<and> p_peek rest \<in> S"

abbreviation term_end :: "ck_token_type set" where "term_end \<equiv> {TAnd, TOr, TRParen, TEOF}"
abbreviation and_end :: "ck_token_type set" where "and_end \<equiv> {TOr, TRParen, TEOF}"
abbreviation or_end :: "ck_token_type set" where "or_end \<equiv> {TRParen, TEOF}"

lemma stops_tok: "t \<in> S \<Longrightarrow> stops S (tok t # rest)"
  by (simp add: stops_def)

lemma stops_mono: "stops S rest \<Longrightarrow> S \<subseteq> T \<Longrightarrow> stops T rest"
  by (auto simp: stops_def)

definition reads :: "ck_token_type set \<Rightarrow> (nat \<Rightarrow> ck_ast parse_step) \<Rightarrow> ck_token list \<Rightarrow> ck_ast \<Rightarrow> bool" where
  "reads S p ts a \<longleftrightarrow> (\<forall>rest. stops S rest \<longrightarrow> much (\<lambda>n. p n (ts @ rest)) (Some (Inr (a, rest))))"

lemma readsD: "reads S p ts a \<Longrightarrow> stops S rest \<Longrightarrow> much (\<lambda>n. p n (ts @ rest)) (Some (Inr (a, rest)))"
  by (simp add: reads_def)

lemma p_bind_Inr [simp]: "p_bind (Some (Inr x)) f = f x"
  by (simp add: p_bind_def)

text \<open>Both levels of operators parse an operand, and more of them after operators.\<close>

locale operand_list =
  fixes operator :: ck_token_type and S T :: "ck_token_type set"
    and operand expression :: "nat \<Rightarrow> ck_ast parse_step" and loop :: "nat \<Rightarrow> ck_ast list \<Rightarrow> ck_ast list parse_step"
    and build :: "ck_ast list \<Rightarrow> ck_ast"
  assumes loop_step: "\<And>n es ts. loop (Suc n) es ts = parse_more operator (\<lambda>u. operand n u) (\<lambda>e u. loop n e u) es ts"
    and expression_step: "\<And>n ts. expression (Suc n) ts = parse_operands build (\<lambda>u. operand n u) (\<lambda>e u. loop n e u) ts"
    and ends: "operator \<in> S" "T \<subseteq> S" "operator \<notin> T" "operator \<noteq> TEOF"
begin

lemma loop_stops:
  assumes "stops T rest"
  shows "much (\<lambda>n. loop n es rest) (Some (Inr (es, rest)))"
proof (rule much_Suc, rule muchI)
  fix n
  show "loop (Suc n) es rest = Some (Inr (es, rest))"
    using assms ends(3) by (auto simp: loop_step parse_more_def stops_def)
qed

lemma reads_loop:
  assumes "\<forall>e \<in> set es. reads S operand (w e) e" "stops T rest"
  shows "much (\<lambda>n. loop n acc (concat (map (\<lambda>e. tok operator # w e) es) @ rest)) (Some (Inr (acc @ es, rest)))"
  using assms(1)
proof (induction es arbitrary: acc)
  case Nil
  then show ?case using loop_stops [OF assms(2)] by simp
next
  case (Cons e es)
  let ?more = "concat (map (\<lambda>e. tok operator # w e) es) @ rest"
  have "stops S ?more" using stops_mono [OF assms(2) ends(2)] ends(1) by (cases es) (simp_all add: stops_def)
  then have e: "much (\<lambda>n. operand n (w e @ ?more)) (Some (Inr (e, ?more)))" using Cons.prems by (intro readsD) simp_all
  have l: "much (\<lambda>n. loop n (acc @ [e]) ?more) (Some (Inr (acc @ e # es, rest)))"
    using Cons.IH [of "acc @ [e]"] Cons.prems by simp
  show ?case
    by (rule much_Suc, rule much_both [OF e l]) (simp add: loop_step parse_more_def ends(4))
qed

lemma reads_operands:
  assumes "reads S operand (w e) e" "\<forall>e \<in> set es. reads S operand (w e) e"
  shows "reads T expression (w e @ concat (map (\<lambda>e. tok operator # w e) es)) (if es = [] then e else build (e # es))"
  unfolding reads_def
proof (intro allI impI)
  fix rest
  assume r: "stops T rest"
  let ?more = "concat (map (\<lambda>e. tok operator # w e) es) @ rest"
  have "stops S ?more" using stops_mono [OF r ends(2)] ends(1) by (cases es) (simp_all add: stops_def)
  then have e: "much (\<lambda>n. operand n (w e @ ?more)) (Some (Inr (e, ?more)))" by (rule readsD [OF assms(1)])
  have l: "much (\<lambda>n. loop n [e] ?more) (Some (Inr (e # es, rest)))"
    using reads_loop [OF assms(2) r, of "[e]"] by simp
  show "much (\<lambda>n. expression n ((w e @ concat (map (\<lambda>e. tok operator # w e) es)) @ rest))
      (Some (Inr (if es = [] then e else build (e # es), rest)))"
    by (rule much_Suc, rule much_both [OF e l]) (simp add: expression_step parse_operands_def)
qed

lemma reads_one: "reads S operand ts a \<Longrightarrow> reads T expression ts a"
  using reads_operands [of "\<lambda>e. ts" a "[]"] by simp

lemma reads_list:
  assumes "\<forall>e \<in> set es. reads S operand (w e) e" "length es \<ge> 2"
  shows "reads T expression (tl (concat (map (\<lambda>e. tok operator # w e) es))) (build es)"
proof -
  obtain e es' where es: "es = e # es'" "es' \<noteq> []" using assms(2) by (cases es) (auto simp: neq_Nil_conv Suc_le_length_iff)
  then show ?thesis using reads_operands [of w e es'] assms(1) by simp
qed

end

interpretation and_list: operand_list TAnd term_end and_end "p_term ast_builder env c" "p_and ast_builder env c"
    "p_and_loop ast_builder env c" AAnd for env c
  by unfold_locales simp_all

interpretation or_list: operand_list TOr and_end or_end "p_and ast_builder env c" "p_or ast_builder env c"
    "p_or_loop ast_builder env c" AOr for env c
  by unfold_locales simp_all

text \<open>Parentheses.\<close>

lemma parenthesized_reads:
  assumes "reads or_end (p_or ast_builder env c) ts a"
  shows "much (\<lambda>n. parse_parenthesized f (p_or ast_builder env c n) (tok TLParen # ts @ tok TRParen # rest)) (Some (Inr (f a, rest)))"
  by (rule much_one [OF readsD [OF assms stops_tok [of TRParen _ rest]]])
    (simp_all add: parse_parenthesized_def p_consume_def)

lemma reads_paren:
  assumes "reads or_end (p_or ast_builder env c) ts a"
  shows "reads term_end (p_term ast_builder env c) (parenthesized True ts) a"
  unfolding reads_def
proof (intro allI impI, rule much_Suc [OF much_Suc])
  fix rest
  show "much (\<lambda>n. p_term ast_builder env c (Suc (Suc n)) (parenthesized True ts @ rest)) (Some (Inr (a, rest)))"
    by (rule much_one [OF parenthesized_reads [OF assms, of "\<lambda>e. e" rest]])
      (simp add: parse_term_def parse_primary_def parenthesized_def)
qed

lemma reads_negate:
  assumes "reads or_end (p_or ast_builder env c) ts a"
  shows "reads term_end (p_term ast_builder env c) (tok TNeg # parenthesized True ts) (ANegate a)"
  unfolding reads_def
proof (intro allI impI, rule much_Suc)
  fix rest
  show "much (\<lambda>n. p_term ast_builder env c (Suc n) ((tok TNeg # parenthesized True ts) @ rest)) (Some (Inr (ANegate a, rest)))"
    by (rule much_one [OF parenthesized_reads [OF assms, of ANegate rest]])
      (simp add: parse_term_def parenthesized_def)
qed

text \<open>Operators on a key.\<close>

lemma reads_key:
  assumes "\<And>rest. stops term_end rest \<Longrightarrow> p_key ast_builder env c k (ts @ rest) = Some (Inr (a, rest))"
  shows "reads term_end (p_term ast_builder env c) (tok (TStr k) # ts) a"
  unfolding reads_def
proof (intro allI impI, rule much_Suc [OF much_Suc], rule muchI)
  fix rest n
  assume "stops term_end rest"
  then show "p_term ast_builder env c (Suc (Suc n)) ((tok (TStr k) # ts) @ rest) = Some (Inr (a, rest))"
    using assms by (simp add: parse_term_def parse_primary_def)
qed

lemma reads_alone:
  assumes "\<And>n rest. p_term ast_builder env c (Suc (Suc n)) (ts @ rest) = Some (Inr (a, rest))"
  shows "reads term_end (p_term ast_builder env c) ts a"
  unfolding reads_def by (intro allI impI, rule much_Suc [OF much_Suc], rule muchI) (rule assms)

lemma p_value_quoted [simp]: "p_value (tok (TQuotedStr v) # ts) = (v, True, ts)"
  by (simp add: p_value_def)

text \<open>Each tree is read at the level of a term with the parentheses of that level, and at the outer levels.\<close>

definition reads_all :: "ck_env \<Rightarrow> ck_ast \<Rightarrow> bool" where
  "reads_all env a \<longleftrightarrow>
     reads term_end (p_term ast_builder env False) (and_operand a) a \<and>
     reads and_end (p_and ast_builder env False) (or_operand a) a \<and>
     reads or_end (p_or ast_builder env False) (ast_tokens a) a"

lemma reads_all_term:
  assumes "reads term_end (p_term ast_builder env False) (ast_tokens a) a" "\<not> is_or a" "\<not> is_and a"
  shows "reads_all env a"
  using assms and_list.reads_one [OF assms(1)] or_list.reads_one [OF and_list.reads_one [OF assms(1)]]
  by (simp add: reads_all_def parenthesized_def)

lemma ast_tokens_read: "ast_grammar env a \<Longrightarrow> reads_all env a"
proof (induction a)
  case (AAnd es)
  have "\<forall>e \<in> set es. reads term_end (p_term ast_builder env False) (and_operand e) e"
    using AAnd by (auto simp: reads_all_def list_all_iff)
  then have a: "reads and_end (p_and ast_builder env False) (ast_tokens (AAnd es)) (AAnd es)"
    using and_list.reads_list [of es env False and_operand] AAnd.prems by simp
  note o = or_list.reads_one [OF a]
  show ?case using a o reads_paren [OF o] by (simp add: reads_all_def parenthesized_def)
next
  case (AOr es)
  have "\<forall>e \<in> set es. reads and_end (p_and ast_builder env False) (or_operand e) e"
    using AOr by (auto simp: reads_all_def list_all_iff)
  then have o: "reads or_end (p_or ast_builder env False) (ast_tokens (AOr es)) (AOr es)"
    using or_list.reads_list [of es env False or_operand] AOr.prems by simp
  show ?case using o reads_paren [OF o] and_list.reads_one [OF reads_paren [OF o]]
    by (simp add: reads_all_def parenthesized_def)
next
  case (ANegate a)
  then have "reads or_end (p_or ast_builder env False) (ast_tokens a) a" by (simp add: reads_all_def)
  then show ?case using reads_negate by (intro reads_all_term) simp_all
next
  case (AConst b)
  show ?case
    by (rule reads_all_term) (auto intro!: reads_alone simp: parse_term_def parse_primary_def)
next
  case (AHasNot k)
  show ?case by (rule reads_all_term) (auto intro!: reads_alone simp: parse_term_def)
next
  case (AHas k)
  show ?case
    by (rule reads_all_term) (auto intro!: reads_key [where ts = "[]", simplified] simp: p_key_def stops_def)
qed (auto intro!: reads_all_term reads_key
    simp: p_key_def p_equality_def p_comparison_def p_consume_def p_regex_def Let_def)

section \<open>The whole input\<close>

lemma parenthesized_not_eof:
  "t \<in> set (parenthesized b ts) \<Longrightarrow> \<forall>u \<in> set ts. tok_type u \<noteq> TEOF \<Longrightarrow> tok_type t \<noteq> TEOF"
  by (auto simp: parenthesized_def split: if_splits)

lemma set_tl: "t \<in> set (tl xs) \<Longrightarrow> t \<in> set xs"
  by (cases xs) auto

lemma ast_tokens_not_eof: "t \<in> set (ast_tokens a) \<Longrightarrow> tok_type t \<noteq> TEOF"
proof (induction a arbitrary: t)
  case (AAnd es)
  have "t \<in> set (concat (map (\<lambda>e. tok TAnd # and_operand e) es))"
    using AAnd.prems by (simp only: ast_tokens.simps set_tl)
  then consider "t = tok TAnd" | e where "e \<in> set es" "t \<in> set (and_operand e)" by (auto split: if_splits)
  then show ?case
  proof cases
    case (2 e)
    then show ?thesis using AAnd.IH [OF 2(1)] by (intro parenthesized_not_eof [OF 2(2)]) blast
  qed simp
next
  case (AOr es)
  have "t \<in> set (concat (map (\<lambda>e. tok TOr # or_operand e) es))"
    using AOr.prems by (simp only: ast_tokens.simps set_tl)
  then consider "t = tok TOr" | e where "e \<in> set es" "t \<in> set (or_operand e)" by (auto split: if_splits)
  then show ?case
  proof cases
    case (2 e)
    then show ?thesis using AOr.IH [OF 2(1)] by (intro parenthesized_not_eof [OF 2(2)]) blast
  qed simp
qed (auto simp: parenthesized_def)

lemma parse_ast_tokens:
  assumes "ast_grammar env a"
  defines "ts \<equiv> ast_tokens a @ [tok TEOF]"
  shows "parse_tokens ast_builder env False (parse_fuel ts) ts = Some (Inr a)"
proof -
  have "much (\<lambda>n. p_or ast_builder env False n ts) (Some (Inr (a, [tok TEOF])))"
    unfolding ts_def using ast_tokens_read [OF assms(1)] by (intro readsD [where S = or_end]) (simp_all add: reads_all_def stops_def)
  then have "much (\<lambda>n. parse_tokens ast_builder env False n ts) (Some (Inr a))"
    by (rule much_one) (simp add: parse_tokens_def p_isAtEnd_def)
  then obtain N where N: "\<forall>n \<ge> N. parse_tokens ast_builder env False n ts = Some (Inr a)"
    by (auto simp: much_def)
  have "eof_ended ts" using ast_tokens_not_eof unfolding eof_ended_def ts_def by fastforce
  then obtain x where x: "parse_tokens ast_builder env False (parse_fuel ts) ts = Some x"
    using parse_tokens_returns [of ts ast_builder env False] by auto
  then have "parse_tokens ast_builder env False (max N (parse_fuel ts)) ts = Some x"
    by (rule parse_tokens_mono) simp
  then show ?thesis using N x by simp
qed

end
