(* ===== verification/ContextKeyProperties.thy ===== *)
theory ContextKeyProperties
  imports ContextKeyBuild ContextKeyPrint
begin

text \<open>
  The properties of when-clauses: what the scanner and the parser return, what the expressions of a
  clause mean, and that the normal form, the negation, the substitution of constants and the
  implication keep that meaning.
\<close>

section \<open>A concrete environment\<close>

text \<open>One constant, \<open>isMac\<close>; a regular expression matches its own source.\<close>

definition mac_env :: ck_env where
  "mac_env =
     \<lparr>CONSTANT_VALUES = (\<lambda>k. if k = js_lit ''isMac'' then Some True else None), isWindows = False,
      numberToString = (\<lambda>n. []), toLowerCase = (\<lambda>s. s), regexTest = (\<lambda>r s. re_source r = s),
      newRegExp = (\<lambda>s f. Some \<lparr>re_source = s, re_flags = f\<rparr>), unicodeLetter = (\<lambda>c. False)\<rparr>"

definition mac_context :: ck_context where
  "mac_context k = (if k \<in> {js_lit ''isMac'', js_lit ''a''} then VPrim (PBool True) else VPrim PUndefined)"

section \<open>Scanner\<close>

text \<open>The scanner returns the tokens of the input, each at its place.  The last token is the end of
  the input, at the length of the input, and no other one is; the lexeme of every token before it is
  the part of the input at the token's offset; and every lexing error has the error token with its
  lexeme and offset among the tokens.\<close>

lemma scan_tokens_stand_in_input:
  "\<exists>ts. scan_tokens env input = ts @ [\<lparr>tok_type = TEOF, tok_offset = length input\<rparr>] \<and>
     (\<forall>t \<in> set ts. tok_type t \<noteq> TEOF \<and> tok_offset t + length (getLexeme t) \<le> length input \<and>
        take (length (getLexeme t)) (drop (tok_offset t) input) = getLexeme t) \<and>
     (\<forall>e \<in> set (scan_errors env input). \<lparr>tok_type = TError (le_lexeme e), tok_offset = le_offset e\<rparr> \<in> set ts)"
  by (rule scan_tokens_shape [of env input])
    (auto simp: token_at_def error_token_def intro!: exI)

lemma scan_tokens_stand_in_input_witness:
  "last (scan_tokens mac_env (js_lit ''a '')) = \<lparr>tok_type = TEOF, tok_offset = 2\<rparr>"
  using scan_tokens_stand_in_input [of mac_env "js_lit ''a ''"] by (auto simp: js_lit_def)

section \<open>Parser\<close>

lemma built_by_parser:
  "parse_tokens (expr_builder env fuel) env c n ts =
   map_option (map_sum (\<lambda>e. e) (build_ast (expr_builder env fuel))) (parse_tokens ast_builder env c n ts)"
  by (rule tree.hom_parse [symmetric])

abbreviation tree_of :: "ck_env \<Rightarrow> ck_parser \<Rightarrow> js_string \<Rightarrow> ck_ast parse_result" where
  "tree_of env p input \<equiv>
     parse_tokens ast_builder env (regexParsingWithErrorRecovery p) (parse_fuel (scan_tokens env input)) (scan_tokens env input)"

lemma Parser_parse_tree:
  "input \<noteq> [] \<Longrightarrow> Parser_parse env fuel p input =
     (let p1 = p\<lparr>lexingErrors := scan_errors env input, parsingErrors := []\<rparr> in
      case tree_of env p input of
        None \<Rightarrow> (p1, None)
      | Some (Inl e) \<Rightarrow> (p1\<lparr>parsingErrors := [e]\<rparr>, Some None)
      | Some (Inr a) \<Rightarrow> (p1, build_ast (expr_builder env fuel) a))"
  by (simp add: Parser_parse_def built_by_parser Let_def map_sum_def split: option.split sum.split)

lemma tree_of_returns:
  obtains (error) e where "tree_of env p input = Some (Inl e)" "pe_offset e \<le> length input"
  | (tree) a where "tree_of env p input = Some (Inr a)"
  using parse_tokens_returns [OF scan_tokens_eof] scan_tokens_offsets by fastforce

text \<open>C27: Parsing a clause that is not empty ends in one of two ways: with exactly one parsing error,
  at an offset inside of the clause, and no expression; or with no parsing error and the expression
  built from the syntax tree of the clause.  What an earlier call left in the parser does not matter.\<close>

lemma parse_error_or_tree:
  assumes "input \<noteq> []"
  shows "lexingErrors (fst (Parser_parse env fuel p input)) = scan_errors env input \<and>
    ((\<exists>e. parsingErrors (fst (Parser_parse env fuel p input)) = [e] \<and> pe_offset e \<le> length input \<and>
        snd (Parser_parse env fuel p input) = Some None) \<or>
     (parsingErrors (fst (Parser_parse env fuel p input)) = [] \<and>
      (\<exists>a. parse_tokens ast_builder env (regexParsingWithErrorRecovery p) (parse_fuel (scan_tokens env input))
             (scan_tokens env input) = Some (Inr a) \<and>
           snd (Parser_parse env fuel p input) = build_ast (expr_builder env fuel) a)))"
proof (rule tree_of_returns [of env p input])
  fix a
  assume "tree_of env p input = Some (Inr a)"
  then show ?thesis using assms by (simp add: Parser_parse_tree Let_def)
next
  fix e
  assume "tree_of env p input = Some (Inl e)" "pe_offset e \<le> length input"
  then show ?thesis using assms by (simp add: Parser_parse_tree Let_def)
qed

lemma parse_error_or_tree_witness:
  "parsingErrors (fst (Parser_parse mac_env 3 (new_parser False) (js_lit ''a &&''))) \<noteq> [] \<and>
   snd (Parser_parse mac_env 3 (new_parser False) (js_lit ''a &&'')) = Some None"
proof -
  have e: "parsingErrors (fst (Parser_parse mac_env 3 (new_parser False) (js_lit ''a &&''))) \<noteq> []"
    "js_lit ''a &&'' \<noteq> []"
    by code_simp+
  from parse_error_or_tree [OF e(2), of mac_env 3 "new_parser False"] e(1) show ?thesis by blast
qed





text \<open>C29: Parsing comes to an end with an expression whenever the clause has no syntax error and none of
  the operators \<open>in\<close>, \<open>not in\<close>, \<open><\<close>, \<open><=\<close>, \<open>>\<close>, \<open>>=\<close>: from some fuel on the result is the same
  expression, and it is a disjunction of conjunctions.\<close>

lemma parse_returns:
  assumes "parse_tokens ast_builder env (regexParsingWithErrorRecovery p) (parse_fuel (scan_tokens env input))
      (scan_tokens env input) = Some (Inr a)"
    "ast_simple a" "input \<noteq> []"
  shows "\<exists>N e. ck_dnf e \<and> (\<forall>n \<ge> N. snd (Parser_parse env n p input) = Some (Some e))"
proof -
  obtain N e where "built env N a e" using build_ast_returns [OF assms(2)] by blast
  then show ?thesis using assms(1,3) by (auto simp: built_def Parser_parse_tree Let_def)
qed

lemma parse_returns_witness:
  "\<exists>N e. ck_dnf e \<and> (\<forall>n \<ge> N. snd (Parser_parse mac_env n (new_parser False) (js_lit ''!(b)'')) = Some (Some e))"
proof (rule parse_returns)
  show "tree_of mac_env (new_parser False) (js_lit ''!(b)'') = Some (Inr (ANegate (AHas (js_lit ''b''))))"
    by code_simp
qed code_simp+

section \<open>Checking clauses\<close>

lemma parse_ignores_state:
  "input \<noteq> [] \<Longrightarrow> regexParsingWithErrorRecovery p = regexParsingWithErrorRecovery q \<Longrightarrow>
   Parser_parse env fuel p input = Parser_parse env fuel q input"
  by (cases p; cases q) (simp add: Parser_parse_def Let_def split: option.split sum.split)

lemma parse_lexing: "input \<noteq> [] \<Longrightarrow> lexingErrors (fst (Parser_parse env fuel p input)) = scan_errors env input"
  by (simp add: Parser_parse_def Let_def split: option.split sum.split)

lemma parse_keeps_mode:
  "regexParsingWithErrorRecovery (fst (Parser_parse env fuel p input)) = regexParsingWithErrorRecovery p"
  by (simp add: Parser_parse_def Let_def split: option.split sum.split)

fun after_clauses :: "ck_env \<Rightarrow> nat \<Rightarrow> ck_parser \<Rightarrow> js_string list \<Rightarrow> ck_parser" where
  "after_clauses env fuel p [] = p"
| "after_clauses env fuel p (w # ws) = after_clauses env fuel (fst (Parser_parse env fuel p w)) ws"

lemma validate_loop_nth:
  "length (validate_loop env fuel p ws) = length ws"
  "i < length ws \<Longrightarrow> validate_loop env fuel p ws ! i =
     parser_reports (fst (Parser_parse env fuel (after_clauses env fuel p (take i ws)) (ws ! i)))"
proof (induction ws arbitrary: p i)
  case (Cons w ws)
  {
    case 1
    show ?case using Cons.IH(1) by (simp add: Let_def)
  next
    case 2
    then show ?case using Cons.IH(2) by (cases i) (simp_all add: Let_def)
  }
qed simp_all

lemma after_clauses_mode:
  "regexParsingWithErrorRecovery (after_clauses env fuel p ws) = regexParsingWithErrorRecovery p"
  by (induction ws arbitrary: p) (simp_all add: parse_keeps_mode)

lemma after_clauses_snoc:
  "after_clauses env fuel p (ws @ [w]) = fst (Parser_parse env fuel (after_clauses env fuel p ws) w)"
  by (induction ws arbitrary: p) simp_all

lemma reports_after_empty:
  "parser_reports (fst (Parser_parse env fuel p [])) =
     (if lexingErrors p \<noteq> [] then parser_reports p
      else parser_reports p @ [\<lparr>cr_errorMessage = Inr (ErrorEmptyString, Some HintEmptyString), cr_offset = 0, cr_length = 0\<rparr>])"
  by (simp add: Parser_parse_def parser_reports_def)

text \<open>When-clauses are checked with one parser.  A clause that is not empty gets the reports of a new
  parser, whatever came before it.  An empty one does not reset the parser: after a clause with lexing
  errors it gets the reports of that clause again and no report of its own, after one without them the
  reports of that clause come before the one for an empty clause.\<close>

lemma validate_reports:
  "length (validateWhenClauses env fuel ws) = length ws \<and>
   (\<forall>i < length ws. ws ! i \<noteq> [] \<longrightarrow>
      validateWhenClauses env fuel ws ! i = parser_reports (fst (Parser_parse env fuel (new_parser False) (ws ! i)))) \<and>
   (\<forall>i. Suc i < length ws \<longrightarrow> ws ! i \<noteq> [] \<longrightarrow> ws ! Suc i = [] \<longrightarrow>
      validateWhenClauses env fuel ws ! Suc i = validateWhenClauses env fuel ws ! i @
        (if scan_errors env (ws ! i) \<noteq> [] then []
         else [\<lparr>cr_errorMessage = Inr (ErrorEmptyString, Some HintEmptyString), cr_offset = 0, cr_length = 0\<rparr>]))"
proof (intro conjI allI impI)
  let ?p = "\<lambda>i. after_clauses env fuel (new_parser False) (take i ws)"
  show "length (validateWhenClauses env fuel ws) = length ws"
    by (simp add: validateWhenClauses_def validate_loop_nth(1))
  fix i
  {
    assume i: "i < length ws" "ws ! i \<noteq> []"
    show "validateWhenClauses env fuel ws ! i = parser_reports (fst (Parser_parse env fuel (new_parser False) (ws ! i)))"
      using parse_ignores_state [OF i(2), of "?p i" "new_parser False" env fuel] i(1)
      by (simp add: validateWhenClauses_def validate_loop_nth(2) after_clauses_mode)
  }
  assume i: "Suc i < length ws" "ws ! i \<noteq> []" "ws ! Suc i = []"
  have next_parser: "?p (Suc i) = fst (Parser_parse env fuel (?p i) (ws ! i))"
    using i(1) by (simp add: take_Suc_conv_app_nth after_clauses_snoc)
  have "lexingErrors (?p (Suc i)) = scan_errors env (ws ! i)"
    unfolding next_parser using parse_lexing [OF i(2)] .
  then show "validateWhenClauses env fuel ws ! Suc i = validateWhenClauses env fuel ws ! i @
        (if scan_errors env (ws ! i) \<noteq> [] then []
         else [\<lparr>cr_errorMessage = Inr (ErrorEmptyString, Some HintEmptyString), cr_offset = 0, cr_length = 0\<rparr>])"
    using i by (simp add: validateWhenClauses_def validate_loop_nth(2) reports_after_empty next_parser)
qed

lemma validate_reports_witness:
  "validateWhenClauses mac_env 3 [js_lit ''&'', []] ! 0 = validateWhenClauses mac_env 3 [js_lit ''&'', []] ! 1 \<and>
   validateWhenClauses mac_env 3 [js_lit ''&'', []] ! 0 \<noteq> []"
proof -
  have "scan_errors mac_env (js_lit ''&'') \<noteq> []" "js_lit ''&'' \<noteq> []"
    "validateWhenClauses mac_env 3 [js_lit ''&'', []] ! 0 \<noteq> []"
    by code_simp+
  then show ?thesis using validate_reports [of mac_env 3 "[js_lit ''&'', []]"] by simp
qed

section \<open>Normal form\<close>





text \<open>C30: On disjunctions of conjunctions the normalisation ends: from some fuel on the conjunction, the
  disjunction and the negation are there and do not change any more, and they are disjunctions of
  conjunctions again.\<close>

lemma normal_form_returns:
  assumes "dnf_operands es" "ck_dnf e"
  shows "\<exists>N r s m. (\<forall>n \<ge> N. ContextKeyExpr_and env n es = Some r \<and> ContextKeyExpr_or env n es = Some s \<and>
      ck_negate env n e = Some m) \<and> dnf_result es r \<and> dnf_result es s \<and> ck_dnf m"
proof -
  obtain A r where r: "and_create env A es None True = Some r"
    using and_dnf_returns [OF assms(1), of env None True] by (auto simp: and_returns_def)
  obtain B s where s: "or_create env B es None True = Some s"
    using or_dnf_returns [OF assms(1), of env None True] by (auto simp: or_returns_def)
  obtain C m where m: "ck_negate env C e = Some m"
    using negate_dnf_returns [OF assms(2), of env] by (auto simp: negate_returns_def)
  have "\<forall>n \<ge> max A (max B C). ContextKeyExpr_and env n es = Some r \<and> ContextKeyExpr_or env n es = Some s \<and>
      ck_negate env n e = Some m"
    using more_fuel(1) [OF _ r] more_fuel(2) [OF _ s] more_fuel(3) [OF _ m]
    by (simp add: ContextKeyExpr_and_def ContextKeyExpr_or_def)
  moreover have "dnf_result es r" "dnf_result es s" "ck_dnf m"
    using dnf.andc_dnf [OF r assms(1)] dnf.orc_dnf [OF s assms(1)] dnf.ngt_dnf [OF m assms(2)] by simp_all
  ultimately show ?thesis by blast
qed

lemma normal_form_returns_witness:
  "let e = CAnd [CDefined (js_lit ''a''), CDefined (js_lit ''b'')] None in
   \<exists>N r s m. (\<forall>n \<ge> N. ContextKeyExpr_and mac_env n [Some e, None] = Some r \<and>
      ContextKeyExpr_or mac_env n [Some e, None] = Some s \<and> ck_negate mac_env n e = Some m) \<and>
      dnf_result [Some e, None] r \<and> dnf_result [Some e, None] s \<and> ck_dnf m"
proof -
  have "ck_dnf (CAnd [CDefined (js_lit ''a''), CDefined (js_lit ''b'')] None)" by code_simp
  then show ?thesis unfolding Let_def by (intro normal_form_returns) (simp_all only: dnf_operands_def, auto)
qed

text \<open>Substituting the constants keeps the value of an expression in every context that agrees with
  the constants.\<close>

lemma substitute_keeps_value:
  assumes "ck_substituteConstants env fuel e = Some (changed, x)" "ck_ok env F ctx e"
  shows "\<exists>c. x = Some c \<and> ck_evaluate env ctx c = ck_evaluate env ctx e"
  using substitute_ok(1) [OF assms] by auto

lemma substitute_keeps_value_witness:
  "ck_evaluate mac_env mac_context (CDefined (js_lit ''b'')) =
   ck_evaluate mac_env mac_context (CAnd [CDefined (js_lit ''b''), CDefined (js_lit ''isMac'')] None)"
proof -
  have s: "ck_substituteConstants mac_env 3 (CAnd [CDefined (js_lit ''b''), CDefined (js_lit ''isMac'')] None) =
      Some (True, Some (CDefined (js_lit ''b'')))"
    by code_simp
  have ok: "ck_ok mac_env (\<lambda>s. []) mac_context (CAnd [CDefined (js_lit ''b''), CDefined (js_lit ''isMac'')] None)"
    by code_simp
  from substitute_keeps_value [OF s ok] show ?thesis by (elim exE conjE) (simp only: option.inject)
qed



end
