(* ===== verification/KeybindingProperties.thy ===== *)
theory KeybindingProperties
  imports KeybindingProofs ContextKeyProperties
begin

text \<open>
  The properties of the keybinding resolver, over the when-clauses: what a sequence of chords runs, which
  rules a removal takes out, and which keybindings of a command are not found from it.
\<close>

section \<open>A concrete resolver\<close>







section \<open>Resolving\<close>



section \<open>Removals\<close>



section \<open>Keybindings of a command\<close>



end
