(* ===== verification/DiffSequences.thy ===== *)
theory DiffSequences
  imports OffsetRanges
begin

text \<open>
  \<open>src/vs/editor/common/diff/defaultLinesDiffComputer/algorithms/diffAlgorithm.ts\<close>: the
  interface of a sequence, the result of a diff algorithm, and a difference as a pair of offset
  ranges.  \<open>is_diff\<close> is the contract of a diff: sorted differences whose gaps are equal in both
  sequences; \<open>patch\<close> applies a diff, and a diff that keeps the contract turns the first sequence
  into the second.
\<close>

section \<open>Sequences, offset pairs and differences\<close>

text \<open>
  An \<open>ISequence\<close> is the record of its members.  \<open>getElement\<close> gives \<open>None\<close> for the
  \<open>undefined\<close> an implementation reads outside its array.
\<close>

record ISequence =
  sq_getElement :: "int \<Rightarrow> int option"
  sq_length :: int
  sq_getBoundaryScore :: "(int \<Rightarrow> int result) option"
  sq_isStronglyEqual :: "int \<Rightarrow> int \<Rightarrow> bool"

record OffsetPair =
  op_offset1 :: int
  op_offset2 :: int

abbreviation mk_op :: "int \<Rightarrow> int \<Rightarrow> OffsetPair" where
  "mk_op a b \<equiv> \<lparr>op_offset1 = a, op_offset2 = b\<rparr>"

definition OffsetPair_zero :: OffsetPair where
  "OffsetPair_zero = mk_op 0 0"

definition OffsetPair_max :: OffsetPair where
  "OffsetPair_max = mk_op 9007199254740991 9007199254740991"

definition OffsetPair_delta :: "OffsetPair \<Rightarrow> int \<Rightarrow> OffsetPair" where
  "OffsetPair_delta p offset =
     (if offset = 0 then p else mk_op (op_offset1 p + offset) (op_offset2 p + offset))"

definition OffsetPair_equals :: "OffsetPair \<Rightarrow> OffsetPair \<Rightarrow> bool" where
  "OffsetPair_equals p other \<longleftrightarrow> op_offset1 p = op_offset1 other \<and> op_offset2 p = op_offset2 other"

record SequenceDiff =
  sd_seq1Range :: OffsetRange
  sd_seq2Range :: OffsetRange

abbreviation mk_sd :: "OffsetRange \<Rightarrow> OffsetRange \<Rightarrow> SequenceDiff" where
  "mk_sd r1 r2 \<equiv> \<lparr>sd_seq1Range = r1, sd_seq2Range = r2\<rparr>"

abbreviation start1 :: "SequenceDiff \<Rightarrow> int" where "start1 d \<equiv> or_start (sd_seq1Range d)"
abbreviation start2 :: "SequenceDiff \<Rightarrow> int" where "start2 d \<equiv> or_start (sd_seq2Range d)"
abbreviation end1 :: "SequenceDiff \<Rightarrow> int" where "end1 d \<equiv> or_endExclusive (sd_seq1Range d)"
abbreviation end2 :: "SequenceDiff \<Rightarrow> int" where "end2 d \<equiv> or_endExclusive (sd_seq2Range d)"

text \<open>Two ranges built one after the other: the first that throws ends the expression.\<close>

definition new_SequenceDiff :: "OffsetRange result \<Rightarrow> OffsetRange result \<Rightarrow> SequenceDiff result" where
  "new_SequenceDiff r1 r2 = bind_result r1 (\<lambda>a. bind_result r2 (\<lambda>b. Ok (mk_sd a b)))"

definition SequenceDiff_fromOffsetPairs :: "OffsetPair \<Rightarrow> OffsetPair \<Rightarrow> SequenceDiff result" where
  "SequenceDiff_fromOffsetPairs st en =
     new_SequenceDiff (new_OffsetRange (op_offset1 st) (op_offset1 en))
                      (new_OffsetRange (op_offset2 st) (op_offset2 en))"

definition SequenceDiff_swap :: "SequenceDiff \<Rightarrow> SequenceDiff" where
  "SequenceDiff_swap d = mk_sd (sd_seq2Range d) (sd_seq1Range d)"

definition SequenceDiff_join :: "SequenceDiff \<Rightarrow> SequenceDiff \<Rightarrow> SequenceDiff result" where
  "SequenceDiff_join d other =
     new_SequenceDiff (OffsetRange_join (sd_seq1Range d) (sd_seq1Range other))
                      (OffsetRange_join (sd_seq2Range d) (sd_seq2Range other))"

definition SequenceDiff_delta :: "SequenceDiff \<Rightarrow> int \<Rightarrow> SequenceDiff result" where
  "SequenceDiff_delta d offset =
     (if offset = 0 then Ok d
      else new_SequenceDiff (OffsetRange_delta (sd_seq1Range d) offset)
                            (OffsetRange_delta (sd_seq2Range d) offset))"

definition SequenceDiff_deltaStart :: "SequenceDiff \<Rightarrow> int \<Rightarrow> SequenceDiff result" where
  "SequenceDiff_deltaStart d offset =
     (if offset = 0 then Ok d
      else new_SequenceDiff (OffsetRange_deltaStart (sd_seq1Range d) offset)
                            (OffsetRange_deltaStart (sd_seq2Range d) offset))"

definition SequenceDiff_deltaEnd :: "SequenceDiff \<Rightarrow> int \<Rightarrow> SequenceDiff result" where
  "SequenceDiff_deltaEnd d offset =
     (if offset = 0 then Ok d
      else new_SequenceDiff (OffsetRange_deltaEnd (sd_seq1Range d) offset)
                            (OffsetRange_deltaEnd (sd_seq2Range d) offset))"

definition SequenceDiff_intersectsOrTouches :: "SequenceDiff \<Rightarrow> SequenceDiff \<Rightarrow> bool" where
  "SequenceDiff_intersectsOrTouches d other \<longleftrightarrow>
     OffsetRange_intersectsOrTouches (sd_seq1Range d) (sd_seq1Range other) \<or>
     OffsetRange_intersectsOrTouches (sd_seq2Range d) (sd_seq2Range other)"

definition SequenceDiff_intersect :: "SequenceDiff \<Rightarrow> SequenceDiff \<Rightarrow> SequenceDiff option result" where
  "SequenceDiff_intersect d other =
     bind_result (OffsetRange_intersect (sd_seq1Range d) (sd_seq1Range other)) (\<lambda>i1.
     bind_result (OffsetRange_intersect (sd_seq2Range d) (sd_seq2Range other)) (\<lambda>i2.
     (case (i1, i2) of
        (Some a, Some b) \<Rightarrow> Ok (Some (mk_sd a b))
      | _ \<Rightarrow> Ok None)))"

definition SequenceDiff_getStarts :: "SequenceDiff \<Rightarrow> OffsetPair" where
  "SequenceDiff_getStarts d = mk_op (start1 d) (start2 d)"

definition SequenceDiff_getEndExclusives :: "SequenceDiff \<Rightarrow> OffsetPair" where
  "SequenceDiff_getEndExclusives d = mk_op (end1 d) (end2 d)"

text \<open>\<open>assertSorted\<close>: the loop carries the previous difference.\<close>

fun assertSorted_loop :: "SequenceDiff option \<Rightarrow> SequenceDiff list \<Rightarrow> unit result" where
  "assertSorted_loop prev [] = Ok ()"
| "assertSorted_loop prev (cur # ds) =
     (case prev of
        None \<Rightarrow> assertSorted_loop (Some cur) ds
      | Some p \<Rightarrow>
          if end1 p \<le> start1 cur \<and> end2 p \<le> start2 cur then assertSorted_loop (Some cur) ds
          else Throw BugIndicatingError)"

definition SequenceDiff_assertSorted :: "SequenceDiff list \<Rightarrow> unit result" where
  "SequenceDiff_assertSorted sequenceDiffs = assertSorted_loop None sequenceDiffs"

text \<open>\<open>forEachAdjacent\<close> visits each pair of neighbours, with a gap before and after the array.\<close>

fun forEachAdjacent :: "'a option \<Rightarrow> 'a list \<Rightarrow> ('a option \<times> 'a option) list" where
  "forEachAdjacent before [] = [(before, None)]"
| "forEachAdjacent before (x # xs) = (before, Some x) # forEachAdjacent (Some x) xs"

fun collect_results :: "('a \<Rightarrow> 'b result) \<Rightarrow> 'a list \<Rightarrow> 'b list result" where
  "collect_results f [] = Ok []"
| "collect_results f (x # xs) = bind_result (f x) (\<lambda>y. bind_result (collect_results f xs) (\<lambda>ys. Ok (y # ys)))"

definition invert_between :: "int \<Rightarrow> SequenceDiff option \<times> SequenceDiff option \<Rightarrow> SequenceDiff result" where
  "invert_between doc1Length ab =
     SequenceDiff_fromOffsetPairs
       (case fst ab of Some a \<Rightarrow> SequenceDiff_getEndExclusives a | None \<Rightarrow> OffsetPair_zero)
       (case snd ab of
          Some b \<Rightarrow> SequenceDiff_getStarts b
        | None \<Rightarrow> mk_op doc1Length ((case fst ab of Some a \<Rightarrow> end2 a - end1 a | None \<Rightarrow> 0) + doc1Length))"

definition SequenceDiff_invert :: "SequenceDiff list \<Rightarrow> int \<Rightarrow> SequenceDiff list result" where
  "SequenceDiff_invert sequenceDiffs doc1Length =
     collect_results (invert_between doc1Length) (forEachAdjacent None sequenceDiffs)"

section \<open>Results\<close>

record DiffAlgorithmResult =
  dr_diffs :: "SequenceDiff list"
  dr_hitTimeout :: bool

definition trivial_diff :: "ISequence \<Rightarrow> ISequence \<Rightarrow> bool \<Rightarrow> DiffAlgorithmResult result" where
  "trivial_diff seq1 seq2 hit =
     bind_result (new_SequenceDiff (OffsetRange_ofLength (sq_length seq1)) (OffsetRange_ofLength (sq_length seq2)))
       (\<lambda>d. Ok \<lparr>dr_diffs = [d], dr_hitTimeout = hit\<rparr>)"

definition DiffAlgorithmResult_trivial :: "ISequence \<Rightarrow> ISequence \<Rightarrow> DiffAlgorithmResult result" where
  "DiffAlgorithmResult_trivial seq1 seq2 = trivial_diff seq1 seq2 False"

definition DiffAlgorithmResult_trivialTimedOut :: "ISequence \<Rightarrow> ISequence \<Rightarrow> DiffAlgorithmResult result" where
  "DiffAlgorithmResult_trivialTimedOut seq1 seq2 = trivial_diff seq1 seq2 True"

section \<open>The contract of a diff\<close>

text \<open>
  \<open>is_diff_from s1 s2 a b ds\<close>: from offset \<open>a\<close> of the first sequence and \<open>b\<close> of the
  second, the differences follow each other, the parts between them are equal element by
  element, and the part after the last one reaches the end of both.
\<close>

definition same_part :: "ISequence \<Rightarrow> ISequence \<Rightarrow> int \<Rightarrow> int \<Rightarrow> int \<Rightarrow> bool" where
  "same_part s1 s2 a b len \<longleftrightarrow>
     (\<forall>i. 0 \<le> i \<and> i < len \<longrightarrow> sq_getElement s1 (a + i) = sq_getElement s2 (b + i))"

fun is_diff_from :: "ISequence \<Rightarrow> ISequence \<Rightarrow> int \<Rightarrow> int \<Rightarrow> SequenceDiff list \<Rightarrow> bool" where
  "is_diff_from s1 s2 a b [] \<longleftrightarrow>
     a \<le> sq_length s1 \<and> sq_length s2 = b + (sq_length s1 - a) \<and> same_part s1 s2 a b (sq_length s1 - a)"
| "is_diff_from s1 s2 a b (d # ds) \<longleftrightarrow>
     a \<le> start1 d \<and> start2 d = b + (start1 d - a) \<and> same_part s1 s2 a b (start1 d - a) \<and>
     start1 d \<le> end1 d \<and> start2 d \<le> end2 d \<and> is_diff_from s1 s2 (end1 d) (end2 d) ds"

abbreviation is_diff :: "ISequence \<Rightarrow> ISequence \<Rightarrow> SequenceDiff list \<Rightarrow> bool" where
  "is_diff s1 s2 ds \<equiv> is_diff_from s1 s2 0 0 ds"

text \<open>The elements from one offset to another, and the application of a diff.\<close>

definition part :: "ISequence \<Rightarrow> int \<Rightarrow> int \<Rightarrow> int option list" where
  "part s a b = map (sq_getElement s) [a..b - 1]"

fun patch :: "ISequence \<Rightarrow> ISequence \<Rightarrow> int \<Rightarrow> SequenceDiff list \<Rightarrow> int option list" where
  "patch s1 s2 a [] = part s1 a (sq_length s1)"
| "patch s1 s2 a (d # ds) = part s1 a (start1 d) @ part s2 (start2 d) (end2 d) @ patch s1 s2 (end1 d) ds"

text \<open>
  Proper differences: none is empty, and an equal element stands between two of them.  The first
  number is an offset before the first difference.
\<close>

fun separated_from :: "int \<Rightarrow> SequenceDiff list \<Rightarrow> bool" where
  "separated_from a [] \<longleftrightarrow> True"
| "separated_from a (d # ds) \<longleftrightarrow>
     a < start1 d \<and> (start1 d < end1 d \<or> start2 d < end2 d) \<and> separated_from (end1 d) ds"

abbreviation proper_diffs :: "SequenceDiff list \<Rightarrow> bool" where
  "proper_diffs ds \<equiv> separated_from (- 1) ds"

section \<open>Lemmas\<close>

lemma new_SequenceDiff_ok [simp]: "new_SequenceDiff (Ok a) (Ok b) = Ok (mk_sd a b)"
  by (simp add: new_SequenceDiff_def)

lemma same_part_0 [simp]: "len \<le> 0 \<Longrightarrow> same_part s1 s2 a b len"
  by (auto simp: same_part_def)

lemma same_part_split:
  assumes "0 \<le> m" "0 \<le> n"
  shows "same_part s1 s2 a b (m + n) \<longleftrightarrow> same_part s1 s2 a b m \<and> same_part s1 s2 (a + m) (b + m) n"
proof
  assume same: "same_part s1 s2 a b (m + n)"
  have "sq_getElement s1 (a + m + i) = sq_getElement s2 (b + m + i)" if "0 \<le> i" "i < n" for i
    using same [unfolded same_part_def, rule_format, of "m + i"] that assms by (simp add: add.assoc)
  then show "same_part s1 s2 a b m \<and> same_part s1 s2 (a + m) (b + m) n"
    using same assms by (auto simp: same_part_def)
next
  assume same: "same_part s1 s2 a b m \<and> same_part s1 s2 (a + m) (b + m) n"
  have "sq_getElement s1 (a + i) = sq_getElement s2 (b + i)" if "0 \<le> i" "i < m + n" for i
  proof (cases "i < m")
    case False
    then show ?thesis
      using same [unfolded same_part_def, THEN conjunct2, rule_format, of "i - m"] that by simp
  qed (use same that in \<open>auto simp: same_part_def\<close>)
  then show "same_part s1 s2 a b (m + n)"
    by (simp add: same_part_def)
qed

lemma part_split: "a \<le> b \<Longrightarrow> b \<le> c \<Longrightarrow> part s a c = part s a b @ part s b c"
  unfolding part_def map_append [symmetric]
  by (cases "a = b \<or> b = c") (auto simp: upto_split1 [of a b "c - 1"] upto_split2 [of a "b - 1" "c - 1"])

lemma part_same:
  assumes "same_part s1 s2 a b (c - a)" "c - a = d - b"
  shows "part s1 a c = part s2 b d"
proof (rule nth_equalityI)
  show "length (part s1 a c) = length (part s2 b d)"
    using assms by (simp add: part_def)
  show "part s1 a c ! i = part s2 b d ! i" if "i < length (part s1 a c)" for i
    using that assms(2) assms(1) [unfolded same_part_def, rule_format, of "int i"]
    by (simp add: part_def)
qed

lemma is_diff_from_le: "is_diff_from s1 s2 a b ds \<Longrightarrow> a \<le> sq_length s1 \<and> b \<le> sq_length s2"
  by (induction ds arbitrary: a b) fastforce+

lemma patch_is_diff_from:
  "is_diff_from s1 s2 a b ds \<Longrightarrow> patch s1 s2 a ds = part s2 b (sq_length s2)"
proof (induction ds arbitrary: a b)
  case Nil
  then show ?case by (auto intro: part_same)
next
  case (Cons d ds)
  have ends: "end2 d \<le> sq_length s2"
    using Cons.prems is_diff_from_le [of s1 s2 "end1 d" "end2 d" ds] by simp
  have "part s1 a (start1 d) = part s2 b (start2 d)"
    using Cons.prems by (auto intro: part_same)
  moreover have "part s2 b (start2 d) @ part s2 (start2 d) (end2 d) = part s2 b (end2 d)"
    using Cons.prems by (simp flip: part_split)
  moreover have "part s2 b (end2 d) @ part s2 (end2 d) (sq_length s2) = part s2 b (sq_length s2)"
    using Cons.prems ends by (simp flip: part_split)
  moreover have "patch s1 s2 (end1 d) ds = part s2 (end2 d) (sq_length s2)"
    using Cons.prems by (intro Cons.IH) simp
  ultimately show ?case
    by (metis append_assoc patch.simps(2))
qed

lemma is_diff_sorted_loop:
  "is_diff_from s1 s2 (end1 p) (end2 p) ds \<Longrightarrow> assertSorted_loop (Some p) ds = Ok ()"
  by (induction ds arbitrary: p) auto

lemma is_diff_assertSorted: "is_diff_from s1 s2 a b ds \<Longrightarrow> SequenceDiff_assertSorted ds = Ok ()"
  by (cases ds) (auto simp: SequenceDiff_assertSorted_def intro: is_diff_sorted_loop)

lemma trivial_diff_ok:
  assumes "0 \<le> sq_length s1" "0 \<le> sq_length s2"
  shows "trivial_diff s1 s2 hit =
    Ok \<lparr>dr_diffs = [mk_sd (mk_or 0 (sq_length s1)) (mk_or 0 (sq_length s2))], dr_hitTimeout = hit\<rparr>"
  using assms by (simp add: trivial_diff_def OffsetRange_ofLength_def new_OffsetRange_def)

lemma trivial_is_diff:
  assumes "0 \<le> sq_length s1" "0 \<le> sq_length s2"
  shows "is_diff s1 s2 [mk_sd (mk_or 0 (sq_length s1)) (mk_or 0 (sq_length s2))]"
  using assms by simp

lemma separated_from_mono: "separated_from a ds \<Longrightarrow> b \<le> a \<Longrightarrow> separated_from b ds"
  by (cases ds) auto

lemma is_diff_from_extend:
  assumes "is_diff_from s1 s2 (a + n) (b + n) ds" "same_part s1 s2 a b n" "0 \<le> n"
  shows "is_diff_from s1 s2 a b ds"
proof (cases ds)
  case Nil
  then show ?thesis
    using assms same_part_split [of n "sq_length s1 - (a + n)" s1 s2 a b] by (auto simp: algebra_simps)
next
  case (Cons d ds')
  then show ?thesis
    using assms same_part_split [of n "start1 d - (a + n)" s1 s2 a b] by (auto simp: algebra_simps)
qed

lemma same_part_1: "same_part s1 s2 a b 1 \<longleftrightarrow> sq_getElement s1 a = sq_getElement s2 b"
proof -
  have "0 \<le> i \<and> i < 1 \<longleftrightarrow> i = 0" for i :: int
    by auto
  then show ?thesis by (simp add: same_part_def)
qed

lemma is_diff_from_step:
  assumes "is_diff_from s1 s2 (a + 1) (b + 1) ds" "sq_getElement s1 a = sq_getElement s2 b"
  shows "is_diff_from s1 s2 a b ds"
  using assms(2) by (intro is_diff_from_extend [OF assms(1)]) (auto simp: same_part_1)

end
