(* ===== verification/DiffDynamic.thy ===== *)
theory DiffDynamic
  imports DiffSequences PrefixSums
begin

text \<open>
  \<open>algorithms/dynamicProgrammingDiffing.ts\<close> of
  \<open>src/vs/editor/common/diff/defaultLinesDiffComputer\<close>, with \<open>Array2D\<close> of its \<open>utils.ts\<close>.

  A number is an option: \<open>None\<close> is the \<open>undefined\<close> of a cell that was never written, and the
  \<open>NaN\<close> arithmetic makes of it; no comparison with it holds.  The scores are of any ordered
  ring, so that the fractional scores the line diff passes are covered.  The timeout is a
  function of the number of times it was asked.
\<close>

section \<open>Numbers that may be undefined\<close>

type_synonym 'n num = "'n option"

fun nan_add :: "('n::linordered_idom) num \<Rightarrow> 'n num \<Rightarrow> 'n num" where
  "nan_add (Some x) (Some y) = Some (x + y)"
| "nan_add _ _ = None"

fun nan_max :: "('n::linordered_idom) num \<Rightarrow> 'n num \<Rightarrow> 'n num" where
  "nan_max (Some x) (Some y) = Some (max x y)"
| "nan_max _ _ = None"

fun nan_min :: "('n::linordered_idom) num \<Rightarrow> 'n num \<Rightarrow> 'n num" where
  "nan_min (Some x) (Some y) = Some (min x y)"
| "nan_min _ _ = None"

fun nan_eq :: "('n::linordered_idom) num \<Rightarrow> 'n num \<Rightarrow> bool" where
  "nan_eq (Some x) (Some y) \<longleftrightarrow> x = y"
| "nan_eq _ _ \<longleftrightarrow> False"

fun nan_less :: "('n::linordered_idom) num \<Rightarrow> 'n num \<Rightarrow> bool" where
  "nan_less (Some x) (Some y) \<longleftrightarrow> x < y"
| "nan_less _ _ \<longleftrightarrow> False"

section \<open>Two-dimensional arrays\<close>

record 'n Array2D =
  a2_width :: int
  a2_height :: int
  a2_array :: "'n option list"

definition new_Array2D :: "int \<Rightarrow> int \<Rightarrow> 'n Array2D" where
  "new_Array2D w h = \<lparr>a2_width = w, a2_height = h, a2_array = replicate (nat (w * h)) None\<rparr>"

definition Array2D_get :: "'n Array2D \<Rightarrow> int \<Rightarrow> int \<Rightarrow> 'n option" where
  "Array2D_get t x y = js_read (a2_array t) (x + y * a2_width t)"

definition Array2D_set :: "'n Array2D \<Rightarrow> int \<Rightarrow> int \<Rightarrow> 'n option \<Rightarrow> 'n Array2D" where
  "Array2D_set t x y value = t\<lparr>a2_array := js_put (a2_array t) (x + y * a2_width t) value\<rparr>"

section \<open>Filling the tables\<close>

record 'n dp_tables =
  dp_lcsLengths :: "'n Array2D"
  dp_directions :: "'n Array2D"
  dp_lengths :: "'n Array2D"

text \<open>
  The score of aligning the two elements: the score of the cell before both, the length of the
  diagonal that ends there when that cell was reached diagonally, and the score of the pair.
\<close>

definition extendedSeqScore ::
  "ISequence \<Rightarrow> ISequence \<Rightarrow> (int \<Rightarrow> int \<Rightarrow> 'n::linordered_idom) option \<Rightarrow> 'n dp_tables \<Rightarrow> int \<Rightarrow> int \<Rightarrow> 'n num"
where
  "extendedSeqScore sequence1 sequence2 equalityScore t s1 s2 =
     (if sq_getElement sequence1 s1 = sq_getElement sequence2 s2 then
        let base = (if s1 = 0 \<or> s2 = 0 then Some 0 else Array2D_get (dp_lcsLengths t) (s1 - 1) (s2 - 1));
            diagonal = (if s1 > 0 \<and> s2 > 0 \<and> nan_eq (Array2D_get (dp_directions t) (s1 - 1) (s2 - 1)) (Some 3)
                        then nan_add base (Array2D_get (dp_lengths t) (s1 - 1) (s2 - 1)) else base)
        in nan_add diagonal (Some (case equalityScore of Some f \<Rightarrow> f s1 s2 | None \<Rightarrow> 1))
      else Some (- 1))"

definition dp_cell ::
  "ISequence \<Rightarrow> ISequence \<Rightarrow> (int \<Rightarrow> int \<Rightarrow> 'n::linordered_idom) option \<Rightarrow> int \<Rightarrow> int \<Rightarrow> 'n dp_tables \<Rightarrow> 'n dp_tables"
where
  "dp_cell sequence1 sequence2 equalityScore s1 s2 t =
     (let horizontalLen = (if s1 = 0 then Some 0 else Array2D_get (dp_lcsLengths t) (s1 - 1) s2);
          verticalLen = (if s2 = 0 then Some 0 else Array2D_get (dp_lcsLengths t) s1 (s2 - 1));
          extended = extendedSeqScore sequence1 sequence2 equalityScore t s1 s2;
          newValue = nan_max (nan_max horizontalLen verticalLen) extended;
          t1 =
            (if nan_eq newValue extended then
               let prevLen = (if s1 > 0 \<and> s2 > 0 then Array2D_get (dp_lengths t) (s1 - 1) (s2 - 1) else Some 0)
               in t\<lparr>dp_lengths := Array2D_set (dp_lengths t) s1 s2 (nan_add prevLen (Some 1)),
                    dp_directions := Array2D_set (dp_directions t) s1 s2 (Some 3)\<rparr>
             else if nan_eq newValue horizontalLen then
               t\<lparr>dp_lengths := Array2D_set (dp_lengths t) s1 s2 (Some 0),
                 dp_directions := Array2D_set (dp_directions t) s1 s2 (Some 1)\<rparr>
             else if nan_eq newValue verticalLen then
               t\<lparr>dp_lengths := Array2D_set (dp_lengths t) s1 s2 (Some 0),
                 dp_directions := Array2D_set (dp_directions t) s1 s2 (Some 2)\<rparr>
             else t)
      in t1\<lparr>dp_lcsLengths := Array2D_set (dp_lcsLengths t1) s1 s2 newValue\<rparr>)"

text \<open>The two loops; \<open>None\<close> is the early return of a timeout that has run out.\<close>

fun dp_row ::
  "ISequence \<Rightarrow> ISequence \<Rightarrow> (int \<Rightarrow> int \<Rightarrow> 'n::linordered_idom) option \<Rightarrow> (nat \<Rightarrow> bool) \<Rightarrow> int \<Rightarrow> int list \<Rightarrow>
   nat \<Rightarrow> 'n dp_tables \<Rightarrow> (nat \<times> 'n dp_tables) option"
where
  "dp_row sequence1 sequence2 equalityScore isValid s1 [] asked t = Some (asked, t)"
| "dp_row sequence1 sequence2 equalityScore isValid s1 (s2 # rest) asked t =
     (if \<not> isValid asked then None
      else dp_row sequence1 sequence2 equalityScore isValid s1 rest (Suc asked)
             (dp_cell sequence1 sequence2 equalityScore s1 s2 t))"

fun dp_rows ::
  "ISequence \<Rightarrow> ISequence \<Rightarrow> (int \<Rightarrow> int \<Rightarrow> 'n::linordered_idom) option \<Rightarrow> (nat \<Rightarrow> bool) \<Rightarrow> int list \<Rightarrow>
   nat \<Rightarrow> 'n dp_tables \<Rightarrow> 'n dp_tables option"
where
  "dp_rows sequence1 sequence2 equalityScore isValid [] asked t = Some t"
| "dp_rows sequence1 sequence2 equalityScore isValid (s1 # rest) asked t =
     (case dp_row sequence1 sequence2 equalityScore isValid s1 (upto_from 0 (nat (sq_length sequence2))) asked t of
        None \<Rightarrow> None
      | Some (asked', t') \<Rightarrow> dp_rows sequence1 sequence2 equalityScore isValid rest asked' t')"

section \<open>Backtracking\<close>

record back_state =
  bs_result :: "SequenceDiff list"
  bs_lastAligningPosS1 :: int
  bs_lastAligningPosS2 :: int

text \<open>A \<open>push\<close> appends; the result is reversed at the end.\<close>

definition push_unaligned :: "int \<Rightarrow> int \<Rightarrow> back_state \<Rightarrow> back_state result" where
  "push_unaligned p1 p2 st =
     (if p1 \<noteq> bs_lastAligningPosS1 st \<or> p2 \<noteq> bs_lastAligningPosS2 st then
        bind_result (new_SequenceDiff (new_OffsetRange p1 (bs_lastAligningPosS1 st))
                                      (new_OffsetRange p2 (bs_lastAligningPosS2 st)))
          (\<lambda>d. Ok (st\<lparr>bs_result := bs_result st @ [d]\<rparr>))
      else Ok st)"

definition reportDecreasingAligningPositions :: "int \<Rightarrow> int \<Rightarrow> back_state \<Rightarrow> back_state result" where
  "reportDecreasingAligningPositions s1 s2 st =
     bind_result (push_unaligned (s1 + 1) (s2 + 1) st)
       (\<lambda>st1. Ok (st1\<lparr>bs_lastAligningPosS1 := s1, bs_lastAligningPosS2 := s2\<rparr>))"

function dp_backtrack :: "('n::linordered_idom) Array2D \<Rightarrow> int \<Rightarrow> int \<Rightarrow> back_state \<Rightarrow> back_state result" where
  "dp_backtrack directions s1 s2 st =
     (if s1 \<ge> 0 \<and> s2 \<ge> 0 then
        if nan_eq (Array2D_get directions s1 s2) (Some 3) then
          bind_result (reportDecreasingAligningPositions s1 s2 st) (dp_backtrack directions (s1 - 1) (s2 - 1))
        else if nan_eq (Array2D_get directions s1 s2) (Some 1) then dp_backtrack directions (s1 - 1) s2 st
        else dp_backtrack directions s1 (s2 - 1) st
      else Ok st)"
  by pat_completeness auto
termination
  by (relation "measure (\<lambda>(d, s1, s2, st). nat (s1 + 1) + nat (s2 + 1))") auto

declare dp_backtrack.simps [simp del]

definition DynamicProgrammingDiffing_compute ::
  "ISequence \<Rightarrow> ISequence \<Rightarrow> (nat \<Rightarrow> bool) \<Rightarrow> (int \<Rightarrow> int \<Rightarrow> 'n::linordered_idom) option \<Rightarrow> DiffAlgorithmResult result"
where
  "DynamicProgrammingDiffing_compute sequence1 sequence2 isValid equalityScore =
     (let n = sq_length sequence1; m = sq_length sequence2; empty = new_Array2D n m :: 'n Array2D in
      if n = 0 \<or> m = 0 then DiffAlgorithmResult_trivial sequence1 sequence2
      else case dp_rows sequence1 sequence2 equalityScore isValid (upto_from 0 (nat n)) 0
                  \<lparr>dp_lcsLengths = empty, dp_directions = empty, dp_lengths = empty\<rparr> of
        None \<Rightarrow> DiffAlgorithmResult_trivialTimedOut sequence1 sequence2
      | Some t \<Rightarrow>
          bind_result (dp_backtrack (dp_directions t) (n - 1) (m - 1)
                         \<lparr>bs_result = [], bs_lastAligningPosS1 = n, bs_lastAligningPosS2 = m\<rparr>)
            (\<lambda>st. bind_result (reportDecreasingAligningPositions (- 1) (- 1) st)
              (\<lambda>st1. Ok \<lparr>dr_diffs = rev (bs_result st1), dr_hitTimeout = False\<rparr>)))"

end
