(* ===== verification/DiffDynamicProofs.thy ===== *)
theory DiffDynamicProofs
  imports DiffDynamic
begin

text \<open>
  The dynamic programming diff is correct: a cell whose direction is diagonal stands for equal
  elements, so the backtracking reports a diff of the two sequences.  The lemmas on reporting are
  shared with the other diff algorithm, whose last loop is the same.
\<close>

section \<open>Reporting differences backwards\<close>

text \<open>What has been reported so far is a proper diff of the parts from the last aligned position on.\<close>

definition back_inv :: "ISequence \<Rightarrow> ISequence \<Rightarrow> back_state \<Rightarrow> bool" where
  "back_inv s1 s2 st \<longleftrightarrow>
     is_diff_from s1 s2 (bs_lastAligningPosS1 st) (bs_lastAligningPosS2 st) (rev (bs_result st)) \<and>
     separated_from (bs_lastAligningPosS1 st) (rev (bs_result st))"

lemma back_inv_start:
  "back_inv s1 s2 \<lparr>bs_result = [], bs_lastAligningPosS1 = sq_length s1, bs_lastAligningPosS2 = sq_length s2\<rparr>"
  by (simp add: back_inv_def)

lemma push_unaligned_ok:
  assumes "back_inv s1 s2 st" "p1 \<le> bs_lastAligningPosS1 st" "p2 \<le> bs_lastAligningPosS2 st"
  obtains ds where "push_unaligned p1 p2 st = Ok (st\<lparr>bs_result := ds\<rparr>)"
    "is_diff_from s1 s2 p1 p2 (rev ds)" "separated_from (p1 - 1) (rev ds)"
proof (cases "p1 = bs_lastAligningPosS1 st \<and> p2 = bs_lastAligningPosS2 st")
  case True
  then show ?thesis
    using assms separated_from_mono by (intro that [of "bs_result st"]) (auto simp: push_unaligned_def back_inv_def)
next
  case False
  then show ?thesis
    using assms
    by (intro that [of "bs_result st @ [mk_sd (mk_or p1 (bs_lastAligningPosS1 st)) (mk_or p2 (bs_lastAligningPosS2 st))]"])
      (auto simp: push_unaligned_def back_inv_def new_OffsetRange_def)
qed

lemma report_ok:
  assumes "back_inv s1 s2 st" "p1 < bs_lastAligningPosS1 st" "p2 < bs_lastAligningPosS2 st"
    and "sq_getElement s1 p1 = sq_getElement s2 p2"
  obtains st' where "reportDecreasingAligningPositions p1 p2 st = Ok st'" "back_inv s1 s2 st'"
    "bs_lastAligningPosS1 st' = p1" "bs_lastAligningPosS2 st' = p2"
proof -
  obtain ds where ds: "push_unaligned (p1 + 1) (p2 + 1) st = Ok (st\<lparr>bs_result := ds\<rparr>)"
    "is_diff_from s1 s2 (p1 + 1) (p2 + 1) (rev ds)" "separated_from p1 (rev ds)"
    using push_unaligned_ok [OF assms(1), of "p1 + 1" "p2 + 1"] assms by force
  then show ?thesis
    using assms(4)
    by (intro that) (auto simp: reportDecreasingAligningPositions_def back_inv_def intro: is_diff_from_step)
qed

section \<open>Tables\<close>

definition in_table :: "'n Array2D \<Rightarrow> int \<Rightarrow> int \<Rightarrow> bool" where
  "in_table t x y \<longleftrightarrow> 0 \<le> x \<and> x < a2_width t \<and> 0 \<le> y"

lemma in_table_index:
  assumes "in_table t x y" "in_table t x' y'"
  shows "x + y * a2_width t = x' + y' * a2_width t \<longleftrightarrow> x = x' \<and> y = y'"
proof
  assume same: "x + y * a2_width t = x' + y' * a2_width t"
  have "(x + y * a2_width t) mod a2_width t = x" "(x' + y' * a2_width t) mod a2_width t = x'"
    using assms by (auto simp: in_table_def)
  then have "x = x'"
    using same by simp
  then show "x = x' \<and> y = y'"
    using same assms by (auto simp: in_table_def)
qed simp

lemma js_read_put:
  assumes "0 \<le> i" "0 \<le> j"
  shows "js_read (js_put xs i v) j = (if i = j then v else js_read xs j)"
  using assms by (auto simp: js_read_def js_put_def js_get_def nth_append nth_list_update)

lemma Array2D_get_set:
  assumes "in_table t x y" "in_table t x' y'"
  shows "Array2D_get (Array2D_set t x y v) x' y' = (if x = x' \<and> y = y' then v else Array2D_get t x' y')"
proof -
  have "0 \<le> x + y * a2_width t" "0 \<le> x' + y' * a2_width t"
    using assms by (auto simp: in_table_def)
  then show ?thesis
    using in_table_index [OF assms] by (simp add: Array2D_get_def Array2D_set_def js_read_put)
qed

lemma Array2D_set_shape [simp]: "a2_width (Array2D_set t x y v) = a2_width t"
  "in_table (Array2D_set t x y v) x' y' = in_table t x' y'"
  by (simp_all add: Array2D_set_def in_table_def)

section \<open>The invariant of the tables\<close>

text \<open>
  No score is negative, so the score \<open>- 1\<close> of different elements is never chosen, and a
  diagonal direction stands for equal elements.
\<close>

definition dp_inv :: "ISequence \<Rightarrow> ISequence \<Rightarrow> ('n::linordered_idom) dp_tables \<Rightarrow> bool" where
  "dp_inv s1 s2 t \<longleftrightarrow>
     a2_width (dp_lcsLengths t) = sq_length s1 \<and> a2_width (dp_directions t) = sq_length s1 \<and>
     (\<forall>x y v. in_table (dp_lcsLengths t) x y \<longrightarrow> Array2D_get (dp_lcsLengths t) x y = Some v \<longrightarrow> 0 \<le> v) \<and>
     (\<forall>x y. in_table (dp_directions t) x y \<longrightarrow> Array2D_get (dp_directions t) x y = Some 3 \<longrightarrow>
        sq_getElement s1 x = sq_getElement s2 y)"

lemma dp_inv_nonneg:
  "dp_inv s1 s2 t \<Longrightarrow> in_table (dp_lcsLengths t) x y \<Longrightarrow> Array2D_get (dp_lcsLengths t) x y = Some v \<Longrightarrow> 0 \<le> v"
  by (simp add: dp_inv_def)

lemma nan_max_eq_Some: "nan_max a b = Some c \<longleftrightarrow> (\<exists>x y. a = Some x \<and> b = Some y \<and> c = max x y)"
  by (cases "(a, b)" rule: nan_max.cases) auto

lemma nan_eq_iff: "nan_eq a b \<longleftrightarrow> a = b \<and> a \<noteq> None"
  by (cases "(a, b)" rule: nan_eq.cases) auto

lemma dp_inv_start:
  "dp_inv s1 s2 \<lparr>dp_lcsLengths = new_Array2D (sq_length s1) m, dp_directions = new_Array2D (sq_length s1) m,
                  dp_lengths = ls\<rparr>"
  by (auto simp: dp_inv_def new_Array2D_def Array2D_get_def js_read_def js_get_def)

lemma dp_cell_inv:
  assumes inv: "dp_inv s1 s2 t" and x: "0 \<le> x" "x < sq_length s1" and y: "0 \<le> y"
  shows "dp_inv s1 s2 (dp_cell s1 s2 score x y t)"
proof -
  define h where "h = (if x = 0 then Some 0 else Array2D_get (dp_lcsLengths t) (x - 1) y)"
  define v where "v = (if y = 0 then Some 0 else Array2D_get (dp_lcsLengths t) x (y - 1))"
  define e where "e = extendedSeqScore s1 s2 score t x y"
  define nv where "nv = nan_max (nan_max h v) e"
  have nv_nonneg: "0 \<le> c" if c: "nv = Some c" for c
  proof -
    obtain hv where "h = Some hv" "hv \<le> c"
      using c by (auto simp: nv_def nan_max_eq_Some)
    moreover have "Array2D_get (dp_lcsLengths t) (x - 1) y = Some u \<Longrightarrow> 0 \<le> u" if "x \<noteq> 0" for u
      by (rule dp_inv_nonneg [OF inv]) (use inv x y that in \<open>auto simp: in_table_def dp_inv_def\<close>)
    then have "0 \<le> hv"
      using \<open>h = Some hv\<close> by (auto simp: h_def split: if_splits)
    ultimately show ?thesis by simp
  qed
  have equal: "sq_getElement s1 x = sq_getElement s2 y" if "nan_eq nv e"
  proof (rule ccontr)
    assume "sq_getElement s1 x \<noteq> sq_getElement s2 y"
    then have "nv = Some (- 1)"
      using that by (simp add: nan_eq_iff e_def extendedSeqScore_def)
    then show False
      using nv_nonneg by fastforce
  qed
  have cell: "dp_cell s1 s2 score x y t =
    (let t1 = (if nan_eq nv e then
               let prevLen = (if x > 0 \<and> y > 0 then Array2D_get (dp_lengths t) (x - 1) (y - 1) else Some 0)
               in t\<lparr>dp_lengths := Array2D_set (dp_lengths t) x y (nan_add prevLen (Some 1)),
                    dp_directions := Array2D_set (dp_directions t) x y (Some 3)\<rparr>
             else if nan_eq nv h then
               t\<lparr>dp_lengths := Array2D_set (dp_lengths t) x y (Some 0),
                 dp_directions := Array2D_set (dp_directions t) x y (Some 1)\<rparr>
             else if nan_eq nv v then
               t\<lparr>dp_lengths := Array2D_set (dp_lengths t) x y (Some 0),
                 dp_directions := Array2D_set (dp_directions t) x y (Some 2)\<rparr>
             else t)
     in t1\<lparr>dp_lcsLengths := Array2D_set (dp_lcsLengths t1) x y nv\<rparr>)"
    by (simp add: dp_cell_def h_def v_def e_def nv_def Let_def)
  have tab: "in_table (dp_lcsLengths t) x y" "in_table (dp_directions t) x y"
    using inv x y by (simp_all add: dp_inv_def in_table_def)
  show ?thesis
    using inv nv_nonneg equal
    by (auto simp: cell dp_inv_def Let_def Array2D_get_set [OF tab(1)] Array2D_get_set [OF tab(2)] split: if_splits)
qed

lemma dp_row_inv:
  "dp_row s1 s2 score isValid x ys n t = Some (n', t') \<Longrightarrow> dp_inv s1 s2 t \<Longrightarrow> 0 \<le> x \<Longrightarrow> x < sq_length s1 \<Longrightarrow>
   \<forall>y\<in>set ys. 0 \<le> y \<Longrightarrow> dp_inv s1 s2 t'"
  by (induction s1 s2 score isValid x ys n t rule: dp_row.induct) (auto split: if_splits intro: dp_cell_inv)

lemma dp_rows_inv:
  "dp_rows s1 s2 score isValid xs n t = Some t' \<Longrightarrow> dp_inv s1 s2 t \<Longrightarrow>
   \<forall>x\<in>set xs. 0 \<le> x \<and> x < sq_length s1 \<Longrightarrow> dp_inv s1 s2 t'"
  by (induction s1 s2 score isValid xs n t rule: dp_rows.induct)
    (auto split: option.splits prod.splits simp: set_upto_from dest: dp_row_inv)

section \<open>Backtracking\<close>

lemma dp_backtrack_ok:
  shows "\<forall>x y. in_table dirs x y \<longrightarrow> Array2D_get dirs x y = Some 3 \<longrightarrow> sq_getElement s1 x = sq_getElement s2 y \<Longrightarrow>
    a2_width dirs = sq_length s1 \<Longrightarrow> back_inv s1 s2 st \<Longrightarrow> x < bs_lastAligningPosS1 st \<Longrightarrow> y < bs_lastAligningPosS2 st \<Longrightarrow>
    x < sq_length s1 \<Longrightarrow> 0 \<le> bs_lastAligningPosS1 st \<Longrightarrow> 0 \<le> bs_lastAligningPosS2 st \<Longrightarrow>
    \<exists>st'. dp_backtrack dirs x y st = Ok st' \<and> back_inv s1 s2 st' \<and>
      0 \<le> bs_lastAligningPosS1 st' \<and> 0 \<le> bs_lastAligningPosS2 st'"
proof (induction dirs x y st rule: dp_backtrack.induct)
  case (1 dirs x y st)
  show ?case
  proof (cases "0 \<le> x \<and> 0 \<le> y")
    case False
    then show ?thesis
      using "1.prems" by (subst dp_backtrack.simps) auto
  next
    case inside: True
    show ?thesis
    proof (cases "nan_eq (Array2D_get dirs x y) (Some 3)")
      case True
      then have "sq_getElement s1 x = sq_getElement s2 y"
        using "1.prems" inside by (auto simp: nan_eq_iff in_table_def)
      then obtain st' where "reportDecreasingAligningPositions x y st = Ok st'" "back_inv s1 s2 st'"
        "bs_lastAligningPosS1 st' = x" "bs_lastAligningPosS2 st' = y"
        using report_ok "1.prems" by blast
      then show ?thesis
        using "1.IH"(1) "1.prems" inside True by (subst dp_backtrack.simps) auto
    next
      case False
      then show ?thesis
        using "1.IH"(2,3) "1.prems" inside by (subst dp_backtrack.simps) auto
    qed
  qed
qed

section \<open>Correctness\<close>

definition wf_sequence :: "ISequence \<Rightarrow> bool" where
  "wf_sequence s \<longleftrightarrow> 0 \<le> sq_length s"

lemma report_end_ok:
  assumes "back_inv s1 s2 st" "0 \<le> bs_lastAligningPosS1 st" "0 \<le> bs_lastAligningPosS2 st"
  obtains st' where "reportDecreasingAligningPositions (- 1) (- 1) st = Ok st'"
    "is_diff s1 s2 (rev (bs_result st'))" "proper_diffs (rev (bs_result st'))"
proof -
  obtain ds where "push_unaligned 0 0 st = Ok (st\<lparr>bs_result := ds\<rparr>)"
    "is_diff s1 s2 (rev ds)" "proper_diffs (rev ds)"
    using push_unaligned_ok [OF assms(1), of 0 0] assms by auto
  then show ?thesis
    by (intro that) (auto simp: reportDecreasingAligningPositions_def)
qed

text \<open>A trivial result is one difference that spans both sequences.\<close>

lemma trivial_result_ok:
  assumes "wf_sequence s1" "wf_sequence s2"
  shows "\<exists>r. trivial_diff s1 s2 hit = Ok r \<and> is_diff s1 s2 (dr_diffs r) \<and> dr_hitTimeout r = hit \<and>
    (sq_length s1 \<noteq> 0 \<or> sq_length s2 \<noteq> 0 \<longrightarrow> proper_diffs (dr_diffs r))"
  using assms by (auto simp: wf_sequence_def trivial_diff_ok)

lemma dynamic_is_diff:
  assumes wf: "wf_sequence s1" "wf_sequence s2"
  shows "\<exists>r. DynamicProgrammingDiffing_compute s1 s2 isValid score = Ok r \<and> is_diff s1 s2 (dr_diffs r) \<and>
    (sq_length s1 \<noteq> 0 \<or> sq_length s2 \<noteq> 0 \<longrightarrow> proper_diffs (dr_diffs r))"
proof (cases "sq_length s1 = 0 \<or> sq_length s2 = 0")
  case True
  then show ?thesis
    using trivial_result_ok [OF wf, of False]
    by (auto simp: DynamicProgrammingDiffing_compute_def DiffAlgorithmResult_trivial_def)
next
  case False
  let ?n = "sq_length s1" and ?m = "sq_length s2"
  let ?t0 = "\<lparr>dp_lcsLengths = new_Array2D ?n ?m, dp_directions = new_Array2D ?n ?m, dp_lengths = new_Array2D ?n ?m\<rparr>"
  show ?thesis
  proof (cases "dp_rows s1 s2 score isValid (upto_from 0 (nat ?n)) 0 ?t0")
    case None
    then show ?thesis
      using False trivial_result_ok [OF wf, of True]
      by (auto simp: DynamicProgrammingDiffing_compute_def DiffAlgorithmResult_trivialTimedOut_def)
  next
    case (Some t)
    then have inv: "dp_inv s1 s2 t"
      using wf by (intro dp_rows_inv [OF _ dp_inv_start]) (auto simp: set_upto_from wf_sequence_def)
    obtain st where st: "dp_backtrack (dp_directions t) (?n - 1) (?m - 1)
        \<lparr>bs_result = [], bs_lastAligningPosS1 = ?n, bs_lastAligningPosS2 = ?m\<rparr> = Ok st"
      "back_inv s1 s2 st" "0 \<le> bs_lastAligningPosS1 st" "0 \<le> bs_lastAligningPosS2 st"
      using dp_backtrack_ok [OF _ _ back_inv_start, of "dp_directions t" s1 s2 "?n - 1" "?m - 1"] inv wf
      by (auto simp: dp_inv_def wf_sequence_def)
    obtain st' where "reportDecreasingAligningPositions (- 1) (- 1) st = Ok st'"
      "is_diff s1 s2 (rev (bs_result st'))" "proper_diffs (rev (bs_result st'))"
      using report_end_ok [OF st(2-4)] .
    then show ?thesis
      using False Some st(1) by (auto simp: DynamicProgrammingDiffing_compute_def)
  qed
qed

text \<open>Without a timeout the trivial answer is not taken.\<close>

lemma dp_row_valid: "(\<forall>n. isValid n) \<Longrightarrow> \<exists>n' t'. dp_row s1 s2 score isValid x ys n t = Some (n', t')"
  by (induction s1 s2 score isValid x ys n t rule: dp_row.induct) auto

lemma dp_rows_valid: "(\<forall>n. isValid n) \<Longrightarrow> \<exists>t'. dp_rows s1 s2 score isValid xs n t = Some t'"
  by (induction s1 s2 score isValid xs n t rule: dp_rows.induct)
    (use dp_row_valid in \<open>auto split: option.splits\<close>, blast)

end
