(* ===== verification/DiffMyers.thy ===== *)
theory DiffMyers
  imports DiffDynamicProofs
begin

text \<open>
  \<open>algorithms/myersDiffAlgorithm.ts\<close> of
  \<open>src/vs/editor/common/diff/defaultLinesDiffComputer\<close>: the greedy diff over diagonals.

  Numbers are \<open>int num\<close> as in the dynamic programming diff: reading a typed array past its end
  gives \<open>undefined\<close> (\<open>None\<close>), arithmetic makes it \<open>NaN\<close> (\<open>None\<close>), and storing that in an
  \<open>Int32Array\<close> stores 0.  The paths are linked records, a datatype here; \<open>null\<close> and the
  \<open>undefined\<close> of an unwritten cell are both \<open>None\<close>, as the code only tests whether a path is
  there.
\<close>

section \<open>Arrays with negative indices\<close>

record FastInt32Array =
  fi_positiveArr :: "int list"
  fi_negativeArr :: "int list"

definition new_FastInt32Array :: FastInt32Array where
  "new_FastInt32Array = \<lparr>fi_positiveArr = replicate 10 0, fi_negativeArr = replicate 10 0\<rparr>"

definition FastInt32Array_get :: "FastInt32Array \<Rightarrow> int \<Rightarrow> int num" where
  "FastInt32Array_get a idx =
     (if idx < 0 then js_get (fi_negativeArr a) (- idx - 1) else js_get (fi_positiveArr a) idx)"

text \<open>What a typed array stores, and a write that doubles an array once when the index is past its end.\<close>

definition to_int32_cell :: "int num \<Rightarrow> int" where
  "to_int32_cell v = (case v of None \<Rightarrow> 0 | Some i \<Rightarrow> js_to_int32 i)"

definition grow_and_write :: "int list \<Rightarrow> int \<Rightarrow> int num \<Rightarrow> int list" where
  "grow_and_write arr idx value =
     (let arr' = (if idx \<ge> int (length arr) then arr @ replicate (length arr) 0 else arr)
      in if idx < int (length arr') then arr'[nat idx := to_int32_cell value] else arr')"

definition FastInt32Array_set :: "FastInt32Array \<Rightarrow> int \<Rightarrow> int num \<Rightarrow> FastInt32Array" where
  "FastInt32Array_set a idx value =
     (if idx < 0 then a\<lparr>fi_negativeArr := grow_and_write (fi_negativeArr a) (- idx - 1) value\<rparr>
      else a\<lparr>fi_positiveArr := grow_and_write (fi_positiveArr a) idx value\<rparr>)"

datatype SnakePath =
  SnakePath (sp_prev: "SnakePath option") (sp_x: "int num") (sp_y: "int num") (sp_length: "int num")

record FastArrayNegativeIndices =
  fa_positiveArr :: "SnakePath option list"
  fa_negativeArr :: "SnakePath option list"

definition new_FastArrayNegativeIndices :: FastArrayNegativeIndices where
  "new_FastArrayNegativeIndices = \<lparr>fa_positiveArr = [], fa_negativeArr = []\<rparr>"

definition FastArrayNegativeIndices_get :: "FastArrayNegativeIndices \<Rightarrow> int \<Rightarrow> SnakePath option" where
  "FastArrayNegativeIndices_get a idx =
     (if idx < 0 then js_read (fa_negativeArr a) (- idx - 1) else js_read (fa_positiveArr a) idx)"

definition FastArrayNegativeIndices_set ::
  "FastArrayNegativeIndices \<Rightarrow> int \<Rightarrow> SnakePath option \<Rightarrow> FastArrayNegativeIndices"
where
  "FastArrayNegativeIndices_set a idx value =
     (if idx < 0 then a\<lparr>fa_negativeArr := js_put (fa_negativeArr a) (- idx - 1) value\<rparr>
      else a\<lparr>fa_positiveArr := js_put (fa_positiveArr a) idx value\<rparr>)"

section \<open>Snakes\<close>

text \<open>\<open>getXAfterSnake\<close> on numbers, and on numbers that may be undefined: then the loop does not run.\<close>

function snake_end :: "ISequence \<Rightarrow> ISequence \<Rightarrow> int \<Rightarrow> int \<Rightarrow> int" where
  "snake_end seqX seqY x y =
     (if x < sq_length seqX \<and> y < sq_length seqY \<and> sq_getElement seqX x = sq_getElement seqY y
      then snake_end seqX seqY (x + 1) (y + 1) else x)"
  by pat_completeness auto
termination
  by (relation "measure (\<lambda>(sx, sy, x, y). nat (sq_length sx - x))") auto

declare snake_end.simps [simp del]

definition getXAfterSnake :: "ISequence \<Rightarrow> ISequence \<Rightarrow> int num \<Rightarrow> int num \<Rightarrow> int num" where
  "getXAfterSnake seqX seqY x y =
     (case (x, y) of (Some a, Some b) \<Rightarrow> Some (snake_end seqX seqY a b) | _ \<Rightarrow> x)"

section \<open>One diagonal, one round, all rounds\<close>

record myers_state =
  ms_V :: FastInt32Array
  ms_paths :: FastArrayNegativeIndices

definition myers_start :: "ISequence \<Rightarrow> ISequence \<Rightarrow> myers_state" where
  "myers_start seqX seqY =
     (let V = FastInt32Array_set new_FastInt32Array 0 (getXAfterSnake seqX seqY (Some 0) (Some 0));
          v0 = FastInt32Array_get V 0
      in \<lparr>ms_V = V,
          ms_paths = FastArrayNegativeIndices_set new_FastArrayNegativeIndices 0
            (if nan_eq v0 (Some 0) then None else Some (SnakePath None (Some 0) (Some 0) v0))\<rparr>)"

text \<open>The body of the loop over the diagonals; the flag is \<open>break loop\<close>.\<close>

definition myers_diagonal ::
  "ISequence \<Rightarrow> ISequence \<Rightarrow> int \<Rightarrow> int \<Rightarrow> int \<Rightarrow> myers_state \<Rightarrow> myers_state \<times> bool"
where
  "myers_diagonal seqX seqY lowerBound upperBound k st =
     (let n = Some (sq_length seqX); m = Some (sq_length seqY);
          maxXofDLineTop = (if k = upperBound then Some (- 1) else FastInt32Array_get (ms_V st) (k + 1));
          maxXofDLineLeft = (if k = lowerBound then Some (- 1)
                             else nan_add (FastInt32Array_get (ms_V st) (k - 1)) (Some 1));
          x = nan_min (nan_max maxXofDLineTop maxXofDLineLeft) n;
          y = nan_add x (Some (- k))
      in if nan_less n x \<or> nan_less m y then (st, False)
         else
           let newMaxX = getXAfterSnake seqX seqY x y;
               V = FastInt32Array_set (ms_V st) k newMaxX;
               lastPath = (if nan_eq x maxXofDLineTop then FastArrayNegativeIndices_get (ms_paths st) (k + 1)
                           else FastArrayNegativeIndices_get (ms_paths st) (k - 1));
               paths = FastArrayNegativeIndices_set (ms_paths st) k
                 (if nan_eq newMaxX x then lastPath
                  else Some (SnakePath lastPath x y (nan_add newMaxX (map_option uminus x))));
               vk = FastInt32Array_get V k
           in (\<lparr>ms_V = V, ms_paths = paths\<rparr>, nan_eq vk n \<and> nan_eq (nan_add vk (Some (- k))) m))"

function myers_round ::
  "ISequence \<Rightarrow> ISequence \<Rightarrow> int \<Rightarrow> int \<Rightarrow> int \<Rightarrow> myers_state \<Rightarrow> myers_state \<times> int option"
where
  "myers_round seqX seqY lowerBound upperBound k st =
     (if k \<le> upperBound then
        case myers_diagonal seqX seqY lowerBound upperBound k st of
          (st', True) \<Rightarrow> (st', Some k)
        | (st', False) \<Rightarrow> myers_round seqX seqY lowerBound upperBound (k + 2) st'
      else (st, None))"
  by pat_completeness auto
termination
  by (relation "measure (\<lambda>(sx, sy, lb, ub, k, st). nat (ub - k + 2))") auto

declare myers_round.simps [simp del]

definition myers_lowerBound :: "ISequence \<Rightarrow> int \<Rightarrow> int" where
  "myers_lowerBound seqY d = - min d (sq_length seqY + d mod 2)"

definition myers_upperBound :: "ISequence \<Rightarrow> int \<Rightarrow> int" where
  "myers_upperBound seqX d = min d (sq_length seqX + d mod 2)"

text \<open>
  The outer loop has no bound in the code: it is a partial function, undefined where the loop
  would not end.  The result is the diagonal it stopped at, or nothing when the time ran out.
\<close>

partial_function (option) myers_loop ::
  "ISequence \<Rightarrow> ISequence \<Rightarrow> (nat \<Rightarrow> bool) \<Rightarrow> int \<Rightarrow> myers_state \<Rightarrow> (int \<times> myers_state) option option"
where
  "myers_loop seqX seqY isValid d st =
     (if \<not> isValid (nat d) then Some None
      else case myers_round seqX seqY (myers_lowerBound seqY (d + 1)) (myers_upperBound seqX (d + 1))
                  (myers_lowerBound seqY (d + 1)) st of
        (st', Some k) \<Rightarrow> Some (Some (k, st'))
      | (st', None) \<Rightarrow> myers_loop seqX seqY isValid (d + 1) st')"

section \<open>The result\<close>

text \<open>
  The loop that walks the path back.  \<open>None\<close> stands for a range with a \<open>NaN\<close> bound, which the
  type of ranges cannot hold; the correctness theorem excludes it.
\<close>

fun myers_extract :: "SnakePath option \<Rightarrow> back_state \<Rightarrow> back_state result option" where
  "myers_extract None st = Some (push_unaligned 0 0 st)"
| "myers_extract (Some (SnakePath prev x y len)) st =
     (case (nan_add x len, nan_add y len, x, y) of
        (Some endX, Some endY, Some a, Some b) \<Rightarrow>
          (case push_unaligned endX endY st of
             Inl e \<Rightarrow> Some (Throw e)
           | Inr st1 \<Rightarrow> myers_extract prev (st1\<lparr>bs_lastAligningPosS1 := a, bs_lastAligningPosS2 := b\<rparr>))
      | _ \<Rightarrow> None)"

definition MyersDiffAlgorithm_compute ::
  "ISequence \<Rightarrow> ISequence \<Rightarrow> (nat \<Rightarrow> bool) \<Rightarrow> DiffAlgorithmResult result option"
where
  "MyersDiffAlgorithm_compute seq1 seq2 isValid =
     (let n = sq_length seq1; m = sq_length seq2 in
      if n = 0 \<or> m = 0 then Some (DiffAlgorithmResult_trivial seq1 seq2)
      else case myers_loop seq1 seq2 isValid 0 (myers_start seq1 seq2) of
        None \<Rightarrow> None
      | Some None \<Rightarrow> Some (DiffAlgorithmResult_trivialTimedOut seq1 seq2)
      | Some (Some (k, st)) \<Rightarrow>
          map_option (\<lambda>r. bind_result r (\<lambda>s. Ok \<lparr>dr_diffs = rev (bs_result s), dr_hitTimeout = False\<rparr>))
            (myers_extract (FastArrayNegativeIndices_get (ms_paths st) k)
               \<lparr>bs_result = [], bs_lastAligningPosS1 = n, bs_lastAligningPosS2 = m\<rparr>))"

declare myers_loop.simps [code]

end
