(* ===== verification/DiffMyersProofs.thy ===== *)
theory DiffMyersProofs
  imports DiffMyers
begin

text \<open>
  What the greedy diff reports is a diff of the two sequences.  The invariant speaks of every
  diagonal: the path stored for it is a chain of equal stretches that ends at or before the
  point the diagonal has reached.  A path that holds a \<open>NaN\<close> is exempt (it is never turned into
  ranges), and so is a point that was clamped to the end of the first sequence, whose path only
  has to end inside both sequences.
\<close>

section \<open>Snakes\<close>

text \<open>Elements are defined exactly inside the sequence.\<close>

definition proper_sequence :: "ISequence \<Rightarrow> bool" where
  "proper_sequence s \<longleftrightarrow> wf_sequence s \<and> (\<forall>i. sq_getElement s i \<noteq> None \<longleftrightarrow> 0 \<le> i \<and> i < sq_length s)"

lemma snake_end_props:
  "x \<le> snake_end s1 s2 x y \<and> (x \<le> sq_length s1 \<longrightarrow> snake_end s1 s2 x y \<le> sq_length s1) \<and>
   (y \<le> sq_length s2 \<longrightarrow> y + (snake_end s1 s2 x y - x) \<le> sq_length s2) \<and>
   same_part s1 s2 x y (snake_end s1 s2 x y - x)"
proof (induction s1 s2 x y rule: snake_end.induct)
  case (1 s1 s2 x y)
  show ?case
  proof (cases "x < sq_length s1 \<and> y < sq_length s2 \<and> sq_getElement s1 x = sq_getElement s2 y")
    case True
    let ?e = "snake_end s1 s2 (x + 1) (y + 1)"
    have e: "snake_end s1 s2 x y = ?e"
      using True by (subst snake_end.simps) simp
    have IH: "x + 1 \<le> ?e" "?e \<le> sq_length s1" "y + 1 + (?e - (x + 1)) \<le> sq_length s2"
      "same_part s1 s2 (x + 1) (y + 1) (?e - (x + 1))"
      using 1 [OF True] True by auto
    then have "same_part s1 s2 x y (1 + (?e - (x + 1)))"
      using True by (subst same_part_split) (auto simp: same_part_1)
    then show ?thesis
      using e IH True by (auto simp: algebra_simps)
  next
    case False
    then have "snake_end s1 s2 x y = x"
      by (subst snake_end.simps) auto
    then show ?thesis by simp
  qed
qed

lemma snake_end_moves:
  assumes "snake_end s1 s2 x y \<noteq> x"
  shows "x < sq_length s1" "y < sq_length s2" "sq_getElement s1 x = sq_getElement s2 y"
  using assms by (subst (asm) snake_end.simps; simp split: if_splits)+

section \<open>Arrays\<close>

text \<open>The value of a diagonal, 0 where nothing is allocated yet, and when a write is not dropped.\<close>

definition diag_value :: "FastInt32Array \<Rightarrow> int \<Rightarrow> int" where
  "diag_value a k = (case FastInt32Array_get a k of None \<Rightarrow> 0 | Some v \<Rightarrow> v)"

definition within_reach :: "FastInt32Array \<Rightarrow> int \<Rightarrow> bool" where
  "within_reach a k \<longleftrightarrow> - k - 1 < 2 * int (length (fi_negativeArr a)) \<and> k < 2 * int (length (fi_positiveArr a))"

abbreviation cell_at :: "int list \<Rightarrow> int \<Rightarrow> int" where
  "cell_at xs i \<equiv> (case js_get xs i of None \<Rightarrow> 0 | Some v \<Rightarrow> v)"

lemma grow_and_write_cell:
  assumes "0 \<le> i" "i < 2 * int (length xs)" "0 \<le> j"
  shows "cell_at (grow_and_write xs i v) j = (if j = i then to_int32_cell v else cell_at xs j)"
  using assms by (auto simp: grow_and_write_def Let_def js_get_def nth_list_update nth_append)

lemma diag_value_set:
  assumes "within_reach a k"
  shows "diag_value (FastInt32Array_set a k v) j = (if j = k then to_int32_cell v else diag_value a j)"
proof (cases "k < 0")
  case True
  have "cell_at (grow_and_write (fi_negativeArr a) (- k - 1) v) (- j - 1) =
    (if j = k then to_int32_cell v else cell_at (fi_negativeArr a) (- j - 1))" if "j < 0"
    using assms True that by (subst grow_and_write_cell) (auto simp: within_reach_def)
  then show ?thesis
    using True by (auto simp: diag_value_def FastInt32Array_set_def FastInt32Array_get_def)
next
  case False
  have "cell_at (grow_and_write (fi_positiveArr a) k v) j =
    (if j = k then to_int32_cell v else cell_at (fi_positiveArr a) j)" if "\<not> j < 0"
    using assms False that by (subst grow_and_write_cell) (auto simp: within_reach_def)
  then show ?thesis
    using False by (auto simp: diag_value_def FastInt32Array_set_def FastInt32Array_get_def)
qed

lemma FastArray_get_set:
  "FastArrayNegativeIndices_get (FastArrayNegativeIndices_set a k p) j =
     (if j = k then p else FastArrayNegativeIndices_get a j)"
  by (auto simp: FastArrayNegativeIndices_get_def FastArrayNegativeIndices_set_def js_read_put)

lemma length_grow_and_write:
  "length xs \<le> length (grow_and_write xs i v)"
  "0 \<le> i \<Longrightarrow> i < 2 * int (length xs) \<Longrightarrow> i < int (length (grow_and_write xs i v))"
  by (auto simp: grow_and_write_def Let_def)

lemma set_grows:
  "length (fi_negativeArr a) \<le> length (fi_negativeArr (FastInt32Array_set a k v))"
  "length (fi_positiveArr a) \<le> length (fi_positiveArr (FastInt32Array_set a k v))"
  by (auto simp: FastInt32Array_set_def length_grow_and_write)

section \<open>Paths\<close>

fun path_ok :: "ISequence \<Rightarrow> ISequence \<Rightarrow> SnakePath option \<Rightarrow> int \<Rightarrow> int \<Rightarrow> bool" where
  "path_ok s1 s2 None a b \<longleftrightarrow> 0 \<le> a \<and> 0 \<le> b"
| "path_ok s1 s2 (Some (SnakePath prev (Some x) (Some y) (Some l))) a b \<longleftrightarrow>
     1 \<le> l \<and> x + l \<le> a \<and> y + l \<le> b \<and> same_part s1 s2 x y l \<and> path_ok s1 s2 prev x y"
| "path_ok s1 s2 (Some (SnakePath prev x y l)) a b \<longleftrightarrow> True"

lemma path_ok_mono: "path_ok s1 s2 p a b \<Longrightarrow> a \<le> a' \<Longrightarrow> b \<le> b' \<Longrightarrow> path_ok s1 s2 p a' b'"
  by (cases "(s1, s2, p, a, b)" rule: path_ok.cases) auto

text \<open>The path fits the point with first coordinate \<open>x\<close> of the diagonal \<open>k\<close>.\<close>

definition reaches :: "ISequence \<Rightarrow> ISequence \<Rightarrow> SnakePath option \<Rightarrow> int \<Rightarrow> int \<Rightarrow> bool" where
  "reaches s1 s2 p x k \<longleftrightarrow>
     path_ok s1 s2 p x (min (sq_length s2) (max 0 (x - k))) \<or>
     x = sq_length s1 \<and> path_ok s1 s2 p x (sq_length s2)"

lemma reaches_down: "reaches s1 s2 p x (k + 1) \<Longrightarrow> reaches s1 s2 p x k"
proof -
  have "min (sq_length s2) (max 0 (x - (k + 1))) \<le> min (sq_length s2) (max 0 (x - k))"
    by linarith
  then show "reaches s1 s2 p x (k + 1) \<Longrightarrow> reaches s1 s2 p x k"
    unfolding reaches_def by (metis order_refl path_ok_mono)
qed

lemma reaches_right:
  assumes "reaches s1 s2 p x (k - 1)" "x + 1 \<le> sq_length s1"
  shows "reaches s1 s2 p (x + 1) k"
proof -
  have "path_ok s1 s2 p x (min (sq_length s2) (max 0 (x - (k - 1))))"
    using assms by (simp add: reaches_def)
  then have "path_ok s1 s2 p (x + 1) (min (sq_length s2) (max 0 (x + 1 - k)))"
    by (rule path_ok_mono) auto
  then show ?thesis by (simp add: reaches_def)
qed

lemma reaches_clamped:
  assumes "reaches s1 s2 p (sq_length s1) j"
  shows "reaches s1 s2 p (sq_length s1) k"
  using assms unfolding reaches_def
  using path_ok_mono [of s1 s2 p "sq_length s1" "min (sq_length s2) (max 0 (sq_length s1 - j))" "sq_length s1" "sq_length s2"]
  by auto

lemma reaches_snake:
  assumes X: "proper_sequence s1" and Y: "proper_sequence s2"
    and p: "reaches s1 s2 p x k" and x: "0 \<le> x" "x \<le> sq_length s1" "x - k \<le> sq_length s2"
    and e: "e = snake_end s1 s2 x (x - k)" "e \<noteq> x"
  shows "reaches s1 s2 (Some (SnakePath p (Some x) (Some (x - k)) (Some (e - x)))) e k"
proof -
  have moves: "x < sq_length s1" "x - k < sq_length s2" "sq_getElement s1 x = sq_getElement s2 (x - k)"
    using snake_end_moves e by blast+
  moreover have "sq_getElement s1 x \<noteq> None"
    using X x moves(1) by (simp add: proper_sequence_def)
  ultimately have y: "0 \<le> x - k"
    using Y unfolding proper_sequence_def by metis
  have props: "x \<le> e" "x - k + (e - x) \<le> sq_length s2" "same_part s1 s2 x (x - k) (e - x)"
    using snake_end_props [of x s1 s2 "x - k"] e x by auto
  have "path_ok s1 s2 p x (x - k)"
    using p y moves by (simp add: reaches_def)
  then show ?thesis
    using props e y by (simp add: reaches_def)
qed

section \<open>One diagonal\<close>

definition diagonals_ok :: "ISequence \<Rightarrow> ISequence \<Rightarrow> myers_state \<Rightarrow> bool" where
  "diagonals_ok s1 s2 st \<longleftrightarrow>
     (\<forall>k. 0 \<le> diag_value (ms_V st) k \<and> diag_value (ms_V st) k \<le> sq_length s1 \<and>
       reaches s1 s2 (FastArrayNegativeIndices_get (ms_paths st) k) (diag_value (ms_V st) k) k)"

text \<open>The sequences of the algorithm: neither is empty, and offsets fit an \<open>Int32Array\<close>.\<close>

definition diffable :: "ISequence \<Rightarrow> ISequence \<Rightarrow> bool" where
  "diffable s1 s2 \<longleftrightarrow> proper_sequence s1 \<and> proper_sequence s2 \<and> 0 < sq_length s1 \<and> 0 < sq_length s2 \<and>
     sq_length s1 < 2147483648"

text \<open>The coordinates a step computes, and the path it continues.\<close>

definition step_top :: "int \<Rightarrow> int \<Rightarrow> myers_state \<Rightarrow> int num" where
  "step_top upperBound k st = (if k = upperBound then Some (- 1) else FastInt32Array_get (ms_V st) (k + 1))"

definition step_left :: "int \<Rightarrow> int \<Rightarrow> myers_state \<Rightarrow> int num" where
  "step_left lowerBound k st =
     (if k = lowerBound then Some (- 1) else nan_add (FastInt32Array_get (ms_V st) (k - 1)) (Some 1))"

definition step_path :: "int num \<Rightarrow> int \<Rightarrow> int \<Rightarrow> myers_state \<Rightarrow> SnakePath option" where
  "step_path x upperBound k st =
     (if nan_eq x (step_top upperBound k st) then FastArrayNegativeIndices_get (ms_paths st) (k + 1)
      else FastArrayNegativeIndices_get (ms_paths st) (k - 1))"

definition step_write :: "ISequence \<Rightarrow> ISequence \<Rightarrow> int num \<Rightarrow> SnakePath option \<Rightarrow> int \<Rightarrow> myers_state \<Rightarrow> myers_state" where
  "step_write s1 s2 x lastPath k st =
     (let newMaxX = getXAfterSnake s1 s2 x (nan_add x (Some (- k)))
      in \<lparr>ms_V = FastInt32Array_set (ms_V st) k newMaxX,
          ms_paths = FastArrayNegativeIndices_set (ms_paths st) k
            (if nan_eq newMaxX x then lastPath
             else Some (SnakePath lastPath x (nan_add x (Some (- k))) (nan_add newMaxX (map_option uminus x))))\<rparr>)"

lemma myers_diagonal_step:
  "myers_diagonal s1 s2 lb ub k st =
     (let x = nan_min (nan_max (step_top ub k st) (step_left lb k st)) (Some (sq_length s1))
      in if nan_less (Some (sq_length s1)) x \<or> nan_less (Some (sq_length s2)) (nan_add x (Some (- k)))
         then (st, False)
         else let st' = step_write s1 s2 x (step_path x ub k st) k st; vk = FastInt32Array_get (ms_V st') k
              in (st', nan_eq vk (Some (sq_length s1)) \<and> nan_eq (nan_add vk (Some (- k))) (Some (sq_length s2))))"
  by (simp add: myers_diagonal_def step_top_def step_left_def step_path_def step_write_def Let_def)

lemma to_int32_cell_id: "0 \<le> v \<Longrightarrow> v < 2147483648 \<Longrightarrow> to_int32_cell (Some v) = v"
  by (simp add: to_int32_cell_def js_to_int32_id is_int32_def)

lemma step_write_ok:
  assumes ok: "diagonals_ok s1 s2 st" and s: "diffable s1 s2" and k: "within_reach (ms_V st) k"
    and x: "\<And>v. x = Some v \<Longrightarrow> 0 \<le> v \<and> v \<le> sq_length s1 \<and> v - k \<le> sq_length s2 \<and> reaches s1 s2 p v k"
  shows "diagonals_ok s1 s2 (step_write s1 s2 x p k st)"
proof (cases x)
  case None
  have "0 \<le> sq_length s2" "0 \<le> sq_length s1"
    using s by (simp_all add: diffable_def)
  then show ?thesis
    using ok None
    by (auto simp: diagonals_ok_def step_write_def getXAfterSnake_def diag_value_set [OF k] FastArray_get_set
        to_int32_cell_def reaches_def)
next
  case (Some v)
  note v = x [OF Some]
  define e where "e = snake_end s1 s2 v (v - k)"
  have e: "v \<le> e" "e \<le> sq_length s1"
    using snake_end_props [of v s1 s2 "v - k"] v by (simp_all add: e_def)
  then have cell: "to_int32_cell (Some e) = e" "to_int32_cell (Some v) = v"
    using s v by (auto intro!: to_int32_cell_id simp: diffable_def)
  have "reaches s1 s2 (if e = v then p else Some (SnakePath p (Some v) (Some (v - k)) (Some (e - v)))) e k"
    using v s reaches_snake [of s1 s2 p v k e] by (auto simp: e_def diffable_def)
  then show ?thesis
    using ok v e
    by (auto simp: diagonals_ok_def step_write_def getXAfterSnake_def Some diag_value_set [OF k] FastArray_get_set
        cell Let_def simp flip: e_def)
qed

lemma get_Some_value: "FastInt32Array_get a k = Some v \<Longrightarrow> diag_value a k = v"
  by (simp add: diag_value_def)

lemma step_start_ok:
  assumes ok: "diagonals_ok s1 s2 st" and s: "diffable s1 s2" and lu: "lb < ub"
    and v: "nan_min (nan_max (step_top ub k st) (step_left lb k st)) (Some (sq_length s1)) = Some v"
  shows "0 \<le> v \<and> v \<le> sq_length s1 \<and> reaches s1 s2 (step_path (Some v) ub k st) v k"
proof -
  obtain t l where t: "step_top ub k st = Some t" and l: "step_left lb k st = Some l"
    and v: "v = min (max t l) (sq_length s1)"
    using v by (cases "step_top ub k st"; cases "step_left lb k st") auto
  have top: "(k = ub \<and> t = - 1) \<or> (k \<noteq> ub \<and> 0 \<le> t \<and> t \<le> sq_length s1 \<and>
      reaches s1 s2 (FastArrayNegativeIndices_get (ms_paths st) (k + 1)) t (k + 1))"
    using t ok get_Some_value unfolding step_top_def diagonals_ok_def by (metis option.inject)
  have left: "(k = lb \<and> l = - 1) \<or> (k \<noteq> lb \<and> 1 \<le> l \<and> l \<le> sq_length s1 + 1 \<and>
      reaches s1 s2 (FastArrayNegativeIndices_get (ms_paths st) (k - 1)) (l - 1) (k - 1))"
  proof (cases "k = lb")
    case False
    then obtain w where w: "FastInt32Array_get (ms_V st) (k - 1) = Some w" "l = w + 1"
      using l by (cases "FastInt32Array_get (ms_V st) (k - 1)") (auto simp: step_left_def)
    then show ?thesis
      using ok get_Some_value [OF w(1)] False unfolding diagonals_ok_def by force
  qed (use l in \<open>simp add: step_left_def\<close>)
  have some: "0 \<le> t \<or> 0 \<le> l"
    using top left lu by auto
  then have range: "0 \<le> v" "v \<le> sq_length s1"
    using v s by (auto simp: diffable_def)
  moreover have "reaches s1 s2 (step_path (Some v) ub k st) v k"
  proof (cases "v = t")
    case True
    then have "reaches s1 s2 (FastArrayNegativeIndices_get (ms_paths st) (k + 1)) v (k + 1)"
      using top range by auto
    then show ?thesis
      using True reaches_down by (simp add: step_path_def t)
  next
    case False
    then have lt: "k \<noteq> lb" "t < l" "v = min l (sq_length s1)"
      using top left v some by auto
    then have r: "reaches s1 s2 (FastArrayNegativeIndices_get (ms_paths st) (k - 1)) (l - 1) (k - 1)"
      using left by auto
    have "reaches s1 s2 (FastArrayNegativeIndices_get (ms_paths st) (k - 1)) v k"
    proof (cases "l \<le> sq_length s1")
      case True
      then show ?thesis
        using lt reaches_right [OF r] by simp
    next
      case False
      then have "l - 1 = sq_length s1"
        using left lt by auto
      then show ?thesis
        using r lt reaches_clamped by auto
    qed
    then show ?thesis
      using False by (simp add: step_path_def t)
  qed
  ultimately show ?thesis by simp
qed

lemma myers_diagonal_ok:
  assumes "diagonals_ok s1 s2 st" "diffable s1 s2" "within_reach (ms_V st) k" "lb < ub"
  shows "diagonals_ok s1 s2 (fst (myers_diagonal s1 s2 lb ub k st))"
proof -
  let ?x = "nan_min (nan_max (step_top ub k st) (step_left lb k st)) (Some (sq_length s1))"
  have "diagonals_ok s1 s2 (step_write s1 s2 ?x (step_path ?x ub k st) k st)"
    if "\<not> nan_less (Some (sq_length s2)) (nan_add ?x (Some (- k)))"
  proof (rule step_write_ok [OF assms(1-3)])
    fix v
    assume v: "?x = Some v"
    show "0 \<le> v \<and> v \<le> sq_length s1 \<and> v - k \<le> sq_length s2 \<and> reaches s1 s2 (step_path ?x ub k st) v k"
      using step_start_ok [OF assms(1,2,4) v] that by (simp add: v)
  qed
  then show ?thesis
    using assms(1) by (simp add: myers_diagonal_step Let_def)
qed

lemma myers_diagonal_done:
  assumes "myers_diagonal s1 s2 lb ub k st = (st', True)"
  shows "diag_value (ms_V st') k = sq_length s1" "sq_length s1 - k = sq_length s2"
  using assms
  by (auto simp: myers_diagonal_step Let_def nan_eq_iff diag_value_def split: if_splits)

section \<open>One round\<close>

text \<open>
  Writes are never dropped: a round goes at most one diagonal further than the one before on
  either side, and after a round both arrays reach to within one cell of its last diagonals,
  because a diagonal that is skipped was computed from an allocated neighbour.
\<close>

abbreviation neg_size :: "FastInt32Array \<Rightarrow> int" where
  "neg_size a \<equiv> int (length (fi_negativeArr a))"

abbreviation pos_size :: "FastInt32Array \<Rightarrow> int" where
  "pos_size a \<equiv> int (length (fi_positiveArr a))"

lemma get_Some_allocated: "FastInt32Array_get a k = Some v \<Longrightarrow> - k \<le> neg_size a \<and> k < pos_size a \<or> pos_size a = 0 \<and> - k \<le> neg_size a \<and> k < 0 \<or> neg_size a = 0 \<and> 0 \<le> k \<and> k < pos_size a"
  by (auto simp: FastInt32Array_get_def js_get_def split: if_splits)

lemma set_allocates:
  assumes "within_reach a k"
  shows "- k \<le> neg_size (FastInt32Array_set a k v)" "k < pos_size (FastInt32Array_set a k v) \<or> k < 0"
  using assms length_grow_and_write(2) [of "- k - 1" "fi_negativeArr a" v] length_grow_and_write(2) [of k "fi_positiveArr a" v]
  by (auto simp: FastInt32Array_set_def within_reach_def)

lemma diagonal_grows:
  "neg_size (ms_V st) \<le> neg_size (ms_V (fst (myers_diagonal s1 s2 lb ub k st)))"
  "pos_size (ms_V st) \<le> pos_size (ms_V (fst (myers_diagonal s1 s2 lb ub k st)))"
  by (auto simp: myers_diagonal_step step_write_def Let_def set_grows)

lemma nan_less_Some: "nan_less a b \<Longrightarrow> \<exists>x. b = Some x"
  by (cases b) auto

lemma nan_add_Some: "nan_add a b = Some c \<Longrightarrow> \<exists>x y. a = Some x \<and> b = Some y"
  by (cases a; cases b) auto

lemma nan_min_max_Some: "nan_min (nan_max a b) c = Some d \<Longrightarrow> \<exists>x y. a = Some x \<and> b = Some y"
  by (cases a; cases b) auto

text \<open>A diagonal is written, or both its neighbours are allocated (where they are read).\<close>

lemma diagonal_written_or_read:
  fixes s1 s2 :: ISequence and lb ub :: int
  assumes "within_reach (ms_V st) k"
  defines "st' \<equiv> fst (myers_diagonal s1 s2 lb ub k st)"
  shows "(- k \<le> neg_size (ms_V st') \<and> (k < pos_size (ms_V st') \<or> k < 0)) \<or>
    (\<exists>t l. step_top ub k st = Some t \<and> step_left lb k st = Some l)"
proof -
  let ?x = "nan_min (nan_max (step_top ub k st) (step_left lb k st)) (Some (sq_length s1))"
  show ?thesis
  proof (cases "nan_less (Some (sq_length s1)) ?x \<or> nan_less (Some (sq_length s2)) (nan_add ?x (Some (- k)))")
    case True
    then obtain x where "?x = Some x"
      using nan_less_Some nan_add_Some by metis
    then show ?thesis
      using nan_min_max_Some by blast
  next
    case False
    then have "ms_V st' = FastInt32Array_set (ms_V st) k (getXAfterSnake s1 s2 ?x (nan_add ?x (Some (- k))))"
      by (simp add: st'_def myers_diagonal_step step_write_def Let_def)
    then show ?thesis
      using set_allocates [OF assms(1)] by simp
  qed
qed

lemma diagonal_covers_left:
  assumes "within_reach (ms_V st) k" "k < ub" "0 < neg_size (ms_V st)" "0 < pos_size (ms_V st)"
  shows "- k \<le> neg_size (ms_V (fst (myers_diagonal s1 s2 lb ub k st))) + 1"
proof -
  have "- k \<le> neg_size (ms_V st) + 1" if "step_top ub k st = Some t" for t
    using that assms(2-4) get_Some_allocated [of "ms_V st" "k + 1" t] by (auto simp: step_top_def)
  then show ?thesis
    using diagonal_written_or_read [OF assms(1), of s1 s2 lb ub] diagonal_grows(1) [of st s1 s2 lb ub k] by force
qed

lemma diagonal_covers_right:
  assumes "within_reach (ms_V st) k" "ub - 1 \<le> k" "k \<le> ub" "lb < ub" "0 < neg_size (ms_V st)" "0 < pos_size (ms_V st)"
  shows "ub \<le> pos_size (ms_V (fst (myers_diagonal s1 s2 lb ub k st))) + 1"
proof -
  have "ub \<le> pos_size (ms_V st) + 1" if tl: "step_top ub k st = Some t" "step_left lb k st = Some l" for t l
  proof (cases "k = ub")
    case True
    then obtain w where "FastInt32Array_get (ms_V st) (k - 1) = Some w"
      using tl assms(4) nan_add_Some by (fastforce simp: step_left_def)
    then show ?thesis
      using get_Some_allocated True assms(5,6) by force
  next
    case False
    then have "FastInt32Array_get (ms_V st) (k + 1) = Some t" "k + 1 = ub"
      using tl assms(2,3) by (auto simp: step_top_def)
    then show ?thesis
      using get_Some_allocated assms(5,6) by force
  qed
  then show ?thesis
    using diagonal_written_or_read [OF assms(1), of s1 s2 lb ub] diagonal_grows(2) [of st s1 s2 lb ub k] assms(2)
    by force
qed

lemma within_reach_grow:
  "within_reach a k \<Longrightarrow> neg_size a \<le> neg_size b \<Longrightarrow> pos_size a \<le> pos_size b \<Longrightarrow> within_reach b k"
  by (auto simp: within_reach_def)

lemma myers_round_ok:
  "myers_round s1 s2 lb ub k st = (st', r) \<Longrightarrow> diagonals_ok s1 s2 st \<Longrightarrow> diffable s1 s2 \<Longrightarrow> lb < ub \<Longrightarrow> lb \<le> k \<Longrightarrow>
   \<forall>j. lb \<le> j \<and> j \<le> ub \<longrightarrow> within_reach (ms_V st) j \<Longrightarrow> 0 < neg_size (ms_V st) \<Longrightarrow> 0 < pos_size (ms_V st) \<Longrightarrow>
   diagonals_ok s1 s2 st' \<and> neg_size (ms_V st) \<le> neg_size (ms_V st') \<and> pos_size (ms_V st) \<le> pos_size (ms_V st') \<and>
   (\<forall>j. r = Some j \<longrightarrow> diag_value (ms_V st') j = sq_length s1 \<and> sq_length s1 - j = sq_length s2) \<and>
   (r = None \<longrightarrow> (k < ub \<longrightarrow> - k \<le> neg_size (ms_V st') + 1) \<and> (k \<le> ub \<longrightarrow> ub \<le> pos_size (ms_V st') + 1))"
proof (induction s1 s2 lb ub k st arbitrary: st' r rule: myers_round.induct)
  case (1 s1 s2 lb ub k st)
  show ?case
  proof (cases "k \<le> ub")
    case False
    then show ?thesis
      using "1.prems" by (subst (asm) myers_round.simps) auto
  next
    case True
    obtain st1 fin where step: "myers_diagonal s1 s2 lb ub k st = (st1, fin)"
      by (cases "myers_diagonal s1 s2 lb ub k st")
    have reach: "within_reach (ms_V st) k"
      using "1.prems"(5,6) True by simp
    have ok1: "diagonals_ok s1 s2 st1"
      using myers_diagonal_ok [OF "1.prems"(2,3) reach "1.prems"(4)] step by simp
    have grow1: "neg_size (ms_V st) \<le> neg_size (ms_V st1)" "pos_size (ms_V st) \<le> pos_size (ms_V st1)"
      using diagonal_grows [of st s1 s2 lb ub k] step by simp_all
    have left1: "k < ub \<Longrightarrow> - k \<le> neg_size (ms_V st1) + 1"
      using diagonal_covers_left [OF reach, of ub s1 s2 lb] "1.prems"(7,8) step by simp
    have right1: "ub - 1 \<le> k \<Longrightarrow> ub \<le> pos_size (ms_V st1) + 1"
      using diagonal_covers_right [OF reach, of ub lb s1 s2] "1.prems"(4,7,8) True step by simp
    show ?thesis
    proof (cases fin)
      case True
      then have "st' = st1" "r = Some k"
        using "1.prems"(1) \<open>k \<le> ub\<close> step by (subst (asm) myers_round.simps, simp)+
      then show ?thesis
        using ok1 grow1 myers_diagonal_done [of s1 s2 lb ub k st st1] step True by auto
    next
      case False
      then have rest: "myers_round s1 s2 lb ub (k + 2) st1 = (st', r)"
        using "1.prems"(1) \<open>k \<le> ub\<close> step by (subst (asm) myers_round.simps) simp
      have reach1: "\<forall>j. lb \<le> j \<and> j \<le> ub \<longrightarrow> within_reach (ms_V st1) j"
        using "1.prems"(6) grow1 within_reach_grow by blast
      have IH: "diagonals_ok s1 s2 st' \<and> neg_size (ms_V st1) \<le> neg_size (ms_V st') \<and> pos_size (ms_V st1) \<le> pos_size (ms_V st') \<and>
        (\<forall>j. r = Some j \<longrightarrow> diag_value (ms_V st') j = sq_length s1 \<and> sq_length s1 - j = sq_length s2) \<and>
        (r = None \<longrightarrow> (k + 2 < ub \<longrightarrow> - (k + 2) \<le> neg_size (ms_V st') + 1) \<and> (k + 2 \<le> ub \<longrightarrow> ub \<le> pos_size (ms_V st') + 1))"
        using "1.prems" False step ok1 reach1 grow1 True
        by (intro "1.IH" [OF True step [symmetric] _ rest]) auto
      then show ?thesis
        using grow1 left1 right1 by (cases "k + 2 \<le> ub") auto
    qed
  qed
qed

section \<open>All rounds\<close>

definition rounds_inv :: "ISequence \<Rightarrow> ISequence \<Rightarrow> int \<Rightarrow> myers_state \<Rightarrow> bool" where
  "rounds_inv s1 s2 d st \<longleftrightarrow>
     diagonals_ok s1 s2 st \<and> 0 \<le> d \<and> 10 \<le> neg_size (ms_V st) \<and> 10 \<le> pos_size (ms_V st) \<and>
     - myers_lowerBound s2 d \<le> neg_size (ms_V st) + 1 \<and> myers_upperBound s1 d \<le> pos_size (ms_V st) + 1"

lemma bounds_step:
  assumes "diffable s1 s2" "0 \<le> d"
  shows "myers_lowerBound s2 (d + 1) < 0" "0 < myers_upperBound s1 (d + 1)"
    "- myers_lowerBound s2 (d + 1) \<le> - myers_lowerBound s2 d + 1"
    "myers_upperBound s1 (d + 1) \<le> myers_upperBound s1 d + 1"
proof -
  have "(d + 1) mod 2 \<le> d mod 2 + 1" "0 \<le> (d + 1) mod 2"
    by presburger+
  then show "myers_lowerBound s2 (d + 1) < 0" "0 < myers_upperBound s1 (d + 1)"
    "- myers_lowerBound s2 (d + 1) \<le> - myers_lowerBound s2 d + 1"
    "myers_upperBound s1 (d + 1) \<le> myers_upperBound s1 d + 1"
    using assms by (auto simp: myers_lowerBound_def myers_upperBound_def diffable_def)
qed

lemma myers_start_ok:
  assumes s: "diffable s1 s2"
  shows "rounds_inv s1 s2 0 (myers_start s1 s2)"
proof -
  define e where "e = snake_end s1 s2 0 0"
  have e: "0 \<le> e" "e \<le> sq_length s1"
    using snake_end_props [of 0 s1 s2 0] s by (auto simp: e_def diffable_def)
  have reach: "within_reach new_FastInt32Array 0"
    by (simp add: within_reach_def new_FastInt32Array_def)
  have cell: "to_int32_cell (Some e) = e" "to_int32_cell (Some 0) = 0"
    using e s by (auto intro!: to_int32_cell_id simp: diffable_def)
  have v0: "FastInt32Array_get (FastInt32Array_set new_FastInt32Array 0 (Some e)) 0 = Some e"
    by (simp add: FastInt32Array_get_def FastInt32Array_set_def grow_and_write_def new_FastInt32Array_def js_get_def cell)
  have none: "FastArrayNegativeIndices_get new_FastArrayNegativeIndices k = None" for k
    by (simp add: FastArrayNegativeIndices_get_def new_FastArrayNegativeIndices_def js_read_def js_get_def)
  have zero: "diag_value new_FastInt32Array k = 0" for k
    by (simp add: diag_value_def FastInt32Array_get_def new_FastInt32Array_def js_get_def)
  have "reaches s1 s2 (if e = 0 then None else Some (SnakePath None (Some 0) (Some 0) (Some e))) e 0"
    using reaches_snake [of s1 s2 None 0 0 e] s e by (auto simp: e_def reaches_def diffable_def)
  moreover have "reaches s1 s2 None 0 k" for k
    using s by (simp add: reaches_def diffable_def)
  moreover have st: "myers_start s1 s2 = \<lparr>ms_V = FastInt32Array_set new_FastInt32Array 0 (Some e),
      ms_paths = FastArrayNegativeIndices_set new_FastArrayNegativeIndices 0
        (if e = 0 then None else Some (SnakePath None (Some 0) (Some 0) (Some e)))\<rparr>"
    by (simp add: myers_start_def getXAfterSnake_def Let_def v0 flip: e_def)
  ultimately have "diagonals_ok s1 s2 (myers_start s1 s2)"
    using e by (auto simp: diagonals_ok_def diag_value_set [OF reach] FastArray_get_set none cell zero)
  moreover have "neg_size (ms_V (myers_start s1 s2)) = 10" "pos_size (ms_V (myers_start s1 s2)) = 10"
    by (simp_all add: st FastInt32Array_set_def grow_and_write_def new_FastInt32Array_def)
  ultimately show ?thesis
    using s by (simp add: rounds_inv_def myers_lowerBound_def myers_upperBound_def diffable_def)
qed

lemma rounds_inv_step:
  assumes inv: "rounds_inv s1 s2 d st" and s: "diffable s1 s2"
    and round: "myers_round s1 s2 (myers_lowerBound s2 (d + 1)) (myers_upperBound s1 (d + 1))
      (myers_lowerBound s2 (d + 1)) st = (st', r)"
  shows "r = None \<Longrightarrow> rounds_inv s1 s2 (d + 1) st'"
    "r = Some j \<Longrightarrow> path_ok s1 s2 (FastArrayNegativeIndices_get (ms_paths st') j) (sq_length s1) (sq_length s2)"
proof -
  have d: "0 \<le> d"
    using inv by (simp add: rounds_inv_def)
  note b = bounds_step [OF s d]
  have result: "diagonals_ok s1 s2 st' \<and> neg_size (ms_V st) \<le> neg_size (ms_V st') \<and> pos_size (ms_V st) \<le> pos_size (ms_V st') \<and>
    (\<forall>j. r = Some j \<longrightarrow> diag_value (ms_V st') j = sq_length s1 \<and> sq_length s1 - j = sq_length s2) \<and>
    (r = None \<longrightarrow> (myers_lowerBound s2 (d + 1) < myers_upperBound s1 (d + 1) \<longrightarrow>
        - myers_lowerBound s2 (d + 1) \<le> neg_size (ms_V st') + 1) \<and>
      (myers_lowerBound s2 (d + 1) \<le> myers_upperBound s1 (d + 1) \<longrightarrow> myers_upperBound s1 (d + 1) \<le> pos_size (ms_V st') + 1))"
    using inv b s by (intro myers_round_ok [OF round]) (auto simp: rounds_inv_def within_reach_def)
  show "rounds_inv s1 s2 (d + 1) st'" if "r = None"
    using result that b inv by (auto simp: rounds_inv_def)
  show "path_ok s1 s2 (FastArrayNegativeIndices_get (ms_paths st') j) (sq_length s1) (sq_length s2)" if "r = Some j"
  proof -
    have "reaches s1 s2 (FastArrayNegativeIndices_get (ms_paths st') j) (sq_length s1) j" "sq_length s1 - j = sq_length s2"
      using result that unfolding diagonals_ok_def by metis+
    then show ?thesis
      using s by (auto simp: reaches_def diffable_def)
  qed
qed

lemma myers_loop_ok:
  assumes "myers_loop s1 s2 isValid d st = Some (Some (k, st'))" "diffable s1 s2" "rounds_inv s1 s2 d st"
  shows "path_ok s1 s2 (FastArrayNegativeIndices_get (ms_paths st') k) (sq_length s1) (sq_length s2)"
proof -
  let ?P = "\<lambda>s1 s2 (isValid :: nat \<Rightarrow> bool) d st r. \<forall>k st'. r = Some (k, st') \<longrightarrow> diffable s1 s2 \<longrightarrow> rounds_inv s1 s2 d st \<longrightarrow>
    path_ok s1 s2 (FastArrayNegativeIndices_get (ms_paths st') k) (sq_length s1) (sq_length s2)"
  have "?P s1 s2 isValid d st (Some (k, st'))"
  proof (rule myers_loop.raw_induct [where P = ?P, OF _ assms(1)])
    fix loop s1 s2 isValid d st r
    assume IH: "\<And>s1 s2 isValid d st r. loop s1 s2 isValid d st = Some r \<Longrightarrow> ?P s1 s2 isValid d st r"
      and body: "(if \<not> isValid (nat d) then Some None
        else case myers_round s1 s2 (myers_lowerBound s2 (d + 1)) (myers_upperBound s1 (d + 1))
                    (myers_lowerBound s2 (d + 1)) st of
          (st', None) \<Rightarrow> loop s1 s2 isValid (d + 1) st'
        | (st', Some k) \<Rightarrow> Some (Some (k, st'))) = Some r"
    obtain st1 f where round: "myers_round s1 s2 (myers_lowerBound s2 (d + 1)) (myers_upperBound s1 (d + 1))
        (myers_lowerBound s2 (d + 1)) st = (st1, f)"
      by (cases "myers_round s1 s2 (myers_lowerBound s2 (d + 1)) (myers_upperBound s1 (d + 1))
        (myers_lowerBound s2 (d + 1)) st")
    show "?P s1 s2 isValid d st r"
    proof (intro allI impI)
      fix k st'
      assume r: "r = Some (k, st')" and s: "diffable s1 s2" and inv: "rounds_inv s1 s2 d st"
      note step = rounds_inv_step [OF inv s round]
      show "path_ok s1 s2 (FastArrayNegativeIndices_get (ms_paths st') k) (sq_length s1) (sq_length s2)"
      proof (cases f)
        case None
        then have "loop s1 s2 isValid (d + 1) st1 = Some r"
          using body r round by (auto split: if_splits)
        then show ?thesis
          using IH step(1) [OF None] r s by blast
      next
        case (Some j)
        then show ?thesis
          using body r round step(2) [OF Some] by (auto split: if_splits)
      qed
    qed
  qed
  then show ?thesis
    using assms(2,3) by simp
qed

text \<open>The loop ends at the latest when the time runs out.\<close>

lemma myers_loop_returns:
  "\<not> isValid (nat d + n) \<Longrightarrow> 0 \<le> d \<Longrightarrow> myers_loop s1 s2 isValid d st \<noteq> None"
proof (induction n arbitrary: d st)
  case 0
  then show ?case
    by (subst myers_loop.simps) simp
next
  case (Suc n)
  have "nat (d + 1) + n = nat d + Suc n"
    using Suc.prems by simp
  then have "myers_loop s1 s2 isValid (d + 1) st' \<noteq> None" for st'
    using Suc by (metis add_increasing2 zero_le_one)
  then show ?case
    by (subst myers_loop.simps) (auto split: prod.splits option.splits)
qed

text \<open>The loop for a bounded number of rounds and no timeout, to run it on examples.\<close>

fun myers_run :: "nat \<Rightarrow> ISequence \<Rightarrow> ISequence \<Rightarrow> int \<Rightarrow> myers_state \<Rightarrow> (int \<times> myers_state) option" where
  "myers_run 0 seqX seqY d st = None"
| "myers_run (Suc n) seqX seqY d st =
     (case myers_round seqX seqY (myers_lowerBound seqY (d + 1)) (myers_upperBound seqX (d + 1))
             (myers_lowerBound seqY (d + 1)) st of
        (st', Some k) \<Rightarrow> Some (k, st')
      | (st', None) \<Rightarrow> myers_run n seqX seqY (d + 1) st')"

lemma myers_run_loop: "myers_run n s1 s2 d st = Some r \<Longrightarrow> myers_loop s1 s2 (\<lambda>_. True) d st = Some (Some r)"
  by (induction n s1 s2 d st rule: myers_run.induct)
    (subst myers_loop.simps, auto split: prod.splits option.splits)+

section \<open>The reported differences\<close>

lemma myers_extract_ok:
  "path_ok s1 s2 p (bs_lastAligningPosS1 st) (bs_lastAligningPosS2 st) \<Longrightarrow> back_inv s1 s2 st \<Longrightarrow>
   myers_extract p st = Some r \<Longrightarrow>
   \<exists>st'. r = Ok st' \<and> is_diff s1 s2 (rev (bs_result st')) \<and> proper_diffs (rev (bs_result st'))"
proof (induction p st arbitrary: r rule: myers_extract.induct)
  case (1 st)
  obtain ds where "push_unaligned 0 0 st = Ok (st\<lparr>bs_result := ds\<rparr>)" "is_diff s1 s2 (rev ds)" "proper_diffs (rev ds)"
    using push_unaligned_ok [OF "1"(2), of 0 0] "1"(1) by auto
  then show ?case
    using "1"(3) by (intro exI [of _ "st\<lparr>bs_result := ds\<rparr>"]) simp
next
  case (2 prev x y len st)
  obtain a b l where xyl: "x = Some a" "y = Some b" "len = Some l"
    using "2.prems"(3) by (cases x; cases y; cases len) auto
  then have path: "1 \<le> l" "a + l \<le> bs_lastAligningPosS1 st" "b + l \<le> bs_lastAligningPosS2 st"
    "same_part s1 s2 a b l" "path_ok s1 s2 prev a b"
    using "2.prems"(1) by auto
  obtain ds where ds: "push_unaligned (a + l) (b + l) st = Ok (st\<lparr>bs_result := ds\<rparr>)"
    "is_diff_from s1 s2 (a + l) (b + l) (rev ds)" "separated_from (a + l - 1) (rev ds)"
    using push_unaligned_ok [OF "2.prems"(2) path(2,3)] .
  let ?st = "st\<lparr>bs_result := ds, bs_lastAligningPosS1 := a, bs_lastAligningPosS2 := b\<rparr>"
  have "back_inv s1 s2 ?st"
    using ds path is_diff_from_extend [OF ds(2) path(4)] separated_from_mono [OF ds(3), of a]
    by (simp add: back_inv_def)
  moreover have "myers_extract prev ?st = Some r"
    using "2.prems"(3) ds(1) xyl by simp
  moreover have "path_ok s1 s2 prev (bs_lastAligningPosS1 ?st) (bs_lastAligningPosS2 ?st)"
    using path(5) by simp
  ultimately show ?case
    using "2.IH" [OF refl _ refl _ refl, of "a + l" "b + l" a b "st\<lparr>bs_result := ds\<rparr>"] xyl ds(1) by simp
qed

theorem myers_is_diff:
  assumes "proper_sequence s1" "proper_sequence s2" "sq_length s1 < 2147483648"
    and r: "MyersDiffAlgorithm_compute s1 s2 isValid = Some r"
  shows "\<exists>q. r = Ok q \<and> is_diff s1 s2 (dr_diffs q) \<and>
    (sq_length s1 \<noteq> 0 \<or> sq_length s2 \<noteq> 0 \<longrightarrow> proper_diffs (dr_diffs q))"
proof (cases "sq_length s1 = 0 \<or> sq_length s2 = 0")
  case True
  then show ?thesis
    using r assms(1,2) trivial_result_ok [of s1 s2 False]
    by (auto simp: MyersDiffAlgorithm_compute_def DiffAlgorithmResult_trivial_def proper_sequence_def)
next
  case False
  then have s: "diffable s1 s2"
    using assms by (auto simp: diffable_def proper_sequence_def wf_sequence_def)
  consider "myers_loop s1 s2 isValid 0 (myers_start s1 s2) = Some None"
    | k st where "myers_loop s1 s2 isValid 0 (myers_start s1 s2) = Some (Some (k, st))"
    using r False by (auto simp: MyersDiffAlgorithm_compute_def Let_def split: option.splits)
  then show ?thesis
  proof cases
    case 1
    then show ?thesis
      using r assms(1,2) False trivial_result_ok [of s1 s2 True]
      by (auto simp: MyersDiffAlgorithm_compute_def DiffAlgorithmResult_trivialTimedOut_def proper_sequence_def)
  next
    case (2 k st)
    let ?p = "FastArrayNegativeIndices_get (ms_paths st) k"
    let ?b = "\<lparr>bs_result = [], bs_lastAligningPosS1 = sq_length s1, bs_lastAligningPosS2 = sq_length s2\<rparr>"
    obtain e where e: "myers_extract ?p ?b = Some e"
      "r = bind_result e (\<lambda>s. Ok \<lparr>dr_diffs = rev (bs_result s), dr_hitTimeout = False\<rparr>)"
      using r False 2 by (auto simp: MyersDiffAlgorithm_compute_def)
    then show ?thesis
      using myers_extract_ok [of s1 s2 ?p ?b e] myers_loop_ok [OF 2 s myers_start_ok [OF s]] back_inv_start [of s1 s2]
      by auto
  qed
qed

end
