(* ===== verification/DiffOptimize.thy ===== *)
theory DiffOptimize
  imports DiffMyersProofs JsStrings
begin

text \<open>
  \<open>heuristicSequenceOptimizations.ts\<close> and \<open>lineSequence.ts\<close> of
  \<open>src/vs/editor/common/diff/defaultLinesDiffComputer\<close>: the sequence of the lines of a file, and
  the passes that shift and join differences.  \<open>mergeSequenceDiffs\<close> and \<open>removeShortMatches\<close> serve
  the character diffs, the others the line diffs as well.

  A list the code appends to, with its last element still open to change, is an argument for that
  element and the recursive result after it.
\<close>

section \<open>Sequences of lines\<close>

record LineSequence =
  ls_trimmedHash :: "int list"
  ls_lines :: "js_string list"

text \<open>\<open>getIndentation\<close> counts leading spaces and tabs; on a line that is not there it throws.\<close>

definition getIndentation :: "js_string \<Rightarrow> int" where
  "getIndentation str = int (length (takeWhile (\<lambda>c. c = 32 \<or> c = 9) str))"

definition indentation_at :: "js_string list \<Rightarrow> int \<Rightarrow> int result" where
  "indentation_at lines i = (case js_get lines i of None \<Rightarrow> Throw TypeError | Some l \<Rightarrow> Ok (getIndentation l))"

definition LineSequence_getBoundaryScore :: "LineSequence \<Rightarrow> int \<Rightarrow> int result" where
  "LineSequence_getBoundaryScore s len =
     bind_result (if len = 0 then Ok 0 else indentation_at (ls_lines s) (len - 1)) (\<lambda>indentationBefore.
     bind_result (if len = int (length (ls_lines s)) then Ok 0 else indentation_at (ls_lines s) len) (\<lambda>indentationAfter.
     Ok (1000 - (indentationBefore + indentationAfter))))"

definition LineSequence_getText :: "LineSequence \<Rightarrow> OffsetRange \<Rightarrow> js_string" where
  "LineSequence_getText s r = js_join [10] (js_slice (ls_lines s) (or_start r) (or_endExclusive r))"

definition LineSequence_isStronglyEqual :: "LineSequence \<Rightarrow> int \<Rightarrow> int \<Rightarrow> bool" where
  "LineSequence_isStronglyEqual s offset1 offset2 \<longleftrightarrow> js_get (ls_lines s) offset1 = js_get (ls_lines s) offset2"

text \<open>A \<open>LineSequence\<close> as the interface the algorithms take.\<close>

definition line_sequence :: "LineSequence \<Rightarrow> ISequence" where
  "line_sequence s =
     \<lparr>sq_getElement = js_get (ls_trimmedHash s), sq_length = int (length (ls_trimmedHash s)),
      sq_getBoundaryScore = Some (LineSequence_getBoundaryScore s),
      sq_isStronglyEqual = LineSequence_isStronglyEqual s\<rparr>"

section \<open>Joining differences by shifting them\<close>

definition one_side_empty :: "SequenceDiff \<Rightarrow> bool" where
  "one_side_empty d \<longleftrightarrow> OffsetRange_isEmpty (sd_seq1Range d) \<or> OffsetRange_isEmpty (sd_seq2Range d)"

definition shifts_left :: "ISequence \<Rightarrow> ISequence \<Rightarrow> SequenceDiff \<Rightarrow> int \<Rightarrow> bool" where
  "shifts_left sequence1 sequence2 cur d \<longleftrightarrow>
     sq_getElement sequence1 (start1 cur - d) = sq_getElement sequence1 (end1 cur - d) \<and>
     sq_getElement sequence2 (start2 cur - d) = sq_getElement sequence2 (end2 cur - d)"

definition shifts_right :: "ISequence \<Rightarrow> ISequence \<Rightarrow> SequenceDiff \<Rightarrow> int \<Rightarrow> bool" where
  "shifts_right sequence1 sequence2 cur d \<longleftrightarrow>
     sq_isStronglyEqual sequence1 (start1 cur + d) (end1 cur + d) \<and>
     sq_isStronglyEqual sequence2 (start2 cur + d) (end2 cur + d)"

text \<open>The counting loops: from \<open>d\<close> up, while \<open>d\<close> is below a bound and the test holds.\<close>

function count_while :: "(int \<Rightarrow> bool) \<Rightarrow> int \<Rightarrow> int \<Rightarrow> int" where
  "count_while test d bound = (if d < bound \<and> test d then count_while test (d + 1) bound else d)"
  by pat_completeness auto
termination
  by (relation "measure (\<lambda>(p, d, b). nat (b - d))") auto

declare count_while.simps [simp del]

primrec join_left :: "ISequence \<Rightarrow> ISequence \<Rightarrow> SequenceDiff \<Rightarrow> SequenceDiff list \<Rightarrow> SequenceDiff list result" where
  "join_left sequence1 sequence2 prevResult [] = Ok [prevResult]"
| "join_left sequence1 sequence2 prevResult (cur # rest) =
     (if one_side_empty cur then
        let len = start1 cur - end1 prevResult;
            d = count_while (shifts_left sequence1 sequence2 cur) 1 (len + 1) - 1
        in if d = len then
             bind_result (new_SequenceDiff (new_OffsetRange (start1 prevResult) (end1 cur - len))
                                           (new_OffsetRange (start2 prevResult) (end2 cur - len)))
               (\<lambda>m. join_left sequence1 sequence2 m rest)
           else bind_result (SequenceDiff_delta cur (- d)) (\<lambda>c.
                bind_result (join_left sequence1 sequence2 c rest) (\<lambda>result. Ok (prevResult # result)))
      else bind_result (join_left sequence1 sequence2 cur rest) (\<lambda>result. Ok (prevResult # result)))"

primrec join_right :: "ISequence \<Rightarrow> ISequence \<Rightarrow> SequenceDiff \<Rightarrow> SequenceDiff list \<Rightarrow> SequenceDiff list result" where
  "join_right sequence1 sequence2 cur [] = Ok [cur]"
| "join_right sequence1 sequence2 cur (nextResult # rest) =
     (if one_side_empty cur then
        let len = start1 nextResult - end1 cur;
            d = count_while (shifts_right sequence1 sequence2 cur) 0 len
        in if d = len then
             bind_result (new_SequenceDiff (new_OffsetRange (start1 cur + len) (end1 nextResult))
                                           (new_OffsetRange (start2 cur + len) (end2 nextResult)))
               (\<lambda>m. join_right sequence1 sequence2 m rest)
           else bind_result (if d > 0 then SequenceDiff_delta cur d else Ok cur) (\<lambda>c.
                bind_result (join_right sequence1 sequence2 nextResult rest) (\<lambda>result2. Ok (c # result2)))
      else bind_result (join_right sequence1 sequence2 nextResult rest) (\<lambda>result2. Ok (cur # result2)))"

definition joinSequenceDiffsByShifting ::
  "ISequence \<Rightarrow> ISequence \<Rightarrow> SequenceDiff list \<Rightarrow> SequenceDiff list result"
where
  "joinSequenceDiffsByShifting sequence1 sequence2 sequenceDiffs =
     (case sequenceDiffs of
        [] \<Rightarrow> Ok []
      | d # ds \<Rightarrow>
          bind_result (join_left sequence1 sequence2 d ds) (\<lambda>result.
          (case result of [] \<Rightarrow> Ok [] | r # rs \<Rightarrow> join_right sequence1 sequence2 r rs)))"

section \<open>Shifting differences to better positions\<close>

definition MAX_SHIFT_LIMIT :: int where
  "MAX_SHIFT_LIMIT = 100"

text \<open>
  The best shift: the first with the highest score, from \<open>offset\<close> up to \<open>deltaAfter\<close>; reading a
  score may throw.
\<close>

definition shift_score ::
  "(int \<Rightarrow> int result) \<Rightarrow> (int \<Rightarrow> int result) \<Rightarrow> SequenceDiff \<Rightarrow> int \<Rightarrow> int result"
where
  "shift_score score1 score2 diff offset =
     bind_result (score1 (start1 diff + offset)) (\<lambda>a.
     bind_result (score2 (start2 diff + offset)) (\<lambda>b.
     bind_result (score2 (end2 diff + offset)) (\<lambda>c. Ok (a + b + c))))"

function best_shift ::
  "(int \<Rightarrow> int result) \<Rightarrow> (int \<Rightarrow> int result) \<Rightarrow> SequenceDiff \<Rightarrow> int \<Rightarrow> int \<Rightarrow> int \<Rightarrow> int \<Rightarrow> int result"
where
  "best_shift score1 score2 diff offset deltaAfter bestDelta bestScore =
     (if offset \<le> deltaAfter then
        bind_result (shift_score score1 score2 diff offset) (\<lambda>score.
          if score > bestScore then best_shift score1 score2 diff (offset + 1) deltaAfter offset score
          else best_shift score1 score2 diff (offset + 1) deltaAfter bestDelta bestScore)
      else Ok bestDelta)"
  by pat_completeness auto
termination
  by (relation "measure (\<lambda>(s1, s2, d, x, a, b, c). nat (a + 1 - x))") auto

declare best_shift.simps [simp del]

definition shiftDiffToBetterPosition ::
  "SequenceDiff \<Rightarrow> ISequence \<Rightarrow> (int \<Rightarrow> int result) \<Rightarrow> ISequence \<Rightarrow> (int \<Rightarrow> int result) \<Rightarrow> OffsetRange \<Rightarrow> OffsetRange \<Rightarrow>
   SequenceDiff result"
where
  "shiftDiffToBetterPosition diff sequence1 score1 sequence2 score2 seq1ValidRange seq2ValidRange =
     (let deltaBefore = count_while (\<lambda>d. start1 diff - d \<ge> or_start seq1ValidRange \<and>
              start2 diff - d \<ge> or_start seq2ValidRange \<and>
              sq_isStronglyEqual sequence2 (start2 diff - d) (end2 diff - d)) 1 MAX_SHIFT_LIMIT - 1;
          deltaAfter = count_while (\<lambda>d. start1 diff + d < or_endExclusive seq1ValidRange \<and>
              end2 diff + d < or_endExclusive seq2ValidRange \<and>
              sq_isStronglyEqual sequence2 (start2 diff + d) (end2 diff + d)) 0 MAX_SHIFT_LIMIT
      in if deltaBefore = 0 \<and> deltaAfter = 0 then Ok diff
         else bind_result (best_shift score1 score2 diff (- deltaBefore) deltaAfter 0 (- 1))
                (\<lambda>bestDelta. SequenceDiff_delta diff bestDelta))"

text \<open>
  The loop writes each shifted difference back, so the next one sees it as its predecessor.
\<close>

fun shift_loop ::
  "ISequence \<Rightarrow> (int \<Rightarrow> int result) \<Rightarrow> ISequence \<Rightarrow> (int \<Rightarrow> int result) \<Rightarrow> SequenceDiff option \<Rightarrow> SequenceDiff list \<Rightarrow>
   SequenceDiff list result"
where
  "shift_loop sequence1 score1 sequence2 score2 prevDiff [] = Ok []"
| "shift_loop sequence1 score1 sequence2 score2 prevDiff (diff # rest) =
     bind_result (new_OffsetRange (case prevDiff of Some p \<Rightarrow> end1 p + 1 | None \<Rightarrow> 0)
                    (case rest of nextDiff # _ \<Rightarrow> start1 nextDiff - 1 | [] \<Rightarrow> sq_length sequence1)) (\<lambda>seq1ValidRange.
     bind_result (new_OffsetRange (case prevDiff of Some p \<Rightarrow> end2 p + 1 | None \<Rightarrow> 0)
                    (case rest of nextDiff # _ \<Rightarrow> start2 nextDiff - 1 | [] \<Rightarrow> sq_length sequence2)) (\<lambda>seq2ValidRange.
     bind_result
       (if OffsetRange_isEmpty (sd_seq1Range diff) then
          shiftDiffToBetterPosition diff sequence1 score1 sequence2 score2 seq1ValidRange seq2ValidRange
        else if OffsetRange_isEmpty (sd_seq2Range diff) then
          bind_result (shiftDiffToBetterPosition (SequenceDiff_swap diff) sequence2 score2 sequence1 score1
                         seq2ValidRange seq1ValidRange) (\<lambda>d. Ok (SequenceDiff_swap d))
        else Ok diff) (\<lambda>shifted.
     bind_result (shift_loop sequence1 score1 sequence2 score2 (Some shifted) rest) (\<lambda>ds. Ok (shifted # ds)))))"

definition shiftSequenceDiffs ::
  "ISequence \<Rightarrow> ISequence \<Rightarrow> SequenceDiff list \<Rightarrow> SequenceDiff list result"
where
  "shiftSequenceDiffs sequence1 sequence2 sequenceDiffs =
     (case (sq_getBoundaryScore sequence1, sq_getBoundaryScore sequence2) of
        (Some score1, Some score2) \<Rightarrow> shift_loop sequence1 score1 sequence2 score2 None sequenceDiffs
      | _ \<Rightarrow> Ok sequenceDiffs)"

definition optimizeSequenceDiffs ::
  "ISequence \<Rightarrow> ISequence \<Rightarrow> SequenceDiff list \<Rightarrow> SequenceDiff list result"
where
  "optimizeSequenceDiffs sequence1 sequence2 sequenceDiffs =
     bind_result (joinSequenceDiffsByShifting sequence1 sequence2 sequenceDiffs) (\<lambda>r1.
     bind_result (joinSequenceDiffsByShifting sequence1 sequence2 r1) (\<lambda>r2.
     shiftSequenceDiffs sequence1 sequence2 r2))"

section \<open>Joining across short matches\<close>

text \<open>Each pass joins a difference to the one before it when the pass's test holds.\<close>

fun join_when :: "(SequenceDiff \<Rightarrow> SequenceDiff \<Rightarrow> bool) \<Rightarrow> SequenceDiff \<Rightarrow> SequenceDiff list \<Rightarrow> SequenceDiff list result" where
  "join_when shouldJoin lastResult [] = Ok [lastResult]"
| "join_when shouldJoin lastResult (cur # rest) =
     (if shouldJoin lastResult cur
      then bind_result (SequenceDiff_join lastResult cur) (\<lambda>j. join_when shouldJoin j rest)
      else bind_result (join_when shouldJoin cur rest) (\<lambda>result. Ok (lastResult # result)))"

definition short_match :: "SequenceDiff \<Rightarrow> SequenceDiff \<Rightarrow> bool" where
  "short_match prev s \<longleftrightarrow> start1 s - end1 prev \<le> 2 \<or> start2 s - end2 prev \<le> 2"

definition removeShortMatches :: "SequenceDiff list \<Rightarrow> SequenceDiff list result" where
  "removeShortMatches sequenceDiffs =
     (case sequenceDiffs of [] \<Rightarrow> Ok [] | d # ds \<Rightarrow> join_when short_match d ds)"

text \<open>
  \<open>mergeSequenceDiffs\<close> takes the difference that starts first (the second list's on a tie) and
  joins it to the last one when it starts at or before its end.
\<close>

fun take_first_diffs :: "SequenceDiff list \<Rightarrow> SequenceDiff list \<Rightarrow> SequenceDiff list" where
  "take_first_diffs [] ys = ys"
| "take_first_diffs xs [] = xs"
| "take_first_diffs (x # xs) (y # ys) =
     (if start1 x < start1 y then x # take_first_diffs xs (y # ys) else y # take_first_diffs (x # xs) ys)"

definition reaches_next :: "SequenceDiff \<Rightarrow> SequenceDiff \<Rightarrow> bool" where
  "reaches_next prev s \<longleftrightarrow> end1 prev \<ge> start1 s"

definition mergeSequenceDiffs :: "SequenceDiff list \<Rightarrow> SequenceDiff list \<Rightarrow> SequenceDiff list result" where
  "mergeSequenceDiffs sequenceDiffs1 sequenceDiffs2 =
     (case take_first_diffs sequenceDiffs1 sequenceDiffs2 of
        [] \<Rightarrow> Ok []
      | d # ds \<Rightarrow> join_when reaches_next d ds)"

text \<open>
  \<open>removeVeryShortMatchingLinesBetweenDiffs\<close>: the unchanged text between two differences, without
  white space, is at most four characters long, and one of the two is longer than five lines.
  \<open>new OffsetRange\<close> for the unchanged part throws when the two overlap.
\<close>

definition unchanged_is_short :: "LineSequence \<Rightarrow> SequenceDiff \<Rightarrow> SequenceDiff \<Rightarrow> bool result" where
  "unchanged_is_short sequence1 before after =
     bind_result (new_OffsetRange (end1 before) (start1 after)) (\<lambda>unchangedRange.
       Ok (length (filter (\<lambda>c. \<not> is_js_space c) (LineSequence_getText sequence1 unchangedRange)) \<le> 4 \<and>
           (OffsetRange_length (sd_seq1Range before) + OffsetRange_length (sd_seq2Range before) > 5 \<or>
            OffsetRange_length (sd_seq1Range after) + OffsetRange_length (sd_seq2Range after) > 5)))"

fun join_short_lines ::
  "LineSequence \<Rightarrow> SequenceDiff \<Rightarrow> SequenceDiff list \<Rightarrow> bool \<Rightarrow> (SequenceDiff list \<times> bool) result"
where
  "join_short_lines sequence1 lastResult [] shouldRepeat = Ok ([lastResult], shouldRepeat)"
| "join_short_lines sequence1 lastResult (cur # rest) shouldRepeat =
     bind_result (unchanged_is_short sequence1 lastResult cur) (\<lambda>shouldJoin.
       if shouldJoin then
         bind_result (SequenceDiff_join lastResult cur) (\<lambda>j. join_short_lines sequence1 j rest True)
       else bind_result (join_short_lines sequence1 cur rest shouldRepeat)
              (\<lambda>(result, again). Ok (lastResult # result, again)))"

text \<open>
  \<open>do ... while (counter++ < 10 && shouldRepeat)\<close>: at most eleven passes, counted down here.
\<close>

fun short_lines_passes :: "nat \<Rightarrow> LineSequence \<Rightarrow> SequenceDiff list \<Rightarrow> SequenceDiff list result" where
  "short_lines_passes 0 sequence1 diffs = Ok diffs"
| "short_lines_passes (Suc n) sequence1 diffs =
     (case diffs of
        [] \<Rightarrow> Ok []
      | d # ds \<Rightarrow>
          bind_result (join_short_lines sequence1 d ds False) (\<lambda>(result, shouldRepeat).
            if shouldRepeat then short_lines_passes n sequence1 result else Ok result))"

definition removeVeryShortMatchingLinesBetweenDiffs ::
  "LineSequence \<Rightarrow> SequenceDiff list \<Rightarrow> SequenceDiff list result"
where
  "removeVeryShortMatchingLinesBetweenDiffs sequence1 sequenceDiffs =
     (if sequenceDiffs = [] then Ok [] else short_lines_passes 11 sequence1 sequenceDiffs)"

end
