(* ===== verification/DiffOptimizeProofs.thy ===== *)
theory DiffOptimizeProofs
  imports DiffOptimize
begin

text \<open>
  Every pass over the differences turns a diff into a diff: shifting a difference over elements
  that repeat, and joining two differences, keep the contract, and no pass throws.  The passes use
  of a sequence that its strong equality implies equality and that its scores are defined: these are
  the assumptions of the locale \<open>diff_source\<close>, which the sequences of lines interpret.
\<close>

section \<open>Shifting and joining\<close>

definition shifted :: "SequenceDiff \<Rightarrow> int \<Rightarrow> SequenceDiff" where
  "shifted d k = mk_sd (mk_or (start1 d + k) (end1 d + k)) (mk_or (start2 d + k) (end2 d + k))"

definition joined :: "SequenceDiff \<Rightarrow> SequenceDiff \<Rightarrow> SequenceDiff" where
  "joined d e = mk_sd (mk_or (start1 d) (end1 e)) (mk_or (start2 d) (end2 e))"

lemma shifted_diff_simps [simp]:
  "start1 (shifted d k) = start1 d + k" "end1 (shifted d k) = end1 d + k"
  "start2 (shifted d k) = start2 d + k" "end2 (shifted d k) = end2 d + k"
  by (simp_all add: shifted_def)

lemma joined_simps [simp]:
  "start1 (joined d e) = start1 d" "end1 (joined d e) = end1 e"
  "start2 (joined d e) = start2 d" "end2 (joined d e) = end2 e"
  by (simp_all add: joined_def)

lemma shifted_0 [simp]: "shifted d 0 = d"
  by (simp add: shifted_def)

lemma SequenceDiff_delta_ok:
  "start1 d \<le> end1 d \<Longrightarrow> start2 d \<le> end2 d \<Longrightarrow> SequenceDiff_delta d k = Ok (shifted d k)"
  by (auto simp: SequenceDiff_delta_def OffsetRange_delta_def new_OffsetRange_def shifted_def)

text \<open>The elements of a difference that a shift to the left, or to the right, passes over.\<close>

definition repeats_left :: "ISequence \<Rightarrow> ISequence \<Rightarrow> SequenceDiff \<Rightarrow> int \<Rightarrow> bool" where
  "repeats_left s1 s2 d k \<longleftrightarrow> (\<forall>j. 1 \<le> j \<and> j \<le> k \<longrightarrow>
     sq_getElement s1 (start1 d - j) = sq_getElement s1 (end1 d - j) \<and>
     sq_getElement s2 (start2 d - j) = sq_getElement s2 (end2 d - j))"

definition repeats_right :: "ISequence \<Rightarrow> ISequence \<Rightarrow> SequenceDiff \<Rightarrow> int \<Rightarrow> bool" where
  "repeats_right s1 s2 d k \<longleftrightarrow> (\<forall>j. 0 \<le> j \<and> j < k \<longrightarrow>
     sq_getElement s1 (start1 d + j) = sq_getElement s1 (end1 d + j) \<and>
     sq_getElement s2 (start2 d + j) = sq_getElement s2 (end2 d + j))"

lemma same_part_prefix: "same_part s1 s2 a b m \<Longrightarrow> n \<le> m \<Longrightarrow> same_part s1 s2 a b n"
  by (simp add: same_part_def)

lemma shift_left_ok:
  assumes diff: "is_diff_from s1 s2 a b (d # ds)" and k: "0 \<le> k" "k \<le> start1 d - a"
    and rep: "repeats_left s1 s2 d k"
  shows "is_diff_from s1 s2 a b (shifted d (- k) # ds)"
proof -
  have gap: "start2 d = b + (start1 d - a)" "same_part s1 s2 a b (start1 d - a)"
    using diff by simp_all
  have "sq_getElement s1 (end1 d - k + i) = sq_getElement s2 (end2 d - k + i)" if i: "0 \<le> i" "i < k" for i
  proof -
    have repeat: "sq_getElement s1 (start1 d - (k - i)) = sq_getElement s1 (end1 d - (k - i))"
      "sq_getElement s2 (start2 d - (k - i)) = sq_getElement s2 (end2 d - (k - i))"
      using rep [unfolded repeats_left_def, rule_format, of "k - i"] i by simp_all
    have same: "sq_getElement s1 (start1 d - (k - i)) = sq_getElement s2 (start2 d - (k - i))"
    proof -
      have e: "a + (start1 d - a - (k - i)) = start1 d - (k - i)" "b + (start1 d - a - (k - i)) = start2 d - (k - i)"
        using gap(1) by simp_all
      have "sq_getElement s1 (a + (start1 d - a - (k - i))) = sq_getElement s2 (b + (start1 d - a - (k - i)))"
        by (rule gap(2) [unfolded same_part_def, rule_format]) (use i k in auto)
      then show ?thesis by (simp only: e)
    qed
    have ends: "end1 d - k + i = end1 d - (k - i)" "end2 d - k + i = end2 d - (k - i)"
      by simp_all
    show ?thesis
      unfolding ends by (rule trans [OF repeat(1) [symmetric] trans [OF same repeat(2)]])
  qed
  then have "is_diff_from s1 s2 (end1 d - k) (end2 d - k) ds"
    using diff k by - (rule is_diff_from_extend [where n = k], simp_all add: same_part_def)
  then show ?thesis
    using diff k gap same_part_prefix [OF gap(2)] by simp
qed

lemma shift_right_ok:
  assumes diff: "is_diff_from s1 s2 a b (d # ds)" and k: "0 \<le> k"
    and room: "k \<le> (case ds of [] \<Rightarrow> sq_length s1 | e # _ \<Rightarrow> start1 e) - end1 d"
    and rep: "repeats_right s1 s2 d k"
  shows "is_diff_from s1 s2 a b (shifted d k # ds)"
proof -
  define n where "n = (case ds of [] \<Rightarrow> sq_length s1 | e # _ \<Rightarrow> start1 e) - end1 d"
  have after: "same_part s1 s2 (end1 d) (end2 d) n" "0 \<le> n"
    using diff by (auto simp: n_def split: list.splits)
  then have parts: "same_part s1 s2 (end1 d) (end2 d) k" "same_part s1 s2 (end1 d + k) (end2 d + k) (n - k)"
    using same_part_split [of k "n - k" s1 s2 "end1 d" "end2 d"] k room by (auto simp: n_def)
  have "sq_getElement s1 (start1 d + i) = sq_getElement s2 (start2 d + i)" if i: "0 \<le> i" "i < k" for i
    using rep [unfolded repeats_right_def, rule_format, of i] parts(1) [unfolded same_part_def, rule_format, of i] i
    by simp
  then have "same_part s1 s2 (start1 d) (start2 d) k"
    by (simp add: same_part_def)
  moreover have "a + (start1 d - a) = start1 d" "b + (start1 d - a) = start2 d"
    using diff by auto
  ultimately have "same_part s1 s2 a b (start1 d - a + k)"
    using diff k by (subst same_part_split) auto
  then have before: "same_part s1 s2 a b (start1 d + k - a)"
    by (simp add: algebra_simps)
  have "is_diff_from s1 s2 (end1 d + k) (end2 d + k) ds"
  proof (cases ds)
    case Nil
    then have "n - k = sq_length s1 - (end1 d + k)"
      by (simp add: n_def)
    then show ?thesis
      using diff room parts(2) Nil by (simp add: diff_diff_eq)
  next
    case (Cons e es)
    then have "n - k = start1 e - (end1 d + k)"
      by (simp add: n_def)
    then show ?thesis
      using diff room parts(2) Cons by (simp add: diff_diff_eq)
  qed
  then show ?thesis
    using diff k before by simp
qed

lemma join_ok:
  assumes "is_diff_from s1 s2 a b (d # e # ds)"
  shows "is_diff_from s1 s2 a b (joined d e # ds)" "SequenceDiff_join d e = Ok (joined d e)"
  using assms by (auto simp: SequenceDiff_join_def OffsetRange_join_def new_OffsetRange_def joined_def)

lemma joined_separated:
  "separated_from x (d # e # ds) \<Longrightarrow> is_diff_from s1 s2 a b (d # e # ds) \<Longrightarrow> separated_from x (joined d e # ds)"
  by auto

section \<open>Counting loops\<close>

lemma count_while_props:
  "d \<le> count_while test d bound \<and> (d \<le> bound \<longrightarrow> count_while test d bound \<le> bound) \<and>
   (\<forall>j. d \<le> j \<and> j < count_while test d bound \<longrightarrow> test j)"
proof (induction test d bound rule: count_while.induct)
  case (1 test d bound)
  show ?case
  proof (cases "d < bound \<and> test d")
    case True
    then have "count_while test d bound = count_while test (d + 1) bound"
      by (subst count_while.simps) simp
    moreover have "test j" if "d \<le> j" "j < count_while test (d + 1) bound" for j
      using 1 [OF True] that True by (cases "j = d") auto
    ultimately show ?thesis
      using 1 [OF True] True by auto
  next
    case False
    then have "count_while test d bound = d"
      by (subst count_while.simps) auto
    then show ?thesis by auto
  qed
qed

section \<open>Joining by shifting\<close>

text \<open>What the passes rely on in a sequence.\<close>

locale diff_source =
  fixes s :: ISequence
  assumes length_nonneg: "0 \<le> sq_length s"
    and strong_equal: "sq_isStronglyEqual s i j \<Longrightarrow> sq_getElement s i = sq_getElement s j"
    and scored: "sq_getBoundaryScore s = Some f \<Longrightarrow> 0 \<le> i \<Longrightarrow> i \<le> sq_length s \<Longrightarrow> \<exists>v. f i = Ok v"

locale diff_pair = first: diff_source s1 + second: diff_source s2 for s1 s2 :: ISequence
begin

lemma join_left_ok:
  "is_diff_from s1 s2 a b (p # ds) \<Longrightarrow> separated_from x (p # ds) \<Longrightarrow>
   \<exists>r. join_left s1 s2 p ds = Ok r \<and> r \<noteq> [] \<and> is_diff_from s1 s2 a b r \<and> separated_from x r"
proof (induction ds arbitrary: p a b x)
  case Nil
  then show ?case by simp
next
  case (Cons cur ds)
  define len where "len = start1 cur - end1 p"
  define d where "d = count_while (shifts_left s1 s2 cur) 1 (len + 1) - 1"
  have rest: "is_diff_from s1 s2 (end1 p) (end2 p) (cur # ds)"
    using Cons.prems(1) by simp
  then have len: "0 \<le> len"
    by (simp add: len_def)
  then have d: "0 \<le> d" "d \<le> len" "repeats_left s1 s2 cur d"
    using count_while_props [of 1 "shifts_left s1 s2 cur" "len + 1"]
    by (auto simp: d_def repeats_left_def shifts_left_def)
  note moved = shift_left_ok [OF rest d(1) d(2)[unfolded len_def] d(3)]
  have delta: "SequenceDiff_delta cur (- d) = Ok (shifted cur (- d))"
    using rest by (intro SequenceDiff_delta_ok) simp_all
  show ?case
  proof (cases "one_side_empty cur")
    case False
    obtain r where "join_left s1 s2 cur ds = Ok r" "is_diff_from s1 s2 (end1 p) (end2 p) r" "separated_from (end1 p) r"
      using Cons.IH [OF rest, of "end1 p"] Cons.prems(2) by auto
    then show ?thesis
      using False Cons.prems by simp
  next
    case True
    show ?thesis
    proof (cases "d = len")
      case eq: True
      let ?m = "joined p (shifted cur (- len))"
      have full: "is_diff_from s1 s2 a b (p # shifted cur (- len) # ds)"
        using moved Cons.prems(1) eq by simp
      have m: "new_SequenceDiff (new_OffsetRange (start1 p) (end1 cur - len)) (new_OffsetRange (start2 p) (end2 cur - len)) = Ok ?m"
        using full by (auto simp: new_OffsetRange_def joined_def)
      have "separated_from x (?m # ds)"
        using Cons.prems full len by (auto intro: separated_from_mono)
      then show ?thesis
        using Cons.IH [OF join_ok(1) [OF full], of x] True eq m by (simp add: Let_def flip: len_def d_def)
    next
      case False
      then have "separated_from (end1 p) (shifted cur (- d) # ds)"
        using Cons.prems(2) d len by (auto simp: len_def intro: separated_from_mono)
      then obtain r where "join_left s1 s2 (shifted cur (- d)) ds = Ok r" "is_diff_from s1 s2 (end1 p) (end2 p) r"
        "separated_from (end1 p) r"
        using Cons.IH [OF moved] by blast
      then show ?thesis
        using True False delta Cons.prems by (simp add: Let_def flip: len_def d_def)
    qed
  qed
qed

lemma join_right_ok:
  "is_diff_from s1 s2 a b (cur # ds) \<Longrightarrow> separated_from x (cur # ds) \<Longrightarrow>
   \<exists>r. join_right s1 s2 cur ds = Ok r \<and> is_diff_from s1 s2 a b r \<and> separated_from x r"
proof (induction ds arbitrary: cur a b x)
  case Nil
  then show ?case by simp
next
  case (Cons nxt ds)
  define len where "len = start1 nxt - end1 cur"
  define d where "d = count_while (shifts_right s1 s2 cur) 0 len"
  have rest: "is_diff_from s1 s2 (end1 cur) (end2 cur) (nxt # ds)"
    using Cons.prems(1) by simp
  then have len: "0 \<le> len" "len = start2 nxt - end2 cur"
    by (simp_all add: len_def)
  then have d: "0 \<le> d" "d \<le> len" "repeats_right s1 s2 cur d"
    using count_while_props [of 0 "shifts_right s1 s2 cur" len]
    by (auto simp: d_def repeats_right_def shifts_right_def intro: first.strong_equal second.strong_equal)
  have moved: "is_diff_from s1 s2 a b (shifted cur d # nxt # ds)"
    using Cons.prems(1) d by (intro shift_right_ok) (simp_all add: len_def)
  have delta: "SequenceDiff_delta cur d = Ok (shifted cur d)"
    using Cons.prems(1) by (simp add: SequenceDiff_delta_ok)
  show ?case
  proof (cases "one_side_empty cur")
    case False
    obtain r where "join_right s1 s2 nxt ds = Ok r" "is_diff_from s1 s2 (end1 cur) (end2 cur) r" "separated_from (end1 cur) r"
      using Cons.IH [OF rest, of "end1 cur"] Cons.prems(2) by auto
    then show ?thesis
      using False Cons.prems by simp
  next
    case True
    show ?thesis
    proof (cases "d = len")
      case eq: True
      let ?m = "joined (shifted cur len) nxt"
      have m: "new_SequenceDiff (new_OffsetRange (start1 cur + len) (end1 nxt)) (new_OffsetRange (start2 cur + len) (end2 nxt)) = Ok ?m"
        using moved eq by (auto simp: new_OffsetRange_def joined_def)
      have "separated_from x (?m # ds)"
        using Cons.prems len moved eq by (auto simp: len_def)
      then show ?thesis
        using Cons.IH [OF join_ok(1) [OF moved [unfolded eq]], of x] True eq m by (simp add: Let_def flip: len_def d_def)
    next
      case False
      then have "is_diff_from s1 s2 (end1 cur + d) (end2 cur + d) (nxt # ds)" "separated_from (end1 cur + d) (nxt # ds)"
        using moved Cons.prems(2) d by (auto simp: len_def)
      then obtain r where "join_right s1 s2 nxt ds = Ok r" "is_diff_from s1 s2 (end1 cur + d) (end2 cur + d) r"
        "separated_from (end1 cur + d) r"
        using Cons.IH by blast
      then show ?thesis
        using True False delta Cons.prems moved d by (cases "d = 0") (simp_all add: Let_def flip: len_def d_def)
    qed
  qed
qed

lemma joinSequenceDiffsByShifting_ok:
  assumes "is_diff_from s1 s2 a b ds" "separated_from x ds"
  shows "\<exists>r. joinSequenceDiffsByShifting s1 s2 ds = Ok r \<and> is_diff_from s1 s2 a b r \<and> separated_from x r"
proof (cases ds)
  case Nil
  then show ?thesis
    using assms by (simp add: joinSequenceDiffsByShifting_def)
next
  case (Cons d es)
  obtain r where r: "join_left s1 s2 d es = Ok r" "r \<noteq> []" "is_diff_from s1 s2 a b r" "separated_from x r"
    using join_left_ok assms Cons by blast
  then show ?thesis
    using join_right_ok [of a b "hd r" "tl r" x] Cons
    by (cases r) (auto simp: joinSequenceDiffsByShifting_def)
qed

end

end
