(* ===== verification/DiffShiftProofs.thy ===== *)
theory DiffShiftProofs
  imports DiffOptimizeProofs
begin

text \<open>
  Shifting a difference to a better position stays between its neighbours, and reads scores of
  offsets inside the sequences only; joining differences across a match keeps a diff; and the
  sequences of lines satisfy what the passes assume.
\<close>

section \<open>Swapping the two sequences\<close>

lemma same_part_swap: "same_part s1 s2 a b n \<longleftrightarrow> same_part s2 s1 b a n"
  by (auto simp: same_part_def)

lemma is_diff_swap: "is_diff_from s1 s2 a b ds \<longleftrightarrow> is_diff_from s2 s1 b a (map SequenceDiff_swap ds)"
  by (induction ds arbitrary: a b) (auto simp: SequenceDiff_swap_def same_part_swap [of s1])

lemma swap_swap [simp]: "SequenceDiff_swap (SequenceDiff_swap d) = d"
  by (simp add: SequenceDiff_swap_def)

lemma swap_simps [simp]:
  "start1 (SequenceDiff_swap d) = start2 d" "end1 (SequenceDiff_swap d) = end2 d"
  "start2 (SequenceDiff_swap d) = start1 d" "end2 (SequenceDiff_swap d) = end1 d"
  by (simp_all add: SequenceDiff_swap_def)

lemma swap_shifted [simp]: "SequenceDiff_swap (shifted d k) = shifted (SequenceDiff_swap d) k"
  by (simp add: SequenceDiff_swap_def shifted_def)

section \<open>The best shift\<close>

lemma best_shift_ok:
  "\<forall>k. lo \<le> k \<and> k \<le> hi \<longrightarrow> (\<exists>v. shift_score f g d k = Ok v) \<Longrightarrow>
   \<exists>r. best_shift f g d lo hi best score = Ok r \<and> (r = best \<or> lo \<le> r \<and> r \<le> hi)"
proof (induction f g d lo hi best score rule: best_shift.induct)
  case (1 f g d lo hi best score)
  show ?case
  proof (cases "lo \<le> hi")
    case False
    then show ?thesis
      by (subst best_shift.simps) auto
  next
    case True
    then obtain v where v: "shift_score f g d lo = Ok v"
      using "1.prems" by blast
    have rest: "\<forall>k. lo + 1 \<le> k \<and> k \<le> hi \<longrightarrow> (\<exists>v. shift_score f g d k = Ok v)"
      using "1.prems" by auto
    have "\<exists>r. best_shift f g d (lo + 1) hi b c = Ok r \<and> (r = b \<or> lo + 1 \<le> r \<and> r \<le> hi)"
      if "b = lo \<and> c = v \<and> v > score \<or> b = best \<and> c = score \<and> \<not> v > score" for b c
      using that "1.IH" [OF True] rest by blast
    then show ?thesis
      using True v by (subst best_shift.simps) fastforce
  qed
qed

text \<open>
  \<open>d\<close> is a difference that is empty in the first sequence; the two ranges are what its neighbours
  leave it.
\<close>

lemma shiftDiffToBetterPosition_ok:
  assumes one: "diff_source s1" "sq_getBoundaryScore s1 = Some f" and two: "diff_source s2" "sq_getBoundaryScore s2 = Some g"
    and diff: "is_diff_from s1 s2 a b (d # ds)" and empty: "OffsetRange_isEmpty (sd_seq1Range d)"
    and lo: "a \<le> lo1" "0 \<le> lo1" "0 \<le> lo2" "lo1 \<le> start1 d" "lo2 \<le> start2 d"
    and hi: "hi1 \<le> (case ds of [] \<Rightarrow> sq_length s1 | e # _ \<Rightarrow> start1 e)" "hi1 \<le> sq_length s1" "hi2 \<le> sq_length s2"
      "end1 d \<le> hi1" "end2 d \<le> hi2"
  obtains k where "shiftDiffToBetterPosition d s1 f s2 g (mk_or lo1 hi1) (mk_or lo2 hi2) = Ok (shifted d k)"
    "is_diff_from s1 s2 a b (shifted d k # ds)" "lo1 \<le> start1 d + k" "lo2 \<le> start2 d + k"
    "end1 d + k \<le> hi1" "end2 d + k \<le> hi2"
proof -
  note strong = diff_source.strong_equal [OF two(1)]
  define tb where "tb = (\<lambda>k. start1 d - k \<ge> lo1 \<and> start2 d - k \<ge> lo2 \<and>
      sq_isStronglyEqual s2 (start2 d - k) (end2 d - k))"
  define ta where "ta = (\<lambda>k. start1 d + k < hi1 \<and> end2 d + k < hi2 \<and>
      sq_isStronglyEqual s2 (start2 d + k) (end2 d + k))"
  define db where "db = count_while tb 1 MAX_SHIFT_LIMIT - 1"
  define da where "da = count_while ta 0 MAX_SHIFT_LIMIT"
  have e1: "start1 d = end1 d"
    using empty by (simp add: OffsetRange_isEmpty_def)
  have ord: "start2 d \<le> end2 d"
    using diff by simp
  have "0 \<le> db" and tb: "\<And>j. 1 \<le> j \<Longrightarrow> j \<le> db \<Longrightarrow> tb j"
    using count_while_props [of 1 tb MAX_SHIFT_LIMIT] by (simp_all add: db_def)
  have "0 \<le> da" and ta: "\<And>j. 0 \<le> j \<Longrightarrow> j < da \<Longrightarrow> ta j"
    using count_while_props [of 0 ta MAX_SHIFT_LIMIT] by (simp_all add: da_def)
  note db = \<open>0 \<le> db\<close> tb [unfolded tb_def] and da = \<open>0 \<le> da\<close> ta [unfolded ta_def]
  have low: "lo1 \<le> start1 d - db" "lo2 \<le> start2 d - db"
    using db(2) [of db] db(1) lo by (cases "db = 0"; simp)+
  have high: "end1 d + da \<le> hi1" "end2 d + da \<le> hi2"
    using da(2) [of "da - 1"] da(1) hi e1 by (cases "da = 0"; simp)+
  have scores: "\<forall>k. - db \<le> k \<and> k \<le> da \<longrightarrow> (\<exists>v. shift_score f g d k = Ok v)"
  proof (intro allI impI)
    fix k
    assume k: "- db \<le> k \<and> k \<le> da"
    obtain u where "f (start1 d + k) = Ok u"
      using diff_source.scored [OF one, of "start1 d + k"] k low high lo hi e1 by auto
    moreover obtain v where "g (start2 d + k) = Ok v"
      using diff_source.scored [OF two, of "start2 d + k"] k low high lo hi ord by auto
    moreover obtain w where "g (end2 d + k) = Ok w"
      using diff_source.scored [OF two, of "end2 d + k"] k low high lo hi ord by auto
    ultimately show "\<exists>v. shift_score f g d k = Ok v"
      by (simp add: shift_score_def)
  qed
  obtain k where k: "best_shift f g d (- db) da 0 (- 1) = Ok k" "- db \<le> k" "k \<le> da"
    using best_shift_ok [OF scores, of 0 "- 1"] db(1) da(1) by auto
  have "is_diff_from s1 s2 a b (shifted d k # ds)" if "- db \<le> k" "k \<le> da" for k
  proof (cases "k < 0")
    case True
    then have "repeats_left s1 s2 d (- k)"
      using db(2) that strong by (auto simp: repeats_left_def e1)
    then show ?thesis
      using shift_left_ok [OF diff, of "- k"] True that low lo(1) by simp
  next
    case False
    then have "repeats_right s1 s2 d k"
      using da(2) that strong by (auto simp: repeats_right_def e1)
    then show ?thesis
      using shift_right_ok [OF diff, of k] False that high hi(1) by simp
  qed
  moreover have "shiftDiffToBetterPosition d s1 f s2 g (mk_or lo1 hi1) (mk_or lo2 hi2) =
      (if db = 0 \<and> da = 0 then Ok d
       else bind_result (best_shift f g d (- db) da 0 (- 1)) (\<lambda>bestDelta. SequenceDiff_delta d bestDelta))"
    by (simp add: shiftDiffToBetterPosition_def Let_def db_def da_def tb_def ta_def)
  moreover have "db = 0 \<and> da = 0 \<Longrightarrow> k = 0"
    using k by simp
  ultimately show ?thesis
    using k low high ord e1 by (intro that [of k]) (auto simp: SequenceDiff_delta_ok)
qed

section \<open>The shifting pass\<close>

lemma shift_loop_ok:
  assumes one: "diff_source s1" "sq_getBoundaryScore s1 = Some f" and two: "diff_source s2" "sq_getBoundaryScore s2 = Some g"
  shows "is_diff_from s1 s2 a b ds \<Longrightarrow> separated_from x ds \<Longrightarrow> 0 \<le> a \<Longrightarrow> 0 \<le> b \<Longrightarrow>
    (case p of Some q \<Rightarrow> a = end1 q \<and> b = end2 q \<and> x = a | None \<Rightarrow> a = 0 \<and> b = 0 \<and> x = - 1) \<Longrightarrow>
    \<exists>r. shift_loop s1 f s2 g p ds = Ok r \<and> is_diff_from s1 s2 a b r \<and> separated_from x r"
proof (induction ds arbitrary: a b x p)
  case Nil
  then show ?case by simp
next
  case (Cons d ds)
  define hi1 where "hi1 = (case ds of [] \<Rightarrow> sq_length s1 | e # _ \<Rightarrow> start1 e - 1)"
  define hi2 where "hi2 = (case ds of [] \<Rightarrow> sq_length s2 | e # _ \<Rightarrow> start2 e - 1)"
  define lo1 where "lo1 = (case p of Some q \<Rightarrow> end1 q + 1 | None \<Rightarrow> 0)"
  define lo2 where "lo2 = (case p of Some q \<Rightarrow> end2 q + 1 | None \<Rightarrow> 0)"
  have rest: "is_diff_from s1 s2 (end1 d) (end2 d) ds"
    using Cons.prems(1) by simp
  have lo: "a \<le> lo1" "b \<le> lo2" "0 \<le> lo1" "0 \<le> lo2" "lo1 \<le> start1 d" "lo2 \<le> start2 d" "lo1 = x + 1"
    using Cons.prems by (auto simp: lo1_def lo2_def split: option.splits)
  have hi: "end1 d \<le> hi1" "end2 d \<le> hi2" "hi1 \<le> sq_length s1" "hi2 \<le> sq_length s2"
    "hi1 \<le> (case ds of [] \<Rightarrow> sq_length s1 | e # _ \<Rightarrow> start1 e)" "hi2 \<le> (case ds of [] \<Rightarrow> sq_length s2 | e # _ \<Rightarrow> start2 e)"
    using Cons.prems(2) rest is_diff_from_le [OF rest] is_diff_from_le [of s1 s2]
    by (cases ds; force simp: hi1_def hi2_def)+
  have ord: "start1 d \<le> end1 d" "start2 d \<le> end2 d"
    using Cons.prems(1) by simp_all
  define sh where "sh = (if OffsetRange_isEmpty (sd_seq1Range d) then
        shiftDiffToBetterPosition d s1 f s2 g (mk_or lo1 hi1) (mk_or lo2 hi2)
      else if OffsetRange_isEmpty (sd_seq2Range d) then
        bind_result (shiftDiffToBetterPosition (SequenceDiff_swap d) s2 g s1 f (mk_or lo2 hi2) (mk_or lo1 hi1))
          (\<lambda>d. Ok (SequenceDiff_swap d))
      else Ok d)"
  obtain k where k: "sh = Ok (shifted d k)" "is_diff_from s1 s2 a b (shifted d k # ds)" "lo1 \<le> start1 d + k"
    "end1 d + k \<le> hi1" "lo2 \<le> start2 d + k" "end2 d + k \<le> hi2"
  proof (cases "OffsetRange_isEmpty (sd_seq1Range d)")
    case True
    show ?thesis
      by (rule shiftDiffToBetterPosition_ok [OF one two Cons.prems(1) True lo(1,3,4,5,6) hi(5,3,4,1,2)])
        (use True that in \<open>simp add: sh_def\<close>)
  next
    case False
    show ?thesis
    proof (cases "OffsetRange_isEmpty (sd_seq2Range d)")
      case True
      have swapped: "is_diff_from s2 s1 b a (SequenceDiff_swap d # map SequenceDiff_swap ds)"
        using Cons.prems(1) by (subst (asm) is_diff_swap) simp
      obtain k where k: "shiftDiffToBetterPosition (SequenceDiff_swap d) s2 g s1 f (mk_or lo2 hi2) (mk_or lo1 hi1) =
            Ok (shifted (SequenceDiff_swap d) k)"
        "is_diff_from s2 s1 b a (shifted (SequenceDiff_swap d) k # map SequenceDiff_swap ds)"
        "lo2 \<le> start2 d + k" "lo1 \<le> start1 d + k" "end2 d + k \<le> hi2" "end1 d + k \<le> hi1"
        by (rule shiftDiffToBetterPosition_ok [OF two one swapped, of lo2 lo1 hi2 hi1])
          (use True lo hi in \<open>auto simp: SequenceDiff_swap_def split: list.splits\<close>)
      have "is_diff_from s1 s2 a b (shifted d k # ds)"
        using k(2) by (subst is_diff_swap) simp
      then show ?thesis
        using that k False True by (simp add: sh_def)
    next
      case False
      then show ?thesis
        using that [of 0] Cons.prems(1) lo hi \<open>\<not> OffsetRange_isEmpty (sd_seq1Range d)\<close> by (simp add: sh_def)
    qed
  qed
  have "x < start1 (shifted d k)" "separated_from (end1 (shifted d k)) ds"
    using k lo(7) Cons.prems(2) by (auto simp: hi1_def split: list.splits)
  moreover from this obtain r where r: "shift_loop s1 f s2 g (Some (shifted d k)) ds = Ok r"
    "is_diff_from s1 s2 (end1 d + k) (end2 d + k) r" "separated_from (end1 d + k) r"
    using Cons.IH [of "end1 d + k" "end2 d + k" "end1 d + k" "Some (shifted d k)"] k(2) lo ord k(3,5) by auto
  moreover have "shift_loop s1 f s2 g p (d # ds) =
      bind_result (new_OffsetRange lo1 hi1) (\<lambda>v1. bind_result (new_OffsetRange lo2 hi2) (\<lambda>v2.
      bind_result
       (if OffsetRange_isEmpty (sd_seq1Range d) then
          shiftDiffToBetterPosition d s1 f s2 g v1 v2
        else if OffsetRange_isEmpty (sd_seq2Range d) then
          bind_result (shiftDiffToBetterPosition (SequenceDiff_swap d) s2 g s1 f v2 v1) (\<lambda>d. Ok (SequenceDiff_swap d))
        else Ok d) (\<lambda>shifted.
      bind_result (shift_loop s1 f s2 g (Some shifted) ds) (\<lambda>ds. Ok (shifted # ds)))))"
    by (simp add: lo1_def lo2_def hi1_def hi2_def)
  ultimately show ?case
    using k(1,2) Cons.prems(2) lo(5,6) hi(1,2) ord unfolding sh_def
    by (simp add: new_OffsetRange_def)
qed

lemma shiftSequenceDiffs_ok:
  assumes "diff_source s1" "diff_source s2" "is_diff s1 s2 ds" "proper_diffs ds"
  shows "\<exists>r. shiftSequenceDiffs s1 s2 ds = Ok r \<and> is_diff s1 s2 r \<and> proper_diffs r"
  using shift_loop_ok [OF assms(1) _ assms(2) _ assms(3,4), of _ _ None] assms(3,4)
  by (auto simp: shiftSequenceDiffs_def split: option.split)

lemma optimizeSequenceDiffs_ok:
  assumes "diff_pair s1 s2" "is_diff s1 s2 ds" "proper_diffs ds"
  shows "\<exists>r. optimizeSequenceDiffs s1 s2 ds = Ok r \<and> is_diff s1 s2 r \<and> proper_diffs r"
proof -
  obtain r1 where r1: "joinSequenceDiffsByShifting s1 s2 ds = Ok r1" "is_diff s1 s2 r1" "proper_diffs r1"
    using diff_pair.joinSequenceDiffsByShifting_ok [OF assms] by blast
  moreover obtain r2 where r2: "joinSequenceDiffsByShifting s1 s2 r1 = Ok r2" "is_diff s1 s2 r2" "proper_diffs r2"
    using diff_pair.joinSequenceDiffsByShifting_ok [OF assms(1) r1(2,3)] by blast
  ultimately show ?thesis
    using shiftSequenceDiffs_ok [OF _ _ r2(2,3)] assms(1)
    by (auto simp: optimizeSequenceDiffs_def diff_pair_def)
qed

section \<open>Joining across matches\<close>

lemma join_when_ok:
  "is_diff_from s1 s2 a b (d # ds) \<Longrightarrow> separated_from x (d # ds) \<Longrightarrow>
   \<exists>r. join_when P d ds = Ok r \<and> is_diff_from s1 s2 a b r \<and> separated_from x r"
proof (induction ds arbitrary: d a b x)
  case Nil
  then show ?case by simp
next
  case (Cons e ds)
  show ?case
  proof (cases "P d e")
    case True
    then show ?thesis
      using Cons.IH [OF join_ok(1) [OF Cons.prems(1)] joined_separated [OF Cons.prems(2,1)]] join_ok(2) [OF Cons.prems(1)]
      by simp
  next
    case False
    obtain r where "join_when P e ds = Ok r" "is_diff_from s1 s2 (end1 d) (end2 d) r" "separated_from (end1 d) r"
      using Cons.IH [of "end1 d" "end2 d" e "end1 d"] Cons.prems by auto
    then show ?thesis
      using False Cons.prems by simp
  qed
qed

lemma removeShortMatches_ok:
  assumes "is_diff s1 s2 ds" "proper_diffs ds"
  shows "\<exists>r. removeShortMatches ds = Ok r \<and> is_diff s1 s2 r \<and> proper_diffs r"
  using assms join_when_ok by (cases ds) (auto simp: removeShortMatches_def)

lemma join_short_lines_ok:
  "is_diff_from s1 s2 a b (d # ds) \<Longrightarrow> separated_from x (d # ds) \<Longrightarrow>
   \<exists>r again. join_short_lines l d ds rep = Ok (r, again) \<and> is_diff_from s1 s2 a b r \<and> separated_from x r"
proof (induction ds arbitrary: d a b x rep)
  case Nil
  then show ?case by simp
next
  case (Cons e ds)
  obtain t where t: "unchanged_is_short l d e = Ok t"
    using Cons.prems(1) by (simp add: unchanged_is_short_def new_OffsetRange_def)
  show ?case
  proof (cases t)
    case True
    then show ?thesis
      using Cons.IH [OF join_ok(1) [OF Cons.prems(1)] joined_separated [OF Cons.prems(2,1)], of True]
        join_ok(2) [OF Cons.prems(1)] t by simp
  next
    case False
    obtain r again where "join_short_lines l e ds rep = Ok (r, again)" "is_diff_from s1 s2 (end1 d) (end2 d) r"
      "separated_from (end1 d) r"
      using Cons.IH [of "end1 d" "end2 d" e "end1 d" rep] Cons.prems by auto
    then show ?thesis
      using False t Cons.prems by simp
  qed
qed

lemma short_lines_passes_ok:
  "is_diff s1 s2 ds \<Longrightarrow> proper_diffs ds \<Longrightarrow>
   \<exists>r. short_lines_passes n l ds = Ok r \<and> is_diff s1 s2 r \<and> proper_diffs r"
proof (induction n arbitrary: ds)
  case (Suc n)
  show ?case
  proof (cases ds)
    case (Cons d es)
    then obtain r again where "join_short_lines l d es False = Ok (r, again)" "is_diff s1 s2 r" "proper_diffs r"
      using join_short_lines_ok Suc.prems by blast
    then show ?thesis
      using Suc.IH [of r] Cons by simp
  qed (use Suc.prems in simp)
qed simp

lemma removeVeryShortMatchingLines_ok:
  "is_diff s1 s2 ds \<Longrightarrow> proper_diffs ds \<Longrightarrow>
   \<exists>r. removeVeryShortMatchingLinesBetweenDiffs l ds = Ok r \<and> is_diff s1 s2 r \<and> proper_diffs r"
  using short_lines_passes_ok by (auto simp: removeVeryShortMatchingLinesBetweenDiffs_def)

end
