(* ===== verification/DiffLines.thy ===== *)
theory DiffLines
  imports DiffShiftProofs
begin

text \<open>
  The alignment of lines in \<open>DefaultLinesDiffComputer.computeDiff\<close>
  (\<open>src/vs/editor/common/diff/defaultLinesDiffComputer/defaultLinesDiffComputer.ts\<close>): the lines
  are numbered by their trimmed text, the sequences of these numbers are compared, and the passes
  over the differences follow.  The refinement of a difference to characters is not modelled.
\<close>

section \<open>Numbering the lines\<close>

text \<open>
  \<open>perfectHashes\<close> maps a text to the number of texts seen before it: the list of the texts in the
  order they were seen.
\<close>

fun index_of :: "'a \<Rightarrow> 'a list \<Rightarrow> nat" where
  "index_of x [] = 0"
| "index_of x (y # ys) = (if x = y then 0 else Suc (index_of x ys))"

definition getOrCreateHash :: "js_string list \<Rightarrow> js_string \<Rightarrow> js_string list \<times> int" where
  "getOrCreateHash perfectHashes t =
     (let i = index_of t perfectHashes
      in if i < length perfectHashes then (perfectHashes, int i)
         else (perfectHashes @ [t], int (length perfectHashes)))"

fun hash_lines :: "js_string list \<Rightarrow> js_string list \<Rightarrow> js_string list \<times> int list" where
  "hash_lines perfectHashes [] = (perfectHashes, [])"
| "hash_lines perfectHashes (l # ls) =
     (let (ph, h) = getOrCreateHash perfectHashes (js_trim l); (ph', hs) = hash_lines ph ls
      in (ph', h # hs))"

definition line_sequences :: "js_string list \<Rightarrow> js_string list \<Rightarrow> LineSequence \<times> LineSequence" where
  "line_sequences originalLines modifiedLines =
     (let (ph, originalLinesHashes) = hash_lines [] originalLines;
          (ph', modifiedLinesHashes) = hash_lines ph modifiedLines
      in (\<lparr>ls_trimmedHash = originalLinesHashes, ls_lines = originalLines\<rparr>,
          \<lparr>ls_trimmedHash = modifiedLinesHashes, ls_lines = modifiedLines\<rparr>))"

section \<open>Aligning the lines\<close>

text \<open>
  The score of a pair of lines.  \<open>logLength n\<close> is \<open>Math.log(1 + n)\<close>, whatever the rounding: the
  alignment is correct for any scores.
\<close>

definition line_score ::
  "(nat \<Rightarrow> 'n::linordered_field) \<Rightarrow> js_string list \<Rightarrow> js_string list \<Rightarrow> int \<Rightarrow> int \<Rightarrow> 'n"
where
  "line_score logLength originalLines modifiedLines offset1 offset2 =
     (if js_get originalLines offset1 = js_get modifiedLines offset2 then
        case js_get modifiedLines offset2 of
          None \<Rightarrow> 99 / 100
        | Some l \<Rightarrow> if length l = 0 then 1 / 10 else 1 + logLength (length l)
      else 99 / 100)"

text \<open>
  The line diff: the dynamic program for small files, the greedy algorithm for others, then the
  passes.  \<open>None\<close> as in the greedy algorithm.
\<close>

definition line_alignments ::
  "(nat \<Rightarrow> 'n::linordered_field) \<Rightarrow> js_string list \<Rightarrow> js_string list \<Rightarrow> (nat \<Rightarrow> bool) \<Rightarrow>
   DiffAlgorithmResult result option"
where
  "line_alignments logLength originalLines modifiedLines isValid =
     (let (sequence1, sequence2) = line_sequences originalLines modifiedLines;
          s1 = line_sequence sequence1; s2 = line_sequence sequence2
      in map_option (\<lambda>computed.
           bind_result computed (\<lambda>lineAlignmentResult.
           bind_result (optimizeSequenceDiffs s1 s2 (dr_diffs lineAlignmentResult)) (\<lambda>optimized.
           bind_result (removeVeryShortMatchingLinesBetweenDiffs sequence1 optimized) (\<lambda>lineAlignments.
             Ok \<lparr>dr_diffs = lineAlignments, dr_hitTimeout = dr_hitTimeout lineAlignmentResult\<rparr>))))
         (if sq_length s1 + sq_length s2 < 1700
          then Some (DynamicProgrammingDiffing_compute s1 s2 isValid
                 (Some (line_score logLength originalLines modifiedLines)))
          else MyersDiffAlgorithm_compute s1 s2 isValid))"

section \<open>The numbers stand for the trimmed texts\<close>

lemma index_of_lt: "index_of x xs < length xs \<longleftrightarrow> x \<in> set xs"
  by (induction xs) auto

lemma nth_index_of: "x \<in> set xs \<Longrightarrow> xs ! index_of x xs = x"
  by (induction xs) auto

text \<open>Numbers are positions in the final list of texts, which holds no text twice.\<close>

definition numbers :: "js_string list \<Rightarrow> js_string list \<Rightarrow> int list \<Rightarrow> bool" where
  "numbers ph ls hs \<longleftrightarrow> length hs = length ls \<and>
     (\<forall>i < length ls. 0 \<le> hs ! i \<and> nat (hs ! i) < length ph \<and> ph ! nat (hs ! i) = js_trim (ls ! i))"

lemma numbers_append: "numbers ph ls hs \<Longrightarrow> numbers (ph @ qs) ls hs"
  by (auto simp: numbers_def nth_append)

lemma getOrCreateHash_props:
  assumes "getOrCreateHash ph t = (ph', h)" "distinct ph"
  shows "distinct ph'" "\<exists>qs. ph' = ph @ qs" "0 \<le> h" "nat h < length ph'" "ph' ! nat h = t"
  using assms index_of_lt [of t ph] nth_index_of [of t ph]
  by (auto simp: getOrCreateHash_def Let_def split: if_splits)

lemma hash_lines_props:
  "hash_lines ph ls = (ph', hs) \<Longrightarrow> distinct ph \<Longrightarrow> distinct ph' \<and> (\<exists>qs. ph' = ph @ qs) \<and> numbers ph' ls hs"
proof (induction ph ls arbitrary: ph' hs rule: hash_lines.induct)
  case (1 ph)
  then show ?case by (auto simp: numbers_def)
next
  case (2 ph l ls)
  obtain ph1 h where h: "getOrCreateHash ph (js_trim l) = (ph1, h)"
    by (cases "getOrCreateHash ph (js_trim l)")
  obtain ph2 hs2 where r: "hash_lines ph1 ls = (ph2, hs2)"
    by (cases "hash_lines ph1 ls")
  note g = getOrCreateHash_props [OF h "2.prems"(2)]
  have IH: "distinct ph2 \<and> (\<exists>qs. ph2 = ph1 @ qs) \<and> numbers ph2 ls hs2"
    using "2.IH" h r g(1) by auto
  then have "ph2 ! nat h = js_trim l" "nat h < length ph2"
    using g(4,5) by (auto simp: nth_append)
  then show ?case
    using "2.prems"(1) h r IH g by (auto simp: numbers_def nth_Cons split: nat.splits)
qed

text \<open>The trimmed text of a line, and nothing where there is no line.\<close>

definition trimmed_at :: "js_string list \<Rightarrow> int \<Rightarrow> js_string option" where
  "trimmed_at ls i = map_option js_trim (js_get ls i)"

lemma numbers_get:
  assumes "numbers ph ls hs" "numbers ph ks gs" "distinct ph"
  shows "js_get hs i = js_get gs j \<longleftrightarrow> trimmed_at ls i = trimmed_at ks j"
proof -
  have "hs ! nat i = gs ! nat j \<longleftrightarrow> js_trim (ls ! nat i) = js_trim (ks ! nat j)"
    if "nat i < length ls" "nat j < length ks"
    using assms that nth_eq_iff_index_eq [OF assms(3), of "nat (hs ! nat i)" "nat (gs ! nat j)"]
    unfolding numbers_def by (metis eq_nat_nat_iff)
  then show ?thesis
    using assms by (auto simp: js_get_def numbers_def trimmed_at_def)
qed

text \<open>The sequences of numbered lines meet the assumptions of the passes.\<close>

lemma line_sequence_source:
  assumes "numbers ph ls hs" "distinct ph"
  shows "diff_source (line_sequence \<lparr>ls_trimmedHash = hs, ls_lines = ls\<rparr>)"
proof
  have len: "length hs = length ls"
    using assms by (simp add: numbers_def)
  show "0 \<le> sq_length (line_sequence \<lparr>ls_trimmedHash = hs, ls_lines = ls\<rparr>)"
    by (simp add: line_sequence_def)
  show "sq_getElement (line_sequence \<lparr>ls_trimmedHash = hs, ls_lines = ls\<rparr>) i =
      sq_getElement (line_sequence \<lparr>ls_trimmedHash = hs, ls_lines = ls\<rparr>) j"
    if "sq_isStronglyEqual (line_sequence \<lparr>ls_trimmedHash = hs, ls_lines = ls\<rparr>) i j" for i j
    using that numbers_get [OF assms(1,1,2), of i j]
    by (simp add: line_sequence_def LineSequence_isStronglyEqual_def trimmed_at_def)
  show "\<exists>v. f i = Ok v"
    if "sq_getBoundaryScore (line_sequence \<lparr>ls_trimmedHash = hs, ls_lines = ls\<rparr>) = Some f"
      "0 \<le> i" "i \<le> sq_length (line_sequence \<lparr>ls_trimmedHash = hs, ls_lines = ls\<rparr>)" for f i
    using that len
    by (auto simp: line_sequence_def LineSequence_getBoundaryScore_def indentation_at_def js_get_def)
qed

lemma line_sequences_numbers:
  obtains ph hs1 hs2 where "line_sequences ls ms =
      (\<lparr>ls_trimmedHash = hs1, ls_lines = ls\<rparr>, \<lparr>ls_trimmedHash = hs2, ls_lines = ms\<rparr>)"
    "numbers ph ls hs1" "numbers ph ms hs2" "distinct ph"
proof -
  obtain ph1 hs1 where 1: "hash_lines [] ls = (ph1, hs1)"
    by (cases "hash_lines [] ls")
  obtain ph2 hs2 where 2: "hash_lines ph1 ms = (ph2, hs2)"
    by (cases "hash_lines ph1 ms")
  have "distinct ph1" "numbers ph1 ls hs1"
    using hash_lines_props [OF 1] by simp_all
  moreover have "distinct ph2" "\<exists>qs. ph2 = ph1 @ qs" "numbers ph2 ms hs2"
    using hash_lines_props [OF 2] \<open>distinct ph1\<close> by simp_all
  ultimately show ?thesis
    using 1 2 numbers_append by (intro that [of hs1 hs2 ph2]) (auto simp: line_sequences_def)
qed

interpretation original: diff_source "line_sequence (fst (line_sequences ls ms))" for ls ms
  using line_sequences_numbers [of ls ms] line_sequence_source by (metis fst_conv)

interpretation modified: diff_source "line_sequence (snd (line_sequences ls ms))" for ls ms
  using line_sequences_numbers [of ls ms] line_sequence_source by (metis snd_conv)

interpretation lines: diff_pair "line_sequence (fst (line_sequences ls ms))" "line_sequence (snd (line_sequences ls ms))"
  for ls ms
  by unfold_locales

section \<open>The alignment is a diff of the lines\<close>

text \<open>
  \<open>aligns ls ms ds\<close>: outside the differences the lines are paired in order, and the two of a pair
  are equal up to surrounding white space.
\<close>

fun aligns_from :: "js_string list \<Rightarrow> js_string list \<Rightarrow> int \<Rightarrow> int \<Rightarrow> SequenceDiff list \<Rightarrow> bool" where
  "aligns_from ls ms a b [] \<longleftrightarrow>
     a \<le> int (length ls) \<and> int (length ms) = b + (int (length ls) - a) \<and>
     (\<forall>i. 0 \<le> i \<and> i < int (length ls) - a \<longrightarrow> trimmed_at ls (a + i) = trimmed_at ms (b + i))"
| "aligns_from ls ms a b (d # ds) \<longleftrightarrow>
     a \<le> start1 d \<and> start2 d = b + (start1 d - a) \<and>
     (\<forall>i. 0 \<le> i \<and> i < start1 d - a \<longrightarrow> trimmed_at ls (a + i) = trimmed_at ms (b + i)) \<and>
     start1 d \<le> end1 d \<and> start2 d \<le> end2 d \<and> aligns_from ls ms (end1 d) (end2 d) ds"

lemma is_diff_aligns:
  assumes "numbers ph ls hs" "numbers ph ms gs" "distinct ph"
  shows "is_diff_from (line_sequence \<lparr>ls_trimmedHash = hs, ls_lines = ls\<rparr>)
      (line_sequence \<lparr>ls_trimmedHash = gs, ls_lines = ms\<rparr>) a b ds \<longleftrightarrow> aligns_from ls ms a b ds"
proof (induction ds arbitrary: a b)
  case Nil
  then show ?case
    using assms numbers_get [OF assms]
    by (simp add: line_sequence_def same_part_def numbers_def)
next
  case (Cons d ds)
  then show ?case
    using numbers_get [OF assms] by (simp add: line_sequence_def same_part_def)
qed

lemma line_sequence_proper:
  "proper_sequence (line_sequence s)" "wf_sequence (line_sequence s)"
  by (auto simp: proper_sequence_def wf_sequence_def line_sequence_def js_get_def)

text \<open>The passes after a correct diff.\<close>

lemma passes_ok:
  assumes "line_sequences ls ms = (q1, q2)"
    and "is_diff (line_sequence q1) (line_sequence q2) ds" "proper_diffs ds"
  shows "\<exists>r. bind_result (optimizeSequenceDiffs (line_sequence q1) (line_sequence q2) ds)
      (removeVeryShortMatchingLinesBetweenDiffs q1) = Ok r \<and> aligns_from ls ms 0 0 r \<and> proper_diffs r"
proof -
  obtain ph hs gs where q: "q1 = \<lparr>ls_trimmedHash = hs, ls_lines = ls\<rparr>" "q2 = \<lparr>ls_trimmedHash = gs, ls_lines = ms\<rparr>"
    "numbers ph ls hs" "numbers ph ms gs" "distinct ph"
    using line_sequences_numbers [of ls ms] assms(1) by (metis Pair_inject)
  obtain r1 where r1: "optimizeSequenceDiffs (line_sequence q1) (line_sequence q2) ds = Ok r1"
    "is_diff (line_sequence q1) (line_sequence q2) r1" "proper_diffs r1"
    using optimizeSequenceDiffs_ok [OF lines.diff_pair_axioms [of ls ms]] assms by auto
  obtain r where "removeVeryShortMatchingLinesBetweenDiffs q1 r1 = Ok r"
    "is_diff (line_sequence q1) (line_sequence q2) r" "proper_diffs r"
    using removeVeryShortMatchingLines_ok [OF r1(2,3)] by blast
  then show ?thesis
    using r1(1) is_diff_aligns [OF q(3-5)] q(1,2) by auto
qed

end
