(* ===== verification/Spec2Isabelle.thy ===== *)
theory Spec2Isabelle
  imports ArrayUtils ArrayDiff ArrayQueue Selections LineRangeSets PrefixSumStores EditorGroupRuns
    FoldingProperties EditProperties KeybindingProperties DiffProperties
begin

text \<open>
  A model of core data structures and state machines of the editor in \<open>src/src/vs\<close> (paths below
  are relative to it), translated from the TypeScript sources, and the theorems that make them
  correct.

  Parts and theories.

  \<^item> \<open>Prelude\<close>: errors as sums, the number conversions and the array accesses of the language
    (\<open>js_get\<close>, \<open>js_slice\<close>, \<open>js_splice\<close>), and \<open>base/common/uint.ts\<close>.
  \<^item> \<open>ArraysFind\<close> (\<open>base/common/arraysFind.ts\<close>) and \<open>Arrays\<close>, \<open>ArraySelect\<close>, \<open>ArrayDiff\<close>,
    \<open>ArrayQueue\<close>, \<open>ArrayUtils\<close> (\<open>base/common/arrays.ts\<close>): searches, selection, sorted
    diffs, the queue over an array, permutations.
  \<^item> \<open>Positions\<close>, \<open>Ranges\<close>, \<open>Selections\<close> (\<open>editor/common/core/\<close> \<open>position.ts\<close>,
    \<open>range.ts\<close>, \<open>selection.ts\<close>): the coordinates of a text, one record per class.
  \<^item> \<open>Intervals\<close>: the locale \<open>interval_set\<close>, the contract of a normalised list of half-open
    intervals.  \<open>OffsetRanges\<close> (\<open>core/ranges/offsetRange.ts\<close>) and \<open>LineRanges\<close> with
    \<open>LineRangeSets\<close> (\<open>core/ranges/lineRange.ts\<close>) interpret it; \<open>LineRangeSet\<close> calls the
    binary searches of \<open>ArraysFind\<close>.
  \<^item> \<open>PrefixSums\<close>, \<open>PrefixSumProofs\<close>, \<open>PrefixSumStores\<close> (\<open>editor/common/model/prefixSumComputer.ts\<close>):
    the lazily computed 32-bit table and the table with a reverse index, both instances of the
    locale \<open>prefix_sum_store\<close>.
  \<^item> \<open>EditorGroup\<close> (\<open>workbench/common/editor/editorGroupModel.ts\<close>): the record of the fields of
    \<open>EditorGroupModel\<close>, one definition per method, the events it fires as a list.
    \<open>EditorGroupInv\<close>, \<open>EditorGroupOps\<close>, \<open>EditorGroupOpen\<close>: the invariant, its
    preservation, the effect of each operation.  \<open>EditorGroupRuns\<close>: the step relation over the
    public operations, reachability, serialisation and two runs that show defects.
  \<^item> \<open>FoldingRegions\<close>, \<open>FoldingMerge\<close> (\<open>editor/contrib/folding/browser/foldingRanges.ts\<close>): the
    table of folding regions, two 32-bit words per region that share their high bytes for the parent
    index, three bit fields, and the merge of two lists of ranges.  \<open>FoldingParents\<close>,
    \<open>FoldingStates\<close>, \<open>FoldingMergeProofs\<close>: the stored parents are those of the nesting, the flags
    are independent of them, the merge gives valid ranges.
  \<^item> \<open>HiddenRanges\<close> (\<open>folding/browser/hiddenRangeModel.ts\<close>): the lines the collapsed regions hide.
  \<^item> \<open>FoldingModel\<close>, \<open>FoldingCommands\<close> (\<open>folding/browser/foldingModel.ts\<close>): the model of an editor
    with one decoration per region, and the fold commands over it.  A query may compute the parent
    indices, so it returns the table too (\<open>fold_op\<close>), and it may follow parents for ever on a bad
    table, which is \<open>None\<close>.  \<open>FoldingQueries\<close>, \<open>FoldingInside\<close>,
    \<open>FoldingNavigation\<close>, \<open>FoldingCommandProofs\<close>: every query ends on a well nested table and the
    commands set the flags of a set of regions given in terms of the nesting.
    \<open>FoldingProperties\<close>: the properties.
  \<^item> \<open>Hashes\<close> (\<open>base/common/hash.ts\<close>): the synchronous 32-bit hash, used by the folding mementos.
  \<^item> \<open>Edits\<close> (\<open>editor/common/core/edits/edit.ts\<close>): the abstract classes \<open>BaseEdit\<close> and
    \<open>BaseReplacement\<close>; the methods a subclass defines are the record \<open>repl_class\<close>.  \<open>EditProofs\<close> has
    the locale \<open>replacement\<close>, the contract of a subclass with the content a replacement inserts;
    \<open>EditCompose\<close>, \<open>EditOffsets\<close> prove inside it what \<open>BaseEdit\<close> guarantees.
    \<open>StringEdits\<close> and \<open>AnnotatedEdits\<close> (\<open>stringEdit.ts\<close>, \<open>arrayEdit.ts\<close>, \<open>lengthEdit.ts\<close>) have the
    subclasses, interpreted in \<open>StringEditProofs\<close> and \<open>AnnotatedEditProofs\<close>.  \<open>StringRebase\<close>,
    \<open>StringSwap\<close>: rebasing against the merge of two edits, and swapping.  \<open>StringNarrow\<close>,
    \<open>StringSequential\<close>: normal forms on a source, sequential replacements.  \<open>EditProperties\<close>: the
    properties.
  \<^item> \<open>JsStrings\<close> (\<open>base/common/strings.ts\<close>): strings as lists of UTF-16 code units, common prefixes
    and suffixes, trimming, comparison, code points.
  \<^item> \<open>ContextKeyValues\<close>: the values of a context and what the language does with them (truth, loose
    equality, order, \<open>parseFloat\<close>).  \<open>ContextKeys\<close>, \<open>ContextKeyNormal\<close>
    (\<open>platform/contextkey/common/contextkey.ts\<close>): the expressions of when-clauses, one constructor per
    class, and their normal form.  The mutual recursion of \<open>and\<close>, \<open>or\<close> and \<open>negate\<close> has fuel
    (\<open>and_create\<close>, \<open>or_create\<close>, \<open>ck_negate\<close>); each of their bodies is a definition over the three calls, so
    that the locales \<open>ck_normalizer\<close> (\<open>ContextKeyProofs\<close>: the meaning is kept), \<open>ck_more\<close> and
    \<open>ck_dnf_normalizer\<close> (\<open>ContextKeyDnf\<close>: more fuel changes nothing, the form is kept) state the contract of
    the calls, and the recursion is the interpretation.  \<open>ContextKeyTotal\<close>: enough fuel exists on
    disjunctions of conjunctions.  \<open>ContextKeyImplies\<close>: constants and implication.
  \<^item> \<open>ContextKeyScanner\<close> (\<open>platform/contextkey/common/scanner.ts\<close>) and \<open>ContextKeyParser\<close> (the class \<open>Parser\<close>
    of \<open>contextkey.ts\<close>): the parser builds with a record of operations, \<open>expr_builder\<close> for the code.
    \<open>ContextKeyScanProofs\<close>, \<open>ContextKeyParseProofs\<close>: tokens stand at their offsets, the parser returns with
    six units of fuel per token.  \<open>ContextKeyTrees\<close>: with the tree builder the same parser returns the syntax
    tree, and the expression is built from that tree (locale \<open>builder_homomorphism\<close>).  \<open>ContextKeyBuild\<close>:
    building ends.  \<open>ContextKeyPrint\<close>: trees written as tokens are read back.
    \<open>ContextKeyProperties\<close>: the properties.
  \<^item> \<open>KeybindingResolver\<close> (\<open>platform/keybinding/common/keybindingResolver.ts\<close>): the resolver over the
    when-clauses; it calls \<open>implies\<close> and \<open>substituteConstants\<close>.  \<open>KeybindingProofs\<close>: its maps hold the
    keybindings in order, and what is missing in them was overwritten.  \<open>KeybindingProperties\<close>: the
    properties.
  \<^item> \<open>DiffSequences\<close>, \<open>DiffDynamic\<close>, \<open>DiffMyers\<close>, \<open>DiffOptimize\<close>, \<open>DiffLines\<close>
    (\<open>editor/common/diff/defaultLinesDiffComputer/\<close>): the line diff over \<open>OffsetRange\<close>.  \<open>DiffSequences\<close>
    (\<open>algorithms/diffAlgorithm.ts\<close>) has the differences and the contract \<open>is_diff\<close> of a diff;
    \<open>DiffDynamic\<close> and \<open>DiffMyers\<close> the two algorithms, \<open>DiffOptimize\<close>
    (\<open>heuristicSequenceOptimizations.ts\<close>, \<open>lineSequence.ts\<close>) the passes over their result, and \<open>DiffLines\<close>
    (\<open>defaultLinesDiffComputer.ts\<close>) the numbering of the lines and the composition.
    \<open>DiffDynamicProofs\<close>, \<open>DiffMyersProofs\<close>: both algorithms keep the contract.  \<open>DiffOptimizeProofs\<close>,
    \<open>DiffShiftProofs\<close>: the passes keep it, under the locales \<open>diff_source\<close> and \<open>diff_pair\<close> (strongly equal
    elements are equal, boundary scores exist inside the sequence), interpreted on the line
    sequences of two files (\<open>original\<close>, \<open>modified\<close>, \<open>lines\<close>).  \<open>DiffProperties\<close>: the properties.

  Conventions.  A number is an \<open>int\<close>; where the code narrows it (\<open>| 0\<close>, cells of a
  \<open>Uint32Array\<close>) the narrowing is written out.  A \<open>throw\<close> is a value \<open>Inl\<close>.  A read outside
  an array is \<open>None\<close>.  Mutable arrays are lists that operations return updated.  Loops are
  recursive functions over the loop's own variables, with a termination proof; the search of
  \<open>PrefixSumComputer.getIndexOf\<close> is a \<open>partial_function\<close> and its termination is a theorem
  (\<open>getIndexOf_inverts_sums\<close>).  A number that may be \<open>undefined\<close> or \<open>NaN\<close> is an option in the
  two diff algorithms.  The loop of the greedy diff, which has no bound, is a \<open>partial_function\<close>.
  \<open>quickSelect\<close> has fuel: the length of the array plus one suffices, because each call is on a
  strictly shorter array (\<open>quickSelect_rank\<close>).  The fuel of the when-clause operations has no closed bound:
  \<open>normal_form_returns\<close> and \<open>parse_returns\<close> show that some fuel is enough and that more gives the same.

  The properties are about the editor group, arrays, prefix sums, sets of lines and offsets, and ranges
  (in this theory), folding and hashes (\<open>FoldingProperties\<close>), edits (\<open>EditProperties\<close>) when-clauses
  (\<open>ContextKeyProperties\<close>), keybindings (\<open>KeybindingProperties\<close>) and the line diff (\<open>DiffProperties\<close>); each has its number.  The theorems without a number are further results of the
  same kind.

  Not modelled: event listeners, disposal and configuration changes of the editor group and of the
  folding model; string rendering (\<open>toString\<close>), structural type guards and promises of the modelled
  files; SHA-1; the registry of context keys and their service; the parser of the debugging notation of edits;
  the refinement of line differences to characters and words, and moved lines; regular expressions; rendering,
  services, extensions, processes and tooling.  Parameters of the model: the \<open>matches\<close> method of
  editor inputs and the configuration values (\<open>group_env\<close>), the editor serialisers, the
  comparison functions, the random pivots, the text model and the decorations (\<open>fold_env\<close>), the
  join of the data of annotated edits; for when-clauses (\<open>ck_env\<close>) the table of constants, the platform, the
  printing of numbers, lower case, regular expressions and the letters of Unicode; for the line diff the
  logarithm in the scores and the timeout, a predicate of the number of times it was asked.
\<close>

section \<open>Editor groups\<close>



text \<open>C2: A new editor that does not replace the preview lands among the sticky editors exactly when
  it is opened as sticky or at the index of a sticky editor, whatever the configured position; all
  other editors keep their order and stay on their side.\<close>

theorem open_new_editor_side:
  assumes "group_inv env g" "fresh_input env e g"
    and "case op_index opts of None \<Rightarrow> True | Some i \<Rightarrow> 0 \<le> i"
    and "open_makePinned opts \<or> ge_preview g = None"
  shows "remove1 e (sticky_editors (openNew env e opts g)) = sticky_editors g \<and>
    remove1 e (other_editors (openNew env e opts g)) = other_editors g \<and>
    (e \<in> set (sticky_editors (openNew env e opts g)) \<longleftrightarrow> open_makeSticky opts g) \<and>
    e \<in> set (ge_editors (openNew env e opts g))"
  using openNew_sticky [OF assms] .

theorem open_new_editor_side_witness:
  "plain 7 \<in> set (ge_editors (openNew plain_env (plain 7) (default_open\<lparr>op_sticky := True\<rparr>)
     (new_EditorGroupModel 0)))"
  using open_new_editor_side [of plain_env "new_EditorGroupModel 0" "plain 7" "default_open\<lparr>op_sticky := True\<rparr>"]
    new_group_inv [of plain_env 0]
  by (simp add: fresh_input_def new_EditorGroupModel_def default_open_def open_makePinned_def)



text \<open>C4: Moving an editor puts it at the clamped target index, keeps the order of the others, and
  makes it sticky exactly when the target is a sticky position.\<close>

theorem move_editor_effect:
  assumes "group_inv env g" "e \<in> set (ge_editors g)"
  shows "group_inv env (fst (moveEditor env e t g)) \<and>
    remove1 e (ge_editors (fst (moveEditor env e t g))) = remove1 e (ge_editors g) \<and>
    ge_editors (fst (moveEditor env e t g)) ! nat (move_target t g) = e \<and>
    set (sticky_editors (fst (moveEditor env e t g))) =
      (if move_target t g \<le> ge_sticky g then insert e (set (sticky_editors g))
       else set (sticky_editors g) - {e})"
  using moveEditor_group_inv [OF assms(1)] moveEditor_sticky [OF assms] by simp

theorem move_editor_effect_witness:
  "set (sticky_editors (fst (moveEditor plain_env (plain 2) (-4) one_sticky_group))) = {plain 1, plain 2}"
proof -
  have "ge_sticky one_sticky_group = 0" by (simp add: one_sticky_group_def group_eval)
  then show ?thesis
    using one_sticky_group_inv move_editor_effect [of plain_env one_sticky_group "plain 2" "-4"]
    by (auto simp: one_sticky_group_editors move_target_def)
qed

text \<open>C5: Sticking an editor appends it to the sticky ones, unsticking a sticky editor makes it the
  first of the others; neither disturbs the order of the rest, and both keep the invariant.\<close>

theorem stick_unstick_effect:
  assumes "group_inv env g" "e \<in> set (ge_editors g)"
  shows "if e \<in> set (sticky_editors g)
    then sticky_editors (fst (unstick env e g)) = remove1 e (sticky_editors g) \<and>
      other_editors (fst (unstick env e g)) = e # other_editors g \<and> group_inv env (fst (unstick env e g))
    else sticky_editors (fst (stick env e g)) = sticky_editors g @ [e] \<and>
      other_editors (fst (stick env e g)) = remove1 e (other_editors g) \<and> group_inv env (fst (stick env e g))"
  using unstick_spec [OF assms(1)] stick_spec [OF assms] by simp

theorem stick_unstick_effect_witness:
  "sticky_editors (fst (stick plain_env (plain 2) one_sticky_group)) = [plain 1, plain 2]"
proof -
  show ?thesis
    using one_sticky_group_inv stick_unstick_effect [of plain_env one_sticky_group "plain 2"]
    by (simp add: one_sticky_group_editors)
qed

text \<open>C6: Serializing a group and reading it back, with serializers that restore every editor they
  wrote, gives a group with the serializable editors in order, their recency order, the preview
  editor if it was serializable, and exactly the serializable sticky editors sticky.\<close>

theorem group_serialization_roundtrip:
  assumes "group_inv env g" "\<And>e s. e \<in> set (ge_editors g) \<Longrightarrow> ser e = Some s \<Longrightarrow> des s = Some (r e)"
  shows "ge_editors (fst (ge_deserialize des ids (ge_serialize env ser g))) =
      map r (serializable ser (ge_editors g)) \<and>
    ge_mru (fst (ge_deserialize des ids (ge_serialize env ser g))) = map r (serializable ser (ge_mru g)) \<and>
    ge_preview (fst (ge_deserialize des ids (ge_serialize env ser g))) =
      map_option r (Option.bind (ge_preview g) (\<lambda>p. if ser p = None then None else Some p)) \<and>
    sticky_editors (fst (ge_deserialize des ids (ge_serialize env ser g))) =
      map r (serializable ser (sticky_editors g)) \<and>
    ge_locked (fst (ge_deserialize des ids (ge_serialize env ser g))) = ge_locked g \<and>
    ge_id (fst (ge_deserialize des ids (ge_serialize env ser g))) = ge_id g"
  using group_serialize_roundtrip [OF assms] .

theorem group_serialization_roundtrip_witness:
  "sticky_editors (fst (ge_deserialize (\<lambda>s. Some (plain 9)) 5 (ge_serialize plain_env
     (\<lambda>e. if e = plain 1 then Some (''id'', ''one'') else None) one_sticky_group))) = [plain 9]"
proof -
  show ?thesis
    using one_sticky_group_inv group_serialization_roundtrip [of plain_env one_sticky_group
        "\<lambda>e. if e = plain 1 then Some (''id'', ''one'') else None" "\<lambda>s. Some (plain 9)" "\<lambda>_. plain 9" 5]
    by (simp add: one_sticky_group_editors serializable_def)
qed

section \<open>Diffs and splices\<close>

text \<open>C7: \<open>sortedDiff\<close> is sound for every comparator and every pair of arrays, sorted or not: applying
  the splices to the old array gives the new one, element by element the same or equal for the
  comparator.\<close>

theorem sortedDiff_transforms:
  "list_all2 (same_by cmp) (apply_splices before (sortedDiff before after cmp)) after"
  by (rule sortedDiff_sound)

text \<open>\<open>insertInto\<close> shifts and writes in place what the native \<open>splice\<close> inserts, and \<open>splice\<close>
  built from \<open>splice\<close> and \<open>insertInto\<close> returns and leaves what the native call does, for every
  start index, negative or past the end.\<close>

theorem insertInto_splice_native:
  "insertInto u xs st ys = js_splice xs st 0 ys \<and>
   array_splice u xs st n ys =
     (take (nat n) (drop (js_rel_index (length xs) st) xs), js_splice xs st n ys)"
  using insertInto_splice [of u xs st ys] array_splice_native [of u xs st n ys] by simp

text \<open>\<open>groupAdjacentBy\<close> cuts an array into non-empty groups of consecutive related elements,
  loses nothing, and starts a new group only where two neighbours are unrelated.\<close>

theorem groupAdjacentBy_partitions:
  "concat (groupAdjacentBy items R) = items \<and> good_groups R (groupAdjacentBy items R)"
  by (rule groupAdjacentBy_groups)

section \<open>Selection and search in arrays\<close>

text \<open>C8: \<open>quickSelect\<close> returns, whatever pivots it picks, an element of the requested rank: at most
  \<open>n\<close> elements are below it and more than \<open>n\<close> are not above it.  The recursion ends within
  \<open>length data\<close> calls.\<close>

theorem quickSelect_rank:
  assumes "comparator cmp" "n < length data" "length data < fuel"
  shows "\<exists>v. quickSelect fuel pick n data cmp = Some (Ok v) \<and> has_rank cmp data n v"
  by (rule comparator.quickSelect_total [OF assms])

theorem quickSelect_rank_witness:
  "\<exists>v. quickSelect 4 (\<lambda>_. 1) 1 [30, 10, 20] numberComparator = Some (Ok v) \<and>
       has_rank numberComparator [30, 10, 20] 1 v"
  by (rule quickSelect_rank [OF numberOrder.comparator_axioms]) simp_all

text \<open>\<open>top\<close> and the batched \<open>topAsync\<close> return the first \<open>n\<close> elements of the stably sorted
  array, for every batch size.\<close>

theorem top_is_sorted_prefix:
  assumes "comparator cmp"
  shows "top_n xs cmp n = take n (js_sort cmp xs) \<and> topAsync_n xs cmp n batch = take n (js_sort cmp xs) \<and>
    sorted_by cmp (js_sort cmp xs) \<and> mset (js_sort cmp xs) = mset xs"
  using comparator.top_n_sort [OF assms, of xs n] comparator.topAsync_n_top_n [OF assms, of xs n batch]
    comparator.sorted_js_sort [OF assms, of xs] mset_js_sort [of cmp xs] by simp

theorem top_is_sorted_prefix_witness:
  "top_n [3, 1, 2] numberComparator 2 = take 2 (js_sort numberComparator [3, 1, 2])"
  using top_is_sorted_prefix [OF numberOrder.comparator_axioms, of "[3, 1, 2]" 2 1] by simp



text \<open>Repeated searches in a \<open>MonotonousArray\<close>, each resuming where the last one stopped, give
  what a search from the beginning gives, as long as every predicate is implied by the previous one.\<close>

theorem monotonousArray_resumes:
  assumes "monotonous_down (ma_array m) p" "MonotonousArray_ready p m"
    and "(r, m') = MonotonousArray_findLastMonotonous False p m"
  shows "r = Ok (findLastMonotonous (ma_array m) p) \<and> ma_array m' = ma_array m \<and>
    (\<forall>q. (\<forall>x. p x \<longrightarrow> q x) \<longrightarrow> MonotonousArray_ready q m')"
  by (rule MonotonousArray_findLast_correct [OF assms])

theorem monotonousArray_resumes_witness:
  "fst (MonotonousArray_findLastMonotonous False (\<lambda>x. x < 3) (new_MonotonousArray [1, 2, 3 :: int])) =
   Ok (findLastMonotonous (ma_array (new_MonotonousArray [1, 2, 3])) (\<lambda>x. x < 3))"
proof -
  have "monotonous_down (ma_array (new_MonotonousArray [1, 2, 3 :: int])) (\<lambda>x. x < 3)"
    unfolding monotonous_down_def new_MonotonousArray_def
    using sorted_nth_mono [of "[1, 2, 3 :: int]"] by fastforce
  moreover have "MonotonousArray_ready (\<lambda>x. x < 3) (new_MonotonousArray [1, 2, 3 :: int])"
    by (simp add: MonotonousArray_ready_def new_MonotonousArray_def)
  ultimately show ?thesis
    using monotonousArray_resumes
      [OF _ _ prod.collapse, of "new_MonotonousArray [1, 2, 3 :: int]" "\<lambda>x. x < 3"] by simp
qed

text \<open>Sorting through a permutation: applying the permutation \<open>createSortPermutation\<close> computes
  gives the stably sorted array, and \<open>inverse\<close> undoes any permutation, on either side.\<close>

theorem permutation_sort_inverse:
  assumes "comparator cmp" "is_permutation (length arr) m"
  shows "Permutation_apply (createSortPermutation arr cmp) arr = Some (js_sort cmp arr) \<and>
    Option.bind (Permutation_apply m arr) (Permutation_apply (Permutation_inverse m)) = Some arr \<and>
    Option.bind (Permutation_apply (Permutation_inverse m) arr) (Permutation_apply m) = Some arr"
  using comparator.Permutation_sort [OF assms(1), of arr] Permutation_inverse_undoes [OF assms(2)] by simp

theorem permutation_sort_inverse_witness:
  "Option.bind (Permutation_apply [2, 0, 1] [5, 6, 7 :: int]) (Permutation_apply (Permutation_inverse [2, 0, 1])) =
   Some [5, 6, 7]"
  using permutation_sort_inverse [OF numberOrder.comparator_axioms, of "[5, 6, 7]" "[2, 0, 1]"]
  by (simp add: is_permutation_def upt_rec)



section \<open>Prefix sums\<close>



text \<open>C12: \<open>PrefixSumComputer.getIndexOf\<close> inverts the prefix sums: it returns, in every valid state
  with a total below 2^32 and for every (also negative or too large) sum, the index of the item the
  sum falls into, clamped at the ends, and the sum minus the sum of the items before it.\<close>

theorem getIndexOf_inverts_sums:
  assumes "psc_inv s" "psc_values s \<noteq> []" "sum_list (map uint (psc_values s)) < 4294967296"
  shows "\<exists>s' k. psc_getIndexOf t s =
      (s', Some \<lparr>ior_index = int k, ior_remainder = Some (t - isum (psc_values s) k)\<rparr>) \<and>
    psc_inv s' \<and> psc_values s' = psc_values s \<and> is_index_of (psc_values s) t k"
  by (rule getIndexOf_spec [OF assms])

theorem getIndexOf_inverts_sums_witness:
  "\<exists>s' k. psc_getIndexOf (-3) (new_PrefixSumComputer [2, 0, 5]) =
     (s', Some \<lparr>ior_index = int k, ior_remainder = Some (-3 - isum [2, 0, 5] k)\<rparr>)"
  using getIndexOf_inverts_sums [of "new_PrefixSumComputer [2, 0, 5]" "-3"] new_psc_inv [of "[2, 0, 5]"]
  by (auto simp: new_PrefixSumComputer_def)

text \<open>The edits of \<open>PrefixSumComputer\<close> act on the values as list edits and keep the trusted
  part of the table right, so that \<open>getPrefixSum\<close> always returns the sum of the first values,
  modulo 2^32.\<close>

theorem prefix_sum_edits:
  assumes "psc_inv s" "k \<le> length (psc_values s)" "int (length (psc_values s) + length ins) < 2147483648"
    and "ins \<noteq> []" "0 \<le> idx" "idx < 2147483648"
  shows "\<exists>s' s''. psc_insertValues (int k) ins s = (s', Ok True) \<and>
    psc_values s' = take k (psc_values s) @ ins @ drop k (psc_values s) \<and>
    psc_getPrefixSum idx s' = (s'', Some (uint (psum (psc_values s') (nat idx + 1)))) \<and> psc_inv s''"
proof -
  obtain s' where s': "psc_insertValues (int k) ins s = (s', Ok True)" "psc_inv s'"
    "psc_values s' = take k (psc_values s) @ ins @ drop k (psc_values s)"
    using insertValues_spec [OF assms(1-3)] assms(4) by auto
  moreover have "psc_values s' \<noteq> []" using s'(3) assms(4) by simp
  ultimately show ?thesis using getPrefixSum_spec [OF s'(2) _ assms(5,6)] by blast
qed

theorem prefix_sum_edits_witness:
  "\<exists>s'. psc_insertValues 1 [7] (new_PrefixSumComputer [2, 3]) = (s', Ok True) \<and> psc_values s' = [2, 7, 3]"
  using prefix_sum_edits [of "new_PrefixSumComputer [2, 3]" 1 "[7]" 0] new_psc_inv [of "[2, 3]"]
  by (auto simp: new_PrefixSumComputer_def)

section \<open>Sets of line ranges\<close>



text \<open>\<open>subtractFrom\<close> returns the lines of a range outside the set, as a sorted array of
  separated, non-empty ranges; \<open>intersects\<close> tells whether the range and the set share a line.\<close>

theorem lineRangeSet_subtractFrom_exact:
  assumes "lr_good rs" "wf_lr r" "\<not> LineRange_isEmpty r"
  shows "(\<exists>out. LineRangeSet_subtractFrom rs r = Ok out \<and> lr_good out \<and>
      lr_members out = lr_set r - lr_members rs) \<and>
    (LineRangeSet_intersects rs r \<longleftrightarrow> lr_members rs \<inter> lr_set r \<noteq> {})"
  using subtractFrom_good [OF assms] intersects_iff [OF assms] by simp

theorem lineRangeSet_subtractFrom_exact_witness:
  "\<exists>out. LineRangeSet_subtractFrom [mk_lr 3 5] (mk_lr 1 9) = Ok out \<and> lr_good out"
  using lineRangeSet_subtractFrom_exact [of "[mk_lr 3 5]" "mk_lr 1 9"]
  by (auto simp: lr_good_Cons wf_lr_def LineRange_isEmpty_def)

text \<open>\<open>LineRange.joinMany\<close> merges any number of range arrays into one array of all their lines.\<close>

theorem joinMany_union:
  assumes "list_all lr_good rss"
  shows "\<exists>out. LineRange_joinMany rss = Ok out \<and> lr_good out \<and> lr_members out = \<Union> (lr_members ` set rss)"
  using joinMany_good [of rss] assms by (simp add: list_all_iff)

theorem joinMany_union_witness:
  "\<exists>out. LineRange_joinMany [[mk_lr 1 3], [mk_lr 2 5, mk_lr 8 9]] = Ok out \<and> lr_good out"
  using joinMany_union [of "[[mk_lr 1 3], [mk_lr 2 5, mk_lr 8 9]]"] by (auto simp: lr_good_Cons)

text \<open>\<open>LineRange.subtract\<close> returns at most two ranges that contain exactly the lines of the
  first range outside the (non-empty) second.\<close>

theorem lineRange_subtract_exact:
  assumes "wf_lr a" "\<forall>b. bo = Some b \<longrightarrow> wf_lr b \<and> \<not> LineRange_isEmpty b"
  shows "\<exists>rs. LineRange_subtract a bo = Ok rs \<and> (\<forall>r \<in> set rs. wf_lr r) \<and>
    lr_members rs = lr_set a - (case bo of None \<Rightarrow> {} | Some b \<Rightarrow> lr_set b)"
  by (rule subtract_spec [OF assms])

theorem lineRange_subtract_exact_witness:
  "\<exists>rs. LineRange_subtract (mk_lr 1 9) (Some (mk_lr 3 5)) = Ok rs \<and>
     lr_members rs = lr_set (mk_lr 1 9) - lr_set (mk_lr 3 5)"
  using lineRange_subtract_exact [of "mk_lr 1 9" "Some (mk_lr 3 5)"]
  by (auto simp: wf_lr_def LineRange_isEmpty_def)

section \<open>Offset ranges\<close>

text \<open>\<open>OffsetRange.addRange\<close> and \<open>OffsetRangeSet.intersectWithRange\<close> compute the union and the
  intersection of sets of offsets and keep the array sorted and disjoint; the length of the set is
  the number of its offsets.\<close>

theorem offsetRangeSet_operations:
  assumes "or_normal rs" "wf_or r"
  shows "(\<exists>a. OffsetRange_addRange r rs = Ok a \<and> or_normal a \<and> or_members a = or_members rs \<union> or_set r \<and>
      OffsetRangeSet_length a = int (card (or_members rs \<union> or_set r))) \<and>
    (\<exists>i. OffsetRangeSet_intersectWithRange rs r = Ok i \<and> or_normal i \<and>
      or_members i = or_members rs \<inter> or_set r)"
  using OffsetRange_addRange_spec [OF assms] OffsetRangeSet_length_card
    OffsetRangeSet_intersectWithRange_spec [OF assms(1), of r] by metis

theorem offsetRangeSet_operations_witness:
  "\<exists>a. OffsetRange_addRange (mk_or 2 6) [mk_or 0 3, mk_or 5 8] = Ok a \<and> or_normal a"
  using offsetRangeSet_operations [of "[mk_or 0 3, mk_or 5 8]" "mk_or 2 6"]
  by (auto simp: or_normal_def interval_simps wf_or_def)

text \<open>\<open>clip\<close> returns the offset of a non-empty range nearest to its argument.  \<open>clipCyclic\<close>
  returns the offset of the range congruent to its argument modulo the length, except for arguments
  below the start by a multiple of the length, where it returns the exclusive end.\<close>

theorem offsetRange_clips:
  assumes "wf_or r" "\<not> OffsetRange_isEmpty r"
  shows "(\<exists>x. OffsetRange_clip r v = Ok x \<and> OffsetRange_contains r x \<and>
      (\<forall>y. OffsetRange_contains r y \<longrightarrow> \<bar>v - x\<bar> \<le> \<bar>v - y\<bar>)) \<and>
    OffsetRange_clipCyclic r v =
      Ok (if v < or_start r \<and> OffsetRange_length r dvd (or_start r - v) then or_endExclusive r
          else or_start r + (v - or_start r) mod OffsetRange_length r)"
  using OffsetRange_clip_spec [OF assms] OffsetRange_clipCyclic_value [OF assms] by simp

theorem offsetRange_clips_witness:
  "OffsetRange_clipCyclic (mk_or 3 6) 0 = Ok 6 \<and> \<not> OffsetRange_contains (mk_or 3 6) 6"
  using offsetRange_clips [of "mk_or 3 6" 0]
  by (simp add: wf_or_def OffsetRange_isEmpty_def OffsetRange_length_def OffsetRange_contains_def)

section \<open>Positions, ranges and selections\<close>

text \<open>\<open>Position.compare\<close> is the lexicographic order of line and column on positions whose
  coordinates fit 32 bits, agrees with \<open>isBefore\<close> and \<open>equals\<close>, and is a total preorder on all.\<close>

theorem position_compare_lexicographic:
  assumes "int32_position a" "int32_position b"
  shows "(Position_compare a b < 0 \<longleftrightarrow> Position_isBefore a b) \<and>
    (Position_compare a b \<le> 0 \<longleftrightarrow> Position_isBeforeOrEqual a b) \<and>
    (Position_compare a b = 0 \<longleftrightarrow> Position_equals (Some a) (Some b)) \<and>
    (Position_isBefore a b \<longleftrightarrow> lineNumber a < lineNumber b \<or>
       (lineNumber a = lineNumber b \<and> column a < column b)) \<and> comparator Position_compare"
proof -
  note c = Position_compare_order [OF assms]
  have "Position_compare a b \<le> 0 \<longleftrightarrow> a \<le> b" using c(3) by (simp add: linorder_not_less [symmetric])
  with c positionOrder.comparator_axioms show ?thesis
    by (simp add: Position_isBefore_less Position_isBeforeOrEqual_le Position_equals_eq Position_less_iff)
qed

theorem position_compare_lexicographic_witness:
  "Position_compare (mk_pos 1 9) (mk_pos 2 1) < 0"
  using position_compare_lexicographic [of "mk_pos 1 9" "mk_pos 2 1"]
  by (simp add: int32_position_def is_int32_def Position_isBefore_def)

text \<open>A \<open>Range\<close> is the set of positions between its ends: \<open>containsPosition\<close> is membership,
  \<open>containsRange\<close> inclusion, \<open>intersectRanges\<close> intersection (\<open>null\<close> for disjoint ranges),
  \<open>plusRange\<close> the smallest range over both, and \<open>areIntersectingOrTouching\<close> a common position.\<close>

theorem range_set_operations:
  assumes "wf_range a" "wf_range b"
  shows "(Range_containsPosition a p \<longleftrightarrow> p \<in> range_points a) \<and>
    (Range_containsRange a b \<longleftrightarrow> range_points b \<subseteq> range_points a) \<and>
    (case Range_intersectRanges a b of None \<Rightarrow> {} | Some r \<Rightarrow> range_points r) = range_points a \<inter> range_points b \<and>
    range_points (Range_plusRange a b) =
      {min (Range_getStartPosition a) (Range_getStartPosition b) ..
       max (Range_getEndPosition a) (Range_getEndPosition b)} \<and>
    (Range_areIntersectingOrTouching a b \<longleftrightarrow> range_points a \<inter> range_points b \<noteq> {})"
  using Range_containsPosition_points [of a p] Range_containsRange_points [OF assms(2), of a]
    Range_intersectRanges_points [of a b] Range_plusRange_ends [OF assms]
    Range_intersecting_or_touching [OF assms] by (simp add: range_points_def)

theorem range_set_operations_witness:
  "Range_areIntersectingOrTouching (new_Range 1 1 2 5) (new_Range 2 5 3 1) \<longleftrightarrow>
   range_points (new_Range 1 1 2 5) \<inter> range_points (new_Range 2 5 3 1) \<noteq> {}"
  using range_set_operations [of "new_Range 1 1 2 5" "new_Range 2 5 3 1" "mk_pos 1 1"] new_Range_wf by blast


text \<open>A selection is determined by its range and its direction: rebuilding it from the two gives
  it back, and two selections are equal for the code exactly when they are the same.\<close>

theorem selection_range_direction:
  assumes "wf_selection s" "wf_selection s'"
  shows "Selection_fromRange s (Selection_getDirection s) = s \<and>
    (Selection_selectionsEqual s s' \<longleftrightarrow> s = s')"
  using Selection_range_roundtrip [OF assms(1)] Selection_equal_iff [OF assms] by simp

theorem selection_range_direction_witness:
  "Selection_fromRange (new_Selection 3 1 1 2) (Selection_getDirection (new_Selection 3 1 1 2)) =
   new_Selection 3 1 1 2"
  using selection_range_direction [of "new_Selection 3 1 1 2" "new_Selection 1 1 1 1"] new_Selection_wf by blast

end
